(* ===== verification/Prelude.thy ===== *)
theory Prelude
  imports Main "HOL-Library.Word"
begin

text \<open>
  Vocabulary shared by every theory of the development.

  \<^item> The fixed-width integers of the C++ code (\<open>tu_uint8\<close> .. \<open>tu_uint64\<close>); a signed type has
    the same carrier and is read with \<open>sint\<close>.
  \<^item> \<open>status\<close>: the return value of the fallible functions (\<open>tempo_utils::Status\<close>), a
    condition or \<open>Ok\<close>. A stateful operation returns the status together with the state it
    leaves behind, because an operation that fails half way keeps the writes it made.
    \<open>and_then\<close> is \<open>TU_RETURN_IF_NOT_OK\<close>: stop at the first status that is not ok.
  \<^item> The big-endian layout of words as byte lists, and its inverse.
\<close>

unbundle bit_operations_syntax

type_synonym u8 = "8 word"
type_synonym u16 = "16 word"
type_synonym u32 = "32 word"
type_synonym u64 = "64 word"

named_theorems layout_simps \<open>lengths and unfoldings of byte layouts\<close>
named_theorems wf_intros \<open>preservation of the component invariants\<close>

subsection \<open>Statuses and sequencing\<close>

datatype 'c status = Ok | NotOk 'c

text \<open>The conditions of the object library (\<open>lyric_object/object_result.h\<close>).\<close>

datatype object_condition = kObjectInvariant | kMissingSymbol

definition and_then :: "'c status \<times> 's \<Rightarrow> ('s \<Rightarrow> 'c status \<times> 's) \<Rightarrow> 'c status \<times> 's" where
  "and_then r f = (case fst r of Ok \<Rightarrow> f (snd r) | NotOk c \<Rightarrow> r)"

lemma and_then_Ok [simp]: "and_then (Ok, s) f = f s"
  by (simp add: and_then_def)

lemma and_then_NotOk [simp]: "and_then (NotOk c, s) f = (NotOk c, s)"
  by (simp add: and_then_def)

lemma and_then_assoc: "and_then (and_then r f) g = and_then r (\<lambda>s. and_then (f s) g)"
  by (cases r) (auto simp: and_then_def split: status.splits)

lemma and_then_is_Ok:
  "and_then r f = (Ok, t) \<longleftrightarrow> (\<exists>s. r = (Ok, s) \<and> f s = (Ok, t))"
  by (cases r) (auto simp: and_then_def split: status.splits)

subsection \<open>Big-endian layouts\<close>

definition be16 :: "u16 \<Rightarrow> u8 list" where
  "be16 w = [ucast (drop_bit 8 w), ucast w]"

definition be32 :: "u32 \<Rightarrow> u8 list" where
  "be32 w = [ucast (drop_bit 24 w), ucast (drop_bit 16 w), ucast (drop_bit 8 w), ucast w]"

definition be64 :: "u64 \<Rightarrow> u8 list" where
  "be64 w = [ucast (drop_bit 56 w), ucast (drop_bit 48 w), ucast (drop_bit 40 w),
             ucast (drop_bit 32 w), ucast (drop_bit 24 w), ucast (drop_bit 16 w),
             ucast (drop_bit 8 w), ucast w]"

fun be_value :: "u8 list \<Rightarrow> 'a::len word \<Rightarrow> 'a word" where
  "be_value [] acc = acc"
| "be_value (b # bs) acc = be_value bs (push_bit 8 acc OR ucast b)"

lemma length_be [simp, layout_simps]:
  "length (be16 a) = 2" "length (be32 b) = 4" "length (be64 c) = 8"
  by (simp_all add: be16_def be32_def be64_def)

lemma byte_of_drop_bit [simp]:
  "push_bit 8 (drop_bit (k + 8) w) OR ucast (ucast (drop_bit k w) :: u8) = drop_bit k (w :: 'a::len word)"
proof (rule bit_word_eqI)
  fix n assume n: "n < LENGTH('a)"
  show "bit (push_bit 8 (drop_bit (k + 8) w) OR ucast (ucast (drop_bit k w) :: u8)) n
      \<longleftrightarrow> bit (drop_bit k w) n"
  proof (cases "n < 8")
    case True
    with n show ?thesis by (auto simp: bit_simps)
  next
    case False
    then have "k + 8 + (n - 8) = k + n" by simp
    with False n show ?thesis by (auto simp: bit_simps)
  qed
qed

lemma top_byte:
  assumes "LENGTH('a::len) = k + 8"
  shows "ucast (ucast (drop_bit k w) :: u8) = drop_bit k (w :: 'a word)"
proof (rule bit_word_eqI)
  fix n assume "n < LENGTH('a)"
  with assms show "bit (ucast (ucast (drop_bit k w) :: u8) :: 'a word) n \<longleftrightarrow> bit (drop_bit k w) n"
    by (auto simp: bit_simps dest: bit_imp_le_length)
qed

lemma be_value_be16 [simp]: "be_value (be16 w) 0 = w"
  using byte_of_drop_bit [of 0 w] by (simp add: be16_def top_byte)

lemma be_value_be32 [simp]: "be_value (be32 w) 0 = w"
  using byte_of_drop_bit [of 16 w] byte_of_drop_bit [of 8 w] byte_of_drop_bit [of 0 w]
  by (simp add: be32_def top_byte)

lemma be_value_be64 [simp]: "be_value (be64 w) 0 = w"
  using byte_of_drop_bit [of 48 w] byte_of_drop_bit [of 40 w] byte_of_drop_bit [of 32 w]
    byte_of_drop_bit [of 24 w] byte_of_drop_bit [of 16 w] byte_of_drop_bit [of 8 w]
    byte_of_drop_bit [of 0 w]
  by (simp add: be64_def top_byte)

end
