(* ===== verification/Opcodes.thy ===== *)
theory Opcodes
  imports Prelude
begin

text \<open>
  The instruction vocabulary of the object format
  (\<open>lyric_object/object_types.h\<close>, \<open>object_types.cpp\<close>, the operation table of
  \<open>bytecode_iterator.cpp\<close> and \<open>internal/object_reader.h\<close>): the opcode enumeration with its
  byte values, the operand class of every opcode with its size in bytes, the flag bytes, the
  address encoding (near, far, invalid) and the section enumerations.

  The lemmas show that the tables agree with the enumerations they are indexed by, that the
  opcode and section codes are invertible, and that an address determines its offset.
\<close>

unbundle bit_operations_syntax

subsection \<open>Flag bytes\<close>

definition LOAD_ARGUMENT :: u8 where
  "LOAD_ARGUMENT = 1"

definition LOAD_LOCAL :: u8 where
  "LOAD_LOCAL = 2"

definition LOAD_LEXICAL :: u8 where
  "LOAD_LEXICAL = 3"

definition LOAD_FIELD :: u8 where
  "LOAD_FIELD = 4"

definition LOAD_STATIC :: u8 where
  "LOAD_STATIC = 5"

definition LOAD_INSTANCE :: u8 where
  "LOAD_INSTANCE = 6"

definition LOAD_ENUM :: u8 where
  "LOAD_ENUM = 7"

definition LOAD_PROTOCOL :: u8 where
  "LOAD_PROTOCOL = 8"

definition LOAD_NAMESPACE :: u8 where
  "LOAD_NAMESPACE = 9"

definition STORE_ARGUMENT :: u8 where
  "STORE_ARGUMENT = 1"

definition STORE_LOCAL :: u8 where
  "STORE_LOCAL = 2"

definition STORE_LEXICAL :: u8 where
  "STORE_LEXICAL = 3"

definition STORE_FIELD :: u8 where
  "STORE_FIELD = 4"

definition STORE_STATIC :: u8 where
  "STORE_STATIC = 5"

definition CALL_RECEIVER_FOLLOWS :: u8 where
  "CALL_RECEIVER_FOLLOWS = 1"

definition CALL_FORWARD_REST :: u8 where
  "CALL_FORWARD_REST = 2"

definition LEXICAL_ARGUMENT :: u8 where
  "LEXICAL_ARGUMENT = 1"

definition LEXICAL_LOCAL :: u8 where
  "LEXICAL_LOCAL = 2"

definition LEXICAL_LEXICAL :: u8 where
  "LEXICAL_LEXICAL = 3"

definition NEW_CLASS :: u8 where
  "NEW_CLASS = 1"

definition NEW_ENUM :: u8 where
  "NEW_ENUM = 2"

definition NEW_INSTANCE :: u8 where
  "NEW_INSTANCE = 3"

definition NEW_STRUCT :: u8 where
  "NEW_STRUCT = 4"

definition TRAP_INDEX_FOLLOWS :: u8 where
  "TRAP_INDEX_FOLLOWS = 1"

definition SYNTHETIC_THIS :: u8 where
  "SYNTHETIC_THIS = 1"

definition SYNTHETIC_REST :: u8 where
  "SYNTHETIC_REST = 2"

lemmas flag_defs [simp] =
  LOAD_ARGUMENT_def LOAD_LOCAL_def LOAD_LEXICAL_def LOAD_FIELD_def LOAD_STATIC_def
  LOAD_INSTANCE_def LOAD_ENUM_def LOAD_PROTOCOL_def LOAD_NAMESPACE_def STORE_ARGUMENT_def
  STORE_LOCAL_def STORE_LEXICAL_def STORE_FIELD_def STORE_STATIC_def CALL_RECEIVER_FOLLOWS_def
  CALL_FORWARD_REST_def LEXICAL_ARGUMENT_def LEXICAL_LOCAL_def LEXICAL_LEXICAL_def NEW_CLASS_def
  NEW_ENUM_def NEW_INSTANCE_def NEW_STRUCT_def TRAP_INDEX_FOLLOWS_def SYNTHETIC_THIS_def
  SYNTHETIC_REST_def

definition GET_CALL_FLAGS :: "u8 \<Rightarrow> u8" where
  "GET_CALL_FLAGS flags = flags AND 0x0F"

definition GET_NEW_TYPE :: "u8 \<Rightarrow> u8" where
  "GET_NEW_TYPE flags = drop_bit 4 (flags AND 0x70)"

subsection \<open>Addresses\<close>

definition INVALID_ADDRESS_U32 :: u32 where
  "INVALID_ADDRESS_U32 = 0xFFFFFFFF"

definition IS_NEAR :: "u32 \<Rightarrow> bool" where
  "IS_NEAR address \<longleftrightarrow> drop_bit 31 address = 0"

definition IS_FAR :: "u32 \<Rightarrow> bool" where
  "IS_FAR address \<longleftrightarrow> drop_bit 31 address = 1"

definition IS_VALID :: "u32 \<Rightarrow> bool" where
  "IS_VALID address \<longleftrightarrow> address \<noteq> INVALID_ADDRESS_U32"

definition GET_DESCRIPTOR_OFFSET :: "u32 \<Rightarrow> u32" where
  "GET_DESCRIPTOR_OFFSET address = (if IS_NEAR address then address else INVALID_ADDRESS_U32)"

definition GET_DESCRIPTOR_ADDRESS :: "u32 \<Rightarrow> u32" where
  "GET_DESCRIPTOR_ADDRESS offset = (if offset \<le> 0x7FFFFFFF then offset else INVALID_ADDRESS_U32)"

definition GET_LINK_OFFSET :: "u32 \<Rightarrow> u32" where
  "GET_LINK_OFFSET address =
     (if IS_FAR address then address AND 0x7FFFFFFF else INVALID_ADDRESS_U32)"

definition GET_LINK_ADDRESS :: "u32 \<Rightarrow> u32" where
  "GET_LINK_ADDRESS offset =
     (if offset \<le> 0x7FFFFFFF then offset OR 0x80000000 else INVALID_ADDRESS_U32)"

datatype address_type = AddressInvalid | AddressNear | AddressFar

definition GET_ADDRESS_TYPE :: "u32 \<Rightarrow> address_type" where
  "GET_ADDRESS_TYPE address =
     (if address = INVALID_ADDRESS_U32 then AddressInvalid
      else if IS_NEAR address then AddressNear else AddressFar)"

subsection \<open>Opcodes\<close>

datatype (plugins only:) opcode =
    OP_UNKNOWN | OP_NOOP | OP_UNDEF | OP_NIL | OP_TRUE | OP_FALSE | OP_I8 | OP_I16 | OP_I32 |
    OP_I64 | OP_U8 | OP_U16 | OP_U32 | OP_U64 | OP_F32 | OP_F64 | OP_C32 | OP_BYTES |
    OP_STRING | OP_STATIC | OP_SYNTHETIC | OP_DESCRIPTOR | OP_LOAD | OP_STORE | OP_VA_LOAD |
    OP_VA_SIZE | OP_POP | OP_DUP | OP_PICK | OP_DROP | OP_ADD | OP_SUB | OP_MUL | OP_DIV |
    OP_NEG | OP_CMP | OP_TYPE_CMP | OP_LOGICAL_AND | OP_LOGICAL_OR | OP_LOGICAL_NOT |
    OP_BITWISE_AND | OP_BITWISE_OR | OP_BITWISE_XOR | OP_BITWISE_NOT | OP_BITWISE_SHR |
    OP_BITWISE_SHL | OP_IF_NIL | OP_IF_NOTNIL | OP_IF_TRUE | OP_IF_FALSE | OP_IF_ZERO |
    OP_IF_NOTZERO | OP_IF_GT | OP_IF_GE | OP_IF_LT | OP_IF_LE | OP_JUMP | OP_TO_I8 |
    OP_TO_I16 | OP_TO_I32 | OP_TO_I64 | OP_TO_U8 | OP_TO_U16 | OP_TO_U32 | OP_TO_U64 |
    OP_TO_F32 | OP_TO_F64 | OP_IMPORT | OP_CALL_STATIC | OP_CALL_VIRTUAL | OP_CALL_STUB |
    OP_CALL_CONCEPT | OP_CALL_EXISTENTIAL | OP_TRAP | OP_RETURN | OP_RAISE | OP_NEW |
    OP_TYPE_OF | OP_INTERRUPT | OP_HALT | OP_ABORT
  | Beyond u8 \<comment> \<open>a byte at or past the sentinel \<open>LAST_\<close>, cast to the enum\<close>

definition opcode_enum :: "opcode list" where
  "opcode_enum =
    [OP_UNKNOWN, OP_NOOP, OP_UNDEF, OP_NIL, OP_TRUE, OP_FALSE, OP_I8, OP_I16, OP_I32, OP_I64,
     OP_U8, OP_U16, OP_U32, OP_U64, OP_F32, OP_F64, OP_C32, OP_BYTES, OP_STRING, OP_STATIC,
     OP_SYNTHETIC, OP_DESCRIPTOR, OP_LOAD, OP_STORE, OP_VA_LOAD, OP_VA_SIZE, OP_POP, OP_DUP,
     OP_PICK, OP_DROP, OP_ADD, OP_SUB, OP_MUL, OP_DIV, OP_NEG, OP_CMP, OP_TYPE_CMP,
     OP_LOGICAL_AND, OP_LOGICAL_OR, OP_LOGICAL_NOT, OP_BITWISE_AND, OP_BITWISE_OR,
     OP_BITWISE_XOR, OP_BITWISE_NOT, OP_BITWISE_SHR, OP_BITWISE_SHL, OP_IF_NIL, OP_IF_NOTNIL,
     OP_IF_TRUE, OP_IF_FALSE, OP_IF_ZERO, OP_IF_NOTZERO, OP_IF_GT, OP_IF_GE, OP_IF_LT,
     OP_IF_LE, OP_JUMP, OP_TO_I8, OP_TO_I16, OP_TO_I32, OP_TO_I64, OP_TO_U8, OP_TO_U16,
     OP_TO_U32, OP_TO_U64, OP_TO_F32, OP_TO_F64, OP_IMPORT, OP_CALL_STATIC, OP_CALL_VIRTUAL,
     OP_CALL_STUB, OP_CALL_CONCEPT, OP_CALL_EXISTENTIAL, OP_TRAP, OP_RETURN, OP_RAISE, OP_NEW,
     OP_TYPE_OF, OP_INTERRUPT, OP_HALT, OP_ABORT]"

primrec opcode_index :: "opcode \<Rightarrow> u8" where
  "opcode_index OP_UNKNOWN = 0"
| "opcode_index OP_NOOP = 1"
| "opcode_index OP_UNDEF = 2"
| "opcode_index OP_NIL = 3"
| "opcode_index OP_TRUE = 4"
| "opcode_index OP_FALSE = 5"
| "opcode_index OP_I8 = 6"
| "opcode_index OP_I16 = 7"
| "opcode_index OP_I32 = 8"
| "opcode_index OP_I64 = 9"
| "opcode_index OP_U8 = 10"
| "opcode_index OP_U16 = 11"
| "opcode_index OP_U32 = 12"
| "opcode_index OP_U64 = 13"
| "opcode_index OP_F32 = 14"
| "opcode_index OP_F64 = 15"
| "opcode_index OP_C32 = 16"
| "opcode_index OP_BYTES = 17"
| "opcode_index OP_STRING = 18"
| "opcode_index OP_STATIC = 19"
| "opcode_index OP_SYNTHETIC = 20"
| "opcode_index OP_DESCRIPTOR = 21"
| "opcode_index OP_LOAD = 22"
| "opcode_index OP_STORE = 23"
| "opcode_index OP_VA_LOAD = 24"
| "opcode_index OP_VA_SIZE = 25"
| "opcode_index OP_POP = 26"
| "opcode_index OP_DUP = 27"
| "opcode_index OP_PICK = 28"
| "opcode_index OP_DROP = 29"
| "opcode_index OP_ADD = 30"
| "opcode_index OP_SUB = 31"
| "opcode_index OP_MUL = 32"
| "opcode_index OP_DIV = 33"
| "opcode_index OP_NEG = 34"
| "opcode_index OP_CMP = 35"
| "opcode_index OP_TYPE_CMP = 36"
| "opcode_index OP_LOGICAL_AND = 37"
| "opcode_index OP_LOGICAL_OR = 38"
| "opcode_index OP_LOGICAL_NOT = 39"
| "opcode_index OP_BITWISE_AND = 40"
| "opcode_index OP_BITWISE_OR = 41"
| "opcode_index OP_BITWISE_XOR = 42"
| "opcode_index OP_BITWISE_NOT = 43"
| "opcode_index OP_BITWISE_SHR = 44"
| "opcode_index OP_BITWISE_SHL = 45"
| "opcode_index OP_IF_NIL = 46"
| "opcode_index OP_IF_NOTNIL = 47"
| "opcode_index OP_IF_TRUE = 48"
| "opcode_index OP_IF_FALSE = 49"
| "opcode_index OP_IF_ZERO = 50"
| "opcode_index OP_IF_NOTZERO = 51"
| "opcode_index OP_IF_GT = 52"
| "opcode_index OP_IF_GE = 53"
| "opcode_index OP_IF_LT = 54"
| "opcode_index OP_IF_LE = 55"
| "opcode_index OP_JUMP = 56"
| "opcode_index OP_TO_I8 = 57"
| "opcode_index OP_TO_I16 = 58"
| "opcode_index OP_TO_I32 = 59"
| "opcode_index OP_TO_I64 = 60"
| "opcode_index OP_TO_U8 = 61"
| "opcode_index OP_TO_U16 = 62"
| "opcode_index OP_TO_U32 = 63"
| "opcode_index OP_TO_U64 = 64"
| "opcode_index OP_TO_F32 = 65"
| "opcode_index OP_TO_F64 = 66"
| "opcode_index OP_IMPORT = 67"
| "opcode_index OP_CALL_STATIC = 68"
| "opcode_index OP_CALL_VIRTUAL = 69"
| "opcode_index OP_CALL_STUB = 70"
| "opcode_index OP_CALL_CONCEPT = 71"
| "opcode_index OP_CALL_EXISTENTIAL = 72"
| "opcode_index OP_TRAP = 73"
| "opcode_index OP_RETURN = 74"
| "opcode_index OP_RAISE = 75"
| "opcode_index OP_NEW = 76"
| "opcode_index OP_TYPE_OF = 77"
| "opcode_index OP_INTERRUPT = 78"
| "opcode_index OP_HALT = 79"
| "opcode_index OP_ABORT = 80"
| "opcode_index (Beyond b) = b"

text \<open>\<open>static_cast<Opcode>\<close> of a byte, and back.\<close>

definition opcode_of_byte :: "u8 \<Rightarrow> opcode" where
  "opcode_of_byte b = (if unat b < length opcode_enum then opcode_enum ! unat b else Beyond b)"

definition LAST_OPCODE :: u8 where
  "LAST_OPCODE = 81"

definition opcode_wf :: "opcode \<Rightarrow> bool" where
  "opcode_wf op \<longleftrightarrow> (\<forall>b. op = Beyond b \<longrightarrow> LAST_OPCODE \<le> b)"

fun opcode_to_name :: "opcode \<Rightarrow> string" where
  "opcode_to_name OP_NOOP = ''OP_NOOP''"
| "opcode_to_name OP_UNDEF = ''OP_UNDEF''"
| "opcode_to_name OP_NIL = ''OP_NIL''"
| "opcode_to_name OP_TRUE = ''OP_TRUE''"
| "opcode_to_name OP_FALSE = ''OP_FALSE''"
| "opcode_to_name OP_I8 = ''OP_I8''"
| "opcode_to_name OP_I16 = ''OP_I16''"
| "opcode_to_name OP_I32 = ''OP_I32''"
| "opcode_to_name OP_I64 = ''OP_I64''"
| "opcode_to_name OP_U8 = ''OP_U8''"
| "opcode_to_name OP_U16 = ''OP_U16''"
| "opcode_to_name OP_U32 = ''OP_U32''"
| "opcode_to_name OP_U64 = ''OP_U64''"
| "opcode_to_name OP_F32 = ''OP_F32''"
| "opcode_to_name OP_F64 = ''OP_F64''"
| "opcode_to_name OP_C32 = ''OP_C32''"
| "opcode_to_name OP_BYTES = ''OP_BYTES''"
| "opcode_to_name OP_STRING = ''OP_STRING''"
| "opcode_to_name OP_STATIC = ''OP_STATIC''"
| "opcode_to_name OP_SYNTHETIC = ''OP_SYNTHETIC''"
| "opcode_to_name OP_DESCRIPTOR = ''OP_DESCRIPTOR''"
| "opcode_to_name OP_LOAD = ''OP_LOAD''"
| "opcode_to_name OP_STORE = ''OP_STORE''"
| "opcode_to_name OP_VA_LOAD = ''OP_VA_LOAD''"
| "opcode_to_name OP_VA_SIZE = ''OP_VA_SIZE''"
| "opcode_to_name OP_POP = ''OP_POP''"
| "opcode_to_name OP_DUP = ''OP_DUP''"
| "opcode_to_name OP_PICK = ''OP_PICK''"
| "opcode_to_name OP_DROP = ''OP_DROP''"
| "opcode_to_name OP_ADD = ''OP_ADD''"
| "opcode_to_name OP_SUB = ''OP_SUB''"
| "opcode_to_name OP_MUL = ''OP_MUL''"
| "opcode_to_name OP_DIV = ''OP_DIV''"
| "opcode_to_name OP_NEG = ''OP_NEG''"
| "opcode_to_name OP_CMP = ''OP_CMP''"
| "opcode_to_name OP_TYPE_CMP = ''OP_TYPE_CMP''"
| "opcode_to_name OP_LOGICAL_AND = ''OP_LOGICAL_AND''"
| "opcode_to_name OP_LOGICAL_OR = ''OP_LOGICAL_OR''"
| "opcode_to_name OP_LOGICAL_NOT = ''OP_LOGICAL_NOT''"
| "opcode_to_name OP_BITWISE_AND = ''OP_BITWISE_AND''"
| "opcode_to_name OP_BITWISE_OR = ''OP_BITWISE_OR''"
| "opcode_to_name OP_BITWISE_XOR = ''OP_BITWISE_XOR''"
| "opcode_to_name OP_BITWISE_NOT = ''OP_BITWISE_NOT''"
| "opcode_to_name OP_BITWISE_SHR = ''OP_BITWISE_SHR''"
| "opcode_to_name OP_BITWISE_SHL = ''OP_BITWISE_SHL''"
| "opcode_to_name OP_IF_NIL = ''OP_IF_NIL''"
| "opcode_to_name OP_IF_NOTNIL = ''OP_IF_NOTNIL''"
| "opcode_to_name OP_IF_TRUE = ''OP_IF_TRUE''"
| "opcode_to_name OP_IF_FALSE = ''OP_IF_FALSE''"
| "opcode_to_name OP_IF_ZERO = ''OP_IF_ZERO''"
| "opcode_to_name OP_IF_NOTZERO = ''OP_IF_NOTZERO''"
| "opcode_to_name OP_IF_GT = ''OP_IF_GT''"
| "opcode_to_name OP_IF_GE = ''OP_IF_GE''"
| "opcode_to_name OP_IF_LT = ''OP_IF_LT''"
| "opcode_to_name OP_IF_LE = ''OP_IF_LE''"
| "opcode_to_name OP_JUMP = ''OP_JUMP''"
| "opcode_to_name OP_TO_I8 = ''OP_TO_I8''"
| "opcode_to_name OP_TO_I16 = ''OP_TO_I16''"
| "opcode_to_name OP_TO_I32 = ''OP_TO_I32''"
| "opcode_to_name OP_TO_I64 = ''OP_TO_I64''"
| "opcode_to_name OP_TO_U8 = ''OP_TO_U8''"
| "opcode_to_name OP_TO_U16 = ''OP_TO_U16''"
| "opcode_to_name OP_TO_U32 = ''OP_TO_U32''"
| "opcode_to_name OP_TO_U64 = ''OP_TO_U64''"
| "opcode_to_name OP_TO_F32 = ''OP_TO_F32''"
| "opcode_to_name OP_TO_F64 = ''OP_TO_F64''"
| "opcode_to_name OP_IMPORT = ''OP_IMPORT''"
| "opcode_to_name OP_CALL_STATIC = ''OP_CALL_STATIC''"
| "opcode_to_name OP_CALL_VIRTUAL = ''OP_CALL_VIRTUAL''"
| "opcode_to_name OP_CALL_STUB = ''OP_CALL_STUB''"
| "opcode_to_name OP_CALL_CONCEPT = ''OP_CALL_CONCEPT''"
| "opcode_to_name OP_CALL_EXISTENTIAL = ''OP_CALL_EXISTENTIAL''"
| "opcode_to_name OP_TRAP = ''OP_TRAP''"
| "opcode_to_name OP_RETURN = ''OP_RETURN''"
| "opcode_to_name OP_RAISE = ''OP_RAISE''"
| "opcode_to_name OP_NEW = ''OP_NEW''"
| "opcode_to_name OP_TYPE_OF = ''OP_TYPE_OF''"
| "opcode_to_name OP_INTERRUPT = ''OP_INTERRUPT''"
| "opcode_to_name OP_HALT = ''OP_HALT''"
| "opcode_to_name OP_ABORT = ''OP_ABORT''"
| "opcode_to_name _ = ''???''"

subsection \<open>Operand classes\<close>

datatype op_info_type =
    NO_OPERANDS | ADDRESS_U32 | FLAGS_U8_ADDRESS_U32 | JUMP_I16 | OFFSET_U16 |
    FLAGS_U8_ADDRESS_U32_PLACEMENT_U16 | FLAGS_U8_OFFSET_U16_PLACEMENT_U16 | TYPE_U8 |
    IMMEDIATE_I8 | IMMEDIATE_I16 | IMMEDIATE_I32 | IMMEDIATE_I64 | IMMEDIATE_U8 |
    IMMEDIATE_U16 | IMMEDIATE_U32 | IMMEDIATE_U64 | IMMEDIATE_F32 | IMMEDIATE_F64 |
    IMMEDIATE_C32

fun opinfo_type_to_size :: "op_info_type \<Rightarrow> nat" where
  "opinfo_type_to_size NO_OPERANDS = 0"
| "opinfo_type_to_size TYPE_U8 = 1"
| "opinfo_type_to_size IMMEDIATE_I8 = 1"
| "opinfo_type_to_size IMMEDIATE_U8 = 1"
| "opinfo_type_to_size JUMP_I16 = 2"
| "opinfo_type_to_size OFFSET_U16 = 2"
| "opinfo_type_to_size IMMEDIATE_I16 = 2"
| "opinfo_type_to_size IMMEDIATE_U16 = 2"
| "opinfo_type_to_size ADDRESS_U32 = 4"
| "opinfo_type_to_size IMMEDIATE_I32 = 4"
| "opinfo_type_to_size IMMEDIATE_U32 = 4"
| "opinfo_type_to_size IMMEDIATE_F32 = 4"
| "opinfo_type_to_size IMMEDIATE_C32 = 4"
| "opinfo_type_to_size FLAGS_U8_OFFSET_U16_PLACEMENT_U16 = 5"
| "opinfo_type_to_size FLAGS_U8_ADDRESS_U32 = 5"
| "opinfo_type_to_size FLAGS_U8_ADDRESS_U32_PLACEMENT_U16 = 7"
| "opinfo_type_to_size IMMEDIATE_I64 = 8"
| "opinfo_type_to_size IMMEDIATE_U64 = 8"
| "opinfo_type_to_size IMMEDIATE_F64 = 8"

definition ops :: "(opcode \<times> op_info_type) list" where
  "ops =
    [(OP_UNKNOWN, NO_OPERANDS), (OP_NOOP, NO_OPERANDS), (OP_UNDEF, NO_OPERANDS),
     (OP_NIL, NO_OPERANDS), (OP_TRUE, NO_OPERANDS), (OP_FALSE, NO_OPERANDS),
     (OP_I8, IMMEDIATE_I8), (OP_I16, IMMEDIATE_I16), (OP_I32, IMMEDIATE_I32),
     (OP_I64, IMMEDIATE_I64), (OP_U8, IMMEDIATE_U8), (OP_U16, IMMEDIATE_U16),
     (OP_U32, IMMEDIATE_U32), (OP_U64, IMMEDIATE_U64), (OP_F32, IMMEDIATE_F32),
     (OP_F64, IMMEDIATE_F64), (OP_C32, IMMEDIATE_C32), (OP_BYTES, ADDRESS_U32),
     (OP_STRING, ADDRESS_U32), (OP_STATIC, ADDRESS_U32), (OP_SYNTHETIC, TYPE_U8),
     (OP_DESCRIPTOR, FLAGS_U8_ADDRESS_U32), (OP_LOAD, FLAGS_U8_ADDRESS_U32),
     (OP_STORE, FLAGS_U8_ADDRESS_U32), (OP_VA_LOAD, NO_OPERANDS), (OP_VA_SIZE, NO_OPERANDS),
     (OP_POP, NO_OPERANDS), (OP_DUP, NO_OPERANDS), (OP_PICK, OFFSET_U16),
     (OP_DROP, OFFSET_U16), (OP_ADD, NO_OPERANDS), (OP_SUB, NO_OPERANDS),
     (OP_MUL, NO_OPERANDS), (OP_DIV, NO_OPERANDS), (OP_NEG, NO_OPERANDS),
     (OP_CMP, NO_OPERANDS), (OP_TYPE_CMP, NO_OPERANDS), (OP_LOGICAL_AND, NO_OPERANDS),
     (OP_LOGICAL_OR, NO_OPERANDS), (OP_LOGICAL_NOT, NO_OPERANDS),
     (OP_BITWISE_AND, NO_OPERANDS), (OP_BITWISE_OR, NO_OPERANDS),
     (OP_BITWISE_XOR, NO_OPERANDS), (OP_BITWISE_NOT, NO_OPERANDS),
     (OP_BITWISE_SHR, NO_OPERANDS), (OP_BITWISE_SHL, NO_OPERANDS), (OP_IF_NIL, JUMP_I16),
     (OP_IF_NOTNIL, JUMP_I16), (OP_IF_TRUE, JUMP_I16), (OP_IF_FALSE, JUMP_I16),
     (OP_IF_ZERO, JUMP_I16), (OP_IF_NOTZERO, JUMP_I16), (OP_IF_GT, JUMP_I16),
     (OP_IF_GE, JUMP_I16), (OP_IF_LT, JUMP_I16), (OP_IF_LE, JUMP_I16), (OP_JUMP, JUMP_I16),
     (OP_TO_I8, NO_OPERANDS), (OP_TO_I16, NO_OPERANDS), (OP_TO_I32, NO_OPERANDS),
     (OP_TO_I64, NO_OPERANDS), (OP_TO_U8, NO_OPERANDS), (OP_TO_U16, NO_OPERANDS),
     (OP_TO_U32, NO_OPERANDS), (OP_TO_U64, NO_OPERANDS), (OP_TO_F32, NO_OPERANDS),
     (OP_TO_F64, NO_OPERANDS), (OP_IMPORT, ADDRESS_U32),
     (OP_CALL_STATIC, FLAGS_U8_ADDRESS_U32_PLACEMENT_U16),
     (OP_CALL_VIRTUAL, FLAGS_U8_ADDRESS_U32_PLACEMENT_U16),
     (OP_CALL_STUB, FLAGS_U8_ADDRESS_U32_PLACEMENT_U16),
     (OP_CALL_CONCEPT, FLAGS_U8_ADDRESS_U32_PLACEMENT_U16),
     (OP_CALL_EXISTENTIAL, FLAGS_U8_ADDRESS_U32_PLACEMENT_U16),
     (OP_TRAP, FLAGS_U8_ADDRESS_U32), (OP_RETURN, NO_OPERANDS), (OP_RAISE, NO_OPERANDS),
     (OP_NEW, FLAGS_U8_ADDRESS_U32_PLACEMENT_U16), (OP_TYPE_OF, NO_OPERANDS),
     (OP_INTERRUPT, NO_OPERANDS), (OP_HALT, NO_OPERANDS), (OP_ABORT, NO_OPERANDS),
     (Beyond 81, NO_OPERANDS)]"

text \<open>The code indexes the table with the opcode's number; a number past the table reads
  outside the array, which is \<open>None\<close> here.\<close>

definition opcode_to_opinfo_type :: "opcode \<Rightarrow> op_info_type option" where
  "opcode_to_opinfo_type op =
     (let i = unat (opcode_index op) in if i < length ops then Some (snd (ops ! i)) else None)"

subsection \<open>Sections\<close>

datatype linkage_section =
    LinkageInvalid | LinkageType | LinkageExistential | LinkageLiteral | LinkageCall | LinkageField |
    LinkageStatic | LinkageAction | LinkageClass | LinkageStruct | LinkageInstance |
    LinkageConcept | LinkageEnum | LinkageProtocol | LinkageNamespace | LinkageBinding

fun linkage_to_descriptor_section :: "linkage_section \<Rightarrow> u8" where
  "linkage_to_descriptor_section LinkageInvalid = 0"
| "linkage_to_descriptor_section LinkageType = 1"
| "linkage_to_descriptor_section LinkageExistential = 2"
| "linkage_to_descriptor_section LinkageLiteral = 3"
| "linkage_to_descriptor_section LinkageCall = 4"
| "linkage_to_descriptor_section LinkageField = 5"
| "linkage_to_descriptor_section LinkageStatic = 6"
| "linkage_to_descriptor_section LinkageAction = 7"
| "linkage_to_descriptor_section LinkageClass = 8"
| "linkage_to_descriptor_section LinkageStruct = 9"
| "linkage_to_descriptor_section LinkageInstance = 10"
| "linkage_to_descriptor_section LinkageConcept = 11"
| "linkage_to_descriptor_section LinkageEnum = 12"
| "linkage_to_descriptor_section LinkageProtocol = 13"
| "linkage_to_descriptor_section LinkageNamespace = 14"
| "linkage_to_descriptor_section LinkageBinding = 15"

definition descriptor_to_linkage_section :: "u8 \<Rightarrow> linkage_section" where
  "descriptor_to_linkage_section section =
    (if section = 1 then LinkageType
     else if section = 2 then LinkageExistential
     else if section = 3 then LinkageLiteral
     else if section = 4 then LinkageCall
     else if section = 5 then LinkageField
     else if section = 6 then LinkageStatic
     else if section = 7 then LinkageAction
     else if section = 8 then LinkageClass
     else if section = 9 then LinkageStruct
     else if section = 10 then LinkageInstance
     else if section = 11 then LinkageConcept
     else if section = 12 then LinkageEnum
     else if section = 13 then LinkageProtocol
     else if section = 14 then LinkageNamespace
     else if section = 15 then LinkageBinding
     else LinkageInvalid)"

fun linkage_section_to_name :: "linkage_section \<Rightarrow> string" where
  "linkage_section_to_name LinkageInvalid = ''Invalid''"
| "linkage_section_to_name LinkageType = ''Type''"
| "linkage_section_to_name LinkageExistential = ''Existential''"
| "linkage_section_to_name LinkageLiteral = ''Literal''"
| "linkage_section_to_name LinkageCall = ''Call''"
| "linkage_section_to_name LinkageField = ''Field''"
| "linkage_section_to_name LinkageStatic = ''Static''"
| "linkage_section_to_name LinkageAction = ''Action''"
| "linkage_section_to_name LinkageClass = ''Class''"
| "linkage_section_to_name LinkageStruct = ''Struct''"
| "linkage_section_to_name LinkageInstance = ''Instance''"
| "linkage_section_to_name LinkageConcept = ''Concept''"
| "linkage_section_to_name LinkageEnum = ''Enum''"
| "linkage_section_to_name LinkageProtocol = ''Protocol''"
| "linkage_section_to_name LinkageNamespace = ''Namespace''"
| "linkage_section_to_name LinkageBinding = ''Binding''"

subsection \<open>The tables agree with the enumerations\<close>

lemma length_opcode_enum [simp]: "length opcode_enum = 81"
  by (simp add: opcode_enum_def)

lemma length_ops [simp]: "length ops = 82"
  by (simp add: ops_def)

lemma opcode_index_enum:
  assumes "i < 81"
  shows "unat (opcode_index (opcode_enum ! i)) = i"
proof -
  have all: "map (\<lambda>op. unat (opcode_index op)) opcode_enum = [0..<81]"
    by (simp add: opcode_enum_def) code_simp
  have "unat (opcode_index (opcode_enum ! i)) = map (\<lambda>op. unat (opcode_index op)) opcode_enum ! i"
    by (rule nth_map [symmetric]) (simp add: assms)
  also have "\<dots> = i"
    unfolding all using assms by (subst nth_upt) simp_all
  finally show ?thesis .
qed

lemma opcode_index_of_byte [simp]: "opcode_index (opcode_of_byte b) = b"
  by (auto simp: opcode_of_byte_def opcode_index_enum word_unat_eq_iff)

lemma opcode_of_byte_index: "opcode_wf op \<Longrightarrow> opcode_of_byte (opcode_index op) = op"
  by (cases op) (simp_all add: opcode_of_byte_def opcode_enum_def opcode_wf_def LAST_OPCODE_def word_le_nat_alt)

lemma opcode_of_byte_wf [simp]: "opcode_wf (opcode_of_byte b)"
proof (cases "unat b < 81")
  case True
  have "list_all opcode_wf opcode_enum"
    by (simp add: opcode_enum_def opcode_wf_def)
  with True show ?thesis
    by (simp add: opcode_of_byte_def list_all_length)
next
  case False
  then show ?thesis by (simp add: opcode_of_byte_def opcode_wf_def LAST_OPCODE_def word_le_nat_alt)
qed

lemma ops_aligned: "map fst ops = opcode_enum @ [Beyond 81]"
  by (simp add: ops_def opcode_enum_def)

subsection \<open>Addresses determine their offsets\<close>

lemma drop_bit_31_cases: "drop_bit 31 (a :: u32) = 0 \<or> drop_bit 31 a = 1"
proof -
  have "unat a < 2 ^ 32" using unsigned_less [where 'a = nat, of a] by simp
  then have "unat (drop_bit 31 a) < 2"
    unfolding unat_drop_bit_eq drop_bit_eq_div [where 'a = nat] by simp
  then have "unat (drop_bit 31 a) = 0 \<or> unat (drop_bit 31 a) = 1" by linarith
  then show ?thesis by (simp add: word_unat_eq_iff)
qed

lemma near_iff: "IS_NEAR a \<longleftrightarrow> a \<le> 0x7FFFFFFF"
proof -
  have "IS_NEAR a \<longleftrightarrow> unat (drop_bit 31 a) = 0"
    by (simp only: IS_NEAR_def word_unat_eq_iff unsigned_0)
  also have "\<dots> \<longleftrightarrow> unat a div 2 ^ 31 = 0"
    unfolding unat_drop_bit_eq drop_bit_eq_div [where 'a = nat] ..
  also have "\<dots> \<longleftrightarrow> unat a \<le> 0x7FFFFFFF" by auto
  finally show ?thesis by (simp add: word_le_nat_alt)
qed

lemma far_iff: "IS_FAR a \<longleftrightarrow> \<not> IS_NEAR a"
  using drop_bit_31_cases [of a] by (auto simp: IS_FAR_def IS_NEAR_def)

lemma bit_u32_31: "bit (a :: u32) 31 \<longleftrightarrow> \<not> IS_NEAR a"
proof -
  have "bit a 31 \<longleftrightarrow> bit (drop_bit 31 a) 0" by (simp add: bit_simps)
  then show ?thesis
    using drop_bit_31_cases [of a] by (auto simp: IS_NEAR_def)
qed

lemma far_bits: "IS_FAR (a OR 0x80000000)"
proof -
  have "bit (0x80000000 :: u32) 31" by simp
  then show ?thesis by (simp add: far_iff bit_u32_31 [symmetric] bit_or_iff)
qed

lemma link_offset_bits:
  assumes "IS_NEAR a" shows "(a OR 0x80000000) AND 0x7FFFFFFF = a"
proof (rule bit_word_eqI)
  fix n assume "n < LENGTH(32)"
  then have n: "n < 32" by simp
  have mask: "(0x7FFFFFFF :: u32) = mask 31" by (simp add: mask_eq_exp_minus_1)
  have top: "(0x80000000 :: u32) = push_bit 31 1" by simp
  show "bit ((a OR 0x80000000) AND 0x7FFFFFFF) n \<longleftrightarrow> bit a n"
    using assms n bit_u32_31 [of a] unfolding mask top
    by (cases "n = 31") (auto simp: bit_simps simp del: push_bit_of_1)
qed


text \<open>An offset survives the round trip through a near or a far address, the two kinds are
  told apart by \<open>GetAddressType\<close>, and the offsets that do not fit give the invalid address; the
  far address of the largest 31-bit offset is the invalid address as well.\<close>

theorem address_offset_roundtrip:
  "GET_DESCRIPTOR_OFFSET (GET_DESCRIPTOR_ADDRESS i)
      = (if i \<le> 0x7FFFFFFF then i else INVALID_ADDRESS_U32) \<and>
   GET_LINK_OFFSET (GET_LINK_ADDRESS i) = (if i \<le> 0x7FFFFFFF then i else 0x7FFFFFFF) \<and>
   GET_ADDRESS_TYPE (GET_DESCRIPTOR_ADDRESS i)
      = (if i \<le> 0x7FFFFFFF then AddressNear else AddressInvalid) \<and>
   GET_ADDRESS_TYPE (GET_LINK_ADDRESS i)
      = (if i < 0x7FFFFFFF then AddressFar else AddressInvalid)"
proof (cases "i \<le> 0x7FFFFFFF")
  case True
  then have near: "IS_NEAR i" by (simp add: near_iff)
  have valid: "i \<noteq> 0xFFFFFFFF" using True by auto
  have far: "\<not> IS_NEAR (i OR 0x80000000)" using far_bits [of i] by (simp add: far_iff)
  have max: "i OR 0x80000000 = 0xFFFFFFFF \<longleftrightarrow> i = 0x7FFFFFFF"
    using link_offset_bits [OF near] by auto
  show ?thesis
    using True near far valid far_bits [of i] link_offset_bits [OF near] max
    by (auto simp: GET_DESCRIPTOR_OFFSET_def GET_DESCRIPTOR_ADDRESS_def GET_LINK_OFFSET_def
        GET_LINK_ADDRESS_def GET_ADDRESS_TYPE_def INVALID_ADDRESS_U32_def order_less_le)
next
  case False
  then have "\<not> i < 0x7FFFFFFF" by simp
  with False show ?thesis
    by (simp add: GET_DESCRIPTOR_OFFSET_def GET_DESCRIPTOR_ADDRESS_def GET_LINK_OFFSET_def
        GET_LINK_ADDRESS_def GET_ADDRESS_TYPE_def INVALID_ADDRESS_U32_def IS_NEAR_def IS_FAR_def)
qed

text \<open>The linkage section and descriptor section codes are inverse to each other, and every
  code past the last section decodes to the invalid section.\<close>

theorem section_roundtrip:
  "descriptor_to_linkage_section (linkage_to_descriptor_section s) = s \<and>
   linkage_to_descriptor_section (descriptor_to_linkage_section c) = (if c \<le> 15 then c else 0)"
proof
  show "descriptor_to_linkage_section (linkage_to_descriptor_section s) = s"
    by (cases s) (simp_all add: descriptor_to_linkage_section_def)
  show "linkage_to_descriptor_section (descriptor_to_linkage_section c) = (if c \<le> 15 then c else 0)"
  proof (cases "c \<le> 15")
    case True
    then have "c \<in> {0..15}" by simp
    then have "unat c \<in> {0..<16}" by (simp add: word_le_nat_alt)
    then have "unat c \<in> set [0..<16]" by simp
    then have "c \<in> word_of_nat ` set [0..<16]" by (metis imageI of_nat_unat ucast_id)
    then show ?thesis
      by (auto simp: upt_rec descriptor_to_linkage_section_def)
  next
    case False
    then show ?thesis
      by (auto simp: descriptor_to_linkage_section_def)
  qed
qed

end
