(* ===== verification/Endian.thy ===== *)
theory Endian
  imports Prelude
begin

text \<open>
  The byte-order services the code takes from outside the repository.

  \<^item> \<open>boost::endian\<close>: the buffer types \<open>big_uint16_buf_t\<close> .. \<open>big_uint64_buf_t\<close> and
    \<open>native_to_big\<close> (copied to memory byte by byte), \<open>big_to_native\<close> of a word loaded from
    memory, and \<open>endian_store\<close>/\<open>endian_load\<close> in native order.
  \<^item> \<open>tempo_utils::BytesIterator\<close>: \<open>nextU8\<close> .. \<open>nextU64\<close>, which consume bytes from the front
    of a span and return nothing when too few are left.

  They are parameters of the model: the fields of a record \<open>endian_lib\<close> that every definition
  using them takes as its first argument. The locale \<open>endian\<close> states the documented behaviour
  the code relies on; \<open>little_endian_lib\<close> is the instance of an x86-64 or AArch64 machine, on
  which the witnesses evaluate.
\<close>

record endian_lib =
  big_u16 :: "u16 \<Rightarrow> u8 list"
  big_u32 :: "u32 \<Rightarrow> u8 list"
  big_u64 :: "u64 \<Rightarrow> u8 list"
  load_big_u32 :: "u8 list \<Rightarrow> u32"
  load_big_u64 :: "u8 list \<Rightarrow> u64"
  native_u16 :: "u16 \<Rightarrow> u8 list"
  native_u32 :: "u32 \<Rightarrow> u8 list"
  load_native_u16 :: "u8 list \<Rightarrow> u16"
  load_native_u32 :: "u8 list \<Rightarrow> u32"
  next_u8 :: "u8 list \<Rightarrow> (u8 \<times> u8 list) option"
  next_u16 :: "u8 list \<Rightarrow> (u16 \<times> u8 list) option"
  next_u32 :: "u8 list \<Rightarrow> (u32 \<times> u8 list) option"
  next_u64 :: "u8 list \<Rightarrow> (u64 \<times> u8 list) option"

locale endian =
  fixes E :: endian_lib
  assumes big_u16: "big_u16 E a = be16 a"
    and big_u32: "big_u32 E b = be32 b"
    and big_u64: "big_u64 E c = be64 c"
    and load_big_u32: "length bs = 4 \<Longrightarrow> load_big_u32 E bs = be_value bs 0"
    and load_big_u64: "length bs = 8 \<Longrightarrow> load_big_u64 E bs = be_value bs 0"
    and native_u16: "length (native_u16 E a) = 2" "load_native_u16 E (native_u16 E a) = a"
    and native_u32: "length (native_u32 E b) = 4" "load_native_u32 E (native_u32 E b) = b"
    and next_u8: "next_u8 E (x # rest) = Some (x, rest)"
    and take_u16: "2 \<le> length bs \<Longrightarrow> next_u16 E bs = Some (be_value (take 2 bs) 0, drop 2 bs)"
    and take_u32: "4 \<le> length bs \<Longrightarrow> next_u32 E bs = Some (be_value (take 4 bs) 0, drop 4 bs)"
    and take_u64: "8 \<le> length bs \<Longrightarrow> next_u64 E bs = Some (be_value (take 8 bs) 0, drop 8 bs)"
begin

lemma next_u16: "next_u16 E (be16 a @ rest) = Some (a, rest)"
  by (simp add: take_u16)

lemma next_u32: "next_u32 E (be32 b @ rest) = Some (b, rest)"
  by (simp add: take_u32)

lemma next_u64: "next_u64 E (be64 c @ rest) = Some (c, rest)"
  by (simp add: take_u64)

lemma next_u16_exact: "next_u16 E (be16 a) = Some (a, [])"
  using next_u16 [of a "[]"] by simp

lemma next_u32_exact: "next_u32 E (be32 b) = Some (b, [])"
  using next_u32 [of b "[]"] by simp

lemma next_u64_exact: "next_u64 E (be64 c) = Some (c, [])"
  using next_u64 [of c "[]"] by simp

lemma load_big_u32_be32: "load_big_u32 E (be32 b) = b"
  by (simp add: load_big_u32)

lemma load_big_u64_be64: "load_big_u64 E (be64 c) = c"
  by (simp add: load_big_u64)

lemmas big = big_u16 big_u32 big_u64
lemmas consume = next_u8 next_u16 next_u32 next_u64 next_u16_exact next_u32_exact next_u64_exact

end

text \<open>A little-endian machine.\<close>

definition take_be :: "nat \<Rightarrow> u8 list \<Rightarrow> ('a::len word \<times> u8 list) option" where
  "take_be n bs = (if n \<le> length bs then Some (be_value (take n bs) 0, drop n bs) else None)"

definition little_endian_lib :: endian_lib where
  "little_endian_lib =
     \<lparr>big_u16 = be16, big_u32 = be32, big_u64 = be64,
      load_big_u32 = (\<lambda>bs. be_value bs 0), load_big_u64 = (\<lambda>bs. be_value bs 0),
      native_u16 = (\<lambda>a. rev (be16 a)), native_u32 = (\<lambda>b. rev (be32 b)),
      load_native_u16 = (\<lambda>bs. be_value (rev bs) 0), load_native_u32 = (\<lambda>bs. be_value (rev bs) 0),
      next_u8 = (\<lambda>bs. case bs of [] \<Rightarrow> None | b # rest \<Rightarrow> Some (b, rest)),
      next_u16 = take_be 2, next_u32 = take_be 4, next_u64 = take_be 8\<rparr>"

interpretation le: endian little_endian_lib
  by unfold_locales (simp_all add: little_endian_lib_def take_be_def)

lemma endian_little: "endian little_endian_lib"
  by (rule le.endian_axioms)

end
