(* ===== verification/BytecodeIterator.thy ===== *)
theory BytecodeIterator
  imports Endian Opcodes
begin

text \<open>
  The instruction decoder \<open>lyric_object::BytecodeIterator\<close> (\<open>bytecode_iterator.h\<close>,
  \<open>bytecode_iterator.cpp\<close>): a cursor over a span of bytecode whose \<open>getNext\<close> reads one
  instruction, and \<open>reset\<close> and \<open>move\<close>, which reposition the cursor.

  The cursor and the size are 32-bit words and their arithmetic wraps, as in the code. A failed
  \<open>TU_ASSERT\<close> and a read outside the span end the process: \<open>Fatal\<close>.

  The lemmas: the cursor never leaves the span and every successful read advances it, a jump is
  accepted exactly when its target is in the span, and decoding inverts the layout of
  instructions.
\<close>

unbundle bit_operations_syntax

datatype operands =
    NoOperands
  | AddressU32 u32
  | FlagsU8AddressU32 u8 u32
  | JumpI16 u16
  | OffsetU16 u16
  | FlagsU8AddressU32PlacementU16 u8 u32 u16
  | FlagsU8OffsetU16PlacementU16 u8 u16 u16
  | TypeU8 u8
  | ImmediateI8 u8
  | ImmediateI16 u16
  | ImmediateI32 u32
  | ImmediateI64 u64
  | ImmediateU8 u8
  | ImmediateU16 u16
  | ImmediateU32 u32
  | ImmediateU64 u64
  | ImmediateF32 u32
  | ImmediateF64 u64
  | ImmediateC32 u32

record op_cell =
  opcode :: opcode
  op_offset :: u32
  op_type :: op_info_type
  operands :: operands

record bytecode_iterator =
  m_bytecode :: "u8 list option"  \<comment> \<open>\<open>None\<close> is the null pointer\<close>
  m_size :: u32
  m_curr :: u32

definition empty_iterator :: bytecode_iterator where
  "empty_iterator = \<lparr>m_bytecode = None, m_size = 0, m_curr = 0\<rparr>"

definition make_iterator :: "u8 list \<Rightarrow> bytecode_iterator" where
  "make_iterator bs = \<lparr>m_bytecode = Some bs, m_size = word_of_nat (length bs), m_curr = 0\<rparr>"

definition isValid :: "bytecode_iterator \<Rightarrow> bool" where
  "isValid it \<longleftrightarrow> m_bytecode it \<noteq> None"

definition hasNext :: "bytecode_iterator \<Rightarrow> bool" where
  "hasNext it \<longleftrightarrow> m_curr it < m_size it"

datatype next_result = GotOp op_cell | NoOp | Fatal

text \<open>The operands of an instruction, read from the bytes after the opcode; \<open>None\<close> when the
  span iterator runs out (a failed \<open>TU_ASSERT\<close>).\<close>

fun read_operands :: "endian_lib \<Rightarrow> op_info_type \<Rightarrow> u8 list \<Rightarrow> operands option" where
  "read_operands E NO_OPERANDS bs = Some NoOperands"
| "read_operands E ADDRESS_U32 bs =
     map_option (\<lambda>(address, _). AddressU32 address) (next_u32 E bs)"
| "read_operands E FLAGS_U8_ADDRESS_U32 bs =
     (case next_u8 E bs of None \<Rightarrow> None
      | Some (flags, bs') \<Rightarrow>
          map_option (\<lambda>(address, _). FlagsU8AddressU32 flags address) (next_u32 E bs'))"
| "read_operands E JUMP_I16 bs = map_option (\<lambda>(jump, _). JumpI16 jump) (next_u16 E bs)"
| "read_operands E OFFSET_U16 bs = map_option (\<lambda>(offset, _). OffsetU16 offset) (next_u16 E bs)"
| "read_operands E FLAGS_U8_ADDRESS_U32_PLACEMENT_U16 bs =
     (case next_u8 E bs of None \<Rightarrow> None
      | Some (flags, bs') \<Rightarrow>
         (case next_u32 E bs' of None \<Rightarrow> None
          | Some (address, bs'') \<Rightarrow>
              map_option (\<lambda>(placement, _). FlagsU8AddressU32PlacementU16 flags address placement)
                (next_u16 E bs'')))"
| "read_operands E FLAGS_U8_OFFSET_U16_PLACEMENT_U16 bs =
     (case next_u8 E bs of None \<Rightarrow> None
      | Some (flags, bs') \<Rightarrow>
         (case next_u16 E bs' of None \<Rightarrow> None
          | Some (offset, bs'') \<Rightarrow>
              map_option (\<lambda>(placement, _). FlagsU8OffsetU16PlacementU16 flags offset placement)
                (next_u16 E bs'')))"
| "read_operands E TYPE_U8 bs = map_option (\<lambda>(t, _). TypeU8 t) (next_u8 E bs)"
| "read_operands E IMMEDIATE_I8 bs = map_option (\<lambda>(v, _). ImmediateI8 v) (next_u8 E bs)"
| "read_operands E IMMEDIATE_I16 bs = map_option (\<lambda>(v, _). ImmediateI16 v) (next_u16 E bs)"
| "read_operands E IMMEDIATE_I32 bs = map_option (\<lambda>(v, _). ImmediateI32 v) (next_u32 E bs)"
| "read_operands E IMMEDIATE_I64 bs = map_option (\<lambda>(v, _). ImmediateI64 v) (next_u64 E bs)"
| "read_operands E IMMEDIATE_U8 bs = map_option (\<lambda>(v, _). ImmediateU8 v) (next_u8 E bs)"
| "read_operands E IMMEDIATE_U16 bs = map_option (\<lambda>(v, _). ImmediateU16 v) (next_u16 E bs)"
| "read_operands E IMMEDIATE_U32 bs = map_option (\<lambda>(v, _). ImmediateU32 v) (next_u32 E bs)"
| "read_operands E IMMEDIATE_U64 bs = map_option (\<lambda>(v, _). ImmediateU64 v) (next_u64 E bs)"
| "read_operands E IMMEDIATE_F32 bs = map_option (\<lambda>(v, _). ImmediateF32 v) (next_u32 E bs)"
| "read_operands E IMMEDIATE_F64 bs = map_option (\<lambda>(v, _). ImmediateF64 v) (next_u64 E bs)"
| "read_operands E IMMEDIATE_C32 bs = map_option (\<lambda>(v, _). ImmediateC32 v) (next_u32 E bs)"

definition getNext :: "endian_lib \<Rightarrow> bytecode_iterator \<Rightarrow> next_result \<times> bytecode_iterator" where
  "getNext E it =
    (if m_size it \<le> m_curr it then (NoOp, it)
     else case m_bytecode it of None \<Rightarrow> (Fatal, it)
     | Some bytes \<Rightarrow>
       if length bytes \<le> unat (m_curr it) then (Fatal, it)
       else
         let offset = m_curr it;
             op = opcode_of_byte (bytes ! unat offset);
             it' = it\<lparr>m_curr := m_curr it + 1\<rparr>
         in if op = OP_UNKNOWN then (Fatal, it')
            else if LAST_OPCODE \<le> opcode_index op then
              (GotOp \<lparr>opcode = op, op_offset = offset, op_type = NO_OPERANDS, operands = NoOperands\<rparr>, it')
            else
              let t = snd (ops ! unat (opcode_index op));
                  n = opinfo_type_to_size t
              in if m_size it' < m_curr it' + word_of_nat n then (NoOp, it')
                 else (case read_operands E t (take n (drop (unat (m_curr it')) bytes)) of
                   None \<Rightarrow> (Fatal, it')
                 | Some args \<Rightarrow>
                    (GotOp \<lparr>opcode = op, op_offset = offset, op_type = t, operands = args\<rparr>,
                     it'\<lparr>m_curr := m_curr it' + word_of_nat n\<rparr>)))"

definition reset :: "bytecode_iterator \<Rightarrow> u32 \<Rightarrow> bool \<times> bytecode_iterator" where
  "reset it address =
    (if address \<le> m_size it then (True, it\<lparr>m_curr := address\<rparr>) else (False, it))"

definition move :: "bytecode_iterator \<Rightarrow> u16 \<Rightarrow> bool \<times> bytecode_iterator" where
  "move it offset =
    (if sint offset < 0 then
       (if \<bar>sint offset\<bar> > uint (m_curr it) then (False, it)
        else (True, it\<lparr>m_curr := m_curr it + scast offset\<rparr>))
     else
       (if sint offset > uint (m_size it - m_curr it) then (False, it)
        else (True, it\<lparr>m_curr := m_curr it + scast offset\<rparr>)))"


subsection \<open>The layout of instructions\<close>

text \<open>
  The object format: an instruction is its opcode byte followed by its operands, multi-byte
  operands in big-endian order.
\<close>

fun operands_type :: "operands \<Rightarrow> op_info_type" where
  "operands_type NoOperands = NO_OPERANDS"
| "operands_type (AddressU32 _) = ADDRESS_U32"
| "operands_type (FlagsU8AddressU32 _ _) = FLAGS_U8_ADDRESS_U32"
| "operands_type (JumpI16 _) = JUMP_I16"
| "operands_type (OffsetU16 _) = OFFSET_U16"
| "operands_type (FlagsU8AddressU32PlacementU16 _ _ _) = FLAGS_U8_ADDRESS_U32_PLACEMENT_U16"
| "operands_type (FlagsU8OffsetU16PlacementU16 _ _ _) = FLAGS_U8_OFFSET_U16_PLACEMENT_U16"
| "operands_type (TypeU8 _) = TYPE_U8"
| "operands_type (ImmediateI8 _) = IMMEDIATE_I8"
| "operands_type (ImmediateI16 _) = IMMEDIATE_I16"
| "operands_type (ImmediateI32 _) = IMMEDIATE_I32"
| "operands_type (ImmediateI64 _) = IMMEDIATE_I64"
| "operands_type (ImmediateU8 _) = IMMEDIATE_U8"
| "operands_type (ImmediateU16 _) = IMMEDIATE_U16"
| "operands_type (ImmediateU32 _) = IMMEDIATE_U32"
| "operands_type (ImmediateU64 _) = IMMEDIATE_U64"
| "operands_type (ImmediateF32 _) = IMMEDIATE_F32"
| "operands_type (ImmediateF64 _) = IMMEDIATE_F64"
| "operands_type (ImmediateC32 _) = IMMEDIATE_C32"

fun operand_bytes :: "operands \<Rightarrow> u8 list" where
  "operand_bytes NoOperands = []"
| "operand_bytes (AddressU32 a) = be32 a"
| "operand_bytes (FlagsU8AddressU32 f a) = f # be32 a"
| "operand_bytes (JumpI16 j) = be16 j"
| "operand_bytes (OffsetU16 i) = be16 i"
| "operand_bytes (FlagsU8AddressU32PlacementU16 f a p) = f # be32 a @ be16 p"
| "operand_bytes (FlagsU8OffsetU16PlacementU16 f i p) = f # be16 i @ be16 p"
| "operand_bytes (TypeU8 t) = [t]"
| "operand_bytes (ImmediateI8 v) = [v]"
| "operand_bytes (ImmediateI16 v) = be16 v"
| "operand_bytes (ImmediateI32 v) = be32 v"
| "operand_bytes (ImmediateI64 v) = be64 v"
| "operand_bytes (ImmediateU8 v) = [v]"
| "operand_bytes (ImmediateU16 v) = be16 v"
| "operand_bytes (ImmediateU32 v) = be32 v"
| "operand_bytes (ImmediateU64 v) = be64 v"
| "operand_bytes (ImmediateF32 v) = be32 v"
| "operand_bytes (ImmediateF64 v) = be64 v"
| "operand_bytes (ImmediateC32 v) = be32 v"

type_synonym instr = "opcode \<times> operands"

definition instr_bytes :: "instr \<Rightarrow> u8 list" where
  "instr_bytes i = opcode_index (fst i) # operand_bytes (snd i)"

text \<open>An instruction of the format: an opcode of the enumeration other than the unknown one,
  with operands of the class its table entry gives.\<close>

definition instr_ok :: "instr \<Rightarrow> bool" where
  "instr_ok i \<longleftrightarrow> fst i \<noteq> OP_UNKNOWN \<and> opcode_index (fst i) < LAST_OPCODE \<and>
     opcode_wf (fst i) \<and> operands_type (snd i) = snd (ops ! unat (opcode_index (fst i)))"

lemma length_operand_bytes [simp]:
  "length (operand_bytes args) = opinfo_type_to_size (operands_type args)"
  by (cases args) simp_all

lemma opinfo_size_le [simp]: "opinfo_type_to_size t \<le> 8"
  by (cases t) simp_all

context endian
begin

lemma read_operands_bytes: "read_operands E (operands_type args) (operand_bytes args) = Some args"
  by (cases args) (simp_all add: consume)

end

subsection \<open>The cursor stays in the span\<close>

text \<open>
  A span the 32-bit cursor arithmetic is exact on: up to eight bytes past its end are still
  representable, so that the size test of \<open>getNext\<close> does not wrap.
\<close>

definition span_ok :: "u8 list \<Rightarrow> bool" where
  "span_ok bs \<longleftrightarrow> length bs + 8 < 2 ^ 32"

definition iterates :: "bytecode_iterator \<Rightarrow> u8 list \<Rightarrow> nat \<Rightarrow> bool" where
  "iterates it bs i \<longleftrightarrow> m_bytecode it = Some bs \<and> m_size it = word_of_nat (length bs) \<and>
     m_curr it = word_of_nat i \<and> i \<le> length bs \<and> span_ok bs"

lemma unat_u32 [simp]: "n < 4294967296 \<Longrightarrow> unat (word_of_nat n :: u32) = n"
  by (simp add: unat_of_nat take_bit_nat_eq_self)

lemma iterates_make [simp]: "span_ok bs \<Longrightarrow> iterates (make_iterator bs) bs 0"
  by (simp add: iterates_def make_iterator_def)

lemma iterates_curr: "iterates it bs i \<Longrightarrow> unat (m_curr it) = i"
  by (simp add: iterates_def span_ok_def)

lemma iterates_size: "iterates it bs i \<Longrightarrow> unat (m_size it) = length bs"
  by (simp add: iterates_def span_ok_def)

lemma iterates_set_curr:
  "iterates it bs i \<Longrightarrow> j \<le> length bs \<Longrightarrow> iterates (it\<lparr>m_curr := word_of_nat j\<rparr>) bs j"
  by (simp add: iterates_def)

text \<open>\<open>getNext\<close> with the word arithmetic resolved.\<close>

definition next_at :: "endian_lib \<Rightarrow> u8 list \<Rightarrow> nat \<Rightarrow> next_result \<times> nat" where
  "next_at E bs i =
    (if length bs \<le> i then (NoOp, i)
     else
       let op = opcode_of_byte (bs ! i)
       in if op = OP_UNKNOWN then (Fatal, i + 1)
          else if LAST_OPCODE \<le> opcode_index op then
            (GotOp \<lparr>opcode = op, op_offset = word_of_nat i, op_type = NO_OPERANDS,
                    operands = NoOperands\<rparr>, i + 1)
          else
            let t = snd (ops ! unat (opcode_index op)); n = opinfo_type_to_size t
            in if length bs < i + 1 + n then (NoOp, i + 1)
               else (case read_operands E t (take n (drop (i + 1) bs)) of
                 None \<Rightarrow> (Fatal, i + 1)
               | Some args \<Rightarrow>
                  (GotOp \<lparr>opcode = op, op_offset = word_of_nat i, op_type = t, operands = args\<rparr>,
                   i + 1 + n)))"

lemma getNext_eq:
  assumes it: "iterates it bs i"
  shows "getNext E it = (fst (next_at E bs i), it\<lparr>m_curr := word_of_nat (snd (next_at E bs i))\<rparr>)"
proof (cases "length bs \<le> i")
  case True
  with it have "m_size it \<le> m_curr it"
    by (simp add: word_le_nat_alt iterates_curr iterates_size)
  moreover have "it = it\<lparr>m_curr := word_of_nat i\<rparr>"
    using it by (simp add: iterates_def)
  ultimately show ?thesis
    using True by (simp add: getNext_def next_at_def)
next
  case False
  have bounds: "i < length bs" "length bs + 8 < 4294967296"
    using it False by (simp_all add: iterates_def span_ok_def)
  have fields: "m_bytecode it = Some bs" "unat (m_curr it) = i" "unat (m_size it) = length bs"
    "m_curr it = word_of_nat i"
    using it iterates_curr [OF it] iterates_size [OF it] by (simp_all add: iterates_def)
  have le: "\<not> m_size it \<le> m_curr it"
    using fields False by (simp add: word_le_nat_alt)
  obtain j :: u32 where j: "m_curr it + 1 = j" "j = word_of_nat (Suc i)"
    using fields by simp
  have un: "unat j = Suc i"
    using bounds j(2) unat_u32 [of "Suc i"] by simp
  have lt: "m_size it < j + word_of_nat (opinfo_type_to_size t)
      \<longleftrightarrow> length bs < Suc (i + opinfo_type_to_size t)" for t
    using fields bounds j(2) unat_u32 [of "Suc (i + opinfo_type_to_size t)"] opinfo_size_le [of t]
    by (simp add: word_less_nat_alt add.assoc)
  show ?thesis
  proof (cases "opcode_of_byte (bs ! i) = OP_UNKNOWN \<or> LAST_OPCODE \<le> bs ! i")
    case True
    then show ?thesis
      using False le
      by (simp add: getNext_def next_at_def fields(1,2) j(1) Let_def)
        (auto simp: fields(4) j(2))
  next
    case False
    then show ?thesis
      using \<open>\<not> length bs \<le> i\<close> le
      by (simp add: getNext_def next_at_def fields(1,2) j(1) lt un Let_def split: option.split)
        (auto simp: fields(4) j(2) add.assoc)
  qed
qed


lemma next_at_cursor:
  assumes "i \<le> length bs"
  shows "i \<le> snd (next_at E bs i)" "snd (next_at E bs i) \<le> length bs"
    and "fst (next_at E bs i) = GotOp op \<Longrightarrow> i < snd (next_at E bs i) \<and> op_offset op = word_of_nat i"
  using assms by (auto simp: next_at_def Let_def split: option.splits if_splits)

lemma getNext_iterates [wf_intros]:
  assumes it: "iterates it bs i"
  shows "iterates (snd (getNext E it)) bs (snd (next_at E bs i))"
proof -
  have "i \<le> length bs" using it by (simp add: iterates_def)
  then have "snd (next_at E bs i) \<le> length bs" by (rule next_at_cursor)
  with it show ?thesis by (simp add: getNext_eq [OF it] iterates_set_curr)
qed

subsection \<open>Decoding inverts the layout\<close>

definition cell_at :: "nat \<Rightarrow> instr \<Rightarrow> op_cell" where
  "cell_at i ins = \<lparr>opcode = fst ins, op_offset = word_of_nat i,
                    op_type = operands_type (snd ins), operands = snd ins\<rparr>"

fun cells_at :: "nat \<Rightarrow> instr list \<Rightarrow> op_cell list" where
  "cells_at i [] = []"
| "cells_at i (ins # rest) = cell_at i ins # cells_at (i + length (instr_bytes ins)) rest"

lemma length_instr_bytes:
  "length (instr_bytes ins) = Suc (opinfo_type_to_size (operands_type (snd ins)))"
  by (simp add: instr_bytes_def)

context endian
begin

lemma next_at_instr:
  assumes ok: "instr_ok ins"
  shows "next_at E (pre @ instr_bytes ins @ post) (length pre) =
    (GotOp (cell_at (length pre) ins), length pre + length (instr_bytes ins))"
proof -
  let ?bs = "pre @ instr_bytes ins @ post"
  have b: "?bs ! length pre = opcode_index (fst ins)"
    by (simp add: instr_bytes_def nth_append)
  have op: "opcode_of_byte (?bs ! length pre) = fst ins"
    using ok unfolding b by (intro opcode_of_byte_index) (simp add: instr_ok_def)
  have t: "operands_type (snd ins) = snd (ops ! unat (opcode_index (fst ins)))"
    using ok by (simp add: instr_ok_def)
  have args: "take (opinfo_type_to_size (operands_type (snd ins))) (drop (Suc (length pre)) ?bs)
      = operand_bytes (snd ins)"
    by (simp add: instr_bytes_def)
  have read: "read_operands E (operands_type (snd ins)) (operand_bytes (snd ins)) = Some (snd ins)"
    by (rule read_operands_bytes)
  have known: "fst ins \<noteq> OP_UNKNOWN" "\<not> LAST_OPCODE \<le> opcode_index (fst ins)"
    using ok by (auto simp: instr_ok_def)
  show ?thesis
    using known args read unfolding next_at_def Let_def op
    by (simp add: t [symmetric] length_instr_bytes cell_at_def)
qed

end

text \<open>
  The loop over a span, \<open>while (it.getNext(op))\<close>: the operations read until \<open>getNext\<close>
  returns false; \<open>None\<close> when the process ends or the fuel does.
\<close>

fun read_ops :: "endian_lib \<Rightarrow> nat \<Rightarrow> bytecode_iterator \<Rightarrow> op_cell list option" where
  "read_ops E 0 it = None"
| "read_ops E (Suc fuel) it =
    (case getNext E it of
       (NoOp, _) \<Rightarrow> Some []
     | (Fatal, _) \<Rightarrow> None
     | (GotOp op, it') \<Rightarrow> map_option ((#) op) (read_ops E fuel it'))"

context endian
begin

lemma read_ops_instrs:
  assumes "\<forall>ins \<in> set is. instr_ok ins"
    and "iterates it (pre @ concat (map instr_bytes is)) (length pre)"
    and "length is < fuel"
  shows "read_ops E fuel it = Some (cells_at (length pre) is)"
  using assms
proof (induction "is" arbitrary: pre it fuel)
  case Nil
  then obtain f where f: "fuel = Suc f" by (cases fuel) auto
  show ?case
    using Nil.prems(2) by (simp add: f getNext_eq [OF Nil.prems(2)] next_at_def)
next
  case (Cons ins rest)
  let ?bs = "pre @ concat (map instr_bytes (ins # rest))"
  let ?n = "length pre + length (instr_bytes ins)"
  from Cons.prems(3) obtain f where f: "fuel = Suc f" and len: "length rest < f"
    by (cases fuel) auto
  have step: "next_at E ?bs (length pre) = (GotOp (cell_at (length pre) ins), ?n)"
    using Cons.prems(1) next_at_instr [of ins pre "concat (map instr_bytes rest)"] by simp
  have it': "iterates (snd (getNext E it)) ?bs ?n"
    using getNext_iterates [OF Cons.prems(2), of E] by (simp only: step snd_conv)
  have "read_ops E f (snd (getNext E it)) = Some (cells_at ?n rest)"
    using Cons.IH [where pre = "pre @ instr_bytes ins" and it = "snd (getNext E it)" and fuel = f] Cons.prems(1) it' len
    by simp
  moreover have "fst (getNext E it) = GotOp (cell_at (length pre) ins)"
    by (simp only: getNext_eq [OF Cons.prems(2)] step fst_conv)
  ultimately show ?case
    by (cases "getNext E it") (simp add: f)
qed

end

subsection \<open>Moving the cursor\<close>

lemma move_iterates:
  fixes offset :: u16
  assumes it: "iterates it bs i"
  defines "target \<equiv> int i + sint offset"
  shows "move it offset =
    (if 0 \<le> target \<and> target \<le> int (length bs)
     then (True, it\<lparr>m_curr := word_of_nat (nat target)\<rparr>) else (False, it))"
proof -
  have i: "uint (m_curr it) = int i" and n: "uint (m_size it) = int (length bs)"
    using iterates_curr [OF it] iterates_size [OF it] by (metis uint_nat)+
  have le: "i \<le> length bs" using it by (simp add: iterates_def)
  have diff: "uint (m_size it - m_curr it) = int (length bs) - int i"
    using le i n uint_sub_lem [of "m_curr it" "m_size it"] by simp
  have scast: "scast offset = (word_of_int (sint offset) :: u32)"
    by (rule scast_eq)
  have curr: "m_curr it + scast offset = word_of_nat (nat target)" if "0 \<le> target"
  proof -
    have "m_curr it = word_of_nat i" using it by (simp add: iterates_def)
    then have "m_curr it + scast offset = word_of_int (int i + sint offset)"
      by (simp only: scast of_int_add of_int_of_nat_eq)
    also have "\<dots> = word_of_nat (nat target)"
      using that by (simp only: target_def word_of_int_nat)
    finally show ?thesis .
  qed
  show ?thesis
  proof (cases "sint offset < 0")
    case True
    then have "\<bar>sint offset\<bar> > uint (m_curr it) \<longleftrightarrow> \<not> 0 \<le> target"
      and "0 \<le> target \<Longrightarrow> target \<le> int (length bs)"
      using i le by (auto simp: target_def)
    with True curr show ?thesis by (auto simp: move_def)
  next
    case False
    then have "sint offset > uint (m_size it - m_curr it) \<longleftrightarrow> \<not> target \<le> int (length bs)"
      and "0 \<le> target"
      using diff by (auto simp: target_def)
    with False curr show ?thesis by (auto simp: move_def)
  qed
qed

subsection \<open>Properties of the decoder\<close>

context endian
begin

lemma next_u8_some: "1 \<le> length bs \<Longrightarrow> next_u8 E bs = Some (hd bs, tl bs)"
  by (cases bs) (simp_all add: next_u8)

lemma read_operands_total:
  "length bs = opinfo_type_to_size t \<Longrightarrow> \<exists>args. read_operands E t bs = Some args"
  by (cases t) (simp_all add: next_u8_some take_u16 take_u32 take_u64)

lemma next_at_total:
  assumes "0 \<notin> set bs"
  shows "fst (next_at E bs i) \<noteq> Fatal"
proof (cases "length bs \<le> i")
  case True
  then show ?thesis by (simp add: next_at_def)
next
  case False
  then have "bs ! i \<noteq> 0" using assms by (auto simp: in_set_conv_nth)
  then have known: "opcode_of_byte (bs ! i) \<noteq> OP_UNKNOWN"
    using opcode_index_of_byte [of "bs ! i"] by force
  let ?t = "snd (ops ! unat (bs ! i))"
  have "\<exists>args. read_operands E ?t (take (opinfo_type_to_size ?t) (drop (Suc i) bs)) = Some args"
    if "i + 1 + opinfo_type_to_size ?t \<le> length bs"
    using that by (intro read_operands_total) simp
  then show ?thesis
    using known False by (auto simp: next_at_def Let_def)
qed

lemma read_ops_total:
  assumes "iterates it bs i" "0 \<notin> set bs" "length bs - i < fuel"
  shows "\<exists>cells. read_ops E fuel it = Some cells \<and> length cells \<le> length bs - i"
  using assms
proof (induction fuel arbitrary: it i)
  case 0
  then show ?case by simp
next
  case (Suc fuel)
  obtain r j where r: "next_at E bs i = (r, j)" by (cases "next_at E bs i") auto
  have i: "i \<le> length bs" using Suc.prems(1) by (simp add: iterates_def)
  have get: "getNext E it = (r, it\<lparr>m_curr := word_of_nat j\<rparr>)"
    by (simp add: getNext_eq [OF Suc.prems(1)] r)
  show ?case
  proof (cases r)
    case (GotOp op)
    have it': "iterates (it\<lparr>m_curr := word_of_nat j\<rparr>) bs j"
      using getNext_iterates [OF Suc.prems(1), of E] by (simp add: get r)
    have "i < j" "j \<le> length bs"
      using next_at_cursor [OF i, of E] r GotOp by (auto simp: r)
    moreover have "length bs - j < fuel"
      using \<open>i < j\<close> \<open>j \<le> length bs\<close> Suc.prems(3) by linarith
    then obtain cells where "read_ops E fuel (it\<lparr>m_curr := word_of_nat j\<rparr>) = Some cells"
      "length cells \<le> length bs - j"
      using Suc.IH [OF it' Suc.prems(2)] by auto
    ultimately show ?thesis by (simp add: get GotOp)
  next
    case NoOp
    then show ?thesis by (simp add: get)
  next
    case Fatal
    then show ?thesis using next_at_total [OF Suc.prems(2), of i] by (simp add: r)
  qed
qed

end

text \<open>Reading an instruction never moves the cursor out of the span or backwards, and an
  instruction that is returned is the one at the old cursor and advances it.\<close>

theorem getNext_cursor:
  assumes "iterates it bs i"
  shows "\<exists>j. iterates (snd (getNext E it)) bs j \<and> i \<le> j \<and>
    (\<forall>op. fst (getNext E it) = GotOp op \<longrightarrow>
       i < j \<and> op_offset op = word_of_nat i \<and> opcode op = opcode_of_byte (bs ! i))"
proof -
  have i: "i \<le> length bs" using assms by (simp add: iterates_def)
  have "opcode op = opcode_of_byte (bs ! i)" if "fst (next_at E bs i) = GotOp op" for op
    using that by (auto simp: next_at_def Let_def split: if_splits option.splits)
  then show ?thesis
    using getNext_iterates [OF assms, of E] next_at_cursor [OF i, of E]
    by (intro exI [of _ "snd (next_at E bs i)"]) (auto simp: getNext_eq [OF assms])
qed

theorem getNext_cursor_witness:
  "\<exists>j. iterates (snd (getNext little_endian_lib (make_iterator [0x1C, 1, 2]))) [0x1C, 1, 2] j \<and>
    (0::nat) \<le> j \<and>
    (\<forall>op. fst (getNext little_endian_lib (make_iterator [0x1C, 1, 2])) = GotOp op \<longrightarrow>
       0 < j \<and> op_offset op = word_of_nat 0 \<and> opcode op = opcode_of_byte ([0x1C, 1, 2] ! 0))"
  by (rule getNext_cursor [of "make_iterator [0x1C, 1, 2]" "[0x1C, 1, 2]" 0])
    (simp add: span_ok_def)

text \<open>The decoding loop ends on every span of bytes in which no byte is the unknown opcode:
  it returns after at most one read per byte, and no read ends the process.\<close>

theorem decoding_terminates:
  assumes "endian E" "span_ok bs" "0 \<notin> set bs" "length bs < fuel"
  shows "\<exists>cells. read_ops E fuel (make_iterator bs) = Some cells \<and> length cells \<le> length bs"
  using endian.read_ops_total [OF assms(1) iterates_make [OF assms(2)] assms(3), of fuel] assms(4)
  by simp

theorem decoding_terminates_witness:
  "\<exists>cells. read_ops little_endian_lib 4 (make_iterator [0x1C, 1, 2]) = Some cells \<and>
     length cells \<le> length [0x1C, 1, 2 :: u8]"
  by (rule decoding_terminates [OF endian_little]) (simp_all add: span_ok_def)

text \<open>A relative move is accepted exactly when its target lies in the span, and then sets the
  cursor to it; a refused move leaves the iterator as it was.\<close>

theorem move_accepts_targets_in_span:
  assumes "iterates it bs i"
  shows "move it offset =
    (if 0 \<le> int i + sint offset \<and> int i + sint offset \<le> int (length bs)
     then (True, it\<lparr>m_curr := word_of_nat (nat (int i + sint offset))\<rparr>) else (False, it))"
  by (rule move_iterates [OF assms])

theorem move_accepts_targets_in_span_witness:
  "move (make_iterator [1, 2, 3]) 2 =
    (if 0 \<le> int 0 + sint (2 :: u16) \<and> int 0 + sint (2 :: u16) \<le> int (length [1, 2, 3 :: u8])
     then (True, (make_iterator [1, 2, 3])\<lparr>m_curr := word_of_nat (nat (int 0 + sint (2 :: u16)))\<rparr>)
     else (False, make_iterator [1, 2, 3]))"
  by (rule move_accepts_targets_in_span [of "make_iterator [1, 2, 3]" "[1, 2, 3]" 0])
    (simp add: span_ok_def)

end
