(* ===== verification/BytecodeBuilder.thy ===== *)
theory BytecodeBuilder
  imports BytecodeIterator
begin

text \<open>
  The instruction encoder \<open>lyric_object::BytecodeBuilder\<close> (\<open>bytecode_builder.cpp\<close>): a byte
  vector that every operation appends to, the forward-jump protocol (\<open>jumpIf..\<close> leaves a
  placeholder and returns its offset, \<open>makeLabel\<close> returns the current offset, \<open>patch\<close> writes
  the distance) and \<open>callInline\<close>, which splices the body of another builder after its leading
  argument loads.

  The 16-bit patch offsets and labels are words: \<open>makePatch\<close> and \<open>makeLabel\<close> truncate the
  vector's size as the casts do.

  The lemmas: every operation appends exactly one instruction of the format of
  \<open>BytecodeIterator\<close>, so decoding what was built gives the calls back; a patched jump lands
  on its label; the inlined body is the callee without its argument loads.
\<close>

unbundle bit_operations_syntax


record bytecode_builder =
  m_code :: "u8 list"

type_synonym built = "object_condition status \<times> bytecode_builder"

subsection \<open>Writing bytes\<close>

definition append_bytes :: "u8 list \<Rightarrow> bytecode_builder \<Rightarrow> built" where
  "append_bytes bs b = (Ok, b\<lparr>m_code := m_code b @ bs\<rparr>)"

definition currentOffset :: "bytecode_builder \<Rightarrow> nat" where
  "currentOffset b = length (m_code b)"

definition bytecodeSize :: "bytecode_builder \<Rightarrow> u32" where
  "bytecodeSize b = word_of_nat (length (m_code b))"

definition writeU8 :: "u8 \<Rightarrow> bytecode_builder \<Rightarrow> built" where
  "writeU8 u = append_bytes [u]"

definition writeU16 :: "endian_lib \<Rightarrow> u16 \<Rightarrow> bytecode_builder \<Rightarrow> built" where
  "writeU16 E u = append_bytes (big_u16 E u)"

definition writeU32 :: "endian_lib \<Rightarrow> u32 \<Rightarrow> bytecode_builder \<Rightarrow> built" where
  "writeU32 E u = append_bytes (big_u32 E u)"

definition writeU64 :: "endian_lib \<Rightarrow> u64 \<Rightarrow> bytecode_builder \<Rightarrow> built" where
  "writeU64 E u = append_bytes (big_u64 E u)"

definition writeOpcode :: "opcode \<Rightarrow> bytecode_builder \<Rightarrow> built" where
  "writeOpcode op b =
    (if 0 < opcode_index op \<and> opcode_index op < LAST_OPCODE then writeU8 (opcode_index op) b
     else (NotOk kObjectInvariant, b))"

subsection \<open>Loads of immediates\<close>

definition loadNil :: "bytecode_builder \<Rightarrow> built" where
  "loadNil b =
     writeOpcode OP_NIL b"

definition loadUndef :: "bytecode_builder \<Rightarrow> built" where
  "loadUndef b =
     writeOpcode OP_UNDEF b"

definition loadBool :: "bool \<Rightarrow> bytecode_builder \<Rightarrow> built" where
  "loadBool v b =
     (if v then writeOpcode OP_TRUE b else writeOpcode OP_FALSE b)"

definition loadI8 :: "u8 \<Rightarrow> bytecode_builder \<Rightarrow> built" where
  "loadI8 v b =
     and_then (writeOpcode OP_I8 b) (append_bytes [v])"

definition loadI16 :: "endian_lib \<Rightarrow> u16 \<Rightarrow> bytecode_builder \<Rightarrow> built" where
  "loadI16 E v b =
     and_then (writeOpcode OP_I16 b) (append_bytes (big_u16 E v))"

definition loadI32 :: "endian_lib \<Rightarrow> u32 \<Rightarrow> bytecode_builder \<Rightarrow> built" where
  "loadI32 E v b =
     and_then (writeOpcode OP_I32 b) (append_bytes (big_u32 E v))"

definition loadI64 :: "endian_lib \<Rightarrow> u64 \<Rightarrow> bytecode_builder \<Rightarrow> built" where
  "loadI64 E v b =
     and_then (writeOpcode OP_I64 b) (append_bytes (big_u64 E v))"

definition loadU8 :: "u8 \<Rightarrow> bytecode_builder \<Rightarrow> built" where
  "loadU8 v b =
     and_then (writeOpcode OP_U8 b) (append_bytes [v])"

definition loadU16 :: "endian_lib \<Rightarrow> u16 \<Rightarrow> bytecode_builder \<Rightarrow> built" where
  "loadU16 E v b =
     and_then (writeOpcode OP_U16 b) (append_bytes (big_u16 E v))"

definition loadU32 :: "endian_lib \<Rightarrow> u32 \<Rightarrow> bytecode_builder \<Rightarrow> built" where
  "loadU32 E v b =
     and_then (writeOpcode OP_U32 b) (append_bytes (big_u32 E v))"

definition loadU64 :: "endian_lib \<Rightarrow> u64 \<Rightarrow> bytecode_builder \<Rightarrow> built" where
  "loadU64 E v b =
     and_then (writeOpcode OP_U64 b) (append_bytes (big_u64 E v))"

definition loadF32 :: "endian_lib \<Rightarrow> u32 \<Rightarrow> bytecode_builder \<Rightarrow> built" where
  "loadF32 E v b =
     and_then (writeOpcode OP_F32 b) (append_bytes (big_u32 E v))"

definition loadF64 :: "endian_lib \<Rightarrow> u64 \<Rightarrow> bytecode_builder \<Rightarrow> built" where
  "loadF64 E v b =
     and_then (writeOpcode OP_F64 b) (append_bytes (big_u64 E v))"

definition loadC32 :: "endian_lib \<Rightarrow> u32 \<Rightarrow> bytecode_builder \<Rightarrow> built" where
  "loadC32 E v b =
     and_then (writeOpcode OP_C32 b) (append_bytes (big_u32 E v))"

subsection \<open>Loads and stores\<close>

definition loadArgument :: "endian_lib \<Rightarrow> u16 \<Rightarrow> bytecode_builder \<Rightarrow> built" where
  "loadArgument E index b =
     and_then (and_then (writeOpcode OP_LOAD b) (writeU8 LOAD_ARGUMENT)) (writeU32 E (ucast index))"

definition loadLocal :: "endian_lib \<Rightarrow> u16 \<Rightarrow> bytecode_builder \<Rightarrow> built" where
  "loadLocal E index b =
     and_then (and_then (writeOpcode OP_LOAD b) (writeU8 LOAD_LOCAL)) (writeU32 E (ucast index))"

definition loadLexical :: "endian_lib \<Rightarrow> u16 \<Rightarrow> bytecode_builder \<Rightarrow> built" where
  "loadLexical E index b =
     and_then (and_then (writeOpcode OP_LOAD b) (writeU8 LOAD_LEXICAL)) (writeU32 E (ucast index))"

definition loadReceiver :: "bytecode_builder \<Rightarrow> built" where
  "loadReceiver b =
     and_then (writeOpcode OP_SYNTHETIC b) (writeU8 SYNTHETIC_THIS)"

definition loadBytes :: "endian_lib \<Rightarrow> u32 \<Rightarrow> bytecode_builder \<Rightarrow> built" where
  "loadBytes E address b =
     and_then (writeOpcode OP_BYTES b) (writeU32 E address)"

definition loadString :: "endian_lib \<Rightarrow> u32 \<Rightarrow> bytecode_builder \<Rightarrow> built" where
  "loadString E address b =
     and_then (writeOpcode OP_STRING b) (writeU32 E address)"

definition loadField :: "endian_lib \<Rightarrow> u32 \<Rightarrow> bytecode_builder \<Rightarrow> built" where
  "loadField E address b =
     and_then (and_then (writeOpcode OP_LOAD b) (writeU8 LOAD_FIELD)) (writeU32 E address)"

definition loadStatic :: "endian_lib \<Rightarrow> u32 \<Rightarrow> bytecode_builder \<Rightarrow> built" where
  "loadStatic E address b =
     and_then (and_then (writeOpcode OP_LOAD b) (writeU8 LOAD_STATIC)) (writeU32 E address)"

definition loadEnum :: "endian_lib \<Rightarrow> u32 \<Rightarrow> bytecode_builder \<Rightarrow> built" where
  "loadEnum E address b =
     and_then (and_then (writeOpcode OP_LOAD b) (writeU8 LOAD_ENUM)) (writeU32 E address)"

definition loadInstance :: "endian_lib \<Rightarrow> u32 \<Rightarrow> bytecode_builder \<Rightarrow> built" where
  "loadInstance E address b =
     and_then (and_then (writeOpcode OP_LOAD b) (writeU8 LOAD_INSTANCE)) (writeU32 E address)"

definition loadClass :: "endian_lib \<Rightarrow> u32 \<Rightarrow> bytecode_builder \<Rightarrow> built" where
  "loadClass E address b =
     and_then (and_then (writeOpcode OP_DESCRIPTOR b)
       (writeU8 (linkage_to_descriptor_section LinkageClass))) (writeU32 E address)"

definition loadStruct :: "endian_lib \<Rightarrow> u32 \<Rightarrow> bytecode_builder \<Rightarrow> built" where
  "loadStruct E address b =
     and_then (and_then (writeOpcode OP_DESCRIPTOR b)
       (writeU8 (linkage_to_descriptor_section LinkageStruct))) (writeU32 E address)"

definition loadConcept :: "endian_lib \<Rightarrow> u32 \<Rightarrow> bytecode_builder \<Rightarrow> built" where
  "loadConcept E address b =
     and_then (and_then (writeOpcode OP_DESCRIPTOR b)
       (writeU8 (linkage_to_descriptor_section LinkageConcept))) (writeU32 E address)"

definition loadCall :: "endian_lib \<Rightarrow> u32 \<Rightarrow> bytecode_builder \<Rightarrow> built" where
  "loadCall E address b =
     and_then (and_then (writeOpcode OP_DESCRIPTOR b)
       (writeU8 (linkage_to_descriptor_section LinkageCall))) (writeU32 E address)"

definition loadType :: "endian_lib \<Rightarrow> u32 \<Rightarrow> bytecode_builder \<Rightarrow> built" where
  "loadType E address b =
     and_then (and_then (writeOpcode OP_DESCRIPTOR b)
       (writeU8 (linkage_to_descriptor_section LinkageType))) (writeU32 E address)"

definition storeArgument :: "endian_lib \<Rightarrow> u16 \<Rightarrow> bytecode_builder \<Rightarrow> built" where
  "storeArgument E index b =
     and_then (and_then (writeOpcode OP_STORE b) (writeU8 STORE_ARGUMENT)) (writeU32 E (ucast index))"

definition storeLocal :: "endian_lib \<Rightarrow> u16 \<Rightarrow> bytecode_builder \<Rightarrow> built" where
  "storeLocal E index b =
     and_then (and_then (writeOpcode OP_STORE b) (writeU8 STORE_LOCAL)) (writeU32 E (ucast index))"

definition storeLexical :: "endian_lib \<Rightarrow> u16 \<Rightarrow> bytecode_builder \<Rightarrow> built" where
  "storeLexical E index b =
     and_then (and_then (writeOpcode OP_STORE b) (writeU8 STORE_LEXICAL)) (writeU32 E (ucast index))"

definition storeField :: "endian_lib \<Rightarrow> u32 \<Rightarrow> bytecode_builder \<Rightarrow> built" where
  "storeField E address b =
     and_then (and_then (writeOpcode OP_STORE b) (writeU8 STORE_FIELD)) (writeU32 E address)"

definition storeStatic :: "endian_lib \<Rightarrow> u32 \<Rightarrow> bytecode_builder \<Rightarrow> built" where
  "storeStatic E address b =
     and_then (and_then (writeOpcode OP_STORE b) (writeU8 STORE_STATIC)) (writeU32 E address)"

subsection \<open>Conversions and the data stack\<close>

definition convertToI8 :: "bytecode_builder \<Rightarrow> built" where
  "convertToI8 b =
     writeOpcode OP_TO_I8 b"

definition convertToI16 :: "bytecode_builder \<Rightarrow> built" where
  "convertToI16 b =
     writeOpcode OP_TO_I16 b"

definition convertToI32 :: "bytecode_builder \<Rightarrow> built" where
  "convertToI32 b =
     writeOpcode OP_TO_I32 b"

definition convertToI64 :: "bytecode_builder \<Rightarrow> built" where
  "convertToI64 b =
     writeOpcode OP_TO_I64 b"

definition convertToU8 :: "bytecode_builder \<Rightarrow> built" where
  "convertToU8 b =
     writeOpcode OP_TO_U8 b"

definition convertToU16 :: "bytecode_builder \<Rightarrow> built" where
  "convertToU16 b =
     writeOpcode OP_TO_U16 b"

definition convertToU32 :: "bytecode_builder \<Rightarrow> built" where
  "convertToU32 b =
     writeOpcode OP_TO_U32 b"

definition convertToU64 :: "bytecode_builder \<Rightarrow> built" where
  "convertToU64 b =
     writeOpcode OP_TO_U64 b"

definition convertToF32 :: "bytecode_builder \<Rightarrow> built" where
  "convertToF32 b =
     writeOpcode OP_TO_F32 b"

definition convertToF64 :: "bytecode_builder \<Rightarrow> built" where
  "convertToF64 b =
     writeOpcode OP_TO_F64 b"

definition popValue :: "bytecode_builder \<Rightarrow> built" where
  "popValue b =
     writeOpcode OP_POP b"

definition dupValue :: "bytecode_builder \<Rightarrow> built" where
  "dupValue b =
     writeOpcode OP_DUP b"

definition pickValue :: "endian_lib \<Rightarrow> u16 \<Rightarrow> bytecode_builder \<Rightarrow> built" where
  "pickValue E pickOffset b =
     and_then (writeOpcode OP_PICK b) (\<lambda>b. (Ok, snd (writeU16 E pickOffset b)))"

definition dropValue :: "endian_lib \<Rightarrow> u16 \<Rightarrow> bytecode_builder \<Rightarrow> built" where
  "dropValue E dropOffset b =
     and_then (writeOpcode OP_DROP b) (\<lambda>b. (Ok, snd (writeU16 E dropOffset b)))"

subsection \<open>Calls\<close>

definition callStatic :: "endian_lib \<Rightarrow> u32 \<Rightarrow> u16 \<Rightarrow> u8 \<Rightarrow> bytecode_builder \<Rightarrow> built" where
  "callStatic E address placementSize flags b =
     (if address = INVALID_ADDRESS_U32 then (NotOk kObjectInvariant, b)
      else and_then (and_then (and_then (writeOpcode OP_CALL_STATIC b) (writeU8 0))
        (writeU32 E address)) (writeU16 E placementSize))"

definition callVirtual :: "endian_lib \<Rightarrow> u32 \<Rightarrow> u16 \<Rightarrow> u8 \<Rightarrow> bytecode_builder \<Rightarrow> built" where
  "callVirtual E address placementSize flags b =
     (if address = INVALID_ADDRESS_U32 then (NotOk kObjectInvariant, b)
      else and_then (and_then (and_then (writeOpcode OP_CALL_VIRTUAL b) (writeU8 flags))
        (writeU32 E address)) (writeU16 E placementSize))"

definition callConcept :: "endian_lib \<Rightarrow> u32 \<Rightarrow> u16 \<Rightarrow> u8 \<Rightarrow> bytecode_builder \<Rightarrow> built" where
  "callConcept E address placementSize flags b =
     (if address = INVALID_ADDRESS_U32 then (NotOk kObjectInvariant, b)
      else and_then (and_then (and_then (writeOpcode OP_CALL_CONCEPT b) (writeU8 flags))
        (writeU32 E address)) (writeU16 E placementSize))"

definition callExistential :: "endian_lib \<Rightarrow> u32 \<Rightarrow> u16 \<Rightarrow> u8 \<Rightarrow> bytecode_builder \<Rightarrow> built" where
  "callExistential E address placementSize flags b =
     (if address = INVALID_ADDRESS_U32 then (NotOk kObjectInvariant, b)
      else and_then (and_then (and_then (writeOpcode OP_CALL_EXISTENTIAL b) (writeU8 flags))
        (writeU32 E address)) (writeU16 E placementSize))"

definition callNew :: "endian_lib \<Rightarrow> u32 \<Rightarrow> u16 \<Rightarrow> u8 \<Rightarrow> u8 \<Rightarrow> bytecode_builder \<Rightarrow> built" where
  "callNew E address placementSize newType flags b =
     and_then (and_then (and_then (writeOpcode OP_NEW b) (writeU8 (push_bit 4 newType OR flags)))
       (writeU32 E address)) (writeU16 E placementSize)"

definition trap :: "endian_lib \<Rightarrow> u32 \<Rightarrow> u8 \<Rightarrow> bytecode_builder \<Rightarrow> built" where
  "trap E address flags b =
     and_then (and_then (writeOpcode OP_TRAP b) (writeU8 flags)) (writeU32 E address)"

subsection \<open>Jumps, labels and patches\<close>

definition makePatch :: "endian_lib \<Rightarrow> bytecode_builder \<Rightarrow> object_condition status \<times> u16 \<times> bytecode_builder" where
  "makePatch E b =
     (let patchOffset = word_of_nat (length (m_code b)); (status, b') = writeU16 E 0 b
      in (status, patchOffset, b'))"

definition jumpIfNil :: "endian_lib \<Rightarrow> bytecode_builder \<Rightarrow> object_condition status \<times> u16 \<times> bytecode_builder" where
  "jumpIfNil E b = makePatch E (snd (writeOpcode OP_IF_NIL b))"

definition jumpIfNotNil :: "endian_lib \<Rightarrow> bytecode_builder \<Rightarrow> object_condition status \<times> u16 \<times> bytecode_builder" where
  "jumpIfNotNil E b = makePatch E (snd (writeOpcode OP_IF_NOTNIL b))"

definition jumpIfTrue :: "endian_lib \<Rightarrow> bytecode_builder \<Rightarrow> object_condition status \<times> u16 \<times> bytecode_builder" where
  "jumpIfTrue E b = makePatch E (snd (writeOpcode OP_IF_TRUE b))"

definition jumpIfFalse :: "endian_lib \<Rightarrow> bytecode_builder \<Rightarrow> object_condition status \<times> u16 \<times> bytecode_builder" where
  "jumpIfFalse E b = makePatch E (snd (writeOpcode OP_IF_FALSE b))"

definition jumpIfZero :: "endian_lib \<Rightarrow> bytecode_builder \<Rightarrow> object_condition status \<times> u16 \<times> bytecode_builder" where
  "jumpIfZero E b = makePatch E (snd (writeOpcode OP_IF_ZERO b))"

definition jumpIfNotZero :: "endian_lib \<Rightarrow> bytecode_builder \<Rightarrow> object_condition status \<times> u16 \<times> bytecode_builder" where
  "jumpIfNotZero E b = makePatch E (snd (writeOpcode OP_IF_NOTZERO b))"

definition jumpIfLessThan :: "endian_lib \<Rightarrow> bytecode_builder \<Rightarrow> object_condition status \<times> u16 \<times> bytecode_builder" where
  "jumpIfLessThan E b = makePatch E (snd (writeOpcode OP_IF_LT b))"

definition jumpIfLessOrEqual :: "endian_lib \<Rightarrow> bytecode_builder \<Rightarrow> object_condition status \<times> u16 \<times> bytecode_builder" where
  "jumpIfLessOrEqual E b = makePatch E (snd (writeOpcode OP_IF_LE b))"

definition jumpIfGreaterThan :: "endian_lib \<Rightarrow> bytecode_builder \<Rightarrow> object_condition status \<times> u16 \<times> bytecode_builder" where
  "jumpIfGreaterThan E b = makePatch E (snd (writeOpcode OP_IF_GT b))"

definition jumpIfGreaterOrEqual :: "endian_lib \<Rightarrow> bytecode_builder \<Rightarrow> object_condition status \<times> u16 \<times> bytecode_builder" where
  "jumpIfGreaterOrEqual E b = makePatch E (snd (writeOpcode OP_IF_GE b))"

definition jump :: "endian_lib \<Rightarrow> bytecode_builder \<Rightarrow> object_condition status \<times> u16 \<times> bytecode_builder" where
  "jump E b = makePatch E (snd (writeOpcode OP_JUMP b))"

definition makeLabel :: "bytecode_builder \<Rightarrow> object_condition status \<times> u16" where
  "makeLabel b = (Ok, word_of_nat (length (m_code b)))"

text \<open>\<open>patchOffset + 1\<close>, \<open>patchOffset + 2\<close> and the delta are computed in \<open>int\<close>.\<close>

definition patch :: "endian_lib \<Rightarrow> u16 \<Rightarrow> u16 \<Rightarrow> bytecode_builder \<Rightarrow> built" where
  "patch E patchOffset jumpLabel b =
    (if length (m_code b) \<le> unat patchOffset + 1 then (NotOk kObjectInvariant, b)
     else if length (m_code b) < unat jumpLabel then (NotOk kObjectInvariant, b)
     else
       let dstoffset = uint patchOffset + 2; delta = uint jumpLabel - dstoffset
       in if delta < - 0x8000 \<or> delta > 0x7FFF then (NotOk kObjectInvariant, b)
          else (Ok, b\<lparr>m_code := take (unat patchOffset) (m_code b) @ big_u16 E (word_of_int delta)
                 @ drop (unat patchOffset + 2) (m_code b)\<rparr>))"

definition jumpTo :: "endian_lib \<Rightarrow> u16 \<Rightarrow> bytecode_builder \<Rightarrow> built" where
  "jumpTo E jumpLabel b =
    and_then (writeOpcode OP_JUMP b) (\<lambda>b.
      let (status, patchOffset, b) = makePatch E b
      in and_then (status, b) (patch E patchOffset jumpLabel))"

subsection \<open>Inlining\<close>

definition is_argument_load :: "op_cell \<Rightarrow> bool" where
  "is_argument_load op \<longleftrightarrow> opcode op = OP_LOAD \<and>
     (case operands op of FlagsU8AddressU32 flags _ \<Rightarrow> flags = LOAD_ARGUMENT | _ \<Rightarrow> False)"

text \<open>The loop of \<open>callInline\<close>: what is left of \<open>code\<close> when it breaks (\<open>Inr\<close>), or the failure of
  \<open>getNext\<close> (\<open>Inl\<close>); \<open>None\<close> when the process ends, or the fuel does.\<close>

fun skip_argument_loads ::
  "endian_lib \<Rightarrow> nat \<Rightarrow> bytecode_iterator \<Rightarrow> u8 list \<Rightarrow> (object_condition + u8 list) option" where
  "skip_argument_loads E 0 it code = None"
| "skip_argument_loads E (Suc fuel) it code =
    (case getNext E it of
       (NoOp, _) \<Rightarrow> Some (Inl kObjectInvariant)
     | (Fatal, _) \<Rightarrow> None
     | (GotOp op, it') \<Rightarrow>
         if \<not> is_argument_load op then Some (Inr code)
         else skip_argument_loads E fuel it' (drop (opinfo_type_to_size (op_type op) + 1) code))"

definition callInline :: "endian_lib \<Rightarrow> bytecode_builder \<Rightarrow> u8 \<Rightarrow> bytecode_builder \<Rightarrow> built option" where
  "callInline E inlineCode flags b =
    (let code = m_code inlineCode
     in map_option (\<lambda>r. case r of Inl c \<Rightarrow> (NotOk c, b)
                              | Inr rest \<Rightarrow> append_bytes rest b)
          (skip_argument_loads E (Suc (length code)) (make_iterator code) code))"

subsection \<open>The operations as a datatype\<close>

text \<open>
  A call of one of the operations that append a single instruction, its execution, the
  instruction it stands for and the calls the code accepts.
\<close>

datatype (plugins only:) builder_call =
    LoadNil
  | LoadUndef
  | LoadBool bool
  | LoadI8 u8
  | LoadI16 u16
  | LoadI32 u32
  | LoadI64 u64
  | LoadU8 u8
  | LoadU16 u16
  | LoadU32 u32
  | LoadU64 u64
  | LoadF32 u32
  | LoadF64 u64
  | LoadC32 u32
  | LoadArgument u16
  | LoadLocal u16
  | LoadLexical u16
  | LoadReceiver
  | LoadBytes u32
  | LoadString u32
  | LoadField u32
  | LoadStatic u32
  | LoadEnum u32
  | LoadInstance u32
  | LoadClass u32
  | LoadStruct u32
  | LoadConcept u32
  | LoadCall u32
  | LoadType u32
  | StoreArgument u16
  | StoreLocal u16
  | StoreLexical u16
  | StoreField u32
  | StoreStatic u32
  | ConvertToI8
  | ConvertToI16
  | ConvertToI32
  | ConvertToI64
  | ConvertToU8
  | ConvertToU16
  | ConvertToU32
  | ConvertToU64
  | ConvertToF32
  | ConvertToF64
  | PopValue
  | DupValue
  | PickValue u16
  | DropValue u16
  | CallStatic u32 u16 u8
  | CallVirtual u32 u16 u8
  | CallConcept u32 u16 u8
  | CallExistential u32 u16 u8
  | CallNew u32 u16 u8 u8
  | Trap u32 u8

primrec run_call :: "endian_lib \<Rightarrow> builder_call \<Rightarrow> bytecode_builder \<Rightarrow> built" where
  "run_call E LoadNil = loadNil"
| "run_call E LoadUndef = loadUndef"
| "run_call E (LoadBool v) = loadBool v"
| "run_call E (LoadI8 v) = loadI8 v"
| "run_call E (LoadI16 v) = loadI16 E v"
| "run_call E (LoadI32 v) = loadI32 E v"
| "run_call E (LoadI64 v) = loadI64 E v"
| "run_call E (LoadU8 v) = loadU8 v"
| "run_call E (LoadU16 v) = loadU16 E v"
| "run_call E (LoadU32 v) = loadU32 E v"
| "run_call E (LoadU64 v) = loadU64 E v"
| "run_call E (LoadF32 v) = loadF32 E v"
| "run_call E (LoadF64 v) = loadF64 E v"
| "run_call E (LoadC32 v) = loadC32 E v"
| "run_call E (LoadArgument v) = loadArgument E v"
| "run_call E (LoadLocal v) = loadLocal E v"
| "run_call E (LoadLexical v) = loadLexical E v"
| "run_call E LoadReceiver = loadReceiver"
| "run_call E (LoadBytes v) = loadBytes E v"
| "run_call E (LoadString v) = loadString E v"
| "run_call E (LoadField v) = loadField E v"
| "run_call E (LoadStatic v) = loadStatic E v"
| "run_call E (LoadEnum v) = loadEnum E v"
| "run_call E (LoadInstance v) = loadInstance E v"
| "run_call E (LoadClass v) = loadClass E v"
| "run_call E (LoadStruct v) = loadStruct E v"
| "run_call E (LoadConcept v) = loadConcept E v"
| "run_call E (LoadCall v) = loadCall E v"
| "run_call E (LoadType v) = loadType E v"
| "run_call E (StoreArgument v) = storeArgument E v"
| "run_call E (StoreLocal v) = storeLocal E v"
| "run_call E (StoreLexical v) = storeLexical E v"
| "run_call E (StoreField v) = storeField E v"
| "run_call E (StoreStatic v) = storeStatic E v"
| "run_call E ConvertToI8 = convertToI8"
| "run_call E ConvertToI16 = convertToI16"
| "run_call E ConvertToI32 = convertToI32"
| "run_call E ConvertToI64 = convertToI64"
| "run_call E ConvertToU8 = convertToU8"
| "run_call E ConvertToU16 = convertToU16"
| "run_call E ConvertToU32 = convertToU32"
| "run_call E ConvertToU64 = convertToU64"
| "run_call E ConvertToF32 = convertToF32"
| "run_call E ConvertToF64 = convertToF64"
| "run_call E PopValue = popValue"
| "run_call E DupValue = dupValue"
| "run_call E (PickValue v) = pickValue E v"
| "run_call E (DropValue v) = dropValue E v"
| "run_call E (CallStatic v p f) = callStatic E v p f"
| "run_call E (CallVirtual v p f) = callVirtual E v p f"
| "run_call E (CallConcept v p f) = callConcept E v p f"
| "run_call E (CallExistential v p f) = callExistential E v p f"
| "run_call E (CallNew v p t f) = callNew E v p t f"
| "run_call E (Trap v f) = trap E v f"

primrec call_instr :: "builder_call \<Rightarrow> instr" where
  "call_instr LoadNil = (OP_NIL, NoOperands)"
| "call_instr LoadUndef = (OP_UNDEF, NoOperands)"
| "call_instr (LoadBool v) = (if v then OP_TRUE else OP_FALSE, NoOperands)"
| "call_instr (LoadI8 v) = (OP_I8, ImmediateI8 v)"
| "call_instr (LoadI16 v) = (OP_I16, ImmediateI16 v)"
| "call_instr (LoadI32 v) = (OP_I32, ImmediateI32 v)"
| "call_instr (LoadI64 v) = (OP_I64, ImmediateI64 v)"
| "call_instr (LoadU8 v) = (OP_U8, ImmediateU8 v)"
| "call_instr (LoadU16 v) = (OP_U16, ImmediateU16 v)"
| "call_instr (LoadU32 v) = (OP_U32, ImmediateU32 v)"
| "call_instr (LoadU64 v) = (OP_U64, ImmediateU64 v)"
| "call_instr (LoadF32 v) = (OP_F32, ImmediateF32 v)"
| "call_instr (LoadF64 v) = (OP_F64, ImmediateF64 v)"
| "call_instr (LoadC32 v) = (OP_C32, ImmediateC32 v)"
| "call_instr (LoadArgument v) = (OP_LOAD, FlagsU8AddressU32 LOAD_ARGUMENT (ucast v))"
| "call_instr (LoadLocal v) = (OP_LOAD, FlagsU8AddressU32 LOAD_LOCAL (ucast v))"
| "call_instr (LoadLexical v) = (OP_LOAD, FlagsU8AddressU32 LOAD_LEXICAL (ucast v))"
| "call_instr LoadReceiver = (OP_SYNTHETIC, TypeU8 SYNTHETIC_THIS)"
| "call_instr (LoadBytes v) = (OP_BYTES, AddressU32 v)"
| "call_instr (LoadString v) = (OP_STRING, AddressU32 v)"
| "call_instr (LoadField v) = (OP_LOAD, FlagsU8AddressU32 LOAD_FIELD v)"
| "call_instr (LoadStatic v) = (OP_LOAD, FlagsU8AddressU32 LOAD_STATIC v)"
| "call_instr (LoadEnum v) = (OP_LOAD, FlagsU8AddressU32 LOAD_ENUM v)"
| "call_instr (LoadInstance v) = (OP_LOAD, FlagsU8AddressU32 LOAD_INSTANCE v)"
| "call_instr (LoadClass v) = (OP_DESCRIPTOR, FlagsU8AddressU32 (linkage_to_descriptor_section LinkageClass) v)"
| "call_instr (LoadStruct v) = (OP_DESCRIPTOR, FlagsU8AddressU32 (linkage_to_descriptor_section LinkageStruct) v)"
| "call_instr (LoadConcept v) = (OP_DESCRIPTOR, FlagsU8AddressU32 (linkage_to_descriptor_section LinkageConcept) v)"
| "call_instr (LoadCall v) = (OP_DESCRIPTOR, FlagsU8AddressU32 (linkage_to_descriptor_section LinkageCall) v)"
| "call_instr (LoadType v) = (OP_DESCRIPTOR, FlagsU8AddressU32 (linkage_to_descriptor_section LinkageType) v)"
| "call_instr (StoreArgument v) = (OP_STORE, FlagsU8AddressU32 STORE_ARGUMENT (ucast v))"
| "call_instr (StoreLocal v) = (OP_STORE, FlagsU8AddressU32 STORE_LOCAL (ucast v))"
| "call_instr (StoreLexical v) = (OP_STORE, FlagsU8AddressU32 STORE_LEXICAL (ucast v))"
| "call_instr (StoreField v) = (OP_STORE, FlagsU8AddressU32 STORE_FIELD v)"
| "call_instr (StoreStatic v) = (OP_STORE, FlagsU8AddressU32 STORE_STATIC v)"
| "call_instr ConvertToI8 = (OP_TO_I8, NoOperands)"
| "call_instr ConvertToI16 = (OP_TO_I16, NoOperands)"
| "call_instr ConvertToI32 = (OP_TO_I32, NoOperands)"
| "call_instr ConvertToI64 = (OP_TO_I64, NoOperands)"
| "call_instr ConvertToU8 = (OP_TO_U8, NoOperands)"
| "call_instr ConvertToU16 = (OP_TO_U16, NoOperands)"
| "call_instr ConvertToU32 = (OP_TO_U32, NoOperands)"
| "call_instr ConvertToU64 = (OP_TO_U64, NoOperands)"
| "call_instr ConvertToF32 = (OP_TO_F32, NoOperands)"
| "call_instr ConvertToF64 = (OP_TO_F64, NoOperands)"
| "call_instr PopValue = (OP_POP, NoOperands)"
| "call_instr DupValue = (OP_DUP, NoOperands)"
| "call_instr (PickValue v) = (OP_PICK, OffsetU16 v)"
| "call_instr (DropValue v) = (OP_DROP, OffsetU16 v)"
| "call_instr (CallStatic v p f) = (OP_CALL_STATIC, FlagsU8AddressU32PlacementU16 0 v p)"
| "call_instr (CallVirtual v p f) = (OP_CALL_VIRTUAL, FlagsU8AddressU32PlacementU16 f v p)"
| "call_instr (CallConcept v p f) = (OP_CALL_CONCEPT, FlagsU8AddressU32PlacementU16 f v p)"
| "call_instr (CallExistential v p f) = (OP_CALL_EXISTENTIAL, FlagsU8AddressU32PlacementU16 f v p)"
| "call_instr (CallNew v p t f) = (OP_NEW, FlagsU8AddressU32PlacementU16 (push_bit 4 t OR f) v p)"
| "call_instr (Trap v f) = (OP_TRAP, FlagsU8AddressU32 f v)"

definition call_ok :: "builder_call \<Rightarrow> bool" where
  "call_ok c \<longleftrightarrow> (\<forall>p f. c \<noteq> CallStatic INVALID_ADDRESS_U32 p f \<and> c \<noteq> CallVirtual INVALID_ADDRESS_U32 p f
     \<and> c \<noteq> CallConcept INVALID_ADDRESS_U32 p f \<and> c \<noteq> CallExistential INVALID_ADDRESS_U32 p f)"

fun run_calls :: "endian_lib \<Rightarrow> builder_call list \<Rightarrow> bytecode_builder \<Rightarrow> built" where
  "run_calls E [] b = (Ok, b)"
| "run_calls E (c # cs) b = and_then (run_call E c b) (run_calls E cs)"

lemmas builder_defs =
  append_bytes_def writeU8_def writeU16_def writeU32_def writeU64_def writeOpcode_def LAST_OPCODE_def
  loadNil_def loadUndef_def loadBool_def loadI8_def loadI16_def
  loadI32_def loadI64_def loadU8_def loadU16_def loadU32_def
  loadU64_def loadF32_def loadF64_def loadC32_def loadArgument_def
  loadLocal_def loadLexical_def loadReceiver_def loadBytes_def loadString_def
  loadField_def loadStatic_def loadEnum_def loadInstance_def loadClass_def
  loadStruct_def loadConcept_def loadCall_def loadType_def storeArgument_def
  storeLocal_def storeLexical_def storeField_def storeStatic_def convertToI8_def
  convertToI16_def convertToI32_def convertToI64_def convertToU8_def convertToU16_def
  convertToU32_def convertToU64_def convertToF32_def convertToF64_def popValue_def
  dupValue_def pickValue_def dropValue_def callStatic_def callVirtual_def
  callConcept_def callExistential_def callNew_def trap_def jumpIfNil_def
  jumpIfNotNil_def jumpIfTrue_def jumpIfFalse_def jumpIfZero_def jumpIfNotZero_def
  jumpIfLessThan_def jumpIfLessOrEqual_def jumpIfGreaterThan_def jumpIfGreaterOrEqual_def jump_def

context endian
begin

lemma run_call_appends:
  "call_ok c \<Longrightarrow> run_call E c b = (Ok, b\<lparr>m_code := m_code b @ instr_bytes (call_instr c)\<rparr>)"
  by (cases c) (simp_all add: call_ok_def builder_defs big instr_bytes_def)

end

lemma call_instr_ok: "call_ok c \<Longrightarrow> instr_ok (call_instr c)"
  by (cases c) (simp_all add: instr_ok_def opcode_wf_def LAST_OPCODE_def ops_def)


subsection \<open>Building and reading back\<close>

context endian
begin

lemma run_calls_appends:
  "\<forall>c \<in> set cs. call_ok c \<Longrightarrow>
    run_calls E cs b = (Ok, b\<lparr>m_code := m_code b @ concat (map (instr_bytes \<circ> call_instr) cs)\<rparr>)"
  by (induction cs arbitrary: b) (simp_all add: run_call_appends)

lemma read_back:
  assumes "\<forall>c \<in> set cs. call_ok c"
    and "code = concat (map (instr_bytes \<circ> call_instr) cs)" and "span_ok code"
    and "length cs < fuel"
  shows "read_ops E fuel (make_iterator code) = Some (cells_at 0 (map call_instr cs))"
  using read_ops_instrs [of "map call_instr cs" "make_iterator code" "[]" fuel] assms
  by (auto simp: call_instr_ok)

end

subsection \<open>Patched jumps land on their label\<close>

definition is_jump :: "opcode \<Rightarrow> bool" where
  "is_jump op \<longleftrightarrow> op \<in> {OP_IF_NIL, OP_IF_NOTNIL, OP_IF_TRUE, OP_IF_FALSE, OP_IF_ZERO,
     OP_IF_NOTZERO, OP_IF_GT, OP_IF_GE, OP_IF_LT, OP_IF_LE, OP_JUMP}"

text \<open>The operation that emits a jump with the given opcode.\<close>

definition emit_jump ::
  "endian_lib \<Rightarrow> opcode \<Rightarrow> bytecode_builder \<Rightarrow> object_condition status \<times> u16 \<times> bytecode_builder" where
  "emit_jump E op b =
    (if op = OP_IF_NIL then jumpIfNil E b
     else if op = OP_IF_NOTNIL then jumpIfNotNil E b
     else if op = OP_IF_TRUE then jumpIfTrue E b
     else if op = OP_IF_FALSE then jumpIfFalse E b
     else if op = OP_IF_ZERO then jumpIfZero E b
     else if op = OP_IF_NOTZERO then jumpIfNotZero E b
     else if op = OP_IF_GT then jumpIfGreaterThan E b
     else if op = OP_IF_GE then jumpIfGreaterOrEqual E b
     else if op = OP_IF_LT then jumpIfLessThan E b
     else if op = OP_IF_LE then jumpIfLessOrEqual E b
     else jump E b)"

lemma emit_jump_eq: "is_jump op \<Longrightarrow> emit_jump E op b = makePatch E (snd (writeOpcode op b))"
  unfolding is_jump_def
  by (elim insertE emptyE) (simp_all add: emit_jump_def builder_defs)

lemma jump_instr_ok: "is_jump op \<Longrightarrow> instr_ok (op, JumpI16 d)"
  by (auto simp: is_jump_def instr_ok_def opcode_wf_def LAST_OPCODE_def ops_def)

context endian
begin

lemma writeOpcode_jump:
  assumes "is_jump op"
  shows "writeOpcode op b = (Ok, b\<lparr>m_code := m_code b @ [opcode_index op]\<rparr>)"
proof -
  have "0 < opcode_index op \<and> opcode_index op < LAST_OPCODE"
    using assms unfolding is_jump_def
    by (elim insertE emptyE) (simp_all add: LAST_OPCODE_def)
  then show ?thesis
    by (simp only: writeOpcode_def simp_thms if_True writeU8_def append_bytes_def)
qed

lemma makePatch_after_opcode:
  "is_jump op \<Longrightarrow> makePatch E (snd (writeOpcode op b)) =
    (Ok, word_of_nat (Suc (length (m_code b))),
     b\<lparr>m_code := m_code b @ instr_bytes (op, JumpI16 0)\<rparr>)"
  by (simp add: writeOpcode_jump makePatch_def writeU16_def append_bytes_def big instr_bytes_def)

lemma patch_placeholder:
  fixes label :: u16
  assumes code: "m_code b = pre @ instr_bytes (op, JumpI16 0) @ post"
    and small: "Suc (length pre) < 65536"
  defines "delta \<equiv> uint label - (int (length pre) + 3)"
  shows "patch E (word_of_nat (Suc (length pre))) label b =
    (if unat label \<le> length (m_code b) \<and> - 0x8000 \<le> delta \<and> delta \<le> 0x7FFF
     then (Ok, b\<lparr>m_code := pre @ instr_bytes (op, JumpI16 (word_of_int delta)) @ post\<rparr>)
     else (NotOk kObjectInvariant, b))"
proof -
  obtain p :: u16 where p: "p = word_of_nat (Suc (length pre))"
    by simp
  have po: "unat p = Suc (length pre)"
    using small unfolding p by (simp add: unat_of_nat take_bit_nat_eq_self del: of_nat_Suc)
  then have upo: "uint p = int (Suc (length pre))"
    by (simp add: uint_nat)
  have delta: "uint label - (uint p + 2) = delta"
    using upo by (simp add: delta_def)
  have room: "\<not> length (m_code b) \<le> unat p + 1"
    by (simp add: code instr_bytes_def po)
  have pre: "take (unat p) (m_code b) = pre @ [opcode_index op]"
    and post: "drop (unat p + 2) (m_code b) = post"
    by (simp_all add: code instr_bytes_def po be16_def)
  show ?thesis
    unfolding p [symmetric] patch_def Let_def delta pre post using room
    by (auto simp: big instr_bytes_def not_less)
qed

text \<open>Decoding the patched jump and moving the cursor by its operand reaches the label.\<close>

lemma jump_reaches_label:
  assumes bs: "bs = pre @ instr_bytes (op, JumpI16 (word_of_int delta)) @ post"
    and op: "is_jump op" and it: "iterates it bs (length pre)"
    and target: "delta = int label - (int (length pre) + 3)"
    and range: "- 0x8000 \<le> delta" "delta \<le> 0x7FFF" and label: "label \<le> length bs"
  shows "fst (getNext E it) = GotOp (cell_at (length pre) (op, JumpI16 (word_of_int delta)))"
    and "fst (move (snd (getNext E it)) (word_of_int delta))"
    and "iterates (snd (move (snd (getNext E it)) (word_of_int delta))) bs label"
proof -
  let ?ins = "(op, JumpI16 (word_of_int delta))"
  have step: "next_at E bs (length pre) = (GotOp (cell_at (length pre) ?ins), length pre + 3)"
    unfolding bs by (subst next_at_instr) (simp_all add: jump_instr_ok op length_instr_bytes)
  show "fst (getNext E it) = GotOp (cell_at (length pre) ?ins)"
    by (simp only: getNext_eq [OF it] step fst_conv)
  have it': "iterates (snd (getNext E it)) bs (length pre + 3)"
    using getNext_iterates [OF it, of E] by (simp only: step snd_conv)
  have sint: "sint (word_of_int delta :: u16) = delta"
    using range by (simp add: sint_sbintrunc' signed_take_bit_int_eq_self)
  have goal: "int (length pre + 3) + sint (word_of_int delta :: u16) = int label"
    unfolding sint by (simp add: target)
  note m = move_iterates [OF it', of "word_of_int delta", unfolded goal]
  show "fst (move (snd (getNext E it)) (word_of_int delta))"
    using m label by simp
  show "iterates (snd (move (snd (getNext E it)) (word_of_int delta))) bs label"
    using m label it' by (simp add: iterates_set_curr)
qed

end

subsection \<open>Inlining drops the argument loads\<close>

definition argument_load :: "u32 \<Rightarrow> instr" where
  "argument_load a = (OP_LOAD, FlagsU8AddressU32 LOAD_ARGUMENT a)"

definition loads_argument :: "instr \<Rightarrow> bool" where
  "loads_argument i \<longleftrightarrow> fst i = OP_LOAD \<and>
     (case snd i of FlagsU8AddressU32 flags _ \<Rightarrow> flags = LOAD_ARGUMENT | _ \<Rightarrow> False)"

lemma is_argument_load_cell: "is_argument_load (cell_at n i) \<longleftrightarrow> loads_argument i"
  by (simp add: is_argument_load_def loads_argument_def cell_at_def)

lemma loads_argument_length:
  "loads_argument i \<Longrightarrow> length (instr_bytes i) = Suc (opinfo_type_to_size (operands_type (snd i)))"
  by (simp add: length_instr_bytes)

context endian
begin

lemma skip_argument_loads_instrs:
  assumes "\<forall>i \<in> set is. instr_ok i"
    and "iterates it (pre @ concat (map instr_bytes is)) (length pre)"
    and "length is < fuel"
  shows "skip_argument_loads E fuel it (concat (map instr_bytes is)) =
    Some (case dropWhile loads_argument is of
            [] \<Rightarrow> Inl kObjectInvariant
          | rest \<Rightarrow> Inr (concat (map instr_bytes rest)))"
  using assms
proof (induction "is" arbitrary: pre it fuel)
  case Nil
  then obtain f where f: "fuel = Suc f" by (cases fuel) auto
  show ?case
    using Nil.prems(2) by (simp add: f getNext_eq [OF Nil.prems(2)] next_at_def)
next
  case (Cons ins rest)
  let ?bs = "pre @ concat (map instr_bytes (ins # rest))"
  let ?n = "length pre + length (instr_bytes ins)"
  from Cons.prems(3) obtain f where f: "fuel = Suc f" and len: "length rest < f"
    by (cases fuel) auto
  have step: "next_at E ?bs (length pre) = (GotOp (cell_at (length pre) ins), ?n)"
    using Cons.prems(1) next_at_instr [of ins pre "concat (map instr_bytes rest)"] by simp
  have it': "iterates (snd (getNext E it)) ?bs ?n"
    using getNext_iterates [OF Cons.prems(2), of E] by (simp only: step snd_conv)
  have got: "getNext E it = (GotOp (cell_at (length pre) ins), snd (getNext E it))"
    by (simp only: getNext_eq [OF Cons.prems(2)] step fst_conv snd_conv)
  have next_code: "drop (opinfo_type_to_size (op_type (cell_at (length pre) ins)) + 1)
      (concat (map instr_bytes (ins # rest))) = concat (map instr_bytes rest)"
    by (simp add: cell_at_def length_instr_bytes)
  have IH: "skip_argument_loads E f (snd (getNext E it)) (concat (map instr_bytes rest)) =
    Some (case dropWhile loads_argument rest of
            [] \<Rightarrow> Inl kObjectInvariant
          | rest' \<Rightarrow> Inr (concat (map instr_bytes rest')))"
    using Cons.IH [where pre = "pre @ instr_bytes ins" and it = "snd (getNext E it)" and fuel = f]
      Cons.prems(1) it' len by simp
  show ?case
    unfolding f skip_argument_loads.simps(2)
    by (subst got) (simp only: prod.case next_result.case next_code IH is_argument_load_cell
        dropWhile.simps if_not_P not_not if_True if_False list.case simp_thms split: if_split,
        auto)
qed

lemma callInline_instrs:
  assumes "m_code callee = concat (map instr_bytes is)" "\<forall>i \<in> set is. instr_ok i"
    and "span_ok (m_code callee)"
  shows "callInline E callee flags b = Some
    (case dropWhile loads_argument is of
       [] \<Rightarrow> (NotOk kObjectInvariant, b)
     | rest \<Rightarrow> (Ok, b\<lparr>m_code := m_code b @ concat (map instr_bytes rest)\<rparr>))"
proof -
  have "length is \<le> length (concat (map instr_bytes is))"
    by (induction "is") (auto simp: length_instr_bytes)
  then have "skip_argument_loads E (Suc (length (m_code callee))) (make_iterator (m_code callee))
      (m_code callee) = Some (case dropWhile loads_argument is of
            [] \<Rightarrow> Inl kObjectInvariant
          | rest \<Rightarrow> Inr (concat (map instr_bytes rest)))"
    using skip_argument_loads_instrs [of "is" "make_iterator (m_code callee)" "[]"
        "Suc (length (m_code callee))"] assms by simp
  then show ?thesis
    by (cases "dropWhile loads_argument is")
      (simp_all add: callInline_def append_bytes_def del: skip_argument_loads.simps dropWhile_eq_Nil_conv)
qed

end

subsection \<open>Properties of the encoder\<close>

text \<open>C5. Decoding inverts encoding: a fresh builder that runs accepted calls reports no error,
  and the decoder reads back one instruction per call, in order, with the call's operands.\<close>

theorem build_read_roundtrip:
  assumes "endian E" "\<forall>c \<in> set cs. call_ok c"
    and "span_ok (concat (map (instr_bytes \<circ> call_instr) cs))" "length cs < fuel"
  shows "\<exists>b. run_calls E cs \<lparr>m_code = []\<rparr> = (Ok, b) \<and>
    read_ops E fuel (make_iterator (m_code b)) = Some (cells_at 0 (map call_instr cs))"
  using endian.run_calls_appends [OF assms(1,2)] endian.read_back [OF assms(1,2) refl assms(3,4)]
  by simp

theorem build_read_roundtrip_witness:
  "\<exists>b. run_calls little_endian_lib [LoadI16 513, CallStatic 7 2 0] \<lparr>m_code = []\<rparr> = (Ok, b) \<and>
    read_ops little_endian_lib 3 (make_iterator (m_code b))
      = Some (cells_at 0 (map call_instr [LoadI16 513, CallStatic 7 2 0]))"
  by (rule build_read_roundtrip [OF endian_little])
    (simp_all add: call_ok_def INVALID_ADDRESS_U32_def span_ok_def length_instr_bytes)

text \<open>C16. A forward jump whose placeholder lies below 65536 lands on its label (beyond that its offset wraps
  around): emit any of the jumps, append any code, patch the placeholder with a label, and the decoder at the jump reads it with a displacement whose move
  is accepted and puts the cursor on the label; the code keeps its length.\<close>

theorem patched_jump_lands:
  assumes "endian E" "is_jump op"
    and "emit_jump E op b = (Ok, po, b1)" "Suc (length (m_code b)) < 65536"
    and "m_code b2 = m_code b1 @ body" "patch E po label b2 = (Ok, b3)"
    and "iterates it (m_code b3) (length (m_code b))"
  shows "length (m_code b3) = length (m_code b2) \<and>
    (\<exists>d. fst (getNext E it) = GotOp (cell_at (length (m_code b)) (op, JumpI16 d)) \<and>
      fst (move (snd (getNext E it)) d) \<and>
      iterates (snd (move (snd (getNext E it)) d)) (m_code b3) (unat label))"
proof -
  let ?delta = "uint label - (int (length (m_code b)) + 3)"
  have po: "po = word_of_nat (Suc (length (m_code b)))"
    and b2: "m_code b2 = m_code b @ instr_bytes (op, JumpI16 0) @ body"
    using assms(3,5)
    by (auto simp: emit_jump_eq [OF assms(2)] endian.makePatch_after_opcode [OF assms(1,2)])
  note p = endian.patch_placeholder [OF assms(1) b2 assms(4), of label, folded po]
  have ok: "unat label \<le> length (m_code b2)" "- 0x8000 \<le> ?delta" "?delta \<le> 0x7FFF"
    and b3: "m_code b3 = m_code b @ instr_bytes (op, JumpI16 (word_of_int ?delta)) @ body"
    using assms(6) unfolding p by (auto split: if_splits)
  have len: "length (m_code b3) = length (m_code b2)"
    by (simp add: b2 b3 length_instr_bytes)
  have label: "?delta = int (unat label) - (int (length (m_code b)) + 3)" by simp
  show ?thesis
    using endian.jump_reaches_label [OF assms(1) b3 assms(2,7) label ok(2,3)] ok(1) len by auto
qed

theorem patched_jump_lands_witness:
  "length (m_code \<lparr>m_code = [1, 48, 0, 1, 1]\<rparr>) = length (m_code \<lparr>m_code = [1, 48, 0, 0, 1]\<rparr>) \<and>
    (\<exists>d. fst (getNext little_endian_lib (make_iterator [1, 48, 0, 1, 1]\<lparr>m_curr := 1\<rparr>))
        = GotOp (cell_at (length (m_code \<lparr>m_code = [1]\<rparr>)) (OP_IF_TRUE, JumpI16 d)) \<and>
      fst (move (snd (getNext little_endian_lib (make_iterator [1, 48, 0, 1, 1]\<lparr>m_curr := 1\<rparr>))) d) \<and>
      iterates (snd (move (snd (getNext little_endian_lib
        (make_iterator [1, 48, 0, 1, 1]\<lparr>m_curr := 1\<rparr>))) d))
        (m_code \<lparr>m_code = [1, 48, 0, 1, 1]\<rparr>) (unat (5 :: u16)))"
  by (rule patched_jump_lands [where op = OP_IF_TRUE and po = 2 and body = "[1]" and label = 5
        and ?b1.0 = "\<lparr>m_code = [1, 48, 0, 0]\<rparr>", OF endian_little])
    (simp_all add: is_jump_def emit_jump_def builder_defs makePatch_def patch_def little_endian_lib_def
      be16_def iterates_def make_iterator_def span_ok_def Let_def)

text \<open>Inlining splices the callee's code without its leading argument loads; a callee that has
  nothing but argument loads is refused.\<close>

theorem callInline_drops_argument_loads:
  assumes "endian E" "m_code callee = concat (map instr_bytes is)" "\<forall>i \<in> set is. instr_ok i"
    and "span_ok (m_code callee)"
  shows "callInline E callee flags b = Some
    (case dropWhile loads_argument is of
       [] \<Rightarrow> (NotOk kObjectInvariant, b)
     | rest \<Rightarrow> (Ok, b\<lparr>m_code := m_code b @ concat (map instr_bytes rest)\<rparr>))"
  by (rule endian.callInline_instrs [OF assms])

theorem callInline_drops_argument_loads_witness:
  "callInline little_endian_lib
     \<lparr>m_code = concat (map instr_bytes [argument_load 0, argument_load 1, (OP_ADD, NoOperands)])\<rparr>
     0 \<lparr>m_code = [1]\<rparr>
   = Some (case dropWhile loads_argument [argument_load 0, argument_load 1, (OP_ADD, NoOperands)] of
       [] \<Rightarrow> (NotOk kObjectInvariant, \<lparr>m_code = [1]\<rparr>)
     | rest \<Rightarrow> (Ok, \<lparr>m_code = [1]\<rparr>\<lparr>m_code := m_code \<lparr>m_code = [1]\<rparr> @ concat (map instr_bytes rest)\<rparr>))"
  by (rule callInline_drops_argument_loads [OF endian_little])
    (simp_all add: argument_load_def instr_ok_def opcode_wf_def LAST_OPCODE_def ops_def
      span_ok_def length_instr_bytes)

end
