(* ===== verification/Bits.thy ===== *)
theory Bits
  imports Prelude
begin

text \<open>
  Facts on the bits of words used by the encodings: a word below a power of two has no high
  bits, a tag ored into the low bits of a shifted value can be read back and shifted out, and
  a masked byte keeps the bits of a disjoint one.
\<close>

unbundle bit_operations_syntax

lemma unat_2p: "k < LENGTH('a::len) \<Longrightarrow> unat (2 ^ k :: 'a word) = 2 ^ k"
proof -
  assume "k < LENGTH('a)"
  then have "unat (word_of_nat (2 ^ k) :: 'a word) = 2 ^ k"
    unfolding unat_of_nat by (simp add: take_bit_nat_eq_self)
  then show ?thesis by simp
qed

lemma not_bit_small: "w < 2 ^ k \<Longrightarrow> k \<le> n \<Longrightarrow> \<not> bit (w :: 'a::len word) n"
proof -
  assume w: "w < 2 ^ k" and n: "k \<le> n"
  show ?thesis
  proof (cases "k < LENGTH('a)")
    case True
    then have "unat w < 2 ^ k"
      using w by (simp add: word_less_nat_alt unat_2p)
    then have "take_bit k (unat w) = unat w" by (simp add: take_bit_nat_eq_self)
    then have "\<not> bit (unat w) n"
      using n by (metis bit_take_bit_iff not_less)
    then show ?thesis by (auto simp: bit_unsigned_iff dest: bit_imp_le_length)
  next
    case False
    then show ?thesis using n by (auto dest: bit_imp_le_length)
  qed
qed

lemma mask_numerals:
  "(7 :: u8) = mask 3" "(0x0F :: u8) = mask 4" "(0x1F :: u8) = mask 5" "(0xFF :: u8) = mask 8" "(1 :: u8) = mask 1"
  by (simp_all add: mask_eq_exp_minus_1)

lemma no_high_bits: "8 \<le> k \<Longrightarrow> \<not> bit (t :: u8) k"
  using bit_imp_le_length [of t k] by auto

lemma drop_ucast_byte: "8 \<le> k \<Longrightarrow> drop_bit k (ucast (t :: u8)) = (0 :: 'a::len word)"
  by (auto intro!: bit_word_eqI simp: bit_simps no_high_bits)

lemma or_low_byte:
  fixes w :: "'a::len word" and t :: u8
  assumes "8 \<le> LENGTH('a)"
  shows "ucast (w OR ucast t) = (ucast w OR t :: u8)"
  using assms by (auto intro!: bit_word_eqI simp: bit_simps)

lemma tag_bits:
  fixes w :: "'a::len word" and t :: u8
  assumes "8 \<le> LENGTH('a)"
  shows "(ucast (push_bit k w OR ucast t) :: u8) AND mask k = t AND mask k"
  using assms by (auto intro!: bit_word_eqI simp: bit_simps)

lemma tag_low:
  fixes w :: "'a::len word" and t :: u8
  assumes "8 \<le> LENGTH('a)" "j \<le> k"
  shows "(ucast (push_bit k w OR ucast t) :: u8) AND mask j = t AND mask j"
  using assms by (auto intro!: bit_word_eqI simp: bit_simps)

lemma tag3:
  fixes w :: "'a::len word" and t :: u8
  shows "8 \<le> LENGTH('a) \<Longrightarrow> (ucast (push_bit 3 w OR ucast t) :: u8) AND 7 = t AND 7"
  using tag_bits [of 3 w t] by (simp add: mask_numerals)

lemma drop_push_tag:
  fixes w :: "'a::len word" and t :: u8
  assumes "w < 2 ^ m" "m + k \<le> LENGTH('a)" "t < 2 ^ k" "k < 8"
  shows "drop_bit k (push_bit k w OR ucast t) = w"
proof (rule bit_word_eqI)
  fix n assume n: "n < LENGTH('a)"
  show "bit (drop_bit k (push_bit k w OR ucast t)) n \<longleftrightarrow> bit w n"
  proof (cases "n < m")
    case True
    then show ?thesis using assms n not_bit_small [of t k "k + n"] by (simp add: bit_simps)
  next
    case False
    then show ?thesis using assms n not_bit_small [of t k "k + n"] not_bit_small [of w m n]
      by (auto simp: bit_simps)
  qed
qed

lemma abs_less_2p:
  fixes v :: "'a::len word"
  assumes "\<bar>sint v\<bar> < 2 ^ m" "m < LENGTH('a)"
  shows "word_of_int \<bar>sint v\<bar> < (2 ^ m :: 'a word)"
proof -
  obtain n where n0: "n = nat \<bar>sint v\<bar>" by simp
  have n: "\<bar>sint v\<bar> = int n" "n < 2 ^ m"
    using assms(1) unfolding n0 by (simp_all add: nat_less_iff)
  have "n < 2 ^ LENGTH('a)"
    using n(2) assms(2) by (meson less_trans one_less_numeral_iff power_strict_increasing semiring_norm(76))
  then have "unat (word_of_nat n :: 'a word) = n" by (simp add: unat_of_nat take_bit_nat_eq_self)
  then show ?thesis
    using n assms(2) by (simp add: word_less_nat_alt unat_2p)
qed

lemma neg_abs: "(if v <s 0 then - word_of_int \<bar>sint v\<bar> else word_of_int \<bar>sint v\<bar>) = (v :: 'a::len word)"
  by (simp add: word_sless_alt flip: of_int_minus)

lemma masked_or:
  fixes b t m :: "'a::len word"
  assumes "b AND m = 0" "t AND NOT m = 0"
  shows "(b OR t) AND m = t" "(b OR t) AND NOT m = b"
proof -
  have h: "\<not> (bit b n \<and> bit m n)" "n < LENGTH('a) \<Longrightarrow> bit t n \<Longrightarrow> bit m n" for n
    using arg_cong [OF assms(1), of "\<lambda>w. bit w n"] arg_cong [OF assms(2), of "\<lambda>w. bit w n"]
    by (auto simp: bit_simps)
  show "(b OR t) AND m = t" "(b OR t) AND NOT m = b"
    using h by (auto intro!: bit_word_eqI simp: bit_simps)
qed

lemma nibble_tag: "info AND 7 = (info AND 0x0F) AND (7 :: u8)"
  by (simp add: and.assoc)

lemma tag_range: "(info :: u8) AND 7 \<in> {0, 1, 2, 3, 4, 5, 6, 7}"
proof -
  have "unat (info AND 7) \<le> unat (7 :: u8)"
    by (metis word_and_le1 word_le_nat_alt)
  then have "unat (info AND 7) \<in> set [0..<8]" by simp
  then have "info AND 7 \<in> word_of_nat ` set [0..<8]" by (metis imageI of_nat_unat ucast_id)
  then show ?thesis by (simp add: upt_rec)
qed

end
