(* ===== verification/Operand.thy ===== *)
theory Operand
  imports Endian Opcodes
begin

text \<open>
  The tagged eight-byte values of the virtual machine, \<open>lyric_runtime::Operand\<close>
  (\<open>operand.h\<close>, \<open>operand.cpp\<close>). The last byte of the array, the info byte, holds the tag of
  the overlay: a single word (the last four bytes), a double word, or a pointer whose first
  byte carries a second tag.

  The constructors declare \<open>std::array<tu_uint8,8> bytes\<close> without an initialiser and set only
  some of its bytes: the contents of the uninitialised array are their first argument \<open>g\<close>, and
  nothing is assumed of them. A getter that returns \<open>false\<close> is \<open>None\<close>. Pointers are their
  addresses, \<open>nullptr\<close> is 0, and what the pointed-to objects answer is the argument \<open>M\<close>. A
  \<open>float\<close> or a \<open>double\<close> is its bit pattern.
\<close>

unbundle bit_operations_syntax

subsection \<open>Tags and limits\<close>

definition kTagMask :: u8 where
  "kTagMask = 0x07"

definition kNum64Mask :: u8 where
  "kNum64Mask = 0x0F"

definition kPointerMask :: u8 where
  "kPointerMask = 0x7E"

definition kSingleWordShortTag :: u8 where
  "kSingleWordShortTag = 0x00"

definition kSingleWordI32Tag :: u8 where
  "kSingleWordI32Tag = 0x01"

definition kSingleWordU32Tag :: u8 where
  "kSingleWordU32Tag = 0x02"

definition kI32SignBit :: u8 where
  "kI32SignBit = 0x08"

definition kI64SignBit :: u8 where
  "kI64SignBit = 0x10"

definition kDoubleWordSelf1Tag :: u8 where
  "kDoubleWordSelf1Tag = 0x03"

definition kDoubleWordSelf2Tag :: u8 where
  "kDoubleWordSelf2Tag = 0x04"

definition kDoubleWordNum32Tag :: u8 where
  "kDoubleWordNum32Tag = 0x05"

definition kDoubleWordNum64Tag :: u8 where
  "kDoubleWordNum64Tag = 0x06"

definition kDoubleWordPointerTag :: u8 where
  "kDoubleWordPointerTag = 0x07"

definition kShortEnumTag :: u8 where
  "kShortEnumTag = 0x08"

definition kShortI8Tag :: u8 where
  "kShortI8Tag = 0x10"

definition kShortU8Tag :: u8 where
  "kShortU8Tag = 0x18"

definition kShortI16Tag :: u8 where
  "kShortI16Tag = 0x20"

definition kShortU16Tag :: u8 where
  "kShortU16Tag = 0x28"

definition kShortC21Tag :: u8 where
  "kShortC21Tag = 0x30"

definition kNum32SignedTag :: u8 where
  "kNum32SignedTag = 0x0D"

definition kNum32UnsignedTag :: u8 where
  "kNum32UnsignedTag = 0x15"

definition kNum32FloatTag :: u8 where
  "kNum32FloatTag = 0x1D"

definition kNum64SignedTag :: u8 where
  "kNum64SignedTag = 0x06"

definition kNum64UnsignedTag :: u8 where
  "kNum64UnsignedTag = 0x0E"

definition kPointerRefTag :: u8 where
  "kPointerRefTag = 0x02"

definition kPointerBytesTag :: u8 where
  "kPointerBytesTag = 0x04"

definition kPointerNamespaceTag :: u8 where
  "kPointerNamespaceTag = 0x06"

definition kPointerProtocolTag :: u8 where
  "kPointerProtocolTag = 0x08"

definition kPointerRestTag :: u8 where
  "kPointerRestTag = 0x0A"

definition kPointerStatusTag :: u8 where
  "kPointerStatusTag = 0x0C"

definition kPointerStringTag :: u8 where
  "kPointerStringTag = 0x0E"

definition kPointerDescTag :: u8 where
  "kPointerDescTag = 0x10"

definition kPointerTypeTag :: u8 where
  "kPointerTypeTag = 0x12"

definition kPointerI64Tag :: u8 where
  "kPointerI64Tag = 0x14"

definition kPointerU64Tag :: u8 where
  "kPointerU64Tag = 0x16"

definition kPointerF64Tag :: u8 where
  "kPointerF64Tag = 0x18"

definition kPointerNumTag :: u8 where
  "kPointerNumTag = 0x1A"

definition kUndefEnum :: u32 where
  "kUndefEnum = 0x01"

definition kNilEnum :: u32 where
  "kNilEnum = 0x02"

definition kTrueEnum :: u32 where
  "kTrueEnum = 0x03"

definition kFalseEnum :: u32 where
  "kFalseEnum = 0x04"

definition kF64ZeroEnum :: u32 where
  "kF64ZeroEnum = 0x05"

definition kF64NZeroEnum :: u32 where
  "kF64NZeroEnum = 0x06"

definition kMinI32StackValue :: u32 where
  "kMinI32StackValue = - 0x10000000"

definition kMaxI32StackValue :: u32 where
  "kMaxI32StackValue = 0x10000000"

definition kMaxU32StackValue :: u32 where
  "kMaxU32StackValue = 0x1fffffff"

definition kMinI64StackValue :: u64 where
  "kMinI64StackValue = - 0x800000000000000"

definition kMaxI64StackValue :: u64 where
  "kMaxI64StackValue = 0x800000000000000"

definition kMaxU64StackValue :: u64 where
  "kMaxU64StackValue = 0x0fffffffffffffff"

definition kMaxC32Value :: u32 where
  "kMaxC32Value = 0x10ffff"

lemmas tag_defs [simp] =
  kTagMask_def kNum64Mask_def kPointerMask_def kSingleWordShortTag_def kSingleWordI32Tag_def
  kSingleWordU32Tag_def kI32SignBit_def kI64SignBit_def kDoubleWordSelf1Tag_def
  kDoubleWordSelf2Tag_def kDoubleWordNum32Tag_def kDoubleWordNum64Tag_def
  kDoubleWordPointerTag_def kShortEnumTag_def kShortI8Tag_def kShortU8Tag_def kShortI16Tag_def
  kShortU16Tag_def kShortC21Tag_def kNum32SignedTag_def kNum32UnsignedTag_def kNum32FloatTag_def
  kNum64SignedTag_def kNum64UnsignedTag_def kPointerRefTag_def kPointerBytesTag_def
  kPointerNamespaceTag_def kPointerProtocolTag_def kPointerRestTag_def kPointerStatusTag_def
  kPointerStringTag_def kPointerDescTag_def kPointerTypeTag_def kPointerI64Tag_def
  kPointerU64Tag_def kPointerF64Tag_def kPointerNumTag_def kUndefEnum_def kNilEnum_def
  kTrueEnum_def kFalseEnum_def kF64ZeroEnum_def kF64NZeroEnum_def kMinI32StackValue_def
  kMaxI32StackValue_def kMaxU32StackValue_def kMinI64StackValue_def kMaxI64StackValue_def
  kMaxU64StackValue_def kMaxC32Value_def

subsection \<open>The bytes of an operand\<close>

datatype overlay_type = OverlayInvalid | SmallValue | LargeValue | Pointer

datatype operand_type =
    TyInvalid | TyNil | TyUndef | TyBool | TyInt8 | TyInt16 | TyInt32 | TyInt64 | TyUInt8 |
    TyUInt16 | TyUInt32 | TyUInt64 | TyFloat32 | TyFloat64 | TyChar32 | TyDescriptor | TyType |
    TyRef | TyBytes | TyNamespace | TyProtocol | TyStatus | TyString | TyRest

record operand =
  m_bytes :: "u8 list"

text \<open>The array has eight bytes.\<close>

definition operand_wf :: "operand \<Rightarrow> bool" where
  "operand_wf op \<longleftrightarrow> length (m_bytes op) = 8"

text \<open>\<open>memcpy(dst + i, src, length src)\<close>, and \<open>bytes[i] |= t\<close>.\<close>

definition copy_at :: "nat \<Rightarrow> u8 list \<Rightarrow> u8 list \<Rightarrow> u8 list" where
  "copy_at i src dst = take i dst @ src @ drop (i + length src) dst"

definition or_at :: "nat \<Rightarrow> u8 \<Rightarrow> u8 list \<Rightarrow> u8 list" where
  "or_at i t bytes = bytes[i := (bytes ! i) OR t]"

definition empty_operand :: operand where
  "empty_operand = \<lparr>m_bytes = [0, 0, 0, 0, 0, 0, 0, 0]\<rparr>"

text \<open>The move constructor leaves an empty operand behind, the move assignment swaps.\<close>

definition move_construct :: "operand \<Rightarrow> operand \<times> operand" where
  "move_construct other = (other, empty_operand)"

definition move_assign :: "operand \<Rightarrow> operand \<Rightarrow> operand \<times> operand" where
  "move_assign this other = (other, this)"

definition get_info_byte :: "operand \<Rightarrow> u8" where
  "get_info_byte op = m_bytes op ! 7"

definition get_info_tag :: "operand \<Rightarrow> u8" where
  "get_info_tag op = m_bytes op ! 7 AND kTagMask"

definition isValid_operand :: "operand \<Rightarrow> bool" where
  "isValid_operand op \<longleftrightarrow> get_info_byte op \<noteq> 0"

subsection \<open>Overlay and type\<close>

definition parseRepresentation :: "u8 \<Rightarrow> overlay_type" where
  "parseRepresentation info =
    (let tag = info AND kTagMask
     in if tag \<in> {kSingleWordShortTag, kSingleWordI32Tag, kSingleWordU32Tag} then SmallValue
        else if tag \<in> {kDoubleWordSelf1Tag, kDoubleWordSelf2Tag, kDoubleWordNum32Tag,
          kDoubleWordNum64Tag} then LargeValue
        else if tag = kDoubleWordPointerTag then Pointer
        else OverlayInvalid)"

definition parseSize :: "u8 \<Rightarrow> nat" where
  "parseSize info =
    (let tag = info AND kTagMask
     in if tag \<in> {kSingleWordShortTag, kSingleWordI32Tag, kSingleWordU32Tag} then 4
        else if tag \<in> {kDoubleWordSelf1Tag, kDoubleWordSelf2Tag, kDoubleWordNum32Tag,
          kDoubleWordNum64Tag, kDoubleWordPointerTag} then 8
        else 0)"

definition getOverlay :: "operand \<Rightarrow> overlay_type" where
  "getOverlay op =
    (let info = get_info_byte op; tag = info AND kTagMask
     in if info = 0 then OverlayInvalid
        else if tag \<in> {kSingleWordShortTag, kSingleWordI32Tag, kSingleWordU32Tag} then SmallValue
        else if tag \<in> {kDoubleWordSelf1Tag, kDoubleWordSelf2Tag, kDoubleWordNum32Tag,
          kDoubleWordNum64Tag} then LargeValue
        else if tag = kDoubleWordPointerTag then Pointer
        else OverlayInvalid)"

definition getSize :: "operand \<Rightarrow> nat" where
  "getSize op = (case getOverlay op of SmallValue \<Rightarrow> 4 | LargeValue \<Rightarrow> 8 | Pointer \<Rightarrow> 8
     | OverlayInvalid \<Rightarrow> 0)"

definition getBytes :: "operand \<Rightarrow> u8 list" where
  "getBytes op = (case getOverlay op of SmallValue \<Rightarrow> drop 4 (m_bytes op)
     | LargeValue \<Rightarrow> m_bytes op | Pointer \<Rightarrow> m_bytes op | OverlayInvalid \<Rightarrow> [])"

definition enum_type :: "u8 \<Rightarrow> operand_type" where
  "enum_type enumtag =
    (if ucast enumtag = kUndefEnum then TyUndef
     else if ucast enumtag = kNilEnum then TyNil
     else if ucast enumtag \<in> {kTrueEnum, kFalseEnum} then TyBool
     else if ucast enumtag \<in> {kF64ZeroEnum, kF64NZeroEnum} then TyFloat64
     else TyInvalid)"

definition small_type :: "operand \<Rightarrow> operand_type" where
  "small_type op =
    (let info = get_info_byte op; tag = info AND kTagMask
     in if tag = kSingleWordI32Tag then TyInt32
        else if tag = kSingleWordU32Tag then TyUInt32
        else if tag = kSingleWordShortTag then
          (if info = kShortI8Tag then TyInt8
           else if info = kShortU8Tag then TyUInt8
           else if info = kShortI16Tag then TyInt16
           else if info = kShortU16Tag then TyUInt16
           else if info = kShortC21Tag then TyChar32
           else if info = kShortEnumTag then enum_type (m_bytes op ! 6)
           else TyInvalid)
        else TyInvalid)"

definition large_type :: "operand \<Rightarrow> operand_type" where
  "large_type op =
    (let info = get_info_byte op; tag = info AND kTagMask
     in if tag \<in> {kDoubleWordSelf1Tag, kDoubleWordSelf2Tag} then TyFloat64
        else if tag = kDoubleWordNum32Tag then
          (if info = kNum32SignedTag then TyInt32
           else if info = kNum32UnsignedTag then TyUInt32
           else if info = kNum32FloatTag then TyFloat32
           else TyInvalid)
        else if tag = kDoubleWordNum64Tag then
          (if info AND 0x0F = kNum64SignedTag then TyInt64
           else if info AND 0x0F = kNum64UnsignedTag then TyUInt64
           else TyInvalid)
        else TyInvalid)"

definition pointer_type :: "operand \<Rightarrow> operand_type" where
  "pointer_type op =
    (if get_info_byte op AND kTagMask \<noteq> kDoubleWordPointerTag then TyInvalid
     else let pointertag = m_bytes op ! 0 AND kPointerMask
     in if pointertag = kPointerRefTag then TyRef
        else if pointertag = kPointerBytesTag then TyBytes
        else if pointertag = kPointerNamespaceTag then TyNamespace
        else if pointertag = kPointerProtocolTag then TyProtocol
        else if pointertag = kPointerRestTag then TyRest
        else if pointertag = kPointerStatusTag then TyStatus
        else if pointertag = kPointerStringTag then TyString
        else if pointertag = kPointerDescTag then TyDescriptor
        else if pointertag = kPointerTypeTag then TyType
        else if pointertag = kPointerI64Tag then TyInt64
        else if pointertag = kPointerU64Tag then TyUInt64
        else if pointertag = kPointerF64Tag then TyFloat64
        else TyInvalid)"

definition getType :: "operand \<Rightarrow> operand_type" where
  "getType op = (case getOverlay op of SmallValue \<Rightarrow> small_type op | LargeValue \<Rightarrow> large_type op
     | Pointer \<Rightarrow> pointer_type op | OverlayInvalid \<Rightarrow> TyInvalid)"

definition get_enum_byte :: "operand \<Rightarrow> u8" where
  "get_enum_byte op = (if get_info_byte op \<noteq> kShortEnumTag then 0 else m_bytes op ! 6)"

definition isUndef :: "operand \<Rightarrow> bool" where
  "isUndef op \<longleftrightarrow> getOverlay op = SmallValue \<and> ucast (get_enum_byte op) = kUndefEnum"

definition isNil :: "operand \<Rightarrow> bool" where
  "isNil op \<longleftrightarrow> getOverlay op = SmallValue \<and> ucast (get_enum_byte op) = kNilEnum"

definition isIntegral :: "operand \<Rightarrow> bool" where
  "isIntegral op \<longleftrightarrow> getType op \<in> {TyUInt8, TyUInt16, TyUInt32, TyUInt64, TyInt8, TyInt16, TyInt32,
     TyInt64}"

definition isRational :: "operand \<Rightarrow> bool" where
  "isRational op \<longleftrightarrow> getType op \<in> {TyFloat32, TyFloat64}"

definition isSigned :: "operand \<Rightarrow> bool" where
  "isSigned op \<longleftrightarrow> getType op \<in> {TyInt8, TyInt16, TyInt32, TyInt64}"

definition isUnsigned :: "operand \<Rightarrow> bool" where
  "isUnsigned op \<longleftrightarrow> getType op \<in> {TyUInt8, TyUInt16, TyUInt32, TyUInt64}"

definition isReference :: "operand \<Rightarrow> bool" where
  "isReference op \<longleftrightarrow> getType op \<in> {TyBytes, TyNamespace, TyProtocol, TyRef, TyRest, TyStatus,
     TyString}"

subsection \<open>Pointers\<close>

text \<open>\<open>getPointer\<close> returns 0 (\<open>nullptr\<close>) when the operand is no pointer with that tag. Every call
  passes one of the tags above, all of which satisfy the assertion on \<open>pointertag\<close>.\<close>

definition getPointer :: "endian_lib \<Rightarrow> operand \<Rightarrow> u8 \<Rightarrow> u64" where
  "getPointer E op pointertag =
    (if getOverlay op \<noteq> Pointer then 0
     else if get_info_tag op \<noteq> kDoubleWordPointerTag then 0
     else if m_bytes op ! 0 AND kPointerMask \<noteq> pointertag then 0
     else load_big_u64 E
       ((m_bytes op)[0 := m_bytes op ! 0 AND NOT kPointerMask, 7 := m_bytes op ! 7 AND NOT kTagMask]))"

definition fromPointer :: "endian_lib \<Rightarrow> u8 list \<Rightarrow> u64 \<Rightarrow> u8 \<Rightarrow> operand" where
  "fromPointer E g ptr pointertag =
    (if ptr = 0 then empty_operand
     else let bytes = copy_at 0 (big_u64 E ptr) g
     in if bytes ! 0 AND kPointerMask \<noteq> 0 then empty_operand
        else if bytes ! 7 AND kTagMask \<noteq> 0 then empty_operand
        else \<lparr>m_bytes = or_at 7 kDoubleWordPointerTag (or_at 0 pointertag bytes)\<rparr>)"

definition nonnull :: "u64 \<Rightarrow> u64 option" where
  "nonnull ptr = (if ptr = 0 then None else Some ptr)"

definition getRef :: "endian_lib \<Rightarrow> operand \<Rightarrow> u64 option" where
  "getRef E op = nonnull (getPointer E op kPointerRefTag)"

definition getBytesRef :: "endian_lib \<Rightarrow> operand \<Rightarrow> u64 option" where
  "getBytesRef E op = nonnull (getPointer E op kPointerBytesTag)"

definition getNamespace :: "endian_lib \<Rightarrow> operand \<Rightarrow> u64 option" where
  "getNamespace E op = nonnull (getPointer E op kPointerNamespaceTag)"

definition getProtocol :: "endian_lib \<Rightarrow> operand \<Rightarrow> u64 option" where
  "getProtocol E op = nonnull (getPointer E op kPointerProtocolTag)"

definition getRest :: "endian_lib \<Rightarrow> operand \<Rightarrow> u64 option" where
  "getRest E op = nonnull (getPointer E op kPointerRestTag)"

definition getStatus :: "endian_lib \<Rightarrow> operand \<Rightarrow> u64 option" where
  "getStatus E op = nonnull (getPointer E op kPointerStatusTag)"

definition getString :: "endian_lib \<Rightarrow> operand \<Rightarrow> u64 option" where
  "getString E op = nonnull (getPointer E op kPointerStringTag)"

definition getDescriptor :: "endian_lib \<Rightarrow> operand \<Rightarrow> u64 option" where
  "getDescriptor E op = nonnull (getPointer E op kPointerDescTag)"

definition getTypeEntry :: "endian_lib \<Rightarrow> operand \<Rightarrow> u64 option" where
  "getTypeEntry E op = nonnull (getPointer E op kPointerTypeTag)"

definition fromRef :: "endian_lib \<Rightarrow> u8 list \<Rightarrow> u64 \<Rightarrow> operand" where
  "fromRef E g ref = fromPointer E g ref kPointerRefTag"

definition fromBytes :: "endian_lib \<Rightarrow> u8 list \<Rightarrow> u64 \<Rightarrow> operand" where
  "fromBytes E g bytes = fromPointer E g bytes kPointerBytesTag"

definition fromNamespace :: "endian_lib \<Rightarrow> u8 list \<Rightarrow> u64 \<Rightarrow> operand" where
  "fromNamespace E g ns = fromPointer E g ns kPointerNamespaceTag"

definition fromProtocol :: "endian_lib \<Rightarrow> u8 list \<Rightarrow> u64 \<Rightarrow> operand" where
  "fromProtocol E g protocol = fromPointer E g protocol kPointerProtocolTag"

definition fromRest :: "endian_lib \<Rightarrow> u8 list \<Rightarrow> u64 \<Rightarrow> operand" where
  "fromRest E g rest = fromPointer E g rest kPointerRestTag"

definition fromStatus :: "endian_lib \<Rightarrow> u8 list \<Rightarrow> u64 \<Rightarrow> operand" where
  "fromStatus E g status = fromPointer E g status kPointerStatusTag"

definition fromString :: "endian_lib \<Rightarrow> u8 list \<Rightarrow> u64 \<Rightarrow> operand" where
  "fromString E g str = fromPointer E g str kPointerStringTag"

definition fromDescriptor :: "endian_lib \<Rightarrow> u8 list \<Rightarrow> u64 \<Rightarrow> operand" where
  "fromDescriptor E g descriptor = fromPointer E g descriptor kPointerDescTag"

definition fromType :: "endian_lib \<Rightarrow> u8 list \<Rightarrow> u64 \<Rightarrow> operand" where
  "fromType E g type = fromPointer E g type kPointerTypeTag"

definition fromI64Ref :: "endian_lib \<Rightarrow> u8 list \<Rightarrow> u64 \<Rightarrow> operand" where
  "fromI64Ref E g i64 = fromPointer E g i64 kPointerI64Tag"

definition fromU64Ref :: "endian_lib \<Rightarrow> u8 list \<Rightarrow> u64 \<Rightarrow> operand" where
  "fromU64Ref E g u64 = fromPointer E g u64 kPointerU64Tag"

definition fromF64Ref :: "endian_lib \<Rightarrow> u8 list \<Rightarrow> u64 \<Rightarrow> operand" where
  "fromF64Ref E g f64 = fromPointer E g f64 kPointerF64Tag"

subsection \<open>The objects behind the pointers\<close>

text \<open>What the objects a pointer operand may point to answer: the boxed numbers their value, a
  descriptor or type entry its segment, index and section, a reference its virtual \<open>equals\<close>.\<close>

record objects =
  i64_of :: "u64 \<Rightarrow> u64"
  u64_of :: "u64 \<Rightarrow> u64"
  f64_of :: "u64 \<Rightarrow> u64"
  segment_of :: "u64 \<Rightarrow> u32"
  index_of :: "u64 \<Rightarrow> u32"
  section_of :: "u64 \<Rightarrow> linkage_section"
  equals_of :: "u64 \<Rightarrow> u64 \<Rightarrow> bool"

subsection \<open>Getters of values\<close>

definition getBool :: "operand \<Rightarrow> bool option" where
  "getBool op =
    (if getOverlay op \<noteq> SmallValue then None
     else if ucast (get_enum_byte op) = kTrueEnum then Some True
     else if ucast (get_enum_byte op) = kFalseEnum then Some False
     else None)"

definition getI8 :: "operand \<Rightarrow> u8 option" where
  "getI8 op =
    (if getOverlay op \<noteq> SmallValue then None
     else if get_info_byte op \<noteq> kShortI8Tag then None
     else Some (m_bytes op ! 6))"

definition getU8 :: "operand \<Rightarrow> u8 option" where
  "getU8 op =
    (if getOverlay op \<noteq> SmallValue then None
     else if get_info_byte op \<noteq> kShortU8Tag then None
     else Some (m_bytes op ! 6))"

definition getI16 :: "endian_lib \<Rightarrow> operand \<Rightarrow> u16 option" where
  "getI16 E op =
    (if getOverlay op \<noteq> SmallValue then None
     else if get_info_byte op \<noteq> kShortI16Tag then None
     else Some (load_native_u16 E (take 2 (drop 5 (m_bytes op)))))"

definition getU16 :: "endian_lib \<Rightarrow> operand \<Rightarrow> u16 option" where
  "getU16 E op =
    (if getOverlay op \<noteq> SmallValue then None
     else if get_info_byte op \<noteq> kShortU16Tag then None
     else Some (load_native_u16 E (take 2 (drop 5 (m_bytes op)))))"

definition getI32 :: "endian_lib \<Rightarrow> operand \<Rightarrow> u32 option" where
  "getI32 E op =
    (case getOverlay op of
       SmallValue \<Rightarrow>
         (if get_info_byte op AND kTagMask \<noteq> kSingleWordI32Tag then None
          else let i32 = drop_bit 4 (load_big_u32 E (drop 4 (m_bytes op)))
               in Some (if get_info_byte op AND kI32SignBit \<noteq> 0 then - i32 else i32))
     | LargeValue \<Rightarrow>
         (if get_info_byte op \<noteq> kNum32SignedTag then None
          else Some (load_native_u32 E (take 4 (drop 3 (m_bytes op)))))
     | _ \<Rightarrow> None)"

definition getU32 :: "endian_lib \<Rightarrow> operand \<Rightarrow> u32 option" where
  "getU32 E op =
    (case getOverlay op of
       SmallValue \<Rightarrow>
         (if get_info_tag op \<noteq> kSingleWordU32Tag then None
          else Some (drop_bit 3 (load_big_u32 E (drop 4 (m_bytes op)))))
     | LargeValue \<Rightarrow>
         (if get_info_byte op \<noteq> kNum32UnsignedTag then None
          else Some (load_native_u32 E (take 4 (drop 3 (m_bytes op)))))
     | _ \<Rightarrow> None)"

definition getI64 :: "endian_lib \<Rightarrow> objects \<Rightarrow> operand \<Rightarrow> u64 option" where
  "getI64 E M op =
    (if get_info_byte op AND kTagMask = kDoubleWordPointerTag then
       (let ptr = getPointer E op kPointerI64Tag in if ptr = 0 then None else Some (i64_of M ptr))
     else if get_info_byte op AND kNum64Mask \<noteq> kNum64SignedTag then None
     else let i64 = drop_bit 5 (load_big_u64 E (m_bytes op))
          in Some (if get_info_byte op AND kI64SignBit \<noteq> 0 then - i64 else i64))"

definition getU64 :: "endian_lib \<Rightarrow> objects \<Rightarrow> operand \<Rightarrow> u64 option" where
  "getU64 E M op =
    (if get_info_byte op AND kTagMask = kDoubleWordPointerTag then
       (let ptr = getPointer E op kPointerU64Tag in if ptr = 0 then None else Some (u64_of M ptr))
     else if get_info_byte op AND kNum64Mask \<noteq> kNum64UnsignedTag then None
     else Some (drop_bit 4 (load_big_u64 E (m_bytes op))))"

definition getC32 :: "endian_lib \<Rightarrow> operand \<Rightarrow> u32 option" where
  "getC32 E op =
    (if getOverlay op \<noteq> SmallValue then None
     else if get_info_byte op \<noteq> kShortC21Tag then None
     else Some (drop_bit 8 (load_big_u32 E (drop 4 (m_bytes op)))))"

definition getF32 :: "endian_lib \<Rightarrow> operand \<Rightarrow> u32 option" where
  "getF32 E op =
    (if getOverlay op \<noteq> LargeValue then None
     else if get_info_byte op \<noteq> kNum32FloatTag then None
     else Some (load_native_u32 E (take 4 (drop 3 (m_bytes op)))))"

definition f64_zero :: u64 where
  "f64_zero = 0"

definition f64_negative_zero :: u64 where
  "f64_negative_zero = 0x8000000000000000"

definition getF64 :: "endian_lib \<Rightarrow> objects \<Rightarrow> operand \<Rightarrow> u64 option" where
  "getF64 E M op =
    (case getOverlay op of
       SmallValue \<Rightarrow>
         (if ucast (get_enum_byte op) = kF64ZeroEnum then Some f64_zero
          else if ucast (get_enum_byte op) = kF64NZeroEnum then Some f64_negative_zero
          else None)
     | LargeValue \<Rightarrow>
         (if get_info_tag op \<in> {kDoubleWordSelf1Tag, kDoubleWordSelf2Tag}
          then Some (word_rotl 60 (load_big_u64 E (m_bytes op)))
          else None)
     | Pointer \<Rightarrow>
         (let ptr = getPointer E op kPointerF64Tag in if ptr = 0 then None else Some (f64_of M ptr))
     | OverlayInvalid \<Rightarrow> None)"

subsection \<open>Constructors from values\<close>

definition fromBool :: "u8 list \<Rightarrow> bool \<Rightarrow> operand" where
  "fromBool g b =
    \<lparr>m_bytes = (g[6 := ucast (if b then kTrueEnum else kFalseEnum)])[7 := kShortEnumTag]\<rparr>"

definition nil :: "u8 list \<Rightarrow> operand" where
  "nil g = \<lparr>m_bytes = (g[6 := ucast kNilEnum])[7 := kShortEnumTag]\<rparr>"

definition undef :: "u8 list \<Rightarrow> operand" where
  "undef g = \<lparr>m_bytes = (g[6 := ucast kUndefEnum])[7 := kShortEnumTag]\<rparr>"

definition fromI8 :: "u8 list \<Rightarrow> u8 \<Rightarrow> operand" where
  "fromI8 g i8 = \<lparr>m_bytes = (g[6 := i8])[7 := kShortI8Tag]\<rparr>"

definition fromU8 :: "u8 list \<Rightarrow> u8 \<Rightarrow> operand" where
  "fromU8 g u8 = \<lparr>m_bytes = (g[6 := u8])[7 := kShortU8Tag]\<rparr>"

definition fromI16 :: "endian_lib \<Rightarrow> u8 list \<Rightarrow> u16 \<Rightarrow> operand" where
  "fromI16 E g i16 = \<lparr>m_bytes = (copy_at 5 (native_u16 E i16) g)[7 := kShortI16Tag]\<rparr>"

definition fromU16 :: "endian_lib \<Rightarrow> u8 list \<Rightarrow> u16 \<Rightarrow> operand" where
  "fromU16 E g u16 = \<lparr>m_bytes = (copy_at 5 (native_u16 E u16) g)[7 := kShortU16Tag]\<rparr>"

definition fromI32 :: "endian_lib \<Rightarrow> u8 list \<Rightarrow> u32 \<Rightarrow> operand" where
  "fromI32 E g i32 =
    (if i32 <s kMinI32StackValue \<or> kMaxI32StackValue <s i32 then
       \<lparr>m_bytes = (copy_at 3 (native_u32 E i32) g)[7 := kNum32SignedTag]\<rparr>
     else
       let small = word_of_int \<bar>sint i32\<bar>;
           bytes = or_at 7 kSingleWordI32Tag (copy_at 4 (big_u32 E (push_bit 4 small)) g)
       in \<lparr>m_bytes = (if i32 <s 0 then or_at 7 kI32SignBit bytes else bytes)\<rparr>)"

definition fromU32 :: "endian_lib \<Rightarrow> u8 list \<Rightarrow> u32 \<Rightarrow> operand" where
  "fromU32 E g u32 =
    (if u32 > kMaxU32StackValue then
       \<lparr>m_bytes = (copy_at 3 (native_u32 E u32) g)[7 := kNum32UnsignedTag]\<rparr>
     else \<lparr>m_bytes = or_at 7 kSingleWordU32Tag (copy_at 4 (big_u32 E (push_bit 3 u32)) g)\<rparr>)"

definition fromI64 :: "endian_lib \<Rightarrow> u8 list \<Rightarrow> u64 \<Rightarrow> operand" where
  "fromI64 E g i64 =
    (if i64 <s kMinI64StackValue \<or> kMaxI64StackValue <s i64 then empty_operand
     else
       let large = word_of_int \<bar>sint i64\<bar>;
           bytes = or_at 7 kNum64SignedTag (copy_at 0 (big_u64 E (push_bit 5 large)) g)
       in \<lparr>m_bytes = (if i64 <s 0 then or_at 7 kI64SignBit bytes else bytes)\<rparr>)"

definition fromU64 :: "endian_lib \<Rightarrow> u8 list \<Rightarrow> u64 \<Rightarrow> operand" where
  "fromU64 E g u64 =
    (if u64 > kMaxU64StackValue then empty_operand
     else \<lparr>m_bytes = or_at 7 kNum64UnsignedTag (copy_at 0 (big_u64 E (push_bit 4 u64)) g)\<rparr>)"

definition fromC32 :: "endian_lib \<Rightarrow> u8 list \<Rightarrow> u32 \<Rightarrow> operand" where
  "fromC32 E g c32 =
    (if c32 > kMaxC32Value then empty_operand
     else \<lparr>m_bytes = (copy_at 4 (big_u32 E (push_bit 8 c32)) g)[7 := kShortC21Tag]\<rparr>)"

definition fromF32 :: "endian_lib \<Rightarrow> u8 list \<Rightarrow> u32 \<Rightarrow> operand" where
  "fromF32 E g f32 = \<lparr>m_bytes = (copy_at 3 (native_u32 E f32) g)[7 := kNum32FloatTag]\<rparr>"

definition encode_f64 :: "endian_lib \<Rightarrow> u64 \<Rightarrow> u8 list \<Rightarrow> bool \<times> u8 list" where
  "encode_f64 E f64 bytes =
    (let bytes' = copy_at 0 (big_u64 E (word_rotr 60 f64)) bytes
     in (bytes' ! 7 AND kTagMask \<in> {kDoubleWordSelf1Tag, kDoubleWordSelf2Tag}, bytes'))"

definition f64_is_zero :: "u64 \<Rightarrow> bool" where
  "f64_is_zero f64 \<longleftrightarrow> f64 = f64_zero \<or> f64 = f64_negative_zero"

definition fromF64 :: "endian_lib \<Rightarrow> u8 list \<Rightarrow> u64 \<Rightarrow> operand" where
  "fromF64 E g f64 =
    (if f64_is_zero f64 then
       \<lparr>m_bytes = (g[6 := ucast (if bit f64 63 then kF64NZeroEnum else kF64ZeroEnum)])
          [7 := kShortEnumTag]\<rparr>
     else let (ok, bytes) = encode_f64 E f64 g
          in if ok then \<lparr>m_bytes = bytes\<rparr> else empty_operand)"

subsection \<open>Parsing\<close>

definition parse_operand :: "u8 list \<Rightarrow> u8 list \<Rightarrow> operand" where
  "parse_operand g raw =
    (if length raw = 4 then
       (if raw ! 3 AND kTagMask \<in> {kSingleWordShortTag, kSingleWordI32Tag, kSingleWordU32Tag}
        then \<lparr>m_bytes = copy_at 4 raw g\<rparr> else empty_operand)
     else if length raw = 8 then
       (let tag = raw ! 7 AND kTagMask
        in if tag \<in> {kSingleWordShortTag, kSingleWordI32Tag, kSingleWordU32Tag}
           then \<lparr>m_bytes = copy_at 4 (drop 4 raw) g\<rparr>
           else if tag \<in> {kDoubleWordSelf1Tag, kDoubleWordSelf2Tag, kDoubleWordNum32Tag,
             kDoubleWordNum64Tag} then \<lparr>m_bytes = raw\<rparr>
           else if tag = kDoubleWordPointerTag then \<lparr>m_bytes = raw\<rparr>
           else empty_operand)
     else empty_operand)"

subsection \<open>Equality, identity and hashing\<close>

text \<open>\<open>==\<close> on \<open>float\<close> and \<open>double\<close>: a NaN differs from everything, the zeros are equal.\<close>

definition f32_eq :: "u32 \<Rightarrow> u32 \<Rightarrow> bool" where
  "f32_eq l r \<longleftrightarrow>
    (let nan = (\<lambda>w :: u32. w AND 0x7F800000 = 0x7F800000 \<and> w AND 0x007FFFFF \<noteq> 0);
         zero = (\<lambda>w :: u32. w AND 0x7FFFFFFF = 0)
     in \<not> nan l \<and> \<not> nan r \<and> (l = r \<or> zero l \<and> zero r))"

definition f64_eq :: "u64 \<Rightarrow> u64 \<Rightarrow> bool" where
  "f64_eq l r \<longleftrightarrow>
    (let nan = (\<lambda>w :: u64. w AND 0x7FF0000000000000 = 0x7FF0000000000000
           \<and> w AND 0x000FFFFFFFFFFFFF \<noteq> 0)
     in \<not> nan l \<and> \<not> nan r \<and> (l = r \<or> f64_is_zero l \<and> f64_is_zero r))"

definition values_equal :: "('v \<Rightarrow> 'v \<Rightarrow> bool) \<Rightarrow> 'v option \<Rightarrow> 'v option \<Rightarrow> bool" where
  "values_equal eq lhs rhs =
    (case lhs of None \<Rightarrow> False | Some l \<Rightarrow> (case rhs of None \<Rightarrow> False | Some r \<Rightarrow> eq l r))"

definition values_match :: "endian_lib \<Rightarrow> objects \<Rightarrow> operand \<Rightarrow> operand \<Rightarrow> bool" where
  "values_match E M a b =
    (case getType a of
       TyNil \<Rightarrow> True
     | TyUndef \<Rightarrow> True
     | TyBool \<Rightarrow> values_equal (=) (getBool a) (getBool b)
     | TyInt8 \<Rightarrow> values_equal (=) (getI8 a) (getI8 b)
     | TyInt16 \<Rightarrow> values_equal (=) (getI16 E a) (getI16 E b)
     | TyInt32 \<Rightarrow> values_equal (=) (getI32 E a) (getI32 E b)
     | TyInt64 \<Rightarrow> values_equal (=) (getI64 E M a) (getI64 E M b)
     | TyUInt8 \<Rightarrow> values_equal (=) (getU8 a) (getU8 b)
     | TyUInt16 \<Rightarrow> values_equal (=) (getU16 E a) (getU16 E b)
     | TyUInt32 \<Rightarrow> values_equal (=) (getU32 E a) (getU32 E b)
     | TyUInt64 \<Rightarrow> values_equal (=) (getU64 E M a) (getU64 E M b)
     | TyFloat32 \<Rightarrow> values_equal f32_eq (getF32 E a) (getF32 E b)
     | TyFloat64 \<Rightarrow> values_equal f64_eq (getF64 E M a) (getF64 E M b)
     | TyChar32 \<Rightarrow> values_equal (=) (getC32 E a) (getC32 E b)
     | _ \<Rightarrow> False)"

definition isEqualTo :: "endian_lib \<Rightarrow> objects \<Rightarrow> operand \<Rightarrow> operand \<Rightarrow> bool" where
  "isEqualTo E M a b =
    (if getType a \<noteq> getType b then False
     else case getType a of
       TyBytes \<Rightarrow> values_equal (equals_of M) (getBytesRef E a) (getBytesRef E b)
     | TyString \<Rightarrow> values_equal (equals_of M) (getString E a) (getString E b)
     | TyStatus \<Rightarrow> values_equal (equals_of M) (getStatus E a) (getStatus E b)
     | TyNamespace \<Rightarrow> values_equal (equals_of M) (getNamespace E a) (getNamespace E b)
     | TyProtocol \<Rightarrow> values_equal (equals_of M) (getProtocol E a) (getProtocol E b)
     | TyRest \<Rightarrow> values_equal (equals_of M) (getRest E a) (getRest E b)
     | TyRef \<Rightarrow> values_equal (equals_of M) (getRef E a) (getRef E b)
     | TyDescriptor \<Rightarrow> values_equal (\<lambda>l r. segment_of M l = segment_of M r
           \<and> index_of M l = index_of M r \<and> section_of M l = section_of M r)
         (getDescriptor E a) (getDescriptor E b)
     | TyType \<Rightarrow> values_equal (\<lambda>l r. segment_of M l = segment_of M r \<and> index_of M l = index_of M r)
         (getTypeEntry E a) (getTypeEntry E b)
     | _ \<Rightarrow> values_match E M a b)"

definition isSameAs :: "endian_lib \<Rightarrow> objects \<Rightarrow> operand \<Rightarrow> operand \<Rightarrow> bool" where
  "isSameAs E M a b =
    (if getType a \<noteq> getType b then False
     else case getType a of
       TyBytes \<Rightarrow> values_equal (=) (getBytesRef E a) (getBytesRef E b)
     | TyString \<Rightarrow> values_equal (=) (getString E a) (getString E b)
     | TyStatus \<Rightarrow> values_equal (=) (getStatus E a) (getStatus E b)
     | TyNamespace \<Rightarrow> values_equal (=) (getNamespace E a) (getNamespace E b)
     | TyProtocol \<Rightarrow> values_equal (=) (getProtocol E a) (getProtocol E b)
     | TyRest \<Rightarrow> values_equal (=) (getRest E a) (getRest E b)
     | TyRef \<Rightarrow> values_equal (=) (getRef E a) (getRef E b)
     | TyDescriptor \<Rightarrow> values_equal (=) (getDescriptor E a) (getDescriptor E b)
     | TyType \<Rightarrow> values_equal (=) (getTypeEntry E a) (getTypeEntry E b)
     | _ \<Rightarrow> values_match E M a b)"

text \<open>What \<open>hashIdentity\<close> and \<open>hashEquality\<close> feed to the hash: nothing, bytes, the fields of an
  entry, or the virtual \<open>hashValue\<close> of a reference. \<open>None\<close> is a failed assertion or
  \<open>TU_UNREACHABLE\<close>.\<close>

datatype hash_input =
    HashNothing
  | HashBytes "u8 list"
  | HashDescriptor u32 linkage_section u32
  | HashType u32 u32
  | HashValueOf u64

definition hashIdentity :: "operand \<Rightarrow> hash_input" where
  "hashIdentity op =
    (case getOverlay op of
       SmallValue \<Rightarrow> HashBytes (drop 4 (m_bytes op))
     | LargeValue \<Rightarrow> HashBytes (m_bytes op)
     | Pointer \<Rightarrow> HashBytes (m_bytes op)
     | OverlayInvalid \<Rightarrow> HashNothing)"

text \<open>The reference a pointer operand holds. For \<open>TyRef\<close> the code also marks it reachable.\<close>

definition get_ref :: "endian_lib \<Rightarrow> operand \<Rightarrow> u64 option" where
  "get_ref E op =
    (case getType op of
       TyBytes \<Rightarrow> getBytesRef E op
     | TyString \<Rightarrow> getString E op
     | TyStatus \<Rightarrow> getStatus E op
     | TyNamespace \<Rightarrow> getNamespace E op
     | TyProtocol \<Rightarrow> getProtocol E op
     | TyRest \<Rightarrow> getRest E op
     | TyRef \<Rightarrow> getRef E op
     | _ \<Rightarrow> None)"

definition hashEquality :: "endian_lib \<Rightarrow> objects \<Rightarrow> operand \<Rightarrow> hash_input option" where
  "hashEquality E M op =
    (case getOverlay op of
       SmallValue \<Rightarrow> Some (HashBytes (drop 4 (m_bytes op)))
     | LargeValue \<Rightarrow> Some (HashBytes (m_bytes op))
     | OverlayInvalid \<Rightarrow> Some (HashBytes (m_bytes op))
     | Pointer \<Rightarrow>
        (case getType op of
           TyDescriptor \<Rightarrow> map_option (\<lambda>d. HashDescriptor (segment_of M d) (section_of M d) (index_of M d))
             (getDescriptor E op)
         | TyType \<Rightarrow> map_option (\<lambda>t. HashType (segment_of M t) (index_of M t)) (getTypeEntry E op)
         | _ \<Rightarrow> map_option HashValueOf (get_ref E op)))"

end
