(* ===== verification/OperandLaws.thy ===== *)
theory OperandLaws
  imports Operand Bits
begin

text \<open>
  What the operand encoding promises: a getter gives back the value its constructor was given
  whatever was in the uninitialised array, except at the limits of the stack integers; a pointer
  comes back exactly when its tag bits are free; a getter succeeds exactly on the operands of its
  type; identity is an equivalence; the hashes do not respect equality.
\<close>

unbundle bit_operations_syntax

text \<open>A pointer that \<open>fromPointer\<close> accepts: not null, with the tag bits free.\<close>

definition taggable :: "u64 \<Rightarrow> bool" where
  "taggable p \<longleftrightarrow> p \<noteq> 0 \<and> be64 p ! 0 AND kPointerMask = 0 \<and> be64 p ! 7 AND kTagMask = 0"

subsection \<open>Raw bytes\<close>



lemma length_8_cases:
  assumes "length g = 8"
  obtains g0 g1 g2 g3 g4 g5 g6 g7 where "g = [g0, g1, g2, g3, g4, g5, g6, g7]"
  using assms by (auto simp: length_Suc_conv eval_nat_numeral)

context endian
begin

text \<open>Raw form of the encodings.\<close>

lemma small_bytes:
  assumes "length g = 8"
  shows "or_at 7 t (copy_at 4 (big_u32 E w) g) = take 4 g @ be32 (w OR ucast t)"
  using assms by (rule length_8_cases)
    (simp add: or_at_def copy_at_def big be32_def or_low_byte drop_ucast_byte)

lemma large_bytes:
  assumes "length g = 8"
  shows "or_at 7 t (copy_at 0 (big_u64 E w) g) = be64 (w OR ucast t)"
  using assms by (rule length_8_cases)
    (simp add: or_at_def copy_at_def big be64_def or_low_byte drop_ucast_byte)

end

lemma overlay_small: "get_info_byte op AND 7 \<in> {1, 2} \<Longrightarrow> getOverlay op = SmallValue"
  by (auto simp: getOverlay_def Let_def)

lemma overlay_large: "get_info_byte op AND 7 \<in> {3, 4, 5, 6} \<Longrightarrow> getOverlay op = LargeValue"
  by (auto simp: getOverlay_def Let_def)

lemma overlay_pointer: "get_info_byte op AND 7 = 7 \<Longrightarrow> getOverlay op = Pointer"
  by (auto simp: getOverlay_def Let_def)

lemma get_info_tag_eq: "get_info_tag op = get_info_byte op AND 7"
  by (simp add: get_info_tag_def get_info_byte_def)

lemma info_small: "length g = 8 \<Longrightarrow> get_info_byte \<lparr>m_bytes = take 4 g @ be32 w\<rparr> = ucast w"
  by (simp add: get_info_byte_def nth_append be32_def)

lemma info_large: "get_info_byte \<lparr>m_bytes = be64 w\<rparr> = ucast w"
  by (simp add: get_info_byte_def be64_def)

lemma set_last_is_or:
  "8 \<le> k \<Longrightarrow> (be32 (push_bit k w))[3 := t] = be32 (push_bit k w OR ucast t)"
proof -
  assume k: "8 \<le> k"
  then have "(ucast (push_bit k w) :: u8) = 0"
    by (auto intro!: bit_word_eqI simp: bit_simps)
  then show ?thesis by (simp add: be32_def or_low_byte drop_ucast_byte)
qed

lemma word_bytes:
  assumes "length g = 8" "length b = 4"
  shows "(copy_at 3 b g)[7 := t] ! 7 = t" "take 4 (drop 3 ((copy_at 3 b g)[7 := t])) = b"
  using assms
  by (auto elim!: length_8_cases simp: copy_at_def length_Suc_conv numeral_2_eq_2 eval_nat_numeral)

lemma half_bytes:
  assumes "length g = 8" "length b = 2"
  shows "(copy_at 5 b g)[7 := t] ! 7 = t" "take 2 (drop 5 ((copy_at 5 b g)[7 := t])) = b"
  using assms
  by (auto elim!: length_8_cases simp: copy_at_def length_Suc_conv numeral_2_eq_2 eval_nat_numeral)

lemma byte_bytes:
  assumes "length g = 8"
  shows "(g[6 := b])[7 := t] ! 7 = t" "(g[6 := b])[7 := t] ! 6 = b"
  using assms by (simp_all add: nth_list_update)

context endian
begin

lemma getU32_fromU32:
  assumes g: "length g = 8"
  shows "getU32 E (fromU32 E g v) = Some v \<and> getType (fromU32 E g v) = TyUInt32"
proof (cases "0x1FFFFFFF < v")
  case False
  then have lt: "v < 2 ^ 29" by (simp add: word_less_nat_alt)
  obtain w where w: "w = push_bit 3 v OR ucast (2 :: u8)" by simp
  have op: "fromU32 E g v = \<lparr>m_bytes = take 4 g @ be32 w\<rparr>"
    using False by (simp add: fromU32_def w small_bytes [OF g])
  have tag: "ucast w AND 7 = (2 :: u8)"
    unfolding w by (subst tag3) simp_all
  have v: "drop_bit 3 w = v"
    unfolding w by (rule drop_push_tag [OF lt]) simp_all
  have "getOverlay (fromU32 E g v) = SmallValue"
    by (rule overlay_small) (simp add: op info_small g tag)
  then show ?thesis
    using g by (simp add: getU32_def getType_def small_type_def op info_small get_info_tag_eq tag
        load_big_u32_be32 v)
next
  case True
  then have op: "fromU32 E g v = \<lparr>m_bytes = (copy_at 3 (native_u32 E v) g)[7 := 0x15]\<rparr>"
    by (simp add: fromU32_def)
  have info: "get_info_byte (fromU32 E g v) = 0x15"
    by (simp add: op get_info_byte_def word_bytes g native_u32)
  then have "getOverlay (fromU32 E g v) = LargeValue"
    by (intro overlay_large) simp
  with info show ?thesis
    by (simp add: getU32_def getType_def large_type_def) (simp add: op word_bytes g native_u32)
qed

lemma or_at_or_at: "i < length bs \<Longrightarrow> or_at i t (or_at i s bs) = or_at i (s OR t) bs"
  by (simp add: or_at_def or.assoc)

lemma fromI32_bytes:
  assumes g: "length g = 8" and "\<not> v <s - 0x10000000" "\<not> 0x10000000 <s v"
  shows "fromI32 E g v = \<lparr>m_bytes = take 4 g @
    be32 (push_bit 4 (word_of_int \<bar>sint v\<bar>) OR ucast (if v <s 0 then 9 else 1 :: u8))\<rparr>"
proof -
  have "length (copy_at 4 (big_u32 E w) g) = 8" for w
    using g by (simp add: copy_at_def big)
  then have "or_at 7 8 (or_at 7 1 (copy_at 4 (big_u32 E w) g)) = take 4 g @ be32 (w OR ucast (9 :: u8))" for w
    using small_bytes [OF g, of 9 w] by (simp add: or_at_or_at)
  then show ?thesis
    using assms small_bytes [OF g, of 1] by (simp add: fromI32_def Let_def)
qed

lemma getI32_bytes:
  assumes g: "length g = 8" and t: "t \<in> {1, 9 :: u8}"
    and w: "w = push_bit 4 m OR ucast t"
  shows "getI32 E \<lparr>m_bytes = take 4 g @ be32 w\<rparr> = Some (if t = 9 then - drop_bit 4 w else drop_bit 4 w)"
    and "getType \<lparr>m_bytes = take 4 g @ be32 w\<rparr> = TyInt32"
proof -
  let ?op = "\<lparr>m_bytes = take 4 g @ be32 w\<rparr>"
  have low: "ucast w AND mask 3 = t AND mask 3" "ucast w AND mask 4 = t AND mask 4"
    unfolding w by (rule tag_low; simp)+
  have "ucast w AND 8 = (ucast w AND mask 4) AND (8 :: u8)"
    by (simp add: and.assoc flip: mask_numerals)
  also have "\<dots> = (t AND mask 4) AND 8" by (simp only: low)
  also have "\<dots> = t AND 8" by (simp add: and.assoc flip: mask_numerals)
  finally have sign: "ucast w AND 8 = t AND 8" .
  have tag: "ucast w AND 7 = (1 :: u8)"
    using low(1) t by (auto simp flip: mask_numerals)
  have "getOverlay ?op = SmallValue"
    by (rule overlay_small) (simp add: info_small g tag)
  then show "getI32 E ?op = Some (if t = 9 then - drop_bit 4 w else drop_bit 4 w)"
    and "getType ?op = TyInt32"
    using g t by (auto simp: getI32_def getType_def small_type_def info_small tag sign
        load_big_u32_be32)
qed

lemma fromI32_small:
  assumes g: "length g = 8" and v: "\<bar>sint v\<bar> < 2 ^ 28"
  shows "getI32 E (fromI32 E g v) = Some v \<and> getType (fromI32 E g v) = TyInt32"
proof -
  let ?t = "if v <s 0 then 9 else 1 :: u8"
  let ?m = "word_of_int \<bar>sint v\<bar> :: u32"
  obtain w where w: "w = push_bit 4 ?m OR ucast ?t" by simp
  have range: "\<not> v <s - 0x10000000" "\<not> 0x10000000 <s v"
    using v by (auto simp: word_sless_alt)
  have "?m < 2 ^ 28" using v by (intro abs_less_2p) simp_all
  then have m: "drop_bit 4 w = ?m"
    unfolding w by (rule drop_push_tag) simp_all
  have t: "?t \<in> {1, 9}" by simp
  show ?thesis
    using getI32_bytes [OF g t w] neg_abs [of v] unfolding fromI32_bytes [OF g range, folded w] m
    by (simp split: if_splits)
qed

lemma fromI32_edge:
  assumes g: "length g = 8" and v: "v = 0x10000000 \<or> v = - 0x10000000"
  shows "getI32 E (fromI32 E g v) = Some 0 \<and> getType (fromI32 E g v) = TyInt32"
proof -
  let ?t = "if v <s 0 then 9 else 1 :: u8"
  obtain w where w: "w = push_bit 4 (0x10000000 :: u32) OR ucast ?t" by simp
  have range: "\<not> v <s - 0x10000000" "\<not> 0x10000000 <s v" and abs: "\<bar>sint v\<bar> = 0x10000000"
    using v by (auto simp: word_sless_alt)
  have m: "drop_bit 4 w = 0" unfolding w by simp
  have t: "?t \<in> {1, 9}" by simp
  have op: "fromI32 E g v = \<lparr>m_bytes = take 4 g @ be32 w\<rparr>"
    using fromI32_bytes [OF g range] unfolding abs w by simp
  show ?thesis
    using getI32_bytes [OF g t w] unfolding op m by simp
qed

lemma fromI32_big:
  assumes g: "length g = 8" and v: "v <s - 0x10000000 \<or> 0x10000000 <s v"
  shows "getI32 E (fromI32 E g v) = Some v \<and> getType (fromI32 E g v) = TyInt32"
proof -
  have op: "fromI32 E g v = \<lparr>m_bytes = (copy_at 3 (native_u32 E v) g)[7 := 0x0D]\<rparr>"
    using v by (simp add: fromI32_def)
  have info: "get_info_byte (fromI32 E g v) = 0x0D"
    by (simp add: op get_info_byte_def word_bytes g native_u32)
  then have "getOverlay (fromI32 E g v) = LargeValue"
    by (intro overlay_large) simp
  with info show ?thesis
    by (simp add: getI32_def getType_def large_type_def) (simp add: op word_bytes g native_u32)
qed

lemma getI32_fromI32:
  assumes g: "length g = 8"
  shows "getI32 E (fromI32 E g v) = Some (if v = 0x10000000 \<or> v = - 0x10000000 then 0 else v)
    \<and> getType (fromI32 E g v) = TyInt32"
proof -
  consider "v = 0x10000000 \<or> v = - 0x10000000" | "\<bar>sint v\<bar> < 2 ^ 28"
    | "v <s - 0x10000000 \<or> 0x10000000 <s v"
  proof -
    have "sint v = 0x10000000 \<Longrightarrow> v = 0x10000000" "sint v = - 0x10000000 \<Longrightarrow> v = - 0x10000000"
      by (rule signed_word_eqI, simp)+
    moreover have "\<bar>sint v\<bar> < 2 ^ 28 \<or> sint v = 0x10000000 \<or> sint v = - 0x10000000
        \<or> sint v < - 0x10000000 \<or> 0x10000000 < sint v" by (auto simp: abs_if)
    ultimately show ?thesis
      using that by (auto simp: word_sless_alt)
  qed
  then show ?thesis
  proof cases
    case 1
    then show ?thesis using fromI32_edge [OF g 1] by auto
  next
    case 2
    then have "\<not> (v = 0x10000000 \<or> v = - 0x10000000)" by auto
    then show ?thesis using fromI32_small [OF g 2] by simp
  next
    case 3
    then have "\<not> (v = 0x10000000 \<or> v = - 0x10000000)" by (auto simp: word_sless_alt)
    then show ?thesis using fromI32_big [OF g 3] by simp
  qed
qed

lemma getI64_bytes:
  assumes t: "t \<in> {6, 0x16 :: u8}" and w: "w = push_bit 5 m OR ucast t"
  shows "getI64 E M \<lparr>m_bytes = be64 w\<rparr> = Some (if t = 0x16 then - drop_bit 5 w else drop_bit 5 w)"
    and "getType \<lparr>m_bytes = be64 w\<rparr> = TyInt64"
proof -
  let ?op = "\<lparr>m_bytes = be64 w\<rparr>"
  have low: "ucast w AND mask 3 = t AND mask 3" "ucast w AND mask 4 = t AND mask 4"
    "ucast w AND mask 5 = t AND mask 5"
    unfolding w by (rule tag_low; simp)+
  have "ucast w AND 0x10 = (ucast w AND mask 5) AND (0x10 :: u8)"
    by (simp add: and.assoc flip: mask_numerals)
  also have "\<dots> = (t AND mask 5) AND 0x10" by (simp only: low)
  also have "\<dots> = t AND 0x10" by (simp add: and.assoc flip: mask_numerals)
  finally have sign: "ucast w AND 0x10 = t AND 0x10" .
  have tag: "ucast w AND 7 = (6 :: u8)" and num: "ucast w AND 0x0F = (6 :: u8)"
    using low t by (auto simp flip: mask_numerals)
  have "getOverlay ?op = LargeValue"
    by (rule overlay_large) (simp add: info_large tag)
  then show "getI64 E M ?op = Some (if t = 0x16 then - drop_bit 5 w else drop_bit 5 w)"
    and "getType ?op = TyInt64"
    using t by (auto simp: getI64_def getType_def large_type_def info_large tag num sign
        load_big_u64_be64)
qed

lemma fromI64_bytes:
  assumes g: "length g = 8" and "\<not> v <s - 0x800000000000000" "\<not> 0x800000000000000 <s v"
  shows "fromI64 E g v = \<lparr>m_bytes =
    be64 (push_bit 5 (word_of_int \<bar>sint v\<bar>) OR ucast (if v <s 0 then 0x16 else 6 :: u8))\<rparr>"
proof -
  have "length (copy_at 0 (big_u64 E w) g) = 8" for w
    using g by (simp add: copy_at_def big)
  then have "or_at 7 0x10 (or_at 7 6 (copy_at 0 (big_u64 E w) g)) = be64 (w OR ucast (0x16 :: u8))" for w
    using large_bytes [OF g, of "0x16" w] by (simp add: or_at_or_at)
  then show ?thesis
    using assms large_bytes [OF g, of 6] by (simp add: fromI64_def Let_def)
qed

lemma fromI64_small:
  assumes g: "length g = 8" and v: "\<bar>sint v\<bar> < 2 ^ 59"
  shows "getI64 E M (fromI64 E g v) = Some v \<and> getType (fromI64 E g v) = TyInt64"
proof -
  let ?t = "if v <s 0 then 0x16 else 6 :: u8"
  let ?m = "word_of_int \<bar>sint v\<bar> :: u64"
  obtain w where w: "w = push_bit 5 ?m OR ucast ?t" by simp
  have range: "\<not> v <s - 0x800000000000000" "\<not> 0x800000000000000 <s v"
    using v by (auto simp: word_sless_alt)
  have "?m < 2 ^ 59" using v by (intro abs_less_2p) simp_all
  then have m: "drop_bit 5 w = ?m"
    unfolding w by (rule drop_push_tag) simp_all
  have t: "?t \<in> {6, 0x16}" by simp
  show ?thesis
    using getI64_bytes [OF t w] neg_abs [of v] unfolding fromI64_bytes [OF g range, folded w] m
    by (simp split: if_splits)
qed

lemma fromI64_edge:
  assumes g: "length g = 8" and v: "v = 0x800000000000000 \<or> v = - 0x800000000000000"
  shows "getI64 E M (fromI64 E g v) = Some 0 \<and> getType (fromI64 E g v) = TyInt64"
proof -
  let ?t = "if v <s 0 then 0x16 else 6 :: u8"
  obtain w where w: "w = push_bit 5 (0x800000000000000 :: u64) OR ucast ?t" by simp
  have range: "\<not> v <s - 0x800000000000000" "\<not> 0x800000000000000 <s v"
    and abs: "\<bar>sint v\<bar> = 0x800000000000000"
    using v by (auto simp: word_sless_alt)
  have m: "drop_bit 5 w = 0" unfolding w by simp
  have t: "?t \<in> {6, 0x16}" by simp
  have op: "fromI64 E g v = \<lparr>m_bytes = be64 w\<rparr>"
    using fromI64_bytes [OF g range] unfolding abs w by simp
  show ?thesis
    using getI64_bytes [OF t w] unfolding op m by simp
qed

lemma empty_info [simp]: "get_info_byte empty_operand = 0" "getOverlay empty_operand = OverlayInvalid"
  by (simp_all add: get_info_byte_def empty_operand_def getOverlay_def)

lemma getI64_fromI64:
  assumes g: "length g = 8"
  shows "getI64 E M (fromI64 E g v) =
    (if \<bar>sint v\<bar> < 2 ^ 59 then Some v else if \<bar>sint v\<bar> = 2 ^ 59 then Some 0 else None)"
proof -
  consider "\<bar>sint v\<bar> = 2 ^ 59" | "\<bar>sint v\<bar> < 2 ^ 59" | "2 ^ 59 < \<bar>sint v\<bar>" by linarith
  then show ?thesis
  proof cases
    case 1
    then have "sint v = sint (0x800000000000000 :: u64) \<or> sint v = sint (- 0x800000000000000 :: u64)"
      by (auto simp: abs_if split: if_splits)
    then have "v = 0x800000000000000 \<or> v = - 0x800000000000000"
      by (metis signed_word_eqI)
    with 1 show ?thesis using fromI64_edge [OF g, of v M] by simp
  next
    case 2
    then show ?thesis using fromI64_small [OF g 2] by simp
  next
    case 3
    then have "v <s - 0x800000000000000 \<or> 0x800000000000000 <s v"
      by (auto simp: word_sless_alt abs_if split: if_splits)
    with 3 show ?thesis by (auto simp: fromI64_def getI64_def)
  qed
qed

lemma getU64_fromU64:
  assumes g: "length g = 8"
  shows "getU64 E M (fromU64 E g v) = (if v \<le> 0x0FFFFFFFFFFFFFFF then Some v else None)"
proof (cases "0x0FFFFFFFFFFFFFFF < v")
  case False
  then have lt: "v < 2 ^ 60" by (simp add: word_less_nat_alt)
  obtain w where w: "w = push_bit 4 v OR ucast (0x0E :: u8)" by simp
  have op: "fromU64 E g v = \<lparr>m_bytes = be64 w\<rparr>"
    using False by (simp add: fromU64_def w large_bytes [OF g])
  have low: "ucast w AND mask 3 = (0x0E :: u8) AND mask 3" "ucast w AND mask 4 = (0x0E :: u8) AND mask 4"
    unfolding w by (rule tag_low; simp)+
  have v: "drop_bit 4 w = v"
    unfolding w by (rule drop_push_tag [OF lt]) simp_all
  show ?thesis
    using False low by (simp add: getU64_def op info_large v load_big_u64_be64 not_less flip: mask_numerals)
next
  case True
  then show ?thesis by (simp add: fromU64_def getU64_def leD)
qed

lemma getC32_fromC32:
  assumes g: "length g = 8"
  shows "getC32 E (fromC32 E g v) = (if v \<le> 0x10FFFF then Some v else None)"
proof (cases "0x10FFFF < v")
  case False
  then have lt: "v < 2 ^ 24" by (simp add: word_less_nat_alt)
  have "(copy_at 4 (big_u32 E (push_bit 8 v)) g)[7 := 0x30] = take 4 g @ (be32 (push_bit 8 v))[3 := 0x30]"
    using g by (rule length_8_cases) (simp add: copy_at_def big be32_def)
  then have op: "fromC32 E g v = \<lparr>m_bytes = take 4 g @ be32 (push_bit 8 v OR ucast (0x30 :: u8))\<rparr>"
    using False by (simp add: fromC32_def set_last_is_or)
  have info: "get_info_byte (fromC32 E g v) = 0x30"
    unfolding op by (simp add: info_small g or_low_byte) (auto intro!: bit_word_eqI simp: bit_simps)
  have le: "v \<le> 0x10FFFF" using False by simp
  have v: "drop_bit 8 (push_bit 8 v) = v"
    by (auto intro!: bit_word_eqI simp: bit_simps) (use not_bit_small [OF lt] not_le in blast)
  show ?thesis
    using le info by (simp add: getC32_def getOverlay_def) (simp add: op g load_big_u32_be32 v)
next
  case True
  then show ?thesis by (simp add: fromC32_def getC32_def leD)
qed

lemma getF32_fromF32:
  assumes g: "length g = 8"
  shows "getF32 E (fromF32 E g v) = Some v \<and> getType (fromF32 E g v) = TyFloat32"
proof -
  have info: "get_info_byte (fromF32 E g v) = 0x1D"
    by (simp add: fromF32_def get_info_byte_def word_bytes g native_u32)
  then have "getOverlay (fromF32 E g v) = LargeValue"
    by (intro overlay_large) simp
  with info show ?thesis
    by (simp add: getF32_def getType_def large_type_def) (simp add: fromF32_def word_bytes g native_u32)
qed

lemma getI16_fromI16:
  assumes g: "length g = 8"
  shows "getI16 E (fromI16 E g v) = Some v \<and> getType (fromI16 E g v) = TyInt16"
proof -
  have info: "get_info_byte (fromI16 E g v) = 0x20"
    by (simp add: fromI16_def get_info_byte_def half_bytes g native_u16)
  then show ?thesis
    by (simp add: getI16_def getType_def small_type_def getOverlay_def)
      (simp add: fromI16_def half_bytes g native_u16)
qed

lemma getU16_fromU16:
  assumes g: "length g = 8"
  shows "getU16 E (fromU16 E g v) = Some v \<and> getType (fromU16 E g v) = TyUInt16"
proof -
  have info: "get_info_byte (fromU16 E g v) = 0x28"
    by (simp add: fromU16_def get_info_byte_def half_bytes g native_u16)
  then show ?thesis
    by (simp add: getU16_def getType_def small_type_def getOverlay_def)
      (simp add: fromU16_def half_bytes g native_u16)
qed

lemma getF64_fromF64:
  assumes g: "length g = 8"
  shows "getF64 E M (fromF64 E g v) =
    (if f64_is_zero v \<or> drop_bit 60 v AND 7 \<in> {3, 4} then Some v else None)"
proof (cases "f64_is_zero v")
  case True
  then have v: "v = 0 \<or> v = 0x8000000000000000"
    by (simp add: f64_is_zero_def f64_zero_def f64_negative_zero_def)
  then show ?thesis
    using g True by (auto simp: fromF64_def getF64_def getOverlay_def get_info_byte_def get_enum_byte_def
        byte_bytes f64_zero_def f64_negative_zero_def)
next
  case nz: False
  let ?w = "word_rotr 60 v"
  have "(ucast ?w AND 7 :: u8) = ucast (drop_bit 60 v AND 7)"
  proof (rule bit_word_eqI)
    fix n assume "n < LENGTH(8)"
    have m: "(7 :: u8) = mask 3" "(7 :: u64) = mask 3" by (simp_all add: mask_eq_exp_minus_1)
    show "bit (ucast ?w AND 7 :: u8) n \<longleftrightarrow> bit (ucast (drop_bit 60 v AND 7) :: u8) n"
      unfolding m by (cases "n < 3") (auto simp: bit_simps add.commute)
  qed
  moreover have "ucast (ucast (drop_bit 60 v AND 7) :: u8) = drop_bit 60 v AND 7"
  proof (rule bit_word_eqI)
    fix n assume "n < LENGTH(64)"
    have m: "(7 :: u64) = mask 3" by (simp add: mask_eq_exp_minus_1)
    show "bit (ucast (ucast (drop_bit 60 v AND 7) :: u8) :: u64) n \<longleftrightarrow> bit (drop_bit 60 v AND 7) n"
      unfolding m by (auto simp: bit_simps)
  qed
  moreover have u: "ucast (3 :: u8) = (3 :: u64)" "ucast (4 :: u8) = (4 :: u64)"
    "ucast (3 :: u64) = (3 :: u8)" "ucast (4 :: u64) = (4 :: u8)" by simp_all
  ultimately have tag: "ucast ?w AND 7 \<in> {3 :: u8, 4} \<longleftrightarrow> drop_bit 60 v AND 7 \<in> {3, 4}"
    using u by (metis insert_iff singletonD)
  have bytes: "copy_at 0 (big_u64 E ?w) g = be64 ?w"
    using g by (simp add: copy_at_def big)
  have last: "be64 ?w ! 7 = ucast ?w" by (simp add: be64_def)
  show ?thesis
  proof (cases "drop_bit 60 v AND 7 \<in> {3, 4}")
    case True
    then have t: "ucast ?w AND 7 \<in> {3 :: u8, 4}" by (simp only: tag)
    then have op: "fromF64 E g v = \<lparr>m_bytes = be64 ?w\<rparr>"
      using nz by (auto simp: fromF64_def encode_f64_def Let_def bytes last)
    have "getOverlay (fromF64 E g v) = LargeValue"
      using t by (intro overlay_large) (auto simp: op info_large)
    then show ?thesis
      using True t by (auto simp: getF64_def get_info_tag_eq op info_large load_big_u64_be64)
  next
    case no: False
    then have "ucast ?w AND 7 \<notin> {3 :: u8, 4}" using tag by blast
    then have "fromF64 E g v = empty_operand"
      using nz by (auto simp: fromF64_def encode_f64_def Let_def bytes last)
    then show ?thesis using no nz by (simp add: getF64_def)
  qed
qed

lemma getBool_fromBool:
  assumes g: "length g = 8"
  shows "getBool (fromBool g b) = Some b \<and> getType (fromBool g b) = TyBool"
  using g by (simp add: fromBool_def getBool_def getType_def small_type_def enum_type_def getOverlay_def
      get_info_byte_def get_enum_byte_def byte_bytes)

lemma getI8_fromI8:
  assumes g: "length g = 8"
  shows "getI8 (fromI8 g v) = Some v \<and> getType (fromI8 g v) = TyInt8"
  using g by (simp add: fromI8_def getI8_def getType_def small_type_def getOverlay_def
      get_info_byte_def byte_bytes)

lemma getU8_fromU8:
  assumes g: "length g = 8"
  shows "getU8 (fromU8 g v) = Some v \<and> getType (fromU8 g v) = TyUInt8"
  using g by (simp add: fromU8_def getU8_def getType_def small_type_def getOverlay_def
      get_info_byte_def byte_bytes)

lemma nil_undef:
  assumes g: "length g = 8"
  shows "isNil (nil g) \<and> \<not> isUndef (nil g) \<and> isUndef (undef g) \<and> \<not> isNil (undef g)
    \<and> getType (nil g) = TyNil \<and> getType (undef g) = TyUndef"
  using g by (simp add: nil_def undef_def isNil_def isUndef_def getType_def small_type_def enum_type_def
      getOverlay_def get_info_byte_def get_enum_byte_def byte_bytes)

subsection \<open>Pointers\<close>


end

context endian
begin

lemma fromPointer_bytes:
  assumes g: "length g = 8" and p: "taggable p"
  obtains b0 b1 b2 b3 b4 b5 b6 b7 where "be64 p = [b0, b1, b2, b3, b4, b5, b6, b7]"
    and "fromPointer E g p t = \<lparr>m_bytes = [b0 OR t, b1, b2, b3, b4, b5, b6, b7 OR 7]\<rparr>"
    and "b0 AND 0x7E = 0" "b7 AND 7 = 0"
proof -
  obtain b0 b1 b2 b3 b4 b5 b6 b7 where b: "be64 p = [b0, b1, b2, b3, b4, b5, b6, b7]"
    using length_8_cases length_be(3) by metis
  have "copy_at 0 (big_u64 E p) g = [b0, b1, b2, b3, b4, b5, b6, b7]"
    using g by (simp add: copy_at_def big b)
  moreover have "p \<noteq> 0" "b0 AND 0x7E = 0" "b7 AND 7 = 0"
    using p by (simp_all add: taggable_def b)
  ultimately show ?thesis
    using b by (intro that) (simp_all add: fromPointer_def or_at_def)
qed

lemma getPointer_fromPointer:
  assumes g: "length g = 8" and t: "t AND NOT 0x7E = 0"
  shows "getPointer E (fromPointer E g p t) t' = (if taggable p \<and> t = t' then p else 0)"
proof (cases "taggable p")
  case True
  from fromPointer_bytes [OF g True, of t] obtain b0 b1 b2 b3 b4 b5 b6 b7
    where b: "be64 p = [b0, b1, b2, b3, b4, b5, b6, b7]"
      and op: "fromPointer E g p t = \<lparr>m_bytes = [b0 OR t, b1, b2, b3, b4, b5, b6, b7 OR 7]\<rparr>"
      and z: "b0 AND 0x7E = 0" "b7 AND 7 = 0" by metis
  have m: "(b0 OR t) AND 0x7E = t" "(b0 OR t) AND NOT 0x7E = b0"
    "(b7 OR 7) AND 7 = 7" "(b7 OR 7) AND NOT 7 = b7"
    using masked_or [OF z(1) t] masked_or [OF z(2), of 7] by simp_all
  have "getOverlay (fromPointer E g p t) = Pointer"
    by (rule overlay_pointer) (simp add: op get_info_byte_def m)
  moreover have "load_big_u64 E [b0, b1, b2, b3, b4, b5, b6, b7] = p"
    unfolding b [symmetric] by (rule load_big_u64_be64)
  ultimately show ?thesis
    using True m by (auto simp: getPointer_def get_info_tag_def op)
next
  case False
  then have "fromPointer E g p t = empty_operand"
    using g by (auto simp: fromPointer_def taggable_def copy_at_def big Let_def)
  then show ?thesis using False by (simp add: getPointer_def)
qed

end

subsection \<open>Getters and types\<close>

lemmas type_defs = getType_def getOverlay_def get_info_tag_eq get_enum_byte_def small_type_def
  large_type_def pointer_type_def enum_type_def Let_def

lemma getBool_iff: "getBool op \<noteq> None \<longleftrightarrow> getType op = TyBool"
  by (auto simp: getBool_def type_defs split: if_splits)

lemma getI8_iff: "getI8 op \<noteq> None \<longleftrightarrow> getType op = TyInt8"
  by (auto simp: getI8_def type_defs split: if_splits)

lemma getU8_iff: "getU8 op \<noteq> None \<longleftrightarrow> getType op = TyUInt8"
  by (auto simp: getU8_def type_defs split: if_splits)

lemma getI16_iff: "getI16 E op \<noteq> None \<longleftrightarrow> getType op = TyInt16"
  by (auto simp: getI16_def type_defs split: if_splits)

lemma getU16_iff: "getU16 E op \<noteq> None \<longleftrightarrow> getType op = TyUInt16"
  by (auto simp: getU16_def type_defs split: if_splits)

lemma getI32_iff: "getI32 E op \<noteq> None \<longleftrightarrow> getType op = TyInt32"
  by (auto simp: getI32_def type_defs split: if_splits)

lemma getU32_iff: "getU32 E op \<noteq> None \<longleftrightarrow> getType op = TyUInt32"
  by (auto simp: getU32_def type_defs split: if_splits)

lemma getC32_iff: "getC32 E op \<noteq> None \<longleftrightarrow> getType op = TyChar32"
  by (auto simp: getC32_def type_defs split: if_splits)

lemma getF32_iff: "getF32 E op \<noteq> None \<longleftrightarrow> getType op = TyFloat32"
  by (auto simp: getF32_def type_defs split: if_splits)

lemma getI64_iff:
  "getI64 E M op \<noteq> None \<longleftrightarrow>
    getType op = TyInt64 \<and> \<not> (getOverlay op = Pointer \<and> getPointer E op kPointerI64Tag = 0)"
  using nibble_tag [of "get_info_byte op"]
  by (auto simp: getI64_def getPointer_def type_defs split: if_splits)

lemma getU64_iff:
  "getU64 E M op \<noteq> None \<longleftrightarrow>
    getType op = TyUInt64 \<and> \<not> (getOverlay op = Pointer \<and> getPointer E op kPointerU64Tag = 0)"
  using nibble_tag [of "get_info_byte op"]
  by (auto simp: getU64_def getPointer_def type_defs split: if_splits)

lemma getF64_iff:
  "getF64 E M op \<noteq> None \<longleftrightarrow>
    getType op = TyFloat64 \<and> \<not> (getOverlay op = Pointer \<and> getPointer E op kPointerF64Tag = 0)"
  by (auto simp: getF64_def getPointer_def type_defs split: if_splits)

lemma reference_getter_iff:
  "getRef E op \<noteq> None \<longleftrightarrow> getType op = TyRef \<and> getPointer E op kPointerRefTag \<noteq> 0"
  "getBytesRef E op \<noteq> None \<longleftrightarrow> getType op = TyBytes \<and> getPointer E op kPointerBytesTag \<noteq> 0"
  "getNamespace E op \<noteq> None \<longleftrightarrow> getType op = TyNamespace \<and> getPointer E op kPointerNamespaceTag \<noteq> 0"
  "getProtocol E op \<noteq> None \<longleftrightarrow> getType op = TyProtocol \<and> getPointer E op kPointerProtocolTag \<noteq> 0"
  "getRest E op \<noteq> None \<longleftrightarrow> getType op = TyRest \<and> getPointer E op kPointerRestTag \<noteq> 0"
  "getStatus E op \<noteq> None \<longleftrightarrow> getType op = TyStatus \<and> getPointer E op kPointerStatusTag \<noteq> 0"
  "getString E op \<noteq> None \<longleftrightarrow> getType op = TyString \<and> getPointer E op kPointerStringTag \<noteq> 0"
  "getDescriptor E op \<noteq> None \<longleftrightarrow> getType op = TyDescriptor \<and> getPointer E op kPointerDescTag \<noteq> 0"
  "getTypeEntry E op \<noteq> None \<longleftrightarrow> getType op = TyType \<and> getPointer E op kPointerTypeTag \<noteq> 0"
  by (auto simp: getRef_def getBytesRef_def getNamespace_def getProtocol_def getRest_def getStatus_def getString_def
    getDescriptor_def getTypeEntry_def nonnull_def getPointer_def type_defs split: if_splits)

text \<open>A pointer stored under a tag comes back under it exactly when it is not null and leaves room for the tags.\<close>

lemma tag_fits:
  "kPointerRefTag AND NOT kPointerMask = 0"
  "kPointerBytesTag AND NOT kPointerMask = 0"
  "kPointerNamespaceTag AND NOT kPointerMask = 0"
  "kPointerProtocolTag AND NOT kPointerMask = 0"
  "kPointerRestTag AND NOT kPointerMask = 0"
  "kPointerStatusTag AND NOT kPointerMask = 0"
  "kPointerStringTag AND NOT kPointerMask = 0"
  "kPointerDescTag AND NOT kPointerMask = 0"
  "kPointerTypeTag AND NOT kPointerMask = 0"
  by (simp_all add: kPointerMask_def kPointerRefTag_def kPointerBytesTag_def kPointerNamespaceTag_def kPointerProtocolTag_def kPointerRestTag_def kPointerStatusTag_def kPointerStringTag_def kPointerDescTag_def kPointerTypeTag_def)

lemma reference_roundtrip:
  assumes "endian E" "length g = 8" "t AND NOT kPointerMask = 0"
  shows "nonnull (getPointer E (fromPointer E g p t) t) = (if taggable p then Some p else None)"
  using endian.getPointer_fromPointer [OF assms(1,2), of t p t] assms(3) by (simp add: nonnull_def taggable_def)

subsection \<open>Properties of operands\<close>

text \<open>C20. Every value that fits comes back from its operand, whatever the uninitialised bytes: the
  booleans, the 8- and 16-bit integers, the 32-bit unsigned integers and floats always, 32-bit integers
  except for the two limits of the stack integers, which come back as 0, 64-bit integers of magnitude
  below 2 to the 59, whose two limits come back as 0, 64-bit unsigned integers up to 60 bits, code points
  up to the last one, doubles that are zero or have a middling exponent, and pointers to objects that are
  not null and leave room for the tags; what does not fit gives an operand without a value.\<close>

theorem values_roundtrip:
  assumes "endian E" "length g = 8"
  shows "getBool (fromBool g b) = Some b \<and>
    getI8 (fromI8 g i8) = Some i8 \<and> getU8 (fromU8 g i8) = Some i8 \<and>
    getI16 E (fromI16 E g i16) = Some i16 \<and> getU16 E (fromU16 E g i16) = Some i16 \<and>
    getI32 E (fromI32 E g u32) = Some (if u32 = 0x10000000 \<or> u32 = - 0x10000000 then 0 else u32) \<and>
    getU32 E (fromU32 E g u32) = Some u32 \<and> getF32 E (fromF32 E g u32) = Some u32 \<and>
    getC32 E (fromC32 E g u32) = (if u32 \<le> 0x10FFFF then Some u32 else None) \<and>
    getI64 E M (fromI64 E g u64)
      = (if \<bar>sint u64\<bar> < 2 ^ 59 then Some u64 else if \<bar>sint u64\<bar> = 2 ^ 59 then Some 0 else None) \<and>
    getU64 E M (fromU64 E g u64) = (if u64 \<le> 0x0FFFFFFFFFFFFFFF then Some u64 else None) \<and>
    getF64 E M (fromF64 E g u64)
      = (if f64_is_zero u64 \<or> drop_bit 60 u64 AND 7 \<in> {3, 4} then Some u64 else None) \<and>
    (\<forall>(get, from) \<in> {(getRef, fromRef),
      (getBytesRef, fromBytes),
      (getNamespace, fromNamespace),
      (getProtocol, fromProtocol),
      (getRest, fromRest),
      (getStatus, fromStatus),
      (getString, fromString),
      (getDescriptor, fromDescriptor),
      (getTypeEntry, fromType)}.
      get E (from E g u64) = (if taggable u64 then Some u64 else None))"
proof -
  note references = reference_roundtrip [OF assms] tag_fits
  show ?thesis
    using endian.getBool_fromBool [OF assms, of b] endian.getI8_fromI8 [OF assms, of i8]
      endian.getU8_fromU8 [OF assms, of i8] endian.getI16_fromI16 [OF assms, of i16]
      endian.getU16_fromU16 [OF assms, of i16] endian.getU32_fromU32 [OF assms, of u32]
      endian.getF32_fromF32 [OF assms, of u32] endian.getC32_fromC32 [OF assms, of u32]
      endian.getU64_fromU64 [OF assms, of M u64] endian.getF64_fromF64 [OF assms, of M u64]
      endian.getI32_fromI32 [OF assms, of u32] endian.getI64_fromI64 [OF assms, of M u64]
    by (intro conjI) (blast | simp only: references getRef_def fromRef_def getBytesRef_def fromBytes_def getNamespace_def fromNamespace_def getProtocol_def fromProtocol_def getRest_def fromRest_def getStatus_def fromStatus_def getString_def fromString_def getDescriptor_def fromDescriptor_def getTypeEntry_def fromType_def ball_simps prod.case simp_thms)+
qed

theorem values_roundtrip_witness:
  "getBool (fromBool [9, 8, 7, 6, 5, 4, 3, 2] True) = Some True \<and>
    getU16 little_endian_lib (fromU16 little_endian_lib [9, 8, 7, 6, 5, 4, 3, 2] 513) = Some 513"
  using values_roundtrip [OF endian_little, of "[9, 8, 7, 6, 5, 4, 3, 2]" True 0 513] by simp

text \<open>A 32-bit integer comes back from its operand, except that the two limits of the stack
  integers, which the range test lets through, come back as 0.\<close>

theorem int32_roundtrip:
  assumes "endian E" "length g = 8"
  shows "getI32 E (fromI32 E g v) = Some (if v = 0x10000000 \<or> v = - 0x10000000 then 0 else v)
    \<and> getType (fromI32 E g v) = TyInt32"
  by (rule endian.getI32_fromI32 [OF assms])

theorem int32_roundtrip_witness:
  "getI32 little_endian_lib (fromI32 little_endian_lib [9, 8, 7, 6, 5, 4, 3, 2] 0x10000000)
      = Some (if 0x10000000 = (0x10000000 :: u32) \<or> (0x10000000 :: u32) = - 0x10000000
          then 0 else 0x10000000)
    \<and> getType (fromI32 little_endian_lib [9, 8, 7, 6, 5, 4, 3, 2] 0x10000000) = TyInt32"
  by (rule int32_roundtrip [OF endian_little]) simp

text \<open>The memory before anything is allocated.\<close>

definition no_objects :: objects where
  "no_objects = \<lparr>i64_of = (\<lambda>_. 0), u64_of = (\<lambda>_. 0), f64_of = (\<lambda>_. 0), segment_of = (\<lambda>_. 0),
     index_of = (\<lambda>_. 0), section_of = (\<lambda>_. LinkageInvalid), equals_of = (\<lambda>_ _. False)\<rparr>"

text \<open>A 64-bit integer of magnitude below 2 to the 59 comes back from its operand; the two
  limits come back as 0, and anything larger gives an operand without a value.\<close>

theorem int64_roundtrip:
  assumes "endian E" "length g = 8"
  shows "getI64 E M (fromI64 E g v) =
    (if \<bar>sint v\<bar> < 2 ^ 59 then Some v else if \<bar>sint v\<bar> = 2 ^ 59 then Some 0 else None)"
  by (rule endian.getI64_fromI64 [OF assms])

theorem int64_roundtrip_witness:
  "getI64 little_endian_lib no_objects (fromI64 little_endian_lib [9, 8, 7, 6, 5, 4, 3, 2] (- 5)) = Some (- 5)"
  using int64_roundtrip [OF endian_little, of "[9, 8, 7, 6, 5, 4, 3, 2]" no_objects "- 5"] by simp

text \<open>A pointer comes back from its operand exactly when it is not null, is aligned to eight
  bytes and has no bit under the pointer tag, and only under the tag it was stored with.\<close>

theorem pointer_roundtrip:
  assumes "endian E" "length g = 8" "t AND NOT kPointerMask = 0"
  shows "getPointer E (fromPointer E g p t) t' = (if taggable p \<and> t = t' then p else 0)"
  using endian.getPointer_fromPointer [OF assms(1,2), of t p t'] assms(3) by simp

theorem pointer_roundtrip_witness:
  "getPointer little_endian_lib (fromPointer little_endian_lib [9, 8, 7, 6, 5, 4, 3, 2] 0x7F001230
      kPointerRefTag) kPointerRefTag
    = (if taggable 0x7F001230 \<and> kPointerRefTag = kPointerRefTag then 0x7F001230 else 0)"
  by (rule pointer_roundtrip [OF endian_little]) simp_all

text \<open>C36. On any eight bytes a getter succeeds exactly when \<open>getType\<close> names its type and, for what is
  read through a pointer (references, and boxed I64, U64 and F64), the pointer is not null; so at most one
  getter succeeds and the assertions after a switch on the type hold.\<close>

theorem getters_agree_with_type:
  "(getBool op \<noteq> None \<longleftrightarrow> getType op = TyBool) \<and> (getI8 op \<noteq> None \<longleftrightarrow> getType op = TyInt8) \<and>
   (getU8 op \<noteq> None \<longleftrightarrow> getType op = TyUInt8) \<and> (getI16 E op \<noteq> None \<longleftrightarrow> getType op = TyInt16) \<and>
   (getU16 E op \<noteq> None \<longleftrightarrow> getType op = TyUInt16) \<and> (getI32 E op \<noteq> None \<longleftrightarrow> getType op = TyInt32) \<and>
   (getU32 E op \<noteq> None \<longleftrightarrow> getType op = TyUInt32) \<and> (getC32 E op \<noteq> None \<longleftrightarrow> getType op = TyChar32) \<and>
   (getF32 E op \<noteq> None \<longleftrightarrow> getType op = TyFloat32) \<and>
   (getI64 E M op \<noteq> None \<longleftrightarrow> getType op = TyInt64 \<and>
      \<not> (getOverlay op = Pointer \<and> getPointer E op kPointerI64Tag = 0)) \<and>
   (getU64 E M op \<noteq> None \<longleftrightarrow> getType op = TyUInt64 \<and>
      \<not> (getOverlay op = Pointer \<and> getPointer E op kPointerU64Tag = 0)) \<and>
   (getF64 E M op \<noteq> None \<longleftrightarrow> getType op = TyFloat64 \<and>
      \<not> (getOverlay op = Pointer \<and> getPointer E op kPointerF64Tag = 0)) \<and>
   (getRef E op \<noteq> None \<longleftrightarrow> getType op = TyRef \<and> getPointer E op kPointerRefTag \<noteq> 0) \<and>
   (getBytesRef E op \<noteq> None \<longleftrightarrow> getType op = TyBytes \<and> getPointer E op kPointerBytesTag \<noteq> 0) \<and>
   (getNamespace E op \<noteq> None \<longleftrightarrow> getType op = TyNamespace \<and> getPointer E op kPointerNamespaceTag \<noteq> 0) \<and>
   (getProtocol E op \<noteq> None \<longleftrightarrow> getType op = TyProtocol \<and> getPointer E op kPointerProtocolTag \<noteq> 0) \<and>
   (getRest E op \<noteq> None \<longleftrightarrow> getType op = TyRest \<and> getPointer E op kPointerRestTag \<noteq> 0) \<and>
   (getStatus E op \<noteq> None \<longleftrightarrow> getType op = TyStatus \<and> getPointer E op kPointerStatusTag \<noteq> 0) \<and>
   (getString E op \<noteq> None \<longleftrightarrow> getType op = TyString \<and> getPointer E op kPointerStringTag \<noteq> 0) \<and>
   (getDescriptor E op \<noteq> None \<longleftrightarrow> getType op = TyDescriptor \<and> getPointer E op kPointerDescTag \<noteq> 0) \<and>
   (getTypeEntry E op \<noteq> None \<longleftrightarrow> getType op = TyType \<and> getPointer E op kPointerTypeTag \<noteq> 0)"
  by (intro conjI getBool_iff getI8_iff getU8_iff getI16_iff getU16_iff getI32_iff getU32_iff
      getC32_iff getF32_iff getI64_iff getU64_iff getF64_iff reference_getter_iff)

lemma values_equal_sym:
  "(\<And>l r. eq l r \<longleftrightarrow> eq r l) \<Longrightarrow> values_equal eq a b \<longleftrightarrow> values_equal eq b a"
  by (auto simp: values_equal_def split: option.splits)

lemma values_equal_trans:
  "values_equal eq a b \<Longrightarrow> values_equal eq b c \<Longrightarrow> (\<And>l m r. eq l m \<Longrightarrow> eq m r \<Longrightarrow> eq l r)
    \<Longrightarrow> values_equal eq a c"
  by (auto simp: values_equal_def split: option.splits)

lemma float_eq_sym: "f32_eq l r \<longleftrightarrow> f32_eq r l" "f64_eq p q \<longleftrightarrow> f64_eq q p"
  by (auto simp: f32_eq_def f64_eq_def Let_def)

lemma float_eq_trans:
  "f32_eq l m \<Longrightarrow> f32_eq m r \<Longrightarrow> f32_eq l r" "f64_eq p q \<Longrightarrow> f64_eq q s \<Longrightarrow> f64_eq p s"
  by (auto simp: f32_eq_def f64_eq_def Let_def)

lemma values_equal_commute:
  "values_equal (=) a b \<longleftrightarrow> values_equal (=) b a"
  "values_equal f32_eq x y \<longleftrightarrow> values_equal f32_eq y x"
  "values_equal f64_eq p q \<longleftrightarrow> values_equal f64_eq q p"
  by (rule values_equal_sym, rule eq_commute float_eq_sym)+

lemma values_match_sym:
  "getType a = getType b \<Longrightarrow> values_match E M a b \<longleftrightarrow> values_match E M b a"
  by (cases "getType b") (simp_all add: values_match_def values_equal_commute)

lemma values_match_trans:
  "getType a = getType b \<Longrightarrow> getType b = getType c \<Longrightarrow> values_match E M a b \<Longrightarrow> values_match E M b c
    \<Longrightarrow> values_match E M a c"
  by (cases "getType c") (auto simp: values_match_def elim: values_equal_trans intro: float_eq_trans)

text \<open>Identity of operands is symmetric and transitive, over all types.\<close>

theorem isSameAs_partial_equivalence:
  assumes "isSameAs E M a b" "isSameAs E M b c"
  shows "isSameAs E M b a \<and> isSameAs E M a c"
proof -
  have ty: "getType a = getType b" "getType b = getType c"
    using assms by (auto simp: isSameAs_def split: if_splits)
  have "isSameAs E M b a"
    using assms(1) ty values_match_sym [OF ty(1), of E M]
    by (cases "getType b") (auto simp: isSameAs_def values_equal_def split: option.splits)
  moreover have "isSameAs E M a c"
    using assms ty values_match_trans [OF ty, of E M]
    by (cases "getType c") (auto simp: isSameAs_def values_equal_def split: option.splits)
  ultimately show ?thesis ..
qed

theorem isSameAs_partial_equivalence_witness:
  "isSameAs little_endian_lib no_objects (fromU8 [0, 0, 0, 0, 1, 1, 0, 0] 4) (fromU8 [0, 0, 0, 0, 0, 0, 0, 0] 4) \<and>
   isSameAs little_endian_lib no_objects (fromU8 [0, 0, 0, 0, 0, 0, 0, 0] 4) (fromU8 [0, 0, 0, 0, 2, 2, 0, 0] 4)"
proof (rule isSameAs_partial_equivalence)
  show "isSameAs little_endian_lib no_objects (fromU8 [0, 0, 0, 0, 0, 0, 0, 0] 4) (fromU8 [0, 0, 0, 0, 1, 1, 0, 0] 4)"
    and "isSameAs little_endian_lib no_objects (fromU8 [0, 0, 0, 0, 1, 1, 0, 0] 4) (fromU8 [0, 0, 0, 0, 2, 2, 0, 0] 4)"
    by (simp_all add: isSameAs_def values_match_def fromU8_def type_defs get_info_byte_def getU8_def
        values_equal_def)
qed

text \<open>The hashes do not respect equality: for every 8-bit value there are contents of the
  uninitialised array for which two operands of that value are equal and the same but hash
  different bytes, and the two zeros of type double are equal but hash different bytes.\<close>

theorem equal_operands_hash_differently:
  "(\<exists>g g'. length g = 8 \<and> length g' = 8 \<and>
     isEqualTo E M (fromI8 g v) (fromI8 g' v) \<and> isSameAs E M (fromI8 g v) (fromI8 g' v) \<and>
     hashEquality E M (fromI8 g v) \<noteq> hashEquality E M (fromI8 g' v) \<and>
     hashIdentity (fromI8 g v) \<noteq> hashIdentity (fromI8 g' v)) \<and>
   (\<exists>g. length g = 8 \<and> isEqualTo E M (fromF64 E g f64_zero) (fromF64 E g f64_negative_zero) \<and>
     hashEquality E M (fromF64 E g f64_zero) \<noteq> hashEquality E M (fromF64 E g f64_negative_zero))"
proof
  show "\<exists>g g'. length g = 8 \<and> length g' = 8 \<and>
     isEqualTo E M (fromI8 g v) (fromI8 g' v) \<and> isSameAs E M (fromI8 g v) (fromI8 g' v) \<and>
     hashEquality E M (fromI8 g v) \<noteq> hashEquality E M (fromI8 g' v) \<and>
     hashIdentity (fromI8 g v) \<noteq> hashIdentity (fromI8 g' v)"
    by (intro exI [of _ "[0, 0, 0, 0, 0, 0, 0, 0]"] exI [of _ "[0, 0, 0, 0, 1, 0, 0, 0]"])
      (simp add: isEqualTo_def isSameAs_def values_match_def fromI8_def type_defs
        get_info_byte_def getI8_def values_equal_def hashEquality_def hashIdentity_def)
  show "\<exists>g. length g = 8 \<and> isEqualTo E M (fromF64 E g f64_zero) (fromF64 E g f64_negative_zero) \<and>
     hashEquality E M (fromF64 E g f64_zero) \<noteq> hashEquality E M (fromF64 E g f64_negative_zero)"
    by (intro exI [of _ "[0, 0, 0, 0, 0, 0, 0, 0]"])
      (simp add: isEqualTo_def values_match_def fromF64_def f64_is_zero_def f64_zero_def
        f64_negative_zero_def type_defs get_info_byte_def getF64_def values_equal_def
        hashEquality_def f64_eq_def)
qed

text \<open>Hashing a boxed 64-bit integer for equality ends the process: its operand is a pointer
  that is no reference, which \<open>hashEquality\<close> takes to be unreachable.\<close>

theorem boxed_integer_hash_aborts:
  assumes "endian E" "length g = 8" "taggable p"
  shows "getI64 E M (fromI64Ref E g p) = Some (i64_of M p) \<and>
    hashEquality E M (fromI64Ref E g p) = None"
proof -
  obtain b0 b1 b2 b3 b4 b5 b6 b7 where
    op: "fromPointer E g p 0x14 = \<lparr>m_bytes = [b0 OR 0x14, b1, b2, b3, b4, b5, b6, b7 OR 7]\<rparr>"
      and z: "b0 AND 0x7E = 0" "b7 AND 7 = 0"
    using endian.fromPointer_bytes [OF assms, of "0x14"] by metis
  have m: "(b0 OR 0x14) AND 0x7E = 0x14" "(b7 OR 7) AND 7 = 7"
    using masked_or(1) [OF z(1), of "0x14"] masked_or(1) [OF z(2), of 7] by simp_all
  have info: "get_info_byte (fromI64Ref E g p) AND 7 = 7"
    by (simp add: fromI64Ref_def op get_info_byte_def m)
  then have overlay: "getOverlay (fromI64Ref E g p) = Pointer" by (rule overlay_pointer)
  have type: "getType (fromI64Ref E g p) = TyInt64"
    using info by (simp add: getType_def overlay pointer_type_def) (simp add: fromI64Ref_def op m)
  have "getPointer E (fromI64Ref E g p) 0x14 = p" "p \<noteq> 0"
    using endian.getPointer_fromPointer [OF assms(1,2), of "0x14" p "0x14"] assms(3)
    by (simp_all add: fromI64Ref_def taggable_def)
  then show ?thesis
    using info by (simp add: getI64_def hashEquality_def overlay type get_ref_def)
qed

theorem boxed_integer_hash_aborts_witness:
  "getI64 little_endian_lib no_objects (fromI64Ref little_endian_lib [0, 0, 0, 0, 0, 0, 0, 0] 0x7F001230)
      = Some (i64_of no_objects 0x7F001230) \<and>
    hashEquality little_endian_lib no_objects
      (fromI64Ref little_endian_lib [0, 0, 0, 0, 0, 0, 0, 0] 0x7F001230) = None"
  by (rule boxed_integer_hash_aborts [OF endian_little]) (simp_all add: taggable_def be64_def)

end
