(* ===== verification/InterpreterResult.thy ===== *)
theory InterpreterResult
  imports Prelude
begin

text \<open>
  How an operation of the runtime ends when it does not succeed
  (\<open>lyric_runtime/interpreter_result.h\<close>): it returns a status with one of the interpreter's
  conditions, or one of the object library's, an exception leaves it, the process ends at an
  assertion or with a fatal log message, or the behaviour is undefined: a null pointer is
  dereferenced, an array is read out of its bounds.

  A locale for refinements by simulation, used by the components whose state is an encoding of
  a simpler one.
\<close>

datatype interpreter_condition =
    kInvalidOperandAddressV1 | kInvalidOperandFlagsAddressV1 | kInvalidOperandFlagsAddressV2 |
    kInvalidOperandJumpV1 | kInvalidOperandOffsetV1 | kInvalidOperandFlagsAddressPlacementV1 |
    kInvalidOperandFlagsAddressPlacementV2 | kInvalidOperandFlagsAddressPlacementV3 |
    kInvalidOperandFlagsOffsetPlacementV1 | kInvalidOperandFlagsOffsetPlacementV2 |
    kInvalidOperandFlagsOffsetPlacementV3 | kInvalidOperandTypeV1 |
    kInvalidOperandImmediateI64V1 | kInvalidOperandImmediateDblV1 |
    kInvalidOperandImmediateChrV1 | kInvalidDataStackV1 | kInvalidDataStackV2 |
    kInvalidDataStackValue | kInvalidReceiver | kRuntimeInvariant | kMissingObject |
    kRuntimeMissingSymbol | kExceededMaximumRecursion | kInterrupted | kAborted

datatype failure =
    Returned interpreter_condition
  | ReturnedObject object_condition
  | ThrownStatus interpreter_condition
  | ThrownOutOfRange
  | ThrownLengthError
  | ThrownUtf8
  | AssertionFailed
  | LoggedFatal
  | UndefinedBehaviour

type_synonym interp_status = "failure status"

abbreviation runtime_invariant :: interp_status where
  "runtime_invariant \<equiv> NotOk (Returned kRuntimeInvariant)"

text \<open>Operations that may end this way, in sequence; in the scheduler a failure ends the process.\<close>

definition or_else_fail :: "'e \<Rightarrow> 'a option \<Rightarrow> 'e + 'a" where
  "or_else_fail f x = (case x of None \<Rightarrow> Inl f | Some y \<Rightarrow> Inr y)"

definition then_do :: "'e + 'a \<Rightarrow> ('a \<Rightarrow> 'e + 'b) \<Rightarrow> 'e + 'b" where
  "then_do r f = (case r of Inl e \<Rightarrow> Inl e | Inr x \<Rightarrow> f x)"

lemma or_else_fail_simps [simp]:
  "or_else_fail f None = Inl f" "or_else_fail f (Some y) = Inr y"
  by (simp_all add: or_else_fail_def)

lemma then_do_simps [simp]: "then_do (Inl e) f = Inl e" "then_do (Inr x) f = f x"
  by (simp_all add: then_do_def)

lemma then_do_Inr: "then_do r f = Inr y \<longleftrightarrow> (\<exists>x. r = Inr x \<and> f x = Inr y)"
  by (cases r) simp_all

subsection \<open>Simulation\<close>

text \<open>
  \<open>R\<close> relates the states of the code to those of its specification; on related states an
  operation that is valid there gives the same result and related states again. Then so does
  every sequence of operations each of which is valid where it happens.
\<close>

fun run_ops :: "('op \<Rightarrow> 's \<Rightarrow> 'r \<times> 's) \<Rightarrow> 'op list \<Rightarrow> 's \<Rightarrow> 'r list \<times> 's" where
  "run_ops step [] s = ([], s)"
| "run_ops step (op # ops) s =
    (let (r, s') = step op s; (rs, s'') = run_ops step ops s' in (r # rs, s''))"

fun valid_run :: "('op \<Rightarrow> 's \<Rightarrow> bool) \<Rightarrow> ('op \<Rightarrow> 's \<Rightarrow> 'r \<times> 's) \<Rightarrow> 'op list \<Rightarrow> 's \<Rightarrow> bool" where
  "valid_run valid step [] s \<longleftrightarrow> True"
| "valid_run valid step (op # ops) s \<longleftrightarrow> valid op s \<and> valid_run valid step ops (snd (step op s))"

lemma valid_run_const: "valid_run (\<lambda>op s. v op) step ops s \<longleftrightarrow> list_all v ops"
  by (induction ops arbitrary: s) simp_all

locale simulation =
  fixes R :: "'c \<Rightarrow> 'a \<Rightarrow> bool" and valid :: "'op \<Rightarrow> 'a \<Rightarrow> bool"
    and cstep :: "'op \<Rightarrow> 'c \<Rightarrow> 'r \<times> 'c" and astep :: "'op \<Rightarrow> 'a \<Rightarrow> 'r \<times> 'a"
  assumes step: "R c a \<Longrightarrow> valid op a \<Longrightarrow>
    fst (cstep op c) = fst (astep op a) \<and> R (snd (cstep op c)) (snd (astep op a))"
begin

lemma run:
  "R c a \<Longrightarrow> valid_run valid astep ops a \<Longrightarrow>
    fst (run_ops cstep ops c) = fst (run_ops astep ops a) \<and>
    R (snd (run_ops cstep ops c)) (snd (run_ops astep ops a))"
proof (induction ops arbitrary: c a)
  case Nil
  then show ?case by simp
next
  case (Cons op ops)
  have s: "fst (cstep op c) = fst (astep op a)" "R (snd (cstep op c)) (snd (astep op a))"
    using step [OF Cons.prems(1)] Cons.prems(2) by auto
  show ?case
    using s(1) Cons.IH [OF s(2)] Cons.prems(2) by (simp add: Let_def split_beta)
qed

end

end
