(* ===== verification/OperandStack.thy ===== *)
theory OperandStack
  imports OperandLaws InterpreterResult
begin

text \<open>
  The data stack of a coroutine, \<open>lyric_runtime::OperandStack\<close> (\<open>operand_stack.h\<close>,
  \<open>operand_stack.cpp\<close>): a fixed vector of bytes in which every operand takes four or eight
  bytes, read backwards from its info byte.

  \<open>g\<close> is the uninitialised array of \<open>Operand::parse\<close>, the same for all the pops of one call. The
  failures keep the state the code leaves behind: \<open>popOperands\<close>, \<open>dropOperand\<close> and
  \<open>dropOperands\<close> lose what they popped before they failed.

  The lemmas: the byte stack refines a stack of operand representations, operation by operation
  and for every sequence of operations.
\<close>

unbundle bit_operations_syntax

subsection \<open>The byte stack\<close>

record operand_stack =
  m_stack :: "u8 list"
  m_last :: nat
  m_depth :: nat

type_synonym 'a popped = "(failure + 'a) \<times> operand_stack"

definition new_stack :: "nat \<Rightarrow> operand_stack" where
  "new_stack stackSize = \<lparr>m_stack = replicate stackSize 0, m_last = 0, m_depth = 0\<rparr>"

definition stack_isEmpty :: "operand_stack \<Rightarrow> bool" where
  "stack_isEmpty s \<longleftrightarrow> m_depth s = 0"

definition getDepth :: "operand_stack \<Rightarrow> nat" where
  "getDepth s = m_depth s"

definition getBytesAvailable :: "operand_stack \<Rightarrow> nat" where
  "getBytesAvailable s = length (m_stack s) - m_last s"

definition getBytesUsed :: "operand_stack \<Rightarrow> nat" where
  "getBytesUsed s = m_last s"

definition pushOperand :: "operand \<Rightarrow> operand_stack \<Rightarrow> interp_status \<times> operand_stack" where
  "pushOperand value s =
    (let bytes = getBytes value
     in if bytes = [] then (runtime_invariant, s)
        else if length (m_stack s) < m_last s + length bytes then (runtime_invariant, s)
        else (Ok, s\<lparr>m_stack := copy_at (m_last s) bytes (m_stack s),
                    m_last := m_last s + length bytes, m_depth := m_depth s + 1\<rparr>))"

text \<open>The size of the value that ends before \<open>cur\<close>, with the checks of \<open>vector::at\<close> and of the
  code.\<close>

definition value_size :: "operand_stack \<Rightarrow> nat \<Rightarrow> failure + nat" where
  "value_size s cur =
    (if cur = 0 \<or> length (m_stack s) < cur then Inl ThrownOutOfRange
     else let sz = parseSize (m_stack s ! (cur - 1))
          in if cur < sz then Inl (Returned kRuntimeInvariant) else Inr sz)"

definition parse_at :: "u8 list \<Rightarrow> operand_stack \<Rightarrow> nat \<Rightarrow> nat \<Rightarrow> operand" where
  "parse_at g s cur sz = parse_operand g (take sz (drop (cur - sz) (m_stack s)))"

definition popOperand :: "u8 list \<Rightarrow> operand_stack \<Rightarrow> operand popped" where
  "popOperand g s =
    (if m_last s = 0 then (Inl (Returned kRuntimeInvariant), s)
     else case value_size s (m_last s) of
       Inl e \<Rightarrow> (Inl e, s)
     | Inr sz \<Rightarrow> (Inr (parse_at g s (m_last s) sz),
                   s\<lparr>m_last := m_last s - sz, m_depth := m_depth s - 1\<rparr>))"

fun pop_loop :: "u8 list \<Rightarrow> nat \<Rightarrow> operand list \<Rightarrow> operand_stack \<Rightarrow> operand list popped" where
  "pop_loop g 0 vs s = (Inr vs, s)"
| "pop_loop g (Suc i) vs s =
    (case popOperand g s of
       (Inl e, s') \<Rightarrow> (Inl e, s')
     | (Inr v, s') \<Rightarrow> pop_loop g i (v # vs) s')"

definition popOperands :: "u8 list \<Rightarrow> int \<Rightarrow> operand_stack \<Rightarrow> operand list popped" where
  "popOperands g count s =
    (if count < 0 then (Inl ThrownLengthError, s) else pop_loop g (nat count) [] s)"

fun peek_curr :: "operand_stack \<Rightarrow> nat \<Rightarrow> nat \<Rightarrow> failure + nat" where
  "peek_curr s 0 cur = Inr cur"
| "peek_curr s (Suc offset) cur =
    (case value_size s cur of Inl e \<Rightarrow> Inl e | Inr sz \<Rightarrow> peek_curr s offset (cur - sz))"

definition peekOperand :: "u8 list \<Rightarrow> u16 \<Rightarrow> operand_stack \<Rightarrow> failure + operand" where
  "peekOperand g offset s =
    (if sint offset < 0 then Inl (Returned kRuntimeInvariant)
     else if m_last s = 0 then Inl (Returned kRuntimeInvariant)
     else case peek_curr s (nat (sint offset)) (m_last s) of
       Inl e \<Rightarrow> Inl e
     | Inr cur \<Rightarrow>
        (case value_size s cur of Inl e \<Rightarrow> Inl e | Inr sz \<Rightarrow> Inr (parse_at g s cur sz)))"

fun push_all :: "operand list \<Rightarrow> operand_stack \<Rightarrow> interp_status \<times> operand_stack" where
  "push_all [] s = (Ok, s)"
| "push_all (v # vs) s = and_then (pushOperand v s) (push_all vs)"

definition dropOperand :: "u8 list \<Rightarrow> u16 \<Rightarrow> operand_stack \<Rightarrow> interp_status \<times> operand_stack" where
  "dropOperand g offset s =
    (if sint offset < 0 then (runtime_invariant, s)
     else case pop_loop g (nat (sint offset)) [] s of
       (Inl e, s') \<Rightarrow> (NotOk e, s')
     | (Inr vs, s') \<Rightarrow>
        (case popOperand g s' of
           (Inl e, s'') \<Rightarrow> (NotOk e, s'')
         | (Inr _, s'') \<Rightarrow> push_all vs s''))"

fun drop_loop :: "nat \<Rightarrow> operand_stack \<Rightarrow> interp_status \<times> operand_stack" where
  "drop_loop 0 s = (Ok, s)"
| "drop_loop (Suc i) s =
    (if m_last s = 0 then (runtime_invariant, s)
     else case value_size s (m_last s) of
       Inl e \<Rightarrow> (NotOk e, s)
     | Inr sz \<Rightarrow> drop_loop i (s\<lparr>m_last := m_last s - sz, m_depth := m_depth s - 1\<rparr>))"

definition dropOperands :: "int \<Rightarrow> operand_stack \<Rightarrow> interp_status \<times> operand_stack" where
  "dropOperands count s = drop_loop (nat count) s"

text \<open>The iterator over a stack: its bytes, or the null pointer, and the end of the next value.\<close>

record operand_stack_iterator =
  it_stack :: "u8 list option"
  it_curr :: nat

definition iterateOperands :: "operand_stack \<Rightarrow> operand_stack_iterator" where
  "iterateOperands s = \<lparr>it_stack = Some (m_stack s), it_curr = m_last s\<rparr>"

definition stack_hasNext :: "operand_stack_iterator \<Rightarrow> bool" where
  "stack_hasNext it \<longleftrightarrow> it_stack it \<noteq> None \<and> it_curr it > 0"

definition stack_getNext ::
  "u8 list \<Rightarrow> operand_stack_iterator \<Rightarrow> operand option \<times> operand_stack_iterator" where
  "stack_getNext g it =
    (case it_stack it of
       None \<Rightarrow> (None, it)
     | Some bytes \<Rightarrow>
        if it_curr it = 0 then (None, it)
        else let sz = parseSize (bytes ! (it_curr it - 1))
             in if it_curr it < sz then (None, it)
                else (Some (parse_operand g (take sz (drop (it_curr it - sz) bytes))),
                      it\<lparr>it_curr := it_curr it - sz\<rparr>))"

subsection \<open>Representations of operands\<close>

definition value_bytes :: "u8 list \<Rightarrow> bool" where
  "value_bytes b \<longleftrightarrow> b \<noteq> [] \<and> last b \<noteq> 0 \<and> length b = parseSize (last b)"

lemma parseSize_cases: "parseSize info = (if info AND 7 \<in> {0, 1, 2} then 4 else 8)"
  using tag_range [of info] by (auto simp: parseSize_def Let_def)

lemma getBytes_value_bytes:
  assumes "operand_wf op" "getBytes op \<noteq> []"
  shows "value_bytes (getBytes op)"
proof -
  have len: "length (m_bytes op) = 8" using assms(1) by (simp add: operand_wf_def)
  have last: "last (m_bytes op) = get_info_byte op" "last (drop 4 (m_bytes op)) = get_info_byte op"
    using len by (auto simp: get_info_byte_def elim!: length_8_cases)
  show ?thesis
    using assms(2) len last tag_range [of "get_info_byte op"]
    by (auto simp: getBytes_def value_bytes_def getOverlay_def Let_def parseSize_cases
        split: if_splits)
qed

lemma parse_value_bytes:
  assumes g: "length g = 8" and b: "value_bytes b"
  shows "getBytes (parse_operand g b) = b" "operand_wf (parse_operand g b)"
proof -
  have ne: "b \<noteq> []" "last b \<noteq> 0" and len: "length b = (if last b AND 7 \<in> {0, 1, 2} then 4 else 8)"
    using b by (simp_all only: value_bytes_def parseSize_cases simp_thms not_False_eq_True)
  have idx: "last b = b ! (length b - 1)" using ne(1) by (rule last_conv_nth)
  consider (small) "length b = 4" "b ! 3 AND 7 \<in> {0, 1, 2}" "b ! 3 \<noteq> 0"
    | (large) "length b = 8" "b ! 7 AND 7 \<notin> {0, 1, 2}" "b ! 7 \<noteq> 0"
  proof (cases "last b AND 7 \<in> {0, 1, 2}")
    case True
    with len have "length b = 4" by simp
    with True idx ne(2) show ?thesis by (intro small) simp_all
  next
    case False
    with len have "length b = 8" by simp
    with False idx ne(2) show ?thesis by (intro large) simp_all
  qed
  then have "getBytes (parse_operand g b) = b \<and> operand_wf (parse_operand g b)"
  proof cases
    case small
    then have "parse_operand g b = \<lparr>m_bytes = take 4 g @ b\<rparr>"
      using g by (auto simp: parse_operand_def copy_at_def)
    then show ?thesis
      using small g by (auto simp: getBytes_def getOverlay_def get_info_byte_def nth_append
          operand_wf_def Let_def)
  next
    case large
    then have "parse_operand g b = \<lparr>m_bytes = b\<rparr>"
      using g tag_range [of "b ! 7"] by (auto simp: parse_operand_def Let_def)
    then show ?thesis
      using large tag_range [of "b ! 7"] by (auto simp: getBytes_def getOverlay_def get_info_byte_def
          operand_wf_def Let_def)
  qed
  then show "getBytes (parse_operand g b) = b" "operand_wf (parse_operand g b)" by simp_all
qed

subsection \<open>The specification: a stack of representations\<close>

datatype stack_op =
    Push operand
  | Pop "u8 list"
  | PopMany "u8 list" int
  | Peek "u8 list" u16
  | Drop "u8 list" u16
  | DropMany int

datatype stack_result = Done | Failed failure | Value "u8 list" | Values "u8 list list"

definition of_status :: "interp_status \<times> 's \<Rightarrow> stack_result \<times> 's" where
  "of_status r = (case fst r of Ok \<Rightarrow> Done | NotOk e \<Rightarrow> Failed e, snd r)"

definition of_value :: "failure + operand \<Rightarrow> stack_result" where
  "of_value r = (case r of Inl e \<Rightarrow> Failed e | Inr v \<Rightarrow> Value (getBytes v))"

definition of_values :: "failure + operand list \<Rightarrow> stack_result" where
  "of_values r = (case r of Inl e \<Rightarrow> Failed e | Inr vs \<Rightarrow> Values (map getBytes vs))"

fun stack_step :: "stack_op \<Rightarrow> operand_stack \<Rightarrow> stack_result \<times> operand_stack" where
  "stack_step (Push v) s = of_status (pushOperand v s)"
| "stack_step (Pop g) s = apfst of_value (popOperand g s)"
| "stack_step (PopMany g n) s = apfst of_values (popOperands g n s)"
| "stack_step (Peek g i) s = (of_value (peekOperand g i s), s)"
| "stack_step (Drop g i) s = of_status (dropOperand g i s)"
| "stack_step (DropMany n) s = of_status (dropOperands n s)"

text \<open>The specification, on the list of the values' representations, top first; \<open>cap\<close> is the
  capacity in bytes.\<close>

fun spec_step :: "nat \<Rightarrow> stack_op \<Rightarrow> u8 list list \<Rightarrow> stack_result \<times> u8 list list" where
  "spec_step cap (Push v) vs =
    (if getBytes v = [] then (Failed (Returned kRuntimeInvariant), vs)
     else if cap < length (concat vs) + length (getBytes v)
     then (Failed (Returned kRuntimeInvariant), vs)
     else (Done, getBytes v # vs))"
| "spec_step cap (Pop g) vs =
    (case vs of [] \<Rightarrow> (Failed (Returned kRuntimeInvariant), []) | v # vs' \<Rightarrow> (Value v, vs'))"
| "spec_step cap (PopMany g n) vs =
    (if n < 0 then (Failed ThrownLengthError, vs)
     else if nat n \<le> length vs then (Values (rev (take (nat n) vs)), drop (nat n) vs)
     else (Failed (Returned kRuntimeInvariant), []))"
| "spec_step cap (Peek g i) vs =
    (if sint i < 0 \<or> vs = [] then Failed (Returned kRuntimeInvariant)
     else if nat (sint i) < length vs then Value (vs ! nat (sint i))
     else Failed ThrownOutOfRange, vs)"
| "spec_step cap (Drop g i) vs =
    (if sint i < 0 then (Failed (Returned kRuntimeInvariant), vs)
     else if nat (sint i) < length vs
     then (Done, take (nat (sint i)) vs @ drop (Suc (nat (sint i))) vs)
     else (Failed (Returned kRuntimeInvariant), []))"
| "spec_step cap (DropMany n) vs =
    (if nat n \<le> length vs then (Done, drop (nat n) vs)
     else (Failed (Returned kRuntimeInvariant), []))"

fun valid_op :: "stack_op \<Rightarrow> bool" where
  "valid_op (Push v) \<longleftrightarrow> operand_wf v"
| "valid_op (Pop g) \<longleftrightarrow> length g = 8"
| "valid_op (PopMany g n) \<longleftrightarrow> length g = 8"
| "valid_op (Peek g i) \<longleftrightarrow> length g = 8"
| "valid_op (Drop g i) \<longleftrightarrow> length g = 8"
| "valid_op (DropMany n) \<longleftrightarrow> True"

definition stack_repr :: "nat \<Rightarrow> operand_stack \<Rightarrow> u8 list list \<Rightarrow> bool" where
  "stack_repr cap s vs \<longleftrightarrow> length (m_stack s) = cap \<and> m_last s \<le> cap \<and> m_depth s = length vs \<and>
     take (m_last s) (m_stack s) = concat (rev vs) \<and> list_all value_bytes vs"

subsection \<open>Refinement\<close>

lemma stack_repr_new [simp]: "stack_repr cap (new_stack cap) []"
  by (simp add: stack_repr_def new_stack_def)

lemma length_concat_rev: "length (concat (rev vs)) = length (concat vs)"
  by (induction vs) simp_all

lemma repr_last: "stack_repr cap s vs \<Longrightarrow> m_last s = length (concat vs)"
proof -
  assume "stack_repr cap s vs"
  then have le: "m_last s \<le> length (m_stack s)" and tk: "take (m_last s) (m_stack s) = concat (rev vs)"
    by (simp_all add: stack_repr_def)
  have "m_last s = length (take (m_last s) (m_stack s))" using le by simp
  then show ?thesis unfolding tk length_concat_rev .
qed

lemma repr_empty: "stack_repr cap s vs \<Longrightarrow> m_last s = 0 \<longleftrightarrow> vs = []"
proof -
  assume r: "stack_repr cap s vs"
  have "length (concat vs) = 0 \<longleftrightarrow> vs = []"
    using r by (cases vs) (auto simp: stack_repr_def value_bytes_def)
  then show ?thesis unfolding repr_last [OF r] .
qed

lemma value_at:
  assumes le: "cur \<le> length (m_stack s)" and take: "take cur (m_stack s) = concat (rev (v # ws))"
    and v: "value_bytes v"
  shows "value_size s cur = Inr (length v)" "length v \<le> cur" "cur \<noteq> 0"
    and "take (length v) (drop (cur - length v) (m_stack s)) = v"
    and "take (cur - length v) (m_stack s) = concat (rev ws)"
proof -
  let ?pre = "concat (rev ws)"
  have split: "take cur (m_stack s) = ?pre @ v" using take by simp
  have cur: "cur = length ?pre + length v"
    using arg_cong [OF split, of length] le by simp
  have st: "m_stack s = ?pre @ v @ drop cur (m_stack s)"
    using append_take_drop_id [of cur "m_stack s"] split by simp
  have ne: "v \<noteq> []" "length v = parseSize (last v)" using v by (simp_all add: value_bytes_def)
  have "cur - 1 = length ?pre + (length v - 1)" using cur ne(1) by (cases v) simp_all
  then have info: "m_stack s ! (cur - 1) = last v"
    using ne(1) by (subst st) (simp add: nth_append last_conv_nth)
  show "length v \<le> cur" "cur \<noteq> 0" using cur ne(1) by simp_all
  then show "value_size s cur = Inr (length v)"
    using le info ne(2) by (simp add: value_size_def Let_def)
  show "take (length v) (drop (cur - length v) (m_stack s)) = v"
    by (subst st) (simp add: cur)
  show "take (cur - length v) (m_stack s) = ?pre"
    by (subst st) (simp add: cur)
qed

definition popped :: "nat \<Rightarrow> operand_stack \<Rightarrow> operand_stack" where
  "popped n s = s\<lparr>m_last := m_last s - n, m_depth := m_depth s - 1\<rparr>"

lemma repr_popped:
  assumes "stack_repr cap s (v # vs)"
  shows "value_size s (m_last s) = Inr (length v)" "m_last s \<noteq> 0"
    and "parse_at g s (m_last s) (length v) = parse_operand g v"
    and "stack_repr cap (popped (length v) s) vs" "value_bytes v"
proof -
  have v: "m_last s \<le> length (m_stack s)" "take (m_last s) (m_stack s) = concat (rev (v # vs))"
    "value_bytes v"
    using assms by (simp_all add: stack_repr_def)
  note at = value_at [OF v]
  show "value_size s (m_last s) = Inr (length v)" "m_last s \<noteq> 0" "value_bytes v"
    "parse_at g s (m_last s) (length v) = parse_operand g v"
    using at v by (simp_all add: parse_at_def)
  have "m_last s \<le> cap" using assms by (simp add: stack_repr_def)
  then have "m_last s - length v \<le> cap" by linarith
  then show "stack_repr cap (popped (length v) s) vs"
    using assms at by (simp add: stack_repr_def popped_def)
qed

lemma pop_repr:
  assumes "stack_repr cap s vs"
  shows "popOperand g s = (case vs of [] \<Rightarrow> (Inl (Returned kRuntimeInvariant), s)
     | v # vs' \<Rightarrow> (Inr (parse_operand g v), popped (length v) s))"
proof (cases vs)
  case Nil
  then show ?thesis using assms repr_empty [OF assms] by (simp add: popOperand_def)
next
  case (Cons v vs')
  show ?thesis
    using repr_popped [OF assms [unfolded Cons]] Cons by (simp add: popOperand_def popped_def)
qed

lemma push_repr:
  assumes r: "stack_repr cap s vs" and v: "operand_wf v"
  shows "pushOperand v s =
      (if getBytes v = [] \<or> cap < length (concat vs) + length (getBytes v) then (runtime_invariant, s)
       else (Ok, snd (pushOperand v s)))"
    and "getBytes v \<noteq> [] \<Longrightarrow> length (concat vs) + length (getBytes v) \<le> cap \<Longrightarrow>
      stack_repr cap (snd (pushOperand v s)) (getBytes v # vs)"
proof -
  show "pushOperand v s =
      (if getBytes v = [] \<or> cap < length (concat vs) + length (getBytes v) then (runtime_invariant, s)
       else (Ok, snd (pushOperand v s)))"
    using r repr_last [OF r] by (simp add: pushOperand_def stack_repr_def Let_def)
  assume b: "getBytes v \<noteq> []" "length (concat vs) + length (getBytes v) \<le> cap"
  then show "stack_repr cap (snd (pushOperand v s)) (getBytes v # vs)"
    using r repr_last [OF r] getBytes_value_bytes [OF v b(1)]
    by (simp add: pushOperand_def stack_repr_def copy_at_def Let_def)
qed

lemma pop_loop_repr:
  assumes g: "length g = 8" and "stack_repr cap s vs"
  shows "if n \<le> length vs
    then fst (pop_loop g n acc s) = Inr (map (parse_operand g) (rev (take n vs)) @ acc) \<and>
      stack_repr cap (snd (pop_loop g n acc s)) (drop n vs)
    else fst (pop_loop g n acc s) = Inl (Returned kRuntimeInvariant) \<and>
      stack_repr cap (snd (pop_loop g n acc s)) []"
  using assms(2)
proof (induction n arbitrary: vs acc s)
  case 0
  then show ?case by simp
next
  case (Suc n)
  show ?case
  proof (cases vs)
    case Nil
    then show ?thesis using Suc.prems by (simp add: pop_repr [OF Suc.prems])
  next
    case (Cons v vs')
    have "stack_repr cap (popped (length v) s) vs'"
      using repr_popped(4) Suc.prems Cons by simp
    from Suc.IH [OF this, of "parse_operand g v # acc"] show ?thesis
      by (simp add: pop_repr [OF Suc.prems] Cons split: if_splits)
  qed
qed

lemma push_all_repr:
  assumes "stack_repr cap s vs" "\<forall>v \<in> set ws. operand_wf v \<and> getBytes v \<noteq> []"
    and "length (concat vs) + length (concat (map getBytes ws)) \<le> cap"
  shows "fst (push_all ws s) = Ok \<and> stack_repr cap (snd (push_all ws s)) (rev (map getBytes ws) @ vs)"
  using assms
proof (induction ws arbitrary: s vs)
  case Nil
  then show ?case by simp
next
  case (Cons w ws)
  have w: "operand_wf w" "getBytes w \<noteq> []" "length (concat vs) + length (getBytes w) \<le> cap"
    using Cons.prems by auto
  note p = push_repr [OF Cons.prems(1) w(1)]
  have "pushOperand w s = (Ok, snd (pushOperand w s))"
    using p(1) w(2,3) by simp
  then have "push_all (w # ws) s = push_all ws (snd (pushOperand w s))"
    by (metis and_then_Ok push_all.simps(2))
  then show ?case
    using Cons.IH [OF p(2) [OF w(2,3)]] Cons.prems(2,3) by simp
qed

lemma peek_repr:
  assumes "cur \<le> length (m_stack s)" "take cur (m_stack s) = concat (rev us)" "list_all value_bytes us"
  shows "if n \<le> length us
    then \<exists>c. peek_curr s n cur = Inr c \<and> c \<le> length (m_stack s) \<and>
      take c (m_stack s) = concat (rev (drop n us))
    else peek_curr s n cur = Inl ThrownOutOfRange"
  using assms
proof (induction n arbitrary: us cur)
  case 0
  then show ?case by simp
next
  case (Suc n)
  show ?case
  proof (cases us)
    case Nil
    then have "cur = 0" using Suc.prems by auto
    then show ?thesis using Nil by (simp add: value_size_def)
  next
    case (Cons u us')
    have u: "take cur (m_stack s) = concat (rev (u # us'))" "value_bytes u" "list_all value_bytes us'"
      using Suc.prems Cons by simp_all
    note at = value_at [OF Suc.prems(1) u(1,2)]
    have "cur - length u \<le> length (m_stack s)" using Suc.prems(1) by linarith
    from Suc.IH [OF this at(5) u(3)] show ?thesis
      using at(1) by (simp add: Cons)
  qed
qed

lemma drop_loop_repr:
  assumes "stack_repr cap s vs"
  shows "if n \<le> length vs
    then fst (drop_loop n s) = Ok \<and> stack_repr cap (snd (drop_loop n s)) (drop n vs)
    else fst (drop_loop n s) = runtime_invariant \<and> stack_repr cap (snd (drop_loop n s)) []"
  using assms
proof (induction n arbitrary: vs s)
  case 0
  then show ?case by simp
next
  case (Suc n)
  show ?case
  proof (cases vs)
    case Nil
    then show ?thesis using Suc.prems repr_empty [OF Suc.prems] by simp
  next
    case (Cons v vs')
    note p = repr_popped [OF Suc.prems [unfolded Cons]]
    show ?thesis
      using Suc.IH [OF p(4)] p(1,2) by (simp add: Cons popped_def split: if_splits)
  qed
qed

lemma drop_repr:
  assumes g: "length g = 8" and r: "stack_repr cap s vs"
  shows "fst (stack_step (Drop g i) s) = fst (spec_step cap (Drop g i) vs) \<and>
    stack_repr cap (snd (stack_step (Drop g i) s)) (snd (spec_step cap (Drop g i) vs))"
proof (cases "sint i < 0")
  case True
  then show ?thesis using r by (simp add: dropOperand_def of_status_def)
next
  case pos: False
  obtain n where n: "n = nat (sint i)" by simp
  obtain r1 s1 where l: "pop_loop g n [] s = (r1, s1)" by (cases "pop_loop g n [] s") auto
  note loop = pop_loop_repr [OF g r, of n "[]", unfolded l fst_conv snd_conv]
  show ?thesis
  proof (cases "n \<le> length vs")
    case False
    then have "r1 = Inl (Returned kRuntimeInvariant)" "stack_repr cap s1 []"
      using loop by simp_all
    then show ?thesis
      using pos False l by (simp add: dropOperand_def of_status_def n)
  next
    case True
    then have r1: "r1 = Inr (map (parse_operand g) (rev (take n vs)))"
      and s1: "stack_repr cap s1 (drop n vs)"
      using loop by simp_all
    show ?thesis
    proof (cases "n < length vs")
      case False
      then have "drop n vs = []" by simp
      then show ?thesis
        using pos False l r1 s1 pop_repr [OF s1]
        by (simp add: dropOperand_def of_status_def n)
    next
      case lt: True
      then have d: "drop n vs = vs ! n # drop (Suc n) vs" by (rule Cons_nth_drop_Suc [symmetric])
      let ?ws = "map (parse_operand g) (rev (take n vs))"
      let ?s2 = "popped (length (vs ! n)) s1"
      have s2: "stack_repr cap ?s2 (drop (Suc n) vs)"
        using repr_popped(4) s1 unfolding d by blast
      have vb: "value_bytes v" if "v \<in> set (take n vs)" for v
        using r that by (auto simp: stack_repr_def list_all_iff dest: in_set_takeD)
      have ws: "\<forall>w \<in> set ?ws. operand_wf w \<and> getBytes w \<noteq> []"
        using vb parse_value_bytes [OF g] by (auto simp: value_bytes_def)
      have rep: "map getBytes ?ws = rev (take n vs)"
        using vb parse_value_bytes(1) [OF g] by (auto simp: rev_map intro!: map_idI)
      have "length (concat vs) \<le> cap"
        using r repr_last [OF r] by (simp add: stack_repr_def)
      moreover have "vs = take n vs @ vs ! n # drop (Suc n) vs"
        using d append_take_drop_id [of n vs] by simp
      then have "length (concat vs) = length (concat (take n vs)) + length (vs ! n)
          + length (concat (drop (Suc n) vs))"
        by (metis add.assoc concat.simps(2) concat_append length_append)
      ultimately have fits: "length (concat (drop (Suc n) vs)) + length (concat (map getBytes ?ws)) \<le> cap"
        unfolding rep length_concat_rev by linarith
      have "popOperand g s1 = (Inr (parse_operand g (vs ! n)), ?s2)"
        by (simp add: pop_repr [OF s1] d)
      moreover have "fst (push_all ?ws ?s2) = Ok"
        and "stack_repr cap (snd (push_all ?ws ?s2)) (take n vs @ drop (Suc n) vs)"
        using push_all_repr [OF s2 ws fits] unfolding rep by simp_all
      ultimately show ?thesis
        using pos lt l r1 n by (simp add: dropOperand_def of_status_def)
    qed
  qed
qed

lemma peek_step_repr:
  assumes g: "length g = 8" and r: "stack_repr cap s vs"
  shows "of_value (peekOperand g i s) = fst (spec_step cap (Peek g i) vs)"
proof (cases "sint i < 0 \<or> vs = []")
  case True
  then show ?thesis using repr_empty [OF r] by (auto simp: peekOperand_def of_value_def)
next
  case False
  obtain n where n: "n = nat (sint i)" by simp
  have st: "m_last s \<le> length (m_stack s)" "take (m_last s) (m_stack s) = concat (rev vs)"
    "list_all value_bytes vs" and last: "m_last s \<noteq> 0"
    using r repr_empty [OF r] False by (simp_all add: stack_repr_def)
  note peek = peek_repr [OF st, of n]
  show ?thesis
  proof (cases "n < length vs")
    case True
    then obtain c where c: "peek_curr s n (m_last s) = Inr c" "c \<le> length (m_stack s)"
      "take c (m_stack s) = concat (rev (vs ! n # drop (Suc n) vs))"
      using peek Cons_nth_drop_Suc [OF True] by auto
    have v: "value_bytes (vs ! n)" using st(3) True by (simp add: list_all_length)
    show ?thesis
      using value_at [OF c(2,3) v] c(1) False last True n parse_value_bytes(1) [OF g v]
      by (simp add: peekOperand_def of_value_def parse_at_def)
  next
    case ge: False
    then show ?thesis
    proof (cases "n = length vs")
      case True
      then obtain c where c: "peek_curr s n (m_last s) = Inr c" "take c (m_stack s) = []"
        "c \<le> length (m_stack s)"
        using peek by auto
      then have "c = 0" using last st by auto
      then show ?thesis
        using c(1) False last n ge by (simp add: peekOperand_def of_value_def value_size_def)
    next
      case ne: False
      then have "peek_curr s n (m_last s) = Inl ThrownOutOfRange" using peek ge by auto
      then show ?thesis
        using False last n ge by (simp add: peekOperand_def of_value_def)
    qed
  qed
qed

lemma stack_refines:
  assumes r: "stack_repr cap s vs" and op: "valid_op op"
  shows "fst (stack_step op s) = fst (spec_step cap op vs) \<and>
    stack_repr cap (snd (stack_step op s)) (snd (spec_step cap op vs))"
proof (cases op)
  case (Push v)
  note p = push_repr [OF r op [unfolded Push valid_op.simps]]
  show ?thesis
  proof (cases "getBytes v = [] \<or> cap < length (concat vs) + length (getBytes v)")
    case True
    then have "pushOperand v s = (runtime_invariant, s)" using p(1) by simp
    with True r show ?thesis by (auto simp: Push of_status_def)
  next
    case False
    then have "fst (pushOperand v s) = Ok" using p(1) by (metis fst_conv)
    with False p(2) show ?thesis by (simp add: Push of_status_def)
  qed
next
  case (Pop g)
  then show ?thesis
    using r op parse_value_bytes(1) repr_popped(4,5)
    by (cases vs) (auto simp: pop_repr [OF r] of_value_def)
next
  case (PopMany g n)
  then have g: "length g = 8" using op by simp
  have vb: "list_all value_bytes vs" using r by (simp add: stack_repr_def)
  have rep: "map getBytes (map (parse_operand g) (rev (take k vs))) = rev (take k vs)" for k
    using vb parse_value_bytes(1) [OF g] in_set_takeD [of _ k vs]
    by (simp add: list_all_iff rev_map) (rule map_idI, auto)
  show ?thesis
  proof (cases "n < 0")
    case True
    then show ?thesis using r by (simp add: PopMany popOperands_def of_values_def)
  next
    case False
    obtain r1 s1 where l: "pop_loop g (nat n) [] s = (r1, s1)"
      by (cases "pop_loop g (nat n) [] s") auto
    show ?thesis
      using pop_loop_repr [OF g r, of "nat n" "[]", unfolded l fst_conv snd_conv] False rep [of "nat n"]
      by (auto simp: PopMany popOperands_def of_values_def l split: if_splits)
  qed
next
  case (Peek g i)
  then show ?thesis using r op peek_step_repr [of g cap s vs i] by simp
next
  case (Drop g i)
  then show ?thesis using op drop_repr [OF _ r] by simp
next
  case (DropMany n)
  then show ?thesis
    using drop_loop_repr [OF r, of "nat n"]
    by (auto simp: dropOperands_def of_status_def split: if_splits)
qed

interpretation stack: simulation "stack_repr cap" "\<lambda>op vs. valid_op op" stack_step "spec_step cap" for cap
  by unfold_locales (rule stack_refines)

subsection \<open>The iterator\<close>

fun iterate_all :: "u8 list \<Rightarrow> nat \<Rightarrow> operand_stack_iterator \<Rightarrow> operand list" where
  "iterate_all g 0 it = []"
| "iterate_all g (Suc fuel) it =
    (case stack_getNext g it of (None, _) \<Rightarrow> [] | (Some v, it') \<Rightarrow> v # iterate_all g fuel it')"

lemma iterate_values:
  fixes s :: operand_stack
  assumes g: "length g = 8"
  shows "c \<le> length (m_stack s) \<Longrightarrow> take c (m_stack s) = concat (rev vs) \<Longrightarrow> list_all value_bytes vs \<Longrightarrow>
    length vs \<le> fuel \<Longrightarrow>
    map getBytes (iterate_all g fuel \<lparr>it_stack = Some (m_stack s), it_curr = c\<rparr>) = vs"
proof (induction fuel arbitrary: c vs)
  case 0
  then show ?case by simp
next
  case (Suc fuel)
  show ?case
  proof (cases vs)
    case Nil
    then have "c = 0" using Suc.prems by auto
    then show ?thesis using Nil by (simp add: stack_getNext_def)
  next
    case (Cons v us)
    have u: "take c (m_stack s) = concat (rev (v # us))" "value_bytes v" "list_all value_bytes us"
      "length us \<le> fuel"
      using Suc.prems Cons by simp_all
    note at = value_at [OF Suc.prems(1) u(1,2)]
    have "c - length v \<le> length (m_stack s)" using Suc.prems(1) by linarith
    note IH = Suc.IH [OF this at(5) u(3,4)]
    have sz: "parseSize (m_stack s ! (c - 1)) = length v"
      using at(1) by (simp add: value_size_def Let_def split: if_splits)
    show ?thesis
      using IH at sz parse_value_bytes(1) [OF g u(2)] by (simp add: stack_getNext_def Let_def Cons)
  qed
qed

subsection \<open>Properties of the data stack\<close>

text \<open>C17. The byte stack refines a stack of operand representations: from related states, every
  sequence of pushes, pops, peeks and drops gives the same results, failures included, and
  ends in related states.\<close>

theorem byte_stack_refines_value_stack:
  assumes "stack_repr cap s vs" "list_all valid_op os"
  shows "fst (run_ops stack_step os s) = fst (run_ops (spec_step cap) os vs) \<and>
    stack_repr cap (snd (run_ops stack_step os s)) (snd (run_ops (spec_step cap) os vs))"
  using assms by (intro stack.run) (simp_all add: valid_run_const)

theorem byte_stack_refines_value_stack_witness:
  "fst (run_ops stack_step [Push (fromU8 [0, 0, 0, 0, 0, 0, 0, 0] 7), Pop [1, 1, 1, 1, 1, 1, 1, 1], DropMany 1]
      (new_stack 16))
    = fst (run_ops (spec_step 16)
        [Push (fromU8 [0, 0, 0, 0, 0, 0, 0, 0] 7), Pop [1, 1, 1, 1, 1, 1, 1, 1], DropMany 1] []) \<and>
   stack_repr 16
     (snd (run_ops stack_step [Push (fromU8 [0, 0, 0, 0, 0, 0, 0, 0] 7), Pop [1, 1, 1, 1, 1, 1, 1, 1], DropMany 1]
       (new_stack 16)))
     (snd (run_ops (spec_step 16)
        [Push (fromU8 [0, 0, 0, 0, 0, 0, 0, 0] 7), Pop [1, 1, 1, 1, 1, 1, 1, 1], DropMany 1] []))"
  by (rule byte_stack_refines_value_stack) (simp_all add: operand_wf_def fromU8_def)

text \<open>An offset at or past the depth of a stack that is not empty: \<open>peekOperand\<close> does not
  return a status but lets \<open>std::out_of_range\<close> escape, and \<open>dropOperand\<close> fails after having
  emptied the stack.\<close>

theorem offset_past_depth:
  assumes "stack_repr cap s vs" "length g = 8" "vs \<noteq> []"
    and "0 \<le> sint i" "int (length vs) \<le> sint i"
  shows "peekOperand g i s = Inl ThrownOutOfRange \<and>
    fst (dropOperand g i s) = runtime_invariant \<and> stack_repr cap (snd (dropOperand g i s)) []"
proof -
  have past: "\<not> nat (sint i) < length vs" "\<not> sint i < 0" using assms(4,5) by linarith+
  have "of_value (peekOperand g i s) = Failed ThrownOutOfRange"
    using peek_step_repr [OF assms(2,1), of i] past assms(3) by simp
  moreover have "fst (of_status (dropOperand g i s)) = Failed (Returned kRuntimeInvariant)"
    "stack_repr cap (snd (dropOperand g i s)) []"
    using drop_repr [OF assms(2,1), of i] past by (simp_all add: of_status_def)
  ultimately show ?thesis
    by (auto simp: of_value_def of_status_def split: sum.splits status.splits)
qed

theorem offset_past_depth_witness:
  "peekOperand [0, 0, 0, 0, 0, 0, 0, 0] 1 (snd (pushOperand (fromU8 [0, 0, 0, 0, 0, 0, 0, 0] 7) (new_stack 16)))
      = Inl ThrownOutOfRange \<and>
    fst (dropOperand [0, 0, 0, 0, 0, 0, 0, 0] 1
      (snd (pushOperand (fromU8 [0, 0, 0, 0, 0, 0, 0, 0] 7) (new_stack 16)))) = runtime_invariant \<and>
    stack_repr 16 (snd (dropOperand [0, 0, 0, 0, 0, 0, 0, 0] 1
      (snd (pushOperand (fromU8 [0, 0, 0, 0, 0, 0, 0, 0] 7) (new_stack 16))))) []"
proof -
  let ?v = "fromU8 [0, 0, 0, 0, 0, 0, 0, 0] 7"
  have wf: "operand_wf ?v" and b: "getBytes ?v = [0, 0, 7, 0x18]"
    by (simp_all add: operand_wf_def fromU8_def getBytes_def getOverlay_def get_info_byte_def Let_def)
  have "stack_repr 16 (snd (pushOperand ?v (new_stack 16))) [[0, 0, 7, 0x18]]"
    using push_repr(2) [OF stack_repr_new wf] by (simp add: b)
  from offset_past_depth [OF this, of "[0, 0, 0, 0, 0, 0, 0, 0]" 1] show ?thesis by simp
qed

text \<open>Iterating over a stack yields its values, top first, and then ends.\<close>

theorem iteration_yields_values:
  assumes "stack_repr cap s vs" "length g = 8" "length vs \<le> fuel"
  shows "map getBytes (iterate_all g fuel (iterateOperands s)) = vs"
  unfolding iterateOperands_def using assms(1,3)
  by (intro iterate_values [OF assms(2)]) (simp_all add: stack_repr_def)

theorem iteration_yields_values_witness:
  "map getBytes (iterate_all [0, 0, 0, 0, 0, 0, 0, 0] 3 (iterateOperands (new_stack 16))) = []"
  by (rule iteration_yields_values [where cap = 16]) simp_all

end
