(* ===== verification/CallCell.thy ===== *)
theory CallCell
  imports BytecodeIterator OperandLaws
begin

text \<open>
  A call frame, \<open>lyric_runtime::CallCell\<close> (\<open>call_cell.h\<close>, \<open>call_cell.cpp\<close>): where the call
  returns to, and one vector of operands that holds the arguments, the rest arguments, the
  locals and the lexicals one after the other.

  A failed assertion of a constructor is \<open>None\<close>. \<open>m_vtable\<close> is an address, 0 the null pointer.

  The lemmas: a constructed frame is well-formed, every operation keeps it so, and each of the
  four areas is an array of its own (the locale \<open>slots\<close>).
\<close>

record call_cell =
  m_callIndex :: u32
  m_callSegment :: u32
  m_procOffset :: u32
  m_returnSegment :: u32
  m_returnIP :: bytecode_iterator
  m_savedIP :: bytecode_iterator
  m_returnsValue :: bool
  m_stackGuard :: int
  m_numArguments :: u16
  m_numRest :: u16
  m_numLocals :: u16
  m_numLexicals :: u16
  m_data :: "operand list"
  m_receiver :: operand
  m_vtable :: u64

definition empty_cell :: call_cell where
  "empty_cell =
     \<lparr>m_callIndex = INVALID_ADDRESS_U32, m_callSegment = INVALID_ADDRESS_U32,
      m_procOffset = INVALID_ADDRESS_U32, m_returnSegment = INVALID_ADDRESS_U32,
      m_returnIP = empty_iterator, m_savedIP = empty_iterator, m_returnsValue = False,
      m_stackGuard = 0, m_numArguments = 0, m_numRest = 0, m_numLocals = 0, m_numLexicals = 0,
      m_data = [], m_receiver = empty_operand, m_vtable = 0\<rparr>"

text \<open>\<open>std::vector::resize\<close>.\<close>

definition resize :: "nat \<Rightarrow> operand list \<Rightarrow> operand list" where
  "resize n data = take n data @ replicate (n - length data) empty_operand"

definition make_cell ::
  "u32 \<Rightarrow> u32 \<Rightarrow> u32 \<Rightarrow> u32 \<Rightarrow> bytecode_iterator \<Rightarrow> bool \<Rightarrow> int \<Rightarrow> u16 \<Rightarrow> u16 \<Rightarrow> u16 \<Rightarrow> u16 \<Rightarrow>
   operand list \<Rightarrow> call_cell" where
  "make_cell callIndex callSegment procOffset returnSegment returnIP returnsValue stackGuard
     numArguments numRest numLocals numLexicals data =
     \<lparr>m_callIndex = callIndex, m_callSegment = callSegment, m_procOffset = procOffset,
      m_returnSegment = returnSegment, m_returnIP = returnIP, m_savedIP = empty_iterator,
      m_returnsValue = returnsValue, m_stackGuard = stackGuard, m_numArguments = numArguments,
      m_numRest = numRest, m_numLocals = numLocals, m_numLexicals = numLexicals,
      m_data = resize (unat numArguments + unat numRest + unat numLocals + unat numLexicals) data,
      m_receiver = empty_operand, m_vtable = 0\<rparr>"

definition make_cell_vtable ::
  "u32 \<Rightarrow> u32 \<Rightarrow> u32 \<Rightarrow> u32 \<Rightarrow> bytecode_iterator \<Rightarrow> bool \<Rightarrow> int \<Rightarrow> u16 \<Rightarrow> u16 \<Rightarrow> u16 \<Rightarrow> u16 \<Rightarrow>
   operand list \<Rightarrow> u64 \<Rightarrow> call_cell option" where
  "make_cell_vtable callIndex callSegment procOffset returnSegment returnIP returnsValue stackGuard
     numArguments numRest numLocals numLexicals data vtable =
     (if vtable = 0 then None
      else Some ((make_cell callIndex callSegment procOffset returnSegment returnIP returnsValue
        stackGuard numArguments numRest numLocals numLexicals data)\<lparr>m_vtable := vtable\<rparr>))"

definition make_cell_receiver ::
  "u32 \<Rightarrow> u32 \<Rightarrow> u32 \<Rightarrow> u32 \<Rightarrow> bytecode_iterator \<Rightarrow> bool \<Rightarrow> int \<Rightarrow> u16 \<Rightarrow> u16 \<Rightarrow> u16 \<Rightarrow> u16 \<Rightarrow>
   operand list \<Rightarrow> operand \<Rightarrow> call_cell option" where
  "make_cell_receiver callIndex callSegment procOffset returnSegment returnIP returnsValue stackGuard
     numArguments numRest numLocals numLexicals data receiver =
     (if \<not> isValid_operand receiver then None
      else Some ((make_cell callIndex callSegment procOffset returnSegment returnIP returnsValue
        stackGuard numArguments numRest numLocals numLexicals data)\<lparr>m_receiver := receiver\<rparr>))"

text \<open>Copies and moves leave the saved instruction pointer out. A moved-from frame is invalid
  after an assignment, but not after a construction, which sets its call index to 0. The
  assignments keep the flag \<open>m_returnsValue\<close> of the source.\<close>

definition copy_cell :: "call_cell \<Rightarrow> call_cell" where
  "copy_cell other = other\<lparr>m_savedIP := empty_iterator\<rparr>"

definition copy_assign_cell :: "call_cell \<Rightarrow> call_cell \<Rightarrow> call_cell" where
  "copy_assign_cell this other = other\<lparr>m_savedIP := m_savedIP this\<rparr>"

definition move_cell :: "call_cell \<Rightarrow> call_cell \<times> call_cell" where
  "move_cell other =
    (other\<lparr>m_savedIP := empty_iterator\<rparr>,
     other\<lparr>m_callIndex := 0, m_callSegment := 0, m_procOffset := 0, m_returnSegment := 0,
           m_returnIP := empty_iterator, m_stackGuard := 0, m_numArguments := 0, m_numRest := 0,
           m_numLocals := 0, m_numLexicals := 0, m_data := [], m_receiver := empty_operand,
           m_vtable := 0\<rparr>)"

definition move_assign_cell :: "call_cell \<Rightarrow> call_cell \<Rightarrow> call_cell \<times> call_cell" where
  "move_assign_cell this other =
    (other\<lparr>m_savedIP := m_savedIP this\<rparr>,
     other\<lparr>m_callIndex := INVALID_ADDRESS_U32, m_callSegment := INVALID_ADDRESS_U32,
           m_procOffset := INVALID_ADDRESS_U32, m_returnSegment := INVALID_ADDRESS_U32,
           m_returnIP := empty_iterator, m_stackGuard := 0, m_numArguments := 0, m_numRest := 0,
           m_numLocals := 0, m_numLexicals := 0, m_data := [], m_receiver := empty_operand,
           m_vtable := 0\<rparr>)"

definition cell_isValid :: "call_cell \<Rightarrow> bool" where
  "cell_isValid c \<longleftrightarrow> m_callIndex c \<noteq> INVALID_ADDRESS_U32"

definition getArgument :: "int \<Rightarrow> call_cell \<Rightarrow> operand" where
  "getArgument index c =
    (if 0 \<le> index \<and> index < uint (m_numArguments c) then m_data c ! nat index else empty_operand)"

definition setArgument :: "int \<Rightarrow> operand \<Rightarrow> call_cell \<Rightarrow> call_cell" where
  "setArgument index v c =
    (if 0 \<le> index \<and> index < uint (m_numArguments c)
     then c\<lparr>m_data := (m_data c)[nat index := v]\<rparr> else c)"

definition getRestArgument :: "int \<Rightarrow> call_cell \<Rightarrow> operand" where
  "getRestArgument index c =
    (if 0 \<le> index \<and> index < uint (m_numRest c)
     then m_data c ! nat (uint (m_numArguments c) + index) else empty_operand)"

definition setRestArgument :: "int \<Rightarrow> operand \<Rightarrow> call_cell \<Rightarrow> call_cell" where
  "setRestArgument index v c =
    (if 0 \<le> index \<and> index < uint (m_numRest c)
     then c\<lparr>m_data := (m_data c)[nat (uint (m_numArguments c) + index) := v]\<rparr> else c)"

definition getLocal :: "int \<Rightarrow> call_cell \<Rightarrow> operand" where
  "getLocal index c =
    (if 0 \<le> index \<and> index < uint (m_numLocals c)
     then m_data c ! nat (uint (m_numArguments c) + uint (m_numRest c) + index) else empty_operand)"

definition setLocal :: "int \<Rightarrow> operand \<Rightarrow> call_cell \<Rightarrow> call_cell" where
  "setLocal index v c =
    (if 0 \<le> index \<and> index < uint (m_numLocals c)
     then c\<lparr>m_data := (m_data c)[nat (uint (m_numArguments c) + uint (m_numRest c) + index) := v]\<rparr>
     else c)"

definition getLexical :: "int \<Rightarrow> call_cell \<Rightarrow> operand" where
  "getLexical index c =
    (if 0 \<le> index \<and> index < uint (m_numLexicals c)
     then m_data c ! nat (uint (m_numArguments c) + uint (m_numRest c) + uint (m_numLocals c) + index)
     else empty_operand)"

definition setLexical :: "int \<Rightarrow> operand \<Rightarrow> call_cell \<Rightarrow> call_cell" where
  "setLexical index v c =
    (if 0 \<le> index \<and> index < uint (m_numLexicals c)
     then c\<lparr>m_data := (m_data c)[nat (uint (m_numArguments c) + uint (m_numRest c)
       + uint (m_numLocals c) + index) := v]\<rparr>
     else c)"

definition hasSavedIP :: "call_cell \<Rightarrow> bool" where
  "hasSavedIP c \<longleftrightarrow> isValid (m_savedIP c)"

definition setSavedIP :: "bytecode_iterator \<Rightarrow> call_cell \<Rightarrow> call_cell" where
  "setSavedIP ip c = c\<lparr>m_savedIP := ip\<rparr>"

definition clearSavedIP :: "call_cell \<Rightarrow> bool \<times> call_cell" where
  "clearSavedIP c =
    (if isValid (m_savedIP c) then (True, c\<lparr>m_savedIP := empty_iterator\<rparr>) else (False, c))"

subsection \<open>Areas of slots\<close>

text \<open>An array of slots inside a state: reading gives what was written last, out of range
  nothing is written and the default is read.\<close>

locale slots =
  fixes wf :: "'s \<Rightarrow> bool" and get :: "int \<Rightarrow> 's \<Rightarrow> 'v" and put :: "int \<Rightarrow> 'v \<Rightarrow> 's \<Rightarrow> 's"
    and num :: "'s \<Rightarrow> nat" and default :: 'v
  assumes wf_put: "wf s \<Longrightarrow> wf (put i v s)"
    and num_put: "num (put i v s) = num s"
    and get_put: "wf s \<Longrightarrow>
      get j (put i v s) = (if i = j \<and> 0 \<le> i \<and> i < int (num s) then v else get j s)"
    and get_out: "\<not> (0 \<le> j \<and> j < int (num s)) \<Longrightarrow> get j s = default"
begin

text \<open>Writing a list from an index on, the way a caller fills in the arguments of a frame.\<close>

primrec put_all :: "int \<Rightarrow> 'v list \<Rightarrow> 's \<Rightarrow> 's" where
  "put_all i [] s = s"
| "put_all i (v # vs) s = put_all (i + 1) vs (put i v s)"

lemma put_all_wf: "wf s \<Longrightarrow> wf (put_all i vs s) \<and> num (put_all i vs s) = num s"
  by (induction vs arbitrary: i s) (simp_all add: wf_put num_put)

lemma get_put_all:
  "wf s \<Longrightarrow> get j (put_all i vs s) =
    (if i \<le> j \<and> j < i + int (length vs) \<and> 0 \<le> j \<and> j < int (num s) then vs ! nat (j - i)
     else get j s)"
proof (induction vs arbitrary: i s)
  case Nil
  then show ?case by auto
next
  case (Cons v vs)
  have nat: "i + 1 \<le> j \<Longrightarrow> nat (j - i) = Suc (nat (j - (i + 1)))" by linarith
  show ?case
    using Cons.IH [OF wf_put [OF Cons.prems], of "i + 1" i v] get_put [OF Cons.prems, of j i v]
      num_put [of i v s] nat
    by auto
qed

end

subsection \<open>The areas of a frame\<close>

definition call_cell_wf :: "call_cell \<Rightarrow> bool" where
  "call_cell_wf c \<longleftrightarrow> length (m_data c) = unat (m_numArguments c) + unat (m_numRest c)
     + unat (m_numLocals c) + unat (m_numLexicals c)"

lemmas cell_access = getArgument_def setArgument_def getRestArgument_def setRestArgument_def
  getLocal_def setLocal_def getLexical_def setLexical_def

lemma length_resize [simp]: "length (resize n data) = n"
  by (simp add: resize_def)

lemma make_cell_wf [simp]:
  "call_cell_wf (make_cell ci cs po rs rip rv sg na nr nl nx data)" "call_cell_wf empty_cell"
  by (simp_all add: call_cell_wf_def make_cell_def empty_cell_def)

datatype area = Arguments | Rests | Locals | Lexicals

fun area_get :: "area \<Rightarrow> int \<Rightarrow> call_cell \<Rightarrow> operand" where
  "area_get Arguments = getArgument"
| "area_get Rests = getRestArgument"
| "area_get Locals = getLocal"
| "area_get Lexicals = getLexical"

fun area_set :: "area \<Rightarrow> int \<Rightarrow> operand \<Rightarrow> call_cell \<Rightarrow> call_cell" where
  "area_set Arguments = setArgument"
| "area_set Rests = setRestArgument"
| "area_set Locals = setLocal"
| "area_set Lexicals = setLexical"

fun area_size :: "area \<Rightarrow> call_cell \<Rightarrow> u16" where
  "area_size Arguments = m_numArguments"
| "area_size Rests = m_numRest"
| "area_size Locals = m_numLocals"
| "area_size Lexicals = m_numLexicals"

text \<open>Each area is a slice of the data vector.\<close>

fun area_base :: "area \<Rightarrow> call_cell \<Rightarrow> nat" where
  "area_base Arguments c = 0"
| "area_base Rests c = unat (m_numArguments c)"
| "area_base Locals c = unat (m_numArguments c) + unat (m_numRest c)"
| "area_base Lexicals c = unat (m_numArguments c) + unat (m_numRest c) + unat (m_numLocals c)"

definition slice_get :: "nat \<Rightarrow> nat \<Rightarrow> int \<Rightarrow> operand list \<Rightarrow> operand" where
  "slice_get b n i xs = (if 0 \<le> i \<and> i < int n then xs ! (b + nat i) else empty_operand)"

definition slice_put :: "nat \<Rightarrow> nat \<Rightarrow> int \<Rightarrow> operand \<Rightarrow> operand list \<Rightarrow> operand list" where
  "slice_put b n i v xs = (if 0 \<le> i \<and> i < int n then xs[b + nat i := v] else xs)"

lemma slice_same:
  "b + n \<le> length xs \<Longrightarrow>
    slice_get b n j (slice_put b n i v xs)
      = (if i = j \<and> 0 \<le> i \<and> i < int n then v else slice_get b n j xs)"
  by (auto simp: slice_get_def slice_put_def nth_list_update)

lemma slice_disjoint:
  "b + n \<le> b' \<or> b' + n' \<le> b \<Longrightarrow> slice_get b' n' j (slice_put b n i v xs) = slice_get b' n' j xs"
  by (auto simp: slice_get_def slice_put_def nth_list_update)

lemma area_get_slice:
  "area_get a i c = slice_get (area_base a c) (unat (area_size a c)) i (m_data c)"
  by (cases a) (simp_all add: cell_access slice_get_def nat_add_distrib)

lemma area_set_slice:
  "area_set a i v c = c\<lparr>m_data := slice_put (area_base a c) (unat (area_size a c)) i v (m_data c)\<rparr>"
  by (cases a) (simp_all add: cell_access slice_put_def nat_add_distrib)

lemma area_bounds:
  "call_cell_wf c \<Longrightarrow> area_base a c + unat (area_size a c) \<le> length (m_data c)"
  by (cases a) (simp_all add: call_cell_wf_def)

lemma areas_apart:
  "a \<noteq> b \<Longrightarrow> area_base a c + unat (area_size a c) \<le> area_base b c
    \<or> area_base b c + unat (area_size b c) \<le> area_base a c"
  by (cases a; cases b) simp_all

lemma area_unchanged [simp]:
  "area_base b (c\<lparr>m_data := xs\<rparr>) = area_base b c" "area_size b (c\<lparr>m_data := xs\<rparr>) = area_size b c"
  by (cases b; simp)+

lemma area_wf [wf_intros]: "call_cell_wf c \<Longrightarrow> call_cell_wf (area_set a i v c)"
  by (simp add: area_set_slice call_cell_wf_def slice_put_def)

lemma area_frame:
  "a \<noteq> b \<Longrightarrow> area_get b j (area_set a i v c) = area_get b j c"
  by (simp add: area_get_slice area_set_slice slice_disjoint [OF areas_apart])

lemma area_slots:
  "slots call_cell_wf (area_get a) (area_set a) (\<lambda>c. unat (area_size a c)) empty_operand"
proof unfold_locales
  show "call_cell_wf (area_set a i v s)" if "call_cell_wf s" for s i v
    using that by (rule area_wf)
  show "unat (area_size a (area_set a i v s)) = unat (area_size a s)" for i v s
    by (simp add: area_set_slice)
  show "area_get a j (area_set a i v s)
      = (if i = j \<and> 0 \<le> i \<and> i < int (unat (area_size a s)) then v else area_get a j s)"
    if "call_cell_wf s" for j i v s
    using slice_same [OF area_bounds [OF that]] by (simp add: area_get_slice area_set_slice)
  show "area_get a j s = empty_operand" if "\<not> (0 \<le> j \<and> j < int (unat (area_size a s)))" for j s
    using that by (auto simp: area_get_slice slice_get_def)
qed

interpretation arguments: slots call_cell_wf getArgument setArgument
    "\<lambda>c. unat (m_numArguments c)" empty_operand
  using area_slots [of Arguments] by simp

interpretation rest_arguments: slots call_cell_wf getRestArgument setRestArgument
    "\<lambda>c. unat (m_numRest c)" empty_operand
  using area_slots [of Rests] by simp

interpretation locals: slots call_cell_wf getLocal setLocal
    "\<lambda>c. unat (m_numLocals c)" empty_operand
  using area_slots [of Locals] by simp

interpretation lexicals: slots call_cell_wf getLexical setLexical
    "\<lambda>c. unat (m_numLexicals c)" empty_operand
  using area_slots [of Lexicals] by simp

subsection \<open>Properties of call frames\<close>

text \<open>The arguments, rest arguments, locals and lexicals of a frame are four disjoint arrays:
  a slot reads what was last written to it, a write touches no other slot of any area, and a
  write out of range changes nothing.\<close>

theorem frame_areas_are_disjoint_arrays:
  assumes "call_cell_wf c"
  shows "call_cell_wf (area_set a i v c) \<and>
    area_get b j (area_set a i v c) =
      (if a = b \<and> i = j \<and> 0 \<le> i \<and> i < uint (area_size a c) then v else area_get b j c)"
proof (cases "a = b")
  case True
  then show ?thesis
    using assms arguments.get_put [OF assms, of j i v] rest_arguments.get_put [OF assms, of j i v]
      locals.get_put [OF assms, of j i v] lexicals.get_put [OF assms, of j i v]
      area_wf [OF assms, of a i v]
    by (cases a) simp_all
next
  case False
  then show ?thesis using area_frame area_wf [OF assms] by simp
qed

theorem frame_areas_are_disjoint_arrays_witness:
  "area_get Locals 0 (area_set Locals 0 (fromU8 [0, 0, 0, 0, 0, 0, 0, 0] 7)
     (make_cell 0 0 0 0 empty_iterator True 0 1 0 2 0 []))
   = fromU8 [0, 0, 0, 0, 0, 0, 0, 0] 7"
  using frame_areas_are_disjoint_arrays
    [of "make_cell 0 0 0 0 empty_iterator True 0 1 0 2 0 []" Locals 0
      "fromU8 [0, 0, 0, 0, 0, 0, 0, 0] 7" Locals 0]
  by (simp add: make_cell_def call_cell_wf_def)

end
