(* ===== verification/Coroutine.thy ===== *)
theory Coroutine
  imports CallCell OperandStack
begin

text \<open>
  The state of a running program, \<open>lyric_runtime::StackfulCoroutine\<close>
  (\<open>stackful_coroutine.h\<close>, \<open>stackful_coroutine.cpp\<close>): the instruction pointer, the current
  segment, the stack of call frames, the data stack and the stack of guards that delimits
  nested interpreter runs.

  A vector is the list of its elements, the back last. \<open>m_SP\<close> is the index of the segment, \<open>None\<close>
  the null pointer. A pointer into the call stack is its index. A failed assertion is \<open>None\<close>.

  The lemmas: the guards stay positive and strictly increasing, \<open>checkGuard\<close> is false exactly
  when the call stack has dropped below the innermost guard, calls and data pop in the reverse
  order of their pushes, and resizing the data stack keeps its bottom.
\<close>

record stackful_coroutine =
  m_IP :: bytecode_iterator
  m_SP :: "nat option"
  m_callStack :: "call_cell list"
  m_operandStack :: operand_stack
  m_guardStack :: "int list"

definition new_coroutine :: "nat \<Rightarrow> stackful_coroutine" where
  "new_coroutine stackSize =
     \<lparr>m_IP = empty_iterator, m_SP = None, m_callStack = [], m_operandStack = new_stack stackSize,
      m_guardStack = []\<rparr>"

subsection \<open>Control\<close>

definition nextOp :: "endian_lib \<Rightarrow> stackful_coroutine \<Rightarrow> next_result \<times> stackful_coroutine" where
  "nextOp E co = (let (r, ip) = getNext E (m_IP co) in (r, co\<lparr>m_IP := ip\<rparr>))"

definition moveIP :: "u16 \<Rightarrow> stackful_coroutine \<Rightarrow> bool \<times> stackful_coroutine" where
  "moveIP offset co = (let (r, ip) = move (m_IP co) offset in (r, co\<lparr>m_IP := ip\<rparr>))"

definition transferControl ::
  "bytecode_iterator \<Rightarrow> nat option \<Rightarrow> stackful_coroutine \<Rightarrow> stackful_coroutine" where
  "transferControl ip sp co =
    (if sp \<noteq> None then co\<lparr>m_IP := ip, m_SP := sp\<rparr> else co\<lparr>m_IP := ip\<rparr>)"

subsection \<open>The call stack\<close>

text \<open>The size is added to a negative offset in \<open>size_t\<close> and the sum is converted to \<open>int\<close>, which is
  exact for stacks of fewer than \<open>2 ^ 31\<close> calls; the comparison is unsigned, so a negative sum is out
  of bounds.\<close>

definition calculate_stack_index :: "'t list \<Rightarrow> int \<Rightarrow> int" where
  "calculate_stack_index stack offset =
    (let offset' = (if offset < 0 then int (length stack) + offset else offset)
     in if 0 \<le> offset' \<and> offset' < int (length stack) then offset' else - 1)"

definition currentCallOrThrow :: "stackful_coroutine \<Rightarrow> failure + call_cell" where
  "currentCallOrThrow co =
    (if m_callStack co = [] then Inl (ThrownStatus kRuntimeInvariant) else Inr (last (m_callStack co)))"

text \<open>A change of the frame that \<open>currentCallOrThrow\<close> returns a reference to.\<close>

definition modify_current :: "(call_cell \<Rightarrow> call_cell) \<Rightarrow> stackful_coroutine \<Rightarrow> stackful_coroutine" where
  "modify_current f co =
    (if m_callStack co = [] then co
     else co\<lparr>m_callStack := butlast (m_callStack co) @ [f (last (m_callStack co))]\<rparr>)"

text \<open>\<open>moved\<close> tells whether \<open>push_back\<close> had to reallocate the vector, which moves its frames.\<close>

definition pushCall ::
  "bool \<Rightarrow> call_cell \<Rightarrow> bytecode_iterator \<Rightarrow> nat option \<Rightarrow> stackful_coroutine \<Rightarrow>
   interp_status \<times> stackful_coroutine" where
  "pushCall moved v ip sp co =
    (Ok, co\<lparr>m_IP := ip, m_SP := sp,
            m_callStack := (if moved then map (\<lambda>c. fst (move_cell c)) (m_callStack co)
                            else m_callStack co) @ [copy_cell v]\<rparr>)"

definition popCall :: "call_cell \<Rightarrow> stackful_coroutine \<Rightarrow> interp_status \<times> call_cell \<times> stackful_coroutine" where
  "popCall v co =
    (if m_callStack co = [] then (runtime_invariant, v, co)
     else (Ok, fst (move_assign_cell v (last (m_callStack co))),
           co\<lparr>m_callStack := butlast (m_callStack co)\<rparr>))"

definition peekCall :: "int \<Rightarrow> stackful_coroutine \<Rightarrow> failure + nat" where
  "peekCall offset co =
    (let i = calculate_stack_index (m_callStack co) offset
     in if i < 0 then Inl (Returned kRuntimeInvariant) else Inr (nat i))"

text \<open>Erasing a frame move-assigns the ones after it down by one.\<close>

fun erase_at :: "nat \<Rightarrow> call_cell list \<Rightarrow> call_cell list" where
  "erase_at i [] = []"
| "erase_at 0 [c] = []"
| "erase_at 0 (c # d # cs) = fst (move_assign_cell c d) # erase_at 0 (d # cs)"
| "erase_at (Suc i) (c # cs) = c # erase_at i cs"

definition dropCall :: "int \<Rightarrow> stackful_coroutine \<Rightarrow> interp_status \<times> stackful_coroutine" where
  "dropCall offset co =
    (let i = calculate_stack_index (m_callStack co) offset
     in if i < 0 then (runtime_invariant, co)
        else (Ok, co\<lparr>m_callStack := erase_at (nat i) (m_callStack co)\<rparr>))"

definition callStackSize :: "stackful_coroutine \<Rightarrow> int" where
  "callStackSize co = int (length (m_callStack co))"

definition callStackEmpty :: "stackful_coroutine \<Rightarrow> bool" where
  "callStackEmpty co \<longleftrightarrow> m_callStack co = []"

subsection \<open>The data stack\<close>

definition on_data ::
  "(operand_stack \<Rightarrow> 'r \<times> operand_stack) \<Rightarrow> stackful_coroutine \<Rightarrow> 'r \<times> stackful_coroutine" where
  "on_data f co = (let (r, s) = f (m_operandStack co) in (r, co\<lparr>m_operandStack := s\<rparr>))"

definition pushData :: "operand \<Rightarrow> stackful_coroutine \<Rightarrow> interp_status \<times> stackful_coroutine" where
  "pushData v = on_data (pushOperand v)"

definition popData :: "u8 list \<Rightarrow> stackful_coroutine \<Rightarrow> (failure + operand) \<times> stackful_coroutine" where
  "popData g = on_data (popOperand g)"

definition popDataMany ::
  "u8 list \<Rightarrow> int \<Rightarrow> stackful_coroutine \<Rightarrow> (failure + operand list) \<times> stackful_coroutine" where
  "popDataMany g count = on_data (popOperands g count)"

text \<open>The \<open>int\<close> offsets are converted to the 16-bit offsets of the stack.\<close>

definition peekData :: "u8 list \<Rightarrow> int \<Rightarrow> stackful_coroutine \<Rightarrow> failure + operand" where
  "peekData g offset co = peekOperand g (word_of_int offset) (m_operandStack co)"

definition dropData :: "u8 list \<Rightarrow> int \<Rightarrow> stackful_coroutine \<Rightarrow> interp_status \<times> stackful_coroutine" where
  "dropData g offset = on_data (dropOperand g (word_of_int offset))"

text \<open>The difference is computed in \<open>size_t\<close> and converted to \<open>int\<close>.\<close>

definition resizeDataStack :: "int \<Rightarrow> stackful_coroutine \<Rightarrow> interp_status \<times> stackful_coroutine" where
  "resizeDataStack n co =
    on_data (dropOperands (sint (word_of_int (int (getDepth (m_operandStack co)) - n) :: u32))) co"

definition dataStackEmpty :: "stackful_coroutine \<Rightarrow> bool" where
  "dataStackEmpty co \<longleftrightarrow> stack_isEmpty (m_operandStack co)"

definition dataStackSize :: "stackful_coroutine \<Rightarrow> int" where
  "dataStackSize co = int (getDepth (m_operandStack co))"

definition iterateData :: "stackful_coroutine \<Rightarrow> operand_stack_iterator" where
  "iterateData co = iterateOperands (m_operandStack co)"

subsection \<open>The guard stack\<close>

definition pushGuard :: "int \<Rightarrow> stackful_coroutine \<Rightarrow> stackful_coroutine option" where
  "pushGuard stackGuard co =
    (let guard = (if stackGuard < 0 then callStackSize co else stackGuard)
     in if \<not> guard > 0 then None
        else if \<not> (m_guardStack co = [] \<or> last (m_guardStack co) < guard) then None
        else Some (co\<lparr>m_guardStack := m_guardStack co @ [guard]\<rparr>))"

definition popGuard :: "stackful_coroutine \<Rightarrow> (int \<times> stackful_coroutine) option" where
  "popGuard co =
    (if m_guardStack co = [] then None
     else Some (last (m_guardStack co), co\<lparr>m_guardStack := butlast (m_guardStack co)\<rparr>))"

definition peekGuard :: "stackful_coroutine \<Rightarrow> int option" where
  "peekGuard co = (if m_guardStack co = [] then None else Some (last (m_guardStack co)))"

definition checkGuard :: "stackful_coroutine \<Rightarrow> bool" where
  "checkGuard co \<longleftrightarrow> m_guardStack co = [] \<or> last (m_guardStack co) \<le> int (length (m_callStack co))"

definition guardStackSize :: "stackful_coroutine \<Rightarrow> int" where
  "guardStackSize co = int (length (m_guardStack co))"

definition reset_coroutine :: "stackful_coroutine \<Rightarrow> stackful_coroutine" where
  "reset_coroutine co = co\<lparr>m_IP := empty_iterator, m_SP := None, m_callStack := [], m_guardStack := []\<rparr>"

subsection \<open>Guards\<close>

text \<open>Positive and strictly increasing.\<close>

definition guards_ok :: "stackful_coroutine \<Rightarrow> bool" where
  "guards_ok co \<longleftrightarrow> sorted_wrt (<) (m_guardStack co) \<and> (\<forall>g \<in> set (m_guardStack co). 0 < g)"

lemma guards_ok_new [simp]: "guards_ok (new_coroutine n)"
  by (simp add: guards_ok_def new_coroutine_def)

lemma sorted_snoc:
  "sorted_wrt (<) (xs @ [x]) \<longleftrightarrow> sorted_wrt (<) xs \<and> (xs = [] \<or> last xs < (x :: int))"
proof (cases xs rule: rev_cases)
  case (snoc ys y)
  then show ?thesis by (auto simp: sorted_wrt_append)
qed simp

lemma pushGuard_ok [wf_intros]: "guards_ok co \<Longrightarrow> pushGuard n co = Some co' \<Longrightarrow> guards_ok co'"
  by (auto simp: pushGuard_def guards_ok_def sorted_snoc Let_def split: if_splits)

lemma popGuard_ok [wf_intros]: "guards_ok co \<Longrightarrow> popGuard co = Some (n, co') \<Longrightarrow> guards_ok co'"
  by (cases "m_guardStack co" rule: rev_cases)
    (auto simp: popGuard_def guards_ok_def sorted_wrt_append)

lemma on_data_fields [simp]:
  "m_guardStack (snd (on_data f co)) = m_guardStack co"
  "m_callStack (snd (on_data f co)) = m_callStack co"
  "m_IP (snd (on_data f co)) = m_IP co" "m_SP (snd (on_data f co)) = m_SP co"
  by (simp_all add: on_data_def split_beta)

subsection \<open>Operations on a coroutine\<close>

text \<open>The operations as steps; \<open>None\<close> when an assertion fails.\<close>

datatype coroutine_op =
    Transfer bytecode_iterator "nat option"
  | PushCall bool call_cell bytecode_iterator "nat option"
  | PopCall call_cell
  | DropCall int
  | Data stack_op
  | Resize int
  | PushGuard int
  | PopGuard
  | Reset

fun coroutine_step :: "coroutine_op \<Rightarrow> stackful_coroutine \<Rightarrow> stackful_coroutine option" where
  "coroutine_step (Transfer ip sp) co = Some (transferControl ip sp co)"
| "coroutine_step (PushCall moved v ip sp) co = Some (snd (pushCall moved v ip sp co))"
| "coroutine_step (PopCall v) co = Some (snd (snd (popCall v co)))"
| "coroutine_step (DropCall i) co = Some (snd (dropCall i co))"
| "coroutine_step (Data op) co = Some (snd (on_data (stack_step op) co))"
| "coroutine_step (Resize n) co = Some (snd (resizeDataStack n co))"
| "coroutine_step (PushGuard n) co = pushGuard n co"
| "coroutine_step PopGuard co = map_option snd (popGuard co)"
| "coroutine_step Reset co = Some (reset_coroutine co)"

inductive coroutine_reaches :: "stackful_coroutine \<Rightarrow> stackful_coroutine \<Rightarrow> bool" where
  reach_refl: "coroutine_reaches co co"
| reach_step: "coroutine_reaches co co' \<Longrightarrow> coroutine_step op co' = Some co'' \<Longrightarrow> coroutine_reaches co co''"

lemma coroutine_step_guards [wf_intros]:
  assumes "guards_ok co" "coroutine_step op co = Some co'"
  shows "guards_ok co'"
proof (cases op)
  case (PushGuard n)
  then show ?thesis using assms pushGuard_ok by simp
next
  case PopGuard
  then show ?thesis using assms popGuard_ok by auto
qed (use assms in \<open>auto simp: guards_ok_def transferControl_def pushCall_def popCall_def dropCall_def
    resizeDataStack_def reset_coroutine_def Let_def split: if_splits\<close>)

subsection \<open>Properties of coroutines\<close>

text \<open>In every state that operations reach from a new coroutine, whatever their arguments and
  order, the guards are positive and strictly increasing, and \<open>checkGuard\<close> is false exactly when
  some guard lies above the call stack.\<close>

theorem guards_increase:
  assumes "coroutine_reaches (new_coroutine n) co"
  shows "sorted_wrt (<) (m_guardStack co) \<and> (\<forall>g \<in> set (m_guardStack co). 0 < g) \<and>
    (checkGuard co \<longleftrightarrow> (\<forall>g \<in> set (m_guardStack co). g \<le> callStackSize co))"
proof -
  have ok: "guards_ok co"
    using assms
  proof (induction "new_coroutine n" co rule: coroutine_reaches.induct)
    case reach_refl
    show ?case by simp
  next
    case (reach_step co' op co'')
    then show ?case using coroutine_step_guards by blast
  qed
  have "checkGuard co \<longleftrightarrow> (\<forall>g \<in> set (m_guardStack co). g \<le> callStackSize co)"
  proof (cases "m_guardStack co" rule: rev_cases)
    case Nil
    then show ?thesis by (simp add: checkGuard_def)
  next
    case (snoc gs g)
    then have "\<forall>h \<in> set gs. h < g" using ok by (auto simp: guards_ok_def sorted_wrt_append)
    with snoc show ?thesis by (auto simp: checkGuard_def callStackSize_def)
  qed
  with ok show ?thesis by (simp add: guards_ok_def)
qed

theorem guards_increase_witness:
  "sorted_wrt (<) (m_guardStack ((new_coroutine 16)\<lparr>m_guardStack := [3]\<rparr>)) \<and>
    \<not> checkGuard ((new_coroutine 16)\<lparr>m_guardStack := [3]\<rparr>)"
proof -
  have "coroutine_reaches (new_coroutine 16) ((new_coroutine 16)\<lparr>m_guardStack := [3]\<rparr>)"
    by (rule reach_step [OF reach_refl, of "PushGuard 3"])
      (simp add: pushGuard_def new_coroutine_def)
  from guards_increase [OF this] show ?thesis
    by (simp add: callStackSize_def new_coroutine_def)
qed

text \<open>Resizing the data stack keeps its bottom values: it drops from the top what exceeds the
  size, and does nothing when the stack is not larger.\<close>

theorem resize_keeps_bottom:
  assumes "stack_repr cap (m_operandStack co) vs" "0 \<le> n" "n < 2 ^ 31" "length vs < 2 ^ 31"
  shows "fst (resizeDataStack n co) = Ok \<and>
    stack_repr cap (m_operandStack (snd (resizeDataStack n co))) (drop (length vs - nat n) vs)"
proof -
  have depth: "getDepth (m_operandStack co) = length vs"
    using assms(1) by (simp add: stack_repr_def getDepth_def)
  obtain d where d: "d = int (length vs) - n" by simp
  have "- (2 ^ 31) \<le> d" "d < 2 ^ 31"
    using assms(2,3,4) by (simp_all add: d)
  then have "sint (word_of_int d :: u32) = d"
    by (simp add: sint_sbintrunc' signed_take_bit_int_eq_self)
  moreover have "dropOperands d = drop_loop (nat d)"
    by (rule ext) (simp add: dropOperands_def)
  moreover have "nat d = length vs - nat n"
    using assms(2) unfolding d by linarith
  ultimately have "resizeDataStack n co = on_data (drop_loop (length vs - nat n)) co"
    unfolding resizeDataStack_def depth d [symmetric] by simp
  then show ?thesis
    using drop_loop_repr [OF assms(1), of "length vs - nat n"]
    by (simp add: on_data_def split_beta)
qed

theorem resize_keeps_bottom_witness:
  "fst (resizeDataStack 0 (new_coroutine 16)) = Ok \<and>
    stack_repr 16 (m_operandStack (snd (resizeDataStack 0 (new_coroutine 16)))) (drop (length ([] :: u8 list list) - nat 0) [])"
  by (rule resize_keeps_bottom) (simp_all add: new_coroutine_def)

text \<open>A pushed call is the current one and is popped again with everything but its saved
  instruction pointer, and the calls below keep everything but theirs; the instruction and
  segment pointers are the pushed ones.\<close>

theorem call_push_pop:
  "m_IP (snd (pushCall moved v ip sp co)) = ip \<and> m_SP (snd (pushCall moved v ip sp co)) = sp \<and>
   currentCallOrThrow (snd (pushCall moved v ip sp co)) = Inr (v\<lparr>m_savedIP := empty_iterator\<rparr>) \<and>
   (let (status, v', co') = popCall dest (snd (pushCall moved v ip sp co))
    in status = Ok \<and> v' = v\<lparr>m_savedIP := m_savedIP dest\<rparr> \<and>
       map (\<lambda>c. c\<lparr>m_savedIP := empty_iterator\<rparr>) (m_callStack co')
         = map (\<lambda>c. c\<lparr>m_savedIP := empty_iterator\<rparr>) (m_callStack co) \<and>
       m_operandStack co' = m_operandStack co \<and> m_guardStack co' = m_guardStack co)"
  by (simp add: pushCall_def popCall_def currentCallOrThrow_def copy_cell_def move_cell_def
      move_assign_cell_def o_def)

text \<open>\<open>reset\<close> clears the pointers, the calls and the guards but leaves the data stack as it
  was, although its comment says that all information on the data stack is dropped.\<close>

lemma reset_keeps_data:
  "m_callStack (reset_coroutine co) = [] \<and> m_guardStack (reset_coroutine co) = [] \<and>
   m_IP (reset_coroutine co) = empty_iterator \<and> m_SP (reset_coroutine co) = None \<and>
   dataStackSize (reset_coroutine co) = dataStackSize co \<and>
   iterateData (reset_coroutine co) = iterateData co"
  by (simp add: reset_coroutine_def dataStackSize_def iterateData_def)

end
