(* ===== verification/Ring.thy ===== *)
theory Ring
  imports Prelude
begin

text \<open>
  Circular doubly linked queues through pointers in their nodes, the structure that the
  scheduler keeps its tasks and its waiters in: an empty queue is a null head, a queue of one
  has null pointers, and a longer one is a ring whose head's predecessor is the end.

  The locale fixes the fields of a node that hold the pointers and the data of a node that the
  links do not touch; inside it \<open>link_end\<close> and \<open>unlink\<close> append and remove a node, and are proved to
  append to and remove from the list of the queue's nodes. \<open>Task\<close> and \<open>Waiter\<close> interpret it.
\<close>

subsection \<open>Consecutive pairs\<close>

fun consec :: "'p list \<Rightarrow> ('p \<times> 'p) set" where
  "consec (a # b # xs) = insert (a, b) (consec (b # xs))"
| "consec _ = {}"

definition cyc :: "'p list \<Rightarrow> ('p \<times> 'p) set" where
  "cyc xs = insert (last xs, hd xs) (consec xs)"

lemma consec_append:
  "xs \<noteq> [] \<Longrightarrow> ys \<noteq> [] \<Longrightarrow> consec (xs @ ys) = insert (last xs, hd ys) (consec xs \<union> consec ys)"
proof (induction xs)
  case (Cons a xs)
  then show ?case by (cases xs; cases ys) (auto simp: insert_commute)
qed simp

lemma cyc_rotate: "as \<noteq> [] \<Longrightarrow> bs \<noteq> [] \<Longrightarrow> cyc (as @ bs) = cyc (bs @ as)"
  by (auto simp: cyc_def consec_append)

lemma consec_in_set: "(a, b) \<in> consec xs \<Longrightarrow> a \<in> set xs \<and> b \<in> set xs"
  by (induction xs rule: consec.induct) auto

lemma consec_distinct:
  "distinct xs \<Longrightarrow> (a, b) \<in> consec xs \<Longrightarrow> a \<noteq> last xs \<and> b \<noteq> hd xs"
proof (induction xs rule: consec.induct)
  case (1 x y xs)
  then show ?case by (auto dest: consec_in_set)
qed simp_all

lemma cyc_snoc:
  "xs \<noteq> [] \<Longrightarrow> cyc (xs @ [x]) = insert (x, hd xs) (insert (last xs, x) (consec xs))"
  by (auto simp: cyc_def consec_append)

lemma cyc_Cons:
  "zs \<noteq> [] \<Longrightarrow> cyc (x # zs) = insert (last zs, x) (insert (x, hd zs) (consec zs))"
  using consec_append [of "[x]" zs] by (auto simp: cyc_def)

subsection \<open>Nodes with links\<close>

definition update :: "'p \<Rightarrow> ('n \<Rightarrow> 'n) \<Rightarrow> ('p \<Rightarrow> 'n) \<Rightarrow> 'p \<Rightarrow> 'n" where
  "update p f st = st(p := f (st p))"

lemma update_apply: "update p f st q = (if q = p then f (st p) else st q)"
  by (simp add: update_def)

locale ring_node =
  fixes prev nxt :: "'n \<Rightarrow> 'p option" and set_prev set_nxt :: "'p option \<Rightarrow> 'n \<Rightarrow> 'n"
    and data :: "'n \<Rightarrow> 'd"
  assumes prev_set_prev [simp]: "prev (set_prev p n) = p"
    and prev_set_nxt [simp]: "prev (set_nxt p n) = prev n"
    and nxt_set_nxt [simp]: "nxt (set_nxt p n) = p"
    and nxt_set_prev [simp]: "nxt (set_prev p n) = nxt n"
    and data_set [simp]: "data (set_prev p n) = data n" "data (set_nxt p n) = data n"
begin

text \<open>Append \<open>x\<close> at the end of the queue; \<open>None\<close> when an assertion fails.\<close>

definition link_end :: "'p \<Rightarrow> ('p \<Rightarrow> 'n) \<times> 'p option \<Rightarrow> (('p \<Rightarrow> 'n) \<times> 'p option) option" where
  "link_end x q =
    (case q of (st, head) \<Rightarrow>
     (case head of
       None \<Rightarrow> Some (update x (set_nxt None) (update x (set_prev None) st), Some x)
     | Some h \<Rightarrow>
        (case (prev (st h), nxt (st h)) of
           (None, None) \<Rightarrow>
             Some (update x (set_nxt head) (update x (set_prev head)
               (update h (set_nxt (Some x)) (update h (set_prev (Some x)) st))), head)
         | (Some p, Some _) \<Rightarrow>
             Some (update h (set_prev (Some x)) (update p (set_nxt (Some x))
               (update x (set_nxt head) (update x (set_prev (Some p)) st))), head)
         | _ \<Rightarrow> None)))"

text \<open>Remove \<open>x\<close> from the queue it is in.\<close>

definition unlink :: "'p \<Rightarrow> ('p \<Rightarrow> 'n) \<times> 'p option \<Rightarrow> (('p \<Rightarrow> 'n) \<times> 'p option) option" where
  "unlink x q =
    (case q of (st, head) \<Rightarrow>
     (case (prev (st x), nxt (st x)) of
        (Some p, Some n) \<Rightarrow>
          Some (if p = n then update n (set_prev None) (update n (set_nxt None) st)
                else update n (set_prev (prev (st x))) (update p (set_nxt (nxt (st x))) st),
                if Some x = head then Some n else head)
      | (None, None) \<Rightarrow> Some (st, if Some x = head then None else head)
      | _ \<Rightarrow> None))"

text \<open>The queue with this head holds the nodes \<open>xs\<close>, in this order.\<close>

definition ring :: "('p \<Rightarrow> 'n) \<Rightarrow> 'p option \<Rightarrow> 'p list \<Rightarrow> bool" where
  "ring st head xs \<longleftrightarrow> distinct xs \<and>
    (case xs of
       [] \<Rightarrow> head = None
     | [a] \<Rightarrow> head = Some a \<and> prev (st a) = None \<and> nxt (st a) = None
     | a # b # _ \<Rightarrow> head = Some a \<and> (\<forall>(a, b) \<in> cyc xs. nxt (st a) = Some b \<and> prev (st b) = Some a))"

lemma ring_empty [simp]: "ring st head [] \<longleftrightarrow> head = None"
  by (simp add: ring_def)

lemma ring_single: "ring st head [a] \<longleftrightarrow> head = Some a \<and> prev (st a) = None \<and> nxt (st a) = None"
  by (simp add: ring_def)

lemma ring_many:
  "2 \<le> length xs \<Longrightarrow> ring st head xs \<longleftrightarrow> distinct xs \<and> head = Some (hd xs) \<and>
    (\<forall>(a, b) \<in> cyc xs. nxt (st a) = Some b \<and> prev (st b) = Some a)"
  by (auto simp: ring_def split: list.splits)

lemma ring_distinct: "ring st head xs \<Longrightarrow> distinct xs"
  by (simp add: ring_def)

lemma ring_head: "ring st head xs \<Longrightarrow> head = (if xs = [] then None else Some (hd xs))"
  by (auto simp: ring_def split: list.splits)

lemma ring_cong:
  "ring st head xs \<Longrightarrow> (\<And>x. x \<in> set xs \<Longrightarrow> prev (st' x) = prev (st x) \<and> nxt (st' x) = nxt (st x))
    \<Longrightarrow> ring st' head xs"
proof -
  assume r: "ring st head xs"
    and eq: "\<And>x. x \<in> set xs \<Longrightarrow> prev (st' x) = prev (st x) \<and> nxt (st' x) = nxt (st x)"
  have "a \<in> set xs \<and> b \<in> set xs" if "xs \<noteq> []" "(a, b) \<in> cyc xs" for a b
    using that by (auto simp: cyc_def dest: consec_in_set)
  then show ?thesis
    using r eq by (fastforce simp: ring_def split: list.splits)
qed

text \<open>In a ring, the node after the last is the first.\<close>

lemma ring_nxt:
  assumes "ring st head xs" "2 \<le> length xs" "i < length xs"
  shows "nxt (st (xs ! i)) = Some (xs ! (Suc i mod length xs))"
proof -
  have "(xs ! i, xs ! (Suc i mod length xs)) \<in> cyc xs"
  proof (cases "Suc i < length xs")
    case True
    let ?as = "take (Suc i) xs" and ?bs = "drop (Suc i) xs"
    have "consec xs = consec (?as @ ?bs)" by simp
    also have "\<dots> = insert (last ?as, hd ?bs) (consec ?as \<union> consec ?bs)"
      using True by (intro consec_append) auto
    finally have "(xs ! i, xs ! Suc i) \<in> consec xs"
      using True by (auto simp: take_Suc_conv_app_nth hd_drop_conv_nth)
    then show ?thesis using True by (simp add: cyc_def)
  next
    case False
    then have "i = length xs - 1" "xs \<noteq> []" using assms(2,3) by auto
    then show ?thesis using assms(2) by (simp add: cyc_def last_conv_nth hd_conv_nth)
  qed
  then show ?thesis using assms(1,2) by (auto simp: ring_many)
qed

lemma link_end_ring:
  assumes r: "ring st head xs" and x: "x \<notin> set xs"
  shows "\<exists>st' head'. link_end x (st, head) = Some (st', head') \<and> ring st' head' (xs @ [x]) \<and>
    (\<forall>y. data (st' y) = data (st y)) \<and> (\<forall>y. y \<notin> set (x # xs) \<longrightarrow> st' y = st y)"
proof -
  consider "xs = []" | h where "xs = [h]" | (many) "2 \<le> length xs"
    by (cases xs rule: consec.cases) auto
  then show ?thesis
  proof cases
    case 1
    then show ?thesis
      using r by (simp add: link_end_def ring_single update_apply)
  next
    case (2 h)
    then have "head = Some h" "prev (st h) = None" "nxt (st h) = None" "x \<noteq> h"
      using r x by (auto simp: ring_single)
    then show ?thesis
      by (simp add: 2 link_end_def ring_many cyc_def update_apply)
  next
    case many
    have d: "distinct xs" and head: "head = Some (hd xs)"
      and l: "\<And>a b. (a, b) \<in> cyc xs \<Longrightarrow> nxt (st a) = Some b \<and> prev (st b) = Some a"
      using r many by (auto simp: ring_many)
    have ne: "xs \<noteq> []" using many by auto
    have "(last xs, hd xs) \<in> cyc xs" by (simp add: cyc_def)
    then have ph: "prev (st (hd xs)) = Some (last xs)" using l by blast
    have "2 \<le> length (rotate1 xs)" using many by simp
    obtain n where nh: "nxt (st (hd xs)) = Some n"
      using ring_nxt [OF r many, of 0] many ne by (auto simp: hd_conv_nth)
    let ?st = "update (hd xs) (set_prev (Some x)) (update (last xs) (set_nxt (Some x))
      (update x (set_nxt head) (update x (set_prev (Some (last xs))) st)))"
    have le: "link_end x (st, head) = Some (?st, head)"
      by (simp add: link_end_def head ph nh)
    have "hd xs \<noteq> last xs"
      using many d by (cases xs rule: consec.cases) (auto split: if_splits)
    moreover have "hd xs \<in> set xs" "last xs \<in> set xs" using ne by simp_all
    ultimately have apart: "hd xs \<noteq> last xs" "x \<noteq> hd xs" "x \<noteq> last xs"
      using x by auto
    have nx: "nxt (?st a) = (if a = last xs then Some x else if a = x then head else nxt (st a))"
      and pv: "prev (?st a) =
        (if a = hd xs then Some x else if a = x then Some (last xs) else prev (st a))" for a
      using apart by (auto simp: update_apply)
    have inner: "nxt (?st a) = Some b \<and> prev (?st b) = Some a" if "(a, b) \<in> consec xs" for a b
    proof -
      have "a \<noteq> last xs" "b \<noteq> hd xs" "a \<in> set xs" "b \<in> set xs"
        using consec_distinct [OF d that] consec_in_set [OF that] by auto
      moreover from this have "a \<noteq> x" "b \<noteq> x" using x by auto
      moreover have "nxt (st a) = Some b" "prev (st b) = Some a"
        using l that by (auto simp: cyc_def)
      ultimately show ?thesis by (simp add: nx pv)
    qed
    moreover have "nxt (?st x) = Some (hd xs)" "prev (?st (hd xs)) = Some x"
      "nxt (?st (last xs)) = Some x" "prev (?st x) = Some (last xs)"
      unfolding nx pv using apart by (simp_all add: head)
    ultimately have "\<forall>(a, b) \<in> cyc (xs @ [x]). nxt (?st a) = Some b \<and> prev (?st b) = Some a"
      unfolding cyc_snoc [OF ne] by blast
    then have "ring ?st head (xs @ [x])"
      using many d x ne by (simp add: ring_many head)
    moreover have "data (?st y) = data (st y)" for y by (simp add: update_apply)
    moreover have "?st y = st y" if "y \<notin> set (x # xs)" for y
      using that ne by (auto simp: update_apply)
    ultimately show ?thesis using le by blast
  qed
qed

lemma unlink_ring:
  assumes r: "ring st head xs" and x: "x \<in> set xs"
  shows "\<exists>st' head'. unlink x (st, head) = Some (st', head') \<and> ring st' head' (remove1 x xs) \<and>
    (\<forall>y. data (st' y) = data (st y)) \<and> (\<forall>y. y \<notin> set xs \<longrightarrow> st' y = st y)"
proof -
  consider "xs = [x]" | a b where "xs = [a, b]" | (many) "3 \<le> length xs"
    using x by (cases xs rule: consec.cases; force simp: Suc_le_eq neq_Nil_conv)
  then show ?thesis
  proof cases
    case 1
    then show ?thesis using r by (simp add: ring_single unlink_def)
  next
    case (2 a b)
    then have "a \<noteq> b" "head = Some a" "prev (st a) = Some b" "nxt (st a) = Some b"
      "prev (st b) = Some a" "nxt (st b) = Some a"
      using r by (auto simp: ring_many cyc_def)
    then show ?thesis
      using x 2 by (auto simp: unlink_def ring_single update_apply)
  next
    case many
    have d: "distinct xs" and head: "head = Some (hd xs)"
      and l: "\<And>a b. (a, b) \<in> cyc xs \<Longrightarrow> nxt (st a) = Some b \<and> prev (st b) = Some a"
      using r many by (auto simp: ring_many)
    obtain as bs where xs: "xs = as @ x # bs" by (meson split_list x)
    let ?zs = "bs @ as"
    have rm: "remove1 x xs = as @ bs" using d by (simp add: xs remove1_append)
    have len: "2 \<le> length ?zs" using many by (simp add: xs)
    then have ne: "?zs \<noteq> []" by auto
    have dz: "distinct ?zs" "x \<notin> set ?zs" using d by (auto simp: xs)
    have "cyc xs = cyc (x # ?zs)"
      using cyc_rotate [of as "x # bs"] by (cases "as = []") (simp_all add: xs)
    then have c: "cyc xs = insert (last ?zs, x) (insert (x, hd ?zs) (consec ?zs))"
      using cyc_Cons [OF ne] by simp
    have px: "prev (st x) = Some (last ?zs)" and nx: "nxt (st x) = Some (hd ?zs)"
      using l c by auto
    have apart: "last ?zs \<noteq> hd ?zs"
      using len dz(1) by (cases ?zs rule: consec.cases) (auto split: if_splits)
    let ?st = "update (hd ?zs) (set_prev (Some (last ?zs))) (update (last ?zs) (set_nxt (Some (hd ?zs))) st)"
    have ul: "unlink x (st, head) = Some (?st, if Some x = head then Some (hd ?zs) else head)"
      using apart by (simp add: unlink_def px nx)
    have inner: "nxt (?st a) = Some b \<and> prev (?st b) = Some a" if "(a, b) \<in> consec ?zs" for a b
    proof -
      have "a \<noteq> last ?zs" "b \<noteq> hd ?zs" using consec_distinct [OF dz(1) that] by auto
      moreover have "nxt (st a) = Some b" "prev (st b) = Some a" using l that c by auto
      ultimately show ?thesis using apart by (auto simp: update_apply)
    qed
    have outer: "nxt (?st (last ?zs)) = Some (hd ?zs) \<and> prev (?st (hd ?zs)) = Some (last ?zs)"
      using apart by (simp add: update_apply)
    have "cyc (as @ bs) = cyc ?zs"
      by (cases "as = [] \<or> bs = []") (auto simp: cyc_rotate)
    then have cz: "\<forall>(a, b) \<in> cyc (as @ bs). nxt (?st a) = Some b \<and> prev (?st b) = Some a"
      using inner outer by (auto simp: cyc_def)
    have hd: "(if Some x = head then Some (hd ?zs) else head) = Some (hd (as @ bs))"
    proof (cases as)
      case Nil
      then show ?thesis by (simp add: head xs)
    next
      case (Cons a as')
      then have "x \<noteq> a" "hd xs = a" "hd (as @ bs) = a" using d by (auto simp: xs)
      then show ?thesis by (simp only: head option.inject if_False)
    qed
    have "distinct (as @ bs)" "2 \<le> length (as @ bs)" using d len by (auto simp: xs)
    then have "ring ?st (if Some x = head then Some (hd ?zs) else head) (remove1 x xs)"
      unfolding rm hd using cz by (simp add: ring_many)
    moreover have "data (?st y) = data (st y)" for y by (simp add: update_apply)
    moreover have "?st y = st y" if "y \<notin> set xs" for y
    proof -
      have "hd ?zs \<in> set xs" "last ?zs \<in> set xs"
        using hd_in_set [OF ne] last_in_set [OF ne] by (auto simp: xs)
      with that show ?thesis by (auto simp: update_apply)
    qed
    ultimately show ?thesis using ul by blast
  qed
qed

end

end
