(* ===== verification/Scheduler.thy ===== *)
theory Scheduler
  imports Coroutine Ring
begin

text \<open>
  The tasks and the scheduler of the runtime (\<open>lyric_runtime/task.h\<close>, \<open>task.cpp\<close>,
  \<open>system_scheduler.h\<close>, \<open>system_scheduler.cpp\<close>).

  Tasks, waiters and async handles are mutable objects shared by pointers, so each kind has a
  store from addresses to objects in the state, and \<open>new\<close> takes the next address. The scheduler
  keeps three queues of tasks (ready, waiting, done) and one of waiters as circular doubly linked
  lists through the objects. A null pointer is \<open>None\<close>; a pointer that the code asserts not to be
  null is an address. libuv is outside of the repository: a handle is its identity, and what the
  code asks of libuv is recorded in \<open>m_uv\<close>, the calls in the order in which they happen.

  This theory has the operations; \<open>SchedulerLaws\<close> relates them to queues that are lists.
\<close>

type_synonym task_ptr = nat
type_synonym waiter_ptr = nat
type_synonym promise_ptr = nat
type_synonym async_ptr = nat
type_synonym uv_handle = nat

datatype uv_call = UvAsyncSend uv_handle | UvClose uv_handle | UvFsReqCleanup uv_handle

subsection \<open>Tasks\<close>

datatype task_state = TaskInitial | TaskWaiting | TaskReady | TaskRunning | TaskDone

record task =
  t_isMainTask :: bool
  t_state :: task_state
  t_coro :: stackful_coroutine
  t_promise :: "promise_ptr option"
  t_monitor :: "uv_handle option"
  t_prev :: "task_ptr option"
  t_next :: "task_ptr option"

definition new_task :: "bool \<Rightarrow> task" where
  "new_task isMainTask =
     \<lparr>t_isMainTask = isMainTask, t_state = TaskInitial, t_coro = new_coroutine 8192,
      t_promise = None, t_monitor = None, t_prev = None, t_next = None\<rparr>"

definition task_attach ::
  "task_ptr \<Rightarrow> (task_ptr \<Rightarrow> task) \<times> task_ptr option \<Rightarrow> ((task_ptr \<Rightarrow> task) \<times> task_ptr option) option" where
  "task_attach this q =
    (case q of (st, head) \<Rightarrow>
     (case head of
       None \<Rightarrow>
         let st = st(this := (st this)\<lparr>t_prev := None\<rparr>);
             st = st(this := (st this)\<lparr>t_next := None\<rparr>)
         in Some (st, Some this)
     | Some h \<Rightarrow>
         (case (t_prev (st h), t_next (st h)) of
            (None, None) \<Rightarrow>
              let st = st(h := (st h)\<lparr>t_prev := Some this\<rparr>);
                  st = st(h := (st h)\<lparr>t_next := Some this\<rparr>);
                  st = st(this := (st this)\<lparr>t_prev := head\<rparr>);
                  st = st(this := (st this)\<lparr>t_next := head\<rparr>)
              in Some (st, head)
          | (Some prev, Some next) \<Rightarrow>
              let st = st(this := (st this)\<lparr>t_prev := Some prev\<rparr>);
                  st = st(this := (st this)\<lparr>t_next := head\<rparr>);
                  st = st(prev := (st prev)\<lparr>t_next := Some this\<rparr>);
                  st = st(h := (st h)\<lparr>t_prev := Some this\<rparr>)
              in Some (st, head)
          | _ \<Rightarrow> None)))"

definition task_detach ::
  "task_ptr \<Rightarrow> (task_ptr \<Rightarrow> task) \<times> task_ptr option \<Rightarrow> ((task_ptr \<Rightarrow> task) \<times> task_ptr option) option" where
  "task_detach this q =
    (case q of (st, head) \<Rightarrow>
     (case (t_prev (st this), t_next (st this)) of
        (Some prev, Some next) \<Rightarrow>
          let st' = (if prev = next
                then let st = st(next := (st next)\<lparr>t_next := None\<rparr>)
                     in st(next := (st next)\<lparr>t_prev := None\<rparr>)
                else let n = t_next (st this); p = t_prev (st this);
                         st = st(prev := (st prev)\<lparr>t_next := n\<rparr>)
                     in st(next := (st next)\<lparr>t_prev := p\<rparr>))
          in Some (st', if Some this = head then Some next else head)
      | (None, None) \<Rightarrow> Some (st, if Some this = head then None else head)
      | _ \<Rightarrow> None))"

subsection \<open>Async handles and waiters\<close>

record async_handle =
  m_async :: "uv_handle option"
  m_pending :: bool

definition new_async_handle :: "uv_handle \<Rightarrow> async_handle" where
  "new_async_handle async = \<lparr>m_async = Some async, m_pending = True\<rparr>"

datatype waiter_type = WaiterInvalid | WaiterAsync | WaiterHandle | WaiterReq

datatype waitee = AsyncWaitee async_ptr | HandleWaitee uv_handle | ReqWaitee uv_handle

record waiter =
  w_prev :: "waiter_ptr option"
  w_next :: "waiter_ptr option"
  w_type :: waiter_type
  w_waitee :: waitee
  w_task :: "task_ptr option"
  w_promise :: "promise_ptr option"

definition new_waiter :: "waitee \<Rightarrow> promise_ptr \<Rightarrow> waiter" where
  "new_waiter x promise =
     \<lparr>w_prev = None, w_next = None,
      w_type = (case x of AsyncWaitee _ \<Rightarrow> WaiterAsync | HandleWaitee _ \<Rightarrow> WaiterHandle
        | ReqWaitee _ \<Rightarrow> WaiterReq),
      w_waitee = x, w_task = None, w_promise = Some promise\<rparr>"

subsection \<open>The scheduler\<close>

record system_scheduler =
  m_readyQueue :: "task_ptr option"
  m_waitQueue :: "task_ptr option"
  m_doneQueue :: "task_ptr option"
  m_currentTask :: "task_ptr option"
  m_mainTask :: task_ptr
  m_waiters :: "waiter_ptr option"
  m_tasks :: "task_ptr \<Rightarrow> task"
  m_nextTask :: task_ptr
  m_waiterStore :: "waiter_ptr \<Rightarrow> waiter"
  m_nextWaiter :: waiter_ptr
  m_asyncs :: "async_ptr \<Rightarrow> async_handle"
  m_nextAsync :: async_ptr
  m_uv :: "uv_call list"

abbreviation uv_call :: "uv_call \<Rightarrow> system_scheduler \<Rightarrow> system_scheduler" where
  "uv_call c s \<equiv> s\<lparr>m_uv := m_uv s @ [c]\<rparr>"

abbreviation modify_task :: "task_ptr \<Rightarrow> (task \<Rightarrow> task) \<Rightarrow> system_scheduler \<Rightarrow> system_scheduler" where
  "modify_task t f s \<equiv> s\<lparr>m_tasks := (m_tasks s)(t := f (m_tasks s t))\<rparr>"

abbreviation modify_waiter :: "waiter_ptr \<Rightarrow> (waiter \<Rightarrow> waiter) \<Rightarrow> system_scheduler \<Rightarrow> system_scheduler" where
  "modify_waiter w f s \<equiv> s\<lparr>m_waiterStore := (m_waiterStore s)(w := f (m_waiterStore s w))\<rparr>"

definition getState :: "task_ptr \<Rightarrow> system_scheduler \<Rightarrow> task_state" where
  "getState t s = t_state (m_tasks s t)"

definition setState :: "task_ptr \<Rightarrow> task_state \<Rightarrow> system_scheduler \<Rightarrow> system_scheduler" where
  "setState t state s = modify_task t (t_state_update (\<lambda>_. state)) s"

definition setMonitor :: "task_ptr \<Rightarrow> uv_handle \<Rightarrow> system_scheduler \<Rightarrow> failure + system_scheduler" where
  "setMonitor t monitor s =
    (if t_monitor (m_tasks s t) \<noteq> None then Inl AssertionFailed
     else Inr (modify_task t (t_monitor_update (\<lambda>_. Some monitor)) s))"

definition signalMonitor :: "task_ptr \<Rightarrow> system_scheduler \<Rightarrow> system_scheduler" where
  "signalMonitor t s =
    (case t_monitor (m_tasks s t) of
       None \<Rightarrow> s
     | Some h \<Rightarrow> modify_task t (t_monitor_update (\<lambda>_. None)) (uv_call (UvAsyncSend h) s))"

definition isPending :: "async_ptr \<Rightarrow> system_scheduler \<Rightarrow> bool" where
  "isPending a s = m_pending (m_asyncs s a)"

definition sendSignal :: "async_ptr \<Rightarrow> system_scheduler \<Rightarrow> bool \<times> system_scheduler" where
  "sendSignal a s =
    (case m_async (m_asyncs s a) of
       Some h \<Rightarrow>
         if m_pending (m_asyncs s a)
         then let s = uv_call (UvAsyncSend h) s
              in (True, s\<lparr>m_asyncs := (m_asyncs s)(a := (m_asyncs s a)\<lparr>m_pending := False\<rparr>)\<rparr>)
         else (False, s)
     | None \<Rightarrow> (False, s))"

definition close_async :: "async_ptr \<Rightarrow> system_scheduler \<Rightarrow> system_scheduler" where
  "close_async a s =
    (case m_async (m_asyncs s a) of
       Some h \<Rightarrow>
         let s = uv_call (UvClose h) s
         in s\<lparr>m_asyncs := (m_asyncs s)(a := (m_asyncs s a)\<lparr>m_async := None, m_pending := False\<rparr>)\<rparr>
     | None \<Rightarrow> s)"

text \<open>Attach to and detach from the queue that a head pointer of the scheduler owns.\<close>

datatype task_queue = ReadyQueue | WaitQueue | DoneQueue

fun queue_head :: "task_queue \<Rightarrow> system_scheduler \<Rightarrow> task_ptr option" where
  "queue_head ReadyQueue s = m_readyQueue s"
| "queue_head WaitQueue s = m_waitQueue s"
| "queue_head DoneQueue s = m_doneQueue s"

fun set_queue_head :: "task_queue \<Rightarrow> task_ptr option \<Rightarrow> system_scheduler \<Rightarrow> system_scheduler" where
  "set_queue_head ReadyQueue h s = s\<lparr>m_readyQueue := h\<rparr>"
| "set_queue_head WaitQueue h s = s\<lparr>m_waitQueue := h\<rparr>"
| "set_queue_head DoneQueue h s = s\<lparr>m_doneQueue := h\<rparr>"

definition attach :: "task_ptr \<Rightarrow> task_queue \<Rightarrow> system_scheduler \<Rightarrow> failure + system_scheduler" where
  "attach t q s =
    or_else_fail AssertionFailed
      (map_option (\<lambda>(st, h). set_queue_head q h (s\<lparr>m_tasks := st\<rparr>))
        (task_attach t (m_tasks s, queue_head q s)))"

definition detach :: "task_ptr \<Rightarrow> task_queue \<Rightarrow> system_scheduler \<Rightarrow> failure + system_scheduler" where
  "detach t q s =
    or_else_fail AssertionFailed
      (map_option (\<lambda>(st, h). set_queue_head q h (s\<lparr>m_tasks := st\<rparr>))
        (task_detach t (m_tasks s, queue_head q s)))"

definition empty_scheduler :: system_scheduler where
  "empty_scheduler =
     \<lparr>m_readyQueue = None, m_waitQueue = None, m_doneQueue = None, m_currentTask = None,
      m_mainTask = 0, m_waiters = None, m_tasks = (\<lambda>_. new_task False), m_nextTask = 0,
      m_waiterStore = (\<lambda>_. new_waiter (HandleWaitee 0) 0), m_nextWaiter = 0,
      m_asyncs = (\<lambda>_. \<lparr>m_async = None, m_pending = False\<rparr>), m_nextAsync = 0, m_uv = []\<rparr>"

text \<open>\<open>new Task\<close>, put in \<open>Waiting\<close> state at the end of the wait queue.\<close>

definition add_waiting_task :: "bool \<Rightarrow> system_scheduler \<Rightarrow> failure + task_ptr \<times> system_scheduler" where
  "add_waiting_task isMainTask s =
    (let t = m_nextTask s;
         s = s\<lparr>m_tasks := (m_tasks s)(t := new_task isMainTask), m_nextTask := t + 1\<rparr>;
         s = setState t TaskWaiting s
     in then_do (attach t WaitQueue s) (\<lambda>s. Inr (t, s)))"

definition new_scheduler :: "failure + system_scheduler" where
  "new_scheduler = then_do (add_waiting_task True empty_scheduler) (\<lambda>(t, s). Inr (s\<lparr>m_mainTask := t\<rparr>))"

definition mainCoro :: "system_scheduler \<Rightarrow> stackful_coroutine" where
  "mainCoro s = t_coro (m_tasks s (m_mainTask s))"

definition currentCoro :: "system_scheduler \<Rightarrow> stackful_coroutine option" where
  "currentCoro s = map_option (\<lambda>t. t_coro (m_tasks s t)) (m_currentTask s)"

definition selectNextReady :: "system_scheduler \<Rightarrow> task_ptr option \<times> system_scheduler" where
  "selectNextReady s =
    (case m_currentTask s of
       None \<Rightarrow>
         let s = s\<lparr>m_currentTask := m_readyQueue s\<rparr>;
             s = (case m_currentTask s of None \<Rightarrow> s | Some t \<Rightarrow> setState t TaskRunning s)
         in (m_currentTask s, s)
     | Some c \<Rightarrow>
        (case t_next (m_tasks s c) of
           None \<Rightarrow> (Some c, s)
         | Some _ \<Rightarrow>
             let s = setState c TaskReady s
             in (case t_next (m_tasks s c) of
                   None \<Rightarrow> (Some c, s)
                 | Some selected \<Rightarrow>
                     let s = setState selected TaskRunning s
                     in (Some selected, s\<lparr>m_currentTask := Some selected\<rparr>))))"

definition createTask :: "system_scheduler \<Rightarrow> failure + task_ptr \<times> system_scheduler" where
  "createTask s = add_waiting_task False s"

definition suspendTask :: "task_ptr \<Rightarrow> system_scheduler \<Rightarrow> failure + system_scheduler" where
  "suspendTask t s =
    (if getState t s = TaskWaiting then Inr s
     else if getState t s = TaskReady \<or> getState t s = TaskRunning then
       then_do (detach t ReadyQueue s) (\<lambda>s.
         let s = (if Some t = m_currentTask s then s\<lparr>m_currentTask := None\<rparr> else s);
             s = setState t TaskWaiting s
         in attach t WaitQueue s)
     else Inl LoggedFatal)"

definition resumeTask :: "task_ptr \<Rightarrow> system_scheduler \<Rightarrow> failure + system_scheduler" where
  "resumeTask t s =
    (if getState t s = TaskReady \<or> getState t s = TaskRunning then Inr s
     else if getState t s = TaskWaiting then
       then_do (detach t WaitQueue s) (\<lambda>s. attach t ReadyQueue (setState t TaskReady s))
     else Inl LoggedFatal)"

definition terminateTask :: "task_ptr \<Rightarrow> system_scheduler \<Rightarrow> failure + system_scheduler" where
  "terminateTask t s =
    (if getState t s = TaskInitial then Inr s
     else
       then_do
         (case getState t s of
            TaskRunning \<Rightarrow> detach t ReadyQueue (s\<lparr>m_currentTask := None\<rparr>)
          | TaskReady \<Rightarrow> detach t ReadyQueue s
          | TaskWaiting \<Rightarrow> detach t WaitQueue s
          | _ \<Rightarrow> Inl LoggedFatal)
         (\<lambda>s. then_do (attach t DoneQueue (setState t TaskDone s)) (\<lambda>s. Inr (signalMonitor t s))))"

text \<open>After \<open>delete task\<close> the address is not in any queue; the store keeps the object, which the
  code no longer reaches.\<close>

definition destroyTask :: "task_ptr \<Rightarrow> system_scheduler \<Rightarrow> failure + system_scheduler" where
  "destroyTask t s =
    (if getState t s \<noteq> TaskDone then Inl AssertionFailed else detach t DoneQueue s)"

subsection \<open>Waiters of the scheduler\<close>

definition assignTask :: "waiter_ptr \<Rightarrow> task_ptr option \<Rightarrow> system_scheduler \<Rightarrow> failure + system_scheduler" where
  "assignTask w task s =
    (if task = None \<or> w_task (m_waiterStore s w) \<noteq> None then Inl AssertionFailed
     else Inr (modify_waiter w (w_task_update (\<lambda>_. task)) s))"

definition await_waiter :: "waiter_ptr \<Rightarrow> system_scheduler \<Rightarrow> failure + system_scheduler" where
  "await_waiter w s =
    (let current = m_currentTask s
     in then_do (assignTask w current s) (\<lambda>s.
          case current of None \<Rightarrow> Inl AssertionFailed | Some c \<Rightarrow> suspendTask c s))"

definition attachWaiter :: "waiter_ptr \<Rightarrow> system_scheduler \<Rightarrow> failure + system_scheduler" where
  "attachWaiter w s =
    (if w_prev (m_waiterStore s w) \<noteq> None \<or> w_next (m_waiterStore s w) \<noteq> None then Inl AssertionFailed
     else
     (case m_waiters s of
        None \<Rightarrow>
          let s = modify_waiter w (w_prev_update (\<lambda>_. None)) s;
              s = modify_waiter w (w_next_update (\<lambda>_. None)) s
          in Inr (s\<lparr>m_waiters := Some w\<rparr>)
      | Some h \<Rightarrow>
          (case (w_prev (m_waiterStore s h), w_next (m_waiterStore s h)) of
             (None, None) \<Rightarrow>
               let s = modify_waiter h (w_prev_update (\<lambda>_. Some w)) s;
                   s = modify_waiter h (w_next_update (\<lambda>_. Some w)) s;
                   s = modify_waiter w (w_prev_update (\<lambda>_. Some h)) s
               in Inr (modify_waiter w (w_next_update (\<lambda>_. Some h)) s)
           | (Some prev, Some next) \<Rightarrow>
               let s = modify_waiter w (w_prev_update (\<lambda>_. Some prev)) s;
                   s = modify_waiter w (w_next_update (\<lambda>_. Some h)) s;
                   s = modify_waiter prev (w_next_update (\<lambda>_. Some w)) s
               in Inr (modify_waiter h (w_prev_update (\<lambda>_. Some w)) s)
           | _ \<Rightarrow> Inl AssertionFailed)))"

text \<open>\<open>~Waiter\<close>: release what the waiter waits for. An exception that leaves a destructor ends
  the process like an assertion.\<close>

definition release_waiter :: "waiter_ptr \<Rightarrow> system_scheduler \<Rightarrow> failure + system_scheduler" where
  "release_waiter w s =
    (case (w_type (m_waiterStore s w), w_waitee (m_waiterStore s w)) of
       (WaiterAsync, AsyncWaitee a) \<Rightarrow> Inr (close_async a s)
     | (WaiterHandle, HandleWaitee h) \<Rightarrow> Inr (uv_call (UvClose h) s)
     | (WaiterReq, ReqWaitee r) \<Rightarrow> Inr (uv_call (UvFsReqCleanup r) s)
     | _ \<Rightarrow> Inl AssertionFailed)"

definition destroyWaiter :: "waiter_ptr \<Rightarrow> system_scheduler \<Rightarrow> failure + system_scheduler" where
  "destroyWaiter w s =
    (case (w_prev (m_waiterStore s w), w_next (m_waiterStore s w)) of
       (Some prev, Some next) \<Rightarrow>
         let s' = (if prev = next
               then let s = modify_waiter next (w_next_update (\<lambda>_. None)) s
                    in modify_waiter next (w_prev_update (\<lambda>_. None)) s
               else let n = w_next (m_waiterStore s w); p = w_prev (m_waiterStore s w);
                        s = modify_waiter prev (w_next_update (\<lambda>_. n)) s
                    in modify_waiter next (w_prev_update (\<lambda>_. p)) s)
         in release_waiter w (if Some w = m_waiters s' then s'\<lparr>m_waiters := Some next\<rparr> else s')
     | (None, None) \<Rightarrow>
         release_waiter w (if Some w = m_waiters s then s\<lparr>m_waiters := None\<rparr> else s)
     | _ \<Rightarrow> Inl AssertionFailed)"

definition firstWaiter :: "system_scheduler \<Rightarrow> waiter_ptr option" where
  "firstWaiter s = m_waiters s"

definition lastWaiter :: "system_scheduler \<Rightarrow> waiter_ptr option" where
  "lastWaiter s = (case m_waiters s of None \<Rightarrow> None | Some h \<Rightarrow> w_prev (m_waiterStore s h))"

text \<open>\<open>new Waiter\<close>, attached to the end of the waiters: what every \<open>register\<close> function does after it
  has made its promise pending.\<close>

definition add_waiter :: "waitee \<Rightarrow> promise_ptr \<Rightarrow> system_scheduler \<Rightarrow> failure + waiter_ptr \<times> system_scheduler" where
  "add_waiter x promise s =
    (let w = m_nextWaiter s;
         s = s\<lparr>m_waiterStore := (m_waiterStore s)(w := new_waiter x promise), m_nextWaiter := w + 1\<rparr>
     in then_do (attachWaiter w s) (\<lambda>s. Inr (w, s)))"

subsection \<open>Polling and the destructor\<close>

text \<open>\<open>uv_run\<close> is the event loop of libuv: it runs the callbacks of the events that are due, here
  any change of the scheduler's state.\<close>

definition blockingPoll :: "(system_scheduler \<Rightarrow> system_scheduler) \<Rightarrow> system_scheduler \<Rightarrow> (failure + bool) \<times> system_scheduler" where
  "blockingPoll uv_run s =
    (if m_readyQueue s \<noteq> None then (Inr False, s)
     else if m_waitQueue s = None then (Inl (ThrownStatus kRuntimeInvariant), s)
     else (Inr True, uv_run s))"

text \<open>\<open>while (head) operation(head)\<close>: \<open>None\<close> when the loop does not end.\<close>

partial_function (option) drain ::
  "(system_scheduler \<Rightarrow> nat option) \<Rightarrow> (nat \<Rightarrow> system_scheduler \<Rightarrow> failure + system_scheduler)
    \<Rightarrow> system_scheduler \<Rightarrow> (failure + system_scheduler) option" where
  "drain head operation s =
    (case head s of
       None \<Rightarrow> Some (Inr s)
     | Some x \<Rightarrow> (case operation x s of Inl f \<Rightarrow> Some (Inl f) | Inr s' \<Rightarrow> drain head operation s'))"

definition after :: "(failure + 'a) option \<Rightarrow> ('a \<Rightarrow> (failure + 'b) option) \<Rightarrow> (failure + 'b) option" where
  "after r f = (case r of None \<Rightarrow> None | Some (Inl e) \<Rightarrow> Some (Inl e) | Some (Inr x) \<Rightarrow> f x)"

definition destroy_scheduler :: "system_scheduler \<Rightarrow> (failure + system_scheduler) option" where
  "destroy_scheduler s =
    after (drain m_readyQueue terminateTask s) (\<lambda>s.
    after (drain m_waitQueue terminateTask s) (\<lambda>s.
    after (drain m_doneQueue destroyTask s) (\<lambda>s.
    after (drain m_waiters destroyWaiter s) (\<lambda>s.
      if m_readyQueue s = None \<and> m_waitQueue s = None \<and> m_waiters s = None then Some (Inr s)
      else Some (Inl AssertionFailed)))))"

end
