(* ===== verification/SchedulerLaws.thy ===== *)
theory SchedulerLaws
  imports Scheduler
begin

text \<open>
  The scheduler refines queues that are lists. \<open>tasks\<close> and \<open>waiters\<close> interpret the linked
  queues of \<open>Ring\<close> on the objects of the scheduler; \<open>sched_repr\<close> relates its state to one that
  holds the ready, waiting and done tasks and the waiters as lists, and each operation to the
  operation on tasks to the operation on the lists. \<open>SchedulerRefinement\<close> has the other operations
  and the properties.
\<close>

subsection \<open>The linked queues\<close>

definition task_data :: "task \<Rightarrow> task" where
  "task_data n = n\<lparr>t_prev := None, t_next := None\<rparr>"

definition waiter_data :: "waiter \<Rightarrow> waiter" where
  "waiter_data n = n\<lparr>w_prev := None, w_next := None\<rparr>"

interpretation tasks: ring_node t_prev t_next "\<lambda>p n. n\<lparr>t_prev := p\<rparr>" "\<lambda>p n. n\<lparr>t_next := p\<rparr>" task_data
  by unfold_locales (simp_all add: task_data_def)

interpretation waiters: ring_node w_prev w_next "\<lambda>p n. n\<lparr>w_prev := p\<rparr>" "\<lambda>p n. n\<lparr>w_next := p\<rparr>" waiter_data
  by unfold_locales (simp_all add: waiter_data_def)

lemma task_attach_link: "task_attach t q = tasks.link_end t q"
  unfolding task_attach_def tasks.link_end_def update_def
  by (auto simp: Let_def split: prod.splits option.splits)

lemma task_detach_unlink: "task_detach t q = tasks.unlink t q"
  unfolding task_detach_def tasks.unlink_def update_def
  by (auto simp: Let_def split: prod.splits option.splits)

lemma task_data_eq:
  "task_data n = task_data n' \<longleftrightarrow>
    t_isMainTask n = t_isMainTask n' \<and> t_state n = t_state n' \<and> t_coro n = t_coro n' \<and>
    t_promise n = t_promise n' \<and> t_monitor n = t_monitor n'"
  by (cases n; cases n') (simp add: task_data_def)

lemma waiter_data_eq:
  "waiter_data n = waiter_data n' \<longleftrightarrow>
    w_type n = w_type n' \<and> w_waitee n = w_waitee n' \<and> w_task n = w_task n' \<and> w_promise n = w_promise n'"
  by (cases n; cases n') (simp add: waiter_data_def)

lemma set_queue_head_simps [simp]:
  "queue_head q (set_queue_head r h s) = (if q = r then h else queue_head q s)"
  "m_tasks (set_queue_head q h s) = m_tasks s" "m_currentTask (set_queue_head q h s) = m_currentTask s"
  "m_mainTask (set_queue_head q h s) = m_mainTask s" "m_nextTask (set_queue_head q h s) = m_nextTask s"
  "m_waiters (set_queue_head q h s) = m_waiters s"
  "m_waiterStore (set_queue_head q h s) = m_waiterStore s"
  "m_nextWaiter (set_queue_head q h s) = m_nextWaiter s"
  "m_asyncs (set_queue_head q h s) = m_asyncs s" "m_uv (set_queue_head q h s) = m_uv s"
  by (cases q; cases r; simp)+

lemma queue_head_update [simp]:
  "queue_head q (s\<lparr>m_tasks := x\<rparr>) = queue_head q s"
  "queue_head q (s\<lparr>m_currentTask := c\<rparr>) = queue_head q s"
  "queue_head q (s\<lparr>m_uv := u\<rparr>) = queue_head q s"
  "queue_head q (s\<lparr>m_nextTask := n\<rparr>) = queue_head q s"
  "queue_head q (setState t st s) = queue_head q s"
  by (cases q; simp add: setState_def)+

lemma set_queue_head_commute [simp]:
  "(set_queue_head q h s)\<lparr>m_tasks := x\<rparr> = set_queue_head q h (s\<lparr>m_tasks := x\<rparr>)"
  "(set_queue_head q h s)\<lparr>m_currentTask := c\<rparr> = set_queue_head q h (s\<lparr>m_currentTask := c\<rparr>)"
  by (cases q; simp)+

abbreviation in_queue :: "task_queue \<Rightarrow> system_scheduler \<Rightarrow> task_ptr list \<Rightarrow> bool" where
  "in_queue q s xs \<equiv> tasks.ring (m_tasks s) (queue_head q s) xs"

lemma attach_ring:
  assumes "in_queue q s xs" "t \<notin> set xs"
  shows "\<exists>st h. attach t q s = Inr (set_queue_head q h (s\<lparr>m_tasks := st\<rparr>)) \<and>
    tasks.ring st h (xs @ [t]) \<and> (\<forall>y. task_data (st y) = task_data (m_tasks s y)) \<and>
    (\<forall>y. y \<notin> set (t # xs) \<longrightarrow> st y = m_tasks s y)"
proof -
  obtain st h where r: "tasks.link_end t (m_tasks s, queue_head q s) = Some (st, h)"
    "tasks.ring st h (xs @ [t])" "\<forall>y. task_data (st y) = task_data (m_tasks s y)"
    "\<forall>y. y \<notin> set (t # xs) \<longrightarrow> st y = m_tasks s y"
    using tasks.link_end_ring [OF assms] by blast
  moreover have "attach t q s = Inr (set_queue_head q h (s\<lparr>m_tasks := st\<rparr>))"
    by (simp add: attach_def task_attach_link r(1))
  ultimately show ?thesis by blast
qed

lemma detach_ring:
  assumes "in_queue q s xs" "t \<in> set xs"
  shows "\<exists>st h. detach t q s = Inr (set_queue_head q h (s\<lparr>m_tasks := st\<rparr>)) \<and>
    tasks.ring st h (remove1 t xs) \<and> (\<forall>y. task_data (st y) = task_data (m_tasks s y)) \<and>
    (\<forall>y. y \<notin> set xs \<longrightarrow> st y = m_tasks s y)"
proof -
  obtain st h where r: "tasks.unlink t (m_tasks s, queue_head q s) = Some (st, h)"
    "tasks.ring st h (remove1 t xs)" "\<forall>y. task_data (st y) = task_data (m_tasks s y)"
    "\<forall>y. y \<notin> set xs \<longrightarrow> st y = m_tasks s y"
    using tasks.unlink_ring [OF assms] by blast
  moreover have "detach t q s = Inr (set_queue_head q h (s\<lparr>m_tasks := st\<rparr>))"
    by (simp add: detach_def task_detach_unlink r(1))
  ultimately show ?thesis by blast
qed

text \<open>Take a task out of one queue, set its state and put it into another.\<close>

definition set_state_of :: "task_ptr \<Rightarrow> task_state \<Rightarrow> (task_ptr \<Rightarrow> task) \<Rightarrow> task_ptr \<Rightarrow> task" where
  "set_state_of t state st y = (if y = t then (st y)\<lparr>t_state := state\<rparr> else st y)"

lemma task_data_set_state: "task_data (n\<lparr>t_state := x\<rparr>) = (task_data n)\<lparr>t_state := x\<rparr>"
  by (simp add: task_data_def)

lemma move_task:
  assumes q: "in_queue q s xs" "t \<in> set xs" and r: "in_queue r s ys" "set xs \<inter> set ys = {}"
    and "q \<noteq> r"
  shows "\<exists>st h k.
    then_do (detach t q s) (\<lambda>s. attach t r (setState t state (m_currentTask_update f s)))
      = Inr (set_queue_head r k (set_queue_head q h (s\<lparr>m_currentTask := f (m_currentTask s), m_tasks := st\<rparr>))) \<and>
    tasks.ring st h (remove1 t xs) \<and> tasks.ring st k (ys @ [t]) \<and>
    (\<forall>y. task_data (st y) = task_data (set_state_of t state (m_tasks s) y)) \<and>
    (\<forall>y. y \<notin> set xs \<union> set ys \<longrightarrow> st y = m_tasks s y)"
proof -
  obtain st h where d: "detach t q s = Inr (set_queue_head q h (s\<lparr>m_tasks := st\<rparr>))"
    "tasks.ring st h (remove1 t xs)" "\<forall>y. task_data (st y) = task_data (m_tasks s y)"
    "\<forall>y. y \<notin> set xs \<longrightarrow> st y = m_tasks s y"
    using detach_ring [OF q] by blast
  let ?st = "set_state_of t state st"
  let ?s = "set_queue_head q h (s\<lparr>m_currentTask := f (m_currentTask s), m_tasks := ?st\<rparr>)"
  have fn: "st(t := (st t)\<lparr>t_state := state\<rparr>) = ?st" by (auto simp: set_state_of_def)
  have mid: "setState t state (m_currentTask_update f (set_queue_head q h (s\<lparr>m_tasks := st\<rparr>))) = ?s"
    by (cases q) (simp_all add: setState_def fn [symmetric])
  have "tasks.ring ?st (queue_head r s) ys"
  proof (rule tasks.ring_cong [OF r(1)])
    fix y assume "y \<in> set ys"
    then have "st y = m_tasks s y" using d(4) r(2) by blast
    then show "t_prev (?st y) = t_prev (m_tasks s y) \<and> t_next (?st y) = t_next (m_tasks s y)"
      by (auto simp: set_state_of_def)
  qed
  then have "in_queue r ?s ys" using \<open>q \<noteq> r\<close> by simp
  moreover have "t \<notin> set ys" using q(2) r(2) by auto
  ultimately obtain st' k where a: "attach t r ?s = Inr (set_queue_head r k (?s\<lparr>m_tasks := st'\<rparr>))"
    "tasks.ring st' k (ys @ [t])" "\<forall>y. task_data (st' y) = task_data (m_tasks ?s y)"
    "\<forall>y. y \<notin> set (t # ys) \<longrightarrow> st' y = m_tasks ?s y"
    using attach_ring by blast
  have "t \<notin> set (remove1 t xs)" using tasks.ring_distinct [OF q(1)] by simp
  then have out: "st' y = st y" if "y \<in> set (remove1 t xs)" for y
  proof -
    have "y \<noteq> t" "y \<in> set xs"
      using that \<open>t \<notin> set (remove1 t xs)\<close> set_remove1_subset [of t xs] by auto
    moreover from this have "y \<notin> set (t # ys)" using r(2) by auto
    ultimately show ?thesis using a(4) by (simp add: set_state_of_def)
  qed
  have "tasks.ring st' h (remove1 t xs)"
    by (rule tasks.ring_cong [OF d(2)]) (simp add: out)
  moreover have "task_data (st' y) = task_data (set_state_of t state (m_tasks s) y)" for y
    using a(3) d(3) by (simp add: set_state_of_def task_data_set_state)
  moreover have "st' y = m_tasks s y" if "y \<notin> set xs \<union> set ys" for y
    using that a(4) d(4) q(2) by (auto simp: set_state_of_def)
  moreover have "then_do (detach t q s) (\<lambda>s. attach t r (setState t state (m_currentTask_update f s)))
      = Inr (set_queue_head r k (set_queue_head q h (s\<lparr>m_currentTask := f (m_currentTask s), m_tasks := st'\<rparr>)))"
    by (simp add: d(1) mid a(1))
  ultimately show ?thesis using a(2) by blast
qed

subsection \<open>The specification: queues as lists\<close>

record queues =
  q_ready :: "task_ptr list"
  q_waiting :: "task_ptr list"
  q_done :: "task_ptr list"
  q_current :: "task_ptr option"
  q_nextTask :: task_ptr
  q_waiters :: "waiter_ptr list"
  q_nextWaiter :: waiter_ptr
  q_task :: "waiter_ptr \<Rightarrow> task_ptr option"

definition after_in :: "'a \<Rightarrow> 'a list \<Rightarrow> 'a" where
  "after_in x xs = xs ! (Suc (length (takeWhile (\<lambda>y. y \<noteq> x) xs)) mod length xs)"

definition spec_select :: "queues \<Rightarrow> task_ptr option \<times> queues" where
  "spec_select a =
    (let c = (case q_current a of
        None \<Rightarrow> (case q_ready a of [] \<Rightarrow> None | t # _ \<Rightarrow> Some t)
      | Some c \<Rightarrow> Some (after_in c (q_ready a)))
     in (c, a\<lparr>q_current := c\<rparr>))"

definition spec_create :: "queues \<Rightarrow> failure + task_ptr \<times> queues" where
  "spec_create a =
    Inr (q_nextTask a, a\<lparr>q_waiting := q_waiting a @ [q_nextTask a], q_nextTask := q_nextTask a + 1\<rparr>)"

definition stop_running :: "task_ptr \<Rightarrow> task_ptr option \<Rightarrow> task_ptr option" where
  "stop_running t c = (if Some t = c then None else c)"

definition spec_suspend :: "task_ptr \<Rightarrow> queues \<Rightarrow> failure + queues" where
  "spec_suspend t a =
    (if t \<in> set (q_waiting a) then Inr a
     else if t \<in> set (q_ready a) then
       Inr (a\<lparr>q_ready := remove1 t (q_ready a), q_waiting := q_waiting a @ [t],
              q_current := stop_running t (q_current a)\<rparr>)
     else Inl LoggedFatal)"

definition spec_resume :: "task_ptr \<Rightarrow> queues \<Rightarrow> failure + queues" where
  "spec_resume t a =
    (if t \<in> set (q_ready a) then Inr a
     else if t \<in> set (q_waiting a) then
       Inr (a\<lparr>q_waiting := remove1 t (q_waiting a), q_ready := q_ready a @ [t]\<rparr>)
     else Inl LoggedFatal)"

definition spec_terminate :: "task_ptr \<Rightarrow> queues \<Rightarrow> failure + queues" where
  "spec_terminate t a =
    (if t \<in> set (q_done a) then Inl LoggedFatal
     else Inr (a\<lparr>q_ready := remove1 t (q_ready a), q_waiting := remove1 t (q_waiting a),
                 q_done := q_done a @ [t], q_current := stop_running t (q_current a)\<rparr>))"

definition spec_destroy :: "task_ptr \<Rightarrow> queues \<Rightarrow> failure + queues" where
  "spec_destroy t a =
    (if t \<in> set (q_done a) then Inr (a\<lparr>q_done := remove1 t (q_done a)\<rparr>) else Inl AssertionFailed)"

definition spec_add_waiter :: "queues \<Rightarrow> failure + waiter_ptr \<times> queues" where
  "spec_add_waiter a =
    Inr (q_nextWaiter a, a\<lparr>q_waiters := q_waiters a @ [q_nextWaiter a], q_nextWaiter := q_nextWaiter a + 1,
      q_task := (q_task a)(q_nextWaiter a := None)\<rparr>)"

definition spec_await :: "waiter_ptr \<Rightarrow> queues \<Rightarrow> failure + queues" where
  "spec_await w a =
    (case q_current a of
       None \<Rightarrow> Inl AssertionFailed
     | Some c \<Rightarrow>
         if q_task a w \<noteq> None then Inl AssertionFailed
         else spec_suspend c (a\<lparr>q_task := (q_task a)(w := Some c)\<rparr>))"

definition spec_destroy_waiter :: "waiter_ptr \<Rightarrow> queues \<Rightarrow> failure + queues" where
  "spec_destroy_waiter w a = Inr (a\<lparr>q_waiters := remove1 w (q_waiters a)\<rparr>)"

lemma stop_running_simps [simp]:
  "stop_running t c \<noteq> Some t" "stop_running t (Some d) = (if t = d then None else Some d)"
  "c \<noteq> Some t \<Longrightarrow> stop_running t c = c"
  by (auto simp: stop_running_def)

subsection \<open>The relation\<close>

definition spec_state :: "queues \<Rightarrow> task_ptr \<Rightarrow> task_state" where
  "spec_state a t =
    (if t \<in> set (q_ready a) then (if q_current a = Some t then TaskRunning else TaskReady)
     else if t \<in> set (q_waiting a) then TaskWaiting else TaskDone)"

definition all_tasks :: "queues \<Rightarrow> task_ptr list" where
  "all_tasks a = q_ready a @ q_waiting a @ q_done a"

definition tasks_repr :: "system_scheduler \<Rightarrow> queues \<Rightarrow> bool" where
  "tasks_repr s a \<longleftrightarrow>
    in_queue ReadyQueue s (q_ready a) \<and> in_queue WaitQueue s (q_waiting a) \<and>
    in_queue DoneQueue s (q_done a) \<and> distinct (all_tasks a) \<and>
    (\<forall>t \<in> set (all_tasks a). t < q_nextTask a \<and> t_state (m_tasks s t) = spec_state a t) \<and>
    m_currentTask s = q_current a \<and> (\<forall>c. q_current a = Some c \<longrightarrow> c \<in> set (q_ready a)) \<and>
    m_nextTask s = q_nextTask a"

definition waiter_typed :: "waiter \<Rightarrow> bool" where
  "waiter_typed n \<longleftrightarrow> (case w_waitee n of AsyncWaitee _ \<Rightarrow> w_type n = WaiterAsync
     | HandleWaitee _ \<Rightarrow> w_type n = WaiterHandle | ReqWaitee _ \<Rightarrow> w_type n = WaiterReq)"

lemma waiter_typed_data: "waiter_data n = waiter_data n' \<Longrightarrow> waiter_typed n \<longleftrightarrow> waiter_typed n'"
  by (simp add: waiter_data_eq waiter_typed_def split: waitee.splits)

lemma waiter_typed_task [simp]: "waiter_typed (n\<lparr>w_task := x\<rparr>) \<longleftrightarrow> waiter_typed n"
  by (simp add: waiter_typed_def split: waitee.splits)

definition waiters_repr :: "system_scheduler \<Rightarrow> queues \<Rightarrow> bool" where
  "waiters_repr s a \<longleftrightarrow>
    waiters.ring (m_waiterStore s) (m_waiters s) (q_waiters a) \<and>
    (\<forall>w \<in> set (q_waiters a). w < q_nextWaiter a \<and> waiter_typed (m_waiterStore s w) \<and>
       w_task (m_waiterStore s w) = q_task a w) \<and>
    m_nextWaiter s = q_nextWaiter a"

definition sched_repr :: "system_scheduler \<Rightarrow> queues \<Rightarrow> bool" where
  "sched_repr s a \<longleftrightarrow> tasks_repr s a \<and> waiters_repr s a"

text \<open>Both sides fail in the same way or succeed in related states.\<close>

definition rel_result :: "(system_scheduler \<Rightarrow> 'a \<Rightarrow> bool) \<Rightarrow> failure + system_scheduler \<Rightarrow> failure + 'a \<Rightarrow> bool" where
  "rel_result R r q \<longleftrightarrow> (case (r, q) of (Inl e, Inl f) \<Rightarrow> e = f | (Inr s, Inr a) \<Rightarrow> R s a | _ \<Rightarrow> False)"

lemma rel_result_simps [simp]:
  "rel_result R (Inl e) (Inl f) \<longleftrightarrow> e = f" "rel_result R (Inr s) (Inr a) \<longleftrightarrow> R s a"
  "\<not> rel_result R (Inl e) (Inr a)" "\<not> rel_result R (Inr s) (Inl f)"
  by (simp_all add: rel_result_def)

subsection \<open>The operations on tasks\<close>

lemma tasks_reprD:
  assumes "tasks_repr s a"
  shows "in_queue ReadyQueue s (q_ready a)" "in_queue WaitQueue s (q_waiting a)"
    "in_queue DoneQueue s (q_done a)" "distinct (all_tasks a)" "m_currentTask s = q_current a"
    "m_nextTask s = q_nextTask a"
    "t \<in> set (all_tasks a) \<Longrightarrow> t_state (m_tasks s t) = spec_state a t"
    "t \<in> set (all_tasks a) \<Longrightarrow> t < q_nextTask a"
    "q_current a = Some c \<Longrightarrow> c \<in> set (q_ready a)"
  using assms by (simp_all add: tasks_repr_def)

lemma state_of:
  assumes "tasks_repr s a"
  shows "t \<in> set (q_ready a) \<Longrightarrow> getState t s = (if q_current a = Some t then TaskRunning else TaskReady)"
    "t \<in> set (q_waiting a) \<Longrightarrow> getState t s = TaskWaiting"
    "t \<in> set (q_done a) \<Longrightarrow> getState t s = TaskDone"
  using tasks_reprD(4,7) [OF assms]
  by (auto simp: all_tasks_def getState_def spec_state_def)

text \<open>The relation after a task has moved: only the queues' order and the states have to be checked.\<close>

lemma tasks_repr_moved:
  assumes "tasks_repr s a" "t \<in> set (all_tasks a)"
    and "\<forall>y. task_data (m_tasks s' y) = task_data (set_state_of t (spec_state a' t) (m_tasks s) y)"
    and "in_queue ReadyQueue s' (q_ready a')" "in_queue WaitQueue s' (q_waiting a')"
    "in_queue DoneQueue s' (q_done a')" "distinct (all_tasks a')"
    and "set (all_tasks a') \<subseteq> set (all_tasks a)"
    and "\<forall>y \<in> set (all_tasks a') - {t}. spec_state a' y = spec_state a y"
    and "m_currentTask s' = q_current a'" "m_nextTask s' = m_nextTask s" "q_nextTask a' = q_nextTask a"
    and "\<forall>c. q_current a' = Some c \<longrightarrow> c \<in> set (q_ready a')"
  shows "tasks_repr s' a'"
proof -
  have "t_state (m_tasks s' y) = spec_state a' y" if y: "y \<in> set (all_tasks a')" for y
  proof -
    have "t_state (m_tasks s' y) = t_state (set_state_of t (spec_state a' t) (m_tasks s) y)"
      using assms(3) by (simp add: task_data_eq)
    also have "\<dots> = spec_state a' y"
      using y assms(8,9) tasks_reprD(7) [OF assms(1), of y] by (cases "y = t") (auto simp: set_state_of_def)
    finally show ?thesis .
  qed
  then show ?thesis
    using assms(4-8,10-13) tasks_reprD(6,8) [OF assms(1)] by (auto simp: tasks_repr_def)
qed

lemma waiters_repr_frame:
  assumes "waiters_repr s a"
    and "m_waiterStore s' = m_waiterStore s" "m_waiters s' = m_waiters s" "m_nextWaiter s' = m_nextWaiter s"
    and "q_waiters a' = q_waiters a" "q_nextWaiter a' = q_nextWaiter a" "q_task a' = q_task a"
  shows "waiters_repr s' a'"
  using assms by (simp add: waiters_repr_def)

fun contents :: "task_queue \<Rightarrow> queues \<Rightarrow> task_ptr list" where
  "contents ReadyQueue a = q_ready a"
| "contents WaitQueue a = q_waiting a"
| "contents DoneQueue a = q_done a"

fun set_contents :: "task_queue \<Rightarrow> task_ptr list \<Rightarrow> queues \<Rightarrow> queues" where
  "set_contents ReadyQueue xs a = a\<lparr>q_ready := xs\<rparr>"
| "set_contents WaitQueue xs a = a\<lparr>q_waiting := xs\<rparr>"
| "set_contents DoneQueue xs a = a\<lparr>q_done := xs\<rparr>"

fun state_in :: "task_queue \<Rightarrow> task_state" where
  "state_in ReadyQueue = TaskReady" | "state_in WaitQueue = TaskWaiting" | "state_in DoneQueue = TaskDone"

definition moved :: "task_ptr \<Rightarrow> task_queue \<Rightarrow> task_queue \<Rightarrow> queues \<Rightarrow> queues" where
  "moved t q r a = set_contents r (contents r a @ [t]) (set_contents q (remove1 t (contents q a))
     (a\<lparr>q_current := stop_running t (q_current a)\<rparr>))"

lemma set_contents_simps [simp]:
  "contents q (set_contents r xs a) = (if q = r then xs else contents q a)"
  "contents q (a\<lparr>q_current := c\<rparr>) = contents q a"
  "q_current (set_contents q xs a) = q_current a" "q_nextTask (set_contents q xs a) = q_nextTask a"
  "q_waiters (set_contents q xs a) = q_waiters a" "q_nextWaiter (set_contents q xs a) = q_nextWaiter a"
  "q_task (set_contents q xs a) = q_task a"
  by (cases q; cases r; simp)+

lemma moved_simps [simp]:
  "q \<noteq> r \<Longrightarrow> contents p (moved t q r a) =
     (if p = r then contents r a @ [t] else if p = q then remove1 t (contents q a) else contents p a)"
  "q_current (moved t q r a) = stop_running t (q_current a)"
  "q_nextTask (moved t q r a) = q_nextTask a" "q_waiters (moved t q r a) = q_waiters a"
  "q_nextWaiter (moved t q r a) = q_nextWaiter a" "q_task (moved t q r a) = q_task a"
  by (simp_all add: moved_def)

lemma moved_other: "y \<noteq> t \<Longrightarrow> q \<noteq> r \<Longrightarrow> y \<in> set (contents p (moved t q r a)) \<longleftrightarrow> y \<in> set (contents p a)"
  by simp

lemma all_tasks_contents:
  "set (all_tasks a) = set (contents ReadyQueue a) \<union> set (contents WaitQueue a) \<union> set (contents DoneQueue a)"
  "distinct (all_tasks a) \<longleftrightarrow> (\<forall>q. distinct (contents q a)) \<and>
     (\<forall>q r. q \<noteq> r \<longrightarrow> set (contents q a) \<inter> set (contents r a) = {})"
proof -
  have q: "(\<forall>q. P q) \<longleftrightarrow> P ReadyQueue \<and> P WaitQueue \<and> P DoneQueue" for P
    by (metis task_queue.exhaust)
  show "distinct (all_tasks a) \<longleftrightarrow> (\<forall>q. distinct (contents q a)) \<and>
     (\<forall>q r. q \<noteq> r \<longrightarrow> set (contents q a) \<inter> set (contents r a) = {})"
    unfolding q all_tasks_def by auto
qed (auto simp: all_tasks_def)

lemma in_all_tasks_iff: "t \<in> set (all_tasks a) \<longleftrightarrow> (\<exists>q. t \<in> set (contents q a))"
proof
  assume "t \<in> set (all_tasks a)"
  then consider "t \<in> set (contents ReadyQueue a)" | "t \<in> set (contents WaitQueue a)"
    | "t \<in> set (contents DoneQueue a)" by (auto simp: all_tasks_contents(1))
  then show "\<exists>q. t \<in> set (contents q a)" by cases blast+
next
  assume "\<exists>q. t \<in> set (contents q a)"
  then obtain q where "t \<in> set (contents q a)" ..
  then show "t \<in> set (all_tasks a)" by (cases q) (auto simp: all_tasks_contents(1))
qed

lemma in_all_tasks: "t \<in> set (contents q a) \<Longrightarrow> t \<in> set (all_tasks a)"
  by (cases q) (auto simp: all_tasks_def)

lemma moved_distinct:
  assumes "distinct (all_tasks a)" "t \<in> set (contents q a)" "q \<noteq> r"
  shows "distinct (all_tasks (moved t q r a))" "set (all_tasks (moved t q r a)) = set (all_tasks a)"
proof -
  have d: "\<And>q. distinct (contents q a)" "\<And>q r. q \<noteq> r \<Longrightarrow> set (contents q a) \<inter> set (contents r a) = {}"
    using assms(1) by (simp_all add: all_tasks_contents)
  have out: "t \<notin> set (contents p a)" if "p \<noteq> q" for p
    using d(2) [OF that] assms(2) by auto
  have mem: "y \<in> set (contents p (moved t q r a)) \<longleftrightarrow> (if y = t then p = r else y \<in> set (contents p a))" for y p
    using d(1) out assms(3) by (simp add: set_remove1_eq)
  have ds: "distinct (contents p (moved t q r a))" for p
    using d(1) out [of r] assms(3) by simp
  have dj: "set (contents p (moved t q r a)) \<inter> set (contents p' (moved t q r a)) = {}"
    if "p \<noteq> p'" for p p'
    unfolding disjoint_iff mem using d(2) [OF that] that by (metis disjoint_iff)
  show "distinct (all_tasks (moved t q r a))"
    unfolding all_tasks_contents(2) by (intro conjI allI impI ds dj)
  have "(\<exists>p. y \<in> set (contents p (moved t q r a))) \<longleftrightarrow> (\<exists>p. y \<in> set (contents p a))" for y
    unfolding mem using assms(2) by auto
  then show "set (all_tasks (moved t q r a)) = set (all_tasks a)"
    by (intro set_eqI) (simp only: in_all_tasks_iff)
qed

lemma tasks_repr_queue: "tasks_repr s a \<Longrightarrow> in_queue q s (contents q a)"
  by (cases q) (simp_all add: tasks_repr_def)

lemma spec_state_contents:
  assumes "distinct (all_tasks a)" "t \<in> set (contents q a)"
  shows "spec_state a t = (if q = ReadyQueue \<and> q_current a = Some t then TaskRunning else state_in q)"
  using assms by (cases q) (auto simp: spec_state_def all_tasks_def)

lemma moved_refines:
  assumes repr: "sched_repr s a" and t: "t \<in> set (contents q a)" and qr: "q \<noteq> r"
    and f: "f c = stop_running t (q_current a)"
  shows "\<exists>s'. then_do (detach t q (s\<lparr>m_currentTask := c\<rparr>))
        (\<lambda>s. attach t r (setState t (state_in r) (m_currentTask_update f s))) = Inr s' \<and>
      sched_repr s' (moved t q r a) \<and> m_uv s' = m_uv s \<and> m_asyncs s' = m_asyncs s \<and>
      m_waiterStore s' = m_waiterStore s \<and>
      (\<forall>y. task_data (m_tasks s' y) = task_data (set_state_of t (state_in r) (m_tasks s) y))"
proof -
  have tr: "tasks_repr s a" and wr: "waiters_repr s a" using repr by (simp_all add: sched_repr_def)
  note dist = tasks_reprD(4) [OF tr]
  let ?s = "s\<lparr>m_currentTask := c\<rparr>" and ?a = "moved t q r a"
  have inq: "in_queue p ?s (contents p a)" for p using tasks_repr_queue [OF tr, of p] by simp
  have disj: "set (contents q a) \<inter> set (contents r a) = {}"
    using dist qr by (auto simp: all_tasks_contents)
  obtain st h k where m: "then_do (detach t q ?s) (\<lambda>s. attach t r (setState t (state_in r) (m_currentTask_update f s)))
      = Inr (set_queue_head r k (set_queue_head q h (?s\<lparr>m_currentTask := f (m_currentTask ?s), m_tasks := st\<rparr>)))"
    "tasks.ring st h (remove1 t (contents q a))" "tasks.ring st k (contents r a @ [t])"
    "\<forall>y. task_data (st y) = task_data (set_state_of t (state_in r) (m_tasks ?s) y)"
    "\<forall>y. y \<notin> set (contents q a) \<union> set (contents r a) \<longrightarrow> st y = m_tasks ?s y"
    using move_task [OF inq t inq disj qr, of "state_in r" f] by blast
  let ?s' = "set_queue_head r k (set_queue_head q h (?s\<lparr>m_currentTask := f (m_currentTask ?s), m_tasks := st\<rparr>))"
  note dist' = moved_distinct [OF dist t qr]
  have tin: "t \<in> set (contents r ?a)" using qr by simp
  have st: "spec_state ?a t = state_in r"
    using spec_state_contents [OF dist'(1) tin] by simp
  have rings: "in_queue p ?s' (contents p ?a)" for p
  proof (cases "p = q \<or> p = r")
    case True
    then show ?thesis using m(2,3) qr by auto
  next
    case False
    have "tasks.ring st (queue_head p s) (contents p a)"
    proof (rule tasks.ring_cong [OF tasks_repr_queue [OF tr]])
      fix y assume y: "y \<in> set (contents p a)"
      then have "y \<notin> set (contents q a) \<union> set (contents r a)"
        using dist False by (auto simp: all_tasks_contents)
      then show "t_prev (st y) = t_prev (m_tasks s y) \<and> t_next (st y) = t_next (m_tasks s y)"
        using m(5) by simp
    qed
    then show ?thesis using False qr by simp
  qed
  have same: "spec_state ?a y = spec_state a y" if y: "y \<in> set (all_tasks ?a) - {t}" for y
  proof -
    have "y \<in> set (all_tasks a)" "y \<noteq> t" using y dist'(2) by auto
    then obtain p where p: "y \<in> set (contents p a)" by (auto simp: in_all_tasks_iff)
    then have p': "y \<in> set (contents p ?a)" using \<open>y \<noteq> t\<close> qr by (auto simp: in_set_remove1)
    show ?thesis
      using spec_state_contents [OF dist p] spec_state_contents [OF dist'(1) p'] \<open>y \<noteq> t\<close>
      by (simp add: stop_running_def)
  qed
  have "tasks_repr ?s' ?a"
  proof (rule tasks_repr_moved [OF tr in_all_tasks [OF t]])
    show "\<forall>y. task_data (m_tasks ?s' y) = task_data (set_state_of t (spec_state ?a t) (m_tasks s) y)"
      using m(4) by (simp add: st)
    show "\<forall>c. q_current ?a = Some c \<longrightarrow> c \<in> set (q_ready ?a)"
    proof (intro allI impI)
      fix c assume "q_current ?a = Some c"
      then have "q_current a = Some c" "c \<noteq> t" by (auto simp: stop_running_def split: if_splits)
      then have "c \<in> set (contents ReadyQueue a)" using tasks_reprD(9) [OF tr] by simp
      then have "c \<in> set (contents ReadyQueue ?a)" by (simp only: moved_other [OF \<open>c \<noteq> t\<close> qr])
      then show "c \<in> set (q_ready ?a)" by simp
    qed
  qed (use rings [of ReadyQueue] rings [of WaitQueue] rings [of DoneQueue] dist' same f in simp_all)
  moreover have "waiters_repr ?s' ?a" by (rule waiters_repr_frame [OF wr]) simp_all
  moreover have "\<forall>y. task_data (m_tasks ?s' y) = task_data (set_state_of t (state_in r) (m_tasks s) y)"
    using m(4) by simp
  ultimately show ?thesis using m(1) by (auto simp: sched_repr_def)
qed

lemma update_current_id:
  "m_currentTask_update (\<lambda>c. c) s = s" "m_currentTask s = c \<Longrightarrow> s\<lparr>m_currentTask := c\<rparr> = s"
  by auto

lemma stop_update:
  "(if Some t = m_currentTask s then s\<lparr>m_currentTask := None\<rparr> else s) = m_currentTask_update (stop_running t) s"
  by (cases s) (simp add: stop_running_def)

lemma not_in_other:
  assumes "tasks_repr s a" "t \<in> set (contents q a)" "q \<noteq> r"
  shows "t \<notin> set (contents r a)"
  using tasks_reprD(4) [OF assms(1)] assms(2,3) by (auto simp: all_tasks_contents)

lemma not_running:
  assumes "tasks_repr s a" "t \<in> set (contents q a)" "q \<noteq> ReadyQueue"
  shows "q_current a \<noteq> Some t" "stop_running t (q_current a) = q_current a"
proof -
  show "q_current a \<noteq> Some t"
    using not_in_other [OF assms] tasks_reprD(9) [OF assms(1)] by auto
  then show "stop_running t (q_current a) = q_current a" by simp
qed

lemma suspend_refines:
  assumes repr: "sched_repr s a" and t: "t \<in> set (all_tasks a)"
  shows "rel_result sched_repr (suspendTask t s) (spec_suspend t a)"
proof -
  have tr: "tasks_repr s a" using repr by (simp add: sched_repr_def)
  consider (r) "t \<in> set (contents ReadyQueue a)" | (w) "t \<in> set (q_waiting a)" | (d) "t \<in> set (contents DoneQueue a)"
    using t by (auto simp: all_tasks_contents(1))
  then show ?thesis
  proof cases
    case r
    obtain s' where "then_do (detach t ReadyQueue (s\<lparr>m_currentTask := q_current a\<rparr>))
        (\<lambda>s. attach t WaitQueue (setState t (state_in WaitQueue) (m_currentTask_update (stop_running t) s))) = Inr s'"
      "sched_repr s' (moved t ReadyQueue WaitQueue a)"
      using moved_refines [OF repr r, of WaitQueue "stop_running t" "q_current a"] by auto
    moreover have "suspendTask t s = then_do (detach t ReadyQueue s)
        (\<lambda>s. attach t WaitQueue (setState t TaskWaiting (m_currentTask_update (stop_running t) s)))"
      using state_of(1) [OF tr, of t] r by (simp add: suspendTask_def stop_update Let_def)
    moreover have "spec_suspend t a = Inr (moved t ReadyQueue WaitQueue a)"
      using r not_in_other [OF tr r, of WaitQueue] by (simp add: spec_suspend_def moved_def)
    ultimately show ?thesis
      by (simp add: update_current_id(2) [OF tasks_reprD(5) [OF tr]])
  next
    case w
    then show ?thesis
      using repr state_of(2) [OF tr w] by (simp add: suspendTask_def spec_suspend_def)
  next
    case d
    then show ?thesis
      using state_of(3) [OF tr, of t] not_in_other [OF tr d, of ReadyQueue] not_in_other [OF tr d, of WaitQueue]
      by (simp add: suspendTask_def spec_suspend_def)
  qed
qed

lemma resume_refines:
  assumes repr: "sched_repr s a" and t: "t \<in> set (all_tasks a)"
  shows "rel_result sched_repr (resumeTask t s) (spec_resume t a)"
proof -
  have tr: "tasks_repr s a" using repr by (simp add: sched_repr_def)
  consider (r) "t \<in> set (q_ready a)" | (w) "t \<in> set (contents WaitQueue a)" | (d) "t \<in> set (contents DoneQueue a)"
    using t by (auto simp: all_tasks_contents(1))
  then show ?thesis
  proof cases
    case r
    then show ?thesis
      using repr state_of(1) [OF tr r] by (simp add: resumeTask_def spec_resume_def)
  next
    case w
    note nr = not_running [OF tr w, simplified]
    obtain s' where "then_do (detach t WaitQueue (s\<lparr>m_currentTask := q_current a\<rparr>))
        (\<lambda>s. attach t ReadyQueue (setState t (state_in ReadyQueue) (m_currentTask_update (\<lambda>c. c) s))) = Inr s'"
      "sched_repr s' (moved t WaitQueue ReadyQueue a)"
      using moved_refines [OF repr w, of ReadyQueue "\<lambda>c. c" "q_current a"] nr by auto
    moreover have "spec_resume t a = Inr (moved t WaitQueue ReadyQueue a)"
      using w nr not_in_other [OF tr w, of ReadyQueue] by (simp add: spec_resume_def moved_def)
    ultimately show ?thesis
      using state_of(2) [OF tr, of t] w
      by (simp add: resumeTask_def update_current_id(1) update_current_id(2) [OF tasks_reprD(5) [OF tr]])
  next
    case d
    then show ?thesis
      using state_of(3) [OF tr, of t] not_in_other [OF tr d, of ReadyQueue] not_in_other [OF tr d, of WaitQueue]
      by (simp add: resumeTask_def spec_resume_def)
  qed
qed

lemma signal_monitor_frame [simp]:
  "queue_head q (signalMonitor t s) = queue_head q s" "m_currentTask (signalMonitor t s) = m_currentTask s"
  "m_nextTask (signalMonitor t s) = m_nextTask s" "m_waiters (signalMonitor t s) = m_waiters s"
  "m_waiterStore (signalMonitor t s) = m_waiterStore s" "m_nextWaiter (signalMonitor t s) = m_nextWaiter s"
  "t_prev (m_tasks (signalMonitor t s) y) = t_prev (m_tasks s y)"
  "t_next (m_tasks (signalMonitor t s) y) = t_next (m_tasks s y)"
  "t_state (m_tasks (signalMonitor t s) y) = t_state (m_tasks s y)"
  "t_monitor (m_tasks (signalMonitor t s) y) = (if y = t then None else t_monitor (m_tasks s y))"
  by (simp_all add: signalMonitor_def split: option.splits)

lemma signal_monitor_repr: "sched_repr s a \<Longrightarrow> sched_repr (signalMonitor t s) a"
proof -
  assume repr: "sched_repr s a"
  have "in_queue q (signalMonitor t s) (contents q a)" for q
    using tasks_repr_queue [of s a q] repr by (auto simp: sched_repr_def intro: tasks.ring_cong)
  from this [of ReadyQueue] this [of WaitQueue] this [of DoneQueue] show ?thesis
    using repr by (simp add: sched_repr_def tasks_repr_def waiters_repr_def)
qed

text \<open>Terminating a live task moves it to the done queue and sends its monitor's signal.\<close>

definition monitor_calls :: "task \<Rightarrow> uv_call list" where
  "monitor_calls n = (case t_monitor n of None \<Rightarrow> [] | Some h \<Rightarrow> [UvAsyncSend h])"

lemma terminate_live:
  assumes repr: "sched_repr s a" and t: "t \<in> set (contents q a)" and q: "q \<noteq> DoneQueue"
  shows "\<exists>s'. terminateTask t s = Inr s' \<and> sched_repr s' (moved t q DoneQueue a) \<and>
    m_uv s' = m_uv s @ monitor_calls (m_tasks s t) \<and> m_asyncs s' = m_asyncs s \<and>
    m_waiterStore s' = m_waiterStore s \<and>
    (\<forall>y. t_monitor (m_tasks s' y) = (if y = t then None else t_monitor (m_tasks s y)))"
proof -
  have tr: "tasks_repr s a" using repr by (simp add: sched_repr_def)
  define c where "c = (if q_current a = Some t then None else q_current a)"
  have "(\<lambda>c. c) c = stop_running t (q_current a)" by (auto simp: c_def stop_running_def)
  from moved_refines [of _ _ _ _ _ "\<lambda>c. c", OF repr t q this] obtain s' where s':
    "then_do (detach t q (s\<lparr>m_currentTask := c\<rparr>)) (\<lambda>s. attach t DoneQueue (setState t TaskDone s)) = Inr s'"
    "sched_repr s' (moved t q DoneQueue a)" "m_uv s' = m_uv s" "m_asyncs s' = m_asyncs s"
    "m_waiterStore s' = m_waiterStore s"
    "\<forall>y. task_data (m_tasks s' y) = task_data (set_state_of t TaskDone (m_tasks s) y)"
    by (auto simp: update_current_id(1))
  obtain s1 where d: "detach t q (s\<lparr>m_currentTask := c\<rparr>) = Inr s1"
    and at: "attach t DoneQueue (setState t TaskDone s1) = Inr s'"
    using s'(1) by (auto simp: then_do_Inr)
  have "q_current a \<noteq> Some t \<Longrightarrow> s\<lparr>m_currentTask := c\<rparr> = s"
    using tasks_reprD(5) [OF tr] by (simp add: c_def)
  then have "terminateTask t s = then_do (Inr s1)
      (\<lambda>s. then_do (attach t DoneQueue (setState t TaskDone s)) (\<lambda>s. Inr (signalMonitor t s)))"
    using d state_of [OF tr, of t] t q not_running [OF tr t]
    by (cases q; cases "q_current a = Some t") (simp_all add: terminateTask_def c_def)
  then have "terminateTask t s = Inr (signalMonitor t s')" by (simp add: at)
  moreover have mon: "t_monitor (m_tasks s' y) = t_monitor (m_tasks s y)" for y
    using s'(6) by (auto simp: task_data_eq set_state_of_def split: if_splits)
  have "m_uv (signalMonitor t s') = m_uv s @ monitor_calls (m_tasks s t)"
    "m_asyncs (signalMonitor t s') = m_asyncs s"
    using mon [of t] s'(3,4) by (auto simp: signalMonitor_def monitor_calls_def split: option.splits)
  ultimately show ?thesis
    using signal_monitor_repr [OF s'(2)] s'(5) mon by auto
qed

lemma terminate_refines:
  assumes repr: "sched_repr s a" and t: "t \<in> set (all_tasks a)"
  shows "rel_result sched_repr (terminateTask t s) (spec_terminate t a)"
proof -
  have tr: "tasks_repr s a" using repr by (simp add: sched_repr_def)
  obtain q where q: "t \<in> set (contents q a)" using t by (auto simp: in_all_tasks_iff)
  show ?thesis
  proof (cases "q = DoneQueue")
    case True
    then show ?thesis
      using q state_of(3) [OF tr, of t] by (simp add: terminateTask_def spec_terminate_def)
  next
    case False
    have "spec_terminate t a = Inr (moved t q DoneQueue a)"
      using False q not_in_other [OF tr q, of DoneQueue] not_in_other [OF tr q, of ReadyQueue]
        not_in_other [OF tr q, of WaitQueue]
      by (cases q) (simp_all add: spec_terminate_def moved_def remove1_idem)
    then show ?thesis using terminate_live [OF repr q False] by auto
  qed
qed

lemma destroy_refines:
  assumes repr: "sched_repr s a" and t: "t \<in> set (all_tasks a)"
  shows "rel_result (\<lambda>s' a'. sched_repr s' a' \<and> m_uv s' = m_uv s \<and> m_waiterStore s' = m_waiterStore s \<and>
    m_asyncs s' = m_asyncs s) (destroyTask t s) (spec_destroy t a)"
proof -
  have tr: "tasks_repr s a" and wr: "waiters_repr s a" using repr by (simp_all add: sched_repr_def)
  note dist = tasks_reprD(4) [OF tr]
  show ?thesis
  proof (cases "t \<in> set (q_done a)")
    case False
    then have "getState t s \<noteq> TaskDone"
      using t state_of(1,2) [OF tr, of t] by (auto simp: all_tasks_def split: if_splits)
    then show ?thesis using False by (simp add: destroyTask_def spec_destroy_def)
  next
    case True
    have "in_queue DoneQueue s (q_done a)" using tasks_reprD(3) [OF tr] .
    from detach_ring [OF this True] obtain st h where d:
      "detach t DoneQueue s = Inr (set_queue_head DoneQueue h (s\<lparr>m_tasks := st\<rparr>))"
      "tasks.ring st h (remove1 t (q_done a))" "\<forall>y. task_data (st y) = task_data (m_tasks s y)"
      "\<forall>y. y \<notin> set (q_done a) \<longrightarrow> st y = m_tasks s y" by blast
    let ?s = "set_queue_head DoneQueue h (s\<lparr>m_tasks := st\<rparr>)" and ?a = "a\<lparr>q_done := remove1 t (q_done a)\<rparr>"
    have out: "y \<notin> set (q_done a)" if "y \<in> set (q_ready a) \<union> set (q_waiting a)" for y
      using that dist by (auto simp: all_tasks_def)
    have "tasks.ring st (m_readyQueue s) (q_ready a)" "tasks.ring st (m_waitQueue s) (q_waiting a)"
      using tasks_reprD(1,2) [OF tr] d(4) out by (auto elim!: tasks.ring_cong)
    moreover have "t_state (m_tasks ?s y) = spec_state ?a y" if "y \<in> set (all_tasks ?a)" for y
    proof -
      have "y \<in> set (all_tasks a)"
        using that set_remove1_subset [of t "q_done a"] by (auto simp: all_tasks_def)
      then have "t_state (m_tasks s y) = spec_state a y" by (rule tasks_reprD(7) [OF tr])
      then show ?thesis using d(3) by (simp add: task_data_eq spec_state_def)
    qed
    moreover have "set (all_tasks ?a) \<subseteq> set (all_tasks a)" "distinct (all_tasks ?a)"
      using dist set_remove1_subset [of t "q_done a"] by (auto simp: all_tasks_def)
    ultimately have "tasks_repr ?s ?a"
      using d(2) tr by (auto simp: tasks_repr_def)
    moreover have "waiters_repr ?s ?a" by (rule waiters_repr_frame [OF wr]) simp_all
    ultimately show ?thesis
      using True state_of(3) [OF tr True] d(1)
      by (simp add: destroyTask_def spec_destroy_def sched_repr_def)
  qed
qed

lemma create_refines:
  assumes repr: "tasks_repr s a" "waiters_repr s a"
  shows "\<exists>s'. add_waiting_task main s = Inr (q_nextTask a, s') \<and>
    sched_repr s' (a\<lparr>q_waiting := q_waiting a @ [q_nextTask a], q_nextTask := q_nextTask a + 1\<rparr>) \<and>
    t_isMainTask (m_tasks s' (q_nextTask a)) = main \<and> m_uv s' = m_uv s"
proof -
  note dist = tasks_reprD(4) [OF repr(1)]
  let ?t = "q_nextTask a"
  let ?a = "a\<lparr>q_waiting := q_waiting a @ [?t], q_nextTask := ?t + 1\<rparr>"
  have new: "?t \<notin> set (all_tasks a)" using tasks_reprD(8) [OF repr(1), of ?t] by auto
  define s1 where "s1 = setState ?t TaskWaiting
    (s\<lparr>m_tasks := (m_tasks s)(?t := new_task main), m_nextTask := ?t + 1\<rparr>)"
  have old: "m_tasks s1 y = m_tasks s y" if "y \<noteq> ?t" for y using that by (simp add: s1_def setState_def)
  have fresh: "t_state (m_tasks s1 ?t) = TaskWaiting" "t_isMainTask (m_tasks s1 ?t) = main"
    by (simp_all add: s1_def setState_def new_task_def)
  have inq: "in_queue q s1 (contents q a)" for q
  proof -
    have "queue_head q s1 = queue_head q s" by (cases q) (simp_all add: s1_def setState_def)
    moreover have "m_tasks s1 y = m_tasks s y" if "y \<in> set (contents q a)" for y
      using new in_all_tasks [OF that] by (intro old) auto
    ultimately show ?thesis using tasks_repr_queue [OF repr(1), of q] by (auto elim!: tasks.ring_cong)
  qed
  have "?t \<notin> set (q_waiting a)" using new by (simp add: all_tasks_def)
  then have "?t \<notin> set (contents WaitQueue a)" by simp
  from attach_ring [OF inq this] obtain st h where at:
    "attach ?t WaitQueue s1 = Inr (set_queue_head WaitQueue h (s1\<lparr>m_tasks := st\<rparr>))"
    "tasks.ring st h (q_waiting a @ [?t])" "\<forall>y. task_data (st y) = task_data (m_tasks s1 y)"
    "\<forall>y. y \<notin> set (?t # q_waiting a) \<longrightarrow> st y = m_tasks s1 y" by auto
  let ?s = "set_queue_head WaitQueue h (s1\<lparr>m_tasks := st\<rparr>)"
  have s1: "m_currentTask s1 = m_currentTask s" "m_nextTask s1 = ?t + 1" "m_waiterStore s1 = m_waiterStore s"
    "m_waiters s1 = m_waiters s" "m_nextWaiter s1 = m_nextWaiter s" "m_uv s1 = m_uv s"
    by (simp_all add: s1_def setState_def)
  have out: "y \<notin> set (?t # q_waiting a)" if "y \<in> set (q_ready a) \<union> set (q_done a)" for y
    using that dist new by (auto simp: all_tasks_def)
  have "tasks.ring st (m_readyQueue s1) (q_ready a)" "tasks.ring st (m_doneQueue s1) (q_done a)"
    using inq [of ReadyQueue] inq [of DoneQueue] at(4) out by (auto elim!: tasks.ring_cong)
  moreover have "t_state (st y) = spec_state ?a y \<and> y < ?t + 1" if y: "y \<in> set (all_tasks ?a)" for y
  proof (cases "y = ?t")
    case True
    then show ?thesis
      using fresh(1) new at(3) by (auto simp: task_data_eq spec_state_def all_tasks_def)
  next
    case False
    then have "y \<in> set (all_tasks a)" using y by (auto simp: all_tasks_def)
    then have "t_state (m_tasks s y) = spec_state a y" "y < ?t"
      using tasks_reprD(7,8) [OF repr(1)] by blast+
    then show ?thesis using False old [OF False] at(3) by (simp add: task_data_eq spec_state_def)
  qed
  ultimately have "tasks_repr ?s ?a"
    using at(2) dist new s1 repr(1) by (simp add: tasks_repr_def all_tasks_def)
  moreover have "waiters_repr ?s ?a" by (rule waiters_repr_frame [OF repr(2)]) (simp_all add: s1)
  moreover have "add_waiting_task main s = Inr (?t, ?s)"
    using at(1) tasks_reprD(6) [OF repr(1)] by (simp add: add_waiting_task_def Let_def s1_def)
  moreover have "t_isMainTask (st ?t) = main" using at(3) fresh(2) by (simp add: task_data_eq)
  ultimately show ?thesis using s1(6) by (simp add: sched_repr_def)
qed

end
