(* ===== verification/SchedulerRefinement.thy ===== *)
theory SchedulerRefinement
  imports SchedulerLaws
begin

text \<open>
  The rest of the refinement of the scheduler (its waiters and \<open>selectNextReady\<close>) and the
  properties of the scheduler: every sequence of operations on live tasks and waiters refines
  the operations on lists, \<open>selectNextReady\<close> is a round robin, and the loops of the destructor
  end with empty queues and every monitor signalled.
\<close>

subsection \<open>Waiters\<close>

lemma attachWaiter_link:
  assumes "w_prev (m_waiterStore s w) = None" "w_next (m_waiterStore s w) = None"
  shows "attachWaiter w s = or_else_fail AssertionFailed
    (map_option (\<lambda>(st, h). s\<lparr>m_waiters := h, m_waiterStore := st\<rparr>)
      (waiters.link_end w (m_waiterStore s, m_waiters s)))"
  using assms unfolding attachWaiter_def waiters.link_end_def update_def
  by (auto simp: Let_def split: option.splits)

lemma destroyWaiter_unlink:
  "destroyWaiter w s = then_do (or_else_fail AssertionFailed
    (map_option (\<lambda>(st, h). s\<lparr>m_waiters := h, m_waiterStore := st\<rparr>)
      (waiters.unlink w (m_waiterStore s, m_waiters s)))) (release_waiter w)"
  unfolding destroyWaiter_def waiters.unlink_def update_def
  by (cases s) (auto simp: Let_def split: option.splits)

lemma waiters_reprD:
  assumes "waiters_repr s a"
  shows "waiters.ring (m_waiterStore s) (m_waiters s) (q_waiters a)" "m_nextWaiter s = q_nextWaiter a"
    "w \<in> set (q_waiters a) \<Longrightarrow> w < q_nextWaiter a"
    "w \<in> set (q_waiters a) \<Longrightarrow> waiter_typed (m_waiterStore s w)"
    "w \<in> set (q_waiters a) \<Longrightarrow> w_task (m_waiterStore s w) = q_task a w"
  using assms unfolding waiters_repr_def by blast+

lemma tasks_repr_frame:
  assumes "tasks_repr s a" "m_tasks s' = m_tasks s" "m_readyQueue s' = m_readyQueue s"
    "m_waitQueue s' = m_waitQueue s" "m_doneQueue s' = m_doneQueue s" "m_currentTask s' = m_currentTask s"
    "m_nextTask s' = m_nextTask s"
    "q_ready a' = q_ready a" "q_waiting a' = q_waiting a" "q_done a' = q_done a"
    "q_current a' = q_current a" "q_nextTask a' = q_nextTask a"
  shows "tasks_repr s' a'"
  using assms by (simp add: tasks_repr_def all_tasks_def spec_state_def)

lemma add_waiter_refines:
  assumes repr: "sched_repr s a"
  shows "\<exists>s' a'. add_waiter x promise s = Inr (q_nextWaiter a, s') \<and>
    spec_add_waiter a = Inr (q_nextWaiter a, a') \<and> sched_repr s' a' \<and> m_uv s' = m_uv s"
proof -
  have tr: "tasks_repr s a" and wr: "waiters_repr s a" using repr by (simp_all add: sched_repr_def)
  let ?w = "q_nextWaiter a"
  define s1 where "s1 = s\<lparr>m_waiterStore := (m_waiterStore s)(?w := new_waiter x promise), m_nextWaiter := ?w + 1\<rparr>"
  have new: "?w \<notin> set (q_waiters a)" using waiters_reprD(3) [OF wr, of ?w] by auto
  have old: "m_waiterStore s1 y = m_waiterStore s y" if "y \<in> set (q_waiters a)" for y
    using that new by (auto simp: s1_def)
  have "waiters.ring (m_waiterStore s1) (m_waiters s) (q_waiters a)"
    by (rule waiters.ring_cong [OF waiters_reprD(1) [OF wr]]) (simp add: old)
  from waiters.link_end_ring [OF this new] obtain st h where l:
    "waiters.link_end ?w (m_waiterStore s1, m_waiters s) = Some (st, h)"
    "waiters.ring st h (q_waiters a @ [?w])" "\<forall>y. waiter_data (st y) = waiter_data (m_waiterStore s1 y)"
    by blast
  let ?s = "s1\<lparr>m_waiters := h, m_waiterStore := st\<rparr>"
  let ?a = "a\<lparr>q_waiters := q_waiters a @ [?w], q_nextWaiter := ?w + 1, q_task := (q_task a)(?w := None)\<rparr>"
  have "m_waiterStore s1 ?w = new_waiter x promise" "m_waiters s1 = m_waiters s" by (simp_all add: s1_def)
  then have at: "attachWaiter ?w s1 = Inr ?s"
    by (subst attachWaiter_link) (simp_all add: new_waiter_def l(1))
  have "waiter_typed (st y) \<and> w_task (st y) = q_task ?a y" if y: "y \<in> set (q_waiters ?a)" for y
  proof -
    have same: "waiter_typed (st y) \<longleftrightarrow> waiter_typed (m_waiterStore s1 y)" "w_task (st y) = w_task (m_waiterStore s1 y)"
    proof -
      have "waiter_data (st y) = waiter_data (m_waiterStore s1 y)" using l(3) by blast
      with waiter_typed_data [OF this] show "waiter_typed (st y) \<longleftrightarrow> waiter_typed (m_waiterStore s1 y)"
        "w_task (st y) = w_task (m_waiterStore s1 y)" by (simp_all add: waiter_data_eq)
    qed
    show ?thesis
    proof (cases "y = ?w")
      case True
      then show ?thesis unfolding same by (simp add: s1_def new_waiter_def waiter_typed_def split: waitee.splits)
    next
      case False
      then have "y \<in> set (q_waiters a)" using y by simp
      then show ?thesis
        unfolding same using waiters_reprD(4,5) [OF wr] False by (simp add: old)
    qed
  qed
  moreover have "y < ?w + 1" if "y \<in> set (q_waiters ?a)" for y
    using that waiters_reprD(3) [OF wr, of y] by auto
  ultimately have "waiters_repr ?s ?a" using l(2) by (simp add: waiters_repr_def s1_def)
  moreover have "tasks_repr ?s ?a" by (rule tasks_repr_frame [OF tr]) (simp_all add: s1_def)
  moreover have "add_waiter x promise s = Inr (?w, ?s)"
    using at waiters_reprD(2) [OF wr] by (simp add: add_waiter_def Let_def s1_def)
  ultimately show ?thesis by (simp add: sched_repr_def spec_add_waiter_def s1_def)
qed

lemma release_typed:
  assumes "waiter_typed (m_waiterStore s w)"
  shows "\<exists>s'. release_waiter w s = Inr s' \<and> m_tasks s' = m_tasks s \<and> (\<forall>q. queue_head q s' = queue_head q s) \<and>
    m_currentTask s' = m_currentTask s \<and> m_nextTask s' = m_nextTask s \<and> m_waiters s' = m_waiters s \<and>
    m_waiterStore s' = m_waiterStore s \<and> m_nextWaiter s' = m_nextWaiter s \<and> m_mainTask s' = m_mainTask s \<and>
    (\<exists>calls. m_uv s' = m_uv s @ calls)"
proof -
  have q: "(\<forall>q. P q) \<longleftrightarrow> P ReadyQueue \<and> P WaitQueue \<and> P DoneQueue" for P
    by (metis task_queue.exhaust)
  show ?thesis
    using assms unfolding q
    by (auto simp: waiter_typed_def release_waiter_def close_async_def Let_def split: waitee.splits option.splits)
qed

lemma destroy_waiter_refines:
  assumes repr: "sched_repr s a" and w: "w \<in> set (q_waiters a)"
  shows "\<exists>s'. destroyWaiter w s = Inr s' \<and> sched_repr s' (a\<lparr>q_waiters := remove1 w (q_waiters a)\<rparr>) \<and>
    (\<exists>calls. m_uv s' = m_uv s @ calls) \<and> m_tasks s' = m_tasks s"
proof -
  have tr: "tasks_repr s a" and wr: "waiters_repr s a" using repr by (simp_all add: sched_repr_def)
  let ?a = "a\<lparr>q_waiters := remove1 w (q_waiters a)\<rparr>"
  obtain st h where u: "waiters.unlink w (m_waiterStore s, m_waiters s) = Some (st, h)"
    "waiters.ring st h (remove1 w (q_waiters a))" "\<forall>y. waiter_data (st y) = waiter_data (m_waiterStore s y)"
    using waiters.unlink_ring [OF waiters_reprD(1) [OF wr] w] by blast
  let ?s = "s\<lparr>m_waiters := h, m_waiterStore := st\<rparr>"
  have same: "waiter_typed (st y) = waiter_typed (m_waiterStore s y) \<and> w_task (st y) = w_task (m_waiterStore s y)" for y
  proof -
    have "waiter_data (st y) = waiter_data (m_waiterStore s y)" using u(3) by blast
    with waiter_typed_data [OF this] show ?thesis by (simp add: waiter_data_eq)
  qed
  have "waiter_typed (m_waiterStore ?s w)" using same waiters_reprD(4) [OF wr w] by simp
  from release_typed [OF this] obtain s' where s': "release_waiter w ?s = Inr s'" "m_tasks s' = m_tasks s"
    "\<forall>q. queue_head q s' = queue_head q ?s" "m_currentTask s' = m_currentTask s" "m_nextTask s' = m_nextTask s"
    "m_waiters s' = h" "m_waiterStore s' = st" "m_nextWaiter s' = m_nextWaiter s" "\<exists>calls. m_uv s' = m_uv s @ calls"
    by auto
  have heads: "m_readyQueue s' = m_readyQueue s" "m_waitQueue s' = m_waitQueue s" "m_doneQueue s' = m_doneQueue s"
    using s'(3) [rule_format, of ReadyQueue] s'(3) [rule_format, of WaitQueue] s'(3) [rule_format, of DoneQueue]
    by simp_all
  have "tasks_repr s' ?a" by (rule tasks_repr_frame [OF tr]) (simp_all add: s' heads)
  moreover have "waiters_repr s' ?a"
    using u(2) same waiters_reprD(2-5) [OF wr] set_remove1_subset [of w "q_waiters a"]
    by (auto simp: waiters_repr_def s')
  ultimately show ?thesis
    using s'(1,2,9) by (simp add: destroyWaiter_unlink u(1) sched_repr_def)
qed

lemma await_refines:
  assumes repr: "sched_repr s a" and w: "w \<in> set (q_waiters a)"
  shows "rel_result sched_repr (await_waiter w s) (spec_await w a)"
proof -
  have tr: "tasks_repr s a" and wr: "waiters_repr s a" using repr by (simp_all add: sched_repr_def)
  show ?thesis
  proof (cases "q_current a")
    case None
    then show ?thesis
      using tasks_reprD(5) [OF tr] by (simp add: await_waiter_def spec_await_def assignTask_def)
  next
    case (Some c)
    have cur: "m_currentTask s = Some c" using tasks_reprD(5) [OF tr] Some by simp
    have wt: "w_task (m_waiterStore s w) = q_task a w" by (rule waiters_reprD(5) [OF wr w])
    show ?thesis
    proof (cases "q_task a w")
      case None
      let ?s = "modify_waiter w (w_task_update (\<lambda>_. Some c)) s" and ?a = "a\<lparr>q_task := (q_task a)(w := Some c)\<rparr>"
      have "tasks_repr ?s ?a" by (rule tasks_repr_frame [OF tr]) simp_all
      moreover have "waiters.ring (m_waiterStore ?s) (m_waiters s) (q_waiters a)"
        by (rule waiters.ring_cong [OF waiters_reprD(1) [OF wr]]) simp
      then have "waiters_repr ?s ?a"
        using waiters_reprD(2-5) [OF wr] by (auto simp: waiters_repr_def)
      ultimately have "sched_repr ?s ?a" by (simp add: sched_repr_def)
      moreover have "c \<in> set (all_tasks ?a)"
        using tasks_reprD(9) [OF tr Some] by (simp add: all_tasks_def)
      ultimately have "rel_result sched_repr (suspendTask c ?s) (spec_suspend c ?a)"
        by (rule suspend_refines)
      then show ?thesis
        using None Some cur wt by (simp add: await_waiter_def spec_await_def assignTask_def Let_def)
    next
      case (Some d)
      then show ?thesis
        using \<open>q_current a = Some c\<close> cur wt by (simp add: await_waiter_def spec_await_def assignTask_def Let_def)
    qed
  qed
qed

subsection \<open>Selecting a task\<close>

lemma index_in:
  assumes "c \<in> set xs"
  obtains i where "i = length (takeWhile (\<lambda>y. y \<noteq> c) xs)" "i < length xs" "xs ! i = c"
proof -
  have "length (takeWhile (\<lambda>y. y \<noteq> c) xs) < length xs"
    using assms by (induction xs) auto
  moreover from nth_length_takeWhile [OF this] have "xs ! length (takeWhile (\<lambda>y. y \<noteq> c) xs) = c" by simp
  ultimately show ?thesis using that by blast
qed

lemma after_in_mem: "c \<in> set xs \<Longrightarrow> after_in c xs \<in> set xs"
  unfolding after_in_def by (intro nth_mem) (auto intro!: mod_less_divisor dest: length_pos_if_in_set)

lemma after_in_nth:
  assumes "distinct xs" "i < length xs"
  shows "after_in (xs ! i) xs = xs ! (Suc i mod length xs)"
proof -
  obtain j where j: "j = length (takeWhile (\<lambda>y. y \<noteq> xs ! i) xs)" "j < length xs" "xs ! j = xs ! i"
    using index_in [of "xs ! i" xs] assms(2) by auto
  then have "j = i" using assms by (simp add: nth_eq_iff_index_eq)
  with j show ?thesis by (simp add: after_in_def)
qed

lemma ready_next:
  assumes "tasks_repr s a" "q_current a = Some c"
  shows "t_next (m_tasks s c) = (if length (q_ready a) = 1 then None else Some (after_in c (q_ready a)))"
    "length (q_ready a) = 1 \<Longrightarrow> after_in c (q_ready a) = c"
proof -
  have r: "tasks.ring (m_tasks s) (m_readyQueue s) (q_ready a)"
    and c: "c \<in> set (q_ready a)" using tasks_reprD(1) [OF assms(1)] tasks_reprD(9) [OF assms] by simp_all
  obtain i where i: "i = length (takeWhile (\<lambda>y. y \<noteq> c) (q_ready a))" "i < length (q_ready a)" "q_ready a ! i = c"
    using index_in [OF c] .
  consider "q_ready a = [c]" | "2 \<le> length (q_ready a)"
    using c by (cases "q_ready a" rule: consec.cases) auto
  note cases = this
  then show "t_next (m_tasks s c) = (if length (q_ready a) = 1 then None else Some (after_in c (q_ready a)))"
  proof cases
    case 1
    then show ?thesis using r by (simp add: tasks.ring_single)
  next
    case 2
    then show ?thesis
      using tasks.ring_nxt [OF r 2 i(2)] i(1,3) by (simp add: after_in_def)
  qed
  show "length (q_ready a) = 1 \<Longrightarrow> after_in c (q_ready a) = c"
    using cases by cases (simp_all add: after_in_def)
qed

text \<open>Changing the current task and the states of ready tasks keeps the queues.\<close>

lemma select_repr:
  assumes repr: "sched_repr s a" and n: "n \<in> set (q_ready a)"
    and st: "\<And>y. t_prev (st y) = t_prev (m_tasks s y) \<and> t_next (st y) = t_next (m_tasks s y)"
    and ready: "\<And>y. y \<in> set (q_ready a) \<Longrightarrow> t_state (st y) = (if y = n then TaskRunning else TaskReady)"
    and others: "\<And>y. y \<notin> set (q_ready a) \<Longrightarrow> st y = m_tasks s y"
  shows "sched_repr (s\<lparr>m_currentTask := Some n, m_tasks := st\<rparr>) (a\<lparr>q_current := Some n\<rparr>)"
proof -
  have tr: "tasks_repr s a" and wr: "waiters_repr s a" using repr by (simp_all add: sched_repr_def)
  have "tasks.ring st h xs" if "tasks.ring (m_tasks s) h xs" for h xs
    by (rule tasks.ring_cong [OF that]) (rule st)
  moreover have "t_state (st y) = spec_state (a\<lparr>q_current := Some n\<rparr>) y" if "y \<in> set (all_tasks a)" for y
    using that ready [of y] others [of y] tasks_reprD(7) [OF tr that]
    by (cases "y \<in> set (q_ready a)") (auto simp: spec_state_def)
  ultimately have "tasks_repr (s\<lparr>m_currentTask := Some n, m_tasks := st\<rparr>) (a\<lparr>q_current := Some n\<rparr>)"
    using tr n by (simp add: tasks_repr_def all_tasks_def)
  then show ?thesis
    using waiters_repr_frame [OF wr] by (simp add: sched_repr_def)
qed

lemma select_refines:
  assumes repr: "sched_repr s a"
  shows "fst (selectNextReady s) = fst (spec_select a) \<and>
    sched_repr (snd (selectNextReady s)) (snd (spec_select a))"
proof -
  have tr: "tasks_repr s a" using repr by (simp add: sched_repr_def)
  note cur = tasks_reprD(5) [OF tr]
  have st: "t_state (m_tasks s y) = (if q_current a = Some y then TaskRunning else TaskReady)"
    if "y \<in> set (q_ready a)" for y
    using state_of(1) [OF tr that] by (simp add: getState_def)
  have "s\<lparr>m_currentTask := q_current a\<rparr> = s" by (rule update_current_id(2) [OF cur])
  then have unchanged: "sched_repr (s\<lparr>m_currentTask := q_current a\<rparr>) (a\<lparr>q_current := q_current a\<rparr>)" "sched_repr s (a\<lparr>q_current := q_current a\<rparr>)"
    using repr by simp_all
  show ?thesis
  proof (cases "q_current a")
    case None
    show ?thesis
    proof (cases "q_ready a")
      case Nil
      then have "m_readyQueue s = None" using tasks_reprD(1) [OF tr] by simp
      then show ?thesis
        using None Nil cur unchanged by (simp add: selectNextReady_def spec_select_def Let_def)
    next
      case (Cons t ts)
      have "m_readyQueue s = Some t"
        using tasks.ring_head [OF tasks_reprD(1) [OF tr]] Cons by simp
      moreover have "sched_repr (s\<lparr>m_currentTask := Some t,
          m_tasks := (m_tasks s)(t := (m_tasks s t)\<lparr>t_state := TaskRunning\<rparr>)\<rparr>) (a\<lparr>q_current := Some t\<rparr>)"
        using Cons None st by (intro select_repr [OF repr]) auto
      ultimately show ?thesis
        using None Cons cur by (simp add: selectNextReady_def spec_select_def setState_def Let_def)
    qed
  next
    case (Some c)
    note nx = ready_next [OF tr Some]
    show ?thesis
    proof (cases "length (q_ready a) = 1")
      case True
      then show ?thesis
        using Some cur nx unchanged by (simp add: selectNextReady_def spec_select_def Let_def)
    next
      case False
      let ?n = "after_in c (q_ready a)"
      let ?st = "(m_tasks s)(c := (m_tasks s c)\<lparr>t_state := TaskReady\<rparr>)"
      have n: "?n \<in> set (q_ready a)" using after_in_mem [OF tasks_reprD(9) [OF tr Some]] .
      have "c \<in> set (q_ready a)" by (rule tasks_reprD(9) [OF tr Some])
      then have "sched_repr (s\<lparr>m_currentTask := Some ?n,
          m_tasks := ?st(?n := (?st ?n)\<lparr>t_state := TaskRunning\<rparr>)\<rparr>) (a\<lparr>q_current := Some ?n\<rparr>)"
        using Some st n by (intro select_repr [OF repr]) auto
      moreover have "selectNextReady s = (Some ?n, s\<lparr>m_currentTask := Some ?n,
          m_tasks := ?st(?n := (?st ?n)\<lparr>t_state := TaskRunning\<rparr>)\<rparr>)"
        using False Some cur nx(1) by (cases s) (simp add: selectNextReady_def setState_def Let_def)
      ultimately show ?thesis
        using Some by (simp add: spec_select_def Let_def del: fun_upd_apply)
    qed
  qed
qed

subsection \<open>Sequences of operations\<close>

datatype sched_op =
    SelectNextReady | CreateTask | SuspendTask task_ptr | ResumeTask task_ptr
  | TerminateTask task_ptr | DestroyTask task_ptr
  | AddWaiter waitee promise_ptr | AwaitWaiter waiter_ptr | DestroyWaiter waiter_ptr

datatype sched_result =
    Selected "task_ptr option" | Finished | NewTask task_ptr | NewWaiter waiter_ptr | Stopped failure

fun of_result :: "'s \<Rightarrow> failure + 's \<Rightarrow> sched_result \<times> 's" where
  "of_result s (Inl f) = (Stopped f, s)"
| "of_result s (Inr s') = (Finished, s')"

fun of_new :: "(nat \<Rightarrow> sched_result) \<Rightarrow> 's \<Rightarrow> failure + nat \<times> 's \<Rightarrow> sched_result \<times> 's" where
  "of_new c s (Inl f) = (Stopped f, s)"
| "of_new c s (Inr (x, s')) = (c x, s')"

fun sched_step :: "sched_op \<Rightarrow> system_scheduler \<Rightarrow> sched_result \<times> system_scheduler" where
  "sched_step SelectNextReady s = (Selected (fst (selectNextReady s)), snd (selectNextReady s))"
| "sched_step CreateTask s = of_new NewTask s (createTask s)"
| "sched_step (SuspendTask t) s = of_result s (suspendTask t s)"
| "sched_step (ResumeTask t) s = of_result s (resumeTask t s)"
| "sched_step (TerminateTask t) s = of_result s (terminateTask t s)"
| "sched_step (DestroyTask t) s = of_result s (destroyTask t s)"
| "sched_step (AddWaiter x p) s = of_new NewWaiter s (add_waiter x p s)"
| "sched_step (AwaitWaiter w) s = of_result s (await_waiter w s)"
| "sched_step (DestroyWaiter w) s = of_result s (destroyWaiter w s)"

fun queues_step :: "sched_op \<Rightarrow> queues \<Rightarrow> sched_result \<times> queues" where
  "queues_step SelectNextReady a = (Selected (fst (spec_select a)), snd (spec_select a))"
| "queues_step CreateTask a = of_new NewTask a (spec_create a)"
| "queues_step (SuspendTask t) a = of_result a (spec_suspend t a)"
| "queues_step (ResumeTask t) a = of_result a (spec_resume t a)"
| "queues_step (TerminateTask t) a = of_result a (spec_terminate t a)"
| "queues_step (DestroyTask t) a = of_result a (spec_destroy t a)"
| "queues_step (AddWaiter x p) a = of_new NewWaiter a (spec_add_waiter a)"
| "queues_step (AwaitWaiter w) a = of_result a (spec_await w a)"
| "queues_step (DestroyWaiter w) a = of_result a (spec_destroy_waiter w a)"

text \<open>Operations take pointers to objects that have not been destroyed.\<close>

fun live_op :: "sched_op \<Rightarrow> queues \<Rightarrow> bool" where
  "live_op (SuspendTask t) a \<longleftrightarrow> t \<in> set (all_tasks a)"
| "live_op (ResumeTask t) a \<longleftrightarrow> t \<in> set (all_tasks a)"
| "live_op (TerminateTask t) a \<longleftrightarrow> t \<in> set (all_tasks a)"
| "live_op (DestroyTask t) a \<longleftrightarrow> t \<in> set (all_tasks a)"
| "live_op (AwaitWaiter w) a \<longleftrightarrow> w \<in> set (q_waiters a)"
| "live_op (DestroyWaiter w) a \<longleftrightarrow> w \<in> set (q_waiters a)"
| "live_op _ a \<longleftrightarrow> True"

lemma of_result_rel:
  assumes "rel_result R r q" "\<And>s' a'. R s' a' \<Longrightarrow> sched_repr s' a'" "sched_repr s a"
  shows "fst (of_result s r) = fst (of_result a q) \<and> sched_repr (snd (of_result s r)) (snd (of_result a q))"
  using assms by (cases r; cases q) auto

lemma sched_step_refines:
  assumes r: "sched_repr s a" and v: "live_op op a"
  shows "fst (sched_step op s) = fst (queues_step op a) \<and>
    sched_repr (snd (sched_step op s)) (snd (queues_step op a))"
proof (cases op)
  case SelectNextReady
  then show ?thesis using select_refines [OF r] by simp
next
  case CreateTask
  then show ?thesis
    using create_refines [of s a False] r by (auto simp: sched_repr_def createTask_def spec_create_def)
next
  case (SuspendTask t)
  then show ?thesis using of_result_rel [OF suspend_refines [OF r]] r v by simp
next
  case (ResumeTask t)
  then show ?thesis using of_result_rel [OF resume_refines [OF r]] r v by simp
next
  case (TerminateTask t)
  then show ?thesis using of_result_rel [OF terminate_refines [OF r]] r v by simp
next
  case (DestroyTask t)
  then show ?thesis using of_result_rel [OF destroy_refines [OF r]] r v by simp
next
  case (AddWaiter x p)
  then show ?thesis using add_waiter_refines [OF r, of x p] by auto
next
  case (AwaitWaiter w)
  then show ?thesis using of_result_rel [OF await_refines [OF r]] r v by simp
next
  case (DestroyWaiter w)
  then show ?thesis
    using destroy_waiter_refines [OF r, of w] v by (auto simp: spec_destroy_waiter_def)
qed

interpretation sched: simulation sched_repr live_op sched_step queues_step
  by unfold_locales (rule sched_step_refines)

definition initial_queues :: queues where
  "initial_queues = \<lparr>q_ready = [], q_waiting = [0], q_done = [], q_current = None, q_nextTask = 1,
     q_waiters = [], q_nextWaiter = 0, q_task = (\<lambda>_. None)\<rparr>"

lemma new_scheduler_repr: "\<exists>s. new_scheduler = Inr s \<and> sched_repr s initial_queues \<and> m_uv s = []"
proof -
  let ?a = "\<lparr>q_ready = [], q_waiting = [], q_done = [], q_current = None, q_nextTask = 0,
     q_waiters = [], q_nextWaiter = 0, q_task = (\<lambda>_. None)\<rparr>"
  have "tasks_repr empty_scheduler ?a" "waiters_repr empty_scheduler ?a"
    by (simp_all add: empty_scheduler_def tasks_repr_def waiters_repr_def all_tasks_def)
  from create_refines [OF this, of True] obtain s' where s':
    "add_waiting_task True empty_scheduler = Inr (0, s')" "sched_repr s' initial_queues" "m_uv s' = []"
    by (auto simp: initial_queues_def empty_scheduler_def)
  have "sched_repr (s'\<lparr>m_mainTask := 0\<rparr>) initial_queues"
    using s'(2) by (simp add: sched_repr_def tasks_repr_def waiters_repr_def)
  then show ?thesis using s'(1,3) by (simp add: new_scheduler_def)
qed

subsection \<open>The destructor\<close>

lemma drain_ends:
  assumes "\<And>s. P [] s \<Longrightarrow> head s = None"
    and "\<And>x xs s. P (x # xs) s \<Longrightarrow> head s = Some x \<and> (\<exists>s'. operation x s = Inr s' \<and> P xs s')"
  shows "P xs s \<Longrightarrow> \<exists>s'. drain head operation s = Some (Inr s') \<and> P [] s'"
proof (induction xs arbitrary: s)
  case Nil
  then show ?case using assms(1) by (subst drain.simps) simp
next
  case (Cons x xs)
  then obtain s' where "head s = Some x" "operation x s = Inr s'" "P xs s'" using assms(2) by blast
  then show ?case using Cons.IH by (subst drain.simps) simp
qed

definition signals :: "(task_ptr \<Rightarrow> task) \<Rightarrow> task_ptr list \<Rightarrow> uv_call list" where
  "signals st ts = concat (map (\<lambda>t. monitor_calls (st t)) ts)"

definition draining :: "uv_call list \<Rightarrow> task_ptr list \<Rightarrow> task_ptr list \<Rightarrow> waiter_ptr list \<Rightarrow> system_scheduler \<Rightarrow> bool" where
  "draining sent rs ws waiters s \<longleftrightarrow>
    (\<exists>a. sched_repr s a \<and> q_ready a = rs \<and> q_waiting a = ws \<and> q_waiters a = waiters \<and>
       m_uv s @ signals (m_tasks s) (rs @ ws) = sent)"

lemma draining_terminate:
  assumes d: "draining sent (contents ReadyQueue b) (contents WaitQueue b) waiters s"
    and q: "contents q b = t # ts" "q \<noteq> DoneQueue" and first: "q = WaitQueue \<Longrightarrow> q_ready b = []"
  shows "queue_head q s = Some t \<and> (\<exists>s'. terminateTask t s = Inr s' \<and>
    draining sent (contents ReadyQueue (set_contents q ts b)) (contents WaitQueue (set_contents q ts b)) waiters s')"
proof -
  obtain a where a: "sched_repr s a" "q_ready a = q_ready b" "q_waiting a = q_waiting b" "q_waiters a = waiters"
    "m_uv s @ signals (m_tasks s) (q_ready b @ q_waiting b) = sent" using d by (auto simp: draining_def)
  have tr: "tasks_repr s a" using a(1) by (simp add: sched_repr_def)
  have qa: "contents q a = t # ts" using q a(2,3) by (cases q) simp_all
  have head: "queue_head q s = Some t"
    using tasks.ring_head [OF tasks_repr_queue [OF tr, of q]] qa by simp
  obtain s' where s': "terminateTask t s = Inr s'" "sched_repr s' (moved t q DoneQueue a)"
    "m_uv s' = m_uv s @ monitor_calls (m_tasks s t)"
    "\<forall>y. t_monitor (m_tasks s' y) = (if y = t then None else t_monitor (m_tasks s y))"
    using terminate_live [OF a(1) _ q(2), of t] qa by auto
  have dist: "distinct (q_ready a @ q_waiting a)"
    using tasks_reprD(4) [OF tr] by (auto simp: all_tasks_def)
  have same: "signals (m_tasks s') ys = signals (m_tasks s) ys" if "t \<notin> set ys" for ys
    using that s'(4) by (induction ys) (auto simp: signals_def monitor_calls_def)
  have "m_uv s' @ signals (m_tasks s') (contents ReadyQueue (set_contents q ts b) @ contents WaitQueue (set_contents q ts b)) = sent"
    using q qa dist a(2,3,5) s'(3) first same
    by (cases q) (auto simp: signals_def)
  moreover have "q_ready (moved t q DoneQueue a) = contents ReadyQueue (set_contents q ts b)"
    "q_waiting (moved t q DoneQueue a) = contents WaitQueue (set_contents q ts b)"
    using q qa a(2,3) by (cases q; simp add: moved_def)+
  ultimately show ?thesis
    using head s'(1,2) a(4) by (auto simp: draining_def)
qed

definition drained :: "uv_call list \<Rightarrow> task_ptr list \<Rightarrow> waiter_ptr list \<Rightarrow> system_scheduler \<Rightarrow> bool" where
  "drained sent ds ws s \<longleftrightarrow>
    (\<exists>a. sched_repr s a \<and> q_ready a = [] \<and> q_waiting a = [] \<and> q_done a = ds \<and> q_waiters a = ws \<and>
       (\<exists>calls. m_uv s = sent @ calls))"

lemma drained_destroy_task:
  assumes "drained sent (t # ds) ws s"
  shows "m_doneQueue s = Some t \<and> (\<exists>s'. destroyTask t s = Inr s' \<and> drained sent ds ws s')"
proof -
  obtain a where a: "sched_repr s a" "q_ready a = []" "q_waiting a = []" "q_done a = t # ds" "q_waiters a = ws"
    "\<exists>calls. m_uv s = sent @ calls" using assms by (auto simp: drained_def)
  have "tasks_repr s a" using a(1) by (simp add: sched_repr_def)
  then have "m_doneQueue s = Some t"
    using tasks.ring_head [OF tasks_reprD(3), of s a] a(4) by simp
  moreover have "t \<in> set (all_tasks a)" using a(4) by (simp add: all_tasks_def)
  from destroy_refines [OF a(1) this]
  have "\<exists>s'. destroyTask t s = Inr s' \<and> sched_repr s' (a\<lparr>q_done := ds\<rparr>) \<and> m_uv s' = m_uv s"
    using a(4) by (cases "destroyTask t s") (auto simp: spec_destroy_def)
  moreover have "drained sent ds ws s'" if "sched_repr s' (a\<lparr>q_done := ds\<rparr>)" "m_uv s' = m_uv s" for s'
    unfolding drained_def using that a by (intro exI [of _ "a\<lparr>q_done := ds\<rparr>"]) auto
  ultimately show ?thesis by blast
qed

lemma drained_destroy_waiter:
  assumes "drained sent [] (w # ws) s"
  shows "m_waiters s = Some w \<and> (\<exists>s'. destroyWaiter w s = Inr s' \<and> drained sent [] ws s')"
proof -
  obtain a where a: "sched_repr s a" "q_ready a = []" "q_waiting a = []" "q_done a = []" "q_waiters a = w # ws"
    "\<exists>calls. m_uv s = sent @ calls" using assms by (auto simp: drained_def)
  have "m_waiters s = Some w"
    using waiters.ring_head [OF waiters_reprD(1), of s a] a(1,5) by (simp add: sched_repr_def)
  moreover obtain s' where "destroyWaiter w s = Inr s'" "sched_repr s' (a\<lparr>q_waiters := ws\<rparr>)"
    "\<exists>calls. m_uv s' = m_uv s @ calls"
    using destroy_waiter_refines [OF a(1), of w] a(5) by auto
  moreover from this have "drained sent [] ws s'"
    unfolding drained_def using a(2-6) by (intro exI [of _ "a\<lparr>q_waiters := ws\<rparr>"]) auto
  ultimately show ?thesis by blast
qed

lemma drained_empty:
  assumes "drained sent [] [] s"
  shows "m_readyQueue s = None" "m_waitQueue s = None" "m_doneQueue s = None" "m_waiters s = None"
    "m_currentTask s = None" "\<exists>calls. m_uv s = sent @ calls"
proof -
  obtain a where a: "tasks_repr s a" "waiters_repr s a" "q_ready a = []" "q_waiting a = []" "q_done a = []"
    "q_waiters a = []" "\<exists>calls. m_uv s = sent @ calls" using assms by (auto simp: drained_def sched_repr_def)
  then have "q_current a = None"
    using tasks_reprD(9) [OF a(1)] by (cases "q_current a") auto
  then show "m_readyQueue s = None" "m_waitQueue s = None" "m_doneQueue s = None" "m_waiters s = None"
    "m_currentTask s = None" "\<exists>calls. m_uv s = sent @ calls"
    using a tasks_reprD(1-3,5) [OF a(1)] waiters_reprD(1) [OF a(2)] by simp_all
qed

lemma drain_tasks:
  assumes "sched_repr s a"
  shows "\<exists>s1 s2 s3. drain m_readyQueue terminateTask s = Some (Inr s1) \<and>
    drain m_waitQueue terminateTask s1 = Some (Inr s2) \<and> drain m_doneQueue destroyTask s2 = Some (Inr s3) \<and>
    drained (m_uv s @ signals (m_tasks s) (q_ready a @ q_waiting a)) [] (q_waiters a) s3"
proof -
  let ?sent = "m_uv s @ signals (m_tasks s) (q_ready a @ q_waiting a)"
  have head: "m_readyQueue s = None" if "draining sent [] ws waiters s" for sent ws waiters s
    using that tasks_reprD(1) by (fastforce simp: draining_def sched_repr_def)
  have headw: "m_waitQueue s = None" if "draining sent [] [] waiters s" for sent waiters s
    using that tasks_reprD(2) by (fastforce simp: draining_def sched_repr_def)
  have headd: "m_doneQueue s = None" if "drained sent [] waiters s" for sent waiters s
    using that tasks_reprD(3) by (fastforce simp: drained_def sched_repr_def)
  have "draining ?sent (q_ready a) (q_waiting a) (q_waiters a) s"
    using assms by (auto simp: draining_def)
  then obtain s1 where s1: "drain m_readyQueue terminateTask s = Some (Inr s1)"
    "draining ?sent [] (q_waiting a) (q_waiters a) s1"
    using drain_ends [of "\<lambda>rs. draining ?sent rs (q_waiting a) (q_waiters a)" m_readyQueue terminateTask] head
      draining_terminate [of ?sent "a\<lparr>q_ready := _\<rparr>" "q_waiters a" _ ReadyQueue]
    by simp metis
  then obtain s2 where s2: "drain m_waitQueue terminateTask s1 = Some (Inr s2)"
    "draining ?sent [] [] (q_waiters a) s2"
    using drain_ends [of "\<lambda>ws. draining ?sent [] ws (q_waiters a)" m_waitQueue terminateTask] headw
      draining_terminate [of ?sent "a\<lparr>q_ready := [], q_waiting := _\<rparr>" "q_waiters a" _ WaitQueue]
    by simp metis
  then obtain b where b: "sched_repr s2 b" "q_ready b = []" "q_waiting b = []" "q_waiters b = q_waiters a"
    "m_uv s2 = ?sent" by (auto simp: draining_def signals_def)
  have "drained ?sent (q_done b) (q_waiters a) s2"
    unfolding drained_def by (intro exI [of _ b] conjI exI [of _ "[]"]) (simp_all add: b)
  then obtain s3 where "drain m_doneQueue destroyTask s2 = Some (Inr s3)" "drained ?sent [] (q_waiters a) s3"
    using drain_ends [of "\<lambda>ds. drained ?sent ds (q_waiters a)" m_doneQueue destroyTask] headd
      drained_destroy_task by metis
  then show ?thesis using s1(1) s2(1) by blast
qed

lemma drain_waiters:
  assumes "drained sent [] ws s"
  shows "\<exists>s'. drain m_waiters destroyWaiter s = Some (Inr s') \<and> drained sent [] [] s'"
  using drain_ends [of "\<lambda>ws. drained sent [] ws" m_waiters destroyWaiter] drained_empty(4)
    drained_destroy_waiter assms by metis

subsection \<open>Properties of the scheduler\<close>

text \<open>C9. From a new scheduler, every sequence of operations on live tasks and waiters gives the
  results of the same operations on queues that are lists, the failures included, and the linked
  queues, the states of the tasks and the current task stay those of the lists.\<close>

theorem scheduler_refines_queues:
  assumes "valid_run live_op queues_step os initial_queues"
  shows "\<exists>s. new_scheduler = Inr s \<and>
    fst (run_ops sched_step os s) = fst (run_ops queues_step os initial_queues) \<and>
    sched_repr (snd (run_ops sched_step os s)) (snd (run_ops queues_step os initial_queues))"
  using new_scheduler_repr sched.run [OF _ assms] by blast

theorem scheduler_refines_queues_witness:
  "\<exists>s. new_scheduler = Inr s \<and>
    fst (run_ops sched_step [ResumeTask 0, CreateTask, SelectNextReady, ResumeTask 1, SelectNextReady, AddWaiter (HandleWaitee 5) 0, AwaitWaiter 0] s)
      = [Finished, NewTask 1, Selected (Some 0), Finished, Selected (Some 1), NewWaiter 0, Finished]"
proof -
  let ?ops = "[ResumeTask 0, CreateTask, SelectNextReady, ResumeTask 1, SelectNextReady, AddWaiter (HandleWaitee 5) 0, AwaitWaiter 0]"
  note defs = initial_queues_def all_tasks_def spec_resume_def spec_create_def spec_select_def
    spec_add_waiter_def spec_await_def spec_suspend_def after_in_def Let_def
  have "valid_run live_op queues_step ?ops initial_queues" by (simp add: defs)
  from scheduler_refines_queues [OF this] obtain s where "new_scheduler = Inr s"
    "fst (run_ops sched_step ?ops s) = fst (run_ops queues_step ?ops initial_queues)" by blast
  moreover have "fst (run_ops queues_step ?ops initial_queues)
      = [Finished, NewTask 1, Selected (Some 0), Finished, Selected (Some 1), NewWaiter 0, Finished]"
    by (simp add: defs)
  ultimately show ?thesis by metis
qed

text \<open>C24. While no task is suspended, resumed or terminated, \<open>selectNextReady\<close> runs the ready tasks
  in turn: from the \<open>i\<close>th task of the ready queue, \<open>k\<close> selections lead to the task \<open>k\<close> places
  further, cyclically; so each ready task runs once in as many selections as there are tasks.\<close>

theorem select_round_robin:
  assumes "sched_repr s a" "m_currentTask s = Some (q_ready a ! i)" "i < length (q_ready a)"
  shows "m_currentTask (((\<lambda>s. snd (selectNextReady s)) ^^ k) s)
    = Some (q_ready a ! ((i + k) mod length (q_ready a)))"
proof -
  let ?s = "\<lambda>k. ((\<lambda>s. snd (selectNextReady s)) ^^ k) s"
  have "sched_repr (?s k) (a\<lparr>q_current := Some (q_ready a ! ((i + k) mod length (q_ready a)))\<rparr>)"
  proof (induction k)
    case 0
    have "q_current a = Some (q_ready a ! i)"
      using assms(1,2) by (simp add: sched_repr_def tasks_repr_def)
    then have "a\<lparr>q_current := Some (q_ready a ! i)\<rparr> = a" by (cases a) simp
    then show ?case using assms(1,3) by simp
  next
    case (Suc k)
    have "distinct (q_ready a)" using assms(1) by (simp add: sched_repr_def tasks_repr_def all_tasks_def)
    moreover have "(i + k) mod length (q_ready a) < length (q_ready a)" using assms(3) by (intro mod_less_divisor) auto
    ultimately have "after_in (q_ready a ! ((i + k) mod length (q_ready a))) (q_ready a)
        = q_ready a ! ((i + Suc k) mod length (q_ready a))"
      by (simp add: after_in_nth mod_Suc_eq)
    then show ?case using select_refines [OF Suc] by (simp add: spec_select_def Let_def)
  qed
  then show ?thesis by (simp add: sched_repr_def tasks_repr_def)
qed

theorem select_round_robin_witness:
  "\<exists>s. m_currentTask s = Some 0 \<and> m_currentTask (((\<lambda>s. snd (selectNextReady s)) ^^ 2) s) = Some 2"
proof -
  let ?ops = "[ResumeTask 0, CreateTask, CreateTask, ResumeTask 1, ResumeTask 2, SelectNextReady]"
  let ?a = "snd (run_ops queues_step ?ops initial_queues)"
  note defs = initial_queues_def all_tasks_def spec_resume_def spec_create_def spec_select_def Let_def
  have "valid_run live_op queues_step ?ops initial_queues" by (simp add: defs)
  then obtain s where r: "sched_repr (snd (run_ops sched_step ?ops s)) ?a"
    using sched.run new_scheduler_repr by blast
  have a: "q_ready ?a = [0, 1, 2]" "q_current ?a = Some 0" by (simp_all add: defs)
  have "m_currentTask (snd (run_ops sched_step ?ops s)) = Some 0"
    using r a(2) by (simp only: sched_repr_def tasks_repr_def)
  then show ?thesis using select_round_robin [OF r, of 0 2] a(1) by auto
qed

text \<open>C29. The loops of the destructor end, whatever the queues hold: no task and no waiter is left,
  nothing is running, and the monitors of the tasks that were ready or waiting have been
  signalled, in the order of the queues.\<close>

theorem destructor_drains:
  assumes "sched_repr s a"
  shows "\<exists>s' calls. destroy_scheduler s = Some (Inr s') \<and>
    m_readyQueue s' = None \<and> m_waitQueue s' = None \<and> m_doneQueue s' = None \<and> m_waiters s' = None \<and>
    m_currentTask s' = None \<and>
    m_uv s' = m_uv s @ signals (m_tasks s) (q_ready a @ q_waiting a) @ calls"
proof -
  obtain s1 s2 s3 where d: "drain m_readyQueue terminateTask s = Some (Inr s1)"
    "drain m_waitQueue terminateTask s1 = Some (Inr s2)" "drain m_doneQueue destroyTask s2 = Some (Inr s3)"
    "drained (m_uv s @ signals (m_tasks s) (q_ready a @ q_waiting a)) [] (q_waiters a) s3"
    using drain_tasks [OF assms] by blast
  obtain s' where s': "drain m_waiters destroyWaiter s3 = Some (Inr s')"
    "drained (m_uv s @ signals (m_tasks s) (q_ready a @ q_waiting a)) [] [] s'"
    using drain_waiters [OF d(4)] by blast
  note e = drained_empty [OF s'(2)]
  have "destroy_scheduler s = Some (Inr s')"
    using e(1,2,4) by (simp add: destroy_scheduler_def after_def d(1,2,3) s'(1))
  then show ?thesis using e by auto
qed

theorem destructor_drains_witness:
  "\<exists>s s' calls. new_scheduler = Inr s \<and> destroy_scheduler s = Some (Inr s') \<and> m_waitQueue s = Some 0 \<and>
    m_waitQueue s' = None \<and> m_uv s' = calls"
proof -
  obtain s where s: "new_scheduler = Inr s" "sched_repr s initial_queues" using new_scheduler_repr by blast
  have "m_waitQueue s = Some 0"
    using tasks.ring_head [OF tasks_reprD(2), of s initial_queues] s(2)
    by (simp add: sched_repr_def initial_queues_def)
  then show ?thesis using destructor_drains [OF s(2)] s(1) by auto
qed

text \<open>Completing a waiter resumes its task without checking that the task still lives: a task
  that was terminated while it waited makes \<open>resumeTask\<close> end the process with a fatal message.\<close>

theorem resume_terminated_is_fatal:
  assumes "sched_repr s a" "t \<in> set (q_ready a) \<union> set (q_waiting a)"
  shows "\<exists>s'. terminateTask t s = Inr s' \<and> resumeTask t s' = Inl LoggedFatal \<and>
    suspendTask t s' = Inl LoggedFatal \<and> terminateTask t s' = Inl LoggedFatal"
proof -
  have all: "t \<in> set (all_tasks a)" using assms(2) by (auto simp: all_tasks_def)
  have tr: "tasks_repr s a" using assms(1) by (simp add: sched_repr_def)
  obtain q where q: "t \<in> set (contents q a)" "q \<noteq> DoneQueue"
    using assms(2) by (metis UnE contents.simps(1,2) task_queue.distinct)
  obtain s' where s': "terminateTask t s = Inr s'" "sched_repr s' (moved t q DoneQueue a)"
    using terminate_live [OF assms(1) q] by blast
  have tr': "tasks_repr s' (moved t q DoneQueue a)" using s'(2) by (simp add: sched_repr_def)
  have "t \<in> set (contents DoneQueue (moved t q DoneQueue a))"
    unfolding moved_simps(1) [OF q(2)] by simp
  then have "getState t s' = TaskDone" using state_of(3) [OF tr'] by simp
  then show ?thesis
    using s'(1) by (simp add: resumeTask_def suspendTask_def terminateTask_def)
qed

theorem resume_terminated_is_fatal_witness:
  "\<exists>s s'. new_scheduler = Inr s \<and> terminateTask 0 s = Inr s' \<and> resumeTask 0 s' = Inl LoggedFatal"
proof -
  obtain s where "new_scheduler = Inr s" "sched_repr s initial_queues" using new_scheduler_repr by blast
  then show ?thesis using resume_terminated_is_fatal [of s initial_queues 0] by (auto simp: initial_queues_def)
qed

end
