(* ===== verification/Promise.thy ===== *)
theory Promise
  imports Scheduler
begin

text \<open>
  Promises (\<open>lyric_runtime/promise.h\<close>, \<open>promise.cpp\<close>) and the functions of the scheduler that
  connect them with waiters (\<open>register*\<close> and \<open>Waiter::complete\<close> of \<open>system_scheduler.cpp\<close>).

  A promise is an object in a store, like tasks and waiters, in a state that also has the
  scheduler. The virtual \<open>PromiseOperations\<close> of a promise are looked up in the environment \<open>E\<close>,
  the argument of what calls them; \<open>default_ops\<close> are those of the base class, and the callback
  that \<open>AcceptWrapperOps\<close> wraps is any other. \<open>r_dead\<close> has the promises whose last shared pointer
  is gone: a weak pointer to them has expired.
\<close>

datatype promise_state =
    PromiseInitial | PromisePending | PromiseTarget | PromiseForwarded | PromiseWaiting
  | PromiseCompleted | PromiseRejected

type_synonym ops_id = nat

record promise =
  p_ops :: ops_id
  p_dependencies :: "promise_ptr list"
  p_target :: "promise_ptr option"
  p_state :: promise_state
  p_waiter :: "waiter_ptr option"
  p_async :: "async_ptr option"
  p_result :: operand

record runtime =
  r_sched :: system_scheduler
  r_promises :: "promise_ptr \<Rightarrow> promise"
  r_nextPromise :: promise_ptr
  r_dead :: "promise_ptr list"

record promise_operations =
  onAccept :: "promise_ptr \<Rightarrow> waiter_ptr \<Rightarrow> runtime \<Rightarrow> runtime"
  onPartial :: "promise_ptr list \<Rightarrow> async_ptr option \<Rightarrow> runtime \<Rightarrow> runtime"

type_synonym ops_env = "ops_id \<Rightarrow> promise_operations"

text \<open>\<open>PromiseOperations\<close>: accept nothing, signal the handle at once. The handle of a target is not
  null; \<open>done->sendSignal\<close> on a null handle has no behaviour to model.\<close>

definition signal_done :: "async_ptr option \<Rightarrow> runtime \<Rightarrow> runtime" where
  "signal_done async s =
    (case async of None \<Rightarrow> s | Some a \<Rightarrow> s\<lparr>r_sched := snd (sendSignal a (r_sched s))\<rparr>)"

definition default_ops :: promise_operations where
  "default_ops = \<lparr>onAccept = (\<lambda>promise waiter s. s), onPartial = (\<lambda>deps async s. signal_done async s)\<rparr>"

definition accept_wrapper_ops :: "(promise_ptr \<Rightarrow> waiter_ptr \<Rightarrow> runtime \<Rightarrow> runtime) \<Rightarrow> promise_operations" where
  "accept_wrapper_ops accept = default_ops\<lparr>onAccept := accept\<rparr>"

subsection \<open>Creation\<close>

definition new_promise :: "ops_id \<Rightarrow> promise" where
  "new_promise ops_of =
     \<lparr>p_ops = ops_of, p_dependencies = [], p_target = None, p_state = PromiseInitial, p_waiter = None,
      p_async = None, p_result = empty_operand\<rparr>"

abbreviation modify_promise :: "promise_ptr \<Rightarrow> (promise \<Rightarrow> promise) \<Rightarrow> runtime \<Rightarrow> runtime" where
  "modify_promise p f s \<equiv> s\<lparr>r_promises := (r_promises s)(p := f (r_promises s p))\<rparr>"

definition create_promise :: "ops_id \<Rightarrow> runtime \<Rightarrow> promise_ptr \<times> runtime" where
  "create_promise ops_of s =
    (let p = r_nextPromise s
     in (p, s\<lparr>r_promises := (r_promises s)(p := new_promise ops_of), r_nextPromise := p + 1\<rparr>))"

definition getPromiseState :: "promise_ptr \<Rightarrow> runtime \<Rightarrow> promise_state" where
  "getPromiseState p s = p_state (r_promises s p)"

definition getResult :: "promise_ptr \<Rightarrow> runtime \<Rightarrow> operand" where
  "getResult p s = p_result (r_promises s p)"

subsection \<open>Waiting for a promise\<close>

definition pending :: "waiter_ptr \<Rightarrow> promise_ptr \<Rightarrow> runtime \<Rightarrow> interp_status \<times> runtime" where
  "pending w p s =
    (if p_state (r_promises s p) \<noteq> PromiseInitial then (runtime_invariant, s)
     else if p_waiter (r_promises s p) \<noteq> None then (NotOk AssertionFailed, s)
     else
       let s = modify_promise p (p_waiter_update (\<lambda>_. Some w)) s
       in (Ok, modify_promise p (p_state_update (\<lambda>_. PromisePending)) s))"

definition target_promise :: "async_ptr \<Rightarrow> waiter_ptr \<Rightarrow> promise_ptr \<Rightarrow> runtime \<Rightarrow> interp_status \<times> runtime" where
  "target_promise async w p s =
    (if p_state (r_promises s p) \<noteq> PromiseInitial then (runtime_invariant, s)
     else if p_waiter (r_promises s p) \<noteq> None then (NotOk AssertionFailed, s)
     else if p_async (r_promises s p) \<noteq> None then (NotOk AssertionFailed, s)
     else
       let s = modify_promise p (p_waiter_update (\<lambda>_. Some w)) s;
           s = modify_promise p (p_async_update (\<lambda>_. Some async)) s
       in (Ok, modify_promise p (p_state_update (\<lambda>_. PromiseTarget)) s))"

definition expired :: "promise_ptr option \<Rightarrow> runtime \<Rightarrow> bool" where
  "expired weak s = (case weak of None \<Rightarrow> True | Some t \<Rightarrow> t \<in> set (r_dead s))"

definition forward :: "promise_ptr \<Rightarrow> promise_ptr \<Rightarrow> runtime \<Rightarrow> interp_status \<times> runtime" where
  "forward t p s =
    (if p_state (r_promises s t) \<noteq> PromiseTarget then (runtime_invariant, s)
     else if \<not> expired (p_target (r_promises s p)) s then (runtime_invariant, s)
     else if p_state (r_promises s p) \<in> {PromisePending, PromiseTarget} then
       let s = modify_promise p (p_target_update (\<lambda>_. Some t)) s;
           s = modify_promise t (p_dependencies_update (\<lambda>ds. ds @ [p])) s
       in (Ok, modify_promise p (p_state_update (\<lambda>_. PromiseForwarded)) s)
     else (runtime_invariant, s))"

definition await_promise :: "promise_ptr \<Rightarrow> runtime \<Rightarrow> interp_status \<times> runtime" where
  "await_promise p s =
    (case p_waiter (r_promises s p) of
       None \<Rightarrow> (runtime_invariant, s)
     | Some w \<Rightarrow>
         if p_state (r_promises s p) \<in> {PromisePending, PromiseTarget} then
           (case await_waiter w (r_sched s) of
              Inl f \<Rightarrow> (NotOk f, s)
            | Inr sched \<Rightarrow>
                (Ok, modify_promise p (p_state_update (\<lambda>_. PromiseWaiting)) (s\<lparr>r_sched := sched\<rparr>)))
         else (runtime_invariant, s))"

definition accept :: "ops_env \<Rightarrow> promise_ptr \<Rightarrow> waiter_ptr \<Rightarrow> runtime \<Rightarrow> runtime" where
  "accept E p w s = onAccept (E (p_ops (r_promises s p))) p w s"

subsection \<open>Finishing a promise\<close>

definition notify :: "ops_env \<Rightarrow> promise_ptr \<Rightarrow> runtime \<Rightarrow> interp_status \<times> runtime" where
  "notify E p s =
    (case p_target (r_promises s p) of
       None \<Rightarrow> (Ok, s)
     | Some t \<Rightarrow>
         if t \<in> set (r_dead s) then (Ok, s)
         else
           (case p_state (r_promises s t) of
              PromiseInitial \<Rightarrow> (runtime_invariant, s)
            | PromiseCompleted \<Rightarrow> (Ok, s)
            | PromiseRejected \<Rightarrow> (Ok, s)
            | _ \<Rightarrow>
                (Ok, onPartial (E (p_ops (r_promises s t))) (p_dependencies (r_promises s t))
                       (p_async (r_promises s t)) s)))"

definition set_finished :: "promise_ptr \<Rightarrow> promise_state \<Rightarrow> operand \<Rightarrow> runtime \<Rightarrow> runtime" where
  "set_finished p state result s =
    (let s = modify_promise p (p_result_update (\<lambda>_. result)) s
     in modify_promise p (p_state_update (\<lambda>_. state)) s)"

definition complete_promise :: "ops_env \<Rightarrow> promise_ptr \<Rightarrow> operand \<Rightarrow> runtime \<Rightarrow> interp_status \<times> runtime" where
  "complete_promise E p result s =
    (if \<not> isValid_operand result then (runtime_invariant, s)
     else
       (case p_state (r_promises s p) of
          PromiseInitial \<Rightarrow> (Ok, set_finished p PromiseCompleted result s)
        | PromisePending \<Rightarrow> (Ok, set_finished p PromiseCompleted result s)
        | PromiseTarget \<Rightarrow> (Ok, set_finished p PromiseCompleted result s)
        | PromiseWaiting \<Rightarrow> (Ok, set_finished p PromiseCompleted result s)
        | PromiseForwarded \<Rightarrow> notify E p (set_finished p PromiseCompleted result s)
        | _ \<Rightarrow> (runtime_invariant, s)))"

definition reject_promise :: "ops_env \<Rightarrow> promise_ptr \<Rightarrow> operand \<Rightarrow> runtime \<Rightarrow> interp_status \<times> runtime" where
  "reject_promise E p result s =
    (if getType result \<noteq> TyStatus then (runtime_invariant, s)
     else
       (case p_state (r_promises s p) of
          PromiseInitial \<Rightarrow> (Ok, set_finished p PromiseRejected result s)
        | PromisePending \<Rightarrow> (Ok, set_finished p PromiseRejected result s)
        | PromiseTarget \<Rightarrow> (Ok, set_finished p PromiseRejected result s)
        | PromiseWaiting \<Rightarrow> (Ok, set_finished p PromiseRejected result s)
        | PromiseForwarded \<Rightarrow> notify E p (set_finished p PromiseRejected result s)
        | _ \<Rightarrow> (runtime_invariant, s)))"

definition completed_promise :: "ops_env \<Rightarrow> operand \<Rightarrow> runtime \<Rightarrow> promise_ptr \<times> runtime" where
  "completed_promise E result s =
    (let (p, s) = create_promise 0 s in (p, snd (complete_promise E p result s)))"

definition rejected_promise :: "ops_env \<Rightarrow> operand \<Rightarrow> runtime \<Rightarrow> promise_ptr \<times> runtime" where
  "rejected_promise E result s =
    (let (p, s) = create_promise 0 s in (p, snd (reject_promise E p result s)))"

text \<open>\<open>setReachable\<close> visits the dependencies first: here, the promises whose operations are told, in
  that order. The recursion follows pointers, so \<open>None\<close> stands for one that does not end.\<close>

partial_function (option) reach_all ::
  "(promise_ptr \<Rightarrow> promise) \<Rightarrow> promise_ptr list \<Rightarrow> promise_ptr list option" where
  "reach_all st ps =
    (case ps of
       [] \<Rightarrow> Some []
     | p # ps' \<Rightarrow>
         Option.bind (reach_all st (p_dependencies (st p))) (\<lambda>deps.
         Option.bind (reach_all st ps') (\<lambda>rest. Some (deps @ [p] @ rest))))"

definition setReachable :: "promise_ptr \<Rightarrow> runtime \<Rightarrow> promise_ptr list option" where
  "setReachable p s = reach_all (r_promises s) [p]"

subsection \<open>Registering promises with the scheduler\<close>

text \<open>\<open>malloc\<close> and \<open>uv_*_init\<close> give the handle \<open>h\<close>. \<open>status\<close> of \<open>pending\<close> is not looked at; the
  assertions before it have made sure of it.\<close>

definition make_async :: "uv_handle \<Rightarrow> system_scheduler \<Rightarrow> async_ptr \<times> system_scheduler" where
  "make_async h s =
    (let a = m_nextAsync s
     in (a, s\<lparr>m_asyncs := (m_asyncs s)(a := new_async_handle h), m_nextAsync := a + 1\<rparr>))"

definition make_waiter :: "waitee \<Rightarrow> promise_ptr \<Rightarrow> runtime \<Rightarrow> waiter_ptr \<times> runtime" where
  "make_waiter x p s =
    (let sched = r_sched s; w = m_nextWaiter sched
     in (w, s\<lparr>r_sched := sched\<lparr>m_waiterStore := (m_waiterStore sched)(w := new_waiter x p),
              m_nextWaiter := w + 1\<rparr>\<rparr>))"

definition attach_waiter :: "waiter_ptr \<Rightarrow> runtime \<Rightarrow> failure + runtime" where
  "attach_waiter w s = then_do (attachWaiter w (r_sched s)) (\<lambda>sched. Inr (s\<lparr>r_sched := sched\<rparr>))"

text \<open>A new waiter for the promise, which becomes pending, at the end of the waiters.\<close>

definition register_pending :: "waitee \<Rightarrow> promise_ptr \<Rightarrow> runtime \<Rightarrow> failure + runtime" where
  "register_pending x p s =
    (let (w, s) = make_waiter x p s; (_, s) = pending w p s in attach_waiter w s)"

definition registerAsync :: "uv_handle \<Rightarrow> promise_ptr \<Rightarrow> runtime \<Rightarrow> failure + async_ptr \<times> runtime" where
  "registerAsync h p s =
    (if p_state (r_promises s p) \<noteq> PromiseInitial then Inl AssertionFailed
     else
       let (a, sched) = make_async h (r_sched s)
       in then_do (register_pending (AsyncWaitee a) p (s\<lparr>r_sched := sched\<rparr>)) (\<lambda>s. Inr (a, s)))"

definition registerTarget :: "uv_handle \<Rightarrow> promise_ptr \<Rightarrow> runtime \<Rightarrow> failure + runtime" where
  "registerTarget h p s =
    (if p_state (r_promises s p) \<noteq> PromiseInitial then Inl AssertionFailed
     else
       let (a, sched) = make_async h (r_sched s);
           (w, s) = make_waiter (AsyncWaitee a) p (s\<lparr>r_sched := sched\<rparr>);
           (_, s) = target_promise a w p s
       in attach_waiter w s)"

definition registerWorker :: "uv_handle \<Rightarrow> task_ptr \<Rightarrow> promise_ptr \<Rightarrow> runtime \<Rightarrow> failure + runtime" where
  "registerWorker monitor workerTask p s =
    (if p_state (r_promises s p) \<noteq> PromiseInitial then Inl AssertionFailed
     else then_do (register_pending (HandleWaitee monitor) p s)
       (\<lambda>s. then_do (setMonitor workerTask monitor (r_sched s)) (\<lambda>sched. Inr (s\<lparr>r_sched := sched\<rparr>))))"

definition registerTimer :: "uv_handle \<Rightarrow> promise_ptr \<Rightarrow> runtime \<Rightarrow> failure + runtime" where
  "registerTimer timer p s =
    (if p_state (r_promises s p) \<noteq> PromiseInitial then Inl AssertionFailed
     else register_pending (HandleWaitee timer) p s)"

text \<open>\<open>ret\<close> is what \<open>uv_fs_read\<close> or \<open>uv_fs_write\<close> returned.\<close>

definition register_fs :: "int \<Rightarrow> uv_handle \<Rightarrow> promise_ptr \<Rightarrow> runtime \<Rightarrow> failure + interp_status \<times> runtime" where
  "register_fs ret req p s =
    (if p_state (r_promises s p) \<noteq> PromiseInitial then Inl AssertionFailed
     else if ret < 0 then Inr (runtime_invariant, s\<lparr>r_sched := uv_call (UvFsReqCleanup req) (r_sched s)\<rparr>)
     else then_do (register_pending (ReqWaitee req) p s) (\<lambda>s. Inr (Ok, s)))"

text \<open>\<open>Waiter::complete\<close>, which the callbacks of the event loop run.\<close>

definition complete_waiter :: "ops_env \<Rightarrow> waiter_ptr \<Rightarrow> runtime \<Rightarrow> failure + runtime" where
  "complete_waiter E w s =
    then_do
      (case w_task (m_waiterStore (r_sched s) w) of
         None \<Rightarrow> Inr s
       | Some t \<Rightarrow> then_do (resumeTask t (r_sched s)) (\<lambda>sched. Inr (s\<lparr>r_sched := sched\<rparr>)))
      (\<lambda>s.
         let s = (case w_promise (m_waiterStore (r_sched s) w) of None \<Rightarrow> s | Some p \<Rightarrow> accept E p w s)
         in then_do (destroyWaiter w (r_sched s)) (\<lambda>sched. Inr (s\<lparr>r_sched := sched\<rparr>)))"

definition setPromise :: "promise_ptr \<Rightarrow> task_ptr \<Rightarrow> runtime \<Rightarrow> failure + runtime" where
  "setPromise p t s =
    (if p_state (r_promises s p) \<noteq> PromisePending then Inl AssertionFailed
     else Inr (s\<lparr>r_sched := modify_task t (t_promise_update (\<lambda>_. Some p)) (r_sched s)\<rparr>))"

definition new_runtime :: "system_scheduler \<Rightarrow> runtime" where
  "new_runtime sched =
     \<lparr>r_sched = sched, r_promises = (\<lambda>_. new_promise 0), r_nextPromise = 0, r_dead = []\<rparr>"

end
