(* ===== verification/PromiseLaws.thy ===== *)
theory PromiseLaws
  imports Promise SchedulerRefinement OperandLaws
begin

text \<open>
  The life of promises. \<open>promise_steps\<close> are the steps that the operations of promises and of the
  scheduler are made of, whatever their order; callbacks may take them too. A promise only moves
  forward through its states, its result is set exactly when it is finished, and the dependencies
  never form a cycle unless a target is forwarded to itself. With the scheduler: awaiting a
  promise and completing its waiter resumes the task, and a target is signalled once.
\<close>

subsection \<open>Steps\<close>

fun finished :: "promise_state \<Rightarrow> bool" where
  "finished PromiseCompleted = True"
| "finished PromiseRejected = True"
| "finished _ = False"

inductive promise_steps :: "runtime \<Rightarrow> runtime \<Rightarrow> bool" where
  steps_refl: "promise_steps s s"
| steps_create: "promise_steps s s' \<Longrightarrow> promise_steps s (snd (create_promise i s'))"
| steps_pending: "promise_steps s s' \<Longrightarrow> p < r_nextPromise s' \<Longrightarrow> promise_steps s (snd (pending w p s'))"
| steps_target: "promise_steps s s' \<Longrightarrow> p < r_nextPromise s' \<Longrightarrow> promise_steps s (snd (target_promise a w p s'))"
| steps_forward: "promise_steps s s' \<Longrightarrow> p < r_nextPromise s' \<Longrightarrow> t < r_nextPromise s' \<Longrightarrow> p \<noteq> t \<Longrightarrow>
    promise_steps s (snd (forward t p s'))"
| steps_await: "promise_steps s s' \<Longrightarrow> p < r_nextPromise s' \<Longrightarrow> promise_steps s (snd (await_promise p s'))"
| steps_finish: "promise_steps s s' \<Longrightarrow> p < r_nextPromise s' \<Longrightarrow> \<not> finished (p_state (r_promises s' p)) \<Longrightarrow>
    finished x \<Longrightarrow> isValid_operand v \<Longrightarrow> promise_steps s (set_finished p x v s')"
| steps_expire: "promise_steps s s' \<Longrightarrow> promise_steps s (s'\<lparr>r_dead := p # r_dead s'\<rparr>)"
| steps_sched: "promise_steps s s' \<Longrightarrow> promise_steps s (s'\<lparr>r_sched := sched\<rparr>)"

lemma steps_trans: "promise_steps s' s'' \<Longrightarrow> promise_steps s s' \<Longrightarrow> promise_steps s s''"
  by (induction rule: promise_steps.induct) (auto intro: promise_steps.intros)

definition callbacks_ok :: "ops_env \<Rightarrow> bool" where
  "callbacks_ok E \<longleftrightarrow> (\<forall>i deps a s. promise_steps s (onPartial (E i) deps a s)) \<and>
    (\<forall>i p w s. promise_steps s (onAccept (E i) p w s))"

lemma default_callbacks_ok: "callbacks_ok (\<lambda>_. default_ops)"
  by (auto simp: callbacks_ok_def default_ops_def signal_done_def intro: promise_steps.intros
      split: option.splits)

lemma notify_steps:
  assumes "callbacks_ok E"
  shows "promise_steps s (snd (notify E p s))"
  using assms unfolding notify_def callbacks_ok_def
  by (auto intro: steps_refl split: option.splits promise_state.splits)

lemma status_is_valid: "getType v = TyStatus \<Longrightarrow> isValid_operand v"
  by (cases "get_info_byte v = 0")
    (simp_all add: isValid_operand_def getType_def getOverlay_def get_info_tag_eq)

lemma complete_steps:
  assumes "callbacks_ok E" "p < r_nextPromise s"
  shows "promise_steps s (snd (complete_promise E p v s))"
proof -
  have f: "promise_steps s (set_finished p PromiseCompleted v s)"
    if "isValid_operand v" "\<not> finished (p_state (r_promises s p))"
    using that assms(2) by (intro steps_finish [OF steps_refl]) simp_all
  then have "promise_steps s (snd (notify E p (set_finished p PromiseCompleted v s)))"
    if "isValid_operand v" "\<not> finished (p_state (r_promises s p))"
    using that notify_steps [OF assms(1)] steps_trans by blast
  with f show ?thesis
    by (auto simp: complete_promise_def intro: steps_refl split: promise_state.splits)
qed

lemma reject_steps:
  assumes "callbacks_ok E" "p < r_nextPromise s"
  shows "promise_steps s (snd (reject_promise E p v s))"
proof -
  have f: "promise_steps s (set_finished p PromiseRejected v s)"
    if "getType v = TyStatus" "\<not> finished (p_state (r_promises s p))"
    using that assms(2) status_is_valid by (intro steps_finish [OF steps_refl]) simp_all
  then have "promise_steps s (snd (notify E p (set_finished p PromiseRejected v s)))"
    if "getType v = TyStatus" "\<not> finished (p_state (r_promises s p))"
    using that notify_steps [OF assms(1)] steps_trans by blast
  with f show ?thesis
    by (auto simp: reject_promise_def intro: steps_refl split: promise_state.splits)
qed

subsection \<open>The states of a promise\<close>

fun stage :: "promise_state \<Rightarrow> nat" where
  "stage PromiseInitial = 0"
| "stage PromisePending = 1"
| "stage PromiseTarget = 1"
| "stage PromiseForwarded = 2"
| "stage PromiseWaiting = 2"
| "stage PromiseCompleted = 3"
| "stage PromiseRejected = 3"

definition advanced :: "promise \<Rightarrow> promise \<Rightarrow> bool" where
  "advanced n n' \<longleftrightarrow> p_state n' = p_state n \<and> p_result n' = p_result n \<or> stage (p_state n) < stage (p_state n')"

lemma advanced_trans: "advanced n n' \<Longrightarrow> advanced n' n'' \<Longrightarrow> advanced n n''"
  by (auto simp: advanced_def)

lemma stage_of:
  "\<not> finished x \<Longrightarrow> stage x < 3" "finished x \<Longrightarrow> stage x = 3" "finished x \<longleftrightarrow> \<not> stage x < 3"
  by (cases x; simp)+

lemmas promise_defs = create_promise_def pending_def target_promise_def forward_def await_promise_def
  set_finished_def Let_def

lemma advance_step:
  assumes "r_nextPromise s \<le> r_nextPromise s' \<and>
      (\<forall>p < r_nextPromise s. advanced (r_promises s p) (r_promises s' p))"
    and "r_nextPromise s' \<le> r_nextPromise s''"
    and "\<And>q. q < r_nextPromise s' \<Longrightarrow> advanced (r_promises s' q) (r_promises s'' q)"
  shows "r_nextPromise s \<le> r_nextPromise s'' \<and>
      (\<forall>p < r_nextPromise s. advanced (r_promises s p) (r_promises s'' p))"
  using assms by (meson advanced_trans le_trans less_le_trans)

lemma steps_advance:
  "promise_steps s s' \<Longrightarrow> r_nextPromise s \<le> r_nextPromise s' \<and>
    (\<forall>p < r_nextPromise s. advanced (r_promises s p) (r_promises s' p))"
proof (induction rule: promise_steps.induct)
  case (steps_finish s s' p x v)
  show ?case
    using stage_of(1) [OF steps_finish.hyps(3)] stage_of(2) [OF steps_finish.hyps(4)]
    by (intro advance_step [OF steps_finish.IH]) (auto simp: advanced_def set_finished_def)
next
  case (steps_forward s s' p t)
  show ?case by (intro advance_step [OF steps_forward.IH]) (auto simp: advanced_def forward_def)
next
  case (steps_await s s' p)
  show ?case
    by (intro advance_step [OF steps_await.IH])
      (auto simp: advanced_def await_promise_def split: option.splits sum.splits)
next
  case (steps_pending s s' p w)
  show ?case by (intro advance_step [OF steps_pending.IH]) (auto simp: advanced_def pending_def)
next
  case (steps_target s s' p a w)
  show ?case
    by (intro advance_step [OF steps_target.IH]) (auto simp: advanced_def target_promise_def Let_def)
next
  case (steps_create s s' i)
  show ?case
    by (intro advance_step [OF steps_create.IH]) (auto simp: advanced_def create_promise_def Let_def)
qed (auto simp: advanced_def)

subsection \<open>Dependencies\<close>

definition depends :: "runtime \<Rightarrow> (promise_ptr \<times> promise_ptr) set" where
  "depends s = {(q, t). t < r_nextPromise s \<and> q \<in> set (p_dependencies (r_promises s t))}"

definition promises_ok :: "runtime \<Rightarrow> bool" where
  "promises_ok s \<longleftrightarrow>
    (\<forall>p < r_nextPromise s.
       (finished (p_state (r_promises s p)) \<longleftrightarrow> isValid_operand (p_result (r_promises s p))) \<and>
       (p_state (r_promises s p) = PromiseTarget \<longrightarrow> p_async (r_promises s p) \<noteq> None) \<and>
       (p_target (r_promises s p) \<noteq> None \<longrightarrow>
          p_state (r_promises s p) \<in> {PromiseForwarded, PromiseCompleted, PromiseRejected}) \<and>
       (\<forall>q \<in> set (p_dependencies (r_promises s p)). q < r_nextPromise s \<and> p_target (r_promises s q) = Some p)) \<and>
    acyclic (depends s)"

lemma promises_okD:
  assumes "promises_ok s" "p < r_nextPromise s"
  shows "finished (p_state (r_promises s p)) \<longleftrightarrow> isValid_operand (p_result (r_promises s p))"
    "p_state (r_promises s p) = PromiseTarget \<Longrightarrow> p_async (r_promises s p) \<noteq> None"
    "p_target (r_promises s p) \<noteq> None \<Longrightarrow>
       p_state (r_promises s p) \<in> {PromiseForwarded, PromiseCompleted, PromiseRejected}"
    "q \<in> set (p_dependencies (r_promises s p)) \<Longrightarrow> q < r_nextPromise s \<and> p_target (r_promises s q) = Some p"
  using assms by (auto simp: promises_ok_def)

text \<open>A step that changes no dependency and no target.\<close>

lemma promises_ok_local:
  assumes ok: "promises_ok s" and same: "r_nextPromise s' = r_nextPromise s"
    and links: "\<And>q. p_dependencies (r_promises s' q) = p_dependencies (r_promises s q) \<and>
      p_target (r_promises s' q) = p_target (r_promises s q)"
    and others: "\<And>q. q \<noteq> p \<Longrightarrow> r_promises s' q = r_promises s q"
    and result: "finished (p_state (r_promises s' p)) \<longleftrightarrow> isValid_operand (p_result (r_promises s' p))"
    and async: "p_state (r_promises s' p) = PromiseTarget \<Longrightarrow> p_async (r_promises s' p) \<noteq> None"
    and target: "p_target (r_promises s p) \<noteq> None \<Longrightarrow>
      p_state (r_promises s' p) \<in> {PromiseForwarded, PromiseCompleted, PromiseRejected}"
  shows "promises_ok s'"
proof -
  have "depends s' = depends s" using same links by (auto simp: depends_def)
  moreover have "(finished (p_state (r_promises s' q)) \<longleftrightarrow> isValid_operand (p_result (r_promises s' q))) \<and>
      (p_state (r_promises s' q) = PromiseTarget \<longrightarrow> p_async (r_promises s' q) \<noteq> None) \<and>
      (p_target (r_promises s' q) \<noteq> None \<longrightarrow>
         p_state (r_promises s' q) \<in> {PromiseForwarded, PromiseCompleted, PromiseRejected})"
    if "q < r_nextPromise s" for q
  proof (cases "q = p")
    case True
    then show ?thesis using result async target links [of p] by auto
  next
    case False
    then show ?thesis using others [OF False] promises_okD(1-3) [OF ok that] by auto
  qed
  ultimately show ?thesis
    using ok same links by (auto simp: promises_ok_def)
qed

lemma forward_ok:
  assumes ok: "promises_ok s" and p: "p < r_nextPromise s" "t < r_nextPromise s" "p \<noteq> t"
  shows "promises_ok (snd (forward t p s))"
proof (cases "p_state (r_promises s t) = PromiseTarget \<and> expired (p_target (r_promises s p)) s \<and>
    p_state (r_promises s p) \<in> {PromisePending, PromiseTarget}")
  case False
  then show ?thesis using ok by (auto simp: forward_def)
next
  case True
  let ?s = "snd (forward t p s)"
  let ?ps = "(r_promises s)(p := (r_promises s p)\<lparr>p_target := Some t, p_state := PromiseForwarded\<rparr>,
     t := (r_promises s t)\<lparr>p_dependencies := p_dependencies (r_promises s t) @ [p]\<rparr>)"
  have st: "r_promises ?s = ?ps" "r_nextPromise ?s = r_nextPromise s"
    using True p(3) by (auto simp: forward_def Let_def)
  have none: "p_target (r_promises s p) = None" "p_target (r_promises s t) = None"
    using promises_okD(3) [OF ok p(1)] promises_okD(3) [OF ok p(2)] True
    by (cases "p_target (r_promises s p)"; cases "p_target (r_promises s t)"; auto)+
  have unfinished: "\<not> isValid_operand (p_result (r_promises s p))"
    using promises_okD(1) [OF ok p(1)] True by auto
  have dep: "depends ?s = insert (p, t) (depends s)"
    unfolding depends_def st using p by auto
  have out: "(t, y) \<notin> depends s" for y
    using promises_okD(4) [OF ok, of y t] none(2) by (auto simp: depends_def)
  then have "(t, p) \<notin> (depends s)\<^sup>*" using p(3) by (auto elim: converse_rtranclE)
  then have "acyclic (depends ?s)" using ok dep by (simp add: promises_ok_def acyclic_insert)
  moreover have "q < r_nextPromise s \<and> p_target (?ps q) = Some y"
    if "y < r_nextPromise s" "q \<in> set (p_dependencies (?ps y))" for q y
  proof -
    have "q = p \<and> y = t \<or> q \<in> set (p_dependencies (r_promises s y))"
      using that(2) p(3) by (auto split: if_splits)
    then show ?thesis
      using promises_okD(4) [OF ok that(1), of q] p none by auto
  qed
  ultimately show ?thesis
    unfolding promises_ok_def st using promises_okD(1-3) [OF ok] unfinished none p(3) by auto
qed

lemma create_ok:
  assumes ok: "promises_ok s"
  shows "promises_ok (snd (create_promise i s))"
proof -
  let ?s = "snd (create_promise i s)" and ?p = "r_nextPromise s"
  have old: "r_promises ?s q = r_promises s q" if "q < ?p" for q
    using that by (simp add: create_promise_def Let_def)
  have new: "r_promises ?s ?p = new_promise i" "r_nextPromise ?s = ?p + 1"
    by (simp_all add: create_promise_def Let_def)
  have "depends ?s = depends s"
    unfolding depends_def new(2) using old new(1) by (auto simp: less_Suc_eq new_promise_def)
  moreover have "\<not> isValid_operand (p_result (new_promise i))"
    by (simp add: new_promise_def isValid_operand_def)
  moreover have "p_target (r_promises ?s q) = Some y \<and> q < ?p + 1"
    if "y < ?p" "q \<in> set (p_dependencies (r_promises s y))" for q y
    using promises_okD(4) [OF ok that] old by simp
  ultimately show ?thesis
    using ok old new(1) promises_okD(1-3) [OF ok] unfolding promises_ok_def new(2)
    by (auto simp: less_Suc_eq new_promise_def)
qed

lemma pending_ok:
  assumes ok: "promises_ok s" and p: "p < r_nextPromise s"
  shows "promises_ok (snd (pending w p s))"
proof (cases "p_state (r_promises s p) = PromiseInitial \<and> p_waiter (r_promises s p) = None")
  case True
  then show ?thesis
    using promises_okD(1,3) [OF ok p] by (intro promises_ok_local [OF ok, of _ p]) (auto simp: pending_def)
qed (use ok in \<open>auto simp: pending_def\<close>)

lemma target_ok:
  assumes ok: "promises_ok s" and p: "p < r_nextPromise s"
  shows "promises_ok (snd (target_promise a w p s))"
proof (cases "p_state (r_promises s p) = PromiseInitial \<and> p_waiter (r_promises s p) = None \<and>
    p_async (r_promises s p) = None")
  case True
  then show ?thesis
    using promises_okD(1,3) [OF ok p]
    by (intro promises_ok_local [OF ok, of _ p]) (auto simp: target_promise_def Let_def)
qed (use ok in \<open>auto simp: target_promise_def\<close>)

lemma await_ok:
  assumes ok: "promises_ok s" and p: "p < r_nextPromise s"
  shows "promises_ok (snd (await_promise p s))"
proof (cases "fst (await_promise p s) = Ok")
  case True
  then obtain sched where s': "snd (await_promise p s)
      = modify_promise p (p_state_update (\<lambda>_. PromiseWaiting)) (s\<lparr>r_sched := sched\<rparr>)"
    and st: "p_state (r_promises s p) \<in> {PromisePending, PromiseTarget}"
    by (auto simp: await_promise_def split: option.splits sum.splits if_splits)
  have none: "p_target (r_promises s p) = None" "\<not> isValid_operand (p_result (r_promises s p))"
    using promises_okD(1,3) [OF ok p] st by (cases "p_target (r_promises s p)"; auto)+
  show ?thesis
    unfolding s' by (intro promises_ok_local [OF ok, of _ p]) (simp_all add: none)
next
  case False
  then have "snd (await_promise p s) = s"
    by (auto simp: await_promise_def split: option.splits sum.splits)
  then show ?thesis using ok by simp
qed

lemma finish_ok:
  assumes ok: "promises_ok s" and x: "finished x" "isValid_operand v"
  shows "promises_ok (set_finished p x v s)"
  using x by (intro promises_ok_local [OF ok, of _ p]) (cases x; simp add: set_finished_def Let_def)+

lemma steps_ok: "promise_steps s s' \<Longrightarrow> promises_ok s \<Longrightarrow> promises_ok s'"
  by (induction rule: promise_steps.induct)
    (simp_all add: create_ok pending_ok target_ok forward_ok await_ok finish_ok,
     simp_all add: promises_ok_def depends_def)

subsection \<open>Visiting the dependencies\<close>

lemma reach_all_Nil [simp]: "reach_all st [] = Some []"
  by (subst reach_all.simps) simp

lemma reach_all_Cons:
  "reach_all st (p # ps) =
    Option.bind (reach_all st (p_dependencies (st p))) (\<lambda>deps.
    Option.bind (reach_all st ps) (\<lambda>rest. Some (deps @ [p] @ rest)))"
  by (subst reach_all.simps) simp

lemma reach_all_list:
  assumes "\<And>p. p \<in> set ps \<Longrightarrow> \<exists>qs. reach_all st [p] = Some qs \<and> set qs = R p"
  shows "\<exists>qs. reach_all st ps = Some qs \<and> set qs = (\<Union>p \<in> set ps. R p)"
  using assms
proof (induction ps)
  case (Cons p ps)
  obtain qs where qs: "reach_all st [p] = Some qs" "set qs = R p" using Cons.prems [of p] by auto
  obtain rs where rs: "reach_all st ps = Some rs" "set rs = (\<Union>p \<in> set ps. R p)" using Cons by auto
  obtain ds where ds: "reach_all st (p_dependencies (st p)) = Some ds" "qs = ds @ [p]"
    using qs(1) by (auto simp: reach_all_Cons split: bind_splits)
  show ?case using qs(2) rs ds by (auto simp: reach_all_Cons [of st p ps])
qed simp

lemma reach_all_acyclic:
  assumes ok: "promises_ok s"
  shows "p < r_nextPromise s \<Longrightarrow>
    \<exists>qs. setReachable p s = Some qs \<and> set qs = {q. (q, p) \<in> (depends s)\<^sup>*}"
proof -
  have "depends s \<subseteq> {..<r_nextPromise s} \<times> {..<r_nextPromise s}"
    using promises_okD(4) [OF ok] by (auto simp: depends_def)
  then have "finite (depends s)" by (rule finite_subset) simp
  then have wf: "wf (depends s)" using ok by (simp add: finite_acyclic_wf promises_ok_def)
  show "p < r_nextPromise s \<Longrightarrow> \<exists>qs. setReachable p s = Some qs \<and> set qs = {q. (q, p) \<in> (depends s)\<^sup>*}"
    using wf
  proof (induction p rule: wf_induct_rule)
    case (less t)
    let ?R = "\<lambda>p. {q. (q, p) \<in> (depends s)\<^sup>*}"
    have dep: "(q, t) \<in> depends s \<longleftrightarrow> q \<in> set (p_dependencies (r_promises s t))" for q
      using less.prems by (simp add: depends_def)
    have "\<exists>qs. reach_all (r_promises s) [q] = Some qs \<and> set qs = ?R q"
      if "q \<in> set (p_dependencies (r_promises s t))" for q
      using less.IH [of q] promises_okD(4) [OF ok less.prems that] that
      by (auto simp: dep setReachable_def)
    from reach_all_list [OF this] obtain qs where qs:
      "reach_all (r_promises s) (p_dependencies (r_promises s t)) = Some qs"
      "set qs = (\<Union>q \<in> set (p_dependencies (r_promises s t)). ?R q)" by blast
    have "?R t = insert t (\<Union>q \<in> set (p_dependencies (r_promises s t)). ?R q)"
      by (auto simp: dep [symmetric] elim: rtranclE intro: rtrancl_into_rtrancl)
    then show ?case using qs by (simp add: setReachable_def reach_all_Cons)
  qed
qed

lemma reach_all_loop:
  assumes "reach_all st ps = Some qs"
  shows "\<forall>p. p \<in> set (p_dependencies (st p)) \<longrightarrow> p \<notin> set ps"
proof (rule reach_all.raw_induct [OF _ assms])
  fix f st ps qs
  assume IH: "\<And>(st :: promise_ptr \<Rightarrow> promise) ps qs. f st ps = Some qs \<Longrightarrow>
      \<forall>p. p \<in> set (p_dependencies (st p)) \<longrightarrow> p \<notin> set ps"
    and run: "(case ps of [] \<Rightarrow> Some []
      | p # ps' \<Rightarrow> Option.bind (f st (p_dependencies (st p)))
          (\<lambda>deps. Option.bind (f st ps') (\<lambda>rest. Some (deps @ [p] @ rest)))) = Some qs"
  show "\<forall>p. p \<in> set (p_dependencies (st p)) \<longrightarrow> p \<notin> set ps"
  proof (cases ps)
    case (Cons q qs')
    with run obtain x y where "f st (p_dependencies (st q)) = Some x" "f st qs' = Some y"
      by (auto split: bind_splits)
    with IH Cons show ?thesis by fastforce
  qed simp
qed

subsection \<open>Sequences of calls\<close>

datatype promise_call =
    CallCreate ops_id | CallPending waiter_ptr promise_ptr | CallTarget async_ptr waiter_ptr promise_ptr
  | CallForward promise_ptr promise_ptr | CallAwait promise_ptr | CallComplete promise_ptr operand
  | CallReject promise_ptr operand | CallAccept promise_ptr waiter_ptr | CallExpire promise_ptr
  | CallSched system_scheduler

fun make_call :: "ops_env \<Rightarrow> promise_call \<Rightarrow> runtime \<Rightarrow> interp_status \<times> runtime" where
  "make_call E (CallCreate i) s = (Ok, snd (create_promise i s))"
| "make_call E (CallPending w p) s = pending w p s"
| "make_call E (CallTarget a w p) s = target_promise a w p s"
| "make_call E (CallForward t p) s = forward t p s"
| "make_call E (CallAwait p) s = await_promise p s"
| "make_call E (CallComplete p v) s = complete_promise E p v s"
| "make_call E (CallReject p v) s = reject_promise E p v s"
| "make_call E (CallAccept p w) s = (Ok, accept E p w s)"
| "make_call E (CallExpire p) s = (Ok, s\<lparr>r_dead := p # r_dead s\<rparr>)"
| "make_call E (CallSched sched) s = (Ok, s\<lparr>r_sched := sched\<rparr>)"

fun call_ok :: "promise_call \<Rightarrow> runtime \<Rightarrow> bool" where
  "call_ok (CallPending w p) s \<longleftrightarrow> p < r_nextPromise s"
| "call_ok (CallTarget a w p) s \<longleftrightarrow> p < r_nextPromise s"
| "call_ok (CallForward t p) s \<longleftrightarrow> t < r_nextPromise s \<and> p < r_nextPromise s \<and> p \<noteq> t"
| "call_ok (CallAwait p) s \<longleftrightarrow> p < r_nextPromise s"
| "call_ok (CallComplete p v) s \<longleftrightarrow> p < r_nextPromise s"
| "call_ok (CallReject p v) s \<longleftrightarrow> p < r_nextPromise s"
| "call_ok _ s \<longleftrightarrow> True"

lemma make_call_steps:
  assumes "callbacks_ok E" "call_ok c s"
  shows "promise_steps s (snd (make_call E c s))"
  using assms complete_steps [OF assms(1)] reject_steps [OF assms(1)]
  by (cases c) (auto simp: accept_def callbacks_ok_def intro: promise_steps.intros)

lemma run_calls_steps:
  "callbacks_ok E \<Longrightarrow> valid_run call_ok (make_call E) cs s \<Longrightarrow>
    promise_steps s (snd (run_ops (make_call E) cs s))"
proof (induction cs arbitrary: s)
  case Nil
  then show ?case by (simp add: steps_refl)
next
  case (Cons c cs)
  then show ?case
    using steps_trans [OF Cons.IH make_call_steps] by (auto simp: Let_def split_beta)
qed

lemma new_runtime_ok: "promises_ok (new_runtime sched)"
  by (simp add: promises_ok_def new_runtime_def depends_def acyclic_def)

subsection \<open>Promises and the scheduler\<close>

lemma attach_frame:
  "attach t q s = Inr s' \<Longrightarrow> m_waiterStore s' = m_waiterStore s \<and> m_asyncs s' = m_asyncs s \<and> m_uv s' = m_uv s"
  "detach t q s = Inr s' \<Longrightarrow> m_waiterStore s' = m_waiterStore s \<and> m_asyncs s' = m_asyncs s \<and> m_uv s' = m_uv s"
  by (auto simp: attach_def detach_def or_else_fail_def split: option.splits prod.splits)

lemma suspend_frame: "suspendTask t s = Inr s' \<Longrightarrow> m_waiterStore s' = m_waiterStore s"
  using attach_frame
  by (fastforce simp: suspendTask_def then_do_Inr setState_def Let_def split: if_splits)

lemma resume_frame: "resumeTask t s = Inr s' \<Longrightarrow> m_waiterStore s' = m_waiterStore s"
  using attach_frame
  by (fastforce simp: resumeTask_def then_do_Inr setState_def split: if_splits)

lemma scheduler_runs:
  assumes "valid_run live_op queues_step os initial_queues"
  shows "\<exists>s. new_scheduler = Inr s \<and> sched_repr (snd (run_ops sched_step os s)) (snd (run_ops queues_step os initial_queues))"
  using new_scheduler_repr sched.run [OF _ assms] by blast

lemma await_current:
  assumes repr: "sched_repr s a" and w: "w \<in> set (q_waiters a)" and c: "q_current a = Some c" "q_task a w = None"
  shows "\<exists>s'. await_waiter w s = Inr s' \<and> getState c s' = TaskWaiting \<and>
    sched_repr s' (a\<lparr>q_task := (q_task a)(w := Some c), q_ready := remove1 c (q_ready a),
      q_waiting := q_waiting a @ [c], q_current := None\<rparr>) \<and>
    w_promise (m_waiterStore s' w) = w_promise (m_waiterStore s w)"
proof -
  have tr: "tasks_repr s a" using repr by (simp add: sched_repr_def)
  have cr: "c \<in> set (contents ReadyQueue a)" using tasks_reprD(9) [OF tr c(1)] by simp
  let ?a = "a\<lparr>q_task := (q_task a)(w := Some c), q_ready := remove1 c (q_ready a),
      q_waiting := q_waiting a @ [c], q_current := None\<rparr>"
  have "spec_await w a = Inr ?a"
    using c cr not_in_other [OF tr cr, of WaitQueue] by (simp add: spec_await_def spec_suspend_def)
  with await_refines [OF repr w] obtain s' where s': "await_waiter w s = Inr s'" "sched_repr s' ?a"
    by (cases "await_waiter w s") auto
  have "tasks_repr s' ?a" using s'(2) by (simp add: sched_repr_def)
  then have "getState c s' = TaskWaiting" using state_of(2) by simp
  moreover have "w_promise (m_waiterStore s' w) = w_promise (m_waiterStore s w)"
    using s'(1) suspend_frame
    by (fastforce simp: await_waiter_def assignTask_def then_do_Inr Let_def split: if_splits option.splits)
  ultimately show ?thesis using s' by blast
qed

subsection \<open>Properties of promises\<close>

text \<open>C27. After any sequence of calls on promises from a new runtime, none of which forwards a promise to
  itself, with callbacks that make such calls too, a promise has a result exactly when it is completed or
  rejected, no promise depends on itself, and \<open>setReachable\<close> ends after it has visited the promise and all
  that it depends on. (A promise forwarded to itself is one on which \<open>setReachable\<close> does not end:
  \<open>forward_to_itself_loops\<close>.)\<close>

theorem promise_results_and_reachability:
  assumes "callbacks_ok E" "valid_run call_ok (make_call E) cs (new_runtime sched)"
    and "p < r_nextPromise (snd (run_ops (make_call E) cs (new_runtime sched)))"
  shows "let s = snd (run_ops (make_call E) cs (new_runtime sched)) in
    (finished (getPromiseState p s) \<longleftrightarrow> isValid_operand (getResult p s)) \<and> acyclic (depends s) \<and>
    (\<exists>qs. setReachable p s = Some qs \<and> set qs = {q. (q, p) \<in> (depends s)\<^sup>*})"
proof -
  have "promises_ok (snd (run_ops (make_call E) cs (new_runtime sched)))"
    using steps_ok [OF run_calls_steps [OF assms(1,2)] new_runtime_ok] .
  with assms(3) show ?thesis
    using promises_okD(1) reach_all_acyclic promises_ok_def by (simp add: getPromiseState_def getResult_def Let_def)
qed

theorem promise_results_and_reachability_witness:
  "finished (getPromiseState 0 (snd (run_ops (make_call (\<lambda>_. default_ops))
     [CallCreate 0, CallComplete 0 (fromU8 [0, 0, 0, 0, 0, 0, 0, 0] 7)] (new_runtime empty_scheduler))))"
proof -
  let ?v = "fromU8 [0, 0, 0, 0, 0, 0, 0, 0] 7"
  let ?E = "\<lambda>_ :: ops_id. default_ops" and ?s = "new_runtime empty_scheduler"
  let ?cs = "[CallCreate 0, CallComplete 0 ?v]"
  have v: "isValid_operand ?v" by (simp add: isValid_operand_def fromU8_def get_info_byte_def)
  have "valid_run call_ok (make_call ?E) ?cs ?s" by (simp add: create_promise_def new_runtime_def)
  from promise_results_and_reachability [OF default_callbacks_ok this, of 0] v show ?thesis
    by (simp add: create_promise_def new_runtime_def new_promise_def complete_promise_def set_finished_def
        getResult_def Let_def)
qed

text \<open>C34. A promise only moves forward: whatever is called on it or on others, its state and result
  stay as they are or its state goes to a later stage (initial; pending or target; forwarded or
  awaited; finished). So a finished promise keeps its state and its result for good.\<close>

theorem promise_moves_forward:
  assumes "callbacks_ok E" "valid_run call_ok (make_call E) cs s" "p < r_nextPromise s"
  shows "let s' = snd (run_ops (make_call E) cs s) in
    getPromiseState p s' = getPromiseState p s \<and> getResult p s' = getResult p s \<or>
    stage (getPromiseState p s) < stage (getPromiseState p s')"
  using steps_advance [OF run_calls_steps [OF assms(1,2)]] assms(3)
  by (auto simp: advanced_def getPromiseState_def getResult_def Let_def)

theorem promise_moves_forward_witness:
  "let s = snd (create_promise 0 (new_runtime empty_scheduler));
       s' = snd (run_ops (make_call (\<lambda>_. default_ops)) [CallPending 4 0] s) in
    getPromiseState 0 s' = getPromiseState 0 s \<and> getResult 0 s' = getResult 0 s \<or>
    stage (getPromiseState 0 s) < stage (getPromiseState 0 s')"
  using promise_moves_forward [OF default_callbacks_ok, of "[CallPending 4 0]"
      "snd (create_promise 0 (new_runtime empty_scheduler))" 0]
  by (simp add: create_promise_def new_runtime_def Let_def)

text \<open>A target may be forwarded to itself: the call succeeds, and \<open>setReachable\<close> on it then does
  not return.\<close>

theorem forward_to_itself_loops:
  assumes "p_state (r_promises s p) = PromiseTarget" "p_target (r_promises s p) = None"
  shows "fst (forward p p s) = Ok \<and> setReachable p (snd (forward p p s)) = None"
proof -
  let ?s = "snd (forward p p s)"
  have f: "fst (forward p p s) = Ok" "p \<in> set (p_dependencies (r_promises ?s p))"
    using assms by (simp_all add: forward_def expired_def Let_def)
  have "setReachable p ?s \<noteq> Some qs" for qs
    using reach_all_loop [of "r_promises ?s" "[p]" qs] f(2) by (auto simp: setReachable_def)
  then show ?thesis using f(1) by (cases "setReachable p ?s") auto
qed

theorem forward_to_itself_loops_witness:
  "setReachable 0 (snd (forward 0 0 (snd (target_promise 1 2 0 (snd (create_promise 0 (new_runtime empty_scheduler))))))) = None"
proof -
  let ?s = "snd (target_promise 1 2 0 (snd (create_promise 0 (new_runtime empty_scheduler))))"
  have "p_state (r_promises ?s 0) = PromiseTarget" "p_target (r_promises ?s 0) = None"
    by (simp_all add: target_promise_def create_promise_def new_runtime_def new_promise_def Let_def)
  from forward_to_itself_loops [OF this] show ?thesis by simp
qed

text \<open>C11. Awaiting a pending promise suspends the current task; when the event loop then completes
  the waiter, whose callback completes the promise, the task is at the end of the ready queue,
  the promise holds the result and the waiter is gone.\<close>

theorem awaited_promise_resumes_task:
  assumes "sched_repr (r_sched s) a" "q_current a = Some c" "w \<in> set (q_waiters a)" "q_task a w = None"
    and "w_promise (m_waiterStore (r_sched s) w) = Some p" "p_waiter (r_promises s p) = Some w"
    and "p_state (r_promises s p) = PromisePending"
    and "E (p_ops (r_promises s p)) = accept_wrapper_ops (\<lambda>p w s. snd (complete_promise F p v s))"
    and "isValid_operand v"
  shows "\<exists>s1 s2 b. await_promise p s = (Ok, s1) \<and> getState c (r_sched s1) = TaskWaiting \<and>
    complete_waiter E w s1 = Inr s2 \<and> getState c (r_sched s2) = TaskReady \<and>
    getPromiseState p s2 = PromiseCompleted \<and> getResult p s2 = v \<and>
    sched_repr (r_sched s2) b \<and> q_ready b = remove1 c (q_ready a) @ [c] \<and> q_waiting b = q_waiting a \<and>
    q_waiters b = remove1 w (q_waiters a)"
proof -
  let ?a1 = "a\<lparr>q_task := (q_task a)(w := Some c), q_ready := remove1 c (q_ready a),
      q_waiting := q_waiting a @ [c], q_current := None\<rparr>"
  obtain sc1 where sc1: "await_waiter w (r_sched s) = Inr sc1" "getState c sc1 = TaskWaiting"
    "sched_repr sc1 ?a1" "w_promise (m_waiterStore sc1 w) = Some p"
    using await_current [OF assms(1,3,2,4)] assms(5) by auto
  define s1 where "s1 = modify_promise p (p_state_update (\<lambda>_. PromiseWaiting)) (s\<lparr>r_sched := sc1\<rparr>)"
  have s1: "await_promise p s = (Ok, s1)" "r_sched s1 = sc1"
    using assms(6,7) sc1(1) by (simp_all add: await_promise_def s1_def)
  have d: "distinct (all_tasks a)" "c \<in> set (q_ready a)"
    using assms(1,2) by (simp_all add: sched_repr_def tasks_repr_def)
  then have notin: "c \<notin> set (remove1 c (q_ready a))" "c \<notin> set (q_waiting a)" by (auto simp: all_tasks_def)
  let ?a2 = "?a1\<lparr>q_waiting := q_waiting a, q_ready := remove1 c (q_ready a) @ [c]\<rparr>"
  have "spec_resume c ?a1 = Inr ?a2"
    using notin by (simp add: spec_resume_def remove1_append)
  moreover have "c \<in> set (all_tasks ?a1)" by (simp add: all_tasks_def)
  ultimately obtain sc2 where sc2: "resumeTask c sc1 = Inr sc2" "sched_repr sc2 ?a2"
    using resume_refines [OF sc1(3), of c] by (cases "resumeTask c sc1") auto
  have "waiters_repr sc1 ?a1" using sc1(3) by (simp add: sched_repr_def)
  from waiters_reprD(5) [OF this, of w] have task: "w_task (m_waiterStore sc1 w) = Some c"
    using assms(3) by simp
  have prom: "w_promise (m_waiterStore sc2 w) = Some p" using resume_frame [OF sc2(1)] sc1(4) by simp
  define s2 where "s2 = set_finished p PromiseCompleted v (s1\<lparr>r_sched := sc2\<rparr>)"
  have acc: "accept E p w (s1\<lparr>r_sched := sc2\<rparr>) = s2"
    using assms(8,9) by (simp add: accept_def accept_wrapper_ops_def complete_promise_def s1_def s2_def)
  have "w \<in> set (q_waiters ?a2)" using assms(3) by simp
  from destroy_waiter_refines [OF sc2(2) this] obtain sc3 where sc3: "destroyWaiter w sc2 = Inr sc3"
    "sched_repr sc3 (?a2\<lparr>q_waiters := remove1 w (q_waiters ?a2)\<rparr>)" "m_tasks sc3 = m_tasks sc2" by blast
  have "complete_waiter E w s1 = Inr (s2\<lparr>r_sched := sc3\<rparr>)"
    using sc2(1) sc3(1) s1(2) task prom acc by (simp add: complete_waiter_def s2_def set_finished_def)
  moreover have "getState c sc3 = TaskReady"
  proof -
    have "tasks_repr sc3 (?a2\<lparr>q_waiters := remove1 w (q_waiters ?a2)\<rparr>)"
      using sc3(2) by (simp add: sched_repr_def)
    from state_of(1) [OF this, of c] show ?thesis by simp
  qed
  ultimately show ?thesis
    using s1 sc1(2) sc3(2)
    by (intro exI [of _ s1] exI [of _ "s2\<lparr>r_sched := sc3\<rparr>"]
        exI [of _ "?a2\<lparr>q_waiters := remove1 w (q_waiters ?a2)\<rparr>"])
      (simp add: getPromiseState_def getResult_def s2_def set_finished_def)
qed

theorem awaited_promise_resumes_task_witness:
  "\<exists>s s1 s2. await_promise 0 s = (Ok, s1) \<and> getState 0 (r_sched s1) = TaskWaiting \<and>
    complete_waiter (\<lambda>_. accept_wrapper_ops (\<lambda>p w s. snd (complete_promise (\<lambda>_. default_ops) p
        (fromU8 [0, 0, 0, 0, 0, 0, 0, 0] 7) s))) 0 s1 = Inr s2 \<and>
    getState 0 (r_sched s2) = TaskReady \<and> getPromiseState 0 s2 = PromiseCompleted"
proof -
  let ?v = "fromU8 [0, 0, 0, 0, 0, 0, 0, 0] 7"
  let ?os = "[ResumeTask 0, SelectNextReady, AddWaiter (HandleWaitee 5) 0]"
  let ?a = "snd (run_ops queues_step ?os initial_queues)"
  note defs = initial_queues_def all_tasks_def spec_resume_def spec_select_def spec_add_waiter_def Let_def
  have "valid_run live_op queues_step ?os initial_queues" by (simp add: defs)
  then obtain s0 where s0: "new_scheduler = Inr s0" "sched_repr (snd (run_ops sched_step ?os s0)) ?a"
    using scheduler_runs by blast
  have a: "q_current ?a = Some 0" "q_waiters ?a = [0]" "q_task ?a 0 = None" by (simp_all add: defs)
  let ?sched = "snd (run_ops sched_step ?os s0)"
  have w: "w_promise (m_waiterStore ?sched 0) = Some 0"
    using s0(1)
    by (auto simp: new_scheduler_def add_waiting_task_def empty_scheduler_def setState_def attach_def task_attach_def
        new_task_def resumeTask_def getState_def detach_def task_detach_def selectNextReady_def add_waiter_def
        attachWaiter_def new_waiter_def Let_def)
  define s where "s = \<lparr>r_sched = ?sched, r_promises = (\<lambda>_. (new_promise 0)\<lparr>p_state := PromisePending, p_waiter := Some 0\<rparr>),
    r_nextPromise = 1, r_dead = []\<rparr>"
  have v: "isValid_operand ?v" by (simp add: isValid_operand_def fromU8_def get_info_byte_def)
  have "sched_repr (r_sched s) ?a" using s0(2) by (simp add: s_def)
  from awaited_promise_resumes_task [OF this a(1), of 0 0
      "\<lambda>_. accept_wrapper_ops (\<lambda>p w s. snd (complete_promise (\<lambda>_. default_ops) p ?v s))" "\<lambda>_. default_ops" ?v]
  show ?thesis using a w v by (auto simp: s_def)
qed

text \<open>A promise that was forwarded signals its live, unfinished target when it finishes, through
  the default operations; when more of the dependencies finish, the target is not signalled
  again.\<close>

theorem target_signalled_once:
  assumes "\<And>i. E i = default_ops" "isValid_operand u" "getType v = TyStatus" "p \<noteq> q" "p \<noteq> t" "q \<noteq> t"
    and "p_state (r_promises s p) = PromiseForwarded" "p_target (r_promises s p) = Some t"
    and "p_state (r_promises s q) = PromiseForwarded" "p_target (r_promises s q) = Some t"
    and "t \<notin> set (r_dead s)" "p_state (r_promises s t) = PromiseTarget" "p_async (r_promises s t) = Some a"
    and "m_async (m_asyncs (r_sched s) a) = Some h" "isPending a (r_sched s)"
  shows "let s1 = snd (complete_promise E p u s); s2 = snd (reject_promise E q v s1) in
    m_uv (r_sched s1) = m_uv (r_sched s) @ [UvAsyncSend h] \<and> \<not> isPending a (r_sched s1) \<and>
    m_uv (r_sched s2) = m_uv (r_sched s1) \<and>
    getPromiseState p s2 = PromiseCompleted \<and> getPromiseState q s2 = PromiseRejected"
proof -
  define s1 where "s1 = snd (complete_promise E p u s)"
  have s1: "s1 = (set_finished p PromiseCompleted u s)\<lparr>r_sched := snd (sendSignal a (r_sched s))\<rparr>"
    using assms by (simp add: s1_def complete_promise_def notify_def set_finished_def default_ops_def signal_done_def Let_def)
  have signal: "m_uv (snd (sendSignal a (r_sched s))) = m_uv (r_sched s) @ [UvAsyncSend h]"
    "\<not> isPending a (snd (sendSignal a (r_sched s)))"
    "m_async (m_asyncs (snd (sendSignal a (r_sched s))) a) = Some h"
    using assms(14,15) by (simp_all add: sendSignal_def isPending_def Let_def)
  then have "sendSignal a (r_sched s1) = (False, r_sched s1)"
    by (simp add: s1 sendSignal_def isPending_def)
  then have "r_sched (snd (reject_promise E q v s1)) = r_sched s1"
    using assms by (simp add: s1 reject_promise_def notify_def set_finished_def default_ops_def signal_done_def Let_def)
  then show ?thesis
    using assms signal
    by (simp add: Let_def s1_def [symmetric] getPromiseState_def)
      (simp add: s1 reject_promise_def notify_def set_finished_def default_ops_def signal_done_def Let_def)
qed

theorem target_signalled_once_witness:
  "let s = \<lparr>r_sched = empty_scheduler\<lparr>m_asyncs := (\<lambda>_. new_async_handle 9)\<rparr>,
         r_promises = (\<lambda>i. if i = 2 then (new_promise 0)\<lparr>p_state := PromiseTarget, p_async := Some 0\<rparr>
           else (new_promise 0)\<lparr>p_state := PromiseForwarded, p_target := Some 2\<rparr>),
         r_nextPromise = 3, r_dead = []\<rparr>;
       s1 = snd (complete_promise (\<lambda>_. default_ops) 0 (fromU8 [0, 0, 0, 0, 0, 0, 0, 0] 7) s)
   in m_uv (r_sched s1) = [UvAsyncSend 9] \<and> getType (\<lparr>m_bytes = [0x0C, 0, 0, 0, 0, 0, 0, 7]\<rparr>) = TyStatus"
proof -
  let ?s = "\<lparr>r_sched = empty_scheduler\<lparr>m_asyncs := (\<lambda>_. new_async_handle 9)\<rparr>,
         r_promises = (\<lambda>i. if i = 2 then (new_promise 0)\<lparr>p_state := PromiseTarget, p_async := Some 0\<rparr>
           else (new_promise 0)\<lparr>p_state := PromiseForwarded, p_target := Some 2\<rparr>),
         r_nextPromise = 3, r_dead = []\<rparr>"
  have u: "isValid_operand (fromU8 [0, 0, 0, 0, 0, 0, 0, 0] 7)"
    by (simp add: isValid_operand_def fromU8_def get_info_byte_def)
  have v: "getType (\<lparr>m_bytes = [0x0C, 0, 0, 0, 0, 0, 0, 7]\<rparr>) = TyStatus"
    by (simp add: getType_def getOverlay_def get_info_byte_def get_info_tag_def pointer_type_def kTagMask_def
        kPointerMask_def kDoubleWordPointerTag_def kPointerRefTag_def kPointerBytesTag_def kPointerNamespaceTag_def
        kPointerProtocolTag_def kPointerRestTag_def kPointerStatusTag_def)
  show ?thesis
    using target_signalled_once [of "\<lambda>_. default_ops", OF refl u v, of 0 1 2 ?s 0 9] v
    by (simp add: isPending_def new_async_handle_def empty_scheduler_def Let_def)
qed

end
