(* ===== verification/Arithmetic.thy ===== *)
theory Arithmetic
  imports InterpreterResult Operand
begin

text \<open>
  The arithmetic of the interpreter: reading numbers from operands and writing them back
  (\<open>value_to_operand\<close>, \<open>operand_to_value\<close> of \<open>operand.cpp\<close>, \<open>operand_helpers.h\<close>), and
  \<open>numeric_ops.cpp\<close>, \<open>bitwise_ops.cpp\<close>, \<open>compare_ops.cpp\<close> and \<open>convert_ops.cpp\<close> under
  \<open>lyric_runtime/src/internal\<close>.

  A function template over the integer types takes the type as an \<open>int_type\<close>, and an integer of
  that type is an \<open>int\<close>; storing it in an operand reduces it to the width. Operands that do not
  fit in eight bytes are boxed: \<open>new\<close> gives the address \<open>new_address n\<close> to the \<open>n\<close>th object of the
  heap. From outside of the repository come the checked operations of
  \<open>boost::safe_numerics\<close> and the conversions and arithmetic of floating point numbers; they are
  fields of \<open>arith_env\<close>. A signed overflow of the unary minus wraps, as the machine does.
\<close>

datatype int_type = T_I8 | T_I16 | T_I32 | T_I64 | T_U8 | T_U16 | T_U32 | T_U64

fun width_of :: "int_type \<Rightarrow> nat" where
  "width_of T_I8 = 8" | "width_of T_U8 = 8" | "width_of T_I16 = 16" | "width_of T_U16 = 16"
| "width_of T_I32 = 32" | "width_of T_U32 = 32" | "width_of T_I64 = 64" | "width_of T_U64 = 64"

fun is_signed :: "int_type \<Rightarrow> bool" where
  "is_signed \<tau> \<longleftrightarrow> \<tau> \<in> {T_I8, T_I16, T_I32, T_I64}"

definition min_of :: "int_type \<Rightarrow> int" where
  "min_of \<tau> = (if is_signed \<tau> then - (2 ^ (width_of \<tau> - 1)) else 0)"

definition max_of :: "int_type \<Rightarrow> int" where
  "max_of \<tau> = (if is_signed \<tau> then 2 ^ (width_of \<tau> - 1) - 1 else 2 ^ width_of \<tau> - 1)"

text \<open>\<open>static_cast\<close> to the type: the value modulo two to the width.\<close>

definition cast_to :: "int_type \<Rightarrow> int \<Rightarrow> int" where
  "cast_to \<tau> v = (let m = v mod 2 ^ width_of \<tau>
     in if is_signed \<tau> \<and> 2 ^ (width_of \<tau> - 1) \<le> m then m - 2 ^ width_of \<tau> else m)"

datatype checked_op = CheckedAdd | CheckedSubtract | CheckedMultiply | CheckedDivide

record arith_env =
  ae_endian :: endian_lib
  ae_garbage :: "u8 list"
  new_address :: "nat \<Rightarrow> u64"
  checked_int :: "checked_op \<Rightarrow> int_type \<Rightarrow> int \<Rightarrow> int \<Rightarrow> int option"
  checked_f32 :: "checked_op \<Rightarrow> u32 \<Rightarrow> u32 \<Rightarrow> u32 option"
  checked_f64 :: "checked_op \<Rightarrow> u64 \<Rightarrow> u64 \<Rightarrow> u64 option"
  f32_of_int :: "int \<Rightarrow> u32"
  f64_of_int :: "int \<Rightarrow> u64"
  f32_to_int :: "u32 \<Rightarrow> int"
  f64_to_int :: "u64 \<Rightarrow> int"
  f32_to_f64 :: "u32 \<Rightarrow> u64"
  f64_to_f32 :: "u64 \<Rightarrow> u32"
  u64_of_double_max :: int

subsection \<open>The heap of boxed numbers\<close>

text \<open>The instances are the addresses of all objects, in the order of their allocation.\<close>

record heap =
  h_objects :: objects
  h_instances :: "u64 list"

definition insertInstance :: "u64 \<Rightarrow> heap \<Rightarrow> nat \<times> heap" where
  "insertInstance obj h = (length (h_instances h), h\<lparr>h_instances := h_instances h @ [obj]\<rparr>)"

definition allocateI64 :: "arith_env \<Rightarrow> u64 \<Rightarrow> heap \<Rightarrow> operand \<times> heap" where
  "allocateI64 R v h =
    (let p = new_address R (length (h_instances h));
         h = h\<lparr>h_objects := (h_objects h)\<lparr>i64_of := (i64_of (h_objects h))(p := v)\<rparr>\<rparr>;
         h = snd (insertInstance p h)
     in (fromI64Ref (ae_endian R) (ae_garbage R) p, h))"

definition allocateU64 :: "arith_env \<Rightarrow> u64 \<Rightarrow> heap \<Rightarrow> operand \<times> heap" where
  "allocateU64 R v h =
    (let p = new_address R (length (h_instances h));
         h = h\<lparr>h_objects := (h_objects h)\<lparr>u64_of := (u64_of (h_objects h))(p := v)\<rparr>\<rparr>;
         h = snd (insertInstance p h)
     in (fromU64Ref (ae_endian R) (ae_garbage R) p, h))"

definition allocateF64 :: "arith_env \<Rightarrow> u64 \<Rightarrow> heap \<Rightarrow> operand \<times> heap" where
  "allocateF64 R v h =
    (let p = new_address R (length (h_instances h));
         h = h\<lparr>h_objects := (h_objects h)\<lparr>f64_of := (f64_of (h_objects h))(p := v)\<rparr>\<rparr>;
         h = snd (insertInstance p h)
     in (fromF64Ref (ae_endian R) (ae_garbage R) p, h))"

subsection \<open>Numbers and operands\<close>

definition operand_to_int :: "arith_env \<Rightarrow> heap \<Rightarrow> int_type \<Rightarrow> operand \<Rightarrow> int option" where
  "operand_to_int R h \<tau> op =
    (let E = ae_endian R; M = h_objects h
     in case \<tau> of
       T_I8 \<Rightarrow> map_option sint (getI8 op)
     | T_I16 \<Rightarrow> map_option sint (getI16 E op)
     | T_I32 \<Rightarrow> map_option sint (getI32 E op)
     | T_I64 \<Rightarrow> map_option sint (getI64 E M op)
     | T_U8 \<Rightarrow> map_option uint (getU8 op)
     | T_U16 \<Rightarrow> map_option uint (getU16 E op)
     | T_U32 \<Rightarrow> map_option uint (getU32 E op)
     | T_U64 \<Rightarrow> map_option uint (getU64 E M op))"

definition i64_to_operand :: "arith_env \<Rightarrow> u64 \<Rightarrow> heap \<Rightarrow> operand \<times> heap" where
  "i64_to_operand R v h =
    (if v <s kMinI64StackValue \<or> kMaxI64StackValue <s v then allocateI64 R v h
     else (fromI64 (ae_endian R) (ae_garbage R) v, h))"

definition u64_to_operand :: "arith_env \<Rightarrow> u64 \<Rightarrow> heap \<Rightarrow> operand \<times> heap" where
  "u64_to_operand R v h =
    (if v > kMaxU64StackValue then allocateU64 R v h
     else (fromU64 (ae_endian R) (ae_garbage R) v, h))"

definition f64_to_operand :: "arith_env \<Rightarrow> u64 \<Rightarrow> heap \<Rightarrow> operand \<times> heap" where
  "f64_to_operand R v h =
    (let (ok, bytes) = encode_f64 (ae_endian R) v (ae_garbage R)
     in if \<not> ok then allocateF64 R v h else (\<lparr>m_bytes = bytes\<rparr>, h))"

definition f32_to_operand :: "arith_env \<Rightarrow> u32 \<Rightarrow> heap \<Rightarrow> operand \<times> heap" where
  "f32_to_operand R v h = (fromF32 (ae_endian R) (ae_garbage R) v, h)"

text \<open>The overload of \<open>value_to_operand\<close> for the type.\<close>

definition int_to_operand :: "arith_env \<Rightarrow> int_type \<Rightarrow> int \<Rightarrow> heap \<Rightarrow> operand \<times> heap" where
  "int_to_operand R \<tau> v h =
    (let E = ae_endian R; g = ae_garbage R
     in case \<tau> of
       T_I8 \<Rightarrow> (fromI8 g (word_of_int v), h)
     | T_I16 \<Rightarrow> (fromI16 E g (word_of_int v), h)
     | T_I32 \<Rightarrow> (fromI32 E g (word_of_int v), h)
     | T_I64 \<Rightarrow> i64_to_operand R (word_of_int v) h
     | T_U8 \<Rightarrow> (fromU8 g (word_of_int v), h)
     | T_U16 \<Rightarrow> (fromU16 E g (word_of_int v), h)
     | T_U32 \<Rightarrow> (fromU32 E g (word_of_int v), h)
     | T_U64 \<Rightarrow> u64_to_operand R (word_of_int v) h)"

text \<open>The type that C++ computes in: operands narrower than \<open>int\<close> are promoted to it.\<close>

fun promoted :: "int_type \<Rightarrow> int_type" where
  "promoted T_U32 = T_U32" | "promoted T_U64 = T_U64" | "promoted T_I64 = T_I64" | "promoted _ = T_I32"

type_synonym arith_result = "failure + operand \<times> heap"

definition get_unary_operand :: "'v option \<Rightarrow> ('v \<Rightarrow> failure + 'b) \<Rightarrow> failure + 'b" where
  "get_unary_operand v k = then_do (or_else_fail (Returned kInvalidDataStackV1) v) k"

definition get_binary_operands :: "'v option \<Rightarrow> 'w option \<Rightarrow> ('v \<Rightarrow> 'w \<Rightarrow> failure + 'b) \<Rightarrow> failure + 'b" where
  "get_binary_operands l r k =
    then_do (or_else_fail (Returned kInvalidDataStackV1) l) (\<lambda>l.
    then_do (or_else_fail (Returned kInvalidDataStackV2) r) (\<lambda>r. k l r))"

text \<open>The integer type of an operand that holds one: the cases of the switches.\<close>

fun int_type_of :: "operand_type \<Rightarrow> int_type option" where
  "int_type_of TyUInt8 = Some T_U8" | "int_type_of TyUInt16 = Some T_U16"
| "int_type_of TyUInt32 = Some T_U32" | "int_type_of TyUInt64 = Some T_U64"
| "int_type_of TyInt8 = Some T_I8" | "int_type_of TyInt16 = Some T_I16"
| "int_type_of TyInt32 = Some T_I32" | "int_type_of TyInt64 = Some T_I64"
| "int_type_of _ = None"

subsection \<open>Numeric operations\<close>

definition apply_checked :: "arith_env \<Rightarrow> checked_op \<Rightarrow> int_type \<Rightarrow> operand \<Rightarrow> operand \<Rightarrow> heap \<Rightarrow> arith_result" where
  "apply_checked R kind \<tau> lhs rhs h =
    get_binary_operands (operand_to_int R h \<tau> lhs) (operand_to_int R h \<tau> rhs) (\<lambda>l r.
      case checked_int R kind \<tau> l r of
        None \<Rightarrow> Inl (Returned kRuntimeInvariant)
      | Some v \<Rightarrow> Inr (int_to_operand R \<tau> v h))"

definition apply_checked_f32 :: "arith_env \<Rightarrow> checked_op \<Rightarrow> operand \<Rightarrow> operand \<Rightarrow> heap \<Rightarrow> arith_result" where
  "apply_checked_f32 R kind lhs rhs h =
    get_binary_operands (getF32 (ae_endian R) lhs) (getF32 (ae_endian R) rhs) (\<lambda>l r.
      case checked_f32 R kind l r of
        None \<Rightarrow> Inl (Returned kRuntimeInvariant)
      | Some v \<Rightarrow> Inr (f32_to_operand R v h))"

definition apply_checked_f64 :: "arith_env \<Rightarrow> checked_op \<Rightarrow> operand \<Rightarrow> operand \<Rightarrow> heap \<Rightarrow> arith_result" where
  "apply_checked_f64 R kind lhs rhs h =
    get_binary_operands (getF64 (ae_endian R) (h_objects h) lhs) (getF64 (ae_endian R) (h_objects h) rhs) (\<lambda>l r.
      case checked_f64 R kind l r of
        None \<Rightarrow> Inl (Returned kRuntimeInvariant)
      | Some v \<Rightarrow> Inr (f64_to_operand R v h))"

definition apply_by_type :: "arith_env \<Rightarrow> checked_op \<Rightarrow> operand \<Rightarrow> operand \<Rightarrow> heap \<Rightarrow> arith_result" where
  "apply_by_type R kind lhs rhs h =
    (case int_type_of (getType lhs) of
       Some \<tau> \<Rightarrow> apply_checked R kind \<tau> lhs rhs h
     | None \<Rightarrow>
        (case getType lhs of
           TyFloat32 \<Rightarrow> apply_checked_f32 R kind lhs rhs h
         | TyFloat64 \<Rightarrow> apply_checked_f64 R kind lhs rhs h
         | _ \<Rightarrow> Inl (Returned kInvalidDataStackV1)))"

definition num_add :: "arith_env \<Rightarrow> operand \<Rightarrow> operand \<Rightarrow> heap \<Rightarrow> arith_result" where
  "num_add R lhs rhs h = apply_by_type R CheckedAdd lhs rhs h"

definition num_sub :: "arith_env \<Rightarrow> operand \<Rightarrow> operand \<Rightarrow> heap \<Rightarrow> arith_result" where
  "num_sub R lhs rhs h = apply_by_type R CheckedSubtract lhs rhs h"

definition num_mul :: "arith_env \<Rightarrow> operand \<Rightarrow> operand \<Rightarrow> heap \<Rightarrow> arith_result" where
  "num_mul R lhs rhs h = apply_by_type R CheckedMultiply lhs rhs h"

definition num_div :: "arith_env \<Rightarrow> operand \<Rightarrow> operand \<Rightarrow> heap \<Rightarrow> arith_result" where
  "num_div R lhs rhs h = apply_by_type R CheckedDivide lhs rhs h"

definition apply_neg :: "arith_env \<Rightarrow> int_type \<Rightarrow> operand \<Rightarrow> heap \<Rightarrow> arith_result" where
  "apply_neg R \<tau> element h =
    get_unary_operand (operand_to_int R h \<tau> element) (\<lambda>e. Inr (int_to_operand R (promoted \<tau>) (- e) h))"

definition num_neg :: "arith_env \<Rightarrow> operand \<Rightarrow> heap \<Rightarrow> arith_result" where
  "num_neg R element h =
    (case int_type_of (getType element) of
       Some \<tau> \<Rightarrow> apply_neg R \<tau> element h
     | None \<Rightarrow>
        (case getType element of
           TyFloat32 \<Rightarrow> get_unary_operand (getF32 (ae_endian R) element)
             (\<lambda>e. Inr (f32_to_operand R (e XOR 0x80000000) h))
         | TyFloat64 \<Rightarrow> get_unary_operand (getF64 (ae_endian R) (h_objects h) element)
             (\<lambda>e. Inr (f64_to_operand R (e XOR 0x8000000000000000) h))
         | _ \<Rightarrow> Inl (Returned kInvalidDataStackV1)))"

subsection \<open>Bitwise operations\<close>

definition apply_bitwise :: "arith_env \<Rightarrow> (int \<Rightarrow> int \<Rightarrow> int) \<Rightarrow> int_type \<Rightarrow> operand \<Rightarrow> operand \<Rightarrow> heap \<Rightarrow> arith_result" where
  "apply_bitwise R f \<tau> lhs rhs h =
    get_binary_operands (operand_to_int R h \<tau> lhs) (operand_to_int R h \<tau> rhs) (\<lambda>l r.
      Inr (int_to_operand R (promoted \<tau>) (f l r) h))"

fun unsigned_type :: "operand_type \<Rightarrow> int_type option" where
  "unsigned_type TyUInt8 = Some T_U8" | "unsigned_type TyUInt16 = Some T_U16"
| "unsigned_type TyUInt32 = Some T_U32" | "unsigned_type TyUInt64 = Some T_U64"
| "unsigned_type _ = None"

definition bitwise_and :: "arith_env \<Rightarrow> operand \<Rightarrow> operand \<Rightarrow> heap \<Rightarrow> arith_result" where
  "bitwise_and R lhs rhs h =
    (case unsigned_type (getType lhs) of
       Some \<tau> \<Rightarrow> apply_bitwise R (AND) \<tau> lhs rhs h
     | None \<Rightarrow> Inl (Returned kInvalidDataStackV1))"

definition bitwise_or :: "arith_env \<Rightarrow> operand \<Rightarrow> operand \<Rightarrow> heap \<Rightarrow> arith_result" where
  "bitwise_or R lhs rhs h =
    (case unsigned_type (getType lhs) of
       Some \<tau> \<Rightarrow> apply_bitwise R (OR) \<tau> lhs rhs h
     | None \<Rightarrow> Inl (Returned kInvalidDataStackV1))"

definition bitwise_xor :: "arith_env \<Rightarrow> operand \<Rightarrow> operand \<Rightarrow> heap \<Rightarrow> arith_result" where
  "bitwise_xor R lhs rhs h =
    (case unsigned_type (getType lhs) of
       Some \<tau> \<Rightarrow> apply_bitwise R (XOR) \<tau> lhs rhs h
     | None \<Rightarrow> Inl (Returned kInvalidDataStackV1))"

definition bitwise_not :: "arith_env \<Rightarrow> operand \<Rightarrow> heap \<Rightarrow> arith_result" where
  "bitwise_not R element h =
    (case unsigned_type (getType element) of
       Some \<tau> \<Rightarrow> get_unary_operand (operand_to_int R h \<tau> element)
         (\<lambda>e. Inr (int_to_operand R (promoted \<tau>) (NOT e) h))
     | None \<Rightarrow> Inl (Returned kInvalidDataStackV1))"

definition apply_shift :: "arith_env \<Rightarrow> (int \<Rightarrow> nat \<Rightarrow> int) \<Rightarrow> int_type \<Rightarrow> operand \<Rightarrow> operand \<Rightarrow> heap \<Rightarrow> arith_result" where
  "apply_shift R f \<tau> element count h =
    get_unary_operand (operand_to_int R h \<tau> element) (\<lambda>e.
    get_unary_operand (operand_to_int R h T_U8 count) (\<lambda>c.
      if int (width_of \<tau>) \<le> c then Inl (Returned kInvalidDataStackV2)
      else Inr (int_to_operand R (promoted \<tau>) (f e (nat c)) h)))"

definition bitwise_shl :: "arith_env \<Rightarrow> operand \<Rightarrow> operand \<Rightarrow> heap \<Rightarrow> arith_result" where
  "bitwise_shl R element count h =
    (case unsigned_type (getType element) of
       Some \<tau> \<Rightarrow> apply_shift R (\<lambda>e c. push_bit c e) \<tau> element count h
     | None \<Rightarrow> Inl (Returned kInvalidDataStackV1))"

definition bitwise_shr :: "arith_env \<Rightarrow> operand \<Rightarrow> operand \<Rightarrow> heap \<Rightarrow> arith_result" where
  "bitwise_shr R element count h =
    (case unsigned_type (getType element) of
       Some \<tau> \<Rightarrow> apply_shift R (\<lambda>e c. drop_bit c e) \<tau> element count h
     | None \<Rightarrow> Inl (Returned kInvalidDataStackV1))"

subsection \<open>Comparisons\<close>

text \<open>\<open><=\<close> on floating point numbers: false for a NaN, the order of the values otherwise.\<close>

definition f32_nan :: "u32 \<Rightarrow> bool" where
  "f32_nan w \<longleftrightarrow> w AND 0x7F800000 = 0x7F800000 \<and> w AND 0x007FFFFF \<noteq> 0"

definition f64_nan :: "u64 \<Rightarrow> bool" where
  "f64_nan w \<longleftrightarrow> w AND 0x7FF0000000000000 = 0x7FF0000000000000 \<and> w AND 0x000FFFFFFFFFFFFF \<noteq> 0"

definition f32_key :: "u32 \<Rightarrow> int" where
  "f32_key w = (if bit w 31 then - uint (w AND 0x7FFFFFFF) else uint w)"

definition f64_key :: "u64 \<Rightarrow> int" where
  "f64_key w = (if bit w 63 then - uint (w AND 0x7FFFFFFFFFFFFFFF) else uint w)"

definition f32_le :: "u32 \<Rightarrow> u32 \<Rightarrow> bool" where
  "f32_le l r \<longleftrightarrow> \<not> f32_nan l \<and> \<not> f32_nan r \<and> f32_key l \<le> f32_key r"

definition f64_le :: "u64 \<Rightarrow> u64 \<Rightarrow> bool" where
  "f64_le l r \<longleftrightarrow> \<not> f64_nan l \<and> \<not> f64_nan r \<and> f64_key l \<le> f64_key r"

definition f32_lt :: "u32 \<Rightarrow> u32 \<Rightarrow> bool" where
  "f32_lt l r \<longleftrightarrow> \<not> f32_nan l \<and> \<not> f32_nan r \<and> f32_key l < f32_key r"

definition f64_lt :: "u64 \<Rightarrow> u64 \<Rightarrow> bool" where
  "f64_lt l r \<longleftrightarrow> \<not> f64_nan l \<and> \<not> f64_nan r \<and> f64_key l < f64_key r"

text \<open>\<open>apply_compare\<close>, given \<open><=\<close> and \<open>==\<close> of the type.\<close>

definition apply_compare ::
  "arith_env \<Rightarrow> ('v \<Rightarrow> 'v \<Rightarrow> bool) \<Rightarrow> ('v \<Rightarrow> 'v \<Rightarrow> bool) \<Rightarrow> 'v option \<Rightarrow> 'v option \<Rightarrow> failure + operand" where
  "apply_compare R le eq lhs rhs =
    get_binary_operands lhs rhs (\<lambda>l r.
      let cmp = (if le l r then (if eq l r then 0 else - 1) else 1)
      in Inr (fromI64 (ae_endian R) (ae_garbage R) cmp))"

definition op_compare :: "arith_env \<Rightarrow> operand \<Rightarrow> operand \<Rightarrow> heap \<Rightarrow> failure + operand" where
  "op_compare R lhs rhs h =
    (let E = ae_endian R; M = h_objects h
     in case int_type_of (getType lhs) of
       Some \<tau> \<Rightarrow> apply_compare R (\<le>) (=) (operand_to_int R h \<tau> lhs) (operand_to_int R h \<tau> rhs)
     | None \<Rightarrow>
        (case getType lhs of
           TyBool \<Rightarrow> apply_compare R (\<le>) (=) (getBool lhs) (getBool rhs)
         | TyFloat32 \<Rightarrow> apply_compare R f32_le f32_eq (getF32 E lhs) (getF32 E rhs)
         | TyFloat64 \<Rightarrow> apply_compare R f64_le f64_eq (getF64 E M lhs) (getF64 E M rhs)
         | TyChar32 \<Rightarrow> apply_compare R (\<le>) (=) (getC32 E lhs) (getC32 E rhs)
         | _ \<Rightarrow> Inl (Returned kInvalidDataStackV1)))"

text \<open>A test of one number against zero: on integers, and on the two floating point types.\<close>

definition apply_test ::
  "arith_env \<Rightarrow> (int \<Rightarrow> bool) \<Rightarrow> (u32 \<Rightarrow> bool) \<Rightarrow> (u64 \<Rightarrow> bool) \<Rightarrow> operand \<Rightarrow> heap \<Rightarrow> failure + bool" where
  "apply_test R on_int on_f32 on_f64 element h =
    (case int_type_of (getType element) of
       Some \<tau> \<Rightarrow> get_unary_operand (operand_to_int R h \<tau> element) (\<lambda>e. Inr (on_int e))
     | None \<Rightarrow>
        (case getType element of
           TyFloat32 \<Rightarrow> get_unary_operand (getF32 (ae_endian R) element) (\<lambda>e. Inr (on_f32 e))
         | TyFloat64 \<Rightarrow> get_unary_operand (getF64 (ae_endian R) (h_objects h) element) (\<lambda>e. Inr (on_f64 e))
         | _ \<Rightarrow> Inl (Returned kInvalidDataStackV1)))"

definition is_zero :: "arith_env \<Rightarrow> operand \<Rightarrow> heap \<Rightarrow> failure + bool" where
  "is_zero R = apply_test R (\<lambda>e. e = 0) (\<lambda>e. f32_eq e 0) (\<lambda>e. f64_eq e 0)"

definition is_not_zero :: "arith_env \<Rightarrow> operand \<Rightarrow> heap \<Rightarrow> failure + bool" where
  "is_not_zero R = apply_test R (\<lambda>e. e \<noteq> 0) (\<lambda>e. \<not> f32_eq e 0) (\<lambda>e. \<not> f64_eq e 0)"

definition is_greater_than :: "arith_env \<Rightarrow> operand \<Rightarrow> heap \<Rightarrow> failure + bool" where
  "is_greater_than R = apply_test R (\<lambda>e. e > 0) (\<lambda>e. f32_lt 0 e) (\<lambda>e. f64_lt 0 e)"

definition is_greater_or_equal :: "arith_env \<Rightarrow> operand \<Rightarrow> heap \<Rightarrow> failure + bool" where
  "is_greater_or_equal R = apply_test R (\<lambda>e. e \<ge> 0) (\<lambda>e. f32_le 0 e) (\<lambda>e. f64_le 0 e)"

definition is_less_than :: "arith_env \<Rightarrow> operand \<Rightarrow> heap \<Rightarrow> failure + bool" where
  "is_less_than R = apply_test R (\<lambda>e. e < 0) (\<lambda>e. f32_lt e 0) (\<lambda>e. f64_lt e 0)"

definition is_less_or_equal :: "arith_env \<Rightarrow> operand \<Rightarrow> heap \<Rightarrow> failure + bool" where
  "is_less_or_equal R = apply_test R (\<lambda>e. e \<le> 0) (\<lambda>e. f32_le e 0) (\<lambda>e. f64_le e 0)"

subsection \<open>Conversions\<close>

text \<open>\<open>promote_value\<close>, \<open>convert_integral_to_signed\<close> and \<open>convert_integral_to_unsigned\<close>.\<close>

definition convert_integral :: "arith_env \<Rightarrow> int_type \<Rightarrow> int_type \<Rightarrow> operand \<Rightarrow> heap \<Rightarrow> arith_result" where
  "convert_integral R src dst source h =
    get_unary_operand (operand_to_int R h src source) (\<lambda>s. Inr (int_to_operand R dst (cast_to dst s) h))"

datatype fp_class = FP_NORMAL | FP_NAN | FP_ZERO | FP_INFINITE | FP_SUBNORMAL

definition f32_classify :: "u32 \<Rightarrow> fp_class" where
  "f32_classify w =
    (let e = w AND 0x7F800000; m = w AND 0x007FFFFF
     in if e = 0x7F800000 then (if m = 0 then FP_INFINITE else FP_NAN)
        else if e = 0 then (if m = 0 then FP_ZERO else FP_SUBNORMAL)
        else FP_NORMAL)"

definition f64_classify :: "u64 \<Rightarrow> fp_class" where
  "f64_classify w =
    (let e = w AND 0x7FF0000000000000; m = w AND 0x000FFFFFFFFFFFFF
     in if e = 0x7FF0000000000000 then (if m = 0 then FP_INFINITE else FP_NAN)
        else if e = 0 then (if m = 0 then FP_ZERO else FP_SUBNORMAL)
        else FP_NORMAL)"

text \<open>\<open>convert_floating_to_integral\<close>, given the order, the class, the sign bit, the conversion of the
  limits of the integer type and the truncation of the floating point type.\<close>

definition convert_floating ::
  "arith_env \<Rightarrow> ('v \<Rightarrow> 'v \<Rightarrow> bool) \<Rightarrow> ('v \<Rightarrow> fp_class) \<Rightarrow> ('v \<Rightarrow> bool) \<Rightarrow> (int \<Rightarrow> 'v) \<Rightarrow> ('v \<Rightarrow> int)
    \<Rightarrow> int_type \<Rightarrow> 'v option \<Rightarrow> heap \<Rightarrow> arith_result" where
  "convert_floating R le classify signbit fromint toint dst source h =
    get_unary_operand source (\<lambda>s.
      case classify s of
        FP_NORMAL \<Rightarrow>
          Inr (if le (fromint (max_of dst)) s then int_to_operand R dst (max_of dst) h
               else if le s (fromint (min_of dst)) then int_to_operand R dst (min_of dst) h
               else int_to_operand R dst (toint s) h)
      | FP_NAN \<Rightarrow> Inr (int_to_operand R dst 0 h)
      | FP_ZERO \<Rightarrow> Inr (int_to_operand R dst 0 h)
      | FP_INFINITE \<Rightarrow> Inr (int_to_operand R dst (if signbit s then min_of dst else max_of dst) h)
      | FP_SUBNORMAL \<Rightarrow> Inl (Returned kInvalidDataStackV1))"

text \<open>\<open>convert_to_I8\<close> .. \<open>convert_to_U64\<close>, for the destination type.\<close>

definition convert_to_int :: "arith_env \<Rightarrow> int_type \<Rightarrow> operand \<Rightarrow> heap \<Rightarrow> arith_result" where
  "convert_to_int R dst source h =
    (let E = ae_endian R
     in case int_type_of (getType source) of
       Some src \<Rightarrow> if src = dst then Inr (source, h) else convert_integral R src dst source h
     | None \<Rightarrow>
        (case getType source of
           TyFloat32 \<Rightarrow> convert_floating R f32_le f32_classify (\<lambda>w. bit w 31) (f32_of_int R) (f32_to_int R)
             dst (getF32 E source) h
         | TyFloat64 \<Rightarrow> convert_floating R f64_le f64_classify (\<lambda>w. bit w 63) (f64_of_int R) (f64_to_int R)
             dst (getF64 E (h_objects h) source) h
         | _ \<Rightarrow> Inl (Returned kInvalidDataStackV1)))"

definition convert_to_I8 :: "arith_env \<Rightarrow> operand \<Rightarrow> heap \<Rightarrow> arith_result" where
  "convert_to_I8 R = convert_to_int R T_I8"

definition convert_to_I16 :: "arith_env \<Rightarrow> operand \<Rightarrow> heap \<Rightarrow> arith_result" where
  "convert_to_I16 R = convert_to_int R T_I16"

definition convert_to_I32 :: "arith_env \<Rightarrow> operand \<Rightarrow> heap \<Rightarrow> arith_result" where
  "convert_to_I32 R = convert_to_int R T_I32"

definition convert_to_I64 :: "arith_env \<Rightarrow> operand \<Rightarrow> heap \<Rightarrow> arith_result" where
  "convert_to_I64 R = convert_to_int R T_I64"

definition convert_to_U8 :: "arith_env \<Rightarrow> operand \<Rightarrow> heap \<Rightarrow> arith_result" where
  "convert_to_U8 R = convert_to_int R T_U8"

definition convert_to_U16 :: "arith_env \<Rightarrow> operand \<Rightarrow> heap \<Rightarrow> arith_result" where
  "convert_to_U16 R = convert_to_int R T_U16"

definition convert_to_U32 :: "arith_env \<Rightarrow> operand \<Rightarrow> heap \<Rightarrow> arith_result" where
  "convert_to_U32 R = convert_to_int R T_U32"

definition convert_to_U64 :: "arith_env \<Rightarrow> operand \<Rightarrow> heap \<Rightarrow> arith_result" where
  "convert_to_U64 R = convert_to_int R T_U64"


text \<open>\<open>convert_integral_to_floating\<close> with the destination \<open>double\<close>, the only one it is used with. The
  cast of the largest double to 64 bits is out of range; the cast of the smallest positive one,
  which the code takes for the lowest double, is 0.\<close>

definition f64_infinity :: u64 where
  "f64_infinity = 0x7FF0000000000000"

definition f64_negative_infinity :: u64 where
  "f64_negative_infinity = 0xFFF0000000000000"

definition convert_integral_to_double :: "arith_env \<Rightarrow> int_type \<Rightarrow> operand \<Rightarrow> heap \<Rightarrow> arith_result" where
  "convert_integral_to_double R src source h =
    get_unary_operand (operand_to_int R h src source) (\<lambda>s.
      Inr (if s \<ge> 0 \<and> s > u64_of_double_max R then f64_to_operand R f64_infinity h
           else if s < 0 \<and> cast_to T_I64 s < 0 then f64_to_operand R f64_negative_infinity h
           else f64_to_operand R (f64_of_int R s) h))"

definition f32_infinity :: u32 where
  "f32_infinity = 0x7F800000"

definition f32_negative_infinity :: u32 where
  "f32_negative_infinity = 0xFF800000"

definition f32_max :: u32 where
  "f32_max = 0x7F7FFFFF"

text \<open>\<open>numeric_limits<float>::min()\<close>, the smallest positive normal number.\<close>

definition f32_min :: u32 where
  "f32_min = 0x00800000"

definition convert_double_to_float :: "arith_env \<Rightarrow> operand \<Rightarrow> heap \<Rightarrow> arith_result" where
  "convert_double_to_float R source h =
    get_unary_operand (getF64 (ae_endian R) (h_objects h) source) (\<lambda>s.
      Inr (if f64_le 0 s \<and> f64_lt (f32_to_f64 R f32_max) s then f32_to_operand R f32_infinity h
           else if f64_lt s 0 \<and> f64_lt s (f32_to_f64 R f32_min) then f32_to_operand R f32_negative_infinity h
           else f32_to_operand R (f64_to_f32 R s) h))"

definition convert_to_F32 :: "arith_env \<Rightarrow> operand \<Rightarrow> heap \<Rightarrow> arith_result" where
  "convert_to_F32 R source h =
    (case int_type_of (getType source) of
       Some src \<Rightarrow> convert_integral_to_double R src source h
     | None \<Rightarrow>
        (case getType source of
           TyFloat32 \<Rightarrow> Inr (source, h)
         | TyFloat64 \<Rightarrow> convert_double_to_float R source h
         | _ \<Rightarrow> Inl (Returned kInvalidDataStackV1)))"

definition convert_to_F64 :: "arith_env \<Rightarrow> operand \<Rightarrow> heap \<Rightarrow> arith_result" where
  "convert_to_F64 R source h =
    (case int_type_of (getType source) of
       Some src \<Rightarrow> convert_integral_to_double R src source h
     | None \<Rightarrow>
        (case getType source of
           TyFloat32 \<Rightarrow> get_unary_operand (getF32 (ae_endian R) source)
             (\<lambda>s. Inr (f64_to_operand R (f32_to_f64 R s) h))
         | TyFloat64 \<Rightarrow> Inr (source, h)
         | _ \<Rightarrow> Inl (Returned kInvalidDataStackV1)))"

end
