(* ===== verification/ArithmeticLaws.thy ===== *)
theory ArithmeticLaws
  imports Arithmetic OperandLaws
begin

text \<open>
  What the arithmetic computes. The locale \<open>arith\<close> states the documented behaviour of the services
  from outside of the repository: \<open>new\<close> gives aligned addresses below the pointer tag, and a
  checked operation on integers gives the exact result when it is representable and an error
  otherwise. Nothing is assumed of the floating point operations. \<open>machine_arith\<close> is the instance
  that the witnesses evaluate on.

  The lemmas: an integer comes back from its operand, boxed or not, except at the limits of the
  stack integers; the operations on integers are exact, or fail; comparisons agree with the order
  of the numbers; conversions between integers reduce the value to the width.
\<close>

subsection \<open>Ranges\<close>

definition in_range :: "int_type \<Rightarrow> int \<Rightarrow> bool" where
  "in_range \<tau> v \<longleftrightarrow> min_of \<tau> \<le> v \<and> v \<le> max_of \<tau>"

lemma in_range_simps:
  "in_range T_I8 v \<longleftrightarrow> - 128 \<le> v \<and> v < 128" "in_range T_U8 v \<longleftrightarrow> 0 \<le> v \<and> v < 256"
  "in_range T_I16 v \<longleftrightarrow> - 32768 \<le> v \<and> v < 32768" "in_range T_U16 v \<longleftrightarrow> 0 \<le> v \<and> v < 65536"
  "in_range T_I32 v \<longleftrightarrow> - (2 ^ 31) \<le> v \<and> v < 2 ^ 31" "in_range T_U32 v \<longleftrightarrow> 0 \<le> v \<and> v < 2 ^ 32"
  "in_range T_I64 v \<longleftrightarrow> - (2 ^ 63) \<le> v \<and> v < 2 ^ 63" "in_range T_U64 v \<longleftrightarrow> 0 \<le> v \<and> v < 2 ^ 64"
  by (auto simp: in_range_def min_of_def max_of_def)

lemma cast_in_range: "in_range \<tau> (cast_to \<tau> v)"
proof -
  have "0 \<le> v mod 2 ^ width_of \<tau>" "v mod 2 ^ width_of \<tau> < 2 ^ width_of \<tau>" by simp_all
  then show ?thesis by (cases \<tau>) (auto simp: in_range_simps cast_to_def Let_def)
qed

lemma cast_same:
  assumes "in_range \<tau> v"
  shows "cast_to \<tau> v = v"
proof (cases "0 \<le> v")
  case True
  have "v < 2 ^ width_of \<tau>" using assms by (cases \<tau>) (auto simp: in_range_simps)
  with True have "v mod 2 ^ width_of \<tau> = v" by simp
  then show ?thesis using assms by (cases \<tau>) (auto simp: in_range_simps cast_to_def Let_def)
next
  case False
  have "0 \<le> v + 2 ^ width_of \<tau>" "v + 2 ^ width_of \<tau> < 2 ^ width_of \<tau>"
    using assms False by (cases \<tau>; simp add: in_range_simps)+
  then have "(v + 2 ^ width_of \<tau>) mod 2 ^ width_of \<tau> = v + 2 ^ width_of \<tau>" by (rule mod_pos_pos_trivial)
  then have "v mod 2 ^ width_of \<tau> = v + 2 ^ width_of \<tau>" by simp
  then show ?thesis using assms False by (cases \<tau>) (auto simp: in_range_simps cast_to_def Let_def)
qed

lemma word_of_cast:
  "word_of_int (cast_to T_I8 v) = (word_of_int v :: u8)" "word_of_int (cast_to T_U8 v) = (word_of_int v :: u8)"
  "word_of_int (cast_to T_I16 v) = (word_of_int v :: u16)" "word_of_int (cast_to T_U16 v) = (word_of_int v :: u16)"
  "word_of_int (cast_to T_I32 v) = (word_of_int v :: u32)" "word_of_int (cast_to T_U32 v) = (word_of_int v :: u32)"
  "word_of_int (cast_to T_I64 v) = (word_of_int v :: u64)" "word_of_int (cast_to T_U64 v) = (word_of_int v :: u64)"
  by (simp_all add: cast_to_def Let_def word_of_int_eq_iff take_bit_eq_mod mod_diff_left_eq)

lemma int_to_operand_cast: "int_to_operand R \<tau> (cast_to \<tau> v) h = int_to_operand R \<tau> v h"
  by (cases \<tau>) (simp_all add: int_to_operand_def word_of_cast)

lemma sint_of_int:
  "in_range T_I8 v \<Longrightarrow> sint (word_of_int v :: u8) = v" "in_range T_I16 v \<Longrightarrow> sint (word_of_int v :: u16) = v"
  "in_range T_I32 v \<Longrightarrow> sint (word_of_int v :: u32) = v" "in_range T_I64 v \<Longrightarrow> sint (word_of_int v :: u64) = v"
  by (auto simp: in_range_simps sint_sbintrunc' signed_take_bit_int_eq_self)

lemma uint_of_int:
  "in_range T_U8 v \<Longrightarrow> uint (word_of_int v :: u8) = v" "in_range T_U16 v \<Longrightarrow> uint (word_of_int v :: u16) = v"
  "in_range T_U32 v \<Longrightarrow> uint (word_of_int v :: u32) = v" "in_range T_U64 v \<Longrightarrow> uint (word_of_int v :: u64) = v"
  by (auto simp: in_range_simps uint_word_of_int_eq take_bit_int_eq_self)

subsection \<open>The services\<close>

definition exact :: "checked_op \<Rightarrow> int \<Rightarrow> int \<Rightarrow> int option" where
  "exact kind l r =
    (case kind of
       CheckedAdd \<Rightarrow> Some (l + r)
     | CheckedSubtract \<Rightarrow> Some (l - r)
     | CheckedMultiply \<Rightarrow> Some (l * r)
     | CheckedDivide \<Rightarrow> if r = 0 then None else Some (sgn l * sgn r * (\<bar>l\<bar> div \<bar>r\<bar>)))"

definition exact_in :: "checked_op \<Rightarrow> int_type \<Rightarrow> int \<Rightarrow> int \<Rightarrow> int option" where
  "exact_in kind \<tau> l r = (case exact kind l r of None \<Rightarrow> None | Some v \<Rightarrow> if in_range \<tau> v then Some v else None)"

locale arith = endian "ae_endian R" for R :: arith_env +
  assumes garbage: "length (ae_garbage R) = 8"
    and address: "taggable (new_address R n)"
    and checked: "in_range \<tau> l \<Longrightarrow> in_range \<tau> r \<Longrightarrow> checked_int R kind \<tau> l r = exact_in kind \<tau> l r"

lemma int_type_of_iff:
  "int_type_of t = Some T_I8 \<longleftrightarrow> t = TyInt8" "int_type_of t = Some T_I16 \<longleftrightarrow> t = TyInt16"
  "int_type_of t = Some T_I32 \<longleftrightarrow> t = TyInt32" "int_type_of t = Some T_I64 \<longleftrightarrow> t = TyInt64"
  "int_type_of t = Some T_U8 \<longleftrightarrow> t = TyUInt8" "int_type_of t = Some T_U16 \<longleftrightarrow> t = TyUInt16"
  "int_type_of t = Some T_U32 \<longleftrightarrow> t = TyUInt32" "int_type_of t = Some T_U64 \<longleftrightarrow> t = TyUInt64"
  by (cases t; simp)+

lemma unsigned_type_iff: "unsigned_type t = Some \<tau> \<longleftrightarrow> int_type_of t = Some \<tau> \<and> \<not> is_signed \<tau>"
  by (cases t) auto

lemma in_width: "\<not> is_signed \<tau> \<Longrightarrow> in_range \<tau> v \<longleftrightarrow> 0 \<le> v \<and> v < 2 ^ width_of \<tau>"
  by (cases \<tau>) (auto simp: in_range_simps)

lemma quotient_le: "0 \<le> a \<Longrightarrow> a div 2 ^ n \<le> (a :: int)"
  using zdiv_mono2 [of a 1 "2 ^ n"] by simp

text \<open>An operand that yields an integer has its type, and the integer is in the range of the type.\<close>

lemma operand_type:
  assumes "operand_to_int R h \<tau> op = Some v"
  shows "int_type_of (getType op) = Some \<tau>" "in_range \<tau> v"
proof -
  note getters = getI8_iff [of op] getU8_iff [of op] getI16_iff [of "ae_endian R" op] getU16_iff [of "ae_endian R" op]
    getI32_iff [of "ae_endian R" op] getU32_iff [of "ae_endian R" op]
    getI64_iff [of "ae_endian R" "h_objects h" op] getU64_iff [of "ae_endian R" "h_objects h" op]
  show "int_type_of (getType op) = Some \<tau>"
  proof (cases \<tau>)
    case T_I8
    with assms getters(1) show ?thesis by (auto simp: operand_to_int_def)
  next
    case T_U8
    with assms getters(2) show ?thesis by (auto simp: operand_to_int_def)
  next
    case T_I16
    with assms getters(3) show ?thesis by (auto simp: operand_to_int_def)
  next
    case T_U16
    with assms getters(4) show ?thesis by (auto simp: operand_to_int_def)
  next
    case T_I32
    with assms getters(5) show ?thesis by (auto simp: operand_to_int_def)
  next
    case T_U32
    with assms getters(6) show ?thesis by (auto simp: operand_to_int_def)
  next
    case T_I64
    with assms getters(7) show ?thesis by (auto simp: operand_to_int_def)
  next
    case T_U64
    with assms getters(8) show ?thesis by (auto simp: operand_to_int_def)
  qed
  show "in_range \<tau> v"
  proof (cases \<tau>)
    case T_I8
    then obtain w :: u8 where "v = sint w" using assms by (auto simp: operand_to_int_def)
    then show ?thesis using T_I8 sint_ge [of w] sint_lt [of w] by (simp add: in_range_simps)
  next
    case T_I16
    then obtain w :: u16 where "v = sint w" using assms by (auto simp: operand_to_int_def)
    then show ?thesis using T_I16 sint_ge [of w] sint_lt [of w] by (simp add: in_range_simps)
  next
    case T_I32
    then obtain w :: u32 where "v = sint w" using assms by (auto simp: operand_to_int_def)
    then show ?thesis using T_I32 sint_ge [of w] sint_lt [of w] by (simp add: in_range_simps)
  next
    case T_I64
    then obtain w :: u64 where "v = sint w" using assms by (auto simp: operand_to_int_def)
    then show ?thesis using T_I64 sint_ge [of w] sint_lt [of w] by (simp add: in_range_simps)
  next
    case T_U8
    then obtain w :: u8 where "v = uint w" using assms by (auto simp: operand_to_int_def)
    then show ?thesis using T_U8 uint_lt2p [of w] by (simp add: in_range_simps)
  next
    case T_U16
    then obtain w :: u16 where "v = uint w" using assms by (auto simp: operand_to_int_def)
    then show ?thesis using T_U16 uint_lt2p [of w] by (simp add: in_range_simps)
  next
    case T_U32
    then obtain w :: u32 where "v = uint w" using assms by (auto simp: operand_to_int_def)
    then show ?thesis using T_U32 uint_lt2p [of w] by (simp add: in_range_simps)
  next
    case T_U64
    then obtain w :: u64 where "v = uint w" using assms by (auto simp: operand_to_int_def)
    then show ?thesis using T_U64 uint_lt2p [of w] by (simp add: in_range_simps)
  qed
qed

text \<open>The limits of the stack integers, which are stored but do not come back.\<close>

definition lost :: "int_type \<Rightarrow> int \<Rightarrow> bool" where
  "lost \<tau> v \<longleftrightarrow> \<tau> = T_I32 \<and> \<bar>v\<bar> = 2 ^ 28 \<or> \<tau> = T_I64 \<and> \<bar>v\<bar> = 2 ^ 59"

definition kept :: "int_type \<Rightarrow> int \<Rightarrow> int" where
  "kept \<tau> v = (if lost \<tau> v then 0 else v)"

context arith
begin

lemma fromPointer_info:
  assumes "taggable p"
  shows "get_info_byte (fromPointer (ae_endian R) (ae_garbage R) p t) AND 7 = 7"
proof -
  from fromPointer_bytes [OF garbage assms, of t] obtain b0 b1 b2 b3 b4 b5 b6 b7
    where "fromPointer (ae_endian R) (ae_garbage R) p t = \<lparr>m_bytes = [b0 OR t, b1, b2, b3, b4, b5, b6, b7 OR 7]\<rparr>"
      and "b7 AND 7 = 0" by metis
  then show ?thesis using masked_or [of b7 7 7] by (simp add: get_info_byte_def)
qed

lemma boxed:
  assumes p: "taggable p"
  shows "getI64 (ae_endian R) M (fromI64Ref (ae_endian R) (ae_garbage R) p) = Some (i64_of M p)"
    "getU64 (ae_endian R) M (fromU64Ref (ae_endian R) (ae_garbage R) p) = Some (u64_of M p)"
proof -
  have "p \<noteq> 0" using p by (simp add: taggable_def)
  then show "getI64 (ae_endian R) M (fromI64Ref (ae_endian R) (ae_garbage R) p) = Some (i64_of M p)"
    "getU64 (ae_endian R) M (fromU64Ref (ae_endian R) (ae_garbage R) p) = Some (u64_of M p)"
    using p fromPointer_info [OF p]
    by (simp_all add: getI64_def getU64_def fromI64Ref_def fromU64Ref_def getPointer_fromPointer [OF garbage])
qed

lemma i64_roundtrip:
  "getI64 (ae_endian R) (h_objects (snd (i64_to_operand R w h))) (fst (i64_to_operand R w h))
    = Some (if \<bar>sint w\<bar> = 2 ^ 59 then 0 else w)"
proof (cases "w <s kMinI64StackValue \<or> kMaxI64StackValue <s w")
  case True
  then have "\<bar>sint w\<bar> \<noteq> 2 ^ 59" by (auto simp: word_sless_alt)
  with True show ?thesis
    by (simp add: i64_to_operand_def allocateI64_def insertInstance_def boxed address Let_def)
next
  case False
  then have "\<bar>sint w\<bar> \<le> 2 ^ 59" by (auto simp: word_sless_alt)
  with False show ?thesis by (simp add: i64_to_operand_def getI64_fromI64 [OF garbage])
qed

lemma u64_roundtrip:
  "getU64 (ae_endian R) (h_objects (snd (u64_to_operand R w h))) (fst (u64_to_operand R w h)) = Some w"
  by (cases "w > kMaxU64StackValue")
    (simp_all add: u64_to_operand_def allocateU64_def insertInstance_def boxed address
      getU64_fromU64 [OF garbage] Let_def)

lemma i32_edge: "in_range T_I32 v \<Longrightarrow>
    word_of_int v = (0x10000000 :: u32) \<or> word_of_int v = (- 0x10000000 :: u32) \<longleftrightarrow> \<bar>v\<bar> = 2 ^ 28"
proof -
  assume v: "in_range T_I32 v"
  have "word_of_int v = (w :: u32) \<longleftrightarrow> v = sint w" for w
    using sint_of_int(3) [OF v] by auto
  then show ?thesis by auto
qed

lemma int_roundtrip:
  assumes v: "in_range \<tau> v"
  shows "operand_to_int R (snd (int_to_operand R \<tau> v h)) \<tau> (fst (int_to_operand R \<tau> v h)) = Some (kept \<tau> v)"
proof (cases \<tau>)
  case T_I32
  then show ?thesis
    using v i32_edge [of v] sint_of_int(3) [of v] getI32_fromI32 [OF garbage, of "word_of_int v"]
    by (auto simp: operand_to_int_def int_to_operand_def kept_def lost_def Let_def)
next
  case T_I64
  then show ?thesis
    using v sint_of_int(4) [of v] i64_roundtrip [of "word_of_int v"]
    by (auto simp: operand_to_int_def int_to_operand_def kept_def lost_def Let_def)
qed (use v sint_of_int uint_of_int u64_roundtrip getU32_fromU32 [OF garbage] getI16_fromI16 [OF garbage]
    getU16_fromU16 [OF garbage] getI8_fromI8 [OF garbage] getU8_fromU8 [OF garbage] in
    \<open>simp_all add: operand_to_int_def int_to_operand_def kept_def lost_def Let_def\<close>)

lemma stored:
  "operand_to_int R (snd (int_to_operand R \<tau> v h)) \<tau> (fst (int_to_operand R \<tau> v h))
    = Some (kept \<tau> (cast_to \<tau> v))"
  using int_roundtrip [OF cast_in_range, of \<tau> v h] by (simp add: int_to_operand_cast)

lemma stored_type: "int_type_of (getType (fst (int_to_operand R \<tau> v h))) = Some \<tau>"
  by (rule operand_type(1) [OF stored])

end

subsection \<open>The operations\<close>

text \<open>A result that is an operand of the type, whose integer is the one given.\<close>

definition yields :: "arith_env \<Rightarrow> int_type \<Rightarrow> arith_result \<Rightarrow> int \<Rightarrow> bool" where
  "yields R \<tau> res v \<longleftrightarrow>
    (case res of
       Inl e \<Rightarrow> False
     | Inr (op, h) \<Rightarrow> int_type_of (getType op) = Some \<tau> \<and> operand_to_int R h \<tau> op = Some v)"

definition yields_or_fails :: "arith_env \<Rightarrow> int_type \<Rightarrow> arith_result \<Rightarrow> int option \<Rightarrow> bool" where
  "yields_or_fails R \<tau> res v \<longleftrightarrow>
    (case v of
       Some x \<Rightarrow> if in_range \<tau> x then yields R \<tau> res (kept \<tau> x) else res = Inl (Returned kRuntimeInvariant)
     | None \<Rightarrow> res = Inl (Returned kRuntimeInvariant))"

context arith
begin

lemma yields_stored: "yields R \<tau> (Inr (int_to_operand R \<tau> v h)) (kept \<tau> (cast_to \<tau> v))"
  using stored [of \<tau> v h] stored_type [of \<tau> v h] by (simp add: yields_def split_beta)

lemma yields_in_range: "in_range \<tau> v \<Longrightarrow> yields R \<tau> (Inr (int_to_operand R \<tau> v h)) (kept \<tau> v)"
  using yields_stored [of \<tau> v h] by (simp add: cast_same)

lemma apply_checked_yields:
  assumes a: "operand_to_int R h \<tau> lhs = Some a" and b: "operand_to_int R h \<tau> rhs = Some b"
  shows "yields_or_fails R \<tau> (apply_by_type R kind lhs rhs h) (exact kind a b)"
proof -
  have "checked_int R kind \<tau> a b = exact_in kind \<tau> a b"
    using operand_type(2) [OF a] operand_type(2) [OF b] by (rule checked)
  then show ?thesis
    using operand_type(1) [OF a] a b
    by (auto simp: yields_or_fails_def apply_by_type_def apply_checked_def get_binary_operands_def
        exact_in_def yields_in_range split: option.split)
qed

lemma compare_orders:
  assumes a: "operand_to_int R h \<tau> lhs = Some a" and b: "operand_to_int R h \<tau> rhs = Some b"
  shows "op_compare R lhs rhs h
    = Inr (fromI64 (ae_endian R) (ae_garbage R) (if a < b then - 1 else if a = b then 0 else 1))"
  using operand_type(1) [OF a] a b
  by (auto simp: op_compare_def apply_compare_def get_binary_operands_def)

lemma small_result:
  "v \<in> {- 1, 0, 1} \<Longrightarrow> operand_to_int R h T_I64 (fromI64 (ae_endian R) (ae_garbage R) (word_of_int v)) = Some v"
  using getI64_fromI64 [OF garbage, of "h_objects h" "word_of_int v"] by (auto simp: operand_to_int_def)

lemma convert_yields:
  assumes a: "operand_to_int R h src op = Some a"
  shows "yields R dst (convert_to_int R dst op h) (if src = dst then a else kept dst (cast_to dst a))"
  using operand_type(1) [OF a] a yields_stored [of dst "cast_to dst a" h]
  by (auto simp: convert_to_int_def convert_integral_def get_unary_operand_def cast_same [OF cast_in_range]
      yields_def)

text \<open>A number that the unsigned type holds is also held by its promotion.\<close>

lemma yields_promoted:
  assumes "\<not> is_signed \<tau>" "in_range \<tau> v"
  shows "yields R (promoted \<tau>) (Inr (int_to_operand R (promoted \<tau>) v h)) v"
proof -
  have "in_range (promoted \<tau>) v" "kept (promoted \<tau>) v = v"
    using assms by (cases \<tau>; simp add: in_range_simps kept_def lost_def)+
  then show ?thesis using yields_in_range [of "promoted \<tau>" v h] by simp
qed

lemma complement_yields:
  assumes "\<not> is_signed \<tau>" "in_range \<tau> a"
  shows "yields R (promoted \<tau>) (Inr (int_to_operand R (promoted \<tau>) (NOT a) h))
    (if \<tau> \<in> {T_U8, T_U16} then - a - 1 else 2 ^ width_of \<tau> - 1 - a)"
proof -
  have "kept (promoted \<tau>) (cast_to (promoted \<tau>) (- a - 1))
      = (if \<tau> \<in> {T_U8, T_U16} then - a - 1 else 2 ^ width_of \<tau> - 1 - a)"
  proof (cases "\<tau> \<in> {T_U8, T_U16}")
    case True
    then have "in_range T_I32 (- a - 1)" "promoted \<tau> = T_I32" "\<not> lost T_I32 (- a - 1)"
      using assms by (auto simp: in_range_simps lost_def)
    then show ?thesis using True by (simp add: cast_same kept_def)
  next
    case False
    have "0 \<le> 2 ^ width_of \<tau> - 1 - a" "2 ^ width_of \<tau> - 1 - a < 2 ^ width_of \<tau>"
      using assms by (simp_all add: in_width)
    then have "(2 ^ width_of \<tau> - 1 - a) mod 2 ^ width_of \<tau> = 2 ^ width_of \<tau> - 1 - a"
      by (rule mod_pos_pos_trivial)
    moreover have "(2 ^ width_of \<tau> - 1 - a) mod 2 ^ width_of \<tau> = (- a - 1) mod 2 ^ width_of \<tau>"
      using mod_add_self2 [of "- a - 1" "2 ^ width_of \<tau>"] by (simp add: algebra_simps)
    moreover have "promoted \<tau> = \<tau>" using False assms(1) by (cases \<tau>) auto
    ultimately show ?thesis using False assms(1) by (auto simp: cast_to_def kept_def lost_def)
  qed
  then show ?thesis using yields_stored [of "promoted \<tau>" "NOT a" h] by (simp add: not_int_def)
qed

end

subsection \<open>A machine\<close>

text \<open>An instance of the services: aligned addresses, exact checked operations, and floating point
  operations that give the zero, which nothing depends on.\<close>

definition machine_arith :: arith_env where
  "machine_arith =
    \<lparr>ae_endian = little_endian_lib, ae_garbage = [0, 0, 0, 0, 0, 0, 0, 0],
     new_address = (\<lambda>n. push_bit 4 (word_of_nat (n mod 65536 + 1))), checked_int = exact_in,
     checked_f32 = (\<lambda>_ _ _. Some 0), checked_f64 = (\<lambda>_ _ _. Some 0), f32_of_int = (\<lambda>_. 0),
     f64_of_int = (\<lambda>_. 0), f32_to_int = (\<lambda>_. 0), f64_to_int = (\<lambda>_. 0), f32_to_f64 = (\<lambda>_. 0),
     f64_to_f32 = (\<lambda>_. 0), u64_of_double_max = 2 ^ 63\<rparr>"

definition empty_heap :: heap where
  "empty_heap = \<lparr>h_objects = no_objects, h_instances = []\<rparr>"

lemma taggable_address: "taggable (push_bit 4 (word_of_nat (n mod 65536 + 1)))"
proof -
  define k where "k = n mod 65536 + 1"
  have k: "0 < k" "k < 2 ^ 17" unfolding k_def by simp_all
  define p :: u64 where "p = push_bit 4 (word_of_nat k)"
  have "p = word_of_nat (k * 16)" by (simp add: p_def push_bit_eq_mult)
  moreover have "k * 16 < 2 ^ 64" using k by simp
  ultimately have u: "unat p = k * 16" by (simp del: of_nat_mult add: unat_of_nat take_bit_nat_eq_self)
  have "p \<noteq> 0"
  proof
    assume "p = 0"
    then show False using u k by simp
  qed
  moreover have "p < 2 ^ 21" using u k by (simp add: word_less_nat_alt)
  then have "ucast (drop_bit 56 p) = (0 :: u8)"
    using not_bit_small [of p 21] by (auto intro!: bit_word_eqI simp: bit_simps)
  moreover have "ucast p AND mask 3 = (0 :: u8)"
    unfolding p_def by (auto intro!: bit_word_eqI simp: bit_simps)
  ultimately have "taggable p"
    by (simp add: taggable_def be64_def mask_numerals)
  then show ?thesis by (simp add: p_def k_def)
qed

interpretation ma: arith machine_arith
  by (intro arith.intro arith_axioms.intro)
    (simp_all del: of_nat_Suc of_nat_add add: machine_arith_def endian_little taggable_address [simplified] taggable_address)

subsection \<open>Properties\<close>

text \<open>C18. Addition, subtraction, multiplication and division of two integers of a type leave the exact
  result, the quotient being rounded towards zero, as an operand of the type; a result out of the
  range of the type, and a division by zero, are reported as a violated invariant. The only results
  that do not come back are the limits of the stack integers, which come back as 0.\<close>

theorem arithmetic_exact_or_error:
  assumes "arith R" "operand_to_int R h \<tau> lhs = Some a" "operand_to_int R h \<tau> rhs = Some b"
  shows "yields_or_fails R \<tau> (num_add R lhs rhs h) (Some (a + b)) \<and>
    yields_or_fails R \<tau> (num_sub R lhs rhs h) (Some (a - b)) \<and>
    yields_or_fails R \<tau> (num_mul R lhs rhs h) (Some (a * b)) \<and>
    yields_or_fails R \<tau> (num_div R lhs rhs h)
      (if b = 0 then None else Some (sgn a * sgn b * (\<bar>a\<bar> div \<bar>b\<bar>)))"
  using arith.apply_checked_yields [OF assms, of CheckedAdd] arith.apply_checked_yields [OF assms, of CheckedSubtract]
    arith.apply_checked_yields [OF assms, of CheckedMultiply] arith.apply_checked_yields [OF assms, of CheckedDivide]
  by (simp add: num_add_def num_sub_def num_mul_def num_div_def exact_def)

theorem arithmetic_exact_or_error_witness:
  "yields_or_fails machine_arith T_I16
    (num_mul machine_arith (fst (int_to_operand machine_arith T_I16 300 empty_heap))
      (fst (int_to_operand machine_arith T_I16 200 empty_heap)) empty_heap) (Some 60000)"
  using arithmetic_exact_or_error [OF ma.arith_axioms, of empty_heap T_I16
      "fst (int_to_operand machine_arith T_I16 300 empty_heap)" 300
      "fst (int_to_operand machine_arith T_I16 200 empty_heap)" 200]
    ma.int_roundtrip [of T_I16 300 empty_heap] ma.int_roundtrip [of T_I16 200 empty_heap]
  by (simp add: int_to_operand_def in_range_simps kept_def lost_def Let_def)

text \<open>Comparing two integers of a type pushes -1, 0 or 1 by their order; converting an integer to
  another integer type reduces it modulo two to the width, and to its own type changes nothing.\<close>

theorem integers_compare_and_convert:
  assumes "arith R" "operand_to_int R h \<tau> lhs = Some a" "operand_to_int R h \<tau> rhs = Some b"
  shows "\<exists>c. op_compare R lhs rhs h = Inr c \<and> operand_to_int R h T_I64 c = Some (sgn (a - b)) \<and>
    yields R \<sigma> (convert_to_int R \<sigma> lhs h) (if \<tau> = \<sigma> then a else kept \<sigma> (cast_to \<sigma> a))"
  using arith.compare_orders [OF assms] arith.convert_yields [OF assms(1,2), of \<sigma>]
    arith.small_result [OF assms(1), of "sgn (a - b)" h]
  by (auto simp: sgn_if)

theorem integers_compare_and_convert_witness:
  "\<exists>c. op_compare machine_arith (fst (int_to_operand machine_arith T_I16 300 empty_heap))
       (fst (int_to_operand machine_arith T_I16 200 empty_heap)) empty_heap = Inr c \<and>
     operand_to_int machine_arith empty_heap T_I64 c = Some 1 \<and>
     yields machine_arith T_U8 (convert_to_U8 machine_arith (fst (int_to_operand machine_arith T_I16 300 empty_heap)) empty_heap) 44"
  using integers_compare_and_convert [OF ma.arith_axioms, of empty_heap T_I16
      "fst (int_to_operand machine_arith T_I16 300 empty_heap)" 300
      "fst (int_to_operand machine_arith T_I16 200 empty_heap)" 200 T_U8]
    ma.int_roundtrip [of T_I16 300 empty_heap] ma.int_roundtrip [of T_I16 200 empty_heap]
  by (simp add: int_to_operand_def in_range_simps kept_def lost_def Let_def convert_to_U8_def cast_to_def)

text \<open>The bitwise operations work on unsigned integers only, and a shift by the width or more is
  refused. For 32 and 64 bits the results are those of the machine words; for 8 and 16 bits the
  result has the type of 32-bit signed integers, so that complementing 5 gives -6, and shifting
  left does not lose any bits.\<close>

theorem bitwise_results:
  assumes "arith R" "\<not> is_signed \<tau>" "operand_to_int R h \<tau> lhs = Some a" "operand_to_int R h \<tau> rhs = Some b"
    "operand_to_int R h T_U8 count = Some c"
  shows "yields R (promoted \<tau>) (bitwise_and R lhs rhs h) (a AND b) \<and>
    yields R (promoted \<tau>) (bitwise_or R lhs rhs h) (a OR b) \<and>
    yields R (promoted \<tau>) (bitwise_xor R lhs rhs h) (a XOR b) \<and>
    yields R (promoted \<tau>) (bitwise_not R lhs h)
      (if \<tau> \<in> {T_U8, T_U16} then - a - 1 else 2 ^ width_of \<tau> - 1 - a) \<and>
    (if int (width_of \<tau>) \<le> c then bitwise_shl R lhs count h = Inl (Returned kInvalidDataStackV2)
     else yields R (promoted \<tau>) (bitwise_shl R lhs count h)
       (kept (promoted \<tau>) (cast_to (promoted \<tau>) (a * 2 ^ nat c)))) \<and>
    (if int (width_of \<tau>) \<le> c then bitwise_shr R lhs count h = Inl (Returned kInvalidDataStackV2)
     else yields R (promoted \<tau>) (bitwise_shr R lhs count h) (a div 2 ^ nat c))"
proof -
  note a = operand_type [OF assms(3)] and b = operand_type [OF assms(4)]
  have type: "unsigned_type (getType lhs) = Some \<tau>"
    using a(1) assms(2) by (simp add: unsigned_type_iff)
  have ranges: "in_range \<tau> (a AND b)" "in_range \<tau> (a OR b)" "in_range \<tau> (a XOR b)" "in_range \<tau> (a div 2 ^ nat c)"
    using a(2) b(2) assms(2)
    by (auto simp: in_width OR_upper XOR_upper pos_imp_zdiv_nonneg_iff
        intro: le_less_trans [OF AND_upper1] le_less_trans [OF quotient_le])
  note promoted = arith.yields_promoted [OF assms(1,2), of _ h]
  show ?thesis
    using assms(3-5) promoted [OF ranges(1)] promoted [OF ranges(2)] promoted [OF ranges(3)]
      promoted [OF ranges(4)] arith.complement_yields [OF assms(1,2) a(2), of h]
      arith.yields_stored [OF assms(1), of "promoted \<tau>" "a * 2 ^ nat c" h]
    by (simp add: type bitwise_and_def bitwise_or_def bitwise_xor_def bitwise_not_def bitwise_shl_def
        bitwise_shr_def apply_bitwise_def apply_shift_def get_unary_operand_def get_binary_operands_def
        push_bit_eq_mult drop_bit_eq_div)
qed

theorem bitwise_results_witness:
  "yields machine_arith T_I32
     (bitwise_not machine_arith (fst (int_to_operand machine_arith T_U8 5 empty_heap)) empty_heap) (- 6)"
  using bitwise_results [OF ma.arith_axioms, of T_U8 empty_heap "fst (int_to_operand machine_arith T_U8 5 empty_heap)" 5
      "fst (int_to_operand machine_arith T_U8 5 empty_heap)" 5 "fst (int_to_operand machine_arith T_U8 5 empty_heap)" 5]
    ma.int_roundtrip [of T_U8 5 empty_heap]
  by (simp add: int_to_operand_def in_range_simps kept_def lost_def Let_def)

text \<open>Every negative integer, of any signed type, is converted to minus infinity of the type double,
  by the conversion to Float32 also: the code takes the smallest positive number of the floating
  point type for the lowest.\<close>

theorem negative_integer_becomes_infinite:
  assumes "operand_to_int R h \<tau> op = Some a" "a < 0"
  shows "convert_to_F64 R op h = Inr (f64_to_operand R f64_negative_infinity h) \<and>
    convert_to_F32 R op h = Inr (f64_to_operand R f64_negative_infinity h)"
proof -
  note a = operand_type [OF assms(1)]
  have "in_range T_I64 a" using a(2) assms(2) by (cases \<tau>) (auto simp: in_range_simps)
  then show ?thesis
    using assms a(1)
    by (simp add: convert_to_F64_def convert_to_F32_def convert_integral_to_double_def get_unary_operand_def
        cast_same)
qed

theorem negative_integer_becomes_infinite_witness:
  "convert_to_F64 machine_arith (fst (int_to_operand machine_arith T_I8 (- 1) empty_heap)) empty_heap
    = Inr (f64_to_operand machine_arith f64_negative_infinity empty_heap)"
  using negative_integer_becomes_infinite [of machine_arith empty_heap T_I8
      "fst (int_to_operand machine_arith T_I8 (- 1) empty_heap)" "- 1"]
    ma.int_roundtrip [of T_I8 "- 1" empty_heap]
  by (simp add: int_to_operand_def in_range_simps kept_def lost_def Let_def)

end
