(* ===== verification/Procs.thy ===== *)
theory Procs
  imports InterpreterResult Endian
begin

text \<open>
  Procs: the layout of a call in the bytecode of an object, written by the assembler
  (\<open>ProcHandle::build\<close> in \<open>lyric_assembler/src/proc_handle.cpp\<close>) and read by the runtime
  (\<open>lyric_object/src/proc_utils.cpp\<close>). A proc is its size, a header (the numbers of arguments,
  locals and lexicals and the size of the trailer), the table of lexicals, the code, and a trailer
  with the tables of checks, exceptions and cleanups.

  A span is the list of its bytes, and a \<open>tempo_utils::BytesIterator\<close> the bytes that are left.
  \<open>BytesIterator\<close> and \<open>BytesAppender\<close> come from outside of the repository: they are the fields of
  \<open>bytes_lib\<close>, and the locale \<open>bytes_codec\<close> states what the code relies on. A \<open>TU_ASSERT\<close> that does
  not hold is \<open>AssertionFailed\<close>.
\<close>

record bytes_lib =
  bl_endian :: endian_lib
  append_u8 :: "u8 \<Rightarrow> u8 list"
  append_u16 :: "u16 \<Rightarrow> u8 list"
  append_u32 :: "u32 \<Rightarrow> u8 list"
  next_slice :: "nat \<Rightarrow> u8 list \<Rightarrow> (u8 list \<times> u8 list) option"
  bytes_valid :: "u8 list \<Rightarrow> bool"

record proc_info =
  pi_arguments :: u16
  pi_locals :: u16
  pi_lexicals :: u16
  pi_lexicals_span :: "u8 list"
  pi_code :: "u8 list"
  pi_trailer :: "u8 list"

record proc_lexical =
  activation_call :: u32
  target_offset :: u32
  lexical_target :: u8

record proc_check =
  check_interval_offset :: u32
  check_interval_size :: u32
  first_exception :: u16
  check_exceptions :: u16
  exception_local :: u16

record proc_exception =
  exception_type :: u32
  catch_offset :: u32
  catch_size :: u32

record proc_cleanup =
  cleanup_interval_offset :: u32
  cleanup_interval_size :: u32
  parent_cleanup :: u16
  cleanup_offset :: u32
  cleanup_size :: u32

record trailer_info =
  ti_checks :: u16
  ti_exceptions :: u16
  ti_cleanups :: u16
  ti_checks_span :: "u8 list"
  ti_exceptions_span :: "u8 list"
  ti_cleanups_span :: "u8 list"

record activation_info =
  ai_arguments :: u16
  ai_locals :: u16
  ai_lexicals :: u16

abbreviation (input) kProcHeaderSizeInBytes :: nat where "kProcHeaderSizeInBytes \<equiv> 10"
abbreviation (input) kProcLexicalSizeInBytes :: nat where "kProcLexicalSizeInBytes \<equiv> 9"
abbreviation (input) kProcTrailerSizeInBytes :: nat where "kProcTrailerSizeInBytes \<equiv> 6"
abbreviation (input) kProcCheckSizeInBytes :: nat where "kProcCheckSizeInBytes \<equiv> 14"
abbreviation (input) kProcExceptionSizeInBytes :: nat where "kProcExceptionSizeInBytes \<equiv> 12"
abbreviation (input) kProcCleanupSizeInBytes :: nat where "kProcCleanupSizeInBytes \<equiv> 18"

subsection \<open>Reading\<close>

definition object_invariant :: "failure" where
  "object_invariant = ReturnedObject kObjectInvariant"

definition asserted :: "'a option \<Rightarrow> failure + 'a" where
  "asserted x = or_else_fail AssertionFailed x"

definition parse_proc :: "bytes_lib \<Rightarrow> u8 list \<Rightarrow> u32 \<Rightarrow> failure + u8 list" where
  "parse_proc B bytecode offset =
    (if length bytecode \<le> unat offset then Inl object_invariant
     else then_do (or_else_fail object_invariant (next_u32 (bl_endian B) (drop (unat offset) bytecode))) (\<lambda>(size, it).
       if length it < unat size then Inl object_invariant
       else then_do (asserted (next_slice B (unat size) it)) (\<lambda>(proc, it). Inr proc)))"

definition parse_proc_info :: "bytes_lib \<Rightarrow> u8 list \<Rightarrow> u32 \<Rightarrow> failure + proc_info" where
  "parse_proc_info B bytecode offset =
    (let E = bl_endian B
     in then_do (parse_proc B bytecode offset) (\<lambda>it.
     if length it < kProcHeaderSizeInBytes then Inl object_invariant
     else then_do (asserted (next_u16 E it)) (\<lambda>(num_arguments, it).
     then_do (asserted (next_u16 E it)) (\<lambda>(num_locals, it).
     then_do (asserted (next_u16 E it)) (\<lambda>(num_lexicals, it).
     then_do (asserted (next_u32 E it)) (\<lambda>(trailerSize, it).
     let lexicalsSize = unat num_lexicals * kProcLexicalSizeInBytes
     in if length it < lexicalsSize then Inl object_invariant
     else then_do (asserted (next_slice B lexicalsSize it)) (\<lambda>(lexicals, it).
     if length it < unat trailerSize then Inl object_invariant
     else let codeSize = length it - unat trailerSize
     in then_do (asserted (next_slice B codeSize it)) (\<lambda>(code, it).
     then_do (asserted (next_slice B (unat trailerSize) it)) (\<lambda>(trailer, it).
     if bytes_valid B it then Inl AssertionFailed
     else Inr \<lparr>pi_arguments = num_arguments, pi_locals = num_locals, pi_lexicals = num_lexicals,
            pi_lexicals_span = lexicals, pi_code = code, pi_trailer = trailer\<rparr>)))))))))"

definition parse_proc_activation :: "bytes_lib \<Rightarrow> u8 list \<Rightarrow> u32 \<Rightarrow> failure + activation_info" where
  "parse_proc_activation B bytecode offset =
    (let E = bl_endian B
     in then_do (parse_proc B bytecode offset) (\<lambda>it.
     if length it < kProcHeaderSizeInBytes then Inl object_invariant
     else then_do (asserted (next_u16 E it)) (\<lambda>(num_arguments, it).
     then_do (asserted (next_u16 E it)) (\<lambda>(num_locals, it).
     then_do (asserted (next_u16 E it)) (\<lambda>(num_lexicals, it).
     Inr \<lparr>ai_arguments = num_arguments, ai_locals = num_locals, ai_lexicals = num_lexicals\<rparr>)))))"

text \<open>The loop that fills a table: the entries, and what is left of the span.\<close>

fun read_entries :: "(u8 list \<Rightarrow> failure + 'a \<times> u8 list) \<Rightarrow> nat \<Rightarrow> u8 list \<Rightarrow> failure + 'a list \<times> u8 list" where
  "read_entries entry 0 it = Inr ([], it)"
| "read_entries entry (Suc n) it =
    then_do (entry it) (\<lambda>(x, it).
    then_do (read_entries entry n it) (\<lambda>(xs, it). Inr (x # xs, it)))"

definition read_table ::
  "bytes_lib \<Rightarrow> (u8 list \<Rightarrow> failure + 'a \<times> u8 list) \<Rightarrow> nat \<Rightarrow> u16 \<Rightarrow> u8 list \<Rightarrow> failure + 'a list" where
  "read_table B entry bytes n span =
    (if length span \<noteq> unat n * bytes then Inl object_invariant
     else then_do (read_entries entry (unat n) span) (\<lambda>(xs, it).
       if bytes_valid B it then Inl AssertionFailed else Inr xs))"

definition read_lexical :: "bytes_lib \<Rightarrow> u8 list \<Rightarrow> failure + proc_lexical \<times> u8 list" where
  "read_lexical B it =
    (let E = bl_endian B
     in then_do (asserted (next_u32 E it)) (\<lambda>(call, it).
     then_do (asserted (next_u32 E it)) (\<lambda>(offset, it).
     then_do (asserted (next_u8 E it)) (\<lambda>(target, it).
     Inr (\<lparr>activation_call = call, target_offset = offset, lexical_target = target\<rparr>, it)))))"

definition parse_lexicals_table :: "bytes_lib \<Rightarrow> proc_info \<Rightarrow> failure + proc_lexical list" where
  "parse_lexicals_table B info =
    read_table B (read_lexical B) kProcLexicalSizeInBytes (pi_lexicals info) (pi_lexicals_span info)"

definition parse_proc_trailer :: "bytes_lib \<Rightarrow> proc_info \<Rightarrow> failure + trailer_info" where
  "parse_proc_trailer B info =
    (let E = bl_endian B; it = pi_trailer info
     in if it = [] then
       Inr \<lparr>ti_checks = 0, ti_exceptions = 0, ti_cleanups = 0,
         ti_checks_span = [], ti_exceptions_span = [], ti_cleanups_span = []\<rparr>
     else if length it < kProcTrailerSizeInBytes then Inl object_invariant
     else then_do (asserted (next_u16 E it)) (\<lambda>(num_checks, it).
     then_do (asserted (next_u16 E it)) (\<lambda>(num_exceptions, it).
     then_do (asserted (next_u16 E it)) (\<lambda>(num_cleanups, it).
     let checksSize = unat num_checks * kProcCheckSizeInBytes
     in if length it < checksSize then Inl object_invariant
     else then_do (asserted (next_slice B checksSize it)) (\<lambda>(checks, it).
     let exceptionsSize = unat num_exceptions * kProcExceptionSizeInBytes
     in if length it < exceptionsSize then Inl object_invariant
     else then_do (asserted (next_slice B exceptionsSize it)) (\<lambda>(exceptions, it).
     let cleanupsSize = unat num_cleanups * kProcCleanupSizeInBytes
     in if length it < cleanupsSize then Inl object_invariant
     else then_do (asserted (next_slice B cleanupsSize it)) (\<lambda>(cleanups, it).
     if bytes_valid B it then Inl AssertionFailed
     else Inr \<lparr>ti_checks = num_checks, ti_exceptions = num_exceptions, ti_cleanups = num_cleanups,
            ti_checks_span = checks, ti_exceptions_span = exceptions, ti_cleanups_span = cleanups\<rparr>)))))))"

definition read_check :: "bytes_lib \<Rightarrow> u8 list \<Rightarrow> failure + proc_check \<times> u8 list" where
  "read_check B it =
    (let E = bl_endian B
     in then_do (asserted (next_u32 E it)) (\<lambda>(offset, it).
     then_do (asserted (next_u32 E it)) (\<lambda>(size, it).
     then_do (asserted (next_u16 E it)) (\<lambda>(first, it).
     then_do (asserted (next_u16 E it)) (\<lambda>(num, it).
     then_do (asserted (next_u16 E it)) (\<lambda>(local, it).
     Inr (\<lparr>check_interval_offset = offset, check_interval_size = size, first_exception = first,
            check_exceptions = num, exception_local = local\<rparr>, it)))))))"

definition parse_checks_table :: "bytes_lib \<Rightarrow> trailer_info \<Rightarrow> failure + proc_check list" where
  "parse_checks_table B info =
    read_table B (read_check B) kProcCheckSizeInBytes (ti_checks info) (ti_checks_span info)"

definition read_exception :: "bytes_lib \<Rightarrow> u8 list \<Rightarrow> failure + proc_exception \<times> u8 list" where
  "read_exception B it =
    (let E = bl_endian B
     in then_do (asserted (next_u32 E it)) (\<lambda>(type, it).
     then_do (asserted (next_u32 E it)) (\<lambda>(offset, it).
     then_do (asserted (next_u32 E it)) (\<lambda>(size, it).
     Inr (\<lparr>exception_type = type, catch_offset = offset, catch_size = size\<rparr>, it)))))"

definition parse_exceptions_table :: "bytes_lib \<Rightarrow> trailer_info \<Rightarrow> failure + proc_exception list" where
  "parse_exceptions_table B info =
    read_table B (read_exception B) kProcExceptionSizeInBytes (ti_exceptions info) (ti_exceptions_span info)"

definition read_cleanup :: "bytes_lib \<Rightarrow> u8 list \<Rightarrow> failure + proc_cleanup \<times> u8 list" where
  "read_cleanup B it =
    (let E = bl_endian B
     in then_do (asserted (next_u32 E it)) (\<lambda>(offset, it).
     then_do (asserted (next_u32 E it)) (\<lambda>(size, it).
     then_do (asserted (next_u16 E it)) (\<lambda>(parent, it).
     then_do (asserted (next_u32 E it)) (\<lambda>(handler, it).
     then_do (asserted (next_u32 E it)) (\<lambda>(handler_size, it).
     Inr (\<lparr>cleanup_interval_offset = offset, cleanup_interval_size = size, parent_cleanup = parent,
            cleanup_offset = handler, cleanup_size = handler_size\<rparr>, it)))))))"

definition parse_cleanups_table :: "bytes_lib \<Rightarrow> trailer_info \<Rightarrow> failure + proc_cleanup list" where
  "parse_cleanups_table B info =
    read_table B (read_cleanup B) kProcCleanupSizeInBytes (ti_cleanups info) (ti_cleanups_span info)"

subsection \<open>Writing\<close>

definition write_lexical :: "bytes_lib \<Rightarrow> proc_lexical \<Rightarrow> u8 list" where
  "write_lexical B l =
    append_u32 B (activation_call l) @ append_u32 B (target_offset l) @ append_u8 B (lexical_target l)"

definition write_check :: "bytes_lib \<Rightarrow> proc_check \<Rightarrow> u8 list" where
  "write_check B c =
    append_u32 B (check_interval_offset c) @ append_u32 B (check_interval_size c) @
    append_u16 B (first_exception c) @ append_u16 B (check_exceptions c) @ append_u16 B (exception_local c)"

definition write_exception :: "bytes_lib \<Rightarrow> proc_exception \<Rightarrow> u8 list" where
  "write_exception B e =
    append_u32 B (exception_type e) @ append_u32 B (catch_offset e) @ append_u32 B (catch_size e)"

definition write_cleanup :: "bytes_lib \<Rightarrow> proc_cleanup \<Rightarrow> u8 list" where
  "write_cleanup B c =
    append_u32 B (cleanup_interval_offset c) @ append_u32 B (cleanup_interval_size c) @
    append_u16 B (parent_cleanup c) @ append_u32 B (cleanup_offset c) @ append_u32 B (cleanup_size c)"

definition write_trailer ::
  "bytes_lib \<Rightarrow> proc_check list \<Rightarrow> proc_exception list \<Rightarrow> proc_cleanup list \<Rightarrow> u8 list" where
  "write_trailer B checks exceptions cleanups =
    (if checks \<noteq> [] \<or> exceptions \<noteq> [] \<or> cleanups \<noteq> [] then
       append_u16 B (word_of_nat (length checks)) @ append_u16 B (word_of_nat (length exceptions)) @
       append_u16 B (word_of_nat (length cleanups)) @ concat (map (write_check B) checks) @
       concat (map (write_exception B) exceptions) @ concat (map (write_cleanup B) cleanups)
     else [])"

definition write_header :: "bytes_lib \<Rightarrow> int \<Rightarrow> int \<Rightarrow> proc_lexical list \<Rightarrow> u8 list \<Rightarrow> u8 list" where
  "write_header B arity locals lexicals trailer =
    append_u16 B (word_of_int arity) @ append_u16 B (word_of_int locals) @
    append_u16 B (word_of_nat (length lexicals)) @ append_u32 B (word_of_nat (length trailer)) @
    concat (map (write_lexical B) lexicals)"

definition write_proc :: "bytes_lib \<Rightarrow> u8 list \<Rightarrow> u8 list \<Rightarrow> u8 list \<Rightarrow> u8 list" where
  "write_proc B header code trailer =
    append_u32 B (word_of_nat (length header + length code + length trailer)) @ header @ code @ trailer"

text \<open>The procs of the bootstrap objects (\<open>lyric_bootstrap/object/builder_state.cpp\<close>) have no locals,
  no lexicals and no trailer.\<close>

definition write_bootstrap_proc :: "bytes_lib \<Rightarrow> nat \<Rightarrow> u8 list \<Rightarrow> u8 list" where
  "write_bootstrap_proc B parameters code =
    (let prologue = append_u16 B (word_of_nat parameters) @ append_u16 B 0 @ append_u16 B 0 @ append_u32 B 0
     in append_u32 B (word_of_nat (length prologue + length code)) @ prologue @ code)"

subsection \<open>Checks of a proc\<close>

text \<open>A check protects the code between two labels with the catches it declares; checks nest. The
  local that holds the caught exception is given by its offset, and a type by its index in the
  object, unless \<open>getTypeOffset\<close> fails.\<close>

record catch_handle =
  catch_start :: string
  catch_end :: string
  catch_type :: "u32 option"

datatype check_handle =
  CheckHandle (check_start: string) (check_end: string) (check_caught: u32)
    (check_catches: "catch_handle list") (check_children: "check_handle list")

fun build_check_level :: "check_handle \<Rightarrow> nat \<Rightarrow> check_handle list" where
  "build_check_level handle 0 = [handle]"
| "build_check_level handle (Suc level) =
    concat (map (\<lambda>child. build_check_level child level) (check_children handle))"

fun build_check_levels :: "check_handle list \<Rightarrow> nat \<Rightarrow> check_handle list" where
  "build_check_levels roots 0 = []"
| "build_check_levels roots (Suc depth) =
    concat (map (\<lambda>root. build_check_level root depth) roots) @ build_check_levels roots depth"

text \<open>A label that is not in the table would be an iterator at the end of the map, which is then
  dereferenced.\<close>

datatype assembler_failure = MissingTypeOffset | DereferencedEnd

type_synonym label_offsets = "string \<Rightarrow> u16 option"

definition label_offset :: "label_offsets \<Rightarrow> string \<Rightarrow> assembler_failure + u32" where
  "label_offset labels name =
    then_do (or_else_fail DereferencedEnd (labels name)) (\<lambda>w. Inr (ucast w))"

definition build_exception :: "label_offsets \<Rightarrow> catch_handle \<Rightarrow> assembler_failure + proc_exception" where
  "build_exception labels handle =
    then_do (or_else_fail MissingTypeOffset (catch_type handle)) (\<lambda>type.
    then_do (label_offset labels (catch_start handle)) (\<lambda>start.
    then_do (label_offset labels (catch_end handle)) (\<lambda>finish.
    Inr \<lparr>exception_type = type, catch_offset = start, catch_size = finish - start\<rparr>)))"

fun build_exceptions :: "label_offsets \<Rightarrow> catch_handle list \<Rightarrow> assembler_failure + proc_exception list" where
  "build_exceptions labels [] = Inr []"
| "build_exceptions labels (handle # handles) =
    then_do (build_exception labels handle) (\<lambda>e.
    then_do (build_exceptions labels handles) (\<lambda>es. Inr (e # es)))"

text \<open>The loop over the checks appends to both tables.\<close>

fun build_checks ::
  "label_offsets \<Rightarrow> check_handle list \<Rightarrow> proc_check list \<times> proc_exception list
    \<Rightarrow> assembler_failure + proc_check list \<times> proc_exception list" where
  "build_checks labels [] tables = Inr tables"
| "build_checks labels (handle # handles) (checks, exceptions) =
    then_do (label_offset labels (check_start handle)) (\<lambda>start.
    then_do (label_offset labels (check_end handle)) (\<lambda>finish.
    then_do (build_exceptions labels (check_catches handle)) (\<lambda>es.
    build_checks labels handles
      (checks @ [\<lparr>check_interval_offset = start, check_interval_size = finish - start,
          first_exception = word_of_nat (length exceptions),
          check_exceptions = word_of_nat (length (check_catches handle)),
          exception_local = ucast (check_caught handle)\<rparr>],
       exceptions @ es))))"

text \<open>The tail of \<open>build\<close>, once the code is built and its jumps are patched.\<close>

definition build_proc ::
  "bytes_lib \<Rightarrow> label_offsets \<Rightarrow> int \<Rightarrow> int \<Rightarrow> proc_lexical list \<Rightarrow> check_handle list \<Rightarrow> nat \<Rightarrow> u8 list
    \<Rightarrow> assembler_failure + u8 list" where
  "build_proc B labels arity locals lexicals roots depth code =
    then_do (build_checks labels (build_check_levels roots depth) ([], [])) (\<lambda>(checks, exceptions).
      let trailer = write_trailer B checks exceptions []; header = write_header B arity locals lexicals trailer
      in Inr (write_proc B header code trailer))"

end
