(* ===== verification/ProcsLaws.thy ===== *)
theory ProcsLaws
  imports Procs
begin

text \<open>
  The runtime reads back what the assembler writes. The locale \<open>bytes_codec\<close> states what both rely
  on from \<open>BytesIterator\<close> and \<open>BytesAppender\<close>; \<open>entry_codec\<close> is the contract of the entries of a
  table, which each of the four kinds fulfils. No assertion of the readers can fail, whatever the
  bytes are. The checks of a proc are laid out with nested checks first.
\<close>

locale entry_codec =
  fixes put :: "'a \<Rightarrow> u8 list" and get :: "u8 list \<Rightarrow> failure + 'a \<times> u8 list" and width :: nat
  assumes put_length: "length (put x) = width"
    and get_put: "get (put x @ rest) = Inr (x, rest)"
    and get_any: "width \<le> length bs \<Longrightarrow> \<exists>x. get bs = Inr (x, drop width bs)"
begin

lemma length_entries: "length (concat (map put xs)) = length xs * width"
  by (induction xs) (simp_all add: put_length)

lemma get_entries_put: "read_entries get (length xs) (concat (map put xs) @ rest) = Inr (xs, rest)"
  by (induction xs) (simp_all add: get_put)

lemma read_entries_any:
  "n * width \<le> length bs \<Longrightarrow> \<exists>xs. read_entries get n bs = Inr (xs, drop (n * width) bs) \<and> length xs = n"
proof (induction n arbitrary: bs)
  case 0
  then show ?case by simp
next
  case (Suc n)
  obtain x where x: "get bs = Inr (x, drop width bs)" using get_any [of bs] Suc.prems by auto
  have "n * width \<le> length (drop width bs)" using Suc.prems by simp
  from Suc.IH [OF this] obtain xs
    where xs: "read_entries get n (drop width bs) = Inr (xs, drop (n * width) (drop width bs))" "length xs = n"
    by blast
  show ?case using x xs by (simp add: add.commute)
qed

end

locale bytes_codec = endian "bl_endian B" for B :: bytes_lib +
  assumes append_u8: "append_u8 B a = [a]"
    and append_u16: "append_u16 B b = be16 b"
    and append_u32: "append_u32 B c = be32 c"
    and next_slice: "n \<le> length bs \<Longrightarrow> next_slice B n bs = Some (take n bs, drop n bs)"
    and bytes_valid: "bytes_valid B bs \<longleftrightarrow> bs \<noteq> []"
begin

lemmas append = append_u8 append_u16 append_u32

lemma take_u8: "1 \<le> length bs \<Longrightarrow> next_u8 (bl_endian B) bs = Some (hd bs, drop 1 bs)"
  by (cases bs) (simp_all add: next_u8)

lemma read_table_any:
  assumes "entry_codec put get width"
  shows "read_table B get width n span =
    (if length span = unat n * width
     then Inr (fst (projr (read_entries get (unat n) span))) else Inl object_invariant)"
  using entry_codec.read_entries_any [OF assms, of "unat n" span]
  by (auto simp: read_table_def bytes_valid)

lemma read_table_put:
  assumes "entry_codec put get width" "length xs < 2 ^ 16"
  shows "read_table B get width (word_of_nat (length xs)) (concat (map put xs)) = Inr xs"
proof -
  have "unat (word_of_nat (length xs) :: u16) = length xs"
    using assms(2) by (simp add: unat_of_nat take_bit_nat_eq_self)
  then show ?thesis
    using entry_codec.length_entries [OF assms(1), of xs]
      entry_codec.get_entries_put [OF assms(1), of xs "[]"]
    by (simp add: read_table_def bytes_valid)
qed

end

sublocale bytes_codec \<subseteq> lexicals: entry_codec "write_lexical B" "read_lexical B" 9
  by unfold_locales
    (simp_all add: write_lexical_def read_lexical_def append asserted_def consume take_u32 take_u8 numeral_eq_Suc)

sublocale bytes_codec \<subseteq> checks: entry_codec "write_check B" "read_check B" 14
  by unfold_locales
    (simp_all add: write_check_def read_check_def append asserted_def consume take_u32 take_u16)

sublocale bytes_codec \<subseteq> exceptions: entry_codec "write_exception B" "read_exception B" 12
  by unfold_locales
    (simp_all add: write_exception_def read_exception_def append asserted_def consume take_u32)

sublocale bytes_codec \<subseteq> cleanups: entry_codec "write_cleanup B" "read_cleanup B" 18
  by unfold_locales
    (simp_all add: write_cleanup_def read_cleanup_def append asserted_def consume take_u32 take_u16)

subsection \<open>What was written is read\<close>

context bytes_codec
begin

lemma parse_proc_written:
  assumes "length header + length code + length trailer < 2 ^ 32" "length before < 2 ^ 32"
  shows "parse_proc B (before @ write_proc B header code trailer @ after) (word_of_nat (length before))
    = Inr (header @ code @ trailer)"
proof -
  have offset: "unat (word_of_nat (length before) :: u32) = length before"
    using assms(2) by (simp add: unat_of_nat take_bit_nat_eq_self)
  have "unat (word_of_nat (length header + length code + length trailer) :: u32)
      = length header + length code + length trailer"
    using assms(1) by (simp del: of_nat_add add: unat_of_nat take_bit_nat_eq_self)
  then show ?thesis
    unfolding parse_proc_def offset
    by (simp del: of_nat_add add: write_proc_def append consume asserted_def next_slice)
qed

lemma parse_proc_info_written:
  assumes "length lexicals < 2 ^ 16" "length before < 2 ^ 32"
    "10 + length lexicals * 9 + length code + length trailer < 2 ^ 32"
  shows "parse_proc_info B
      (before @ write_proc B (write_header B arity locals lexicals trailer) code trailer @ after)
      (word_of_nat (length before))
    = Inr \<lparr>pi_arguments = word_of_int arity, pi_locals = word_of_int locals,
        pi_lexicals = word_of_nat (length lexicals),
        pi_lexicals_span = concat (map (write_lexical B) lexicals), pi_code = code, pi_trailer = trailer\<rparr>"
proof -
  note lexs = lexicals.length_entries [of lexicals]
  have "length (write_header B arity locals lexicals trailer) + length code + length trailer < 2 ^ 32"
    using assms(3) by (simp add: write_header_def append lexs)
  note proc = parse_proc_written [OF this assms(2), of after]
  have n: "unat (word_of_nat (length lexicals) :: u16) = length lexicals"
    using assms(1) by (simp add: unat_of_nat take_bit_nat_eq_self)
  have t: "unat (word_of_nat (length trailer) :: u32) = length trailer"
    using assms(3) by (simp add: unat_of_nat take_bit_nat_eq_self)
  show ?thesis
    unfolding parse_proc_info_def Let_def proc
    by (simp add: write_header_def append consume asserted_def n t lexs next_slice bytes_valid)
qed

lemma parse_trailer_written:
  assumes "pi_trailer info = write_trailer B checks exceptions cleanups"
    "length checks < 2 ^ 16" "length exceptions < 2 ^ 16" "length cleanups < 2 ^ 16"
  shows "parse_proc_trailer B info = Inr
    \<lparr>ti_checks = word_of_nat (length checks), ti_exceptions = word_of_nat (length exceptions),
      ti_cleanups = word_of_nat (length cleanups), ti_checks_span = concat (map (write_check B) checks),
      ti_exceptions_span = concat (map (write_exception B) exceptions),
      ti_cleanups_span = concat (map (write_cleanup B) cleanups)\<rparr>"
proof (cases "checks \<noteq> [] \<or> exceptions \<noteq> [] \<or> cleanups \<noteq> []")
  case True
  have n: "unat (word_of_nat (length checks) :: u16) = length checks"
    "unat (word_of_nat (length exceptions) :: u16) = length exceptions"
    "unat (word_of_nat (length cleanups) :: u16) = length cleanups"
    using assms(2-4) by (simp_all add: unat_of_nat take_bit_nat_eq_self)
  note lengths = checks.length_entries exceptions.length_entries cleanups.length_entries
  have not_Nil: "be16 w \<noteq> []" for w by (simp add: be16_def)
  have "write_trailer B checks exceptions cleanups \<noteq> []"
    using True by (simp add: write_trailer_def append be16_def)
  moreover have "\<not> length (write_trailer B checks exceptions cleanups) < 6"
    using True by (simp add: write_trailer_def append)
  ultimately show ?thesis
    unfolding parse_proc_trailer_def Let_def assms(1)
    using True by (simp add: write_trailer_def append consume asserted_def n lengths next_slice bytes_valid not_Nil)
next
  case False
  then show ?thesis using assms(1) by (simp add: parse_proc_trailer_def write_trailer_def)
qed

lemma length_trailer:
  "length (write_trailer B checks exceptions []) \<le> 6 + length checks * 14 + length exceptions * 12"
  by (simp add: write_trailer_def append checks.length_entries exceptions.length_entries)

lemma parse_lexicals_written:
  assumes "pi_lexicals info = word_of_nat (length lexs)"
    "pi_lexicals_span info = concat (map (write_lexical B) lexs)" "length lexs < 2 ^ 16"
  shows "parse_lexicals_table B info = Inr lexs"
  using read_table_put [OF lexicals.entry_codec_axioms assms(3)] by (simp add: parse_lexicals_table_def assms)

lemma parse_tables_written:
  assumes "pi_trailer info = write_trailer B cs es []" "length cs < 2 ^ 16" "length es < 2 ^ 16"
  shows "\<exists>t. parse_proc_trailer B info = Inr t \<and> parse_checks_table B t = Inr cs \<and>
    parse_exceptions_table B t = Inr es \<and> parse_cleanups_table B t = Inr []"
proof -
  note trailer = parse_trailer_written [OF assms, simplified]
  note tables = read_table_put [OF checks.entry_codec_axioms assms(2)]
    read_table_put [OF exceptions.entry_codec_axioms assms(3)]
    read_table_put [OF cleanups.entry_codec_axioms, of "[]"]
  show ?thesis
    unfolding trailer using tables
    by (simp add: parse_checks_table_def parse_exceptions_table_def parse_cleanups_table_def)
qed

lemma parse_trailer_excess: "parse_proc_trailer B (info\<lparr>pi_trailer := replicate 7 0\<rparr>) = Inl AssertionFailed"
proof -
  have "parse_proc_trailer B (info\<lparr>pi_trailer := [0, 0, 0, 0, 0, 0, 0]\<rparr>) = Inl AssertionFailed"
    by (simp add: parse_proc_trailer_def Let_def take_u16 asserted_def next_slice bytes_valid)
  moreover have "replicate 7 0 = [0, 0, 0, 0, 0, 0, 0]" by (simp add: numeral_eq_Suc)
  ultimately show ?thesis by metis
qed

lemma read_tables_any:
  "length (pi_lexicals_span info) = unat (pi_lexicals info) * 9 \<Longrightarrow> \<exists>xs. parse_lexicals_table B info = Inr xs"
  "length (ti_checks_span t) = unat (ti_checks t) * 14 \<Longrightarrow> \<exists>xs. parse_checks_table B t = Inr xs"
  "length (ti_exceptions_span t) = unat (ti_exceptions t) * 12 \<Longrightarrow> \<exists>xs. parse_exceptions_table B t = Inr xs"
  "length (ti_cleanups_span t) = unat (ti_cleanups t) * 18 \<Longrightarrow> \<exists>xs. parse_cleanups_table B t = Inr xs"
  by (simp_all add: parse_lexicals_table_def parse_checks_table_def parse_exceptions_table_def
      parse_cleanups_table_def read_table_any [OF lexicals.entry_codec_axioms]
      read_table_any [OF checks.entry_codec_axioms] read_table_any [OF exceptions.entry_codec_axioms]
      read_table_any [OF cleanups.entry_codec_axioms])

text \<open>A proc from the reader is split exactly.\<close>

lemma parse_proc_cases:
  "parse_proc B bytecode offset = Inl object_invariant \<or>
    (\<exists>proc. parse_proc B bytecode offset = Inr proc)"
  by (auto simp: parse_proc_def asserted_def next_slice or_else_fail_def then_do_def
      split: option.split prod.split if_split)

lemma parse_proc_info_cases:
  "parse_proc_info B bytecode offset = Inl object_invariant \<or>
    (\<exists>info. parse_proc_info B bytecode offset = Inr info \<and>
      length (pi_lexicals_span info) = unat (pi_lexicals info) * 9)"
proof (cases "\<exists>proc. parse_proc B bytecode offset = Inr proc \<and> 10 \<le> length proc")
  case True
  then obtain proc where p: "parse_proc B bytecode offset = Inr proc" "10 \<le> length proc" by blast
  define lexicals :: u16 where "lexicals = be_value (take 2 (drop 4 proc)) 0"
  define trailer :: u32 where "trailer = be_value (take 4 (drop 6 proc)) 0"
  have "next_u16 (bl_endian B) proc = Some (be_value (take 2 proc) 0, drop 2 proc)"
    "next_u16 (bl_endian B) (drop 2 proc) = Some (be_value (take 2 (drop 2 proc)) 0, drop 4 proc)"
    "next_u16 (bl_endian B) (drop 4 proc) = Some (lexicals, drop 6 proc)"
    "next_u32 (bl_endian B) (drop 6 proc) = Some (trailer, drop 10 proc)"
    using p(2) by (simp_all add: take_u16 take_u32 lexicals_def trailer_def)
  then show ?thesis
    using p by (auto simp: parse_proc_info_def asserted_def next_slice bytes_valid Let_def)
next
  case False
  then show ?thesis
    using parse_proc_cases [of bytecode offset] by (auto simp: parse_proc_info_def)
qed

lemma parse_trailer_cases:
  "parse_proc_trailer B info = Inl object_invariant \<or> parse_proc_trailer B info = Inl AssertionFailed \<or>
    (\<exists>t. parse_proc_trailer B info = Inr t \<and>
      length (ti_checks_span t) = unat (ti_checks t) * 14 \<and>
      length (ti_exceptions_span t) = unat (ti_exceptions t) * 12 \<and>
      length (ti_cleanups_span t) = unat (ti_cleanups t) * 18)"
proof (cases "6 \<le> length (pi_trailer info)")
  case True
  define it where "it = pi_trailer info"
  define checks exceptions cleanups :: u16
    where "checks = be_value (take 2 it) 0" and "exceptions = be_value (take 2 (drop 2 it)) 0"
      and "cleanups = be_value (take 2 (drop 4 it)) 0"
  have "next_u16 (bl_endian B) it = Some (checks, drop 2 it)"
    "next_u16 (bl_endian B) (drop 2 it) = Some (exceptions, drop 4 it)"
    "next_u16 (bl_endian B) (drop 4 it) = Some (cleanups, drop 6 it)" "it \<noteq> []" "\<not> length it < 6"
    using True by (auto simp: take_u16 checks_def exceptions_def cleanups_def it_def)
  then show ?thesis
    unfolding parse_proc_trailer_def Let_def it_def [symmetric]
    by (simp add: asserted_def next_slice)
next
  case False
  then show ?thesis by (simp add: parse_proc_trailer_def Let_def)
qed

end

definition machine_bytes :: bytes_lib where
  "machine_bytes =
    \<lparr>bl_endian = little_endian_lib, append_u8 = (\<lambda>a. [a]), append_u16 = be16, append_u32 = be32,
     next_slice = (\<lambda>n bs. if n \<le> length bs then Some (take n bs, drop n bs) else None),
     bytes_valid = (\<lambda>bs. bs \<noteq> [])\<rparr>"

interpretation mb: bytes_codec machine_bytes
  by (rule bytes_codec.intro) (simp_all add: machine_bytes_def endian_little bytes_codec_axioms_def)

interpretation lexical_entries: entry_codec "write_lexical machine_bytes" "read_lexical machine_bytes" 9
  by (rule mb.lexicals.entry_codec_axioms)

text \<open>The procs of the bootstrap objects have the same layout.\<close>

lemma bootstrap_proc: "write_bootstrap_proc B n code = write_proc B (write_header B (int n) 0 [] []) code []"
  by (simp add: write_bootstrap_proc_def write_proc_def write_header_def)

subsection \<open>The order of the checks\<close>

lemma build_check_level_nested:
  "outer \<in> set (build_check_level root n) \<Longrightarrow> inner \<in> set (build_check_level outer k) \<Longrightarrow>
    inner \<in> set (build_check_level root (n + k))"
  by (induction n arbitrary: root) auto

lemma build_check_levels_split:
  assumes "n < depth"
  obtains deeper where "build_check_levels roots depth =
    deeper @ concat (map (\<lambda>root. build_check_level root n) roots) @ build_check_levels roots n"
  using assms
proof (induction depth arbitrary: thesis)
  case 0
  then show ?case by simp
next
  case (Suc depth)
  show ?case
  proof (cases "n = depth")
    case True
    then show ?thesis using Suc.prems(1) [of "[]"] by simp
  next
    case False
    then have "n < depth" using Suc.prems(2) by simp
    from Suc.IH [OF _ this] obtain deeper where "build_check_levels roots depth =
      deeper @ concat (map (\<lambda>root. build_check_level root n) roots) @ build_check_levels roots n" by blast
    then show ?thesis
      using Suc.prems(1) [of "concat (map (\<lambda>root. build_check_level root depth) roots) @ deeper"] by simp
  qed
qed

lemma in_build_check_levels:
  "root \<in> set roots \<Longrightarrow> handle \<in> set (build_check_level root n) \<Longrightarrow> n < depth \<Longrightarrow>
    handle \<in> set (build_check_levels roots depth)"
  by (induction depth) (auto simp: less_Suc_eq)

subsection \<open>Properties\<close>

text \<open>C19. A proc that the assembler builds, wherever it lies in the bytecode of an object, is read back
  by the runtime: its counts, its code, its lexicals, and the checks and exceptions of its trailer.\<close>

theorem proc_roundtrip:
  assumes B: "bytes_codec B"
    and tables: "build_checks labels (build_check_levels roots depth) ([], []) = Inr (checks, exceptions)"
    and counts: "length lexicals < 2 ^ 16" "length checks < 2 ^ 16" "length exceptions < 2 ^ 16"
    and sizes: "length before < 2 ^ 32"
      "16 + length lexicals * 9 + length code + length checks * 14 + length exceptions * 12 < 2 ^ 32"
  shows "\<exists>proc info trailer. build_proc B labels arity locals lexicals roots depth code = Inr proc \<and>
    parse_proc_info B (before @ proc @ after) (word_of_nat (length before)) = Inr info \<and>
    pi_arguments info = word_of_int arity \<and> pi_locals info = word_of_int locals \<and> pi_code info = code \<and>
    parse_lexicals_table B info = Inr lexicals \<and> parse_proc_trailer B info = Inr trailer \<and>
    parse_checks_table B trailer = Inr checks \<and> parse_exceptions_table B trailer = Inr exceptions \<and>
    parse_cleanups_table B trailer = Inr []"
proof -
  have "10 + length lexicals * 9 + length code + length (write_trailer B checks exceptions []) < 2 ^ 32"
    using bytes_codec.length_trailer [OF B, of checks exceptions] sizes(2) by simp
  note parsed = bytes_codec.parse_proc_info_written [OF B counts(1) sizes(1) this, of arity locals after]
  define info where "info =
    \<lparr>pi_arguments = word_of_int arity, pi_locals = word_of_int locals,
      pi_lexicals = word_of_nat (length lexicals),
      pi_lexicals_span = concat (map (write_lexical B) lexicals), pi_code = code,
      pi_trailer = write_trailer B checks exceptions []\<rparr>"
  have "parse_lexicals_table B info = Inr lexicals"
    by (rule bytes_codec.parse_lexicals_written [OF B _ _ counts(1)]) (simp_all add: info_def)
  moreover obtain trailer where "parse_proc_trailer B info = Inr trailer" "parse_checks_table B trailer = Inr checks"
    "parse_exceptions_table B trailer = Inr exceptions" "parse_cleanups_table B trailer = Inr []"
    using bytes_codec.parse_tables_written [OF B _ counts(2,3), of info] by (auto simp: info_def)
  ultimately show ?thesis
    using parsed by (auto simp: build_proc_def tables Let_def simp flip: info_def) (simp_all add: info_def)
qed

theorem proc_roundtrip_witness:
  "\<exists>proc info. build_proc machine_bytes (\<lambda>_. Some 0) 2 1
      [\<lparr>activation_call = 3, target_offset = 0, lexical_target = 1\<rparr>] [] 0 [1, 2, 3] = Inr proc \<and>
    parse_proc_info machine_bytes ([9, 9] @ proc @ [7]) (word_of_nat (length [9 :: u8, 9])) = Inr info \<and>
    pi_arguments info = 2 \<and> pi_code info = [1, 2, 3]"
  using proc_roundtrip [OF mb.bytes_codec_axioms, of "\<lambda>_. Some 0" "[]" 0 "[]" "[]"
      "[\<lparr>activation_call = 3, target_offset = 0, lexical_target = 1\<rparr>]" "[9, 9]" "[1, 2, 3]" 2 1 "[7]"]
  by fastforce

text \<open>Whatever the bytes are, reading a proc and its lexicals ends with a value or an error status
  and no assertion fails; so does reading the tables of a trailer, but a trailer that is longer than
  its tables makes \<open>parse_proc_trailer\<close> fail an assertion.\<close>

theorem proc_reading_is_safe:
  assumes "bytes_codec B"
  shows "(case parse_proc_info B bytecode offset of
       Inl e \<Rightarrow> e = object_invariant
     | Inr info \<Rightarrow> (\<exists>ls. parse_lexicals_table B info = Inr ls) \<and>
        (case parse_proc_trailer B info of
           Inl e \<Rightarrow> e \<in> {object_invariant, AssertionFailed}
         | Inr t \<Rightarrow> (\<exists>cs es us. parse_checks_table B t = Inr cs \<and> parse_exceptions_table B t = Inr es \<and>
             parse_cleanups_table B t = Inr us))) \<and>
    parse_proc_trailer B (info'\<lparr>pi_trailer := replicate 7 0\<rparr>) = Inl AssertionFailed"
proof -
  have tables: "case parse_proc_trailer B info of
       Inl e \<Rightarrow> e \<in> {object_invariant, AssertionFailed}
     | Inr t \<Rightarrow> (\<exists>cs es us. parse_checks_table B t = Inr cs \<and> parse_exceptions_table B t = Inr es \<and>
         parse_cleanups_table B t = Inr us)" for info
    using bytes_codec.parse_trailer_cases [OF assms, of info] bytes_codec.read_tables_any(2-4) [OF assms]
    by (elim disjE exE conjE) (simp_all add: ex_simps)
  show ?thesis
    using bytes_codec.parse_proc_info_cases [OF assms, of bytecode offset] tables
      bytes_codec.read_tables_any(1) [OF assms] bytes_codec.parse_trailer_excess [OF assms]
    by (elim disjE exE conjE) simp_all
qed

theorem proc_reading_is_safe_witness:
  "parse_proc_trailer machine_bytes ((\<lparr>pi_arguments = 0, pi_locals = 0, pi_lexicals = 0, pi_lexicals_span = [],
      pi_code = [], pi_trailer = []\<rparr>)\<lparr>pi_trailer := replicate 7 0\<rparr>) = Inl AssertionFailed"
  using proc_reading_is_safe [OF mb.bytes_codec_axioms] by blast

text \<open>The assembler lists every check of a proc, and a check that is nested in another one comes
  before it, so that the runtime, which takes the first check that matches, finds the innermost.\<close>

theorem nested_checks_first:
  assumes "root \<in> set roots" "outer \<in> set (build_check_level root n)"
    "inner \<in> set (build_check_level outer (Suc k))" "n + Suc k < depth"
  shows "\<exists>xs ys zs. build_check_levels roots depth = xs @ inner # ys @ outer # zs"
proof -
  define m where "m = n + Suc k"
  have "inner \<in> set (concat (map (\<lambda>root. build_check_level root m) roots))"
    using assms(1) build_check_level_nested [OF assms(2,3)] unfolding m_def by auto
  then obtain xs ys where inner: "concat (map (\<lambda>root. build_check_level root m) roots) = xs @ inner # ys"
    by (meson split_list)
  have "outer \<in> set (build_check_levels roots m)"
    by (rule in_build_check_levels [OF assms(1,2)]) (simp add: m_def)
  then obtain us zs where outer: "build_check_levels roots m = us @ outer # zs"
    by (meson split_list)
  have "m < depth" using assms(4) by (simp add: m_def)
  from build_check_levels_split [OF this] obtain deeper where "build_check_levels roots depth =
      deeper @ concat (map (\<lambda>root. build_check_level root m) roots) @ build_check_levels roots m"
    by blast
  then have "build_check_levels roots depth = (deeper @ xs) @ inner # (ys @ us) @ outer # zs"
    by (simp add: inner outer)
  then show ?thesis by blast
qed

theorem nested_checks_first_witness:
  "\<exists>xs ys zs. build_check_levels
      [CheckHandle ''a'' ''d'' 0 [] [CheckHandle ''b'' ''c'' 1 [] []]] 2
    = xs @ CheckHandle ''b'' ''c'' 1 [] [] # ys @ CheckHandle ''a'' ''d'' 0 [] [CheckHandle ''b'' ''c'' 1 [] []] # zs"
  by (rule nested_checks_first [of "CheckHandle ''a'' ''d'' 0 [] [CheckHandle ''b'' ''c'' 1 [] []]" _ _ 0 _ 0])
    simp_all

end
