(* ===== verification/Segments.thy ===== *)
theory Segments
  imports InterpreterResult Opcodes OperandLaws
begin

text \<open>
  Segments and dynamic linking: \<open>BytecodeSegment\<close> (\<open>bytecode_segment.cpp\<close>), its descriptor and type
  tables (\<open>descriptor_entry.cpp\<close>, \<open>type_entry.cpp\<close>), \<open>SegmentManager\<close> (\<open>segment_manager.cpp\<close>) and
  \<open>internal/resolve_link.cpp\<close>.

  A \<open>BytecodeSegment *\<close> is the index of the segment. What the walkers read from an object file is a
  record of the descriptors the runtime uses, its strings and urls already parsed; a url that is
  invalid is \<open>None\<close>. The loaders, the plugins and the operations of \<open>tempo_utils::Url\<close> on locations
  are the fields of \<open>segment_env\<close>: a loader gives a valid object or none. An operand made by
  \<open>fromDescriptor\<close> or \<open>fromType\<close> is written as what it points to, a section and an index in a segment.
\<close>

record call_descriptor =
  cd_bound :: bool
  cd_noReturn :: bool
  cd_ctor :: bool
  cd_inline :: bool
  cd_bytecode_offset :: u32

datatype type_descriptor =
    NotConcrete (type_super: "u32 option")
  | Concrete (concrete_section: linkage_section) (concrete_index: u32) (type_super: "u32 option")

record lyric_object =
  od_bytecode :: "u8 list"
  od_calls :: "call_descriptor list"
  od_statics :: "u32 list"
  od_links :: "(string \<times> string) option list"
  od_symbols :: "string \<Rightarrow> (linkage_section \<times> u32) option"
  od_types :: "type_descriptor list"
  od_count :: "linkage_section \<Rightarrow> nat"
  od_plugin :: "string option option"

datatype slot_kind = StaticSlot | InstanceSlot | EnumSlot | ProtocolSlot | NamespaceSlot

fun slot_section :: "slot_kind \<Rightarrow> linkage_section" where
  "slot_section StaticSlot = LinkageStatic" | "slot_section InstanceSlot = LinkageInstance"
| "slot_section EnumSlot = LinkageEnum" | "slot_section ProtocolSlot = LinkageProtocol"
| "slot_section NamespaceSlot = LinkageNamespace"

definition num_descriptors :: "lyric_object \<Rightarrow> linkage_section \<Rightarrow> nat" where
  "num_descriptors object section =
    (case section of
       LinkageCall \<Rightarrow> length (od_calls object)
     | LinkageStatic \<Rightarrow> length (od_statics object)
     | LinkageType \<Rightarrow> length (od_types object)
     | _ \<Rightarrow> od_count object section)"

record link_entry =
  link_section :: linkage_section
  link_value :: u32
  link_object :: nat

definition empty_link :: link_entry where
  "empty_link = \<lparr>link_section = LinkageInvalid, link_value = INVALID_ADDRESS_U32,
     link_object = unat INVALID_ADDRESS_U32\<rparr>"

text \<open>\<open>m_tables\<close> holds the sections whose table is allocated.\<close>

record segment =
  m_segmentIndex :: nat
  m_isSystem :: bool
  m_objectLocation :: string
  m_object :: lyric_object
  m_links :: "link_entry list"
  m_slots :: "slot_kind \<Rightarrow> operand list"
  m_tables :: "linkage_section \<Rightarrow> bool"

definition new_segment :: "nat \<Rightarrow> bool \<Rightarrow> string \<Rightarrow> lyric_object \<Rightarrow> segment" where
  "new_segment index system location object =
    \<lparr>m_segmentIndex = index, m_isSystem = system, m_objectLocation = location, m_object = object,
     m_links = replicate (length (od_links object)) empty_link,
     m_slots = (\<lambda>kind. replicate (num_descriptors object (slot_section kind)) empty_operand),
     m_tables = (\<lambda>_. False)\<rparr>"

definition getLink :: "u32 \<Rightarrow> segment \<Rightarrow> link_entry option" where
  "getLink index s = (if length (m_links s) \<le> unat index then None else Some (m_links s ! unat index))"

definition setLink :: "u32 \<Rightarrow> link_entry \<Rightarrow> segment \<Rightarrow> bool \<times> segment" where
  "setLink index entry s =
    (if length (m_links s) \<le> unat index then (False, s)
     else (True, s\<lparr>m_links := (m_links s)[unat index := entry]\<rparr>))"

definition getSlot :: "slot_kind \<Rightarrow> u32 \<Rightarrow> segment \<Rightarrow> operand" where
  "getSlot kind index s =
    (if length (m_slots s kind) \<le> unat index then empty_operand else m_slots s kind ! unat index)"

definition setSlot :: "slot_kind \<Rightarrow> u32 \<Rightarrow> operand \<Rightarrow> segment \<Rightarrow> bool \<times> segment" where
  "setSlot kind index value s =
    (if length (m_slots s kind) \<le> unat index then (False, s)
     else (True, s\<lparr>m_slots := (m_slots s)(kind := (m_slots s kind)[unat index := value])\<rparr>))"

text \<open>A table is allocated by the first lookup that finds its index in bounds; from then on an index
  is not compared with the number of descriptors. \<open>BytecodeSegment\<close> has no table for the sections
  that \<open>has_table\<close> leaves out.\<close>

fun has_table :: "linkage_section \<Rightarrow> bool" where
  "has_table section \<longleftrightarrow> section \<notin> {LinkageInvalid, LinkageType, LinkageLiteral, LinkageBinding}"

definition table_lookup :: "linkage_section \<Rightarrow> u32 \<Rightarrow> segment \<Rightarrow> (failure + u32 option) \<times> segment" where
  "table_lookup section index s =
    (let n = num_descriptors (m_object s) section
     in if m_tables s section then
          (if n \<le> unat index then Inl UndefinedBehaviour else Inr (Some index), s)
        else if n \<le> unat index then (Inr None, s)
        else (Inr (Some index), s\<lparr>m_tables := (m_tables s)(section := True)\<rparr>))"

definition lookupDescriptor :: "linkage_section \<Rightarrow> u32 \<Rightarrow> segment \<Rightarrow> (failure + u32 option) \<times> segment" where
  "lookupDescriptor section index s =
    (if has_table section then table_lookup section index s else (Inr None, s))"

definition lookupType :: "u32 \<Rightarrow> segment \<Rightarrow> (failure + u32 option) \<times> segment" where
  "lookupType index s = table_lookup LinkageType index s"

subsection \<open>The segment manager\<close>

record segment_data =
  sd_segments :: "segment list"
  sd_cache :: "string \<Rightarrow> nat option"

record segment_env =
  location_valid :: "string \<Rightarrow> bool"
  location_relative :: "string \<Rightarrow> bool"
  resolve_location :: "string \<Rightarrow> string \<Rightarrow> string"
  load_module :: "bool \<Rightarrow> string \<Rightarrow> lyric_object option"
  load_plugin :: "bool \<Rightarrow> string \<Rightarrow> bool option"

definition empty_segments :: segment_data where
  "empty_segments = \<lparr>sd_segments = [], sd_cache = (\<lambda>_. None)\<rparr>"

definition getSegment :: "nat \<Rightarrow> segment_data \<Rightarrow> nat option" where
  "getSegment index d = (if index < length (sd_segments d) then Some index else None)"

definition segment_at :: "segment_data \<Rightarrow> nat \<Rightarrow> segment" where
  "segment_at d i = sd_segments d ! i"

definition set_segment :: "nat \<Rightarrow> segment \<Rightarrow> segment_data \<Rightarrow> segment_data" where
  "set_segment i s d = d\<lparr>sd_segments := (sd_segments d)[i := s]\<rparr>"

text \<open>A plugin that loads but refuses the segment, or does not load, makes the load fail.\<close>

definition plugin_accepts :: "segment_env \<Rightarrow> bool \<Rightarrow> string \<Rightarrow> lyric_object \<Rightarrow> bool" where
  "plugin_accepts N system location object =
    (case od_plugin object of
       None \<Rightarrow> True
     | Some plugin \<Rightarrow>
        (let pluginLocation =
          (case plugin of Some l \<Rightarrow> resolve_location N location l | None \<Rightarrow> location)
         in load_plugin N system pluginLocation = Some True))"

definition get_or_load_segment ::
  "segment_env \<Rightarrow> string \<Rightarrow> string option \<Rightarrow> bool \<Rightarrow> segment_data \<Rightarrow> nat option \<times> segment_data" where
  "get_or_load_segment N location current system d =
    (if \<not> location_valid N location then (None, d)
     else if location_relative N location \<and> current = None then (None, d)
     else let objectLocation =
            (if location_relative N location then resolve_location N (the current) location else location)
     in (case sd_cache d objectLocation of
       Some i \<Rightarrow> (Some i, d)
     | None \<Rightarrow>
        (case load_module N system objectLocation of
           None \<Rightarrow> (None, d)
         | Some object \<Rightarrow>
            if \<not> plugin_accepts N system objectLocation object then (None, d)
            else let i = length (sd_segments d)
            in (Some i, d\<lparr>sd_segments := sd_segments d @ [new_segment i system objectLocation object],
                          sd_cache := (sd_cache d)(objectLocation := Some i)\<rparr>))))"

definition resolve_link ::
  "segment_env \<Rightarrow> nat \<Rightarrow> u32 \<Rightarrow> segment_data \<Rightarrow> (failure + link_entry) \<times> segment_data" where
  "resolve_link N sp index d =
    (case getLink index (segment_at d sp) of
       None \<Rightarrow> (Inl (Returned kRuntimeInvariant), d)
     | Some entry \<Rightarrow>
        if link_section entry \<noteq> LinkageInvalid then (Inr entry, d)
        else let object = m_object (segment_at d sp)
        in if length (od_links object) \<le> unat index then (Inl AssertionFailed, d)
        else (case od_links object ! unat index of
          None \<Rightarrow> (Inl (Returned kRuntimeInvariant), d)
        | Some (location, path) \<Rightarrow>
           (case get_or_load_segment N location (Some (m_objectLocation (segment_at d sp)))
               (m_isSystem (segment_at d sp)) d of
              (None, d) \<Rightarrow> (Inl (Returned kMissingObject), d)
            | (Some target, d) \<Rightarrow>
               (case od_symbols (m_object (segment_at d target)) path of
                  None \<Rightarrow> (Inl (Returned kRuntimeMissingSymbol), d)
                | Some (section, linkageIndex) \<Rightarrow>
                   let completed = \<lparr>link_section = section, link_value = linkageIndex,
                         link_object = m_segmentIndex (segment_at d target)\<rparr>;
                       (ok, s) = setLink index completed (segment_at d sp)
                   in if \<not> ok then (Inl (Returned kRuntimeInvariant), d)
                      else (Inr completed, set_segment sp s d)))))"

subsection \<open>Slots\<close>

text \<open>\<open>loadStatic\<close> .. \<open>loadNamespace\<close>: a near address out of bounds gives the invalid operand and
  leaves the status ok.\<close>

definition load_slot ::
  "segment_env \<Rightarrow> slot_kind \<Rightarrow> u32 \<Rightarrow> nat \<Rightarrow> segment_data \<Rightarrow> (failure + operand) \<times> segment_data" where
  "load_slot N kind address sp d =
    (if IS_NEAR address then (Inr (getSlot kind address (segment_at d sp)), d)
     else case resolve_link N sp (GET_LINK_OFFSET address) d of
       (Inl e, d) \<Rightarrow> (Inl e, d)
     | (Inr linkage, d) \<Rightarrow>
        if link_section linkage \<noteq> slot_section kind then (Inl (Returned kRuntimeInvariant), d)
        else (case getSegment (link_object linkage) d of
          None \<Rightarrow> (Inl UndefinedBehaviour, d)
        | Some i \<Rightarrow> (Inr (getSlot kind (link_value linkage) (segment_at d i)), d)))"

text \<open>\<open>storeStatic\<close> .. \<open>storeNamespace\<close>: the result and the status, which stays ok when an address is
  out of bounds.\<close>

definition store_slot ::
  "segment_env \<Rightarrow> slot_kind \<Rightarrow> u32 \<Rightarrow> operand \<Rightarrow> nat \<Rightarrow> segment_data
    \<Rightarrow> (bool \<times> interp_status) \<times> segment_data" where
  "store_slot N kind address value sp d =
    (if IS_NEAR address then
       (let (ok, s) = setSlot kind address value (segment_at d sp) in ((ok, Ok), set_segment sp s d))
     else case resolve_link N sp (GET_LINK_OFFSET address) d of
       (Inl e, d) \<Rightarrow> ((False, NotOk e), d)
     | (Inr linkage, d) \<Rightarrow>
        if link_section linkage \<noteq> slot_section kind then ((False, runtime_invariant), d)
        else (case getSegment (link_object linkage) d of
          None \<Rightarrow> ((False, NotOk UndefinedBehaviour), d)
        | Some i \<Rightarrow>
           (let (ok, s) = setSlot kind (link_value linkage) value (segment_at d i)
            in ((ok, Ok), set_segment i s d))))"

definition segment_loadStatic where "segment_loadStatic N = load_slot N StaticSlot"
definition segment_storeStatic where "segment_storeStatic N = store_slot N StaticSlot"
definition segment_loadInstance where "segment_loadInstance N = load_slot N InstanceSlot"
definition segment_storeInstance where "segment_storeInstance N = store_slot N InstanceSlot"
definition segment_loadEnum where "segment_loadEnum N = load_slot N EnumSlot"
definition segment_storeEnum where "segment_storeEnum N = store_slot N EnumSlot"
definition segment_loadProtocol where "segment_loadProtocol N = load_slot N ProtocolSlot"
definition segment_storeProtocol where "segment_storeProtocol N = store_slot N ProtocolSlot"
definition segment_loadNamespace where "segment_loadNamespace N = load_slot N NamespaceSlot"
definition segment_storeNamespace where "segment_storeNamespace N = store_slot N NamespaceSlot"

subsection \<open>Descriptors\<close>

datatype descriptor_ref =
    DescriptorRef (ref_segment: nat) (ref_section: linkage_section) (ref_index: u32)
  | TypeRef (ref_segment: nat) (ref_index: u32)

definition lookup_in ::
  "nat \<Rightarrow> (segment \<Rightarrow> (failure + u32 option) \<times> segment) \<Rightarrow> (u32 \<Rightarrow> descriptor_ref) \<Rightarrow> segment_data
    \<Rightarrow> (failure + descriptor_ref) \<times> segment_data" where
  "lookup_in i lookup ref d =
    (case lookup (segment_at d i) of
       (Inl e, s) \<Rightarrow> (Inl e, set_segment i s d)
     | (Inr None, s) \<Rightarrow> (Inl (Returned kRuntimeInvariant), set_segment i s d)
     | (Inr (Some index), s) \<Rightarrow> (Inr (ref index), set_segment i s d))"

definition resolve_descriptor ::
  "segment_env \<Rightarrow> nat \<Rightarrow> linkage_section \<Rightarrow> u32 \<Rightarrow> segment_data \<Rightarrow> (failure + descriptor_ref) \<times> segment_data" where
  "resolve_descriptor N sp section address d =
    (case (if IS_NEAR address then (Inr (m_segmentIndex (segment_at d sp), GET_DESCRIPTOR_OFFSET address), d)
           else case resolve_link N sp (GET_LINK_OFFSET address) d of
             (Inl e, d) \<Rightarrow> (Inl e, d)
           | (Inr linkage, d) \<Rightarrow>
              if link_section linkage \<noteq> section then (Inl (Returned kRuntimeInvariant), d)
              else (Inr (link_object linkage, link_value linkage), d)) of
       (Inl e, d) \<Rightarrow> (Inl e, d)
     | (Inr (segmentIndex, valueIndex), d) \<Rightarrow>
        if length (sd_segments d) \<le> segmentIndex then (Inl UndefinedBehaviour, d)
        else if section = LinkageType then
          lookup_in segmentIndex (lookupType valueIndex) (TypeRef segmentIndex) d
        else lookup_in segmentIndex (lookupDescriptor section valueIndex)
          (DescriptorRef segmentIndex section) d)"

end
