(* ===== verification/SegmentsLaws.thy ===== *)
theory SegmentsLaws
  imports Segments
begin

text \<open>
  Dynamic linking is sound and stable. \<open>segments_ok\<close> is the invariant of the segment manager: a
  segment is found under its own index and location, each location is loaded once, the arrays of a
  segment have the sizes its object gives them, and a resolved link refers to the symbol its url
  names. \<open>extends\<close> is what every operation keeps of the state before it: segments and resolved
  links do not change. Both hold along every sequence of operations (\<open>segments_reach\<close>).
\<close>

subsection \<open>The invariant\<close>

definition absolute_location :: "segment_env \<Rightarrow> string option \<Rightarrow> string \<Rightarrow> string" where
  "absolute_location N current location =
    (if location_relative N location then resolve_location N (the current) location else location)"

definition link_ok :: "segment_env \<Rightarrow> segment_data \<Rightarrow> segment \<Rightarrow> nat \<Rightarrow> bool" where
  "link_ok N d s j \<longleftrightarrow>
    link_section (m_links s ! j) = LinkageInvalid \<or>
    (\<exists>location path. od_links (m_object s) ! j = Some (location, path) \<and>
      sd_cache d (absolute_location N (Some (m_objectLocation s)) location) = Some (link_object (m_links s ! j)) \<and>
      od_symbols (m_object (segment_at d (link_object (m_links s ! j)))) path
        = Some (link_section (m_links s ! j), link_value (m_links s ! j)))"

definition segment_ok :: "segment_env \<Rightarrow> segment_data \<Rightarrow> nat \<Rightarrow> bool" where
  "segment_ok N d i \<longleftrightarrow>
    (let s = segment_at d i
     in m_segmentIndex s = i \<and> sd_cache d (m_objectLocation s) = Some i \<and>
        length (m_links s) = length (od_links (m_object s)) \<and>
        (\<forall>kind. length (m_slots s kind) = num_descriptors (m_object s) (slot_section kind)) \<and>
        (\<forall>j < length (m_links s). link_ok N d s j))"

definition segments_ok :: "segment_env \<Rightarrow> segment_data \<Rightarrow> bool" where
  "segments_ok N d \<longleftrightarrow>
    (\<forall>i < length (sd_segments d). segment_ok N d i) \<and>
    (\<forall>location i. sd_cache d location = Some i \<longrightarrow>
      i < length (sd_segments d) \<and> m_objectLocation (segment_at d i) = location)"

definition same_segment :: "segment \<Rightarrow> segment \<Rightarrow> bool" where
  "same_segment s s' \<longleftrightarrow>
    m_segmentIndex s' = m_segmentIndex s \<and> m_isSystem s' = m_isSystem s \<and>
    m_objectLocation s' = m_objectLocation s \<and> m_object s' = m_object s \<and>
    length (m_links s') = length (m_links s) \<and>
    (\<forall>kind. length (m_slots s' kind) = length (m_slots s kind)) \<and>
    (\<forall>j. link_section (m_links s ! j) \<noteq> LinkageInvalid \<longrightarrow> m_links s' ! j = m_links s ! j)"

definition extends :: "segment_data \<Rightarrow> segment_data \<Rightarrow> bool" where
  "extends d d' \<longleftrightarrow>
    length (sd_segments d) \<le> length (sd_segments d') \<and>
    (\<forall>i < length (sd_segments d). same_segment (segment_at d i) (segment_at d' i)) \<and>
    (\<forall>location i. sd_cache d location = Some i \<longrightarrow> sd_cache d' location = Some i)"

lemma same_segment_refl [simp]: "same_segment s s"
  by (simp add: same_segment_def)

lemma same_segment_trans: "same_segment a b \<Longrightarrow> same_segment b c \<Longrightarrow> same_segment a c"
  by (auto simp: same_segment_def)

lemma extends_refl [simp]: "extends d d"
  by (simp add: extends_def)

lemma extends_trans: "extends a b \<Longrightarrow> extends b c \<Longrightarrow> extends a c"
  by (auto simp: extends_def intro: same_segment_trans)

lemma segments_okD:
  assumes "segments_ok N d"
  shows "i < length (sd_segments d) \<Longrightarrow> segment_ok N d i"
    "sd_cache d location = Some i \<Longrightarrow> i < length (sd_segments d) \<and> m_objectLocation (segment_at d i) = location"
  using assms by (auto simp: segments_ok_def)

text \<open>A link stays right when segments are added or change otherwise.\<close>

lemma link_ok_extends:
  assumes ok: "segments_ok N d" and ext: "extends d d'" and link: "link_ok N d s j"
    and same: "m_links s' ! j = m_links s ! j" "m_object s' = m_object s" "m_objectLocation s' = m_objectLocation s"
  shows "link_ok N d' s' j"
proof (cases "link_section (m_links s ! j) = LinkageInvalid")
  case True
  then show ?thesis by (simp add: link_ok_def same)
next
  case False
  with link obtain location path where l:
    "od_links (m_object s) ! j = Some (location, path)"
    "sd_cache d (absolute_location N (Some (m_objectLocation s)) location) = Some (link_object (m_links s ! j))"
    "od_symbols (m_object (segment_at d (link_object (m_links s ! j)))) path
      = Some (link_section (m_links s ! j), link_value (m_links s ! j))"
    by (auto simp: link_ok_def)
  have "link_object (m_links s ! j) < length (sd_segments d)"
    using segments_okD(2) [OF ok l(2)] by simp
  then have "m_object (segment_at d' (link_object (m_links s ! j))) = m_object (segment_at d (link_object (m_links s ! j)))"
    using ext by (simp add: extends_def same_segment_def)
  moreover have "sd_cache d' (absolute_location N (Some (m_objectLocation s)) location) = Some (link_object (m_links s ! j))"
    using ext l(2) by (simp add: extends_def)
  ultimately show ?thesis using l(1,3) by (auto simp: link_ok_def same)
qed

lemma set_segment_simps [simp]:
  "length (sd_segments (set_segment i s d)) = length (sd_segments d)"
  "sd_cache (set_segment i s d) = sd_cache d"
  "i < length (sd_segments d) \<Longrightarrow> segment_at (set_segment i s d) i = s"
  "k \<noteq> i \<Longrightarrow> segment_at (set_segment i s d) k = segment_at d k"
  by (simp_all add: set_segment_def segment_at_def)

text \<open>Replacing a segment by one that agrees with it keeps the invariant, if its new links are right.\<close>

lemma set_segment_ok:
  assumes ok: "segments_ok N d" and i: "i < length (sd_segments d)"
    and same: "same_segment (segment_at d i) s"
    and links: "\<And>j. j < length (m_links s) \<Longrightarrow> m_links s ! j \<noteq> m_links (segment_at d i) ! j \<Longrightarrow> link_ok N (set_segment i s d) s j"
  shows "segments_ok N (set_segment i s d)" "extends d (set_segment i s d)"
proof -
  have at: "segment_at (set_segment i s d) k = (if k = i then s else segment_at d k)" for k
    using i by simp
  show ext: "extends d (set_segment i s d)"
    using same by (simp add: extends_def at)
  have "segment_ok N (set_segment i s d) k" if k: "k < length (sd_segments d)" for k
  proof -
    have sk: "segment_ok N d k" using segments_okD(1) [OF ok k] .
    show ?thesis
    proof (cases "k = i")
      case True
      have "link_ok N (set_segment i s d) s j" if j: "j < length (m_links s)" for j
      proof (cases "m_links s ! j = m_links (segment_at d i) ! j")
        case True
        have "link_ok N d (segment_at d i) j"
          using sk \<open>k = i\<close> j same by (simp add: segment_ok_def Let_def same_segment_def)
        then show ?thesis
          by (rule link_ok_extends [OF ok ext]) (use same True in \<open>simp_all add: same_segment_def\<close>)
      qed (rule links [OF j])
      then show ?thesis using sk True same by (simp add: segment_ok_def Let_def at same_segment_def)
    next
      case False
      have "link_ok N (set_segment i s d) (segment_at d k) j" if "j < length (m_links (segment_at d k))" for j
        by (rule link_ok_extends [OF ok ext]) (use sk that in \<open>simp_all add: segment_ok_def Let_def\<close>)
      then show ?thesis using sk False by (simp add: segment_ok_def Let_def at)
    qed
  qed
  moreover have "k < length (sd_segments d) \<and> m_objectLocation (segment_at (set_segment i s d) k) = location"
    if "sd_cache d location = Some k" for location k
    using segments_okD(2) [OF ok that] same by (auto simp: at same_segment_def)
  ultimately show "segments_ok N (set_segment i s d)" by (simp add: segments_ok_def)
qed

subsection \<open>The operations\<close>

lemma new_segment_simps [simp]:
  "m_segmentIndex (new_segment i b l obj) = i" "m_objectLocation (new_segment i b l obj) = l"
  "m_object (new_segment i b l obj) = obj" "m_links (new_segment i b l obj) = replicate (length (od_links obj)) empty_link"
  "length (m_slots (new_segment i b l obj) kind) = num_descriptors obj (slot_section kind)"
  by (simp_all add: new_segment_def)

lemma add_segment_ok:
  fixes d location object system
  defines "i \<equiv> length (sd_segments d)"
  defines "d' \<equiv> d\<lparr>sd_segments := sd_segments d @ [new_segment i system location object],
      sd_cache := (sd_cache d)(location := Some i)\<rparr>"
  assumes ok: "segments_ok N d" and new: "sd_cache d location = None"
  shows "segments_ok N d'" "extends d d'"
proof -
  have at: "k < i \<Longrightarrow> segment_at d' k = segment_at d k" "segment_at d' i = new_segment i system location object" for k
    by (simp_all add: d'_def segment_at_def nth_append i_def)
  have len: "length (sd_segments d') = Suc i" by (simp add: d'_def i_def)
  have cache: "sd_cache d' = (sd_cache d)(location := Some i)" by (simp add: d'_def)
  show ext: "extends d d'"
    using new by (auto simp: extends_def len cache at i_def [symmetric])
  have "segment_ok N d' k" if k: "k < Suc i" for k
  proof (cases "k = i")
    case True
    then show ?thesis by (simp add: segment_ok_def at cache link_ok_def empty_link_def)
  next
    case False
    then have k': "k < i" using k by simp
    have sk: "segment_ok N d k" using segments_okD(1) [OF ok] k' by (simp add: i_def)
    have "link_ok N d' (segment_at d k) j" if "j < length (m_links (segment_at d k))" for j
      by (rule link_ok_extends [OF ok ext]) (use sk that in \<open>simp_all add: segment_ok_def Let_def\<close>)
    then show ?thesis using sk k' new by (auto simp: segment_ok_def Let_def at cache)
  qed
  moreover have "k < Suc i \<and> m_objectLocation (segment_at d' k) = l" if "sd_cache d' l = Some k" for l k
    using that segments_okD(2) [OF ok, of l k] at by (cases "l = location") (auto simp: cache i_def [symmetric])
  ultimately show "segments_ok N d'" by (simp add: segments_ok_def len)
qed

lemma get_or_load_ok:
  assumes ok: "segments_ok N d"
  shows "segments_ok N (snd (get_or_load_segment N location current system d)) \<and>
    extends d (snd (get_or_load_segment N location current system d))"
    "fst (get_or_load_segment N location current system d) = Some i \<Longrightarrow>
      sd_cache (snd (get_or_load_segment N location current system d)) (absolute_location N current location) = Some i"
  using add_segment_ok [OF ok] ok
  by (auto simp: get_or_load_segment_def absolute_location_def Let_def split: option.splits if_splits)

lemma get_or_load_at:
  "sp < length (sd_segments d) \<Longrightarrow>
    segment_at (snd (get_or_load_segment N location current system d)) sp = segment_at d sp"
  by (auto simp: get_or_load_segment_def segment_at_def nth_append Let_def split: option.split)

text \<open>The case of a link that is resolved now.\<close>

lemma set_link_ok:
  assumes ok: "segments_ok N d" and sp: "sp < length (sd_segments d)"
    and entry: "getLink index (segment_at d sp) = Some entry" "link_section entry = LinkageInvalid"
    and url: "od_links (m_object (segment_at d sp)) ! unat index = Some (location, path)"
    and target: "sd_cache d (absolute_location N (Some (m_objectLocation (segment_at d sp))) location) = Some i"
    and symbol: "od_symbols (m_object (segment_at d i)) path = Some (section, v)"
  defines "e \<equiv> \<lparr>link_section = section, link_value = v, link_object = i\<rparr>"
  shows "fst (setLink index e (segment_at d sp))"
    "segments_ok N (set_segment sp (snd (setLink index e (segment_at d sp))) d)"
    "extends d (set_segment sp (snd (setLink index e (segment_at d sp))) d)"
    "getLink index (snd (setLink index e (segment_at d sp))) = Some e"
proof -
  let ?s = "segment_at d sp" and ?t = "snd (setLink index e (segment_at d sp))"
  have j: "unat index < length (m_links ?s)" "entry = m_links ?s ! unat index"
    using entry(1) by (auto simp: getLink_def split: if_splits)
  then show "fst (setLink index e ?s)" "getLink index ?t = Some e"
    by (simp_all add: setLink_def getLink_def)
  have same: "same_segment ?s ?t"
    using j entry(2) by (auto simp: same_segment_def setLink_def nth_list_update)
  have "link_ok N (set_segment sp ?t d) ?t k" if "m_links ?t ! k \<noteq> m_links ?s ! k" for k
  proof -
    have k: "k = unat index" using that j by (auto simp: setLink_def nth_list_update split: if_splits)
    have "m_object (segment_at (set_segment sp ?t d) i) = m_object (segment_at d i)"
      using sp j by (cases "i = sp") (auto simp: setLink_def)
    then show ?thesis
      using j url target symbol by (simp add: link_ok_def k setLink_def e_def)
  qed
  then show "segments_ok N (set_segment sp ?t d)" "extends d (set_segment sp ?t d)"
    using set_segment_ok [OF ok sp same] by blast+
qed

lemma resolve_link_ok:
  fixes N sp index d
  assumes ok: "segments_ok N d" and sp: "sp < length (sd_segments d)"
  defines "r \<equiv> resolve_link N sp index d"
  shows "segments_ok N (snd r) \<and> extends d (snd r) \<and>
    (\<forall>e. fst r = Inr e \<longrightarrow> getLink index (segment_at (snd r) sp) = Some e \<and>
      (link_section e \<noteq> LinkageInvalid \<longrightarrow> link_object e < length (sd_segments (snd r))))"
proof (cases "getLink index (segment_at d sp)")
  case None
  then show ?thesis using ok by (simp add: r_def resolve_link_def)
next
  case (Some entry)
  note entry = this
  show ?thesis
  proof (cases "link_section entry = LinkageInvalid")
    case False
    have *: "unat index < length (m_links (segment_at d sp))" "entry = m_links (segment_at d sp) ! unat index"
      using Some by (auto simp: getLink_def split: if_splits)
    then have "link_ok N d (segment_at d sp) (unat index)"
      using segments_okD(1) [OF ok sp] by (simp add: segment_ok_def Let_def)
    then have "link_object entry < length (sd_segments d)"
      using False * segments_okD(2) [OF ok] by (auto simp: link_ok_def)
    then show ?thesis using False Some ok by (simp add: r_def resolve_link_def)
  next
    case True
    have len: "unat index < length (od_links (m_object (segment_at d sp)))"
      using Some segments_okD(1) [OF ok sp] by (simp add: getLink_def segment_ok_def Let_def split: if_splits)
    show ?thesis
    proof (cases "od_links (m_object (segment_at d sp)) ! unat index")
      case None
      then show ?thesis using True entry ok len by (simp add: r_def resolve_link_def)
    next
      case (Some url)
      note link = this
      obtain location path where url: "url = (location, path)" by fastforce
      let ?l = "get_or_load_segment N location (Some (m_objectLocation (segment_at d sp)))
        (m_isSystem (segment_at d sp)) d"
      obtain t d1 where load: "?l = (t, d1)" by fastforce
      have d1: "segments_ok N d1" "extends d d1" "segment_at d1 sp = segment_at d sp"
        using get_or_load_ok(1) [OF ok] get_or_load_at [OF sp] load by (metis snd_conv)+
      then have sp1: "sp < length (sd_segments d1)" using sp by (simp add: extends_def)
      show ?thesis
      proof (cases t)
        case None
        then show ?thesis
          using True entry Some url len load d1 by (simp add: r_def resolve_link_def)
      next
        case (Some i)
        have cache: "sd_cache d1 (absolute_location N (Some (m_objectLocation (segment_at d sp))) location) = Some i"
          using get_or_load_ok(2) [OF ok, of location] load Some by (metis fst_conv snd_conv)
        then have i: "i < length (sd_segments d1)" "m_segmentIndex (segment_at d1 i) = i"
          using segments_okD [OF d1(1)] by (auto simp: segment_ok_def Let_def)
        show ?thesis
        proof (cases "od_symbols (m_object (segment_at d1 i)) path")
          case None
          then show ?thesis
            using True entry link Some url len load d1 by (simp add: r_def resolve_link_def)
        next
          case symbol: (Some linkage)
          obtain sec v where linkage: "linkage = (sec, v)" by fastforce
          note set = set_link_ok [OF d1(1) sp1, of index entry location path i sec v, unfolded d1(3),
              OF entry True _ cache symbol [unfolded linkage]]
          have "od_links (m_object (segment_at d sp)) ! unat index = Some (location, path)"
            using link url by simp
          note set = set [OF this]
          show ?thesis
            using True entry link Some url len load d1 i sp1 symbol linkage set
              extends_trans [OF d1(2) set(3)]
            by (simp add: r_def resolve_link_def split_beta Let_def)
        qed
      qed
    qed
  qed
qed

lemma setSlot_same: "same_segment s (snd (setSlot kind index value s))" "m_links (snd (setSlot kind index value s)) = m_links s"
  by (auto simp: same_segment_def setSlot_def)

lemma setSlot_ok:
  assumes "segments_ok N d" "i < length (sd_segments d)"
  shows "segments_ok N (set_segment i (snd (setSlot kind index value (segment_at d i))) d) \<and>
    extends d (set_segment i (snd (setSlot kind index value (segment_at d i))) d)"
  using set_segment_ok [OF assms setSlot_same(1)] by (simp add: setSlot_same(2))

lemma load_slot_ok:
  assumes "segments_ok N d" "sp < length (sd_segments d)"
  shows "segments_ok N (snd (load_slot N kind address sp d)) \<and> extends d (snd (load_slot N kind address sp d))"
  using resolve_link_ok [OF assms, of "GET_LINK_OFFSET address"] assms(1)
  by (auto simp: load_slot_def split: sum.split prod.split option.split)

lemma store_slot_ok:
  assumes ok: "segments_ok N d" "sp < length (sd_segments d)"
  shows "segments_ok N (snd (store_slot N kind address value sp d)) \<and>
    extends d (snd (store_slot N kind address value sp d))"
proof (cases "IS_NEAR address")
  case True
  then show ?thesis using setSlot_ok [OF ok] by (simp add: store_slot_def split_beta)
next
  case False
  obtain r d1 where r: "resolve_link N sp (GET_LINK_OFFSET address) d = (r, d1)" by fastforce
  have d1: "segments_ok N d1" "extends d d1" using resolve_link_ok [OF ok, of "GET_LINK_OFFSET address"] r by simp_all
  have "segments_ok N (set_segment i (snd (setSlot kind index value (segment_at d1 i))) d1) \<and>
      extends d (set_segment i (snd (setSlot kind index value (segment_at d1 i))) d1)"
    if "i < length (sd_segments d1)" for i index
    using setSlot_ok [OF d1(1) that] extends_trans [OF d1(2)] by blast
  then show ?thesis
    using False d1 by (auto simp: store_slot_def r getSegment_def split_beta split: sum.split)
qed

lemma table_lookup_same:
  "same_segment s (snd (table_lookup sec index s))" "m_links (snd (table_lookup sec index s)) = m_links s"
  by (auto simp: table_lookup_def same_segment_def Let_def)

lemma lookup_in_ok:
  assumes "segments_ok N d" "i < length (sd_segments d)"
    "lookup = lookupType index \<or> lookup = lookupDescriptor sec index"
  shows "segments_ok N (snd (lookup_in i lookup ref d)) \<and> extends d (snd (lookup_in i lookup ref d))"
proof -
  have s: "same_segment (segment_at d i) (snd (lookup (segment_at d i)))"
    "m_links (snd (lookup (segment_at d i))) = m_links (segment_at d i)"
    using assms(3) table_lookup_same by (auto simp: lookupType_def lookupDescriptor_def)
  have "segments_ok N (set_segment i (snd (lookup (segment_at d i))) d) \<and>
      extends d (set_segment i (snd (lookup (segment_at d i))) d)"
    using set_segment_ok [OF assms(1,2) s(1)] s(2) by simp
  then show ?thesis by (auto simp: lookup_in_def split: prod.split sum.split option.split)
qed

lemma resolve_descriptor_ok:
  assumes ok: "segments_ok N d" "sp < length (sd_segments d)"
  shows "segments_ok N (snd (resolve_descriptor N sp sec address d)) \<and>
    extends d (snd (resolve_descriptor N sp sec address d))"
proof -
  obtain r d1 where r: "resolve_link N sp (GET_LINK_OFFSET address) d = (r, d1)" by fastforce
  have d1: "segments_ok N d1" "extends d d1" using resolve_link_ok [OF ok, of "GET_LINK_OFFSET address"] r by simp_all
  have lookup: "segments_ok N (snd (lookup_in i (lookupType index) ref d')) \<and>
      extends d (snd (lookup_in i (lookupType index) ref d'))"
    "segments_ok N (snd (lookup_in i (lookupDescriptor sec index) ref d')) \<and>
      extends d (snd (lookup_in i (lookupDescriptor sec index) ref d'))"
    if "i < length (sd_segments d')" "segments_ok N d'" "extends d d'" for i index ref d'
    using lookup_in_ok [OF that(2,1)] extends_trans [OF that(3)] by blast+
  have index: "m_segmentIndex (segment_at d sp) = sp"
    using segments_okD(1) [OF ok] by (simp add: segment_ok_def Let_def)
  show ?thesis
  proof (cases "IS_NEAR address")
    case True
    then show ?thesis using ok by (simp add: resolve_descriptor_def index lookup)
  next
    case False
    then show ?thesis using d1 by (cases r) (simp_all add: resolve_descriptor_def r lookup)
  qed
qed

subsection \<open>Reachable states\<close>

datatype segment_op =
    GetOrLoad string "string option" bool
  | ResolveLink nat u32
  | LoadSlot slot_kind u32 nat
  | StoreSlot slot_kind u32 operand nat
  | ResolveDescriptor nat linkage_section u32

fun segment_step :: "segment_env \<Rightarrow> segment_op \<Rightarrow> segment_data \<Rightarrow> segment_data" where
  "segment_step N (GetOrLoad location current system) d = snd (get_or_load_segment N location current system d)"
| "segment_step N (ResolveLink sp index) d = snd (resolve_link N sp index d)"
| "segment_step N (LoadSlot kind address sp) d = snd (load_slot N kind address sp d)"
| "segment_step N (StoreSlot kind address value sp) d = snd (store_slot N kind address value sp d)"
| "segment_step N (ResolveDescriptor sp sec address) d = snd (resolve_descriptor N sp sec address d)"

text \<open>The current segment is a segment.\<close>

fun segment_op_valid :: "segment_op \<Rightarrow> segment_data \<Rightarrow> bool" where
  "segment_op_valid (GetOrLoad location current system) d \<longleftrightarrow> True"
| "segment_op_valid (ResolveLink sp index) d \<longleftrightarrow> sp < length (sd_segments d)"
| "segment_op_valid (LoadSlot kind address sp) d \<longleftrightarrow> sp < length (sd_segments d)"
| "segment_op_valid (StoreSlot kind address value sp) d \<longleftrightarrow> sp < length (sd_segments d)"
| "segment_op_valid (ResolveDescriptor sp sec address) d \<longleftrightarrow> sp < length (sd_segments d)"

inductive segments_reach :: "segment_env \<Rightarrow> segment_data \<Rightarrow> segment_data \<Rightarrow> bool" for N where
  segments_refl: "segments_reach N d d"
| segments_step: "segments_reach N d d' \<Longrightarrow> segment_op_valid op d' \<Longrightarrow> segments_reach N d (segment_step N op d')"

lemma segment_step_ok:
  "segments_ok N d \<Longrightarrow> segment_op_valid op d \<Longrightarrow>
    segments_ok N (segment_step N op d) \<and> extends d (segment_step N op d)"
  by (cases op) (simp_all add: get_or_load_ok(1) resolve_link_ok load_slot_ok store_slot_ok resolve_descriptor_ok)

lemma segments_reach_ok:
  "segments_reach N d d' \<Longrightarrow> segments_ok N d \<Longrightarrow> segments_ok N d' \<and> extends d d'"
  by (induction rule: segments_reach.induct) (auto dest: segment_step_ok extends_trans)

lemma empty_segments_ok: "segments_ok N empty_segments"
  by (simp add: segments_ok_def empty_segments_def)

lemma segments_ok_distinct:
  assumes "segments_ok N d"
  shows "distinct (map m_objectLocation (sd_segments d))"
proof -
  have "i = j" if "i < length (sd_segments d)" "j < length (sd_segments d)"
    "m_objectLocation (segment_at d i) = m_objectLocation (segment_at d j)" for i j
    using segments_okD(1) [OF assms that(1)] segments_okD(1) [OF assms that(2)] that(3)
    by (simp add: segment_ok_def Let_def)
  then show ?thesis by (auto simp: distinct_conv_nth segment_at_def)
qed

text \<open>A link that has been resolved is found at once.\<close>

lemma resolve_link_again:
  assumes "getLink index (segment_at d sp) = Some e" "link_section e \<noteq> LinkageInvalid"
  shows "resolve_link N sp index d = (Inr e, d)"
  using assms by (simp add: resolve_link_def)

lemma getLink_set_slot:
  "i < length (sd_segments d) \<Longrightarrow>
    getLink index (segment_at (set_segment i (snd (setSlot kind k v (segment_at d i))) d) sp)
      = getLink index (segment_at d sp)"
  by (cases "sp = i") (simp_all add: getLink_def setSlot_same(2))

lemma getSlot_setSlot: "fst (setSlot kind k v s) \<Longrightarrow> getSlot kind k (snd (setSlot kind k v s)) = v"
  by (simp add: setSlot_def getSlot_def split: if_splits)

subsection \<open>A sample\<close>

text \<open>Two modules, of which the first imports a static of the second.\<close>

definition sample_object :: lyric_object where
  "sample_object =
    \<lparr>od_bytecode = [], od_calls = [], od_statics = [0], od_links = [Some (''b'', ''x'')],
     od_symbols = [''x'' \<mapsto> (LinkageStatic, 0)], od_types = [], od_count = (\<lambda>_. 0), od_plugin = None\<rparr>"

definition sample_env :: segment_env where
  "sample_env =
    \<lparr>location_valid = (\<lambda>l. l \<noteq> []), location_relative = (\<lambda>_. False), resolve_location = (\<lambda>_ l. l),
     load_module = (\<lambda>_ l. if l \<in> {''a'', ''b''} then Some sample_object else None),
     load_plugin = (\<lambda>_ _. None)\<rparr>"

definition sample_linked :: segment_data where
  "sample_linked = segment_step sample_env (ResolveLink 0 0)
    (segment_step sample_env (GetOrLoad ''a'' None False) empty_segments)"

lemma sample_load:
  "segment_step sample_env (GetOrLoad ''a'' None False) empty_segments =
    \<lparr>sd_segments = [new_segment 0 False ''a'' sample_object], sd_cache = [''a'' \<mapsto> 0]\<rparr>"
  by (simp add: get_or_load_segment_def sample_env_def empty_segments_def plugin_accepts_def sample_object_def Let_def)

lemma sample_segments:
  "sd_segments sample_linked =
    [(new_segment 0 False ''a'' sample_object)
        \<lparr>m_links := [\<lparr>link_section = LinkageStatic, link_value = 0, link_object = 1\<rparr>]\<rparr>,
     new_segment 1 False ''b'' sample_object]"
  unfolding sample_linked_def sample_load
  by (simp add: resolve_link_def get_or_load_segment_def sample_env_def plugin_accepts_def segment_at_def getLink_def
      new_segment_def empty_link_def setLink_def set_segment_def sample_object_def Let_def)

lemma sample_reach: "segments_reach sample_env empty_segments sample_linked"
  unfolding sample_linked_def
  by (intro segments_step segments_refl) (simp_all add: sample_load del: segment_step.simps)

subsection \<open>Properties\<close>

text \<open>C13. Linking is sound and stable, whatever is loaded, linked, read and stored, in whatever order:
  each location is loaded as one segment, which is found under its index; every resolved link refers
  to the symbol that its url names; and what has been loaded and linked does not change any more.\<close>

theorem linking_sound_and_stable:
  assumes "segments_reach N empty_segments d" "segments_reach N d d'"
  shows "segments_ok N d' \<and> extends d d' \<and> distinct (map m_objectLocation (sd_segments d'))"
proof -
  have "segments_ok N d" using segments_reach_ok [OF assms(1) empty_segments_ok] by blast
  with segments_reach_ok [OF assms(2)] segments_ok_distinct [of N d'] show ?thesis by blast
qed

theorem linking_sound_and_stable_witness:
  "segments_ok sample_env sample_linked \<and> map m_objectLocation (sd_segments sample_linked) = [''a'', ''b''] \<and>
    getLink 0 (segment_at sample_linked 0)
      = Some \<lparr>link_section = LinkageStatic, link_value = 0, link_object = 1\<rparr>"
  using linking_sound_and_stable [OF sample_reach segments_refl]
  by (simp add: sample_segments segment_at_def getLink_def)

text \<open>A slot that is stored, near or through a link, is loaded back, and the link is not resolved
  again. A store to a near address out of bounds fails but leaves the status ok, so that its callers
  report success.\<close>

theorem stored_slot_is_loaded:
  assumes "segments_ok N d" "sp < length (sd_segments d)"
    and store: "store_slot N kind address value sp d = ((ok, status), d')"
  shows "(ok \<longrightarrow> status = Ok \<and> load_slot N kind address sp d' = (Inr value, d')) \<and>
    (IS_NEAR address \<and> length (m_slots (segment_at d sp) kind) \<le> unat address \<longrightarrow>
      \<not> ok \<and> status = Ok \<and> d' = d)"
proof (cases "IS_NEAR address")
  case True
  then show ?thesis
    using assms getSlot_setSlot [where k = address and s = "segment_at d sp"]
    by (auto simp: store_slot_def load_slot_def split_beta setSlot_def set_segment_def segment_at_def)
next
  case False
  have "load_slot N kind address sp d' = (Inr value, d') \<and> status = Ok" if stored: "ok"
  proof -
    obtain r d1 where r: "resolve_link N sp (GET_LINK_OFFSET address) d = (r, d1)" by fastforce
    then obtain e where e: "r = Inr e" "link_section e = slot_section kind" "link_object e < length (sd_segments d1)"
      "fst (setSlot kind (link_value e) value (segment_at d1 (link_object e)))" "status = Ok"
      "d' = set_segment (link_object e) (snd (setSlot kind (link_value e) value (segment_at d1 (link_object e)))) d1"
      using store False stored by (auto simp: store_slot_def getSegment_def split_beta split: sum.splits if_splits)
    have valid: "link_section e \<noteq> LinkageInvalid" using e(2) by (cases kind) auto
    have "getLink (GET_LINK_OFFSET address) (segment_at d1 sp) = Some e"
      using resolve_link_ok [OF assms(1,2), of "GET_LINK_OFFSET address"] r e(1) by simp
    then have "getLink (GET_LINK_OFFSET address) (segment_at d' sp) = Some e"
      using getLink_set_slot [OF e(3)] by (simp add: e(6))
    then have "resolve_link N sp (GET_LINK_OFFSET address) d' = (Inr e, d')"
      by (rule resolve_link_again [OF _ valid])
    then show ?thesis
      using False e getSlot_setSlot [OF e(4)] by (simp add: load_slot_def getSegment_def)
  qed
  then show ?thesis using False by blast
qed

theorem stored_slot_is_loaded_witness:
  "fst (load_slot sample_env StaticSlot 0x80000000 0
      (snd (store_slot sample_env StaticSlot 0x80000000 (fromBool [1, 2, 3, 4, 5, 6, 7, 8] True) 0 sample_linked)))
    = Inr (fromBool [1, 2, 3, 4, 5, 6, 7, 8] True)"
proof -
  define v where "v = fromBool [1, 2, 3, 4, 5, 6, 7, 8] True"
  have far: "\<not> IS_NEAR (0x80000000 :: u32)" "GET_LINK_OFFSET (0x80000000 :: u32) = 0"
    by (simp_all add: IS_NEAR_def GET_LINK_OFFSET_def IS_FAR_def)
  obtain ok status d' where store: "store_slot sample_env StaticSlot 0x80000000 v 0 sample_linked = ((ok, status), d')"
    by (metis surj_pair)
  then have "ok"
    using far by (auto simp: store_slot_def resolve_link_def getSegment_def setSlot_def getLink_def segment_at_def
        sample_segments new_segment_def sample_object_def num_descriptors_def Let_def)
  then show ?thesis
    using stored_slot_is_loaded [OF segments_reach_ok [OF sample_reach empty_segments_ok, THEN conjunct1] _ store] store
    by (simp add: v_def sample_segments)
qed

text \<open>Looking up a descriptor out of bounds is reported only as long as no lookup in the section has
  succeeded; afterwards the same lookup reads outside of the table.\<close>

theorem lookup_out_of_bounds:
  assumes "has_table sec" "num_descriptors (m_object s) sec \<le> unat index" "unat first < num_descriptors (m_object s) sec"
  shows "fst (lookupDescriptor sec index (s\<lparr>m_tables := \<lambda>_. False\<rparr>)) = Inr None \<and>
    fst (lookupDescriptor sec first s) = Inr (Some first) \<and>
    fst (lookupDescriptor sec index (snd (lookupDescriptor sec first s))) = Inl UndefinedBehaviour"
  using assms by (auto simp: lookupDescriptor_def table_lookup_def Let_def)

theorem lookup_out_of_bounds_witness:
  "fst (lookupDescriptor LinkageStatic 9 (snd (lookupDescriptor LinkageStatic 0 (new_segment 0 False ''a'' sample_object))))
    = Inl UndefinedBehaviour"
  using lookup_out_of_bounds [of LinkageStatic "new_segment 0 False ''a'' sample_object" 9 0]
  by (simp add: num_descriptors_def sample_object_def)

end
