(* ===== verification/Subroutines.thy ===== *)
theory Subroutines
  imports Coroutine Segments Procs
begin

text \<open>
  Calls: \<open>SubroutineManager\<close> (\<open>subroutine_manager.cpp\<close>) and the call instructions
  (\<open>internal/call_ops.cpp\<close>).

  The manager works on the current coroutine and on the segments, which resolving a link may extend;
  \<open>call_state\<close> holds both. A call returns its status and the state it leaves; it returns \<open>true\<close> when
  the status is ok. Without a segment in the registers \<open>peekSP\<close> is null and its use undefined.

  The fields of \<open>call_env\<close>: \<open>ce_moved\<close> tells whether \<open>pushCall\<close> reallocates the call stack,
  \<open>ce_garbage\<close> is what an uninitialised operand holds, \<open>ce_descriptor\<close> gives the descriptor entry at an
  address, \<open>ce_methods\<close> and \<open>ce_extensions\<close> what the resolvers of the object at an address find
  (\<open>None\<close> a null resolver), and \<open>ce_existential\<close> the existential table of a descriptor.
\<close>

record call_state =
  cs_coro :: stackful_coroutine
  cs_segments :: segment_data

record virtual_method =
  vm_segment :: nat
  vm_callIndex :: u32
  vm_procOffset :: u32
  vm_returnsValue :: bool

type_synonym method_resolver = "descriptor_ref \<Rightarrow> virtual_method option"
type_synonym extension_resolver = "descriptor_ref \<Rightarrow> descriptor_ref \<Rightarrow> virtual_method option"

record call_env =
  ce_bytes :: bytes_lib
  ce_segments :: segment_env
  ce_garbage :: "u8 list"
  ce_moved :: bool
  ce_descriptor :: "u64 \<Rightarrow> descriptor_ref"
  ce_methods :: "u64 \<Rightarrow> method_resolver option"
  ce_extensions :: "u64 \<Rightarrow> extension_resolver option"
  ce_existential :: "descriptor_ref \<Rightarrow> segment_data \<Rightarrow> (failure + method_resolver) \<times> segment_data"

type_synonym call_result = "interp_status \<times> call_state"

definition process_arguments :: "proc_info \<Rightarrow> operand list \<Rightarrow> failure + u16" where
  "process_arguments info args =
    (if 65535 \<le> length args then Inl (Returned kRuntimeInvariant)
     else if length args < unat (pi_arguments info) then Inl (Returned kRuntimeInvariant)
     else Inr (word_of_nat (length args - unat (pi_arguments info))))"

subsection \<open>Lexicals\<close>

text \<open>The activation a lexical refers to: the most recent call of it in the segment of the callee.\<close>

fun find_ancestor :: "u32 \<Rightarrow> u32 \<Rightarrow> call_cell list \<Rightarrow> call_cell option" where
  "find_ancestor segmentIndex callIndex [] = None"
| "find_ancestor segmentIndex callIndex (ancestor # calls) =
    (if m_callSegment ancestor = segmentIndex \<and> m_callIndex ancestor = callIndex then Some ancestor
     else find_ancestor segmentIndex callIndex calls)"

text \<open>\<open>getArgument\<close> and \<open>getLocal\<close> take an \<open>int\<close>.\<close>

definition lexical_value :: "call_cell \<Rightarrow> proc_lexical \<Rightarrow> failure + operand" where
  "lexical_value ancestor lexical =
    (if lexical_target lexical = LEXICAL_ARGUMENT then
       Inr (getArgument (sint (target_offset lexical)) ancestor)
     else if lexical_target lexical = LEXICAL_LOCAL then
       Inr (getLocal (sint (target_offset lexical)) ancestor)
     else Inl (Returned kRuntimeInvariant))"

fun import_lexicals :: "call_cell list \<Rightarrow> u32 \<Rightarrow> int \<Rightarrow> proc_lexical list \<Rightarrow> call_cell \<Rightarrow> failure + call_cell" where
  "import_lexicals calls segmentIndex i [] frame = Inr frame"
| "import_lexicals calls segmentIndex i (lexical # lexicals) frame =
    then_do (or_else_fail (Returned kRuntimeInvariant)
        (find_ancestor segmentIndex (activation_call lexical) calls)) (\<lambda>ancestor.
    then_do (lexical_value ancestor lexical) (\<lambda>v.
    import_lexicals calls segmentIndex (i + 1) lexicals (setLexical i v frame)))"

definition import_lexicals_into_frame ::
  "bytes_lib \<Rightarrow> proc_info \<Rightarrow> stackful_coroutine \<Rightarrow> nat \<Rightarrow> call_cell \<Rightarrow> failure + call_cell" where
  "import_lexicals_into_frame B info co segment frame =
    then_do (parse_lexicals_table B info) (\<lambda>lexicals.
      import_lexicals (rev (m_callStack co)) (word_of_nat segment) 0 lexicals frame)"

subsection \<open>Calls\<close>

text \<open>What every call does once it has its proc: the frame, a receiver if there is one, the lexicals.\<close>

definition make_activation ::
  "call_env \<Rightarrow> u32 \<Rightarrow> nat \<Rightarrow> u32 \<Rightarrow> bool \<Rightarrow> operand list \<Rightarrow> operand option \<Rightarrow> call_state
    \<Rightarrow> failure + call_cell \<times> bytecode_iterator" where
  "make_activation C callIndex segment procOffset returnsValue args receiver cs =
    (let B = ce_bytes C; co = cs_coro cs; s = segment_at (cs_segments cs) segment
     in then_do (parse_proc_info B (od_bytecode (m_object s)) procOffset) (\<lambda>info.
        then_do (process_arguments info args) (\<lambda>numRest.
        then_do (or_else_fail UndefinedBehaviour (m_SP co)) (\<lambda>returnSP.
        let returnSegment = word_of_nat (m_segmentIndex (segment_at (cs_segments cs) returnSP));
            callSegment = word_of_nat (m_segmentIndex s)
        in then_do (case receiver of
              None \<Rightarrow> Inr (make_cell callIndex callSegment procOffset returnSegment (m_IP co) returnsValue
                (dataStackSize co) (pi_arguments info) numRest (pi_locals info) (pi_lexicals info) args)
            | Some r \<Rightarrow> or_else_fail AssertionFailed (make_cell_receiver callIndex callSegment procOffset
                returnSegment (m_IP co) returnsValue (dataStackSize co) (pi_arguments info) numRest
                (pi_locals info) (pi_lexicals info) args r)) (\<lambda>frame.
           then_do (if 0 < pi_lexicals info
                    then import_lexicals_into_frame B info co (m_segmentIndex s) frame else Inr frame)
             (\<lambda>frame. Inr (frame, make_iterator (pi_code info))))))))"

definition call_proc_with ::
  "call_env \<Rightarrow> u32 \<Rightarrow> nat \<Rightarrow> u32 \<Rightarrow> bool \<Rightarrow> operand list \<Rightarrow> operand option \<Rightarrow> call_state \<Rightarrow> call_result" where
  "call_proc_with C callIndex segment procOffset returnsValue args receiver cs =
    (case make_activation C callIndex segment procOffset returnsValue args receiver cs of
       Inl e \<Rightarrow> (NotOk e, cs)
     | Inr (frame, ip) \<Rightarrow>
        (Ok, cs\<lparr>cs_coro := snd (pushCall (ce_moved C) frame ip (Some segment) (cs_coro cs))\<rparr>))"

definition callProc ::
  "call_env \<Rightarrow> u32 \<Rightarrow> nat \<Rightarrow> u32 \<Rightarrow> operand list \<Rightarrow> bool \<Rightarrow> call_state \<Rightarrow> call_result" where
  "callProc C callIndex segment procOffset args returnsValue cs =
    call_proc_with C callIndex segment procOffset returnsValue args None cs"

definition call_static :: "call_env \<Rightarrow> nat \<Rightarrow> u32 \<Rightarrow> call_descriptor \<Rightarrow> operand list \<Rightarrow> call_state \<Rightarrow> call_result" where
  "call_static C segment callIndex call args cs =
    (if cd_ctor call then (runtime_invariant, cs)
     else if cd_bound call then (runtime_invariant, cs)
     else call_proc_with C callIndex segment (cd_bytecode_offset call) (\<not> cd_noReturn call) args None cs)"

definition object_getCall :: "lyric_object \<Rightarrow> u32 \<Rightarrow> call_descriptor option" where
  "object_getCall object index =
    (if unat index < length (od_calls object) then Some (od_calls object ! unat index) else None)"

definition call_static_at :: "call_env \<Rightarrow> nat \<Rightarrow> u32 \<Rightarrow> operand list \<Rightarrow> call_state \<Rightarrow> call_result" where
  "call_static_at C segment callIndex args cs =
    (case object_getCall (m_object (segment_at (cs_segments cs) segment)) callIndex of
       None \<Rightarrow> (runtime_invariant, cs)
     | Some call \<Rightarrow> call_static C segment callIndex call args cs)"

definition subroutine_callStatic :: "call_env \<Rightarrow> u32 \<Rightarrow> operand list \<Rightarrow> call_state \<Rightarrow> call_result" where
  "subroutine_callStatic C address args cs =
    (case m_SP (cs_coro cs) of
       None \<Rightarrow> (NotOk UndefinedBehaviour, cs)
     | Some sp \<Rightarrow>
        if IS_NEAR address then call_static_at C sp address args cs
        else (case resolve_link (ce_segments C) sp (GET_LINK_OFFSET address) (cs_segments cs) of
          (Inl (Returned _), d) \<Rightarrow> (runtime_invariant, cs\<lparr>cs_segments := d\<rparr>)
        | (Inl e, d) \<Rightarrow> (NotOk e, cs\<lparr>cs_segments := d\<rparr>)
        | (Inr linkage, d) \<Rightarrow>
           if link_section linkage \<noteq> LinkageCall then (runtime_invariant, cs\<lparr>cs_segments := d\<rparr>)
           else (case getSegment (link_object linkage) d of
             None \<Rightarrow> (NotOk UndefinedBehaviour, cs\<lparr>cs_segments := d\<rparr>)
           | Some segment \<Rightarrow>
               call_static_at C segment (link_value linkage) args (cs\<lparr>cs_segments := d\<rparr>))))"

definition subroutine_callStatic_descriptor :: "call_env \<Rightarrow> operand \<Rightarrow> operand list \<Rightarrow> call_state \<Rightarrow> call_result" where
  "subroutine_callStatic_descriptor C descriptor args cs =
    (case map_option (ce_descriptor C) (getDescriptor (bl_endian (ce_bytes C)) descriptor) of
       None \<Rightarrow> (runtime_invariant, cs)
     | Some (DescriptorRef segment section callIndex) \<Rightarrow>
        if section \<noteq> LinkageCall then (runtime_invariant, cs)
        else call_static_at C segment callIndex args cs
     | Some (TypeRef segment callIndex) \<Rightarrow> (runtime_invariant, cs))"

definition initStatic :: "call_env \<Rightarrow> u32 \<Rightarrow> call_state \<Rightarrow> call_result" where
  "initStatic C address cs =
    (let init = (\<lambda>segment index cs.
      let object = m_object (segment_at (cs_segments cs) segment)
      in if length (od_statics object) \<le> unat index then (runtime_invariant, cs)
         else let callIndex = GET_DESCRIPTOR_OFFSET (od_statics object ! unat index)
         in (case object_getCall object callIndex of
              None \<Rightarrow> (runtime_invariant, cs)
            | Some initializer \<Rightarrow> callProc C callIndex segment (cd_bytecode_offset initializer) []
                (\<not> cd_noReturn initializer) cs))
     in case m_SP (cs_coro cs) of
       None \<Rightarrow> (NotOk UndefinedBehaviour, cs)
     | Some sp \<Rightarrow>
        if IS_NEAR address then init sp address cs
        else (case resolve_link (ce_segments C) sp (GET_LINK_OFFSET address) (cs_segments cs) of
          (Inl e, d) \<Rightarrow> (NotOk e, cs\<lparr>cs_segments := d\<rparr>)
        | (Inr linkage, d) \<Rightarrow>
           if link_section linkage \<noteq> LinkageStatic then (runtime_invariant, cs\<lparr>cs_segments := d\<rparr>)
           else (case getSegment (link_object linkage) d of
             None \<Rightarrow> (NotOk UndefinedBehaviour, cs\<lparr>cs_segments := d\<rparr>)
           | Some segment \<Rightarrow> init segment (link_value linkage) (cs\<lparr>cs_segments := d\<rparr>))))"

subsection \<open>Calls of methods\<close>

text \<open>The receivers that have resolvers; a getter that fails on an operand of its own type fails its
  assertion.\<close>

definition receiver_resolver ::
  "endian_lib \<Rightarrow> (u64 \<Rightarrow> 'r option) \<Rightarrow> operand \<Rightarrow> failure + 'r" where
  "receiver_resolver E resolver receiver =
    (let resolve = (\<lambda>ref. then_do (or_else_fail AssertionFailed ref) (\<lambda>address.
       or_else_fail (Returned kRuntimeInvariant) (resolver address)))
     in case getType receiver of
       TyBytes \<Rightarrow> resolve (getBytesRef E receiver)
     | TyRef \<Rightarrow> resolve (getRef E receiver)
     | TyRest \<Rightarrow> resolve (getRest E receiver)
     | TyStatus \<Rightarrow> resolve (getStatus E receiver)
     | TyString \<Rightarrow> resolve (getString E receiver)
     | _ \<Rightarrow> Inl (Returned kRuntimeInvariant))"

definition call_method ::
  "call_env \<Rightarrow> linkage_section \<Rightarrow> u32 \<Rightarrow> method_resolver \<Rightarrow> operand \<Rightarrow> operand list \<Rightarrow> call_state \<Rightarrow> call_result" where
  "call_method C section address resolver receiver args cs =
    (case m_SP (cs_coro cs) of
       None \<Rightarrow> (NotOk UndefinedBehaviour, cs)
     | Some sp \<Rightarrow>
        (case resolve_descriptor (ce_segments C) sp section address (cs_segments cs) of
           (Inl e, d) \<Rightarrow> (NotOk e, cs\<lparr>cs_segments := d\<rparr>)
         | (Inr descriptor, d) \<Rightarrow>
            (case resolver descriptor of
               None \<Rightarrow> (runtime_invariant, cs\<lparr>cs_segments := d\<rparr>)
             | Some m \<Rightarrow> call_proc_with C (vm_callIndex m) (vm_segment m) (vm_procOffset m)
                 (vm_returnsValue m) args (Some receiver) (cs\<lparr>cs_segments := d\<rparr>))))"

definition subroutine_callVirtual :: "call_env \<Rightarrow> operand \<Rightarrow> u32 \<Rightarrow> operand list \<Rightarrow> call_state \<Rightarrow> call_result" where
  "subroutine_callVirtual C receiver callAddress args cs =
    (case receiver_resolver (bl_endian (ce_bytes C)) (ce_methods C) receiver of
       Inl e \<Rightarrow> (NotOk e, cs)
     | Inr resolver \<Rightarrow> call_method C LinkageCall callAddress resolver receiver args cs)"

definition subroutine_callStub :: "call_env \<Rightarrow> operand \<Rightarrow> u32 \<Rightarrow> operand list \<Rightarrow> call_state \<Rightarrow> call_result" where
  "subroutine_callStub C receiver actionAddress args cs =
    (case receiver_resolver (bl_endian (ce_bytes C)) (ce_methods C) receiver of
       Inl e \<Rightarrow> (NotOk e, cs)
     | Inr resolver \<Rightarrow> call_method C LinkageAction actionAddress resolver receiver args cs)"

definition subroutine_callConcept ::
  "call_env \<Rightarrow> operand \<Rightarrow> descriptor_ref \<Rightarrow> u32 \<Rightarrow> operand list \<Rightarrow> call_state \<Rightarrow> call_result" where
  "subroutine_callConcept C receiver conceptDescriptor actionAddress args cs =
    (case receiver_resolver (bl_endian (ce_bytes C)) (ce_extensions C) receiver of
       Inl e \<Rightarrow> (NotOk e, cs)
     | Inr resolver \<Rightarrow>
         call_method C LinkageAction actionAddress (resolver conceptDescriptor) receiver args cs)"

definition subroutine_callExistential ::
  "call_env \<Rightarrow> operand \<Rightarrow> descriptor_ref \<Rightarrow> u32 \<Rightarrow> operand list \<Rightarrow> call_state \<Rightarrow> call_result" where
  "subroutine_callExistential C receiver existentialDescriptor methodAddress args cs =
    (if \<not> isValid_operand receiver then (NotOk AssertionFailed, cs)
     else (case ce_existential C existentialDescriptor (cs_segments cs) of
       (Inl e, d) \<Rightarrow> (NotOk e, cs\<lparr>cs_segments := d\<rparr>)
     | (Inr etable, d) \<Rightarrow>
        call_method C LinkageCall methodAddress etable receiver args (cs\<lparr>cs_segments := d\<rparr>)))"

subsection \<open>Returns\<close>

text \<open>The result and the status, which is ok with the result false when the frame has no return
  address.\<close>

definition drop_temporaries :: "u8 list \<Rightarrow> call_cell \<Rightarrow> stackful_coroutine \<Rightarrow> interp_status \<times> stackful_coroutine" where
  "drop_temporaries g frame co =
    (if dataStackSize co > m_stackGuard frame then
       (if m_returnsValue frame then
          (case popData g co of
             (Inl e, co) \<Rightarrow> (NotOk e, co)
           | (Inr returnValue, co) \<Rightarrow>
              and_then (resizeDataStack (m_stackGuard frame) co) (pushData returnValue))
        else resizeDataStack (m_stackGuard frame) co)
     else (Ok, co))"

definition returnToCaller :: "call_env \<Rightarrow> call_state \<Rightarrow> (bool \<times> interp_status) \<times> call_state" where
  "returnToCaller C cs =
    (let co = cs_coro cs
     in if callStackSize co = 0 then ((False, runtime_invariant), cs)
     else case popCall empty_cell co of
       (NotOk e, frame, co) \<Rightarrow> ((False, NotOk e), cs\<lparr>cs_coro := co\<rparr>)
     | (Ok, frame, co) \<Rightarrow>
        let ip = m_returnIP frame;
            co = transferControl ip (getSegment (unat (m_returnSegment frame)) (cs_segments cs)) co
        in (case drop_temporaries (ce_garbage C) frame co of
              (NotOk e, co) \<Rightarrow> ((False, NotOk e), cs\<lparr>cs_coro := co\<rparr>)
            | (Ok, co) \<Rightarrow> ((isValid ip, Ok), cs\<lparr>cs_coro := co\<rparr>)))"

subsection \<open>The call instructions\<close>

text \<open>The arguments come off the stack first, or the receiver when the flag says that it follows them.
  What has been popped stays off when a check fails.\<close>

definition on_coro :: "(stackful_coroutine \<Rightarrow> 'r \<times> stackful_coroutine) \<Rightarrow> call_state \<Rightarrow> 'r \<times> call_state" where
  "on_coro f cs = (let (r, co) = f (cs_coro cs) in (r, cs\<lparr>cs_coro := co\<rparr>))"

definition bind_op ::
  "(failure + 'a) \<times> call_state \<Rightarrow> ('a \<Rightarrow> call_state \<Rightarrow> (failure + 'b) \<times> call_state) \<Rightarrow> (failure + 'b) \<times> call_state" where
  "bind_op r f = (case r of (Inl e, cs) \<Rightarrow> (Inl e, cs) | (Inr x, cs) \<Rightarrow> f x cs)"

definition finish_op :: "(failure + call_result) \<times> call_state \<Rightarrow> call_result" where
  "finish_op r = (case r of (Inl e, cs) \<Rightarrow> (NotOk e, cs) | (Inr result, cs) \<Rightarrow> result)"

definition pop_receiver :: "call_env \<Rightarrow> call_state \<Rightarrow> (failure + operand) \<times> call_state" where
  "pop_receiver C cs =
    bind_op (on_coro (popData (ce_garbage C)) cs) (\<lambda>receiver cs.
      if isReference receiver then (Inr receiver, cs) else (Inl (Returned kInvalidReceiver), cs))"

definition pop_call_operands ::
  "call_env \<Rightarrow> u16 \<Rightarrow> u8 \<Rightarrow> call_state \<Rightarrow> (failure + operand \<times> operand list) \<times> call_state" where
  "pop_call_operands C placement flags cs =
    (let pop_arguments = on_coro (popDataMany (ce_garbage C) (uint placement))
     in if flags AND CALL_RECEIVER_FOLLOWS \<noteq> 0 then
       bind_op (pop_receiver C cs) (\<lambda>receiver cs.
       bind_op (pop_arguments cs) (\<lambda>arguments cs. (Inr (receiver, arguments), cs)))
     else
       bind_op (pop_arguments cs) (\<lambda>arguments cs.
       bind_op (pop_receiver C cs) (\<lambda>receiver cs. (Inr (receiver, arguments), cs))))"

text \<open>Forwarding appends the rest arguments of the current call.\<close>

definition forward_rest :: "u8 \<Rightarrow> operand list \<Rightarrow> call_state \<Rightarrow> (failure + operand list) \<times> call_state" where
  "forward_rest flags arguments cs =
    (if flags AND CALL_FORWARD_REST \<noteq> 0 then
       (then_do (peekCall (-1) (cs_coro cs)) (\<lambda>i.
          let call = m_callStack (cs_coro cs) ! i
          in Inr (arguments @ map (\<lambda>j. getRestArgument (int j) call) [0 ..< unat (m_numRest call)])), cs)
     else (Inr arguments, cs))"

definition pop_descriptor ::
  "call_env \<Rightarrow> linkage_section \<Rightarrow> call_state \<Rightarrow> (failure + descriptor_ref) \<times> call_state" where
  "pop_descriptor C section cs =
    bind_op (on_coro (popData (ce_garbage C)) cs) (\<lambda>descriptor cs.
      case map_option (ce_descriptor C) (getDescriptor (bl_endian (ce_bytes C)) descriptor) of
        Some (DescriptorRef segment s index) \<Rightarrow>
          if s \<noteq> section then (Inl (Returned kInvalidDataStackV1), cs) else (Inr (DescriptorRef segment s index), cs)
      | _ \<Rightarrow> (Inl (Returned kInvalidDataStackV1), cs))"

definition op_call_static :: "call_env \<Rightarrow> u32 \<Rightarrow> u16 \<Rightarrow> u8 \<Rightarrow> call_state \<Rightarrow> call_result" where
  "op_call_static C address placement flags cs = finish_op
    (bind_op (on_coro (popDataMany (ce_garbage C) (uint placement)) cs) (\<lambda>arguments cs.
     (Inr (subroutine_callStatic C address arguments cs), cs)))"

definition op_call_virtual :: "call_env \<Rightarrow> u32 \<Rightarrow> u16 \<Rightarrow> u8 \<Rightarrow> call_state \<Rightarrow> call_result" where
  "op_call_virtual C address placement flags cs = finish_op
    (bind_op (pop_call_operands C placement flags cs) (\<lambda>(receiver, arguments) cs.
     bind_op (forward_rest flags arguments cs) (\<lambda>arguments cs.
     (Inr (subroutine_callVirtual C receiver address arguments cs), cs))))"

definition op_call_stub :: "call_env \<Rightarrow> u32 \<Rightarrow> u16 \<Rightarrow> u8 \<Rightarrow> call_state \<Rightarrow> call_result" where
  "op_call_stub C address placement flags cs = finish_op
    (bind_op (pop_call_operands C placement flags cs) (\<lambda>(receiver, arguments) cs.
     bind_op (forward_rest flags arguments cs) (\<lambda>arguments cs.
     (Inr (subroutine_callStub C receiver address arguments cs), cs))))"

definition op_call_concept :: "call_env \<Rightarrow> u32 \<Rightarrow> u16 \<Rightarrow> u8 \<Rightarrow> call_state \<Rightarrow> call_result" where
  "op_call_concept C address placement flags cs = finish_op
    (bind_op (pop_descriptor C LinkageConcept cs) (\<lambda>descriptor cs.
     bind_op (pop_call_operands C placement flags cs) (\<lambda>(receiver, arguments) cs.
     (Inr (subroutine_callConcept C receiver descriptor address arguments cs), cs))))"

definition op_call_existential :: "call_env \<Rightarrow> u32 \<Rightarrow> u16 \<Rightarrow> u8 \<Rightarrow> call_state \<Rightarrow> call_result" where
  "op_call_existential C address placement flags cs = finish_op
    (bind_op (pop_descriptor C LinkageExistential cs) (\<lambda>descriptor cs.
     bind_op (on_coro (popDataMany (ce_garbage C) (uint placement)) cs) (\<lambda>arguments cs.
     bind_op (on_coro (popData (ce_garbage C)) cs) (\<lambda>receiver cs.
     (Inr (subroutine_callExistential C receiver descriptor address arguments cs), cs)))))"

end
