(* ===== verification/SubroutinesLaws.thy ===== *)
theory SubroutinesLaws
  imports Subroutines SegmentsLaws ProcsLaws
begin

text \<open>
  Calls and returns. \<open>control\<close> is what a frame keeps while its slots change; a call pushes one frame
  that records where to return to (\<open>call_pushes\<close>), a failed call pushes none, the lexicals of a
  frame are the values of their latest activations, and a return undoes its call.
\<close>

definition control :: "call_cell \<Rightarrow> call_cell" where
  "control c = c\<lparr>m_data := [], m_savedIP := empty_iterator\<rparr>"

lemma control_area_set [simp]: "control (area_set a i v c) = control c"
  by (simp add: area_set_slice control_def)

lemma control_copies [simp]:
  "control (copy_cell c) = control c" "control (fst (move_cell c)) = control c"
  "control (fst (move_assign_cell d c)) = control c" "control (setLexical i v c) = control c"
  using control_area_set [of Lexicals i v c]
  by (simp_all add: control_def copy_cell_def move_cell_def move_assign_cell_def)

lemma control_fields:
  "m_returnIP (control c) = m_returnIP c" "m_returnSegment (control c) = m_returnSegment c"
  "m_returnsValue (control c) = m_returnsValue c" "m_stackGuard (control c) = m_stackGuard c"
  by (simp_all add: control_def)

lemma control_eq:
  assumes "control c = control c'"
  shows "m_returnIP c = m_returnIP c'" "m_returnSegment c = m_returnSegment c'"
    "m_returnsValue c = m_returnsValue c'" "m_stackGuard c = m_stackGuard c'"
  using assms by (metis control_fields)+

subsection \<open>Lexicals\<close>

text \<open>The value of each lexical, found in the calls, latest first.\<close>

definition lexical_in :: "call_cell list \<Rightarrow> u32 \<Rightarrow> proc_lexical \<Rightarrow> failure + operand" where
  "lexical_in calls segment lexical =
    then_do (or_else_fail (Returned kRuntimeInvariant) (find_ancestor segment (activation_call lexical) calls))
      (\<lambda>ancestor. lexical_value ancestor lexical)"

lemma import_lexicals_Cons:
  "import_lexicals calls segment i (lexical # lexicals) frame =
    then_do (lexical_in calls segment lexical) (\<lambda>v. import_lexicals calls segment (i + 1) lexicals (setLexical i v frame))"
  by (cases "find_ancestor segment (activation_call lexical) calls") (simp_all add: lexical_in_def)

declare import_lexicals.simps(2) [simp del]

lemma import_lexicals_frame:
  "import_lexicals calls segment i ls frame = Inr frame' \<Longrightarrow> call_cell_wf frame \<Longrightarrow>
    control frame' = control frame \<and> call_cell_wf frame' \<and> (\<forall>j < i. getLexical j frame' = getLexical j frame)"
proof (induction ls arbitrary: i frame)
  case (Cons l ls)
  then obtain v where v: "import_lexicals calls segment (i + 1) ls (setLexical i v frame) = Inr frame'"
    by (auto simp: import_lexicals_Cons then_do_Inr)
  have "call_cell_wf (setLexical i v frame)" using area_wf [OF Cons.prems(2), of Lexicals i v] by simp
  then show ?case using Cons.IH [OF v] lexicals.get_put [OF Cons.prems(2), of _ i v] by auto
qed simp

lemma import_lexicals_values:
  assumes "import_lexicals calls segment i ls frame = Inr frame'" "call_cell_wf frame"
    "0 \<le> i" "i + int (length ls) \<le> uint (m_numLexicals frame)" "k < length ls"
  shows "lexical_in calls segment (ls ! k) = Inr (getLexical (i + int k) frame')"
  using assms
proof (induction ls arbitrary: i k frame)
  case (Cons l ls)
  from Cons.prems(1) obtain v where v: "lexical_in calls segment l = Inr v"
    "import_lexicals calls segment (i + 1) ls (setLexical i v frame) = Inr frame'"
    by (auto simp: import_lexicals_Cons then_do_Inr)
  have wf: "call_cell_wf (setLexical i v frame)" using area_wf [OF Cons.prems(2), of Lexicals i v] by simp
  have num: "m_numLexicals (setLexical i v frame) = m_numLexicals frame" by (simp add: setLexical_def)
  show ?case
  proof (cases k)
    case 0
    have "getLexical i frame' = getLexical i (setLexical i v frame)"
      using import_lexicals_frame [OF v(2) wf] by simp
    then show ?thesis
      using 0 v(1) lexicals.get_put [OF Cons.prems(2), of i i v] Cons.prems(3,4) by simp
  next
    case (Suc k')
    have "lexical_in calls segment (ls ! k') = Inr (getLexical (i + 1 + int k') frame')"
      by (rule Cons.IH [OF v(2) wf]) (use Cons.prems Suc num in auto)
    then show ?thesis using Suc by (simp add: add.assoc)
  qed
qed simp

lemma import_lexicals_fails:
  "import_lexicals calls segment i ls frame = Inl e \<Longrightarrow>
    e = Returned kRuntimeInvariant \<and> (\<exists>k < length ls. lexical_in calls segment (ls ! k) = Inl e)"
proof (induction ls arbitrary: i frame)
  case (Cons l ls)
  show ?case
  proof (cases "lexical_in calls segment l")
    case (Inl e')
    then have "e' = Returned kRuntimeInvariant"
      by (auto simp: lexical_in_def or_else_fail_def lexical_value_def split: option.splits if_splits)
    then show ?thesis using Cons.prems Inl by (auto simp: import_lexicals_Cons)
  next
    case (Inr v)
    then show ?thesis using Cons.IH [of "i + 1" "setLexical i v frame"] Cons.prems by (auto simp: import_lexicals_Cons)
  qed
qed simp

text \<open>The latest activation: no later call is of the same proc.\<close>

lemma find_ancestor_latest:
  "find_ancestor s c calls = Some a \<Longrightarrow>
    \<exists>later earlier. calls = later @ a # earlier \<and> m_callSegment a = s \<and> m_callIndex a = c \<and>
      (\<forall>b \<in> set later. \<not> (m_callSegment b = s \<and> m_callIndex b = c))"
proof (induction calls)
  case (Cons x calls)
  show ?case
  proof (cases "m_callSegment x = s \<and> m_callIndex x = c")
    case True
    then have "a = x" using Cons.prems by simp
    then show ?thesis using True by (intro exI [of _ "[]"] exI [of _ calls]) simp
  next
    case False
    then obtain later earlier where "calls = later @ a # earlier" "m_callSegment a = s" "m_callIndex a = c"
      "\<forall>b \<in> set later. \<not> (m_callSegment b = s \<and> m_callIndex b = c)"
      using Cons by auto
    then show ?thesis using False by (intro exI [of _ "x # later"] exI [of _ earlier]) simp
  qed
qed simp

subsection \<open>Calls\<close>

lemma make_cell_control:
  "control (make_cell ci cs po rs rip rv sg na nr nl nx args) =
    \<lparr>m_callIndex = ci, m_callSegment = cs, m_procOffset = po, m_returnSegment = rs, m_returnIP = rip,
     m_savedIP = empty_iterator, m_returnsValue = rv, m_stackGuard = sg, m_numArguments = na,
     m_numRest = nr, m_numLocals = nl, m_numLexicals = nx, m_data = [], m_receiver = empty_operand,
     m_vtable = 0\<rparr>"
  by (simp add: make_cell_def control_def)

lemma make_activation_frame:
  assumes "make_activation C callIndex segment procOffset rv args receiver cs = Inr (frame, ip)"
    "m_SP (cs_coro cs) = Some sp"
  shows "m_returnIP frame = m_IP (cs_coro cs)"
    "m_returnSegment frame = word_of_nat (m_segmentIndex (segment_at (cs_segments cs) sp))"
    "m_returnsValue frame = rv" "m_stackGuard frame = dataStackSize (cs_coro cs)"
    "call_cell_wf frame" "m_callIndex frame = callIndex"
proof -
  let ?s = "segment_at (cs_segments cs) segment"
  let ?rs = "word_of_nat (m_segmentIndex (segment_at (cs_segments cs) sp)) :: u32"
  from assms obtain info numRest frame0 where f:
    "(case receiver of
        None \<Rightarrow> Inr (make_cell callIndex (word_of_nat (m_segmentIndex ?s)) procOffset ?rs (m_IP (cs_coro cs)) rv
          (dataStackSize (cs_coro cs)) (pi_arguments info) numRest (pi_locals info) (pi_lexicals info) args)
      | Some r \<Rightarrow> or_else_fail AssertionFailed (make_cell_receiver callIndex (word_of_nat (m_segmentIndex ?s))
          procOffset ?rs (m_IP (cs_coro cs)) rv (dataStackSize (cs_coro cs)) (pi_arguments info) numRest
          (pi_locals info) (pi_lexicals info) args r)) = Inr frame0"
    "(if 0 < pi_lexicals info
      then import_lexicals_into_frame (ce_bytes C) info (cs_coro cs) (m_segmentIndex ?s) frame0
      else Inr frame0) = Inr frame"
    by (auto simp: make_activation_def Let_def then_do_Inr)
  have frame0: "call_cell_wf frame0 \<and> m_returnIP frame0 = m_IP (cs_coro cs) \<and> m_returnSegment frame0 = ?rs \<and>
      m_returnsValue frame0 = rv \<and> m_stackGuard frame0 = dataStackSize (cs_coro cs) \<and> m_callIndex frame0 = callIndex"
  proof (cases receiver)
    case None
    with f(1) have "frame0 = make_cell callIndex (word_of_nat (m_segmentIndex ?s)) procOffset ?rs
        (m_IP (cs_coro cs)) rv (dataStackSize (cs_coro cs)) (pi_arguments info) numRest (pi_locals info)
        (pi_lexicals info) args" by simp
    then show ?thesis by (simp only: make_cell_wf) (simp add: make_cell_def)
  next
    case (Some r)
    with f(1) have "frame0 = (make_cell callIndex (word_of_nat (m_segmentIndex ?s)) procOffset ?rs
        (m_IP (cs_coro cs)) rv (dataStackSize (cs_coro cs)) (pi_arguments info) numRest (pi_locals info)
        (pi_lexicals info) args)\<lparr>m_receiver := r\<rparr>"
      by (auto simp: make_cell_receiver_def split: if_splits)
    then show ?thesis by (simp add: make_cell_def call_cell_wf_def)
  qed
  have "control frame = control frame0 \<and> call_cell_wf frame"
    using f(2) frame0 import_lexicals_frame by (auto simp: import_lexicals_into_frame_def then_do_Inr split: if_splits)
  then have c: "control frame = control frame0" "call_cell_wf frame" by simp_all
  have "m_callIndex frame = m_callIndex frame0"
    using arg_cong [OF c(1), of m_callIndex] by (simp add: control_def)
  then show "m_returnIP frame = m_IP (cs_coro cs)" "m_returnSegment frame = ?rs" "m_returnsValue frame = rv"
    "m_stackGuard frame = dataStackSize (cs_coro cs)" "call_cell_wf frame" "m_callIndex frame = callIndex"
    using control_eq [OF c(1)] frame0 c(2) by simp_all
qed

lemma call_proc_with_cases:
  assumes "call_proc_with C callIndex segment procOffset rv args receiver cs = (status, cs')"
  obtains (failed) e where "status = NotOk e" "cs' = cs"
  | (pushed) frame ip where "status = Ok"
      "make_activation C callIndex segment procOffset rv args receiver cs = Inr (frame, ip)"
      "cs' = cs\<lparr>cs_coro := snd (pushCall (ce_moved C) frame ip (Some segment) (cs_coro cs))\<rparr>"
  using assms by (auto simp: call_proc_with_def split: sum.splits)

subsection \<open>Returns\<close>

lemma popCall_current:
  assumes "m_callStack co = calls @ [c]"
  shows "popCall empty_cell co = (Ok, c\<lparr>m_savedIP := empty_iterator\<rparr>, co\<lparr>m_callStack := calls\<rparr>)"
  using assms by (simp add: popCall_def move_assign_cell_def empty_cell_def)

lemma resize_repr:
  assumes "stack_repr cap (m_operandStack co) (ws @ vs)" "length (ws @ vs) < 2 ^ 31" "n = int (length vs)"
  obtains s where "resizeDataStack n co = (Ok, co\<lparr>m_operandStack := s\<rparr>)" "stack_repr cap s vs"
proof -
  have n: "0 \<le> n" "n < 2 ^ 31" "length (ws @ vs) - nat n = length ws" using assms(2,3) by simp_all
  obtain st co' where r: "resizeDataStack n co = (st, co')" by fastforce
  have "st = Ok" "stack_repr cap (m_operandStack co') vs"
    using resize_keeps_bottom [OF assms(1) n(1,2) assms(2)] r n(3) by simp_all
  moreover have "co' = co\<lparr>m_operandStack := m_operandStack co'\<rparr>"
    using r by (auto simp: resizeDataStack_def on_data_def split_beta)
  ultimately show ?thesis using that r by simp
qed

lemma drop_temporaries_repr:
  assumes r: "stack_repr cap (m_operandStack co) (ws @ vs)" and g: "length g = 8"
    and guard: "m_stackGuard frame = int (length vs)" and small: "length (ws @ vs) < 2 ^ 31"
  obtains s where "drop_temporaries g frame co = (Ok, co\<lparr>m_operandStack := s\<rparr>)"
    "stack_repr cap s (if m_returnsValue frame \<and> ws \<noteq> [] then hd ws # vs else vs)"
proof (cases ws)
  case Nil
  then have "drop_temporaries g frame co = (Ok, co)"
    using r guard by (simp add: drop_temporaries_def dataStackSize_def getDepth_def stack_repr_def)
  then show ?thesis using that [of "m_operandStack co"] r Nil by simp
next
  case (Cons w ws')
  have size: "dataStackSize co > m_stackGuard frame"
    using r Cons guard by (simp add: dataStackSize_def getDepth_def stack_repr_def)
  show ?thesis
  proof (cases "m_returnsValue frame")
    case False
    show ?thesis
      by (rule resize_repr [OF r small guard]) (use that size False in \<open>simp add: drop_temporaries_def\<close>)
  next
    case True
    note p = repr_popped [OF r [unfolded Cons append_Cons]]
    let ?co = "co\<lparr>m_operandStack := popped (length w) (m_operandStack co)\<rparr>"
    have pop: "popData g co = (Inr (parse_operand g w), ?co)"
      using pop_repr [OF r, of g] Cons by (simp add: popData_def on_data_def)
    obtain s where s: "resizeDataStack (m_stackGuard frame) ?co = (Ok, ?co\<lparr>m_operandStack := s\<rparr>)" "stack_repr cap s vs"
      by (rule resize_repr [of cap ?co ws' vs]) (use p small Cons guard in simp_all)
    note w = parse_value_bytes [OF g p(5)]
    have "length (concat (w # ws' @ vs)) \<le> cap"
      using repr_last [OF r] r Cons by (simp add: stack_repr_def)
    then have room: "length (concat vs) + length w \<le> cap" by simp
    obtain s' where s': "pushOperand (parse_operand g w) s = (Ok, s')" "stack_repr cap s' (w # vs)"
      using push_repr [OF s(2) w(2)] room w(1) p(5) by (auto simp: value_bytes_def)
    show ?thesis
      by (rule that [of s'])
        (use size True Cons pop s s' in \<open>simp_all add: drop_temporaries_def pushData_def on_data_def\<close>)
  qed
qed

text \<open>A return from a frame that returns to segment \<open>sp\<close>.\<close>

lemma return_from:
  assumes calls: "m_callStack (cs_coro cs) = calls @ [frame]"
    and segment: "m_returnSegment frame = word_of_nat sp" "sp < length (sd_segments (cs_segments cs))"
      "length (sd_segments (cs_segments cs)) \<le> 2 ^ 32"
    and repr: "stack_repr cap (m_operandStack (cs_coro cs)) (ws @ vs)" "m_stackGuard frame = int (length vs)"
      "length (ws @ vs) < 2 ^ 31" "length (ce_garbage C) = 8"
  obtains s where "returnToCaller C cs = ((isValid (m_returnIP frame), Ok),
      cs\<lparr>cs_coro := (cs_coro cs)\<lparr>m_IP := m_returnIP frame, m_SP := Some sp, m_callStack := calls, m_operandStack := s\<rparr>\<rparr>)"
    "stack_repr cap s (if m_returnsValue frame \<and> ws \<noteq> [] then hd ws # vs else vs)"
proof -
  let ?frame = "frame\<lparr>m_savedIP := empty_iterator\<rparr>"
  let ?co = "(cs_coro cs)\<lparr>m_callStack := calls, m_IP := m_returnIP frame, m_SP := Some sp\<rparr>"
  have "unat (m_returnSegment frame) = sp"
    using segment by (simp add: unsigned_of_nat take_bit_nat_eq_self)
  then have get: "getSegment (unat (m_returnSegment frame)) (cs_segments cs) = Some sp"
    using segment(2) by (simp add: getSegment_def)
  obtain s where s: "drop_temporaries (ce_garbage C) ?frame ?co = (Ok, ?co\<lparr>m_operandStack := s\<rparr>)"
    "stack_repr cap s (if m_returnsValue frame \<and> ws \<noteq> [] then hd ws # vs else vs)"
    by (rule drop_temporaries_repr [of cap ?co ws vs "ce_garbage C" ?frame]) (use repr in simp_all)
  show ?thesis
    by (rule that [OF _ s(2)])
      (simp add: returnToCaller_def popCall_current [OF calls] callStackSize_def calls get transferControl_def
        s(1) Let_def)
qed

subsection \<open>Requests for calls\<close>

datatype call_request =
    CallStatic u32
  | CallDescriptor operand
  | CallVirtual operand u32
  | CallStub operand u32
  | CallConcept operand descriptor_ref u32
  | CallExistential operand descriptor_ref u32
  | InitStatic u32

fun request_call :: "call_env \<Rightarrow> call_request \<Rightarrow> operand list \<Rightarrow> call_state \<Rightarrow> call_result" where
  "request_call C (CallStatic address) args cs = subroutine_callStatic C address args cs"
| "request_call C (CallDescriptor descriptor) args cs = subroutine_callStatic_descriptor C descriptor args cs"
| "request_call C (CallVirtual receiver address) args cs = subroutine_callVirtual C receiver address args cs"
| "request_call C (CallStub receiver address) args cs = subroutine_callStub C receiver address args cs"
| "request_call C (CallConcept receiver descriptor address) args cs = subroutine_callConcept C receiver descriptor address args cs"
| "request_call C (CallExistential receiver descriptor address) args cs = subroutine_callExistential C receiver descriptor address args cs"
| "request_call C (InitStatic address) args cs = initStatic C address cs"

definition existential_safe :: "call_env \<Rightarrow> bool" where
  "existential_safe C \<longleftrightarrow> (\<forall>descriptor d. segments_ok (ce_segments C) d \<longrightarrow>
    segments_ok (ce_segments C) (snd (ce_existential C descriptor d)) \<and> extends d (snd (ce_existential C descriptor d)))"

text \<open>What a call does: either it fails and the coroutine stays as it was, or it pushes one frame
  which returns to where the coroutine was. The segments are only extended.\<close>

definition pushed :: "call_state \<Rightarrow> call_state \<Rightarrow> bool" where
  "pushed cs cs' \<longleftrightarrow> (\<exists>frame.
    map control (m_callStack (cs_coro cs')) = map control (m_callStack (cs_coro cs)) @ [control frame] \<and>
    call_cell_wf frame \<and> m_returnIP frame = m_IP (cs_coro cs) \<and> m_stackGuard frame = dataStackSize (cs_coro cs) \<and>
    (\<forall>sp. m_SP (cs_coro cs) = Some sp \<longrightarrow> m_returnSegment frame = word_of_nat sp)) \<and>
    m_SP (cs_coro cs') \<noteq> None \<and> m_curr (m_IP (cs_coro cs')) = 0 \<and>
    m_operandStack (cs_coro cs') = m_operandStack (cs_coro cs) \<and> m_guardStack (cs_coro cs') = m_guardStack (cs_coro cs)"

definition call_outcome :: "segment_env \<Rightarrow> call_state \<Rightarrow> call_result \<Rightarrow> bool" where
  "call_outcome N cs r \<longleftrightarrow>
    segments_ok N (cs_segments (snd r)) \<and> extends (cs_segments cs) (cs_segments (snd r)) \<and>
    (case fst r of Ok \<Rightarrow> pushed cs (snd r) | NotOk e \<Rightarrow> cs_coro (snd r) = cs_coro cs)"

lemma outcome_failed [simp]:
  "call_outcome N cs (NotOk e, cs) \<longleftrightarrow> segments_ok N (cs_segments cs)"
  "call_outcome N cs (NotOk e, cs\<lparr>cs_segments := d\<rparr>) \<longleftrightarrow> segments_ok N d \<and> extends (cs_segments cs) d"
  by (simp_all add: call_outcome_def)

lemma outcome_later:
  assumes "extends (cs_segments cs) d" "call_outcome N (cs\<lparr>cs_segments := d\<rparr>) r"
  shows "call_outcome N cs r"
  using assms extends_trans [OF assms(1)]
  by (auto simp: call_outcome_def pushed_def split: status.splits)

lemma call_proc_with_outcome:
  assumes ok: "segments_ok N (cs_segments cs)" "m_SP (cs_coro cs) = Some sp" "sp < length (sd_segments (cs_segments cs))"
  shows "call_outcome N cs (call_proc_with C callIndex segment procOffset rv args receiver cs)"
proof -
  obtain status cs' where r: "call_proc_with C callIndex segment procOffset rv args receiver cs = (status, cs')"
    by fastforce
  have index: "m_segmentIndex (segment_at (cs_segments cs) sp) = sp"
    using segments_okD(1) [OF ok(1,3)] by (simp add: segment_ok_def Let_def)
  from r show ?thesis
  proof (cases rule: call_proc_with_cases)
    case (failed e)
    then show ?thesis using r ok by simp
  next
    case (pushed frame ip)
    have curr: "m_curr ip = 0"
      using pushed(2) by (auto simp: make_activation_def Let_def then_do_Inr make_iterator_def)
    note frame = make_activation_frame [OF pushed(2) ok(2)]
    have "pushed cs cs'"
      unfolding pushed_def
      by (intro conjI exI [of _ frame])
        (use curr frame index ok(2) pushed(3) in \<open>simp_all add: pushCall_def o_def\<close>)
    then show ?thesis using r pushed ok(1) by (simp add: call_outcome_def)
  qed
qed

lemma static_outcome:
  assumes "segments_ok N (cs_segments cs)" "m_SP (cs_coro cs) = Some sp" "sp < length (sd_segments (cs_segments cs))"
  shows "call_outcome N cs (call_static_at C segment callIndex args cs)"
    "call_outcome N cs (callProc C callIndex segment procOffset args rv cs)"
  using call_proc_with_outcome [OF assms] assms(1)
  by (auto simp: call_static_at_def call_static_def callProc_def split: option.splits)

lemma after_segments:
  assumes "segments_ok N (cs_segments cs)" "m_SP (cs_coro cs) = Some sp" "sp < length (sd_segments (cs_segments cs))"
    and d: "segments_ok N d" "extends (cs_segments cs) d"
  shows "call_outcome N cs (call_static_at C segment callIndex args (cs\<lparr>cs_segments := d\<rparr>))"
    "call_outcome N cs (callProc C callIndex segment procOffset args rv (cs\<lparr>cs_segments := d\<rparr>))"
    "call_outcome N cs (call_proc_with C callIndex segment procOffset rv args receiver (cs\<lparr>cs_segments := d\<rparr>))"
proof -
  have "segments_ok N (cs_segments (cs\<lparr>cs_segments := d\<rparr>))" "m_SP (cs_coro (cs\<lparr>cs_segments := d\<rparr>)) = Some sp"
    "sp < length (sd_segments (cs_segments (cs\<lparr>cs_segments := d\<rparr>)))"
    using assms by (simp_all add: extends_def)
  note * = static_outcome [OF this] call_proc_with_outcome [OF this]
  show "call_outcome N cs (call_static_at C segment callIndex args (cs\<lparr>cs_segments := d\<rparr>))"
    "call_outcome N cs (callProc C callIndex segment procOffset args rv (cs\<lparr>cs_segments := d\<rparr>))"
    "call_outcome N cs (call_proc_with C callIndex segment procOffset rv args receiver (cs\<lparr>cs_segments := d\<rparr>))"
    using outcome_later [OF d(2) *(1)] outcome_later [OF d(2) *(2)] outcome_later [OF d(2) *(3)] by blast+
qed

lemma callStatic_outcome:
  assumes ok: "segments_ok (ce_segments C) (cs_segments cs)" "m_SP (cs_coro cs) = Some sp"
    "sp < length (sd_segments (cs_segments cs))"
  shows "call_outcome (ce_segments C) cs (subroutine_callStatic C address args cs)"
proof (cases "IS_NEAR address")
  case True
  then show ?thesis using ok static_outcome [OF ok] by (simp add: subroutine_callStatic_def)
next
  case False
  obtain r d where r: "resolve_link (ce_segments C) sp (GET_LINK_OFFSET address) (cs_segments cs) = (r, d)" by fastforce
  have d: "segments_ok (ce_segments C) d" "extends (cs_segments cs) d"
    using resolve_link_ok [OF ok(1,3), of "GET_LINK_OFFSET address"] r by simp_all
  show ?thesis
    using False ok(2) d after_segments(1) [OF ok d]
    by (auto simp: subroutine_callStatic_def r split: sum.split failure.split option.split)
qed

lemma initStatic_outcome:
  assumes ok: "segments_ok (ce_segments C) (cs_segments cs)" "m_SP (cs_coro cs) = Some sp"
    "sp < length (sd_segments (cs_segments cs))"
  shows "call_outcome (ce_segments C) cs (initStatic C address cs)"
proof (cases "IS_NEAR address")
  case True
  then show ?thesis using ok static_outcome [OF ok] by (auto simp: initStatic_def Let_def split: option.split)
next
  case False
  obtain r d where r: "resolve_link (ce_segments C) sp (GET_LINK_OFFSET address) (cs_segments cs) = (r, d)" by fastforce
  have d: "segments_ok (ce_segments C) d" "extends (cs_segments cs) d"
    using resolve_link_ok [OF ok(1,3), of "GET_LINK_OFFSET address"] r by simp_all
  show ?thesis
    using False ok(2) d after_segments(2) [OF ok d]
    by (auto simp: initStatic_def r Let_def split: sum.split option.split)
qed

lemma call_method_outcome:
  assumes ok: "segments_ok (ce_segments C) (cs_segments cs)" "m_SP (cs_coro cs) = Some sp"
    "sp < length (sd_segments (cs_segments cs))"
  shows "call_outcome (ce_segments C) cs (call_method C sec address resolver receiver args cs)"
proof -
  obtain r d where r: "resolve_descriptor (ce_segments C) sp sec address (cs_segments cs) = (r, d)" by fastforce
  have d: "segments_ok (ce_segments C) d" "extends (cs_segments cs) d"
    using resolve_descriptor_ok [OF ok(1,3), of sec address] r by simp_all
  show ?thesis
    using ok(2) d after_segments(3) [OF ok d] by (auto simp: call_method_def r split: sum.split option.split)
qed

lemma callExistential_outcome:
  assumes ok: "segments_ok (ce_segments C) (cs_segments cs)" "m_SP (cs_coro cs) = Some sp"
    "sp < length (sd_segments (cs_segments cs))" and safe: "existential_safe C"
  shows "call_outcome (ce_segments C) cs (subroutine_callExistential C receiver descriptor address args cs)"
proof -
  obtain r d where r: "ce_existential C descriptor (cs_segments cs) = (r, d)" by fastforce
  have d: "segments_ok (ce_segments C) d" "extends (cs_segments cs) d"
    using safe ok(1) r unfolding existential_safe_def by (metis snd_conv)+
  have "call_outcome (ce_segments C) (cs\<lparr>cs_segments := d\<rparr>)
      (call_method C LinkageCall address etable receiver args (cs\<lparr>cs_segments := d\<rparr>))" for etable
    by (rule call_method_outcome [of _ _ sp]) (use ok d in \<open>simp_all add: extends_def\<close>)
  then show ?thesis
    using d ok(1) outcome_later [OF d(2)] by (auto simp: subroutine_callExistential_def r split: sum.split)
qed

lemma request_outcome:
  assumes ok: "segments_ok (ce_segments C) (cs_segments cs)" "m_SP (cs_coro cs) = Some sp"
    "sp < length (sd_segments (cs_segments cs))" and safe: "existential_safe C"
  shows "call_outcome (ce_segments C) cs (request_call C request args cs)"
proof (cases request)
  case (CallDescriptor descriptor)
  then show ?thesis using ok(1) static_outcome [OF ok]
    by (auto simp: subroutine_callStatic_descriptor_def split: option.split descriptor_ref.split)
qed (use ok(1) callStatic_outcome [OF ok] initStatic_outcome [OF ok] call_method_outcome [OF ok]
    callExistential_outcome [OF ok safe] in
  \<open>auto simp: subroutine_callVirtual_def subroutine_callStub_def subroutine_callConcept_def split: sum.split\<close>)

subsection \<open>A sample\<close>

text \<open>A module with one call, whose code is a single byte.\<close>

definition call_sample_object :: lyric_object where
  "call_sample_object =
    \<lparr>od_bytecode = [0, 0, 0, 11, 0, 0, 0, 0, 0, 0, 0, 0, 0, 0, 1],
     od_calls = [\<lparr>cd_bound = False, cd_noReturn = False, cd_ctor = False, cd_inline = False, cd_bytecode_offset = 0\<rparr>],
     od_statics = [0], od_links = [], od_symbols = (\<lambda>_. None), od_types = [], od_count = (\<lambda>_. 0),
     od_plugin = None\<rparr>"

definition call_sample_env :: call_env where
  "call_sample_env =
    \<lparr>ce_bytes = machine_bytes, ce_segments = sample_env\<lparr>load_module := (\<lambda>_ _. Some call_sample_object)\<rparr>,
     ce_garbage = [0, 0, 0, 0, 0, 0, 0, 0], ce_moved = True, ce_descriptor = (\<lambda>_. TypeRef 0 0),
     ce_methods = (\<lambda>_. None), ce_extensions = (\<lambda>_. None), ce_existential = (\<lambda>_ d. (Inl AssertionFailed, d))\<rparr>"

definition call_sample :: call_state where
  "call_sample =
    \<lparr>cs_coro = (new_coroutine 16)\<lparr>m_IP := make_iterator [9], m_SP := Some 0\<rparr>,
     cs_segments = \<lparr>sd_segments = [new_segment 0 False ''a'' call_sample_object], sd_cache = [''a'' \<mapsto> 0]\<rparr>\<rparr>"

lemma call_sample_loaded:
  "cs_segments call_sample = segment_step (ce_segments call_sample_env) (GetOrLoad ''a'' None False) empty_segments"
  by (simp add: call_sample_def call_sample_env_def get_or_load_segment_def sample_env_def empty_segments_def
      plugin_accepts_def call_sample_object_def Let_def)

lemma call_sample_ok:
  "segments_ok (ce_segments call_sample_env) (cs_segments call_sample)" "m_SP (cs_coro call_sample) = Some 0"
  "0 < length (sd_segments (cs_segments call_sample))" "existential_safe call_sample_env"
proof -
  show "segments_ok (ce_segments call_sample_env) (cs_segments call_sample)"
    using segment_step_ok [OF empty_segments_ok, of "GetOrLoad ''a'' None False" "ce_segments call_sample_env"]
    by (simp only: call_sample_loaded segment_op_valid.simps simp_thms)
qed (simp_all add: call_sample_def existential_safe_def call_sample_env_def)

lemma call_sample_proc:
  "parse_proc_info machine_bytes (od_bytecode call_sample_object) 0 =
    Inr \<lparr>pi_arguments = 0, pi_locals = 0, pi_lexicals = 0, pi_lexicals_span = [], pi_code = [1], pi_trailer = []\<rparr>"
  by code_simp

lemma call_sample_activation:
  "make_activation call_sample_env 0 0 0 True [] None call_sample =
    Inr (make_cell 0 0 0 0 (make_iterator [9]) True 0 0 0 0 0 [], make_iterator [1])"
  using call_sample_proc
  by (simp add: make_activation_def segment_at_def call_sample_env_def process_arguments_def call_sample_def
      dataStackSize_def getDepth_def new_coroutine_def new_stack_def)

lemma call_sample_call:
  "call_proc_with call_sample_env 0 0 0 True [] None call_sample = (Ok, call_sample\<lparr>cs_coro :=
    snd (pushCall True (make_cell 0 0 0 0 (make_iterator [9]) True 0 0 0 0 0 []) (make_iterator [1]) (Some 0)
      (cs_coro call_sample))\<rparr>)"
  by (simp add: call_proc_with_def call_sample_activation) (simp add: call_sample_env_def)

text \<open>The callee has pushed the value \<open>true\<close>.\<close>

definition call_sample_callee :: call_state where
  "call_sample_callee = (let cs = snd (call_proc_with call_sample_env 0 0 0 True [] None call_sample)
     in cs\<lparr>cs_coro := (cs_coro cs)\<lparr>m_operandStack := \<lparr>m_stack = [0, 0, 3, 8, 0, 0, 0, 0, 0, 0, 0, 0, 0, 0, 0, 0], m_last = 4, m_depth = 1\<rparr>\<rparr>\<rparr>)"

definition lexical_sample_info :: proc_info where
  "lexical_sample_info = \<lparr>pi_arguments = 0, pi_locals = 0, pi_lexicals = 1,
     pi_lexicals_span = [0, 0, 0, 3, 0, 0, 0, 0, 1], pi_code = [], pi_trailer = []\<rparr>"

definition lexical_sample_coro :: stackful_coroutine where
  "lexical_sample_coro = (new_coroutine 16)\<lparr>m_callStack :=
    [make_cell 3 0 0 0 empty_iterator True 0 1 0 0 0 [fromU8 [0, 0, 0, 0, 0, 0, 0, 0] 7]]\<rparr>"

lemma lexical_sample_table:
  "parse_lexicals_table machine_bytes lexical_sample_info =
    Inr [\<lparr>activation_call = 3, target_offset = 0, lexical_target = 1\<rparr>]"
  by code_simp

subsection \<open>Properties\<close>

text \<open>C7. A return undoes its call. The callee may have done anything to its own frame's slots, to
  the values above those that were on the stack when it was called, and to the segments as far as
  linking changes them: the return restores the instruction pointer, the segment and the calls, and
  leaves the caller's values, with the callee's topmost one on top if the call returns a value and
  there is one. It is reported as false exactly when there is no instruction to return to.\<close>

theorem return_undoes_call:
  assumes ok: "segments_ok N (cs_segments cs)" "m_SP (cs_coro cs) = Some sp" "sp < length (sd_segments (cs_segments cs))"
    and call: "call_proc_with C callIndex segment procOffset rv args receiver cs = (Ok, cs1)"
    and caller: "stack_repr cap (m_operandStack (cs_coro cs)) vs"
    and callee: "map control (m_callStack (cs_coro cs2)) = map control (m_callStack (cs_coro cs1))"
      "stack_repr cap (m_operandStack (cs_coro cs2)) (ws @ vs)" "length (ws @ vs) < 2 ^ 31"
      "extends (cs_segments cs1) (cs_segments cs2)" "length (sd_segments (cs_segments cs2)) \<le> 2 ^ 32"
    and g: "length (ce_garbage C) = 8"
    and return: "returnToCaller C cs2 = (result, cs3)"
  shows "result = (isValid (m_IP (cs_coro cs)), Ok) \<and> m_IP (cs_coro cs3) = m_IP (cs_coro cs) \<and>
    m_SP (cs_coro cs3) = Some sp \<and> map control (m_callStack (cs_coro cs3)) = map control (m_callStack (cs_coro cs)) \<and>
    stack_repr cap (m_operandStack (cs_coro cs3)) (if rv \<and> ws \<noteq> [] then hd ws # vs else vs) \<and>
    cs_segments cs3 = cs_segments cs2"
proof -
  obtain frame ip where f: "make_activation C callIndex segment procOffset rv args receiver cs = Inr (frame, ip)"
    "cs1 = cs\<lparr>cs_coro := snd (pushCall (ce_moved C) frame ip (Some segment) (cs_coro cs))\<rparr>"
    using call by (auto elim: call_proc_with_cases)
  note frame = make_activation_frame [OF f(1) ok(2)]
  have calls1: "map control (m_callStack (cs_coro cs1)) = map control (m_callStack (cs_coro cs)) @ [control frame]"
    by (simp add: f(2) pushCall_def o_def)
  then obtain calls frame2 where c2: "m_callStack (cs_coro cs2) = calls @ [frame2]"
    "map control calls = map control (m_callStack (cs_coro cs))" "control frame2 = control frame"
    using callee(1) by (cases "m_callStack (cs_coro cs2)" rule: rev_cases) auto
  note same = control_eq [OF c2(3)]
  have index: "m_segmentIndex (segment_at (cs_segments cs) sp) = sp"
    using segments_okD(1) [OF ok(1,3)] by (simp add: segment_ok_def Let_def)
  have sp: "sp < length (sd_segments (cs_segments cs2))"
    using callee(4) ok(3) by (simp add: extends_def f(2))
  have guard: "m_stackGuard frame2 = int (length vs)"
    using caller by (simp add: same frame dataStackSize_def getDepth_def stack_repr_def)
  obtain s where "returnToCaller C cs2 = ((isValid (m_returnIP frame2), Ok),
      cs2\<lparr>cs_coro := (cs_coro cs2)\<lparr>m_IP := m_returnIP frame2, m_SP := Some sp, m_callStack := calls, m_operandStack := s\<rparr>\<rparr>)"
    "stack_repr cap s (if m_returnsValue frame2 \<and> ws \<noteq> [] then hd ws # vs else vs)"
    by (rule return_from [OF c2(1) _ sp callee(5,2) guard callee(3) g]) (simp add: same frame index)
  then show ?thesis using return c2(2) by (auto simp: same frame)
qed



theorem return_undoes_call_witness:
  "\<exists>cs3. returnToCaller call_sample_env call_sample_callee = ((True, Ok), cs3) \<and>
    m_IP (cs_coro cs3) = make_iterator [9] \<and> m_SP (cs_coro cs3) = Some 0 \<and>
    stack_repr 16 (m_operandStack (cs_coro cs3)) [[0, 0, 3, 8]]"
proof -
  obtain result cs3 where r: "returnToCaller call_sample_env call_sample_callee = (result, cs3)" by fastforce
  have callee: "map control (m_callStack (cs_coro call_sample_callee)) =
      map control (m_callStack (snd (pushCall True (make_cell 0 0 0 0 (make_iterator [9]) True 0 0 0 0 0 [])
        (make_iterator [1]) (Some 0) (cs_coro call_sample))))"
    "stack_repr 16 (m_operandStack (cs_coro call_sample_callee)) ([[0, 0, 3, 8]] @ [])"
    "cs_segments call_sample_callee = cs_segments call_sample"
    by (simp_all add: call_sample_callee_def call_sample_call stack_repr_def value_bytes_def parseSize_cases
        tag_low Let_def)
  have "result = (isValid (m_IP (cs_coro call_sample)), Ok) \<and> m_IP (cs_coro cs3) = m_IP (cs_coro call_sample) \<and>
      m_SP (cs_coro cs3) = Some 0 \<and> map control (m_callStack (cs_coro cs3)) = map control (m_callStack (cs_coro call_sample)) \<and>
      stack_repr 16 (m_operandStack (cs_coro cs3)) (if True \<and> [[0, 0, 3, 8 :: u8]] \<noteq> [] then hd [[0, 0, 3, 8]] # [] else []) \<and>
      cs_segments cs3 = cs_segments call_sample_callee"
    by (rule return_undoes_call [OF call_sample_ok(1,2,3) call_sample_call _ _ callee(2) _ _ _ _ r])
      (use callee in \<open>simp_all add: call_sample_def new_coroutine_def call_sample_env_def\<close>)
  then show ?thesis using r by (simp add: call_sample_def isValid_def make_iterator_def)
qed

text \<open>C15. A call of any kind either fails, leaving the coroutine as it was, or pushes exactly one
  frame, which returns to the current instruction and segment and guards the values on the stack, and
  starts the callee at the beginning of its code. The segments keep their invariant and are only
  extended.\<close>

theorem calls_push_one_frame_or_none:
  assumes "segments_ok (ce_segments C) (cs_segments cs)" "m_SP (cs_coro cs) = Some sp"
    "sp < length (sd_segments (cs_segments cs))" "existential_safe C"
    and "request_call C request args cs = (status, cs')"
  shows "segments_ok (ce_segments C) (cs_segments cs') \<and> extends (cs_segments cs) (cs_segments cs') \<and>
    (case status of Ok \<Rightarrow> pushed cs cs' | NotOk e \<Rightarrow> cs_coro cs' = cs_coro cs)"
  using request_outcome [OF assms(1-4), of request args] assms(5)
  by (auto simp: call_outcome_def split: status.splits)

theorem calls_push_one_frame_or_none_witness:
  "\<exists>cs'. request_call call_sample_env (CallStatic 0) [] call_sample = (Ok, cs') \<and> pushed call_sample cs'"
proof -
  have call: "object_getCall (m_object (segment_at (cs_segments call_sample) 0)) 0 =
      Some \<lparr>cd_bound = False, cd_noReturn = False, cd_ctor = False, cd_inline = False, cd_bytecode_offset = 0\<rparr>"
    "m_SP (cs_coro call_sample) = Some 0"
    by (simp_all add: object_getCall_def call_sample_def segment_at_def call_sample_object_def)
  then have "fst (request_call call_sample_env (CallStatic 0) [] call_sample) = Ok"
    using call_sample_call by (simp add: subroutine_callStatic_def near_iff call_static_at_def call_static_def)
  then show ?thesis
    using calls_push_one_frame_or_none [OF call_sample_ok, of "CallStatic 0" "[]"] by (metis prod.collapse status.case(1))
qed

text \<open>The lexicals of a frame are the values of their latest activations: importing a table of
  lexicals succeeds exactly when each of its entries names a call that is active in the callee's
  segment and an argument or local; then lexical \<open>k\<close> is that variable of the call's latest activation,
  and the rest of the frame is unchanged.\<close>

theorem lexicals_of_latest_activations:
  assumes table: "parse_lexicals_table B info = Inr ls" and frame: "call_cell_wf frame"
    "length ls \<le> unat (m_numLexicals frame)"
  shows "case import_lexicals_into_frame B info co segment frame of
      Inr frame' \<Rightarrow> control frame' = control frame \<and>
        (\<forall>k < length ls. \<exists>later a earlier. rev (m_callStack co) = later @ a # earlier \<and>
          m_callSegment a = word_of_nat segment \<and> m_callIndex a = activation_call (ls ! k) \<and>
          (\<forall>b \<in> set later. m_callSegment b \<noteq> word_of_nat segment \<or> m_callIndex b \<noteq> activation_call (ls ! k)) \<and>
          lexical_value a (ls ! k) = Inr (getLexical (int k) frame'))
    | Inl e \<Rightarrow> e = Returned kRuntimeInvariant \<and>
        (\<exists>k < length ls. lexical_in (rev (m_callStack co)) (word_of_nat segment) (ls ! k) = Inl e)"
proof (cases "import_lexicals_into_frame B info co segment frame")
  case (Inl e)
  then have "import_lexicals (rev (m_callStack co)) (word_of_nat segment) 0 ls frame = Inl e"
    by (simp add: import_lexicals_into_frame_def table)
  from import_lexicals_fails [OF this] Inl show ?thesis by auto
next
  case (Inr frame')
  then have import_: "import_lexicals (rev (m_callStack co)) (word_of_nat segment) 0 ls frame = Inr frame'"
    by (simp add: import_lexicals_into_frame_def table)
  have "int (length ls) \<le> int (unat (m_numLexicals frame))" using frame(2) by (simp only: of_nat_le_iff)
  then have num: "int (length ls) \<le> uint (m_numLexicals frame)" by simp
  have "lexical_in (rev (m_callStack co)) (word_of_nat segment) (ls ! k) = Inr (getLexical (int k) frame')"
    if "k < length ls" for k
    using import_lexicals_values [OF import_ frame(1), of k] num that by simp
  then have "\<exists>a. find_ancestor (word_of_nat segment) (activation_call (ls ! k)) (rev (m_callStack co)) = Some a \<and>
      lexical_value a (ls ! k) = Inr (getLexical (int k) frame')" if "k < length ls" for k
    using that by (fastforce simp: lexical_in_def then_do_Inr or_else_fail_def split: option.splits)
  then show ?thesis
    using Inr import_lexicals_frame [OF import_ frame(1)] find_ancestor_latest by fastforce
qed

theorem lexicals_of_latest_activations_witness:
  "\<exists>frame'. import_lexicals_into_frame machine_bytes lexical_sample_info lexical_sample_coro 0
      (make_cell 5 0 0 0 empty_iterator True 0 0 0 0 1 []) = Inr frame' \<and>
    getLexical 0 frame' = fromU8 [0, 0, 0, 0, 0, 0, 0, 0] 7"
proof -
  let ?a = "make_cell 3 0 0 0 empty_iterator True 0 1 0 0 0 [fromU8 [0, 0, 0, 0, 0, 0, 0, 0] 7]"
  have calls: "rev (m_callStack lexical_sample_coro) = [?a]"
    by (simp add: lexical_sample_coro_def)
  have found: "lexical_in (rev (m_callStack lexical_sample_coro)) 0
      \<lparr>activation_call = 3, target_offset = 0, lexical_target = 1\<rparr> = Inr (fromU8 [0, 0, 0, 0, 0, 0, 0, 0] 7)"
    by (simp add: calls lexical_in_def lexical_value_def LEXICAL_ARGUMENT_def getArgument_def make_cell_def resize_def)
  have "\<exists>frame'. import_lexicals_into_frame machine_bytes lexical_sample_info lexical_sample_coro 0
      (make_cell 5 0 0 0 empty_iterator True 0 0 0 0 1 []) = Inr frame'"
    using found by (simp add: import_lexicals_into_frame_def lexical_sample_table import_lexicals_Cons)
  then show ?thesis
    using lexicals_of_latest_activations [OF lexical_sample_table make_cell_wf(1),
        of 5 0 0 0 empty_iterator True 0 0 0 0 1 "[]" lexical_sample_coro 0]
    by (fastforce simp: calls make_cell_def lexical_value_def LEXICAL_ARGUMENT_def getArgument_def resize_def
        append_eq_Cons_conv Cons_eq_append_conv)
qed

end
