(* ===== verification/TypeManager.thy ===== *)
theory TypeManager
  imports Segments
begin

text \<open>
  Types at run time: \<open>TypeManager\<close> (\<open>type_manager.cpp\<close>). The type of a value, and the comparison of
  two types by the descriptors they stand for, along the supertypes of the first.

  A type stands for the descriptor it names, through any number of other types, and has at most one
  supertype; both may lie in a segment that resolving them loads. Nothing keeps the chains from being
  circular: the functions that follow them give \<open>None\<close> when they do not return.

  The fields of \<open>type_env\<close>: the types of the intrinsic values (\<open>m_intrinsiccache\<close>), the type of the
  object at an address, and the descriptor entry at an address. Descriptor entries are compared by
  their addresses; a segment has one entry for each descriptor.
\<close>

datatype intrinsic_type =
    IntrinsicNil | IntrinsicUndef | IntrinsicBool | IntrinsicI64 | IntrinsicI32 | IntrinsicI16 | IntrinsicI8 |
    IntrinsicU64 | IntrinsicU32 | IntrinsicU16 | IntrinsicU8 | IntrinsicF64 | IntrinsicF32 | IntrinsicChar |
    IntrinsicString | IntrinsicBytes | IntrinsicAction | IntrinsicCall | IntrinsicClass | IntrinsicConcept |
    IntrinsicEnum | IntrinsicExistential | IntrinsicField | IntrinsicInstance | IntrinsicNamespace |
    IntrinsicProtocol | IntrinsicStruct

record type_env =
  te_endian :: endian_lib
  te_segments :: segment_env
  te_intrinsic :: "intrinsic_type \<Rightarrow> descriptor_ref"
  te_object_type :: "u64 \<Rightarrow> descriptor_ref"
  te_entry :: "u64 \<Rightarrow> descriptor_ref"

subsection \<open>The type of a value\<close>

fun descriptor_intrinsic :: "linkage_section \<Rightarrow> intrinsic_type option" where
  "descriptor_intrinsic LinkageAction = Some IntrinsicAction"
| "descriptor_intrinsic LinkageCall = Some IntrinsicCall"
| "descriptor_intrinsic LinkageClass = Some IntrinsicClass"
| "descriptor_intrinsic LinkageConcept = Some IntrinsicConcept"
| "descriptor_intrinsic LinkageEnum = Some IntrinsicEnum"
| "descriptor_intrinsic LinkageExistential = Some IntrinsicExistential"
| "descriptor_intrinsic LinkageField = Some IntrinsicField"
| "descriptor_intrinsic LinkageInstance = Some IntrinsicInstance"
| "descriptor_intrinsic LinkageNamespace = Some IntrinsicNamespace"
| "descriptor_intrinsic LinkageProtocol = Some IntrinsicProtocol"
| "descriptor_intrinsic LinkageStruct = Some IntrinsicStruct"
| "descriptor_intrinsic _ = None"

definition typeOf :: "type_env \<Rightarrow> operand \<Rightarrow> failure + descriptor_ref" where
  "typeOf T v =
    (let E = te_endian T; intrinsic = (\<lambda>i. Inr (te_intrinsic T i));
         object = (\<lambda>address. then_do (or_else_fail AssertionFailed address) (\<lambda>a. Inr (te_object_type T a)))
     in case getType v of
       TyNil \<Rightarrow> intrinsic IntrinsicNil
     | TyUndef \<Rightarrow> intrinsic IntrinsicUndef
     | TyBool \<Rightarrow> intrinsic IntrinsicBool
     | TyInt64 \<Rightarrow> intrinsic IntrinsicI64
     | TyInt32 \<Rightarrow> intrinsic IntrinsicI32
     | TyInt16 \<Rightarrow> intrinsic IntrinsicI16
     | TyInt8 \<Rightarrow> intrinsic IntrinsicI8
     | TyUInt64 \<Rightarrow> intrinsic IntrinsicU64
     | TyUInt32 \<Rightarrow> intrinsic IntrinsicU32
     | TyUInt16 \<Rightarrow> intrinsic IntrinsicU16
     | TyUInt8 \<Rightarrow> intrinsic IntrinsicU8
     | TyFloat64 \<Rightarrow> intrinsic IntrinsicF64
     | TyFloat32 \<Rightarrow> intrinsic IntrinsicF32
     | TyChar32 \<Rightarrow> intrinsic IntrinsicChar
     | TyString \<Rightarrow> intrinsic IntrinsicString
     | TyBytes \<Rightarrow> intrinsic IntrinsicBytes
     | TyRef \<Rightarrow> object (getRef E v)
     | TyStatus \<Rightarrow> object (getStatus E v)
     | TyProtocol \<Rightarrow> object (getProtocol E v)
     | TyDescriptor \<Rightarrow>
        then_do (or_else_fail AssertionFailed (getDescriptor E v)) (\<lambda>a.
          case te_entry T a of
            DescriptorRef i section index \<Rightarrow>
              then_do (or_else_fail (Returned kRuntimeInvariant) (descriptor_intrinsic section)) intrinsic
          | TypeRef i index \<Rightarrow> Inl (Returned kRuntimeInvariant))
     | _ \<Rightarrow> Inl (Returned kRuntimeInvariant))"

subsection \<open>Resolving types\<close>

definition type_at :: "nat \<Rightarrow> u32 \<Rightarrow> segment_data \<Rightarrow> type_descriptor option" where
  "type_at i index d =
    (let types = od_types (m_object (segment_at d i))
     in if unat index < length types then Some (types ! unat index) else None)"

text \<open>What a type says of itself: it names another type (\<open>Inl\<close>), a descriptor, or nothing concrete.\<close>

definition type_step ::
  "segment_env \<Rightarrow> descriptor_ref \<Rightarrow> segment_data \<Rightarrow>
    (failure + (descriptor_ref + descriptor_ref option)) \<times> segment_data" where
  "type_step N t d =
    (case t of
       DescriptorRef i section index \<Rightarrow> (Inl (Returned kRuntimeInvariant), d)
     | TypeRef i index \<Rightarrow>
        (case type_at i index d of
           None \<Rightarrow> (Inl (Returned kRuntimeInvariant), d)
         | Some (NotConcrete super) \<Rightarrow> (Inr (Inr None), d)
         | Some (Concrete section ci super) \<Rightarrow>
            if section = LinkageInvalid then (Inl (Returned kRuntimeInvariant), d)
            else if section = LinkageType then
              apfst (map_sum id Inl)
                (if IS_NEAR ci then lookup_in i (lookupType ci) (TypeRef i) d
                 else resolve_descriptor N i section ci d)
            else apfst (map_sum id (\<lambda>x. Inr (Some x))) (resolve_descriptor N i section ci d)))"

partial_function (option) resolve_type_to_descriptor ::
  "segment_env \<Rightarrow> descriptor_ref \<Rightarrow> segment_data \<Rightarrow> ((failure + descriptor_ref option) \<times> segment_data) option" where
  "resolve_type_to_descriptor N t d =
    (case type_step N t d of
       (Inl e, d) \<Rightarrow> Some (Inl e, d)
     | (Inr (Inl t'), d) \<Rightarrow> resolve_type_to_descriptor N t' d
     | (Inr (Inr x), d) \<Rightarrow> Some (Inr x, d))"

definition resolve_super_type ::
  "segment_env \<Rightarrow> descriptor_ref \<Rightarrow> segment_data \<Rightarrow> (failure + descriptor_ref option) \<times> segment_data" where
  "resolve_super_type N t d =
    (case t of
       DescriptorRef i section index \<Rightarrow> (Inl (Returned kRuntimeInvariant), d)
     | TypeRef i index \<Rightarrow>
        (case type_at i index d of
           None \<Rightarrow> (Inl (Returned kRuntimeInvariant), d)
         | Some descriptor \<Rightarrow>
            (case type_super descriptor of
               None \<Rightarrow> (Inr None, d)
             | Some super \<Rightarrow> apfst (map_sum id Some) (resolve_descriptor N i LinkageType super d))))"

subsection \<open>Comparison\<close>

datatype type_comparison = CompareEqual | CompareExtends | CompareSuper | CompareDisjoint

text \<open>The descriptor of a type must be one.\<close>

definition descriptor_of ::
  "segment_env \<Rightarrow> descriptor_ref \<Rightarrow> segment_data \<Rightarrow> ((failure + descriptor_ref) \<times> segment_data) option" where
  "descriptor_of N t d =
    map_option (apfst (\<lambda>r. then_do r (or_else_fail (Returned kRuntimeInvariant)))) (resolve_type_to_descriptor N t d)"

text \<open>The loop over the supertypes of \<open>t\<close>.\<close>

partial_function (option) search_supers ::
  "segment_env \<Rightarrow> descriptor_ref \<Rightarrow> descriptor_ref \<Rightarrow> segment_data \<Rightarrow> ((failure + type_comparison) \<times> segment_data) option" where
  "search_supers N t rd d =
    (case resolve_super_type N t d of
       (Inl e, d) \<Rightarrow> Some (Inl e, d)
     | (Inr None, d) \<Rightarrow> Some (Inr CompareDisjoint, d)
     | (Inr (Some super), d) \<Rightarrow>
        (case descriptor_of N super d of
           None \<Rightarrow> None
         | Some (Inl e, d) \<Rightarrow> Some (Inl e, d)
         | Some (Inr ld, d) \<Rightarrow>
            if ld = rd then Some (Inr CompareExtends, d) else search_supers N super rd d))"

definition compareTypes ::
  "segment_env \<Rightarrow> descriptor_ref \<Rightarrow> descriptor_ref \<Rightarrow> segment_data \<Rightarrow> ((failure + type_comparison) \<times> segment_data) option" where
  "compareTypes N lhs rhs d =
    (case descriptor_of N lhs d of
       None \<Rightarrow> None
     | Some (Inl e, d) \<Rightarrow> Some (Inl e, d)
     | Some (Inr ld, d) \<Rightarrow>
        (case descriptor_of N rhs d of
           None \<Rightarrow> None
         | Some (Inl e, d) \<Rightarrow> Some (Inl e, d)
         | Some (Inr rd, d) \<Rightarrow>
            if ld = rd then Some (Inr CompareEqual, d) else search_supers N lhs rd d))"

end
