(* ===== verification/TypeManagerLaws.thy ===== *)
theory TypeManagerLaws
  imports TypeManager SegmentsLaws
begin

text \<open>
  The comparison of types. \<open>denotes\<close> and \<open>supertype\<close> say what a type stands for and which type it
  extends in a state; both are stable: what has been resolved is resolved the same way in every later
  state. So the comparison, which resolves on the way, can be read in the state that it leaves.
\<close>

definition valid_type :: "segment_data \<Rightarrow> descriptor_ref \<Rightarrow> bool" where
  "valid_type d t \<longleftrightarrow> ref_segment t < length (sd_segments d)"

definition denotes :: "segment_env \<Rightarrow> segment_data \<Rightarrow> descriptor_ref \<Rightarrow> descriptor_ref \<Rightarrow> bool" where
  "denotes N d t x \<longleftrightarrow> (\<exists>d'. resolve_type_to_descriptor N t d = Some (Inr (Some x), d'))"

definition supertype :: "segment_env \<Rightarrow> segment_data \<Rightarrow> descriptor_ref \<Rightarrow> descriptor_ref \<Rightarrow> bool" where
  "supertype N d t t' \<longleftrightarrow> (\<exists>d'. resolve_super_type N t d = (Inr (Some t'), d'))"

lemma valid_type_extends: "valid_type d t \<Longrightarrow> extends d d' \<Longrightarrow> valid_type d' t"
  by (simp add: valid_type_def extends_def)

lemma extends_object: "extends d d' \<Longrightarrow> i < length (sd_segments d) \<Longrightarrow>
    m_object (segment_at d' i) = m_object (segment_at d i)"
  by (simp add: extends_def same_segment_def)

lemma type_at_extends: "extends d d' \<Longrightarrow> i < length (sd_segments d) \<Longrightarrow> type_at i index d' = type_at i index d"
  by (simp add: type_at_def extends_object)

subsection \<open>Resolving again\<close>

lemma lookup_in_Inr:
  assumes "lookup = lookupType v \<or> lookup = lookupDescriptor sec v"
    and "lookup_in i lookup ref d = (Inr x, d1)" "extends d d2" "i < length (sd_segments d)"
  shows "\<exists>d3. lookup_in i lookup ref d2 = (Inr x, d3)"
proof -
  have "m_object (segment_at d2 i) = m_object (segment_at d i)"
    using extends_object [OF assms(3,4)] .
  then show ?thesis
    using assms(1,2) by (auto simp: lookup_in_def lookupType_def lookupDescriptor_def table_lookup_def Let_def
        split: if_splits prod.splits sum.splits option.splits)
qed

lemma lookup_in_ref:
  assumes "lookup_in i lookup ref d = (Inr x, d1)"
  shows "\<exists>v. x = ref v" "length (sd_segments d1) = length (sd_segments d)"
  using assms by (auto simp: lookup_in_def split: prod.splits sum.splits option.splits)

lemma getLink_extends:
  "getLink index (segment_at d sp) = Some e \<Longrightarrow> link_section e \<noteq> LinkageInvalid \<Longrightarrow> extends d d' \<Longrightarrow>
    sp < length (sd_segments d) \<Longrightarrow> getLink index (segment_at d' sp) = Some e"
  by (auto simp: getLink_def extends_def same_segment_def split: if_splits)

text \<open>The address, then the lookup.\<close>

definition descriptor_target ::
  "segment_env \<Rightarrow> nat \<Rightarrow> linkage_section \<Rightarrow> u32 \<Rightarrow> segment_data \<Rightarrow> (failure + nat \<times> u32) \<times> segment_data" where
  "descriptor_target N sp sec address d =
    (if IS_NEAR address then (Inr (m_segmentIndex (segment_at d sp), GET_DESCRIPTOR_OFFSET address), d)
     else case resolve_link N sp (GET_LINK_OFFSET address) d of
       (Inl e, d) \<Rightarrow> (Inl e, d)
     | (Inr linkage, d) \<Rightarrow>
        if link_section linkage \<noteq> sec then (Inl (Returned kRuntimeInvariant), d)
        else (Inr (link_object linkage, link_value linkage), d))"

lemma resolve_descriptor_target:
  "resolve_descriptor N sp sec address d =
    (case descriptor_target N sp sec address d of
       (Inl e, d) \<Rightarrow> (Inl e, d)
     | (Inr (i, v), d) \<Rightarrow>
        if length (sd_segments d) \<le> i then (Inl UndefinedBehaviour, d)
        else if sec = LinkageType then lookup_in i (lookupType v) (TypeRef i) d
        else lookup_in i (lookupDescriptor sec v) (DescriptorRef i sec) d)"
  by (simp add: resolve_descriptor_def descriptor_target_def)

lemma descriptor_target_ok:
  assumes ok: "segments_ok N d" "sp < length (sd_segments d)" and r: "descriptor_target N sp sec address d = (r, d1)"
  shows "segments_ok N d1" "extends d d1"
  using resolve_link_ok [OF ok, of "GET_LINK_OFFSET address"] r ok(1)
  by (auto simp: descriptor_target_def split: if_splits prod.splits sum.splits)

lemma descriptor_target_again:
  assumes ok: "segments_ok N d" "sp < length (sd_segments d)"
    and r: "descriptor_target N sp sec address d = (Inr p, d1)" "sec \<noteq> LinkageInvalid"
    and ext: "extends d1 d2"
  shows "descriptor_target N sp sec address d2 = (Inr p, d2)"
proof (cases "IS_NEAR address")
  case True
  with r have "d1 = d" "p = (m_segmentIndex (segment_at d sp), GET_DESCRIPTOR_OFFSET address)"
    by (auto simp: descriptor_target_def)
  then show ?thesis
    using True ext ok(2) by (auto simp: descriptor_target_def extends_def same_segment_def)
next
  case False
  then obtain e where e: "resolve_link N sp (GET_LINK_OFFSET address) d = (Inr e, d1)" "link_section e = sec"
    "p = (link_object e, link_value e)"
    using r(1) by (auto simp: descriptor_target_def split: prod.splits sum.splits if_splits)
  have get: "getLink (GET_LINK_OFFSET address) (segment_at d1 sp) = Some e" "extends d d1"
    using resolve_link_ok [OF ok, of "GET_LINK_OFFSET address"] e(1) by simp_all
  then have "sp < length (sd_segments d1)" using ok(2) by (simp add: extends_def)
  then have "resolve_link N sp (GET_LINK_OFFSET address) d2 = (Inr e, d2)"
    using getLink_extends [OF get(1) _ ext] resolve_link_again e(2) r(2) by blast
  then show ?thesis using False e by (simp add: descriptor_target_def)
qed

lemma resolve_descriptor_again:
  assumes ok: "segments_ok N d" "sp < length (sd_segments d)"
    and r: "resolve_descriptor N sp sec address d = (Inr x, d1)" "sec \<noteq> LinkageInvalid"
    and ext: "extends d1 d2"
  shows "\<exists>d3. resolve_descriptor N sp sec address d2 = (Inr x, d3)"
    "ref_segment x < length (sd_segments d1)" "sec = LinkageType \<Longrightarrow> \<exists>i v. x = TypeRef i v"
proof -
  obtain i v d0 where t: "descriptor_target N sp sec address d = (Inr (i, v), d0)" "i < length (sd_segments d0)"
    and l: "(if sec = LinkageType then lookup_in i (lookupType v) (TypeRef i) d0
      else lookup_in i (lookupDescriptor sec v) (DescriptorRef i sec) d0) = (Inr x, d1)"
    using r(1) by (auto simp: resolve_descriptor_target split: prod.splits sum.splits if_splits)
  have d0: "segments_ok N d0" "extends d0 d1"
    using descriptor_target_ok [OF ok t(1)] lookup_in_ok [of N d0 i _ v sec] l t(2)
    by (auto split: if_splits) (metis snd_conv)+
  have e2: "extends d0 d2" using extends_trans [OF d0(2) ext] .
  have i2: "\<not> length (sd_segments d2) \<le> i" using e2 t(2) by (simp add: extends_def)
  note t2 = descriptor_target_again [OF ok t(1) r(2) e2]
  show "\<exists>d3. resolve_descriptor N sp sec address d2 = (Inr x, d3)"
    using l lookup_in_Inr [OF disjI1 [OF refl] _ e2 t(2)] lookup_in_Inr [OF disjI2 [OF refl] _ e2 t(2)] i2
    by (auto simp: resolve_descriptor_target t2 split: if_splits)
  show "ref_segment x < length (sd_segments d1)" "sec = LinkageType \<Longrightarrow> \<exists>i v. x = TypeRef i v"
    using l lookup_in_ref t(2) by (fastforce split: if_splits)+
qed

subsection \<open>Steps between types\<close>

text \<open>The types that following a type can lead to, in the present state or a later one.\<close>

definition type_next :: "segment_env \<Rightarrow> segment_data \<Rightarrow> descriptor_ref \<Rightarrow> descriptor_ref \<Rightarrow> bool" where
  "type_next N d0 t t' \<longleftrightarrow> (\<exists>d d'. segments_ok N d \<and> extends d0 d \<and>
    (type_step N t d = (Inr (Inl t'), d') \<or> resolve_super_type N t d = (Inr (Some t'), d')))"

text \<open>No infinite chain of types starts at \<open>t\<close>.\<close>

abbreviation acyclic_type :: "segment_env \<Rightarrow> segment_data \<Rightarrow> descriptor_ref \<Rightarrow> bool" where
  "acyclic_type N d0 t \<equiv> Wellfounded.accp (\<lambda>t' t. type_next N d0 t t') t"

lemma type_step_ok:
  assumes ok: "segments_ok N d" "valid_type d t" and r: "type_step N t d = (r, d')"
  shows "segments_ok N d' \<and> extends d d'" "r = Inr (Inl t') \<Longrightarrow> valid_type d' t'"
proof -
  have "segments_ok N d' \<and> extends d d' \<and> (\<forall>t'. r = Inr (Inl t') \<longrightarrow> valid_type d' t')"
  proof (cases t)
    case (DescriptorRef i s v)
    then show ?thesis using r ok by (auto simp: type_step_def)
  next
    case (TypeRef i v)
    then have i: "i < length (sd_segments d)" using ok(2) by (simp add: valid_type_def)
    show ?thesis
    proof (cases "\<exists>s c u. type_at i v d = Some (Concrete s c u) \<and> s \<noteq> LinkageInvalid")
      case False
      then show ?thesis
        using r ok TypeRef by (auto simp: type_step_def split: option.splits type_descriptor.splits if_splits)
    next
      case True
      then obtain s c u where at: "type_at i v d = Some (Concrete s c u)" "s \<noteq> LinkageInvalid" by blast
      obtain q d1 where q: "resolve_descriptor N i s c d = (q, d1)" by fastforce
      obtain p d2 where p: "lookup_in i (lookupType c) (TypeRef i) d = (p, d2)" by fastforce
      have d1: "segments_ok N d1" "extends d d1" using resolve_descriptor_ok [OF ok(1) i, of s c] q by simp_all
      have d2: "segments_ok N d2" "extends d d2" using lookup_in_ok [OF ok(1) i, of _ c s] p by (metis snd_conv)+
      have "q = Inr x \<Longrightarrow> valid_type d1 x" for x
        using resolve_descriptor_again(2) [OF ok(1) i _ at(2) extends_refl] q by (simp add: valid_type_def)
      moreover have "p = Inr x \<Longrightarrow> valid_type d2 x" for x
        using lookup_in_ref [of i "lookupType c" "TypeRef i" d x d2] p i by (auto simp: valid_type_def)
      ultimately show ?thesis
        using r TypeRef at d1 d2 p q by (cases p; cases q) (auto simp: type_step_def split: if_splits)
    qed
  qed
  then show "segments_ok N d' \<and> extends d d'" "r = Inr (Inl t') \<Longrightarrow> valid_type d' t'" by blast+
qed

lemma super_ok:
  assumes ok: "segments_ok N d" "valid_type d t" and r: "resolve_super_type N t d = (r, d')"
  shows "segments_ok N d' \<and> extends d d'" "r = Inr (Some t') \<Longrightarrow> valid_type d' t'"
proof -
  have "segments_ok N d' \<and> extends d d' \<and> (\<forall>t'. r = Inr (Some t') \<longrightarrow> valid_type d' t')"
  proof (cases t)
    case (DescriptorRef i s v)
    then show ?thesis using r ok by (auto simp: resolve_super_type_def)
  next
    case (TypeRef i v)
    then have i: "i < length (sd_segments d)" using ok(2) by (simp add: valid_type_def)
    show ?thesis
    proof (cases "\<exists>x u. type_at i v d = Some x \<and> type_super x = Some u")
      case False
      then show ?thesis using r ok TypeRef by (auto simp: resolve_super_type_def split: option.splits)
    next
      case True
      then obtain x u where at: "type_at i v d = Some x" "type_super x = Some u" by blast
      obtain q d1 where q: "resolve_descriptor N i LinkageType u d = (q, d1)" by fastforce
      have d1: "segments_ok N d1" "extends d d1" using resolve_descriptor_ok [OF ok(1) i, of LinkageType u] q by simp_all
      have "q = Inr x \<Longrightarrow> valid_type d1 x" for x
        using resolve_descriptor_again(2) [OF ok(1) i _ _ extends_refl] q by (simp add: valid_type_def)
      then show ?thesis
        using r TypeRef at d1 q by (cases q) (auto simp: resolve_super_type_def)
    qed
  qed
  then show "segments_ok N d' \<and> extends d d'" "r = Inr (Some t') \<Longrightarrow> valid_type d' t'" by blast+
qed

lemma type_step_again:
  assumes ok: "segments_ok N d" "valid_type d t" and r: "type_step N t d = (Inr x, d')" and ext: "extends d' d2"
  shows "\<exists>d3. type_step N t d2 = (Inr x, d3)"
proof (cases t)
  case (DescriptorRef i s v)
  then show ?thesis using r by (simp add: type_step_def)
next
  case (TypeRef i v)
  then have i: "i < length (sd_segments d)" using ok(2) by (simp add: valid_type_def)
  have e: "extends d d2" using type_step_ok(1) [OF ok r] ext extends_trans by blast
  note at = type_at_extends [OF e i]
  show ?thesis
  proof (cases "\<exists>s c u. type_at i v d = Some (Concrete s c u) \<and> s \<noteq> LinkageInvalid")
    case False
    then show ?thesis
      using r TypeRef by (auto simp: type_step_def at split: option.splits type_descriptor.splits if_splits)
  next
    case True
    then obtain s c u where c: "type_at i v d = Some (Concrete s c u)" "s \<noteq> LinkageInvalid" by blast
    have near: "lookup_in i (lookupType c) (TypeRef i) d = (Inr y, d') \<Longrightarrow> \<exists>d3. lookup_in i (lookupType c) (TypeRef i) d2 = (Inr y, d3)" for y
      using lookup_in_Inr [OF disjI1 [OF refl] _ e i] by blast
    have far: "resolve_descriptor N i s c d = (Inr y, d') \<Longrightarrow> \<exists>d3. resolve_descriptor N i s c d2 = (Inr y, d3)" for y
      using resolve_descriptor_again(1) [OF ok(1) i _ c(2) ext] by blast
    obtain q d1 where q: "resolve_descriptor N i s c d = (q, d1)" by fastforce
    obtain p d0 where p: "lookup_in i (lookupType c) (TypeRef i) d = (p, d0)" by fastforce
    show ?thesis
      using r TypeRef c at near far p q
      by (cases p; cases q) (fastforce simp: type_step_def split: if_splits)+
  qed
qed

lemma super_again:
  assumes ok: "segments_ok N d" "valid_type d t" and r: "resolve_super_type N t d = (Inr x, d')" and ext: "extends d' d2"
  shows "\<exists>d3. resolve_super_type N t d2 = (Inr x, d3)"
proof (cases t)
  case (DescriptorRef i s v)
  then show ?thesis using r by (simp add: resolve_super_type_def)
next
  case (TypeRef i v)
  then have i: "i < length (sd_segments d)" using ok(2) by (simp add: valid_type_def)
  have e: "extends d d2" using super_ok(1) [OF ok r] ext extends_trans by blast
  note at = type_at_extends [OF e i]
  have far: "resolve_descriptor N i LinkageType u d = (Inr y, d') \<Longrightarrow> \<exists>d3. resolve_descriptor N i LinkageType u d2 = (Inr y, d3)" for y u
    using resolve_descriptor_again(1) [OF ok(1) i _ _ ext] by blast
  show ?thesis
  proof (cases "\<exists>x u. type_at i v d = Some x \<and> type_super x = Some u")
    case False
    then show ?thesis using r TypeRef by (auto simp: resolve_super_type_def at split: option.splits)
  next
    case True
    then obtain y u where c: "type_at i v d = Some y" "type_super y = Some u" by blast
    obtain q d1 where q: "resolve_descriptor N i LinkageType u d = (q, d1)" by fastforce
    show ?thesis
      using r TypeRef c at far [of u] q by (cases q) (fastforce simp: resolve_super_type_def)+
  qed
qed

subsection \<open>Following types\<close>

definition resolved_ok ::
  "segment_env \<Rightarrow> descriptor_ref \<Rightarrow> segment_data \<Rightarrow> (failure + descriptor_ref option) \<times> segment_data \<Rightarrow> bool" where
  "resolved_ok N t d rd \<longleftrightarrow> (segments_ok N d \<longrightarrow> valid_type d t \<longrightarrow>
    segments_ok N (snd rd) \<and> extends d (snd rd) \<and>
    (\<forall>x d2. fst rd = Inr x \<longrightarrow> segments_ok N d2 \<longrightarrow> extends (snd rd) d2 \<longrightarrow>
      (\<exists>d3. resolve_type_to_descriptor N t d2 = Some (Inr x, d3))))"

lemma resolve_ok: "resolve_type_to_descriptor N t d = Some rd \<Longrightarrow> resolved_ok N t d rd"
proof (rule resolve_type_to_descriptor.raw_induct [of resolved_ok])
  fix f N t d rd
  assume IH: "\<And>N t d rd. f N t d = Some rd \<Longrightarrow> resolved_ok N t d rd"
    and body: "(case type_step N t d of (Inl e, d) \<Rightarrow> Some (Inl e, d)
      | (Inr (Inl t'), d) \<Rightarrow> f N t' d | (Inr (Inr x), d) \<Rightarrow> Some (Inr x, d)) = Some rd"
  show "resolved_ok N t d rd"
    unfolding resolved_ok_def
  proof (intro impI)
    assume ok: "segments_ok N d" "valid_type d t"
    obtain q d1 where q: "type_step N t d = (q, d1)" by fastforce
    note step = type_step_ok [OF ok q] and again = type_step_again [OF ok]
    consider e where "q = Inl e" "rd = (Inl e, d1)" | x where "q = Inr (Inr x)" "rd = (Inr x, d1)"
      | t' where "q = Inr (Inl t')" "f N t' d1 = Some rd"
      using body q by (auto split: sum.splits)
    then show "segments_ok N (snd rd) \<and> extends d (snd rd) \<and>
      (\<forall>x d2. fst rd = Inr x \<longrightarrow> segments_ok N d2 \<longrightarrow> extends (snd rd) d2 \<longrightarrow>
        (\<exists>d3. resolve_type_to_descriptor N t d2 = Some (Inr x, d3)))"
    proof cases
      case 1
      then show ?thesis using step(1) by simp
    next
      case (2 x)
      have "\<exists>d3. resolve_type_to_descriptor N t d2 = Some (Inr x, d3)" if "extends d1 d2" for d2
        using again [OF q [unfolded 2] that] by (auto simp: resolve_type_to_descriptor.simps [of N t])
      then show ?thesis using step(1) 2 by simp
    next
      case (3 t')
      have IH: "segments_ok N (snd rd) \<and> extends d1 (snd rd) \<and>
          (\<forall>x d2. fst rd = Inr x \<longrightarrow> segments_ok N d2 \<longrightarrow> extends (snd rd) d2 \<longrightarrow>
            (\<exists>d3. resolve_type_to_descriptor N t' d2 = Some (Inr x, d3)))"
        using IH [OF 3(2)] step(1) step(2) [OF 3(1)] unfolding resolved_ok_def by blast
      have "\<exists>d3. resolve_type_to_descriptor N t d2 = Some (Inr x, d3)"
        if x: "fst rd = Inr x" "segments_ok N d2" "extends (snd rd) d2" for x d2
      proof -
        have "extends d1 d2" using IH x(3) extends_trans by blast
        then obtain d3 where d3: "type_step N t d2 = (Inr (Inl t'), d3)" using again [OF q [unfolded 3]] by blast
        have "valid_type d2 t"
          using valid_type_extends [OF ok(2)] step(1) \<open>extends d1 d2\<close> extends_trans by blast
        then have "segments_ok N d3" "extends d2 d3" using type_step_ok [OF x(2) _ d3] by blast+
        then obtain d4 where "resolve_type_to_descriptor N t' d3 = Some (Inr x, d4)"
          using IH x extends_trans by blast
        then show ?thesis using d3 by (auto simp: resolve_type_to_descriptor.simps [of N t])
      qed
      then show ?thesis using IH step(1) extends_trans by blast
    qed
  qed
qed

lemma resolve_returns:
  assumes "acyclic_type N d0 t" "segments_ok N d" "extends d0 d" "valid_type d t"
  shows "\<exists>rd. resolve_type_to_descriptor N t d = Some rd"
  using assms
proof (induction t arbitrary: d rule: accp.induct)
  case (accI t)
  obtain q d1 where q: "type_step N t d = (q, d1)" by fastforce
  note step = type_step_ok [OF accI.prems(1,3) q]
  show ?case
  proof (cases "\<exists>t'. q = Inr (Inl t')")
    case True
    then obtain t' where t': "q = Inr (Inl t')" by blast
    have "type_next N d0 t t'" using accI.prems q t' by (auto simp: type_next_def)
    then show ?thesis
      using accI.IH [of t' d1] step(1) step(2) [OF t'] extends_trans [OF accI.prems(2)] q t'
      by (auto simp: resolve_type_to_descriptor.simps [of N t])
  next
    case False
    then show ?thesis using q by (auto simp: resolve_type_to_descriptor.simps [of N t] split: sum.splits)
  qed
qed

lemma descriptor_of_ok:
  assumes "descriptor_of N t d = Some (r, d1)" "segments_ok N d" "valid_type d t"
  shows "segments_ok N d1" "extends d d1"
    "r = Inr x \<Longrightarrow> segments_ok N d2 \<Longrightarrow> extends d1 d2 \<Longrightarrow> denotes N d2 t x"
proof -
  obtain q where q: "resolve_type_to_descriptor N t d = Some (q, d1)"
    "r = then_do q (or_else_fail (Returned kRuntimeInvariant))"
    using assms(1) by (auto simp: descriptor_of_def)
  note ok = resolve_ok [OF q(1), unfolded resolved_ok_def, rule_format, OF assms(2,3)]
  show "segments_ok N d1" "extends d d1" using ok by simp_all
  assume "r = Inr x" "segments_ok N d2" "extends d1 d2"
  then show "denotes N d2 t x"
    using ok q(2) by (auto simp: denotes_def then_do_def or_else_fail_def split: sum.splits option.splits)
qed

lemma descriptor_of_returns:
  "acyclic_type N d0 t \<Longrightarrow> segments_ok N d \<Longrightarrow> extends d0 d \<Longrightarrow> valid_type d t \<Longrightarrow> \<exists>r d1. descriptor_of N t d = Some (r, d1)"
  using resolve_returns by (fastforce simp: descriptor_of_def)

subsection \<open>Following supertypes\<close>

definition extends_type :: "segment_env \<Rightarrow> segment_data \<Rightarrow> descriptor_ref \<Rightarrow> descriptor_ref \<Rightarrow> bool" where
  "extends_type N d t rd \<longleftrightarrow> (\<exists>u. (supertype N d)\<^sup>+\<^sup>+ t u \<and> denotes N d u rd)"

definition disjoint_type :: "segment_env \<Rightarrow> segment_data \<Rightarrow> descriptor_ref \<Rightarrow> descriptor_ref \<Rightarrow> bool" where
  "disjoint_type N d t rd \<longleftrightarrow> (\<forall>u. (supertype N d)\<^sup>+\<^sup>+ t u \<longrightarrow> (\<exists>z. denotes N d u z \<and> z \<noteq> rd))"

lemma supertype_unique: "supertype N d t u \<Longrightarrow> supertype N d t v \<Longrightarrow> u = v"
  by (auto simp: supertype_def)

lemma extends_type_step:
  assumes "supertype N d t u"
  shows "denotes N d u rd \<or> extends_type N d u rd \<Longrightarrow> extends_type N d t rd"
    "denotes N d u z \<Longrightarrow> z \<noteq> rd \<Longrightarrow> disjoint_type N d u rd \<Longrightarrow> disjoint_type N d t rd"
proof -
  show "denotes N d u rd \<or> extends_type N d u rd \<Longrightarrow> extends_type N d t rd"
    using assms by (auto simp: extends_type_def intro: tranclp_into_tranclp2)
  show "disjoint_type N d t rd" if z: "denotes N d u z" "z \<noteq> rd" and disj: "disjoint_type N d u rd"
    unfolding disjoint_type_def
  proof (intro allI impI)
    fix v assume "(supertype N d)\<^sup>+\<^sup>+ t v"
    then have "u = v \<or> (supertype N d)\<^sup>+\<^sup>+ u v"
      using supertype_unique [OF assms] by (blast dest: tranclpD rtranclpD)
    then show "\<exists>z. denotes N d v z \<and> z \<noteq> rd"
      using z disj unfolding disjoint_type_def by blast
  qed
qed

lemma no_supertype:
  assumes "resolve_super_type N t d = (Inr None, d')"
  shows "disjoint_type N d t rd"
  unfolding disjoint_type_def
proof (intro allI impI)
  fix u assume "(supertype N d)\<^sup>+\<^sup>+ t u"
  then obtain v where "supertype N d t v" by (blast dest: tranclpD)
  then show "\<exists>z. denotes N d u z \<and> z \<noteq> rd" using assms by (simp add: supertype_def)
qed

definition search_ok ::
  "segment_env \<Rightarrow> descriptor_ref \<Rightarrow> descriptor_ref \<Rightarrow> segment_data \<Rightarrow> (failure + type_comparison) \<times> segment_data \<Rightarrow> bool" where
  "search_ok N t rd d q \<longleftrightarrow> (segments_ok N d \<longrightarrow> valid_type d t \<longrightarrow>
    segments_ok N (snd q) \<and> extends d (snd q) \<and>
    (\<forall>d2. segments_ok N d2 \<longrightarrow> extends (snd q) d2 \<longrightarrow>
      (case fst q of
         Inr CompareExtends \<Rightarrow> extends_type N d2 t rd
       | Inr CompareDisjoint \<Rightarrow> disjoint_type N d2 t rd
       | Inr _ \<Rightarrow> False
       | Inl _ \<Rightarrow> True)))"

lemma search_supers_ok: "search_supers N t rd d = Some q \<Longrightarrow> search_ok N t rd d q"
proof (rule search_supers.raw_induct [of search_ok])
  fix f N t rd d q
  assume IH: "\<And>N t rd d q. f N t rd d = Some q \<Longrightarrow> search_ok N t rd d q"
    and body: "(case resolve_super_type N t d of (Inl e, d) \<Rightarrow> Some (Inl e, d)
      | (Inr None, d) \<Rightarrow> Some (Inr CompareDisjoint, d)
      | (Inr (Some super), d) \<Rightarrow> (case descriptor_of N super d of None \<Rightarrow> None | Some (Inl e, d) \<Rightarrow> Some (Inl e, d)
        | Some (Inr ld, d) \<Rightarrow> if ld = rd then Some (Inr CompareExtends, d) else f N super rd d)) = Some q"
  show "search_ok N t rd d q"
    unfolding search_ok_def
  proof (intro impI)
    assume ok: "segments_ok N d" "valid_type d t"
    obtain s d1 where s: "resolve_super_type N t d = (s, d1)" by fastforce
    note step = super_ok [OF ok s] and again = super_again [OF ok]
    show "segments_ok N (snd q) \<and> extends d (snd q) \<and> (\<forall>d2. segments_ok N d2 \<longrightarrow> extends (snd q) d2 \<longrightarrow>
      (case fst q of Inr CompareExtends \<Rightarrow> extends_type N d2 t rd | Inr CompareDisjoint \<Rightarrow> disjoint_type N d2 t rd
        | Inr _ \<Rightarrow> False | Inl _ \<Rightarrow> True))"
    proof (cases "\<exists>u. s = Inr (Some u)")
      case False
      then consider e where "s = Inl e" "q = (Inl e, d1)" | "s = Inr None" "q = (Inr CompareDisjoint, d1)"
        using body s by (cases s) (auto split: option.splits)
      then show ?thesis
      proof cases
        case 2
        then show ?thesis using step(1) again [OF s [unfolded 2]] no_supertype by fastforce
      qed (use step(1) in simp)
    next
      case True
      then obtain u where u: "s = Inr (Some u)" by blast
      have super: "supertype N d2 t u" if "extends d1 d2" for d2
        using again [OF s [unfolded u] that] by (auto simp: supertype_def)
      obtain p d2 where p: "descriptor_of N u d1 = Some (p, d2)"
        using body s u by (auto split: option.splits)
      note d2 = descriptor_of_ok [OF p conjunct1 [OF step(1)] step(2) [OF u]]
      have e2: "extends d d2" using step(1) d2(2) extends_trans by blast
      consider e where "p = Inl e" "q = (Inl e, d2)" | "p = Inr rd" "q = (Inr CompareExtends, d2)"
        | ld where "p = Inr ld" "ld \<noteq> rd" "f N u rd d2 = Some q"
        using body s u p by (auto split: sum.splits if_splits)
      then show ?thesis
      proof cases
        case 1
        then show ?thesis using d2(1) e2 by simp
      next
        case 2
        have "extends_type N d3 t rd" if "segments_ok N d3" "extends d2 d3" for d3
          using extends_type_step(1) [OF super] d2(3) [OF 2(1) that] extends_trans [OF d2(2) that(2)] by blast
        then show ?thesis using 2 d2(1) e2 by simp
      next
        case (3 ld)
        have IH: "segments_ok N (snd q)" "extends d2 (snd q)"
          "\<And>d3. segments_ok N d3 \<Longrightarrow> extends (snd q) d3 \<Longrightarrow> (case fst q of Inr CompareExtends \<Rightarrow> extends_type N d3 u rd
            | Inr CompareDisjoint \<Rightarrow> disjoint_type N d3 u rd | Inr _ \<Rightarrow> False | Inl _ \<Rightarrow> True)"
          using IH [OF 3(3)] d2(1) valid_type_extends [OF step(2) [OF u] d2(2)] unfolding search_ok_def by blast+
        have "(case fst q of Inr CompareExtends \<Rightarrow> extends_type N d3 t rd
            | Inr CompareDisjoint \<Rightarrow> disjoint_type N d3 t rd | Inr _ \<Rightarrow> False | Inl _ \<Rightarrow> True)"
          if d3: "segments_ok N d3" "extends (snd q) d3" for d3
        proof -
          have e3: "extends d2 d3" using IH(2) d3(2) extends_trans by blast
          note sup = super [OF extends_trans [OF d2(2) e3]]
          show ?thesis
            using IH(3) [OF d3] extends_type_step [OF sup] d2(3) [OF 3(1) d3(1) e3] 3(2)
            by (auto split: sum.splits type_comparison.splits)
        qed
        then show ?thesis using IH(1,2) e2 extends_trans by blast
      qed
    qed
  qed
qed

lemma search_returns:
  assumes "acyclic_type N d0 t" "segments_ok N d" "extends d0 d" "valid_type d t"
  shows "\<exists>q. search_supers N t rd d = Some q"
  using assms
proof (induction t arbitrary: d rule: accp.induct)
  case (accI t)
  obtain s d1 where s: "resolve_super_type N t d = (s, d1)" by fastforce
  note step = super_ok [OF accI.prems(1,3) s]
  show ?case
  proof (cases "\<exists>u. s = Inr (Some u)")
    case True
    then obtain u where u: "s = Inr (Some u)" by blast
    have next_: "type_next N d0 t u" using accI.prems s u by (auto simp: type_next_def)
    have d1: "segments_ok N d1" "extends d0 d1" "valid_type d1 u"
      using step(1) step(2) [OF u] extends_trans [OF accI.prems(2)] by blast+
    obtain r d2 where r: "descriptor_of N u d1 = Some (r, d2)"
      using descriptor_of_returns [OF accI.hyps [OF next_] d1] by blast
    note d2 = descriptor_of_ok [OF r d1(1,3)]
    show ?thesis
      using accI.IH [OF next_ d2(1)] extends_trans [OF d1(2) d2(2)] valid_type_extends [OF d1(3) d2(2)] s u r
      by (auto simp: search_supers.simps [of N t] split: sum.splits)
  next
    case False
    then show ?thesis using s by (auto simp: search_supers.simps [of N t] split: sum.splits option.splits)
  qed
qed

definition comparison_ok ::
  "segment_env \<Rightarrow> segment_data \<Rightarrow> descriptor_ref \<Rightarrow> descriptor_ref \<Rightarrow> failure + type_comparison \<Rightarrow> bool" where
  "comparison_ok N d lhs rhs r \<longleftrightarrow>
    (case r of
       Inr CompareEqual \<Rightarrow> \<exists>x. denotes N d lhs x \<and> denotes N d rhs x
     | Inr CompareExtends \<Rightarrow> \<exists>x y. denotes N d lhs x \<and> denotes N d rhs y \<and> x \<noteq> y \<and> extends_type N d lhs y
     | Inr CompareDisjoint \<Rightarrow> \<exists>x y. denotes N d lhs x \<and> denotes N d rhs y \<and> x \<noteq> y \<and> disjoint_type N d lhs y
     | Inr CompareSuper \<Rightarrow> False
     | Inl e \<Rightarrow> True)"

lemma compareTypes_ok:
  assumes "segments_ok N d" "valid_type d lhs" "valid_type d rhs"
    and "compareTypes N lhs rhs d = Some (r, d')"
  shows "segments_ok N d'" "extends d d'"
    "segments_ok N d3 \<Longrightarrow> extends d' d3 \<Longrightarrow> comparison_ok N d3 lhs rhs r"
proof -
  have "segments_ok N d' \<and> extends d d' \<and> (\<forall>d3. segments_ok N d3 \<longrightarrow> extends d' d3 \<longrightarrow> comparison_ok N d3 lhs rhs r)"
  proof -
    obtain p d1 where p: "descriptor_of N lhs d = Some (p, d1)"
      using assms(4) by (auto simp: compareTypes_def split: option.splits)
    note d1 = descriptor_of_ok [OF p assms(1,2)]
    show ?thesis
    proof (cases p)
      case (Inl e)
      then show ?thesis using assms(4) p d1(1,2) by (auto simp: compareTypes_def comparison_ok_def)
    next
      case (Inr ld)
      obtain q d2 where q: "descriptor_of N rhs d1 = Some (q, d2)"
        using assms(4) p Inr by (auto simp: compareTypes_def split: option.splits)
      note d2 = descriptor_of_ok [OF q d1(1) valid_type_extends [OF assms(3) d1(2)]]
      have e2: "extends d d2" using d1(2) d2(2) extends_trans by blast
      have ld: "denotes N d3 lhs ld" if "segments_ok N d3" "extends d2 d3" for d3
        using d1(3) [OF Inr that(1)] extends_trans [OF d2(2) that(2)] by blast
      show ?thesis
      proof (cases q)
        case (Inl e)
        then show ?thesis using assms(4) p q d2(1) e2 \<open>p = Inr ld\<close> by (auto simp: compareTypes_def comparison_ok_def)
      next
        case (Inr rd)
        note rd = d2(3) [OF Inr]
        show ?thesis
        proof (cases "ld = rd")
          case True
          then have "r = Inr CompareEqual" "d' = d2"
            using assms(4) p q \<open>p = Inr ld\<close> Inr by (simp_all add: compareTypes_def)
          then show ?thesis using d2(1) e2 ld rd True by (simp add: comparison_ok_def) blast
        next
          case False
          then have "search_supers N lhs rd d2 = Some (r, d')"
            using assms(4) p q \<open>p = Inr ld\<close> Inr by (simp add: compareTypes_def)
          note s = search_supers_ok [OF this, unfolded search_ok_def fst_conv snd_conv, rule_format,
              OF d2(1) valid_type_extends [OF assms(2) e2]]
          have d': "segments_ok N d'" "extends d2 d'" using s by blast+
          have "comparison_ok N d3 lhs rhs r" if d3: "segments_ok N d3" "extends d' d3" for d3
          proof -
            have "case r of Inr CompareExtends \<Rightarrow> extends_type N d3 lhs rd | Inr CompareDisjoint \<Rightarrow> disjoint_type N d3 lhs rd
                | Inr _ \<Rightarrow> False | Inl _ \<Rightarrow> True"
              using s d3 by blast
            then show ?thesis
              using ld [OF d3(1) extends_trans [OF d'(2) d3(2)]] rd [OF d3(1) extends_trans [OF d'(2) d3(2)]] False
              by (auto simp: comparison_ok_def split: sum.splits type_comparison.splits)
          qed
          then show ?thesis using d' extends_trans [OF e2 d'(2)] by blast
        qed
      qed
    qed
  qed
  then show "segments_ok N d'" "extends d d'"
    "segments_ok N d3 \<Longrightarrow> extends d' d3 \<Longrightarrow> comparison_ok N d3 lhs rhs r" by blast+
qed

lemma compareTypes_returns:
  assumes "segments_ok N d" "valid_type d lhs" "valid_type d rhs"
    and "extends d0 d" "acyclic_type N d0 lhs" "acyclic_type N d0 rhs"
  shows "\<exists>r d'. compareTypes N lhs rhs d = Some (r, d')"
proof -
  obtain p d1 where p: "descriptor_of N lhs d = Some (p, d1)"
    using descriptor_of_returns [OF assms(5,1,4) assms(2)] by blast
  note d1 = descriptor_of_ok [OF p assms(1,2)]
  have v1: "valid_type d1 rhs" using valid_type_extends [OF assms(3) d1(2)] .
  obtain q d2 where q: "descriptor_of N rhs d1 = Some (q, d2)"
    using descriptor_of_returns [OF assms(6) d1(1) extends_trans [OF assms(4) d1(2)] v1] by blast
  note d2 = descriptor_of_ok [OF q d1(1) v1]
  have e2: "extends d d2" using d1(2) d2(2) extends_trans by blast
  have "\<exists>r. search_supers N lhs rd d2 = Some r" for rd
    using search_returns [OF assms(5) d2(1) extends_trans [OF assms(4) e2] valid_type_extends [OF assms(2) e2]] .
  then show ?thesis
    using p q by (cases p; cases q) (auto simp: compareTypes_def)
qed

subsection \<open>A sample\<close>

text \<open>A module with two classes, the second a subclass of the first.\<close>

definition type_sample_object :: lyric_object where
  "type_sample_object = sample_object\<lparr>od_types := [Concrete LinkageClass 0 None, Concrete LinkageClass 1 (Some 0)],
     od_count := (\<lambda>_. 2)\<rparr>"

definition type_sample_env :: segment_env where
  "type_sample_env = sample_env\<lparr>load_module := (\<lambda>_ _. Some type_sample_object)\<rparr>"

definition type_sample :: segment_data where
  "type_sample = \<lparr>sd_segments = [new_segment 0 False ''a'' type_sample_object], sd_cache = [''a'' \<mapsto> 0]\<rparr>"

lemma type_sample_ok:
  "segments_ok type_sample_env type_sample" "valid_type type_sample (TypeRef 0 v)"
proof -
  have "type_sample = segment_step type_sample_env (GetOrLoad ''a'' None False) empty_segments"
    by (simp add: type_sample_def type_sample_env_def get_or_load_segment_def sample_env_def empty_segments_def
        plugin_accepts_def type_sample_object_def sample_object_def Let_def)
  then show "segments_ok type_sample_env type_sample"
    using segment_step_ok [OF empty_segments_ok, of "GetOrLoad ''a'' None False" type_sample_env] by simp
qed (simp add: valid_type_def type_sample_def)

lemmas type_sample_simps = type_sample_def type_sample_object_def sample_object_def segment_at_def new_segment_def
  type_at_def type_step_def resolve_super_type_def resolve_descriptor_def lookup_in_def lookupDescriptor_def
  lookupType_def table_lookup_def num_descriptors_def set_segment_def near_iff GET_DESCRIPTOR_OFFSET_def

text \<open>No chain of types is infinite in a state whose first segment has these two classes.\<close>

definition two_classes :: "segment_data \<Rightarrow> bool" where
  "two_classes d \<longleftrightarrow> 0 < length (sd_segments d) \<and> m_segmentIndex (segment_at d 0) = 0 \<and>
    type_at 0 0 d = Some (Concrete LinkageClass 0 None) \<and> type_at 0 1 d = Some (Concrete LinkageClass 1 (Some 0))"

lemma two_classes_extends: "two_classes d0 \<Longrightarrow> extends d0 d \<Longrightarrow> two_classes d"
  using type_at_extends [of d0 d 0] by (auto simp: two_classes_def extends_def same_segment_def)

lemma two_classes_next:
  assumes "type_next N d0 t t'" "two_classes d0"
  shows "t = TypeRef 0 0 \<Longrightarrow> False" "t = TypeRef 0 1 \<Longrightarrow> t' = TypeRef 0 0"
proof -
  obtain d d' where d: "extends d0 d" "type_step N t d = (Inr (Inl t'), d') \<or>
      resolve_super_type N t d = (Inr (Some t'), d')"
    using assms by (auto simp: type_next_def)
  note types = two_classes_extends [OF assms(2) d(1), unfolded two_classes_def]
  show "t = TypeRef 0 0 \<Longrightarrow> False"
    using d(2) types by (auto simp: type_step_def resolve_super_type_def dest!: arg_cong [of _ _ fst])
      (auto simp: map_sum_def split: sum.splits)
  show "t = TypeRef 0 1 \<Longrightarrow> t' = TypeRef 0 0"
    using d(2) types
    by (auto simp: type_step_def resolve_super_type_def resolve_descriptor_def near_iff GET_DESCRIPTOR_OFFSET_def
        lookup_in_def lookupType_def table_lookup_def Let_def dest!: arg_cong [of _ _ fst]
        split: if_splits sum.splits prod.splits option.splits)
qed

lemma two_classes_acyclic:
  assumes "two_classes d"
  shows "acyclic_type N d (TypeRef 0 0)" "acyclic_type N d (TypeRef 0 1)"
proof -
  show zero: "acyclic_type N d (TypeRef 0 0)"
    using two_classes_next(1) [OF _ assms] by (blast intro: accpI)
  show "acyclic_type N d (TypeRef 0 1)"
    using two_classes_next(2) [OF _ assms] zero by (metis accpI)
qed

lemma type_sample_types: "two_classes type_sample"
  by (simp add: two_classes_def type_sample_simps)

lemmas type_sample_acyclic = two_classes_acyclic [OF type_sample_types]

subsection \<open>Properties\<close>

text \<open>C14. A comparison that returns is right in the state that it leaves: the types are equal if they
  denote the same descriptor, the first extends the second if one of its supertypes does, and they are
  disjoint if none does. The result is never \<open>SUPER\<close>, and the segments are only extended.\<close>

theorem comparison_is_subtyping:
  assumes "segments_ok N d" "valid_type d lhs" "valid_type d rhs"
    and "compareTypes N lhs rhs d = Some (r, d')"
  shows "segments_ok N d' \<and> extends d d' \<and>
    (case r of
       Inr CompareEqual \<Rightarrow> \<exists>x. denotes N d' lhs x \<and> denotes N d' rhs x
     | Inr CompareExtends \<Rightarrow> \<exists>x y. denotes N d' lhs x \<and> denotes N d' rhs y \<and> x \<noteq> y \<and> extends_type N d' lhs y
     | Inr CompareDisjoint \<Rightarrow> \<exists>x y. denotes N d' lhs x \<and> denotes N d' rhs y \<and> x \<noteq> y \<and> disjoint_type N d' lhs y
     | Inr CompareSuper \<Rightarrow> False
     | Inl e \<Rightarrow> True)"
  using compareTypes_ok [OF assms] by (simp add: comparison_ok_def)

theorem comparison_is_subtyping_witness:
  "\<exists>d'. compareTypes type_sample_env (TypeRef 0 1) (TypeRef 0 0) type_sample = Some (Inr CompareExtends, d') \<and>
    (\<exists>y. denotes type_sample_env d' (TypeRef 0 0) y \<and> extends_type type_sample_env d' (TypeRef 0 1) y)"
proof -
  have "\<exists>d'. compareTypes type_sample_env (TypeRef 0 1) (TypeRef 0 0) type_sample = Some (Inr CompareExtends, d')"
    by (simp add: compareTypes_def descriptor_of_def resolve_type_to_descriptor.simps
        search_supers.simps [of _ "TypeRef 0 1"] type_sample_simps)
  then show ?thesis using comparison_is_subtyping [OF type_sample_ok(1) type_sample_ok(2,2)] by fastforce
qed

text \<open>C31. A comparison returns, whatever has to be loaded and linked on the way, if no infinite chain
  of named types and supertypes starts at either type.\<close>

theorem comparison_returns:
  assumes "segments_ok N d" "valid_type d lhs" "valid_type d rhs"
    and "acyclic_type N d lhs" "acyclic_type N d rhs"
  shows "\<exists>r d'. compareTypes N lhs rhs d = Some (r, d')"
  using compareTypes_returns [OF assms(1-3) extends_refl assms(4,5)] .

theorem comparison_returns_witness:
  "\<exists>r d'. compareTypes type_sample_env (TypeRef 0 1) (TypeRef 0 0) type_sample = Some (r, d')"
  using comparison_returns [OF type_sample_ok(1) type_sample_ok(2,2) type_sample_acyclic(2,1)] .

end
