(* ===== verification/Exceptions.thy ===== *)
theory Exceptions
  imports Subroutines TypeManager Procs
begin

text \<open>
  Exceptions: \<open>raise_exception\<close> (\<open>internal/raise_exception.cpp\<close>). The frames are searched from the top
  for a check whose interval holds the offset of the instruction and which has an exception of the
  raised type or of a supertype; the calls above are left on the way. The result is \<open>None\<close> when a
  comparison of types does not return.

  The offset is that of the raising instruction in every frame, also in those of its callers.
\<close>

record raise_env =
  re_calls :: call_env
  re_types :: type_env

text \<open>The entries of a proc's trailer.\<close>

definition handler_tables ::
  "bytes_lib \<Rightarrow> lyric_object \<Rightarrow> call_descriptor \<Rightarrow> failure + proc_check list \<times> proc_exception list" where
  "handler_tables B object call =
    then_do (parse_proc_info B (od_bytecode object) (cd_bytecode_offset call)) (\<lambda>info.
    then_do (parse_proc_trailer B info) (\<lambda>trailer.
    then_do (parse_checks_table B trailer) (\<lambda>checks.
    then_do (parse_exceptions_table B trailer) (\<lambda>exceptions. Inr (checks, exceptions)))))"

definition in_interval :: "u32 \<Rightarrow> proc_check \<Rightarrow> bool" where
  "in_interval offset check \<longleftrightarrow> check_interval_offset check \<le> offset \<and>
    offset < check_interval_offset check + check_interval_size check"

text \<open>The exceptions of a check, from index \<open>j\<close> on; \<open>exceptions.at\<close> throws.\<close>

fun find_exception ::
  "segment_env \<Rightarrow> nat \<Rightarrow> descriptor_ref \<Rightarrow> proc_exception list \<Rightarrow> nat \<Rightarrow> nat \<Rightarrow> segment_data
    \<Rightarrow> ((failure + nat option) \<times> segment_data) option" where
  "find_exception N i excType exceptions j 0 d = Some (Inr None, d)"
| "find_exception N i excType exceptions j (Suc n) d =
    (if length exceptions \<le> j then Some (Inl ThrownOutOfRange, d)
     else case lookup_in i (lookupType (exception_type (exceptions ! j))) (TypeRef i) d of
       (Inl e, d) \<Rightarrow> Some (Inl e, d)
     | (Inr catchType, d) \<Rightarrow>
        (case compareTypes N excType catchType d of
           None \<Rightarrow> None
         | Some (Inl e, d) \<Rightarrow> Some (Inl e, d)
         | Some (Inr cmp, d) \<Rightarrow>
            if cmp = CompareEqual \<or> cmp = CompareExtends then Some (Inr (Some j), d)
            else find_exception N i excType exceptions (Suc j) n d))"

text \<open>The first check that matches: its local and the index of its exception.\<close>

fun find_handler ::
  "segment_env \<Rightarrow> nat \<Rightarrow> descriptor_ref \<Rightarrow> u32 \<Rightarrow> proc_exception list \<Rightarrow> proc_check list \<Rightarrow> segment_data
    \<Rightarrow> ((failure + (u16 \<times> nat) option) \<times> segment_data) option" where
  "find_handler N i excType offset exceptions [] d = Some (Inr None, d)"
| "find_handler N i excType offset exceptions (check # checks) d =
    (if \<not> in_interval offset check then find_handler N i excType offset exceptions checks d
     else case find_exception N i excType exceptions (unat (first_exception check)) (unat (check_exceptions check)) d of
       None \<Rightarrow> None
     | Some (Inl e, d) \<Rightarrow> Some (Inl e, d)
     | Some (Inr (Some j), d) \<Rightarrow> Some (Inr (Some (exception_local check, j)), d)
     | Some (Inr None, d) \<Rightarrow> find_handler N i excType offset exceptions checks d)"

definition run_handler ::
  "nat \<Rightarrow> operand \<Rightarrow> u16 \<Rightarrow> proc_exception \<Rightarrow> call_state \<Rightarrow> call_result" where
  "run_handler frame exc local exception cs =
    (let co = cs_coro cs;
         co = co\<lparr>m_callStack := (m_callStack co)[frame := setLocal (uint local) exc (m_callStack co ! frame)]\<rparr>;
         ip = snd (reset (m_IP co) (catch_offset exception))
     in if \<not> isValid ip then (NotOk AssertionFailed, cs\<lparr>cs_coro := co\<rparr>)
        else (Ok, cs\<lparr>cs_coro := transferControl ip None co\<rparr>))"

text \<open>The search in the top frame.\<close>

definition frame_handler ::
  "raise_env \<Rightarrow> u32 \<Rightarrow> descriptor_ref \<Rightarrow> u32 \<Rightarrow> call_cell \<Rightarrow> call_state
    \<Rightarrow> ((failure + (u16 \<times> proc_exception) option) \<times> call_state) option" where
  "frame_handler R offset excType initialSegment frame cs =
    (if m_callSegment frame \<noteq> initialSegment then Some (Inl (Returned kRuntimeInvariant), cs)
     else case getSegment (unat (m_callSegment frame)) (cs_segments cs) of
       None \<Rightarrow> Some (Inl AssertionFailed, cs)
     | Some i \<Rightarrow>
        let object = m_object (segment_at (cs_segments cs) i)
        in (case then_do (or_else_fail AssertionFailed (object_getCall object (m_callIndex frame)))
              (handler_tables (ce_bytes (re_calls R)) object) of
          Inl e \<Rightarrow> Some (Inl e, cs)
        | Inr (checks, exceptions) \<Rightarrow>
           map_option (\<lambda>(r, d). (map_sum id (map_option (\<lambda>(local, j). (local, exceptions ! j))) r, cs\<lparr>cs_segments := d\<rparr>))
             (find_handler (ce_segments (re_calls R)) i excType offset exceptions checks (cs_segments cs))))"

partial_function (option) unwind ::
  "raise_env \<Rightarrow> u32 \<Rightarrow> operand \<Rightarrow> descriptor_ref \<Rightarrow> u32 \<Rightarrow> call_state \<Rightarrow> call_result option" where
  "unwind R offset exc excType initialSegment cs =
    (case peekCall (-1) (cs_coro cs) of
       Inl e \<Rightarrow> Some (NotOk e, cs)
     | Inr current \<Rightarrow>
        (case frame_handler R offset excType initialSegment (m_callStack (cs_coro cs) ! current) cs of
           None \<Rightarrow> None
         | Some (Inl e, cs) \<Rightarrow> Some (NotOk e, cs)
         | Some (Inr (Some (local, exception)), cs) \<Rightarrow> Some (run_handler current exc local exception cs)
         | Some (Inr None, cs) \<Rightarrow>
            (case returnToCaller (re_calls R) cs of
               ((ok, status), cs) \<Rightarrow>
                 if ok then unwind R offset exc excType initialSegment cs else Some (status, cs))))"

definition raise_exception :: "raise_env \<Rightarrow> u32 \<Rightarrow> operand \<Rightarrow> call_state \<Rightarrow> call_result option" where
  "raise_exception R offset exc cs =
    (case typeOf (re_types R) exc of
       Inl e \<Rightarrow> Some (NotOk e, cs)
     | Inr excType \<Rightarrow>
        if callStackEmpty (cs_coro cs) then Some (runtime_invariant, cs)
        else unwind R offset exc excType (m_callSegment (last (m_callStack (cs_coro cs)))) cs)"

end
