(* ===== verification/ExceptionsLaws.thy ===== *)
theory ExceptionsLaws
  imports Exceptions SubroutinesLaws TypeManagerLaws
begin

text \<open>
  Raising an exception. \<open>catches\<close> and \<open>passes\<close> say whether a catch takes the type of an exception; the
  handler found in a frame is the first that catches it, and raising leaves calls from the top only,
  and returns when following types does.
\<close>

definition catches :: "segment_env \<Rightarrow> segment_data \<Rightarrow> descriptor_ref \<Rightarrow> descriptor_ref \<Rightarrow> bool" where
  "catches N d a b \<longleftrightarrow> (\<exists>x y. denotes N d a x \<and> denotes N d b y \<and> (x = y \<or> extends_type N d a y))"

definition passes :: "segment_env \<Rightarrow> segment_data \<Rightarrow> descriptor_ref \<Rightarrow> descriptor_ref \<Rightarrow> bool" where
  "passes N d a b \<longleftrightarrow> (\<exists>x y. denotes N d a x \<and> denotes N d b y \<and> x \<noteq> y \<and> disjoint_type N d a y)"

lemma denotes_unique: "denotes N d t x \<Longrightarrow> denotes N d t y \<Longrightarrow> x = y"
  by (auto simp: denotes_def)

lemma catches_or_passes: "catches N d a b \<Longrightarrow> \<not> passes N d a b"
proof
  assume "catches N d a b" "passes N d a b"
  then obtain x y x' y' where
    c: "denotes N d a x" "denotes N d b y" "x = y \<or> extends_type N d a y" and
    p: "denotes N d a x'" "denotes N d b y'" "x' \<noteq> y'" "disjoint_type N d a y'"
    by (auto simp: catches_def passes_def)
  then have "x' = x" "y' = y" using denotes_unique by blast+
  then have "extends_type N d a y" using c(3) p(3) by blast
  then obtain u where "(supertype N d)\<^sup>+\<^sup>+ a u" "denotes N d u y" by (auto simp: extends_type_def)
  then show False using p(4) \<open>y' = y\<close> denotes_unique by (metis disjoint_type_def)
qed

lemma comparison_catches:
  "comparison_ok N d a b (Inr CompareEqual) \<Longrightarrow> catches N d a b"
  "comparison_ok N d a b (Inr CompareExtends) \<Longrightarrow> catches N d a b"
  "comparison_ok N d a b (Inr CompareDisjoint) \<Longrightarrow> passes N d a b"
  by (auto simp: comparison_ok_def catches_def passes_def)

subsection \<open>Searching the handlers of a frame\<close>

definition catch_type :: "nat \<Rightarrow> proc_exception list \<Rightarrow> nat \<Rightarrow> descriptor_ref" where
  "catch_type i exceptions j = TypeRef i (exception_type (exceptions ! j))"

definition handlers_pass ::
  "segment_env \<Rightarrow> segment_data \<Rightarrow> nat \<Rightarrow> descriptor_ref \<Rightarrow> proc_exception list \<Rightarrow> nat \<Rightarrow> nat \<Rightarrow> bool" where
  "handlers_pass N d i a exceptions j n \<longleftrightarrow>
    (\<forall>k. j \<le> k \<and> k < j + n \<longrightarrow> k < length exceptions \<and> passes N d a (catch_type i exceptions k))"

definition exception_found ::
  "segment_env \<Rightarrow> segment_data \<Rightarrow> nat \<Rightarrow> descriptor_ref \<Rightarrow> proc_exception list \<Rightarrow> nat \<Rightarrow> nat \<Rightarrow> failure + nat option \<Rightarrow> bool" where
  "exception_found N d i a exceptions j n r \<longleftrightarrow>
    (case r of
       Inr None \<Rightarrow> handlers_pass N d i a exceptions j n
     | Inr (Some m) \<Rightarrow> j \<le> m \<and> m < j + n \<and> m < length exceptions \<and> catches N d a (catch_type i exceptions m) \<and>
         handlers_pass N d i a exceptions j (m - j)
     | Inl e \<Rightarrow> True)"

lemma handlers_pass_Suc:
  "j < length exceptions \<Longrightarrow> passes N d a (catch_type i exceptions j) \<Longrightarrow>
    handlers_pass N d i a exceptions (Suc j) n \<Longrightarrow> handlers_pass N d i a exceptions j (Suc n)"
  unfolding handlers_pass_def by (metis Suc_leI add_Suc_shift le_neq_implies_less)

lemma lookup_type_index:
  "lookup_in i (lookupType v) (TypeRef i) d = (Inr t, d') \<Longrightarrow> t = TypeRef i v"
  by (auto simp: lookup_in_def lookupType_def table_lookup_def Let_def split: prod.splits sum.splits option.splits if_splits)

lemma find_exception_ok:
  assumes "segments_ok N d" "i < length (sd_segments d)" "valid_type d a"
    and "find_exception N i a exceptions j n d = Some (r, d')"
  shows "segments_ok N d' \<and> extends d d' \<and>
    (\<forall>d3. segments_ok N d3 \<longrightarrow> extends d' d3 \<longrightarrow> exception_found N d3 i a exceptions j n r)"
  using assms
proof (induction n arbitrary: j d)
  case 0
  then show ?case by (auto simp: exception_found_def handlers_pass_def)
next
  case (Suc n)
  show ?case
  proof (cases "length exceptions \<le> j")
    case True
    then show ?thesis using Suc.prems by (auto simp: exception_found_def)
  next
    case False
    let ?v = "exception_type (exceptions ! j)"
    obtain q d1 where q: "lookup_in i (lookupType ?v) (TypeRef i) d = (q, d1)" by fastforce
    have d1: "segments_ok N d1" "extends d d1"
      using lookup_in_ok [OF Suc.prems(1,2) disjI1 [OF refl], of ?v "TypeRef i"] q by simp_all
    show ?thesis
    proof (cases q)
      case (Inl e)
      then show ?thesis using Suc.prems(4) False q d1 by (auto simp: exception_found_def)
    next
      case (Inr b)
      then have b: "b = catch_type i exceptions j" using lookup_type_index q by (simp add: catch_type_def)
      have v1: "valid_type d1 a" "valid_type d1 b" "i < length (sd_segments d1)"
        using valid_type_extends [OF Suc.prems(3) d1(2)] d1(2) Suc.prems(2) b
        by (simp_all add: valid_type_def catch_type_def extends_def)
      obtain c d2 where c: "compareTypes N a b d1 = Some (c, d2)"
        using Suc.prems(4) False q Inr by (auto split: option.splits)
      note d2 = compareTypes_ok [OF d1(1) v1(1,2) c]
      have e2: "extends d d2" using d1(2) d2(2) extends_trans by blast
      consider e where "c = Inl e" "r = Inl e" "d' = d2"
        | cmp where "c = Inr cmp" "cmp = CompareEqual \<or> cmp = CompareExtends" "r = Inr (Some j)" "d' = d2"
        | cmp where "c = Inr cmp" "\<not> (cmp = CompareEqual \<or> cmp = CompareExtends)"
            "find_exception N i a exceptions (Suc j) n d2 = Some (r, d')"
        using Suc.prems(4) False q Inr c by (auto split: sum.splits if_splits)
      then show ?thesis
      proof cases
        case 1
        then show ?thesis using d2(1) e2 by (simp add: exception_found_def)
      next
        case 2
        then show ?thesis using d2 e2 b comparison_catches False
          by (auto simp: exception_found_def handlers_pass_def)
      next
        case (3 cmp)
        have IH: "segments_ok N d'" "extends d2 d'"
          "\<And>d3. segments_ok N d3 \<Longrightarrow> extends d' d3 \<Longrightarrow> exception_found N d3 i a exceptions (Suc j) n r"
          using Suc.IH [OF d2(1) _ valid_type_extends [OF v1(1) d2(2)] 3(3)] v1(3) d2(2)
          by (auto simp: extends_def)
        have "exception_found N d3 i a exceptions j (Suc n) r" if d3: "segments_ok N d3" "extends d' d3" for d3
        proof -
          have "comparison_ok N d3 a b c" using d2(3) [OF d3(1)] extends_trans [OF IH(2) d3(2)] by blast
          then have pass: "passes N d3 a (catch_type i exceptions j)"
            using 3(1,2) b comparison_catches(3) by (cases cmp) (auto simp: comparison_ok_def)
          show ?thesis
          proof (cases "\<exists>m. r = Inr (Some m)")
            case True
            then obtain m where m: "r = Inr (Some m)" by blast
            then have "Suc j \<le> m" using IH(3) [OF d3] by (simp add: exception_found_def)
            then have "m - j = Suc (m - Suc j)" by simp
            then show ?thesis
              using IH(3) [OF d3] m handlers_pass_Suc [OF _ pass] False by (simp add: exception_found_def)
          next
            case no: False
            then show ?thesis
              using IH(3) [OF d3] handlers_pass_Suc [OF _ pass] False
              by (auto simp: exception_found_def split: sum.splits option.splits)
          qed
        qed
        then show ?thesis using IH(1,2) e2 extends_trans by blast
      qed
    qed
  qed
qed

definition check_passes ::
  "segment_env \<Rightarrow> segment_data \<Rightarrow> nat \<Rightarrow> descriptor_ref \<Rightarrow> u32 \<Rightarrow> proc_exception list \<Rightarrow> proc_check \<Rightarrow> bool" where
  "check_passes N d i a offset exceptions check \<longleftrightarrow>
    (in_interval offset check \<longrightarrow>
      handlers_pass N d i a exceptions (unat (first_exception check)) (unat (check_exceptions check)))"

definition check_catches ::
  "segment_env \<Rightarrow> segment_data \<Rightarrow> nat \<Rightarrow> descriptor_ref \<Rightarrow> u32 \<Rightarrow> proc_exception list \<Rightarrow> nat \<Rightarrow> proc_check \<Rightarrow> bool" where
  "check_catches N d i a offset exceptions m check \<longleftrightarrow> in_interval offset check \<and>
    exception_found N d i a exceptions (unat (first_exception check)) (unat (check_exceptions check)) (Inr (Some m))"

definition handler_found ::
  "segment_env \<Rightarrow> segment_data \<Rightarrow> nat \<Rightarrow> descriptor_ref \<Rightarrow> u32 \<Rightarrow> proc_exception list \<Rightarrow> proc_check list \<Rightarrow>
    failure + (u16 \<times> nat) option \<Rightarrow> bool" where
  "handler_found N d i a offset exceptions checks r \<longleftrightarrow>
    (case r of
       Inr None \<Rightarrow> \<forall>check \<in> set checks. check_passes N d i a offset exceptions check
     | Inr (Some (local, m)) \<Rightarrow>
        \<exists>before check after. checks = before @ check # after \<and> local = exception_local check \<and>
          check_catches N d i a offset exceptions m check \<and>
          (\<forall>c \<in> set before. check_passes N d i a offset exceptions c)
     | Inl e \<Rightarrow> True)"

lemma handler_foundI:
  "check_catches N d i a offset exceptions m check \<Longrightarrow> \<forall>c \<in> set before. check_passes N d i a offset exceptions c \<Longrightarrow>
    handler_found N d i a offset exceptions (before @ check # after) (Inr (Some (exception_local check, m)))"
  unfolding handler_found_def sum.case option.case prod.case by blast

lemma handler_foundE:
  assumes "handler_found N d i a offset exceptions checks (Inr (Some (local, m)))"
  obtains before check after where "checks = before @ check # after" "local = exception_local check"
    "check_catches N d i a offset exceptions m check" "\<forall>c \<in> set before. check_passes N d i a offset exceptions c"
  using assms unfolding handler_found_def sum.case option.case prod.case by blast

lemma handler_found_Cons:
  assumes "check_passes N d i a offset exceptions check" "handler_found N d i a offset exceptions checks r"
  shows "handler_found N d i a offset exceptions (check # checks) r"
proof -
  consider e where "r = Inl e" | "r = Inr None" | local m where "r = Inr (Some (local, m))"
    by (metis (full_types) option.exhaust sum.exhaust surj_pair)
  then show ?thesis
  proof cases
    case (3 local m)
    obtain before c after where c: "checks = before @ c # after" "local = exception_local c"
      "check_catches N d i a offset exceptions m c" "\<forall>c \<in> set before. check_passes N d i a offset exceptions c"
      using handler_foundE assms(2) 3 by metis
    then have "\<forall>c \<in> set (check # before). check_passes N d i a offset exceptions c" using assms(1) by simp
    then show ?thesis using handler_foundI [OF c(3), of "check # before" after] c(1,2) 3 by simp
  qed (use assms in \<open>simp_all add: handler_found_def\<close>)
qed

lemma find_handler_ok:
  assumes "segments_ok N d" "i < length (sd_segments d)" "valid_type d a"
    and "find_handler N i a offset exceptions checks d = Some (r, d')"
  shows "segments_ok N d' \<and> extends d d' \<and>
    (\<forall>d3. segments_ok N d3 \<longrightarrow> extends d' d3 \<longrightarrow> handler_found N d3 i a offset exceptions checks r)"
  using assms
proof (induction checks arbitrary: d)
  case Nil
  then show ?case by (auto simp: handler_found_def)
next
  case (Cons check checks)
  let ?j = "unat (first_exception check)" and ?n = "unat (check_exceptions check)"
  show ?case
  proof (cases "in_interval offset check")
    case False
    then have "find_handler N i a offset exceptions checks d = Some (r, d')" using Cons.prems(4) by simp
    note IH = Cons.IH [OF Cons.prems(1-3) this]
    moreover have "check_passes N d3 i a offset exceptions check" for d3 using False by (simp add: check_passes_def)
    ultimately show ?thesis using handler_found_Cons by blast
  next
    case True
    obtain q d1 where q: "find_exception N i a exceptions ?j ?n d = Some (q, d1)"
      using Cons.prems(4) True by (auto split: option.splits)
    note d1 = find_exception_ok [OF Cons.prems(1-3) q]
    consider e where "q = Inl e" "r = Inl e" "d' = d1"
      | m where "q = Inr (Some m)" "r = Inr (Some (exception_local check, m))" "d' = d1"
      | "q = Inr None" "find_handler N i a offset exceptions checks d1 = Some (r, d')"
      using Cons.prems(4) True q by (auto split: sum.splits option.splits)
    then show ?thesis
    proof cases
      case 1
      then show ?thesis using d1 by (simp add: handler_found_def)
    next
      case (2 m)
      have "handler_found N d3 i a offset exceptions (check # checks) r" if "segments_ok N d3" "extends d1 d3" for d3
      proof -
        have "exception_found N d3 i a exceptions ?j ?n (Inr (Some m))" using d1 that 2(1) by blast
        then have "check_catches N d3 i a offset exceptions m check" using True by (simp add: check_catches_def)
        from handler_foundI [OF this, of "[]" checks] show ?thesis by (simp add: 2(2))
      qed
      then show ?thesis using d1 2(3) by blast
    next
      case 3
      have l: "i < length (sd_segments d1)" using d1 Cons.prems(2) by (simp add: extends_def)
      have v: "valid_type d1 a" using d1 valid_type_extends Cons.prems(3) by blast
      have d1': "segments_ok N d1" "extends d d1" using d1 by blast+
      note IH = Cons.IH [OF d1'(1) l v 3(2)]
      have e: "segments_ok N d'" "extends d d'" using IH extends_trans [OF d1'(2)] by blast+
      have "handler_found N d3 i a offset exceptions (check # checks) r" if d3: "segments_ok N d3" "extends d' d3" for d3
      proof (rule handler_found_Cons)
        have "extends d1 d3" using IH d3(2) extends_trans by blast
        then show "check_passes N d3 i a offset exceptions check"
          using d1 d3(1) 3(1) by (simp add: check_passes_def exception_found_def)
        show "handler_found N d3 i a offset exceptions checks r" using IH d3 by blast
      qed
      then show ?thesis using e by blast
    qed
  qed
qed

lemma find_exception_returns:
  assumes "segments_ok N d" "i < length (sd_segments d)" "valid_type d a" "extends d0 d"
    and acyclic: "acyclic_type N d0 a" "\<forall>e \<in> set exceptions. acyclic_type N d0 (TypeRef i (exception_type e))"
  shows "\<exists>r. find_exception N i a exceptions j n d = Some r"
  using assms(1-4)
proof (induction n arbitrary: j d)
  case (Suc n)
  let ?v = "exception_type (exceptions ! j)"
  obtain q d1 where q: "lookup_in i (lookupType ?v) (TypeRef i) d = (q, d1)" by fastforce
  have d1: "segments_ok N d1" "extends d d1"
    using lookup_in_ok [OF Suc.prems(1,2) disjI1 [OF refl], of ?v "TypeRef i"] q by simp_all
  have i1: "i < length (sd_segments d1)" using d1(2) Suc.prems(2) by (simp add: extends_def)
  note v1 = valid_type_extends [OF Suc.prems(3) d1(2)] and e1 = extends_trans [OF Suc.prems(4) d1(2)]
  have "\<exists>r. find_exception N i a exceptions j (Suc n) d = Some r" if b: "q = Inr b" "j < length exceptions" for b
  proof -
    have b': "valid_type d1 b" using lookup_type_index [of i ?v d b d1] q b(1) i1 by (simp add: valid_type_def)
    obtain c d2 where c: "compareTypes N a b d1 = Some (c, d2)"
      using compareTypes_returns [OF d1(1) v1 b' e1 acyclic(1)] acyclic(2) b(2)
        lookup_type_index [of i ?v d b d1] q b(1) by auto
    note d2 = compareTypes_ok(1,2) [OF d1(1) v1 b' c]
    have "i < length (sd_segments d2)" using d2(2) i1 by (simp add: extends_def)
    from Suc.IH [OF d2(1) this valid_type_extends [OF v1 d2(2)] extends_trans [OF e1 d2(2)]]
    obtain r where "find_exception N i a exceptions (Suc j) n d2 = Some r" by blast
    then show ?thesis using q b c by (cases c) auto
  qed
  then show ?case using q by (cases "length exceptions \<le> j"; cases q) auto
qed simp

lemma find_handler_returns:
  assumes "segments_ok N d" "i < length (sd_segments d)" "valid_type d a" "extends d0 d"
    and acyclic: "acyclic_type N d0 a" "\<forall>e \<in> set exceptions. acyclic_type N d0 (TypeRef i (exception_type e))"
  shows "\<exists>r. find_handler N i a offset exceptions checks d = Some r"
  using assms(1-4)
proof (induction checks arbitrary: d)
  case (Cons check checks)
  obtain q d1 where q: "find_exception N i a exceptions (unat (first_exception check)) (unat (check_exceptions check)) d
      = Some (q, d1)"
    using find_exception_returns [OF Cons.prems acyclic] by (metis surj_pair)
  have d1: "segments_ok N d1" "extends d d1" using find_exception_ok [OF Cons.prems(1-3) q] by blast+
  have "i < length (sd_segments d1)" using d1(2) Cons.prems(2) by (simp add: extends_def)
  from Cons.IH [OF d1(1) this valid_type_extends [OF Cons.prems(3) d1(2)] extends_trans [OF Cons.prems(4) d1(2)]]
  obtain r where "find_handler N i a offset exceptions checks d1 = Some r" by blast
  moreover obtain r' where "find_handler N i a offset exceptions checks d = Some r'" using Cons.IH [OF Cons.prems] by blast
  ultimately show ?case using q by (cases "in_interval offset check"; cases q) (auto split: option.splits)
qed simp

subsection \<open>Unwinding\<close>

text \<open>The tables of the proc of a frame, and whether a frame catches the exception.\<close>

definition frame_tables ::
  "raise_env \<Rightarrow> segment_data \<Rightarrow> call_cell \<Rightarrow> (nat \<times> proc_check list \<times> proc_exception list) option" where
  "frame_tables R d frame =
    (case getSegment (unat (m_callSegment frame)) d of
       None \<Rightarrow> None
     | Some i \<Rightarrow>
        (case then_do (or_else_fail AssertionFailed (object_getCall (m_object (segment_at d i)) (m_callIndex frame)))
            (handler_tables (ce_bytes (re_calls R)) (m_object (segment_at d i))) of
           Inl e \<Rightarrow> None
         | Inr (checks, exceptions) \<Rightarrow> Some (i, checks, exceptions)))"

definition frame_passes :: "raise_env \<Rightarrow> segment_data \<Rightarrow> descriptor_ref \<Rightarrow> u32 \<Rightarrow> call_cell \<Rightarrow> bool" where
  "frame_passes R d a offset frame \<longleftrightarrow> (\<exists>i checks exceptions.
    frame_tables R d frame = Some (i, checks, exceptions) \<and>
    (\<forall>check \<in> set checks. check_passes (ce_segments (re_calls R)) d i a offset exceptions check))"

definition frame_catches ::
  "raise_env \<Rightarrow> segment_data \<Rightarrow> descriptor_ref \<Rightarrow> u32 \<Rightarrow> call_cell \<Rightarrow> u16 \<Rightarrow> proc_exception \<Rightarrow> bool" where
  "frame_catches R d a offset frame local exception \<longleftrightarrow> (\<exists>i exceptions before check after m.
    frame_tables R d frame = Some (i, before @ check # after, exceptions) \<and>
    (\<forall>c \<in> set before. check_passes (ce_segments (re_calls R)) d i a offset exceptions c) \<and>
    check_catches (ce_segments (re_calls R)) d i a offset exceptions m check \<and>
    local = exception_local check \<and> m < length exceptions \<and> exception = exceptions ! m)"

lemma frame_tables_extends:
  assumes "frame_tables R d frame = Some x" "extends d d'"
  shows "frame_tables R d' frame = Some x"
proof -
  obtain i where i: "getSegment (unat (m_callSegment frame)) d = Some i"
    using assms(1) by (auto simp: frame_tables_def split: option.splits)
  then have "i = unat (m_callSegment frame)" "i < length (sd_segments d)"
    by (auto simp: getSegment_def split: if_splits)
  moreover have "length (sd_segments d) \<le> length (sd_segments d')" using assms(2) by (simp add: extends_def)
  ultimately have "getSegment (unat (m_callSegment frame)) d' = Some i" by (simp add: getSegment_def)
  with assms(1) i show ?thesis
    by (simp add: frame_tables_def extends_object [OF assms(2) \<open>i < length (sd_segments d)\<close>])
qed

lemma frame_tables_segment: "frame_tables R d frame = Some (i, x) \<Longrightarrow> i < length (sd_segments d)"
  by (auto simp: frame_tables_def getSegment_def split: option.splits if_splits sum.splits)

lemma frame_handler_tables:
  assumes "frame_handler R offset a seg frame cs = Some (Inr r, cs')"
  obtains i checks exceptions where "m_callSegment frame = seg"
    "frame_tables R (cs_segments cs) frame = Some (i, checks, exceptions)"
  using assms
  by (auto simp: frame_handler_def frame_tables_def Let_def split: if_splits option.splits sum.splits prod.splits)

lemma frame_handler_search:
  "frame_tables R (cs_segments cs) frame = Some (i, checks, exceptions) \<Longrightarrow>
    frame_handler R offset a (m_callSegment frame) frame cs =
      map_option (\<lambda>(r, d). (map_sum id (map_option (\<lambda>(local, j). (local, exceptions ! j))) r, cs\<lparr>cs_segments := d\<rparr>))
        (find_handler (ce_segments (re_calls R)) i a offset exceptions checks (cs_segments cs))"
  by (auto simp: frame_handler_def frame_tables_def Let_def split: if_splits option.splits sum.splits prod.splits)

lemma frame_handler_unfold:
  assumes "frame_handler R offset a seg frame cs = Some (Inr r, cs')"
  obtains i checks exceptions r' d' where
    "frame_tables R (cs_segments cs) frame = Some (i, checks, exceptions)"
    "find_handler (ce_segments (re_calls R)) i a offset exceptions checks (cs_segments cs) = Some (Inr r', d')"
    "r = map_option (\<lambda>(local, j). (local, exceptions ! j)) r'" "cs' = cs\<lparr>cs_segments := d'\<rparr>"
proof -
  obtain i checks exceptions where t: "m_callSegment frame = seg"
    "frame_tables R (cs_segments cs) frame = Some (i, checks, exceptions)"
    using assms by (rule frame_handler_tables)
  obtain q d' where q: "find_handler (ce_segments (re_calls R)) i a offset exceptions checks (cs_segments cs) = Some (q, d')"
    "map_sum id (map_option (\<lambda>(local, j). (local, exceptions ! j))) q = Inr r" "cs' = cs\<lparr>cs_segments := d'\<rparr>"
    using assms t(1) unfolding frame_handler_search [OF t(2), of offset a, unfolded t(1)] by auto
  then show thesis using that [OF t(2)] by (cases q) auto
qed

lemma frame_handler_ok:
  assumes "frame_handler R offset a seg frame cs = Some (r, cs')"
    and "segments_ok (ce_segments (re_calls R)) (cs_segments cs)" "valid_type (cs_segments cs) a"
  shows "segments_ok (ce_segments (re_calls R)) (cs_segments cs')" "extends (cs_segments cs) (cs_segments cs')"
    "cs_coro cs' = cs_coro cs"
proof -
  let ?N = "ce_segments (re_calls R)"
  have "segments_ok ?N (cs_segments cs') \<and> extends (cs_segments cs) (cs_segments cs') \<and> cs_coro cs' = cs_coro cs"
  proof (cases "frame_tables R (cs_segments cs) frame")
    case None
    then show ?thesis using assms(1,2)
      by (auto simp: frame_handler_def frame_tables_def Let_def split: if_splits option.splits sum.splits prod.splits)
  next
    case (Some x)
    obtain i checks exceptions where x: "x = (i, checks, exceptions)" by (cases x) auto
    obtain q d' where q: "cs' = cs \<or>
        find_handler ?N i a offset exceptions checks (cs_segments cs) = Some (q, d') \<and> cs' = cs\<lparr>cs_segments := d'\<rparr>"
      using assms(1) Some x
      by (auto simp: frame_handler_def frame_tables_def Let_def split: if_splits option.splits sum.splits prod.splits)
    then show ?thesis
      using find_handler_ok [OF assms(2) frame_tables_segment [OF Some [unfolded x]] assms(3)] assms(2) by auto
  qed
  then show "segments_ok ?N (cs_segments cs')" "extends (cs_segments cs) (cs_segments cs')"
    "cs_coro cs' = cs_coro cs" by blast+
qed

lemma frame_handler_passes:
  assumes "frame_handler R offset a seg frame cs = Some (Inr None, cs')"
    and "segments_ok (ce_segments (re_calls R)) (cs_segments cs)" "valid_type (cs_segments cs) a"
    and "segments_ok (ce_segments (re_calls R)) d" "extends (cs_segments cs') d"
  shows "frame_passes R d a offset frame"
proof -
  obtain i checks exceptions d' where
    t: "frame_tables R (cs_segments cs) frame = Some (i, checks, exceptions)"
      "find_handler (ce_segments (re_calls R)) i a offset exceptions checks (cs_segments cs) = Some (Inr None, d')"
      "cs' = cs\<lparr>cs_segments := d'\<rparr>"
    using assms(1) by (auto elim: frame_handler_unfold)
  note h = find_handler_ok [OF assms(2) frame_tables_segment [OF t(1)] assms(3) t(2)]
  have "handler_found (ce_segments (re_calls R)) d i a offset exceptions checks (Inr None)" using h assms(4,5) t(3) by simp
  moreover have "frame_tables R d frame = Some (i, checks, exceptions)"
    using frame_tables_extends [OF t(1) extends_trans [of _ d']] h assms(5) t(3) by simp
  ultimately show ?thesis unfolding frame_passes_def handler_found_def sum.case option.case by blast
qed

lemma frame_handler_catches:
  assumes "frame_handler R offset a seg frame cs = Some (Inr (Some (local, exception)), cs')"
    and "segments_ok (ce_segments (re_calls R)) (cs_segments cs)" "valid_type (cs_segments cs) a"
    and "segments_ok (ce_segments (re_calls R)) d" "extends (cs_segments cs') d"
  shows "frame_catches R d a offset frame local exception"
proof -
  obtain i checks exceptions m d' where
    t: "frame_tables R (cs_segments cs) frame = Some (i, checks, exceptions)"
      "find_handler (ce_segments (re_calls R)) i a offset exceptions checks (cs_segments cs) = Some (Inr (Some (local, m)), d')"
      "exception = exceptions ! m" "cs' = cs\<lparr>cs_segments := d'\<rparr>"
  proof (rule frame_handler_unfold [OF assms(1)])
    fix i checks exceptions r' d'
    assume "frame_tables R (cs_segments cs) frame = Some (i, checks, exceptions)"
      "find_handler (ce_segments (re_calls R)) i a offset exceptions checks (cs_segments cs) = Some (Inr r', d')"
      "Some (local, exception) = map_option (\<lambda>(local, j). (local, exceptions ! j)) r'" "cs' = cs\<lparr>cs_segments := d'\<rparr>"
    then show thesis using that by (cases r') auto
  qed
  note h = find_handler_ok [OF assms(2) frame_tables_segment [OF t(1)] assms(3) t(2)]
  have "handler_found (ce_segments (re_calls R)) d i a offset exceptions checks (Inr (Some (local, m)))"
    using h assms(4,5) t(4) by simp
  then obtain before check after where c: "checks = before @ check # after" "local = exception_local check"
    "check_catches (ce_segments (re_calls R)) d i a offset exceptions m check"
    "\<forall>c \<in> set before. check_passes (ce_segments (re_calls R)) d i a offset exceptions c"
    by (rule handler_foundE)
  have "frame_tables R d frame = Some (i, checks, exceptions)"
    using frame_tables_extends [OF t(1) extends_trans [of _ d']] h assms(5) t(4) by simp
  moreover have "m < length exceptions" using c(3) by (simp add: check_catches_def exception_found_def)
  ultimately show ?thesis unfolding frame_catches_def using c t(3) by blast
qed

lemma drop_temporaries_calls:
  "drop_temporaries g frame co = (r, co') \<Longrightarrow> m_callStack co' = m_callStack co \<and> m_IP co' = m_IP co"
  by (auto simp: drop_temporaries_def popData_def pushData_def resizeDataStack_def on_data_def and_then_def
      split: if_splits sum.splits prod.splits status.splits)

lemma returnToCaller_calls:
  assumes "returnToCaller C cs = ((ok, status), cs')"
  shows "cs_segments cs' = cs_segments cs" "m_callStack (cs_coro cs') = butlast (m_callStack (cs_coro cs))"
    "m_callStack (cs_coro cs) \<noteq> [] \<Longrightarrow> m_IP (cs_coro cs') = m_returnIP (last (m_callStack (cs_coro cs)))"
    "ok \<Longrightarrow> status = Ok" "\<not> ok \<Longrightarrow> status = Ok \<Longrightarrow> \<not> isValid (m_IP (cs_coro cs')) \<and> m_callStack (cs_coro cs) \<noteq> []"
  using assms drop_temporaries_calls
  by (auto simp: returnToCaller_def callStackSize_def popCall_def transferControl_def move_assign_cell_def
      Let_def split: if_splits prod.splits status.splits; fastforce)+

subsection \<open>Raising\<close>

text \<open>What raising leaves: some calls are gone, each of them passing the exception, and the registers are
  at the handler of the frame below them, or at the return of the lowest when there is no instruction
  to return to.\<close>

definition resume_ip :: "stackful_coroutine \<Rightarrow> call_cell list \<Rightarrow> bytecode_iterator" where
  "resume_ip co left = (if left = [] then m_IP co else m_returnIP (hd left))"

definition at_handler ::
  "raise_env \<Rightarrow> segment_data \<Rightarrow> u32 \<Rightarrow> operand \<Rightarrow> descriptor_ref \<Rightarrow> call_cell list \<Rightarrow> bytecode_iterator \<Rightarrow>
    stackful_coroutine \<Rightarrow> bool" where
  "at_handler R d offset exc a frames ip co \<longleftrightarrow> frames \<noteq> [] \<and> (\<exists>local exception.
    frame_catches R d a offset (last frames) local exception \<and>
    m_callStack co = butlast frames @ [setLocal (uint local) exc (last frames)] \<and>
    m_IP co = snd (reset ip (catch_offset exception)) \<and> isValid (m_IP co))"

definition unwound ::
  "raise_env \<Rightarrow> segment_data \<Rightarrow> u32 \<Rightarrow> operand \<Rightarrow> descriptor_ref \<Rightarrow> stackful_coroutine \<Rightarrow> stackful_coroutine \<Rightarrow> bool" where
  "unwound R d offset exc a co co' \<longleftrightarrow> (\<exists>frames left. m_callStack co = frames @ left \<and>
    (\<forall>frame \<in> set left. frame_passes R d a offset frame) \<and>
    (at_handler R d offset exc a frames (resume_ip co left) co' \<or>
     left \<noteq> [] \<and> \<not> isValid (resume_ip co left) \<and> m_callStack co' = frames \<and> m_IP co' = resume_ip co left))"

lemma unwound_return:
  assumes pass: "frame_passes R d a offset (last (m_callStack co))" and ne: "m_callStack co \<noteq> []"
    and ret: "m_callStack co1 = butlast (m_callStack co)" "m_IP co1 = m_returnIP (last (m_callStack co))"
    and un: "unwound R d offset exc a co1 co'"
  shows "unwound R d offset exc a co co'"
proof -
  obtain frames left where f: "m_callStack co1 = frames @ left" "\<forall>frame \<in> set left. frame_passes R d a offset frame"
    "at_handler R d offset exc a frames (resume_ip co1 left) co' \<or>
     left \<noteq> [] \<and> \<not> isValid (resume_ip co1 left) \<and> m_callStack co' = frames \<and> m_IP co' = resume_ip co1 left"
    using un unfolding unwound_def by blast
  have "m_callStack co = frames @ (left @ [last (m_callStack co)])"
    using f(1) ret(1) ne by (metis append.assoc append_butlast_last_id)
  moreover have "resume_ip co (left @ [last (m_callStack co)]) = resume_ip co1 left"
    using ret(2) by (simp add: resume_ip_def)
  moreover have "\<forall>frame \<in> set (left @ [last (m_callStack co)]). frame_passes R d a offset frame"
    using f(2) pass by simp
  ultimately show ?thesis
    unfolding unwound_def using f(3) by (intro exI [of _ frames] exI [of _ "left @ [last (m_callStack co)]"]) auto
qed

lemma peekCall_top: "peekCall (- 1) co = (if m_callStack co = [] then Inl (Returned kRuntimeInvariant) else Inr (length (m_callStack co) - 1))"
  by (cases "m_callStack co" rule: rev_cases) (auto simp: peekCall_def calculate_stack_index_def Let_def)

lemma unwind_step:
  assumes ne: "m_callStack (cs_coro cs) \<noteq> []"
  shows "unwind R offset exc a seg cs =
    (case frame_handler R offset a seg (last (m_callStack (cs_coro cs))) cs of
       None \<Rightarrow> None
     | Some (Inl e, cs) \<Rightarrow> Some (NotOk e, cs)
     | Some (Inr (Some (local, exception)), cs1) \<Rightarrow>
        Some (run_handler (length (m_callStack (cs_coro cs)) - 1) exc local exception cs1)
     | Some (Inr None, cs) \<Rightarrow>
        (case returnToCaller (re_calls R) cs of
           ((ok, status), cs) \<Rightarrow>
             if ok then unwind R offset exc a seg cs else Some (status, cs)))"
  unfolding unwind.simps [of R offset exc a seg cs]
  using ne by (simp add: peekCall_top last_conv_nth split: option.split prod.split sum.split)

lemma unwind_ok:
  assumes "segments_ok (ce_segments (re_calls R)) (cs_segments cs)" "valid_type (cs_segments cs) a"
    and "unwind R offset exc a seg cs = Some (status, cs')"
  shows "segments_ok (ce_segments (re_calls R)) (cs_segments cs') \<and> extends (cs_segments cs) (cs_segments cs') \<and>
    (status = Ok \<longrightarrow> unwound R (cs_segments cs') offset exc a (cs_coro cs) (cs_coro cs'))"
  using assms
proof (induction "length (m_callStack (cs_coro cs))" arbitrary: cs)
  case 0
  then show ?case by (subst (asm) unwind.simps) (auto simp: peekCall_top)
next
  case (Suc n)
  let ?calls = "m_callStack (cs_coro cs)" and ?N = "ce_segments (re_calls R)"
  have len: "length ?calls = Suc n" using Suc.hyps(2) by simp
  then have ne: "?calls \<noteq> []" by auto
  have at: "?calls ! n = last ?calls" "length ?calls - 1 = n" using len ne by (simp_all add: last_conv_nth)
  obtain r cs1 where h: "frame_handler R offset a seg (last ?calls) cs = Some (r, cs1)"
    using Suc.prems(3) ne by (auto simp: unwind_step split: option.splits)
  note ok1 = frame_handler_ok [OF h Suc.prems(1,2)]
  consider e where "r = Inl e" | local exception where "r = Inr (Some (local, exception))" | "r = Inr None"
    by (metis option.exhaust sum.exhaust surj_pair)
  then show ?case
  proof cases
    case (1 e)
    then have "status = NotOk e" "cs' = cs1"
      using Suc.prems(3) ne h by (simp_all add: unwind_step)
    then show ?thesis using ok1 by simp
  next
    case (2 local exception)
    then have run: "run_handler n exc local exception cs1 = (status, cs')"
      using Suc.prems(3) ne h by (simp add: unwind_step len)
    have segs: "cs_segments cs' = cs_segments cs1" using run by (auto simp: run_handler_def Let_def split: if_splits)
    have c: "frame_catches R (cs_segments cs1) a offset (last ?calls) local exception"
      using frame_handler_catches [OF h [unfolded 2] Suc.prems(1,2) ok1(1) extends_refl] .
    have "unwound R (cs_segments cs') offset exc a (cs_coro cs) (cs_coro cs')" if "status = Ok"
    proof -
      have "m_callStack (cs_coro cs') = ?calls[n := setLocal (uint local) exc (?calls ! n)]"
        "m_IP (cs_coro cs') = snd (reset (m_IP (cs_coro cs)) (catch_offset exception))" "isValid (m_IP (cs_coro cs'))"
        using run that ok1(3) by (auto simp: run_handler_def Let_def transferControl_def split: if_splits)
      moreover have "?calls[n := x] = butlast ?calls @ [x]" for x
        using len by (simp add: butlast_conv_take upd_conv_take_nth_drop)
      ultimately have "at_handler R (cs_segments cs') offset exc a ?calls (m_IP (cs_coro cs)) (cs_coro cs')"
        using c ne by (auto simp: at_handler_def segs at)
      then show ?thesis
        unfolding unwound_def by (intro exI [of _ ?calls] exI [of _ "[]"]) (simp add: resume_ip_def)
    qed
    then show ?thesis using ok1 segs by simp
  next
    case 3
    obtain ok st cs2 where ret: "returnToCaller (re_calls R) cs1 = ((ok, st), cs2)" by (metis surj_pair)
    note r2 = returnToCaller_calls [OF ret, unfolded ok1(3)]
    show ?thesis
    proof (cases ok)
      case True
      then have un: "unwind R offset exc a seg cs2 = Some (status, cs')"
        using Suc.prems(3) ne h 3 ret by (simp add: unwind_step len)
      have "n = length (m_callStack (cs_coro cs2))" using r2(2) len by simp
      from Suc.hyps(1) [OF this _ _ un] have
        IH: "segments_ok ?N (cs_segments cs')" "extends (cs_segments cs1) (cs_segments cs')"
          "status = Ok \<Longrightarrow> unwound R (cs_segments cs') offset exc a (cs_coro cs2) (cs_coro cs')"
        using ok1(1) valid_type_extends [OF Suc.prems(2) ok1(2)] r2(1) by auto
      have "frame_passes R (cs_segments cs') a offset (last ?calls)"
        using frame_handler_passes [OF h [unfolded 3] Suc.prems(1,2) IH(1,2)] .
      then show ?thesis using IH unwound_return [OF _ ne r2(2) r2(3) [OF ne]] extends_trans [OF ok1(2)] by blast
    next
      case False
      then have e: "status = st" "cs' = cs2"
        using Suc.prems(3) ne h 3 ret by (simp_all add: unwind_step)
      have "frame_passes R (cs_segments cs1) a offset (last ?calls)"
        using frame_handler_passes [OF h [unfolded 3] Suc.prems(1,2) ok1(1) extends_refl] .
      then have "st = Ok \<Longrightarrow> unwound R (cs_segments cs2) offset exc a (cs_coro cs) (cs_coro cs2)"
        using r2(5) [OF False] r2(1,2) r2(3) [OF ne] ne unfolding unwound_def
        by (intro exI [of _ "butlast ?calls"] exI [of _ "[last ?calls]"]) (simp add: resume_ip_def)
      then show ?thesis using ok1 e r2(1) by simp
    qed
  qed
qed

text \<open>No infinite chain of types starts at the type of the exception or at one that a frame catches.\<close>

definition raise_acyclic :: "raise_env \<Rightarrow> segment_data \<Rightarrow> descriptor_ref \<Rightarrow> call_cell list \<Rightarrow> bool" where
  "raise_acyclic R d a calls \<longleftrightarrow> acyclic_type (ce_segments (re_calls R)) d a \<and>
    (\<forall>frame \<in> set calls. unat (m_callSegment frame) < length (sd_segments d) \<and>
      (\<forall>i checks exceptions. frame_tables R d frame = Some (i, checks, exceptions) \<longrightarrow>
        (\<forall>e \<in> set exceptions. acyclic_type (ce_segments (re_calls R)) d (TypeRef i (exception_type e)))))"

lemma frame_tables_before:
  assumes "frame_tables R d' frame = Some x" "extends d d'" "unat (m_callSegment frame) < length (sd_segments d)"
  shows "frame_tables R d frame = Some x"
proof -
  have "getSegment (unat (m_callSegment frame)) d' = Some (unat (m_callSegment frame))"
    "getSegment (unat (m_callSegment frame)) d = Some (unat (m_callSegment frame))"
    using assms(2,3) by (auto simp: getSegment_def extends_def)
  then show ?thesis using assms(1) by (simp add: frame_tables_def extends_object [OF assms(2,3)])
qed

lemma unwind_returns:
  assumes "segments_ok (ce_segments (re_calls R)) (cs_segments cs)" "valid_type (cs_segments cs) a"
    and "extends d0 (cs_segments cs)" "raise_acyclic R d0 a (m_callStack (cs_coro cs))"
  shows "\<exists>r. unwind R offset exc a seg cs = Some r"
  using assms
proof (induction "length (m_callStack (cs_coro cs))" arbitrary: cs)
  case 0
  then show ?case by (subst unwind.simps) (auto simp: peekCall_top)
next
  case (Suc n)
  let ?calls = "m_callStack (cs_coro cs)" and ?N = "ce_segments (re_calls R)"
  have len: "length ?calls = Suc n" using Suc.hyps(2) by simp
  then have ne: "?calls \<noteq> []" by auto
  have at: "?calls ! n = last ?calls" "length ?calls - 1 = n" using len ne by (simp_all add: last_conv_nth)
  have "\<exists>r. frame_handler R offset a seg (last ?calls) cs = Some r"
  proof (cases "frame_tables R (cs_segments cs) (last ?calls)")
    case None
    then show ?thesis
      by (auto simp: frame_handler_def frame_tables_def Let_def split: option.splits sum.splits prod.splits)
  next
    case (Some x)
    then obtain i checks exceptions where t: "frame_tables R (cs_segments cs) (last ?calls) = Some (i, checks, exceptions)"
      by (cases x) auto
    have in_stack: "last ?calls \<in> set ?calls" using ne by simp
    then have "acyclic_type ?N d0 a" "\<forall>e \<in> set exceptions. acyclic_type ?N d0 (TypeRef i (exception_type e))"
      using Suc.prems(4) frame_tables_before [OF t Suc.prems(3)] unfolding raise_acyclic_def by blast+
    then show ?thesis
      using find_handler_returns [OF Suc.prems(1) frame_tables_segment [OF t] Suc.prems(2,3)]
        frame_handler_search [OF t] by (cases "m_callSegment (last ?calls) = seg") (auto simp: frame_handler_def)
  qed
  then obtain r cs1 where h: "frame_handler R offset a seg (last ?calls) cs = Some (r, cs1)" by auto
  note ok1 = frame_handler_ok [OF h Suc.prems(1,2)]
  obtain ok st cs2 where ret: "returnToCaller (re_calls R) cs1 = ((ok, st), cs2)" by (metis surj_pair)
  note r2 = returnToCaller_calls [OF ret, unfolded ok1(3)]
  have "n = length (m_callStack (cs_coro cs2))" using r2(2) len by simp
  moreover have "raise_acyclic R d0 a (m_callStack (cs_coro cs2))"
    using Suc.prems(4) r2(2) by (auto simp: raise_acyclic_def dest: in_set_butlastD)
  ultimately have "\<exists>r. unwind R offset exc a seg cs2 = Some r"
    using Suc.hyps(1) ok1(1,2) valid_type_extends [OF Suc.prems(2) ok1(2)] r2(1) extends_trans [OF Suc.prems(3)] by simp
  then show ?case using ne h ret
    by (auto simp: unwind_step [OF ne] split: sum.splits option.splits)
qed

subsection \<open>A sample\<close>

text \<open>A call of the module with two classes: its only instruction is covered by a catch of the first
  class, whose handler is that instruction, and every value is of the second.\<close>

definition raise_sample_object :: lyric_object where
  "raise_sample_object = type_sample_object
    \<lparr>od_bytecode := [0, 0, 0, 43, 0, 0, 0, 1, 0, 0, 0, 0, 0, 32, 1, 0, 1, 0, 1, 0, 0,
       0, 0, 0, 0, 0, 0, 0, 1, 0, 0, 0, 1, 0, 0, 0, 0, 0, 0, 0, 0, 0, 0, 0, 0, 0, 1],
     od_calls := [\<lparr>cd_bound = False, cd_noReturn = False, cd_ctor = False, cd_inline = False, cd_bytecode_offset = 0\<rparr>]\<rparr>"

definition raise_sample_env :: raise_env where
  "raise_sample_env =
    \<lparr>re_calls = call_sample_env\<lparr>ce_segments := type_sample_env\<lparr>load_module := (\<lambda>_ _. Some raise_sample_object)\<rparr>\<rparr>,
     re_types = \<lparr>te_endian = bl_endian machine_bytes, te_segments = type_sample_env, te_intrinsic = (\<lambda>_. TypeRef 0 1),
       te_object_type = (\<lambda>_. TypeRef 0 1), te_entry = (\<lambda>_. TypeRef 0 1)\<rparr>\<rparr>"

definition raise_sample :: call_state where
  "raise_sample =
    \<lparr>cs_coro = (new_coroutine 16)\<lparr>m_IP := make_iterator [1], m_SP := Some 0,
       m_callStack := [make_cell 0 0 0 0 empty_iterator True 0 0 0 1 0 []]\<rparr>,
     cs_segments = \<lparr>sd_segments = [new_segment 0 False ''a'' raise_sample_object], sd_cache = [''a'' \<mapsto> 0]\<rparr>\<rparr>"

lemma raise_sample_tables:
  "parse_proc_info machine_bytes (od_bytecode raise_sample_object) 0 =
    Inr \<lparr>pi_arguments = 0, pi_locals = 1, pi_lexicals = 0, pi_lexicals_span = [], pi_code = [1],
      pi_trailer = [0, 1, 0, 1, 0, 0, 0, 0, 0, 0, 0, 0, 0, 1, 0, 0, 0, 1, 0, 0, 0, 0, 0, 0, 0, 0, 0, 0, 0, 0, 0, 1]\<rparr>"
  by code_simp

lemma raise_sample_types: "two_classes (cs_segments raise_sample)"
  by (simp add: two_classes_def raise_sample_def raise_sample_object_def type_sample_simps)

lemma raise_sample_ok:
  "segments_ok (ce_segments (re_calls raise_sample_env)) (cs_segments raise_sample)"
  "valid_type (cs_segments raise_sample) (TypeRef 0 v)"
proof -
  let ?N = "ce_segments (re_calls raise_sample_env)"
  have "cs_segments raise_sample = segment_step ?N (GetOrLoad ''a'' None False) empty_segments"
    by (simp add: raise_sample_def raise_sample_env_def type_sample_env_def get_or_load_segment_def sample_env_def
        empty_segments_def plugin_accepts_def raise_sample_object_def type_sample_object_def sample_object_def Let_def)
  then show "segments_ok ?N (cs_segments raise_sample)"
    using segment_step_ok [OF empty_segments_ok, of "GetOrLoad ''a'' None False" ?N] by simp
qed (simp add: valid_type_def raise_sample_def)

lemma raise_sample_frame:
  assumes "m_callSegment frame = 0" "m_callIndex frame = 0"
  shows "frame_tables raise_sample_env (cs_segments raise_sample) frame =
    Some (0, [\<lparr>check_interval_offset = 0, check_interval_size = 1, first_exception = 0, check_exceptions = 1,
      exception_local = 0\<rparr>], [\<lparr>exception_type = 0, catch_offset = 0, catch_size = 1\<rparr>])"
proof -
  have "handler_tables machine_bytes raise_sample_object
      \<lparr>cd_bound = False, cd_noReturn = False, cd_ctor = False, cd_inline = False, cd_bytecode_offset = 0\<rparr> =
    Inr ([\<lparr>check_interval_offset = 0, check_interval_size = 1, first_exception = 0, check_exceptions = 1,
      exception_local = 0\<rparr>], [\<lparr>exception_type = 0, catch_offset = 0, catch_size = 1\<rparr>])"
    unfolding handler_tables_def call_descriptor.simps raise_sample_tables by code_simp
  then show ?thesis
    using assms by (simp add: frame_tables_def getSegment_def raise_sample_def segment_at_def new_segment_def
      object_getCall_def raise_sample_object_def raise_sample_env_def call_sample_env_def)
qed

lemma raise_sample_acyclic:
  "raise_acyclic raise_sample_env (cs_segments raise_sample) (TypeRef 0 1) (m_callStack (cs_coro raise_sample))"
  using two_classes_acyclic [OF raise_sample_types] raise_sample_frame
  by (simp add: raise_acyclic_def) (simp add: raise_sample_def make_cell_def)

lemma raise_sample_type: "typeOf (re_types raise_sample_env) (nil [0, 0, 0, 0, 0, 0, 0, 0]) = Inr (TypeRef 0 1)"
  by code_simp

lemma raise_sample_run:
  "\<exists>cs'. raise_exception raise_sample_env 0 (nil [0, 0, 0, 0, 0, 0, 0, 0]) raise_sample = Some (Ok, cs') \<and>
    length (m_callStack (cs_coro cs')) = 1"
proof -
  let ?c = "make_cell 0 0 0 0 empty_iterator True 0 0 0 1 0 []"
  have frame: "m_callStack (cs_coro raise_sample) = [?c]" by (simp add: raise_sample_def)
  have "\<exists>d'. find_handler (ce_segments (re_calls raise_sample_env)) 0 (TypeRef 0 1) 0
      [\<lparr>exception_type = 0, catch_offset = 0, catch_size = 1\<rparr>]
      [\<lparr>check_interval_offset = 0, check_interval_size = 1, first_exception = 0, check_exceptions = 1,
        exception_local = 0\<rparr>] (cs_segments raise_sample) = Some (Inr (Some (0, 0)), d')"
    by (simp add: in_interval_def compareTypes_def descriptor_of_def resolve_type_to_descriptor.simps
        search_supers.simps [of _ "TypeRef 0 1"] raise_sample_def raise_sample_object_def type_sample_simps)
  then obtain d' where "frame_handler raise_sample_env 0 (TypeRef 0 1) 0 ?c raise_sample =
      Some (Inr (Some (0, \<lparr>exception_type = 0, catch_offset = 0, catch_size = 1\<rparr>)), raise_sample\<lparr>cs_segments := d'\<rparr>)"
    using frame_handler_search [OF raise_sample_frame [of ?c], of 0 "TypeRef 0 1"] by (auto simp: make_cell_def)
  then show ?thesis
    by (simp add: raise_exception_def raise_sample_type callStackEmpty_def unwind_step frame)
      (simp add: frame make_cell_def run_handler_def reset_def transferControl_def raise_sample_def make_iterator_def isValid_def)
qed

subsection \<open>Properties\<close>

text \<open>C8. Raising an exception, when it succeeds, leaves calls from the top, each of which has no check
  for the offset with a type that the exception is or extends, and stops at the first check with such
  a type: the exception is in the check's local and the next instruction is its handler's first. Or
  it has left a call with no instruction to return to.\<close>

theorem raise_finds_first_handler:
  assumes "segments_ok (ce_segments (re_calls R)) (cs_segments cs)"
    and "typeOf (re_types R) exc = Inr a" "valid_type (cs_segments cs) a"
    and "raise_exception R offset exc cs = Some (Ok, cs')"
  shows "extends (cs_segments cs) (cs_segments cs') \<and>
    (\<exists>frames left. m_callStack (cs_coro cs) = frames @ left \<and>
      (\<forall>frame \<in> set left. frame_passes R (cs_segments cs') a offset frame) \<and>
      (at_handler R (cs_segments cs') offset exc a frames (resume_ip (cs_coro cs) left) (cs_coro cs') \<or>
       left \<noteq> [] \<and> \<not> isValid (resume_ip (cs_coro cs) left) \<and>
         m_callStack (cs_coro cs') = frames \<and> m_IP (cs_coro cs') = resume_ip (cs_coro cs) left))"
  using unwind_ok [OF assms(1,3), of offset exc _ Ok cs'] assms(2,4)
  by (auto simp: raise_exception_def unwound_def split: if_splits)

theorem raise_finds_first_handler_witness:
  "\<exists>cs' local exception. raise_exception raise_sample_env 0 (nil [0, 0, 0, 0, 0, 0, 0, 0]) raise_sample = Some (Ok, cs') \<and>
    frame_catches raise_sample_env (cs_segments cs') (TypeRef 0 1) 0 (hd (m_callStack (cs_coro raise_sample))) local exception"
proof -
  obtain cs' where r: "raise_exception raise_sample_env 0 (nil [0, 0, 0, 0, 0, 0, 0, 0]) raise_sample = Some (Ok, cs')"
    "length (m_callStack (cs_coro cs')) = 1"
    using raise_sample_run by blast
  obtain frames left where f: "m_callStack (cs_coro raise_sample) = frames @ left"
    "at_handler raise_sample_env (cs_segments cs') 0 (nil [0, 0, 0, 0, 0, 0, 0, 0]) (TypeRef 0 1) frames
       (resume_ip (cs_coro raise_sample) left) (cs_coro cs') \<or> left \<noteq> [] \<and> m_callStack (cs_coro cs') = frames"
    using raise_finds_first_handler [OF raise_sample_ok(1) raise_sample_type raise_sample_ok(2) r(1)] by blast
  have "length (m_callStack (cs_coro raise_sample)) = 1" by (simp add: raise_sample_def)
  then have "length frames = 1 \<and> left = []" using f r(2) by (cases left) (auto simp: at_handler_def)
  then have "last frames = hd (m_callStack (cs_coro raise_sample))" using f(1) by (cases frames) auto
  with \<open>length frames = 1 \<and> left = []\<close> show ?thesis using f(2) r(1) by (auto simp: at_handler_def)
qed

text \<open>Raising an exception returns, if no infinite chain of types starts at the type of the exception
  or at one caught by the calls.\<close>

theorem raise_returns:
  assumes "segments_ok (ce_segments (re_calls R)) (cs_segments cs)"
    and "typeOf (re_types R) exc = Inr a" "valid_type (cs_segments cs) a"
    and "raise_acyclic R (cs_segments cs) a (m_callStack (cs_coro cs))"
  shows "\<exists>status cs'. raise_exception R offset exc cs = Some (status, cs')"
  using unwind_returns [OF assms(1,3) extends_refl assms(4)] assms(2) by (auto simp: raise_exception_def)

theorem raise_returns_witness:
  "\<exists>status cs'. raise_exception raise_sample_env 0 (nil [0, 0, 0, 0, 0, 0, 0, 0]) raise_sample = Some (status, cs')"
  using raise_returns [OF raise_sample_ok(1) raise_sample_type raise_sample_ok(2) raise_sample_acyclic] .

end
