(* ===== verification/Interpreter.thy ===== *)
theory Interpreter
  imports Exceptions Scheduler Arithmetic
begin

text \<open>
  The interpreter: \<open>BytecodeInterpreter\<close> (\<open>bytecode_interpreter.cpp\<close>) with \<open>internal/activation_ops.cpp\<close>,
  without an inspector.

  \<open>runSubinterpreter\<close> is re-entered by code that an instruction calls: the initializer of a static, the
  constructors, the traps of plugins. What such code does is a value of \<open>native\<close>: it is done, or it runs
  the interpreter and goes on with the result. The pending runs are a list, the innermost first, each
  with the local variable \<open>currentCoro\<close> of its loop; a step of the list is one transition of the
  innermost run. \<open>currentCoro\<close> is the task that the coroutine belongs to, \<open>None\<close> the null pointer.

  The fields of \<open>interp_env\<close>: \<open>ie_address\<close> gives the address of a descriptor or type entry, \<open>ie_object\<close>
  what loads and constructs objects (\<open>HeapManager\<close>, \<open>construct_*.cpp\<close>, the fields of an object), \<open>ie_trap\<close>
  the traps of the plugin of a segment, \<open>ie_poll\<close> and \<open>ie_uv_run\<close> the callbacks that the event loop runs.
\<close>

datatype status_code = StatusUnknown | StatusOk

record machine =
  mc_sched :: system_scheduler
  mc_segments :: segment_data
  mc_heap :: heap
  mc_slice :: u16
  mc_count :: u64
  mc_depth :: int
  mc_active :: bool
  mc_status :: status_code

datatype native =
    NativeDone "failure + unit" machine
  | NativeRun machine "failure + operand \<Rightarrow> machine \<Rightarrow> native"

datatype object_op =
    LoadBytes u32 | LoadString u32 | LoadRest | LoadObject slot_kind u32
  | LoadField descriptor_ref operand | StoreField descriptor_ref operand operand
  | NewObject u8 u32 u16

record interp_env =
  ie_raise :: raise_env
  ie_arith :: arith_env
  ie_address :: "descriptor_ref \<Rightarrow> u64"
  ie_object :: "object_op \<Rightarrow> task_ptr \<Rightarrow> machine \<Rightarrow> native"
  ie_trap :: "nat \<Rightarrow> u32 \<Rightarrow> (machine \<Rightarrow> native) option"
  ie_poll :: "machine \<Rightarrow> bool \<times> machine"
  ie_uv_run :: "machine \<Rightarrow> machine"

abbreviation ie_calls :: "interp_env \<Rightarrow> call_env" where
  "ie_calls E \<equiv> re_calls (ie_raise E)"

abbreviation ie_segments :: "interp_env \<Rightarrow> segment_env" where
  "ie_segments E \<equiv> ce_segments (ie_calls E)"

abbreviation ie_garbage :: "interp_env \<Rightarrow> u8 list" where
  "ie_garbage E \<equiv> ce_garbage (ie_calls E)"

abbreviation ie_endian :: "interp_env \<Rightarrow> endian_lib" where
  "ie_endian E \<equiv> bl_endian (ce_bytes (ie_calls E))"

definition TIME_SLICE :: u16 where
  "TIME_SLICE = 64"

definition FAST_POLL_ITERATIONS :: nat where
  "FAST_POLL_ITERATIONS = 4"

definition MAX_INTERPRETER_RECURSION :: int where
  "MAX_INTERPRETER_RECURSION = 128"

subsection \<open>Actions on the state\<close>

type_synonym 'a action = "machine \<Rightarrow> (failure + 'a) \<times> machine"

definition act_return :: "'a \<Rightarrow> 'a action" where
  "act_return x m = (Inr x, m)"

definition act_fail :: "failure \<Rightarrow> 'a action" where
  "act_fail e m = (Inl e, m)"

text \<open>\<open>ON_ERROR_IF_NOT_OK\<close>, \<open>TU_RETURN_IF_NOT_OK\<close>.\<close>

definition act_bind :: "'a action \<Rightarrow> ('a \<Rightarrow> 'b action) \<Rightarrow> 'b action" where
  "act_bind a k m = (case a m of (Inl e, m) \<Rightarrow> (Inl e, m) | (Inr x, m) \<Rightarrow> k x m)"

definition act_check :: "failure \<Rightarrow> 'a option \<Rightarrow> 'a action" where
  "act_check e x m = (or_else_fail e x, m)"

fun status_result :: "interp_status \<Rightarrow> failure + unit" where
  "status_result Ok = Inr ()"
| "status_result (NotOk e) = Inl e"

definition machine_coro :: "task_ptr \<Rightarrow> machine \<Rightarrow> stackful_coroutine" where
  "machine_coro t m = t_coro (m_tasks (mc_sched m) t)"

definition set_machine_coro :: "task_ptr \<Rightarrow> stackful_coroutine \<Rightarrow> machine \<Rightarrow> machine" where
  "set_machine_coro t co m = m\<lparr>mc_sched := modify_task t (t_coro_update (\<lambda>_. co)) (mc_sched m)\<rparr>"

definition on_task :: "task_ptr \<Rightarrow> (stackful_coroutine \<Rightarrow> (failure + 'a) \<times> stackful_coroutine) \<Rightarrow> 'a action" where
  "on_task t f m = (let (r, co) = f (machine_coro t m) in (r, set_machine_coro t co m))"

definition read_task :: "task_ptr \<Rightarrow> (stackful_coroutine \<Rightarrow> failure + 'a) \<Rightarrow> 'a action" where
  "read_task t f m = (f (machine_coro t m), m)"

definition act_push :: "task_ptr \<Rightarrow> operand \<Rightarrow> unit action" where
  "act_push t v = on_task t (\<lambda>co. apfst status_result (pushData v co))"

definition act_pop :: "interp_env \<Rightarrow> task_ptr \<Rightarrow> operand action" where
  "act_pop E t = on_task t (popData (ie_garbage E))"

definition act_drop :: "interp_env \<Rightarrow> task_ptr \<Rightarrow> int \<Rightarrow> unit action" where
  "act_drop E t offset = on_task t (\<lambda>co. apfst status_result (dropData (ie_garbage E) offset co))"

definition act_peek :: "interp_env \<Rightarrow> task_ptr \<Rightarrow> int \<Rightarrow> operand action" where
  "act_peek E t offset = read_task t (peekData (ie_garbage E) offset)"

text \<open>The current activation, an index into the calls.\<close>

definition act_activation :: "task_ptr \<Rightarrow> nat action" where
  "act_activation t = read_task t (peekCall (-1))"

definition read_frame :: "task_ptr \<Rightarrow> nat \<Rightarrow> (call_cell \<Rightarrow> 'a) \<Rightarrow> 'a action" where
  "read_frame t i f = read_task t (\<lambda>co. Inr (f (m_callStack co ! i)))"

definition update_frame :: "task_ptr \<Rightarrow> nat \<Rightarrow> (call_cell \<Rightarrow> call_cell) \<Rightarrow> unit action" where
  "update_frame t i f = on_task t (\<lambda>co.
     (Inr (), co\<lparr>m_callStack := (m_callStack co)[i := f (m_callStack co ! i)]\<rparr>))"

definition act_sp :: "task_ptr \<Rightarrow> nat action" where
  "act_sp t = read_task t (\<lambda>co. or_else_fail UndefinedBehaviour (m_SP co))"

definition on_segments :: "(segment_data \<Rightarrow> (failure + 'a) \<times> segment_data) \<Rightarrow> 'a action" where
  "on_segments f m = (let (r, d) = f (mc_segments m) in (r, m\<lparr>mc_segments := d\<rparr>))"

definition on_calls :: "task_ptr \<Rightarrow> (call_state \<Rightarrow> 'r \<times> call_state) \<Rightarrow> machine \<Rightarrow> 'r \<times> machine" where
  "on_calls t f m =
    (let (r, cs) = f \<lparr>cs_coro = machine_coro t m, cs_segments = mc_segments m\<rparr>
     in (r, (set_machine_coro t (cs_coro cs) m)\<lparr>mc_segments := cs_segments cs\<rparr>))"

definition act_call :: "task_ptr \<Rightarrow> (call_state \<Rightarrow> call_result) \<Rightarrow> unit action" where
  "act_call t f m = apfst status_result (on_calls t f m)"

definition act_arith :: "(heap \<Rightarrow> arith_result) \<Rightarrow> operand action" where
  "act_arith f m = (case f (mc_heap m) of Inl e \<Rightarrow> (Inl e, m) | Inr (v, h) \<Rightarrow> (Inr v, m\<lparr>mc_heap := h\<rparr>))"

definition act_test :: "(heap \<Rightarrow> failure + 'a) \<Rightarrow> 'a action" where
  "act_test f m = (f (mc_heap m), m)"

subsection \<open>Groups of instructions\<close>

text \<open>The immediates: the status of the push is not looked at.\<close>

definition op_immediate :: "task_ptr \<Rightarrow> operand \<Rightarrow> unit action" where
  "op_immediate t v m = (Inr (), snd (act_push t v m))"

definition op_binary ::
  "interp_env \<Rightarrow> task_ptr \<Rightarrow> (operand \<Rightarrow> operand \<Rightarrow> heap \<Rightarrow> arith_result) \<Rightarrow> unit action" where
  "op_binary E t f =
    act_bind (act_pop E t) (\<lambda>rhs.
    act_bind (act_pop E t) (\<lambda>lhs.
    act_bind (act_arith (f lhs rhs)) (act_push t)))"

definition op_unary :: "interp_env \<Rightarrow> task_ptr \<Rightarrow> (operand \<Rightarrow> heap \<Rightarrow> arith_result) \<Rightarrow> unit action" where
  "op_unary E t f = act_bind (act_pop E t) (\<lambda>element. act_bind (act_arith (f element)) (act_push t))"

definition op_cmp :: "interp_env \<Rightarrow> task_ptr \<Rightarrow> unit action" where
  "op_cmp E t =
    act_bind (act_pop E t) (\<lambda>rhs.
    act_bind (act_pop E t) (\<lambda>lhs.
    act_bind (act_test (op_compare (ie_arith E) lhs rhs)) (act_push t)))"

definition op_logical :: "interp_env \<Rightarrow> task_ptr \<Rightarrow> (bool \<Rightarrow> bool \<Rightarrow> bool) \<Rightarrow> unit action" where
  "op_logical E t f =
    act_bind (act_pop E t) (\<lambda>rhs.
    act_bind (act_check (Returned kInvalidDataStackV2) (getBool rhs)) (\<lambda>r.
    act_bind (act_pop E t) (\<lambda>lhs.
    act_bind (act_check (Returned kInvalidDataStackV1) (getBool lhs)) (\<lambda>l.
      act_push t (fromBool (ie_garbage E) (f l r))))))"

definition op_logical_not :: "interp_env \<Rightarrow> task_ptr \<Rightarrow> unit action" where
  "op_logical_not E t =
    act_bind (act_pop E t) (\<lambda>element.
    act_bind (act_check (Returned kInvalidDataStackV1) (getBool element)) (\<lambda>e.
      act_push t (fromBool (ie_garbage E) (\<not> e))))"

definition op_jump :: "task_ptr \<Rightarrow> u16 \<Rightarrow> unit action" where
  "op_jump t delta = on_task t (\<lambda>co.
     (let (ok, co) = moveIP delta co in (if ok then Inr () else Inl (Returned kInvalidOperandJumpV1), co)))"

definition op_jump_if :: "interp_env \<Rightarrow> task_ptr \<Rightarrow> u16 \<Rightarrow> (operand \<Rightarrow> heap \<Rightarrow> failure + bool) \<Rightarrow> unit action" where
  "op_jump_if E t delta test =
    act_bind (act_pop E t) (\<lambda>cmp.
    act_bind (act_test (test cmp)) (\<lambda>result. if result then op_jump t delta else act_return ()))"

definition test_bool :: "bool \<Rightarrow> operand \<Rightarrow> heap \<Rightarrow> failure + bool" where
  "test_bool b cmp h = then_do (or_else_fail (Returned kInvalidDataStackV1) (getBool cmp)) (\<lambda>v. Inr (v = b))"

text \<open>A type operand points to a type entry.\<close>

definition act_has_type :: "operand_type \<Rightarrow> interpreter_condition \<Rightarrow> operand \<Rightarrow> unit action" where
  "act_has_type \<tau> condition v = act_check (Returned condition) (if getType v = \<tau> then Some () else None)"

definition act_type_entry :: "interp_env \<Rightarrow> operand \<Rightarrow> descriptor_ref action" where
  "act_type_entry E v = act_check (Returned kRuntimeInvariant)
     (map_option (te_entry (re_types (ie_raise E))) (getTypeEntry (ie_endian E) v))"

definition comparison_result :: "type_comparison \<Rightarrow> u64" where
  "comparison_result c = (case c of CompareExtends \<Rightarrow> - 1 | CompareEqual \<Rightarrow> 0 | CompareSuper \<Rightarrow> 1 | CompareDisjoint \<Rightarrow> 1)"

definition pop_types :: "interp_env \<Rightarrow> task_ptr \<Rightarrow> (descriptor_ref \<times> descriptor_ref) action" where
  "pop_types E t =
    act_bind (act_pop E t) (\<lambda>rhs.
    act_bind (act_has_type TyType kInvalidDataStackV2 rhs) (\<lambda>_.
    act_bind (act_pop E t) (\<lambda>lhs.
    act_bind (act_has_type TyType kInvalidDataStackV1 lhs) (\<lambda>_.
    act_bind (act_type_entry E lhs) (\<lambda>lhs.
    act_bind (act_type_entry E rhs) (\<lambda>rhs. act_return (lhs, rhs)))))))"

text \<open>\<open>None\<close> when the comparison does not return.\<close>

definition op_type_cmp :: "interp_env \<Rightarrow> task_ptr \<Rightarrow> machine \<Rightarrow> ((failure + unit) \<times> machine) option" where
  "op_type_cmp E t m =
    (case pop_types E t m of
       (Inl e, m) \<Rightarrow> Some (Inl e, m)
     | (Inr (lhs, rhs), m) \<Rightarrow>
        (case compareTypes (ie_segments E) lhs rhs (mc_segments m) of
           None \<Rightarrow> None
         | Some (Inl e, d) \<Rightarrow> Some (Inl e, m\<lparr>mc_segments := d\<rparr>)
         | Some (Inr c, d) \<Rightarrow>
            Some (act_push t (fromI64 (ie_endian E) (ie_garbage E) (comparison_result c)) (m\<lparr>mc_segments := d\<rparr>))))"

definition ref_operand :: "interp_env \<Rightarrow> descriptor_ref \<Rightarrow> operand" where
  "ref_operand E r = (case r of
     TypeRef _ _ \<Rightarrow> fromType (ie_endian E) (ie_garbage E) (ie_address E r)
   | DescriptorRef _ _ _ \<Rightarrow> fromDescriptor (ie_endian E) (ie_garbage E) (ie_address E r))"

definition op_type_of :: "interp_env \<Rightarrow> task_ptr \<Rightarrow> unit action" where
  "op_type_of E t =
    act_bind (act_pop E t) (\<lambda>value.
    act_bind (\<lambda>m. (typeOf (re_types (ie_raise E)) value, m)) (\<lambda>r.
      case r of
        TypeRef _ _ \<Rightarrow> act_push t (ref_operand E r)
      | DescriptorRef _ _ _ \<Rightarrow> act_fail (Returned kRuntimeInvariant)))"

definition op_descriptor :: "interp_env \<Rightarrow> task_ptr \<Rightarrow> u8 \<Rightarrow> u32 \<Rightarrow> unit action" where
  "op_descriptor E t section address =
    act_bind (act_sp t) (\<lambda>sp.
    act_bind (on_segments (resolve_descriptor (ie_segments E) sp (descriptor_to_linkage_section section) address))
      (\<lambda>r. op_immediate t (ref_operand E r)))"

definition op_raise :: "interp_env \<Rightarrow> task_ptr \<Rightarrow> u32 \<Rightarrow> machine \<Rightarrow> ((failure + unit) \<times> machine) option" where
  "op_raise E t offset m =
    (case act_bind (act_pop E t) (\<lambda>exc.
          act_bind (act_has_type TyStatus kInvalidDataStackV1 exc) (\<lambda>_. act_return exc)) m of
       (Inl e, m) \<Rightarrow> Some (Inl e, m)
     | (Inr exc, m) \<Rightarrow>
        map_option
          (\<lambda>(status, cs). (status_result status, (set_machine_coro t (cs_coro cs) m)\<lparr>mc_segments := cs_segments cs\<rparr>))
          (raise_exception (ie_raise E) offset exc \<lparr>cs_coro = machine_coro t m, cs_segments = mc_segments m\<rparr>))"

subsection \<open>Activations\<close>

text \<open>An address is converted to an \<open>int\<close>.\<close>

definition finish :: "(failure + unit) \<times> machine \<Rightarrow> native" where
  "finish r = NativeDone (fst r) (snd r)"

definition native_bind :: "(failure + 'a) \<times> machine \<Rightarrow> ('a \<Rightarrow> machine \<Rightarrow> native) \<Rightarrow> native" where
  "native_bind r k = (case r of (Inl e, m) \<Rightarrow> NativeDone (Inl e) m | (Inr x, m) \<Rightarrow> k x m)"

text \<open>The initializer of a static runs to its end before its value is stored; a store out of bounds is
  reported as ok, and the value is not pushed.\<close>

definition store_static :: "interp_env \<Rightarrow> task_ptr \<Rightarrow> u32 \<Rightarrow> operand \<Rightarrow> bool action" where
  "store_static E t address v =
    act_bind (act_sp t) (\<lambda>sp.
    on_segments (\<lambda>d. case segment_storeStatic (ie_segments E) address v sp d of
      ((ok, NotOk e), d) \<Rightarrow> (Inl e, d) | ((ok, Ok), d) \<Rightarrow> (Inr ok, d)))"

definition load_static :: "interp_env \<Rightarrow> task_ptr \<Rightarrow> u32 \<Rightarrow> machine \<Rightarrow> native" where
  "load_static E t address m =
    native_bind (act_bind (act_sp t) (\<lambda>sp. on_segments (segment_loadStatic (ie_segments E) address sp)) m) (\<lambda>value m.
      if isValid_operand value then finish (act_push t value m)
      else native_bind (act_call t (initStatic (ie_calls E) address) m) (\<lambda>_ m.
        NativeRun m (\<lambda>r m. native_bind (r, m) (\<lambda>init m.
          native_bind (store_static E t address init m) (\<lambda>ok m.
            if ok then finish (act_push t init m) else NativeDone (Inr ()) m)))))"

definition load_field :: "interp_env \<Rightarrow> task_ptr \<Rightarrow> u32 \<Rightarrow> machine \<Rightarrow> native" where
  "load_field E t address m =
    native_bind (act_bind (act_sp t) (\<lambda>sp.
        act_bind (on_segments (resolve_descriptor (ie_segments E) sp LinkageField address)) (\<lambda>field.
        act_bind (act_pop E t) (\<lambda>receiver.
        act_bind (act_check (Returned kInvalidReceiver) (getRef (ie_endian E) receiver)) (\<lambda>_.
        act_return (field, receiver))))) m)
      (\<lambda>(field, receiver). ie_object E (LoadField field receiver) t)"

definition store_field :: "interp_env \<Rightarrow> task_ptr \<Rightarrow> u32 \<Rightarrow> operand \<Rightarrow> machine \<Rightarrow> native" where
  "store_field E t address value m =
    native_bind (act_bind (act_sp t) (\<lambda>sp.
        act_bind (on_segments (resolve_descriptor (ie_segments E) sp LinkageField address)) (\<lambda>field.
        act_bind (act_pop E t) (\<lambda>receiver.
        act_bind (act_check (Returned kInvalidReceiver) (getRef (ie_endian E) receiver)) (\<lambda>_.
        act_return (field, receiver))))) m)
      (\<lambda>(field, receiver). ie_object E (StoreField field receiver value) t)"

definition op_load :: "interp_env \<Rightarrow> task_ptr \<Rightarrow> u32 \<Rightarrow> u8 \<Rightarrow> machine \<Rightarrow> native" where
  "op_load E t address flags m =
    native_bind (act_activation t m) (\<lambda>i m.
      let push = (\<lambda>get. finish (act_bind (read_frame t i (get (sint address))) (act_push t) m))
      in if flags = LOAD_ARGUMENT then push getArgument
         else if flags = LOAD_LOCAL then push getLocal
         else if flags = LOAD_LEXICAL then push getLexical
         else if flags = LOAD_FIELD then load_field E t address m
         else if flags = LOAD_STATIC then load_static E t address m
         else if flags = LOAD_INSTANCE then ie_object E (LoadObject InstanceSlot address) t m
         else if flags = LOAD_ENUM then ie_object E (LoadObject EnumSlot address) t m
         else if flags = LOAD_PROTOCOL then ie_object E (LoadObject ProtocolSlot address) t m
         else if flags = LOAD_NAMESPACE then ie_object E (LoadObject NamespaceSlot address) t m
         else NativeDone (Inl (Returned kInvalidOperandFlagsAddressV1)) m)"

definition op_store :: "interp_env \<Rightarrow> task_ptr \<Rightarrow> u32 \<Rightarrow> u8 \<Rightarrow> machine \<Rightarrow> native" where
  "op_store E t address flags m =
    native_bind (act_activation t m) (\<lambda>i m.
    native_bind (act_pop E t m) (\<lambda>value m.
      let set = (\<lambda>update. finish (update_frame t i (update (sint address) value) m))
      in if flags = STORE_ARGUMENT then set setArgument
         else if flags = STORE_LOCAL then set setLocal
         else if flags = STORE_LEXICAL then set setLexical
         else if flags = STORE_FIELD then store_field E t address value m
         else if flags = STORE_STATIC then
           finish (act_bind (store_static E t address value) (\<lambda>_. act_return ()) m)
         else NativeDone (Inl (Returned kInvalidOperandFlagsAddressV1)) m))"

definition op_synthetic :: "interp_env \<Rightarrow> task_ptr \<Rightarrow> u8 \<Rightarrow> machine \<Rightarrow> native" where
  "op_synthetic E t synthetic m =
    native_bind (act_activation t m) (\<lambda>i m.
      if synthetic = SYNTHETIC_THIS then finish (act_bind (read_frame t i m_receiver) (act_push t) m)
      else if synthetic = SYNTHETIC_REST then ie_object E LoadRest t m
      else NativeDone (Inl (Returned kInvalidOperandTypeV1)) m)"

text \<open>The comparison is made in 64 bits, then the offset is converted to an \<open>int\<close>.\<close>

definition op_va_load :: "interp_env \<Rightarrow> task_ptr \<Rightarrow> unit action" where
  "op_va_load E t =
    act_bind (act_activation t) (\<lambda>i.
    act_bind (act_pop E t) (\<lambda>v.
    act_bind (\<lambda>m. (or_else_fail (Returned kInvalidDataStackV1) (getI64 (ie_endian E) (h_objects (mc_heap m)) v), m)) (\<lambda>offset.
    act_bind (read_frame t i m_numRest) (\<lambda>numRest.
      if uint numRest \<le> sint offset then act_fail (Returned kInvalidDataStackV1)
      else act_bind (read_frame t i (getRestArgument (sint (ucast offset :: u32)))) (act_push t)))))"

definition op_va_size :: "interp_env \<Rightarrow> task_ptr \<Rightarrow> unit action" where
  "op_va_size E t =
    act_bind (act_activation t) (\<lambda>i.
    act_bind (read_frame t i m_numRest) (\<lambda>numRest.
      act_push t (fromI64 (ie_endian E) (ie_garbage E) (ucast numRest))))"

definition op_trap :: "interp_env \<Rightarrow> task_ptr \<Rightarrow> u8 \<Rightarrow> u32 \<Rightarrow> machine \<Rightarrow> native" where
  "op_trap E t flags address m =
    native_bind
      (if flags AND TRAP_INDEX_FOLLOWS \<noteq> 0 then
         (if address \<noteq> 0 then (Inl (Returned kInvalidOperandFlagsAddressV2), m)
          else act_bind (act_pop E t) (\<lambda>trap. act_check (Returned kInvalidDataStackV1) (getU32 (ie_endian E) trap)) m)
       else (Inr address, m)) (\<lambda>index m.
    native_bind (act_sp t m) (\<lambda>sp m.
      case ie_trap E sp index of
        None \<Rightarrow> NativeDone (Inl (Returned kRuntimeInvariant)) m
      | Some trap \<Rightarrow> trap m))"

subsection \<open>Instructions\<close>

text \<open>The operands of an instruction: a member of the union for its opcode.\<close>

fun operand_u8 :: "operands \<Rightarrow> u8" where
  "operand_u8 (ImmediateI8 v) = v" | "operand_u8 (ImmediateU8 v) = v" | "operand_u8 (TypeU8 v) = v"
| "operand_u8 _ = 0"

fun operand_u16 :: "operands \<Rightarrow> u16" where
  "operand_u16 (ImmediateI16 v) = v" | "operand_u16 (ImmediateU16 v) = v" | "operand_u16 (OffsetU16 v) = v"
| "operand_u16 (JumpI16 v) = v" | "operand_u16 _ = 0"

fun operand_u32 :: "operands \<Rightarrow> u32" where
  "operand_u32 (ImmediateI32 v) = v" | "operand_u32 (ImmediateU32 v) = v" | "operand_u32 (ImmediateF32 v) = v"
| "operand_u32 (ImmediateC32 v) = v" | "operand_u32 (AddressU32 v) = v" | "operand_u32 _ = 0"

fun operand_u64 :: "operands \<Rightarrow> u64" where
  "operand_u64 (ImmediateI64 v) = v" | "operand_u64 (ImmediateU64 v) = v" | "operand_u64 (ImmediateF64 v) = v"
| "operand_u64 _ = 0"

fun operand_flags :: "operands \<Rightarrow> u8" where
  "operand_flags (FlagsU8AddressU32 flags address) = flags"
| "operand_flags (FlagsU8AddressU32PlacementU16 flags address placement) = flags"
| "operand_flags _ = 0"

fun operand_address :: "operands \<Rightarrow> u32" where
  "operand_address (FlagsU8AddressU32 flags address) = address"
| "operand_address (FlagsU8AddressU32PlacementU16 flags address placement) = address"
| "operand_address _ = 0"

fun operand_placement :: "operands \<Rightarrow> u16" where
  "operand_placement (FlagsU8AddressU32PlacementU16 flags address placement) = placement"
| "operand_placement _ = 0"

text \<open>The instructions of the switch that only work on the state of the task.\<close>

definition simple_op :: "interp_env \<Rightarrow> task_ptr \<Rightarrow> op_cell \<Rightarrow> unit action option" where
  "simple_op E t op =
    (let G = ie_garbage E; N = ie_endian E; A = ie_arith E; C = ie_calls E; args = operands op
     in case opcode op of
       OP_NOOP \<Rightarrow> Some (act_return ())
     | OP_UNDEF \<Rightarrow> Some (op_immediate t (undef G))
     | OP_NIL \<Rightarrow> Some (op_immediate t (nil G))
     | OP_TRUE \<Rightarrow> Some (op_immediate t (fromBool G True))
     | OP_FALSE \<Rightarrow> Some (op_immediate t (fromBool G False))
     | OP_I8 \<Rightarrow> Some (op_immediate t (fromI8 G (operand_u8 args)))
     | OP_I16 \<Rightarrow> Some (op_immediate t (fromI16 N G (operand_u16 args)))
     | OP_I32 \<Rightarrow> Some (op_immediate t (fromI32 N G (operand_u32 args)))
     | OP_I64 \<Rightarrow> Some (op_immediate t (fromI64 N G (operand_u64 args)))
     | OP_U8 \<Rightarrow> Some (op_immediate t (fromU8 G (operand_u8 args)))
     | OP_U16 \<Rightarrow> Some (op_immediate t (fromU16 N G (operand_u16 args)))
     | OP_U32 \<Rightarrow> Some (op_immediate t (fromU32 N G (operand_u32 args)))
     | OP_U64 \<Rightarrow> Some (op_immediate t (fromU64 N G (operand_u64 args)))
     | OP_F32 \<Rightarrow> Some (op_immediate t (fromF32 N G (operand_u32 args)))
     | OP_F64 \<Rightarrow> Some (op_immediate t (fromF64 N G (operand_u64 args)))
     | OP_C32 \<Rightarrow> Some (op_immediate t (fromC32 N G (operand_u32 args)))
     | OP_DESCRIPTOR \<Rightarrow> Some (op_descriptor E t (operand_flags args) (operand_address args))
     | OP_VA_LOAD \<Rightarrow> Some (op_va_load E t)
     | OP_VA_SIZE \<Rightarrow> Some (op_va_size E t)
     | OP_POP \<Rightarrow> Some (act_drop E t 0)
     | OP_DUP \<Rightarrow> Some (act_bind (act_peek E t 0) (act_push t))
     | OP_PICK \<Rightarrow> Some (act_bind (act_peek E t (uint (operand_u16 args))) (act_push t))
     | OP_DROP \<Rightarrow> Some (act_drop E t (uint (operand_u16 args)))
     | OP_ADD \<Rightarrow> Some (op_binary E t (num_add A))
     | OP_SUB \<Rightarrow> Some (op_binary E t (num_sub A))
     | OP_MUL \<Rightarrow> Some (op_binary E t (num_mul A))
     | OP_DIV \<Rightarrow> Some (op_binary E t (num_div A))
     | OP_NEG \<Rightarrow> Some (op_unary E t (num_neg A))
     | OP_CMP \<Rightarrow> Some (op_cmp E t)
     | OP_LOGICAL_AND \<Rightarrow> Some (op_logical E t (\<and>))
     | OP_LOGICAL_OR \<Rightarrow> Some (op_logical E t (\<or>))
     | OP_LOGICAL_NOT \<Rightarrow> Some (op_logical_not E t)
     | OP_BITWISE_AND \<Rightarrow> Some (op_binary E t (bitwise_and A))
     | OP_BITWISE_OR \<Rightarrow> Some (op_binary E t (bitwise_or A))
     | OP_BITWISE_XOR \<Rightarrow> Some (op_binary E t (bitwise_xor A))
     | OP_BITWISE_NOT \<Rightarrow> Some (op_unary E t (bitwise_not A))
     | OP_BITWISE_SHR \<Rightarrow> Some (op_binary E t (bitwise_shr A))
     | OP_BITWISE_SHL \<Rightarrow> Some (op_binary E t (bitwise_shl A))
     | OP_JUMP \<Rightarrow> Some (op_jump t (operand_u16 args))
     | OP_IF_NIL \<Rightarrow> Some (op_jump_if E t (operand_u16 args) (\<lambda>cmp h. Inr (isNil cmp)))
     | OP_IF_NOTNIL \<Rightarrow> Some (op_jump_if E t (operand_u16 args) (\<lambda>cmp h. Inr (\<not> isNil cmp)))
     | OP_IF_TRUE \<Rightarrow> Some (op_jump_if E t (operand_u16 args) (test_bool True))
     | OP_IF_FALSE \<Rightarrow> Some (op_jump_if E t (operand_u16 args) (test_bool False))
     | OP_IF_ZERO \<Rightarrow> Some (op_jump_if E t (operand_u16 args) (is_zero A))
     | OP_IF_NOTZERO \<Rightarrow> Some (op_jump_if E t (operand_u16 args) (is_not_zero A))
     | OP_IF_LT \<Rightarrow> Some (op_jump_if E t (operand_u16 args) (is_less_than A))
     | OP_IF_LE \<Rightarrow> Some (op_jump_if E t (operand_u16 args) (is_less_or_equal A))
     | OP_IF_GT \<Rightarrow> Some (op_jump_if E t (operand_u16 args) (is_greater_than A))
     | OP_IF_GE \<Rightarrow> Some (op_jump_if E t (operand_u16 args) (is_greater_or_equal A))
     | OP_CALL_STATIC \<Rightarrow> Some (act_call t
         (op_call_static C (operand_address args) (operand_placement args) (operand_flags args)))
     | OP_CALL_VIRTUAL \<Rightarrow> Some (act_call t
         (op_call_virtual C (operand_address args) (operand_placement args) (operand_flags args)))
     | OP_CALL_CONCEPT \<Rightarrow> Some (act_call t
         (op_call_concept C (operand_address args) (operand_placement args) (operand_flags args)))
     | OP_CALL_STUB \<Rightarrow> Some (act_call t
         (op_call_stub C (operand_address args) (operand_placement args) (operand_flags args)))
     | OP_CALL_EXISTENTIAL \<Rightarrow> Some (act_call t
         (op_call_existential C (operand_address args) (operand_placement args) (operand_flags args)))
     | OP_TYPE_OF \<Rightarrow> Some (op_type_of E t)
     | _ \<Rightarrow> None)"

text \<open>The conversions have no \<open>break\<close>: each falls through to the next and the last to \<open>OP_IMPORT\<close>.\<close>

definition conversion_ops :: "interp_env \<Rightarrow> (opcode \<times> (operand \<Rightarrow> heap \<Rightarrow> arith_result)) list" where
  "conversion_ops E =
    (let A = ie_arith E
     in [(OP_TO_I8, convert_to_I8 A), (OP_TO_I16, convert_to_I16 A), (OP_TO_I32, convert_to_I32 A),
       (OP_TO_I64, convert_to_I64 A), (OP_TO_U8, convert_to_U8 A), (OP_TO_U16, convert_to_U16 A),
       (OP_TO_U32, convert_to_U32 A), (OP_TO_U64, convert_to_U64 A), (OP_TO_F32, convert_to_F32 A),
       (OP_TO_F64, convert_to_F64 A)])"

fun fall_through ::
  "interp_env \<Rightarrow> task_ptr \<Rightarrow> (opcode \<times> (operand \<Rightarrow> heap \<Rightarrow> arith_result)) list \<Rightarrow> unit action" where
  "fall_through E t [] = act_fail (Returned kRuntimeInvariant)"
| "fall_through E t ((_, convert) # rest) = act_bind (op_unary E t convert) (\<lambda>_. fall_through E t rest)"

definition op_convert :: "interp_env \<Rightarrow> task_ptr \<Rightarrow> opcode \<Rightarrow> unit action" where
  "op_convert E t code = fall_through E t (dropWhile (\<lambda>(c, _). c \<noteq> code) (conversion_ops E))"

text \<open>How an instruction ends: the loop goes on when native code is done, after a trap with the current
  coroutine read again; the task is done; or \<open>runSubinterpreter\<close> returns.\<close>

datatype op_end =
    OpNative bool native
  | OpTaskDone machine
  | OpLeave "failure + operand" machine

definition state_halt :: "status_code \<Rightarrow> machine \<Rightarrow> (failure + unit) \<times> machine" where
  "state_halt code m =
    (if \<not> mc_active m then (Inl (Returned kRuntimeInvariant), m)
     else (Inr (), m\<lparr>mc_status := code, mc_active := False\<rparr>))"

definition onHalt :: "interp_env \<Rightarrow> machine \<Rightarrow> op_end" where
  "onHalt E m =
    (case m_currentTask (mc_sched m) of
       None \<Rightarrow> OpLeave (Inl UndefinedBehaviour) m
     | Some c \<Rightarrow>
        (case (if dataStackEmpty (machine_coro c m) then (Inr empty_operand, m) else act_pop E c m) of
           (Inl e, m) \<Rightarrow> OpLeave (Inl e) m
         | (Inr mainReturn, m) \<Rightarrow>
            OpLeave (Inr mainReturn)
              (if mc_active m then snd (state_halt StatusOk m) else m)))"

definition op_interrupt :: "interp_env \<Rightarrow> task_ptr \<Rightarrow> machine \<Rightarrow> op_end" where
  "op_interrupt E t m =
    (case (if dataStackEmpty (machine_coro t m) then (Inr empty_operand, m) else act_pop E t m) of
       (Inl e, m) \<Rightarrow> OpLeave (Inl e) m
     | (Inr result, m) \<Rightarrow> OpLeave (Inl (Returned kInterrupted)) m)"

definition op_return :: "interp_env \<Rightarrow> task_ptr \<Rightarrow> machine \<Rightarrow> op_end" where
  "op_return E t m =
    (case peekGuard (machine_coro t m) of
       None \<Rightarrow> OpLeave (Inl AssertionFailed) m
     | Some guard \<Rightarrow>
        let reachedGuard = guard = callStackSize (machine_coro t m);
            m = (if reachedGuard then set_machine_coro t (snd (the (popGuard (machine_coro t m)))) m else m)
        in (case on_calls t (returnToCaller (ie_calls E)) m of
          ((False, NotOk e), m) \<Rightarrow> OpLeave (Inl e) m
        | ((False, Ok), m) \<Rightarrow>
           (case m_currentTask (mc_sched m) of
              None \<Rightarrow> OpLeave (Inl UndefinedBehaviour) m
            | Some currentTask \<Rightarrow>
               if t_isMainTask (m_tasks (mc_sched m) currentTask) then onHalt E m
               else (case terminateTask currentTask (mc_sched m) of
                 Inl e \<Rightarrow> OpLeave (Inl e) m
               | Inr s \<Rightarrow> OpTaskDone (m\<lparr>mc_sched := s\<rparr>)))
        | ((True, _), m) \<Rightarrow>
           if reachedGuard then
             (if dataStackSize (machine_coro t m) > 0 then (case act_pop E t m of (r, m) \<Rightarrow> OpLeave r m)
              else OpLeave (Inr empty_operand) m)
           else OpNative False (NativeDone (Inr ()) m)))"

text \<open>The switch; \<open>None\<close> when a comparison of types does not return.\<close>

definition exec_op :: "interp_env \<Rightarrow> task_ptr \<Rightarrow> op_cell \<Rightarrow> machine \<Rightarrow> op_end option" where
  "exec_op E t op m =
    (case simple_op E t op of
       Some a \<Rightarrow> Some (OpNative False (finish (a m)))
     | None \<Rightarrow>
        let args = operands op; N = (\<lambda>n. Some (OpNative False n))
        in case opcode op of
          OP_BYTES \<Rightarrow> N (ie_object E (LoadBytes (operand_u32 args)) t m)
        | OP_STRING \<Rightarrow> N (ie_object E (LoadString (operand_u32 args)) t m)
        | OP_SYNTHETIC \<Rightarrow> N (op_synthetic E t (operand_u8 args) m)
        | OP_LOAD \<Rightarrow> N (op_load E t (operand_address args) (operand_flags args) m)
        | OP_STORE \<Rightarrow> N (op_store E t (operand_address args) (operand_flags args) m)
        | OP_TYPE_CMP \<Rightarrow> map_option (\<lambda>r. OpNative False (finish r)) (op_type_cmp E t m)
        | OP_RETURN \<Rightarrow> Some (op_return E t m)
        | OP_RAISE \<Rightarrow> map_option (\<lambda>r. OpNative False (finish r)) (op_raise E t (op_offset op) m)
        | OP_TRAP \<Rightarrow> Some (OpNative True (op_trap E t (operand_flags args) (operand_address args) m))
        | OP_NEW \<Rightarrow> N (ie_object E (NewObject (operand_flags args) (operand_address args) (operand_placement args)) t m)
        | OP_INTERRUPT \<Rightarrow> Some (op_interrupt E t m)
        | OP_HALT \<Rightarrow> Some (onHalt E m)
        | OP_ABORT \<Rightarrow> Some (OpLeave (Inl (Returned kAborted)) m)
        | OP_IMPORT \<Rightarrow> Some (OpLeave (Inl (Returned kRuntimeInvariant)) m)
        | code \<Rightarrow>
           if code \<in> fst ` set (conversion_ops E) then N (finish (op_convert E t code m))
           else Some (OpLeave (Inl (Returned kRuntimeInvariant)) m))"

end
