(* ===== verification/InterpreterLoop.thy ===== *)
theory InterpreterLoop
  imports Interpreter
begin

text \<open>
  The loop of \<open>BytecodeInterpreter::runSubinterpreter\<close>, its nested runs, \<open>run\<close>, and the part of
  \<open>InterpreterState\<close> (\<open>interpreter_state.cpp\<close>) that prepares the main task.

  A configuration is where the innermost run is, and the runs that wait for it. A step is one
  iteration of the loop, or one transfer between native code and a run; it is \<open>None\<close> when the code
  does not return: a comparison of types, or a blocking poll that is never ended by a ready task.

  A failed assertion, an exception, undefined behaviour or a fatal message ends all runs; a status is
  returned to the native code that started the run.
\<close>

subsection \<open>Polling\<close>

fun fast_poll :: "interp_env \<Rightarrow> nat \<Rightarrow> machine \<Rightarrow> machine" where
  "fast_poll E 0 m = m"
| "fast_poll E (Suc n) m = (case ie_poll E m of (done, m) \<Rightarrow> if done then m else fast_poll E n m)"

definition select_next :: "machine \<Rightarrow> task_ptr option \<times> machine" where
  "select_next m = (case selectNextReady (mc_sched m) of (t, s) \<Rightarrow> (t, m\<lparr>mc_sched := s\<rparr>))"

definition time_slice :: "interp_env \<Rightarrow> task_ptr option \<Rightarrow> machine \<Rightarrow> task_ptr option \<times> machine" where
  "time_slice E cur m =
    (if mc_slice m > TIME_SLICE then
       let m = snd (select_next (fast_poll E FAST_POLL_ITERATIONS (m\<lparr>mc_slice := 0\<rparr>)))
       in (m_currentTask (mc_sched m), m)
     else (cur, m))"

definition blocking_poll :: "interp_env \<Rightarrow> machine \<Rightarrow> failure + machine" where
  "blocking_poll E m =
    (case fst (blockingPoll id (mc_sched m)) of
       Inl e \<Rightarrow> Inl e
     | Inr waited \<Rightarrow> Inr (if waited then ie_uv_run E m else m))"

partial_function (option) wait_ready :: "interp_env \<Rightarrow> machine \<Rightarrow> (failure + machine) option" where
  "wait_ready E m =
    (case blocking_poll E m of
       Inl e \<Rightarrow> Some (Inl e)
     | Inr m \<Rightarrow>
        (case select_next m of (next, m) \<Rightarrow> if next = None then wait_ready E m else Some (Inr m)))"

text \<open>The coroutine that the next instruction belongs to.\<close>

definition next_coro ::
  "interp_env \<Rightarrow> task_ptr option \<Rightarrow> machine \<Rightarrow> (failure + task_ptr \<times> machine) option" where
  "next_coro E cur m =
    (case cur of
       Some t \<Rightarrow> Some (Inr (t, m))
     | None \<Rightarrow>
        map_option (\<lambda>r. then_do r (\<lambda>m.
          then_do (or_else_fail AssertionFailed (m_currentTask (mc_sched m))) (\<lambda>t. Inr (t, m))))
          (wait_ready E m))"

subsection \<open>Runs\<close>

type_synonym pending_run = "bool \<times> task_ptr option \<times> (failure + operand \<Rightarrow> machine \<Rightarrow> native)"

datatype control_point =
    Entering machine
  | InLoop "task_ptr option" machine
  | InNative bool "task_ptr option" native
  | Leaving "failure + operand" machine
  | Ended "failure + operand" machine

type_synonym run_config = "control_point \<times> pending_run list"

fun is_status :: "failure \<Rightarrow> bool" where
  "is_status (Returned c) \<longleftrightarrow> True"
| "is_status (ReturnedObject c) \<longleftrightarrow> True"
| "is_status _ \<longleftrightarrow> False"

text \<open>\<open>RecursionLocker\<close>, the check of the depth, and the guard.\<close>

definition enter_run :: "machine \<Rightarrow> control_point" where
  "enter_run m =
    (let m = m\<lparr>mc_depth := mc_depth m + 1\<rparr>
     in if mc_depth m > MAX_INTERPRETER_RECURSION then Leaving (Inl (Returned kExceededMaximumRecursion)) m
        else case m_currentTask (mc_sched m) of
          None \<Rightarrow> Leaving (Inl AssertionFailed) m
        | Some t \<Rightarrow>
           (case pushGuard (-1) (machine_coro t m) of
              None \<Rightarrow> Leaving (Inl AssertionFailed) m
            | Some co \<Rightarrow> InLoop (Some t) (set_machine_coro t co m)))"

definition run_op :: "interp_env \<Rightarrow> task_ptr \<Rightarrow> op_cell \<Rightarrow> machine \<Rightarrow> control_point option" where
  "run_op E t op m =
    map_option (\<lambda>r.
      case r of
        OpNative reload native \<Rightarrow> InNative reload (Some t) native
      | OpTaskDone m \<Rightarrow> InLoop None m
      | OpLeave result m \<Rightarrow> Leaving result m) (exec_op E t op m)"

definition run_iteration :: "interp_env \<Rightarrow> task_ptr option \<Rightarrow> machine \<Rightarrow> control_point option" where
  "run_iteration E cur m =
    (let m = m\<lparr>mc_count := mc_count m + 1, mc_slice := mc_slice m + 1\<rparr>;
         (cur, m) = time_slice E cur m
     in case next_coro E cur m of
       None \<Rightarrow> None
     | Some (Inl e) \<Rightarrow> Some (Leaving (Inl e) m)
     | Some (Inr (t, m)) \<Rightarrow>
        if \<not> checkGuard (machine_coro t m) then Some (Leaving (Inl (Returned kRuntimeInvariant)) m)
        else (case nextOp (ie_endian E) (machine_coro t m) of
          (GotOp op, co) \<Rightarrow> run_op E t op (set_machine_coro t co m)
        | (NoOp, co) \<Rightarrow> Some (Leaving (Inl (Returned kRuntimeInvariant)) (set_machine_coro t co m))
        | (Fatal, co) \<Rightarrow> Some (Leaving (Inl AssertionFailed) (set_machine_coro t co m))))"

definition leave_run ::
  "failure + operand \<Rightarrow> machine \<Rightarrow> pending_run list \<Rightarrow> run_config" where
  "leave_run r m runs =
    (if \<exists>e. r = Inl e \<and> \<not> is_status e then (Ended r m, [])
     else let m = m\<lparr>mc_depth := mc_depth m - 1\<rparr>
     in case runs of
       [] \<Rightarrow> (Ended r m, [])
     | (reload, cur, k) # runs \<Rightarrow> (InNative reload cur (k r m), runs))"

fun run_step :: "interp_env \<Rightarrow> run_config \<Rightarrow> run_config option" where
  "run_step E (Entering m, runs) = Some (enter_run m, runs)"
| "run_step E (InLoop cur m, runs) = map_option (\<lambda>c. (c, runs)) (run_iteration E cur m)"
| "run_step E (InNative reload cur (NativeDone (Inr ()) m), runs) =
    Some (InLoop (if reload then m_currentTask (mc_sched m) else cur) m, runs)"
| "run_step E (InNative reload cur (NativeDone (Inl e) m), runs) = Some (Leaving (Inl e) m, runs)"
| "run_step E (InNative reload cur (NativeRun m k), runs) = Some (Entering m, (reload, cur, k) # runs)"
| "run_step E (Leaving r m, runs) = Some (leave_run r m runs)"
| "run_step E (Ended r m, runs) = Some (Ended r m, runs)"

partial_function (option) run_config :: "interp_env \<Rightarrow> run_config \<Rightarrow> ((failure + operand) \<times> machine) option" where
  "run_config E c =
    (case fst c of
       Ended r m \<Rightarrow> Some (r, m)
     | _ \<Rightarrow> (case run_step E c of None \<Rightarrow> None | Some c \<Rightarrow> run_config E c))"

record interpreter_exit =
  ex_status :: status_code
  ex_mainReturn :: operand
  ex_instructionCount :: u64

definition interpreter_run :: "interp_env \<Rightarrow> machine \<Rightarrow> ((failure + interpreter_exit) \<times> machine) option" where
  "interpreter_run E m =
    (if mc_depth m \<noteq> 0 then Some (Inl AssertionFailed, m)
     else map_option (\<lambda>(r, m).
       (then_do r (\<lambda>mainReturn.
          if mc_depth m \<noteq> 0 then Inl AssertionFailed
          else Inr \<lparr>ex_status = mc_status m, ex_mainReturn = mainReturn, ex_instructionCount = mc_count m\<rparr>), m))
       (run_config E (Entering m, [])))"

subsection \<open>Starting\<close>

text \<open>\<open>InterpreterState::load\<close> from the segment of the main module on: the main task gets a frame for
  the entry call, which returns to no instruction, and becomes the current task. The main location
  is the origin of the segment manager; the arguments are strings allocated by \<open>ie_object\<close>'s heap and
  are left out.\<close>

definition entry_frame :: "interp_env \<Rightarrow> nat \<Rightarrow> u32 \<Rightarrow> machine \<Rightarrow> failure + call_cell \<times> bytecode_iterator" where
  "entry_frame E i callIndex m =
    (let s = segment_at (mc_segments m) i; index = word_of_nat (m_segmentIndex s)
     in then_do (or_else_fail (Returned kRuntimeInvariant) (object_getCall (m_object s) callIndex)) (\<lambda>call.
        then_do (parse_proc_info (ce_bytes (ie_calls E)) (od_bytecode (m_object s)) (cd_bytecode_offset call)) (\<lambda>info.
          if pi_arguments info \<noteq> 0 \<or> pi_lexicals info \<noteq> 0 then Inl (Returned kRuntimeInvariant)
          else Inr (make_cell callIndex index (cd_bytecode_offset call) index empty_iterator True 0 0 0
              (pi_locals info) 0 [], make_iterator (pi_code info)))))"

definition start_main :: "interp_env \<Rightarrow> nat \<Rightarrow> call_cell \<Rightarrow> bytecode_iterator \<Rightarrow> machine \<Rightarrow> failure + machine" where
  "start_main E i frame ip m =
    (let main = m_mainTask (mc_sched m);
         co = snd (pushCall (ce_moved (ie_calls E)) frame ip (Some i) (reset_coroutine (machine_coro main m)));
         m = set_machine_coro main co m
     in then_do (resumeTask main (mc_sched m)) (\<lambda>s.
          Inr ((snd (select_next (m\<lparr>mc_sched := s\<rparr>)))\<lparr>mc_status := StatusUnknown, mc_active := True\<rparr>)))"

definition state_load :: "interp_env \<Rightarrow> string \<Rightarrow> string \<Rightarrow> machine \<Rightarrow> (failure + unit) \<times> machine" where
  "state_load E entrySymbol mainLocation m =
    (let N = ie_segments E
     in if \<not> location_valid N mainLocation \<or> location_relative N mainLocation then (Inl (Returned kRuntimeInvariant), m)
        else case get_or_load_segment N mainLocation None False (mc_segments m) of
          (None, d) \<Rightarrow> (Inl (Returned kMissingObject), m\<lparr>mc_segments := d\<rparr>)
        | (Some i, d) \<Rightarrow>
           let m = m\<lparr>mc_segments := d\<rparr>
           in (case od_symbols (m_object (segment_at d i)) entrySymbol of
             None \<Rightarrow> (Inl (Returned kRuntimeMissingSymbol), m)
           | Some (section, callIndex) \<Rightarrow>
              if section \<noteq> LinkageCall then (Inl (Returned kRuntimeInvariant), m)
              else (case then_do (entry_frame E i callIndex m) (\<lambda>(frame, ip). start_main E i frame ip m) of
                Inl e \<Rightarrow> (Inl e, m)
              | Inr m \<Rightarrow> (Inr (), m))))"

end
