(* ===== verification/InterpreterLaws.thy ===== *)
theory InterpreterLaws
  imports InterpreterLoop ExceptionsLaws SchedulerLaws ArithmeticLaws
begin

text \<open>
  The interpreter. What an instruction may change: its own task, the segments by linking and the heap
  by allocating; in its task no frame but the current one changes, a call pushes one frame that
  returns to the next instruction, and only returns and exceptions leave frames. The counter of nested
  runs is their number.
\<close>

subsection \<open>Actions\<close>

lemma act_bind_simps [simp]:
  "a m = (Inl e, m') \<Longrightarrow> act_bind a k m = (Inl e, m')" "a m = (Inr x, m') \<Longrightarrow> act_bind a k m = k x m'"
  by (simp_all add: act_bind_def)

lemma act_bind_cases:
  assumes "act_bind a k m = (r, m')"
  obtains (failed) e where "a m = (Inl e, m')" "r = Inl e"
  | (finished) x m1 where "a m = (Inr x, m1)" "k x m1 = (r, m')"
  using assms by (auto simp: act_bind_def split: prod.splits sum.splits)

lemma machine_coro_set [simp]:
  "machine_coro t (set_machine_coro t co m) = co"
  "t' \<noteq> t \<Longrightarrow> machine_coro t' (set_machine_coro t co m) = machine_coro t' m"
  "machine_coro t (m\<lparr>mc_segments := d\<rparr>) = machine_coro t m" "machine_coro t (m\<lparr>mc_heap := h\<rparr>) = machine_coro t m"
  by (simp_all add: machine_coro_def set_machine_coro_def)

lemma set_machine_coro_fields [simp]:
  "mc_segments (set_machine_coro t co m) = mc_segments m" "mc_heap (set_machine_coro t co m) = mc_heap m"
  "mc_slice (set_machine_coro t co m) = mc_slice m" "mc_count (set_machine_coro t co m) = mc_count m"
  "mc_depth (set_machine_coro t co m) = mc_depth m" "mc_active (set_machine_coro t co m) = mc_active m"
  "mc_status (set_machine_coro t co m) = mc_status m"
  by (simp_all add: set_machine_coro_def)

text \<open>What an instruction of task \<open>t\<close> leaves as it was: everything but the coroutine, the segments and the
  heap.\<close>

definition erase :: "task_ptr \<Rightarrow> machine \<Rightarrow> machine" where
  "erase t m = (set_machine_coro t (new_coroutine 0) m)
    \<lparr>mc_segments := empty_segments, mc_heap := (mc_heap m)\<lparr>h_objects := undefined, h_instances := []\<rparr>\<rparr>"

lemma erase_simps [simp]:
  "erase t (set_machine_coro t co m) = erase t m" "erase t (m\<lparr>mc_segments := d\<rparr>) = erase t m"
  "erase t (m\<lparr>mc_heap := h\<rparr>) = erase t m"
  by (simp_all add: erase_def set_machine_coro_def)

lemma erase_fields:
  assumes "erase t m = erase t m'"
  shows "m_currentTask (mc_sched m') = m_currentTask (mc_sched m)" "t' \<noteq> t \<Longrightarrow> machine_coro t' m' = machine_coro t' m"
    "mc_depth m' = mc_depth m" "mc_slice m' = mc_slice m" "mc_count m' = mc_count m" "mc_active m' = mc_active m"
    "mc_status m' = mc_status m"
proof -
  have fields: "m_currentTask (mc_sched (erase t m)) = m_currentTask (mc_sched m)"
    "t' \<noteq> t \<Longrightarrow> machine_coro t' (erase t m) = machine_coro t' m"
    "mc_depth (erase t m) = mc_depth m" "mc_slice (erase t m) = mc_slice m" "mc_count (erase t m) = mc_count m"
    "mc_active (erase t m) = mc_active m" "mc_status (erase t m) = mc_status m" for m
    by (simp_all add: erase_def set_machine_coro_def machine_coro_def)
  show "m_currentTask (mc_sched m') = m_currentTask (mc_sched m)" "t' \<noteq> t \<Longrightarrow> machine_coro t' m' = machine_coro t' m"
    "mc_depth m' = mc_depth m" "mc_slice m' = mc_slice m" "mc_count m' = mc_count m" "mc_active m' = mc_active m"
    "mc_status m' = mc_status m"
    using fields [of m] fields [of m'] assms by metis+
qed

subsection \<open>Effects\<close>

text \<open>An effect is a relation between the states before and after that is closed under sequences.\<close>

definition has_effect :: "(machine \<Rightarrow> machine \<Rightarrow> bool) \<Rightarrow> 'a action \<Rightarrow> bool" where
  "has_effect R a \<longleftrightarrow> (\<forall>m. R m (snd (a m)))"

lemma has_effectD: "has_effect R a \<Longrightarrow> a m = (r, m') \<Longrightarrow> R m m'"
  by (metis has_effect_def snd_conv)

locale effect =
  fixes R :: "machine \<Rightarrow> machine \<Rightarrow> bool"
  assumes refl: "R m m" and trans: "R m m1 \<Longrightarrow> R m1 m2 \<Longrightarrow> R m m2"
begin

lemma bind:
  assumes "has_effect R a" "\<And>x. has_effect R (k x)"
  shows "has_effect R (act_bind a k)"
  unfolding has_effect_def
proof
  fix m
  obtain r m1 where a: "a m = (r, m1)" by fastforce
  then have "R m m1" using assms(1) unfolding has_effect_def by (metis snd_conv)
  then show "R m (snd (act_bind a k m))"
    using a assms(2) trans by (cases r) (auto simp: act_bind_def has_effect_def)
qed

lemma cond: "has_effect R a \<Longrightarrow> has_effect R b \<Longrightarrow> has_effect R (if c then a else b)"
  by simp

lemma unchanged:
  "has_effect R (act_return x)" "has_effect R (act_fail e)" "has_effect R (act_check e v)"
  "has_effect R (read_task t f)" "has_effect R (act_test g)" "has_effect R (\<lambda>m. (h m, m))"
  by (simp_all add: has_effect_def act_return_def act_fail_def act_check_def read_task_def act_test_def refl)

end

text \<open>The effect on task \<open>t\<close>: its calls keep their control, its guards and its instruction pointer stay,
  its segment stays a loaded one, and segments are only extended. A jump moves the instruction pointer.\<close>

definition machine_ok :: "interp_env \<Rightarrow> task_ptr \<Rightarrow> machine \<Rightarrow> bool" where
  "machine_ok E t m \<longleftrightarrow> segments_ok (ie_segments E) (mc_segments m) \<and>
    (\<exists>sp. m_SP (machine_coro t m) = Some sp \<and> sp < length (sd_segments (mc_segments m)))"

definition calls_of :: "task_ptr \<Rightarrow> machine \<Rightarrow> call_cell list" where
  "calls_of t m = map control (m_callStack (machine_coro t m))"

definition jump_effect :: "interp_env \<Rightarrow> task_ptr \<Rightarrow> machine \<Rightarrow> machine \<Rightarrow> bool" where
  "jump_effect E t m m' \<longleftrightarrow> (machine_ok E t m \<longrightarrow>
    machine_ok E t m' \<and> erase t m' = erase t m \<and> extends (mc_segments m) (mc_segments m') \<and>
    calls_of t m' = calls_of t m \<and> m_guardStack (machine_coro t m') = m_guardStack (machine_coro t m))"

definition local_effect :: "interp_env \<Rightarrow> task_ptr \<Rightarrow> machine \<Rightarrow> machine \<Rightarrow> bool" where
  "local_effect E t m m' \<longleftrightarrow> jump_effect E t m m' \<and>
    (machine_ok E t m \<longrightarrow> m_SP (machine_coro t m') = m_SP (machine_coro t m) \<and> m_IP (machine_coro t m') = m_IP (machine_coro t m))"

interpretation je: effect "jump_effect E t" for E t
  by unfold_locales (auto simp: jump_effect_def extends_refl intro: extends_trans)

interpretation le: effect "local_effect E t" for E t
  by unfold_locales (auto simp: local_effect_def jump_effect_def extends_refl intro: extends_trans)

lemma local_is_jump: "has_effect (local_effect E t) a \<Longrightarrow> has_effect (jump_effect E t) a"
  by (simp add: has_effect_def local_effect_def)

text \<open>An operation on the coroutine that keeps its registers, calls and guards.\<close>

definition keeps_control :: "(stackful_coroutine \<Rightarrow> 'r \<times> stackful_coroutine) \<Rightarrow> bool" where
  "keeps_control f \<longleftrightarrow> (\<forall>co. let co' = snd (f co)
    in m_IP co' = m_IP co \<and> m_SP co' = m_SP co \<and> m_guardStack co' = m_guardStack co \<and>
      map control (m_callStack co') = map control (m_callStack co))"

lemma on_task_effect: "keeps_control f \<Longrightarrow> has_effect (local_effect E t) (on_task t f)"
proof -
  assume f: "keeps_control f"
  have "local_effect E t m (snd (on_task t f m))" for m
  proof -
    obtain r co where r: "f (machine_coro t m) = (r, co)" by fastforce
    have "m_IP co = m_IP (machine_coro t m) \<and> m_SP co = m_SP (machine_coro t m) \<and>
        m_guardStack co = m_guardStack (machine_coro t m) \<and>
        map control (m_callStack co) = map control (m_callStack (machine_coro t m))"
      using f r unfolding keeps_control_def Let_def by (metis snd_conv)
    then show ?thesis
      by (simp add: on_task_def r local_effect_def jump_effect_def machine_ok_def calls_of_def extends_refl)
  qed
  then show ?thesis by (simp add: has_effect_def)
qed

lemma keeps_on_data: "keeps_control (on_data f)"
  by (simp add: keeps_control_def Let_def)

lemma keeps_apfst: "keeps_control f \<Longrightarrow> keeps_control (\<lambda>co. apfst g (f co))"
  by (simp add: keeps_control_def Let_def)

lemma data_effects [intro]:
  "has_effect (local_effect E t) (act_push t v)" "has_effect (local_effect E t) (act_pop E t)"
  "has_effect (local_effect E t) (act_drop E t i)" "has_effect (local_effect E t) (act_peek E t i)"
  "has_effect (local_effect E t) (act_activation t)" "has_effect (local_effect E t) (read_frame t j g)"
  "has_effect (local_effect E t) (act_sp t)"
  unfolding act_push_def act_pop_def act_drop_def pushData_def popData_def dropData_def
    act_peek_def act_activation_def read_frame_def act_sp_def
  by (intro on_task_effect keeps_apfst keeps_on_data le.unchanged)+

lemma update_frame_effect:
  assumes "\<And>c. control (f c) = control c"
  shows "has_effect (local_effect E t) (update_frame t i f)"
proof -
  have "map control (xs[i := f (xs ! i)]) = map control xs" for xs
    by (cases "i < length xs") (simp_all add: map_update assms list_update_same_conv list_update_beyond)
  then show ?thesis
    unfolding update_frame_def by (intro on_task_effect) (simp add: keeps_control_def)
qed

lemma heap_effects [intro]:
  "has_effect (local_effect E t) (act_arith f)" "has_effect (local_effect E t) (\<lambda>m. (h m, m))"
  "has_effect (local_effect E t) (act_test g)" "has_effect (local_effect E t) (act_check e v)"
  "has_effect (local_effect E t) (act_return x)" "has_effect (local_effect E t) (act_fail e)"
  by (auto simp: has_effect_def act_arith_def local_effect_def jump_effect_def machine_ok_def calls_of_def extends_refl
      act_test_def act_check_def act_return_def act_fail_def split: sum.splits)

text \<open>Linking from the segment of the task.\<close>

lemma sp_segments_effect:
  assumes "\<And>d sp. segments_ok (ie_segments E) d \<Longrightarrow> sp < length (sd_segments d) \<Longrightarrow>
    segments_ok (ie_segments E) (snd (f sp d)) \<and> extends d (snd (f sp d))"
  shows "has_effect (local_effect E t) (act_bind (act_sp t) (\<lambda>sp. on_segments (f sp)))"
proof -
  have "local_effect E t m (snd (act_bind (act_sp t) (\<lambda>sp. on_segments (f sp)) m))" for m
  proof (cases "machine_ok E t m")
    case True
    then obtain sp where sp: "m_SP (machine_coro t m) = Some sp" "sp < length (sd_segments (mc_segments m))"
      "segments_ok (ie_segments E) (mc_segments m)"
      by (auto simp: machine_ok_def)
    obtain r d where r: "f sp (mc_segments m) = (r, d)" by fastforce
    have "segments_ok (ie_segments E) d" "extends (mc_segments m) d" using assms [OF sp(3,2)] r by simp_all
    moreover have "sp < length (sd_segments d)" using sp(2) calculation(2) by (simp add: extends_def)
    ultimately show ?thesis
      using sp by (simp add: act_bind_def act_sp_def read_task_def on_segments_def r local_effect_def jump_effect_def
          machine_ok_def calls_of_def)
  qed (simp add: local_effect_def jump_effect_def)
  then show ?thesis by (simp add: has_effect_def)
qed

lemma act_bind_assoc: "act_bind (act_bind a f) g = act_bind a (\<lambda>x. act_bind (f x) g)"
  by (rule ext) (auto simp: act_bind_def split: prod.splits sum.splits)

lemma resolve_effect:
  "has_effect (local_effect E t)
    (act_bind (act_sp t) (\<lambda>sp. on_segments (resolve_descriptor (ie_segments E) sp section address)))"
  by (rule sp_segments_effect) (simp add: resolve_descriptor_ok)

subsection \<open>Call instructions\<close>

definition cs_ok :: "segment_env \<Rightarrow> call_state \<Rightarrow> bool" where
  "cs_ok N cs \<longleftrightarrow> segments_ok N (cs_segments cs) \<and>
    (\<exists>sp. m_SP (cs_coro cs) = Some sp \<and> sp < length (sd_segments (cs_segments cs)))"

definition cs_local :: "segment_env \<Rightarrow> call_state \<Rightarrow> call_state \<Rightarrow> bool" where
  "cs_local N cs cs' \<longleftrightarrow> segments_ok N (cs_segments cs') \<and> extends (cs_segments cs) (cs_segments cs') \<and>
    map control (m_callStack (cs_coro cs')) = map control (m_callStack (cs_coro cs)) \<and>
    m_guardStack (cs_coro cs') = m_guardStack (cs_coro cs) \<and> m_SP (cs_coro cs') = m_SP (cs_coro cs) \<and>
    m_IP (cs_coro cs') = m_IP (cs_coro cs)"

text \<open>The operands are popped, then a call is requested.\<close>

definition local_action :: "segment_env \<Rightarrow> (call_state \<Rightarrow> 'r \<times> call_state) \<Rightarrow> bool" where
  "local_action N f \<longleftrightarrow> (\<forall>cs. cs_ok N cs \<longrightarrow> cs_local N cs (snd (f cs)))"

definition call_action :: "segment_env \<Rightarrow> (call_state \<Rightarrow> (failure + call_result) \<times> call_state) \<Rightarrow> bool" where
  "call_action N g \<longleftrightarrow> (\<forall>cs. cs_ok N cs \<longrightarrow>
    (\<exists>cs1. cs_ok N cs1 \<and> cs_local N cs cs1 \<and> call_outcome N cs1 (finish_op (g cs))))"

lemma cs_local_refl: "cs_ok N cs \<Longrightarrow> cs_local N cs cs"
  by (simp add: cs_local_def cs_ok_def extends_refl)

lemma cs_local_trans: "cs_local N cs cs1 \<Longrightarrow> cs_local N cs1 cs2 \<Longrightarrow> cs_local N cs cs2"
  by (auto simp: cs_local_def intro: extends_trans)

lemma cs_local_ok: "cs_ok N cs \<Longrightarrow> cs_local N cs cs1 \<Longrightarrow> cs_ok N cs1"
  by (auto simp: cs_ok_def cs_local_def extends_def)

lemma local_on_coro: "keeps_control f \<Longrightarrow> local_action N (on_coro f)"
  by (auto simp: local_action_def keeps_control_def on_coro_def cs_local_def cs_ok_def extends_refl Let_def split_beta)

lemma local_bind:
  assumes "local_action N f" "\<And>x. local_action N (g x)"
  shows "local_action N (\<lambda>cs. bind_op (f cs) g)"
  unfolding local_action_def
proof (intro allI impI)
  fix cs assume ok: "cs_ok N cs"
  obtain r cs1 where f: "f cs = (r, cs1)" by fastforce
  have l: "cs_local N cs cs1" using assms(1) ok f unfolding local_action_def by (metis snd_conv)
  have "cs_local N cs1 (snd (g x cs1))" for x
    using assms(2) cs_local_ok [OF ok l] unfolding local_action_def by blast
  then show "cs_local N cs (snd (bind_op (f cs) g))"
    using f l cs_local_trans [OF l] by (cases r) (simp_all add: bind_op_def)
qed

lemma local_case: "(\<And>x y. local_action N (g x y)) \<Longrightarrow> local_action N (case_prod g p)"
  by (cases p) simp

lemma local_pure: "local_action N (\<lambda>cs. (h cs, cs))"
  by (simp add: local_action_def cs_local_refl)

lemma local_if: "local_action N f \<Longrightarrow> local_action N g \<Longrightarrow> local_action N (\<lambda>cs. if b then f cs else g cs)"
  by (cases b) simp_all

lemma call_bind:
  assumes "local_action N f" "\<And>x. call_action N (g x)"
  shows "call_action N (\<lambda>cs. bind_op (f cs) g)"
  unfolding call_action_def
proof (intro allI impI)
  fix cs assume ok: "cs_ok N cs"
  obtain r cs1 where f: "f cs = (r, cs1)" by fastforce
  have l: "cs_local N cs cs1" using assms(1) ok f unfolding local_action_def by (metis snd_conv)
  note ok1 = cs_local_ok [OF ok l]
  show "\<exists>cs1. cs_ok N cs1 \<and> cs_local N cs cs1 \<and> call_outcome N cs1 (finish_op (bind_op (f cs) g))"
  proof (cases r)
    case (Inl e)
    then show ?thesis using f l ok1 by (auto simp: bind_op_def finish_op_def cs_ok_def)
  next
    case (Inr x)
    obtain cs2 where "cs_ok N cs2" "cs_local N cs1 cs2" "call_outcome N cs2 (finish_op (g x cs1))"
      using assms(2) [of x] ok1 unfolding call_action_def by blast
    then show ?thesis using f Inr cs_local_trans [OF l] by (auto simp: bind_op_def)
  qed
qed

lemma call_case: "(\<And>x y. call_action N (g x y)) \<Longrightarrow> call_action N (case_prod g p)"
  by (cases p) simp

lemma call_request:
  assumes "existential_safe C"
  shows "call_action (ce_segments C) (\<lambda>cs. (Inr (request_call C request args cs), cs))"
  unfolding call_action_def
proof (intro allI impI)
  fix cs assume ok: "cs_ok (ce_segments C) cs"
  then obtain sp where "segments_ok (ce_segments C) (cs_segments cs)" "m_SP (cs_coro cs) = Some sp"
    "sp < length (sd_segments (cs_segments cs))"
    by (auto simp: cs_ok_def)
  from request_outcome [OF this assms, of request args]
  have "call_outcome (ce_segments C) cs (finish_op (Inr (request_call C request args cs), cs))"
    by (simp add: finish_op_def)
  then show "\<exists>cs1. cs_ok (ce_segments C) cs1 \<and> cs_local (ce_segments C) cs cs1 \<and>
      call_outcome (ce_segments C) cs1 (finish_op (Inr (request_call C request args cs), cs))"
    using ok cs_local_refl by blast
qed

lemmas call_requests =
  call_request [where request = "CallStatic address" for address, simplified]
  call_request [where request = "CallVirtual receiver address" for receiver address, simplified]
  call_request [where request = "CallStub receiver address" for receiver address, simplified]
  call_request [where request = "CallConcept receiver descriptor address" for receiver descriptor address, simplified]
  call_request [where request = "CallExistential receiver descriptor address" for receiver descriptor address, simplified]

lemma local_pops:
  "local_action N (on_coro (popData g))" "local_action N (on_coro (popDataMany g n))"
  by (intro local_on_coro; simp add: popData_def popDataMany_def keeps_on_data)+

lemma local_operands:
  "local_action N (pop_receiver C)" "local_action N (pop_call_operands C placement flags)"
  "local_action N (forward_rest flags arguments)" "local_action N (pop_descriptor C section)"
proof -
  show r: "local_action N (pop_receiver C)"
    unfolding pop_receiver_def by (intro local_bind local_pops local_if local_pure)
  show "local_action N (pop_call_operands C placement flags)"
    unfolding pop_call_operands_def Let_def by (intro local_bind local_pops local_if local_pure r)
  show "local_action N (forward_rest flags arguments)"
    unfolding forward_rest_def by (intro local_if local_pure)
  have "local_action N (\<lambda>cs. case v of Some (DescriptorRef segment s index) \<Rightarrow>
          if s \<noteq> section then (Inl (Returned kInvalidDataStackV1), cs) else (Inr (DescriptorRef segment s index), cs)
      | _ \<Rightarrow> (Inl (Returned kInvalidDataStackV1), cs))" for v
    by (auto simp: local_action_def cs_local_refl split: option.split descriptor_ref.split)
  then show "local_action N (pop_descriptor C section)"
    unfolding pop_descriptor_def by (intro local_bind local_pops)
qed

definition calls_well :: "segment_env \<Rightarrow> (call_state \<Rightarrow> call_result) \<Rightarrow> bool" where
  "calls_well N f \<longleftrightarrow> (\<forall>cs. cs_ok N cs \<longrightarrow>
    (\<exists>cs1. cs_ok N cs1 \<and> cs_local N cs cs1 \<and> call_outcome N cs1 (f cs)))"

lemma calls_wellI: "call_action N g \<Longrightarrow> calls_well N (\<lambda>cs. finish_op (g cs))"
  by (simp add: calls_well_def call_action_def)

lemma call_ops_well:
  assumes "existential_safe C"
  shows "calls_well (ce_segments C) (op_call_static C address placement flags)"
    "calls_well (ce_segments C) (op_call_virtual C address placement flags)"
    "calls_well (ce_segments C) (op_call_stub C address placement flags)"
    "calls_well (ce_segments C) (op_call_concept C address placement flags)"
    "calls_well (ce_segments C) (op_call_existential C address placement flags)"
  unfolding op_call_static_def op_call_virtual_def op_call_stub_def op_call_concept_def op_call_existential_def
  by (intro calls_wellI call_bind call_case local_pops local_operands call_requests [OF assms])+

lemma initStatic_well: "existential_safe C \<Longrightarrow> calls_well (ce_segments C) (initStatic C address)"
  using call_request [of C "InitStatic address" "[]"]
  by (simp add: calls_well_def call_action_def finish_op_def)

text \<open>A call pushes one frame that returns to the next instruction of the caller, in its segment.\<close>

definition push_effect :: "interp_env \<Rightarrow> task_ptr \<Rightarrow> machine \<Rightarrow> machine \<Rightarrow> bool" where
  "push_effect E t m m' \<longleftrightarrow> (machine_ok E t m \<longrightarrow>
    segments_ok (ie_segments E) (mc_segments m') \<and> erase t m' = erase t m \<and> extends (mc_segments m) (mc_segments m') \<and>
    m_guardStack (machine_coro t m') = m_guardStack (machine_coro t m) \<and>
    (\<exists>frame. calls_of t m' = calls_of t m @ [control frame] \<and> m_returnIP frame = m_IP (machine_coro t m) \<and>
      (\<forall>sp. m_SP (machine_coro t m) = Some sp \<longrightarrow> m_returnSegment frame = word_of_nat sp)))"

lemma act_call_effect:
  assumes f: "calls_well (ie_segments E) f" and ok: "machine_ok E t m" and r: "act_call t f m = (r, m')"
  shows "case r of Inr _ \<Rightarrow> push_effect E t m m' | Inl e \<Rightarrow> local_effect E t m m'"
proof -
  let ?cs = "\<lparr>cs_coro = machine_coro t m, cs_segments = mc_segments m\<rparr>"
  obtain status cs' where c: "f ?cs = (status, cs')" by fastforce
  have m': "r = status_result status" "m' = (set_machine_coro t (cs_coro cs') m)\<lparr>mc_segments := cs_segments cs'\<rparr>"
    using r c by (simp_all add: act_call_def on_calls_def)
  have "cs_ok (ie_segments E) ?cs" using ok by (simp add: machine_ok_def cs_ok_def)
  then obtain cs1 where cs1: "cs_ok (ie_segments E) cs1" "cs_local (ie_segments E) ?cs cs1"
    "call_outcome (ie_segments E) cs1 (status, cs')"
    using f c unfolding calls_well_def by (metis (full_types))
  show ?thesis
  proof (cases status)
    case (NotOk e)
    then have co: "cs_coro cs' = cs_coro cs1" "segments_ok (ie_segments E) (cs_segments cs')"
      "extends (cs_segments cs1) (cs_segments cs')"
      using cs1(3) by (simp_all add: call_outcome_def)
    then have l: "cs_local (ie_segments E) ?cs cs'"
      using cs1(2) unfolding cs_local_def by (auto intro: extends_trans)
    have "cs_ok (ie_segments E) cs'" using cs_local_ok [OF \<open>cs_ok (ie_segments E) ?cs\<close> l] .
    then show ?thesis
      using NotOk m' l by (simp add: local_effect_def jump_effect_def machine_ok_def cs_ok_def cs_local_def calls_of_def)
  next
    case Ok
    then have co: "pushed cs1 cs'" "segments_ok (ie_segments E) (cs_segments cs')"
      "extends (cs_segments cs1) (cs_segments cs')"
      using cs1(3) by (simp_all add: call_outcome_def)
    obtain frame where frame: "map control (m_callStack (cs_coro cs')) = map control (m_callStack (cs_coro cs1)) @ [control frame]"
      "m_returnIP frame = m_IP (cs_coro cs1)" "\<forall>sp. m_SP (cs_coro cs1) = Some sp \<longrightarrow> m_returnSegment frame = word_of_nat sp"
      using co(1) unfolding pushed_def by blast
    have "segments_ok (ie_segments E) (mc_segments m')" using m' co(2) by simp
    moreover have "m_guardStack (cs_coro cs') = m_guardStack (machine_coro t m)"
      using co(1) cs1(2) by (simp add: pushed_def cs_local_def)
    moreover have "calls_of t m' = calls_of t m @ [control frame]" "m_returnIP frame = m_IP (machine_coro t m)"
      "\<forall>sp. m_SP (machine_coro t m) = Some sp \<longrightarrow> m_returnSegment frame = word_of_nat sp"
      using frame cs1(2) m'(2) by (simp_all add: cs_local_def calls_of_def)
    moreover have "extends (mc_segments m) (mc_segments m')"
      using cs1(2) extends_trans [OF _ co(3)] m'(2) by (simp add: cs_local_def)
    ultimately have "push_effect E t m m'" unfolding push_effect_def using m'(2) by auto
    then show ?thesis using Ok m'(1) by simp
  qed
qed

subsection \<open>Instructions\<close>

lemma op_jump_effect: "has_effect (jump_effect E t) (op_jump t delta)"
proof -
  have "jump_effect E t m (snd (op_jump t delta m))" for m
    by (simp add: op_jump_def on_task_def moveIP_def Let_def split_beta jump_effect_def machine_ok_def calls_of_def
        extends_refl)
  then show ?thesis by (simp add: has_effect_def)
qed

lemma immediate_effect: "has_effect (local_effect E t) (op_immediate t v)"
  using data_effects(1) [of E t v] by (simp add: has_effect_def op_immediate_def)

lemma group_effects:
  "has_effect (local_effect E t) (op_binary E t f)" "has_effect (local_effect E t) (op_unary E t g)"
  "has_effect (local_effect E t) (op_cmp E t)" "has_effect (local_effect E t) (op_logical E t h)"
  "has_effect (local_effect E t) (op_logical_not E t)"
  "has_effect (local_effect E t) (op_va_load E t)" "has_effect (local_effect E t) (op_va_size E t)"
  unfolding op_binary_def op_unary_def op_cmp_def op_logical_def op_logical_not_def op_va_load_def op_va_size_def
  by (intro le.bind le.cond data_effects heap_effects)+

lemma jump_if_effect: "has_effect (jump_effect E t) (op_jump_if E t delta test)"
  unfolding op_jump_if_def
  by (intro je.bind je.cond op_jump_effect local_is_jump [OF data_effects(2)] local_is_jump [OF heap_effects(3)]
      local_is_jump [OF heap_effects(5)])

lemma descriptor_effect: "has_effect (local_effect E t) (op_descriptor E t section address)"
proof -
  have "op_descriptor E t section address =
    act_bind (act_bind (act_sp t) (\<lambda>sp. on_segments (resolve_descriptor (ie_segments E) sp
      (descriptor_to_linkage_section section) address))) (\<lambda>r. op_immediate t (ref_operand E r))"
    by (simp add: op_descriptor_def act_bind_assoc)
  then show ?thesis using le.bind [OF resolve_effect immediate_effect] by metis
qed

lemma type_of_effect: "has_effect (local_effect E t) (op_type_of E t)"
proof -
  have "has_effect (local_effect E t) (case r of TypeRef _ _ \<Rightarrow> act_push t (ref_operand E r)
      | DescriptorRef _ _ _ \<Rightarrow> act_fail (Returned kRuntimeInvariant))" for r
    by (cases r) (simp_all add: data_effects heap_effects)
  then show ?thesis unfolding op_type_of_def by (intro le.bind data_effects heap_effects)
qed

definition call_opcodes :: "opcode set" where
  "call_opcodes = {OP_CALL_STATIC, OP_CALL_VIRTUAL, OP_CALL_STUB, OP_CALL_CONCEPT, OP_CALL_EXISTENTIAL}"

lemma simple_effect:
  assumes "simple_op E t op = Some a" "opcode op \<notin> call_opcodes"
  shows "has_effect (jump_effect E t) a"
  using assms
  by (cases "opcode op")
    (auto simp: simple_op_def call_opcodes_def Let_def
      intro!: op_jump_effect jump_if_effect local_is_jump immediate_effect group_effects descriptor_effect type_of_effect
        data_effects heap_effects le.bind)

lemma simple_call:
  assumes "simple_op E t op = Some a" "opcode op \<in> call_opcodes" "existential_safe (ie_calls E)"
  obtains f where "a = act_call t f" "calls_well (ie_segments E) f"
  using assms call_ops_well [OF assms(3)] unfolding call_opcodes_def
  by (elim insertE emptyE) (auto simp: simple_op_def Let_def)

lemma fall_through_effect: "has_effect (local_effect E t) (fall_through E t cs)"
  by (induction cs rule: fall_through.induct [of _ E t])
    (auto intro: le.bind group_effects heap_effects)

lemma fall_through_fails: "\<exists>e m'. fall_through E t cs m = (Inl e, m')"
proof (induction cs arbitrary: m)
  case (Cons c cs)
  obtain r m1 where "op_unary E t (snd c) m = (r, m1)" by fastforce
  then show ?case using Cons [of m1] by (cases c; cases r) auto
qed (simp add: act_fail_def)

lemma pop_types_effect: "has_effect (local_effect E t) (pop_types E t)"
  unfolding pop_types_def act_has_type_def act_type_entry_def by (intro le.bind data_effects heap_effects)

lemma act_check_Inr: "act_check e v m = (Inr x, m') \<longleftrightarrow> v = Some x \<and> m' = m"
  by (auto simp: act_check_def or_else_fail_def split: option.splits)

lemma act_bind_Inr: "act_bind a k m = (Inr x, m') \<longleftrightarrow> (\<exists>y m1. a m = (Inr y, m1) \<and> k y m1 = (Inr x, m'))"
  by (auto simp: act_bind_def split: prod.splits sum.splits)

lemma act_pop_segments: "act_pop E t m = (r, m') \<Longrightarrow> mc_segments m' = mc_segments m"
  by (auto simp: act_pop_def on_task_def split: prod.splits)

lemma pop_types_entries:
  assumes "pop_types E t m = (Inr (lhs, rhs), m')"
  shows "mc_segments m' = mc_segments m" "lhs \<in> range (te_entry (re_types (ie_raise E)))"
    "rhs \<in> range (te_entry (re_types (ie_raise E)))"
  using assms act_pop_segments
  by (auto simp: pop_types_def act_bind_Inr act_has_type_def act_type_entry_def act_check_Inr act_return_def)

lemma type_cmp_effect:
  assumes r: "op_type_cmp E t m = Some (r, m')" and ok: "machine_ok E t m"
    and types: "\<And>a. valid_type (mc_segments m) (te_entry (re_types (ie_raise E)) a)"
  shows "local_effect E t m m'"
proof -
  obtain q m1 where q: "pop_types E t m = (q, m1)" by fastforce
  have l: "local_effect E t m m1" by (rule has_effectD [OF pop_types_effect q])
  show ?thesis
  proof (cases q)
    case (Inl e)
    then show ?thesis using r q l by (simp add: op_type_cmp_def)
  next
    case (Inr p)
    obtain lhs rhs where p: "p = (lhs, rhs)" by fastforce
    note e = pop_types_entries [OF q [unfolded Inr p]]
    have v: "valid_type (mc_segments m1) lhs" "valid_type (mc_segments m1) rhs" using e types by auto
    obtain c d where c: "compareTypes (ie_segments E) lhs rhs (mc_segments m1) = Some (c, d)"
      using r q Inr p by (auto simp: op_type_cmp_def split: option.splits)
    have "segments_ok (ie_segments E) (mc_segments m1)" using ok e(1) by (simp add: machine_ok_def)
    from compareTypes_ok(1,2) [OF this v c]
    have "local_effect E t m1 (m1\<lparr>mc_segments := d\<rparr>)"
      by (auto simp: local_effect_def jump_effect_def machine_ok_def calls_of_def extends_def)
    then have l2: "local_effect E t m (m1\<lparr>mc_segments := d\<rparr>)" using l le.trans by blast
    show ?thesis
    proof (cases c)
      case (Inl e)
      then show ?thesis using r q \<open>q = Inr p\<close> p c l2 by (simp add: op_type_cmp_def)
    next
      case (Inr x)
      then have "m' = snd (act_push t (fromI64 (ie_endian E) (ie_garbage E) (comparison_result x)) (m1\<lparr>mc_segments := d\<rparr>))"
        using r q \<open>q = Inr p\<close> p c by (simp add: op_type_cmp_def)
      then show ?thesis using le.trans [OF l2] data_effects(1) [of E t] unfolding has_effect_def by blast
    qed
  qed
qed

subsection \<open>Leaving frames\<close>

text \<open>Some calls are left from the top, the others keep their control.\<close>

definition leaves_calls :: "stackful_coroutine \<Rightarrow> stackful_coroutine \<Rightarrow> bool" where
  "leaves_calls co co' \<longleftrightarrow> (\<exists>k. map control (m_callStack co') = take k (map control (m_callStack co)))"

lemma leaves_refl: "map control (m_callStack co') = map control (m_callStack co) \<Longrightarrow> leaves_calls co co'"
  unfolding leaves_calls_def by (intro exI [of _ "length (m_callStack co)"]) simp

lemma leaves_trans: "leaves_calls co co1 \<Longrightarrow> leaves_calls co1 co2 \<Longrightarrow> leaves_calls co co2"
  unfolding leaves_calls_def by (metis take_take)

lemma return_leaves: "returnToCaller C cs = (r, cs') \<Longrightarrow> leaves_calls (cs_coro cs) (cs_coro cs')"
  using returnToCaller_calls(2) [of C cs "fst r" "snd r" cs']
  unfolding leaves_calls_def by (intro exI [of _ "length (m_callStack (cs_coro cs)) - 1"]) (simp add: butlast_conv_take take_map)

lemma control_setLocal: "control (setLocal i v c) = control c"
  using control_area_set [of Locals i v c] by (simp add: control_def)

lemma frame_handler_coro: "frame_handler R offset a seg frame cs = Some (r, cs') \<Longrightarrow> cs_coro cs' = cs_coro cs"
  by (auto simp: frame_handler_def Let_def split: if_splits option.splits sum.splits prod.splits)

lemma run_handler_leaves: "run_handler i exc local exception cs = (r, cs') \<Longrightarrow> leaves_calls (cs_coro cs) (cs_coro cs')"
proof (rule leaves_refl)
  assume r: "run_handler i exc local exception cs = (r, cs')"
  let ?calls = "m_callStack (cs_coro cs)"
  have "m_callStack (cs_coro cs') = ?calls[i := setLocal (uint local) exc (?calls ! i)]"
    using r by (auto simp: run_handler_def Let_def transferControl_def split: if_splits)
  then show "map control (m_callStack (cs_coro cs')) = map control ?calls"
    by (cases "i < length ?calls") (simp_all add: map_update control_setLocal list_update_same_conv list_update_beyond)
qed

lemma unwind_leaves: "unwind R offset exc a seg cs = Some (status, cs') \<Longrightarrow> leaves_calls (cs_coro cs) (cs_coro cs')"
proof (induction "length (m_callStack (cs_coro cs))" arbitrary: cs)
  case 0
  then show ?case by (subst (asm) unwind.simps) (auto simp: peekCall_top intro: leaves_refl)
next
  case (Suc n)
  have ne: "m_callStack (cs_coro cs) \<noteq> []" and len: "length (m_callStack (cs_coro cs)) = Suc n"
    using Suc.hyps(2) by auto
  obtain r cs1 where h: "frame_handler R offset a seg (last (m_callStack (cs_coro cs))) cs = Some (r, cs1)"
    using Suc.prems by (auto simp: unwind_step [OF ne] split: option.splits)
  note co = frame_handler_coro [OF h]
  consider e where "r = Inl e" | local exception where "r = Inr (Some (local, exception))" | "r = Inr None"
    by (metis option.exhaust sum.exhaust surj_pair)
  then show ?case
  proof cases
    case (1 e)
    then show ?thesis using Suc.prems h co by (auto simp: unwind_step [OF ne] intro: leaves_refl)
  next
    case (2 local exception)
    then show ?thesis using Suc.prems h co run_handler_leaves [of _ exc local exception cs1 status cs']
      by (auto simp: unwind_step [OF ne])
  next
    case 3
    obtain ok st cs2 where ret: "returnToCaller (re_calls R) cs1 = ((ok, st), cs2)" by (metis surj_pair)
    have l: "leaves_calls (cs_coro cs) (cs_coro cs2)" using return_leaves [OF ret] co by simp
    have "n = length (m_callStack (cs_coro cs2))" using returnToCaller_calls(2) [OF ret] co len by simp
    then show ?thesis
      using Suc.prems h 3 ret l Suc.hyps(1) [of cs2] leaves_trans
      by (cases ok) (auto simp: unwind_step [OF ne])
  qed
qed

lemma raise_leaves: "raise_exception R offset exc cs = Some (status, cs') \<Longrightarrow> leaves_calls (cs_coro cs) (cs_coro cs')"
  using unwind_leaves by (fastforce simp: raise_exception_def intro: leaves_refl split: sum.splits if_splits)

subsection \<open>One instruction\<close>

lemma attach_coros: "task_attach this (st, head) = Some (st', h) \<Longrightarrow> t_coro (st' x) = t_coro (st x)"
  by (auto simp: task_attach_def Let_def split: option.splits)

lemma detach_coros: "task_detach this (st, head) = Some (st', h) \<Longrightarrow> t_coro (st' x) = t_coro (st x)"
  by (auto simp: task_detach_def Let_def split: option.splits if_splits)

lemma queue_coros:
  "attach t q s = Inr s' \<Longrightarrow> t_coro (m_tasks s' x) = t_coro (m_tasks s x)"
  "detach t q s = Inr s' \<Longrightarrow> t_coro (m_tasks s' x) = t_coro (m_tasks s x)"
  using attach_coros detach_coros
  by (cases q; fastforce simp: attach_def detach_def or_else_fail_def split: option.splits)+

lemma terminate_coros:
  assumes "terminateTask t s = Inr s'"
  shows "t_coro (m_tasks s' x) = t_coro (m_tasks s x)"
proof (cases "getState t s = TaskInitial")
  case False
  then obtain s1 s2 where s: "(case getState t s of
            TaskRunning \<Rightarrow> detach t ReadyQueue (s\<lparr>m_currentTask := None\<rparr>)
          | TaskReady \<Rightarrow> detach t ReadyQueue s
          | TaskWaiting \<Rightarrow> detach t WaitQueue s
          | _ \<Rightarrow> Inl LoggedFatal) = Inr s1" "attach t DoneQueue (setState t TaskDone s1) = Inr s2" "s' = signalMonitor t s2"
    using assms by (auto simp: terminateTask_def then_do_Inr)
  have "t_coro (m_tasks s1 x) = t_coro (m_tasks s x)"
    using s(1) queue_coros(2) by (cases "getState t s") fastforce+
  moreover have "t_coro (m_tasks s2 x) = t_coro (m_tasks s1 x)"
    using queue_coros(1) [OF s(2)] by (simp add: setState_def)
  moreover have "t_coro (m_tasks s' x) = t_coro (m_tasks s2 x)"
    by (simp add: s(3) signalMonitor_def split: option.split)
  ultimately show ?thesis by simp
qed (use assms in \<open>simp add: terminateTask_def\<close>)

text \<open>The instructions that are not delegated to the objects and traps of the environment.\<close>

definition own_op :: "op_cell \<Rightarrow> bool" where
  "own_op op \<longleftrightarrow> opcode op \<notin> {OP_BYTES, OP_STRING, OP_TRAP, OP_NEW} \<and>
    (opcode op = OP_SYNTHETIC \<longrightarrow> operand_u8 (operands op) \<noteq> SYNTHETIC_REST) \<and>
    (opcode op = OP_LOAD \<longrightarrow> operand_flags (operands op) \<notin>
      {LOAD_FIELD, LOAD_STATIC, LOAD_INSTANCE, LOAD_ENUM, LOAD_PROTOCOL, LOAD_NAMESPACE}) \<and>
    (opcode op = OP_STORE \<longrightarrow> operand_flags (operands op) \<noteq> STORE_FIELD)"

fun native_machine :: "native \<Rightarrow> machine" where
  "native_machine (NativeDone r m) = m"
| "native_machine (NativeRun m k) = m"

fun end_machine :: "op_end \<Rightarrow> machine" where
  "end_machine (OpNative reload native) = native_machine native"
| "end_machine (OpTaskDone m) = m"
| "end_machine (OpLeave r m) = m"

lemma native_finish [simp]: "native_machine (finish r) = snd r"
  by (simp add: finish_def)

lemma native_bind_machine:
  "a m = (Inl e, m1) \<Longrightarrow> native_machine (native_bind (a m) k) = m1"
  "a m = (Inr x, m1) \<Longrightarrow> native_machine (native_bind (a m) k) = native_machine (k x m1)"
  by (simp_all add: native_bind_def)

lemma native_bind_effect:
  assumes "has_effect (local_effect E t) a" "\<And>x m1. local_effect E t m1 (native_machine (k x m1))"
  shows "local_effect E t m (native_machine (native_bind (a m) k))"
proof -
  obtain r m1 where a: "a m = (r, m1)" by fastforce
  then have "local_effect E t m m1" using assms(1) unfolding has_effect_def by (metis snd_conv)
  then show ?thesis using assms(2) le.trans by (cases r) (auto simp: a native_bind_def)
qed

lemma store_static_effect: "has_effect (local_effect E t) (store_static E t address v)"
  unfolding store_static_def segment_storeStatic_def
proof (rule sp_segments_effect)
  fix d sp assume d: "segments_ok (ie_segments E) d" "sp < length (sd_segments d)"
  obtain q d' where q: "store_slot (ie_segments E) StaticSlot address v sp d = (q, d')" by fastforce
  obtain ok st where "q = (ok, st)" by fastforce
  then show "segments_ok (ie_segments E) (snd (case store_slot (ie_segments E) StaticSlot address v sp d of
        ((ok, Ok), d) \<Rightarrow> (Inr ok, d) | ((ok, NotOk e), d) \<Rightarrow> (Inl e, d))) \<and>
      extends d (snd (case store_slot (ie_segments E) StaticSlot address v sp d of
        ((ok, Ok), d) \<Rightarrow> (Inr ok, d) | ((ok, NotOk e), d) \<Rightarrow> (Inl e, d)))"
    using store_slot_ok [OF d, of StaticSlot address v] q by (cases st) simp_all
qed

lemma local_refl: "local_effect E t m m"
  by (rule le.refl)

lemma local_snd: "has_effect (local_effect E t) a \<Longrightarrow> local_effect E t m (snd (a m))"
  by (simp add: has_effect_def)

lemma frame_setters:
  "control (setArgument i v c) = control c" "control (setLocal i v c) = control c" "control (setLexical i v c) = control c"
  using control_area_set [of Arguments i v c] control_area_set [of Locals i v c] control_area_set [of Lexicals i v c]
  by (simp_all add: control_def)

lemma op_load_effect:
  assumes "own_op op" "opcode op = OP_LOAD"
  shows "local_effect E t m (native_machine (op_load E t address (operand_flags (operands op)) m))"
  unfolding op_load_def
  by (rule native_bind_effect [OF data_effects(5)])
    (use assms in \<open>auto simp: own_op_def Let_def intro!: local_snd le.bind data_effects le.refl simp del: flag_defs\<close>)

lemma op_store_effect:
  assumes "own_op op" "opcode op = OP_STORE"
  shows "local_effect E t m (native_machine (op_store E t address (operand_flags (operands op)) m))"
  unfolding op_store_def
  by (rule native_bind_effect [OF data_effects(5)], rule native_bind_effect [OF data_effects(2)])
    (use assms in \<open>auto simp: own_op_def Let_def frame_setters intro!: local_snd le.bind update_frame_effect
      store_static_effect heap_effects le.refl simp del: flag_defs\<close>)

lemma op_synthetic_effect:
  assumes "own_op op" "opcode op = OP_SYNTHETIC"
  shows "local_effect E t m (native_machine (op_synthetic E t (operand_u8 (operands op)) m))"
  unfolding op_synthetic_def
  by (rule native_bind_effect [OF data_effects(5)])
    (use assms in \<open>auto simp: own_op_def intro!: local_snd le.bind data_effects le.refl simp del: flag_defs\<close>)

text \<open>What an instruction leaves of its task and of the others.\<close>

definition op_effect :: "interp_env \<Rightarrow> task_ptr \<Rightarrow> op_cell \<Rightarrow> machine \<Rightarrow> machine \<Rightarrow> bool" where
  "op_effect E t op m m' \<longleftrightarrow>
    segments_ok (ie_segments E) (mc_segments m') \<and> extends (mc_segments m) (mc_segments m') \<and>
    (\<forall>t'. t' \<noteq> t \<longrightarrow> machine_coro t' m' = machine_coro t' m) \<and>
    (calls_of t m' = calls_of t m \<or>
     opcode op \<in> call_opcodes \<and> (\<exists>frame. calls_of t m' = calls_of t m @ [control frame] \<and>
       m_returnIP frame = m_IP (machine_coro t m)) \<or>
     opcode op \<in> {OP_RETURN, OP_RAISE} \<and> (\<exists>k. calls_of t m' = take k (calls_of t m)))"

lemma jump_op_effect: "machine_ok E t m \<Longrightarrow> jump_effect E t m m' \<Longrightarrow> op_effect E t op m m'"
  using erase_fields(2) [of t m m'] by (auto simp: jump_effect_def op_effect_def machine_ok_def)

lemma local_op_effect: "machine_ok E t m \<Longrightarrow> local_effect E t m m' \<Longrightarrow> op_effect E t op m m'"
  using jump_op_effect by (simp add: local_effect_def)

lemma push_op_effect:
  assumes "machine_ok E t m" "push_effect E t m m'" "opcode op \<in> call_opcodes"
  shows "op_effect E t op m m'"
proof -
  have p: "segments_ok (ie_segments E) (mc_segments m')" "extends (mc_segments m) (mc_segments m')"
    "erase t m = erase t m'"
    "\<exists>frame. calls_of t m' = calls_of t m @ [control frame] \<and> m_returnIP frame = m_IP (machine_coro t m)"
    using assms(1,2) unfolding push_effect_def by auto
  show ?thesis
    unfolding op_effect_def using p(1,2,4) assms(3) erase_fields(2) [OF p(3)] by simp
qed

lemma leave_op_effect:
  assumes "segments_ok (ie_segments E) (mc_segments m')" "extends (mc_segments m) (mc_segments m')"
    and "\<And>t'. t' \<noteq> t \<Longrightarrow> machine_coro t' m' = machine_coro t' m"
    and leaves: "leaves_calls (machine_coro t m) (machine_coro t m')" and op: "opcode op \<in> {OP_RETURN, OP_RAISE}"
  shows "op_effect E t op m m'"
proof -
  have k: "\<exists>k. calls_of t m' = take k (calls_of t m)" using leaves by (simp add: leaves_calls_def calls_of_def)
  show ?thesis
    unfolding op_effect_def
    by (intro conjI allI impI disjI2 assms(1,2) op k) (rule assms(3))
qed

lemma raise_effect:
  assumes r: "op_raise E t offset m = Some (r, m')" and ok: "machine_ok E t m" and op: "opcode op = OP_RAISE"
    and types: "\<And>v a. typeOf (re_types (ie_raise E)) v = Inr a \<Longrightarrow> valid_type (mc_segments m) a"
  shows "op_effect E t op m m'"
proof -
  let ?a = "act_bind (act_pop E t) (\<lambda>exc. act_bind (act_has_type TyStatus kInvalidDataStackV1 exc) (\<lambda>_. act_return exc))"
  obtain q m1 where q: "?a m = (q, m1)" by fastforce
  have "has_effect (local_effect E t) ?a"
    by (rule le.bind [OF data_effects(2)], rule le.bind [OF _ heap_effects(5)]) (simp add: act_has_type_def heap_effects)
  then have l: "local_effect E t m m1" using q by (rule has_effectD)
  then have e: "machine_ok E t m1" "calls_of t m1 = calls_of t m" "extends (mc_segments m) (mc_segments m1)"
    "erase t m = erase t m1"
    using ok by (simp_all add: local_effect_def jump_effect_def)
  note m1 = e(1-3) erase_fields(2) [OF e(4)]
  show ?thesis
  proof (cases q)
    case (Inl e)
    then show ?thesis using r q local_op_effect [OF ok l] by (simp add: op_raise_def)
  next
    case (Inr exc)
    let ?cs = "\<lparr>cs_coro = machine_coro t m1, cs_segments = mc_segments m1\<rparr>"
    obtain status cs where c: "raise_exception (ie_raise E) offset exc ?cs = Some (status, cs)"
      "m' = (set_machine_coro t (cs_coro cs) m1)\<lparr>mc_segments := cs_segments cs\<rparr>"
      using r q Inr by (auto simp: op_raise_def)
    have segs: "segments_ok (ie_segments E) (cs_segments cs) \<and> extends (mc_segments m1) (cs_segments cs)"
    proof (cases "typeOf (re_types (ie_raise E)) exc")
      case (Inl e)
      then show ?thesis using c(1) m1(1) by (auto simp: raise_exception_def machine_ok_def extends_refl)
    next
      case (Inr a)
      have v: "valid_type (cs_segments ?cs) a" using types [OF Inr] valid_type_extends m1(3) by auto
      have s: "segments_ok (ie_segments E) (cs_segments ?cs)" using m1(1) by (simp add: machine_ok_def)
      show ?thesis using c(1) Inr unwind_ok [OF s v, of offset exc _ status cs] s
        by (auto simp: raise_exception_def extends_refl split: if_splits)
    qed
    have "leaves_calls (machine_coro t m1) (machine_coro t m')"
      using raise_leaves [OF c(1)] c(2) by simp
    then have "leaves_calls (machine_coro t m) (machine_coro t m')"
      using m1(2) leaves_trans leaves_refl by (metis calls_of_def)
    then show ?thesis
      using segs c(2) m1 op by (intro leave_op_effect) (auto intro: extends_trans)
  qed
qed

lemma op_effect_same:
  assumes "op_effect E t op m m1" "mc_segments m2 = mc_segments m1" "calls_of t m2 = calls_of t m1"
    and "\<And>x. x \<noteq> t \<Longrightarrow> machine_coro x m2 = machine_coro x m1"
  shows "op_effect E t op m m2"
  using assms by (simp add: op_effect_def)

lemma act_pop_same:
  assumes "act_pop E t m = (r, m1)"
  shows "mc_segments m1 = mc_segments m" "calls_of t m1 = calls_of t m"
    "x \<noteq> t \<Longrightarrow> machine_coro x m1 = machine_coro x m"
proof -
  obtain co where co: "popData (ie_garbage E) (machine_coro t m) = (r, co)" "m1 = set_machine_coro t co m"
    using assms by (auto simp: act_pop_def on_task_def split: prod.splits)
  have "map control (m_callStack co) = map control (m_callStack (machine_coro t m))"
    using keeps_on_data [unfolded keeps_control_def, rule_format] co(1) unfolding popData_def Let_def
    by (metis snd_conv)
  then show "mc_segments m1 = mc_segments m" "calls_of t m1 = calls_of t m"
    "x \<noteq> t \<Longrightarrow> machine_coro x m1 = machine_coro x m"
    by (simp_all add: co(2) calls_of_def)
qed

lemma halt_same:
  "mc_segments (snd (state_halt c m)) = mc_segments m" "machine_coro x (snd (state_halt c m)) = machine_coro x m"
  "calls_of t (snd (state_halt c m)) = calls_of t m"
  by (simp_all add: state_halt_def machine_coro_def calls_of_def)

lemma onHalt_effect:
  assumes "op_effect E t op m m1" "m_currentTask (mc_sched m1) = Some t"
  shows "op_effect E t op m (end_machine (onHalt E m1))"
proof (cases "dataStackEmpty (machine_coro t m1)")
  case True
  then show ?thesis using assms by (auto simp: onHalt_def halt_same intro: op_effect_same)
next
  case False
  obtain r m2 where p: "act_pop E t m1 = (r, m2)" by fastforce
  have "op_effect E t op m m2" using op_effect_same [OF assms(1)] act_pop_same [OF p] by simp
  then show ?thesis
    using False p assms(2) by (cases r) (auto simp: onHalt_def halt_same intro: op_effect_same)
qed

lemma pop_or_empty_effect:
  "local_effect E t m (snd (if b then (Inr empty_operand, m) else act_pop E t m))"
  using data_effects(2) [of E t] by (auto simp: has_effect_def le.refl)

lemma interrupt_effect: "local_effect E t m (end_machine (op_interrupt E t m))"
proof -
  obtain r m1 where p: "(if dataStackEmpty (machine_coro t m) then (Inr empty_operand, m) else act_pop E t m) = (r, m1)"
    by fastforce
  then show ?thesis
    using pop_or_empty_effect [of E t m "dataStackEmpty (machine_coro t m)"]
    by (cases r) (simp_all add: op_interrupt_def)
qed

lemma return_effect:
  assumes ok: "machine_ok E t m" and cur: "m_currentTask (mc_sched m) = Some t" and op: "opcode op = OP_RETURN"
  shows "op_effect E t op m (end_machine (op_return E t m))"
proof (cases "peekGuard (machine_coro t m)")
  case None
  then show ?thesis using local_op_effect [OF ok le.refl] by (simp add: op_return_def)
next
  case (Some guard)
  define reached where "reached = (guard = callStackSize (machine_coro t m))"
  define m0 where "m0 = (if reached then set_machine_coro t (snd (the (popGuard (machine_coro t m)))) m else m)"
  have m0: "calls_of t m0 = calls_of t m" "mc_segments m0 = mc_segments m" "erase t m = erase t m0"
    using Some by (auto simp: m0_def calls_of_def peekGuard_def popGuard_def split: if_splits)
  obtain ok st m1 where r: "on_calls t (returnToCaller (ie_calls E)) m0 = ((ok, st), m1)" by (metis surj_pair)
  obtain cs where cs: "returnToCaller (ie_calls E) \<lparr>cs_coro = machine_coro t m0, cs_segments = mc_segments m0\<rparr> = ((ok, st), cs)"
    "m1 = (set_machine_coro t (cs_coro cs) m0)\<lparr>mc_segments := cs_segments cs\<rparr>"
    using r by (auto simp: on_calls_def split: prod.splits)
  have segs: "mc_segments m1 = mc_segments m" using cs returnToCaller_calls(1) [OF cs(1)] m0(2) by simp
  have erase: "erase t m = erase t m1" using cs(2) m0(3) by simp
  have "leaves_calls (machine_coro t m0) (machine_coro t m1)" using return_leaves [OF cs(1)] cs(2) by simp
  then have leaves: "leaves_calls (machine_coro t m) (machine_coro t m1)"
    using m0(1) by (simp add: leaves_calls_def calls_of_def)
  have m1: "op_effect E t op m m1"
    using ok segs erase_fields(2) [OF erase] leaves op
    by (intro leave_op_effect) (simp_all add: machine_ok_def extends_refl)
  have cur1: "m_currentTask (mc_sched m1) = Some t" using erase_fields(1) [OF erase] cur by simp
  show ?thesis
  proof (cases ok)
    case True
    then show ?thesis
    proof (cases "reached \<and> dataStackSize (machine_coro t m1) > 0")
      case True
      obtain r2 m2 where p: "act_pop E t m1 = (r2, m2)" by fastforce
      have "op_effect E t op m m2" using op_effect_same [OF m1] act_pop_same [OF p] by simp
      then show ?thesis
        using \<open>ok\<close> True Some r p unfolding op_return_def m0_def reached_def by (simp add: Let_def)
    next
      case False
      then show ?thesis
        using \<open>ok\<close> Some r m1 unfolding op_return_def m0_def reached_def by (auto simp: Let_def)
    qed
  next
    case False
    show ?thesis
    proof (cases st)
      case (NotOk e)
      then show ?thesis
        using False Some r m1 unfolding op_return_def m0_def reached_def by (simp add: Let_def)
    next
      case Ok
      show ?thesis
      proof (cases "t_isMainTask (m_tasks (mc_sched m1) t)")
        case True
        then show ?thesis
          using False Ok Some r onHalt_effect [OF m1 cur1] cur1
          unfolding op_return_def m0_def reached_def by (simp add: Let_def)
      next
        case False
        have "op_effect E t op m (m1\<lparr>mc_sched := s\<rparr>)" if "terminateTask t (mc_sched m1) = Inr s" for s
          using op_effect_same [OF m1] terminate_coros [OF that] by (simp add: calls_of_def machine_coro_def)
        then show ?thesis
          using False \<open>\<not> ok\<close> Ok Some r m1 cur1
          unfolding op_return_def m0_def reached_def by (auto simp: Let_def split: sum.split)
      qed
    qed
  qed
qed

subsection \<open>Instructions\<close>

lemma convert_effect: "has_effect (local_effect E t) (op_convert E t code)"
  unfolding op_convert_def by (rule fall_through_effect)

text \<open>A machine whose main task is in a given state, and an environment whose event loop has nothing to
  run.\<close>

definition machine_of :: "call_state \<Rightarrow> machine" where
  "machine_of cs =
    \<lparr>mc_sched = empty_scheduler\<lparr>m_currentTask := Some 0,
       m_tasks := (\<lambda>t. if t = 0 then (new_task True)\<lparr>t_state := TaskRunning, t_coro := cs_coro cs\<rparr> else new_task False)\<rparr>,
     mc_segments = cs_segments cs, mc_heap = empty_heap, mc_slice = 0, mc_count = 0, mc_depth = 0,
     mc_active = True, mc_status = StatusUnknown\<rparr>"

definition quiet_env :: "raise_env \<Rightarrow> interp_env" where
  "quiet_env R =
    \<lparr>ie_raise = R, ie_arith = machine_arith, ie_address = (\<lambda>_. 16),
     ie_object = (\<lambda>_ _ m. NativeDone (Inl (Returned kRuntimeInvariant)) m), ie_trap = (\<lambda>_ _. None),
     ie_poll = (\<lambda>m. (True, m)), ie_uv_run = id\<rparr>"

lemma machine_of_simps [simp]:
  "machine_coro 0 (machine_of cs) = cs_coro cs" "mc_segments (machine_of cs) = cs_segments cs"
  "m_currentTask (mc_sched (machine_of cs)) = Some 0" "mc_depth (machine_of cs) = 0"
  "mc_slice (machine_of cs) = 0"
  by (simp_all add: machine_of_def machine_coro_def)

text \<open>C12. What an instruction may change. An instruction that the interpreter executes itself (all but those
  that allocate objects, enter traps or use object fields), in a linked segment: the coroutines of the other
  tasks stay as they are, the loaded segments stay and their linkage remains sound, and of its own task
  either no frame leaves or enters the call stack, or, for the call instructions, exactly one frame is
  pushed, which returns to the instruction after the call, or, for \<open>RETURN\<close> and \<open>RAISE\<close>, frames are
  popped and those below them are unchanged.\<close>

theorem instruction_effect:
  assumes ok: "machine_ok E t m" and safe: "existential_safe (ie_calls E)"
    and types: "\<And>v a. typeOf (re_types (ie_raise E)) v = Inr a \<Longrightarrow> valid_type (mc_segments m) a"
      "\<And>a. valid_type (mc_segments m) (te_entry (re_types (ie_raise E)) a)"
    and cur: "m_currentTask (mc_sched m) = Some t" and own: "own_op op" and r: "exec_op E t op m = Some r"
  shows "op_effect E t op m (end_machine r)"
proof (cases "simple_op E t op")
  case (Some a)
  then have fin: "end_machine r = snd (a m)" using r by (auto simp: exec_op_def)
  obtain q m' where q: "a m = (q, m')" by fastforce
  show ?thesis
  proof (cases "opcode op \<in> call_opcodes")
    case True
    then obtain f where "a = act_call t f" "calls_well (ie_segments E) f" using simple_call [OF Some _ safe] by blast
    then have "case q of Inr _ \<Rightarrow> push_effect E t m m' | Inl e \<Rightarrow> local_effect E t m m'"
      using act_call_effect ok q by blast
    then show ?thesis
      using push_op_effect [OF ok _ True] local_op_effect [OF ok] fin q by (cases q) auto
  next
    case False
    then show ?thesis using has_effectD [OF simple_effect [OF Some False] q] jump_op_effect [OF ok] fin q by simp
  qed
next
  case None
  have loc: "op_effect E t op m (end_machine r)" if "local_effect E t m (end_machine r)"
    using local_op_effect [OF ok that] .
  have refl: "op_effect E t op m m" using local_op_effect [OF ok le.refl] .
  have conv: "op_effect E t op m (snd (op_convert E t code m))" for code
    using local_op_effect [OF ok] convert_effect unfolding has_effect_def by blast
  have cmp: "op_effect E t op m (snd z)" if "op_type_cmp E t m = Some z" for z
    using type_cmp_effect [of E t m "fst z" "snd z"] that ok types(2) local_op_effect [OF ok] by simp
  have raise: "op_effect E t op m (snd z)" if "opcode op = OP_RAISE" "op_raise E t (op_offset op) m = Some z" for z
    using raise_effect [of E t "op_offset op" m "fst z" "snd z"] that ok types(1) by simp
  have halt: "op_effect E t op m (end_machine (onHalt E m))" using onHalt_effect [OF refl cur] .
  show ?thesis
    using r None own
      loc conv cmp raise halt refl return_effect [OF ok cur] interrupt_effect [of E t m]
      local_op_effect [OF ok op_load_effect [OF own]] local_op_effect [OF ok op_store_effect [OF own]]
      local_op_effect [OF ok op_synthetic_effect [OF own]]
    by (cases "opcode op") (auto simp: exec_op_def own_op_def Let_def split: if_splits)
qed

theorem instruction_effect_witness:
  "let m = machine_of raise_sample; op = \<lparr>opcode = OP_CALL_STATIC, op_offset = 0, op_type = FLAGS_U8_ADDRESS_U32_PLACEMENT_U16,
      operands = FlagsU8AddressU32PlacementU16 0 0 0\<rparr>
   in \<exists>r. exec_op (quiet_env raise_sample_env) 0 op m = Some r \<and>
     op_effect (quiet_env raise_sample_env) 0 op m (end_machine r)"
proof -
  define op where "op = \<lparr>opcode = OP_CALL_STATIC, op_offset = 0, op_type = FLAGS_U8_ADDRESS_U32_PLACEMENT_U16,
      operands = FlagsU8AddressU32PlacementU16 0 0 0\<rparr>"
  let ?E = "quiet_env raise_sample_env" and ?m = "machine_of raise_sample"
  obtain r where r: "exec_op ?E 0 op ?m = Some r" by (simp add: exec_op_def simple_op_def op_def Let_def)
  have "machine_ok ?E 0 ?m"
    using raise_sample_ok(1) by (simp add: machine_ok_def quiet_env_def) (simp add: raise_sample_def)
  moreover have "existential_safe (ie_calls ?E)"
    by (simp add: existential_safe_def quiet_env_def raise_sample_env_def call_sample_env_def)
  moreover have "valid_type (mc_segments ?m) a" if "typeOf (re_types (ie_raise ?E)) v = Inr a" for v a
    using that raise_sample_ok(2)
    by (auto simp: quiet_env_def raise_sample_env_def typeOf_def Let_def then_do_Inr split: operand_type.splits sum.splits)
  moreover have "valid_type (mc_segments ?m) (te_entry (re_types (ie_raise ?E)) a)" for a
    using raise_sample_ok(2) by (simp add: quiet_env_def raise_sample_env_def)
  moreover have "own_op op" by (simp add: own_op_def op_def)
  ultimately have "op_effect ?E 0 op ?m (end_machine r)"
    using instruction_effect [of ?E 0 ?m op r] r by simp
  then show ?thesis using r unfolding op_def Let_def by blast
qed

text \<open>C40. The conversions never succeed: after the conversion that it names, an instruction \<open>TO_I8\<close>, ...,
  \<open>TO_F64\<close> goes on with those that follow it in the switch, pushing a value for each, and ends with the
  error of \<open>IMPORT\<close>, if no conversion has failed before. The interpreter returns an error for every
  program that executes one.\<close>

theorem conversions_always_fail:
  assumes "opcode op \<in> {OP_TO_I8, OP_TO_I16, OP_TO_I32, OP_TO_I64, OP_TO_U8, OP_TO_U16, OP_TO_U32, OP_TO_U64, OP_TO_F32, OP_TO_F64}"
  shows "\<exists>e m'. exec_op E t op m = Some (OpNative False (NativeDone (Inl e) m')) \<and>
    run_op E t op m = Some (InNative False (Some t) (NativeDone (Inl e) m'))"
proof -
  obtain e m' where c: "op_convert E t (opcode op) m = (Inl e, m')"
    using fall_through_fails unfolding op_convert_def by metis
  have "simple_op E t op = None" using assms by (auto simp: simple_op_def Let_def)
  moreover have "opcode op \<in> fst ` set (conversion_ops E)" using assms by (auto simp: conversion_ops_def Let_def)
  ultimately have "exec_op E t op m = Some (OpNative False (NativeDone (Inl e) m'))"
    using assms c by (elim insertE) (auto simp: exec_op_def finish_def Let_def)
  then show ?thesis by (simp add: run_op_def)
qed

theorem conversions_always_fail_witness:
  "\<exists>e m'. exec_op (quiet_env raise_sample_env) 0 (cell_at 0 (OP_TO_I16, NoOperands)) (machine_of raise_sample) =
    Some (OpNative False (NativeDone (Inl e) m'))"
  using conversions_always_fail [of "cell_at 0 (OP_TO_I16, NoOperands)" "quiet_env raise_sample_env" 0 "machine_of raise_sample"]
  by (auto simp: cell_at_def)

end
