(* ===== verification/InterpreterRuns.thy ===== *)
theory InterpreterRuns
  imports InterpreterLaws
begin

text \<open>
  The nested runs of the interpreter: the counter of \<open>RecursionLocker\<close> is their number, which is bounded,
  and a run that returns leaves the counter as it was.
\<close>

subsection \<open>Actions\<close>

definition same_depth :: "machine \<Rightarrow> machine \<Rightarrow> bool" where
  "same_depth m m' \<longleftrightarrow> mc_depth m' = mc_depth m"

interpretation de: effect same_depth
  by unfold_locales (simp_all add: same_depth_def)

lemma primitive_depths [intro]:
  "has_effect same_depth (on_task t f)" "has_effect same_depth (read_task t g)"
  "has_effect same_depth (on_segments h)" "has_effect same_depth (act_call t c)"
  "has_effect same_depth (act_arith a)" "has_effect same_depth (act_test b)" "has_effect same_depth (act_check e v)"
  "has_effect same_depth (act_return x)" "has_effect same_depth (act_fail e)" "has_effect same_depth (\<lambda>m. (p m, m))"
  by (auto simp: has_effect_def same_depth_def on_task_def read_task_def on_segments_def act_call_def on_calls_def
      act_arith_def act_test_def act_check_def act_return_def act_fail_def split: prod.split sum.split)

lemma data_depths [intro]:
  "has_effect same_depth (act_push t v)" "has_effect same_depth (act_pop E t)" "has_effect same_depth (act_drop E t i)"
  "has_effect same_depth (act_peek E t i)" "has_effect same_depth (act_activation t)"
  "has_effect same_depth (read_frame t j g)" "has_effect same_depth (update_frame t j u)" "has_effect same_depth (act_sp t)"
  "has_effect same_depth (op_jump t d)"
  unfolding act_push_def act_pop_def act_drop_def act_peek_def act_activation_def read_frame_def update_frame_def
    act_sp_def op_jump_def
  by (rule primitive_depths)+

lemma immediate_depth [intro]: "has_effect same_depth (op_immediate t v)"
  using data_depths(1) by (simp add: op_immediate_def has_effect_def)

lemma group_depths [intro]:
  "has_effect same_depth (op_binary E t f)" "has_effect same_depth (op_unary E t u)" "has_effect same_depth (op_cmp E t)"
  "has_effect same_depth (op_logical E t l)" "has_effect same_depth (op_logical_not E t)"
  "has_effect same_depth (op_jump_if E t d test)" "has_effect same_depth (op_type_of E t)"
  "has_effect same_depth (op_descriptor E t s a)" "has_effect same_depth (op_va_load E t)"
  "has_effect same_depth (op_va_size E t)" "has_effect same_depth (store_static E t a v)"
  "has_effect same_depth (pop_types E t)"
  unfolding op_binary_def op_unary_def op_cmp_def op_logical_def op_logical_not_def op_jump_if_def op_type_of_def
    op_descriptor_def op_va_load_def op_va_size_def store_static_def pop_types_def act_has_type_def act_type_entry_def
  by (auto intro!: de.bind split: descriptor_ref.split)

lemma simple_depth: "simple_op E t op = Some a \<Longrightarrow> has_effect same_depth a"
  by (cases "opcode op") (auto simp: simple_op_def Let_def intro!: de.bind)

lemma convert_depth: "has_effect same_depth (fall_through E t cs)"
  by (induction cs rule: fall_through.induct [of _ E t]) (auto intro!: de.bind)

lemmas depths = primitive_depths(1-9) data_depths immediate_depth group_depths

subsection \<open>Native code\<close>

text \<open>Native code leaves the counter alone, also after the runs it starts.\<close>

primrec keeps_depth :: "int \<Rightarrow> native \<Rightarrow> bool" where
  "keeps_depth n (NativeDone r m) \<longleftrightarrow> mc_depth m = n"
| "keeps_depth n (NativeRun m k) \<longleftrightarrow> mc_depth m = n \<and> (\<forall>r m'. mc_depth m' = n \<longrightarrow> keeps_depth n (k r m'))"

definition env_keeps_depth :: "interp_env \<Rightarrow> bool" where
  "env_keeps_depth E \<longleftrightarrow>
    (\<forall>op t m. keeps_depth (mc_depth m) (ie_object E op t m)) \<and>
    (\<forall>i address trap m. ie_trap E i address = Some trap \<longrightarrow> keeps_depth (mc_depth m) (trap m)) \<and>
    (\<forall>m. mc_depth (snd (ie_poll E m)) = mc_depth m) \<and> (\<forall>m. mc_depth (ie_uv_run E m) = mc_depth m)"

lemma keeps_finish: "has_effect same_depth a \<Longrightarrow> mc_depth m = n \<Longrightarrow> keeps_depth n (finish (a m))"
  by (simp add: finish_def has_effect_def same_depth_def)

lemma keeps_bind:
  assumes "has_effect same_depth a" "mc_depth m = n" "\<And>x m'. mc_depth m' = n \<Longrightarrow> keeps_depth n (k x m')"
  shows "keeps_depth n (native_bind (a m) k)"
proof -
  obtain r m' where r: "a m = (r, m')" by fastforce
  have "mc_depth m' = n" using has_effectD [OF assms(1) r] assms(2) by (simp add: same_depth_def)
  then show ?thesis using r assms(3) by (cases r) (simp_all add: native_bind_def)
qed

lemma keeps_bind_result:
  "mc_depth m = n \<Longrightarrow> (\<And>x. keeps_depth n (k x m)) \<Longrightarrow> keeps_depth n (native_bind (r, m) k)"
  by (cases r) (simp_all add: native_bind_def)

lemma object_depth: "env_keeps_depth E \<Longrightarrow> mc_depth m = n \<Longrightarrow> keeps_depth n (ie_object E op t m)"
  by (auto simp: env_keeps_depth_def)

lemma load_static_depth: "mc_depth m = n \<Longrightarrow> keeps_depth n (load_static E t address m)"
  unfolding load_static_def
  by (auto intro!: keeps_bind keeps_bind_result keeps_finish de.bind depths)

lemma field_depth:
  assumes "env_keeps_depth E" "mc_depth m = n"
  shows "keeps_depth n (load_field E t address m)" "keeps_depth n (store_field E t address v m)"
  unfolding load_field_def store_field_def using assms(2)
  by (auto intro!: keeps_bind de.bind depths object_depth [OF assms(1)])

lemma trap_depth:
  "env_keeps_depth E \<Longrightarrow> ie_trap E i index = Some trap \<Longrightarrow> mc_depth m = n \<Longrightarrow> keeps_depth n (trap m)"
  by (auto simp: env_keeps_depth_def)

lemma if_depth: "has_effect same_depth a \<Longrightarrow> has_effect same_depth b \<Longrightarrow> has_effect same_depth (\<lambda>m. if c then a m else b m)"
  by (cases c) (simp_all add: has_effect_def)

lemma trap_index_depth:
  "has_effect same_depth (\<lambda>m. if b then (if c then (Inl e, m) else act_bind (act_pop E t) (\<lambda>v. act_check e' (g v)) m)
    else (Inr address, m))"
  by (intro if_depth de.bind data_depths(2) primitive_depths(7,10))

lemma native_depths:
  assumes E: "env_keeps_depth E" and n: "mc_depth m = n"
  shows "keeps_depth n (op_load E t address flags m)" "keeps_depth n (op_store E t address flags m)"
    "keeps_depth n (op_synthetic E t synthetic m)" "keeps_depth n (op_trap E t flags address m)"
proof -
  note object = object_depth [OF E]
  show "keeps_depth n (op_load E t address flags m)"
    unfolding op_load_def Let_def
    using n by (auto intro!: keeps_bind keeps_finish de.bind depths load_static_depth field_depth [OF E] object)
  show "keeps_depth n (op_store E t address flags m)"
    unfolding op_store_def Let_def
    using n by (auto intro!: keeps_bind keeps_finish de.bind depths field_depth [OF E])
  show "keeps_depth n (op_synthetic E t synthetic m)"
    unfolding op_synthetic_def Let_def
    using n by (auto intro!: keeps_bind keeps_finish de.bind depths object)
  show "keeps_depth n (op_trap E t flags address m)"
    unfolding op_trap_def
    by (rule keeps_bind [OF trap_index_depth n], rule keeps_bind [OF data_depths(8)])
      (auto intro: trap_depth [OF E] split: option.split)
qed

subsection \<open>Instructions\<close>

primrec end_depth :: "int \<Rightarrow> op_end \<Rightarrow> bool" where
  "end_depth n (OpNative reload native) \<longleftrightarrow> keeps_depth n native"
| "end_depth n (OpTaskDone m) \<longleftrightarrow> mc_depth m = n"
| "end_depth n (OpLeave r m) \<longleftrightarrow> mc_depth m = n"

lemma pop_depth: "act_pop E t m = (r, m') \<Longrightarrow> mc_depth m' = mc_depth m"
  using has_effectD [OF data_depths(2)] by (simp add: same_depth_def)

lemma halt_depth: "mc_depth m = n \<Longrightarrow> end_depth n (onHalt E m)"
  by (auto simp: onHalt_def state_halt_def split: option.split sum.split prod.split if_splits dest!: pop_depth)

lemma interrupt_depth: "mc_depth m = n \<Longrightarrow> end_depth n (op_interrupt E t m)"
  by (auto simp: op_interrupt_def split: sum.split prod.split if_splits dest!: pop_depth)

lemma on_calls_depth: "on_calls t f m = (r, m') \<Longrightarrow> mc_depth m' = mc_depth m"
  by (auto simp: on_calls_def split: prod.splits)

lemma return_depth: "mc_depth m = n \<Longrightarrow> end_depth n (op_return E t m)"
  unfolding op_return_def Let_def
  by (auto intro!: halt_depth split: option.split prod.split bool.split status.split sum.split
      dest!: on_calls_depth pop_depth)

lemma raise_depth:
  assumes "op_raise E t offset m = Some z" "mc_depth m = n"
  shows "keeps_depth n (finish z)"
proof -
  let ?a = "act_bind (act_pop E t) (\<lambda>exc. act_bind (act_has_type TyStatus kInvalidDataStackV1 exc) (\<lambda>_. act_return exc))"
  obtain q m1 where q: "?a m = (q, m1)" by fastforce
  have "has_effect same_depth ?a"
    unfolding act_has_type_def by (intro de.bind data_depths(2) primitive_depths)
  from has_effectD [OF this q] show ?thesis
    using assms q by (auto simp: op_raise_def same_depth_def finish_def split: sum.splits)
qed

lemma type_cmp_depth:
  assumes "op_type_cmp E t m = Some z" "mc_depth m = n"
  shows "keeps_depth n (finish z)"
proof -
  obtain q m1 where q: "pop_types E t m = (q, m1)" by fastforce
  have m1: "mc_depth m1 = n" using has_effectD [OF group_depths(12) q] assms(2) by (simp add: same_depth_def)
  have push: "keeps_depth n (finish (act_push t v (m1\<lparr>mc_segments := d\<rparr>)))" for v d
    using keeps_finish [OF data_depths(1)] m1 by simp
  show ?thesis
    using assms q m1 push by (auto simp: op_type_cmp_def finish_def split: sum.splits option.splits prod.splits)
qed

lemma exec_depth:
  assumes "env_keeps_depth E" "exec_op E t op m = Some r" "mc_depth m = n"
  shows "end_depth n r"
proof (cases "simple_op E t op")
  case (Some a)
  then show ?thesis using assms keeps_finish [OF simple_depth [OF Some]] by (auto simp: exec_op_def)
next
  case None
  have convert: "keeps_depth n (finish (op_convert E t code m))" for code
    using keeps_finish [OF convert_depth assms(3)] unfolding op_convert_def .
  show ?thesis
    using assms(2,3) None convert raise_depth [OF _ assms(3)] type_cmp_depth [OF _ assms(3)] native_depths [OF assms(1,3)] object_depth [OF assms(1,3)]
      halt_depth [OF assms(3)] interrupt_depth [OF assms(3)] return_depth [OF assms(3)]
    by (cases "opcode op") (auto simp: exec_op_def Let_def split: if_splits)
qed

subsection \<open>Runs\<close>

fun pending_ok :: "pending_run list \<Rightarrow> bool" where
  "pending_ok [] \<longleftrightarrow> True"
| "pending_ok ((reload, cur, k) # runs) \<longleftrightarrow>
    (\<forall>r m. mc_depth m = int (length runs) + 1 \<longrightarrow> keeps_depth (int (length runs) + 1) (k r m)) \<and> pending_ok runs"

text \<open>The counter is the number of runs, the one that executes included.\<close>

fun depth_counts :: "run_config \<Rightarrow> bool" where
  "depth_counts (Entering m, runs) \<longleftrightarrow> mc_depth m = int (length runs) \<and> length runs \<le> 128"
| "depth_counts (InLoop cur m, runs) \<longleftrightarrow> mc_depth m = int (length runs) + 1 \<and> length runs < 128"
| "depth_counts (InNative reload cur native, runs) \<longleftrightarrow> keeps_depth (int (length runs) + 1) native \<and> length runs < 128"
| "depth_counts (Leaving r m, runs) \<longleftrightarrow> mc_depth m = int (length runs) + 1 \<and> length runs \<le> 128"
| "depth_counts (Ended r m, runs) \<longleftrightarrow> runs = [] \<and> (mc_depth m = 0 \<or> (\<exists>e. r = Inl e \<and> \<not> is_status e))"

lemma keeps_depth_machine: "keeps_depth n native \<Longrightarrow> mc_depth (native_machine native) = n"
  by (cases native) simp_all

lemma env_poll: "env_keeps_depth E \<Longrightarrow> ie_poll E m = (b, m') \<Longrightarrow> mc_depth m' = mc_depth m"
  by (metis env_keeps_depth_def snd_conv)

lemma poll_depth: "env_keeps_depth E \<Longrightarrow> mc_depth (fast_poll E n m) = mc_depth m"
  by (induction n arbitrary: m) (auto split: prod.split dest: env_poll)

lemma select_depth: "select_next m = (t, m') \<Longrightarrow> mc_depth m' = mc_depth m"
  by (auto simp: select_next_def split: prod.splits)

lemma slice_depth:
  assumes "env_keeps_depth E" "time_slice E cur m = (cur', m')"
  shows "mc_depth m' = mc_depth m"
proof (cases "mc_slice m > TIME_SLICE")
  case True
  define m1 where "m1 = fast_poll E FAST_POLL_ITERATIONS (m\<lparr>mc_slice := 0\<rparr>)"
  obtain t m2 where s: "select_next m1 = (t, m2)" by fastforce
  then have "m' = m2" using assms(2) True by (simp add: time_slice_def Let_def m1_def)
  then show ?thesis using select_depth [OF s] poll_depth [OF assms(1)] by (simp add: m1_def)
qed (use assms(2) in \<open>simp add: time_slice_def\<close>)

definition depth_kept :: "interp_env \<Rightarrow> machine \<Rightarrow> failure + machine \<Rightarrow> bool" where
  "depth_kept E m r \<longleftrightarrow> (env_keeps_depth E \<longrightarrow> (\<forall>m'. r = Inr m' \<longrightarrow> mc_depth m' = mc_depth m))"

lemma wait_depth: "wait_ready E m = Some r \<Longrightarrow> depth_kept E m r"
proof (erule wait_ready.raw_induct [of depth_kept, rotated], goal_cases)
  case (1 wait E m r)
  show ?case
  proof (cases "blocking_poll E m")
    case (Inl e)
    then show ?thesis using 1(2) by (auto simp: depth_kept_def)
  next
    case (Inr m1)
    obtain sel m2 where n: "select_next m1 = (sel, m2)" by fastforce
    have "env_keeps_depth E \<Longrightarrow> mc_depth m2 = mc_depth m"
      using Inr select_depth [OF n] by (auto simp: blocking_poll_def env_keeps_depth_def split: sum.splits if_splits)
    then show ?thesis
      using 1(2) 1(1) [of E m2 r] Inr n by (auto simp: depth_kept_def split: if_splits)
  qed
qed

lemma next_coro_depth:
  "env_keeps_depth E \<Longrightarrow> next_coro E cur m = Some (Inr (t, m')) \<Longrightarrow> mc_depth m' = mc_depth m"
  using wait_depth by (fastforce simp: next_coro_def then_do_Inr depth_kept_def split: option.splits)

lemma iteration_depth:
  assumes E: "env_keeps_depth E" and r: "run_iteration E cur m = Some c" and n: "mc_depth m = int (length runs) + 1"
    and bound: "length runs < 128"
  shows "depth_counts (c, runs)"
proof -
  obtain cur1 m1 where s: "time_slice E cur (m\<lparr>mc_count := mc_count m + 1, mc_slice := mc_slice m + 1\<rparr>) = (cur1, m1)"
    by fastforce
  have m1: "mc_depth m1 = int (length runs) + 1" using slice_depth [OF E s] n by simp
  have op: "depth_counts (c, runs)"
    if "run_op E t op m2 = Some c" "mc_depth m2 = int (length runs) + 1" for t op m2
  proof -
    obtain r where "exec_op E t op m2 = Some r" "c = (case r of
        OpNative reload native \<Rightarrow> InNative reload (Some t) native
      | OpTaskDone m \<Rightarrow> InLoop None m | OpLeave result m \<Rightarrow> Leaving result m)"
      using \<open>run_op E t op m2 = Some c\<close> by (auto simp: run_op_def)
    moreover have "end_depth (int (length runs) + 1) r"
      by (rule exec_depth [OF E _ \<open>mc_depth m2 = _\<close>]) (fact \<open>exec_op E t op m2 = Some r\<close>)
    ultimately show ?thesis using bound by (cases r) auto
  qed
  show ?thesis
    using r s m1 bound next_coro_depth [OF E, of cur1 m1] op
    by (auto simp: run_iteration_def Let_def split: option.splits sum.splits if_splits prod.splits next_result.splits)
qed

definition counted :: "run_config \<Rightarrow> bool" where
  "counted c \<longleftrightarrow> depth_counts c \<and> pending_ok (snd c)"

lemma enter_counted:
  assumes "mc_depth m = int (length runs)" "length runs \<le> 128"
  shows "depth_counts (enter_run m, runs)"
  using assms by (auto simp: enter_run_def Let_def MAX_INTERPRETER_RECURSION_def split: option.split)

lemma leave_counted:
  assumes "mc_depth m = int (length runs) + 1" "length runs \<le> 128" "pending_ok runs"
  shows "counted (leave_run r m runs)"
  using assms by (cases runs) (auto simp: leave_run_def Let_def counted_def)

lemma step_counted:
  assumes E: "env_keeps_depth E" and c: "counted c" and s: "run_step E c = Some c'"
  shows "counted c'"
proof (cases "(E, c)" rule: run_step.cases)
  case (1 E m runs)
  then show ?thesis using c s enter_counted by (auto simp: counted_def)
next
  case (2 E cur m runs)
  then show ?thesis using c s iteration_depth [OF assms(1)] by (auto simp: counted_def)
next
  case (6 E r m runs)
  then show ?thesis using c s leave_counted [of m runs r] by (auto simp: counted_def)
qed (use c s in \<open>auto simp: counted_def\<close>)

text \<open>The configurations that the interpreter goes through.\<close>

inductive run_reaches :: "interp_env \<Rightarrow> run_config \<Rightarrow> run_config \<Rightarrow> bool" for E where
  reaches_refl: "run_reaches E c c"
| reaches_step: "run_reaches E c c' \<Longrightarrow> run_step E c' = Some c'' \<Longrightarrow> run_reaches E c c''"

lemma reaches_counted:
  assumes "run_reaches E c c'" "env_keeps_depth E" "counted c"
  shows "counted c'"
  using assms by (induction rule: run_reaches.induct) (auto intro: step_counted)

lemma reaches_trans: "run_reaches E c1 c2 \<Longrightarrow> run_reaches E c c1 \<Longrightarrow> run_reaches E c c2"
  by (induction rule: run_reaches.induct) (auto intro: reaches_step)

definition ends_reached :: "interp_env \<Rightarrow> run_config \<Rightarrow> (failure + operand) \<times> machine \<Rightarrow> bool" where
  "ends_reached E c q \<longleftrightarrow> (\<exists>runs. run_reaches E c (Ended (fst q) (snd q), runs))"

lemma run_config_reaches: "run_config E c = Some q \<Longrightarrow> ends_reached E c q"
proof (erule run_config.raw_induct [of ends_reached, rotated], goal_cases)
  case (1 run E c q)
  show ?case
  proof (cases "\<exists>r m. fst c = Ended r m")
    case True
    then show ?thesis using 1(2) unfolding ends_reached_def by (cases c) (auto intro!: exI [of _ "snd c"] reaches_refl)
  next
    case False
    then obtain c1 where s: "run_step E c = Some c1" "run E c1 = Some q"
      using 1(2) by (auto split: control_point.splits option.splits)
    then show ?thesis
      using 1(1) [OF s(2)] reaches_trans reaches_step [OF reaches_refl s(1)] unfolding ends_reached_def by blast
  qed
qed

fun running_machine :: "control_point \<Rightarrow> machine option" where
  "running_machine (InLoop cur m) = Some m"
| "running_machine (InNative reload cur native) = Some (native_machine native)"
| "running_machine _ = None"

lemma counted_running: "counted (point, runs) \<Longrightarrow> running_machine point = Some m \<Longrightarrow> mc_depth m = int (length runs) + 1"
  by (cases point) (auto simp: counted_def dest: keeps_depth_machine)

lemma counted_bound: "counted (point, runs) \<Longrightarrow> length runs \<le> 128"
  by (cases point) (auto simp: counted_def)

lemma run_ends_counted:
  assumes "env_keeps_depth E" "mc_depth m = 0" "run_config E (Entering m, []) = Some (r, m')"
  shows "mc_depth m' = 0 \<or> (\<exists>e. r = Inl e \<and> \<not> is_status e)"
proof -
  have "counted (Entering m, [])" using assms(2) by (simp add: counted_def)
  moreover obtain runs where "run_reaches E (Entering m, []) (Ended r m', runs)"
    using run_config_reaches [OF assms(3)] by (auto simp: ends_reached_def)
  ultimately show ?thesis using reaches_counted [OF _ assms(1)] by (force simp: counted_def)
qed

text \<open>C30. Native code that leaves the counter of nested runs alone (\<open>env_keeps_depth\<close>) can not nest more than
  128 runs: wherever the interpreter gets from a fresh start, at most 128 runs wait for the innermost one,
  and the counter of a run that executes is the number of runs. When the interpreter returns an operand or a
  status the counter is back at zero; and the assertion at the end of \<open>run\<close> holds: a failed assertion comes
  from the runs themselves.\<close>

theorem nested_runs_bounded:
  assumes "env_keeps_depth E" "mc_depth m = 0"
  shows "(run_reaches E (Entering m, []) (point, runs) \<longrightarrow>
      length runs \<le> 128 \<and> (\<forall>m'. running_machine point = Some m' \<longrightarrow> mc_depth m' = int (length runs) + 1)) \<and>
    (interpreter_run E m = Some (r, m') \<longrightarrow> (\<exists>exit. r = Inr exit) \<or> (\<exists>e. r = Inl e \<and> is_status e) \<longrightarrow> mc_depth m' = 0) \<and>
    (interpreter_run E m = Some (Inl AssertionFailed, m') \<longrightarrow> run_config E (Entering m, []) = Some (Inl AssertionFailed, m'))"
proof (intro conjI)
  have start: "counted (Entering m, [])" using assms(2) by (simp add: counted_def)
  show "run_reaches E (Entering m, []) (point, runs) \<longrightarrow>
      length runs \<le> 128 \<and> (\<forall>m'. running_machine point = Some m' \<longrightarrow> mc_depth m' = int (length runs) + 1)"
    using reaches_counted [OF _ assms(1) start] counted_bound counted_running by blast
  have run: "interpreter_run E m = map_option (\<lambda>(r, m).
       (then_do r (\<lambda>mainReturn.
          if mc_depth m \<noteq> 0 then Inl AssertionFailed
          else Inr \<lparr>ex_status = mc_status m, ex_mainReturn = mainReturn, ex_instructionCount = mc_count m\<rparr>), m))
       (run_config E (Entering m, []))"
    using assms(2) by (simp add: interpreter_run_def)
  show "interpreter_run E m = Some (r, m') \<longrightarrow> (\<exists>exit. r = Inr exit) \<or> (\<exists>e. r = Inl e \<and> is_status e) \<longrightarrow> mc_depth m' = 0"
  proof (intro impI)
    assume r: "interpreter_run E m = Some (r, m')" and returned: "(\<exists>exit. r = Inr exit) \<or> (\<exists>e. r = Inl e \<and> is_status e)"
    from r obtain q where q: "run_config E (Entering m, []) = Some (q, m')"
      "r = then_do q (\<lambda>mainReturn. if mc_depth m' \<noteq> 0 then Inl AssertionFailed
        else Inr \<lparr>ex_status = mc_status m', ex_mainReturn = mainReturn, ex_instructionCount = mc_count m'\<rparr>)"
      unfolding run by auto
    have "q = Inl e \<Longrightarrow> r = Inl e" for e using q(2) by simp
    then show "mc_depth m' = 0" using run_ends_counted [OF assms q(1)] returned by auto
  qed
  show "interpreter_run E m = Some (Inl AssertionFailed, m') \<longrightarrow> run_config E (Entering m, []) = Some (Inl AssertionFailed, m')"
  proof
    assume "interpreter_run E m = Some (Inl AssertionFailed, m')"
    then obtain q where q: "run_config E (Entering m, []) = Some (q, m')"
      "q = Inl AssertionFailed \<or> mc_depth m' \<noteq> 0 \<and> (\<exists>v. q = Inr v)"
      unfolding run by (cases "fst (the (run_config E (Entering m, [])))") (auto split: if_splits)
    then show "run_config E (Entering m, []) = Some (Inl AssertionFailed, m')"
      using run_ends_counted [OF assms q(1)] by auto
  qed
qed

theorem nested_runs_bounded_witness:
  "\<exists>m'. run_reaches (quiet_env raise_sample_env) (Entering (machine_of raise_sample), []) (InLoop (Some 0) m', []) \<and>
    mc_depth m' = 1"
proof -
  let ?E = "quiet_env raise_sample_env" and ?m = "machine_of raise_sample"
  obtain m' where e: "enter_run ?m = InLoop (Some 0) m'"
    by (simp add: enter_run_def Let_def MAX_INTERPRETER_RECURSION_def pushGuard_def raise_sample_def callStackSize_def new_coroutine_def
        machine_of_def machine_coro_def)
  have "run_reaches ?E (Entering ?m, []) (InLoop (Some 0) m', [])"
    using reaches_step [OF reaches_refl, of ?E "(Entering ?m, [])"] e by simp
  moreover have "env_keeps_depth ?E" by (simp add: env_keeps_depth_def quiet_env_def)
  ultimately show ?thesis
    using nested_runs_bounded [of ?E ?m "InLoop (Some 0) m'" "[]"] by auto
qed

end
