(* ===== verification/StraightLine.thy ===== *)
theory StraightLine
  imports InterpreterRuns BytecodeBuilder
begin

text \<open>
  Code and execution together: an integer expression is emitted with \<open>BytecodeBuilder\<close>, in the postfix
  order of the stack machine, followed by \<open>RETURN\<close>, and run by the interpreter as the entry call of the main
  task. The value that the interpreter returns is the value of the expression, computed without words and
  without a stack; where it leaves the range of its type the interpreter reports the error.
\<close>

subsection \<open>A value on the stack\<close>

text \<open>What a getter reads of an operand is in the bytes that the stack keeps.\<close>

definition narrow :: "int_type \<Rightarrow> bool" where
  "narrow \<tau> \<longleftrightarrow> \<tau> \<in> {T_I8, T_I16, T_U8, T_U16, T_U32}"

lemma getBytes_cases:
  assumes "getBytes v \<noteq> []" "operand_wf v"
  obtains (small) "getOverlay v = SmallValue" "getBytes v = drop 4 (m_bytes v)" "length (getBytes v) = 4"
  | (whole) "getOverlay v \<noteq> SmallValue" "getBytes v = m_bytes v" "length (getBytes v) = 8"
  using assms by (cases "getOverlay v") (simp_all add: getBytes_def operand_wf_def)

lemma nth_from: "drop i xs = drop i ys \<Longrightarrow> i \<le> j \<Longrightarrow> length xs = length ys \<Longrightarrow> j < length xs \<Longrightarrow> xs ! j = ys ! j"
  by (metis add_diff_inverse_nat hd_drop_conv_nth drop_drop le_add_diff_inverse2)

lemma drop_from: "drop i xs = drop i ys \<Longrightarrow> i \<le> j \<Longrightarrow> drop j xs = drop j ys"
  by (metis drop_drop le_add_diff_inverse2)

lemma same_bytes_value:
  assumes v: "operand_wf v" and w: "operand_wf w" and b: "getBytes v = getBytes w" "getBytes v \<noteq> []" and \<tau>: "narrow \<tau>"
  shows "operand_to_int R h \<tau> v = operand_to_int R h \<tau> w"
proof -
  have wne: "getBytes w \<noteq> []" using b by simp
  show ?thesis
    using b(2) v
  proof (cases rule: getBytes_cases)
    case small
    with b(1) wne w have w': "getOverlay w = SmallValue" "getBytes w = drop 4 (m_bytes w)"
      by (auto elim!: getBytes_cases)
    have d: "drop 4 (m_bytes v) = drop 4 (m_bytes w)" using small w' b(1) by simp
    have l: "length (m_bytes v) = 8" "length (m_bytes w) = 8" using v w by (simp_all add: operand_wf_def)
    have "m_bytes v ! 7 = m_bytes w ! 7" "m_bytes v ! 6 = m_bytes w ! 6" "drop 5 (m_bytes v) = drop 5 (m_bytes w)"
      using d l nth_from [OF d, of 7] nth_from [OF d, of 6] drop_from [OF d, of 5] by simp_all
    then show ?thesis
      using \<tau> small(1) w'(1) d
      by (auto simp: narrow_def operand_to_int_def getI8_def getU8_def getI16_def getU16_def getU32_def get_info_byte_def get_info_tag_def Let_def)
  next
    case whole
    with b(1) wne w have "getBytes w = m_bytes w" by (auto elim!: getBytes_cases)
    then have "m_bytes v = m_bytes w" using whole b(1) by simp
    then have "v = w" by (cases v; cases w) simp
    then show ?thesis by simp
  qed
qed

lemma narrow_heap: "narrow \<tau> \<Longrightarrow> operand_to_int R h \<tau> v = operand_to_int R h' \<tau> v"
  by (auto simp: narrow_def operand_to_int_def Let_def)

definition holds :: "arith_env \<Rightarrow> int_type \<Rightarrow> u8 list \<Rightarrow> int \<Rightarrow> bool" where
  "holds R \<tau> b n \<longleftrightarrow> (\<forall>g h. length g = 8 \<longrightarrow> operand_to_int R h \<tau> (parse_operand g b) = Some n)"

context arith
begin

lemma int_operand_wf: "narrow \<tau> \<Longrightarrow> operand_wf (fst (int_to_operand R \<tau> n h))"
  using garbage
  by (auto simp: narrow_def int_to_operand_def fromI8_def fromU8_def fromI16_def fromU16_def fromU32_def
      operand_wf_def copy_at_def or_at_def native_u16 native_u32 big_u32 Let_def)

lemma int_operand_holds:
  assumes \<tau>: "narrow \<tau>" and n: "in_range \<tau> n"
  shows "getBytes (fst (int_to_operand R \<tau> n h)) \<noteq> []" "length (getBytes (fst (int_to_operand R \<tau> n h))) \<le> 8"
    "holds R \<tau> (getBytes (fst (int_to_operand R \<tau> n h))) n"
proof -
  let ?v = "fst (int_to_operand R \<tau> n h)"
  have wf: "operand_wf ?v" using int_operand_wf [OF \<tau>] .
  have "kept \<tau> n = n" using \<tau> by (auto simp: narrow_def kept_def lost_def)
  then have val: "operand_to_int R h' \<tau> ?v = Some n" for h'
    using int_roundtrip [OF n, of h] narrow_heap [OF \<tau>] by metis
  show ne: "getBytes ?v \<noteq> []"
  proof
    assume "getBytes ?v = []"
    then have "getOverlay ?v = OverlayInvalid"
      using wf by (cases "getOverlay ?v") (auto simp: getBytes_def operand_wf_def)
    then have "getType ?v = TyInvalid" by (simp add: getType_def)
    then show False using stored_type [of \<tau> n h] by simp
  qed
  then show "length (getBytes ?v) \<le> 8" using wf by (auto elim!: getBytes_cases)
  show "holds R \<tau> (getBytes ?v) n"
    unfolding holds_def
  proof (intro allI impI)
    fix g :: "u8 list" and h' assume g: "length g = 8"
    note p = parse_value_bytes [OF g getBytes_value_bytes [OF wf ne]]
    show "operand_to_int R h' \<tau> (parse_operand g (getBytes ?v)) = Some n"
      using same_bytes_value [OF p(2) wf _ _ \<tau>] p(1) ne val by metis
  qed
qed

lemma apply_exact:
  assumes a: "operand_to_int R h \<tau> lhs = Some a" and b: "operand_to_int R h \<tau> rhs = Some b"
  shows "apply_by_type R kind lhs rhs h = (case exact_in kind \<tau> a b of
    None \<Rightarrow> Inl (Returned kRuntimeInvariant) | Some v \<Rightarrow> Inr (int_to_operand R \<tau> v h))"
  using operand_type(1) [OF a] a b checked [OF operand_type(2) [OF a] operand_type(2) [OF b]]
  by (auto simp: apply_by_type_def apply_checked_def get_binary_operands_def)

end

lemma exact_in_range: "exact_in kind \<tau> a b = Some v \<Longrightarrow> in_range \<tau> v"
  by (auto simp: exact_in_def split: option.splits if_splits)

subsection \<open>Expressions\<close>

datatype int_expr = Const int | Apply checked_op int_expr int_expr

fun expr_value :: "int_type \<Rightarrow> int_expr \<Rightarrow> int option" where
  "expr_value \<tau> (Const n) = Some n"
| "expr_value \<tau> (Apply kind a b) =
    (case (expr_value \<tau> a, expr_value \<tau> b) of (Some x, Some y) \<Rightarrow> exact_in kind \<tau> x y | _ \<Rightarrow> None)"

fun expr_ok :: "int_type \<Rightarrow> int_expr \<Rightarrow> bool" where
  "expr_ok \<tau> (Const n) \<longleftrightarrow> in_range \<tau> n"
| "expr_ok \<tau> (Apply kind a b) \<longleftrightarrow> expr_ok \<tau> a \<and> expr_ok \<tau> b"

text \<open>The most values that are on the stack at once.\<close>

fun expr_depth :: "int_expr \<Rightarrow> nat" where
  "expr_depth (Const n) = 1"
| "expr_depth (Apply kind a b) = max (expr_depth a) (expr_depth b + 1)"

fun emit_const :: "endian_lib \<Rightarrow> int_type \<Rightarrow> int \<Rightarrow> bytecode_builder \<Rightarrow> built" where
  "emit_const E T_I8 n = loadI8 (word_of_int n)"
| "emit_const E T_I16 n = loadI16 E (word_of_int n)"
| "emit_const E T_I32 n = loadI32 E (word_of_int n)"
| "emit_const E T_I64 n = loadI64 E (word_of_int n)"
| "emit_const E T_U8 n = loadU8 (word_of_int n)"
| "emit_const E T_U16 n = loadU16 E (word_of_int n)"
| "emit_const E T_U32 n = loadU32 E (word_of_int n)"
| "emit_const E T_U64 n = loadU64 E (word_of_int n)"

fun kind_opcode :: "checked_op \<Rightarrow> opcode" where
  "kind_opcode CheckedAdd = OP_ADD" | "kind_opcode CheckedSubtract = OP_SUB"
| "kind_opcode CheckedMultiply = OP_MUL" | "kind_opcode CheckedDivide = OP_DIV"

fun emit_expr :: "endian_lib \<Rightarrow> int_type \<Rightarrow> int_expr \<Rightarrow> bytecode_builder \<Rightarrow> built" where
  "emit_expr E \<tau> (Const n) b = emit_const E \<tau> n b"
| "emit_expr E \<tau> (Apply kind l r) b =
    and_then (emit_expr E \<tau> l b) (\<lambda>b. and_then (emit_expr E \<tau> r b) (writeOpcode (kind_opcode kind)))"

text \<open>The instructions that are emitted.\<close>

fun const_instr :: "int_type \<Rightarrow> int \<Rightarrow> instr" where
  "const_instr T_I8 n = (OP_I8, ImmediateI8 (word_of_int n))"
| "const_instr T_I16 n = (OP_I16, ImmediateI16 (word_of_int n))"
| "const_instr T_I32 n = (OP_I32, ImmediateI32 (word_of_int n))"
| "const_instr T_I64 n = (OP_I64, ImmediateI64 (word_of_int n))"
| "const_instr T_U8 n = (OP_U8, ImmediateU8 (word_of_int n))"
| "const_instr T_U16 n = (OP_U16, ImmediateU16 (word_of_int n))"
| "const_instr T_U32 n = (OP_U32, ImmediateU32 (word_of_int n))"
| "const_instr T_U64 n = (OP_U64, ImmediateU64 (word_of_int n))"

fun expr_instrs :: "int_type \<Rightarrow> int_expr \<Rightarrow> instr list" where
  "expr_instrs \<tau> (Const n) = [const_instr \<tau> n]"
| "expr_instrs \<tau> (Apply kind a b) = expr_instrs \<tau> a @ expr_instrs \<tau> b @ [(kind_opcode kind, NoOperands)]"

abbreviation code_of :: "instr list \<Rightarrow> u8 list" where
  "code_of is \<equiv> concat (map instr_bytes is)"

context endian
begin

lemma emit_const_appends: "emit_const E \<tau> n b = (Ok, b\<lparr>m_code := m_code b @ instr_bytes (const_instr \<tau> n)\<rparr>)"
  by (cases \<tau>) (simp_all add: builder_defs big instr_bytes_def)

lemma emit_expr_appends: "emit_expr E \<tau> e b = (Ok, b\<lparr>m_code := m_code b @ code_of (expr_instrs \<tau> e)\<rparr>)"
proof (induction e arbitrary: b)
  case (Apply kind l r)
  then show ?case by (cases kind) (simp_all add: builder_defs instr_bytes_def)
qed (simp add: emit_const_appends)

end

lemma const_instr_ok: "instr_ok (const_instr \<tau> n)"
  by (cases \<tau>) (simp_all add: instr_ok_def opcode_wf_def LAST_OPCODE_def ops_def)

lemma kind_instr_ok: "instr_ok (kind_opcode kind, NoOperands)"
  by (cases kind) (simp_all add: instr_ok_def opcode_wf_def LAST_OPCODE_def ops_def)

subsection \<open>A task that has the event loop to itself\<close>

definition quiet :: "interp_env \<Rightarrow> bool" where
  "quiet E \<longleftrightarrow> (\<forall>m. snd (ie_poll E m) = m)"

definition at_point :: "task_ptr \<Rightarrow> nat \<Rightarrow> u8 list \<Rightarrow> machine \<Rightarrow> nat \<Rightarrow> u8 list list \<Rightarrow> bool" where
  "at_point t cap code m pos vs \<longleftrightarrow>
    m_currentTask (mc_sched m) = Some t \<and> t_next (m_tasks (mc_sched m) t) = None \<and>
    checkGuard (machine_coro t m) \<and> iterates (m_IP (machine_coro t m)) code pos \<and>
    stack_repr cap (m_operandStack (machine_coro t m)) vs"

definition same_frame :: "task_ptr \<Rightarrow> machine \<Rightarrow> machine \<Rightarrow> bool" where
  "same_frame t m m' \<longleftrightarrow>
    m_SP (machine_coro t m') = m_SP (machine_coro t m) \<and> m_callStack (machine_coro t m') = m_callStack (machine_coro t m) \<and>
    m_guardStack (machine_coro t m') = m_guardStack (machine_coro t m) \<and>
    t_isMainTask (m_tasks (mc_sched m') t) = t_isMainTask (m_tasks (mc_sched m) t) \<and>
    mc_segments m' = mc_segments m \<and> mc_active m' = mc_active m \<and> mc_depth m' = mc_depth m"

interpretation sf: effect "same_frame t" for t
  by unfold_locales (simp_all add: same_frame_def)

lemma quiet_poll_same: "quiet E \<Longrightarrow> ie_poll E m = (b, m') \<Longrightarrow> m' = m"
  by (metis quiet_def snd_conv)

lemma quiet_poll: "quiet E \<Longrightarrow> fast_poll E n m = m"
  by (induction n) (auto split: prod.split dest: quiet_poll_same)

lemma alone_selects:
  "m_currentTask (mc_sched m) = Some t \<Longrightarrow> t_next (m_tasks (mc_sched m) t) = None \<Longrightarrow> select_next m = (Some t, m)"
  by (simp add: select_next_def selectNextReady_def)

lemma run_config_step:
  "run_step E c = Some c' \<Longrightarrow> (\<And>r m. fst c \<noteq> Ended r m) \<Longrightarrow> run_config E c = run_config E c'"
  by (subst run_config.simps) (simp split: control_point.split)

lemma run_config_ended [simp]: "run_config E (Ended r m, runs) = Some (r, m)"
  by (subst run_config.simps) simp

definition ticked :: "machine \<Rightarrow> machine" where
  "ticked m = m\<lparr>mc_count := mc_count m + 1,
     mc_slice := (if mc_slice m + 1 > TIME_SLICE then 0 else mc_slice m + 1)\<rparr>"

lemma ticked_simps [simp]:
  "mc_sched (ticked m) = mc_sched m" "machine_coro t (ticked m) = machine_coro t m" "mc_heap (ticked m) = mc_heap m"
  "mc_segments (ticked m) = mc_segments m" "mc_active (ticked m) = mc_active m" "mc_depth (ticked m) = mc_depth m"
  by (simp_all add: ticked_def machine_coro_def)

lemma alone_iteration:
  assumes E: "quiet E" "endian (ie_endian E)" and m: "at_point t cap (pre @ instr_bytes i @ post) m (length pre) vs"
    and i: "instr_ok i"
  obtains m2 where "run_iteration E (Some t) m = run_op E t (cell_at (length pre) i) m2"
    "at_point t cap (pre @ instr_bytes i @ post) m2 (length (pre @ instr_bytes i)) vs" "same_frame t m m2" "mc_heap m2 = mc_heap m"
proof -
  let ?code = "pre @ instr_bytes i @ post" and ?co = "machine_coro t m"
  have it: "iterates (m_IP ?co) ?code (length pre)" using m by (simp add: at_point_def)
  have slice: "time_slice E (Some t) (m\<lparr>mc_count := mc_count m + 1, mc_slice := mc_slice m + 1\<rparr>) = (Some t, ticked m)"
    using m E(1) by (auto simp: time_slice_def Let_def quiet_poll alone_selects ticked_def at_point_def)
  note next_instr = endian.next_at_instr [OF E(2) i, of pre post]
  let ?ip = "(m_IP ?co)\<lparr>m_curr := word_of_nat (length pre + length (instr_bytes i))\<rparr>"
  have op: "nextOp (ie_endian E) ?co = (GotOp (cell_at (length pre) i), ?co\<lparr>m_IP := ?ip\<rparr>)"
    using getNext_eq [OF it, of "ie_endian E"] by (simp add: nextOp_def next_instr)
  have ip: "iterates ?ip ?code (length (pre @ instr_bytes i))"
    using iterates_set_curr [OF it, of "length (pre @ instr_bytes i)"] by simp
  define m2 where "m2 = set_machine_coro t (?co\<lparr>m_IP := ?ip\<rparr>) (ticked m)"
  have m2: "mc_sched m2 = modify_task t (t_coro_update (\<lambda>_. ?co\<lparr>m_IP := ?ip\<rparr>)) (mc_sched m)"
    by (simp add: m2_def set_machine_coro_def)
  show thesis
  proof
    have g: "checkGuard ?co" using m by (simp add: at_point_def)
    show "run_iteration E (Some t) m = run_op E t (cell_at (length pre) i) m2"
      unfolding run_iteration_def Let_def slice by (simp add: next_coro_def op g m2_def)
    show "at_point t cap ?code m2 (length (pre @ instr_bytes i)) vs"
      using m ip by (simp add: at_point_def m2 machine_coro_def checkGuard_def)
    show "same_frame t m m2" by (simp add: same_frame_def m2_def set_machine_coro_def machine_coro_def)
    show "mc_heap m2 = mc_heap m" by (simp add: m2_def)
  qed
qed

subsection \<open>Instructions on the data stack\<close>

definition data_set :: "task_ptr \<Rightarrow> operand_stack \<Rightarrow> machine \<Rightarrow> machine" where
  "data_set t s m = set_machine_coro t ((machine_coro t m)\<lparr>m_operandStack := s\<rparr>) m"

lemma data_set_point:
  "at_point t cap code m pos vs \<Longrightarrow> stack_repr cap s vs' \<Longrightarrow> at_point t cap code (data_set t s m) pos vs'"
  by (simp add: at_point_def data_set_def machine_coro_def set_machine_coro_def checkGuard_def)

lemma data_set_frame: "same_frame t m (data_set t s m)"
  by (simp add: same_frame_def data_set_def machine_coro_def set_machine_coro_def)

lemma data_set_heap [simp]: "mc_heap (data_set t s m) = mc_heap m"
  by (simp add: data_set_def)

lemma push_at:
  assumes m: "at_point t cap code m pos vs" and v: "operand_wf v" "getBytes v \<noteq> []"
    and room: "length (concat vs) + length (getBytes v) \<le> cap"
  obtains m' where "act_push t v m = (Inr (), m')" "at_point t cap code m' pos (getBytes v # vs)" "same_frame t m m'"
    "mc_heap m' = mc_heap m"
proof -
  have r: "stack_repr cap (m_operandStack (machine_coro t m)) vs" using m by (simp add: at_point_def)
  obtain s where s: "pushOperand v (m_operandStack (machine_coro t m)) = (Ok, s)"
    using push_repr(1) [OF r v(1)] v(2) room by auto
  have "stack_repr cap s (getBytes v # vs)" using push_repr(2) [OF r v(1,2) room] s by simp
  moreover have "act_push t v m = (Inr (), data_set t s m)"
    using s by (simp add: act_push_def on_task_def pushData_def on_data_def data_set_def)
  ultimately show thesis
    by (intro that [of "data_set t s m"]) (simp_all add: data_set_point [OF m] data_set_frame)
qed

lemma pop_at:
  assumes m: "at_point t cap code m pos (b # vs)"
  obtains m' where "act_pop E t m = (Inr (parse_operand (ie_garbage E) b), m')" "at_point t cap code m' pos vs" "same_frame t m m'"
    "mc_heap m' = mc_heap m"
proof -
  have r: "stack_repr cap (m_operandStack (machine_coro t m)) (b # vs)" using m by (simp add: at_point_def)
  define s where "s = popped (length b) (m_operandStack (machine_coro t m))"
  have "stack_repr cap s vs" using repr_popped(4) [OF r] by (simp add: s_def)
  moreover have "act_pop E t m = (Inr (parse_operand (ie_garbage E) b), data_set t s m)"
    using pop_repr [OF r, of "ie_garbage E"]
    by (simp add: act_pop_def on_task_def popData_def on_data_def data_set_def s_def)
  ultimately show thesis
    by (intro that [of "data_set t s m"]) (simp_all add: data_set_point [OF m] data_set_frame)
qed

lemma heap_at: "at_point t cap code m pos vs \<Longrightarrow> at_point t cap code (m\<lparr>mc_heap := h\<rparr>) pos vs"
  by (simp add: at_point_def machine_coro_def)

lemma heap_frame: "same_frame t m (m\<lparr>mc_heap := h\<rparr>)"
  by (simp add: same_frame_def machine_coro_def)

text \<open>The environment agrees on endianness and on the bytes that padding has.\<close>

definition consistent :: "interp_env \<Rightarrow> bool" where
  "consistent E \<longleftrightarrow> arith (ie_arith E) \<and> quiet E \<and> ae_endian (ie_arith E) = ie_endian E \<and>
    ae_garbage (ie_arith E) = ie_garbage E"

lemma consistent_facts:
  assumes "consistent E"
  shows "arith (ie_arith E)" "quiet E" "endian (ie_endian E)" "length (ie_garbage E) = 8"
  using assms arith.axioms(1) [of "ie_arith E"] arith.garbage [of "ie_arith E"] by (auto simp: consistent_def)

lemma const_at:
  assumes E: "consistent E" and \<tau>: "narrow \<tau>" and n: "in_range \<tau> n"
    and m: "at_point t cap code m pos vs" and room: "length (concat vs) + 8 \<le> cap"
    and op: "op = cell_at i (const_instr \<tau> n)"
  obtains b m' where "exec_op E t op m = Some (OpNative False (NativeDone (Inr ()) m'))"
    "at_point t cap code m' pos (b # vs)" "length b \<le> 8" "holds (ie_arith E) \<tau> b n" "same_frame t m m'"
proof -
  let ?v = "fst (int_to_operand (ie_arith E) \<tau> n (mc_heap m))"
  note h = arith.int_operand_holds [OF consistent_facts(1) [OF E] \<tau> n, of "mc_heap m"]
  obtain m' where p: "act_push t ?v m = (Inr (), m')" "at_point t cap code m' pos (getBytes ?v # vs)" "same_frame t m m'"
    by (rule push_at [OF m arith.int_operand_wf [OF consistent_facts(1) [OF E] \<tau>] h(1)]) (use h(2) room in linarith)+
  have "simple_op E t op = Some (op_immediate t ?v)"
    using \<tau> E by (auto simp: op simple_op_def cell_at_def narrow_def int_to_operand_def consistent_def Let_def)
  then have "exec_op E t op m = Some (OpNative False (NativeDone (Inr ()) m'))"
    using p(1) by (simp add: exec_op_def op_immediate_def finish_def)
  then show thesis using that p h(2,3) by blast
qed

lemma num_ops:
  "num_add R = apply_by_type R CheckedAdd" "num_sub R = apply_by_type R CheckedSubtract"
  "num_mul R = apply_by_type R CheckedMultiply" "num_div R = apply_by_type R CheckedDivide"
  by (simp_all add: fun_eq_iff num_add_def num_sub_def num_mul_def num_div_def)

lemma binary_at:
  assumes E: "consistent E" and \<tau>: "narrow \<tau>" and m: "at_point t cap code m pos (b2 # b1 # vs)"
    and v: "holds (ie_arith E) \<tau> b1 x" "holds (ie_arith E) \<tau> b2 y" and room: "length (concat vs) + 8 \<le> cap"
    and op: "op = cell_at i (kind_opcode kind, NoOperands)"
  obtains (exact) z b m' where "exact_in kind \<tau> x y = Some z"
      "exec_op E t op m = Some (OpNative False (NativeDone (Inr ()) m'))"
      "at_point t cap code m' pos (b # vs)" "length b \<le> 8" "holds (ie_arith E) \<tau> b z" "same_frame t m m'"
  | (fails) m' where "exact_in kind \<tau> x y = None"
      "exec_op E t op m = Some (OpNative False (NativeDone (Inl (Returned kRuntimeInvariant)) m'))"
proof -
  let ?R = "ie_arith E" and ?g = "ie_garbage E"
  obtain m1 where m1: "act_pop E t m = (Inr (parse_operand ?g b2), m1)" "at_point t cap code m1 pos (b1 # vs)" "same_frame t m m1"
    using pop_at [OF m] by metis
  obtain m2 where m2: "act_pop E t m1 = (Inr (parse_operand ?g b1), m2)" "at_point t cap code m2 pos vs" "same_frame t m1 m2"
    using pop_at [OF m1(2)] by metis
  have "simple_op E t op = Some (op_binary E t (apply_by_type ?R kind))"
    by (cases kind) (simp_all add: op simple_op_def cell_at_def num_ops Let_def)
  then have exec: "exec_op E t op m = Some (OpNative False (finish
      (act_bind (act_arith (apply_by_type ?R kind (parse_operand ?g b1) (parse_operand ?g b2))) (act_push t) m2)))"
    using m1(1) m2(1) by (simp add: exec_op_def op_binary_def)
  note res = arith.apply_exact [OF consistent_facts(1) [OF E],
      of "mc_heap m2" \<tau> "parse_operand ?g b1" x "parse_operand ?g b2" y kind]
  have operands: "operand_to_int ?R h \<tau> (parse_operand ?g b1) = Some x" "operand_to_int ?R h \<tau> (parse_operand ?g b2) = Some y" for h
    using v consistent_facts(4) [OF E] by (simp_all add: holds_def)
  show thesis
  proof (cases "exact_in kind \<tau> x y")
    case None
    then have "act_bind (act_arith (apply_by_type ?R kind (parse_operand ?g b1) (parse_operand ?g b2))) (act_push t) m2 =
        (Inl (Returned kRuntimeInvariant), m2)"
      using res operands by (simp add: act_arith_def)
    then show thesis using fails None exec by (simp add: finish_def)
  next
    case (Some z)
    let ?v = "fst (int_to_operand ?R \<tau> z (mc_heap m2))" and ?h = "snd (int_to_operand ?R \<tau> z (mc_heap m2))"
    note h = arith.int_operand_holds [OF consistent_facts(1) [OF E] \<tau> exact_in_range [OF Some], of "mc_heap m2"]
    obtain m' where p: "act_push t ?v (m2\<lparr>mc_heap := ?h\<rparr>) = (Inr (), m')" "at_point t cap code m' pos (getBytes ?v # vs)"
      "same_frame t (m2\<lparr>mc_heap := ?h\<rparr>) m'"
      by (rule push_at [OF heap_at [OF m2(2)] arith.int_operand_wf [OF consistent_facts(1) [OF E] \<tau>] h(1)])
        (use h(2) room in linarith)+
    have "act_arith (apply_by_type ?R kind (parse_operand ?g b1) (parse_operand ?g b2)) m2 = (Inr ?v, m2\<lparr>mc_heap := ?h\<rparr>)"
      using res operands Some by (simp add: act_arith_def split: prod.split)
    then have "exec_op E t op m = Some (OpNative False (NativeDone (Inr ()) m'))"
      using exec p(1) by (simp add: finish_def)
    moreover have "same_frame t m m'"
      using m1(3) m2(3) p(3) heap_frame sf.trans by metis
    ultimately show thesis using exact Some p(2) h(2,3) by blast
  qed
qed

subsection \<open>Running\<close>

lemma run_native:
  assumes "run_iteration E (Some t) m = run_op E t op m2" "exec_op E t op m2 = Some (OpNative False (NativeDone r m3))"
  shows "run_config E (InLoop (Some t) m, runs) =
    run_config E (case r of Inr _ \<Rightarrow> InLoop (Some t) m3 | Inl e \<Rightarrow> Leaving (Inl e) m3, runs)"
proof -
  have "run_step E (InLoop (Some t) m, runs) = Some (InNative False (Some t) (NativeDone r m3), runs)"
    using assms by (simp add: run_op_def)
  then have "run_config E (InLoop (Some t) m, runs) = run_config E (InNative False (Some t) (NativeDone r m3), runs)"
    by (rule run_config_step) simp
  also have "\<dots> = run_config E (case r of Inr _ \<Rightarrow> InLoop (Some t) m3 | Inl e \<Rightarrow> Leaving (Inl e) m3, runs)"
    by (rule run_config_step) (cases r; simp)+
  finally show ?thesis .
qed

text \<open>Running the code of an expression: its value is pushed, or the run is left with the error.\<close>

definition runs_to ::
  "interp_env \<Rightarrow> task_ptr \<Rightarrow> nat \<Rightarrow> int_type \<Rightarrow> u8 list \<Rightarrow> machine \<Rightarrow> nat \<Rightarrow> u8 list list \<Rightarrow> int option \<Rightarrow> bool" where
  "runs_to E t cap \<tau> code m pos vs r \<longleftrightarrow>
    (case r of
       Some n \<Rightarrow> \<exists>b m'. (\<forall>runs. run_config E (InLoop (Some t) m, runs) = run_config E (InLoop (Some t) m', runs)) \<and>
         at_point t cap code m' pos (b # vs) \<and> length b \<le> 8 \<and> holds (ie_arith E) \<tau> b n \<and> same_frame t m m'
     | None \<Rightarrow> \<exists>m'. \<forall>runs. run_config E (InLoop (Some t) m, runs) =
         run_config E (Leaving (Inl (Returned kRuntimeInvariant)) m', runs))"

lemma run_const:
  assumes E: "consistent E" and \<tau>: "narrow \<tau>" and n: "in_range \<tau> n"
    and m: "at_point t cap (pre @ instr_bytes (const_instr \<tau> n) @ post) m (length pre) vs"
    and room: "length (concat vs) + 8 \<le> cap"
  shows "runs_to E t cap \<tau> (pre @ instr_bytes (const_instr \<tau> n) @ post) m
    (length (pre @ instr_bytes (const_instr \<tau> n))) vs (Some n)"
proof -
  obtain m2 where m2: "run_iteration E (Some t) m = run_op E t (cell_at (length pre) (const_instr \<tau> n)) m2"
    "at_point t cap (pre @ instr_bytes (const_instr \<tau> n) @ post) m2 (length (pre @ instr_bytes (const_instr \<tau> n))) vs"
    "same_frame t m m2"
    by (rule alone_iteration [OF consistent_facts(2,3) [OF E] m const_instr_ok])
  obtain b m3 where m3: "exec_op E t (cell_at (length pre) (const_instr \<tau> n)) m2 = Some (OpNative False (NativeDone (Inr ()) m3))"
    "at_point t cap (pre @ instr_bytes (const_instr \<tau> n) @ post) m3 (length (pre @ instr_bytes (const_instr \<tau> n))) (b # vs)"
    "length b \<le> 8" "holds (ie_arith E) \<tau> b n" "same_frame t m2 m3"
    by (rule const_at [OF E \<tau> n m2(2) room refl])
  show ?thesis
    unfolding runs_to_def using run_native [OF m2(1) m3(1)] m3(2-5) sf.trans [OF m2(3)] by auto
qed

lemma run_kind:
  assumes E: "consistent E" and \<tau>: "narrow \<tau>"
    and m: "at_point t cap (pre @ instr_bytes (kind_opcode kind, NoOperands) @ post) m (length pre) (b2 # b1 # vs)"
    and v: "holds (ie_arith E) \<tau> b1 x" "holds (ie_arith E) \<tau> b2 y" and room: "length (concat vs) + 8 \<le> cap"
  shows "runs_to E t cap \<tau> (pre @ instr_bytes (kind_opcode kind, NoOperands) @ post) m
    (length (pre @ instr_bytes (kind_opcode kind, NoOperands))) vs (exact_in kind \<tau> x y)"
proof -
  let ?op = "cell_at (length pre) (kind_opcode kind, NoOperands)"
  obtain m2 where m2: "run_iteration E (Some t) m = run_op E t ?op m2"
    "at_point t cap (pre @ instr_bytes (kind_opcode kind, NoOperands) @ post) m2
      (length (pre @ instr_bytes (kind_opcode kind, NoOperands))) (b2 # b1 # vs)" "same_frame t m m2"
    by (rule alone_iteration [OF consistent_facts(2,3) [OF E] m kind_instr_ok])
  show ?thesis
    using E \<tau> m2(2) v room refl [of ?op]
  proof (cases rule: binary_at)
    case (exact z b m3)
    then show ?thesis
      unfolding runs_to_def using run_native [OF m2(1) exact(2)] sf.trans [OF m2(3)] by auto
  next
    case (fails m3)
    then show ?thesis unfolding runs_to_def using run_native [OF m2(1) fails(2)] by auto
  qed
qed

lemma runs_to_trans:
  assumes "\<And>runs. run_config E (InLoop (Some t) m, runs) = run_config E (InLoop (Some t) m1, runs)" "same_frame t m m1"
    and "runs_to E t cap \<tau> code m1 pos vs r"
  shows "runs_to E t cap \<tau> code m pos vs r"
  using assms sf.trans [OF assms(2)] unfolding runs_to_def by (cases r) fastforce+

lemma run_expr:
  assumes E: "consistent E" and \<tau>: "narrow \<tau>"
  shows "expr_ok \<tau> e \<Longrightarrow> at_point t cap (pre @ code_of (expr_instrs \<tau> e) @ post) m (length pre) vs \<Longrightarrow>
    length (concat vs) + 8 * expr_depth e \<le> cap \<Longrightarrow>
    runs_to E t cap \<tau> (pre @ code_of (expr_instrs \<tau> e) @ post) m (length (pre @ code_of (expr_instrs \<tau> e))) vs (expr_value \<tau> e)"
proof (induction e arbitrary: pre post m vs)
  case (Const n)
  then show ?case using run_const [OF E \<tau>, of n t cap pre post m vs] by simp
next
  case (Apply kind l r)
  let ?l = "code_of (expr_instrs \<tau> l)" and ?r = "code_of (expr_instrs \<tau> r)"
  let ?k = "instr_bytes (kind_opcode kind, NoOperands)"
  let ?code = "pre @ ?l @ ?r @ ?k @ post"
  have room: "length (concat vs) + 8 * expr_depth l \<le> cap" "length (concat vs) + 8 + 8 * expr_depth r \<le> cap"
    "length (concat vs) + 8 \<le> cap"
    using Apply.prems(3) by (simp_all add: max_def split: if_splits)
  have left: "runs_to E t cap \<tau> ?code m (length (pre @ ?l)) vs (expr_value \<tau> l)"
    using Apply.IH(1) [where pre = pre and post = "?r @ ?k @ post" and m = m and vs = vs] Apply.prems(1,2) room(1) by simp
  show ?case
  proof (cases "expr_value \<tau> l")
    case None
    then show ?thesis using left by (simp add: runs_to_def)
  next
    case (Some x)
    then obtain b1 m1 where m1: "\<And>runs. run_config E (InLoop (Some t) m, runs) = run_config E (InLoop (Some t) m1, runs)"
      "at_point t cap ?code m1 (length (pre @ ?l)) (b1 # vs)" "length b1 \<le> 8" "holds (ie_arith E) \<tau> b1 x" "same_frame t m m1"
      using left by (auto simp: runs_to_def)
    have right: "runs_to E t cap \<tau> ?code m1 (length (pre @ ?l @ ?r)) (b1 # vs) (expr_value \<tau> r)"
      using Apply.IH(2) [where pre = "pre @ ?l" and post = "?k @ post" and m = m1 and vs = "b1 # vs"] Apply.prems(1) m1(2,3) room(2)
      by simp
    show ?thesis
    proof (cases "expr_value \<tau> r")
      case None
      then show ?thesis using right m1(1) \<open>expr_value \<tau> l = Some x\<close> by (simp add: runs_to_def)
    next
      case (Some y)
      then obtain b2 m2 where m2: "\<And>runs. run_config E (InLoop (Some t) m1, runs) = run_config E (InLoop (Some t) m2, runs)"
        "at_point t cap ?code m2 (length (pre @ ?l @ ?r)) (b2 # b1 # vs)" "holds (ie_arith E) \<tau> b2 y" "same_frame t m1 m2"
        using right by (auto simp: runs_to_def)
      have "runs_to E t cap \<tau> ?code m2 (length (pre @ ?l @ ?r @ ?k)) vs (exact_in kind \<tau> x y)"
        using run_kind [OF E \<tau>, of t cap "pre @ ?l @ ?r" kind post m2 b2 b1 vs x y] m2(2,3) m1(4) room(3) by simp
      then have "runs_to E t cap \<tau> ?code m (length (pre @ ?l @ ?r @ ?k)) vs (exact_in kind \<tau> x y)"
        using runs_to_trans [OF m1(1,5)] runs_to_trans [OF m2(1,4)] by blast
      then show ?thesis using Some \<open>expr_value \<tau> l = Some x\<close> by simp
    qed
  qed
qed

subsection \<open>Returning from the entry call\<close>

abbreviation return_instr :: instr where
  "return_instr \<equiv> (OP_RETURN, NoOperands)"

lemma return_instr_ok: "instr_ok return_instr"
  by (simp add: instr_ok_def opcode_wf_def LAST_OPCODE_def ops_def)

text \<open>The frame that \<open>state_load\<close> pushes: it returns to no instruction.\<close>

definition entry_call :: "call_cell \<Rightarrow> nat \<Rightarrow> bool" where
  "entry_call frame i \<longleftrightarrow> \<not> isValid (m_returnIP frame) \<and> m_returnsValue frame \<and> m_stackGuard frame = 0 \<and>
    m_returnSegment frame = word_of_nat i"

definition in_entry :: "task_ptr \<Rightarrow> nat \<Rightarrow> machine \<Rightarrow> bool" where
  "in_entry t i m \<longleftrightarrow>
    (\<exists>frame. m_callStack (machine_coro t m) = [frame] \<and> entry_call frame i) \<and> m_guardStack (machine_coro t m) = [1] \<and>
    t_isMainTask (m_tasks (mc_sched m) t) \<and> mc_active m \<and>
    i < length (sd_segments (mc_segments m)) \<and> length (sd_segments (mc_segments m)) \<le> 2 ^ 32"

lemma in_entry_same: "same_frame t m m' \<Longrightarrow> in_entry t i m \<Longrightarrow> in_entry t i m'"
  by (simp add: same_frame_def in_entry_def)

lemma on_calls_same:
  "f \<lparr>cs_coro = machine_coro t m, cs_segments = mc_segments m\<rparr> = (r, \<lparr>cs_coro = co, cs_segments = mc_segments m\<rparr>) \<Longrightarrow>
    on_calls t f m = (r, set_machine_coro t co m)"
  by (simp add: on_calls_def set_machine_coro_def)

lemma return_ends:
  assumes E: "consistent E" and m: "at_point t cap code m pos [b]" "in_entry t i m"
  obtains v m' where "op_return E t m = OpLeave (Inr v) m'" "v = parse_operand (ie_garbage E) b" "mc_status m' = StatusOk"
    "mc_depth m' = mc_depth m"
proof -
  obtain frame where frame: "m_callStack (machine_coro t m) = [frame]" "entry_call frame i"
    using m(2) by (auto simp: in_entry_def)
  define co1 where "co1 = (machine_coro t m)\<lparr>m_guardStack := []\<rparr>"
  define m1 where "m1 = set_machine_coro t co1 m"
  let ?cs = "\<lparr>cs_coro = co1, cs_segments = mc_segments m1\<rparr>"
  have guard: "peekGuard (machine_coro t m) = Some (callStackSize (machine_coro t m))"
    "snd (the (popGuard (machine_coro t m))) = co1"
    using m(2) frame(1) by (simp_all add: in_entry_def peekGuard_def popGuard_def callStackSize_def co1_def)
  have repr: "stack_repr cap (m_operandStack co1) ([b] @ [])" using m(1) by (simp add: at_point_def co1_def)
  have "m_callStack (cs_coro ?cs) = [] @ [frame]" "m_returnSegment frame = word_of_nat i"
    "i < length (sd_segments (cs_segments ?cs))" "length (sd_segments (cs_segments ?cs)) \<le> 2 ^ 32"
    using frame m(2) by (simp_all add: co1_def m1_def in_entry_def entry_call_def)
  then obtain s where s: "returnToCaller (ie_calls E) ?cs = ((False, Ok), ?cs\<lparr>cs_coro := co1\<lparr>m_IP := m_returnIP frame,
      m_SP := Some i, m_callStack := [], m_operandStack := s\<rparr>\<rparr>)" "stack_repr cap s [b]"
    by (rule return_from [where ws = "[b]" and vs = "[]" and cap = cap and C = "ie_calls E"])
      (use frame(2) repr consistent_facts(4) [OF E] in \<open>simp_all add: entry_call_def\<close>)
  define co2 where "co2 = co1\<lparr>m_IP := m_returnIP frame, m_SP := Some i, m_callStack := [], m_operandStack := s\<rparr>"
  define m2 where "m2 = set_machine_coro t co2 m1"
  have calls: "on_calls t (returnToCaller (ie_calls E)) m1 = ((False, Ok), m2)"
    unfolding m2_def by (rule on_calls_same) (use s(1) in \<open>simp add: m1_def co2_def\<close>)
  have m2: "m_currentTask (mc_sched m2) = Some t" "t_isMainTask (m_tasks (mc_sched m2) t)" "mc_active m2"
    "mc_depth m2 = mc_depth m"
    using m by (simp_all add: m2_def m1_def set_machine_coro_def at_point_def in_entry_def)
  have coro2: "machine_coro t m2 = co2" by (simp add: m2_def)
  have return: "op_return E t m = onHalt E m2"
    unfolding op_return_def guard using calls m2(1,2) by (simp add: Let_def m1_def)
  have "\<not> dataStackEmpty co2"
    using s(2) by (simp add: dataStackEmpty_def stack_isEmpty_def co2_def stack_repr_def)
  then have halt: "onHalt E m2 = OpLeave (Inr (parse_operand (ie_garbage E) b)) (snd (state_halt StatusOk (data_set t (popped (length b) s) m2)))"
    using pop_repr [OF s(2), of "ie_garbage E"] m2 coro2
    by (simp add: onHalt_def act_pop_def on_task_def popData_def on_data_def data_set_def co2_def)
  then show thesis
    using m2(3,4) by (intro that [OF trans [OF return halt] refl]) (simp_all add: state_halt_def data_set_def)
qed

subsection \<open>Starting\<close>

text \<open>What \<open>start_main\<close> leaves of a new scheduler, and what the start of the run leaves of that.\<close>

lemma new_scheduler_eq:
  "new_scheduler = Inr (empty_scheduler\<lparr>m_waitQueue := Some 0, m_nextTask := 1,
     m_tasks := (\<lambda>_. new_task False)(0 := (new_task True)\<lparr>t_state := TaskWaiting\<rparr>)\<rparr>)"
  by (simp add: new_scheduler_def add_waiting_task_def empty_scheduler_def setState_def attach_def task_attach_def
      new_task_def or_else_fail_def Let_def)

definition started_from :: "stackful_coroutine \<Rightarrow> machine \<Rightarrow> machine" where
  "started_from co m0 =
    (snd (select_next ((set_machine_coro 0 co m0)\<lparr>mc_sched := empty_scheduler\<lparr>m_readyQueue := Some 0,
      m_nextTask := 1, m_tasks := (\<lambda>_. new_task False)(0 := (new_task True)\<lparr>t_state := TaskReady, t_coro := co\<rparr>)\<rparr>\<rparr>)))
     \<lparr>mc_status := StatusUnknown, mc_active := True\<rparr>"

lemma start_main_eq:
  assumes "new_scheduler = Inr (mc_sched m0)"
  shows "start_main E i frame ip m0 =
    Inr (started_from ((new_coroutine 8192)\<lparr>m_IP := ip, m_SP := Some i, m_callStack := [copy_cell frame]\<rparr>) m0)"
proof -
  have s0: "mc_sched m0 = empty_scheduler\<lparr>m_waitQueue := Some 0, m_nextTask := 1,
     m_tasks := (\<lambda>_. new_task False)(0 := (new_task True)\<lparr>t_state := TaskWaiting\<rparr>)\<rparr>"
    using assms by (simp add: new_scheduler_eq)
  define co where "co = (new_coroutine 8192)\<lparr>m_IP := ip, m_SP := Some i, m_callStack := [copy_cell frame]\<rparr>"
  have co: "snd (pushCall (ce_moved (ie_calls E)) frame ip (Some i) (reset_coroutine (machine_coro 0 m0))) = co"
    by (simp add: pushCall_def reset_coroutine_def machine_coro_def s0 new_task_def new_coroutine_def co_def)
  define s1 where "s1 = mc_sched (set_machine_coro 0 co m0)"
  have s1: "s1 = empty_scheduler\<lparr>m_waitQueue := Some 0, m_nextTask := 1,
     m_tasks := (\<lambda>_. new_task False)(0 := (new_task True)\<lparr>t_state := TaskWaiting, t_coro := co\<rparr>)\<rparr>"
    by (simp add: s1_def set_machine_coro_def s0)
  have "resumeTask 0 s1 = Inr (empty_scheduler\<lparr>m_readyQueue := Some 0, m_nextTask := 1,
     m_tasks := (\<lambda>_. new_task False)(0 := (new_task True)\<lparr>t_state := TaskReady, t_coro := co\<rparr>)\<rparr>)"
    by (simp add: s1 resumeTask_def getState_def detach_def task_detach_def attach_def task_attach_def setState_def
        empty_scheduler_def new_task_def or_else_fail_def Let_def)
  moreover have "m_mainTask (mc_sched m0) = 0" by (simp add: s0 empty_scheduler_def)
  ultimately show ?thesis
    by (simp add: start_main_def Let_def co s1_def [symmetric] co_def [symmetric] started_from_def)
qed

lemma started_machine:
  assumes "new_scheduler = Inr (mc_sched m0)" "start_main E i frame ip m0 = Inr m"
  shows "m_currentTask (mc_sched m) = Some 0" "t_next (m_tasks (mc_sched m) 0) = None"
    "t_isMainTask (m_tasks (mc_sched m) 0)" "mc_segments m = mc_segments m0" "mc_active m" "mc_depth m = mc_depth m0"
    "machine_coro 0 m = (new_coroutine 8192)\<lparr>m_IP := ip, m_SP := Some i, m_callStack := [copy_cell frame]\<rparr>"
  using assms(2) unfolding start_main_eq [OF assms(1)]
  by (auto simp: started_from_def select_next_def selectNextReady_def empty_scheduler_def setState_def new_task_def
      machine_coro_def set_machine_coro_def Let_def)

lemma started:
  assumes "new_scheduler = Inr (mc_sched m0)" "start_main E i frame (make_iterator code) m0 = Inr m" "span_ok code"
    and "entry_call frame i" "i < length (sd_segments (mc_segments m0))" "length (sd_segments (mc_segments m0)) \<le> 2 ^ 32"
    and "mc_depth m0 = 0"
  obtains m1 where "enter_run m = InLoop (Some 0) m1" "at_point 0 8192 code m1 0 []" "in_entry 0 i m1" "mc_depth m1 = 1"
proof -
  note m = started_machine [OF assms(1,2)]
  define co where "co = (machine_coro 0 m)\<lparr>m_guardStack := [1]\<rparr>"
  define m1 where "m1 = set_machine_coro 0 co (m\<lparr>mc_depth := 1\<rparr>)"
  have "pushGuard (- 1) (machine_coro 0 m) = Some co"
    by (simp add: pushGuard_def callStackSize_def m(7) co_def new_coroutine_def)
  then have "enter_run m = InLoop (Some 0) m1"
    using m(1,6) assms(7) by (simp add: enter_run_def MAX_INTERPRETER_RECURSION_def m1_def machine_coro_def Let_def)
  moreover have "at_point 0 8192 code m1 0 []"
    using m(1,2) assms(3)
    by (simp add: at_point_def m1_def set_machine_coro_def machine_coro_def checkGuard_def co_def m(7) [unfolded machine_coro_def]
        new_coroutine_def)
  moreover have "in_entry 0 i m1"
    using m(3-5) assms(4-6)
    by (simp add: in_entry_def m1_def set_machine_coro_def machine_coro_def co_def m(7) [unfolded machine_coro_def]
        entry_call_def copy_cell_def)
  moreover have "mc_depth m1 = 1" by (simp add: m1_def)
  ultimately show thesis by (rule that)
qed

lemma run_left:
  "run_config E (Leaving (Inl (Returned c)) m, []) = Some (Inl (Returned c), m\<lparr>mc_depth := mc_depth m - 1\<rparr>)"
  "run_config E (Leaving (Inr v) m, []) = Some (Inr v, m\<lparr>mc_depth := mc_depth m - 1\<rparr>)"
  by (subst run_config_step [where c' = "leave_run (Inl (Returned c)) m []"]; simp add: leave_run_def Let_def)
    (subst run_config_step [where c' = "leave_run (Inr v) m []"]; simp add: leave_run_def Let_def)

lemma run_return:
  assumes E: "consistent E" and m: "at_point t cap (pre @ instr_bytes return_instr) m (length pre) [b]" "in_entry t i m"
  obtains m' where "run_config E (InLoop (Some t) m, []) = Some (Inr (parse_operand (ie_garbage E) b), m')"
    "mc_status m' = StatusOk" "mc_depth m' = mc_depth m - 1"
proof -
  obtain m2 where m2: "run_iteration E (Some t) m = run_op E t (cell_at (length pre) return_instr) m2"
    "at_point t cap (pre @ instr_bytes return_instr @ []) m2 (length (pre @ instr_bytes return_instr)) [b]" "same_frame t m m2"
    by (rule alone_iteration [OF consistent_facts(2,3) [OF E] _ return_instr_ok, of t cap pre "[]" m "[b]"])
      (use m(1) in simp_all)
  obtain m3 where m3: "op_return E t m2 = OpLeave (Inr (parse_operand (ie_garbage E) b)) m3" "mc_status m3 = StatusOk"
    "mc_depth m3 = mc_depth m2"
    using return_ends [OF E m2(2) in_entry_same [OF m2(3) m(2)]] by metis
  have "run_iteration E (Some t) m = Some (Leaving (Inr (parse_operand (ie_garbage E) b)) m3)"
    using m2(1) m3(1) by (simp add: run_op_def exec_op_def simple_op_def cell_at_def Let_def)
  then have "run_config E (InLoop (Some t) m, []) = run_config E (Leaving (Inr (parse_operand (ie_garbage E) b)) m3, [])"
    by (intro run_config_step) simp_all
  then show thesis using that m2(3) m3(2,3) by (simp add: run_left same_frame_def)
qed

subsection \<open>Properties\<close>

text \<open>C1. Code and execution agree, for the types of 8 and 16 bits and U32 (not for I32, I64 and U64, whose
  values at the limits are lost). The code that \<open>BytecodeBuilder\<close> emits for an expression of constants in
  the range of the type and the four operations, of at most 1024 values on the stack at once and a length
  that a span has, followed by \<open>RETURN\<close>, run from a new scheduler as the code of the entry call, with a data
  stack of 8192 bytes and nothing else for the event loop to run: the interpreter always comes back, with the
  exact value of the expression and status ok, or, when the value of a part leaves the range of the type or
  divides by zero, with a violated invariant.\<close>

theorem emitted_expression_runs:
  assumes "consistent E" "narrow \<tau>" "expr_ok \<tau> e" "expr_depth e \<le> 1024"
    and "emit_expr (ie_endian E) \<tau> e \<lparr>m_code = []\<rparr> = (Ok, b1)" "writeOpcode OP_RETURN b1 = (Ok, b2)"
    and "span_ok (m_code b2)"
    and "new_scheduler = Inr (mc_sched m0)" "mc_depth m0 = 0"
    and "i < length (sd_segments (mc_segments m0))" "length (sd_segments (mc_segments m0)) \<le> 2 ^ 32"
    and "entry_call frame i"
  shows "\<exists>m result m'. start_main E i frame (make_iterator (m_code b2)) m0 = Inr m \<and>
    interpreter_run E m = Some (result, m') \<and>
    (case expr_value \<tau> e of
       Some n \<Rightarrow> \<exists>exit. result = Inr exit \<and> ex_status exit = StatusOk \<and>
         (\<forall>h. operand_to_int (ie_arith E) h \<tau> (ex_mainReturn exit) = Some n)
     | None \<Rightarrow> result = Inl (Returned kRuntimeInvariant))"
proof -
  let ?is = "code_of (expr_instrs \<tau> e)"
  note E = consistent_facts [OF assms(1)]
  obtain m where m: "start_main E i frame (make_iterator (m_code b2)) m0 = Inr m"
    using start_main_eq [OF assms(8)] by blast
  have code: "m_code b2 = ?is @ instr_bytes return_instr"
    using assms(5,6) endian.emit_expr_appends [OF E(3), of \<tau> e "\<lparr>m_code = []\<rparr>"]
    by (simp add: builder_defs instr_bytes_def) (auto simp: builder_defs)
  obtain m1 where m1: "enter_run m = InLoop (Some 0) m1" "at_point 0 8192 (m_code b2) m1 0 []" "in_entry 0 i m1" "mc_depth m1 = 1"
    using started [OF assms(8) m assms(7,12,10,11,9)] by metis
  have run: "run_config E (Entering m, []) = run_config E (InLoop (Some 0) m1, [])"
    by (rule run_config_step) (simp_all add: m1(1))
  have depth: "mc_depth m = 0" using started_machine(6) [OF assms(8) m] assms(9) by simp
  have r: "runs_to E 0 8192 \<tau> (m_code b2) m1 (length ?is) [] (expr_value \<tau> e)"
    using run_expr [OF assms(1-3), of 0 8192 "[]" "instr_bytes return_instr" m1 "[]"] m1(2) assms(4) by (simp add: code)
  show ?thesis
  proof (cases "expr_value \<tau> e")
    case None
    then obtain m2 where "run_config E (InLoop (Some 0) m1, []) = run_config E (Leaving (Inl (Returned kRuntimeInvariant)) m2, [])"
      using r by (auto simp: runs_to_def)
    then show ?thesis using None m depth run by (simp add: interpreter_run_def run_left)
  next
    case (Some n)
    then obtain b m2 where m2: "run_config E (InLoop (Some 0) m1, []) = run_config E (InLoop (Some 0) m2, [])"
      "at_point 0 8192 (m_code b2) m2 (length ?is) [b]" "holds (ie_arith E) \<tau> b n" "same_frame 0 m1 m2"
      using r by (auto simp: runs_to_def)
    obtain m3 where m3: "run_config E (InLoop (Some 0) m2, []) = Some (Inr (parse_operand (ie_garbage E) b), m3)"
      "mc_status m3 = StatusOk" "mc_depth m3 = mc_depth m2 - 1"
      using run_return [OF assms(1) _ in_entry_same [OF m2(4) m1(3)], of 8192 ?is b] m2(2) code by metis
    have "mc_depth m3 = 0" using m3(3) m2(4) m1(4) by (simp add: same_frame_def)
    then show ?thesis
      using Some m depth run m2(1,3) m3(1,2) E(4) by (simp add: interpreter_run_def holds_def)
  qed
qed

definition sample_expr :: int_expr where
  "sample_expr = Apply CheckedMultiply (Const 300) (Apply CheckedSubtract (Const 150) (Const 50))"

definition sample_start :: machine where
  "sample_start = (machine_of raise_sample)\<lparr>mc_sched := projr new_scheduler\<rparr>"

lemma sample_consistent: "consistent (quiet_env raise_sample_env)"
  using ma.arith_axioms
  by (simp add: consistent_def quiet_def quiet_env_def raise_sample_env_def call_sample_env_def machine_arith_def machine_bytes_def)

theorem emitted_expression_runs_witness:
  "\<exists>b1 b2 m exit m'.
    emit_expr little_endian_lib T_I16 sample_expr \<lparr>m_code = []\<rparr> = (Ok, b1) \<and> writeOpcode OP_RETURN b1 = (Ok, b2) \<and>
    start_main (quiet_env raise_sample_env) 0 (make_cell 0 0 0 0 empty_iterator True 0 0 0 0 0 [])
      (make_iterator (m_code b2)) sample_start = Inr m \<and>
    interpreter_run (quiet_env raise_sample_env) m = Some (Inr exit, m') \<and>
    operand_to_int machine_arith empty_heap T_I16 (ex_mainReturn exit) = Some 30000"
proof -
  let ?E = "quiet_env raise_sample_env" and ?frame = "make_cell 0 0 0 0 empty_iterator True 0 0 0 0 0 []"
  have le: "ie_endian ?E = little_endian_lib"
    by (simp add: quiet_env_def raise_sample_env_def call_sample_env_def machine_bytes_def)
  define b1 where "b1 = \<lparr>m_code = code_of (expr_instrs T_I16 sample_expr)\<rparr>"
  have b1: "emit_expr little_endian_lib T_I16 sample_expr \<lparr>m_code = []\<rparr> = (Ok, b1)"
    "m_code b1 = code_of (expr_instrs T_I16 sample_expr)"
    using endian.emit_expr_appends [OF endian_little, of T_I16 sample_expr "\<lparr>m_code = []\<rparr>"] by (simp_all add: b1_def)
  define b2 where "b2 = \<lparr>m_code = m_code b1 @ instr_bytes return_instr\<rparr>"
  have b2: "writeOpcode OP_RETURN b1 = (Ok, b2)" "m_code b2 = m_code b1 @ instr_bytes return_instr"
    by (simp_all add: b2_def builder_defs instr_bytes_def)
  have s0: "new_scheduler = Inr (mc_sched sample_start)"
    by (simp add: sample_start_def new_scheduler_eq)
  have "\<exists>m result m'. start_main ?E 0 ?frame (make_iterator (m_code b2)) sample_start = Inr m \<and>
      interpreter_run ?E m = Some (result, m') \<and>
      (case expr_value T_I16 sample_expr of
         Some n \<Rightarrow> \<exists>exit. result = Inr exit \<and> ex_status exit = StatusOk \<and>
           (\<forall>h. operand_to_int (ie_arith ?E) h T_I16 (ex_mainReturn exit) = Some n)
       | None \<Rightarrow> result = Inl (Returned kRuntimeInvariant))"
    by (rule emitted_expression_runs [OF sample_consistent _ _ _ _ b2(1) _ s0])
      (use b1 b2(2) le in \<open>simp_all add: narrow_def sample_expr_def in_range_simps span_ok_def length_instr_bytes
        sample_start_def raise_sample_def machine_of_def entry_call_def make_cell_def isValid_def empty_iterator_def\<close>)
  moreover have "expr_value T_I16 sample_expr = Some 30000"
    by (simp add: sample_expr_def exact_in_def exact_def in_range_simps)
  ultimately show ?thesis
    using b1(1) b2(1) by (auto simp: quiet_env_def)
qed

end
