(* ===== verification/VirtualTables.thy ===== *)
theory VirtualTables
  imports Subroutines TypeManager
begin

text \<open>
  Virtual tables: \<open>virtual_table.cpp\<close>, the five \<open>internal/get_*_virtual_table.cpp\<close> and
  \<open>get_*_table.cpp\<close> that build them from the descriptors of an object file, and the references whose
  fields are laid out by them (\<open>status_ref.cpp\<close> and, in the bootstrap plugin, \<open>object_ref.cpp\<close>,
  \<open>record_ref.cpp\<close>, \<open>category_ref.cpp\<close>, \<open>singleton_ref.cpp\<close>).

  A class, struct, enum, instance, existential or concept of an object file is a \<open>class_walker\<close>: what the
  walkers of \<open>lyric_object\<close> read of its descriptor. The walkers count members, methods, impls and
  extensions in eight bits. A table is a value, its parent is part of it; the keys of its maps are
  descriptors, and \<open>try_emplace\<close> keeps the first value of a key.

  The fields of \<open>table_env\<close>: \<open>te_class\<close> reads a descriptor, \<open>te_base\<close> the base symbol of a call, its
  section and address, and \<open>te_trap\<close> gives the function of a trap of a segment's plugin.
\<close>

record impl_walker =
  iw_type :: u32
  iw_extensions :: "(u32 \<times> u32) list"

record class_walker =
  cw_type :: u32
  cw_super :: u32
  cw_members :: "u32 list"
  cw_methods :: "u32 list"
  cw_impls :: "impl_walker list"
  cw_allocator :: u32
  cw_initializer :: u32

record table_env =
  te_links :: segment_env
  te_class :: "lyric_object \<Rightarrow> linkage_section \<Rightarrow> u32 \<Rightarrow> class_walker"
  te_base :: "lyric_object \<Rightarrow> u32 \<Rightarrow> (linkage_section \<times> u32) option"
  te_trap :: "nat \<Rightarrow> u32 \<Rightarrow> nat option"

definition counted_u8 :: "'a list \<Rightarrow> 'a list" where
  "counted_u8 xs = take (length xs mod 256) xs"

subsection \<open>Tables\<close>

record virtual_member =
  vf_segment :: nat
  vf_memberIndex :: u32
  vf_layoutOffset :: u32

record impl_table =
  it_descriptor :: descriptor_ref
  it_methods :: "(descriptor_ref \<times> virtual_method) list"

datatype virtual_table = VirtualTable
  (vt_segment: nat)
  (vt_descriptor: descriptor_ref)
  (vt_type: u32)
  (vt_parent: "virtual_table option")
  (vt_allocator: "nat option")
  (vt_initializer: "virtual_method option")
  (vt_members: "(descriptor_ref \<times> virtual_member) list")
  (vt_methods: "(descriptor_ref \<times> virtual_method) list")
  (vt_impls: "(descriptor_ref \<times> impl_table) list")

definition try_emplace :: "'k \<Rightarrow> 'v \<Rightarrow> ('k \<times> 'v) list \<Rightarrow> ('k \<times> 'v) list" where
  "try_emplace k v m = (if map_of m k = None then m @ [(k, v)] else m)"

text \<open>The loops over the parents.\<close>

fun getLayoutTotal :: "virtual_table \<Rightarrow> u32" where
  "getLayoutTotal (VirtualTable i d t parent a init members methods impls) =
    word_of_nat (length members) + (case parent of None \<Rightarrow> 0 | Some p \<Rightarrow> getLayoutTotal p)"

definition getLayoutStart :: "virtual_table \<Rightarrow> u32" where
  "getLayoutStart t = (case vt_parent t of None \<Rightarrow> 0 | Some p \<Rightarrow> getLayoutTotal p)"

fun getMember :: "descriptor_ref \<Rightarrow> virtual_table \<Rightarrow> virtual_member option" where
  "getMember x (VirtualTable i d t parent a init members methods impls) =
    (case map_of members x of
       Some m \<Rightarrow> Some m
     | None \<Rightarrow> (case parent of None \<Rightarrow> None | Some p \<Rightarrow> getMember x p))"

fun table_getMethod :: "descriptor_ref \<Rightarrow> virtual_table \<Rightarrow> virtual_method option" where
  "table_getMethod x (VirtualTable i d t parent a init members methods impls) =
    (case map_of methods x of
       Some m \<Rightarrow> Some m
     | None \<Rightarrow> (case parent of None \<Rightarrow> None | Some p \<Rightarrow> table_getMethod x p))"

text \<open>The impls of the parents are not searched.\<close>

definition table_getExtension :: "descriptor_ref \<Rightarrow> descriptor_ref \<Rightarrow> virtual_table \<Rightarrow> virtual_method option" where
  "table_getExtension conceptDescriptor callDescriptor t =
    (case map_of (vt_impls t) conceptDescriptor of
       None \<Rightarrow> None
     | Some impl \<Rightarrow> map_of (it_methods impl) callDescriptor)"

subsection \<open>Building tables\<close>

text \<open>The caches of the segment manager; the sections of their keys are disjoint.\<close>

record tables_state =
  ts_segments :: segment_data
  ts_tables :: "descriptor_ref \<Rightarrow> virtual_table option"

type_synonym 'a tables = "tables_state \<Rightarrow> (failure + 'a) \<times> tables_state"

definition tb_return :: "'a \<Rightarrow> 'a tables" where
  "tb_return x s = (Inr x, s)"

definition tb_fail :: "failure \<Rightarrow> 'a tables" where
  "tb_fail e s = (Inl e, s)"

definition tb_bind :: "'a tables \<Rightarrow> ('a \<Rightarrow> 'b tables) \<Rightarrow> 'b tables" where
  "tb_bind a k s = (case a s of (Inl e, s) \<Rightarrow> (Inl e, s) | (Inr x, s) \<Rightarrow> k x s)"

definition tb_segments :: "(segment_data \<Rightarrow> (failure + 'a) \<times> segment_data) \<Rightarrow> 'a tables" where
  "tb_segments f s = (let (r, d) = f (ts_segments s) in (r, s\<lparr>ts_segments := d\<rparr>))"

definition tb_read :: "(segment_data \<Rightarrow> 'a) \<Rightarrow> 'a tables" where
  "tb_read f s = (Inr (f (ts_segments s)), s)"

fun tb_fold :: "('x \<Rightarrow> 'a \<Rightarrow> 'a tables) \<Rightarrow> 'x list \<Rightarrow> 'a \<Rightarrow> 'a tables" where
  "tb_fold f [] a = tb_return a"
| "tb_fold f (x # xs) a = tb_bind (f x a) (tb_fold f xs)"

text \<open>What a walker says of the address it was made from: the offset of a near descriptor, the address
  of a far link, or the invalid address when it is out of bounds.\<close>

definition near_offset :: "lyric_object \<Rightarrow> linkage_section \<Rightarrow> u32 \<Rightarrow> u32" where
  "near_offset object section address =
    (let offset = GET_DESCRIPTOR_OFFSET address
     in if unat offset < num_descriptors object section then offset else INVALID_ADDRESS_U32)"

definition far_address :: "lyric_object \<Rightarrow> u32 \<Rightarrow> u32" where
  "far_address object address =
    (let offset = GET_LINK_OFFSET address
     in if unat offset < length (od_links object) then GET_LINK_ADDRESS offset else INVALID_ADDRESS_U32)"

definition walker_address :: "lyric_object \<Rightarrow> linkage_section \<Rightarrow> u32 \<Rightarrow> u32 option" where
  "walker_address object section address =
    (case GET_ADDRESS_TYPE address of
       AddressFar \<Rightarrow> Some (far_address object address)
     | AddressNear \<Rightarrow> Some (near_offset object section address)
     | AddressInvalid \<Rightarrow> None)"

abbreviation tb_resolve :: "table_env \<Rightarrow> nat \<Rightarrow> linkage_section \<Rightarrow> u32 \<Rightarrow> descriptor_ref tables" where
  "tb_resolve E i section address \<equiv> tb_segments (resolve_descriptor (te_links E) i section address)"

definition tb_object :: "nat \<Rightarrow> lyric_object tables" where
  "tb_object i = tb_read (\<lambda>d. m_object (segment_at d i))"

definition tb_address :: "nat \<Rightarrow> linkage_section \<Rightarrow> u32 \<Rightarrow> u32 tables" where
  "tb_address i section address =
    tb_bind (tb_object i) (\<lambda>object.
      case walker_address object section address of
        None \<Rightarrow> tb_fail (Returned kRuntimeInvariant)
      | Some a \<Rightarrow> tb_return a)"

definition has_section :: "linkage_section \<Rightarrow> descriptor_ref \<Rightarrow> (nat \<times> u32) tables" where
  "has_section section x =
    (case x of
       DescriptorRef i s index \<Rightarrow> if s = section then tb_return (i, index) else tb_fail (Returned kRuntimeInvariant)
     | TypeRef i index \<Rightarrow> tb_fail (Returned kRuntimeInvariant))"

definition add_member ::
  "table_env \<Rightarrow> nat \<Rightarrow> u32 \<Rightarrow> (nat \<times> u32) \<Rightarrow> (descriptor_ref \<times> virtual_member) list \<Rightarrow>
   (descriptor_ref \<times> virtual_member) list tables" where
  "add_member E i layoutBase = (\<lambda>(k, address) members.
    tb_bind (tb_object i) (\<lambda>object.
      let offset = near_offset object LinkageField address
      in if offset = INVALID_ADDRESS_U32 then tb_fail (Returned kRuntimeInvariant)
         else tb_bind (tb_resolve E i LinkageField offset) (\<lambda>field.
              tb_bind (has_section LinkageField field) (\<lambda>(fieldSegment, fieldIndex).
              tb_return (try_emplace field
                \<lparr>vf_segment = fieldSegment, vf_memberIndex = fieldIndex, vf_layoutOffset = layoutBase + word_of_nat k\<rparr>
                members)))))"

text \<open>The method that a resolved call stands for.\<close>

definition method_of_call :: "descriptor_ref \<Rightarrow> virtual_method tables" where
  "method_of_call x =
    tb_bind (has_section LinkageCall x) (\<lambda>(i, index).
    tb_bind (tb_object i) (\<lambda>object.
    tb_return (case object_getCall object index of
        Some call \<Rightarrow> \<lparr>vm_segment = i, vm_callIndex = index, vm_procOffset = cd_bytecode_offset call,
          vm_returnsValue = \<not> cd_noReturn call\<rparr>
      | None \<Rightarrow> \<lparr>vm_segment = i, vm_callIndex = index, vm_procOffset = 0, vm_returnsValue = True\<rparr>)))"

type_synonym method_map = "(descriptor_ref \<times> virtual_method) list"

definition add_method :: "table_env \<Rightarrow> nat \<Rightarrow> u32 \<Rightarrow> method_map \<Rightarrow> method_map tables" where
  "add_method E i address methods =
    tb_bind (tb_object i) (\<lambda>object.
      let callAddress = near_offset object LinkageCall address
      in if callAddress = INVALID_ADDRESS_U32 then tb_fail (Returned kRuntimeInvariant)
         else tb_bind (tb_resolve E i LinkageCall callAddress) (\<lambda>call.
              tb_bind (method_of_call call) (\<lambda>m.
              let methods = try_emplace call m methods
              in case te_base E object callAddress of
                   None \<Rightarrow> tb_return methods
                 | Some (section, base) \<Rightarrow>
                    tb_bind (tb_resolve E i section base) (\<lambda>baseSymbol.
                      tb_return (try_emplace baseSymbol m methods)))))"

definition add_existential_method :: "table_env \<Rightarrow> nat \<Rightarrow> u32 \<Rightarrow> method_map \<Rightarrow> method_map tables" where
  "add_existential_method E i address methods =
    tb_bind (tb_address i LinkageCall address) (\<lambda>callAddress.
    tb_bind (tb_resolve E i LinkageCall callAddress) (\<lambda>call.
    tb_bind (method_of_call call) (\<lambda>m. tb_return (try_emplace call m methods))))"

text \<open>The extensions of an impl, and the methods of the table, to which all but concepts add them.\<close>

definition add_extension ::
  "table_env \<Rightarrow> nat \<Rightarrow> linkage_section \<Rightarrow> u32 \<times> u32 \<Rightarrow> method_map \<times> method_map \<Rightarrow> (method_map \<times> method_map) tables" where
  "add_extension E i section = (\<lambda>(action, call) (extensions, methods).
    tb_bind (tb_address i LinkageAction action) (\<lambda>actionAddress.
    tb_bind (tb_resolve E i LinkageAction actionAddress) (\<lambda>implAction.
    tb_bind (tb_address i LinkageCall call) (\<lambda>callAddress.
    tb_bind (tb_resolve E i LinkageCall callAddress) (\<lambda>implCall.
    tb_bind (method_of_call implCall) (\<lambda>m.
    tb_return (try_emplace implAction m extensions,
      if section = LinkageConcept then methods else try_emplace implCall m methods)))))))"

text \<open>The type of an impl must be a concept. For a concept, the descriptor of the impl is written into
  the variable of the concept's own descriptor, and one that was never written to is stored.\<close>

definition add_impl ::
  "table_env \<Rightarrow> nat \<Rightarrow> linkage_section \<Rightarrow> u32 option \<Rightarrow> impl_walker \<Rightarrow> (descriptor_ref \<times> impl_table) list \<times> method_map \<Rightarrow>
   ((descriptor_ref \<times> impl_table) list \<times> method_map) tables" where
  "add_impl E i section type impl = (\<lambda>(impls, methods).
    tb_bind (tb_fold (add_extension E i section) (counted_u8 (iw_extensions impl)) ([], methods)) (\<lambda>(extensions, methods).
    tb_bind (tb_read (type_at i (iw_type impl))) (\<lambda>implType.
      case implType of
        Some (Concrete LinkageConcept conceptAddress super) \<Rightarrow>
          tb_bind (tb_resolve E i LinkageConcept conceptAddress) (\<lambda>implConcept.
          tb_bind (has_section LinkageConcept implConcept) (\<lambda>_.
            if section = LinkageConcept then tb_fail UndefinedBehaviour
            else if type = None then tb_fail AssertionFailed
            else tb_return
              (try_emplace implConcept \<lparr>it_descriptor = implConcept, it_methods = extensions\<rparr> impls, methods)))
      | _ \<Rightarrow> tb_fail (Returned kRuntimeInvariant))))"

text \<open>Enums and instances have an initializer, a bound constructor.\<close>

definition table_initializer :: "nat \<Rightarrow> linkage_section \<Rightarrow> class_walker \<Rightarrow> virtual_method option tables" where
  "table_initializer i section w =
    (if section \<notin> {LinkageEnum, LinkageInstance} then tb_return None
     else tb_bind (tb_object i) (\<lambda>object.
       case object_getCall object (GET_DESCRIPTOR_OFFSET (cw_initializer w)) of
         None \<Rightarrow> tb_fail (Returned kRuntimeInvariant)
       | Some call \<Rightarrow>
          if \<not> cd_ctor call \<or> \<not> cd_bound call then tb_fail (Returned kRuntimeInvariant)
          else tb_return (Some \<lparr>vm_segment = i, vm_callIndex = GET_DESCRIPTOR_OFFSET (cw_initializer w),
            vm_procOffset = cd_bytecode_offset call, vm_returnsValue = True\<rparr>)))"

definition table_allocator :: "table_env \<Rightarrow> nat \<Rightarrow> linkage_section \<Rightarrow> class_walker \<Rightarrow> nat option tables" where
  "table_allocator E i section w =
    (if section \<in> {LinkageConcept, LinkageExistential} \<or> cw_allocator w = INVALID_ADDRESS_U32 then tb_return None
     else case te_trap E i (cw_allocator w) of
       None \<Rightarrow> tb_fail (Returned kRuntimeInvariant)
     | Some f \<Rightarrow> tb_return (Some f))"

definition table_members ::
  "table_env \<Rightarrow> nat \<Rightarrow> linkage_section \<Rightarrow> u32 \<Rightarrow> class_walker \<Rightarrow> (descriptor_ref \<times> virtual_member) list tables" where
  "table_members E i section layoutBase w =
    (if section \<in> {LinkageConcept, LinkageExistential} then tb_return []
     else tb_fold (add_member E i layoutBase) (enumerate 0 (counted_u8 (cw_members w))) [])"

definition table_methods :: "table_env \<Rightarrow> nat \<Rightarrow> linkage_section \<Rightarrow> class_walker \<Rightarrow> method_map tables" where
  "table_methods E i section w =
    (if section = LinkageConcept then tb_return []
     else tb_fold (if section = LinkageExistential then add_existential_method E i else add_method E i)
       (counted_u8 (cw_methods w)) [])"

definition finish_table ::
  "table_env \<Rightarrow> nat \<Rightarrow> linkage_section \<Rightarrow> descriptor_ref \<Rightarrow> u32 option \<Rightarrow> class_walker \<Rightarrow> virtual_table option \<Rightarrow>
   virtual_table tables" where
  "finish_table E i section descriptor type w parent =
    (let layoutBase = (case parent of None \<Rightarrow> 0 | Some p \<Rightarrow> getLayoutTotal p)
     in tb_bind (table_members E i section layoutBase w) (\<lambda>members.
        tb_bind (table_methods E i section w) (\<lambda>methods.
        tb_bind (tb_fold (add_impl E i section type) (counted_u8 (cw_impls w)) ([], methods)) (\<lambda>(impls, methods).
        tb_bind (table_initializer i section w) (\<lambda>initializer.
        tb_bind (table_allocator E i section w) (\<lambda>allocator.
          case type of
            None \<Rightarrow> tb_fail AssertionFailed
          | Some t \<Rightarrow>
             let table = VirtualTable i descriptor t parent allocator initializer members methods impls
             in (\<lambda>s. (Inr table, s\<lparr>ts_tables := (ts_tables s)(descriptor \<mapsto> table)\<rparr>))))))))"

definition super_descriptor :: "table_env \<Rightarrow> nat \<Rightarrow> linkage_section \<Rightarrow> class_walker \<Rightarrow> descriptor_ref tables" where
  "super_descriptor E i section w =
    tb_bind (tb_address i section (cw_super w)) (tb_resolve E i section)"

text \<open>A table whose parent cannot be built: enums, concepts and existentials replace the status.\<close>

definition parent_error :: "linkage_section \<Rightarrow> failure \<Rightarrow> failure" where
  "parent_error section e =
    (case e of Returned c \<Rightarrow>
       Returned (if section \<in> {LinkageEnum, LinkageConcept, LinkageExistential} then kRuntimeInvariant else c)
     | _ \<Rightarrow> e)"

text \<open>What is done before the parent is built: a table that was already built is returned, otherwise the
  type and the supertype are looked up.\<close>

record table_plan =
  tp_segment :: nat
  tp_type :: "u32 option"
  tp_walker :: class_walker
  tp_super :: "descriptor_ref option"

definition plan_table :: "table_env \<Rightarrow> nat \<Rightarrow> linkage_section \<Rightarrow> class_walker \<Rightarrow> table_plan tables" where
  "plan_table E i section w =
    tb_bind (tb_segments (\<lambda>d. let (r, x) = lookupType (cw_type w) (segment_at d i) in (r, set_segment i x d))) (\<lambda>type.
    tb_bind (if cw_super w = INVALID_ADDRESS_U32 then tb_return None
             else tb_bind (super_descriptor E i section w) (\<lambda>super. tb_return (Some super))) (\<lambda>super.
    tb_return \<lparr>tp_segment = i, tp_type = type, tp_walker = w, tp_super = super\<rparr>))"

definition begin_table ::
  "table_env \<Rightarrow> linkage_section \<Rightarrow> descriptor_ref \<Rightarrow> (virtual_table + table_plan) tables" where
  "begin_table E section descriptor =
    tb_bind (has_section section descriptor) (\<lambda>(i, index) s.
      case ts_tables s descriptor of
        Some table \<Rightarrow> (Inr (Inl table), s)
      | None \<Rightarrow>
         tb_bind (plan_table E i section (te_class E (m_object (segment_at (ts_segments s) i)) section index))
           (\<lambda>plan. tb_return (Inr plan)) s)"

definition finish_plan ::
  "table_env \<Rightarrow> linkage_section \<Rightarrow> descriptor_ref \<Rightarrow> table_plan \<Rightarrow> virtual_table option \<Rightarrow> virtual_table tables" where
  "finish_plan E section descriptor plan parent =
    finish_table E (tp_segment plan) section descriptor (tp_type plan) (tp_walker plan) parent"

definition finish_child ::
  "table_env \<Rightarrow> linkage_section \<Rightarrow> descriptor_ref \<Rightarrow> table_plan \<Rightarrow> (failure + virtual_table) \<times> tables_state \<Rightarrow>
   (failure + virtual_table) \<times> tables_state" where
  "finish_child E section descriptor plan = (\<lambda>(r, s).
    case r of
      Inl e \<Rightarrow> (Inl (parent_error section e), s)
    | Inr parent \<Rightarrow> finish_plan E section descriptor plan (Some parent) s)"

text \<open>\<open>None\<close> when a chain of supertypes does not end.\<close>

partial_function (option) get_table ::
  "table_env \<Rightarrow> linkage_section \<Rightarrow> descriptor_ref \<Rightarrow> tables_state \<Rightarrow> ((failure + virtual_table) \<times> tables_state) option" where
  "get_table E section descriptor s =
    (let begun = begin_table E section descriptor s; s1 = snd begun
     in case fst begun of
          Inl e \<Rightarrow> Some (Inl e, s1)
        | Inr r \<Rightarrow>
           (case r of
              Inl table \<Rightarrow> Some (Inr table, s1)
            | Inr plan \<Rightarrow>
               (case tp_super plan of
                  None \<Rightarrow> Some (finish_plan E section descriptor plan None s1)
                | Some super \<Rightarrow>
                    Option.bind (get_table E section super s1)
                      (\<lambda>parent. Some (finish_child E section descriptor plan parent)))))"

definition get_class_virtual_table where "get_class_virtual_table E = get_table E LinkageClass"
definition get_struct_virtual_table where "get_struct_virtual_table E = get_table E LinkageStruct"
definition get_enum_virtual_table where "get_enum_virtual_table E = get_table E LinkageEnum"
definition get_instance_virtual_table where "get_instance_virtual_table E = get_table E LinkageInstance"
definition get_concept_table where "get_concept_table E = get_table E LinkageConcept"
definition get_existential_table where "get_existential_table E = get_table E LinkageExistential"

subsection \<open>References with fields\<close>

record fields_ref =
  fr_vtable :: virtual_table
  m_fields :: "operand list"

definition new_fields_ref :: "virtual_table \<Rightarrow> fields_ref" where
  "new_fields_ref vtable = \<lparr>fr_vtable = vtable, m_fields = replicate (unat (getLayoutTotal vtable)) empty_operand\<rparr>"

definition ref_getField :: "descriptor_ref \<Rightarrow> fields_ref \<Rightarrow> operand option" where
  "ref_getField field ref =
    (case getMember field (fr_vtable ref) of
       None \<Rightarrow> None
     | Some member \<Rightarrow>
        let offset = unat (vf_layoutOffset member)
        in if length (m_fields ref) \<le> offset then None else Some (m_fields ref ! offset))"

text \<open>The previous value is the second result.\<close>

definition ref_setField :: "descriptor_ref \<Rightarrow> operand \<Rightarrow> fields_ref \<Rightarrow> (operand \<times> fields_ref) option" where
  "ref_setField field value ref =
    (case getMember field (fr_vtable ref) of
       None \<Rightarrow> None
     | Some member \<Rightarrow>
        let offset = unat (vf_layoutOffset member)
        in if length (m_fields ref) \<le> offset then None
           else Some (m_fields ref ! offset, ref\<lparr>m_fields := (m_fields ref)[offset := value]\<rparr>))"

end
