(* ===== verification/VirtualTablesLaws.thy ===== *)
theory VirtualTablesLaws
  imports VirtualTables SegmentsLaws
begin

text \<open>
  What the virtual tables promise the references laid out by them: the members of a class and of its
  supertypes have slots of their own, dense from zero, so that a reference has a variable for every
  field and the variables do not overlap.
\<close>

subsection \<open>Dense tables\<close>

definition members_dense :: "u32 \<Rightarrow> (descriptor_ref \<times> virtual_member) list \<Rightarrow> bool" where
  "members_dense base members \<longleftrightarrow> distinct (map fst members) \<and>
    map (vf_layoutOffset \<circ> snd) members = map (\<lambda>k. base + word_of_nat k) [0..<length members]"

fun table_dense :: "virtual_table \<Rightarrow> bool" where
  "table_dense (VirtualTable i d t parent a init members methods impls) \<longleftrightarrow>
    members_dense (case parent of None \<Rightarrow> 0 | Some p \<Rightarrow> getLayoutTotal p) members \<and>
    (case parent of None \<Rightarrow> True | Some p \<Rightarrow> table_dense p)"

fun layout_size :: "virtual_table \<Rightarrow> nat" where
  "layout_size (VirtualTable i d t parent a init members methods impls) =
    length members + (case parent of None \<Rightarrow> 0 | Some p \<Rightarrow> layout_size p)"

lemma getLayoutTotal_size: "getLayoutTotal t = word_of_nat (layout_size t)"
  by (induction t rule: layout_size.induct) (simp split: option.splits)

lemma total_size: "layout_size t < 2 ^ 32 \<Longrightarrow> unat (getLayoutTotal t) = layout_size t"
  by (simp add: getLayoutTotal_size unat_of_nat)

lemma dense_member:
  assumes dense: "members_dense base members" and m: "map_of members x = Some m"
  obtains k where "k < length members" "members ! k = (x, m)" "vf_layoutOffset m = base + word_of_nat k"
proof -
  obtain k where k: "k < length members" "members ! k = (x, m)"
    using map_of_SomeD [OF m] by (auto simp: in_set_conv_nth)
  have "map (vf_layoutOffset \<circ> snd) members ! k = map (\<lambda>k. base + word_of_nat k) [0..<length members] ! k"
    using dense by (simp only: members_dense_def)
  then show ?thesis using k that by simp
qed

lemma unat_base_offset:
  assumes "p + k < 2 ^ 32" shows "unat (word_of_nat p + word_of_nat k :: u32) = p + k"
  using assms by (simp add: unat_of_nat flip: of_nat_add)

lemma own_member_offset:
  assumes dense: "members_dense (word_of_nat p) members" and m: "map_of members x = Some m"
    and fits: "p + length members < 2 ^ 32"
  obtains k where "k < length members" "members ! k = (x, m)" "unat (vf_layoutOffset m) = p + k"
  using dense_member [OF dense m] fits unat_base_offset by (metis add_less_cancel_left less_trans)

lemma parent_base:
  "(case parent of None \<Rightarrow> 0 | Some p \<Rightarrow> getLayoutTotal p) =
    word_of_nat (case parent of None \<Rightarrow> 0 | Some p \<Rightarrow> layout_size p)"
  by (simp add: getLayoutTotal_size split: option.splits)

lemma getMember_offset:
  assumes "table_dense t" "layout_size t < 2 ^ 32" "getMember x t = Some m"
  shows "unat (vf_layoutOffset m) < layout_size t"
  using assms
proof (induction t rule: layout_size.induct)
  case (1 i d t parent a init members methods impls)
  let ?p = "case parent of None \<Rightarrow> 0 | Some p \<Rightarrow> layout_size p"
  show ?case
  proof (cases "map_of members x")
    case None
    then show ?thesis using 1 by (auto split: option.splits)
  next
    case (Some own)
    have dense: "members_dense (word_of_nat ?p) members" "?p + length members < 2 ^ 32"
      using "1.prems"(1,2) by (simp_all only: table_dense.simps parent_base layout_size.simps add.commute)
    obtain k where "k < length members" "unat (vf_layoutOffset own) = ?p + k"
      using own_member_offset [OF dense(1) Some dense(2)] by metis
    then show ?thesis using "1.prems"(3) Some by simp
  qed
qed

lemma getMember_injective:
  assumes "table_dense t" "layout_size t < 2 ^ 32" "getMember x t = Some m" "getMember y t = Some n"
    and "vf_layoutOffset m = vf_layoutOffset n"
  shows "x = y"
  using assms
proof (induction t arbitrary: m n rule: layout_size.induct)
  case (1 i d t parent a init members methods impls)
  let ?p = "case parent of None \<Rightarrow> 0 | Some p \<Rightarrow> layout_size p"
  have dense: "members_dense (word_of_nat ?p) members" "?p + length members < 2 ^ 32"
    using "1.prems"(1,2) by (simp_all only: table_dense.simps parent_base layout_size.simps add.commute)
  have inherited: "unat (vf_layoutOffset q) < ?p" if "map_of members z = None"
    "getMember z (VirtualTable i d t parent a init members methods impls) = Some q" for z q
    using that "1.prems"(1,2) getMember_offset by (auto split: option.splits)
  show ?case
  proof (cases "map_of members x"; cases "map_of members y")
    fix p q assume own: "map_of members x = Some p" "map_of members y = Some q"
    then have eq: "p = m" "q = n" using "1.prems"(3,4) by simp_all
    obtain k where k: "k < length members" "members ! k = (x, p)" "unat (vf_layoutOffset p) = ?p + k"
      using own_member_offset [OF dense(1) own(1) dense(2)] by metis
    obtain l where l: "l < length members" "members ! l = (y, q)" "unat (vf_layoutOffset q) = ?p + l"
      using own_member_offset [OF dense(1) own(2) dense(2)] by metis
    have "k = l" using k(3) l(3) eq "1.prems"(5) by simp
    then show "x = y" using k(2) l(2) by simp
  next
    fix p assume own: "map_of members x = Some p" "map_of members y = None"
    then have "unat (vf_layoutOffset n) < ?p" using inherited "1.prems"(4) by blast
    moreover obtain k where "unat (vf_layoutOffset p) = ?p + k"
      using own_member_offset [OF dense(1) own(1) dense(2)] by metis
    ultimately show "x = y" using own(1) "1.prems"(3,5) by simp
  next
    fix q assume own: "map_of members x = None" "map_of members y = Some q"
    then have "unat (vf_layoutOffset m) < ?p" using inherited "1.prems"(3) by blast
    moreover obtain k where "unat (vf_layoutOffset q) = ?p + k"
      using own_member_offset [OF dense(1) own(2) dense(2)] by metis
    ultimately show "x = y" using own(2) "1.prems"(4,5) by simp
  next
    assume "map_of members x = None" "map_of members y = None"
    then show "x = y" using 1 by (auto split: option.splits)
  qed
qed

subsection \<open>Fields of a reference\<close>

definition fields_ok :: "fields_ref \<Rightarrow> bool" where
  "fields_ok ref \<longleftrightarrow> table_dense (fr_vtable ref) \<and> layout_size (fr_vtable ref) < 2 ^ 32 \<and>
    length (m_fields ref) = layout_size (fr_vtable ref)"

lemma new_fields_ref_ok:
  "table_dense t \<Longrightarrow> layout_size t < 2 ^ 32 \<Longrightarrow> fields_ok (new_fields_ref t)"
  by (simp add: fields_ok_def new_fields_ref_def total_size)

lemma getField_member:
  assumes "fields_ok ref" "getMember x (fr_vtable ref) = Some m"
  shows "ref_getField x ref = Some (m_fields ref ! unat (vf_layoutOffset m)) \<and>
    unat (vf_layoutOffset m) < length (m_fields ref)"
  using assms getMember_offset [of "fr_vtable ref" x m]
  by (simp add: ref_getField_def fields_ok_def Let_def)

text \<open>C28. The fields of a reference that has as many variables as its table lays out, the table being dense
  and of less than 2^32 slots (\<open>fields_ok\<close>: so a reference is made from such a table, and assignments keep
  it so; a \<open>StatusRef\<close> made from a code and a message has no variables and is not such a reference), are
  independent variables: exactly the fields its table has a member for can be read and assigned; assigning one
  returns its old value, sets it, and leaves every other field, inherited or not, as it was.\<close>

theorem fields_are_variables:
  assumes "fields_ok ref"
  shows "(getMember x (fr_vtable ref) = None \<longrightarrow> ref_getField x ref = None \<and> ref_setField x v ref = None) \<and>
    (getMember x (fr_vtable ref) \<noteq> None \<longrightarrow>
      (\<exists>ref'. ref_setField x v ref = Some (the (ref_getField x ref), ref') \<and> fields_ok ref' \<and>
        fr_vtable ref' = fr_vtable ref \<and>
        (\<forall>y. ref_getField y ref' = (if y = x then Some v else ref_getField y ref))))"
proof (cases "getMember x (fr_vtable ref)")
  case None
  then show ?thesis by (simp add: ref_getField_def ref_setField_def)
next
  case (Some m)
  let ?k = "unat (vf_layoutOffset m)"
  let ?ref = "ref\<lparr>m_fields := (m_fields ref)[?k := v]\<rparr>"
  have old: "ref_getField x ref = Some (m_fields ref ! ?k)" "?k < length (m_fields ref)"
    using getField_member [OF assms Some] by simp_all
  have ok: "fields_ok ?ref" using assms by (simp add: fields_ok_def)
  have others: "ref_getField y ?ref = (if y = x then Some v else ref_getField y ref)" for y
  proof (cases "getMember y (fr_vtable ref)")
    case None
    then show ?thesis using Some by (auto simp: ref_getField_def)
  next
    case (Some n)
    then have "y = x" if "vf_layoutOffset n = vf_layoutOffset m"
      using that getMember_injective [of "fr_vtable ref" y n x m] assms \<open>getMember x _ = Some m\<close>
      by (simp add: fields_ok_def)
    then have "y = x \<or> unat (vf_layoutOffset n) \<noteq> ?k" by (auto simp: word_unat_eq_iff)
    then show ?thesis
      using getField_member [OF assms Some] getField_member [OF ok, of y n] Some old \<open>getMember x _ = Some m\<close> by auto
  qed
  show ?thesis using Some old ok others by (simp add: ref_setField_def Let_def)
qed

subsection \<open>Tables are built dense\<close>

definition cache_dense :: "tables_state \<Rightarrow> bool" where
  "cache_dense s \<longleftrightarrow> (\<forall>d t. ts_tables s d = Some t \<longrightarrow> table_dense t)"

text \<open>No type of a module declares a member twice.\<close>

definition members_declared_once :: "table_env \<Rightarrow> linkage_section \<Rightarrow> bool" where
  "members_declared_once E section \<longleftrightarrow>
    (\<forall>system location object index. load_module (te_links E) system location = Some object \<longrightarrow>
      distinct (map GET_DESCRIPTOR_OFFSET (cw_members (te_class E object section index))))"

text \<open>Actions that leave the cache of tables alone.\<close>

definition keeps_tables :: "'a tables \<Rightarrow> bool" where
  "keeps_tables a \<longleftrightarrow> (\<forall>s. ts_tables (snd (a s)) = ts_tables s)"

named_theorems keeps

lemma keeps_return [keeps]: "keeps_tables (tb_return x)" by (simp add: keeps_tables_def tb_return_def)
lemma keeps_fail [keeps]: "keeps_tables (tb_fail e)" by (simp add: keeps_tables_def tb_fail_def)
lemma keeps_read [keeps]: "keeps_tables (tb_read f)" by (simp add: keeps_tables_def tb_read_def)

lemma keeps_segments [keeps]: "keeps_tables (tb_segments f)"
  by (simp add: keeps_tables_def tb_segments_def split_def Let_def)

lemma keeps_tb_bind [keeps]:
  assumes "keeps_tables a" "\<And>x. keeps_tables (k x)" shows "keeps_tables (tb_bind a k)"
  using assms by (auto simp: keeps_tables_def tb_bind_def split_def split: sum.splits)

lemma keeps_fold [keeps]:
  assumes "\<And>x a. keeps_tables (f x a)" shows "keeps_tables (tb_fold f xs a)"
  using assms by (induction xs arbitrary: a) (simp_all add: keeps)

lemma keeps_section [keeps]: "keeps_tables (has_section section x)"
  by (cases x) (simp_all add: has_section_def keeps)

lemma keeps_object [keeps]: "keeps_tables (tb_object i)" by (simp add: tb_object_def keeps)

lemma keeps_address [keeps]: "keeps_tables (tb_address i section address)"
  unfolding tb_address_def by (intro keeps) (simp add: keeps split: option.splits)

lemma keeps_member [keeps]: "keeps_tables (add_member E i base x members)"
  unfolding add_member_def by (auto simp: Let_def split_def intro!: keeps)

lemma keeps_method_of_call [keeps]: "keeps_tables (method_of_call x)"
  unfolding method_of_call_def by (auto simp: split_def intro!: keeps)

lemma keeps_methods [keeps]:
  "keeps_tables (add_method E i address methods)" "keeps_tables (add_existential_method E i address methods)"
  unfolding add_method_def add_existential_method_def
  by (auto simp: Let_def intro!: keeps split: option.splits)

lemma keeps_extension [keeps]: "keeps_tables (add_extension E i section x acc)"
  unfolding add_extension_def by (auto simp: split_def intro!: keeps)

lemma keeps_impl [keeps]: "keeps_tables (add_impl E i section type impl acc)"
  unfolding add_impl_def
  by (auto simp: split_def intro!: keeps split: option.splits type_descriptor.splits linkage_section.splits)

lemma keeps_rest [keeps]:
  "keeps_tables (table_initializer i section w)" "keeps_tables (table_allocator E i section w)"
  "keeps_tables (table_members E i section base w)" "keeps_tables (table_methods E i section w)"
  "keeps_tables (super_descriptor E i section w)"
  unfolding table_initializer_def table_allocator_def table_members_def table_methods_def super_descriptor_def
  by (auto intro!: keeps split: option.splits)

subsection \<open>The members of one table\<close>

lemma tb_bind_Inr:
  assumes "tb_bind a k s = (Inr x, s')"
  obtains y s1 where "a s = (Inr y, s1)" "k y s1 = (Inr x, s')"
  using assms by (auto simp: tb_bind_def split: prod.splits sum.splits)

lemma near_offset_near:
  "near_offset object section address \<noteq> INVALID_ADDRESS_U32 \<Longrightarrow>
    near_offset object section address = GET_DESCRIPTOR_OFFSET address \<and> IS_NEAR (GET_DESCRIPTOR_OFFSET address)"
  by (auto simp: near_offset_def Let_def GET_DESCRIPTOR_OFFSET_def split: if_splits)

lemma resolve_near:
  assumes "IS_NEAR address" "section \<noteq> LinkageType" "resolve_descriptor N i section address d = (Inr x, d')"
  shows "x = DescriptorRef (m_segmentIndex (segment_at d i)) section address"
  using assms
  by (auto simp: resolve_descriptor_def lookup_in_def lookupDescriptor_def table_lookup_def GET_DESCRIPTOR_OFFSET_def
      Let_def split: if_splits prod.splits sum.splits option.splits)

lemma tb_resolve_near:
  assumes "IS_NEAR address" "sec \<noteq> LinkageType" "tb_resolve E i sec address s = (Inr x, s')"
  shows "\<exists>j. x = DescriptorRef j sec address"
  using assms resolve_near [of address sec "te_links E" i "ts_segments s"]
  by (auto simp: tb_segments_def Let_def split: prod.splits)

lemma field_not_type: "LinkageField \<noteq> LinkageType" by simp

lemma add_member_Inr:
  assumes "add_member E i base (k, address) members s = (Inr members', s')"
  obtains j v where "vf_layoutOffset v = base + word_of_nat k"
    "members' = try_emplace (DescriptorRef j LinkageField (GET_DESCRIPTOR_OFFSET address)) v members"
proof -
  let ?near = "\<lambda>object. near_offset object LinkageField address"
  let ?finish = "\<lambda>field. tb_bind (has_section LinkageField field) (\<lambda>(fieldSegment, fieldIndex).
    tb_return (try_emplace field
      \<lparr>vf_segment = fieldSegment, vf_memberIndex = fieldIndex, vf_layoutOffset = base + word_of_nat k\<rparr> members))"
  obtain object s1 where "(if ?near object = INVALID_ADDRESS_U32 then tb_fail (Returned kRuntimeInvariant)
      else tb_bind (tb_resolve E i LinkageField (?near object)) ?finish) s1 = (Inr members', s')"
    using assms by (auto simp: add_member_def Let_def elim: tb_bind_Inr)
  then have near: "?near object \<noteq> INVALID_ADDRESS_U32"
    and step: "tb_bind (tb_resolve E i LinkageField (?near object)) ?finish s1 = (Inr members', s')"
    by (simp_all add: tb_fail_def split: if_splits)
  obtain field s2 where field: "tb_resolve E i LinkageField (?near object) s1 = (Inr field, s2)"
    and rest: "?finish field s2 = (Inr members', s')"
    using step by (rule tb_bind_Inr)
  obtain j where j: "field = DescriptorRef j LinkageField (GET_DESCRIPTOR_OFFSET address)"
    using near_offset_near [OF near] tb_resolve_near field by (metis field_not_type)
  from rest j obtain a b where
    "members' = try_emplace (DescriptorRef j LinkageField (GET_DESCRIPTOR_OFFSET address))
      \<lparr>vf_segment = a, vf_memberIndex = b, vf_layoutOffset = base + word_of_nat k\<rparr> members"
    by (auto simp: tb_return_def elim!: tb_bind_Inr)
  then show thesis by (rule that [rotated]) simp
qed

lemma members_dense_snoc:
  assumes "members_dense base members" "map_of members x = None" "vf_layoutOffset v = base + word_of_nat (length members)"
  shows "members_dense base (try_emplace x v members)" "length (try_emplace x v members) = Suc (length members)"
  using assms by (auto simp: members_dense_def try_emplace_def map_of_eq_None_iff)

definition only_offsets :: "u32 set \<Rightarrow> (descriptor_ref \<times> virtual_member) list \<Rightarrow> bool" where
  "only_offsets A members \<longleftrightarrow> (\<forall>x \<in> fst ` set members. \<exists>j. \<exists>a \<in> A. x = DescriptorRef j LinkageField a)"

lemma fold_members_dense:
  assumes "tb_fold (add_member E i base) (enumerate (length members) addresses) members s = (Inr members', s')"
    "members_dense base members" "only_offsets A members"
    "distinct (map GET_DESCRIPTOR_OFFSET addresses)" "A \<inter> GET_DESCRIPTOR_OFFSET ` set addresses = {}"
  shows "members_dense base members'"
  using assms
proof (induction addresses arbitrary: members s A)
  case Nil
  then show ?case by (simp add: tb_return_def)
next
  case (Cons address rest)
  let ?a = "GET_DESCRIPTOR_OFFSET address"
  from Cons.prems(1) obtain m1 s1 where m1: "add_member E i base (length members, address) members s = (Inr m1, s1)"
    and later: "tb_fold (add_member E i base) (enumerate (Suc (length members)) rest) m1 s1 = (Inr members', s')"
    by (auto elim!: tb_bind_Inr)
  obtain j v where v: "vf_layoutOffset v = base + word_of_nat (length members)"
    and m1_eq: "m1 = try_emplace (DescriptorRef j LinkageField ?a) v members"
    using add_member_Inr [OF m1] by metis
  have new: "map_of members (DescriptorRef j LinkageField ?a) = None"
    using Cons.prems(3,5) by (auto simp: only_offsets_def map_of_eq_None_iff)
  have "members_dense base m1" "length m1 = Suc (length members)"
    using members_dense_snoc [OF Cons.prems(2) new v] m1_eq by simp_all
  moreover have "only_offsets (insert ?a A) m1"
    using Cons.prems(3) new unfolding m1_eq only_offsets_def try_emplace_def by fastforce
  moreover have "insert ?a A \<inter> GET_DESCRIPTOR_OFFSET ` set rest = {}" "distinct (map GET_DESCRIPTOR_OFFSET rest)"
    using Cons.prems(4,5) by auto
  ultimately show ?case using Cons.IH [of m1 s1 "insert ?a A"] later by simp
qed

lemma table_members_dense:
  assumes "table_members E i section base w s = (Inr members, s')" "distinct (map GET_DESCRIPTOR_OFFSET (cw_members w))"
  shows "members_dense base members"
proof (cases "section \<in> {LinkageConcept, LinkageExistential}")
  case True
  then show ?thesis using assms(1) by (auto simp: table_members_def tb_return_def members_dense_def)
next
  case False
  have "distinct (map GET_DESCRIPTOR_OFFSET (counted_u8 (cw_members w)))"
    using assms(2) by (simp add: counted_u8_def distinct_take flip: take_map)
  then show ?thesis
    using fold_members_dense [of E i base "[]" "counted_u8 (cw_members w)" s members s' "{}"] assms(1) False
    by (auto simp: table_members_def members_dense_def only_offsets_def)
qed

subsection \<open>Building a table\<close>

lemma keeps_dense:
  assumes "keeps_tables a" "cache_dense s" shows "cache_dense (snd (a s))"
  using assms by (simp add: keeps_tables_def cache_dense_def)

lemma keeps_denseD:
  "keeps_tables a \<Longrightarrow> a s = (r, s') \<Longrightarrow> cache_dense s \<Longrightarrow> cache_dense s'"
  using keeps_dense by (metis snd_conv)

text \<open>An action that ends in success or failure keeps a set of states when its parts do; the last part
  of \<open>finish_table\<close> is the only one that stores a table.\<close>

definition builds_dense :: "virtual_table tables \<Rightarrow> bool" where
  "builds_dense a \<longleftrightarrow> (\<forall>s. cache_dense s \<longrightarrow> cache_dense (snd (a s)) \<and>
    (\<forall>t. fst (a s) = Inr t \<longrightarrow> table_dense t))"

lemma builds_bind:
  assumes a: "keeps_tables a" and k: "\<And>x s s'. a s = (Inr x, s') \<Longrightarrow> builds_dense (k x)"
  shows "builds_dense (tb_bind a k)"
  unfolding builds_dense_def
proof (intro allI impI)
  fix s assume s: "cache_dense s"
  obtain r s1 where r: "a s = (r, s1)" by fastforce
  have s1: "cache_dense s1" using keeps_denseD [OF a r s] .
  show "cache_dense (snd (tb_bind a k s)) \<and> (\<forall>t. fst (tb_bind a k s) = Inr t \<longrightarrow> table_dense t)"
    using k [of s _ s1] s1 r by (cases r) (simp_all add: tb_bind_def builds_dense_def)
qed

lemma builds_fail: "builds_dense (tb_fail e)"
  by (simp add: builds_dense_def tb_fail_def)

lemma builds_store:
  "table_dense t \<Longrightarrow> builds_dense (\<lambda>s. (Inr t, s\<lparr>ts_tables := (ts_tables s)(d \<mapsto> t)\<rparr>))"
  by (simp add: builds_dense_def cache_dense_def)

lemma finish_table_dense:
  assumes "distinct (map GET_DESCRIPTOR_OFFSET (cw_members w))" "\<And>p. parent = Some p \<Longrightarrow> table_dense p"
  shows "builds_dense (finish_table E i section d type w parent)"
proof -
  let ?base = "case parent of None \<Rightarrow> 0 | Some p \<Rightarrow> getLayoutTotal p"
  have store: "builds_dense (case type of
      None \<Rightarrow> tb_fail AssertionFailed
    | Some t \<Rightarrow> let table = VirtualTable i d t parent allocator initializer members methods impls
         in (\<lambda>s. (Inr table, s\<lparr>ts_tables := (ts_tables s)(d \<mapsto> table)\<rparr>)))"
    if "members_dense ?base members" for members methods impls initializer allocator
  proof (cases type)
    case None
    then show ?thesis by (simp add: builds_fail)
  next
    case (Some t)
    have "table_dense (VirtualTable i d t parent allocator initializer members methods impls)"
      using that assms(2) by (simp split: option.splits)
    then show ?thesis using Some by (simp only: option.case Let_def builds_store)
  qed
  show ?thesis
    unfolding finish_table_def Let_def
    apply (rule builds_bind, rule keeps)
    subgoal for members
      by (auto intro!: builds_bind keeps store [unfolded Let_def] table_members_dense [OF _ assms(1)] simp: split_def)
    done
qed

lemma keeps_plan [keeps]: "keeps_tables (plan_table E i section w)"
  unfolding plan_table_def by (auto intro!: keeps)

lemma plan_walker:
  "plan_table E i section w s = (Inr plan, s') \<Longrightarrow> tp_walker plan = w"
  by (auto simp: plan_table_def tb_return_def elim!: tb_bind_Inr split: if_splits)

lemma begin_table_keeps: "keeps_tables (begin_table E section d)"
  unfolding begin_table_def
proof (rule keeps_tb_bind [OF keeps_section])
  fix x :: "nat \<times> u32"
  have "keeps_tables (tb_bind (plan_table E i section w) (\<lambda>plan. tb_return (Inr plan :: virtual_table + table_plan)))"
    for i w by (intro keeps)
  then show "keeps_tables (case x of (i, index) \<Rightarrow> \<lambda>s. case ts_tables s d of
        Some table \<Rightarrow> (Inr (Inl table), s)
      | None \<Rightarrow> tb_bind (plan_table E i section (te_class E (m_object (segment_at (ts_segments s) i)) section index))
           (\<lambda>plan. tb_return (Inr plan)) s)"
    by (cases x) (simp add: keeps_tables_def split: option.splits)
qed

subsection \<open>Modules\<close>

text \<open>Every segment is a module that the loader gave for its location.\<close>

definition modules_loaded :: "segment_env \<Rightarrow> segment_data \<Rightarrow> bool" where
  "modules_loaded N d \<longleftrightarrow> (\<forall>i < length (sd_segments d).
    load_module N (m_isSystem (segment_at d i)) (m_objectLocation (segment_at d i)) = Some (m_object (segment_at d i)))"

lemma modules_set:
  assumes "modules_loaded N d" "m_isSystem x = m_isSystem (segment_at d i)"
    "m_objectLocation x = m_objectLocation (segment_at d i)" "m_object x = m_object (segment_at d i)"
  shows "modules_loaded N (set_segment i x d)"
  unfolding modules_loaded_def
proof (intro allI impI)
  fix k assume k: "k < length (sd_segments (set_segment i x d))"
  then show "load_module N (m_isSystem (segment_at (set_segment i x d) k))
      (m_objectLocation (segment_at (set_segment i x d) k)) = Some (m_object (segment_at (set_segment i x d) k))"
    using assms by (cases "k = i") (simp_all add: modules_loaded_def)
qed

lemma modules_same: "modules_loaded N d \<Longrightarrow> same_segment (segment_at d i) x \<Longrightarrow> modules_loaded N (set_segment i x d)"
  by (rule modules_set) (simp_all add: same_segment_def)

lemma modules_load:
  "modules_loaded N d \<Longrightarrow> modules_loaded N (snd (get_or_load_segment N location current system d))"
  by (auto simp: get_or_load_segment_def modules_loaded_def segment_at_def nth_append new_segment_def less_Suc_eq Let_def
      split: option.splits)

lemma modules_resolve_link:
  assumes "modules_loaded N d" shows "modules_loaded N (snd (resolve_link N sp index d))"
proof -
  have set: "modules_loaded N (set_segment sp (snd (setLink index e (segment_at d' sp))) d')"
    if "modules_loaded N d'" for d' e
    using that by (rule modules_set) (simp_all add: setLink_def)
  note load = modules_load [OF assms]
  show ?thesis
    using assms load set [OF load]
    by (auto simp: resolve_link_def Let_def split_beta split: option.split prod.split)
qed

lemma modules_lookup:
  assumes "modules_loaded N d"
  shows "modules_loaded N (snd (lookup_in i (lookupType index) ref d))"
    "modules_loaded N (snd (lookup_in i (lookupDescriptor sec index) ref d))"
proof -
  have "modules_loaded N (set_segment i (snd (lookupType index (segment_at d i))) d)"
    "modules_loaded N (set_segment i (snd (lookupDescriptor sec index (segment_at d i))) d)"
    using modules_same [OF assms] table_lookup_same(1) by (simp_all add: lookupType_def lookupDescriptor_def)
  then show "modules_loaded N (snd (lookup_in i (lookupType index) ref d))"
    "modules_loaded N (snd (lookup_in i (lookupDescriptor sec index) ref d))"
    by (auto simp: lookup_in_def split: prod.split sum.split option.split)
qed

lemma modules_resolve_descriptor:
  assumes "modules_loaded N d" shows "modules_loaded N (snd (resolve_descriptor N sp sec address d))"
  using assms modules_resolve_link [OF assms, of sp "GET_LINK_OFFSET address"]
  by (auto simp: resolve_descriptor_def modules_lookup split: prod.split sum.split)

lemma modules_slots:
  assumes "modules_loaded N d"
  shows "modules_loaded N (snd (load_slot N kind address sp d))"
    "modules_loaded N (snd (store_slot N kind address value sp d))"
proof -
  have set: "modules_loaded N (set_segment i (snd (setSlot kind k value (segment_at d' i))) d')"
    if "modules_loaded N d'" for d' i k
    using modules_same [OF that setSlot_same(1)] .
  show "modules_loaded N (snd (load_slot N kind address sp d))" "modules_loaded N (snd (store_slot N kind address value sp d))"
    using assms set [OF assms] set [OF modules_resolve_link [OF assms, of sp "GET_LINK_OFFSET address"]]
      modules_resolve_link [OF assms, of sp "GET_LINK_OFFSET address"]
    by (auto simp: load_slot_def store_slot_def split_beta split: prod.split sum.split option.split)
qed

lemma modules_reach:
  "segments_reach N d d' \<Longrightarrow> modules_loaded N d \<Longrightarrow> modules_loaded N d'"
proof (induction rule: segments_reach.induct)
  case (segments_step d d' op)
  then show ?case
    by (cases op) (simp_all add: modules_load modules_resolve_link modules_slots modules_resolve_descriptor)
qed

lemma modules_empty: "modules_loaded N empty_segments"
  by (simp add: modules_loaded_def empty_segments_def)

subsection \<open>Chains of supertypes\<close>

text \<open>The type of the given index in a module names a supertype: one of the same module, or one that a link
  of the module imports.\<close>

definition names_super ::
  "table_env \<Rightarrow> linkage_section \<Rightarrow> string \<Rightarrow> lyric_object \<Rightarrow> u32 \<Rightarrow> string \<Rightarrow> u32 \<Rightarrow> bool" where
  "names_super E section location object index location' index' \<longleftrightarrow>
    (\<exists>a. walker_address object section (cw_super (te_class E object section index)) = Some a \<and>
      (if IS_NEAR a then location' = location \<and> index' = a
       else \<exists>url path system object'.
         unat (GET_LINK_OFFSET a) < length (od_links object) \<and>
         od_links object ! unat (GET_LINK_OFFSET a) = Some (url, path) \<and>
         location' = absolute_location (te_links E) (Some location) url \<and>
         load_module (te_links E) system location' = Some object' \<and>
         od_symbols object' path = Some (section, index')))"

text \<open>No chain of supertypes comes back to itself: a supertype has a smaller rank.\<close>

definition supers_descend :: "table_env \<Rightarrow> linkage_section \<Rightarrow> (string \<Rightarrow> u32 \<Rightarrow> nat) \<Rightarrow> bool" where
  "supers_descend E section rank \<longleftrightarrow> (\<forall>system location object index location' index'.
    load_module (te_links E) system location = Some object \<longrightarrow>
    names_super E section location object index location' index' \<longrightarrow> rank location' index' < rank location index)"

text \<open>The segments of a state of the tables are linked modules.\<close>

definition tables_linked :: "table_env \<Rightarrow> tables_state \<Rightarrow> bool" where
  "tables_linked E s \<longleftrightarrow> segments_ok (te_links E) (ts_segments s) \<and> modules_loaded (te_links E) (ts_segments s)"

lemma tables_linked_reach:
  assumes "segments_reach (te_links E) empty_segments (ts_segments s)"
  shows "tables_linked E s"
  using segments_reach_ok [OF assms empty_segments_ok] modules_reach [OF assms modules_empty]
  by (simp add: tables_linked_def)

lemma resolve_names:
  assumes d: "segments_ok N d" "i < length (sd_segments d)" and sect: "section \<noteq> LinkageType" "section \<noteq> LinkageInvalid"
    and r: "resolve_descriptor N i section a d = (Inr x, d')"
  obtains j v where "x = DescriptorRef j section v" "j < length (sd_segments d')"
    "if IS_NEAR a then j = i \<and> v = a
     else \<exists>url path. unat (GET_LINK_OFFSET a) < length (od_links (m_object (segment_at d i))) \<and>
       od_links (m_object (segment_at d i)) ! unat (GET_LINK_OFFSET a) = Some (url, path) \<and>
       m_objectLocation (segment_at d' j) = absolute_location N (Some (m_objectLocation (segment_at d i))) url \<and>
       od_symbols (m_object (segment_at d' j)) path = Some (section, v)"
proof (cases "IS_NEAR a")
  case True
  have "m_segmentIndex (segment_at d i) = i" using segments_okD(1) [OF d] by (simp add: segment_ok_def Let_def)
  then have "x = DescriptorRef i section a" using resolve_near [OF True sect(1) r] by simp
  moreover have "i < length (sd_segments d')"
    using d(2) resolve_descriptor_ok [OF d, of "section" a] unfolding r by (auto simp: extends_def)
  ultimately show thesis using that [of i a] True by simp
next
  case False
  let ?k = "unat (GET_LINK_OFFSET a)" and ?s = "segment_at d i"
  obtain e d1 where link: "resolve_link N i (GET_LINK_OFFSET a) d = (Inr e, d1)" and e: "link_section e = section"
    "link_object e < length (sd_segments d1)"
    and look: "lookup_in (link_object e) (lookupDescriptor section (link_value e))
      (DescriptorRef (link_object e) section) d1 = (Inr x, d')"
    using r False sect(1) by (auto simp: resolve_descriptor_def split: prod.splits sum.splits if_splits)
  have d1: "segments_ok N d1" "extends d d1" "getLink (GET_LINK_OFFSET a) (segment_at d1 i) = Some e"
    using resolve_link_ok [OF d, of "GET_LINK_OFFSET a"] link by simp_all
  have i: "i < length (sd_segments d1)" "same_segment ?s (segment_at d1 i)"
    using d1(2) d(2) by (auto simp: extends_def)
  have k: "?k < length (m_links (segment_at d1 i))" "m_links (segment_at d1 i) ! ?k = e"
    using d1(3) by (auto simp: getLink_def split: if_splits)
  have good: "segment_ok N d1 i" using segments_okD(1) [OF d1(1) i(1)] .
  then obtain url path where url: "od_links (m_object ?s) ! ?k = Some (url, path)"
    "sd_cache d1 (absolute_location N (Some (m_objectLocation ?s)) url) = Some (link_object e)"
    "od_symbols (m_object (segment_at d1 (link_object e))) path = Some (section, link_value e)"
    using k e(1) sect(2) i(2) by (auto simp: segment_ok_def link_ok_def same_segment_def Let_def)
  have "?k < length (od_links (m_object ?s))"
    using good k(1) i(2) by (simp add: segment_ok_def Let_def same_segment_def)
  moreover have "x = DescriptorRef (link_object e) section (link_value e)"
    using look by (auto simp: lookup_in_def lookupDescriptor_def table_lookup_def Let_def split: if_splits prod.splits)
  moreover have d': "extends d1 d'" "link_object e < length (sd_segments d')"
    using lookup_in_ok [OF d1(1) e(2), of "lookupDescriptor section (link_value e)" "link_value e" "section"
        "DescriptorRef (link_object e) section"] look e(2) by (auto simp: extends_def)
  moreover have "same_segment (segment_at d1 (link_object e)) (segment_at d' (link_object e))"
    using d'(1) e(2) by (simp add: extends_def)
  moreover have "m_objectLocation (segment_at d1 (link_object e)) = absolute_location N (Some (m_objectLocation ?s)) url"
    using segments_okD(2) [OF d1(1) url(2)] by simp
  ultimately show thesis
    using that [of "link_object e" "link_value e"] url False by (auto simp: same_segment_def)
qed

text \<open>What a plan says of the type it is made for, and of its supertype.\<close>

lemma begin_plan:
  assumes s: "tables_linked E s" "i < length (sd_segments (ts_segments s))" and d: "d = DescriptorRef i section index"
    and begun: "begin_table E section d s = (Inr (Inr plan), s')"
    and sect: "section \<noteq> LinkageType" "section \<noteq> LinkageInvalid"
  defines "object \<equiv> m_object (segment_at (ts_segments s) i)"
    and "location \<equiv> m_objectLocation (segment_at (ts_segments s) i)"
  shows "tp_walker plan = te_class E object section index" "tables_linked E s'"
    "\<forall>super. tp_super plan = Some super \<longrightarrow> (\<exists>j v. super = DescriptorRef j section v \<and>
      j < length (sd_segments (ts_segments s')) \<and>
      names_super E section location object index (m_objectLocation (segment_at (ts_segments s') j)) v)"
proof -
  let ?d = "ts_segments s" and ?N = "te_links E" and ?w = "te_class E object section index"
  have plan: "plan_table E i section ?w s = (Inr plan, s')"
    using begun d by (auto simp: begin_table_def has_section_def tb_bind_def tb_return_def object_def
        split: option.splits prod.splits sum.splits)
  then show "tp_walker plan = ?w" by (rule plan_walker)
  let ?x = "snd (lookupType (cw_type ?w) (segment_at ?d i))"
  let ?d1 = "set_segment i ?x ?d"
  have x: "same_segment (segment_at ?d i) ?x" "m_links ?x = m_links (segment_at ?d i)"
    using table_lookup_same by (auto simp: lookupType_def)
  have d1: "segments_ok ?N ?d1" "extends ?d ?d1" "modules_loaded ?N ?d1"
    using set_segment_ok [of ?N ?d i ?x] x modules_same [OF _ x(1), of ?N] s by (simp_all add: tables_linked_def)
  have i1: "i < length (sd_segments ?d1)" using s(2) by simp
  have at: "m_object (segment_at ?d1 i) = object" "m_objectLocation (segment_at ?d1 i) = location"
    using x(1) s(2) by (simp_all add: object_def location_def same_segment_def)
  consider (none) "tp_super plan = None" "ts_segments s' = ?d1"
    | (super) super a where "tp_super plan = Some super" "walker_address object section (cw_super ?w) = Some a"
      "fst (resolve_descriptor ?N i section a ?d1) = Inr super" "snd (resolve_descriptor ?N i section a ?d1) = ts_segments s'"
    using plan at
    by (auto simp: plan_table_def tb_return_def tb_fail_def tb_segments_def super_descriptor_def tb_address_def tb_object_def tb_read_def
        Let_def split_beta elim!: tb_bind_Inr split: if_splits option.splits)
  then have "tables_linked E s' \<and> (\<forall>super. tp_super plan = Some super \<longrightarrow> (\<exists>j v. super = DescriptorRef j section v \<and>
      j < length (sd_segments (ts_segments s')) \<and>
      names_super E section location object index (m_objectLocation (segment_at (ts_segments s') j)) v))"
  proof cases
    case none
    then show ?thesis using d1 by (simp add: tables_linked_def)
  next
    case (super super a)
    have r: "resolve_descriptor ?N i section a ?d1 = (Inr super, ts_segments s')"
      using super(3,4) by (simp add: prod_eq_iff)
    have s': "segments_ok ?N (ts_segments s')" "extends ?d1 (ts_segments s')" "modules_loaded ?N (ts_segments s')"
      using resolve_descriptor_ok [OF d1(1) i1, of "section" a] modules_resolve_descriptor [OF d1(3), of i "section" a]
      unfolding r by simp_all
    obtain j v where j: "super = DescriptorRef j section v" "j < length (sd_segments (ts_segments s'))"
      and names: "if IS_NEAR a then j = i \<and> v = a
       else \<exists>url path. unat (GET_LINK_OFFSET a) < length (od_links object) \<and>
         od_links object ! unat (GET_LINK_OFFSET a) = Some (url, path) \<and>
         m_objectLocation (segment_at (ts_segments s') j) = absolute_location ?N (Some location) url \<and>
         od_symbols (m_object (segment_at (ts_segments s') j)) path = Some (section, v)"
      using resolve_names [OF d1(1) i1 sect r] unfolding at by blast
    have "m_objectLocation (segment_at (ts_segments s') i) = location"
      using s'(2) i1 at(2) by (simp add: extends_def same_segment_def)
    moreover have "load_module ?N (m_isSystem (segment_at (ts_segments s') j)) (m_objectLocation (segment_at (ts_segments s') j)) =
        Some (m_object (segment_at (ts_segments s') j))"
      using s'(3) j(2) by (simp add: modules_loaded_def)
    ultimately have "names_super E section location object index (m_objectLocation (segment_at (ts_segments s') j)) v"
      using names super(2) unfolding names_super_def by (auto split: if_splits)
    then show ?thesis using s' super(1) j by (simp add: tables_linked_def)
  qed
  then show "tables_linked E s'" "\<forall>super. tp_super plan = Some super \<longrightarrow> (\<exists>j v. super = DescriptorRef j section v \<and>
      j < length (sd_segments (ts_segments s')) \<and>
      names_super E section location object index (m_objectLocation (segment_at (ts_segments s') j)) v)"
    by blast+
qed

text \<open>A descriptor of the section, in a segment that there is.\<close>

definition descriptor_in :: "tables_state \<Rightarrow> descriptor_ref \<Rightarrow> bool" where
  "descriptor_in s d \<longleftrightarrow> ref_segment d < length (sd_segments (ts_segments s))"

definition descriptor_rank :: "(string \<Rightarrow> u32 \<Rightarrow> nat) \<Rightarrow> tables_state \<Rightarrow> descriptor_ref \<Rightarrow> nat" where
  "descriptor_rank rank s d = rank (m_objectLocation (segment_at (ts_segments s) (ref_segment d))) (ref_index d)"

definition type_sections :: "linkage_section set" where
  "type_sections = {LinkageClass, LinkageStruct, LinkageEnum, LinkageInstance, LinkageConcept, LinkageExistential}"

lemma begin_table_Inr:
  assumes "begin_table E section d s = (Inr r, s')" "members_declared_once E section" "cache_dense s"
    "tables_linked E s" "descriptor_in s d" "section \<in> type_sections" "supers_descend E section rank"
  shows "case r of Inl t \<Rightarrow> table_dense t
    | Inr plan \<Rightarrow> distinct (map GET_DESCRIPTOR_OFFSET (cw_members (tp_walker plan))) \<and> tables_linked E s' \<and>
       (\<forall>super. tp_super plan = Some super \<longrightarrow> descriptor_in s' super \<and>
         descriptor_rank rank s' super < descriptor_rank rank s d)"
proof -
  have sect: "section \<noteq> LinkageType" "section \<noteq> LinkageInvalid" using assms(6) by (auto simp: type_sections_def)
  obtain i index where d: "d = DescriptorRef i section index"
    using assms(1) by (cases d) (auto simp: begin_table_def has_section_def tb_bind_def tb_fail_def split: if_splits)
  have i: "i < length (sd_segments (ts_segments s))" using assms(5) d by (simp add: descriptor_in_def)
  let ?object = "m_object (segment_at (ts_segments s) i)" and ?location = "m_objectLocation (segment_at (ts_segments s) i)"
  have load: "load_module (te_links E) (m_isSystem (segment_at (ts_segments s) i)) ?location = Some ?object"
    using assms(4) i by (simp add: tables_linked_def modules_loaded_def)
  show ?thesis
  proof (cases r)
    case (Inl t)
    then have "ts_tables s d = Some t"
      using assms(1) d by (auto simp: begin_table_def has_section_def tb_bind_def tb_return_def
          split: option.splits prod.splits sum.splits)
    then show ?thesis using Inl assms(3) by (simp add: cache_dense_def)
  next
    case (Inr plan)
    note plan = begin_plan [OF assms(4) i d assms(1) [unfolded Inr] sect]
    have "rank l v < rank ?location index" if "names_super E section ?location ?object index l v" for l v
      using assms(7) load that unfolding supers_descend_def by blast
    then show ?thesis
      using plan load assms(2) Inr d
      by (fastforce simp: members_declared_once_def descriptor_in_def descriptor_rank_def)
  qed
qed

text \<open>C25. From any state that loading and linking reach, with a cache of dense tables (as the empty one),
  building the table of a class, struct, enum, instance, concept or existential returns whenever no chain of
  supertypes of the modules, within a module or through its links, comes back to itself; and when no type of
  a module declares a member twice, every table it builds or finds is dense: the members of a type and of its
  supertypes have slots of their own, numbered from zero in the order of their declaration, supertypes first.
  Nothing in the code enforces the two conditions.\<close>

theorem tables_are_built_dense:
  assumes "segments_reach (te_links E) empty_segments (ts_segments s)" "descriptor_in s d" "section \<in> type_sections"
    and "supers_descend E section rank" "members_declared_once E section" "cache_dense s"
  shows "\<exists>r s'. get_table E section d s = Some (r, s') \<and> cache_dense s' \<and> (\<forall>t. r = Inr t \<longrightarrow> table_dense t)"
  using tables_linked_reach [OF assms(1)] assms(2,6)
proof (induction "descriptor_rank rank s d" arbitrary: d s rule: less_induct)
  case less
  obtain b s1 where b: "begin_table E section d s = (b, s1)" by fastforce
  have s1: "cache_dense s1" using keeps_denseD [OF begin_table_keeps b less.prems(3)] .
  show ?case
  proof (cases b)
    case (Inl e)
    then show ?thesis using b s1 by (subst get_table.simps) (simp add: Let_def)
  next
    case (Inr r)
    note good = begin_table_Inr [OF b [unfolded Inr] assms(5) less.prems(3,1,2) assms(3,4)]
    show ?thesis
    proof (cases r)
      case (Inl t)
      then show ?thesis using b Inr s1 good by (subst get_table.simps) (simp add: Let_def)
    next
      case plan: (Inr plan)
      have build: "builds_dense (finish_plan E section d plan parent)"
        if "\<And>p. parent = Some p \<Longrightarrow> table_dense p" for parent
        unfolding finish_plan_def using good plan that by (intro finish_table_dense) simp_all
      show ?thesis
      proof (cases "tp_super plan")
        case None
        then show ?thesis using b Inr plan s1 build [of None]
          by (subst get_table.simps) (auto simp: Let_def builds_dense_def intro!: exI prod.collapse [symmetric])
      next
        case (Some super)
        have "descriptor_rank rank s1 super < descriptor_rank rank s d" "tables_linked E s1" "descriptor_in s1 super"
          using good plan Some by simp_all
        from less.hyps [OF this s1] obtain q s2 where q: "get_table E section super s1 = Some (q, s2)"
          "cache_dense s2" "\<And>p. q = Inr p \<Longrightarrow> table_dense p" by blast
        have eq: "get_table E section d s = Some (finish_child E section d plan (q, s2))"
          using b Inr plan Some q(1) by (subst get_table.simps) (simp add: Let_def)
        show ?thesis
        proof (cases q)
          case (Inl e)
          then show ?thesis using eq q(2) by (simp add: finish_child_def)
        next
          case (Inr p)
          then have "builds_dense (finish_plan E section d plan (Some p))" using build [of "Some p"] q(3) by simp
          then show ?thesis using eq Inr q(2)
            by (auto simp: finish_child_def builds_dense_def intro!: exI prod.collapse [symmetric])
        qed
      qed
    qed
  qed
qed

text \<open>The class of the module \<open>a\<close> extends the class that it imports from the module \<open>b\<close>, which is not loaded
  yet; each declares its own field.\<close>

definition base_object :: lyric_object where
  "base_object =
    \<lparr>od_bytecode = [], od_calls = [], od_statics = [], od_links = [], od_symbols = [''B'' \<mapsto> (LinkageClass, 0)],
     od_types = [NotConcrete None], od_count = (\<lambda>_. 1), od_plugin = None\<rparr>"

definition derived_object :: lyric_object where
  "derived_object = base_object\<lparr>od_links := [Some (''b'', ''B'')], od_symbols := Map.empty\<rparr>"

definition chain_walker :: "lyric_object \<Rightarrow> linkage_section \<Rightarrow> u32 \<Rightarrow> class_walker" where
  "chain_walker object sec index =
    \<lparr>cw_type = 0, cw_super = (if od_links object = [] then INVALID_ADDRESS_U32 else 0x80000000), cw_members = [0],
     cw_methods = [], cw_impls = [], cw_allocator = INVALID_ADDRESS_U32, cw_initializer = INVALID_ADDRESS_U32\<rparr>"

definition chain_links :: segment_env where
  "chain_links =
    \<lparr>location_valid = (\<lambda>_. True), location_relative = (\<lambda>_. False), resolve_location = (\<lambda>_ l. l),
     load_module = (\<lambda>_. [''a'' \<mapsto> derived_object, ''b'' \<mapsto> base_object]), load_plugin = (\<lambda>_ _. None)\<rparr>"

definition chain_env :: table_env where
  "chain_env = \<lparr>te_links = chain_links, te_class = chain_walker, te_base = (\<lambda>_ _. None), te_trap = (\<lambda>_ _. None)\<rparr>"

definition chain_rank :: "string \<Rightarrow> u32 \<Rightarrow> nat" where
  "chain_rank location index = (if location = ''a'' then 1 else 0)"

lemma chain_descends: "supers_descend chain_env LinkageClass chain_rank"
  by (auto simp: supers_descend_def names_super_def chain_env_def chain_links_def chain_walker_def chain_rank_def
      base_object_def derived_object_def walker_address_def GET_ADDRESS_TYPE_def far_address_def GET_LINK_OFFSET_def
      GET_LINK_ADDRESS_def IS_NEAR_def absolute_location_def INVALID_ADDRESS_U32_def near_offset_def Let_def
      split: if_splits)

definition chain_tables :: tables_state where
  "chain_tables = \<lparr>ts_segments = segment_step chain_links (GetOrLoad ''a'' None False) empty_segments,
    ts_tables = Map.empty\<rparr>"

theorem tables_are_built_dense_witness:
  "\<exists>r s'. get_table chain_env LinkageClass (DescriptorRef 0 LinkageClass 0) chain_tables = Some (r, s') \<and>
    cache_dense s' \<and> (\<forall>t. r = Inr t \<longrightarrow> table_dense t)"
proof (rule tables_are_built_dense [OF _ _ _ chain_descends])
  show "segments_reach (te_links chain_env) empty_segments (ts_segments chain_tables)"
    by (simp add: chain_env_def chain_tables_def segments_step [OF segments_refl] del: segment_step.simps)
qed (simp_all add: descriptor_in_def chain_tables_def get_or_load_segment_def chain_links_def empty_segments_def
    plugin_accepts_def derived_object_def base_object_def type_sections_def members_declared_once_def chain_env_def
    chain_walker_def cache_dense_def Let_def)

definition sample_parent :: virtual_table where
  "sample_parent = VirtualTable 0 (DescriptorRef 0 LinkageClass 0) 0 None None None
    [(DescriptorRef 0 LinkageField 0, \<lparr>vf_segment = 0, vf_memberIndex = 0, vf_layoutOffset = 0\<rparr>)] [] []"

definition sample_child :: virtual_table where
  "sample_child = VirtualTable 0 (DescriptorRef 0 LinkageClass 1) 1 (Some sample_parent) None None
    [(DescriptorRef 0 LinkageField 1, \<lparr>vf_segment = 0, vf_memberIndex = 1, vf_layoutOffset = 1\<rparr>)] [] []"

lemma sample_child_ok: "table_dense sample_child" "layout_size sample_child = 2"
  by (simp_all add: sample_child_def sample_parent_def members_dense_def upt_rec)

theorem fields_are_variables_witness:
  "\<exists>ref'. ref_setField (DescriptorRef 0 LinkageField 1) empty_operand (new_fields_ref sample_child) =
     Some (empty_operand, ref') \<and>
     (\<forall>y. ref_getField y ref' = (if y = DescriptorRef 0 LinkageField 1 then Some empty_operand
        else ref_getField y (new_fields_ref sample_child)))"
proof -
  have member: "getMember (DescriptorRef 0 LinkageField 1) (fr_vtable (new_fields_ref sample_child)) \<noteq> None"
    by (simp add: new_fields_ref_def sample_child_def)
  have field: "ref_getField (DescriptorRef 0 LinkageField 1) (new_fields_ref sample_child) = Some empty_operand"
    by (simp add: ref_getField_def new_fields_ref_def sample_child_def sample_parent_def upt_rec)
  show ?thesis
    using fields_are_variables [OF new_fields_ref_ok [OF sample_child_ok(1)], of "DescriptorRef 0 LinkageField 1" empty_operand]
      member field sample_child_ok(2) by auto
qed

end
