(* ===== verification/CodeFragments.thy ===== *)
theory CodeFragments
  imports BytecodeBuilder Procs "HOL-Library.AList"
begin

text \<open>
  The assembler's code: \<open>lyric_assembler::CodeFragment\<close> (\<open>code_fragment.cpp\<close>), the instructions it is a
  list of (\<open>assembler_instructions.cpp\<close>), the labels and jump targets of a proc and the building of its
  bytecode (\<open>proc_handle.cpp\<close>).

  An instruction writes itself with a \<open>BytecodeBuilder\<close>. A label gives its name an offset, a jump leaves a
  placeholder for its target; when the fragment is written, the placeholders are patched with the offsets
  of the labels that the proc has for the targets.

  A symbol is what the instructions read of it: its type, the offset of an argument, local or lexical, its
  url, and whether a call is bound or a constructor. The addresses that \<open>ObjectWriter\<close> gives to
  symbols, literals, types and traps are parameters; literals and type handles are numbers. The table of
  patches is a hash map: the order in which it is iterated is a parameter.
\<close>

unbundle bit_operations_syntax

subsection \<open>Symbols and addresses\<close>

datatype symbol_type =
  SymExistential | SymAction | SymCall | SymConstant | SymField | SymStatic | SymLocal | SymLexical |
  SymArgument | SymSynthetic | SymConcept | SymClass | SymInstance | SymStruct | SymEnum | SymProtocol |
  SymNamespace | SymBinding | SymLinkage | SymTypename

record asm_symbol =
  sym_type :: symbol_type
  sym_offset :: u32
  sym_url :: string
  sym_bound :: bool
  sym_ctor :: bool

record object_writer =
  getSectionAddress :: "string \<Rightarrow> linkage_section \<Rightarrow> u32 option"
  getLiteralAddress :: "nat \<Rightarrow> u32 option"
  getTypeOffset :: "nat \<Rightarrow> u32 option"
  getTrapNumber :: "string \<Rightarrow> string \<Rightarrow> u32 option"

text \<open>A status that is not ok, of the assembler, of the writer or of the builder; an exception of
  \<open>at\<close>; and the failures of \<open>build_proc\<close>.\<close>

datatype asm_failure =
    kAssemblerInvariant | kInvalidBinding | WriterStatus | BuilderStatus object_condition
  | OutOfRange | ProcFailure assembler_failure

subsection \<open>Instructions\<close>

datatype synthetic_type = SyntheticInvalid | SyntheticThis | SyntheticRest

datatype (plugins only:) instruction =
    NoopInstruction
  | NilImmediateInstruction
  | UndefImmediateInstruction
  | BoolImmediateInstruction bool
  | I8ImmediateInstruction u8
  | I16ImmediateInstruction u16
  | I32ImmediateInstruction u32
  | I64ImmediateInstruction u64
  | U8ImmediateInstruction u8
  | U16ImmediateInstruction u16
  | U32ImmediateInstruction u32
  | U64ImmediateInstruction u64
  | F32ImmediateInstruction u32
  | F64ImmediateInstruction u64
  | C32ImmediateInstruction u32
  | ArithmeticOperationInstruction opcode
  | CompareOperationInstruction opcode
  | LogicalOperationInstruction opcode
  | BitwiseOperationInstruction opcode
  | TypeOperationInstruction opcode
  | StackOperationInstruction opcode u16
  | LoadLiteralInstruction opcode nat
  | LoadDataInstruction asm_symbol
  | LoadDescriptorInstruction asm_symbol
  | LoadSyntheticInstruction synthetic_type
  | LoadTypeInstruction nat
  | StoreDataInstruction asm_symbol
  | LabelInstruction string
  | JumpInstruction u32
  | BranchInstruction opcode u32
  | CallInstruction opcode asm_symbol u16 u8
  | ReturnInstruction
  | RaiseInstruction
  | NewInstruction asm_symbol u16 u8
  | TrapInstruction string string u8
  | VaLoadInstruction
  | VaSizeInstruction
  | InterruptInstruction
  | HaltInstruction
  | AbortInstruction

text \<open>What \<open>apply\<close> assigns: the name and the offset of a label, or a target and where to patch it.\<close>

datatype emitted = NoOutput | LabelAt string u16 | PatchAt u32 u16

type_synonym applied = "asm_failure + emitted \<times> bytecode_builder"

definition wrote :: "built \<Rightarrow> applied" where
  "wrote r = (case r of (Ok, b) \<Rightarrow> Inr (NoOutput, b) | (NotOk c, b) \<Rightarrow> Inl (BuilderStatus c))"

definition patch_at :: "u32 \<Rightarrow> object_condition status \<times> u16 \<times> bytecode_builder \<Rightarrow> applied" where
  "patch_at targetId r =
    (case r of (Ok, offset, b) \<Rightarrow> Inr (PatchAt targetId offset, b) | (NotOk c, offset, b) \<Rightarrow> Inl (BuilderStatus c))"

definition write_address :: "endian_lib \<Rightarrow> opcode \<Rightarrow> u32 \<Rightarrow> bytecode_builder \<Rightarrow> built" where
  "write_address E op address b = and_then (writeOpcode op b) (writeU32 E address)"

definition write_flags_address :: "endian_lib \<Rightarrow> opcode \<Rightarrow> u8 \<Rightarrow> u32 \<Rightarrow> bytecode_builder \<Rightarrow> built" where
  "write_flags_address E op flags address b =
    and_then (and_then (writeOpcode op b) (writeU8 flags)) (writeU32 E address)"

definition write_call :: "endian_lib \<Rightarrow> opcode \<Rightarrow> u8 \<Rightarrow> u32 \<Rightarrow> u16 \<Rightarrow> bytecode_builder \<Rightarrow> built" where
  "write_call E op flags address placement b =
    and_then (write_flags_address E op flags address b) (writeU16 E placement)"

definition write_one_of :: "opcode list \<Rightarrow> opcode \<Rightarrow> bytecode_builder \<Rightarrow> applied" where
  "write_one_of allowed op b = (if op \<in> set allowed then wrote (writeOpcode op b) else Inl kAssemblerInvariant)"

definition section_address :: "object_writer \<Rightarrow> asm_symbol \<Rightarrow> linkage_section \<Rightarrow> asm_failure + u32" where
  "section_address W symbol section = or_else_fail WriterStatus (getSectionAddress W (sym_url symbol) section)"

definition load_data_target :: "object_writer \<Rightarrow> asm_symbol \<Rightarrow> asm_failure + u8 \<times> u32" where
  "load_data_target W symbol =
    (let linked = (\<lambda>section flags. then_do (section_address W symbol section) (\<lambda>address. Inr (flags, address)))
     in case sym_type symbol of
          SymArgument \<Rightarrow> Inr (LOAD_ARGUMENT, sym_offset symbol)
        | SymLocal \<Rightarrow> Inr (LOAD_LOCAL, sym_offset symbol)
        | SymLexical \<Rightarrow> Inr (LOAD_LEXICAL, sym_offset symbol)
        | SymEnum \<Rightarrow> linked LinkageEnum LOAD_ENUM
        | SymField \<Rightarrow> linked LinkageField LOAD_FIELD
        | SymInstance \<Rightarrow> linked LinkageInstance LOAD_INSTANCE
        | SymNamespace \<Rightarrow> linked LinkageNamespace LOAD_NAMESPACE
        | SymProtocol \<Rightarrow> linked LinkageProtocol LOAD_PROTOCOL
        | SymStatic \<Rightarrow> linked LinkageStatic LOAD_STATIC
        | _ \<Rightarrow> Inl kInvalidBinding)"

definition store_data_target :: "object_writer \<Rightarrow> asm_symbol \<Rightarrow> asm_failure + u8 \<times> u32" where
  "store_data_target W symbol =
    (let linked = (\<lambda>section flags. then_do (section_address W symbol section) (\<lambda>address. Inr (flags, address)))
     in case sym_type symbol of
          SymArgument \<Rightarrow> Inr (STORE_ARGUMENT, sym_offset symbol)
        | SymLocal \<Rightarrow> Inr (STORE_LOCAL, sym_offset symbol)
        | SymLexical \<Rightarrow> Inr (STORE_LEXICAL, sym_offset symbol)
        | SymField \<Rightarrow> linked LinkageField STORE_FIELD
        | SymStatic \<Rightarrow> linked LinkageStatic STORE_STATIC
        | _ \<Rightarrow> Inl kInvalidBinding)"

definition descriptor_load_target :: "object_writer \<Rightarrow> asm_symbol \<Rightarrow> asm_failure + u8 \<times> u32" where
  "descriptor_load_target W symbol =
    (let linked = (\<lambda>section. then_do (section_address W symbol section)
           (\<lambda>address. Inr (linkage_to_descriptor_section section, address)))
     in case sym_type symbol of
          SymAction \<Rightarrow> linked LinkageAction
        | SymCall \<Rightarrow> linked LinkageCall
        | SymClass \<Rightarrow> linked LinkageClass
        | SymConcept \<Rightarrow> linked LinkageConcept
        | SymEnum \<Rightarrow> linked LinkageEnum
        | SymExistential \<Rightarrow> linked LinkageExistential
        | SymField \<Rightarrow> linked LinkageField
        | SymInstance \<Rightarrow> linked LinkageInstance
        | SymNamespace \<Rightarrow> linked LinkageNamespace
        | SymStruct \<Rightarrow> linked LinkageStruct
        | _ \<Rightarrow> Inl kInvalidBinding)"

definition call_address :: "object_writer \<Rightarrow> opcode \<Rightarrow> asm_symbol \<Rightarrow> asm_failure + u32" where
  "call_address W op symbol =
    (if op = OP_CALL_VIRTUAL then
       (if sym_type symbol = SymCall then section_address W symbol LinkageCall else Inl kAssemblerInvariant)
     else if op = OP_CALL_STUB then
       (if sym_type symbol = SymAction then section_address W symbol LinkageAction else Inl kAssemblerInvariant)
     else if op \<in> {OP_CALL_EXISTENTIAL, OP_CALL_STATIC} then section_address W symbol LinkageCall
     else if op = OP_CALL_CONCEPT then section_address W symbol LinkageAction
     else Inl kAssemblerInvariant)"

text \<open>The \<open>apply\<close> of each class of instructions.\<close>

definition apply_arithmetic_operation :: "opcode \<Rightarrow> bytecode_builder \<Rightarrow> applied" where
  "apply_arithmetic_operation op b = write_one_of [OP_ADD, OP_SUB, OP_MUL, OP_DIV, OP_NEG] op b"

definition apply_compare_operation :: "opcode \<Rightarrow> bytecode_builder \<Rightarrow> applied" where
  "apply_compare_operation op b = write_one_of [OP_CMP] op b"

definition apply_logical_operation :: "opcode \<Rightarrow> bytecode_builder \<Rightarrow> applied" where
  "apply_logical_operation op b = write_one_of [OP_LOGICAL_AND, OP_LOGICAL_OR, OP_LOGICAL_NOT] op b"

definition apply_bitwise_operation :: "opcode \<Rightarrow> bytecode_builder \<Rightarrow> applied" where
  "apply_bitwise_operation op b =
    write_one_of [OP_BITWISE_AND, OP_BITWISE_OR, OP_BITWISE_XOR, OP_BITWISE_NOT, OP_BITWISE_SHL, OP_BITWISE_SHR] op b"

definition apply_type_operation :: "opcode \<Rightarrow> bytecode_builder \<Rightarrow> applied" where
  "apply_type_operation op b = write_one_of [OP_TYPE_CMP, OP_TYPE_OF] op b"

definition apply_stack_operation :: "endian_lib \<Rightarrow> opcode \<Rightarrow> u16 \<Rightarrow> bytecode_builder \<Rightarrow> applied" where
  "apply_stack_operation E op offset b =
    (if op \<in> {OP_POP, OP_DUP} then wrote (writeOpcode op b)
     else if op \<in> {OP_PICK, OP_DROP} then wrote (and_then (writeOpcode op b) (writeU16 E offset))
     else Inl kAssemblerInvariant)"

definition apply_load_literal ::
  "endian_lib \<Rightarrow> object_writer \<Rightarrow> opcode \<Rightarrow> nat \<Rightarrow> bytecode_builder \<Rightarrow> applied" where
  "apply_load_literal E W op literal b =
    (if op \<in> {OP_BYTES, OP_STRING} then
       then_do (or_else_fail WriterStatus (getLiteralAddress W literal)) (\<lambda>address. wrote (write_address E op address b))
     else Inl kAssemblerInvariant)"

definition apply_load_data :: "endian_lib \<Rightarrow> object_writer \<Rightarrow> asm_symbol \<Rightarrow> bytecode_builder \<Rightarrow> applied" where
  "apply_load_data E W symbol b =
    then_do (load_data_target W symbol) (\<lambda>(flags, address). wrote (write_flags_address E OP_LOAD flags address b))"

definition apply_load_descriptor :: "endian_lib \<Rightarrow> object_writer \<Rightarrow> asm_symbol \<Rightarrow> bytecode_builder \<Rightarrow> applied" where
  "apply_load_descriptor E W symbol b =
    then_do (descriptor_load_target W symbol) (\<lambda>(flags, address). wrote (write_flags_address E OP_DESCRIPTOR flags address b))"

definition apply_load_synthetic :: "synthetic_type \<Rightarrow> bytecode_builder \<Rightarrow> applied" where
  "apply_load_synthetic type b =
    (case wrote (writeOpcode OP_SYNTHETIC b) of
       Inl e \<Rightarrow> Inl e
     | Inr (out, b) \<Rightarrow>
        (case type of
           SyntheticThis \<Rightarrow> wrote (writeU8 SYNTHETIC_THIS b)
         | SyntheticRest \<Rightarrow> wrote (writeU8 SYNTHETIC_REST b)
         | SyntheticInvalid \<Rightarrow> Inl kAssemblerInvariant))"

definition apply_load_type :: "endian_lib \<Rightarrow> object_writer \<Rightarrow> nat \<Rightarrow> bytecode_builder \<Rightarrow> applied" where
  "apply_load_type E W type b =
    then_do (or_else_fail WriterStatus (getTypeOffset W type)) (\<lambda>offset.
      wrote (write_flags_address E OP_DESCRIPTOR (linkage_to_descriptor_section LinkageType) offset b))"

definition apply_store_data :: "endian_lib \<Rightarrow> object_writer \<Rightarrow> asm_symbol \<Rightarrow> bytecode_builder \<Rightarrow> applied" where
  "apply_store_data E W symbol b =
    then_do (store_data_target W symbol) (\<lambda>(flags, address). wrote (write_flags_address E OP_STORE flags address b))"

definition apply_label :: "string \<Rightarrow> bytecode_builder \<Rightarrow> applied" where
  "apply_label name b = Inr (LabelAt name (snd (makeLabel b)), b)"

definition apply_jump :: "endian_lib \<Rightarrow> u32 \<Rightarrow> bytecode_builder \<Rightarrow> applied" where
  "apply_jump E targetId b = patch_at targetId (jump E b)"

definition apply_branch :: "endian_lib \<Rightarrow> opcode \<Rightarrow> u32 \<Rightarrow> bytecode_builder \<Rightarrow> applied" where
  "apply_branch E op targetId b =
    (if op \<in> {OP_IF_NIL, OP_IF_NOTNIL, OP_IF_TRUE, OP_IF_FALSE, OP_IF_ZERO, OP_IF_NOTZERO, OP_IF_GT, OP_IF_GE,
        OP_IF_LT, OP_IF_LE} then patch_at targetId (emit_jump E op b)
     else Inl kAssemblerInvariant)"

definition apply_call ::
  "endian_lib \<Rightarrow> object_writer \<Rightarrow> opcode \<Rightarrow> asm_symbol \<Rightarrow> u16 \<Rightarrow> u8 \<Rightarrow> bytecode_builder \<Rightarrow> applied" where
  "apply_call E W op symbol placement flags b =
    then_do (call_address W op symbol) (\<lambda>address. wrote (write_call E op flags address placement b))"

definition apply_new ::
  "endian_lib \<Rightarrow> object_writer \<Rightarrow> asm_symbol \<Rightarrow> u16 \<Rightarrow> u8 \<Rightarrow> bytecode_builder \<Rightarrow> applied" where
  "apply_new E W symbol placement flags b =
    then_do (section_address W symbol LinkageCall)
      (\<lambda>address. wrote (write_call E OP_NEW (push_bit 4 0 OR flags) address placement b))"

definition apply_trap ::
  "endian_lib \<Rightarrow> object_writer \<Rightarrow> string \<Rightarrow> string \<Rightarrow> u8 \<Rightarrow> bytecode_builder \<Rightarrow> applied" where
  "apply_trap E W location name flags b =
    then_do (or_else_fail WriterStatus (getTrapNumber W location name)) (\<lambda>number. wrote (trap E number flags b))"

text \<open>The virtual call; the classes without a definition of their own write an opcode or an immediate.\<close>

fun apply_instruction :: "endian_lib \<Rightarrow> object_writer \<Rightarrow> instruction \<Rightarrow> bytecode_builder \<Rightarrow> applied" where
  "apply_instruction E W NoopInstruction b = wrote (writeOpcode OP_NOOP b)"
| "apply_instruction E W NilImmediateInstruction b = wrote (writeOpcode OP_NIL b)"
| "apply_instruction E W UndefImmediateInstruction b = wrote (writeOpcode OP_UNDEF b)"
| "apply_instruction E W (BoolImmediateInstruction v) b = wrote (loadBool v b)"
| "apply_instruction E W (I8ImmediateInstruction v) b = wrote (loadI8 v b)"
| "apply_instruction E W (I16ImmediateInstruction v) b = wrote (loadI16 E v b)"
| "apply_instruction E W (I32ImmediateInstruction v) b = wrote (loadI32 E v b)"
| "apply_instruction E W (I64ImmediateInstruction v) b = wrote (loadI64 E v b)"
| "apply_instruction E W (U8ImmediateInstruction v) b = wrote (loadU8 v b)"
| "apply_instruction E W (U16ImmediateInstruction v) b = wrote (loadU16 E v b)"
| "apply_instruction E W (U32ImmediateInstruction v) b = wrote (loadU32 E v b)"
| "apply_instruction E W (U64ImmediateInstruction v) b = wrote (loadU64 E v b)"
| "apply_instruction E W (F32ImmediateInstruction v) b = wrote (loadF32 E v b)"
| "apply_instruction E W (F64ImmediateInstruction v) b = wrote (loadF64 E v b)"
| "apply_instruction E W (C32ImmediateInstruction v) b = wrote (loadC32 E v b)"
| "apply_instruction E W (ArithmeticOperationInstruction op) b = apply_arithmetic_operation op b"
| "apply_instruction E W (CompareOperationInstruction op) b = apply_compare_operation op b"
| "apply_instruction E W (LogicalOperationInstruction op) b = apply_logical_operation op b"
| "apply_instruction E W (BitwiseOperationInstruction op) b = apply_bitwise_operation op b"
| "apply_instruction E W (TypeOperationInstruction op) b = apply_type_operation op b"
| "apply_instruction E W (StackOperationInstruction op offset) b = apply_stack_operation E op offset b"
| "apply_instruction E W (LoadLiteralInstruction op literal) b = apply_load_literal E W op literal b"
| "apply_instruction E W (LoadDataInstruction symbol) b = apply_load_data E W symbol b"
| "apply_instruction E W (LoadDescriptorInstruction symbol) b = apply_load_descriptor E W symbol b"
| "apply_instruction E W (LoadSyntheticInstruction type) b = apply_load_synthetic type b"
| "apply_instruction E W (LoadTypeInstruction type) b = apply_load_type E W type b"
| "apply_instruction E W (StoreDataInstruction symbol) b = apply_store_data E W symbol b"
| "apply_instruction E W (LabelInstruction name) b = apply_label name b"
| "apply_instruction E W (JumpInstruction targetId) b = apply_jump E targetId b"
| "apply_instruction E W (BranchInstruction op targetId) b = apply_branch E op targetId b"
| "apply_instruction E W (CallInstruction op symbol placement flags) b = apply_call E W op symbol placement flags b"
| "apply_instruction E W ReturnInstruction b = wrote (writeOpcode OP_RETURN b)"
| "apply_instruction E W RaiseInstruction b = wrote (writeOpcode OP_RAISE b)"
| "apply_instruction E W (NewInstruction symbol placement flags) b = apply_new E W symbol placement flags b"
| "apply_instruction E W (TrapInstruction location name flags) b = apply_trap E W location name flags b"
| "apply_instruction E W VaLoadInstruction b = wrote (writeOpcode OP_VA_LOAD b)"
| "apply_instruction E W VaSizeInstruction b = wrote (writeOpcode OP_VA_SIZE b)"
| "apply_instruction E W InterruptInstruction b = wrote (writeOpcode OP_INTERRUPT b)"
| "apply_instruction E W HaltInstruction b = wrote (writeOpcode OP_HALT b)"
| "apply_instruction E W AbortInstruction b = wrote (writeOpcode OP_ABORT b)"

lemmas apply_class_defs [simp] =
  apply_arithmetic_operation_def apply_compare_operation_def apply_logical_operation_def apply_bitwise_operation_def
  apply_type_operation_def apply_stack_operation_def apply_load_literal_def apply_load_data_def
  apply_load_descriptor_def apply_load_synthetic_def apply_load_type_def apply_store_data_def apply_label_def
  apply_jump_def apply_branch_def apply_call_def apply_new_def apply_trap_def

subsection \<open>Labels and targets of a proc\<close>

record proc_labels =
  m_nextId :: u32
  m_labelTargets :: "string \<Rightarrow> u32 set option"
  m_jumpLabels :: "u32 \<Rightarrow> string option"

definition no_labels :: proc_labels where
  "no_labels = \<lparr>m_nextId = 0, m_labelTargets = Map.empty, m_jumpLabels = Map.empty\<rparr>"

fun decimal :: "nat \<Rightarrow> string" where
  "decimal n =
    (if n < 10 then [char_of (48 + n)] else decimal (n div 10) @ [char_of (48 + n mod 10)])"

declare decimal.simps [simp del]

definition makeLabel_named :: "string \<Rightarrow> proc_labels \<Rightarrow> (asm_failure + string) \<times> proc_labels" where
  "makeLabel_named userLabel p =
    (if userLabel = [] then
       (if m_nextId p = - 1 then (Inl kAssemblerInvariant, p)
        else let labelName = ''label'' @ decimal (unat (m_nextId p))
        in if m_labelTargets p labelName \<noteq> None then (Inl kAssemblerInvariant, p)
        else (Inr labelName, p\<lparr>m_nextId := m_nextId p + 1, m_labelTargets := (m_labelTargets p)(labelName \<mapsto> {})\<rparr>))
     else if m_labelTargets p userLabel \<noteq> None then (Inl kAssemblerInvariant, p)
     else (Inr userLabel, p\<lparr>m_labelTargets := (m_labelTargets p)(userLabel \<mapsto> {})\<rparr>))"

definition makeJump_target :: "proc_labels \<Rightarrow> (asm_failure + u32) \<times> proc_labels" where
  "makeJump_target p =
    (if m_nextId p = - 1 then (Inl kAssemblerInvariant, p)
     else (Inr (m_nextId p), p\<lparr>m_nextId := m_nextId p + 1, m_jumpLabels := (m_jumpLabels p)(m_nextId p \<mapsto> [])\<rparr>))"

text \<open>The empty label aborts.\<close>

definition patchTarget :: "u32 \<Rightarrow> string \<Rightarrow> proc_labels \<Rightarrow> asm_failure option \<times> proc_labels" where
  "patchTarget targetId labelName p =
    (case m_labelTargets p labelName of
       None \<Rightarrow> (Some kAssemblerInvariant, p)
     | Some targets \<Rightarrow>
        (case m_jumpLabels p targetId of
           None \<Rightarrow> (Some kAssemblerInvariant, p)
         | Some label \<Rightarrow>
            (None, p\<lparr>m_labelTargets := (m_labelTargets p)(labelName \<mapsto> insert targetId targets),
               m_jumpLabels := (m_jumpLabels p)(targetId \<mapsto> labelName)\<rparr>)))"

definition getTargetsForLabel :: "string \<Rightarrow> proc_labels \<Rightarrow> u32 set" where
  "getTargetsForLabel labelName p = (case m_labelTargets p labelName of None \<Rightarrow> {} | Some targets \<Rightarrow> targets)"

definition getLabelForTarget :: "u32 \<Rightarrow> proc_labels \<Rightarrow> string" where
  "getLabelForTarget targetId p = (case m_jumpLabels p targetId of None \<Rightarrow> [] | Some label \<Rightarrow> label)"

subsection \<open>Code fragments\<close>

type_synonym code_fragment = "instruction list"

definition appendInstruction :: "instruction \<Rightarrow> code_fragment \<Rightarrow> code_fragment" where
  "appendInstruction i f = f @ [i]"

text \<open>The index is an \<open>int\<close>, compared as an unsigned number.\<close>

definition insertInstruction :: "int \<Rightarrow> instruction \<Rightarrow> code_fragment \<Rightarrow> code_fragment" where
  "insertInstruction index i f =
    (if index < 0 \<or> int (length f) \<le> index then appendInstruction i f
     else take (nat index) f @ i # drop (nat index) f)"

definition insertFragment :: "int \<Rightarrow> code_fragment \<Rightarrow> code_fragment \<Rightarrow> code_fragment" where
  "insertFragment index g f =
    (if index < 0 \<or> int (length f) \<le> index then f @ g else take (nat index) f @ g @ drop (nat index) f)"

definition appendFragment :: "code_fragment \<Rightarrow> code_fragment \<Rightarrow> code_fragment" where
  "appendFragment g f = f @ g"

text \<open>A fragment and the labels of its proc.\<close>

type_synonym 'a fragment_op = "proc_labels \<times> code_fragment \<Rightarrow> (asm_failure + 'a) \<times> proc_labels \<times> code_fragment"

definition appendLabel :: "string \<Rightarrow> string fragment_op" where
  "appendLabel userLabel = (\<lambda>(p, f).
    case makeLabel_named userLabel p of
      (Inl e, p) \<Rightarrow> (Inl e, p, f)
    | (Inr labelName, p) \<Rightarrow> (Inr labelName, p, appendInstruction (LabelInstruction labelName) f))"

definition insertLabel :: "int \<Rightarrow> string \<Rightarrow> string fragment_op" where
  "insertLabel index userLabel = (\<lambda>(p, f).
    if index < 0 \<or> int (length f) \<le> index then appendLabel userLabel (p, f)
    else case makeLabel_named userLabel p of
      (Inl e, p) \<Rightarrow> (Inl e, p, f)
    | (Inr labelName, p) \<Rightarrow> (Inr labelName, p, insertInstruction index (LabelInstruction labelName) f))"

definition fragment_makeJump :: "opcode \<Rightarrow> u32 fragment_op" where
  "fragment_makeJump op = (\<lambda>(p, f).
    case makeJump_target p of
      (Inl e, p) \<Rightarrow> (Inl e, p, f)
    | (Inr targetId, p) \<Rightarrow>
       if op = OP_JUMP then (Inr targetId, p, appendInstruction (JumpInstruction targetId) f)
       else if op \<in> {OP_IF_GE, OP_IF_GT, OP_IF_LE, OP_IF_LT, OP_IF_TRUE, OP_IF_FALSE, OP_IF_NIL, OP_IF_NOTNIL,
           OP_IF_ZERO, OP_IF_NOTZERO}
       then (Inr targetId, p, appendInstruction (BranchInstruction op targetId) f)
       else (Inl kAssemblerInvariant, p, f))"

definition fragment_patchTarget :: "u32 \<Rightarrow> string \<Rightarrow> unit fragment_op" where
  "fragment_patchTarget targetId labelName = (\<lambda>(p, f).
    case patchTarget targetId labelName p of
      (None, p) \<Rightarrow> (Inr (), p, f)
    | (Some e, p) \<Rightarrow> (Inl e, p, f))"

definition fragment_callStatic :: "asm_symbol \<Rightarrow> u16 \<Rightarrow> u8 \<Rightarrow> code_fragment \<Rightarrow> asm_failure + code_fragment" where
  "fragment_callStatic symbol placement flags f =
    (if sym_bound symbol \<or> sym_ctor symbol then Inl kAssemblerInvariant
     else Inr (appendInstruction (CallInstruction OP_CALL_STATIC symbol placement flags) f))"

definition fragment_callVirtual :: "asm_symbol \<Rightarrow> u16 \<Rightarrow> u8 \<Rightarrow> code_fragment \<Rightarrow> asm_failure + code_fragment" where
  "fragment_callVirtual symbol placement flags f =
    (if \<not> sym_bound symbol then Inl kAssemblerInvariant
     else Inr (appendInstruction (CallInstruction OP_CALL_VIRTUAL symbol placement flags) f))"

definition fragment_constructNew :: "asm_symbol \<Rightarrow> u16 \<Rightarrow> u8 \<Rightarrow> code_fragment \<Rightarrow> asm_failure + code_fragment" where
  "fragment_constructNew symbol placement flags f =
    (if \<not> sym_ctor symbol then Inl kAssemblerInvariant
     else Inr (appendInstruction (NewInstruction symbol placement flags) f))"

subsection \<open>Building the bytecode of a proc\<close>

record fragment_build =
  fb_builder :: bytecode_builder
  fb_labels :: label_offsets
  fb_patches :: "(u32 \<times> u16) list"

definition note_emitted :: "emitted \<Rightarrow> fragment_build \<Rightarrow> fragment_build" where
  "note_emitted out s =
    (case out of
       NoOutput \<Rightarrow> s
     | LabelAt name offset \<Rightarrow> s\<lparr>fb_labels := (fb_labels s)(name \<mapsto> offset)\<rparr>
     | PatchAt targetId offset \<Rightarrow> s\<lparr>fb_patches := AList.update targetId offset (fb_patches s)\<rparr>)"

fun build_fragment ::
  "endian_lib \<Rightarrow> object_writer \<Rightarrow> code_fragment \<Rightarrow> fragment_build \<Rightarrow> asm_failure + fragment_build" where
  "build_fragment E W [] s = Inr s"
| "build_fragment E W (i # rest) s =
    then_do (apply_instruction E W i (fb_builder s)) (\<lambda>(out, b).
      build_fragment E W rest (note_emitted out (s\<lparr>fb_builder := b\<rparr>)))"

text \<open>The last instruction must transfer control or terminate.\<close>

definition validate_fragment :: "code_fragment \<Rightarrow> bool" where
  "validate_fragment f \<longleftrightarrow> f \<noteq> [] \<and>
    (case last f of
       JumpInstruction t \<Rightarrow> True | ReturnInstruction \<Rightarrow> True | InterruptInstruction \<Rightarrow> True
     | AbortInstruction \<Rightarrow> True | HaltInstruction \<Rightarrow> True | _ \<Rightarrow> False)"

fun patch_jumps ::
  "endian_lib \<Rightarrow> (u32 \<Rightarrow> string option) \<Rightarrow> label_offsets \<Rightarrow> (u32 \<times> u16) list \<Rightarrow> bytecode_builder \<Rightarrow>
   asm_failure + bytecode_builder" where
  "patch_jumps E jumpLabels labels [] b = Inr b"
| "patch_jumps E jumpLabels labels ((targetId, patchOffset) # rest) b =
    then_do (or_else_fail OutOfRange (jumpLabels targetId)) (\<lambda>jumpLabel.
    then_do (or_else_fail kAssemblerInvariant (labels jumpLabel)) (\<lambda>labelOffset.
      case patch E patchOffset labelOffset b of
        (NotOk c, b) \<Rightarrow> Inl (BuilderStatus c)
      | (Ok, b) \<Rightarrow> patch_jumps E jumpLabels labels rest b))"

definition build_code ::
  "endian_lib \<Rightarrow> object_writer \<Rightarrow> ((u32 \<times> u16) list \<Rightarrow> (u32 \<times> u16) list) \<Rightarrow> (u32 \<Rightarrow> string option) \<Rightarrow>
   code_fragment \<Rightarrow> asm_failure + bytecode_builder \<times> label_offsets" where
  "build_code E W order jumpLabels f =
    (if \<not> validate_fragment f then Inl kAssemblerInvariant
     else then_do (build_fragment E W f \<lparr>fb_builder = \<lparr>m_code = []\<rparr>, fb_labels = Map.empty, fb_patches = []\<rparr>) (\<lambda>s.
       then_do (patch_jumps E jumpLabels (fb_labels s) (order (fb_patches s)) (fb_builder s)) (\<lambda>b.
         Inr (b, fb_labels s))))"

text \<open>\<open>ProcHandle::build\<close>, of a proc whose stacks of loops and checks are empty when \<open>closed\<close>.\<close>

definition proc_handle_build ::
  "bytes_lib \<Rightarrow> endian_lib \<Rightarrow> object_writer \<Rightarrow> ((u32 \<times> u16) list \<Rightarrow> (u32 \<times> u16) list) \<Rightarrow> bool \<Rightarrow> proc_labels \<Rightarrow>
   code_fragment \<Rightarrow> int \<Rightarrow> int \<Rightarrow> proc_lexical list \<Rightarrow> check_handle list \<Rightarrow> nat \<Rightarrow> asm_failure + u8 list" where
  "proc_handle_build B E W order closed p f arity locals lexicals roots depth =
    (if validate_fragment f \<and> \<not> closed then Inl kAssemblerInvariant
     else then_do (build_code E W order (m_jumpLabels p) f) (\<lambda>(b, labels).
       map_sum ProcFailure id (build_proc B labels arity locals lexicals roots depth (m_code b))))"

end
