(* ===== verification/CodeFragmentsLaws.thy ===== *)
theory CodeFragmentsLaws
  imports CodeFragments "HOL-Library.Multiset"
begin

text \<open>
  What the assembler emits: the instructions of a fragment as the decoder of \<open>BytecodeIterator\<close> reads
  them, with every jump landing on the label that the proc has for its target; and the labels and targets
  that the operations of a fragment hand out, which are distinct.
\<close>

subsection \<open>The instruction that a statement stands for\<close>

text \<open>The instruction in the bytecode, with the displacement a jump has; labels have none.\<close>

definition from_target :: "asm_failure + u8 \<times> u32 \<Rightarrow> opcode \<Rightarrow> instr option" where
  "from_target r op = (case r of Inl e \<Rightarrow> None | Inr (flags, address) \<Rightarrow> Some (op, FlagsU8AddressU32 flags address))"

fun instruction_code :: "object_writer \<Rightarrow> instruction \<Rightarrow> u16 \<Rightarrow> instr option" where
  "instruction_code W NoopInstruction d = Some (OP_NOOP, NoOperands)"
| "instruction_code W NilImmediateInstruction d = Some (OP_NIL, NoOperands)"
| "instruction_code W UndefImmediateInstruction d = Some (OP_UNDEF, NoOperands)"
| "instruction_code W (BoolImmediateInstruction v) d = Some (if v then OP_TRUE else OP_FALSE, NoOperands)"
| "instruction_code W (I8ImmediateInstruction v) d = Some (OP_I8, ImmediateI8 v)"
| "instruction_code W (I16ImmediateInstruction v) d = Some (OP_I16, ImmediateI16 v)"
| "instruction_code W (I32ImmediateInstruction v) d = Some (OP_I32, ImmediateI32 v)"
| "instruction_code W (I64ImmediateInstruction v) d = Some (OP_I64, ImmediateI64 v)"
| "instruction_code W (U8ImmediateInstruction v) d = Some (OP_U8, ImmediateU8 v)"
| "instruction_code W (U16ImmediateInstruction v) d = Some (OP_U16, ImmediateU16 v)"
| "instruction_code W (U32ImmediateInstruction v) d = Some (OP_U32, ImmediateU32 v)"
| "instruction_code W (U64ImmediateInstruction v) d = Some (OP_U64, ImmediateU64 v)"
| "instruction_code W (F32ImmediateInstruction v) d = Some (OP_F32, ImmediateF32 v)"
| "instruction_code W (F64ImmediateInstruction v) d = Some (OP_F64, ImmediateF64 v)"
| "instruction_code W (C32ImmediateInstruction v) d = Some (OP_C32, ImmediateC32 v)"
| "instruction_code W (ArithmeticOperationInstruction op) d = Some (op, NoOperands)"
| "instruction_code W (CompareOperationInstruction op) d = Some (op, NoOperands)"
| "instruction_code W (LogicalOperationInstruction op) d = Some (op, NoOperands)"
| "instruction_code W (BitwiseOperationInstruction op) d = Some (op, NoOperands)"
| "instruction_code W (TypeOperationInstruction op) d = Some (op, NoOperands)"
| "instruction_code W (StackOperationInstruction op n) d =
    Some (op, if op = OP_PICK \<or> op = OP_DROP then OffsetU16 n else NoOperands)"
| "instruction_code W (LoadLiteralInstruction op literal) d =
    map_option (\<lambda>address. (op, AddressU32 address)) (getLiteralAddress W literal)"
| "instruction_code W (LoadDataInstruction symbol) d = from_target (load_data_target W symbol) OP_LOAD"
| "instruction_code W (LoadDescriptorInstruction symbol) d = from_target (descriptor_load_target W symbol) OP_DESCRIPTOR"
| "instruction_code W (LoadSyntheticInstruction type) d =
    Some (OP_SYNTHETIC, TypeU8 (if type = SyntheticThis then SYNTHETIC_THIS else SYNTHETIC_REST))"
| "instruction_code W (LoadTypeInstruction type) d = map_option
    (\<lambda>offset. (OP_DESCRIPTOR, FlagsU8AddressU32 (linkage_to_descriptor_section LinkageType) offset)) (getTypeOffset W type)"
| "instruction_code W (StoreDataInstruction symbol) d = from_target (store_data_target W symbol) OP_STORE"
| "instruction_code W (LabelInstruction name) d = None"
| "instruction_code W (JumpInstruction targetId) d = Some (OP_JUMP, JumpI16 d)"
| "instruction_code W (BranchInstruction op targetId) d = Some (op, JumpI16 d)"
| "instruction_code W (CallInstruction op symbol placement flags) d =
    (case call_address W op symbol of
       Inl e \<Rightarrow> None
     | Inr address \<Rightarrow> Some (op, FlagsU8AddressU32PlacementU16 flags address placement))"
| "instruction_code W ReturnInstruction d = Some (OP_RETURN, NoOperands)"
| "instruction_code W RaiseInstruction d = Some (OP_RAISE, NoOperands)"
| "instruction_code W (NewInstruction symbol placement flags) d = map_option
    (\<lambda>address. (OP_NEW, FlagsU8AddressU32PlacementU16 flags address placement))
    (getSectionAddress W (sym_url symbol) LinkageCall)"
| "instruction_code W (TrapInstruction location name flags) d =
    map_option (\<lambda>number. (OP_TRAP, FlagsU8AddressU32 flags number)) (getTrapNumber W location name)"
| "instruction_code W VaLoadInstruction d = Some (OP_VA_LOAD, NoOperands)"
| "instruction_code W VaSizeInstruction d = Some (OP_VA_SIZE, NoOperands)"
| "instruction_code W InterruptInstruction d = Some (OP_INTERRUPT, NoOperands)"
| "instruction_code W HaltInstruction d = Some (OP_HALT, NoOperands)"
| "instruction_code W AbortInstruction d = Some (OP_ABORT, NoOperands)"

definition jump_target :: "instruction \<Rightarrow> u32 option" where
  "jump_target i = (case i of JumpInstruction t \<Rightarrow> Some t | BranchInstruction op t \<Rightarrow> Some t | _ \<Rightarrow> None)"

definition label_of :: "instruction \<Rightarrow> string option" where
  "label_of i = (case i of LabelInstruction name \<Rightarrow> Some name | _ \<Rightarrow> None)"

definition bytes_of :: "object_writer \<Rightarrow> instruction \<Rightarrow> u8 list" where
  "bytes_of W i = (case instruction_code W i 0 of None \<Rightarrow> [] | Some ins \<Rightarrow> instr_bytes ins)"

definition expected_output :: "instruction \<Rightarrow> nat \<Rightarrow> emitted" where
  "expected_output i n =
    (case label_of i of
       Some name \<Rightarrow> LabelAt name (word_of_nat n)
     | None \<Rightarrow> (case jump_target i of Some t \<Rightarrow> PatchAt t (word_of_nat (Suc n)) | None \<Rightarrow> NoOutput))"

text \<open>A statement that has an instruction, unless it is a label; a jump has one that can be patched.\<close>

definition codes :: "object_writer \<Rightarrow> instruction \<Rightarrow> bool" where
  "codes W i \<longleftrightarrow> (label_of i = None \<longrightarrow> (\<exists>op args. instruction_code W i 0 = Some (op, args) \<and> instr_ok (op, args) \<and>
      (jump_target i \<noteq> None \<longrightarrow> is_jump op \<and> (\<forall>d. instruction_code W i d = Some (op, JumpI16 d)))))"

lemma wrote_Inr: "wrote r = Inr (out, b') \<longleftrightarrow> r = (Ok, b') \<and> out = NoOutput"
  by (auto simp: wrote_def split: prod.splits status.splits)

lemma or_else_fail_Inr: "or_else_fail e x = Inr y \<longleftrightarrow> x = Some y"
  by (cases x) (simp_all add: or_else_fail_def)

lemmas apply_simps = wrote_Inr then_do_Inr or_else_fail_Inr write_one_of_def builder_defs and_then_is_Ok
  write_address_def write_flags_address_def write_call_def

lemma writeOpcode_Ok:
  "writeOpcode op b = (Ok, b') \<longleftrightarrow>
    0 < opcode_index op \<and> opcode_index op < LAST_OPCODE \<and> m_code b' = m_code b @ [opcode_index op]"
  by (cases b; cases b') (auto simp: writeOpcode_def writeU8_def append_bytes_def)


lemma instr_ok_iff:
  "instr_ok (op, args) \<longleftrightarrow> op \<noteq> OP_UNKNOWN \<and> opcode_index op < 81 \<and> opcode_wf op \<and>
    operands_type args = snd (ops ! unat (opcode_index op))"
  by (simp add: instr_ok_def LAST_OPCODE_def)

lemma no_operands_ok:
  "op \<in> {OP_ADD, OP_SUB, OP_MUL, OP_DIV, OP_NEG, OP_CMP, OP_LOGICAL_AND, OP_LOGICAL_OR, OP_LOGICAL_NOT,
     OP_BITWISE_AND, OP_BITWISE_OR, OP_BITWISE_XOR, OP_BITWISE_NOT, OP_BITWISE_SHL, OP_BITWISE_SHR, OP_TYPE_CMP,
     OP_TYPE_OF, OP_POP, OP_DUP} \<Longrightarrow> instr_ok (op, NoOperands)"
  by (elim insertE emptyE) (simp_all add: instr_ok_iff opcode_wf_def ops_def)

lemma call_ok_instr:
  "op \<in> {OP_CALL_STATIC, OP_CALL_VIRTUAL, OP_CALL_STUB, OP_CALL_CONCEPT, OP_CALL_EXISTENTIAL, OP_NEW} \<Longrightarrow>
    instr_ok (op, FlagsU8AddressU32PlacementU16 flags address placement)"
  by (elim insertE emptyE) (simp_all add: instr_ok_iff opcode_wf_def ops_def)

lemma address_ok:
  "op \<in> {OP_LOAD, OP_STORE, OP_DESCRIPTOR, OP_TRAP} \<Longrightarrow> instr_ok (op, FlagsU8AddressU32 flags address)"
  "op \<in> {OP_BYTES, OP_STRING} \<Longrightarrow> instr_ok (op, AddressU32 address)"
  "op \<in> {OP_PICK, OP_DROP} \<Longrightarrow> instr_ok (op, OffsetU16 n)"
  by (elim insertE emptyE; simp add: instr_ok_iff opcode_wf_def ops_def)+

lemma immediates_ok:
  "instr_ok (OP_I8, ImmediateI8 x1)" "instr_ok (OP_I16, ImmediateI16 x2)" "instr_ok (OP_I32, ImmediateI32 x3)"
  "instr_ok (OP_I64, ImmediateI64 x4)" "instr_ok (OP_U8, ImmediateU8 x1)" "instr_ok (OP_U16, ImmediateU16 x2)"
  "instr_ok (OP_U32, ImmediateU32 x3)" "instr_ok (OP_U64, ImmediateU64 x4)" "instr_ok (OP_F32, ImmediateF32 x3)"
  "instr_ok (OP_F64, ImmediateF64 x4)" "instr_ok (OP_C32, ImmediateC32 x3)" "instr_ok (OP_SYNTHETIC, TypeU8 x1)"
  by (simp_all add: instr_ok_iff opcode_wf_def ops_def)

lemma plain_ok:
  "op \<in> {OP_NOOP, OP_NIL, OP_UNDEF, OP_TRUE, OP_FALSE, OP_RETURN, OP_RAISE, OP_VA_LOAD, OP_VA_SIZE,
    OP_INTERRUPT, OP_HALT, OP_ABORT} \<Longrightarrow> instr_ok (op, NoOperands)"
  by (elim insertE emptyE) (simp_all add: instr_ok_iff opcode_wf_def ops_def)

lemma writeOpcode_known:
  assumes "instr_ok (op, args)"
  shows "writeOpcode op b = (Ok, b\<lparr>m_code := m_code b @ [opcode_index op]\<rparr>)"
proof -
  have "op \<noteq> OP_UNKNOWN" "opcode_index op < LAST_OPCODE" "opcode_wf op" using assms by (simp_all add: instr_ok_def)
  moreover have "0 < opcode_index op" using calculation
    by (cases op) (auto simp: opcode_wf_def LAST_OPCODE_def)
  ultimately show ?thesis by (simp add: writeOpcode_def writeU8_def append_bytes_def)
qed

lemmas writes = append_bytes_def writeU8_def writeU16_def writeU32_def writeU64_def

context endian
begin

lemma wrote_no_operands:
  "instr_ok (op, NoOperands) \<Longrightarrow>
    wrote (writeOpcode op b) = Inr (NoOutput, b\<lparr>m_code := m_code b @ instr_bytes (op, NoOperands)\<rparr>)"
  by (simp add: writeOpcode_known wrote_def instr_bytes_def)

lemma wrote_flags_address:
  "instr_ok (op, FlagsU8AddressU32 flags address) \<Longrightarrow> wrote (write_flags_address E op flags address b) =
    Inr (NoOutput, b\<lparr>m_code := m_code b @ instr_bytes (op, FlagsU8AddressU32 flags address)\<rparr>)"
  by (simp add: writeOpcode_known write_flags_address_def wrote_def instr_bytes_def writes big)

lemma wrote_call:
  "instr_ok (op, FlagsU8AddressU32PlacementU16 flags address placement) \<Longrightarrow>
    wrote (write_call E op flags address placement b) =
      Inr (NoOutput, b\<lparr>m_code := m_code b @ instr_bytes (op, FlagsU8AddressU32PlacementU16 flags address placement)\<rparr>)"
  by (simp add: writeOpcode_known write_call_def write_flags_address_def wrote_def instr_bytes_def writes big)

lemma wrote_address:
  "instr_ok (op, AddressU32 address) \<Longrightarrow> wrote (write_address E op address b) =
    Inr (NoOutput, b\<lparr>m_code := m_code b @ instr_bytes (op, AddressU32 address)\<rparr>)"
  by (simp add: writeOpcode_known write_address_def wrote_def instr_bytes_def writes big)

lemma wrote_stack_offset:
  "instr_ok (op, OffsetU16 n) \<Longrightarrow> wrote (and_then (writeOpcode op b) (writeU16 E n)) =
    Inr (NoOutput, b\<lparr>m_code := m_code b @ instr_bytes (op, OffsetU16 n)\<rparr>)"
  by (simp add: writeOpcode_known wrote_def instr_bytes_def writes big)

lemma patched_jump:
  "is_jump op \<Longrightarrow> patch_at targetId (emit_jump E op b) =
    Inr (PatchAt targetId (word_of_nat (Suc (length (m_code b)))), b\<lparr>m_code := m_code b @ instr_bytes (op, JumpI16 0)\<rparr>)"
  by (simp add: patch_at_def emit_jump_eq makePatch_after_opcode)

lemma jump_emit: "jump E b = emit_jump E OP_JUMP b"
  by (simp add: emit_jump_def)

end

definition emits :: "object_writer \<Rightarrow> instruction \<Rightarrow> bytecode_builder \<Rightarrow> applied \<Rightarrow> bool" where
  "emits W i b r \<longleftrightarrow> (\<forall>out b'. r = Inr (out, b') \<longrightarrow>
    b' = b\<lparr>m_code := m_code b @ bytes_of W i\<rparr> \<and> out = expected_output i (length (m_code b)) \<and> codes W i)"

lemma emits_instruction:
  assumes "label_of i = None" "jump_target i = None" "instruction_code W i 0 = Some ins" "instr_ok ins"
    "r = Inr (NoOutput, b\<lparr>m_code := m_code b @ instr_bytes ins\<rparr>)"
  shows "emits W i b r"
  using assms by (cases ins) (simp add: emits_def bytes_of_def expected_output_def codes_def)

lemma emits_error: "emits W i b (Inl e)"
  by (simp add: emits_def)


lemma emits_one_of:
  assumes "label_of i = None" "jump_target i = None" "instruction_code W i 0 = Some (op, NoOperands)"
    and "\<And>x. x \<in> set allowed \<Longrightarrow> instr_ok (x, NoOperands)" "endian E"
  shows "emits W i b (write_one_of allowed op b)"
  using assms by (auto simp: write_one_of_def endian.wrote_no_operands intro: emits_error emits_instruction)

lemma emits_target:
  assumes "label_of i = None" "jump_target i = None" "instruction_code W i 0 = from_target r op" "endian E"
    and "op \<in> {OP_LOAD, OP_STORE, OP_DESCRIPTOR}"
  shows "emits W i b (then_do r (\<lambda>(flags, address). wrote (write_flags_address E op flags address b)))"
proof (cases r)
  case (Inl e)
  then show ?thesis by (simp add: emits_error)
next
  case (Inr p)
  have "instr_ok (op, FlagsU8AddressU32 (fst p) (snd p))" using assms(5) by (intro address_ok(1)) auto
  then show ?thesis using assms(1-4) Inr
    by (auto simp: split_def endian.wrote_flags_address from_target_def intro!: emits_instruction)
qed

lemma emits_optional:
  assumes "label_of i = None" "jump_target i = None" "instruction_code W i 0 = map_option mk r"
    and "\<And>x. r = Some x \<Longrightarrow> instr_ok (mk x) \<and> w x = Inr (NoOutput, b\<lparr>m_code := m_code b @ instr_bytes (mk x)\<rparr>)"
  shows "emits W i b (then_do (or_else_fail e r) w)"
proof (cases r)
  case None
  then show ?thesis by (simp add: emits_error)
next
  case (Some x)
  then show ?thesis using assms emits_instruction [of i W "mk x" _ b] by simp
qed

lemma emits_jump:
  assumes "endian E" "is_jump op" "label_of i = None" "jump_target i = Some t"
    and "\<And>d. instruction_code W i d = Some (op, JumpI16 d)"
  shows "emits W i b (patch_at t (emit_jump E op b))"
  using assms
  by (simp add: emits_def endian.patched_jump bytes_of_def expected_output_def codes_def jump_instr_ok)

lemmas kind_defs = label_of_def jump_target_def

lemma emits_call:
  assumes "endian E" "call_ok c" "label_of i = None" "jump_target i = None" "instruction_code W i 0 = Some (call_instr c)"
  shows "emits W i b (wrote (run_call E c b))"
  using assms call_instr_ok [of c] endian.run_call_appends [OF assms(1,2), of b]
  by (intro emits_instruction) (simp_all add: wrote_def)

lemma emits_synthetic:
  "emits W (LoadSyntheticInstruction type) b (apply_instruction E W (LoadSyntheticInstruction type) b)"
proof -
  have op: "writeOpcode OP_SYNTHETIC b = (Ok, b\<lparr>m_code := m_code b @ [opcode_index OP_SYNTHETIC]\<rparr>)"
    by (rule writeOpcode_known [OF immediates_ok(12)])
  show ?thesis
    by (cases type) (auto simp: kind_defs op immediates_ok writes wrote_def instr_bytes_def
        intro!: emits_instruction emits_error)
qed

lemma apply_emits:
  assumes E: "endian E"
  shows "emits W i b (apply_instruction E W i b)"
proof -
  show ?thesis
  proof (cases i)
    case (BoolImmediateInstruction v)
    then show ?thesis
      by (auto simp: kind_defs loadBool_def endian.wrote_no_operands [OF E] plain_ok intro!: emits_instruction)
  next
    case (I8ImmediateInstruction v)
    then show ?thesis using emits_call [OF E, of "LoadI8 v"] by (simp add: kind_defs call_ok_def)
  next
    case (I16ImmediateInstruction v)
    then show ?thesis using emits_call [OF E, of "LoadI16 v"] by (simp add: kind_defs call_ok_def)
  next
    case (I32ImmediateInstruction v)
    then show ?thesis using emits_call [OF E, of "LoadI32 v"] by (simp add: kind_defs call_ok_def)
  next
    case (I64ImmediateInstruction v)
    then show ?thesis using emits_call [OF E, of "LoadI64 v"] by (simp add: kind_defs call_ok_def)
  next
    case (U8ImmediateInstruction v)
    then show ?thesis using emits_call [OF E, of "LoadU8 v"] by (simp add: kind_defs call_ok_def)
  next
    case (U16ImmediateInstruction v)
    then show ?thesis using emits_call [OF E, of "LoadU16 v"] by (simp add: kind_defs call_ok_def)
  next
    case (U32ImmediateInstruction v)
    then show ?thesis using emits_call [OF E, of "LoadU32 v"] by (simp add: kind_defs call_ok_def)
  next
    case (U64ImmediateInstruction v)
    then show ?thesis using emits_call [OF E, of "LoadU64 v"] by (simp add: kind_defs call_ok_def)
  next
    case (F32ImmediateInstruction v)
    then show ?thesis using emits_call [OF E, of "LoadF32 v"] by (simp add: kind_defs call_ok_def)
  next
    case (F64ImmediateInstruction v)
    then show ?thesis using emits_call [OF E, of "LoadF64 v"] by (simp add: kind_defs call_ok_def)
  next
    case (C32ImmediateInstruction v)
    then show ?thesis using emits_call [OF E, of "LoadC32 v"] by (simp add: kind_defs call_ok_def)
  next
    case (ArithmeticOperationInstruction op)
    then show ?thesis by (auto simp: kind_defs no_operands_ok intro!: emits_one_of [OF _ _ _ _ E])
  next
    case (CompareOperationInstruction op)
    then show ?thesis by (auto simp: kind_defs no_operands_ok intro!: emits_one_of [OF _ _ _ _ E])
  next
    case (LogicalOperationInstruction op)
    then show ?thesis by (auto simp: kind_defs no_operands_ok intro!: emits_one_of [OF _ _ _ _ E])
  next
    case (BitwiseOperationInstruction op)
    then show ?thesis by (auto simp: kind_defs no_operands_ok intro!: emits_one_of [OF _ _ _ _ E])
  next
    case (TypeOperationInstruction op)
    then show ?thesis by (auto simp: kind_defs no_operands_ok intro!: emits_one_of [OF _ _ _ _ E])
  next
    case (StackOperationInstruction op n)
    then show ?thesis
      by (auto simp: kind_defs endian.wrote_no_operands [OF E] endian.wrote_stack_offset [OF E] no_operands_ok
          address_ok intro!: emits_instruction emits_error)
  next
    case (LoadLiteralInstruction op literal)
    then show ?thesis
      by (auto simp: kind_defs endian.wrote_address [OF E] address_ok intro!: emits_optional emits_error)
  next
    case (LoadDataInstruction symbol)
    then show ?thesis by (auto simp: kind_defs E intro!: emits_target)
  next
    case (LoadDescriptorInstruction symbol)
    then show ?thesis by (auto simp: kind_defs E intro!: emits_target)
  next
    case (LoadSyntheticInstruction type)
    then show ?thesis by (simp only: emits_synthetic)
  next
    case (LoadTypeInstruction type)
    then show ?thesis
      by (auto simp: kind_defs endian.wrote_flags_address [OF E] address_ok intro!: emits_optional)
  next
    case (StoreDataInstruction symbol)
    then show ?thesis by (auto simp: kind_defs E intro!: emits_target)
  next
    case (LabelInstruction name)
    then show ?thesis by (simp add: kind_defs emits_def bytes_of_def expected_output_def codes_def makeLabel_def)
  next
    case (JumpInstruction targetId)
    then show ?thesis using endian.jump_emit [OF E]
      by (auto simp: kind_defs is_jump_def E intro!: emits_jump)
  next
    case (BranchInstruction op targetId)
    then show ?thesis by (auto simp: kind_defs is_jump_def E intro!: emits_jump emits_error)
  next
    case (CallInstruction op symbol placement flags)
    show ?thesis
    proof (cases "call_address W op symbol")
      case (Inl e)
      then show ?thesis using CallInstruction by (simp add: emits_error)
    next
      case (Inr address)
      then have "op \<in> {OP_CALL_STATIC, OP_CALL_VIRTUAL, OP_CALL_STUB, OP_CALL_CONCEPT, OP_CALL_EXISTENTIAL, OP_NEW}"
        by (auto simp: call_address_def split: if_splits)
      note ok = call_ok_instr [OF this]
      show ?thesis using CallInstruction Inr ok
        by (auto simp: kind_defs endian.wrote_call [OF E ok] intro!: emits_instruction)
    qed
  next
    case (NewInstruction symbol placement flags)
    then show ?thesis
      by (auto simp: kind_defs section_address_def endian.wrote_call [OF E] call_ok_instr intro!: emits_optional)
  next
    case (TrapInstruction location name flags)
    then show ?thesis using endian.wrote_flags_address [OF E, unfolded write_flags_address_def]
      by (auto simp: kind_defs trap_def address_ok intro!: emits_optional)
  qed (auto simp: kind_defs endian.wrote_no_operands [OF E] plain_ok intro!: emits_instruction)
qed


subsection \<open>Positions in a fragment\<close>

definition code_size :: "object_writer \<Rightarrow> code_fragment \<Rightarrow> nat" where
  "code_size W f = length (concat (map (bytes_of W) f))"

lemma code_size_simps [simp]:
  "code_size W [] = 0" "code_size W (i # f) = length (bytes_of W i) + code_size W f"
  "code_size W (f @ g) = code_size W f + code_size W g"
  by (simp_all add: code_size_def)

definition fragment_labels :: "code_fragment \<Rightarrow> string list" where
  "fragment_labels f = List.map_filter label_of f"

definition fragment_targets :: "code_fragment \<Rightarrow> u32 list" where
  "fragment_targets f = List.map_filter jump_target f"

lemma fragment_names_simps [simp]:
  "fragment_labels [] = []" "fragment_targets [] = []"
  "fragment_labels (i # f) = (case label_of i of None \<Rightarrow> fragment_labels f | Some l \<Rightarrow> l # fragment_labels f)"
  "fragment_targets (i # f) = (case jump_target i of None \<Rightarrow> fragment_targets f | Some t \<Rightarrow> t # fragment_targets f)"
  "fragment_labels (f @ g) = fragment_labels f @ fragment_labels g"
  "fragment_targets (f @ g) = fragment_targets f @ fragment_targets g"
  by (simp_all add: fragment_labels_def fragment_targets_def List.map_filter_def split: option.splits)

text \<open>The offset of a label and of the jump to a target, from the offset of the fragment.\<close>

fun label_position :: "object_writer \<Rightarrow> nat \<Rightarrow> code_fragment \<Rightarrow> string \<Rightarrow> nat option" where
  "label_position W n [] name = None"
| "label_position W n (i # f) name =
    (if label_of i = Some name then Some n else label_position W (n + length (bytes_of W i)) f name)"

fun jump_position :: "object_writer \<Rightarrow> nat \<Rightarrow> code_fragment \<Rightarrow> u32 \<Rightarrow> nat option" where
  "jump_position W n [] t = None"
| "jump_position W n (i # f) t =
    (if jump_target i = Some t then Some n else jump_position W (n + length (bytes_of W i)) f t)"

lemma label_position_None: "label_position W n f name = None \<longleftrightarrow> name \<notin> set (fragment_labels f)"
  by (induction f arbitrary: n) (auto split: option.splits)

lemma jump_position_None: "jump_position W n f t = None \<longleftrightarrow> t \<notin> set (fragment_targets f)"
  by (induction f arbitrary: n) (auto split: option.splits)

lemma label_position_Some:
  "label_position W n f name = Some q \<Longrightarrow>
    \<exists>g1 g2. f = g1 @ LabelInstruction name # g2 \<and> q = n + code_size W g1"
proof (induction f arbitrary: n)
  case (Cons i f)
  show ?case
  proof (cases "label_of i = Some name")
    case True
    then have "i = LabelInstruction name" by (cases i) (simp_all add: label_of_def)
    then show ?thesis using Cons.prems True by - (rule exI [of _ "[]"], rule exI [of _ f], simp)
  next
    case False
    then obtain g1 g2 where "f = g1 @ LabelInstruction name # g2" "q = n + length (bytes_of W i) + code_size W g1"
      using Cons by force
    then show ?thesis by - (rule exI [of _ "i # g1"], rule exI [of _ g2], simp)
  qed
qed simp

lemma jump_position_Some:
  "jump_position W n f t = Some q \<Longrightarrow>
    \<exists>f1 i f2. f = f1 @ i # f2 \<and> jump_target i = Some t \<and> q = n + code_size W f1"
proof (induction f arbitrary: n)
  case (Cons i f)
  show ?case
  proof (cases "jump_target i = Some t")
    case True
    then show ?thesis using Cons.prems by - (rule exI [of _ "[]"], rule exI [of _ i], rule exI [of _ f], simp)
  next
    case False
    then obtain f1 j f2 where "f = f1 @ j # f2" "jump_target j = Some t" "q = n + length (bytes_of W i) + code_size W f1"
      using Cons by force
    then show ?thesis by - (rule exI [of _ "i # f1"], rule exI [of _ j], rule exI [of _ f2], simp)
  qed
qed simp

subsection \<open>Writing a fragment\<close>

lemma not_both: "label_of i = Some l \<Longrightarrow> jump_target i = None"
  by (cases i) (simp_all add: kind_defs)

lemma label_bytes: "label_of i = Some l \<Longrightarrow> bytes_of W i = []"
  by (cases i) (simp_all add: kind_defs bytes_of_def)

definition wrote_fragment :: "object_writer \<Rightarrow> code_fragment \<Rightarrow> fragment_build \<Rightarrow> fragment_build \<Rightarrow> bool" where
  "wrote_fragment W f s s' \<longleftrightarrow>
    m_code (fb_builder s') = m_code (fb_builder s) @ concat (map (bytes_of W) f) \<and> (\<forall>i \<in> set f. codes W i) \<and>
    (\<forall>name. fb_labels s' name = (case label_position W (length (m_code (fb_builder s))) f name of
       Some q \<Rightarrow> Some (word_of_nat q) | None \<Rightarrow> fb_labels s name)) \<and>
    (\<forall>t. map_of (fb_patches s') t = (case jump_position W (length (m_code (fb_builder s))) f t of
       Some q \<Rightarrow> Some (word_of_nat (Suc q)) | None \<Rightarrow> map_of (fb_patches s) t)) \<and>
    (distinct (map fst (fb_patches s)) \<longrightarrow> distinct (map fst (fb_patches s')))"

lemma build_fragment_wrote:
  assumes "endian E" "build_fragment E W f s = Inr s'" "distinct (fragment_labels f)" "distinct (fragment_targets f)"
  shows "wrote_fragment W f s s'"
  using assms(2-)
proof (induction f arbitrary: s)
  case Nil
  then show ?case by (simp add: wrote_fragment_def)
next
  case (Cons i f)
  from Cons.prems(1) obtain out b where step: "apply_instruction E W i (fb_builder s) = Inr (out, b)"
    and rest: "build_fragment E W f (note_emitted out (s\<lparr>fb_builder := b\<rparr>)) = Inr s'"
    by (auto simp: then_do_Inr)
  let ?n = "length (m_code (fb_builder s))"
  let ?s = "note_emitted out (s\<lparr>fb_builder := b\<rparr>)"
  have b: "b = fb_builder s\<lparr>m_code := m_code (fb_builder s) @ bytes_of W i\<rparr>"
    and out: "out = expected_output i ?n" and i: "codes W i"
    using apply_emits [OF assms(1), of W i "fb_builder s"] step by (simp_all add: emits_def)
  have code: "m_code (fb_builder ?s) = m_code (fb_builder s) @ bytes_of W i"
    by (simp add: b note_emitted_def split: emitted.splits)
  have d: "distinct (fragment_labels f)" "distinct (fragment_targets f)"
    using Cons.prems(2,3) by (auto split: option.splits)
  note ih = Cons.IH [OF rest d, unfolded wrote_fragment_def code length_append]
  have labels: "fb_labels ?s name = (if label_of i = Some name then Some (word_of_nat ?n) else fb_labels s name)"
    and patches: "map_of (fb_patches ?s) t =
      (if jump_target i = Some t then Some (word_of_nat (Suc ?n)) else map_of (fb_patches s) t)"
    and keys: "distinct (map fst (fb_patches s)) \<Longrightarrow> distinct (map fst (fb_patches ?s))" for name t
    using not_both [of i]
    by (auto simp: out expected_output_def note_emitted_def update_conv' distinct_update split: option.splits)
  have new: "label_of i = Some name \<Longrightarrow> label_position W m f name = None"
    "jump_target i = Some t \<Longrightarrow> jump_position W m f t = None" for name t m
    using Cons.prems(2,3) by (auto simp: label_position_None jump_position_None)
  show ?case
    unfolding wrote_fragment_def
  proof (intro conjI allI)
    show "m_code (fb_builder s') = m_code (fb_builder s) @ concat (map (bytes_of W) (i # f))"
      using ih by simp
    show "\<forall>j \<in> set (i # f). codes W j" using ih i by simp
    show "fb_labels s' name = (case label_position W ?n (i # f) name of
       Some q \<Rightarrow> Some (word_of_nat q) | None \<Rightarrow> fb_labels s name)" for name
      using ih labels [of name] new(1) [of name] by (auto split: option.splits)
    show "map_of (fb_patches s') t = (case jump_position W ?n (i # f) t of
       Some q \<Rightarrow> Some (word_of_nat (Suc q)) | None \<Rightarrow> map_of (fb_patches s) t)" for t
      using ih patches [of t] new(2) [of t] by (auto split: option.splits)
    show "distinct (map fst (fb_patches s)) \<longrightarrow> distinct (map fst (fb_patches s'))"
      using ih keys by blast
  qed
qed


subsection \<open>Patching the jumps\<close>

text \<open>The instructions of a fragment whose jumps have the displacements that \<open>disp\<close> gives.\<close>

fun assembled :: "object_writer \<Rightarrow> (nat \<Rightarrow> instruction \<Rightarrow> u16) \<Rightarrow> nat \<Rightarrow> code_fragment \<Rightarrow> instr list" where
  "assembled W disp n [] = []"
| "assembled W disp n (i # f) =
    (case instruction_code W i (disp n i) of
       None \<Rightarrow> assembled W disp (n + length (bytes_of W i)) f
     | Some ins \<Rightarrow> ins # assembled W disp (n + length (bytes_of W i)) f)"

lemma assembled_append:
  "assembled W disp n (f @ g) = assembled W disp n f @ assembled W disp (n + code_size W f) g"
  by (induction f arbitrary: n) (simp_all add: add.assoc split: option.splits)

lemma assembled_cong:
  "(\<And>k i. i \<in> set f \<Longrightarrow> disp k i = disp' k i) \<Longrightarrow> assembled W disp n f = assembled W disp' n f"
  by (induction f arbitrary: n) (simp_all split: option.splits)

text \<open>Displacements do not change the size of an instruction, and change only jumps.\<close>

lemma instruction_code_plain: "jump_target i = None \<Longrightarrow> instruction_code W i d = instruction_code W i 0"
  by (cases i) (simp_all add: kind_defs)

lemma instruction_code_length:
  assumes "codes W i"
  shows "(case instruction_code W i d of None \<Rightarrow> [] | Some ins \<Rightarrow> instr_bytes ins) = bytes_of W i \<or>
    (\<exists>op. instruction_code W i d = Some (op, JumpI16 d) \<and> bytes_of W i = instr_bytes (op, JumpI16 0))"
proof (cases "jump_target i")
  case None
  then show ?thesis using instruction_code_plain [OF None, of W d] by (simp add: bytes_of_def)
next
  case (Some t)
  then have "label_of i = None" by (cases i) (simp_all add: kind_defs)
  then obtain op where "\<forall>d. instruction_code W i d = Some (op, JumpI16 d)"
    using assms Some unfolding codes_def by blast
  then show ?thesis by (simp add: bytes_of_def)
qed

lemma length_jump_bytes: "length (instr_bytes (op, JumpI16 d)) = 3"
  by (simp add: length_instr_bytes)

lemma assembled_size:
  assumes "\<forall>i \<in> set f. codes W i"
  shows "length (concat (map instr_bytes (assembled W disp n f))) = code_size W f"
  using assms
proof (induction f arbitrary: n)
  case (Cons i f)
  then have "length (case instruction_code W i (disp n i) of None \<Rightarrow> [] | Some ins \<Rightarrow> instr_bytes ins) =
      length (bytes_of W i)"
    using instruction_code_length [of W i "disp n i"] by (auto simp: length_jump_bytes)
  then show ?case using Cons by (auto split: option.splits)
qed simp

lemma assembled_zero:
  "concat (map instr_bytes (assembled W (\<lambda>n i. 0) n f)) = concat (map (bytes_of W) f)"
  by (induction f arbitrary: n) (simp_all add: bytes_of_def split: option.splits)

lemma assembled_ok:
  assumes "\<forall>i \<in> set f. codes W i"
  shows "\<forall>ins \<in> set (assembled W disp n f). instr_ok ins"
  using assms
proof (induction f arbitrary: n)
  case (Cons i f)
  have "instr_ok ins" if ins: "instruction_code W i (disp n i) = Some ins" for ins
  proof (cases "jump_target i")
    case None
    then have "label_of i = None" using ins by (cases i) (simp_all add: kind_defs)
    then show ?thesis using None Cons.prems ins instruction_code_plain [OF None, of W "disp n i"]
      by (auto simp: codes_def)
  next
    case (Some t)
    then have "label_of i = None" by (cases i) (simp_all add: kind_defs)
    then show ?thesis using Some Cons.prems ins jump_instr_ok by (fastforce simp: codes_def)
  qed
  then show ?case using Cons by (auto split: option.splits)
qed simp

text \<open>The displacement to the label of a jump's target, for the targets that were patched.\<close>

definition label_at_target ::
  "object_writer \<Rightarrow> (u32 \<Rightarrow> string option) \<Rightarrow> code_fragment \<Rightarrow> u32 \<Rightarrow> nat option" where
  "label_at_target W jumpLabels f t =
    (case jumpLabels t of None \<Rightarrow> None | Some name \<Rightarrow> label_position W 0 f name)"

definition displacement ::
  "object_writer \<Rightarrow> (u32 \<Rightarrow> string option) \<Rightarrow> code_fragment \<Rightarrow> u32 set \<Rightarrow> nat \<Rightarrow> instruction \<Rightarrow> u16" where
  "displacement W jumpLabels f P n i =
    (case jump_target i of
       None \<Rightarrow> 0
     | Some t \<Rightarrow> (case label_at_target W jumpLabels f t of
         None \<Rightarrow> 0
       | Some q \<Rightarrow> if t \<in> P then word_of_int (int q - (int n + 3)) else 0))"

definition reaches :: "object_writer \<Rightarrow> (u32 \<Rightarrow> string option) \<Rightarrow> code_fragment \<Rightarrow> u32 \<Rightarrow> bool" where
  "reaches W jumpLabels f t \<longleftrightarrow> (\<exists>p q. jump_position W 0 f t = Some p \<and> label_at_target W jumpLabels f t = Some q \<and>
     q \<le> code_size W f \<and> - 0x8000 \<le> int q - (int p + 3) \<and> int q - (int p + 3) \<le> 0x7FFF)"

lemma displacement_other:
  "jump_target i \<noteq> Some t \<Longrightarrow> displacement W jl f (insert t P) n i = displacement W jl f P n i"
  by (auto simp: displacement_def split: option.splits)

lemma in_targets: "j \<in> set f \<Longrightarrow> jump_target j = Some t \<Longrightarrow> t \<in> set (fragment_targets f)"
  by (induction f) (auto split: option.splits)

lemma patch_step:
  assumes E: "endian E" and codes: "\<forall>i \<in> set f. codes W i" and small: "code_size W f < 65536"
    and distinct: "distinct (fragment_targets f)"
    and b: "m_code b = concat (map instr_bytes (assembled W (displacement W jl f P) 0 f))"
    and t: "jump_position W 0 f t = Some p" "t \<notin> P" and l: "label_at_target W jl f t = Some q"
    and ok: "patch E (word_of_nat (Suc p)) (word_of_nat q) b = (Ok, b')" and q: "q \<le> code_size W f"
  shows "m_code b' = concat (map instr_bytes (assembled W (displacement W jl f (insert t P)) 0 f)) \<and> reaches W jl f t"
proof -
  obtain f1 i f2 where f: "f = f1 @ i # f2" and i: "jump_target i = Some t" and p: "p = code_size W f1"
    using jump_position_Some [OF t(1)] by auto
  have "label_of i = None" using i by (cases i) (simp_all add: kind_defs)
  then obtain op where op: "is_jump op" "\<And>d. instruction_code W i d = Some (op, JumpI16 d)"
    using codes i unfolding f codes_def by auto
  have bytes: "length (bytes_of W i) = 3" by (simp add: bytes_of_def op(2) length_jump_bytes)
  let ?D = "displacement W jl f P" and ?D' = "displacement W jl f (insert t P)"
  let ?pre = "concat (map instr_bytes (assembled W ?D 0 f1))"
  let ?post = "concat (map instr_bytes (assembled W ?D (p + 3) f2))"
  have others: "j \<in> set f1 \<union> set f2 \<Longrightarrow> jump_target j \<noteq> Some t" for j
    using distinct i unfolding f by (auto dest: in_targets)
  have split: "concat (map instr_bytes (assembled W D 0 f)) =
      concat (map instr_bytes (assembled W D 0 f1)) @ instr_bytes (op, JumpI16 (D p i)) @
      concat (map instr_bytes (assembled W D (p + 3) f2))" for D
    by (simp add: f assembled_append op(2) p bytes)
  have same: "assembled W ?D' n f1 = assembled W ?D n f1" "assembled W ?D' n f2 = assembled W ?D n f2" for n
    by (rule assembled_cong, rule displacement_other, simp add: others)+
  have pre: "length ?pre = p" using assembled_size [of f1 W ?D 0] codes by (simp add: f p)
  have size: "code_size W f = p + 3 + code_size W f2" by (simp add: f p bytes)
  have "?D p i = 0" using i t(2) by (simp add: displacement_def split: option.splits)
  then have code: "m_code b = ?pre @ instr_bytes (op, JumpI16 0) @ ?post" using b split by simp
  have len: "length (m_code b) = code_size W f" using b assembled_size [OF codes] by simp
  have uq: "uint (word_of_nat q :: u16) = int q" using q small by (simp add: unat_of_nat uint_nat)
  let ?delta = "int q - (int p + 3)"
  have "patch E (word_of_nat (Suc p)) (word_of_nat q) b =
    (if q \<le> length (m_code b) \<and> - 0x8000 \<le> ?delta \<and> ?delta \<le> 0x7FFF
     then (Ok, b\<lparr>m_code := ?pre @ instr_bytes (op, JumpI16 (word_of_int ?delta)) @ ?post\<rparr>)
     else (NotOk kObjectInvariant, b))"
    using endian.patch_placeholder [OF E code, of "word_of_nat q"] pre size small uq q
    by (simp add: unat_of_nat)
  then have range: "- 0x8000 \<le> ?delta" "?delta \<le> 0x7FFF"
    and b': "m_code b' = ?pre @ instr_bytes (op, JumpI16 (word_of_int ?delta)) @ ?post"
    using ok by (auto split: if_splits)
  have "?D' p i = word_of_int ?delta" using i l by (simp add: displacement_def)
  then have "m_code b' = concat (map instr_bytes (assembled W ?D' 0 f))"
    by (simp only: split [of ?D'] same b')
  then show ?thesis using t(1) l q range by (auto simp: reaches_def)
qed


lemma patch_jumps_assembled:
  assumes E: "endian E" and codes: "\<forall>i \<in> set f. codes W i" and small: "code_size W f < 65536"
    and distinct: "distinct (fragment_targets f)"
    and labels: "\<And>name. labels name = map_option word_of_nat (label_position W 0 f name)"
    and entries: "\<forall>(t, po) \<in> set ps. t \<notin> P \<and> (\<exists>p. jump_position W 0 f t = Some p \<and> po = word_of_nat (Suc p))"
    and once: "distinct (map fst ps)"
    and b: "m_code b = concat (map instr_bytes (assembled W (displacement W jl f P) 0 f))"
    and ok: "patch_jumps E jl labels ps b = Inr b'"
  shows "m_code b' = concat (map instr_bytes (assembled W (displacement W jl f (P \<union> fst ` set ps)) 0 f)) \<and>
    (\<forall>t \<in> fst ` set ps. reaches W jl f t)"
  using entries once b ok
proof (induction ps arbitrary: b P)
  case Nil
  then show ?case by simp
next
  case (Cons e ps)
  obtain t po where e: "e = (t, po)" by fastforce
  obtain p where p: "t \<notin> P" "jump_position W 0 f t = Some p" "po = word_of_nat (Suc p)"
    using Cons.prems(1) e by auto
  from Cons.prems(4) obtain name x where "jl t = Some name" and x: "labels name = Some x"
    and patched: "(case patch E po x b of (NotOk c, b) \<Rightarrow> Inl (BuilderStatus c)
      | (Ok, b) \<Rightarrow> patch_jumps E jl labels ps b) = Inr b'"
    by (auto simp: e then_do_Inr or_else_fail_Inr)
  moreover obtain q where "label_position W 0 f name = Some q" and q: "x = word_of_nat q"
    using x by (auto simp: labels)
  ultimately have name: "jl t = Some name" "label_position W 0 f name = Some q" by simp_all
  obtain b1 where b1: "patch E po (word_of_nat q) b = (Ok, b1)" "patch_jumps E jl labels ps b1 = Inr b'"
    using patched unfolding q by (cases "patch E po (word_of_nat q) b"; cases "fst (patch E po (word_of_nat q) b)") auto
  have l: "label_at_target W jl f t = Some q" by (simp add: label_at_target_def name)
  have le: "q \<le> code_size W f" using label_position_Some [OF name(2)] by auto
  have step: "m_code b1 = concat (map instr_bytes (assembled W (displacement W jl f (insert t P)) 0 f)) \<and>
      reaches W jl f t"
    using patch_step [OF E codes small distinct Cons.prems(3) p(2,1) l b1(1) [unfolded p(3)] le] .
  have "\<forall>(t', po) \<in> set ps. t' \<notin> insert t P \<and> (\<exists>p. jump_position W 0 f t' = Some p \<and> po = word_of_nat (Suc p))"
    "distinct (map fst ps)"
    using Cons.prems(1,2) e by force+
  from Cons.IH [OF this _ b1(2)] step show ?case by (simp add: e)
qed

subsection \<open>The code of a fragment\<close>

lemma displacement_targets:
  "assembled W (displacement W jl f (set (fragment_targets f))) 0 f = assembled W (displacement W jl f UNIV) 0 f"
  by (rule assembled_cong) (auto simp: displacement_def dest: in_targets split: option.splits)

lemma build_code_assembled:
  assumes E: "endian E" and build: "build_code E W order jl f = Inr (b, labels)"
    and distinct: "distinct (fragment_targets f)" "distinct (fragment_labels f)"
    and order: "\<And>ps. mset (order ps) = mset ps" and small: "code_size W f < 65536"
  shows "m_code b = concat (map instr_bytes (assembled W (displacement W jl f UNIV) 0 f)) \<and>
    (\<forall>i \<in> set f. codes W i) \<and> (\<forall>t \<in> set (fragment_targets f). reaches W jl f t) \<and>
    (\<forall>name. labels name = map_option word_of_nat (label_position W 0 f name))"
proof -
  let ?s = "\<lparr>fb_builder = \<lparr>m_code = []\<rparr>, fb_labels = Map.empty, fb_patches = []\<rparr>"
  obtain s where s: "build_fragment E W f ?s = Inr s"
    and p: "patch_jumps E jl (fb_labels s) (order (fb_patches s)) (fb_builder s) = Inr b" and l: "labels = fb_labels s"
    using build by (auto simp: build_code_def then_do_Inr split: if_splits)
  note w = build_fragment_wrote [OF E s distinct(2,1), unfolded wrote_fragment_def, simplified]
  have codes: "\<forall>i \<in> set f. codes W i" using w by blast
  have labels: "fb_labels s name = map_option word_of_nat (label_position W 0 f name)" for name
    using w by (simp split: option.splits)
  have patches: "map_of (fb_patches s) t = map_option (\<lambda>q. word_of_nat (Suc q)) (jump_position W 0 f t)" for t
    using w by (simp split: option.splits)
  have keys: "distinct (map fst (fb_patches s))" using w by blast
  have same: "set (order (fb_patches s)) = set (fb_patches s)" by (rule mset_eq_setD [OF order])
  have "mset (map fst (order (fb_patches s))) = mset (map fst (fb_patches s))" using order by simp
  then have once: "distinct (map fst (order (fb_patches s)))" using keys mset_eq_imp_distinct_iff by blast
  have entries: "\<forall>(t, po) \<in> set (order (fb_patches s)). t \<notin> {} \<and> (\<exists>p. jump_position W 0 f t = Some p \<and> po = word_of_nat (Suc p))"
    using patches keys unfolding same by (fastforce dest: map_of_is_SomeI)
  have "fst ` set (fb_patches s) = dom (map_of (fb_patches s))" by (simp add: dom_map_of_conv_image_fst)
  also have "\<dots> = set (fragment_targets f)" using patches jump_position_None by (force simp: dom_def)
  finally have targets: "fst ` set (order (fb_patches s)) = set (fragment_targets f)" by (simp add: same)
  have zero: "displacement W jl f {} = (\<lambda>n i. 0)"
    by (intro ext) (simp add: displacement_def split: option.splits)
  have b: "m_code (fb_builder s) = concat (map instr_bytes (assembled W (displacement W jl f {}) 0 f))"
    using w by (simp add: zero assembled_zero)
  show ?thesis
    using patch_jumps_assembled [OF E codes small distinct(1) labels entries once b p] labels codes
    by (simp add: targets displacement_targets l)
qed


lemma jump_position_split:
  assumes "distinct (fragment_targets (f1 @ i # f2))" "jump_target i = Some t"
  shows "jump_position W n (f1 @ i # f2) t = Some (n + code_size W f1)"
  using assms
proof (induction f1 arbitrary: n)
  case Nil
  then show ?case by simp
next
  case (Cons j f1)
  then have "jump_target j \<noteq> Some t" by auto
  then show ?case using Cons by (auto split: option.splits)
qed

lemma sint_in_range:
  "- 0x8000 \<le> d \<Longrightarrow> d \<le> 0x7FFF \<Longrightarrow> sint (word_of_int d :: u16) = d"
  by (simp add: sint_sbintrunc' signed_take_bit_int_eq_self)

lemma build_code_jumps:
  assumes "\<forall>t \<in> set (fragment_targets f). reaches W jl f t" "distinct (fragment_targets f)"
    and f: "f = f1 @ i # f2" "jump_target i = Some t"
  shows "\<exists>name g1 g2. jl t = Some name \<and> f = g1 @ LabelInstruction name # g2 \<and>
    int (code_size W f1) + 3 + sint (displacement W jl f UNIV (code_size W f1) i) = int (code_size W g1)"
proof -
  have "t \<in> set (fragment_targets f)" using f in_targets [of i f t] by simp
  then obtain p q where p: "jump_position W 0 f t = Some p" and q: "label_at_target W jl f t = Some q"
    and range: "- 0x8000 \<le> int q - (int p + 3)" "int q - (int p + 3) \<le> 0x7FFF"
    using assms(1) unfolding reaches_def by blast
  have pos: "p = code_size W f1" using jump_position_split [of f1 i f2 t W 0] assms(2) f p by simp
  obtain name where name: "jl t = Some name" "label_position W 0 f name = Some q"
    using q by (auto simp: label_at_target_def split: option.splits)
  obtain g1 g2 where g: "f = g1 @ LabelInstruction name # g2" "q = code_size W g1"
    using label_position_Some [OF name(2)] by auto
  have "displacement W jl f UNIV (code_size W f1) i = word_of_int (int q - (int p + 3))"
    using f(2) q pos by (simp add: displacement_def)
  moreover have "sint (word_of_int (int q - (int p + 3)) :: u16) = int q - (int p + 3)"
    using range by (rule sint_in_range)
  ultimately have "int (code_size W f1) + 3 + sint (displacement W jl f UNIV (code_size W f1) i) = int (code_size W g1)"
    using pos g(2) by simp
  then show ?thesis using name(1) g(1) by blast
qed

subsection \<open>Fragments that the operations make\<close>

datatype (plugins only:) fragment_call =
    AppendInstruction instruction
  | InsertInstruction int instruction
  | AppendLabel string
  | InsertLabel int string
  | MakeJump opcode
  | PatchTarget u32 string

fun fragment_step :: "fragment_call \<Rightarrow> proc_labels \<times> code_fragment \<Rightarrow> proc_labels \<times> code_fragment" where
  "fragment_step (AppendInstruction i) (p, f) = (p, appendInstruction i f)"
| "fragment_step (InsertInstruction index i) (p, f) = (p, insertInstruction index i f)"
| "fragment_step (AppendLabel name) s = snd (appendLabel name s)"
| "fragment_step (InsertLabel index name) s = snd (insertLabel index name s)"
| "fragment_step (MakeJump op) s = snd (fragment_makeJump op s)"
| "fragment_step (PatchTarget t name) s = snd (fragment_patchTarget t name s)"

text \<open>The fragments of one proc, which share its labels and targets; the first is the fragment of the proc
  itself. A fragment that is put into another is copied.\<close>

datatype (plugins only:) proc_call =
    MakeFragment
  | OnFragment nat fragment_call
  | AppendFragment nat nat
  | InsertFragment nat int nat

fun proc_step :: "proc_call \<Rightarrow> proc_labels \<times> code_fragment list \<Rightarrow> proc_labels \<times> code_fragment list" where
  "proc_step MakeFragment (p, fs) = (p, fs @ [[]])"
| "proc_step (OnFragment n c) (p, fs) =
    (if n < length fs then let (p, f) = fragment_step c (p, fs ! n) in (p, fs[n := f]) else (p, fs))"
| "proc_step (AppendFragment n m) (p, fs) =
    (if n < length fs \<and> m < length fs then (p, fs[n := appendFragment (fs ! m) (fs ! n)]) else (p, fs))"
| "proc_step (InsertFragment n index m) (p, fs) =
    (if n < length fs \<and> m < length fs then (p, fs[n := insertFragment index (fs ! m) (fs ! n)]) else (p, fs))"

definition run_proc :: "proc_call list \<Rightarrow> proc_labels \<times> code_fragment list" where
  "run_proc calls = fold proc_step calls (no_labels, [[]])"

text \<open>A fragment is given away with \<open>std::move\<close>: it is another one than the one it is put into, and it is
  not used again.\<close>

fun used :: "proc_call \<Rightarrow> nat set" where
  "used MakeFragment = {}"
| "used (OnFragment n c) = {n}"
| "used (AppendFragment n m) = {n, m}"
| "used (InsertFragment n index m) = {n, m}"

fun given :: "proc_call \<Rightarrow> nat set" where
  "given (AppendFragment n m) = {m}"
| "given (InsertFragment n index m) = {m}"
| "given _ = {}"

fun into_other :: "proc_call \<Rightarrow> bool" where
  "into_other (AppendFragment n m) = (n \<noteq> m)"
| "into_other (InsertFragment n index m) = (n \<noteq> m)"
| "into_other _ = True"

definition moved :: "proc_call list \<Rightarrow> nat set" where
  "moved calls = \<Union> (given ` set calls)"

fun moves_once :: "proc_call list \<Rightarrow> bool" where
  "moves_once [] = True"
| "moves_once (c # calls) = (into_other c \<and> (\<forall>c' \<in> set calls. given c \<inter> used c' = {}) \<and> moves_once calls)"

text \<open>Labels and jumps are made by their own operations.\<close>

definition proper_call :: "fragment_call \<Rightarrow> bool" where
  "proper_call c \<longleftrightarrow> (\<forall>i. c = AppendInstruction i \<or> (\<exists>index. c = InsertInstruction index i) \<longrightarrow>
     label_of i = None \<and> jump_target i = None)"

definition proper_calls :: "proc_call list \<Rightarrow> bool" where
  "proper_calls calls \<longleftrightarrow> moves_once calls \<and> (\<forall>n c. OnFragment n c \<in> set calls \<longrightarrow> proper_call c)"

definition fragment_ok :: "proc_labels \<times> code_fragment \<Rightarrow> bool" where
  "fragment_ok s \<longleftrightarrow> (let (p, f) = s in
    distinct (fragment_labels f) \<and> distinct (fragment_targets f) \<and>
    set (fragment_labels f) \<subseteq> dom (m_labelTargets p) \<and> set (fragment_targets f) \<subseteq> dom (m_jumpLabels p) \<and>
    (\<forall>t \<in> dom (m_jumpLabels p). t < m_nextId p) \<and>
    (\<forall>t name. m_jumpLabels p t = Some name \<longrightarrow> name \<noteq> [] \<longrightarrow> t \<in> getTargetsForLabel name p))"


lemma names_take_drop:
  "fragment_labels (take k f) @ fragment_labels (drop k f) = fragment_labels f"
  "fragment_targets (take k f) @ fragment_targets (drop k f) = fragment_targets f"
  by (simp_all flip: fragment_names_simps(5,6))

lemma insert_names:
  "mset (fragment_labels (insertInstruction index i f)) = mset (fragment_labels (i # f))"
  "mset (fragment_targets (insertInstruction index i f)) = mset (fragment_targets (i # f))"
  using arg_cong [OF names_take_drop(1) [of "nat index" f], of mset] arg_cong [OF names_take_drop(2) [of "nat index" f], of mset]
  by (simp_all add: insertInstruction_def appendInstruction_def split: option.splits)

lemma append_names:
  "mset (fragment_labels (appendInstruction i f)) = mset (fragment_labels (i # f))"
  "mset (fragment_targets (appendInstruction i f)) = mset (fragment_targets (i # f))"
  by (simp_all add: appendInstruction_def split: option.splits)

lemma fragment_ok_mset:
  assumes "mset (fragment_labels f) = mset (fragment_labels g)" "mset (fragment_targets f) = mset (fragment_targets g)"
  shows "fragment_ok (p, f) \<longleftrightarrow> fragment_ok (p, g)"
  using mset_eq_setD [OF assms(1)] mset_eq_setD [OF assms(2)] mset_eq_imp_distinct_iff [OF assms(1)]
    mset_eq_imp_distinct_iff [OF assms(2)]
  by (simp add: fragment_ok_def)

lemma fragment_ok_insert:
  "fragment_ok (p, insertInstruction index i f) \<longleftrightarrow> fragment_ok (p, i # f)"
  "fragment_ok (p, appendInstruction i f) \<longleftrightarrow> fragment_ok (p, i # f)"
  by (rule fragment_ok_mset; simp only: insert_names append_names)+

lemma fragment_ok_plain:
  "label_of i = None \<Longrightarrow> jump_target i = None \<Longrightarrow> fragment_ok (p, i # f) \<longleftrightarrow> fragment_ok (p, f)"
  by (simp add: fragment_ok_def)

lemma next_unat: "n \<noteq> - 1 \<Longrightarrow> unat (n + 1 :: u32) = Suc (unat n)"
  using unatSuc [of n] by (simp add: add.commute eq_neg_iff_add_eq_0)

lemma less_next: "t \<le> (n :: u32) \<Longrightarrow> n \<noteq> - 1 \<Longrightarrow> t < n + 1"
  by (simp add: word_less_nat_alt word_le_nat_alt next_unat)

lemma makeLabel_cases:
  assumes "makeLabel_named name p = (r, p')"
  obtains (error) e where "r = Inl e" "p' = p"
  | (made) l n where "r = Inr l" "m_labelTargets p l = None" "\<And>t. t < m_nextId p \<Longrightarrow> t < n"
      "p' = p\<lparr>m_nextId := n, m_labelTargets := (m_labelTargets p)(l \<mapsto> {})\<rparr>"
proof (cases r)
  case (Inl e)
  then have "p' = p" using assms by (auto simp: makeLabel_named_def Let_def split: if_splits)
  then show ?thesis using error Inl by blast
next
  case (Inr l)
  then have new: "m_labelTargets p l = None" and "p' = p\<lparr>m_nextId := m_nextId p',
      m_labelTargets := (m_labelTargets p)(l \<mapsto> {})\<rparr>"
    and "m_nextId p' = m_nextId p \<or> m_nextId p \<noteq> - 1 \<and> m_nextId p' = m_nextId p + 1"
    using assms by (auto simp: makeLabel_named_def Let_def split: if_splits)
  moreover from this(3) have "t < m_nextId p \<Longrightarrow> t < m_nextId p'" for t using less_next [of t "m_nextId p"] by auto
  ultimately show ?thesis using made Inr by blast
qed

lemma makeLabel_ok:
  assumes ok: "fragment_ok (p, f)" and r: "makeLabel_named name p = (r, p')"
  shows "fragment_ok (p', f) \<and> (\<forall>l. r = Inr l \<longrightarrow> fragment_ok (p', LabelInstruction l # f))"
  using r
proof (cases rule: makeLabel_cases)
  case error
  then show ?thesis using ok by simp
next
  case (made l n)
  have new: "l \<notin> set (fragment_labels f)" using ok made(2) by (auto simp: fragment_ok_def)
  have "getTargetsForLabel l p = {}" using made(2) by (simp add: getTargetsForLabel_def)
  then have "getTargetsForLabel x p' = getTargetsForLabel x p" for x
    unfolding made(4) by (simp add: getTargetsForLabel_def)
  then have "fragment_ok (p', f)"
    using ok made(3) by (auto simp: fragment_ok_def made(4))
  then show ?thesis using new made by (auto simp: fragment_ok_def kind_defs)
qed

lemma makeJump_ok:
  assumes "fragment_ok (p, f)" "makeJump_target p = (r, p')"
  shows "fragment_ok (p', f) \<and> (\<forall>t i. r = Inr t \<longrightarrow> jump_target i = Some t \<longrightarrow> fragment_ok (p', i # f))"
proof (cases "m_nextId p = - 1")
  case True
  then show ?thesis using assms by (auto simp: makeJump_target_def)
next
  case False
  let ?n = "m_nextId p"
  have new: "?n \<notin> set (fragment_targets f)" using assms(1) by (auto simp: fragment_ok_def)
  have p': "r = Inr ?n" "p' = p\<lparr>m_nextId := ?n + 1, m_jumpLabels := (m_jumpLabels p)(?n \<mapsto> [])\<rparr>"
    using assms(2) False by (simp_all add: makeJump_target_def)
  have later: "t \<le> ?n \<Longrightarrow> t < ?n + 1" for t using False by (simp add: less_next)
  have "fragment_ok (p', f)"
    using assms(1) later unfolding p'(2)
    by (auto simp: fragment_ok_def getTargetsForLabel_def order.strict_implies_order)
  moreover have "label_of i = None" if "jump_target i = Some t" for i t using that by (cases i) (simp_all add: kind_defs)
  ultimately show ?thesis using new p' by (auto simp: fragment_ok_def)
qed


lemma patchTarget_ok:
  assumes ok: "fragment_ok (p, f)" and r: "patchTarget t name p = (r, p')"
  shows "fragment_ok (p', f)"
proof (cases "r = None")
  case False
  then show ?thesis using assms by (auto simp: patchTarget_def split: option.splits)
next
  case True
  then obtain T label where T: "m_labelTargets p name = Some T" and t: "m_jumpLabels p t = Some label"
    and p': "p' = p\<lparr>m_labelTargets := (m_labelTargets p)(name \<mapsto> insert t T), m_jumpLabels := (m_jumpLabels p)(t \<mapsto> name)\<rparr>"
    using r by (auto simp: patchTarget_def split: option.splits)
  have "x \<in> getTargetsForLabel l p \<Longrightarrow> x \<in> getTargetsForLabel l p'" for x l
    using T unfolding p' by (auto simp: getTargetsForLabel_def)
  moreover have "t \<in> getTargetsForLabel name p'" by (simp add: p' getTargetsForLabel_def)
  moreover have "m_jumpLabels p' = (m_jumpLabels p)(t \<mapsto> name)" "m_nextId p' = m_nextId p"
    "dom (m_labelTargets p') = dom (m_labelTargets p)" using T by (auto simp: p')
  ultimately show ?thesis using ok t by (auto simp: fragment_ok_def)
qed

lemma fragment_ok_moved:
  "fragment_ok (p, insertInstruction index i f @ r) \<longleftrightarrow> fragment_ok (p, i # f @ r)"
  "fragment_ok (p, appendInstruction i f @ r) \<longleftrightarrow> fragment_ok (p, i # f @ r)"
  by (rule fragment_ok_mset; simp add: insert_names append_names split: option.splits)+

text \<open>A call on a fragment leaves the names of the fragment and of any others (\<open>r\<close>) apart.\<close>

lemma fragment_step_ok:
  assumes c: "proper_call c" and ok: "fragment_ok (p, f @ r)" and step: "fragment_step c (p, f) = (p', f')"
  shows "fragment_ok (p', f' @ r)"
proof (cases c)
  case (AppendInstruction i)
  then show ?thesis using assms by (auto simp: fragment_ok_moved fragment_ok_plain proper_call_def)
next
  case (InsertInstruction index i)
  then show ?thesis using assms by (auto simp: fragment_ok_moved fragment_ok_plain proper_call_def)
next
  case (AppendLabel name)
  then show ?thesis using makeLabel_ok [OF ok] step
    by (auto simp: appendLabel_def fragment_ok_moved split: prod.splits sum.splits)
next
  case (InsertLabel index name)
  then show ?thesis using makeLabel_ok [OF ok] step
    by (auto simp: insertLabel_def appendLabel_def fragment_ok_moved split: prod.splits sum.splits if_splits)
next
  case (MakeJump op)
  then show ?thesis using makeJump_ok [OF ok] step
    by (auto simp: fragment_makeJump_def fragment_ok_moved jump_target_def split: prod.splits sum.splits if_splits)
next
  case (PatchTarget t name)
  then show ?thesis using patchTarget_ok [OF ok] step
    by (auto simp: fragment_patchTarget_def split: prod.splits option.splits)
qed

text \<open>The instructions of the fragments that were not given away.\<close>

definition live_code :: "nat set \<Rightarrow> code_fragment list \<Rightarrow> code_fragment" where
  "live_code gone fs = concat (map (nth fs) (filter (\<lambda>k. k \<notin> gone) [0..<length fs]))"

lemma live_code_split:
  assumes "n < length fs" "n \<notin> gone"
  obtains r1 r2 where "\<And>f. live_code gone (fs[n := f]) = r1 @ f @ r2" "live_code (insert n gone) fs = r1 @ r2"
proof -
  have n: "[0..<length fs] = [0..<n] @ n # [Suc n..<length fs]"
    using assms(1) using upt_add_eq_append [of 0 n "length fs - n"] upt_conv_Cons [of n "length fs"] by simp
  let ?k = "\<lambda>m. m \<notin> gone" let ?l = "filter ?k [0..<n]" and ?r = "filter ?k [Suc n..<length fs]"
  have same: "map (nth (fs[n := f])) ks = map (nth fs) ks" if "n \<notin> set ks" for f ks
    using that by (induction ks) auto
  have "filter (\<lambda>m. m \<notin> insert n gone) [0..<n] = ?l" "filter (\<lambda>m. m \<notin> insert n gone) [Suc n..<length fs] = ?r"
    by (auto intro: filter_cong)
  then have "live_code (insert n gone) fs = concat (map (nth fs) ?l) @ concat (map (nth fs) ?r)"
    by (simp add: live_code_def n)
  moreover have "live_code gone (fs[n := f]) = concat (map (nth fs) ?l) @ f @ concat (map (nth fs) ?r)" for f
    using assms by (simp add: live_code_def n same)
  ultimately show thesis using that by blast
qed

lemma live_code_new: "live_code gone (fs @ [[]]) = live_code gone fs"
proof -
  have "concat (map (nth (fs @ [[]])) (filter (\<lambda>k. k \<notin> gone) [0..<length fs])) =
      concat (map (nth fs) (filter (\<lambda>k. k \<notin> gone) [0..<length fs]))"
    by (rule arg_cong [where f = concat]) (auto simp: nth_append)
  then show ?thesis by (simp only: live_code_def) (simp add: nth_append)
qed

lemma fragment_names_mset:
  assumes "mset f = mset g"
  shows "mset (fragment_labels f) = mset (fragment_labels g)" "mset (fragment_targets f) = mset (fragment_targets g)"
  using assms by (simp_all add: fragment_labels_def fragment_targets_def List.map_filter_def)

lemma fragment_ok_part: "fragment_ok (p, r1 @ f @ r2) \<Longrightarrow> fragment_ok (p, f)"
  by (simp add: fragment_ok_def)

lemma fragment_ok_rotate: "fragment_ok (p, r1 @ f @ r2) \<longleftrightarrow> fragment_ok (p, f @ r1 @ r2)"
  by (intro fragment_ok_mset fragment_names_mset) simp_all

lemma mset_insertFragment: "mset (insertFragment index g f) = mset (appendFragment g f)"
  using arg_cong [OF append_take_drop_id [of "nat index" f], of mset]
  by (simp add: insertFragment_def appendFragment_def) (simp flip: mset_append)

lemma live_code_join:
  assumes "n < length fs" "m < length fs" "n \<noteq> m" "n \<notin> gone" "m \<notin> gone" "mset f = mset (fs ! n) + mset (fs ! m)"
  shows "mset (live_code (insert m gone) (fs[n := f])) = mset (live_code gone fs)"
proof -
  obtain r1 r2 where r: "\<And>g. live_code gone (fs[m := g]) = r1 @ g @ r2" "live_code (insert m gone) fs = r1 @ r2"
    using live_code_split [OF assms(2,5)] by blast
  obtain q1 q2 where q: "\<And>g. live_code (insert m gone) (fs[n := g]) = q1 @ g @ q2"
    by (rule live_code_split [of n fs "insert m gone"]) (use assms(1,3,4) in auto)
  have "mset (live_code gone fs) = mset (fs ! m) + mset (live_code (insert m gone) fs)"
    using r(1) [of "fs ! m"] r(2) by simp
  then show ?thesis using q [of "fs ! n"] q [of f] assms(6) by simp
qed

lemma proc_step_ok:
  assumes ok: "fragment_ok (p, live_code gone fs)" and step: "proc_step c (p, fs) = (p', fs')"
    and c: "into_other c" "used c \<inter> gone = {}" "\<And>n k. c = OnFragment n k \<Longrightarrow> proper_call k"
  shows "fragment_ok (p', live_code (gone \<union> given c) fs')"
proof -
  have join: "fragment_ok (p, live_code (insert m gone) (fs[n := f]))"
    if "n < length fs" "m < length fs" "n \<noteq> m" "n \<notin> gone" "m \<notin> gone" "mset f = mset (fs ! n) + mset (fs ! m)"
    for n m f
    using ok fragment_ok_mset [OF fragment_names_mset [OF live_code_join [OF that]]] by blast
  have wider: "fragment_ok (p, live_code (insert m gone) fs)" for m
  proof (cases "m < length fs \<and> m \<notin> gone")
    case True
    then obtain r1 r2 where "\<And>g. live_code gone (fs[m := g]) = r1 @ g @ r2" "live_code (insert m gone) fs = r1 @ r2"
      using live_code_split by blast
    from this(1) [of "fs ! m"] this(2) show ?thesis using ok by (auto simp: fragment_ok_def)
  next
    case False
    then have "filter (\<lambda>k. k \<notin> insert m gone) [0..<length fs] = filter (\<lambda>k. k \<notin> gone) [0..<length fs]"
      by (auto intro!: filter_cong)
    then show ?thesis using ok by (simp add: live_code_def)
  qed
  show ?thesis
  proof (cases c)
    case MakeFragment
    then show ?thesis using ok step by (auto simp: live_code_new)
  next
    case (OnFragment n k)
    show ?thesis
    proof (cases "n < length fs")
      case True
      then obtain r1 r2 where r: "\<And>g. live_code gone (fs[n := g]) = r1 @ g @ r2"
        by (rule live_code_split [of n fs gone]) (use c(2) OnFragment in auto)
      obtain f where f: "fragment_step k (p, fs ! n) = (p', f)" "fs' = fs[n := f]"
        using step True OnFragment by (auto split: prod.splits)
      have "fragment_ok (p, fs ! n @ r1 @ r2)" using ok r [of "fs ! n"] by (simp add: fragment_ok_rotate)
      then have "fragment_ok (p', f @ r1 @ r2)" using fragment_step_ok [OF c(3) _ f(1)] OnFragment by blast
      then show ?thesis using OnFragment r [of f] by (simp add: f fragment_ok_rotate)
    qed (use ok step OnFragment in simp)
  next
    case (AppendFragment n m)
    then show ?thesis using join [of n m] wider step c(1,2) by (auto simp: appendFragment_def split: if_splits)
  next
    case (InsertFragment n index m)
    then show ?thesis using join [of n m] wider step c(1,2)
      by (auto simp: mset_insertFragment appendFragment_def split: if_splits)
  qed
qed

lemma moves_once_snoc: "moves_once (calls @ [c]) \<longleftrightarrow> moves_once calls \<and> into_other c \<and> used c \<inter> moved calls = {}"
  by (induction calls) (auto simp: moved_def)

lemma run_proc_ok:
  assumes "proper_calls calls" "run_proc calls = (p, fs)"
  shows "fragment_ok (p, live_code (moved calls) fs)"
  using assms
proof (induction calls arbitrary: p fs rule: rev_induct)
  case Nil
  then show ?case by (auto simp: run_proc_def live_code_def fragment_ok_def no_labels_def moved_def)
next
  case (snoc c calls)
  obtain q gs where q: "run_proc calls = (q, gs)" by fastforce
  then have step: "proc_step c (q, gs) = (p, fs)" using snoc.prems(2) by (simp add: run_proc_def)
  have c: "into_other c" "used c \<inter> moved calls = {}" "\<And>n k. c = OnFragment n k \<Longrightarrow> proper_call k"
    and calls: "proper_calls calls"
    using snoc.prems(1) by (auto simp: proper_calls_def moves_once_snoc)
  have "fragment_ok (p, live_code (moved calls \<union> given c) fs)"
    by (rule proc_step_ok [OF snoc.IH [OF calls q] step c])
  then show ?case by (simp add: moved_def Un_commute)
qed

lemma run_proc_fragment:
  assumes "proper_calls calls" "run_proc calls = (p, fs)" "n < length fs" "n \<notin> moved calls"
  shows "fragment_ok (p, fs ! n)"
  using live_code_split [OF assms(3,4)] run_proc_ok [OF assms(1,2)]
  by (metis fragment_ok_part list_update_id)

text \<open>C32. The operations of the fragments of a proc, putting one into another included, hand out every label
  and every jump target once: no two instructions of the fragments that were not given away have the same
  label or the same target. A target that was patched with a label is among the targets of the label. (Not
  conversely: a target that is patched again stays among the targets of its first label.) A fragment that
  was put into another is not used again.\<close>

theorem labels_and_targets_unique:
  assumes "proper_calls calls" "run_proc calls = (p, fs)"
  shows "distinct (fragment_labels (live_code (moved calls) fs)) \<and>
    distinct (fragment_targets (live_code (moved calls) fs)) \<and>
    (\<forall>t. getLabelForTarget t p \<noteq> [] \<longrightarrow> t \<in> getTargetsForLabel (getLabelForTarget t p) p)"
  using run_proc_ok [OF assms] by (auto simp: fragment_ok_def getLabelForTarget_def split: option.splits)

text \<open>C2. The bytecode of a fragment is the fragment: a fragment made by the operations, putting one fragment
  into another included, that was not given away and that builds to less than 65536 bytes, is read back as
  its instructions, in order and with their operands, in whatever order its patches are applied, and the
  displacement of every jump leads to the label that the proc has for its target. Beyond 65536 bytes the
  offsets of labels and patches wrap and the jumps land elsewhere.\<close>

theorem fragment_assembles:
  assumes "endian E" "proper_calls calls" "run_proc calls = (p, fs)" "n < length fs" "n \<notin> moved calls"
    and "fs ! n = f" "build_code E W order (m_jumpLabels p) f = Inr (b, labels)" "\<And>ps. mset (order ps) = mset ps"
    and "code_size W f < 65536" "length f < fuel"
  shows "read_ops E fuel (make_iterator (m_code b)) =
      Some (cells_at 0 (assembled W (displacement W (m_jumpLabels p) f UNIV) 0 f)) \<and>
    (\<forall>f1 i f2 t. f = f1 @ i # f2 \<longrightarrow> jump_target i = Some t \<longrightarrow>
      (\<exists>name g1 g2. m_jumpLabels p t = Some name \<and> f = g1 @ LabelInstruction name # g2 \<and>
        int (code_size W f1) + 3 + sint (displacement W (m_jumpLabels p) f UNIV (code_size W f1) i) =
          int (code_size W g1)))"
proof -
  have d: "distinct (fragment_labels f)" "distinct (fragment_targets f)"
    using run_proc_fragment [OF assms(2-5)] unfolding assms(6) by (simp_all add: fragment_ok_def)
  let ?is = "assembled W (displacement W (m_jumpLabels p) f UNIV) 0 f"
  have code: "m_code b = concat (map instr_bytes ?is)" and codes: "\<forall>i \<in> set f. codes W i"
    and reach: "\<forall>t \<in> set (fragment_targets f). reaches W (m_jumpLabels p) f t"
    using build_code_assembled [OF assms(1,7) d(2,1) assms(8,9)] by blast+
  have size: "length (m_code b) = code_size W f" by (simp only: code assembled_size [OF codes])
  have len: "length (assembled W disp n g) \<le> length g" for disp n g
    by (induction g arbitrary: n) (auto simp: le_SucI split: option.splits)
  have it: "iterates (make_iterator (m_code b)) (m_code b) 0"
    using assms(9) size by (simp add: span_ok_def)
  have "read_ops E fuel (make_iterator (m_code b)) = Some (cells_at 0 ?is)"
    using endian.read_ops_instrs [OF assms(1) assembled_ok [OF codes], where pre = "[]" and fuel = fuel
        and it = "make_iterator (m_code b)"] it le_less_trans [OF len assms(10)] unfolding code by simp
  then show ?thesis using build_code_jumps [OF reach d(2)] by blast
qed


definition sample_writer :: object_writer where
  "sample_writer = \<lparr>getSectionAddress = (\<lambda>_ _. Some 0), getLiteralAddress = (\<lambda>_. Some 0), getTypeOffset = (\<lambda>_. Some 0),
    getTrapNumber = (\<lambda>_ _. Some 0)\<rparr>"

text \<open>The condition and its jump are made in a fragment of their own and put into that of the proc.\<close>

definition sample_loop :: "proc_call list" where
  "sample_loop = [OnFragment 0 (AppendLabel ''top''), MakeFragment,
    OnFragment 1 (AppendInstruction (BoolImmediateInstruction True)), OnFragment 1 (MakeJump OP_IF_TRUE),
    OnFragment 1 (PatchTarget 0 ''top''), AppendFragment 0 1, OnFragment 0 (AppendInstruction ReturnInstruction)]"

definition sample_fragment :: code_fragment where
  "sample_fragment = [LabelInstruction ''top'', BoolImmediateInstruction True, BranchInstruction OP_IF_TRUE 0,
    ReturnInstruction]"

definition sample_labels :: proc_labels where
  "sample_labels = \<lparr>m_nextId = 1, m_labelTargets = [''top'' \<mapsto> {0}], m_jumpLabels = [0 \<mapsto> ''top'']\<rparr>"

lemma sample_run:
  "run_proc sample_loop = (sample_labels, [sample_fragment, [BoolImmediateInstruction True, BranchInstruction OP_IF_TRUE 0]])"
  by (simp add: run_proc_def sample_loop_def appendLabel_def makeLabel_named_def no_labels_def appendInstruction_def
      appendFragment_def fragment_makeJump_def makeJump_target_def fragment_patchTarget_def patchTarget_def
      sample_labels_def sample_fragment_def)

lemma sample_proper: "proper_calls sample_loop" "moved sample_loop = {1}"
  by (auto simp: sample_loop_def proper_calls_def proper_call_def moved_def kind_defs)

lemma sample_build:
  "build_code little_endian_lib sample_writer id (m_jumpLabels sample_labels) sample_fragment =
    Inr (\<lparr>m_code = [4, 48, 255, 252, 74]\<rparr>, [''top'' \<mapsto> 0])"
  by (simp add: build_code_def validate_fragment_def sample_fragment_def sample_labels_def makeLabel_def
      note_emitted_def wrote_def patch_at_def emit_jump_def builder_defs makePatch_def patch_def little_endian_lib_def
      be16_def Let_def)

theorem labels_and_targets_unique_witness:
  "distinct (fragment_labels sample_fragment) \<and> distinct (fragment_targets sample_fragment) \<and>
    0 \<in> getTargetsForLabel (getLabelForTarget 0 sample_labels) sample_labels"
proof -
  have "live_code {1} [sample_fragment, g] = sample_fragment" for g
    by (simp add: live_code_def)
  then show ?thesis using labels_and_targets_unique [OF sample_proper(1) sample_run]
    by (simp add: sample_proper(2) sample_labels_def getLabelForTarget_def getTargetsForLabel_def)
qed

theorem fragment_assembles_witness:
  "read_ops little_endian_lib 5 (make_iterator [4, 48, 255, 252, 74]) =
    Some (cells_at 0 [(OP_TRUE, NoOperands), (OP_IF_TRUE, JumpI16 (- 4)), (OP_RETURN, NoOperands)])"
proof -
  have size: "code_size sample_writer sample_fragment < 65536"
    by (simp add: sample_fragment_def bytes_of_def instr_bytes_def be16_def)
  have "read_ops little_endian_lib 5 (make_iterator (m_code \<lparr>m_code = [4, 48, 255, 252, 74]\<rparr>)) =
      Some (cells_at 0 (assembled sample_writer
        (displacement sample_writer (m_jumpLabels sample_labels) sample_fragment UNIV) 0 sample_fragment))"
    using fragment_assembles [OF endian_little sample_proper(1) sample_run, of 0, OF _ _ _ sample_build _ size, of 5]
    by (simp add: sample_proper(2)) (simp add: sample_fragment_def)
  moreover have "assembled sample_writer
      (displacement sample_writer (m_jumpLabels sample_labels) sample_fragment UNIV) 0 sample_fragment =
      [(OP_TRUE, NoOperands), (OP_IF_TRUE, JumpI16 (- 4)), (OP_RETURN, NoOperands)]"
    by (simp add: sample_fragment_def sample_labels_def displacement_def label_at_target_def kind_defs bytes_of_def
        instr_bytes_def be16_def)
  ultimately show ?thesis by simp
qed

end
