(* ===== verification/Native.thy ===== *)
theory Native
  imports Coroutine
begin

text \<open>
  What the native operations of the prelude types share (\<open>lyric_bootstrap/plugin\<close>). They are C++
  functions that work on objects behind the pointers of operands: each takes the frame of the
  current call apart, works on nodes that several objects may share, and pushes its result on the
  data stack of the current coroutine.

  An operation is a function of the store, its result is \<open>Inl\<close> with what ended it (a failed
  assertion, an exception, undefined behaviour: a dangling pointer, an index out of bounds, an
  overflow of a signed integer) or \<open>Inr\<close>. Where it loops or recurses over nodes the result is in
  addition \<open>None\<close> when it does not return.

  A pointer to an object that is not of the class it is cast to is undefined behaviour.
\<close>

record native_env =
  ne_lib :: endian_lib
  ne_objects :: objects
  ne_garbage :: "u8 list"
  ne_resolve_class :: "operand \<Rightarrow> failure + unit"

definition run_bind :: "('e + 'a) option \<Rightarrow> ('a \<Rightarrow> ('e + 'b) option) \<Rightarrow> ('e + 'b) option" where
  "run_bind r f = Option.bind r (\<lambda>x. case x of Inl e \<Rightarrow> Some (Inl e) | Inr y \<Rightarrow> f y)"

lemma run_bind_simps [simp]:
  "run_bind None f = None" "run_bind (Some (Inl e)) f = Some (Inl e)" "run_bind (Some (Inr y)) f = f y"
  by (simp_all add: run_bind_def)

lemma run_bind_mono [partial_function_mono]:
  assumes "mono_option B" "\<And>y. mono_option (\<lambda>f. C y f)"
  shows "mono_option (\<lambda>f. run_bind (B f) (\<lambda>y. C y f))"
  unfolding run_bind_def
  by (rule bind_mono [OF assms(1)], rename_tac x, case_tac x) (simp_all add: option.const_mono assms(2))

lemma run_bind_Inr: "run_bind r f = Some (Inr y) \<longleftrightarrow> (\<exists>x. r = Some (Inr x) \<and> f x = Some (Inr y))"
  by (cases r; simp; rename_tac x, case_tac x) simp_all

lemma run_bind_returns: "run_bind r f \<noteq> None \<longleftrightarrow> r \<noteq> None \<and> (\<forall>x. r = Some (Inr x) \<longrightarrow> f x \<noteq> None)"
  by (cases r; simp; rename_tac x, case_tac x) simp_all

text \<open>The arithmetic of the type \<open>int\<close>: an overflow is undefined. A conversion from a wider type is
  reduced.\<close>

definition checked_int :: "int \<Rightarrow> failure + int" where
  "checked_int i = (if - (2 ^ 31) \<le> i \<and> i < 2 ^ 31 then Inr i else Inl UndefinedBehaviour)"

definition checked_int64 :: "int \<Rightarrow> failure + int" where
  "checked_int64 i = (if - (2 ^ 63) \<le> i \<and> i < 2 ^ 63 then Inr i else Inl UndefinedBehaviour)"

definition narrow_int :: "int \<Rightarrow> int" where
  "narrow_int i = sint (word_of_int i :: u32)"

lemma checked_int_simp [simp]: "- (2 ^ 31) \<le> i \<Longrightarrow> i < 2 ^ 31 \<Longrightarrow> checked_int i = Inr i"
  by (simp add: checked_int_def)

lemma checked_int64_simp [simp]: "- (2 ^ 63) \<le> i \<Longrightarrow> i < 2 ^ 63 \<Longrightarrow> checked_int64 i = Inr i"
  by (simp add: checked_int64_def)

lemma narrow_int_simp [simp]: "- (2 ^ 31) \<le> i \<Longrightarrow> i < 2 ^ 31 \<Longrightarrow> narrow_int i = i"
  by (simp add: narrow_int_def sint_sbintrunc' signed_take_bit_int_eq_self)

lemma checked_int_Inr: "checked_int i = Inr j \<longleftrightarrow> j = i \<and> - (2 ^ 31) \<le> i \<and> i < 2 ^ 31"
  by (auto simp: checked_int_def)

text \<open>\<open>TU_ASSERT\<close>, and reading what a pointer points to.\<close>

definition tu_assert :: "bool \<Rightarrow> failure + unit" where
  "tu_assert b = (if b then Inr () else Inl AssertionFailed)"

definition deref :: "('p \<rightharpoonup> 'n) \<Rightarrow> 'p \<Rightarrow> failure + 'n" where
  "deref nodes p = or_else_fail UndefinedBehaviour (nodes p)"

lemma tu_assert_simps [simp]: "tu_assert True = Inr ()" "tu_assert False = Inl AssertionFailed"
  by (simp_all add: tu_assert_def)

lemma deref_Some [simp]: "nodes p = Some n \<Longrightarrow> deref nodes p = Inr n"
  by (simp add: deref_def)

lemma deref_Inr: "deref nodes p = Inr n \<longleftrightarrow> nodes p = Some n"
  by (cases "nodes p") (simp_all add: deref_def)

text \<open>The frame of the call and the reference that is its receiver.\<close>

definition receiver_ref :: "native_env \<Rightarrow> call_cell \<Rightarrow> failure + u64" where
  "receiver_ref E frame = or_else_fail AssertionFailed (getRef (ne_lib E) (m_receiver frame))"

definition current_receiver :: "native_env \<Rightarrow> stackful_coroutine \<Rightarrow> failure + call_cell \<times> u64" where
  "current_receiver E co =
    then_do (currentCallOrThrow co) (\<lambda>frame. then_do (receiver_ref E frame) (\<lambda>r. Inr (frame, r)))"

definition assert_arguments :: "int \<Rightarrow> call_cell \<Rightarrow> failure + unit" where
  "assert_arguments n frame = tu_assert (uint (m_numArguments frame) = n)"

text \<open>\<open>return currentCoro->pushData(v)\<close>, and \<open>currentCoro->pushData(v); return {}\<close>, which drops the status.\<close>

definition push_result :: "operand \<Rightarrow> stackful_coroutine \<times> 'h \<Rightarrow> failure + stackful_coroutine \<times> 'h" where
  "push_result v s =
    (case pushData v (fst s) of (Ok, co) \<Rightarrow> Inr (co, snd s) | (NotOk f, co) \<Rightarrow> Inl f)"

definition push_unchecked :: "operand \<Rightarrow> stackful_coroutine \<times> 'h \<Rightarrow> failure + stackful_coroutine \<times> 'h" where
  "push_unchecked v s = Inr (snd (pushData v (fst s)), snd s)"

definition ref_operand :: "native_env \<Rightarrow> u64 \<Rightarrow> operand" where
  "ref_operand E r = fromRef (ne_lib E) (ne_garbage E) r"

definition rest_arguments :: "call_cell \<Rightarrow> operand list" where
  "rest_arguments frame = map (\<lambda>i. getRestArgument (int i) frame) [0..<unat (m_numRest frame)]"

end
