(* ===== verification/Sequences.thy ===== *)
theory Sequences
  imports Native
begin

text \<open>
  The type \<open>Seq\<close> of the prelude (\<open>lyric_bootstrap/plugin/seq_ref.h\<close>, \<open>seq_ref.cpp\<close>): immutable
  sequences of operands as ropes, trees whose leaves are arrays and whose inner nodes concatenate
  two trees. Sequences share nodes, which count the references to them.

  The store maps addresses to nodes, references to the root of their tree and iterators to their
  position. The address of a new node is the next one that was never used; nothing reads it. The
  counter of references is unbounded, an overflow would need \<open>2 ^ 31\<close> of them.
\<close>

datatype seq_body =
    LeafSeqNode "operand list"
  | ConcatSeqNode nat nat int

record seq_node =
  sn_refcount :: int
  sn_count :: int
  sn_body :: seq_body

record seq_iterator =
  si_curr :: nat
  si_size :: nat
  si_seq :: "u64 option"

record seq_heap =
  seq_nodes :: "nat \<rightharpoonup> seq_node"
  seq_next :: nat
  seq_refs :: "u64 \<rightharpoonup> nat option"
  seq_iters :: "u64 \<rightharpoonup> seq_iterator"

type_synonym 'a seq_op = "seq_heap \<Rightarrow> failure + 'a \<times> seq_heap"

subsection \<open>Nodes\<close>

definition new_node :: "seq_node \<Rightarrow> seq_heap \<Rightarrow> nat \<times> seq_heap" where
  "new_node n h = (seq_next h, h\<lparr>seq_nodes := (seq_nodes h)(seq_next h \<mapsto> n), seq_next := seq_next h + 1\<rparr>)"

definition set_refcount :: "nat \<Rightarrow> int \<Rightarrow> seq_heap \<Rightarrow> seq_heap" where
  "set_refcount p c h = h\<lparr>seq_nodes := (seq_nodes h)(p := map_option (\<lambda>n. n\<lparr>sn_refcount := c\<rparr>) (seq_nodes h p))\<rparr>"

definition increment :: "nat \<Rightarrow> unit seq_op" where
  "increment p h = then_do (deref (seq_nodes h) p) (\<lambda>n. Inr ((), set_refcount p (sn_refcount n + 1) h))"

definition node_height :: "seq_node \<Rightarrow> int" where
  "node_height n = (case sn_body n of ConcatSeqNode l r height \<Rightarrow> height | LeafSeqNode vs \<Rightarrow> 1)"

text \<open>Dropping a reference: the node goes with the last one, after its children.\<close>

partial_function (option) seq_free_node :: "nat \<Rightarrow> seq_heap \<Rightarrow> (failure + seq_heap) option" where
  "seq_free_node p h =
    (case seq_nodes h p of
       None \<Rightarrow> Some (Inl UndefinedBehaviour)
     | Some n \<Rightarrow>
         (if sn_refcount n - 1 > 0 then Some (Inr (set_refcount p (sn_refcount n - 1) h))
          else case sn_body n of
            LeafSeqNode vs \<Rightarrow>
              Some (Inr ((set_refcount p (sn_refcount n - 1) h)\<lparr>seq_nodes := (seq_nodes h)(p := None)\<rparr>))
          | ConcatSeqNode l r height \<Rightarrow>
              run_bind (seq_free_node l (set_refcount p (sn_refcount n - 1) h))
                (\<lambda>h1. run_bind (seq_free_node r h1)
                  (\<lambda>h2. Some (Inr (h2\<lparr>seq_nodes := (seq_nodes h2)(p := None)\<rparr>))))))"

subsection \<open>Sequences\<close>

text \<open>A new \<open>SeqRef\<close> has no node; the address is the allocator's. The destructor drops the node.\<close>

definition allocate_seq :: "u64 \<Rightarrow> seq_heap \<Rightarrow> seq_heap" where
  "allocate_seq r h = h\<lparr>seq_refs := (seq_refs h)(r \<mapsto> None)\<rparr>"

definition seq_getNode :: "u64 \<Rightarrow> seq_heap \<Rightarrow> failure + nat option" where
  "seq_getNode r h = deref (seq_refs h) r"

definition seq_setNode :: "u64 \<Rightarrow> nat \<Rightarrow> unit seq_op" where
  "seq_setNode r p h =
    then_do (seq_getNode r h) (\<lambda>m_node. then_do (tu_assert (m_node = None))
      (\<lambda>_. increment p (h\<lparr>seq_refs := (seq_refs h)(r \<mapsto> Some p)\<rparr>)))"

definition destroy_seq :: "u64 \<Rightarrow> seq_heap \<Rightarrow> (failure + seq_heap) option" where
  "destroy_seq r h =
    run_bind (Some (seq_getNode r h)) (\<lambda>m_node.
      let h' = h\<lparr>seq_refs := (seq_refs h)(r := None)\<rparr>
      in case m_node of None \<Rightarrow> Some (Inr h') | Some p \<Rightarrow> seq_free_node p h')"

definition numElements :: "nat option \<Rightarrow> seq_heap \<Rightarrow> failure + int" where
  "numElements m_node h =
    (case m_node of None \<Rightarrow> Inr 0 | Some p \<Rightarrow> then_do (deref (seq_nodes h) p) (\<lambda>n. Inr (sn_count n)))"

definition seqSize :: "native_env \<Rightarrow> nat option \<Rightarrow> seq_heap \<Rightarrow> failure + operand" where
  "seqSize E m_node h =
    then_do (numElements m_node h) (\<lambda>c. Inr (fromI64 (ne_lib E) (ne_garbage E) (word_of_int c)))"

partial_function (option) seq_find :: "seq_heap \<Rightarrow> nat \<Rightarrow> int \<Rightarrow> (failure + operand) option" where
  "seq_find h p i =
    (case seq_nodes h p of
       None \<Rightarrow> Some (Inl UndefinedBehaviour)
     | Some n \<Rightarrow>
         (case sn_body n of
            LeafSeqNode vs \<Rightarrow>
              Some (if 0 \<le> i \<and> i < sn_count n
                    then or_else_fail UndefinedBehaviour (if nat i < length vs then Some (vs ! nat i) else None)
                    else Inl AssertionFailed)
          | ConcatSeqNode l r height \<Rightarrow>
              (case seq_nodes h l of
                 None \<Rightarrow> Some (Inl UndefinedBehaviour)
               | Some left \<Rightarrow> if i < sn_count left then seq_find h l i else seq_find h r (i - sn_count left))))"

definition seqGet :: "native_env \<Rightarrow> seq_heap \<Rightarrow> nat option \<Rightarrow> operand \<Rightarrow> (failure + operand) option" where
  "seqGet E h m_node index =
    run_bind (Some (or_else_fail AssertionFailed (getI64 (ne_lib E) (ne_objects E) index))) (\<lambda>w.
      case m_node of
        None \<Rightarrow> Some (Inr empty_operand)
      | Some p \<Rightarrow> run_bind (Some (deref (seq_nodes h) p)) (\<lambda>n.
          let i = (if sint w < 0 then sn_count n + sint w else sint w)
          in if i < 0 \<or> sn_count n \<le> i then Some (Inr empty_operand) else seq_find h p i))"

text \<open>A part of a leaf is copied into a new leaf. The loop reads \<open>values[start + 1]\<close> for every
  element. The sum of the children's lengths, which \<open>count\<close> is set to, is \<open>length\<close>.\<close>

definition copy_leaf :: "operand list \<Rightarrow> int \<Rightarrow> int \<Rightarrow> failure + operand list" where
  "copy_leaf vs start len =
    (if len < 0 then Inl ThrownLengthError
     else if 0 < len \<and> \<not> (0 \<le> start + 1 \<and> start + 1 < int (length vs)) then Inl UndefinedBehaviour
     else Inr (map (\<lambda>i. vs ! nat (start + 1)) [0..len - 1]))"

definition concat_nodes :: "int \<Rightarrow> nat \<Rightarrow> nat \<Rightarrow> int \<Rightarrow> nat seq_op" where
  "concat_nodes c left right len h =
    then_do (deref (seq_nodes h) left) (\<lambda>ln. then_do (deref (seq_nodes h) right) (\<lambda>rn.
      Inr (new_node \<lparr>sn_refcount = c, sn_count = len,
             sn_body = ConcatSeqNode left right (max (node_height ln) (node_height rn) + 1)\<rparr> h)))"

partial_function (option) slice_node ::
  "nat \<Rightarrow> int \<Rightarrow> int \<Rightarrow> seq_heap \<Rightarrow> (failure + nat \<times> seq_heap) option" where
  "slice_node p start len h =
    (case seq_nodes h p of
       None \<Rightarrow> Some (Inl UndefinedBehaviour)
     | Some n \<Rightarrow>
         (case sn_body n of
            LeafSeqNode vs \<Rightarrow>
              if start = 0 \<and> sn_count n = len then Some (Inr (p, set_refcount p (sn_refcount n + 1) h))
              else Some (then_do (copy_leaf vs start len)
                (\<lambda>ws. Inr (new_node \<lparr>sn_refcount = 0, sn_count = len, sn_body = LeafSeqNode ws\<rparr> h)))
          | ConcatSeqNode l r height \<Rightarrow>
              (case seq_nodes h l of
                 None \<Rightarrow> Some (Inl UndefinedBehaviour)
               | Some left \<Rightarrow>
                   run_bind (Some (checked_int (start + len))) (\<lambda>stop.
                     if stop \<le> sn_count left then slice_node l start len h
                     else if sn_count left \<le> start then slice_node r (start - sn_count left) len h
                     else run_bind (Some (checked_int (sn_count left - start))) (\<lambda>c.
                       run_bind (slice_node l start c h) (\<lambda>lh.
                         run_bind (Some (increment (fst lh) (snd lh))) (\<lambda>h1.
                           run_bind (slice_node r 0 (len - c) (snd h1)) (\<lambda>rh.
                             run_bind (Some (increment (fst rh) (snd rh))) (\<lambda>h2.
                               Some (concat_nodes 0 (fst lh) (fst rh) len (snd h2)))))))))))"

definition seqSlice ::
  "native_env \<Rightarrow> nat option \<Rightarrow> operand \<Rightarrow> operand \<Rightarrow> seq_heap \<Rightarrow> (failure + nat option \<times> seq_heap) option" where
  "seqSlice E m_node start len h =
    (case m_node of
       None \<Rightarrow> Some (Inr (None, h))
     | Some p \<Rightarrow>
         run_bind (Some (or_else_fail AssertionFailed (getI64 (ne_lib E) (ne_objects E) start))) (\<lambda>sw.
         run_bind (Some (or_else_fail AssertionFailed (getI64 (ne_lib E) (ne_objects E) len))) (\<lambda>lw.
         run_bind (Some (deref (seq_nodes h) p)) (\<lambda>n.
           let count = sn_count n; s = sint sw; l = sint lw;
               sliced = (\<lambda>s l. run_bind (slice_node p (narrow_int s) (narrow_int l) h)
                 (\<lambda>qh. Some (Inr (Some (fst qh), snd qh))))
           in if s < 0 then
                (if count \<le> l then Some (Inr (Some p, h))
                 else run_bind (Some (checked_int64 (count - l))) (\<lambda>s'. sliced s' l))
              else if count \<le> s then Some (Inr (None, h))
              else run_bind (Some (checked_int64 (s + l))) (\<lambda>stop.
                if count \<le> stop then sliced s (count - s) else sliced s l)))))"

text \<open>What the constructor, \<open>seq_append\<close> and \<open>seq_extend\<close> build.\<close>

definition new_leaf :: "int \<Rightarrow> operand list \<Rightarrow> seq_heap \<Rightarrow> nat \<times> seq_heap" where
  "new_leaf c vs = new_node \<lparr>sn_refcount = c, sn_count = int (length vs), sn_body = LeafSeqNode vs\<rparr>"

definition construct_seq :: "u64 \<Rightarrow> operand list \<Rightarrow> unit seq_op" where
  "construct_seq r rest h =
    (if rest \<noteq> [] then let (p, h1) = new_leaf 0 rest h in seq_setNode r p h1 else Inr ((), h))"

definition append_node :: "nat option \<Rightarrow> operand list \<Rightarrow> nat seq_op" where
  "append_node m_node vs h =
    then_do (or_else_fail AssertionFailed m_node) (\<lambda>left.
    then_do (increment left h) (\<lambda>(_, h1).
    then_do (deref (seq_nodes h1) left) (\<lambda>ln.
      let (right, h2) = new_leaf 1 vs h1
      in then_do (checked_int (sn_count ln + int (length vs))) (\<lambda>count.
        Inr (new_node \<lparr>sn_refcount = 0, sn_count = count,
               sn_body = ConcatSeqNode left right (node_height ln + 1)\<rparr> h2)))))"

definition extend_node :: "nat option \<Rightarrow> u64 \<Rightarrow> nat seq_op" where
  "extend_node m_node other h =
    then_do (or_else_fail AssertionFailed m_node) (\<lambda>left.
    then_do (increment left h) (\<lambda>(_, h1).
    then_do (seq_getNode other h1) (\<lambda>other_node.
    then_do (or_else_fail AssertionFailed other_node) (\<lambda>right.
    then_do (increment right h1) (\<lambda>(_, h2).
    then_do (deref (seq_nodes h2) left) (\<lambda>ln.
    then_do (deref (seq_nodes h2) right) (\<lambda>rn.
    then_do (checked_int (sn_count ln + sn_count rn)) (\<lambda>count. concat_nodes 1 left right count h2))))))))"

text \<open>The new sequence that holds a node.\<close>

definition seq_copy :: "u64 \<Rightarrow> nat \<Rightarrow> unit seq_op" where
  "seq_copy r p h = seq_setNode r p (allocate_seq r h)"

subsection \<open>Iterators\<close>

definition empty_seq_iterator :: seq_iterator where
  "empty_seq_iterator = \<lparr>si_curr = 0, si_size = 0, si_seq = None\<rparr>"

definition make_seq_iterator :: "u64 \<Rightarrow> seq_heap \<Rightarrow> failure + seq_iterator" where
  "make_seq_iterator r h =
    then_do (seq_getNode r h) (\<lambda>m_node. then_do (numElements m_node h)
      (\<lambda>c. Inr \<lparr>si_curr = 0, si_size = nat c, si_seq = Some r\<rparr>))"

definition seq_iteratorValid :: "seq_iterator \<Rightarrow> bool" where
  "seq_iteratorValid it \<longleftrightarrow> si_curr it < si_size it"

definition seq_iteratorNext ::
  "native_env \<Rightarrow> seq_heap \<Rightarrow> seq_iterator \<Rightarrow> (failure + (bool \<times> operand) \<times> seq_iterator) option" where
  "seq_iteratorNext E h it =
    (if si_curr it < si_size it then
       run_bind (Some (then_do (or_else_fail UndefinedBehaviour (si_seq it)) (\<lambda>r. seq_getNode r h))) (\<lambda>m_node.
       run_bind (seqGet E h m_node (fromI64 (ne_lib E) (ne_garbage E) (word_of_nat (si_curr it))))
         (\<lambda>v. Some (Inr ((True, v), it\<lparr>si_curr := si_curr it + 1\<rparr>))))
     else Some (Inr ((False, empty_operand), it)))"


subsection \<open>The operations that bytecode calls\<close>

text \<open>\<open>fresh\<close> is the address of the reference that the operation allocates. The virtual tables of the
  references are left out.\<close>

type_synonym seq_trap = "stackful_coroutine \<times> seq_heap \<Rightarrow> (failure + stackful_coroutine \<times> seq_heap) option"

definition seq_receiver ::
  "native_env \<Rightarrow> stackful_coroutine \<times> seq_heap \<Rightarrow> failure + call_cell \<times> u64 \<times> nat option" where
  "seq_receiver E s =
    then_do (current_receiver E (fst s)) (\<lambda>(frame, r).
      then_do (seq_getNode r (snd s)) (\<lambda>m_node. Inr (frame, r, m_node)))"

definition push_copy :: "native_env \<Rightarrow> u64 \<Rightarrow> nat \<Rightarrow> stackful_coroutine \<times> seq_heap \<Rightarrow>
    failure + stackful_coroutine \<times> seq_heap" where
  "push_copy E fresh p s =
    then_do (seq_copy fresh p (snd s)) (\<lambda>(_, h). push_result (ref_operand E fresh) (fst s, h))"

definition seq_alloc :: "native_env \<Rightarrow> u64 \<Rightarrow> seq_trap" where
  "seq_alloc E fresh s = Some (push_result (ref_operand E fresh) (fst s, allocate_seq fresh (snd s)))"

definition seq_ctor :: "native_env \<Rightarrow> seq_trap" where
  "seq_ctor E s = Some (then_do (seq_receiver E s) (\<lambda>(frame, r, m_node).
    then_do (construct_seq r (rest_arguments frame) (snd s)) (\<lambda>(_, h). Inr (fst s, h))))"

definition seq_size :: "native_env \<Rightarrow> seq_trap" where
  "seq_size E s = Some (then_do (seq_receiver E s) (\<lambda>(frame, r, m_node).
    then_do (assert_arguments 0 frame) (\<lambda>_.
    then_do (seqSize E m_node (snd s)) (\<lambda>v. push_result v s))))"

definition seq_get :: "native_env \<Rightarrow> seq_trap" where
  "seq_get E s = run_bind (Some (seq_receiver E s)) (\<lambda>(frame, r, m_node).
    run_bind (Some (assert_arguments 2 frame)) (\<lambda>_.
    run_bind (seqGet E (snd s) m_node (getArgument 0 frame)) (\<lambda>v.
      Some (push_unchecked (if isValid_operand v then v else getArgument 1 frame) s))))"

definition seq_append :: "native_env \<Rightarrow> u64 \<Rightarrow> seq_trap" where
  "seq_append E fresh s = Some (then_do (seq_receiver E s) (\<lambda>(frame, r, m_node).
    then_do (assert_arguments 1 frame) (\<lambda>_.
    then_do (tu_assert (isValid_operand (getArgument 0 frame))) (\<lambda>_.
    then_do (append_node m_node (getArgument 0 frame # rest_arguments frame) (snd s)) (\<lambda>(p, h).
      push_copy E fresh p (fst s, h))))))"

definition seq_extend :: "native_env \<Rightarrow> u64 \<Rightarrow> seq_trap" where
  "seq_extend E fresh s = Some (then_do (seq_receiver E s) (\<lambda>(frame, r, m_node).
    then_do (assert_arguments 1 frame) (\<lambda>_.
    then_do (or_else_fail AssertionFailed (getRef (ne_lib E) (getArgument 0 frame))) (\<lambda>other.
    then_do (extend_node m_node other (snd s)) (\<lambda>(p, h). push_copy E fresh p (fst s, h))))))"

definition seq_slice :: "native_env \<Rightarrow> u64 \<Rightarrow> seq_trap" where
  "seq_slice E fresh s = run_bind (Some (seq_receiver E s)) (\<lambda>(frame, r, m_node).
    run_bind (Some (assert_arguments 2 frame)) (\<lambda>_.
    run_bind (seqSlice E m_node (getArgument 0 frame) (getArgument 1 frame) (snd s)) (\<lambda>(node, h).
      Some (case node of
        None \<Rightarrow> push_result (m_receiver frame) (fst s, h)
      | Some p \<Rightarrow> then_do (increment p h) (\<lambda>(_, h1). push_copy E fresh p (fst s, h1))))))"

definition seq_iterate :: "native_env \<Rightarrow> u64 \<Rightarrow> seq_trap" where
  "seq_iterate E fresh s = Some (then_do (current_receiver E (fst s)) (\<lambda>(frame, r).
    case popData (ne_garbage E) (fst s) of
      (Inl e, co) \<Rightarrow> Inl e
    | (Inr cell, co) \<Rightarrow> then_do (ne_resolve_class E cell) (\<lambda>_.
        then_do (make_seq_iterator r (snd s)) (\<lambda>it.
          push_result (ref_operand E fresh)
            (co, (snd s)\<lparr>seq_iters := (seq_iters (snd s))(fresh \<mapsto> it)\<rparr>)))))"

definition seq_iterator_alloc :: "native_env \<Rightarrow> u64 \<Rightarrow> seq_trap" where
  "seq_iterator_alloc E fresh s = Some (push_result (ref_operand E fresh)
    (fst s, (snd s)\<lparr>seq_iters := (seq_iters (snd s))(fresh \<mapsto> empty_seq_iterator)\<rparr>))"

definition seq_iterator_valid :: "native_env \<Rightarrow> seq_trap" where
  "seq_iterator_valid E s = Some (then_do (current_receiver E (fst s)) (\<lambda>(frame, r).
    then_do (assert_arguments 0 frame) (\<lambda>_.
    then_do (deref (seq_iters (snd s)) r) (\<lambda>it.
      push_result (fromBool (ne_garbage E) (seq_iteratorValid it)) s))))"

definition seq_iterator_next :: "native_env \<Rightarrow> seq_trap" where
  "seq_iterator_next E s = run_bind (Some (current_receiver E (fst s))) (\<lambda>(frame, r).
    run_bind (Some (assert_arguments 0 frame)) (\<lambda>_.
    run_bind (Some (deref (seq_iters (snd s)) r)) (\<lambda>it.
    run_bind (seq_iteratorNext E (snd s) it) (\<lambda>((found, v), it').
      Some (push_result (if found then v else empty_operand)
        (fst s, (snd s)\<lparr>seq_iters := (seq_iters (snd s))(r \<mapsto> it')\<rparr>))))))"

end
