(* ===== verification/SequencesLaws.thy ===== *)
theory SequencesLaws
  imports Sequences "HOL-Library.Multiset"
begin

text \<open>
  Sequences behave as lists. \<open>rope\<close> relates a node to the arrays in its leaves; \<open>seq_ok\<close> is the
  invariant of the store: the counter of a node covers the references to it, from sequences, from
  other nodes and from operations that are under way.
\<close>

subsection \<open>Ropes\<close>

inductive rope :: "(nat \<rightharpoonup> seq_node) \<Rightarrow> nat \<Rightarrow> operand list list \<Rightarrow> bool" for nodes where
  rope_leaf: "nodes p = Some n \<Longrightarrow> sn_body n = LeafSeqNode vs \<Longrightarrow> sn_count n = int (length vs) \<Longrightarrow> rope nodes p [vs]"
| rope_concat: "nodes p = Some n \<Longrightarrow> sn_body n = ConcatSeqNode l r height \<Longrightarrow> rope nodes l xs \<Longrightarrow> rope nodes r ys \<Longrightarrow>
    sn_count n = int (length (concat xs)) + int (length (concat ys)) \<Longrightarrow> rope nodes p (xs @ ys)"

lemma rope_count: "rope nodes p xs \<Longrightarrow> \<exists>n. nodes p = Some n \<and> sn_count n = int (length (concat xs))"
  by (induction rule: rope.induct) simp_all

inductive_cases ropeE: "rope nodes p xs"

lemma rope_unique: "rope nodes p xs \<Longrightarrow> rope nodes p ys \<Longrightarrow> xs = ys"
proof (induction arbitrary: ys rule: rope.induct)
  case (rope_leaf p n vs)
  from rope_leaf.prems show ?case by (rule ropeE) (use rope_leaf.hyps in simp_all)
next
  case (rope_concat p n l r height xs zs)
  from rope_concat.prems show ?case
  proof (rule ropeE)
    fix n' l' r' height' xs' ys'
    assume c: "ys = xs' @ ys'" "nodes p = Some n'" "sn_body n' = ConcatSeqNode l' r' height'"
      "rope nodes l' xs'" "rope nodes r' ys'"
    then have "xs = xs'" "zs = ys'" using rope_concat.hyps(1,2) by (auto intro: rope_concat.IH)
    then show ?thesis using c(1) by simp
  qed (use rope_concat.hyps in simp)
qed

text \<open>The contents depend on the lengths and the bodies of the nodes only.\<close>

definition same_node :: "seq_node \<Rightarrow> seq_node \<Rightarrow> bool" where
  "same_node n n' \<longleftrightarrow> sn_count n' = sn_count n \<and> sn_body n' = sn_body n"

lemma same_node_refl [simp]: "same_node n n"
  by (simp add: same_node_def)

lemma same_node_trans: "same_node a b \<Longrightarrow> same_node b c \<Longrightarrow> same_node a c"
  by (simp add: same_node_def)

lemma same_node_refcount [simp]: "same_node n (n\<lparr>sn_refcount := c\<rparr>)"
  by (simp add: same_node_def)

lemma same_node_refcount' [simp]: "same_node (n\<lparr>sn_refcount := c\<rparr>) n"
  by (simp add: same_node_def)

lemma same_height: "same_node n n' \<Longrightarrow> node_height n' = node_height n"
  by (simp add: same_node_def node_height_def)

definition keeps_nodes :: "(nat \<rightharpoonup> seq_node) \<Rightarrow> (nat \<rightharpoonup> seq_node) \<Rightarrow> bool" where
  "keeps_nodes nodes nodes' \<longleftrightarrow> (\<forall>p n. nodes p = Some n \<longrightarrow> (\<exists>n'. nodes' p = Some n' \<and> same_node n n'))"

lemma keeps_refl [simp]: "keeps_nodes nodes nodes"
  by (simp add: keeps_nodes_def)

lemma keeps_trans: "keeps_nodes a b \<Longrightarrow> keeps_nodes b c \<Longrightarrow> keeps_nodes a c"
  unfolding keeps_nodes_def by (meson same_node_trans)

lemma keepsD: "keeps_nodes nodes nodes' \<Longrightarrow> nodes p = Some n \<Longrightarrow> \<exists>n'. nodes' p = Some n' \<and> same_node n n'"
  by (simp add: keeps_nodes_def)

lemma rope_keeps: "rope nodes p xs \<Longrightarrow> keeps_nodes nodes nodes' \<Longrightarrow> rope nodes' p xs"
proof (induction rule: rope.induct)
  case (rope_leaf p n vs)
  then show ?case by (auto dest!: keepsD simp: same_node_def intro: rope.rope_leaf)
next
  case (rope_concat p n l r height xs ys)
  then obtain n' where "nodes' p = Some n'" "same_node n n'" by (blast dest: keepsD)
  with rope_concat show ?case by (auto simp: same_node_def intro!: rope.rope_concat)
qed

subsection \<open>The invariant\<close>

definition children :: "seq_node \<Rightarrow> nat multiset" where
  "children n = (case sn_body n of LeafSeqNode vs \<Rightarrow> {#} | ConcatSeqNode l r height \<Rightarrow> {#l, r#})"

definition owned :: "nat set \<Rightarrow> (nat \<rightharpoonup> seq_node) \<Rightarrow> nat multiset" where
  "owned Z nodes = (\<Sum>q \<in> dom nodes - Z. children (the (nodes q)))"

definition rooted :: "(u64 \<rightharpoonup> nat option) \<Rightarrow> nat multiset" where
  "rooted refs = (\<Sum>r \<in> dom refs. case the (refs r) of None \<Rightarrow> {#} | Some p \<Rightarrow> {#p#})"

definition credit :: "nat set \<Rightarrow> (nat \<rightharpoonup> seq_node) \<Rightarrow> nat \<Rightarrow> nat" where
  "credit Z nodes p = (case nodes p of None \<Rightarrow> 0 | Some n \<Rightarrow> if p \<in> Z then 0 else nat (sn_refcount n))"

definition node_ok :: "(nat \<rightharpoonup> seq_node) \<Rightarrow> seq_node \<Rightarrow> bool" where
  "node_ok nodes n \<longleftrightarrow> 0 \<le> sn_count n \<and> sn_count n < 2 ^ 31 \<and>
    (case sn_body n of
       LeafSeqNode vs \<Rightarrow> sn_count n = int (length vs)
     | ConcatSeqNode l r height \<Rightarrow>
         \<exists>ln rn. nodes l = Some ln \<and> nodes r = Some rn \<and> sn_count n = sn_count ln + sn_count rn \<and>
           node_height ln < height \<and> node_height rn < height \<and> 1 \<le> height)"

text \<open>\<open>Z\<close> are the nodes that are being freed, \<open>M\<close> the references that operations under way hold.\<close>

definition seq_ok :: "nat set \<Rightarrow> nat multiset \<Rightarrow> seq_heap \<Rightarrow> bool" where
  "seq_ok Z M h \<longleftrightarrow> finite (dom (seq_nodes h)) \<and> finite (dom (seq_refs h)) \<and>
    (\<forall>q \<in> dom (seq_nodes h). q < seq_next h) \<and>
    (\<forall>q n. seq_nodes h q = Some n \<longrightarrow> q \<notin> Z \<longrightarrow> node_ok (seq_nodes h) n \<and> 0 \<le> sn_refcount n) \<and>
    (\<forall>p. count (owned Z (seq_nodes h) + rooted (seq_refs h) + M) p \<le> credit Z (seq_nodes h) p)"

lemma node_ok_keeps:
  assumes "node_ok nodes n" "keeps_nodes nodes nodes'" "same_node n n'"
  shows "node_ok nodes' n'"
proof (cases "sn_body n")
  case (LeafSeqNode vs)
  then show ?thesis using assms by (simp add: node_ok_def same_node_def)
next
  case (ConcatSeqNode l r height)
  then obtain ln rn where "nodes l = Some ln" "nodes r = Some rn" "sn_count n = sn_count ln + sn_count rn"
      "node_height ln < height" "node_height rn < height" "1 \<le> height" using assms(1) by (auto simp: node_ok_def)
  moreover from this obtain ln' rn' where "nodes' l = Some ln'" "same_node ln ln'" "nodes' r = Some rn'" "same_node rn rn'"
    using keepsD [OF assms(2)] by meson
  ultimately show ?thesis using assms(1,3) ConcatSeqNode
    by (simp add: node_ok_def same_node_def node_height_def)
qed

lemma seq_ok_weaken: "seq_ok Z M h \<Longrightarrow> N \<subseteq># M \<Longrightarrow> seq_ok Z N h"
  by (auto simp: seq_ok_def intro: le_trans [OF add_left_mono [OF mset_subset_eq_count]])

lemma held_live:
  assumes "seq_ok Z M h" "p \<in># owned Z (seq_nodes h) + rooted (seq_refs h) + M"
  shows "\<exists>n. seq_nodes h p = Some n \<and> p \<notin> Z \<and> 1 \<le> sn_refcount n \<and> node_ok (seq_nodes h) n"
proof -
  have "0 < count (owned Z (seq_nodes h) + rooted (seq_refs h) + M) p" using assms(2) by simp
  then have "0 < credit Z (seq_nodes h) p" using assms(1) unfolding seq_ok_def by (metis less_le_trans)
  then show ?thesis using assms(1) by (auto simp: credit_def seq_ok_def split: option.splits if_splits)
qed


text \<open>How the held references change.\<close>

lemma children_refcount [simp]: "children (n\<lparr>sn_refcount := c\<rparr>) = children n"
  by (simp add: children_def)

definition with_refcount :: "nat \<Rightarrow> int \<Rightarrow> (nat \<rightharpoonup> seq_node) \<Rightarrow> (nat \<rightharpoonup> seq_node)" where
  "with_refcount p c nodes = nodes(p := map_option (\<lambda>n. n\<lparr>sn_refcount := c\<rparr>) (nodes p))"

lemma set_refcount_heap [simp]:
  "seq_nodes (set_refcount p c h) = with_refcount p c (seq_nodes h)"
  "seq_next (set_refcount p c h) = seq_next h" "seq_refs (set_refcount p c h) = seq_refs h"
  "seq_iters (set_refcount p c h) = seq_iters h"
  by (simp_all add: set_refcount_def with_refcount_def)

lemma dom_with_refcount [simp]: "dom (with_refcount p c nodes) = dom nodes"
  by (auto simp: with_refcount_def dom_def)

lemma with_refcount_apply:
  "with_refcount p c nodes q = (if q = p then map_option (\<lambda>n. n\<lparr>sn_refcount := c\<rparr>) (nodes p) else nodes q)"
  by (simp add: with_refcount_def)

lemma keeps_with_refcount [simp]: "keeps_nodes nodes (with_refcount p c nodes)"
  by (simp add: keeps_nodes_def with_refcount_apply)

lemma keeps_set_refcount: "keeps_nodes (seq_nodes h) (seq_nodes (set_refcount p c h))"
  by simp

lemma with_refcount_keeps: "with_refcount p c nodes q = Some n' \<Longrightarrow> \<exists>n. nodes q = Some n \<and> same_node n n'"
  by (auto simp: with_refcount_apply split: if_splits)

lemma owned_with_refcount [simp]: "owned Z (with_refcount p c nodes) = owned Z nodes"
  unfolding owned_def by (rule sum.cong) (auto simp: with_refcount_apply)

lemma owned_new:
  "finite (dom nodes) \<Longrightarrow> nodes q = None \<Longrightarrow> q \<notin> Z \<Longrightarrow> owned Z (nodes(q \<mapsto> n)) = children n + owned Z nodes"
  unfolding owned_def by (subst sum.remove [of _ q]) (auto intro!: sum.cong arg_cong2 [of _ _ _ _ "(+)"])

lemma owned_zombie:
  "finite (dom nodes) \<Longrightarrow> nodes p = Some n \<Longrightarrow> p \<notin> Z \<Longrightarrow> owned Z nodes = children n + owned (insert p Z) nodes"
  unfolding owned_def by (subst sum.remove [of _ p]) (auto intro!: sum.cong arg_cong2 [of _ _ _ _ "(+)"])

lemma owned_delete: "owned Z (nodes(p := None)) = owned (insert p Z) nodes"
  unfolding owned_def by (rule sum.cong) auto

lemma rooted_split:
  assumes "finite (dom refs)"
  shows "rooted refs =
    (case refs r of Some (Some p) \<Rightarrow> {#p#} | _ \<Rightarrow> {#}) + rooted (refs(r := None))"
proof (cases "refs r")
  case None
  then show ?thesis by (simp add: rooted_def fun_upd_idem)
next
  case (Some m)
  then have "rooted refs = (case m of None \<Rightarrow> {#} | Some p \<Rightarrow> {#p#}) + rooted (refs(r := None))"
    unfolding rooted_def using assms
    by (subst sum.remove [of _ r]) (auto intro!: sum.cong arg_cong2 [of _ _ _ _ "(+)"])
  then show ?thesis using Some by (simp split: option.splits)
qed

lemma rooted_set:
  "finite (dom refs) \<Longrightarrow> rooted (refs(r \<mapsto> m)) = (case m of None \<Rightarrow> {#} | Some p \<Rightarrow> {#p#}) + rooted (refs(r := None))"
  using rooted_split [of "refs(r \<mapsto> m)" r] by (simp split: option.splits)

lemma credit_with_refcount:
  "credit Z (with_refcount p c nodes) q = (if q = p \<and> p \<in> dom nodes \<and> p \<notin> Z then nat c else credit Z nodes q)"
  by (auto simp: credit_def with_refcount_apply split: option.splits)


lemma seq_okD:
  assumes "seq_ok Z M h"
  shows "finite (dom (seq_nodes h))" "finite (dom (seq_refs h))"
    "q \<in> dom (seq_nodes h) \<Longrightarrow> q < seq_next h"
    "seq_nodes h q = Some n \<Longrightarrow> q \<notin> Z \<Longrightarrow> node_ok (seq_nodes h) n \<and> 0 \<le> sn_refcount n"
    "count (owned Z (seq_nodes h) + rooted (seq_refs h) + M) p \<le> credit Z (seq_nodes h) p"
  using assms by (auto simp: seq_ok_def)

lemma seq_okI:
  assumes "finite (dom (seq_nodes h))" "finite (dom (seq_refs h))" "\<And>q. q \<in> dom (seq_nodes h) \<Longrightarrow> q < seq_next h"
    and "\<And>q n. seq_nodes h q = Some n \<Longrightarrow> q \<notin> Z \<Longrightarrow> node_ok (seq_nodes h) n"
    and "\<And>q n. seq_nodes h q = Some n \<Longrightarrow> q \<notin> Z \<Longrightarrow> 0 \<le> sn_refcount n"
    and "\<And>p. count (owned Z (seq_nodes h) + rooted (seq_refs h) + M) p \<le> credit Z (seq_nodes h) p"
  shows "seq_ok Z M h"
  using assms by (auto simp: seq_ok_def)

text \<open>Changing one counter.\<close>

lemma set_refcount_ok:
  assumes "seq_ok Z M h" "seq_nodes h p = Some n" "p \<notin> Z" "0 \<le> c"
    and "\<And>q. count (owned Z (seq_nodes h) + rooted (seq_refs h) + N) q \<le>
      (if q = p then nat c else credit Z (seq_nodes h) q)"
  shows "seq_ok Z N (set_refcount p c h)"
proof (rule seq_okI)
  fix q m assume q: "seq_nodes (set_refcount p c h) q = Some m" "q \<notin> Z"
  then obtain n' where "seq_nodes h q = Some n'" "same_node n' m" by (auto dest: with_refcount_keeps)
  then show "node_ok (seq_nodes (set_refcount p c h)) m"
    using node_ok_keeps [OF _ keeps_with_refcount] seq_okD(4) [OF assms(1) _ q(2)] by fastforce
  show "0 \<le> sn_refcount m" using q assms(4) seq_okD(4) [OF assms(1) _ q(2)]
    by (auto simp: with_refcount_apply split: if_splits)
next
  show "count (owned Z (seq_nodes (set_refcount p c h)) + rooted (seq_refs (set_refcount p c h)) + N) q \<le>
      credit Z (seq_nodes (set_refcount p c h)) q" for q
    using assms(5) [of q] assms(2,3) by (simp add: credit_with_refcount domI)
qed (use seq_okD [OF assms(1)] in simp_all)

lemma increment_ok:
  assumes "seq_ok Z M h" "seq_nodes h p = Some n" "p \<notin> Z"
  shows "increment p h = Inr ((), set_refcount p (sn_refcount n + 1) h)"
    "seq_ok Z (add_mset p M) (set_refcount p (sn_refcount n + 1) h)"
proof -
  show "increment p h = Inr ((), set_refcount p (sn_refcount n + 1) h)" using assms(2) by (simp add: increment_def)
  have "0 \<le> sn_refcount n" using seq_okD(4) [OF assms] by simp
  moreover have "count (owned Z (seq_nodes h) + rooted (seq_refs h) + add_mset p M) q \<le>
      (if q = p then nat (sn_refcount n + 1) else credit Z (seq_nodes h) q)" for q
    using seq_okD(5) [OF assms(1), of q] assms(2,3) calculation by (cases "q = p") (auto simp: credit_def nat_add_distrib)
  ultimately show "seq_ok Z (add_mset p M) (set_refcount p (sn_refcount n + 1) h)"
    by (intro set_refcount_ok [OF assms]) auto
qed

lemma new_node_ok:
  assumes ok: "seq_ok {} M h" and n: "node_ok (seq_nodes h) n" and M: "M = children n + N" and c: "sn_refcount n = int c"
  shows "seq_ok {} (N + replicate_mset c (seq_next h)) (snd (new_node n h))"
    "keeps_nodes (seq_nodes h) (seq_nodes (snd (new_node n h)))"
    "fst (new_node n h) = seq_next h" "seq_nodes (snd (new_node n h)) (seq_next h) = Some n"
    "seq_refs (snd (new_node n h)) = seq_refs h"
proof -
  have fresh: "seq_nodes h (seq_next h) = None"
    using seq_okD(3) [OF ok] by (metis domIff less_irrefl)
  have heap: "seq_nodes (snd (new_node n h)) = (seq_nodes h)(seq_next h \<mapsto> n)" "seq_next (snd (new_node n h)) = seq_next h + 1"
    by (simp_all add: new_node_def)
  show refs: "seq_refs (snd (new_node n h)) = seq_refs h" "fst (new_node n h) = seq_next h"
    "seq_nodes (snd (new_node n h)) (seq_next h) = Some n" by (simp_all add: new_node_def)
  show keep: "keeps_nodes (seq_nodes h) (seq_nodes (snd (new_node n h)))"
    using fresh by (auto simp: heap keeps_nodes_def)
  show "seq_ok {} (N + replicate_mset c (seq_next h)) (snd (new_node n h))"
  proof (rule seq_okI)
    fix q m assume q: "seq_nodes (snd (new_node n h)) q = Some m"
    show "node_ok (seq_nodes (snd (new_node n h))) m"
      using q n seq_okD(4) [OF ok, of q m] node_ok_keeps [OF _ keep, of m m] by (auto simp: heap split: if_splits)
    show "0 \<le> sn_refcount m" using q c seq_okD(4) [OF ok, of q m] by (auto simp: heap split: if_splits)
  next
    fix p
    have "credit {} (seq_nodes h) (seq_next h) = 0" using fresh by (simp add: credit_def)
    then have "count (owned {} (seq_nodes h) + rooted (seq_refs h) + M) (seq_next h) = 0"
      using seq_okD(5) [OF ok, of "seq_next h"] by simp
    then show "count (owned {} (seq_nodes (snd (new_node n h))) + rooted (seq_refs (snd (new_node n h))) +
        (N + replicate_mset c (seq_next h))) p \<le> credit {} (seq_nodes (snd (new_node n h))) p"
      using seq_okD(5) [OF ok, of p] c fresh owned_new [of "seq_nodes h" "seq_next h" "{}" n] seq_okD(1) [OF ok]
      by (auto simp: heap refs M credit_def split: option.splits)
  qed (use seq_okD(1-3) [OF ok] in \<open>auto simp: heap refs intro: less_SucI\<close>)
qed


text \<open>A reference moves from the operation to a sequence, or back.\<close>

lemma setNode_ok:
  assumes ok: "seq_ok {} M h" and p: "seq_nodes h p = Some n" and r: "seq_refs h r = Some None"
  shows "\<exists>h'. seq_setNode r p h = Inr ((), h') \<and> seq_ok {} M h' \<and> keeps_nodes (seq_nodes h) (seq_nodes h') \<and>
    seq_refs h' = (seq_refs h)(r \<mapsto> Some p)"
proof -
  let ?h = "h\<lparr>seq_refs := (seq_refs h)(r \<mapsto> Some p)\<rparr>" and ?h' = "set_refcount p (sn_refcount n + 1) h"
  have inc: "seq_ok {} (add_mset p M) ?h'" using increment_ok [OF ok p] by simp
  have fin: "finite (dom (seq_refs h))" using seq_okD(2) [OF ok] .
  have "rooted ((seq_refs h)(r \<mapsto> Some p)) = add_mset p (rooted (seq_refs h))"
    using rooted_set [OF fin, of r "Some p"] rooted_split [OF fin, of r] r by simp
  then have "seq_ok {} M (?h'\<lparr>seq_refs := (seq_refs h)(r \<mapsto> Some p)\<rparr>)"
    using inc unfolding seq_ok_def by (simp add: fin)
  moreover have "?h'\<lparr>seq_refs := (seq_refs h)(r \<mapsto> Some p)\<rparr> = set_refcount p (sn_refcount n + 1) ?h"
    by (simp add: set_refcount_def)
  moreover have "seq_setNode r p h = Inr ((), set_refcount p (sn_refcount n + 1) ?h)"
    using p r by (simp add: seq_setNode_def seq_getNode_def increment_def)
  ultimately show ?thesis by (metis keeps_with_refcount seq_heap.select_convs(1) seq_heap.surjective
      seq_heap.update_convs(3) set_refcount_heap(1,3) seq_heap.select_convs(3))
qed

lemma allocate_ok:
  assumes "seq_ok {} M h" "r \<notin> dom (seq_refs h)"
  shows "seq_ok {} M (allocate_seq r h)" "seq_nodes (allocate_seq r h) = seq_nodes h"
    "seq_refs (allocate_seq r h) = (seq_refs h)(r \<mapsto> None)"
proof -
  have fin: "finite (dom (seq_refs h))" using seq_okD(2) [OF assms(1)] .
  have "(seq_refs h)(r := None) = seq_refs h" using assms(2) by auto
  then have "rooted ((seq_refs h)(r \<mapsto> None)) = rooted (seq_refs h)"
    using rooted_set [OF fin, of r None] by simp
  then show "seq_ok {} M (allocate_seq r h)" using assms(1) fin by (simp add: seq_ok_def allocate_seq_def)
qed (simp_all add: allocate_seq_def)

text \<open>Freeing gives a reference back: nothing that is still referenced changes. A node whose last reference
  goes becomes a zombie, whose children the operation holds, and is deleted in the end.\<close>

lemma children_owned: "finite (dom nodes) \<Longrightarrow> nodes q = Some n \<Longrightarrow> q \<notin> Z \<Longrightarrow> children n \<subseteq># owned Z nodes"
  using owned_zombie [of nodes q n Z] by simp

lemma zombie_ok:
  assumes ok: "seq_ok Z (add_mset p M) h" and p: "seq_nodes h p = Some n" and last: "sn_refcount n \<le> 1"
  shows "seq_ok (insert p Z) (M + children n) (set_refcount p (sn_refcount n - 1) h)"
proof (rule seq_okI)
  let ?h1 = "set_refcount p (sn_refcount n - 1) h"
  have live: "p \<notin> Z" using held_live [OF ok, of p] by auto
  fix q m assume q: "seq_nodes ?h1 q = Some m" "q \<notin> insert p Z"
  then have m: "seq_nodes h q = Some m" "q \<notin> Z" by (simp_all add: with_refcount_apply)
  then show "node_ok (seq_nodes ?h1) m" "0 \<le> sn_refcount m"
    using seq_okD(4) [OF ok m] node_ok_keeps [OF _ keeps_with_refcount same_node_refl] by auto
next
  let ?h1 = "set_refcount p (sn_refcount n - 1) h"
  fix q
  have live: "p \<notin> Z" using held_live [OF ok, of p] by auto
  have "count (owned Z (seq_nodes h) + rooted (seq_refs h) + M) q \<le> credit (insert p Z) (seq_nodes h) q"
    using seq_okD(5) [OF ok, of q] p last by (auto simp: credit_def split: if_splits option.splits)
  then show "count (owned (insert p Z) (seq_nodes ?h1) + rooted (seq_refs ?h1) + (M + children n)) q \<le>
      credit (insert p Z) (seq_nodes ?h1) q"
    using owned_zombie [OF seq_okD(1) [OF ok] p live] by (simp add: credit_with_refcount ac_simps)
qed (use seq_okD [OF ok] in simp_all)

lemma delete_ok:
  assumes ok: "seq_ok (insert p Z) M h" and p: "p \<notin> Z"
  shows "seq_ok Z M (h\<lparr>seq_nodes := (seq_nodes h)(p := None)\<rparr>)"
proof (rule seq_okI)
  let ?nodes = "(seq_nodes h)(p := None)"
  fix q m assume "seq_nodes (h\<lparr>seq_nodes := ?nodes\<rparr>) q = Some m" "q \<notin> Z"
  then have q: "seq_nodes h q = Some m" "q \<notin> insert p Z" by (auto split: if_splits)
  have "p \<notin># children m"
  proof
    assume "p \<in># children m"
    then have "p \<in># owned (insert p Z) (seq_nodes h)"
      using mset_subset_eqD [OF children_owned [OF seq_okD(1) [OF ok] q]] by simp
    then show False using held_live [OF ok, of p] by auto
  qed
  then show "node_ok (seq_nodes (h\<lparr>seq_nodes := ?nodes\<rparr>)) m"
    using seq_okD(4) [OF ok q] by (auto simp: node_ok_def children_def split: seq_body.splits)
  show "0 \<le> sn_refcount m" using seq_okD(4) [OF ok q] by simp
next
  fix q
  show "count (owned Z (seq_nodes (h\<lparr>seq_nodes := (seq_nodes h)(p := None)\<rparr>)) +
      rooted (seq_refs (h\<lparr>seq_nodes := (seq_nodes h)(p := None)\<rparr>)) + M) q \<le>
      credit Z (seq_nodes (h\<lparr>seq_nodes := (seq_nodes h)(p := None)\<rparr>)) q"
    using seq_okD(5) [OF ok, of q] by (auto simp: owned_delete credit_def split: option.splits if_splits)
  fix q assume "q \<in> dom (seq_nodes (h\<lparr>seq_nodes := (seq_nodes h)(p := None)\<rparr>))"
  then show "q < seq_next (h\<lparr>seq_nodes := (seq_nodes h)(p := None)\<rparr>)"
    using seq_okD(3) [OF ok, of q] by (auto split: if_splits)
qed (use seq_okD(1,2) [OF ok] in simp_all)

lemma keeps_delete: "keeps_nodes (nodes(p := None)) nodes"
  by (simp add: keeps_nodes_def)

lemma free_node_ok:
  "seq_ok Z (add_mset p M) h \<Longrightarrow> seq_nodes h p = Some n \<Longrightarrow> nat (node_height n) \<le> k \<Longrightarrow>
    \<exists>h'. seq_free_node p h = Some (Inr h') \<and> seq_ok Z M h' \<and> seq_refs h' = seq_refs h \<and> seq_iters h' = seq_iters h \<and>
      keeps_nodes (seq_nodes h') (seq_nodes h) \<and> (\<forall>q \<in> Z. seq_nodes h' q = seq_nodes h q)"
proof (induction k arbitrary: p n Z M h rule: less_induct)
  case (less k)
  note ok = less.prems(1) and p = less.prems(2)
  have live: "p \<notin> Z" "1 \<le> sn_refcount n" "node_ok (seq_nodes h) n"
    using held_live [OF ok, of p] p by auto
  let ?c = "sn_refcount n - 1" let ?h1 = "set_refcount p ?c h"
  have kept_h1: "keeps_nodes (seq_nodes ?h1) (seq_nodes h)" using p by (auto simp: keeps_nodes_def with_refcount_apply)
  consider (shared) "?c > 0" | (leaf) vs where "\<not> ?c > 0" "sn_body n = LeafSeqNode vs"
    | (concat) l r height where "\<not> ?c > 0" "sn_body n = ConcatSeqNode l r height"
    by (cases "sn_body n") auto
  then show ?case
  proof cases
    case shared
    have "seq_ok Z M ?h1"
      using seq_okD(5) [OF ok] p live(1)
      by (intro set_refcount_ok [OF ok p live(1)])
         (use shared in simp, rename_tac q, drule_tac x = q in meta_spec, auto simp: credit_def split: if_splits)
    then show ?thesis using shared p kept_h1
      by (subst seq_free_node.simps) (auto simp: live(1) with_refcount_apply)
  next
    case leaf
    have z: "seq_ok (insert p Z) M ?h1" using zombie_ok [OF ok p] leaf by (simp add: children_def)
    have "(with_refcount p ?c (seq_nodes h))(p := None) = (seq_nodes h)(p := None)" by (simp add: with_refcount_def)
    then show ?thesis using leaf p delete_ok [OF z live(1)] keeps_delete live(1)
      by (subst seq_free_node.simps) auto
  next
    case concat
    have h: "0 < height" "nat (node_height n) = nat height" using live(3) concat by (auto simp: node_ok_def node_height_def)
    have z: "seq_ok (insert p Z) (add_mset l (add_mset r M)) ?h1"
      using zombie_ok [OF ok p] concat by (simp add: children_def)
    have lr: "\<exists>m. seq_nodes ?h1 q = Some m \<and> nat (node_height m) < k" if "q \<in> {l, r}" for q
    proof -
      have "q = l \<or> q = r" using that by simp
      then obtain m where "seq_nodes h q = Some m" "node_height m < height"
        using live(3) concat by (auto simp: node_ok_def)
      then show ?thesis using h less.prems(3) by (auto simp: with_refcount_apply node_height_def)
    qed
    obtain ln where ln: "seq_nodes ?h1 l = Some ln" "nat (node_height ln) < k" using lr by blast
    obtain h2 where h2: "seq_free_node l ?h1 = Some (Inr h2)" "seq_ok (insert p Z) (add_mset r M) h2"
        "seq_refs h2 = seq_refs h" "seq_iters h2 = seq_iters h" "keeps_nodes (seq_nodes h2) (seq_nodes ?h1)"
        "\<forall>q \<in> insert p Z. seq_nodes h2 q = seq_nodes ?h1 q"
      using less.IH [OF ln(2) z ln(1) order.refl] by auto
    obtain rn where rn: "seq_nodes h2 r = Some rn" using held_live [OF h2(2), of r] by auto
    then have "nat (node_height rn) < k"
      using keepsD [OF h2(5) rn] lr [of r] same_height by fastforce
    then obtain h3 where h3: "seq_free_node r h2 = Some (Inr h3)" "seq_ok (insert p Z) M h3"
        "seq_refs h3 = seq_refs h" "seq_iters h3 = seq_iters h" "keeps_nodes (seq_nodes h3) (seq_nodes h2)"
        "\<forall>q \<in> insert p Z. seq_nodes h3 q = seq_nodes ?h1 q"
      using less.IH [OF _ h2(2) rn order.refl] h2(3,4,6) by auto
    have "seq_free_node p h = Some (Inr (h3\<lparr>seq_nodes := (seq_nodes h3)(p := None)\<rparr>))"
      using concat p h2(1) h3(1) by (subst seq_free_node.simps) simp
    moreover have "keeps_nodes ((seq_nodes h3)(p := None)) (seq_nodes h)"
      using keeps_trans [OF keeps_trans [OF keeps_trans [OF keeps_delete h3(5)] h2(5)] kept_h1] .
    ultimately show ?thesis using delete_ok [OF h3(2) live(1)] h3(3,4,6) live(1)
      by (auto simp: with_refcount_apply)
  qed
qed


subsection \<open>Reading\<close>

lemma live_rope:
  "seq_ok {} M h \<Longrightarrow> seq_nodes h p = Some n \<Longrightarrow> nat (node_height n) \<le> k \<Longrightarrow> \<exists>xs. rope (seq_nodes h) p xs"
proof (induction k arbitrary: p n rule: less_induct)
  case (less k)
  note ok = seq_okD(4) [OF less.prems(1,2), simplified]
  show ?case
  proof (cases "sn_body n")
    case (LeafSeqNode vs)
    then show ?thesis using ok rope_leaf [of "seq_nodes h" p n vs] less.prems(2) by (auto simp: node_ok_def)
  next
    case (ConcatSeqNode l r height)
    then obtain ln rn where lr: "seq_nodes h l = Some ln" "seq_nodes h r = Some rn" "sn_count n = sn_count ln + sn_count rn"
        "node_height ln < height" "node_height rn < height" "1 \<le> height" using ok by (auto simp: node_ok_def)
    then have k: "nat (node_height ln) < k" "nat (node_height rn) < k"
      using less.prems(3) ConcatSeqNode by (auto simp: node_height_def)
    obtain xs ys where xs: "rope (seq_nodes h) l xs" "rope (seq_nodes h) r ys"
      using less.IH [OF k(1) less.prems(1) lr(1) order.refl] less.IH [OF k(2) less.prems(1) lr(2) order.refl] by blast
    then have "rope (seq_nodes h) p (xs @ ys)"
      using lr(3) rope_count [OF xs(1)] rope_count [OF xs(2)] lr(1,2)
      by (intro rope_concat [where l = l and r = r, OF less.prems(2) ConcatSeqNode xs]) auto
    then show ?thesis by blast
  qed
qed

lemma seq_find_ok:
  "rope (seq_nodes h) p xs \<Longrightarrow> 0 \<le> i \<Longrightarrow> i < int (length (concat xs)) \<Longrightarrow>
    seq_find h p i = Some (Inr (concat xs ! nat i))"
proof (induction arbitrary: i rule: rope.induct)
  case (rope_leaf p n vs)
  then show ?case by (subst seq_find.simps) (simp add: nat_less_iff)
next
  case (rope_concat p n l r height xs ys)
  obtain ln where "seq_nodes h l = Some ln" "sn_count ln = int (length (concat xs))"
    using rope_count [OF rope_concat.hyps(3)] by blast
  then show ?case using rope_concat
    by (subst seq_find.simps) (auto simp: nth_append nat_less_iff nat_diff_distrib not_less)
qed

subsection \<open>Slices\<close>

text \<open>What a slice of leaves is: the leaves that lie in it whole, and for a leaf that lies in it partly the
  element after the first one, as often as elements of the leaf lie in it. If there is no such
  element the code reads out of bounds.\<close>

definition piece :: "operand list \<Rightarrow> nat \<Rightarrow> nat \<Rightarrow> operand list option" where
  "piece vs s k =
    (if s = 0 \<and> length vs = k then Some vs
     else if s + 1 < length vs then Some (replicate k (vs ! (s + 1))) else None)"

fun parts :: "operand list list \<Rightarrow> nat \<Rightarrow> nat \<Rightarrow> operand list list option" where
  "parts [] s l = Some []"
| "parts (v # vs) s l =
    (if l = 0 then Some []
     else if length v \<le> s then parts vs (s - length v) l
     else let k = min l (length v - s)
       in Option.bind (piece v s k) (\<lambda>w. map_option ((#) w) (parts vs 0 (l - k))))"

definition slice_leaves :: "operand list list \<Rightarrow> nat \<Rightarrow> nat \<Rightarrow> operand list list option" where
  "slice_leaves ls s l = (if l = 0 then Some [[]] else parts ls s l)"

lemma parts_zero [simp]: "parts ls s 0 = Some []"
  by (cases ls) simp_all

lemma parts_left: "s + l \<le> length (concat as) \<Longrightarrow> parts (as @ bs) s l = parts as s l"
proof (induction as arbitrary: s l)
  case (Cons v as)
  show ?case
  proof (cases "l = 0 \<or> length v \<le> s")
    case True
    then show ?thesis using Cons by auto
  next
    case False
    then have "0 + (l - min l (length v - s)) \<le> length (concat as)" using Cons.prems by auto
    then show ?thesis using False Cons.IH by (simp add: Let_def)
  qed
qed simp

lemma parts_right: "length (concat as) \<le> s \<Longrightarrow> parts (as @ bs) s l = parts bs (s - length (concat as)) l"
  by (induction as arbitrary: s) (auto simp: diff_diff_left)

lemma parts_both:
  "s < length (concat as) \<Longrightarrow> length (concat as) < s + l \<Longrightarrow>
    parts (as @ bs) s l = Option.bind (parts as s (length (concat as) - s))
      (\<lambda>xs. map_option ((@) xs) (parts bs 0 (l - (length (concat as) - s))))"
proof (induction as arbitrary: s l)
  case (Cons v as)
  show ?case
  proof (cases "length v \<le> s")
    case True
    then have "s - length v < length (concat as)" "length (concat as) < s - length v + l"
      "length (concat as) - (s - length v) = length (concat (v # as)) - s" using Cons.prems by auto
    then show ?thesis using True Cons.prems Cons.IH [of "s - length v" l] by auto
  next
    case False
    let ?k = "length v - s"
    have k: "min l ?k = ?k" "min (length (concat (v # as)) - s) ?k = ?k" "0 < l" "0 < length (concat (v # as)) - s"
      using False Cons.prems by auto
    show ?thesis
    proof (cases "concat as = []")
      case True
      then have "length (concat (v # as)) - s = ?k" by (simp del: concat_eq_Nil_conv)
      moreover have "parts (as @ bs) 0 n = parts bs 0 n" "parts as 0 n = Some []" for n
        using parts_right [of as 0 bs n] parts_right [of as 0 "[]" n] True by (simp_all del: concat_eq_Nil_conv)
      moreover have "(@) [w] = (#) w" for w :: "operand list" by auto
      ultimately show ?thesis using k False by (auto simp: Let_def bind_eq_Some_conv split: option.splits bind_splits)
    next
      case nonempty: False
      then have "0 < length (concat as)" "length (concat as) < 0 + (l - ?k)"
        using Cons.prems False by (simp_all only: length_greater_0_conv concat.simps length_append not_False_eq_True)
      then have "parts (as @ bs) 0 (l - ?k) = Option.bind (parts as 0 (length (concat as)))
          (\<lambda>xs. map_option ((@) xs) (parts bs 0 (l - ?k - length (concat as))))"
        using Cons.IH [of 0 "l - ?k"] by simp
      moreover have "length (concat (v # as)) - s - ?k = length (concat as)"
        "l - ?k - length (concat as) = l - (length (concat (v # as)) - s)" using False by auto
      ultimately show ?thesis using k False
        by (simp add: Let_def map_option_case split: option.splits bind_splits)
    qed
  qed
qed simp


lemma piece_length: "piece vs s k = Some w \<Longrightarrow> length w = k"
  by (auto simp: piece_def split: if_splits)

lemma parts_length: "parts ls s l = Some ws \<Longrightarrow> s + l \<le> length (concat ls) \<Longrightarrow> length (concat ws) = l"
proof (induction ls s l arbitrary: ws rule: parts.induct)
  case (2 v vs s l)
  show ?case
  proof (cases "l = 0 \<or> length v \<le> s")
    case True
    then show ?thesis using 2 by (auto split: if_splits)
  next
    case False
    let ?k = "min l (length v - s)"
    obtain w us where w: "piece v s ?k = Some w" "parts vs 0 (l - ?k) = Some us" "ws = w # us"
      using 2(3) False by (auto simp: Let_def bind_eq_Some_conv)
    moreover have "0 + (l - ?k) \<le> length (concat vs)" using 2(4) False by auto
    ultimately have "length (concat us) = l - ?k" using 2(2) False by auto
    then show ?thesis using w False by (simp add: piece_length)
  qed
qed simp

lemma slice_leaves_length:
  "slice_leaves ls s l = Some ws \<Longrightarrow> s + l \<le> length (concat ls) \<Longrightarrow> length (concat ws) = l"
  by (auto simp: slice_leaves_def parts_length split: if_splits)

lemma node_height_pos: "node_ok nodes n \<Longrightarrow> 1 \<le> node_height n"
proof (cases "sn_body n")
  case (ConcatSeqNode l r height)
  moreover assume "node_ok nodes n"
  ultimately have "1 \<le> height" by (auto simp: node_ok_def)
  then show ?thesis using ConcatSeqNode by (simp add: node_height_def)
qed (simp add: node_height_def)

text \<open>A new node over two that the operation holds.\<close>

lemma concat_node_ok:
  assumes ok: "seq_ok {} (add_mset l (add_mset r N)) h" and xs: "rope (seq_nodes h) l xs" and ys: "rope (seq_nodes h) r ys"
    and lr: "seq_nodes h l = Some ln" "seq_nodes h r = Some rn" "node_height ln < H" "node_height rn < H"
    and len: "len = int (length (concat xs)) + int (length (concat ys))" "len < 2 ^ 31"
    and n_def: "n = \<lparr>sn_refcount = int c, sn_count = len, sn_body = ConcatSeqNode l r H\<rparr>"
  shows "seq_ok {} (N + replicate_mset c (fst (new_node n h))) (snd (new_node n h))"
    "keeps_nodes (seq_nodes h) (seq_nodes (snd (new_node n h)))" "seq_refs (snd (new_node n h)) = seq_refs h"
    "rope (seq_nodes (snd (new_node n h))) (fst (new_node n h)) (xs @ ys)"
    "seq_nodes (snd (new_node n h)) (fst (new_node n h)) = Some n"
proof -
  have "1 \<le> node_height ln" using node_height_pos [of "seq_nodes h" ln] seq_okD(4) [OF ok lr(1)] by simp
  then have "node_ok (seq_nodes h) n"
    using lr len rope_count [OF xs] rope_count [OF ys] by (auto simp: node_ok_def n_def)
  note new = new_node_ok [OF ok this, of N c]
  show *: "keeps_nodes (seq_nodes h) (seq_nodes (snd (new_node n h)))" "seq_refs (snd (new_node n h)) = seq_refs h"
    "seq_ok {} (N + replicate_mset c (fst (new_node n h))) (snd (new_node n h))"
    and at: "seq_nodes (snd (new_node n h)) (fst (new_node n h)) = Some n"
    using new by (simp_all add: n_def children_def)
  show "rope (seq_nodes (snd (new_node n h))) (fst (new_node n h)) (xs @ ys)"
    by (rule rope_concat [OF at _ rope_keeps [OF xs *(1)] rope_keeps [OF ys *(1)]]) (simp_all add: n_def len)
qed

lemma copy_leaf_piece:
  assumes "s + k \<le> length vs" "\<not> (s = 0 \<and> length vs = k)"
  shows "copy_leaf vs (int s) (int k) =
    (if k = 0 then Inr [] else case piece vs s k of None \<Rightarrow> Inl UndefinedBehaviour | Some w \<Rightarrow> Inr w)"
proof -
  have "map (\<lambda>i. vs ! nat (int s + 1)) [0..int k - 1] = replicate k (vs ! (s + 1))"
    by (rule nth_equalityI) (auto simp: nat_add_distrib)
  then show ?thesis using assms by (auto simp: copy_leaf_def piece_def nat_add_distrib)
qed

lemma slice_node_ok:
  assumes "rope nodes p ls"
  shows "keeps_nodes nodes (seq_nodes h) \<Longrightarrow> seq_ok {} M h \<Longrightarrow> s + l \<le> length (concat ls) \<Longrightarrow> length (concat ls) < 2 ^ 31 \<Longrightarrow>
    (case slice_leaves ls s l of
       None \<Rightarrow> slice_node p (int s) (int l) h = Some (Inl UndefinedBehaviour)
     | Some ws \<Rightarrow> \<exists>q h'. slice_node p (int s) (int l) h = Some (Inr (q, h')) \<and> seq_ok {} M h' \<and>
         keeps_nodes (seq_nodes h) (seq_nodes h') \<and> seq_refs h' = seq_refs h \<and> rope (seq_nodes h') q ws)"
  using assms
proof (induction arbitrary: h M s l rule: rope.induct)
  case (rope_leaf p n vs)
  obtain m where m: "seq_nodes h p = Some m" "same_node n m" using keepsD rope_leaf by meson
  then have body: "sn_body m = LeafSeqNode vs" "sn_count m = int (length vs)"
    using rope_leaf.hyps by (simp_all add: same_node_def)
  show ?case
  proof (cases "s = 0 \<and> length vs = l")
    case True
    have "rope (with_refcount p (sn_refcount m + 1) (seq_nodes h)) p [vs]"
      using body m by (intro rope.rope_leaf [where n = "m\<lparr>sn_refcount := sn_refcount m + 1\<rparr>"])
        (simp_all add: with_refcount_apply)
    moreover have "seq_ok {} M (set_refcount p (sn_refcount m + 1) h)"
      using increment_ok(2) [OF rope_leaf.prems(2) m(1)] by (auto intro: seq_ok_weaken)
    moreover have "slice_leaves [vs] s l = Some [vs]" using True by (auto simp: slice_leaves_def piece_def)
    ultimately show ?thesis using True m body by (subst slice_node.simps) auto
  next
    case False
    have len: "s + l \<le> length vs" using rope_leaf.prems(3) by simp
    let ?n = "\<lambda>ws. \<lparr>sn_refcount = 0, sn_count = int l, sn_body = LeafSeqNode ws\<rparr>"
    have step: "slice_node p (int s) (int l) h =
        Some (then_do (copy_leaf vs (int s) (int l)) (\<lambda>ws. Inr (new_node (?n ws) h)))"
      using False m body by (subst slice_node.simps) auto
    have new: "seq_ok {} M (snd (new_node (?n ws) h))" "keeps_nodes (seq_nodes h) (seq_nodes (snd (new_node (?n ws) h)))"
      "seq_refs (snd (new_node (?n ws) h)) = seq_refs h" "rope (seq_nodes (snd (new_node (?n ws) h))) (fst (new_node (?n ws) h)) [ws]"
      if "length ws = l" for ws
    proof -
      have "node_ok (seq_nodes h) (?n ws)" using that len rope_leaf.prems(4) by (simp add: node_ok_def)
      note new = new_node_ok [OF rope_leaf.prems(2) this, of M 0]
      show "seq_ok {} M (snd (new_node (?n ws) h))" "keeps_nodes (seq_nodes h) (seq_nodes (snd (new_node (?n ws) h)))"
        "seq_refs (snd (new_node (?n ws) h)) = seq_refs h" using new by (simp_all add: children_def)
      show "rope (seq_nodes (snd (new_node (?n ws) h))) (fst (new_node (?n ws) h)) [ws]"
        using new(3,4) that by (intro rope.rope_leaf) (auto simp: children_def)
    qed
    consider "l = 0" | "0 < l" "piece vs s l = None" | w where "0 < l" "piece vs s l = Some w" "length w = l"
      using piece_length by (cases "l = 0"; cases "piece vs s l") auto
    then show ?thesis
    proof cases
      case 1
      then show ?thesis using step copy_leaf_piece [OF len False] new [of "[]"]
        by (auto simp: slice_leaves_def) (metis prod.collapse)
    next
      case 2
      then have "slice_leaves [vs] s l = None" using len by (auto simp: slice_leaves_def min_def split: if_splits)
      then show ?thesis using 2 step copy_leaf_piece [OF len False] by simp
    next
      case 3
      then have "slice_leaves [vs] s l = Some [w]" using len by (auto simp: slice_leaves_def min_def split: if_splits)
      then show ?thesis using 3 step copy_leaf_piece [OF len False] new [of w] by (auto) (metis prod.collapse)
    qed
  qed
next
  case (rope_concat p n left right height xs ys)
  let ?a = "length (concat xs)" and ?b = "length (concat ys)"
  note keep = rope_concat.prems(1) and ok = rope_concat.prems(2)
  obtain m where m: "seq_nodes h p = Some m" "sn_body m = ConcatSeqNode left right height"
    using keepsD [OF keep rope_concat.hyps(1)] rope_concat.hyps(2) by (auto simp: same_node_def)
  obtain ln where ln: "seq_nodes h left = Some ln" "sn_count ln = int ?a"
    using rope_count [OF rope_keeps [OF rope_concat.hyps(3) keep]] by blast
  have len: "s + l \<le> ?a + ?b" "?a + ?b < 2 ^ 31" using rope_concat.prems(3,4) by simp_all
  have stop: "checked_int (int s + int l) = Inr (int s + int l)" "checked_int (int ?a - int s) = Inr (int ?a - int s)"
    using len by (intro checked_int_simp; simp)+
  consider (left) "s + l \<le> ?a" | (right) "\<not> s + l \<le> ?a" "?a \<le> s" | (both) "?a < s + l" "s < ?a" by linarith
  then show ?case
  proof cases
    case left
    then have "slice_leaves (xs @ ys) s l = slice_leaves xs s l" by (simp add: slice_leaves_def parts_left)
    moreover have "slice_node p (int s) (int l) h = slice_node left (int s) (int l) h"
      using left m ln stop by (subst slice_node.simps) simp
    moreover have "?a < 2 ^ 31" using len by linarith
    ultimately show ?thesis using rope_concat.IH(1) [OF keep ok left] by (simp only:)
  next
    case right
    then have "slice_leaves (xs @ ys) s l = slice_leaves ys (s - ?a) l" by (auto simp: slice_leaves_def parts_right)
    moreover have "slice_node p (int s) (int l) h = slice_node right (int (s - ?a)) (int l) h"
      using right m ln stop by (subst slice_node.simps) (simp add: of_nat_diff)
    moreover have "?b < 2 ^ 31" "s - ?a + l \<le> ?b" using len right by linarith+
    ultimately show ?thesis using rope_concat.IH(2) [OF keep ok, of "s - ?a" l] by (simp only:)
  next
    case both
    define c where "c = ?a - s"
    define d where "d = l - c"
    have cd: "int c = int ?a - int s" "int d = int l - int c" "l = c + d" "s + c \<le> ?a" "0 + d \<le> ?b" "?a < 2 ^ 31" "?b < 2 ^ 31"
      using both len unfolding c_def d_def by linarith+
    have step: "slice_node p (int s) (int l) h =
      run_bind (slice_node left (int s) (int c) h) (\<lambda>lh. run_bind (Some (increment (fst lh) (snd lh))) (\<lambda>h1.
        run_bind (slice_node right 0 (int d) (snd h1)) (\<lambda>rh. run_bind (Some (increment (fst rh) (snd rh))) (\<lambda>h2.
          Some (concat_nodes 0 (fst lh) (fst rh) (int l) (snd h2))))))"
    proof -
      have "checked_int (sn_count ln - int s) = Inr (int c)" "int l - int c = int d" using stop(2) ln cd by simp_all
      then show ?thesis using both m ln stop(1) by (subst slice_node.simps) simp
    qed
    have spec: "slice_leaves (xs @ ys) s l =
        Option.bind (slice_leaves xs s c) (\<lambda>as. map_option ((@) as) (slice_leaves ys 0 d))"
      using both by (simp add: slice_leaves_def parts_both c_def d_def)
    note ih1 = rope_concat.IH(1) [OF keep ok cd(4,6)]
    show ?thesis
    proof (cases "slice_leaves xs s c")
      case None
      then show ?thesis using ih1 step spec by simp
    next
      case (Some as)
      then obtain q1 h1 where s1: "slice_node left (int s) (int c) h = Some (Inr (q1, h1))" "seq_ok {} M h1"
          "keeps_nodes (seq_nodes h) (seq_nodes h1)" "seq_refs h1 = seq_refs h" "rope (seq_nodes h1) q1 as"
        using ih1 by auto
      obtain n1 where n1: "seq_nodes h1 q1 = Some n1" using rope_count [OF s1(5)] by blast
      let ?h2 = "set_refcount q1 (sn_refcount n1 + 1) h1"
      note inc1 = increment_ok [OF s1(2) n1, simplified]
      have keep2: "keeps_nodes nodes (seq_nodes ?h2)"
        using keeps_trans [OF keeps_trans [OF keep s1(3)] keeps_set_refcount] by simp
      note ih2 = rope_concat.IH(2) [OF keep2 inc1(2) cd(5,7), simplified of_nat_0]
      show ?thesis
      proof (cases "slice_leaves ys 0 d")
        case None
        then show ?thesis using ih2 step spec s1(1) inc1(1) Some by simp
      next
        case (Some bs)
        then obtain q2 h3 where s2: "slice_node right 0 (int d) ?h2 = Some (Inr (q2, h3))"
            "seq_ok {} (add_mset q1 M) h3" "keeps_nodes (seq_nodes ?h2) (seq_nodes h3)" "seq_refs h3 = seq_refs h"
            "rope (seq_nodes h3) q2 bs"
          using ih2 s1(4) by auto
        obtain n2 where n2: "seq_nodes h3 q2 = Some n2" using rope_count [OF s2(5)] by blast
        let ?h4 = "set_refcount q2 (sn_refcount n2 + 1) h3"
        note inc2 = increment_ok [OF s2(2) n2, simplified]
        have r4: "rope (seq_nodes ?h4) q2 bs" "rope (seq_nodes ?h4) q1 as"
          using rope_keeps [OF s2(5)] rope_keeps [OF s1(5) keeps_trans [OF keeps_trans [OF keeps_set_refcount s2(3)] keeps_set_refcount]]
          by simp_all
        then obtain ln4 rn4 where lr4: "seq_nodes ?h4 q1 = Some ln4" "seq_nodes ?h4 q2 = Some rn4"
          using rope_count by meson
        let ?H = "max (node_height ln4) (node_height rn4) + 1"
        have sum: "int l = int (length (concat as)) + int (length (concat bs))"
          using slice_leaves_length [OF \<open>slice_leaves xs s c = Some as\<close>] slice_leaves_length [OF Some] cd by simp
        let ?n = "\<lparr>sn_refcount = int 0, sn_count = int l, sn_body = ConcatSeqNode q1 q2 ?H\<rparr>"
        have ok4: "seq_ok {} (add_mset q1 (add_mset q2 M)) ?h4" using inc2(2) by (simp add: add_mset_commute)
        note new = concat_node_ok [where c = 0, OF ok4 r4(2,1) lr4 _ _ sum]
        have "slice_node p (int s) (int l) h = Some (Inr (new_node ?n ?h4))"
          using step s1(1) s2(1) inc1(1) inc2(1) lr4 by (simp add: concat_nodes_def)
        moreover have "keeps_nodes (seq_nodes h) (seq_nodes ?h4)"
          using keeps_trans [OF keeps_trans [OF keeps_trans [OF s1(3) keeps_set_refcount] s2(3)] keeps_set_refcount] by simp
        ultimately show ?thesis using new [of ?H] spec \<open>slice_leaves xs s c = Some as\<close> Some s2(4) len keeps_trans
          by (cases "new_node ?n ?h4") (fastforce)
      qed
    qed
  qed
qed

end
