(* ===== verification/SequencesRefinement.thy ===== *)
theory SequencesRefinement
  imports SequencesLaws
begin

text \<open>
  The store of sequences refines lists: a map from references to what they hold, nothing or a list
  of arrays whose concatenation is the sequence. The operations on it share and copy nothing; the
  simulation shows that sharing nodes and counting references to them is not observable, and that
  no operation reads a node that was freed.
\<close>

datatype seq_call =
    NewSeq u64 "operand list"
  | AppendSeq u64 "operand list" u64
  | ExtendSeq u64 u64 u64
  | SliceSeq u64 operand operand u64
  | DropSeq u64

text \<open>What the constructor, the operations and the destructor do to the store.\<close>

definition store_copy :: "u64 \<Rightarrow> failure + nat \<times> seq_heap \<Rightarrow> failure + seq_heap" where
  "store_copy fresh r = then_do r (\<lambda>(p, h). then_do (seq_copy fresh p h) (\<lambda>(_, h'). Inr h'))"

fun seq_step :: "native_env \<Rightarrow> seq_call \<Rightarrow> seq_heap \<Rightarrow> (failure + seq_heap) option" where
  "seq_step E (NewSeq r vs) h = Some (then_do (construct_seq r vs (allocate_seq r h)) (\<lambda>(_, h'). Inr h'))"
| "seq_step E (AppendSeq r vs fresh) h =
    Some (store_copy fresh (then_do (seq_getNode r h) (\<lambda>m_node. append_node m_node vs h)))"
| "seq_step E (ExtendSeq r other fresh) h =
    Some (store_copy fresh (then_do (seq_getNode r h) (\<lambda>m_node. extend_node m_node other h)))"
| "seq_step E (SliceSeq r start len fresh) h =
    run_bind (Some (seq_getNode r h)) (\<lambda>m_node. run_bind (seqSlice E m_node start len h) (\<lambda>(node, h1).
      Some (case node of None \<Rightarrow> Inr h1
        | Some p \<Rightarrow> then_do (increment p h1) (\<lambda>(_, h2). store_copy fresh (Inr (p, h2))))))"
| "seq_step E (DropSeq r) h = destroy_seq r h"

text \<open>The operations that bytecode calls are these, with the arguments of the frame, and push the
  reference to the new sequence, or the receiver if there is none.\<close>

lemma seq_append_is_step:
  assumes "seq_receiver E s = Inr (frame, r, m_node)" "m_numArguments frame = 1" "isValid_operand (getArgument 0 frame)"
  shows "seq_append E fresh s =
    run_bind (seq_step E (AppendSeq r (getArgument 0 frame # rest_arguments frame) fresh) (snd s))
      (\<lambda>h. Some (push_result (ref_operand E fresh) (fst s, h)))"
proof -
  have "seq_getNode r (snd s) = Inr m_node"
    using assms(1) by (auto simp: seq_receiver_def then_do_Inr)
  then show ?thesis using assms
    by (auto simp: seq_append_def assert_arguments_def push_copy_def store_copy_def then_do_def run_bind_def split: sum.splits)
qed

lemma seq_extend_is_step:
  assumes "seq_receiver E s = Inr (frame, r, m_node)" "m_numArguments frame = 1"
    and "getRef (ne_lib E) (getArgument 0 frame) = Some other"
  shows "seq_extend E fresh s = run_bind (seq_step E (ExtendSeq r other fresh) (snd s))
    (\<lambda>h. Some (push_result (ref_operand E fresh) (fst s, h)))"
proof -
  have "seq_getNode r (snd s) = Inr m_node"
    using assms(1) by (auto simp: seq_receiver_def then_do_Inr)
  then show ?thesis using assms
    by (auto simp: seq_extend_def assert_arguments_def push_copy_def store_copy_def then_do_def run_bind_def split: sum.splits)
qed

lemma seq_slice_is_step:
  assumes "seq_receiver E s = Inr (frame, r, m_node)" "m_numArguments frame = 2"
    and "seqSlice E m_node (getArgument 0 frame) (getArgument 1 frame) (snd s) = Some (Inr (node, h1))"
  shows "seq_slice E fresh s = run_bind (seq_step E (SliceSeq r (getArgument 0 frame) (getArgument 1 frame) fresh) (snd s))
    (\<lambda>h. Some (push_result (if node = None then m_receiver frame else ref_operand E fresh) (fst s, h)))"
proof -
  have "seq_getNode r (snd s) = Inr m_node"
    using assms(1) by (auto simp: seq_receiver_def then_do_Inr)
  then show ?thesis using assms
    by (auto simp: seq_slice_def assert_arguments_def push_copy_def store_copy_def then_do_def run_bind_def
        split: sum.splits option.splits)
qed

subsection \<open>The specification\<close>

type_synonym seq_abs = "u64 \<rightharpoonup> operand list list option"

definition spec_slice :: "seq_abs \<Rightarrow> operand list list \<Rightarrow> nat \<Rightarrow> nat \<Rightarrow> u64 \<Rightarrow> failure + seq_abs" where
  "spec_slice A ls s l fresh =
    (case slice_leaves ls s l of None \<Rightarrow> Inl UndefinedBehaviour | Some ws \<Rightarrow> Inr (A(fresh \<mapsto> Some ws)))"

fun seq_spec :: "native_env \<Rightarrow> seq_call \<Rightarrow> seq_abs \<Rightarrow> failure + seq_abs" where
  "seq_spec E (NewSeq r vs) A = Inr (A(r \<mapsto> if vs = [] then None else Some [vs]))"
| "seq_spec E (AppendSeq r vs fresh) A =
    then_do (deref A r) (\<lambda>m. then_do (or_else_fail AssertionFailed m) (\<lambda>ls.
      if length (concat ls) + length vs < 2 ^ 31 then Inr (A(fresh \<mapsto> Some (ls @ [vs]))) else Inl UndefinedBehaviour))"
| "seq_spec E (ExtendSeq r other fresh) A =
    then_do (deref A r) (\<lambda>m. then_do (or_else_fail AssertionFailed m) (\<lambda>ls.
    then_do (deref A other) (\<lambda>m'. then_do (or_else_fail AssertionFailed m') (\<lambda>ls'.
      if length (concat ls) + length (concat ls') < 2 ^ 31 then Inr (A(fresh \<mapsto> Some (ls @ ls')))
      else Inl UndefinedBehaviour))))"
| "seq_spec E (SliceSeq r start len fresh) A =
    then_do (deref A r) (\<lambda>m. case m of None \<Rightarrow> Inr A | Some ls \<Rightarrow>
      then_do (or_else_fail AssertionFailed (getI64 (ne_lib E) (ne_objects E) start)) (\<lambda>sw.
      then_do (or_else_fail AssertionFailed (getI64 (ne_lib E) (ne_objects E) len)) (\<lambda>lw.
        let n = length (concat ls); s = nat (sint sw); l = nat (sint lw)
        in if sint sw < 0 then (if n \<le> l then Inr (A(fresh \<mapsto> Some ls)) else spec_slice A ls (n - l) l fresh)
           else if n \<le> s then Inr A else spec_slice A ls s (min l (n - s)) fresh)))"
| "seq_spec E (DropSeq r) A = then_do (deref A r) (\<lambda>_. Inr (A(r := None)))"

text \<open>New references are new, and the lengths are those of arrays that exist. A slice of negative length
  is left out: it throws, or after the conversion to \<open>int\<close> has another length.\<close>

fun valid_call :: "native_env \<Rightarrow> seq_call \<Rightarrow> seq_abs \<Rightarrow> bool" where
  "valid_call E (NewSeq r vs) A \<longleftrightarrow> r \<notin> dom A \<and> length vs < 2 ^ 31"
| "valid_call E (AppendSeq r vs fresh) A \<longleftrightarrow> fresh \<notin> dom A \<and> length vs < 2 ^ 31"
| "valid_call E (ExtendSeq r other fresh) A \<longleftrightarrow> fresh \<notin> dom A"
| "valid_call E (SliceSeq r start len fresh) A \<longleftrightarrow> fresh \<notin> dom A \<and>
    (\<forall>lw. getI64 (ne_lib E) (ne_objects E) len = Some lw \<longrightarrow> 0 \<le> sint lw \<and>
      (\<forall>sw. getI64 (ne_lib E) (ne_objects E) start = Some sw \<longrightarrow> sint sw + sint lw < 2 ^ 63))"
| "valid_call E (DropSeq r) A \<longleftrightarrow> True"

definition represents :: "seq_heap \<Rightarrow> seq_abs \<Rightarrow> bool" where
  "represents h A \<longleftrightarrow> seq_ok {} {#} h \<and>
    (\<forall>r. case seq_refs h r of None \<Rightarrow> A r = None | Some None \<Rightarrow> A r = Some None
       | Some (Some p) \<Rightarrow> (\<exists>ls. rope (seq_nodes h) p ls \<and> A r = Some (Some ls)))"

lemma representsD:
  assumes "represents h A"
  shows "seq_ok {} {#} h" "seq_refs h r = None \<longleftrightarrow> A r = None" "seq_refs h r = Some None \<longleftrightarrow> A r = Some None"
    "seq_refs h r = Some (Some p) \<Longrightarrow> \<exists>ls. A r = Some (Some ls) \<and> rope (seq_nodes h) p ls"
    "A r = Some (Some ls) \<Longrightarrow> \<exists>p n. seq_refs h r = Some (Some p) \<and> rope (seq_nodes h) p ls \<and>
      seq_nodes h p = Some n \<and> sn_count n = int (length (concat ls)) \<and> length (concat ls) < 2 ^ 31"
proof -
  have r: "case seq_refs h r of None \<Rightarrow> A r = None | Some None \<Rightarrow> A r = Some None
       | Some (Some p) \<Rightarrow> (\<exists>ls. rope (seq_nodes h) p ls \<and> A r = Some (Some ls))"
    and ok: "seq_ok {} {#} h" using assms by (auto simp: represents_def)
  show "seq_ok {} {#} h" by (rule ok)
  show "seq_refs h r = None \<longleftrightarrow> A r = None" "seq_refs h r = Some None \<longleftrightarrow> A r = Some None"
    "seq_refs h r = Some (Some p) \<Longrightarrow> \<exists>ls. A r = Some (Some ls) \<and> rope (seq_nodes h) p ls"
    using r by (auto split: option.splits)
  assume "A r = Some (Some ls)"
  then obtain p where p: "seq_refs h r = Some (Some p)" "rope (seq_nodes h) p ls" using r by (auto split: option.splits)
  moreover obtain n where n: "seq_nodes h p = Some n" "sn_count n = int (length (concat ls))" using rope_count [OF p(2)] by blast
  ultimately show "\<exists>p n. seq_refs h r = Some (Some p) \<and> rope (seq_nodes h) p ls \<and>
      seq_nodes h p = Some n \<and> sn_count n = int (length (concat ls)) \<and> length (concat ls) < 2 ^ 31"
    using seq_okD(4) [OF ok n(1)] by (auto simp: node_ok_def)
qed

lemma represents_update:
  assumes "represents h A" "seq_ok {} {#} h'" "keeps_nodes (seq_nodes h) (seq_nodes h')"
    and "seq_refs h' = (seq_refs h)(f \<mapsto> m)" "case m of None \<Rightarrow> v = None | Some q \<Rightarrow> \<exists>ls. v = Some ls \<and> rope (seq_nodes h') q ls"
  shows "represents h' (A(f \<mapsto> v))"
  using assms unfolding represents_def
  by (auto split: option.splits) (metis option.distinct(1) option.inject option.exhaust rope_keeps)+


subsection \<open>The simulation\<close>

definition simulates :: "(failure + seq_heap) option \<Rightarrow> failure + seq_abs \<Rightarrow> bool" where
  "simulates res spec \<longleftrightarrow>
    (case spec of Inl e \<Rightarrow> res = Some (Inl e) | Inr A \<Rightarrow> \<exists>h. res = Some (Inr h) \<and> represents h A)"

lemma simulates_simps [simp]:
  "simulates (Some (Inl e)) (Inl e)" "simulates (Some (Inr h)) (Inr A) \<longleftrightarrow> represents h A"
  by (simp_all add: simulates_def)

text \<open>Storing a node in a new sequence.\<close>

lemma store_copy_ok:
  assumes rep: "represents h0 A" and ok: "seq_ok {} M h" and keep: "keeps_nodes (seq_nodes h0) (seq_nodes h)"
    and refs: "seq_refs h = seq_refs h0" and fresh: "f \<notin> dom A" and p: "rope (seq_nodes h) p ls"
  shows "simulates (Some (store_copy f (Inr (p, h)))) (Inr (A(f \<mapsto> Some ls)))"
proof -
  have new: "f \<notin> dom (seq_refs h)" using fresh refs representsD(2) [OF rep, of f] by (auto simp: domIff)
  obtain n where n: "seq_nodes h p = Some n" using rope_count [OF p] by blast
  obtain h' where h': "seq_setNode p' p (allocate_seq f h) = Inr ((), h')" "seq_ok {} M h'"
      "keeps_nodes (seq_nodes h) (seq_nodes h')" "seq_refs h' = (seq_refs h)(f \<mapsto> Some p)" if "p' = f" for p'
    using setNode_ok [OF allocate_ok(1) [OF ok new], of p n f] allocate_ok(2,3) [OF ok new] n by auto
  have "represents h' (A(f \<mapsto> Some ls))"
    using represents_update [OF rep, of h' f "Some p" "Some ls"] seq_ok_weaken [OF h'(2), of f "{#}"]
      keeps_trans [OF keep h'(3) [OF refl]] rope_keeps [OF p h'(3) [OF refl]] h'(4) [OF refl] refs by simp
  then show ?thesis using h'(1) [OF refl] by (simp add: store_copy_def seq_copy_def)
qed

lemma new_leaf_ok:
  assumes "seq_ok {} M h" "length vs < 2 ^ 31"
  shows "\<exists>p h'. new_leaf (int c) vs h = (p, h') \<and> seq_ok {} (M + replicate_mset c p) h' \<and>
    keeps_nodes (seq_nodes h) (seq_nodes h') \<and> seq_refs h' = seq_refs h \<and> rope (seq_nodes h') p [vs] \<and>
    seq_nodes h' p = Some \<lparr>sn_refcount = int c, sn_count = int (length vs), sn_body = LeafSeqNode vs\<rparr>"
proof -
  let ?n = "\<lparr>sn_refcount = int c, sn_count = int (length vs), sn_body = LeafSeqNode vs\<rparr>"
  have "node_ok (seq_nodes h) ?n" using assms(2) by (simp add: node_ok_def)
  note new = new_node_ok [OF assms(1) this, of M c]
  moreover have "rope (seq_nodes (snd (new_node ?n h))) (seq_next h) [vs]"
    using new(4) by (intro rope_leaf [of _ _ ?n]) (simp_all add: children_def)
  ultimately show ?thesis unfolding new_leaf_def
    by (intro exI [of _ "seq_next h"] exI [of _ "snd (new_node ?n h)"]) (auto simp: children_def prod_eq_iff)
qed

lemma new_seq_simulates:
  assumes rep: "represents h A" and valid: "valid_call E (NewSeq r vs) A"
  shows "simulates (seq_step E (NewSeq r vs) h) (seq_spec E (NewSeq r vs) A)"
proof -
  have new: "r \<notin> dom (seq_refs h)" using valid representsD(2) [OF rep, of r] by (auto simp: domIff)
  note alloc = allocate_ok [OF representsD(1) [OF rep] new]
  show ?thesis
  proof (cases "vs = []")
    case True
    then show ?thesis using represents_update [OF rep alloc(1), of r None None] alloc(2,3)
      by (simp add: construct_seq_def)
  next
    case False
    obtain p h1 where leaf: "new_leaf (int 0) vs (allocate_seq r h) = (p, h1)" "seq_ok {} ({#} + replicate_mset 0 p) h1"
        "keeps_nodes (seq_nodes h) (seq_nodes h1)" "seq_refs h1 = (seq_refs h)(r \<mapsto> None)" "rope (seq_nodes h1) p [vs]"
      using new_leaf_ok [OF alloc(1), of vs 0] valid alloc(2,3) by auto
    obtain n where n: "seq_nodes h1 p = Some n" using rope_count [OF leaf(5)] by blast
    obtain h2 where "seq_setNode r p h1 = Inr ((), h2)" "seq_ok {} {#} h2" "keeps_nodes (seq_nodes h1) (seq_nodes h2)"
        "seq_refs h2 = (seq_refs h)(r \<mapsto> Some p)"
      using setNode_ok [OF leaf(2) n, of r] leaf(4) by auto
    then show ?thesis
      using False leaf(1) represents_update [OF rep, of h2 r "Some p" "Some [vs]"] keeps_trans [OF leaf(3)] rope_keeps [OF leaf(5)]
      by (simp add: construct_seq_def)
  qed
qed

lemma abs_cases:
  obtains "A r = None" | "A r = Some None" | ls where "A r = Some (Some (ls :: operand list list))"
  by (cases "A r"; simp) (metis option.exhaust)

lemma append_simulates:
  assumes rep: "represents h A" and valid: "valid_call E (AppendSeq r vs f) A"
  shows "simulates (seq_step E (AppendSeq r vs f) h) (seq_spec E (AppendSeq r vs f) A)"
proof (rule abs_cases [of A r])
  assume none: "A r = None"
    then have "seq_refs h r = None" using representsD(2) [OF rep, of r] by simp
    then show ?thesis using none by (simp add: seq_getNode_def deref_def store_copy_def)
  next
    assume empty: "A r = Some None"
    then have "seq_refs h r = Some None" using representsD(3) [OF rep, of r] by simp
    then show ?thesis using empty by (simp add: seq_getNode_def append_node_def store_copy_def)
  next
    fix ls assume some: "A r = Some (Some ls)"
    obtain p n where p: "seq_refs h r = Some (Some p)" "rope (seq_nodes h) p ls" "seq_nodes h p = Some n"
        "sn_count n = int (length (concat ls))" "length (concat ls) < 2 ^ 31"
      using representsD(5) [OF rep some] by blast
    let ?h1 = "set_refcount p (sn_refcount n + 1) h" and ?n1 = "n\<lparr>sn_refcount := sn_refcount n + 1\<rparr>"
    note inc = increment_ok [OF representsD(1) [OF rep] p(3), simplified]
    have n1: "seq_nodes ?h1 p = Some ?n1" using p(3) by (simp add: with_refcount_apply)
    obtain q h2 where leaf: "new_leaf (int 1) vs ?h1 = (q, h2)" "seq_ok {} ({#p#} + replicate_mset 1 q) h2"
        "keeps_nodes (seq_nodes ?h1) (seq_nodes h2)" "seq_refs h2 = seq_refs h" "rope (seq_nodes h2) q [vs]"
        "seq_nodes h2 q = Some \<lparr>sn_refcount = int 1, sn_count = int (length vs), sn_body = LeafSeqNode vs\<rparr>"
      using new_leaf_ok [OF inc(2), of vs 1] valid by auto
    obtain n2 where n2: "seq_nodes h2 p = Some n2" "same_node ?n1 n2" using keepsD [OF leaf(3) n1] by blast
    have keep: "keeps_nodes (seq_nodes h) (seq_nodes h2)" by (rule keeps_trans [OF keeps_set_refcount leaf(3)])
    have node: "seq_getNode r h = Inr (Some p)" using p(1) by (simp add: seq_getNode_def)
    have step: "append_node (Some p) vs h =
        then_do (checked_int (int (length (concat ls)) + int (length vs))) (\<lambda>count.
          Inr (new_node \<lparr>sn_refcount = 0, sn_count = count, sn_body = ConcatSeqNode p q (node_height n2 + 1)\<rparr> h2))"
      using inc(1) n1 leaf(1) p(4) same_height [OF n2(2)] by (simp add: append_node_def)
    show ?thesis
    proof (cases "length (concat ls) + length vs < 2 ^ 31")
      case True
      have ok2: "seq_ok {} (add_mset p (add_mset q {#})) h2" using leaf(2) by (simp add: add_mset_commute)
      have "1 \<le> node_height n2"
        using seq_okD(4) [OF ok2 n2(1)] node_height_pos [of "seq_nodes h2" n2] by simp
      then have "node_height \<lparr>sn_refcount = int 1, sn_count = int (length vs), sn_body = LeafSeqNode vs\<rparr> < node_height n2 + 1"
        by (simp add: node_height_def)
      note new = concat_node_ok [where c = 0, OF ok2 rope_keeps [OF p(2) keep] leaf(5) n2(1) leaf(6) _ this]
      let ?new = "new_node \<lparr>sn_refcount = int 0, sn_count = int (length (concat ls)) + int (length vs),
          sn_body = ConcatSeqNode p q (node_height n2 + 1)\<rparr> h2"
      have "simulates (Some (store_copy f (Inr (fst ?new, snd ?new)))) (Inr (A(f \<mapsto> Some (ls @ [vs]))))"
        using True valid leaf(4)
        by (intro store_copy_ok [OF rep new(1) keeps_trans [OF keep new(2)] _ _ new(4)]) (auto simp: new(3))
      moreover have "append_node (Some p) vs h = Inr ?new" using step True by simp
      ultimately show ?thesis using some node True by (simp add: deref_def)
    next
      case False
      then have "append_node (Some p) vs h = Inl UndefinedBehaviour" using step by (simp add: checked_int_def)
      then show ?thesis using some node False by (simp add: deref_def store_copy_def)
    qed
qed


lemma extend_simulates:
  assumes rep: "represents h A" and valid: "valid_call E (ExtendSeq r other f) A"
  shows "simulates (seq_step E (ExtendSeq r other f) h) (seq_spec E (ExtendSeq r other f) A)"
proof (rule abs_cases [of A r])
  assume none: "A r = None"
  then have "seq_refs h r = None" using representsD(2) [OF rep, of r] by simp
  then show ?thesis using none by (simp add: seq_getNode_def deref_def store_copy_def)
next
  assume empty: "A r = Some None"
  then have "seq_refs h r = Some None" using representsD(3) [OF rep, of r] by simp
  then show ?thesis using empty by (simp add: seq_getNode_def extend_node_def store_copy_def)
next
  fix ls assume some: "A r = Some (Some ls)"
  obtain p n where p: "seq_refs h r = Some (Some p)" "rope (seq_nodes h) p ls" "seq_nodes h p = Some n"
      "sn_count n = int (length (concat ls))" "length (concat ls) < 2 ^ 31"
    using representsD(5) [OF rep some] by blast
  let ?h1 = "set_refcount p (sn_refcount n + 1) h"
  note inc = increment_ok [OF representsD(1) [OF rep] p(3), simplified]
  have node: "seq_getNode r h = Inr (Some p)" using p(1) by (simp add: seq_getNode_def)
  show ?thesis
  proof (rule abs_cases [of A other])
    assume none: "A other = None"
    then have "seq_refs h other = None" using representsD(2) [OF rep, of other] by simp
    then show ?thesis using none some node inc(1) by (simp add: extend_node_def seq_getNode_def deref_def store_copy_def)
  next
    assume empty: "A other = Some None"
    then have "seq_refs h other = Some None" using representsD(3) [OF rep, of other] by simp
    then show ?thesis using empty some node inc(1) by (simp add: extend_node_def seq_getNode_def deref_def store_copy_def)
  next
    fix ls' assume some': "A other = Some (Some ls')"
    obtain q m where q: "seq_refs h other = Some (Some q)" "rope (seq_nodes h) q ls'" "seq_nodes h q = Some m"
        "sn_count m = int (length (concat ls'))" "length (concat ls') < 2 ^ 31"
      using representsD(5) [OF rep some'] by blast
    obtain m1 where m1: "seq_nodes ?h1 q = Some m1" "same_node m m1" using keepsD [OF keeps_set_refcount q(3)] by blast
    let ?h2 = "set_refcount q (sn_refcount m1 + 1) ?h1"
    note inc2 = increment_ok [OF inc(2) m1(1), simplified]
    have keep: "keeps_nodes (seq_nodes h) (seq_nodes ?h2)" by (rule keeps_trans [OF keeps_set_refcount keeps_set_refcount])
    obtain n2 m2 where n2: "seq_nodes ?h2 p = Some n2" "same_node n n2" "seq_nodes ?h2 q = Some m2" "same_node m m2"
      using keepsD [OF keep p(3)] keepsD [OF keep q(3)] by blast
    let ?H = "max (node_height n2) (node_height m2) + 1"
    have other: "seq_getNode other ?h1 = Inr (Some q)" using q(1) by (simp add: seq_getNode_def)
    have step: "extend_node (Some p) other h =
        then_do (checked_int (int (length (concat ls)) + int (length (concat ls')))) (\<lambda>count.
          Inr (new_node \<lparr>sn_refcount = 1, sn_count = count, sn_body = ConcatSeqNode p q ?H\<rparr> ?h2))"
      using inc(1) inc2(1) other n2 p(4) q(4)
      by (simp add: extend_node_def concat_nodes_def then_do_def same_node_def split: sum.splits)
    show ?thesis
    proof (cases "length (concat ls) + length (concat ls') < 2 ^ 31")
      case True
      let ?new = "new_node \<lparr>sn_refcount = int 1, sn_count = int (length (concat ls)) + int (length (concat ls')),
          sn_body = ConcatSeqNode p q ?H\<rparr> ?h2"
      have ok2: "seq_ok {} (add_mset p (add_mset q {#})) ?h2" using inc2(2) by (simp add: add_mset_commute)
      note new = concat_node_ok [where c = 1 and H = ?H, OF ok2 rope_keeps [OF p(2) keep] rope_keeps [OF q(2) keep] n2(1,3)
          _ _ refl]
      have "simulates (Some (store_copy f (Inr (fst ?new, snd ?new)))) (Inr (A(f \<mapsto> Some (ls @ ls'))))"
        using True valid
        by (intro store_copy_ok [OF rep new(1) keeps_trans [OF keep new(2)] _ _ new(4)]) (auto simp: new(3))
      moreover have "extend_node (Some p) other h = Inr ?new" using step True by simp
      ultimately show ?thesis using some some' node True by (simp add: deref_def)
    next
      case False
      then have "extend_node (Some p) other h = Inl UndefinedBehaviour" using step by (simp add: checked_int_def)
      then show ?thesis using some some' node False by (simp add: deref_def store_copy_def)
    qed
  qed
qed

lemma drop_simulates:
  assumes rep: "represents h A"
  shows "simulates (seq_step E (DropSeq r) h) (seq_spec E (DropSeq r) A)"
proof (rule abs_cases [of A r])
  assume none: "A r = None"
  then have "seq_refs h r = None" using representsD(2) [OF rep, of r] by simp
  then show ?thesis using none by (simp add: destroy_seq_def seq_getNode_def deref_def)
next
  assume empty: "A r = Some None"
  then have r: "seq_refs h r = Some None" using representsD(3) [OF rep, of r] by simp
  have "rooted ((seq_refs h)(r := None)) = rooted (seq_refs h)"
    using rooted_split [of "seq_refs h" r] seq_okD(2) [OF representsD(1) [OF rep]] r by simp
  then have "seq_ok {} {#} (h\<lparr>seq_refs := (seq_refs h)(r := None)\<rparr>)"
    using representsD(1) [OF rep] unfolding seq_ok_def by simp
  then have "represents (h\<lparr>seq_refs := (seq_refs h)(r := None)\<rparr>) (A(r := None))"
    unfolding represents_def
    by (auto split: option.splits simp: representsD(2,3) [OF rep] dest: representsD(4) [OF rep])
  then show ?thesis using empty r by (simp add: destroy_seq_def seq_getNode_def deref_def)
next
  fix ls assume some: "A r = Some (Some ls)"
  obtain p n where p: "seq_refs h r = Some (Some p)" "seq_nodes h p = Some n"
    using representsD(5) [OF rep some] by blast
  let ?h = "h\<lparr>seq_refs := (seq_refs h)(r := None)\<rparr>"
  note ok = representsD(1) [OF rep]
  have "rooted (seq_refs h) = add_mset p (rooted ((seq_refs h)(r := None)))"
    using rooted_split [OF seq_okD(2) [OF ok], of r] p by simp
  then have "seq_ok {} (add_mset p {#}) ?h" using ok unfolding seq_ok_def by simp
  then obtain h' where h': "seq_free_node p ?h = Some (Inr h')" "seq_ok {} {#} h'" "seq_refs h' = (seq_refs h)(r := None)"
      "keeps_nodes (seq_nodes h') (seq_nodes h)"
    using free_node_ok [of "{}" p "{#}" ?h n] p(2) by auto
  have "represents h' (A(r := None))"
    unfolding represents_def
  proof (intro conjI allI)
    fix s
    show "case seq_refs h' s of None \<Rightarrow> (A(r := None)) s = None | Some None \<Rightarrow> (A(r := None)) s = Some None
        | Some (Some q) \<Rightarrow> (\<exists>ls. rope (seq_nodes h') q ls \<and> (A(r := None)) s = Some (Some ls))"
    proof (cases "s = r")
      case False
      have "\<exists>ls. rope (seq_nodes h') q ls \<and> A s = Some (Some ls)" if q: "seq_refs h s = Some (Some q)" for q
      proof -
        have "seq_refs h' s = Some (Some q)" using q h'(3) False by simp
        then have "q \<in># rooted (seq_refs h')"
          using rooted_split [OF seq_okD(2) [OF h'(2)], of s] by simp
        then obtain m where "seq_nodes h' q = Some m" using held_live [OF h'(2), of q] by auto
        then obtain ks where "rope (seq_nodes h') q ks" using live_rope [OF h'(2)] by blast
        moreover obtain js where "A s = Some (Some js)" "rope (seq_nodes h) q js" using representsD(4) [OF rep q] by blast
        moreover have "rope (seq_nodes h) q ks" using rope_keeps [OF calculation(1) h'(4)] .
        ultimately show ?thesis using rope_unique by metis
      qed
      then show ?thesis using False h'(3) representsD(2,3) [OF rep, of s] by (auto split: option.splits)
    qed (simp add: h'(3))
  qed (rule h'(2))
  then show ?thesis using some p h'(1) by (simp add: destroy_seq_def seq_getNode_def deref_def)
qed


lemma slice_simulates_at:
  assumes rep: "represents h A" and some: "A r = Some (Some ls)" and fresh: "f \<notin> dom A"
    and p: "seq_refs h r = Some (Some p)" "rope (seq_nodes h) p ls" and len: "length (concat ls) < 2 ^ 31" "s + l \<le> length (concat ls)"
  shows "simulates (run_bind (slice_node p (int s) (int l) h) (\<lambda>(q, h1). Some (then_do (increment q h1)
    (\<lambda>(_, h2). store_copy f (Inr (q, h2)))))) (spec_slice A ls s l f)"
proof -
  note ok = slice_node_ok [OF p(2) keeps_refl representsD(1) [OF rep] len(2,1)]
  show ?thesis
  proof (cases "slice_leaves ls s l")
    case None
    then show ?thesis using ok by (simp add: spec_slice_def)
  next
    case (Some ws)
    then obtain q h1 where q: "slice_node p (int s) (int l) h = Some (Inr (q, h1))" "seq_ok {} {#} h1"
        "keeps_nodes (seq_nodes h) (seq_nodes h1)" "seq_refs h1 = seq_refs h" "rope (seq_nodes h1) q ws"
      using ok by auto
    obtain n where n: "seq_nodes h1 q = Some n" using rope_count [OF q(5)] by blast
    note inc = increment_ok [OF q(2) n, simplified]
    have "simulates (Some (store_copy f (Inr (q, set_refcount q (sn_refcount n + 1) h1)))) (Inr (A(f \<mapsto> Some ws)))"
      using rope_keeps [OF q(5) keeps_set_refcount] keeps_trans [OF q(3) keeps_set_refcount] q(4)
      by (intro store_copy_ok [OF rep inc(2) _ _ fresh]) simp_all
    then show ?thesis using q(1) inc(1) Some by (simp add: spec_slice_def)
  qed
qed

lemma sliced_bind:
  "run_bind (run_bind r (\<lambda>qh. Some (Inr (Some (fst qh), snd qh))))
      (\<lambda>(node, h1). Some (case node of None \<Rightarrow> Inr h1 | Some p \<Rightarrow> G p h1)) =
    run_bind r (\<lambda>(q, h1). Some (G q h1))"
  by (cases r; simp; rename_tac x, case_tac x) auto

lemma slice_simulates:
  assumes rep: "represents h A" and valid: "valid_call E (SliceSeq r start len f) A"
  shows "simulates (seq_step E (SliceSeq r start len f) h) (seq_spec E (SliceSeq r start len f) A)"
proof (rule abs_cases [of A r])
  assume none: "A r = None"
  then have "seq_refs h r = None" using representsD(2) [OF rep, of r] by simp
  then show ?thesis using none by (simp add: seq_getNode_def deref_def)
next
  assume empty: "A r = Some None"
  then have "seq_refs h r = Some None" using representsD(3) [OF rep, of r] by simp
  then show ?thesis using empty rep by (simp add: seq_getNode_def seqSlice_def)
next
  fix ls assume some: "A r = Some (Some ls)"
  let ?get = "getI64 (ne_lib E) (ne_objects E)" and ?n = "length (concat ls)"
  obtain p n where p: "seq_refs h r = Some (Some p)" "rope (seq_nodes h) p ls" "seq_nodes h p = Some n"
      "sn_count n = int ?n" "?n < 2 ^ 31"
    using representsD(5) [OF rep some] by blast
  have node: "seq_getNode r h = Inr (Some p)" using p(1) by (simp add: seq_getNode_def)
  consider (start) "?get start = None" | (len) sw where "?get start = Some sw" "?get len = None"
    | (both) sw lw where "?get start = Some sw" "?get len = Some lw" by (cases "?get start"; cases "?get len") auto
  then show ?thesis
  proof cases
    case both
    have l: "0 \<le> sint lw" "sint sw + sint lw < 2 ^ 63" using valid both by auto
    have fresh: "f \<notin> dom A" using valid by simp
    note at = slice_simulates_at [OF rep some fresh p(1,2,5)]
    have small: "narrow_int (int k) = int k" if "k \<le> ?n" for k using that p(5) by (intro narrow_int_simp) auto
    define l' where "l' = nat (sint lw)"
    have l': "sint lw = int l'" using l by (simp add: l'_def)
    consider (all) "sint sw < 0" "?n \<le> l'" | (last) "sint sw < 0" "l' < ?n" | (beyond) "0 \<le> sint sw" "int ?n \<le> sint sw"
      | (first) "0 \<le> sint sw" "sint sw < int ?n" by linarith
    then show ?thesis
    proof cases
      case all
      have "seq_step E (SliceSeq r start len f) h =
          Some (then_do (increment p h) (\<lambda>(_, h2). store_copy f (Inr (p, h2))))"
        using node both p(3,4) all l' by (simp add: seqSlice_def)
      moreover have "simulates (Some (then_do (increment p h) (\<lambda>(_, h2). store_copy f (Inr (p, h2))))) (Inr (A(f \<mapsto> Some ls)))"
        using increment_ok [OF representsD(1) [OF rep] p(3)] rope_keeps [OF p(2) keeps_set_refcount]
        by (auto intro!: store_copy_ok [OF rep _ _ _ fresh])
      ultimately show ?thesis using some both all l' by (simp add: deref_def)
    next
      case last
      define s where "s = ?n - l'"
      have s: "int ?n - int l' = int s" "s + l' \<le> ?n" "s \<le> ?n" "l' \<le> ?n" using last by (auto simp: s_def)
      have "checked_int64 (int s) = Inr (int s)" using s p(5) by (intro checked_int64_simp) auto
      then have "seq_step E (SliceSeq r start len f) h = run_bind (slice_node p (int s) (int l') h)
          (\<lambda>(q, h1). Some (then_do (increment q h1) (\<lambda>(_, h2). store_copy f (Inr (q, h2)))))"
        using node both p(3,4) last l' s small
        by (simp add: seqSlice_def sliced_bind)
      then show ?thesis using at [OF s(2)] some both last l' s_def by (simp add: deref_def)
    next
      case beyond
      then have "?n \<le> nat (sint sw)" by linarith
      then show ?thesis using beyond node both p(3,4) l' some rep by (simp add: seqSlice_def deref_def Let_def)
    next
      case first
      define s where "s = nat (sint sw)"
      define k where "k = min l' (?n - s)"
      have s: "sint sw = int s" "s < ?n" using first by (auto simp: s_def)
      have k: "s + k \<le> ?n" "k \<le> ?n" "s \<le> ?n" using s by (auto simp: k_def)
      have "checked_int64 (int s + int l') = Inr (int s + int l')" using l s l' by (intro checked_int64_simp) auto
      moreover have "(if int ?n \<le> int s + int l' then int ?n - int s else int l') = int k" using s by (auto simp: k_def)
      ultimately have "seq_step E (SliceSeq r start len f) h = run_bind (slice_node p (int s) (int k) h)
          (\<lambda>(q, h1). Some (then_do (increment q h1) (\<lambda>(_, h2). store_copy f (Inr (q, h2)))))"
        using node both p(3,4) first l' s small k
        by (cases "int ?n \<le> int s + int l'"; simp add: seqSlice_def sliced_bind)
      then show ?thesis using at [OF k(1)] some both s k l' by (simp add: deref_def k_def)
    qed
  qed (use node p some in \<open>simp_all add: seqSlice_def deref_def\<close>)
qed


lemma step_simulates:
  "represents h A \<Longrightarrow> valid_call E c A \<Longrightarrow> simulates (seq_step E c h) (seq_spec E c A)"
  by (cases c) (simp_all only: new_seq_simulates append_simulates extend_simulates slice_simulates drop_simulates)

subsection \<open>Reading and iterating\<close>

lemma seqGet_ok:
  assumes "represents h A" "A r = Some m"
  shows "\<exists>m_node. seq_getNode r h = Inr m_node \<and>
    numElements m_node h = Inr (int (length (case m of None \<Rightarrow> [] | Some ls \<Rightarrow> concat ls))) \<and>
    (\<forall>index w. getI64 (ne_lib E) (ne_objects E) index = Some w \<longrightarrow>
      (let xs = (case m of None \<Rightarrow> [] | Some ls \<Rightarrow> concat ls);
           i = (if sint w < 0 then int (length xs) + sint w else sint w)
       in seqGet E h m_node index = Some (Inr (if 0 \<le> i \<and> i < int (length xs) then xs ! nat i else empty_operand))))"
proof (cases m)
  case None
  then have "seq_refs h r = Some None" using representsD(3) [OF assms(1), of r] assms(2) by simp
  then show ?thesis using None by (auto simp: seqGet_def seq_getNode_def numElements_def)
next
  case (Some ls)
  then obtain p n where p: "seq_refs h r = Some (Some p)" "rope (seq_nodes h) p ls" "seq_nodes h p = Some n"
      "sn_count n = int (length (concat ls))"
    using representsD(5) [OF assms(1), of r ls] assms(2) by auto
  have "seq_find h p i = Some (Inr (concat ls ! nat i))" if "0 \<le> i" "i < int (length (concat ls))" for i
    using seq_find_ok [OF p(2), of i] that by simp
  then show ?thesis using p Some
    by (intro exI [of _ "Some p"]) (auto simp: seqGet_def seq_getNode_def Let_def numElements_def)
qed

fun seq_collect :: "native_env \<Rightarrow> seq_heap \<Rightarrow> nat \<Rightarrow> seq_iterator \<Rightarrow> (failure + operand list) option" where
  "seq_collect E h 0 it = None"
| "seq_collect E h (Suc fuel) it =
    run_bind (seq_iteratorNext E h it) (\<lambda>((found, v), it').
      if found then run_bind (seq_collect E h fuel it') (\<lambda>vs. Some (Inr (v # vs))) else Some (Inr []))"

lemma collect_from:
  assumes "represents h A" "A r = Some m" "endian (ne_lib E)" "length (ne_garbage E) = 8"
    and "xs = (case m of None \<Rightarrow> [] | Some ls \<Rightarrow> concat ls)" "length xs < 2 ^ 31"
  shows "k \<le> length xs \<Longrightarrow> length xs - k < fuel \<Longrightarrow>
    seq_collect E h fuel \<lparr>si_curr = k, si_size = length xs, si_seq = Some r\<rparr> = Some (Inr (drop k xs))"
proof (induction fuel arbitrary: k)
  case (Suc fuel)
  obtain m_node where node: "seq_getNode r h = Inr m_node" "\<And>index w. getI64 (ne_lib E) (ne_objects E) index = Some w \<Longrightarrow>
      (let i = (if sint w < 0 then int (length xs) + sint w else sint w)
       in seqGet E h m_node index = Some (Inr (if 0 \<le> i \<and> i < int (length xs) then xs ! nat i else empty_operand)))"
    using seqGet_ok [OF assms(1,2), of E] assms(5) by (auto simp: Let_def)
  show ?case
  proof (cases "k < length xs")
    case True
    have "sint (word_of_int (int k) :: u64) = int k" using True assms(6)
      by (simp only: sint_sbintrunc') (simp add: signed_take_bit_int_eq_self)
    then have k: "sint (word_of_nat k :: u64) = int k" by simp
    then have "getI64 (ne_lib E) (ne_objects E) (fromI64 (ne_lib E) (ne_garbage E) (word_of_nat k)) = Some (word_of_nat k)"
      using endian.getI64_fromI64 [OF assms(3,4), of "ne_objects E" "word_of_nat k"] True assms(6) by simp
    from node(2) [OF this] have "seqGet E h m_node (fromI64 (ne_lib E) (ne_garbage E) (word_of_nat k)) = Some (Inr (xs ! k))"
      using True k by (simp add: Let_def)
    then have "seq_iteratorNext E h \<lparr>si_curr = k, si_size = length xs, si_seq = Some r\<rparr> =
        Some (Inr ((True, xs ! k), \<lparr>si_curr = Suc k, si_size = length xs, si_seq = Some r\<rparr>))"
      using True node(1) by (simp add: seq_iteratorNext_def)
    then show ?thesis using Suc True Cons_nth_drop_Suc [OF True] by simp
  qed (use Suc.prems in \<open>simp add: seq_iteratorNext_def\<close>)
qed simp

subsection \<open>Sequences of operations\<close>

text \<open>They run up to the first that fails.\<close>

fun seq_run :: "native_env \<Rightarrow> seq_call list \<Rightarrow> seq_heap \<Rightarrow> (failure + seq_heap) option" where
  "seq_run E [] h = Some (Inr h)"
| "seq_run E (c # cs) h = run_bind (seq_step E c h) (seq_run E cs)"

fun spec_run :: "native_env \<Rightarrow> seq_call list \<Rightarrow> seq_abs \<Rightarrow> failure + seq_abs" where
  "spec_run E [] A = Inr A"
| "spec_run E (c # cs) A = then_do (seq_spec E c A) (spec_run E cs)"

fun valid_calls :: "native_env \<Rightarrow> seq_call list \<Rightarrow> seq_abs \<Rightarrow> bool" where
  "valid_calls E [] A \<longleftrightarrow> True"
| "valid_calls E (c # cs) A \<longleftrightarrow> valid_call E c A \<and> (case seq_spec E c A of Inl e \<Rightarrow> True | Inr A' \<Rightarrow> valid_calls E cs A')"

definition empty_store :: seq_heap where
  "empty_store = \<lparr>seq_nodes = Map.empty, seq_next = 0, seq_refs = Map.empty, seq_iters = Map.empty\<rparr>"

lemma empty_represents: "represents empty_store Map.empty"
  by (simp add: represents_def seq_ok_def empty_store_def owned_def rooted_def)

lemma run_simulates: "represents h A \<Longrightarrow> valid_calls E cs A \<Longrightarrow> simulates (seq_run E cs h) (spec_run E cs A)"
proof (induction cs arbitrary: h A)
  case (Cons c cs)
  then have step: "simulates (seq_step E c h) (seq_spec E c A)" by (auto intro: step_simulates)
  show ?case
  proof (cases "seq_spec E c A")
    case (Inr A')
    then obtain h' where "seq_step E c h = Some (Inr h')" "represents h' A'" using step by (auto simp: simulates_def)
    then show ?thesis using Cons Inr by simp
  qed (use step in \<open>simp add: simulates_def\<close>)
qed simp

text \<open>C3. The store of sequences refines lists: from the empty store every sequence of valid operations
  (construction, append, extend, slice, destruction) returns, fails exactly when and as the operations
  on lists fail, and leaves a store whose sequences hold those lists, whose counters cover all
  references, and in which no reference dangles.\<close>

theorem sequences_refine_lists:
  assumes "valid_calls E cs Map.empty"
  shows "case spec_run E cs Map.empty of
      Inl e \<Rightarrow> seq_run E cs empty_store = Some (Inl e)
    | Inr A \<Rightarrow> \<exists>h. seq_run E cs empty_store = Some (Inr h) \<and> seq_ok {} {#} h \<and> represents h A"
  using run_simulates [OF empty_represents assms] by (auto simp: simulates_def representsD(1) split: sum.splits)

definition native_sample :: native_env where
  "native_sample = \<lparr>ne_lib = little_endian_lib, ne_objects = no_objects, ne_garbage = replicate 8 0,
     ne_resolve_class = (\<lambda>_. Inr ())\<rparr>"

definition sample_value :: "u8 \<Rightarrow> operand" where
  "sample_value b = fromI8 (replicate 8 0) b"

definition sample_calls :: "seq_call list" where
  "sample_calls = [NewSeq 8 [sample_value 1], AppendSeq 8 [sample_value 2, sample_value 3] 16, DropSeq 8]"

theorem sequences_refine_lists_witness:
  "\<exists>h. seq_run native_sample sample_calls empty_store = Some (Inr h) \<and> seq_ok {} {#} h \<and>
    represents h [16 \<mapsto> Some [[sample_value 1], [sample_value 2, sample_value 3]]]"
proof -
  have "valid_calls native_sample sample_calls Map.empty" by (simp add: sample_calls_def deref_def)
  moreover have "spec_run native_sample sample_calls Map.empty =
      Inr [16 \<mapsto> Some [[sample_value 1], [sample_value 2, sample_value 3]]]"
    by (simp add: sample_calls_def deref_def fun_upd_def fun_eq_iff)
  ultimately show ?thesis using sequences_refine_lists [of native_sample sample_calls] by simp
qed

lemma sample_represents:
  "\<exists>h. represents h [16 \<mapsto> Some [[sample_value 1], [sample_value 2, sample_value 3]]]"
  using run_simulates [OF empty_represents, of native_sample sample_calls]
  by (simp add: sample_calls_def deref_def simulates_def fun_upd_twist [of 8 16]) (auto simp: fun_upd_def)

text \<open>Iterating over a sequence gives the elements of its list in order and ends, in a little more steps than
  it has elements.\<close>

theorem iteration_reads_all:
  assumes "represents h A" "A r = Some m" "endian (ne_lib E)" "length (ne_garbage E) = 8"
    and "xs = (case m of None \<Rightarrow> [] | Some ls \<Rightarrow> concat ls)" "length xs < fuel"
  shows "\<exists>it. make_seq_iterator r h = Inr it \<and> seq_collect E h fuel it = Some (Inr xs)"
proof -
  have "length xs < 2 ^ 31"
    using representsD(5) [OF assms(1)] assms(2) by (cases m) (auto simp: assms(5))
  then show ?thesis
    using collect_from [OF assms(1-5), of 0 fuel] seqGet_ok [OF assms(1,2), of E] assms(6)
    by (auto simp: make_seq_iterator_def assms(5))
qed

theorem iteration_reads_all_witness:
  "\<exists>h it. make_seq_iterator 16 h = Inr it \<and>
    seq_collect native_sample h 4 it = Some (Inr [sample_value 1, sample_value 2, sample_value 3])"
proof -
  obtain h where h: "represents h [16 \<mapsto> Some [[sample_value 1], [sample_value 2, sample_value 3]]]"
    using sample_represents by blast
  from iteration_reads_all [OF h _ _ _ refl, of 16 "Some [[sample_value 1], [sample_value 2, sample_value 3]]" native_sample 4]
  show ?thesis using endian_little by (auto simp: native_sample_def)
qed

lemma parts_aligned: "\<exists>ws. parts (bs @ cs) 0 (length (concat bs)) = Some ws \<and> concat ws = concat bs"
proof (induction bs)
  case (Cons v bs)
  then obtain ws where "parts (bs @ cs) 0 (length (concat bs)) = Some ws" "concat ws = concat bs" by blast
  then show ?case by (cases v) (auto simp: piece_def Let_def)
qed simp

lemma slice_aligned:
  "\<exists>ws. slice_leaves (as @ bs @ cs) (length (concat as)) (length (concat bs)) = Some ws \<and> concat ws = concat bs"
  using parts_aligned [of bs cs] by (auto simp: slice_leaves_def parts_right)

text \<open>C26. A slice of a sequence that starts and ends between two of its arrays is that part of the list. A
  proper part of a single array is wrong: it repeats the element after its first one, and the code
  reads out of bounds when there is no such element.\<close>

theorem slice_contents:
  assumes "represents h A" "seq_refs h r = Some (Some p)"
  shows "(A r = Some (Some (as @ bs @ cs)) \<longrightarrow>
      (\<exists>q h' ws. slice_node p (int (length (concat as))) (int (length (concat bs))) h = Some (Inr (q, h')) \<and>
        rope (seq_nodes h') q ws \<and> concat ws = concat bs)) \<and>
    (A r = Some (Some [vs]) \<longrightarrow> s + l \<le> length vs \<longrightarrow> 0 < l \<longrightarrow> l < length vs \<longrightarrow>
      (if s + 1 < length vs
       then \<exists>q h' ws. slice_node p (int s) (int l) h = Some (Inr (q, h')) \<and>
         rope (seq_nodes h') q ws \<and> concat ws = replicate l (vs ! (s + 1))
       else slice_node p (int s) (int l) h = Some (Inl UndefinedBehaviour)))"
proof -
  have slice: "case slice_leaves ls s l of None \<Rightarrow> slice_node p (int s) (int l) h = Some (Inl UndefinedBehaviour)
      | Some ws \<Rightarrow> \<exists>q h'. slice_node p (int s) (int l) h = Some (Inr (q, h')) \<and> rope (seq_nodes h') q ws"
    if "A r = Some (Some ls)" "s + l \<le> length (concat ls)" for ls s l
  proof -
    have "rope (seq_nodes h) p ls" "length (concat ls) < 2 ^ 31"
      using representsD(5) [OF assms(1) that(1)] assms(2) by auto
    from slice_node_ok [OF this(1) keeps_refl representsD(1) [OF assms(1)] that(2) this(2)]
    show ?thesis by (auto split: option.splits)
  qed
  show ?thesis
  proof (intro conjI impI)
    assume "A r = Some (Some (as @ bs @ cs))"
    moreover obtain ws where "slice_leaves (as @ bs @ cs) (length (concat as)) (length (concat bs)) = Some ws" "concat ws = concat bs"
      using slice_aligned by blast
    ultimately show "\<exists>q h' ws. slice_node p (int (length (concat as))) (int (length (concat bs))) h = Some (Inr (q, h')) \<and>
        rope (seq_nodes h') q ws \<and> concat ws = concat bs"
      using slice [of "as @ bs @ cs" "length (concat as)" "length (concat bs)"] by auto
  next
    assume "A r = Some (Some [vs])" "s + l \<le> length vs" "0 < l" "l < length vs"
    then show "if s + 1 < length vs
       then \<exists>q h' ws. slice_node p (int s) (int l) h = Some (Inr (q, h')) \<and>
         rope (seq_nodes h') q ws \<and> concat ws = replicate l (vs ! (s + 1))
       else slice_node p (int s) (int l) h = Some (Inl UndefinedBehaviour)"
      using slice [of "[vs]" s l] by (auto simp: slice_leaves_def piece_def min_def intro!: exI [of _ "[replicate l (vs ! Suc s)]"] split: if_splits)
  qed
qed

theorem slice_contents_witness:
  "\<exists>h p q h' ws. represents h [8 \<mapsto> Some [map sample_value [1, 2, 3]]] \<and> seq_refs h 8 = Some (Some p) \<and>
    slice_node p 0 2 h = Some (Inr (q, h')) \<and> rope (seq_nodes h') q ws \<and> concat ws = [sample_value 2, sample_value 2]"
proof -
  obtain h where h: "represents h [8 \<mapsto> Some [map sample_value [1, 2, 3]]]"
    using run_simulates [OF empty_represents, of native_sample "[NewSeq 8 (map sample_value [1, 2, 3])]"]
    by (auto simp: simulates_def)
  then obtain p where p: "seq_refs h 8 = Some (Some p)" using representsD(5) [OF h, of 8] by auto
  show ?thesis using h p slice_contents [OF h p, of _ _ _ "map sample_value [1, 2, 3]" 0 2]
    by (auto simp: numeral_2_eq_2)
qed

end
