(* ===== verification/Maps.thy ===== *)
theory Maps
  imports Native
begin

text \<open>
  The type \<open>Map\<close> of the prelude (\<open>lyric_bootstrap/plugin/map_ref.h\<close>, \<open>map_ref.cpp\<close>, \<open>map_key.h\<close>):
  persistent hash tries. An index node has a slot for every value of four bits of the hash of a
  key; the hash is used up from the top and computed anew every eight levels. Maps share nodes,
  which count the references to them, and an update copies the path to the slot it changes.

  The store is that of sequences with other nodes. A value node keeps the hash of its key as it was
  shifted on the way down, and some operations change that field of a node that they share.

  The hash of \<open>absl\<close> is a parameter, as are the virtual tables of references and what pairs hold.
\<close>

datatype map_body =
    ValueMapNode operand operand u32
  | IndexMapNode "nat option list"

record map_node =
  mn_refcount :: int
  mn_body :: map_body

record map_iterator =
  mi_stack :: "(nat \<times> int) list"
  mi_map :: "u64 option"

record map_heap =
  map_nodes :: "nat \<rightharpoonup> map_node"
  map_next :: nat
  map_refs :: "u64 \<rightharpoonup> nat option"
  map_iters :: "u64 \<rightharpoonup> map_iterator"

record map_env = native_env +
  me_vtable :: "u64 \<Rightarrow> u64"
  me_pair :: "u64 \<Rightarrow> operand \<times> operand"
  me_hash :: "operand \<Rightarrow> u32"
  me_rehash :: "operand \<Rightarrow> nat \<Rightarrow> u32"

subsection \<open>Keys\<close>

text \<open>The assertions that a reference has a pointer hold: a pointer operand is never null.\<close>

definition key_equal :: "map_env \<Rightarrow> operand \<Rightarrow> operand \<Rightarrow> bool" where
  "key_equal E a b =
    (if getType a \<noteq> getType b then False
     else case getType a of
       TyRef \<Rightarrow> values_equal (\<lambda>l r. me_vtable E l = me_vtable E r \<and> equals_of (ne_objects E) l r)
         (getRef (ne_lib E) a) (getRef (ne_lib E) b)
     | TyString \<Rightarrow> values_equal (equals_of (ne_objects E)) (getString (ne_lib E) a) (getString (ne_lib E) b)
     | TyBytes \<Rightarrow> values_equal (equals_of (ne_objects E)) (getBytesRef (ne_lib E) a) (getBytesRef (ne_lib E) b)
     | _ \<Rightarrow> values_match (ne_lib E) (ne_objects E) a b)"

definition BITS_PER_LEVEL :: nat where
  "BITS_PER_LEVEL = 4"

definition slot_of :: "u32 \<Rightarrow> nat" where
  "slot_of hash = unat (drop_bit (32 - BITS_PER_LEVEL) hash)"

definition shifted :: "u32 \<Rightarrow> u32" where
  "shifted hash = push_bit BITS_PER_LEVEL hash"

text \<open>The hash and the bits that remain of it, at a level.\<close>

definition level_hash :: "map_env \<Rightarrow> operand \<Rightarrow> u32 \<Rightarrow> nat \<Rightarrow> nat \<Rightarrow> u32 \<times> nat" where
  "level_hash E key hash bits_remaining level =
    (if bits_remaining < BITS_PER_LEVEL then (me_rehash E key level, 32) else (hash, bits_remaining))"

subsection \<open>Nodes\<close>

definition empty_table :: "nat option list" where
  "empty_table = replicate 16 None"

definition new_map_node :: "map_node \<Rightarrow> map_heap \<Rightarrow> nat \<times> map_heap" where
  "new_map_node n h = (map_next h, h\<lparr>map_nodes := (map_nodes h)(map_next h \<mapsto> n), map_next := map_next h + 1\<rparr>)"

definition new_value :: "int \<Rightarrow> operand \<Rightarrow> operand \<Rightarrow> u32 \<Rightarrow> map_heap \<Rightarrow> nat \<times> map_heap" where
  "new_value c key value hash = new_map_node \<lparr>mn_refcount = c, mn_body = ValueMapNode key value hash\<rparr>"

definition new_index :: "int \<Rightarrow> nat option list \<Rightarrow> map_heap \<Rightarrow> nat \<times> map_heap" where
  "new_index c table = new_map_node \<lparr>mn_refcount = c, mn_body = IndexMapNode table\<rparr>"

definition put_node :: "nat \<Rightarrow> map_node \<Rightarrow> map_heap \<Rightarrow> map_heap" where
  "put_node p n h = h\<lparr>map_nodes := (map_nodes h)(p \<mapsto> n)\<rparr>"

definition set_body :: "nat \<Rightarrow> map_body \<Rightarrow> map_heap \<Rightarrow> failure + map_heap" where
  "set_body p b h = then_do (deref (map_nodes h) p) (\<lambda>n. Inr (put_node p (n\<lparr>mn_body := b\<rparr>) h))"

definition map_increment :: "nat \<Rightarrow> map_heap \<Rightarrow> failure + map_heap" where
  "map_increment p h =
    then_do (deref (map_nodes h) p) (\<lambda>n. Inr (put_node p (n\<lparr>mn_refcount := mn_refcount n + 1\<rparr>) h))"

fun map_increments :: "nat option list \<Rightarrow> map_heap \<Rightarrow> failure + map_heap" where
  "map_increments [] h = Inr h"
| "map_increments (None # cs) h = map_increments cs h"
| "map_increments (Some p # cs) h = then_do (map_increment p h) (map_increments cs)"

definition index_table :: "map_heap \<Rightarrow> nat \<Rightarrow> failure + nat option list" where
  "index_table h p = then_do (deref (map_nodes h) p) (\<lambda>n.
    case mn_body n of IndexMapNode table \<Rightarrow> Inr table | ValueMapNode k v hash \<Rightarrow> Inl UndefinedBehaviour)"

definition value_fields :: "map_heap \<Rightarrow> nat \<Rightarrow> failure + operand \<times> operand \<times> u32" where
  "value_fields h p = then_do (deref (map_nodes h) p) (\<lambda>n.
    case mn_body n of IndexMapNode table \<Rightarrow> Inl UndefinedBehaviour | ValueMapNode k v hash \<Rightarrow> Inr (k, v, hash))"

subsection \<open>Insertion into nodes that are not shared\<close>

text \<open>Replaces a value node by an index node that holds it and a new value. The hash in the previous node
  is not shifted when both values fall into the same slot.\<close>

function mutable_insert ::
  "map_env \<Rightarrow> nat \<Rightarrow> operand \<Rightarrow> operand \<Rightarrow> u32 \<Rightarrow> nat \<Rightarrow> nat \<Rightarrow> map_heap \<Rightarrow> failure + nat \<times> map_heap" where
  "mutable_insert E prev key value hash bits level h =
    (if 32 \<le> level then Inl AssertionFailed
     else then_do (value_fields h prev) (\<lambda>(prev_key, prev_value, prev_hash).
       let (hash', bits') = level_hash E key hash bits level;
           (prev_hash', _) = level_hash E prev_key prev_hash bits level
       in then_do (set_body prev (ValueMapNode prev_key prev_value prev_hash') h) (\<lambda>h1.
         if slot_of hash' \<noteq> slot_of prev_hash' then
           let (node, h2) = new_value 1 key value hash' h1
           in Inr (new_index 1 (empty_table[slot_of prev_hash' := Some prev, slot_of hash' := Some node]) h2)
         else then_do (mutable_insert E prev key value (shifted hash') (bits' - BITS_PER_LEVEL) (level + 1) h1)
           (\<lambda>(child, h2). Inr (new_index 1 (empty_table[slot_of hash' := Some child]) h2)))))"
  by pat_completeness auto

termination by (relation "measure (\<lambda>(E, prev, key, value, hash, bits, level, h). 32 - level)") auto

partial_function (option) map_construct ::
  "map_env \<Rightarrow> nat \<Rightarrow> operand \<Rightarrow> operand \<Rightarrow> u32 \<Rightarrow> nat \<Rightarrow> nat \<Rightarrow> map_heap \<Rightarrow> (failure + map_heap) option" where
  "map_construct E p key value hash bits level h =
    run_bind (Some (index_table h p)) (\<lambda>table.
      let hash' = fst (level_hash E key hash bits level); bits' = snd (level_hash E key hash bits level); i = slot_of hash'
      in case table ! i of
        None \<Rightarrow> Some (let (node, h1) = new_value 1 key value hash' h in set_body p (IndexMapNode (table[i := Some node])) h1)
      | Some child \<Rightarrow> run_bind (Some (deref (map_nodes h) child)) (\<lambda>n.
          case mn_body n of
            ValueMapNode prev_key prev_value prev_hash \<Rightarrow>
              if key_equal E prev_key key then Some (set_body child (ValueMapNode key value hash') h)
              else Some (then_do (set_body child (ValueMapNode prev_key prev_value (shifted prev_hash)) h) (\<lambda>h1.
                then_do (mutable_insert E child key value (shifted hash') (bits' - BITS_PER_LEVEL) (level + 1) h1)
                  (\<lambda>(node, h2). set_body p (IndexMapNode (table[i := Some node])) h2)))
          | IndexMapNode t \<Rightarrow>
              map_construct E child key value (shifted hash') (bits' - BITS_PER_LEVEL) (level + 1) h))"

subsection \<open>Update, removal and search\<close>

text \<open>The slots of the copy: those of the original, whose nodes gain a reference, except one.\<close>

definition copy_slots :: "nat option list \<Rightarrow> nat \<Rightarrow> map_heap \<Rightarrow> failure + map_heap" where
  "copy_slots table i = map_increments (table[i := None])"

partial_function (option) map_update_at ::
  "map_env \<Rightarrow> nat \<Rightarrow> operand \<Rightarrow> operand \<Rightarrow> u32 \<Rightarrow> nat \<Rightarrow> nat \<Rightarrow> map_heap \<Rightarrow> (failure + nat \<times> map_heap) option" where
  "map_update_at E p key value hash bits level h =
    run_bind (Some (index_table h p)) (\<lambda>table.
      let hash' = fst (level_hash E key hash bits level); bits' = snd (level_hash E key hash bits level); i = slot_of hash'
      in run_bind (Some (copy_slots table i h)) (\<lambda>h1.
        case table ! i of
          None \<Rightarrow> Some (Inr (let (node, h2) = new_value 1 key value hash' h1 in new_index 0 (table[i := Some node]) h2))
        | Some child \<Rightarrow> run_bind (Some (deref (map_nodes h1) child)) (\<lambda>n.
            case mn_body n of
              ValueMapNode k v existing_hash \<Rightarrow>
                if key_equal E k key
                then Some (Inr (let (node, h2) = new_value 1 key value hash' h1 in new_index 0 (table[i := Some node]) h2))
                else (let (node, h2) = new_index 1 empty_table h1
                  in run_bind (map_construct E node k v (shifted existing_hash) (bits' - BITS_PER_LEVEL) (level + 1) h2) (\<lambda>h3.
                     run_bind (map_construct E node key value (shifted hash') (bits' - BITS_PER_LEVEL) (level + 1) h3) (\<lambda>h4.
                       Some (Inr (new_index 0 (table[i := Some node]) h4)))))
            | IndexMapNode t \<Rightarrow>
                run_bind (map_update_at E child key value (shifted hash') (bits' - BITS_PER_LEVEL) (level + 1) h1)
                  (\<lambda>nh. Some (Inr (new_index 0 (table[i := Some (fst nh)]) (snd nh)))))))"

partial_function (option) map_remove_at ::
  "map_env \<Rightarrow> nat \<Rightarrow> operand \<Rightarrow> u32 \<Rightarrow> nat \<Rightarrow> nat \<Rightarrow> map_heap \<Rightarrow> (failure + nat option \<times> map_heap) option" where
  "map_remove_at E p key hash bits level h =
    run_bind (Some (index_table h p)) (\<lambda>table.
      let hash' = fst (level_hash E key hash bits level); bits' = snd (level_hash E key hash bits level); i = slot_of hash'
      in case table ! i of
        None \<Rightarrow> Some (Inr (None, h))
      | Some child \<Rightarrow> run_bind (Some (deref (map_nodes h) child)) (\<lambda>n.
          case mn_body n of
            ValueMapNode k v existing_hash \<Rightarrow>
              if \<not> key_equal E k key then Some (Inr (None, h))
              else Some (then_do (copy_slots table i h) (\<lambda>h1.
                let (removed, h2) = new_index 0 (table[i := None]) h1 in Inr (Some removed, h2)))
          | IndexMapNode t \<Rightarrow>
              run_bind (map_remove_at E child key (shifted hash') (bits' - BITS_PER_LEVEL) (level + 1) h) (\<lambda>ch.
                case fst ch of
                  None \<Rightarrow> Some (Inr (None, snd ch))
                | Some c \<Rightarrow> Some (then_do (copy_slots table i (snd ch)) (\<lambda>h1. then_do (map_increment c h1) (\<lambda>h2.
                    let (removed, h3) = new_index 0 (table[i := Some c]) h2 in Inr (Some removed, h3)))))))"

partial_function (option) map_search ::
  "map_env \<Rightarrow> map_heap \<Rightarrow> nat \<Rightarrow> operand \<Rightarrow> u32 \<Rightarrow> nat \<Rightarrow> nat \<Rightarrow> (failure + operand) option" where
  "map_search E h p key hash bits level =
    run_bind (Some (index_table h p)) (\<lambda>table.
      let hash' = fst (level_hash E key hash bits level); bits' = snd (level_hash E key hash bits level)
      in case table ! slot_of hash' of
        None \<Rightarrow> Some (Inr empty_operand)
      | Some child \<Rightarrow> run_bind (Some (deref (map_nodes h) child)) (\<lambda>n.
          case mn_body n of
            ValueMapNode k v existing_hash \<Rightarrow> Some (Inr (if key_equal E k key then v else empty_operand))
          | IndexMapNode t \<Rightarrow> map_search E h child key (shifted hash') (bits' - BITS_PER_LEVEL) (level + 1)))"

text \<open>\<open>size\<close> and \<open>free_node\<close> loop over the slots of a node and recurse into them; here both are one
  recursion over slots.\<close>

partial_function (option) slots_size :: "map_heap \<Rightarrow> nat option list \<Rightarrow> int \<Rightarrow> (failure + int) option" where
  "slots_size h cs count =
    (case cs of
       [] \<Rightarrow> Some (Inr count)
     | s # rest \<Rightarrow>
         (case s of
            None \<Rightarrow> slots_size h rest count
          | Some child \<Rightarrow> run_bind (Some (deref (map_nodes h) child)) (\<lambda>n.
              case mn_body n of
                IndexMapNode table \<Rightarrow> run_bind (slots_size h table count) (slots_size h rest)
              | ValueMapNode k v hash \<Rightarrow> slots_size h rest (count + 1))))"

partial_function (option) free_slots :: "nat option list \<Rightarrow> map_heap \<Rightarrow> (failure + map_heap) option" where
  "free_slots cs h =
    (case cs of
       [] \<Rightarrow> Some (Inr h)
     | s # rest \<Rightarrow>
         (case s of
            None \<Rightarrow> free_slots rest h
          | Some p \<Rightarrow> run_bind (Some (deref (map_nodes h) p)) (\<lambda>n.
              if mn_refcount n - 1 > 0 then free_slots rest (put_node p (n\<lparr>mn_refcount := mn_refcount n - 1\<rparr>) h)
              else run_bind
                (free_slots (case mn_body n of IndexMapNode table \<Rightarrow> table | ValueMapNode k v hash \<Rightarrow> [])
                   (put_node p (n\<lparr>mn_refcount := mn_refcount n - 1\<rparr>) h))
                (\<lambda>h1. free_slots rest (h1\<lparr>map_nodes := (map_nodes h1)(p := None)\<rparr>)))))"

subsection \<open>Maps\<close>

definition allocate_map :: "u64 \<Rightarrow> map_heap \<Rightarrow> map_heap" where
  "allocate_map r h = h\<lparr>map_refs := (map_refs h)(r \<mapsto> None)\<rparr>"

definition map_getNode :: "u64 \<Rightarrow> map_heap \<Rightarrow> failure + nat option" where
  "map_getNode r h = deref (map_refs h) r"

definition map_setNode :: "u64 \<Rightarrow> nat \<Rightarrow> map_heap \<Rightarrow> failure + map_heap" where
  "map_setNode r p h =
    then_do (map_getNode r h) (\<lambda>m_node. then_do (tu_assert (m_node = None))
      (\<lambda>_. map_increment p (h\<lparr>map_refs := (map_refs h)(r \<mapsto> Some p)\<rparr>)))"

definition destroy_map :: "u64 \<Rightarrow> map_heap \<Rightarrow> (failure + map_heap) option" where
  "destroy_map r h =
    run_bind (Some (map_getNode r h)) (\<lambda>m_node.
      let h' = h\<lparr>map_refs := (map_refs h)(r := None)\<rparr>
      in case m_node of None \<Rightarrow> Some (Inr h') | Some p \<Rightarrow> free_slots [Some p] h')"

definition mapSize :: "map_heap \<Rightarrow> nat option \<Rightarrow> (failure + int) option" where
  "mapSize h m_node =
    (case m_node of
       None \<Rightarrow> Some (Inr 0)
     | Some p \<Rightarrow> run_bind (Some (deref (map_nodes h) p)) (\<lambda>n.
         case mn_body n of ValueMapNode k v hash \<Rightarrow> Some (Inr 1) | IndexMapNode table \<Rightarrow> slots_size h table 0))"

definition mapGet :: "map_env \<Rightarrow> map_heap \<Rightarrow> nat option \<Rightarrow> operand \<Rightarrow> (failure + operand) option" where
  "mapGet E h m_node key =
    (case m_node of
       None \<Rightarrow> Some (Inr empty_operand)
     | Some p \<Rightarrow> run_bind (Some (deref (map_nodes h) p)) (\<lambda>n.
         case mn_body n of
           ValueMapNode k v hash \<Rightarrow> Some (Inr (if key_equal E k key then v else empty_operand))
         | IndexMapNode table \<Rightarrow> map_search E h p key (me_hash E key) 32 0))"

definition mapContains :: "map_env \<Rightarrow> map_heap \<Rightarrow> nat option \<Rightarrow> operand \<Rightarrow> (failure + bool) option" where
  "mapContains E h m_node key = run_bind (mapGet E h m_node key) (\<lambda>v. Some (Inr (isValid_operand v)))"

text \<open>A map of one value gains a second one: the node is shared with the new index node, into which the new
  value is then inserted as if it were not.\<close>

definition mapUpdate ::
  "map_env \<Rightarrow> nat option \<Rightarrow> operand \<Rightarrow> operand \<Rightarrow> map_heap \<Rightarrow> (failure + nat \<times> map_heap) option" where
  "mapUpdate E m_node key value h =
    (case m_node of
       None \<Rightarrow> Some (Inr (new_value 0 key value (me_hash E key) h))
     | Some p \<Rightarrow> run_bind (Some (deref (map_nodes h) p)) (\<lambda>n.
         case mn_body n of
           ValueMapNode k v curr_hash \<Rightarrow>
             if key_equal E k key then Some (Inr (new_value 0 key value (me_hash E key) h))
             else run_bind (Some (map_increment p h)) (\<lambda>h1.
               let (node, h2) = new_index 0 (empty_table[slot_of curr_hash := Some p]) h1
               in run_bind (map_construct E node key value (me_hash E key) 32 0 h2) (\<lambda>h3. Some (Inr (node, h3))))
         | IndexMapNode table \<Rightarrow> map_update_at E p key value (me_hash E key) 32 0 h))"

definition mapRemove ::
  "map_env \<Rightarrow> nat option \<Rightarrow> operand \<Rightarrow> map_heap \<Rightarrow> (failure + nat option \<times> map_heap) option" where
  "mapRemove E m_node key h =
    (case m_node of
       None \<Rightarrow> Some (Inr (None, h))
     | Some p \<Rightarrow> run_bind (Some (deref (map_nodes h) p)) (\<lambda>n.
         case mn_body n of
           ValueMapNode k v hash \<Rightarrow>
             if key_equal E k key then Some (Inr (let (node, h1) = new_index 0 empty_table h in (Some node, h1)))
             else Some (Inr (None, h))
         | IndexMapNode table \<Rightarrow> map_remove_at E p key (me_hash E key) 32 0 h))"

fun construct_pairs :: "map_env \<Rightarrow> nat \<Rightarrow> (operand \<times> operand) list \<Rightarrow> map_heap \<Rightarrow> (failure + map_heap) option" where
  "construct_pairs E p [] h = Some (Inr h)"
| "construct_pairs E p ((key, value) # kvs) h =
    run_bind (map_construct E p key value (me_hash E key) 32 0 h) (construct_pairs E p kvs)"

definition construct_map :: "map_env \<Rightarrow> u64 \<Rightarrow> (operand \<times> operand) list \<Rightarrow> map_heap \<Rightarrow> (failure + map_heap) option" where
  "construct_map E r kvs h =
    (if length kvs = 1
     then Some (let (node, h1) = new_value 0 (fst (hd kvs)) (snd (hd kvs)) (me_hash E (fst (hd kvs))) h
       in map_setNode r node h1)
     else let (node, h1) = new_index 0 empty_table h
       in run_bind (construct_pairs E node kvs h1) (\<lambda>h2. Some (map_setNode r node h2)))"

definition map_copy :: "u64 \<Rightarrow> nat \<Rightarrow> map_heap \<Rightarrow> failure + map_heap" where
  "map_copy r p h = map_setNode r p (allocate_map r h)"

subsection \<open>Iterators\<close>

text \<open>The stack holds the path to the next value, its top first.\<close>

fun find_child :: "nat \<Rightarrow> nat option list \<Rightarrow> int" where
  "find_child i [] = - 1"
| "find_child i (None # cs) = find_child (i + 1) cs"
| "find_child i (Some c # cs) = int i"

definition find_valid_index_node_child :: "int \<Rightarrow> nat option list \<Rightarrow> int" where
  "find_valid_index_node_child start table = find_child (nat start) (drop (nat start) table)"

partial_function (option) build_stack ::
  "map_heap \<Rightarrow> nat \<Rightarrow> (nat \<times> int) list \<Rightarrow> (failure + (nat \<times> int) list) option" where
  "build_stack h p stack =
    run_bind (Some (deref (map_nodes h) p)) (\<lambda>n.
      case mn_body n of
        ValueMapNode k v hash \<Rightarrow> Some (Inr ((p, - 1) # stack))
      | IndexMapNode table \<Rightarrow>
          let i = find_valid_index_node_child 0 table
          in if i < 0 then Some (Inl AssertionFailed)
             else case table ! nat i of
               None \<Rightarrow> Some (Inl AssertionFailed)
             | Some child \<Rightarrow> build_stack h child ((p, i) # stack))"

fun update_node_pointer_stack :: "map_heap \<Rightarrow> (nat \<times> int) list \<Rightarrow> (failure + (nat \<times> int) list) option" where
  "update_node_pointer_stack h [] = Some (Inr [])"
| "update_node_pointer_stack h ((p, i) # stack) =
    run_bind (Some (deref (map_nodes h) p)) (\<lambda>n.
      case mn_body n of
        ValueMapNode k v hash \<Rightarrow> Some (Inl AssertionFailed)
      | IndexMapNode table \<Rightarrow>
          let j = find_valid_index_node_child (i + 1) table
          in if j > i then
               (case table ! nat j of None \<Rightarrow> Some (Inl AssertionFailed) | Some child \<Rightarrow> build_stack h child ((p, j) # stack))
             else update_node_pointer_stack h stack)"

definition empty_map_iterator :: map_iterator where
  "empty_map_iterator = \<lparr>mi_stack = [], mi_map = None\<rparr>"

definition make_map_iterator :: "map_heap \<Rightarrow> u64 \<Rightarrow> (failure + map_iterator) option" where
  "make_map_iterator h r =
    run_bind (Some (map_getNode r h)) (\<lambda>m_node.
    run_bind (case m_node of None \<Rightarrow> Some (Inr []) | Some p \<Rightarrow> build_stack h p [])
      (\<lambda>stack. Some (Inr \<lparr>mi_stack = stack, mi_map = Some r\<rparr>)))"

definition map_iteratorValid :: "map_iterator \<Rightarrow> bool" where
  "map_iteratorValid it \<longleftrightarrow> mi_stack it \<noteq> []"

definition map_iteratorNext :: "map_heap \<Rightarrow> map_iterator \<Rightarrow> (failure + (bool \<times> operand) \<times> map_iterator) option" where
  "map_iteratorNext h it =
    (case mi_stack it of
       [] \<Rightarrow> Some (Inr ((False, empty_operand), it))
     | (p, i) # stack \<Rightarrow>
         run_bind (Some (deref (map_nodes h) p)) (\<lambda>n.
           case mn_body n of
             IndexMapNode table \<Rightarrow> Some (Inl AssertionFailed)
           | ValueMapNode k v hash \<Rightarrow>
               run_bind (update_node_pointer_stack h stack) (\<lambda>stack'. Some (Inr ((True, v), it\<lparr>mi_stack := stack'\<rparr>)))))"


subsection \<open>The operations that bytecode calls\<close>

text \<open>As for sequences, \<open>fresh\<close> is the address of the reference that an operation allocates.\<close>

type_synonym map_trap = "stackful_coroutine \<times> map_heap \<Rightarrow> (failure + stackful_coroutine \<times> map_heap) option"

definition map_receiver ::
  "map_env \<Rightarrow> stackful_coroutine \<times> map_heap \<Rightarrow> failure + call_cell \<times> u64 \<times> nat option" where
  "map_receiver E s =
    then_do (current_receiver (native_env.truncate E) (fst s)) (\<lambda>(frame, r).
      then_do (map_getNode r (snd s)) (\<lambda>m_node. Inr (frame, r, m_node)))"

definition map_operand :: "map_env \<Rightarrow> u64 \<Rightarrow> operand" where
  "map_operand E = ref_operand (native_env.truncate E)"

definition pair_argument :: "map_env \<Rightarrow> operand \<Rightarrow> failure + operand \<times> operand" where
  "pair_argument E arg = then_do (or_else_fail AssertionFailed (getRef (ne_lib E) arg)) (\<lambda>r. Inr (me_pair E r))"

fun pair_arguments :: "map_env \<Rightarrow> operand list \<Rightarrow> failure + (operand \<times> operand) list" where
  "pair_arguments E [] = Inr []"
| "pair_arguments E (arg # args) =
    then_do (pair_argument E arg) (\<lambda>kv. then_do (pair_arguments E args) (\<lambda>kvs. Inr (kv # kvs)))"

definition map_alloc :: "map_env \<Rightarrow> u64 \<Rightarrow> map_trap" where
  "map_alloc E fresh s = Some (push_unchecked (map_operand E fresh) (fst s, allocate_map fresh (snd s)))"

definition map_ctor :: "map_env \<Rightarrow> map_trap" where
  "map_ctor E s = run_bind (Some (map_receiver E s)) (\<lambda>(frame, r, m_node).
    run_bind (Some (pair_arguments E (rest_arguments frame))) (\<lambda>kvs.
    run_bind (construct_map E r kvs (snd s)) (\<lambda>h. Some (Inr (fst s, h)))))"

definition map_size :: "map_env \<Rightarrow> map_trap" where
  "map_size E s = run_bind (Some (map_receiver E s)) (\<lambda>(frame, r, m_node).
    run_bind (Some (assert_arguments 0 frame)) (\<lambda>_.
    run_bind (mapSize (snd s) m_node) (\<lambda>n.
      Some (push_result (fromI64 (ne_lib E) (ne_garbage E) (word_of_int n)) s))))"

definition map_contains :: "map_env \<Rightarrow> map_trap" where
  "map_contains E s = run_bind (Some (map_receiver E s)) (\<lambda>(frame, r, m_node).
    run_bind (Some (assert_arguments 1 frame)) (\<lambda>_.
    run_bind (mapContains E (snd s) m_node (getArgument 0 frame)) (\<lambda>b.
      Some (push_result (fromBool (ne_garbage E) b) s))))"

definition map_get :: "map_env \<Rightarrow> map_trap" where
  "map_get E s = run_bind (Some (map_receiver E s)) (\<lambda>(frame, r, m_node).
    run_bind (Some (assert_arguments 2 frame)) (\<lambda>_.
    run_bind (mapGet E (snd s) m_node (getArgument 0 frame)) (\<lambda>v.
      Some (push_unchecked (if isValid_operand v then v else getArgument 1 frame) s))))"

definition map_update :: "map_env \<Rightarrow> u64 \<Rightarrow> map_trap" where
  "map_update E fresh s = run_bind (Some (map_receiver E s)) (\<lambda>(frame, r, m_node).
    run_bind (Some (assert_arguments 2 frame)) (\<lambda>_.
    run_bind (mapUpdate E m_node (getArgument 0 frame) (getArgument 1 frame) (snd s)) (\<lambda>(node, h).
      Some (then_do (map_copy fresh node h) (\<lambda>h1. push_result (map_operand E fresh) (fst s, h1))))))"

definition map_remove :: "map_env \<Rightarrow> u64 \<Rightarrow> map_trap" where
  "map_remove E fresh s = run_bind (Some (map_receiver E s)) (\<lambda>(frame, r, m_node).
    run_bind (Some (assert_arguments 1 frame)) (\<lambda>_.
    run_bind (mapRemove E m_node (getArgument 0 frame) (snd s)) (\<lambda>(node, h).
      Some (case node of
        None \<Rightarrow> push_result (m_receiver frame) (fst s, h)
      | Some p \<Rightarrow> then_do (map_copy fresh p h) (\<lambda>h1. push_result (map_operand E fresh) (fst s, h1))))))"

definition map_iterate :: "map_env \<Rightarrow> u64 \<Rightarrow> map_trap" where
  "map_iterate E fresh s = run_bind (Some (map_receiver E s)) (\<lambda>(frame, r, m_node).
    case popData (ne_garbage E) (fst s) of
      (Inl e, co) \<Rightarrow> Some (Inl e)
    | (Inr cell, co) \<Rightarrow> run_bind (Some (ne_resolve_class E cell)) (\<lambda>_.
        run_bind (make_map_iterator (snd s) r) (\<lambda>it.
          Some (push_result (map_operand E fresh)
            (co, (snd s)\<lparr>map_iters := (map_iters (snd s))(fresh \<mapsto> it)\<rparr>)))))"

definition map_iterator_alloc :: "map_env \<Rightarrow> u64 \<Rightarrow> map_trap" where
  "map_iterator_alloc E fresh s = Some (push_result (map_operand E fresh)
    (fst s, (snd s)\<lparr>map_iters := (map_iters (snd s))(fresh \<mapsto> empty_map_iterator)\<rparr>))"

definition map_iterator_valid :: "map_env \<Rightarrow> map_trap" where
  "map_iterator_valid E s = Some (then_do (current_receiver (native_env.truncate E) (fst s)) (\<lambda>(frame, r).
    then_do (assert_arguments 0 frame) (\<lambda>_.
    then_do (deref (map_iters (snd s)) r) (\<lambda>it.
      push_result (fromBool (ne_garbage E) (map_iteratorValid it)) s))))"

definition map_iterator_next :: "map_env \<Rightarrow> map_trap" where
  "map_iterator_next E s =
    run_bind (Some (current_receiver (native_env.truncate E) (fst s))) (\<lambda>(frame, r).
    run_bind (Some (assert_arguments 0 frame)) (\<lambda>_.
    run_bind (Some (deref (map_iters (snd s)) r)) (\<lambda>it.
    run_bind (map_iteratorNext (snd s) it) (\<lambda>((found, v), it').
      Some (push_result (if found then v else empty_operand)
        (fst s, (snd s)\<lparr>map_iters := (map_iters (snd s))(r \<mapsto> it')\<rparr>))))))"

end
