(* ===== verification/MapsLaws.thy ===== *)
theory MapsLaws
  imports Maps
begin

text \<open>
  Maps against tries that are values: \<open>trie_at\<close> relates a node to the trie below it, \<open>t_get\<close> and \<open>t_update\<close>
  are what search and update do to it. The path of a key is its sequence of four-bit digits \<open>nib\<close>.
\<close>

subsection \<open>The digits of a key\<close>

definition khash :: "map_env \<Rightarrow> operand \<Rightarrow> nat \<Rightarrow> u32" where
  "khash E k d = push_bit (4 * (d mod 8)) (if d < 8 then me_hash E k else me_rehash E k (8 * (d div 8)))"

definition nib :: "map_env \<Rightarrow> operand \<Rightarrow> nat \<Rightarrow> nat" where
  "nib E k d = slot_of (khash E k d)"

definition level_bits :: "nat \<Rightarrow> nat" where
  "level_bits d = 32 - 4 * (d mod 8)"

definition arrives :: "map_env \<Rightarrow> operand \<Rightarrow> nat \<Rightarrow> u32 \<Rightarrow> nat \<Rightarrow> bool" where
  "arrives E k d hash bits \<longleftrightarrow> level_hash E k hash bits d = (khash E k d, level_bits d)"

lemma slot_bound [simp]: "slot_of w < 16"
proof -
  have "unat w < 2 ^ 32" using unsigned_less [of w] by simp
  then have "unat (drop_bit 28 w) < 16" by (simp only: unat_drop_bit_eq) (simp add: drop_bit_eq_div less_mult_imp_div_less)
  then show ?thesis by (simp add: slot_of_def BITS_PER_LEVEL_def)
qed

lemma nib_bound [simp]: "nib E k d < 16"
  by (simp add: nib_def)

lemma arrives_start: "arrives E k 0 (me_hash E k) 32"
  by (simp add: arrives_def level_hash_def khash_def level_bits_def BITS_PER_LEVEL_def)

lemma arrives_next: "arrives E k (Suc d) (shifted (khash E k d)) (level_bits d - BITS_PER_LEVEL)"
proof (cases "Suc d mod 8 = 0")
  case True
  have "d mod 8 = 7" using True by (simp add: mod_Suc split: if_splits)
  moreover have "8 * (Suc d div 8) = Suc d" using mult_div_mod_eq [of 8 "Suc d"] True by simp
  moreover have "\<not> Suc d < 8" using True by (cases "Suc d < 8") simp_all
  ultimately show ?thesis using True
    by (simp add: arrives_def level_hash_def khash_def level_bits_def BITS_PER_LEVEL_def)
next
  case False
  have "Suc d mod 8 = Suc (d mod 8)" "d mod 8 < 7" using False by (simp_all add: mod_Suc split: if_splits)
  moreover have "Suc d div 8 = d div 8" using False by (simp add: div_Suc)
  moreover have "d < 8 \<longleftrightarrow> Suc d < 8" using False by (cases "d = 7") auto
  moreover have "\<not> 28 - 4 * (d mod 8) < 4" "d < 7 \<longrightarrow> \<not> 28 - 4 * d < 4" using calculation(2) by linarith+
  ultimately show ?thesis
    by (simp add: arrives_def level_hash_def khash_def level_bits_def BITS_PER_LEVEL_def shifted_def push_bit_push_bit)
qed

lemma arrivesD:
  assumes "arrives E k d hash bits"
  shows "level_hash E k hash bits d = (khash E k d, level_bits d)" "slot_of (khash E k d) = nib E k d"
  using assms by (simp_all add: arrives_def nib_def)

subsection \<open>Tries\<close>

datatype htrie =
    Val operand operand u32
  | Idx "htrie option list"

lemma htrie_size [termination_simp]: "i < length ts \<Longrightarrow> ts ! i = Some t \<Longrightarrow> size t < Suc (size_list (size_option size) ts)"
  using size_list_estimation' [of "Some t" ts "size t" "size_option size"] nth_mem [of i ts] by simp

fun trie_at :: "(nat \<rightharpoonup> map_node) \<Rightarrow> nat \<Rightarrow> htrie \<Rightarrow> bool" where
  "trie_at nodes p (Val k v hash) \<longleftrightarrow> (\<exists>n. nodes p = Some n \<and> mn_body n = ValueMapNode k v hash)"
| "trie_at nodes p (Idx ts) \<longleftrightarrow> (\<exists>n table. nodes p = Some n \<and> mn_body n = IndexMapNode table \<and>
    length ts = 16 \<and> length table = 16 \<and>
    (\<forall>i < length ts. case ts ! i of None \<Rightarrow> table ! i = None | Some t \<Rightarrow> \<exists>c. table ! i = Some c \<and> trie_at nodes c t))"

definition slots_at :: "(nat \<rightharpoonup> map_node) \<Rightarrow> nat option list \<Rightarrow> htrie option list \<Rightarrow> bool" where
  "slots_at nodes table ts \<longleftrightarrow> length ts = 16 \<and> length table = 16 \<and>
    (\<forall>i < 16. rel_option (trie_at nodes) (table ! i) (ts ! i))"

lemma rel_option_iff_case: "(case t of None \<Rightarrow> c = None | Some t' \<Rightarrow> \<exists>c'. c = Some c' \<and> R c' t') = rel_option R c t"
  by (cases t; cases c) simp_all

lemma trie_at_Idx: "trie_at nodes p (Idx ts) \<longleftrightarrow>
    (\<exists>n table. nodes p = Some n \<and> mn_body n = IndexMapNode table \<and> slots_at nodes table ts)"
  unfolding trie_at.simps(2) rel_option_iff_case slots_at_def by metis

declare trie_at.simps(2) [simp del]

text \<open>What a node holds survives a change of counters and new nodes.\<close>

definition same_bodies :: "(nat \<rightharpoonup> map_node) \<Rightarrow> (nat \<rightharpoonup> map_node) \<Rightarrow> bool" where
  "same_bodies nodes nodes' \<longleftrightarrow> (\<forall>p n. nodes p = Some n \<longrightarrow> (\<exists>n'. nodes' p = Some n' \<and> mn_body n' = mn_body n))"

lemma same_bodies_refl [simp]: "same_bodies nodes nodes"
  by (simp add: same_bodies_def)

lemma same_bodies_trans: "same_bodies a b \<Longrightarrow> same_bodies b c \<Longrightarrow> same_bodies a c"
  unfolding same_bodies_def by metis

lemma same_bodiesD: "same_bodies nodes nodes' \<Longrightarrow> nodes p = Some n \<Longrightarrow> \<exists>n'. nodes' p = Some n' \<and> mn_body n' = mn_body n"
  by (simp add: same_bodies_def)

lemma trie_at_same: "trie_at nodes p t \<Longrightarrow> same_bodies nodes nodes' \<Longrightarrow> trie_at nodes' p t"
proof (induction nodes p t rule: trie_at.induct)
  case (2 nodes p ts)
  obtain n table where n: "nodes p = Some n" "mn_body n = IndexMapNode table" "slots_at nodes table ts"
    using 2(2) by (auto simp: trie_at_Idx)
  have "rel_option (trie_at nodes') (table ! i) (ts ! i)" if i: "i < 16" for i
  proof -
    have "rel_option (trie_at nodes) (table ! i) (ts ! i)" using n(3) i by (simp add: slots_at_def)
    then show ?thesis using 2(1) [of i] i n(3) 2(3) by (cases "ts ! i") (auto simp: slots_at_def option_rel_Some2)
  qed
  then have "slots_at nodes' table ts" using n(3) by (simp add: slots_at_def)
  then show ?case using n same_bodiesD [OF 2(3) n(1)] by (auto simp: trie_at_Idx)
qed (auto dest: same_bodiesD)

lemma slots_at_same: "slots_at nodes table ts \<Longrightarrow> same_bodies nodes nodes' \<Longrightarrow> slots_at nodes' table ts"
  unfolding slots_at_def by (metis (mono_tags, lifting) option.rel_mono_strong trie_at_same)

lemma slots_at_update:
  "slots_at nodes table ts \<Longrightarrow> i < 16 \<Longrightarrow> trie_at nodes q t \<Longrightarrow> slots_at nodes (table[i := Some q]) (ts[i := Some t])"
  by (auto simp: slots_at_def nth_list_update)

lemma slots_at_remove: "slots_at nodes table ts \<Longrightarrow> slots_at nodes (table[i := None]) (ts[i := None])"
  by (cases "i < 16") (auto simp: slots_at_def nth_list_update)

lemma slots_at_cases:
  assumes "slots_at nodes table ts" "i < 16"
  obtains "ts ! i = None" "table ! i = None"
  | k v hash c n where "ts ! i = Some (Val k v hash)" "table ! i = Some c" "nodes c = Some n" "mn_body n = ValueMapNode k v hash"
      "trie_at nodes c (Val k v hash)"
  | us c n table' where "ts ! i = Some (Idx us)" "table ! i = Some c" "nodes c = Some n" "mn_body n = IndexMapNode table'"
      "slots_at nodes table' us" "trie_at nodes c (Idx us)"
proof (cases "ts ! i")
  case None
  then show ?thesis using that(1) assms by (auto simp: slots_at_def dest!: spec [of _ i])
next
  case (Some t)
  then obtain c where "table ! i = Some c" "trie_at nodes c t"
    using assms by (auto simp: slots_at_def option_rel_Some2 dest!: spec [of _ i])
  then show ?thesis using that(2,3) Some by (cases t) (auto simp: trie_at_Idx)
qed

subsection \<open>Search\<close>

fun t_get :: "map_env \<Rightarrow> operand \<Rightarrow> nat \<Rightarrow> htrie \<Rightarrow> operand" where
  "t_get E k d (Val k' v hash) = (if key_equal E k' k then v else empty_operand)"
| "t_get E k d (Idx ts) = (case ts ! nib E k d of None \<Rightarrow> empty_operand
    | Some t \<Rightarrow> if nib E k d < length ts then t_get E k (Suc d) t else empty_operand)"

lemma search_ok:
  "trie_at (map_nodes h) p t \<Longrightarrow> t = Idx ts \<Longrightarrow> arrives E k d hash bits \<Longrightarrow>
    map_search E h p k hash bits d = Some (Inr (t_get E k d t))"
proof (induction t arbitrary: p ts d hash bits)
  case (Idx us)
  obtain n table where n: "map_nodes h p = Some n" "mn_body n = IndexMapNode table" "slots_at (map_nodes h) table us"
    using Idx.prems by (auto simp: trie_at_Idx)
  have len: "nib E k d < length us" using n(3) by (simp add: slots_at_def)
  have step: "map_search E h p k hash bits d = (case table ! nib E k d of
        None \<Rightarrow> Some (Inr empty_operand)
      | Some child \<Rightarrow> run_bind (Some (deref (map_nodes h) child)) (\<lambda>n.
          case mn_body n of
            ValueMapNode k' v existing_hash \<Rightarrow> Some (Inr (if key_equal E k' k then v else empty_operand))
          | IndexMapNode t \<Rightarrow> map_search E h child k (shifted (khash E k d)) (level_bits d - BITS_PER_LEVEL) (Suc d)))"
    using n arrivesD [OF Idx.prems(3)] by (subst map_search.simps) (simp add: index_table_def cong: option.case_cong map_body.case_cong)
  show ?case
  proof (rule slots_at_cases [OF n(3) nib_bound [of E k d]])
    fix vs c n' table'
    assume c: "us ! nib E k d = Some (Idx vs)" "table ! nib E k d = Some c" "map_nodes h c = Some n'"
      "mn_body n' = IndexMapNode table'" "trie_at (map_nodes h) c (Idx vs)"
    have mem: "Some (Idx vs) \<in> set us" using c(1) len nth_mem by metis
    have "map_search E h c k (shifted (khash E k d)) (level_bits d - BITS_PER_LEVEL) (Suc d) = Some (Inr (t_get E k (Suc d) (Idx vs)))"
      by (rule Idx.IH [OF mem _ c(5) refl arrives_next]) simp
    then show ?thesis using c(1-4) step len by simp
  qed (use step len in simp_all)
qed simp


subsection \<open>Two values in a new node\<close>

lemma level_next [simp]:
  "level_hash E k (shifted (khash E k d)) (level_bits d - BITS_PER_LEVEL) (Suc d) = (khash E k (Suc d), level_bits (Suc d))"
  using arrives_next by (simp add: arrives_def)

lemma slot_khash [simp]: "slot_of (khash E k d) = nib E k d"
  by (simp add: nib_def)

definition store_ok :: "map_heap \<Rightarrow> bool" where
  "store_ok h \<longleftrightarrow> (\<forall>p \<in> dom (map_nodes h). p < map_next h)"

definition grows :: "map_heap \<Rightarrow> map_heap \<Rightarrow> bool" where
  "grows h h' \<longleftrightarrow> same_bodies (map_nodes h) (map_nodes h') \<and> store_ok h' \<and> map_refs h' = map_refs h \<and> map_iters h' = map_iters h"

lemma grows_trans: "grows a b \<Longrightarrow> grows b c \<Longrightarrow> grows a c"
  by (auto simp: grows_def intro: same_bodies_trans)

lemma grows_trie: "grows h h' \<Longrightarrow> trie_at (map_nodes h) p t \<Longrightarrow> trie_at (map_nodes h') p t"
  by (auto simp: grows_def intro: trie_at_same)

lemma new_nodes_unused: "store_ok h \<Longrightarrow> map_next h \<le> p \<Longrightarrow> map_nodes h p = None"
  by (metis domIff store_ok_def not_less)

lemma grows_fresh:
  assumes "store_ok h" "\<And>p. p < map_next h \<Longrightarrow> map_nodes h' p = map_nodes h p" "store_ok h'"
    and "map_refs h' = map_refs h" "map_iters h' = map_iters h"
  shows "grows h h'"
  using assms by (auto simp: grows_def same_bodies_def store_ok_def) (metis domI)

definition no_slots :: "htrie option list" where
  "no_slots = replicate 16 None"

definition t_two :: "map_env \<Rightarrow> operand \<Rightarrow> operand \<Rightarrow> operand \<Rightarrow> operand \<Rightarrow> nat \<Rightarrow> htrie" where
  "t_two E k' v' k v d =
    Idx (no_slots[nib E k' d := Some (Val k' v' (khash E k' d)), nib E k d := Some (Val k v (khash E k d))])"

definition t_pair :: "map_env \<Rightarrow> operand \<Rightarrow> operand \<Rightarrow> operand \<Rightarrow> operand \<Rightarrow> nat \<Rightarrow> htrie" where
  "t_pair E k' v' k v d =
    (if nib E k' d \<noteq> nib E k d then t_two E k' v' k v d
     else Idx (no_slots[nib E k d := Some (t_two E k' v' k v (Suc d))]))"

lemma empty_slots_at: "slots_at nodes empty_table no_slots"
  by (simp add: slots_at_def empty_table_def no_slots_def)

lemmas store_defs = new_value_def new_index_def new_map_node_def set_body_def put_node_def index_table_def value_fields_def
  deref_def

lemma mutable_insert_two:
  assumes prev: "map_nodes h c = Some n" "mn_body n = ValueMapNode k' v' (shifted (khash E k' d))"
    and sep: "nib E k' (Suc d) \<noteq> nib E k (Suc d)" "Suc d < 32"
  shows "mutable_insert E c k v (shifted (khash E k d)) (level_bits d - BITS_PER_LEVEL) (Suc d) h =
    Inr (Suc (map_next h), h\<lparr>map_nodes := (map_nodes h)(c \<mapsto> n\<lparr>mn_body := ValueMapNode k' v' (khash E k' (Suc d))\<rparr>,
        map_next h \<mapsto> \<lparr>mn_refcount = 1, mn_body = ValueMapNode k v (khash E k (Suc d))\<rparr>,
        Suc (map_next h) \<mapsto> \<lparr>mn_refcount = 1, mn_body =
          IndexMapNode (empty_table[nib E k' (Suc d) := Some c, nib E k (Suc d) := Some (map_next h)])\<rparr>),
      map_next := Suc (Suc (map_next h))\<rparr>)"
  using prev sep by (subst mutable_insert.simps) (simp add: store_defs)

lemma construct_none:
  assumes "map_nodes h p = Some n" "mn_body n = IndexMapNode table" "arrives E k d hash bits" "table ! nib E k d = None"
    and "store_ok h"
  shows "map_construct E p k v hash bits d h =
    Some (Inr (h\<lparr>map_nodes := (map_nodes h)(map_next h \<mapsto> \<lparr>mn_refcount = 1, mn_body = ValueMapNode k v (khash E k d)\<rparr>,
        p \<mapsto> n\<lparr>mn_body := IndexMapNode (table[nib E k d := Some (map_next h)])\<rparr>), map_next := Suc (map_next h)\<rparr>))"
proof -
  have "p \<noteq> map_next h" using assms(1) new_nodes_unused [OF assms(5), of p] by auto
  then show ?thesis using assms arrivesD(1) [OF assms(3)] by (subst map_construct.simps) (simp add: store_defs)
qed

lemma pair_ok:
  assumes ok: "store_ok h" and hash: "arrives E k' d hash' bits'" "arrives E k d hash bits" and ne: "\<not> key_equal E k' k"
    and sep: "nib E k' d \<noteq> nib E k d \<or> nib E k' (Suc d) \<noteq> nib E k (Suc d) \<and> Suc d < 32"
  defines "node \<equiv> fst (new_index 1 empty_table h)" and "h2 \<equiv> snd (new_index 1 empty_table h)"
  shows "\<exists>h4. run_bind (map_construct E node k' v' hash' bits' d h2) (map_construct E node k v hash bits d) = Some (Inr h4) \<and>
    trie_at (map_nodes h4) node (t_pair E k' v' k v d) \<and> grows h h4"
proof -
  let ?N = "map_next h"
  let ?h3 = "h\<lparr>map_nodes := (map_nodes h)(Suc ?N \<mapsto> \<lparr>mn_refcount = 1, mn_body = ValueMapNode k' v' (khash E k' d)\<rparr>,
      ?N \<mapsto> \<lparr>mn_refcount = 1, mn_body = IndexMapNode (empty_table[nib E k' d := Some (Suc ?N)])\<rparr>), map_next := Suc (Suc ?N)\<rparr>"
  have free: "map_nodes h p = None" if "?N \<le> p" for p using new_nodes_unused [OF ok that] .
  have dom: "p < ?N" if "map_nodes h p = Some n" for p n using ok that by (auto simp: store_ok_def)
  have ok2: "store_ok h2" using dom by (auto simp: h2_def store_defs store_ok_def intro: less_SucI)
  have node: "node = ?N" by (simp add: node_def store_defs)
  have "map_construct E node k' v' hash' bits' d h2 = Some (Inr ?h3)"
    using construct_none [OF _ _ hash(1) _ ok2, of node _ empty_table v']
    by (simp add: node h2_def store_defs empty_table_def fun_upd_twist)
  moreover have "\<exists>h4. map_construct E node k v hash bits d ?h3 = Some (Inr h4) \<and>
      trie_at (map_nodes h4) node (t_pair E k' v' k v d) \<and> grows h h4"
  proof (cases "nib E k' d = nib E k d")
    case False
    have ok3: "store_ok ?h3" using dom by (auto simp: store_ok_def intro: less_SucI)
    let ?table = "empty_table[nib E k' d := Some (Suc ?N), nib E k d := Some (Suc (Suc ?N))]"
    let ?h4 = "?h3\<lparr>map_nodes := (map_nodes ?h3)(Suc (Suc ?N) \<mapsto> \<lparr>mn_refcount = 1, mn_body = ValueMapNode k v (khash E k d)\<rparr>,
        ?N \<mapsto> \<lparr>mn_refcount = 1, mn_body = IndexMapNode ?table\<rparr>), map_next := Suc (Suc (Suc ?N))\<rparr>"
    have "map_construct E node k v hash bits d ?h3 = Some (Inr ?h4)"
      using construct_none [OF _ _ hash(2) _ ok3, of node _ "empty_table[nib E k' d := Some (Suc ?N)]" v] False
      by (simp add: node empty_table_def)
    moreover have "slots_at (map_nodes ?h4) ?table
        (no_slots[nib E k' d := Some (Val k' v' (khash E k' d)), nib E k d := Some (Val k v (khash E k d))])"
      by (intro slots_at_update empty_slots_at) simp_all
    moreover have "grows h ?h4" by (intro grows_fresh [OF ok]) (auto simp: store_ok_def dest!: dom)
    ultimately show ?thesis using False by (simp add: node t_pair_def t_two_def trie_at_Idx)
  next
    case True
    then have sep': "nib E k' (Suc d) \<noteq> nib E k (Suc d)" "Suc d < 32" using sep by auto
    let ?table = "empty_table[nib E k' (Suc d) := Some (Suc ?N), nib E k (Suc d) := Some (Suc (Suc ?N))]"
    let ?h4 = "?h3\<lparr>map_nodes := (map_nodes ?h3)(
        Suc ?N \<mapsto> \<lparr>mn_refcount = 1, mn_body = ValueMapNode k' v' (khash E k' (Suc d))\<rparr>,
        Suc (Suc ?N) \<mapsto> \<lparr>mn_refcount = 1, mn_body = ValueMapNode k v (khash E k (Suc d))\<rparr>,
        Suc (Suc (Suc ?N)) \<mapsto> \<lparr>mn_refcount = 1, mn_body = IndexMapNode ?table\<rparr>,
        ?N \<mapsto> \<lparr>mn_refcount = 1, mn_body = IndexMapNode (empty_table[nib E k d := Some (Suc (Suc (Suc ?N)))])\<rparr>),
      map_next := Suc (Suc (Suc (Suc ?N)))\<rparr>"
    have "map_construct E node k v hash bits d ?h3 = Some (Inr ?h4)"
      using arrivesD(1) [OF hash(2)] ne True sep' mutable_insert_two [where c = "Suc ?N" and E = E and k = k and k' = k' and d = d]
      by (subst map_construct.simps) (simp add: node store_defs empty_table_def fun_upd_twist)
    moreover have "slots_at (map_nodes ?h4) ?table
        (no_slots[nib E k' (Suc d) := Some (Val k' v' (khash E k' (Suc d))), nib E k (Suc d) := Some (Val k v (khash E k (Suc d)))])"
      by (intro slots_at_update empty_slots_at) simp_all
    then have "trie_at (map_nodes ?h4) (Suc (Suc (Suc ?N))) (t_two E k' v' k v (Suc d))"
      by (simp add: t_two_def trie_at_Idx)
    then have "slots_at (map_nodes ?h4) (empty_table[nib E k d := Some (Suc (Suc (Suc ?N)))])
        (no_slots[nib E k d := Some (t_two E k' v' k v (Suc d))])"
      by (intro slots_at_update empty_slots_at) simp_all
    moreover have "grows h ?h4" by (intro grows_fresh [OF ok]) (auto simp: store_ok_def dest!: dom)
    ultimately show ?thesis using True by (simp add: node t_pair_def trie_at_Idx)
  qed
  ultimately show ?thesis by simp
qed


subsection \<open>New nodes and copies of slots\<close>

lemma grows_refl: "store_ok h \<Longrightarrow> grows h h"
  by (simp add: grows_def)

lemma grows_ok: "grows h h' \<Longrightarrow> store_ok h'"
  by (simp add: grows_def)

lemma store_okD: "store_ok h \<Longrightarrow> map_nodes h p = Some n \<Longrightarrow> p < map_next h"
  by (auto simp: store_ok_def)

lemma new_map_node_grows:
  assumes "store_ok h" shows "grows h (snd (new_map_node n h))"
  by (rule grows_fresh [OF assms]) (auto simp: new_map_node_def store_ok_def dest!: store_okD [OF assms])

lemma new_map_node_at: "map_nodes (snd (new_map_node n h)) (fst (new_map_node n h)) = Some n"
  by (simp add: new_map_node_def)

lemma new_index_trie:
  assumes "store_ok h" "slots_at (map_nodes h) table ts" "new_index c table h = (q, h')"
  shows "grows h h'" "trie_at (map_nodes h') q (Idx ts)"
proof -
  show g: "grows h h'" using new_map_node_grows [OF assms(1)] assms(3) by (metis new_index_def snd_conv)
  have "map_nodes h' q = Some \<lparr>mn_refcount = c, mn_body = IndexMapNode table\<rparr>"
    using assms(3) new_map_node_at [of "\<lparr>mn_refcount = c, mn_body = IndexMapNode table\<rparr>" h] by (simp add: new_index_def)
  moreover have "slots_at (map_nodes h') table ts" using slots_at_same [OF assms(2)] g by (simp add: grows_def)
  ultimately show "trie_at (map_nodes h') q (Idx ts)" by (auto simp: trie_at_Idx)
qed

lemma new_value_trie:
  assumes "store_ok h" "new_value c k v hash h = (q, h')"
  shows "grows h h'" "trie_at (map_nodes h') q (Val k v hash)"
  using new_map_node_grows [OF assms(1)] assms(2) by (auto simp: new_value_def new_map_node_def)

lemma map_increment_grows:
  assumes "store_ok h" "map_nodes h p = Some n"
  shows "\<exists>h'. map_increment p h = Inr h' \<and> grows h h'"
proof -
  have "map_increment p h = Inr (put_node p (n\<lparr>mn_refcount := mn_refcount n + 1\<rparr>) h)"
    using assms(2) by (simp add: map_increment_def deref_def)
  moreover have "grows h (put_node p (n\<lparr>mn_refcount := mn_refcount n + 1\<rparr>) h)"
    using assms by (auto simp: grows_def same_bodies_def store_ok_def put_node_def)
  ultimately show ?thesis by simp
qed

lemma map_increments_grows:
  "store_ok h \<Longrightarrow> \<forall>p. Some p \<in> set cs \<longrightarrow> p \<in> dom (map_nodes h) \<Longrightarrow> \<exists>h'. map_increments cs h = Inr h' \<and> grows h h'"
proof (induction cs h rule: map_increments.induct)
  case (3 p cs h)
  obtain n where "map_nodes h p = Some n" using 3(3) by auto
  then obtain h1 where h1: "map_increment p h = Inr h1" "grows h h1" using map_increment_grows [OF 3(2)] by blast
  have "\<forall>q. Some q \<in> set cs \<longrightarrow> q \<in> dom (map_nodes h1)"
    using 3(3) h1(2) by (fastforce simp: grows_def same_bodies_def)
  then show ?case using 3(1) [OF grows_ok [OF h1(2)]] h1 grows_trans by fastforce
qed (auto intro: grows_refl)

lemma slots_at_dom: "slots_at nodes table ts \<Longrightarrow> Some p \<in> set table \<Longrightarrow> p \<in> dom nodes"
  by (cases "nodes p") (auto simp: slots_at_def in_set_conv_nth option_rel_Some1 dest!: spec elim!: trie_at.elims)

lemma copy_slots_grows:
  assumes "store_ok h" "slots_at (map_nodes h) table ts"
  obtains h' where "copy_slots table i h = Inr h'" "grows h h'"
  using map_increments_grows [OF assms(1), of "table[i := None]"] slots_at_dom [OF assms(2)]
  by (auto simp: copy_slots_def dest!: set_update_subset_insert [THEN subsetD])

end
