(* ===== verification/MapsTries.thy ===== *)
theory MapsTries
  imports MapsLaws
begin

text \<open>
  What update and removal do to the tries of \<open>MapsLaws\<close>, and the laws that make them maps: \<open>t_get\<close> after
  \<open>t_update\<close> and after \<open>t_remove\<close>. A trie is \<open>placed\<close> when every value is on the path of its key and keeps
  the hash of that key as it is at its level.
\<close>

text \<open>Keys between which equality is an equivalence that the hash respects. Different keys have different hashes,
  and the difference shows in one of the first three digits.\<close>

definition first_digits :: "map_env \<Rightarrow> operand \<Rightarrow> nat list" where
  "first_digits E k = map (nib E k) [0, 1, 2]"

definition good_keys :: "map_env \<Rightarrow> operand set \<Rightarrow> bool" where
  "good_keys E K \<longleftrightarrow> (\<forall>a \<in> K. key_equal E a a \<and> (\<forall>b \<in> K.
    (key_equal E a b \<longrightarrow> key_equal E b a \<and> me_hash E a = me_hash E b \<and> (\<forall>level. me_rehash E a level = me_rehash E b level) \<and>
      (\<forall>c \<in> K. key_equal E b c \<longrightarrow> key_equal E a c)) \<and>
    (\<not> key_equal E a b \<longrightarrow> first_digits E a \<noteq> first_digits E b)))"

lemma good_keys_refl: "good_keys E K \<Longrightarrow> a \<in> K \<Longrightarrow> key_equal E a a"
  unfolding good_keys_def by blast

lemma good_keys_sym: "good_keys E K \<Longrightarrow> a \<in> K \<Longrightarrow> b \<in> K \<Longrightarrow> key_equal E a b \<Longrightarrow> key_equal E b a"
  unfolding good_keys_def by blast

lemma good_keys_trans:
  "good_keys E K \<Longrightarrow> a \<in> K \<Longrightarrow> b \<in> K \<Longrightarrow> c \<in> K \<Longrightarrow> key_equal E a b \<Longrightarrow> key_equal E b c \<Longrightarrow> key_equal E a c"
  unfolding good_keys_def by blast

lemma good_keys_nib: "good_keys E K \<Longrightarrow> a \<in> K \<Longrightarrow> b \<in> K \<Longrightarrow> key_equal E a b \<Longrightarrow> nib E a d = nib E b d"
proof -
  assume "good_keys E K" "a \<in> K" "b \<in> K" "key_equal E a b"
  then have "me_hash E a = me_hash E b" "\<forall>level. me_rehash E a level = me_rehash E b level"
    unfolding good_keys_def by blast+
  then show ?thesis by (simp add: nib_def khash_def)
qed

lemma good_keys_apart:
  assumes "good_keys E K" "a \<in> K" "b \<in> K" "\<not> key_equal E a b"
  obtains d where "d < 3" "nib E a d \<noteq> nib E b d"
proof -
  have "first_digits E a \<noteq> first_digits E b" using assms unfolding good_keys_def by blast
  then consider "nib E a 0 \<noteq> nib E b 0" | "nib E a 1 \<noteq> nib E b 1" | "nib E a 2 \<noteq> nib E b 2"
    by (auto simp: first_digits_def)
  then show ?thesis by cases (use that [of 0] that [of 1] that [of 2] in simp_all)
qed

text \<open>Two keys that share all digits before a level are told apart at it or at the next one.\<close>

lemma good_keys_soon:
  assumes "good_keys E K" "a \<in> K" "b \<in> K" "\<not> key_equal E a b" "\<forall>i < d. nib E a i = nib E b i" "0 < d"
  shows "nib E a d \<noteq> nib E b d \<or> nib E a (Suc d) \<noteq> nib E b (Suc d) \<and> Suc d < 32"
proof -
  obtain j where j: "j < 3" "nib E a j \<noteq> nib E b j" using good_keys_apart [OF assms(1-4)] .
  then have "d \<le> j" using assms(5) by (meson not_less)
  then consider "j = d" | "j = Suc d" using j(1) assms(6) by linarith
  then show ?thesis using j by cases auto
qed

subsection \<open>Update and removal\<close>

lemma slots_size_less: "i < length ts \<Longrightarrow> ts ! i = Some (Idx us) \<Longrightarrow> size_list (size_option size) us < size_list (size_option size) ts"
  using size_list_estimation [of "Some (Idx us)" ts "size_list (size_option size) us" "size_option size"] nth_mem [of i ts] by simp

lemma slots_size_at: "length ts = 16 \<Longrightarrow> ts ! nib E k d = Some (Idx us) \<Longrightarrow>
    size_list (size_option size) us < size_list (size_option size) ts"
  by (rule slots_size_less [of "nib E k d"]) simp_all

function t_update :: "map_env \<Rightarrow> operand \<Rightarrow> operand \<Rightarrow> nat \<Rightarrow> htrie option list \<Rightarrow> htrie option list" where
  "t_update E k v d ts = (if length ts = 16 then ts[nib E k d := Some (case ts ! nib E k d of
      None \<Rightarrow> Val k v (khash E k d)
    | Some (Val k' v' hash) \<Rightarrow> if key_equal E k' k then Val k v (khash E k d) else t_pair E k' v' k v (Suc d)
    | Some (Idx us) \<Rightarrow> Idx (t_update E k v (Suc d) us))] else ts)"
  by pat_completeness auto

termination by (relation "measure (\<lambda>(E, k, v, d, ts). size_list (size_option size) ts)") (auto simp: slots_size_at)

function t_remove :: "map_env \<Rightarrow> operand \<Rightarrow> nat \<Rightarrow> htrie option list \<Rightarrow> htrie option list option" where
  "t_remove E k d ts = (if length ts = 16 then (case ts ! nib E k d of
      None \<Rightarrow> None
    | Some (Val k' v' hash) \<Rightarrow> if key_equal E k' k then Some (ts[nib E k d := None]) else None
    | Some (Idx us) \<Rightarrow> map_option (\<lambda>us'. ts[nib E k d := Some (Idx us')]) (t_remove E k (Suc d) us)) else None)"
  by pat_completeness auto

termination by (relation "measure (\<lambda>(E, k, d, ts). size_list (size_option size) ts)") (auto simp: slots_size_at)

declare t_update.simps [simp del] t_remove.simps [simp del]

function placed :: "map_env \<Rightarrow> operand set \<Rightarrow> nat list \<Rightarrow> htrie \<Rightarrow> bool" where
  "placed E K ds (Val k v hash) \<longleftrightarrow> k \<in> K \<and> ds \<noteq> [] \<and> hash = khash E k (length ds - 1) \<and> (\<forall>i < length ds. nib E k i = ds ! i)"
| "placed E K ds (Idx ts) \<longleftrightarrow> length ts = 16 \<and> (\<forall>i < length ts. \<forall>t. ts ! i = Some t \<longrightarrow> placed E K (ds @ [i]) t)"
  by pat_completeness auto

termination by (relation "measure (\<lambda>(E, K, ds, t). size t)") (auto simp: htrie_size)

definition on_path :: "map_env \<Rightarrow> operand \<Rightarrow> nat list \<Rightarrow> bool" where
  "on_path E k ds \<longleftrightarrow> (\<forall>i < length ds. nib E k i = ds ! i)"

lemma on_path_snoc [simp]: "on_path E k (ds @ [i]) \<longleftrightarrow> on_path E k ds \<and> nib E k (length ds) = i"
  by (auto simp: on_path_def nth_append less_Suc_eq)

lemma placed_Val: "placed E K (ds @ [i]) (Val k v hash) \<longleftrightarrow>
    k \<in> K \<and> hash = khash E k (length ds) \<and> on_path E k ds \<and> nib E k (length ds) = i"
  by (auto simp: on_path_def nth_append less_Suc_eq)

lemma placed_Idx: "placed E K ds (Idx ts) \<longleftrightarrow> length ts = 16 \<and> (\<forall>i < 16. \<forall>t. ts ! i = Some t \<longrightarrow> placed E K (ds @ [i]) t)"
  by auto

declare placed.simps [simp del]

lemma placed_slot: "placed E K ds (Idx ts) \<Longrightarrow> ts ! nib E k d = Some t \<Longrightarrow> placed E K (ds @ [nib E k d]) t"
  by (simp add: placed_Idx)

lemma nth_set: "(xs[i := x]) ! j = (if i = j \<and> j < length xs then x else xs ! j)"
  by (cases "i = j") (auto simp: list_update_beyond)

lemma placed_set:
  "placed E K ds (Idx ts) \<Longrightarrow> (\<And>t. s = Some t \<Longrightarrow> placed E K (ds @ [i]) t) \<Longrightarrow> placed E K ds (Idx (ts[i := s]))"
  by (simp add: placed_Idx nth_set)

lemma placed_empty: "placed E K ds (Idx no_slots)"
  by (simp add: placed_Idx no_slots_def)

lemma placed_two:
  assumes "k' \<in> K" "k \<in> K" "on_path E k' ds" "on_path E k ds"
  shows "placed E K ds (t_two E k' v' k v (length ds))"
  unfolding t_two_def using assms by (intro placed_set placed_empty) (auto simp: placed_Val)

lemma placed_pair:
  assumes "k' \<in> K" "k \<in> K" "on_path E k' ds" "on_path E k ds"
  shows "placed E K ds (t_pair E k' v' k v (length ds))"
proof (cases "nib E k' (length ds) = nib E k (length ds)")
  case True
  then have "placed E K (ds @ [nib E k (length ds)]) (t_two E k' v' k v (Suc (length ds)))"
    using assms placed_two [of k' K k E "ds @ [nib E k (length ds)]"] by simp
  then show ?thesis using True unfolding t_pair_def by (auto intro!: placed_set placed_empty)
qed (use assms in \<open>simp add: t_pair_def placed_two\<close>)

lemma placed_update:
  "placed E K ds (Idx ts) \<Longrightarrow> k \<in> K \<Longrightarrow> on_path E k ds \<Longrightarrow> placed E K ds (Idx (t_update E k v (length ds) ts))"
proof (induction E k v "length ds" ts arbitrary: ds rule: t_update.induct)
  case (1 E k v ts)
  let ?i = "nib E k (length ds)"
  have len: "length ts = 16" using 1(2) by (simp add: placed_Idx)
  consider "ts ! ?i = None" | k' v' hash where "ts ! ?i = Some (Val k' v' hash)" | us where "ts ! ?i = Some (Idx us)"
    by (metis htrie.exhaust option.exhaust)
  then show ?case
  proof cases
    case 1
    then show ?thesis
      using "1.prems" len by (auto simp: t_update.simps [of E k v "length ds" ts] placed_Val intro!: placed_set)
  next
    case (2 k' v' hash)
    then have "placed E K (ds @ [?i]) (Val k' v' hash)" using placed_slot [OF "1.prems"(1)] by simp
    then have "placed E K (ds @ [?i]) (t_pair E k' v' k v (Suc (length ds)))"
      using placed_pair [of k' K k E "ds @ [?i]"] "1.prems"(2,3) by (simp add: placed_Val)
    then show ?thesis using "1.prems" 2 len
      by (auto simp: t_update.simps [of E k v "length ds" ts] placed_Val intro!: placed_set)
  next
    case (3 us)
    then have "placed E K (ds @ [?i]) (Idx us)" using placed_slot [OF "1.prems"(1)] by simp
    then have "placed E K (ds @ [?i]) (Idx (t_update E k v (Suc (length ds)) us))"
      using "1.hyps" [OF len 3 refl, of "ds @ [?i]"] "1.prems"(2,3) by simp
    then show ?thesis using "1.prems" 3 len
      by (auto simp: t_update.simps [of E k v "length ds" ts] intro!: placed_set)
  qed
qed

lemma placed_remove:
  "placed E K ds (Idx ts) \<Longrightarrow> t_remove E k (length ds) ts = Some ts' \<Longrightarrow> placed E K ds (Idx ts')"
proof (induction E k "length ds" ts arbitrary: ds ts' rule: t_remove.induct)
  case (1 E k ts)
  let ?i = "nib E k (length ds)"
  have len: "length ts = 16" using 1(2) by (simp add: placed_Idx)
  consider "ts ! ?i = None" | k' v' hash where "ts ! ?i = Some (Val k' v' hash)" | us where "ts ! ?i = Some (Idx us)"
    by (metis htrie.exhaust option.exhaust)
  then show ?case
  proof cases
    case 1
    then show ?thesis using "1.prems" len by (simp add: t_remove.simps [of E k "length ds" ts])
  next
    case (2 k' v' hash)
    then have "ts' = ts[?i := None]" using "1.prems" len by (simp add: t_remove.simps [of E k "length ds" ts] split: if_splits)
    then show ?thesis using "1.prems" by (auto intro: placed_set)
  next
    case (3 us)
    then obtain us' where us': "t_remove E k (Suc (length ds)) us = Some us'" "ts' = ts[?i := Some (Idx us')]"
      using "1.prems" len by (auto simp: t_remove.simps [of E k "length ds" ts])
    have "placed E K (ds @ [?i]) (Idx us')"
      using "1.hyps" [OF len 3 refl, of "ds @ [?i]"] us'(1) placed_slot [OF "1.prems"(1) 3] by simp
    then show ?thesis using us' "1.prems" by (auto intro!: placed_set)
  qed
qed


subsection \<open>What the tries hold\<close>

lemma t_get_slot: "length ts = 16 \<Longrightarrow> t_get E k d (Idx (ts[i := s])) = (if nib E k d = i
    then (case s of None \<Rightarrow> empty_operand | Some t \<Rightarrow> t_get E k (Suc d) t) else t_get E k d (Idx ts))"
  by (auto simp: nth_set split: option.splits)

lemma t_get_empty: "t_get E k d (Idx no_slots) = empty_operand"
  by (simp add: no_slots_def)

lemma length_no_slots [simp]: "length no_slots = 16"
  by (simp add: no_slots_def)

declare t_get.simps(2) [simp del]

lemma t_get_two:
  assumes "nib E k' d \<noteq> nib E k d" "key_equal E k' k2 \<longrightarrow> nib E k' d = nib E k2 d" "key_equal E k k2 \<longrightarrow> nib E k d = nib E k2 d"
  shows "t_get E k2 d (t_two E k' v' k v d) = (if key_equal E k' k2 then v' else if key_equal E k k2 then v else empty_operand)"
proof -
  have "t_get E k2 d (t_two E k' v' k v d) = (if nib E k2 d = nib E k d then if key_equal E k k2 then v else empty_operand
      else if nib E k2 d = nib E k' d then if key_equal E k' k2 then v' else empty_operand else empty_operand)"
    by (simp add: t_two_def t_get_slot t_get_empty)
  then show ?thesis using assms by metis
qed

lemma t_get_pair:
  assumes apart: "nib E k' d \<noteq> nib E k d \<or> nib E k' (Suc d) \<noteq> nib E k (Suc d)"
    and same: "key_equal E k' k2 \<longrightarrow> (\<forall>d. nib E k' d = nib E k2 d)" "key_equal E k k2 \<longrightarrow> (\<forall>d. nib E k d = nib E k2 d)"
  shows "t_get E k2 d (t_pair E k' v' k v d) = (if key_equal E k' k2 then v' else if key_equal E k k2 then v else empty_operand)"
proof (cases "nib E k' d = nib E k d")
  case True
  have "t_get E k2 d (t_pair E k' v' k v d) =
      (if nib E k2 d = nib E k d then t_get E k2 (Suc d) (t_two E k' v' k v (Suc d)) else empty_operand)"
    using True by (simp add: t_pair_def t_get_slot t_get_empty)
  moreover have "t_get E k2 (Suc d) (t_two E k' v' k v (Suc d)) =
      (if key_equal E k' k2 then v' else if key_equal E k k2 then v else empty_operand)"
    using True apart same by (intro t_get_two) blast+
  ultimately show ?thesis using True same by metis
next
  case False
  then show ?thesis unfolding t_pair_def using same by (simp only: not_False_eq_True if_True simp_thms) (intro t_get_two; blast)
qed

lemma t_update_slot: "length ts = 16 \<Longrightarrow> t_get E k2 d (Idx (t_update E k v d ts)) =
    (if nib E k2 d = nib E k d then (case ts ! nib E k d of
        None \<Rightarrow> if key_equal E k k2 then v else empty_operand
      | Some (Val k' v' hash) \<Rightarrow>
          if key_equal E k' k then if key_equal E k k2 then v else empty_operand else t_get E k2 (Suc d) (t_pair E k' v' k v (Suc d))
      | Some (Idx us) \<Rightarrow> t_get E k2 (Suc d) (Idx (t_update E k v (Suc d) us)))
     else t_get E k2 d (Idx ts))"
  by (subst t_update.simps) (simp add: t_get_slot split: option.split htrie.split)

lemma same_path:
  assumes "on_path E a ds" "on_path E b ds" "nib E a (length ds) = nib E b (length ds)"
  shows "\<forall>i < Suc (length ds). nib E a i = nib E b i"
  using assms by (auto simp: on_path_def less_Suc_eq)

lemma slot_kinds:
  obtains "(s :: htrie option) = None" | k v hash where "s = Some (Val k v hash)" | us where "s = Some (Idx us)"
  by (metis htrie.exhaust option.exhaust)

lemma t_get_update:
  "placed E K ds (Idx ts) \<Longrightarrow> on_path E k ds \<Longrightarrow> d = length ds \<Longrightarrow> good_keys E K \<Longrightarrow> k \<in> K \<Longrightarrow> k2 \<in> K \<Longrightarrow>
    t_get E k2 d (Idx (t_update E k v d ts)) = (if key_equal E k k2 then v else t_get E k2 d (Idx ts))"
proof (induction E k v d ts arbitrary: ds rule: t_update.induct)
  case (1 E k v d ts)
  note E = "1.prems"(4) and k = "1.prems"(5,6)
  let ?i = "nib E k d"
  have len: "length ts = 16" using "1.prems"(1) by (simp add: placed_Idx)
  show ?case
  proof (cases "nib E k2 d = ?i")
    case False
    then have "\<not> key_equal E k k2" using good_keys_nib [OF E k] by metis
    then show ?thesis using False by (simp add: t_update_slot [OF len])
  next
    case True
    show ?thesis
    proof (rule slot_kinds [of "ts ! ?i"])
      assume "ts ! ?i = None"
      then show ?thesis using True len by (simp add: t_update_slot) (simp add: t_get.simps)
    next
      fix k' v' hash assume slot: "ts ! ?i = Some (Val k' v' hash)"
      have old: "t_get E k2 d (Idx ts) = (if key_equal E k' k2 then v' else empty_operand)"
        using slot True len by (simp add: t_get.simps)
      have k': "k' \<in> K" "on_path E k' ds" "nib E k' d = ?i"
        using placed_slot [OF "1.prems"(1) slot] "1.prems"(3) by (simp_all add: placed_Val)
      show ?thesis
      proof (cases "key_equal E k' k")
        case yes: True
        have "key_equal E k' k2 \<longleftrightarrow> key_equal E k k2"
          using good_keys_sym [OF E] good_keys_trans [OF E] k k'(1) yes by metis
        then show ?thesis using slot True old yes by (simp add: t_update_slot [OF len])
      next
        case no: False
        have not_both: "\<not> (key_equal E k' k2 \<and> key_equal E k k2)"
          using good_keys_sym [OF E] good_keys_trans [OF E] k k'(1) no by metis
        have "nib E k' (Suc d) \<noteq> nib E k (Suc d) \<or> nib E k' (Suc (Suc d)) \<noteq> nib E k (Suc (Suc d))"
          using good_keys_soon [OF E k'(1) k(1) no, of "Suc d"] same_path [OF k'(2) "1.prems"(2)] k'(3) "1.prems"(3) by simp
        then have "t_get E k2 (Suc d) (t_pair E k' v' k v (Suc d)) =
            (if key_equal E k' k2 then v' else if key_equal E k k2 then v else empty_operand)"
          using good_keys_nib [OF E] k k'(1) by (intro t_get_pair) blast+
        then show ?thesis using slot True old no not_both by (simp add: t_update_slot [OF len])
      qed
    next
      fix us assume slot: "ts ! ?i = Some (Idx us)"
      have "t_get E k2 (Suc d) (Idx (t_update E k v (Suc d) us)) = (if key_equal E k k2 then v else t_get E k2 (Suc d) (Idx us))"
        using "1.IH" [OF len slot refl placed_slot [OF "1.prems"(1) slot]] "1.prems" by simp
      then show ?thesis using slot True len by (simp add: t_update_slot) (simp add: t_get.simps)
    qed
  qed
qed

lemma t_get_remove_none:
  "t_remove E k d ts = None \<Longrightarrow> length ts = 16 \<Longrightarrow> placed E K ds (Idx ts) \<Longrightarrow> d = length ds \<Longrightarrow> t_get E k d (Idx ts) = empty_operand"
proof (induction E k d ts arbitrary: ds rule: t_remove.induct)
  case (1 E k d ts)
  let ?i = "nib E k d"
  consider "ts ! ?i = None" | k' v' hash where "ts ! ?i = Some (Val k' v' hash)" | us where "ts ! ?i = Some (Idx us)"
    by (metis htrie.exhaust option.exhaust)
  then show ?case
  proof cases
    case (3 us)
    have us: "placed E K (ds @ [?i]) (Idx us)" using placed_slot [OF "1.prems"(3) 3] .
    have "t_remove E k (Suc d) us = None" using "1.prems"(1,2) 3 by (simp add: t_remove.simps [of E k d ts])
    then have "t_get E k (Suc d) (Idx us) = empty_operand"
      using "1.IH" [OF "1.prems"(2) 3 refl _ _ us] us "1.prems"(4) by (simp add: placed_Idx)
    then show ?thesis using 3 by (simp add: t_get.simps)
  qed (use "1.prems"(1,2) in \<open>auto simp: t_get.simps t_remove.simps [of E k d ts] split: if_splits\<close>)
qed


lemma t_get_remove_some:
  "t_remove E k d ts = Some ts' \<Longrightarrow> placed E K ds (Idx ts) \<Longrightarrow> d = length ds \<Longrightarrow> good_keys E K \<Longrightarrow> k \<in> K \<Longrightarrow> k2 \<in> K \<Longrightarrow>
    t_get E k2 d (Idx ts') = (if key_equal E k k2 then empty_operand else t_get E k2 d (Idx ts))"
proof (induction E k d ts arbitrary: ds ts' rule: t_remove.induct)
  case (1 E k d ts)
  note E = "1.prems"(4) and k = "1.prems"(5,6) and step = t_remove.simps [of E k d ts]
  let ?i = "nib E k d"
  have len: "length ts = 16" using "1.prems"(2) by (simp add: placed_Idx)
  have other: "key_equal E k k2 \<longrightarrow> nib E k2 d = ?i" using good_keys_nib [OF E k] by metis
  show ?case
  proof (rule slot_kinds [of "ts ! ?i"])
    assume "ts ! ?i = None"
    then show ?thesis using "1.prems"(1) len by (simp add: step)
  next
    fix k' v' hash assume slot: "ts ! ?i = Some (Val k' v' hash)"
    then have yes: "key_equal E k' k" "ts' = ts[?i := None]" using "1.prems"(1) len by (simp_all add: step split: if_splits)
    have "k' \<in> K" using placed_slot [OF "1.prems"(2) slot] "1.prems"(3) by (simp add: placed_Val)
    then have "key_equal E k' k2 \<longleftrightarrow> key_equal E k k2"
      using good_keys_sym [OF E] good_keys_trans [OF E] k yes(1) by metis
    then show ?thesis using slot len yes other by (simp add: t_get_slot) (simp add: t_get.simps)
  next
    fix us assume slot: "ts ! ?i = Some (Idx us)"
    then obtain us' where us': "t_remove E k (Suc d) us = Some us'" "ts' = ts[?i := Some (Idx us')]"
      using "1.prems"(1) len by (auto simp: step)
    have "t_get E k2 (Suc d) (Idx us') = (if key_equal E k k2 then empty_operand else t_get E k2 (Suc d) (Idx us))"
      using "1.IH" [OF len slot refl us'(1) placed_slot [OF "1.prems"(2) slot]] "1.prems" by simp
    then show ?thesis using slot len us'(2) other by (simp add: t_get_slot) (simp add: t_get.simps)
  qed
qed

end
