(* ===== verification/MapsRefinement.thy ===== *)
theory MapsRefinement
  imports MapsTries SequencesRefinement
begin

text \<open>
  The operations of maps on the store are those of \<open>MapsTries\<close> on tries, and they leave every other trie of
  the store as it was.
\<close>

lemma run_bind_assoc: "run_bind (run_bind r f) g = run_bind r (\<lambda>x. run_bind (f x) g)"
proof (cases r)
  case (Some x)
  then show ?thesis by (cases x) simp_all
qed simp

lemma update_step:
  assumes n: "map_nodes h p = Some n" "mn_body n = IndexMapNode table" and arr: "arrives E k d hash bits"
    and cp: "copy_slots table (nib E k d) h = Inr h1"
  shows "map_update_at E p k v hash bits d h = (case table ! nib E k d of
      None \<Rightarrow> Some (Inr (let (node, h2) = new_value 1 k v (khash E k d) h1 in new_index 0 (table[nib E k d := Some node]) h2))
    | Some child \<Rightarrow> run_bind (Some (deref (map_nodes h1) child)) (\<lambda>n.
        case mn_body n of
          ValueMapNode k' v' hash' \<Rightarrow>
            if key_equal E k' k
            then Some (Inr (let (node, h2) = new_value 1 k v (khash E k d) h1 in new_index 0 (table[nib E k d := Some node]) h2))
            else (let (node, h2) = new_index 1 empty_table h1
              in run_bind (run_bind (map_construct E node k' v' (shifted hash') (level_bits d - BITS_PER_LEVEL) (Suc d) h2)
                  (map_construct E node k v (shifted (khash E k d)) (level_bits d - BITS_PER_LEVEL) (Suc d)))
                (\<lambda>h4. Some (Inr (new_index 0 (table[nib E k d := Some node]) h4))))
        | IndexMapNode t \<Rightarrow>
            run_bind (map_update_at E child k v (shifted (khash E k d)) (level_bits d - BITS_PER_LEVEL) (Suc d) h1)
              (\<lambda>nh. Some (Inr (new_index 0 (table[nib E k d := Some (fst nh)]) (snd nh))))))"
  using n arrivesD(1) [OF arr] cp
  by (subst map_update_at.simps)
    (simp add: index_table_def deref_def run_bind_assoc split_def Let_def cong: option.case_cong map_body.case_cong if_cong)


text \<open>The copy of an index node with one slot changed.\<close>

lemma replaced_slot:
  assumes h: "store_ok h" "slots_at (map_nodes h) table ts" and t: "trie_at (map_nodes h) c t" "i < 16"
  obtains q h' where "new_index n (table[i := Some c]) h = (q, h')" "grows h h'" "trie_at (map_nodes h') q (Idx (ts[i := Some t]))"
  using new_index_trie [OF h(1) slots_at_update [OF h(2) t(2,1)]] by (metis surj_pair)

lemma value_slot:
  assumes h: "store_ok h" "slots_at (map_nodes h) table ts" and i: "i < 16"
  obtains q h' where "(let (node, h2) = new_value m k v hash h in new_index n (table[i := Some node]) h2) = (q, h')"
    "grows h h'" "trie_at (map_nodes h') q (Idx (ts[i := Some (Val k v hash)]))"
proof -
  obtain c h1 where c: "new_value m k v hash h = (c, h1)" by (metis surj_pair)
  have g: "grows h h1" and t: "trie_at (map_nodes h1) c (Val k v hash)" using new_value_trie [OF h(1) c] by simp_all
  have "slots_at (map_nodes h1) table ts" using slots_at_same [OF h(2)] g by (simp add: grows_def)
  then show thesis using replaced_slot [OF grows_ok [OF g] _ t i] that c grows_trans [OF g] by (metis case_prod_conv)
qed

lemma grows_slots: "grows h h' \<Longrightarrow> slots_at (map_nodes h) table ts \<Longrightarrow> slots_at (map_nodes h') table ts"
  by (auto simp: grows_def intro: slots_at_same)

lemma update_ok:
  "trie_at (map_nodes h) p (Idx ts) \<Longrightarrow> placed E K ds (Idx ts) \<Longrightarrow> store_ok h \<Longrightarrow> arrives E k d hash bits \<Longrightarrow>
    on_path E k ds \<Longrightarrow> d = length ds \<Longrightarrow> good_keys E K \<Longrightarrow> k \<in> K \<Longrightarrow>
    \<exists>q h'. map_update_at E p k v hash bits d h = Some (Inr (q, h')) \<and> trie_at (map_nodes h') q (Idx (t_update E k v d ts)) \<and> grows h h'"
proof (induction E k v d ts arbitrary: ds p h hash bits rule: t_update.induct)
  case (1 E k v d ts)
  note E = "1.prems"(7) and k = "1.prems"(8)
  let ?i = "nib E k d"
  have len: "length ts = 16" using "1.prems"(2) by (simp add: placed_Idx)
  obtain n table where n: "map_nodes h p = Some n" "mn_body n = IndexMapNode table" "slots_at (map_nodes h) table ts"
    using "1.prems"(1) by (auto simp: trie_at_Idx)
  obtain h1 where h1: "copy_slots table ?i h = Inr h1" "grows h h1" using copy_slots_grows [OF "1.prems"(3) n(3)] .
  note step = update_step [OF n(1,2) "1.prems"(4) h1(1)] and upd = t_update.simps [of E k v d ts]
  have ok1: "store_ok h1" and at1: "slots_at (map_nodes h1) table ts" using grows_ok [OF h1(2)] grows_slots [OF h1(2) n(3)] .
  obtain q h' where new: "(let (node, h2) = new_value 1 k v (khash E k d) h1 in new_index 0 (table[?i := Some node]) h2) = (q, h')"
      "grows h1 h'" "trie_at (map_nodes h') q (Idx (ts[?i := Some (Val k v (khash E k d))]))"
    using value_slot [OF ok1 at1 nib_bound] .
  show ?case
  proof (rule slots_at_cases [OF at1 nib_bound [of E k d]])
    assume "ts ! ?i = None" "table ! ?i = None"
    then show ?thesis using new grows_trans [OF h1(2)] len by (simp add: step upd)
  next
    fix k' v' hash' c m
    assume c: "ts ! ?i = Some (Val k' v' hash')" "table ! ?i = Some c" "map_nodes h1 c = Some m" "mn_body m = ValueMapNode k' v' hash'"
    show ?thesis
    proof (cases "key_equal E k' k")
      case True
      then show ?thesis using c new grows_trans [OF h1(2)] len by (simp add: step upd deref_def)
    next
      case False
      have k': "k' \<in> K" "on_path E k' ds" "nib E k' d = ?i" "hash' = khash E k' d"
        using placed_slot [OF "1.prems"(2) c(1)] "1.prems"(6) by (simp_all add: placed_Val)
      have apart: "nib E k' (Suc d) \<noteq> nib E k (Suc d) \<or> nib E k' (Suc (Suc d)) \<noteq> nib E k (Suc (Suc d)) \<and> Suc (Suc d) < 32"
        using good_keys_soon [OF E k'(1) k False, of "Suc d"] same_path [OF k'(2) "1.prems"(5)] k'(3) "1.prems"(6) by simp
      obtain node h2 where h2: "new_index 1 empty_table h1 = (node, h2)" by (metis surj_pair)
      obtain h4 where h4: "run_bind (map_construct E node k' v' (shifted (khash E k' d)) (level_bits d - BITS_PER_LEVEL) (Suc d) h2)
          (map_construct E node k v (shifted (khash E k d)) (level_bits d - BITS_PER_LEVEL) (Suc d)) = Some (Inr h4)"
          "trie_at (map_nodes h4) node (t_pair E k' v' k v (Suc d))" "grows h1 h4"
        using pair_ok [OF ok1 arrives_next arrives_next False apart] h2 by auto
      obtain q' h'' where "new_index 0 (table[?i := Some node]) h4 = (q', h'')" "grows h4 h''"
          "trie_at (map_nodes h'') q' (Idx (ts[?i := Some (t_pair E k' v' k v (Suc d))]))"
        using replaced_slot [OF grows_ok [OF h4(3)] grows_slots [OF h4(3) at1] h4(2) nib_bound] .
      then show ?thesis using c h2 h4 False k'(4) len grows_trans [OF h1(2)] grows_trans [OF h4(3)]
        by (simp add: step upd deref_def)
    qed
  next
    fix us c m table'
    assume c: "ts ! ?i = Some (Idx us)" "table ! ?i = Some c" "map_nodes h1 c = Some m" "mn_body m = IndexMapNode table'"
      "trie_at (map_nodes h1) c (Idx us)"
    obtain r h3 where h3: "map_update_at E c k v (shifted (khash E k d)) (level_bits d - BITS_PER_LEVEL) (Suc d) h1 = Some (Inr (r, h3))"
        "trie_at (map_nodes h3) r (Idx (t_update E k v (Suc d) us))" "grows h1 h3"
      using "1.IH" [OF len c(1) refl c(5) placed_slot [OF "1.prems"(2) c(1)] ok1 arrives_next] "1.prems"(5-8) by auto
    obtain q' h'' where "new_index 0 (table[?i := Some r]) h3 = (q', h'')" "grows h3 h''"
        "trie_at (map_nodes h'') q' (Idx (ts[?i := Some (Idx (t_update E k v (Suc d) us))]))"
      using replaced_slot [OF grows_ok [OF h3(3)] grows_slots [OF h3(3) at1] h3(2) nib_bound] .
    then show ?thesis using c h3 len grows_trans [OF h1(2)] grows_trans [OF h3(3)] by (simp add: step upd deref_def)
  qed
qed


subsection \<open>Removal\<close>

lemma remove_step:
  assumes n: "map_nodes h p = Some n" "mn_body n = IndexMapNode table" and arr: "arrives E k d hash bits"
  shows "map_remove_at E p k hash bits d h = (case table ! nib E k d of
      None \<Rightarrow> Some (Inr (None, h))
    | Some child \<Rightarrow> run_bind (Some (deref (map_nodes h) child)) (\<lambda>n.
        case mn_body n of
          ValueMapNode k' v' hash' \<Rightarrow>
            if \<not> key_equal E k' k then Some (Inr (None, h))
            else Some (then_do (copy_slots table (nib E k d) h) (\<lambda>h1.
              let (removed, h2) = new_index 0 (table[nib E k d := None]) h1 in Inr (Some removed, h2)))
        | IndexMapNode t \<Rightarrow>
            run_bind (map_remove_at E child k (shifted (khash E k d)) (level_bits d - BITS_PER_LEVEL) (Suc d) h) (\<lambda>ch.
              case fst ch of
                None \<Rightarrow> Some (Inr (None, snd ch))
              | Some c \<Rightarrow> Some (then_do (copy_slots table (nib E k d) (snd ch)) (\<lambda>h1. then_do (map_increment c h1) (\<lambda>h2.
                  let (removed, h3) = new_index 0 (table[nib E k d := Some c]) h2 in Inr (Some removed, h3)))))))"
  using n arrivesD(1) [OF arr]
  by (subst map_remove_at.simps)
    (simp add: index_table_def deref_def Let_def cong: option.case_cong map_body.case_cong if_cong)

definition removed_ok :: "map_heap \<Rightarrow> htrie option list option \<Rightarrow> nat option \<Rightarrow> map_heap \<Rightarrow> bool" where
  "removed_ok h ts' r h' \<longleftrightarrow> (case r of None \<Rightarrow> ts' = None \<and> h' = h
    | Some q \<Rightarrow> (\<exists>us. ts' = Some us \<and> trie_at (map_nodes h') q (Idx us)) \<and> grows h h')"

lemma remove_ok:
  "trie_at (map_nodes h) p (Idx ts) \<Longrightarrow> store_ok h \<Longrightarrow> arrives E k d hash bits \<Longrightarrow>
    \<exists>r h'. map_remove_at E p k hash bits d h = Some (Inr (r, h')) \<and> removed_ok h (t_remove E k d ts) r h'"
proof (induction E k d ts arbitrary: p hash bits rule: t_remove.induct)
  case (1 E k d ts)
  let ?i = "nib E k d"
  obtain n table where n: "map_nodes h p = Some n" "mn_body n = IndexMapNode table" "slots_at (map_nodes h) table ts"
    using "1.prems"(1) by (auto simp: trie_at_Idx)
  have len: "length ts = 16" using n(3) by (simp add: slots_at_def)
  note step = remove_step [OF n(1,2) "1.prems"(3)] and rem = t_remove.simps [of E k d ts]
  show ?case
  proof (rule slots_at_cases [OF n(3) nib_bound [of E k d]])
    assume "ts ! ?i = None" "table ! ?i = None"
    then show ?thesis using len by (simp add: step rem removed_ok_def)
  next
    fix k' v' hash' c m
    assume c: "ts ! ?i = Some (Val k' v' hash')" "table ! ?i = Some c" "map_nodes h c = Some m" "mn_body m = ValueMapNode k' v' hash'"
    obtain h1 where h1: "copy_slots table ?i h = Inr h1" "grows h h1" using copy_slots_grows [OF "1.prems"(2) n(3)] .
    obtain q h2 where h2: "new_index 0 (table[?i := None]) h1 = (q, h2)" by (metis surj_pair)
    have "grows h1 h2" "trie_at (map_nodes h2) q (Idx (ts[?i := None]))"
      using new_index_trie [OF grows_ok [OF h1(2)] slots_at_remove [OF grows_slots [OF h1(2) n(3)]] h2] .
    then show ?thesis using c h1 h2 len grows_trans by (auto simp: step rem removed_ok_def deref_def)
  next
    fix us c m table'
    assume c: "ts ! ?i = Some (Idx us)" "table ! ?i = Some c" "map_nodes h c = Some m" "mn_body m = IndexMapNode table'"
      "trie_at (map_nodes h) c (Idx us)"
    obtain r h3 where h3: "map_remove_at E c k (shifted (khash E k d)) (level_bits d - BITS_PER_LEVEL) (Suc d) h = Some (Inr (r, h3))"
        "removed_ok h (t_remove E k (Suc d) us) r h3"
      using "1.IH" [OF len c(1) refl c(5) "1.prems"(2) arrives_next] by auto
    show ?thesis
    proof (cases r)
      case None
      then show ?thesis using c h3 len by (simp add: step rem removed_ok_def deref_def)
    next
      case (Some q)
      then obtain us' where us': "t_remove E k (Suc d) us = Some us'" "trie_at (map_nodes h3) q (Idx us')" "grows h h3"
        using h3(2) by (auto simp: removed_ok_def)
      obtain h4 where h4: "copy_slots table ?i h3 = Inr h4" "grows h3 h4"
        using copy_slots_grows [OF grows_ok [OF us'(3)] grows_slots [OF us'(3) n(3)]] .
      obtain m' where m': "map_nodes h4 q = Some m'" using grows_trie [OF h4(2) us'(2)] by (auto simp: trie_at_Idx)
      obtain h5 where h5: "map_increment q h4 = Inr h5" "grows h4 h5" using map_increment_grows [OF grows_ok [OF h4(2)] m'] by auto
      have g: "grows h3 h5" using grows_trans [OF h4(2) h5(2)] .
      obtain q' h6 where h6: "new_index 0 (table[?i := Some q]) h5 = (q', h6)" "grows h5 h6"
          "trie_at (map_nodes h6) q' (Idx (ts[?i := Some (Idx us')]))"
        using replaced_slot [OF grows_ok [OF g] grows_slots [OF g grows_slots [OF us'(3) n(3)]] grows_trie [OF g us'(2)] nib_bound] .
      then show ?thesis using c h3(1) Some us' h4 h5 len grows_trans [OF us'(3) grows_trans [OF g h6(2)]]
        by (simp add: step rem removed_ok_def deref_def)
    qed
  qed
qed

subsection \<open>Maps\<close>

definition is_map :: "map_heap \<Rightarrow> nat \<Rightarrow> bool" where
  "is_map h p \<longleftrightarrow> (\<exists>t. trie_at (map_nodes h) p t)"

definition index_map :: "map_env \<Rightarrow> operand set \<Rightarrow> map_heap \<Rightarrow> nat \<Rightarrow> bool" where
  "index_map E K h p \<longleftrightarrow> store_ok h \<and> (\<exists>ts. trie_at (map_nodes h) p (Idx ts) \<and> placed E K [] (Idx ts))"

lemma get_ok: "trie_at (map_nodes h) p t \<Longrightarrow> mapGet E h (Some p) k = Some (Inr (t_get E k 0 t))"
  using search_ok [OF _ _ arrives_start] by (cases t) (auto simp: mapGet_def deref_def trie_at_Idx)

lemma grows_get: "grows h h' \<Longrightarrow> is_map h p \<Longrightarrow> mapGet E h' (Some p) k = mapGet E h (Some p) k"
  by (metis get_ok grows_trie is_map_def)

text \<open>What the operations leave alone: the results of every other map, and what references hold.\<close>

definition others_kept :: "map_env \<Rightarrow> map_heap \<Rightarrow> map_heap \<Rightarrow> bool" where
  "others_kept E h h' \<longleftrightarrow> map_refs h' = map_refs h \<and> map_iters h' = map_iters h \<and>
    (\<forall>r. is_map h r \<longrightarrow> is_map h' r \<and> (\<forall>k. mapGet E h' (Some r) k = mapGet E h (Some r) k))"

lemma grows_others: "grows h h' \<Longrightarrow> others_kept E h h'"
  by (auto simp: others_kept_def grows_get) (auto simp: grows_def is_map_def intro: trie_at_same)

lemma update_map_trie:
  assumes "trie_at (map_nodes h) p (Idx ts)" "placed E K [] (Idx ts)" "store_ok h" "good_keys E K" "k \<in> K"
  shows "\<exists>q h'. mapUpdate E (Some p) k v h = Some (Inr (q, h')) \<and> trie_at (map_nodes h') q (Idx (t_update E k v 0 ts)) \<and> grows h h'"
  using update_ok [OF assms(1-3) arrives_start, of k v] assms(1,4,5) by (auto simp: mapUpdate_def on_path_def trie_at_Idx deref_def)

lemma remove_map_trie:
  assumes "trie_at (map_nodes h) p (Idx ts)" "store_ok h"
  shows "\<exists>r h'. mapRemove E (Some p) k h = Some (Inr (r, h')) \<and> removed_ok h (t_remove E k 0 ts) r h'"
  using remove_ok [OF assms arrives_start, of E k] assms(1) by (auto simp: mapRemove_def trie_at_Idx deref_def)


subsection \<open>The laws of maps\<close>

text \<open>C4. Updating a map whose root is an index node returns, and gives a map with the new value at the key and the
  values of the old map at every other key; all other maps of the store, the old one among them, keep their values,
  whatever nodes they share with the new map. The keys are told apart by the first three digits of their hashes.\<close>

theorem update_is_persistent:
  assumes "index_map E K h p" "good_keys E K" "k \<in> K"
  shows "\<exists>q h'. mapUpdate E (Some p) k v h = Some (Inr (q, h')) \<and> index_map E K h' q \<and> others_kept E h h' \<and>
    (\<forall>k2 \<in> K. mapGet E h' (Some q) k2 = (if key_equal E k k2 then Some (Inr v) else mapGet E h (Some p) k2))"
proof -
  obtain ts where ts: "trie_at (map_nodes h) p (Idx ts)" "placed E K [] (Idx ts)" "store_ok h"
    using assms(1) by (auto simp: index_map_def)
  obtain q h' where q: "mapUpdate E (Some p) k v h = Some (Inr (q, h'))" "trie_at (map_nodes h') q (Idx (t_update E k v 0 ts))" "grows h h'"
    using update_map_trie [OF ts assms(2,3), of v] by auto
  have "placed E K [] (Idx (t_update E k v 0 ts))"
    using placed_update [OF ts(2) assms(3), of v] by (simp add: on_path_def)
  moreover have "t_get E k2 0 (Idx (t_update E k v 0 ts)) = (if key_equal E k k2 then v else t_get E k2 0 (Idx ts))" if "k2 \<in> K" for k2
    using t_get_update [OF ts(2) _ _ assms(2,3) that] by (simp add: on_path_def)
  ultimately show ?thesis
    using q ts(1) grows_others [OF q(3)] grows_ok [OF q(3)] by (auto simp: index_map_def get_ok)
qed

lemma remove_from_index:
  assumes "index_map E K h p" "good_keys E K" "k \<in> K"
  shows "\<exists>r h'. mapRemove E (Some p) k h = Some (Inr (r, h')) \<and> (case r of
      None \<Rightarrow> h' = h \<and> mapGet E h (Some p) k = Some (Inr empty_operand)
    | Some q \<Rightarrow> index_map E K h' q \<and> others_kept E h h' \<and>
        (\<forall>k2 \<in> K. mapGet E h' (Some q) k2 = (if key_equal E k k2 then Some (Inr empty_operand) else mapGet E h (Some p) k2)))"
proof -
  obtain ts where ts: "trie_at (map_nodes h) p (Idx ts)" "placed E K [] (Idx ts)" "store_ok h"
    using assms(1) by (auto simp: index_map_def)
  obtain r h' where r: "mapRemove E (Some p) k h = Some (Inr (r, h'))" "removed_ok h (t_remove E k 0 ts) r h'"
    using remove_map_trie [OF ts(1,3)] by blast
  show ?thesis
  proof (cases r)
    case None
    then have "t_get E k 0 (Idx ts) = empty_operand" "h' = h"
      using t_get_remove_none [of E k 0 ts K "[]"] r(2) ts(2) by (auto simp: removed_ok_def placed_Idx)
    then show ?thesis using r(1) None ts(1) by (simp add: get_ok)
  next
    case (Some q)
    then obtain us where us: "t_remove E k 0 ts = Some us" "trie_at (map_nodes h') q (Idx us)" "grows h h'"
      using r(2) by (auto simp: removed_ok_def)
    have "placed E K [] (Idx us)" using placed_remove [OF ts(2), of k us] us(1) by simp
    moreover have "t_get E k2 0 (Idx us) = (if key_equal E k k2 then empty_operand else t_get E k2 0 (Idx ts))" if "k2 \<in> K" for k2
      using t_get_remove_some [OF us(1) ts(2) _ assms(2,3) that] by simp
    ultimately show ?thesis
      using r(1) Some us(2) ts(1) grows_others [OF us(3)] grows_ok [OF us(3)] by (auto simp: index_map_def get_ok)
  qed
qed

text \<open>What the root of a map may be: no node, a node of one value, or an index node.\<close>

definition map_root :: "map_env \<Rightarrow> operand set \<Rightarrow> map_heap \<Rightarrow> nat option \<Rightarrow> bool" where
  "map_root E K h root \<longleftrightarrow> (case root of
      None \<Rightarrow> True
    | Some p \<Rightarrow> index_map E K h p \<or> store_ok h \<and> (\<exists>a v hash. a \<in> K \<and> trie_at (map_nodes h) p (Val a v hash)))"

text \<open>C21. Removing a key from a map, which is empty, holds one value, or has an index node as its root, returns: when
  the key has no value, without a new map and with the store as it was; otherwise with a map that has no value at the
  key and those of the old map at every other key, while all other maps keep their values. The keys are told apart by
  the first three digits of their hashes.\<close>

theorem remove_is_persistent:
  assumes "map_root E K h root" "good_keys E K" "k \<in> K"
  shows "\<exists>r h'. mapRemove E root k h = Some (Inr (r, h')) \<and> (case r of
      None \<Rightarrow> h' = h \<and> mapGet E h root k = Some (Inr empty_operand)
    | Some q \<Rightarrow> index_map E K h' q \<and> others_kept E h h' \<and>
        (\<forall>k2 \<in> K. mapGet E h' (Some q) k2 = (if key_equal E k k2 then Some (Inr empty_operand) else mapGet E h root k2)))"
proof (cases root)
  case None
  then show ?thesis by (simp add: mapRemove_def mapGet_def)
next
  case (Some p)
  consider (index) "index_map E K h p"
    | (single) a v hash where "store_ok h" "a \<in> K" "trie_at (map_nodes h) p (Val a v hash)"
    using assms(1) Some by (auto simp: map_root_def)
  then show ?thesis
  proof cases
    case index
    then show ?thesis unfolding Some by (rule remove_from_index [OF _ assms(2,3)])
  next
    case single
    have get: "mapGet E h (Some p) k2 = Some (Inr (if key_equal E a k2 then v else empty_operand))" for k2
      using get_ok [OF single(3)] by simp
    obtain n where n: "map_nodes h p = Some n" "mn_body n = ValueMapNode a v hash"
      using single(3) by auto
    show ?thesis
    proof (cases "key_equal E a k")
      case False
      then show ?thesis using Some n get by (simp add: mapRemove_def deref_def)
    next
      case True
      obtain q h' where q: "new_index 0 empty_table h = (q, h')" by (metis surj_pair)
      note new = new_index_trie [OF single(1) empty_slots_at q]
      have "mapGet E h' (Some q) k2 = Some (Inr empty_operand)" for k2
        using get_ok [OF new(2)] t_get_empty by simp
      moreover have "\<not> key_equal E a k2" if "k2 \<in> K" "\<not> key_equal E k k2" for k2
        using assms(2,3) single(2) True that unfolding good_keys_def by blast
      moreover have "index_map E K h' q" using new(2) grows_ok [OF new(1)] placed_empty by (auto simp: index_map_def)
      ultimately show ?thesis
        using Some n get True q grows_others [OF new(1)] by (auto simp: mapRemove_def deref_def Let_def)
    qed
  qed
qed

subsection \<open>Examples\<close>

text \<open>Integers of eight bits as keys, hashed to their place in the upper bits.\<close>

definition sample_hash :: "operand \<Rightarrow> u32" where
  "sample_hash k = (case getI8 k of None \<Rightarrow> 0 | Some b \<Rightarrow> push_bit 20 (ucast b))"

definition map_sample :: map_env where
  "map_sample = native_env.extend native_sample
    \<lparr>me_vtable = \<lambda>r. 0, me_pair = \<lambda>r. (empty_operand, empty_operand), me_hash = sample_hash, me_rehash = \<lambda>k level. sample_hash k\<rparr>"

definition empty_index :: map_heap where
  "empty_index = \<lparr>map_nodes = [0 \<mapsto> \<lparr>mn_refcount = 1, mn_body = IndexMapNode empty_table\<rparr>], map_next = 1,
    map_refs = Map.empty, map_iters = Map.empty\<rparr>"

lemma sample_fields [simp]: "getI8 (sample_value b) = Some b" "getType (sample_value b) = TyInt8"
  using endian.getI8_fromI8 [OF endian_little, of "replicate 8 0" b] by (simp_all add: sample_value_def)

lemma sample_key_equal [simp]: "key_equal map_sample (sample_value a) (sample_value b) \<longleftrightarrow> a = b"
  by (simp add: key_equal_def values_match_def values_equal_def)

lemma sample_hashes [simp]:
  "me_hash map_sample (sample_value b) = push_bit 20 (ucast b)" "me_rehash map_sample (sample_value b) level = push_bit 20 (ucast b)"
  by (simp_all add: map_sample_def sample_hash_def map_env.defs native_env.defs)

definition sample_keys :: "operand set" where
  "sample_keys = {sample_value 1, sample_value 2, sample_value 18}"

lemma sample_good: "good_keys map_sample sample_keys"
  by (simp add: good_keys_def sample_keys_def first_digits_def nib_def khash_def slot_of_def BITS_PER_LEVEL_def)

lemma empty_index_map: "index_map E K empty_index 0"
proof -
  have "store_ok empty_index" by (simp add: store_ok_def empty_index_def)
  moreover have "trie_at (map_nodes empty_index) 0 (Idx no_slots)" by (simp add: trie_at_Idx empty_slots_at empty_index_def)
  ultimately show ?thesis using placed_empty by (auto simp: index_map_def)
qed

theorem update_is_persistent_witness:
  "\<exists>q h q2 h2. mapUpdate map_sample (Some 0) (sample_value 1) (sample_value 7) empty_index = Some (Inr (q, h)) \<and>
    mapUpdate map_sample (Some q) (sample_value 2) (sample_value 8) h = Some (Inr (q2, h2)) \<and>
    mapGet map_sample h2 (Some q2) (sample_value 1) = Some (Inr (sample_value 7)) \<and>
    mapGet map_sample h2 (Some q2) (sample_value 2) = Some (Inr (sample_value 8)) \<and>
    mapGet map_sample h2 (Some q) (sample_value 2) = mapGet map_sample h (Some q) (sample_value 2)"
proof -
  have k: "sample_value 1 \<in> sample_keys" "sample_value 2 \<in> sample_keys" by (simp_all add: sample_keys_def)
  obtain q h where h: "mapUpdate map_sample (Some 0) (sample_value 1) (sample_value 7) empty_index = Some (Inr (q, h))"
      "index_map map_sample sample_keys h q" "mapGet map_sample h (Some q) (sample_value 1) = Some (Inr (sample_value 7))"
    using update_is_persistent [OF empty_index_map sample_good k(1), of "sample_value 7"] k by auto
  have "is_map h q" using h(2) by (auto simp: index_map_def is_map_def)
  then show ?thesis using update_is_persistent [OF h(2) sample_good k(2), of "sample_value 8"] h k by (auto simp: others_kept_def)
qed


definition one_slot :: "htrie option list" where
  "one_slot = no_slots[0 := Some (Val (sample_value 1) (sample_value 7) (push_bit 20 1))]"

definition one_value :: map_heap where
  "one_value = \<lparr>map_nodes = [0 \<mapsto> \<lparr>mn_refcount = 1, mn_body = IndexMapNode (empty_table[0 := Some 1])\<rparr>,
      1 \<mapsto> \<lparr>mn_refcount = 1, mn_body = ValueMapNode (sample_value 1) (sample_value 7) (push_bit 20 1)\<rparr>],
    map_next = 2, map_refs = [8 \<mapsto> Some 0], map_iters = Map.empty\<rparr>"

lemma one_value_trie: "trie_at (map_nodes one_value) 0 (Idx one_slot)"
proof -
  have "slots_at (map_nodes one_value) (empty_table[0 := Some 1]) one_slot"
    unfolding one_slot_def by (rule slots_at_update [OF empty_slots_at]) (simp_all add: one_value_def)
  then show ?thesis by (simp add: trie_at_Idx) (simp add: one_value_def)
qed

lemma one_value_map: "index_map map_sample sample_keys one_value 0"
proof -
  have "placed map_sample sample_keys [] (Idx one_slot)"
    unfolding one_slot_def
    by (intro placed_set placed_empty)
      (auto simp: placed.simps sample_keys_def khash_def nib_def slot_of_def BITS_PER_LEVEL_def)
  moreover have "store_ok one_value" by (auto simp: store_ok_def one_value_def)
  ultimately show ?thesis using one_value_trie by (auto simp: index_map_def)
qed

theorem remove_is_persistent_witness:
  "\<exists>q h. mapRemove map_sample (Some 0) (sample_value 1) one_value = Some (Inr (Some q, h)) \<and>
    mapGet map_sample h (Some q) (sample_value 1) = Some (Inr empty_operand) \<and>
    mapGet map_sample h (Some 0) (sample_value 1) = Some (Inr (sample_value 7))"
proof -
  have k: "sample_value 1 \<in> sample_keys" by (simp add: sample_keys_def)
  have "nib map_sample (sample_value 1) 0 = 0" by (simp add: nib_def khash_def slot_of_def BITS_PER_LEVEL_def)
  then have get: "mapGet map_sample one_value (Some 0) (sample_value 1) = Some (Inr (sample_value 7))"
    using get_ok [OF one_value_trie, of map_sample "sample_value 1"] by (simp add: t_get.simps(2) one_slot_def)
  have "getType empty_operand = TyInvalid" by code_simp
  then have "getType (sample_value 7) \<noteq> getType empty_operand" by simp
  then have "sample_value 7 \<noteq> empty_operand" by metis
  moreover obtain r h where r: "mapRemove map_sample (Some 0) (sample_value 1) one_value = Some (Inr (r, h))"
      "case r of None \<Rightarrow> h = one_value \<and> mapGet map_sample one_value (Some 0) (sample_value 1) = Some (Inr empty_operand)
        | Some q \<Rightarrow> index_map map_sample sample_keys h q \<and> others_kept map_sample one_value h \<and> (\<forall>k2 \<in> sample_keys.
            mapGet map_sample h (Some q) k2 = (if key_equal map_sample (sample_value 1) k2 then Some (Inr empty_operand)
              else mapGet map_sample one_value (Some 0) k2))"
    using remove_is_persistent [of map_sample sample_keys one_value "Some 0", OF _ sample_good k] one_value_map
    by (auto simp: map_root_def)
  moreover have "is_map one_value 0" using one_value_trie by (auto simp: is_map_def)
  ultimately show ?thesis using k get by (cases r) (auto simp: others_kept_def)
qed

end
