(* ===== verification/MapsIteration.thy ===== *)
theory MapsIteration
  imports MapsRefinement
begin

text \<open>
  The size of a map and its iterators: both go through the values of a trie in the order of its slots.
  The stack of an iterator stands for the values that it has yet to give, \<open>remaining\<close>.
\<close>

primrec t_entries :: "htrie \<Rightarrow> (operand \<times> operand) list" where
  "t_entries (Val k v hash) = [(k, v)]"
| "t_entries (Idx ts) = concat (map (case_option [] id) (map (map_option t_entries) ts))"

abbreviation slot_entries :: "htrie option list \<Rightarrow> (operand \<times> operand) list" where
  "slot_entries ts \<equiv> concat (map (case_option [] id) (map (map_option t_entries) ts))"

text \<open>No index node is empty.\<close>

primrec bushy :: "htrie \<Rightarrow> bool" where
  "bushy (Val k v hash) \<longleftrightarrow> True"
| "bushy (Idx ts) \<longleftrightarrow> list_ex (\<lambda>s. s \<noteq> None) ts \<and> list_all (case_option True id) (map (map_option bushy) ts)"

subsection \<open>Size\<close>

abbreviation slots_rel :: "map_heap \<Rightarrow> nat option list \<Rightarrow> htrie option list \<Rightarrow> bool" where
  "slots_rel h \<equiv> list_all2 (rel_option (trie_at (map_nodes h)))"

lemma slots_at_rel: "slots_at (map_nodes h) table ts \<Longrightarrow> slots_rel h table ts"
  by (simp add: slots_at_def list_all2_conv_all_nth)

lemma slots_size_ok:
  "slots_rel h cs ts \<Longrightarrow> slots_size h cs n = Some (Inr (n + int (length (slot_entries ts))))"
proof (induction "size_list (size_option size) ts" arbitrary: ts cs n rule: less_induct)
  case less
  show ?case
  proof (cases ts)
    case Nil
    then show ?thesis using less.prems by (subst slots_size.simps) simp
  next
    case (Cons s rest)
    obtain c cs' where cs: "cs = c # cs'" "rel_option (trie_at (map_nodes h)) c s" "slots_rel h cs' rest"
      using less.prems Cons by (auto simp: list_all2_Cons2)
    have ih: "slots_size h cs' m = Some (Inr (m + int (length (slot_entries rest))))" for m
      using less.hyps [OF _ cs(3)] Cons by simp
    show ?thesis
    proof (rule slot_kinds [of s])
      assume "s = None"
      then show ?thesis using Cons cs ih by (subst slots_size.simps) simp
    next
      fix k v hash assume "s = Some (Val k v hash)"
      then show ?thesis using Cons cs ih by (subst slots_size.simps) (auto simp: option_rel_Some2 deref_def)
    next
      fix us assume s: "s = Some (Idx us)"
      then obtain p m table where p: "c = Some p" "map_nodes h p = Some m" "mn_body m = IndexMapNode table" "slots_rel h table us"
        using cs(2) by (auto simp: option_rel_Some2 trie_at_Idx dest: slots_at_rel)
      have "slots_size h table n = Some (Inr (n + int (length (slot_entries us))))"
        using less.hyps [OF _ p(4)] Cons s by simp
      then show ?thesis using Cons cs s p ih by (subst slots_size.simps) (simp add: deref_def)
    qed
  qed
qed

lemma size_ok: "trie_at (map_nodes h) p t \<Longrightarrow> mapSize h (Some p) = Some (Inr (int (length (t_entries t))))"
  using slots_size_ok [OF slots_at_rel, of h _ _ 0] by (cases t) (auto simp: mapSize_def deref_def trie_at_Idx)

subsection \<open>Iterators\<close>

lemma find_child_none: "list_all (\<lambda>c. c = None) cs \<Longrightarrow> find_child i cs = - 1"
  by (induction i cs rule: find_child.induct) auto

lemma find_child_some:
  "list_ex (\<lambda>c. c \<noteq> None) cs \<Longrightarrow> \<exists>j. find_child i cs = int (i + j) \<and> j < length cs \<and> cs ! j \<noteq> None \<and> list_all (\<lambda>c. c = None) (take j cs)"
proof (induction i cs rule: find_child.induct)
  case (2 i cs)
  then obtain j where "find_child (Suc i) cs = int (Suc i + j)" "j < length cs" "cs ! j \<noteq> None" "list_all (\<lambda>c. c = None) (take j cs)" by auto
  then show ?case by (intro exI [of _ "Suc j"]) simp
qed (auto intro: exI [of _ 0])

lemma rel_none: "list_all2 (rel_option R) cs ts \<Longrightarrow> list_all (\<lambda>c. c = None) cs \<longleftrightarrow> list_all (\<lambda>t. t = None) ts"
  by (induction rule: list_all2_induct) (auto simp: option.rel_sel)

lemma entries_none: "list_all (\<lambda>t. t = None) ts \<Longrightarrow> slot_entries ts = []"
  by (induction ts) auto

lemma entries_from: "j < length ts \<Longrightarrow> list_all (\<lambda>t. t = None) (take j ts) \<Longrightarrow>
    slot_entries ts = (case ts ! j of None \<Rightarrow> [] | Some t \<Rightarrow> t_entries t) @ slot_entries (drop (Suc j) ts)"
  by (subst id_take_nth_drop [of j ts]) (auto simp: list_all_iff dest: bspec split: option.splits)

fun remaining :: "map_heap \<Rightarrow> (nat \<times> int) list \<Rightarrow> (operand \<times> operand) list \<Rightarrow> bool" where
  "remaining h [] es \<longleftrightarrow> es = []"
| "remaining h ((p, i) # stack) es \<longleftrightarrow> (\<exists>ts es'. trie_at (map_nodes h) p (Idx ts) \<and> bushy (Idx ts) \<and> 0 \<le> i \<and> i < 16 \<and>
    es = slot_entries (drop (Suc (nat i)) ts) @ es' \<and> remaining h stack es')"

definition cursor :: "map_heap \<Rightarrow> (nat \<times> int) list \<Rightarrow> (operand \<times> operand) list \<Rightarrow> bool" where
  "cursor h stack es \<longleftrightarrow> (case stack of [] \<Rightarrow> es = []
    | (p, i) # stack' \<Rightarrow> \<exists>k v hash es'. trie_at (map_nodes h) p (Val k v hash) \<and> es = (k, v) # es' \<and> remaining h stack' es')"


text \<open>The next slot that is not empty.\<close>

lemma find_valid_ok:
  fixes h :: map_heap
  assumes rel: "slots_at (map_nodes h) table ts" and start: "0 \<le> start" "start \<le> 16"
  shows "if list_all (\<lambda>t. t = None) (drop (nat start) ts) then find_valid_index_node_child start table = - 1
    else \<exists>j c t. find_valid_index_node_child start table = int j \<and> nat start \<le> j \<and> j < 16 \<and> table ! j = Some c \<and> ts ! j = Some t \<and>
      trie_at (map_nodes h) c t \<and> slot_entries (drop (nat start) ts) = t_entries t @ slot_entries (drop (Suc j) ts)"
proof -
  let ?n = "nat start"
  have len: "length ts = 16" "length table = 16" using rel by (simp_all add: slots_at_def)
  have drops: "slots_rel h (drop ?n table) (drop ?n ts)" using slots_at_rel [OF rel] by (rule list_all2_dropI)
  show ?thesis
  proof (cases "list_all (\<lambda>t. t = None) (drop ?n ts)")
    case True
    then show ?thesis using rel_none [OF drops] by (simp add: find_valid_index_node_child_def find_child_none)
  next
    case False
    then have "list_ex (\<lambda>c. c \<noteq> None) (drop ?n table)" using rel_none [OF drops] by (auto simp: list_ex_iff list_all_iff)
    then obtain j where j: "find_child ?n (drop ?n table) = int (?n + j)" "j < length (drop ?n table)" "drop ?n table ! j \<noteq> None"
        "list_all (\<lambda>c. c = None) (take j (drop ?n table))"
      using find_child_some by blast
    then obtain c where c: "table ! (?n + j) = Some c" by (auto simp: len)
    have at: "rel_option (trie_at (map_nodes h)) (table ! (?n + j)) (ts ! (?n + j))"
      using rel j(2) start len by (simp add: slots_at_def)
    then obtain t where t: "ts ! (?n + j) = Some t" "trie_at (map_nodes h) c t" using c by (auto simp: option_rel_Some1)
    have "list_all (\<lambda>t. t = None) (take j (drop ?n ts))"
      using rel_none [OF list_all2_takeI [OF drops]] j(4) by blast
    then have "slot_entries (drop ?n ts) = t_entries t @ slot_entries (drop (Suc (?n + j)) ts)"
      using entries_from [of j "drop ?n ts"] t(1) j(2) len by (simp add: add.commute)
    moreover have "find_valid_index_node_child start table = int (?n + j)" "?n \<le> ?n + j" "?n + j < 16"
      using j(1,2) len start by (simp_all add: find_valid_index_node_child_def)
    ultimately show ?thesis using c t unfolding if_not_P [OF False] by blast
  qed
qed

lemma build_stack_ok:
  "trie_at (map_nodes h) p t \<Longrightarrow> bushy t \<Longrightarrow> remaining h st es \<Longrightarrow>
    \<exists>st'. build_stack h p st = Some (Inr st') \<and> cursor h st' (t_entries t @ es)"
proof (induction t arbitrary: p st es)
  case (Val k v hash)
  then show ?case by (subst build_stack.simps) (auto simp: deref_def cursor_def)
next
  case (Idx ts)
  obtain n table where n: "map_nodes h p = Some n" "mn_body n = IndexMapNode table" "slots_at (map_nodes h) table ts"
    using Idx.prems(1) by (auto simp: trie_at_Idx)
  have "\<not> list_all (\<lambda>t. t = None) ts" using Idx.prems(2) by (auto simp: list_ex_iff list_all_iff)
  then obtain j c t where j: "find_valid_index_node_child 0 table = int j" "j < 16" "table ! j = Some c" "ts ! j = Some t"
      "trie_at (map_nodes h) c t" "slot_entries ts = t_entries t @ slot_entries (drop (Suc j) ts)"
    using find_valid_ok [OF n(3), of 0] by auto
  have mem: "Some t \<in> set ts" using j(2,4) n(3) nth_mem by (metis slots_at_def)
  then have "bushy t" using Idx.prems(2) by (auto simp: list_all_iff)
  moreover have "remaining h ((p, int j) # st) (slot_entries (drop (Suc j) ts) @ es)"
    using Idx.prems j(2) by auto
  ultimately have "\<exists>st'. build_stack h c ((p, int j) # st) = Some (Inr st') \<and>
      cursor h st' (t_entries t @ slot_entries (drop (Suc j) ts) @ es)"
    using Idx.IH [OF mem, of t c] j(5) by simp
  then show ?case using n j by (subst build_stack.simps) (simp add: deref_def)
qed

lemma update_stack_ok:
  "remaining h st es \<Longrightarrow> \<exists>st'. update_node_pointer_stack h st = Some (Inr st') \<and> cursor h st' es"
proof (induction h st arbitrary: es rule: update_node_pointer_stack.induct)
  case (2 h p i stack)
  obtain ts es' where ts: "trie_at (map_nodes h) p (Idx ts)" "bushy (Idx ts)" "0 \<le> i" "i < 16"
      "es = slot_entries (drop (Suc (nat i)) ts) @ es'" "remaining h stack es'"
    using "2.prems" by auto
  obtain n table where n: "map_nodes h p = Some n" "mn_body n = IndexMapNode table" "slots_at (map_nodes h) table ts"
    using ts(1) by (auto simp: trie_at_Idx)
  have next_i: "nat (i + 1) = Suc (nat i)" using ts(3) by simp
  show ?case
  proof (cases "list_all (\<lambda>t. t = None) (drop (Suc (nat i)) ts)")
    case True
    then have "find_valid_index_node_child (i + 1) table = - 1" using find_valid_ok [OF n(3), of "i + 1"] ts(3,4) next_i by simp
    then have "update_node_pointer_stack h ((p, i) # stack) = update_node_pointer_stack h stack"
      using n ts(3) by (simp add: deref_def)
    moreover have "es = es'" using ts(5) entries_none [OF True] by simp
    ultimately show ?thesis using "2.IH" [of n table "- 1"] n ts(3,6) \<open>find_valid_index_node_child (i + 1) table = - 1\<close> by simp
  next
    case False
    then obtain j c t where j: "find_valid_index_node_child (i + 1) table = int j" "Suc (nat i) \<le> j" "j < 16" "table ! j = Some c"
        "ts ! j = Some t" "trie_at (map_nodes h) c t" "slot_entries (drop (Suc (nat i)) ts) = t_entries t @ slot_entries (drop (Suc j) ts)"
      using find_valid_ok [OF n(3), of "i + 1"] ts(3,4) next_i by auto
    have "Some t \<in> set ts" using j(3,5) n(3) nth_mem by (metis slots_at_def)
    then have "bushy t" using ts(2) by (auto simp: list_all_iff)
    moreover have "remaining h ((p, int j) # stack) (slot_entries (drop (Suc j) ts) @ es')" using ts j(3) by auto
    ultimately have "\<exists>st'. build_stack h c ((p, int j) # stack) = Some (Inr st') \<and> cursor h st' es"
      using build_stack_ok [OF j(6)] ts(5) j(7) by simp
    moreover have "i < int j" using j(2) ts(3) by linarith
    ultimately show ?thesis using n j by (simp add: deref_def)
  qed
qed (simp add: cursor_def)


text \<open>What a loop over an iterator reads, in at most \<open>n\<close> steps.\<close>

fun map_collect :: "map_heap \<Rightarrow> nat \<Rightarrow> map_iterator \<Rightarrow> (failure + operand list) option" where
  "map_collect h 0 it = (if map_iteratorValid it then None else Some (Inr []))"
| "map_collect h (Suc n) it = (if map_iteratorValid it
     then run_bind (map_iteratorNext h it) (\<lambda>((found, v), it'). run_bind (map_collect h n it') (\<lambda>vs. Some (Inr (v # vs))))
     else Some (Inr []))"

lemma collect_ok:
  "cursor h (mi_stack it) es \<Longrightarrow> length es \<le> n \<Longrightarrow> map_collect h n it = Some (Inr (map snd es))"
proof (induction n arbitrary: it es)
  case 0
  then show ?case by (auto simp: cursor_def map_iteratorValid_def split: list.splits)
next
  case (Suc n)
  show ?case
  proof (cases "mi_stack it")
    case Nil
    then show ?thesis using Suc.prems(1) by (simp add: cursor_def map_iteratorValid_def)
  next
    case (Cons pi st)
    obtain p i k v hash es' where p: "pi = (p, i)" "trie_at (map_nodes h) p (Val k v hash)" "es = (k, v) # es'" "remaining h st es'"
      using Suc.prems(1) Cons by (cases pi) (auto simp: cursor_def)
    obtain st' where st': "update_node_pointer_stack h st = Some (Inr st')" "cursor h st' es'" using update_stack_ok [OF p(4)] by blast
    have "map_iteratorNext h it = Some (Inr ((True, v), it\<lparr>mi_stack := st'\<rparr>))"
      using Cons p(1,2) st'(1) by (auto simp: map_iteratorNext_def deref_def)
    then show ?thesis using Suc.IH [of "it\<lparr>mi_stack := st'\<rparr>" es'] Suc.prems(2) Cons p(3) st'(2)
      by (simp add: map_iteratorValid_def)
  qed
qed

text \<open>The size of a map without empty index nodes is the number of its values, and an iterator over it gives those
  values, in the order of the slots, and ends.\<close>

theorem map_iteration_reads_all:
  assumes "map_refs h r = Some (Some p)" "trie_at (map_nodes h) p t" "bushy t" "length (t_entries t) \<le> n"
  shows "mapSize h (Some p) = Some (Inr (int (length (t_entries t)))) \<and>
    (\<exists>it. make_map_iterator h r = Some (Inr it) \<and> map_collect h n it = Some (Inr (map snd (t_entries t))))"
proof -
  obtain st where st: "build_stack h p [] = Some (Inr st)" "cursor h st (t_entries t)"
    using build_stack_ok [OF assms(2,3), of "[]" "[]"] by auto
  then have "map_collect h n \<lparr>mi_stack = st, mi_map = Some r\<rparr> = Some (Inr (map snd (t_entries t)))"
    using collect_ok assms(4) by simp
  then show ?thesis using size_ok [OF assms(2)] st(1) assms(1) by (simp add: make_map_iterator_def map_getNode_def deref_def)
qed


theorem map_iteration_reads_all_witness:
  "\<exists>it. make_map_iterator one_value 8 = Some (Inr it) \<and> map_collect one_value 1 it = Some (Inr [sample_value 7])"
proof -
  have "map_refs one_value 8 = Some (Some 0)" by (simp add: one_value_def)
  moreover have "bushy (Idx one_slot)" "t_entries (Idx one_slot) = [(sample_value 1, sample_value 7)]"
    by (simp_all add: one_slot_def no_slots_def numeral_nat)
  ultimately show ?thesis using map_iteration_reads_all [OF _ one_value_trie, of 8 1] by simp
qed

end
