(* ===== verification/MapsLimits.thy ===== *)
theory MapsLimits
  imports MapsIteration
begin

text \<open>
  Where the laws of maps end: keys that share the first eight bits of their hashes are lost when a map is
  constructed in place, and a node below a copied index node can be freed while another map holds it.
\<close>

subsection \<open>Keys with a common prefix\<close>

lemma hash_stuck: "level_hash E a (khash E a (Suc 0)) (level_bits (Suc 0) - BITS_PER_LEVEL) (Suc (Suc 0)) =
    (khash E a (Suc 0), level_bits (Suc 0) - BITS_PER_LEVEL)"
  by (simp add: level_hash_def level_bits_def BITS_PER_LEVEL_def)

text \<open>The digit of the previous key is taken from the level above.\<close>

lemma mutable_insert_misplaces:
  assumes prev: "map_nodes h c = Some n" "mn_body n = ValueMapNode a x (shifted (khash E a 0))"
    and eq: "nib E a (Suc 0) = nib E b (Suc 0)" and ne: "nib E b (Suc (Suc 0)) \<noteq> nib E a (Suc 0)"
  shows "mutable_insert E c b y (shifted (khash E b 0)) (level_bits 0 - BITS_PER_LEVEL) (Suc 0) h =
    Inr (Suc (Suc (map_next h)), h\<lparr>map_nodes := (map_nodes h)(c \<mapsto> n\<lparr>mn_body := ValueMapNode a x (khash E a (Suc 0))\<rparr>,
        map_next h \<mapsto> \<lparr>mn_refcount = 1, mn_body = ValueMapNode b y (khash E b (Suc (Suc 0)))\<rparr>,
        Suc (map_next h) \<mapsto> \<lparr>mn_refcount = 1, mn_body =
          IndexMapNode (empty_table[nib E a (Suc 0) := Some c, nib E b (Suc (Suc 0)) := Some (map_next h)])\<rparr>,
        Suc (Suc (map_next h)) \<mapsto> \<lparr>mn_refcount = 1, mn_body = IndexMapNode (empty_table[nib E a (Suc 0) := Some (Suc (map_next h))])\<rparr>),
      map_next := Suc (Suc (Suc (map_next h)))\<rparr>)"
proof -
  have "mutable_insert E c b y (shifted (khash E b (Suc 0))) (level_bits (Suc 0) - BITS_PER_LEVEL) (Suc (Suc 0))
      (h\<lparr>map_nodes := (map_nodes h)(c \<mapsto> n\<lparr>mn_body := ValueMapNode a x (khash E a (Suc 0))\<rparr>)\<rparr>) =
    Inr (Suc (map_next h), h\<lparr>map_nodes := (map_nodes h)(c \<mapsto> n\<lparr>mn_body := ValueMapNode a x (khash E a (Suc 0))\<rparr>,
        map_next h \<mapsto> \<lparr>mn_refcount = 1, mn_body = ValueMapNode b y (khash E b (Suc (Suc 0)))\<rparr>,
        Suc (map_next h) \<mapsto> \<lparr>mn_refcount = 1, mn_body =
          IndexMapNode (empty_table[nib E a (Suc 0) := Some c, nib E b (Suc (Suc 0)) := Some (map_next h)])\<rparr>),
      map_next := Suc (Suc (map_next h))\<rparr>)"
    using ne by (subst mutable_insert.simps) (simp add: store_defs hash_stuck)
  then show ?thesis using prev eq by (subst mutable_insert.simps) (simp add: store_defs)
qed

lemma construct_two_misplaces:
  assumes ok: "store_ok h" "map_refs h r = Some None"
    and eq: "\<not> key_equal E a b" "nib E a 0 = nib E b 0" "nib E a (Suc 0) = nib E b (Suc 0)"
      "nib E b (Suc (Suc 0)) \<noteq> nib E b (Suc 0)"
  shows "\<exists>h'. construct_map E r [(a, x), (b, y)] h = Some (Inr h') \<and> map_refs h' r = Some (Some (map_next h)) \<and>
    trie_at (map_nodes h') (map_next h) (Idx (no_slots[nib E b 0 := Some (Idx (no_slots[nib E b (Suc 0) := Some (Idx
      (no_slots[nib E b (Suc 0) := Some (Val a x (khash E a (Suc 0))), nib E b (Suc (Suc 0)) := Some (Val b y (khash E b (Suc (Suc 0))))]))]))]))"
proof -
  let ?N = "map_next h" and ?i = "nib E b 0" and ?j = "nib E b (Suc 0)" and ?l = "nib E b (Suc (Suc 0))"
  let ?h1 = "h\<lparr>map_nodes := (map_nodes h)(?N \<mapsto> \<lparr>mn_refcount = 0, mn_body = IndexMapNode empty_table\<rparr>), map_next := Suc ?N\<rparr>"
  let ?h2 = "h\<lparr>map_nodes := (map_nodes h)(Suc ?N \<mapsto> \<lparr>mn_refcount = 1, mn_body = ValueMapNode a x (khash E a 0)\<rparr>,
      ?N \<mapsto> \<lparr>mn_refcount = 0, mn_body = IndexMapNode (empty_table[?i := Some (Suc ?N)])\<rparr>), map_next := Suc (Suc ?N)\<rparr>"
  let ?nodes = "(map_nodes h)(Suc ?N \<mapsto> \<lparr>mn_refcount = 1, mn_body = ValueMapNode a x (khash E a (Suc 0))\<rparr>,
      Suc (Suc ?N) \<mapsto> \<lparr>mn_refcount = 1, mn_body = ValueMapNode b y (khash E b (Suc (Suc 0)))\<rparr>,
      Suc (Suc (Suc ?N)) \<mapsto> \<lparr>mn_refcount = 1, mn_body = IndexMapNode (empty_table[?j := Some (Suc ?N), ?l := Some (Suc (Suc ?N))])\<rparr>,
      Suc (Suc (Suc (Suc ?N))) \<mapsto> \<lparr>mn_refcount = 1, mn_body = IndexMapNode (empty_table[?j := Some (Suc (Suc (Suc ?N)))])\<rparr>,
      ?N \<mapsto> \<lparr>mn_refcount = 0, mn_body = IndexMapNode (empty_table[?i := Some (Suc (Suc (Suc (Suc ?N))))])\<rparr>)"
  have dom: "p < ?N" if "map_nodes h p = Some n" for p n using store_okD [OF ok(1) that] .
  have ok1: "store_ok ?h1" by (auto simp: store_ok_def dest!: dom)
  have "map_construct E ?N a x (me_hash E a) 32 0 ?h1 = Some (Inr ?h2)"
    using construct_none [OF _ _ arrives_start _ ok1, of ?N _ empty_table E a x] eq(2)
    by (simp add: empty_table_def fun_upd_twist)
  moreover have "map_construct E ?N b y (me_hash E b) 32 0 ?h2 = Some (Inr (h\<lparr>map_nodes := ?nodes, map_next := Suc (Suc (Suc (Suc (Suc ?N))))\<rparr>))"
    using arrivesD(1) [OF arrives_start, of E b] eq
    by (subst map_construct.simps)
      (simp add: mutable_insert_misplaces [where a = a and x = x] store_defs empty_table_def fun_upd_twist
        del: mutable_insert.simps)
  moreover have "slots_at ?nodes (empty_table[?j := Some (Suc ?N), ?l := Some (Suc (Suc ?N))])
      (no_slots[?j := Some (Val a x (khash E a (Suc 0))), ?l := Some (Val b y (khash E b (Suc (Suc 0))))])" (is "slots_at _ _ ?ts")
    by (intro slots_at_update empty_slots_at) simp_all
  then have "trie_at ?nodes (Suc (Suc (Suc ?N))) (Idx ?ts)" by (simp add: trie_at_Idx)
  then have "slots_at ?nodes (empty_table[?j := Some (Suc (Suc (Suc ?N)))]) (no_slots[?j := Some (Idx ?ts)])"
    by (intro slots_at_update empty_slots_at) simp_all
  then have "trie_at ?nodes (Suc (Suc (Suc (Suc ?N)))) (Idx (no_slots[?j := Some (Idx ?ts)]))" by (simp add: trie_at_Idx)
  then have "slots_at ?nodes (empty_table[?i := Some (Suc (Suc (Suc (Suc ?N))))]) (no_slots[?i := Some (Idx (no_slots[?j := Some (Idx ?ts)]))])"
    by (intro slots_at_update empty_slots_at) simp_all
  then have "trie_at ?nodes ?N (Idx (no_slots[?i := Some (Idx (no_slots[?j := Some (Idx ?ts)]))]))" by (simp add: trie_at_Idx)
  moreover obtain h' where "map_setNode r ?N (h\<lparr>map_nodes := ?nodes, map_next := Suc (Suc (Suc (Suc (Suc ?N))))\<rparr>) = Inr h'"
      "same_bodies ?nodes (map_nodes h')" "map_refs h' r = Some (Some ?N)"
    using ok(2) by (auto simp: map_setNode_def map_getNode_def map_increment_def store_defs same_bodies_def)
  ultimately show ?thesis
    using trie_at_same by (simp add: construct_map_def new_index_def new_map_node_def)
qed

text \<open>C38. A map constructed from two pairs whose keys are different, but agree in the first eight bits of their hashes,
  does not find the first key when the next four bits of both hashes differ from the four before them; the second
  key has its value.\<close>

theorem construct_loses_keys:
  assumes "store_ok h" "map_refs h r = Some None" "\<not> key_equal E a b" "\<not> key_equal E b a" "key_equal E b b"
    and "nib E a 0 = nib E b 0" "nib E a 1 = nib E b 1" "nib E a 2 \<noteq> nib E b 1" "nib E b 2 \<noteq> nib E b 1"
  shows "\<exists>h' p. construct_map E r [(a, x), (b, y)] h = Some (Inr h') \<and> map_refs h' r = Some (Some p) \<and>
    mapGet E h' (Some p) a = Some (Inr empty_operand) \<and> mapGet E h' (Some p) b = Some (Inr y)"
proof -
  obtain h' where h': "construct_map E r [(a, x), (b, y)] h = Some (Inr h')" "map_refs h' r = Some (Some (map_next h))"
      "trie_at (map_nodes h') (map_next h) (Idx (no_slots[nib E b 0 := Some (Idx (no_slots[nib E b (Suc 0) := Some (Idx
      (no_slots[nib E b (Suc 0) := Some (Val a x (khash E a (Suc 0))), nib E b (Suc (Suc 0)) := Some (Val b y (khash E b (Suc (Suc 0))))]))]))]))"
    using construct_two_misplaces [OF assms(1-3,6), of x y] assms(7,9) by (auto simp: numeral_2_eq_2)
  have "mapGet E h' (Some (map_next h)) a = Some (Inr empty_operand)" "mapGet E h' (Some (map_next h)) b = Some (Inr y)"
    using assms(3-9) by (simp_all add: get_ok [OF h'(3)] t_get_slot t_get_empty numeral_2_eq_2)
  then show ?thesis using h' by blast
qed


theorem construct_loses_keys_witness:
  "\<exists>h p. construct_map map_sample 8 [(sample_value 1, sample_value 7), (sample_value 2, sample_value 8)]
      (allocate_map 8 empty_index) = Some (Inr h) \<and> map_refs h 8 = Some (Some p) \<and>
    mapGet map_sample h (Some p) (sample_value 1) = Some (Inr empty_operand)"
proof -
  have "store_ok (allocate_map 8 empty_index)" "map_refs (allocate_map 8 empty_index) 8 = Some None"
    by (simp_all add: store_ok_def allocate_map_def empty_index_def)
  then show ?thesis
    using construct_loses_keys [of "allocate_map 8 empty_index" 8 map_sample "sample_value 1" "sample_value 2" "sample_value 7" "sample_value 8"]
    by (auto simp: nib_def khash_def slot_of_def BITS_PER_LEVEL_def)
qed

subsection \<open>A node freed too early\<close>

text \<open>The node that an update returns has a count of zero: whoever stores it counts it. The copy of an index node
  above it does not.\<close>

lemma new_index_node: "new_index c table h = (q, h') \<Longrightarrow> map_nodes h' q = Some \<lparr>mn_refcount = c, mn_body = IndexMapNode table\<rparr>"
  by (auto simp: new_index_def new_map_node_def)

lemma body_caseD: "(case b of ValueMapNode k v s \<Rightarrow> f k v s | IndexMapNode t \<Rightarrow> g t) = r \<Longrightarrow>
    (\<exists>k v s. b = ValueMapNode k v s \<and> f k v s = r) \<or> (\<exists>t. b = IndexMapNode t \<and> g t = r)"
  by (cases b) auto

lemma update_at_count:
  assumes "map_update_at E p k v hash bits d h = Some (Inr (q, h'))"
  shows "\<exists>table. map_nodes h' q = Some \<lparr>mn_refcount = 0, mn_body = IndexMapNode table\<rparr>"
  using assms
  by (subst (asm) map_update_at.simps)
    (auto simp: run_bind_Inr Let_def split_def dest!: new_index_node body_caseD split: option.split_asm if_split_asm)

text \<open>C39. When an update of a map goes through an index node below the root, the new map refers to its copy of that node
  but the copy has a reference count of zero, so that it is freed with the first of the maps that share it.\<close>

theorem copied_child_is_not_counted:
  assumes "index_map E K h p" "good_keys E K" "k \<in> K"
    and "index_table h p = Inr table" "table ! nib E k 0 = Some c" "index_table h c = Inr t"
  shows "\<exists>q h' table' c' m. mapUpdate E (Some p) k v h = Some (Inr (q, h')) \<and> index_table h' q = Inr table' \<and>
    table' ! nib E k 0 = Some c' \<and> map_nodes h' c' = Some m \<and> mn_refcount m = 0"
proof -
  obtain ts where ts: "trie_at (map_nodes h) p (Idx ts)" "placed E K [] (Idx ts)" "store_ok h"
    using assms(1) by (auto simp: index_map_def)
  obtain n where n: "map_nodes h p = Some n" "mn_body n = IndexMapNode table" "slots_at (map_nodes h) table ts"
    using ts(1) assms(4) by (auto simp: trie_at_Idx index_table_def deref_def)
  obtain h1 where h1: "copy_slots table (nib E k 0) h = Inr h1" "grows h h1" using copy_slots_grows [OF ts(3) n(3)] .
  show ?thesis
  proof (rule slots_at_cases [OF n(3) nib_bound [of E k 0]])
    fix us d m0 table0
    assume slot: "ts ! nib E k 0 = Some (Idx us)" "table ! nib E k 0 = Some d" "trie_at (map_nodes h) d (Idx us)"
    then obtain m table' where c: "ts ! nib E k 0 = Some (Idx us)" "table ! nib E k 0 = Some d" "map_nodes h1 d = Some m"
        "mn_body m = IndexMapNode table'" "trie_at (map_nodes h1) d (Idx us)"
      using grows_trie [OF h1(2) slot(3)] by (auto simp: trie_at_Idx)
    have "\<exists>r h3. map_update_at E d k v (shifted (khash E k 0)) (level_bits 0 - BITS_PER_LEVEL) (Suc 0) h1 = Some (Inr (r, h3)) \<and>
        trie_at (map_nodes h3) r (Idx (t_update E k v (Suc 0) us)) \<and> grows h1 h3"
      by (rule update_ok [OF c(5) placed_slot [OF ts(2) c(1)] grows_ok [OF h1(2)] arrives_next _ _ assms(2,3)])
        (simp_all add: on_path_def)
    then obtain r h3 where h3: "map_update_at E d k v (shifted (khash E k 0)) (level_bits 0 - BITS_PER_LEVEL) (Suc 0) h1 = Some (Inr (r, h3))"
        "grows h1 h3"
      by blast
    obtain t' where t': "map_nodes h3 r = Some \<lparr>mn_refcount = 0, mn_body = IndexMapNode t'\<rparr>" using update_at_count [OF h3(1)] ..
    obtain q h' where q: "new_index 0 (table[nib E k 0 := Some r]) h3 = (q, h')" by (metis surj_pair)
    have "r < map_next h3" using store_okD [OF grows_ok [OF h3(2)] t'] .
    then have "map_nodes h' r = map_nodes h3 r" using q by (auto simp: new_index_def new_map_node_def)
    moreover have "mapUpdate E (Some p) k v h = Some (Inr (q, h'))"
      using n(1,2) c(2-4) h3(1) q update_step [OF n(1,2) arrives_start h1(1)] by (simp add: mapUpdate_def deref_def)
    moreover have "length table = 16" using n(3) by (simp add: slots_at_def)
    ultimately show ?thesis using new_index_node [OF q] t' by (simp add: index_table_def deref_def)
  qed (use assms(5,6) in \<open>auto simp: index_table_def deref_def\<close>)
qed


definition child_value :: map_heap where
  "child_value = \<lparr>map_nodes = [0 \<mapsto> \<lparr>mn_refcount = 1, mn_body = IndexMapNode (empty_table[0 := Some 1])\<rparr>,
      1 \<mapsto> \<lparr>mn_refcount = 1, mn_body = IndexMapNode (empty_table[0 := Some 2])\<rparr>,
      2 \<mapsto> \<lparr>mn_refcount = 1, mn_body = ValueMapNode (sample_value 1) (sample_value 7) (push_bit 24 1)\<rparr>],
    map_next = 3, map_refs = Map.empty, map_iters = Map.empty\<rparr>"

lemma child_value_map: "index_map map_sample sample_keys child_value 0"
proof -
  let ?leaf = "no_slots[0 := Some (Val (sample_value 1) (sample_value 7) (push_bit 24 1))]"
  have "slots_at (map_nodes child_value) (empty_table[0 := Some 2]) ?leaf"
    by (rule slots_at_update [OF empty_slots_at]) (simp_all add: child_value_def)
  then have "trie_at (map_nodes child_value) 1 (Idx ?leaf)" by (simp add: trie_at_Idx) (simp add: child_value_def)
  then have "slots_at (map_nodes child_value) (empty_table[0 := Some 1]) (no_slots[0 := Some (Idx ?leaf)])"
    by (rule slots_at_update [OF empty_slots_at, rotated]) simp
  then have "trie_at (map_nodes child_value) 0 (Idx (no_slots[0 := Some (Idx ?leaf)]))"
    by (simp add: trie_at_Idx) (simp add: child_value_def)
  moreover have "placed map_sample sample_keys [] (Idx (no_slots[0 := Some (Idx ?leaf)]))"
    by (intro placed_set placed_empty)
      (auto simp: placed.simps(1) sample_keys_def khash_def nib_def slot_of_def BITS_PER_LEVEL_def less_Suc_eq
        intro!: placed_set placed_empty)
  moreover have "store_ok child_value" by (auto simp: store_ok_def child_value_def)
  ultimately show ?thesis by (auto simp: index_map_def)
qed

theorem copied_child_is_not_counted_witness:
  "\<exists>q h table c m. mapUpdate map_sample (Some 0) (sample_value 1) (sample_value 8) child_value = Some (Inr (q, h)) \<and>
    index_table h q = Inr table \<and> table ! 0 = Some c \<and> map_nodes h c = Some m \<and> mn_refcount m = 0"
proof -
  have "nib map_sample (sample_value 1) 0 = 0" by (simp add: nib_def khash_def slot_of_def BITS_PER_LEVEL_def)
  moreover have "index_table child_value 0 = Inr (empty_table[0 := Some 1])" "index_table child_value 1 = Inr (empty_table[0 := Some 2])"
    by (simp_all add: child_value_def index_table_def deref_def)
  ultimately show ?thesis
    using copied_child_is_not_counted [OF child_value_map sample_good, of "sample_value 1" "empty_table[0 := Some 1]" 1]
    by (simp add: sample_keys_def empty_table_def)
qed

end
