(* ===== verification/Closures.thy ===== *)
theory Closures
  imports Subroutines Native
begin

text \<open>
  Closures (\<open>lyric_bootstrap/plugin/closure_ref.cpp\<close>): a closure is constructed from the descriptor of a
  call and keeps the values that its lexicals have at that moment; applying it replaces the call of
  \<open>Apply\<close> by an activation of its proc with those values.

  The closures are in a store of their own, next to the state of the call. An operation that fails
  leaves no state here, although the constructor may have set some fields. \<open>applyClosure\<close> throws the
  statuses of its checks.
\<close>

record closure =
  cl_segment :: u32
  cl_call :: u32
  cl_procOffset :: u32
  cl_returnsValue :: bool
  cl_ip :: bytecode_iterator
  cl_lexicals :: "operand list"

type_synonym closure_heap = "u64 \<rightharpoonup> closure"
type_synonym closure_state = "call_state \<times> closure_heap"

text \<open>The flag is not initialised.\<close>

definition new_closure :: "bool \<Rightarrow> closure" where
  "new_closure garbage = \<lparr>cl_segment = INVALID_ADDRESS_U32, cl_call = INVALID_ADDRESS_U32,
    cl_procOffset = INVALID_ADDRESS_U32, cl_returnsValue = garbage, cl_ip = empty_iterator, cl_lexicals = []\<rparr>"

definition closure_alloc :: "call_env \<Rightarrow> u64 \<Rightarrow> bool \<Rightarrow> closure_state \<Rightarrow> closure_state" where
  "closure_alloc C fresh garbage s =
    ((fst s)\<lparr>cs_coro := snd (pushData (fromRef (bl_endian (ce_bytes C)) (ce_garbage C) fresh) (cs_coro (fst s)))\<rparr>,
     (snd s)(fresh \<mapsto> new_closure garbage))"

definition lexicalAt :: "int \<Rightarrow> closure \<Rightarrow> operand" where
  "lexicalAt index c =
    (if 0 \<le> index \<and> index < int (length (cl_lexicals c)) then cl_lexicals c ! nat index else empty_operand)"

definition lexicalAppend :: "operand \<Rightarrow> closure \<Rightarrow> closure" where
  "lexicalAppend v c = c\<lparr>cl_lexicals := cl_lexicals c @ [v]\<rparr>"

definition closure_receiver :: "call_env \<Rightarrow> call_cell \<Rightarrow> closure_heap \<Rightarrow> failure + u64 \<times> closure" where
  "closure_receiver C frame H =
    then_do (or_else_fail AssertionFailed (getRef (bl_endian (ce_bytes C)) (m_receiver frame))) (\<lambda>r.
    then_do (deref H r) (\<lambda>c. Inr (r, c)))"

subsection \<open>Construction\<close>

definition call_argument :: "call_env \<Rightarrow> operand \<Rightarrow> failure + nat \<times> u32" where
  "call_argument C arg =
    (case map_option (ce_descriptor C) (getDescriptor (bl_endian (ce_bytes C)) arg) of
       Some (DescriptorRef segment section callIndex) \<Rightarrow>
         if section = LinkageCall then Inr (segment, callIndex) else Inl AssertionFailed
     | _ \<Rightarrow> Inl AssertionFailed)"

fun capture_lexicals :: "call_cell list \<Rightarrow> u32 \<Rightarrow> proc_lexical list \<Rightarrow> closure \<Rightarrow> failure + closure" where
  "capture_lexicals calls segmentIndex [] c = Inr c"
| "capture_lexicals calls segmentIndex (lexical # lexicals) c =
    then_do (or_else_fail (Returned kRuntimeInvariant)
        (find_ancestor segmentIndex (activation_call lexical) calls)) (\<lambda>ancestor.
    then_do (lexical_value ancestor lexical) (\<lambda>v.
    capture_lexicals calls segmentIndex lexicals (lexicalAppend v c)))"

definition call_offset :: "call_descriptor option \<Rightarrow> u32" where
  "call_offset call = (case call of None \<Rightarrow> 0 | Some d \<Rightarrow> cd_bytecode_offset d)"

definition call_returns :: "call_descriptor option \<Rightarrow> bool" where
  "call_returns call = (case call of None \<Rightarrow> True | Some d \<Rightarrow> \<not> cd_noReturn d)"

definition closure_ctor :: "call_env \<Rightarrow> closure_state \<Rightarrow> failure + closure_state" where
  "closure_ctor C = (\<lambda>(cs, H). let B = ce_bytes C; co = cs_coro cs; d = cs_segments cs in
    then_do (currentCallOrThrow co) (\<lambda>frame.
    then_do (closure_receiver C frame H) (\<lambda>(r, c).
    then_do (assert_arguments 1 frame) (\<lambda>_.
    then_do (call_argument C (getArgument 0 frame)) (\<lambda>(segmentIndex, callIndex).
    then_do (or_else_fail AssertionFailed (getSegment segmentIndex d)) (\<lambda>s.
    let object = m_object (segment_at d s); segment = word_of_nat (m_segmentIndex (segment_at d s));
        call = object_getCall object callIndex
    in then_do (parse_proc_info B (od_bytecode object) (call_offset call)) (\<lambda>info.
       then_do (parse_lexicals_table B info) (\<lambda>lexicals.
       then_do (capture_lexicals (rev (m_callStack co)) segment lexicals
           (c\<lparr>cl_segment := word_of_nat segmentIndex, cl_call := callIndex, cl_procOffset := call_offset call,
              cl_returnsValue := call_returns call\<rparr>)) (\<lambda>c.
       Inr (cs, H(r \<mapsto> c\<lparr>cl_ip := make_iterator (pi_code info)\<rparr>)))))))))))"

subsection \<open>Application\<close>

text \<open>The arguments of the activation: those of the frame, over which its rest arguments are written from the
  number of arguments of the proc on.\<close>

definition closure_arguments :: "u16 \<Rightarrow> call_cell \<Rightarrow> operand list" where
  "closure_arguments num_arguments frame =
    foldl (\<lambda>args i. args[unat num_arguments + i := getRestArgument (int i) frame])
      (map (\<lambda>i. getArgument (int i) frame) [0 ..< unat (m_numArguments frame)] @
        replicate (unat (m_numRest frame)) empty_operand)
      [0 ..< unat (m_numRest frame)]"

definition set_lexicals :: "u16 \<Rightarrow> closure \<Rightarrow> call_cell \<Rightarrow> call_cell" where
  "set_lexicals n c frame = foldl (\<lambda>f i. setLexical (int i) (lexicalAt (int i) c) f) frame [0 ..< unat n]"

definition closure_apply :: "call_env \<Rightarrow> closure_state \<Rightarrow> failure + closure_state" where
  "closure_apply C = (\<lambda>(cs, H). let B = ce_bytes C in
    case popCall empty_cell (cs_coro cs) of
      (NotOk e, frame, co) \<Rightarrow> Inl e
    | (Ok, frame, co') \<Rightarrow>
      let co = snd (resizeDataStack (m_stackGuard frame) co')
      in then_do (closure_receiver C frame H) (\<lambda>(r, c).
         then_do (or_else_fail AssertionFailed (getSegment (unat (cl_segment c)) (cs_segments cs))) (\<lambda>s.
         let segment = segment_at (cs_segments cs) s; bytecode = od_bytecode (m_object segment)
         in if length bytecode \<le> unat (cl_procOffset c) then Inl (Returned kRuntimeInvariant)
            else then_do (parse_proc_activation B bytecode (cl_procOffset c)) (\<lambda>info.
              if 65535 \<le> unat (m_numArguments frame) then Inl (Returned kRuntimeInvariant)
              else if m_numArguments frame < ai_arguments info then Inl (Returned kRuntimeInvariant)
              else then_do (or_else_fail AssertionFailed (make_cell_receiver (cl_call c)
                  (word_of_nat (m_segmentIndex segment)) (cl_procOffset c) (m_returnSegment frame) (m_returnIP frame)
                  (cl_returnsValue c) (dataStackSize co) (ai_arguments info) (m_numRest frame) (ai_locals info)
                  (ai_lexicals info) (closure_arguments (ai_arguments info) frame) (m_receiver frame))) (\<lambda>trampoline.
                if length (cl_lexicals c) \<noteq> unat (ai_lexicals info) then Inl (Returned kRuntimeInvariant)
                else Inr (cs\<lparr>cs_coro := snd (pushCall (ce_moved C) (set_lexicals (ai_lexicals info) c trampoline)
                    (cl_ip c) (Some s) co)\<rparr>, H))))))"

datatype closure_error = Thrown failure | Failed failure

definition throws :: "failure + 'a \<Rightarrow> closure_error + 'a" where
  "throws r = (case r of Inl (Returned e) \<Rightarrow> Inl (Thrown (Returned e)) | Inl (ReturnedObject e) \<Rightarrow> Inl (Thrown (ReturnedObject e))
    | Inl e \<Rightarrow> Inl (Failed e) | Inr x \<Rightarrow> Inr x)"

definition fails :: "failure + 'a \<Rightarrow> closure_error + 'a" where
  "fails r = (case r of Inl e \<Rightarrow> Inl (Failed e) | Inr x \<Rightarrow> Inr x)"

definition applyClosure :: "call_env \<Rightarrow> closure \<Rightarrow> operand list \<Rightarrow> call_state \<Rightarrow> closure_error + call_state" where
  "applyClosure C c args cs =
    (let B = ce_bytes C; co = cs_coro cs;
         returnSegment = (case m_SP co of None \<Rightarrow> INVALID_ADDRESS_U32
           | Some sp \<Rightarrow> word_of_nat (m_segmentIndex (segment_at (cs_segments cs) sp)));
         returnIP = (case m_SP co of None \<Rightarrow> empty_iterator | Some sp \<Rightarrow> m_IP co)
     in then_do (fails (or_else_fail AssertionFailed (getSegment (unat (cl_segment c)) (cs_segments cs)))) (\<lambda>s.
        let segment = segment_at (cs_segments cs) s; bytecode = od_bytecode (m_object segment)
        in if length bytecode \<le> unat (cl_procOffset c) then Inl (Thrown (Returned kRuntimeInvariant))
           else then_do (throws (parse_proc_activation B bytecode (cl_procOffset c))) (\<lambda>info.
             if unat (ai_arguments info) \<noteq> length args then Inl (Thrown (Returned kRuntimeInvariant))
             else let frame = make_cell (cl_call c) (word_of_nat (m_segmentIndex segment)) (cl_procOffset c) returnSegment
                 returnIP (cl_returnsValue c) (dataStackSize co) (ai_arguments info) 0 (ai_locals info) (ai_lexicals info) args
               in if length (cl_lexicals c) \<noteq> unat (ai_lexicals info) then Inl (Thrown (Returned kRuntimeInvariant))
               else Inr (cs\<lparr>cs_coro := snd (pushCall (ce_moved C) (set_lexicals (ai_lexicals info) c frame)
                   (cl_ip c) (Some s) co)\<rparr>))))"

end
