(* ===== verification/ClosuresLaws.thy ===== *)
theory ClosuresLaws
  imports Closures SubroutinesLaws
begin

text \<open>
  A closure captures the variables of the latest activations when it is constructed, and each of its
  activations has those values in its lexicals, whatever the calls are by then.
\<close>

lemma capture_lexicals_Cons:
  "capture_lexicals calls segment (lexical # lexicals) c =
    then_do (lexical_in calls segment lexical) (\<lambda>v. capture_lexicals calls segment lexicals (lexicalAppend v c))"
  by (cases "find_ancestor segment (activation_call lexical) calls") (simp_all add: lexical_in_def)

declare capture_lexicals.simps(2) [simp del]

lemma capture_lexicals_values:
  "capture_lexicals calls segment ls c = Inr c' \<Longrightarrow> \<exists>vs. c' = c\<lparr>cl_lexicals := cl_lexicals c @ vs\<rparr> \<and>
    list_all2 (\<lambda>l v. lexical_in calls segment l = Inr v) ls vs"
proof (induction ls arbitrary: c)
  case (Cons l ls)
  then obtain v where v: "lexical_in calls segment l = Inr v" "capture_lexicals calls segment ls (lexicalAppend v c) = Inr c'"
    by (auto simp: capture_lexicals_Cons then_do_Inr)
  obtain vs where "c' = (lexicalAppend v c)\<lparr>cl_lexicals := cl_lexicals (lexicalAppend v c) @ vs\<rparr>"
      "list_all2 (\<lambda>l v. lexical_in calls segment l = Inr v) ls vs"
    using Cons.IH [OF v(2)] by blast
  then show ?case using v(1) by (intro exI [of _ "v # vs"]) (simp add: lexicalAppend_def)
qed (auto intro: exI [of _ "[]"])

subsection \<open>The slots of the activation\<close>

lemma setLexical_frame:
  "call_cell_wf f \<Longrightarrow> call_cell_wf (setLexical i v f)" "m_receiver (setLexical i v f) = m_receiver f"
  "m_numLexicals (setLexical i v f) = m_numLexicals f" "a \<noteq> Lexicals \<Longrightarrow> area_get a j (setLexical i v f) = area_get a j f"
  using area_frame [of Lexicals a j i v f] area_wf [of f Lexicals i v] by (auto simp: setLexical_def)

lemma set_lexicals_frame:
  assumes "call_cell_wf frame"
  shows "call_cell_wf (set_lexicals n c frame)" "control (set_lexicals n c frame) = control frame"
    "m_receiver (set_lexicals n c frame) = m_receiver frame"
    "a \<noteq> Lexicals \<Longrightarrow> area_get a j (set_lexicals n c frame) = area_get a j frame"
proof -
  have "call_cell_wf (foldl (\<lambda>f i. setLexical (int i) (lexicalAt (int i) c) f) frame is) \<and>
      control (foldl (\<lambda>f i. setLexical (int i) (lexicalAt (int i) c) f) frame is) = control frame \<and>
      m_receiver (foldl (\<lambda>f i. setLexical (int i) (lexicalAt (int i) c) f) frame is) = m_receiver frame \<and>
      (a \<noteq> Lexicals \<longrightarrow> area_get a j (foldl (\<lambda>f i. setLexical (int i) (lexicalAt (int i) c) f) frame is) = area_get a j frame)"
    for "is"
  proof (induction "is" rule: rev_induct)
    case (snoc i "is")
    then show ?case by (simp add: setLexical_frame)
  qed (simp add: assms)
  then show "call_cell_wf (set_lexicals n c frame)" "control (set_lexicals n c frame) = control frame"
      "m_receiver (set_lexicals n c frame) = m_receiver frame"
      "a \<noteq> Lexicals \<Longrightarrow> area_get a j (set_lexicals n c frame) = area_get a j frame"
    by (simp_all add: set_lexicals_def)
qed

lemma set_lexicals_values:
  assumes "call_cell_wf frame" "k < unat (m_numLexicals frame)"
  shows "getLexical (int k) (set_lexicals (m_numLexicals frame) c frame) = lexicalAt (int k) c"
proof -
  have "int k < int (unat (m_numLexicals frame))" using assms(2) by (simp only: of_nat_less_iff)
  then have k: "int k < uint (m_numLexicals frame)" by simp
  have "call_cell_wf (foldl (\<lambda>f i. setLexical (int i) (lexicalAt (int i) c) f) frame [0 ..< n]) \<and>
      m_numLexicals (foldl (\<lambda>f i. setLexical (int i) (lexicalAt (int i) c) f) frame [0 ..< n]) = m_numLexicals frame \<and>
      (k < n \<longrightarrow> getLexical (int k) (foldl (\<lambda>f i. setLexical (int i) (lexicalAt (int i) c) f) frame [0 ..< n]) = lexicalAt (int k) c)"
    for n
  proof (induction n)
    case (Suc n)
    then show ?case using assms k lexicals.get_put by (auto simp: setLexical_frame less_Suc_eq)
  qed (simp add: assms)
  then show ?thesis using assms(2) by (simp add: set_lexicals_def)
qed

lemma closure_arguments_at:
  assumes "num_arguments \<le> m_numArguments frame"
  shows "length (closure_arguments num_arguments frame) = unat (m_numArguments frame) + unat (m_numRest frame)"
    "i < unat num_arguments \<Longrightarrow> closure_arguments num_arguments frame ! i = getArgument (int i) frame"
    "i < unat (m_numRest frame) \<Longrightarrow> closure_arguments num_arguments frame ! (unat num_arguments + i) = getRestArgument (int i) frame"
proof -
  let ?a = "unat num_arguments" and ?n = "unat (m_numArguments frame)" and ?r = "unat (m_numRest frame)"
  let ?args = "\<lambda>k. foldl (\<lambda>args i. args[?a + i := getRestArgument (int i) frame])
      (map (\<lambda>i. getArgument (int i) frame) [0 ..< ?n] @ replicate ?r empty_operand) [0 ..< k]"
  have le: "?a \<le> ?n" using assms by (simp add: word_le_nat_alt)
  have len: "length (?args k) = ?n + ?r" for k by (induction k) simp_all
  have "k \<le> ?r \<longrightarrow> (\<forall>i. ?args k ! i = (if ?a \<le> i \<and> i < ?a + k then getRestArgument (int (i - ?a)) frame else
      (map (\<lambda>i. getArgument (int i) frame) [0 ..< ?n] @ replicate ?r empty_operand) ! i))" for k
  proof (induction k)
    case (Suc k)
    show ?case
    proof (intro impI allI)
      fix i assume "Suc k \<le> ?r"
      then show "?args (Suc k) ! i = (if ?a \<le> i \<and> i < ?a + Suc k then getRestArgument (int (i - ?a)) frame else
          (map (\<lambda>i. getArgument (int i) frame) [0 ..< ?n] @ replicate ?r empty_operand) ! i)"
        using Suc le len [of k] by (cases "i = ?a + k") auto
    qed
  qed auto
  from this [of ?r] show "length (closure_arguments num_arguments frame) = ?n + ?r"
    "i < ?a \<Longrightarrow> closure_arguments num_arguments frame ! i = getArgument (int i) frame"
    "i < ?r \<Longrightarrow> closure_arguments num_arguments frame ! (?a + i) = getRestArgument (int i) frame"
    using le len by (simp_all add: closure_arguments_def nth_append)
qed


subsection \<open>Construction and application\<close>

lemma getSegment_Some: "getSegment i d = Some s \<Longrightarrow> s = i \<and> i < length (sd_segments d)"
  by (simp add: getSegment_def split: if_splits)

lemma or_else_Inr: "or_else_fail e x = Inr y \<longleftrightarrow> x = Some y"
  by (simp add: or_else_fail_def split: option.split)

lemma closure_ctor_captures:
  assumes "closure_ctor C (cs, H) = Inr (cs1, H1)" "currentCallOrThrow (cs_coro cs) = Inr frame"
    and "getRef (bl_endian (ce_bytes C)) (m_receiver frame) = Some r" "H r = Some c"
  obtains c1 segment info ls vs where "cs1 = cs" "H1 = H(r \<mapsto> c1)" "cl_lexicals c1 = cl_lexicals c @ vs"
    "parse_proc_info (ce_bytes C) (od_bytecode (m_object (segment_at (cs_segments cs) segment))) (cl_procOffset c1) = Inr info"
    "parse_lexicals_table (ce_bytes C) info = Inr ls" "cl_ip c1 = make_iterator (pi_code info)"
    "cl_segment c1 = word_of_nat segment" "segment < length (sd_segments (cs_segments cs))"
    "list_all2 (\<lambda>l v. lexical_in (rev (m_callStack (cs_coro cs)))
      (word_of_nat (m_segmentIndex (segment_at (cs_segments cs) segment))) l = Inr v) ls vs"
proof -
  let ?d = "cs_segments cs"
  from assms obtain callIndex segment info ls c' where ctor:
      "parse_proc_info (ce_bytes C) (od_bytecode (m_object (segment_at ?d segment)))
        (call_offset (object_getCall (m_object (segment_at ?d segment)) callIndex)) = Inr info"
      "parse_lexicals_table (ce_bytes C) info = Inr ls"
      "capture_lexicals (rev (m_callStack (cs_coro cs))) (word_of_nat (m_segmentIndex (segment_at ?d segment))) ls
        (c\<lparr>cl_segment := word_of_nat segment, cl_call := callIndex,
           cl_procOffset := call_offset (object_getCall (m_object (segment_at ?d segment)) callIndex),
           cl_returnsValue := call_returns (object_getCall (m_object (segment_at ?d segment)) callIndex)\<rparr>) = Inr c'"
      "cs1 = cs" "H1 = H(r \<mapsto> c'\<lparr>cl_ip := make_iterator (pi_code info)\<rparr>)" "segment < length (sd_segments ?d)"
    by (auto simp: closure_ctor_def Let_def then_do_Inr closure_receiver_def deref_def or_else_Inr dest: getSegment_Some)
  from capture_lexicals_values [OF ctor(3)] show ?thesis
    using that [of "c'\<lparr>cl_ip := make_iterator (pi_code info)\<rparr>"] ctor(1,2,4,5,6) by fastforce
qed

lemma closure_apply_frame:
  assumes "closure_apply C (cs, H) = Inr (cs', H')" "m_callStack (cs_coro cs) = calls @ [frame]"
    and "getRef (bl_endian (ce_bytes C)) (m_receiver frame) = Some r" "H r = Some c" "call_cell_wf frame"
  obtains act where "H' = H" "m_callStack (cs_coro cs') = (if ce_moved C then map (\<lambda>c. fst (move_cell c)) calls else calls) @ [act]"
    "m_IP (cs_coro cs') = cl_ip c" "cs_segments cs' = cs_segments cs"
    "call_cell_wf act" "m_returnIP act = m_returnIP frame" "m_returnSegment act = m_returnSegment frame"
    "m_receiver act = m_receiver frame" "m_numRest act = m_numRest frame" "m_numArguments act \<le> m_numArguments frame"
    "unat (m_numLexicals act) = length (cl_lexicals c)"
    "\<And>k. k < length (cl_lexicals c) \<Longrightarrow> getLexical (int k) act = cl_lexicals c ! k"
    "\<And>i. i < unat (m_numArguments act) \<Longrightarrow> getArgument (int i) act = getArgument (int i) frame"
    "\<And>i. i < unat (m_numRest act) \<Longrightarrow> getRestArgument (int i) act = getRestArgument (int i) frame"
proof -
  let ?frame = "frame\<lparr>m_savedIP := empty_iterator\<rparr>" and ?co = "(cs_coro cs)\<lparr>m_callStack := calls\<rparr>"
  let ?co' = "snd (resizeDataStack (m_stackGuard frame) ?co)"
  have calls: "m_callStack ?co' = calls" by (simp add: resizeDataStack_def on_data_def split_beta)
  from assms(1,3,4) obtain segment t and info :: activation_info where apply_eq:
      "make_cell_receiver (cl_call c) (word_of_nat (m_segmentIndex (segment_at (cs_segments cs) segment))) (cl_procOffset c)
        (m_returnSegment frame) (m_returnIP frame) (cl_returnsValue c) (dataStackSize ?co') (ai_arguments info) (m_numRest frame)
        (ai_locals info) (ai_lexicals info) (closure_arguments (ai_arguments info) ?frame) (m_receiver frame) = Some t"
      "\<not> m_numArguments frame < ai_arguments info" "length (cl_lexicals c) = unat (ai_lexicals info)"
      "cs' = cs\<lparr>cs_coro := snd (pushCall (ce_moved C) (set_lexicals (ai_lexicals info) c t) (cl_ip c) (Some segment) ?co')\<rparr>" "H' = H"
    by (auto simp: closure_apply_def popCall_current [OF assms(2)] closure_receiver_def then_do_Inr deref_def or_else_fail_def Let_def
        split: option.splits if_splits)
  let ?data = "closure_arguments (ai_arguments info) ?frame"
  have le: "ai_arguments info \<le> m_numArguments ?frame" using apply_eq(2) by simp
  have t: "t = (make_cell (cl_call c) (word_of_nat (m_segmentIndex (segment_at (cs_segments cs) segment))) (cl_procOffset c)
        (m_returnSegment frame) (m_returnIP frame) (cl_returnsValue c) (dataStackSize ?co') (ai_arguments info) (m_numRest frame)
        (ai_locals info) (ai_lexicals info) ?data)\<lparr>m_receiver := m_receiver frame\<rparr>"
    using apply_eq(1) by (auto simp: make_cell_receiver_def split: if_splits)
  have wf: "call_cell_wf t" using make_cell_wf(1) by (simp add: t call_cell_wf_def)
  have n: "unat (ai_arguments info) \<le> unat (m_numArguments frame)" using le by (simp add: word_le_nat_alt)
  have slots: "i < unat (m_numArguments frame) + unat (m_numRest frame) \<Longrightarrow>
      i < unat (ai_arguments info) + unat (m_numRest frame) \<Longrightarrow> m_data t ! i = ?data ! i" for i
    using closure_arguments_at(1) [OF le] by (simp add: t make_cell_def resize_def nth_append)
  let ?act = "copy_cell (set_lexicals (ai_lexicals info) c t)"
  note keep = set_lexicals_frame [OF wf, where n = "ai_lexicals info" and c = c]
  have control: "control ?act = control t" using keep(2) by simp
  have areas: "area_get a j ?act = area_get a j (set_lexicals (ai_lexicals info) c t)" for a j
    by (cases a) (simp_all add: copy_cell_def cell_access)
  have nums: "m_numArguments ?act = ai_arguments info" "m_numRest ?act = m_numRest frame" "m_numLexicals ?act = ai_lexicals info"
    using arg_cong [OF control, of m_numArguments] arg_cong [OF control, of m_numRest] arg_cong [OF control, of m_numLexicals]
    by (simp_all add: control_def t make_cell_def)
  have "area_get Arguments (int i) t = getArgument (int i) frame" if i: "i < unat (ai_arguments info)" for i
  proof -
    have "int i < int (unat (ai_arguments info))" using i by (simp only: of_nat_less_iff)
    then have "area_get Arguments (int i) t = m_data t ! i" by (simp add: getArgument_def t make_cell_def)
    also have "\<dots> = ?data ! i" using i n by (intro slots) simp_all
    also have "\<dots> = getArgument (int i) frame" using closure_arguments_at(2) [OF le i] by (simp add: getArgument_def)
    finally show ?thesis .
  qed
  moreover have "area_get Rests (int i) t = getRestArgument (int i) frame" if i: "i < unat (m_numRest frame)" for i
  proof -
    have "int i < int (unat (m_numRest frame))" using i by (simp only: of_nat_less_iff)
    moreover have "nat (uint (ai_arguments info) + int i) = unat (ai_arguments info) + i" by (simp add: nat_add_distrib)
    ultimately have "area_get Rests (int i) t = m_data t ! (unat (ai_arguments info) + i)" by (simp add: getRestArgument_def t make_cell_def)
    also have "\<dots> = ?data ! (unat (ai_arguments info) + i)" using i n by (intro slots) simp_all
    also have "\<dots> = getRestArgument (int i) frame" using closure_arguments_at(3) [OF le, of i] i by (simp add: getRestArgument_def)
    finally show ?thesis .
  qed
  moreover have "getLexical (int k) ?act = cl_lexicals c ! k" if k: "k < length (cl_lexicals c)" for k
  proof -
    have "m_numLexicals t = ai_lexicals info" by (simp add: t make_cell_def)
    then have "getLexical (int k) (set_lexicals (ai_lexicals info) c t) = lexicalAt (int k) c"
      using set_lexicals_values [OF wf, of k c] k apply_eq(3) by simp
    then show ?thesis using areas [of Lexicals "int k"] k by (simp add: lexicalAt_def)
  qed
  ultimately show ?thesis
    using apply_eq(3,4,5) calls nums areas [of Arguments] areas [of Rests] keep(1,3) keep(4) [of Arguments] keep(4) [of Rests] le
      control_eq [OF control] that [of ?act]
    by (simp add: pushCall_def copy_cell_def call_cell_wf_def t make_cell_def resizeDataStack_def on_data_def split_beta)
qed


subsection \<open>Properties\<close>

text \<open>C10. A closure that was constructed once keeps the variables of the latest activations of that moment: when it
  is applied later, with any calls below, the call of \<open>Apply\<close> gives way to an activation that starts the code of
  the proc and returns to where that call would have returned, whose lexical \<open>k\<close> is what the \<open>k\<close>th entry of the
  proc's table of lexicals named when the closure was constructed, and whose arguments and rest arguments are
  those of the call.\<close>

theorem applied_closure_sees_captured_values:
  assumes "closure_ctor C (cs, H) = Inr (cs1, H1)" "currentCallOrThrow (cs_coro cs) = Inr frame"
    and "getRef (bl_endian (ce_bytes C)) (m_receiver frame) = Some r" "H r = Some c" "cl_lexicals c = []"
    and "closure_apply C (cs2, H2) = Inr (cs3, H3)" "m_callStack (cs_coro cs2) = calls @ [frame2]"
    and "getRef (bl_endian (ce_bytes C)) (m_receiver frame2) = Some r" "H2 r = H1 r" "call_cell_wf frame2"
  shows "\<exists>c1 segment info ls act. H1 r = Some c1 \<and> cl_segment c1 = word_of_nat segment \<and>
    segment < length (sd_segments (cs_segments cs)) \<and>
    parse_proc_info (ce_bytes C) (od_bytecode (m_object (segment_at (cs_segments cs) segment))) (cl_procOffset c1) = Inr info \<and>
    parse_lexicals_table (ce_bytes C) info = Inr ls \<and>
    H3 = H2 \<and> cs_segments cs3 = cs_segments cs2 \<and> m_IP (cs_coro cs3) = make_iterator (pi_code info) \<and>
    length (m_callStack (cs_coro cs3)) = length (m_callStack (cs_coro cs2)) \<and> last (m_callStack (cs_coro cs3)) = act \<and>
    m_returnIP act = m_returnIP frame2 \<and> m_returnSegment act = m_returnSegment frame2 \<and> m_receiver act = m_receiver frame2 \<and>
    unat (m_numLexicals act) = length ls \<and>
    (\<forall>k < length ls. lexical_in (rev (m_callStack (cs_coro cs)))
      (word_of_nat (m_segmentIndex (segment_at (cs_segments cs) segment))) (ls ! k) = Inr (getLexical (int k) act)) \<and>
    (\<forall>i < unat (m_numArguments act). getArgument (int i) act = getArgument (int i) frame2) \<and>
    (\<forall>i < unat (m_numRest act). getRestArgument (int i) act = getRestArgument (int i) frame2)"
proof -
  obtain c1 segment info ls vs where c1: "H1 = H(r \<mapsto> c1)" "cl_lexicals c1 = vs"
      "parse_proc_info (ce_bytes C) (od_bytecode (m_object (segment_at (cs_segments cs) segment))) (cl_procOffset c1) = Inr info"
      "parse_lexicals_table (ce_bytes C) info = Inr ls" "cl_ip c1 = make_iterator (pi_code info)"
      "cl_segment c1 = word_of_nat segment" "segment < length (sd_segments (cs_segments cs))"
      "list_all2 (\<lambda>l v. lexical_in (rev (m_callStack (cs_coro cs)))
        (word_of_nat (m_segmentIndex (segment_at (cs_segments cs) segment))) l = Inr v) ls vs"
    using closure_ctor_captures [OF assms(1-4)] assms(5) by (metis append_Nil)
  have "H2 r = Some c1" using assms(9) c1(1) by simp
  from closure_apply_frame [OF assms(6-8) this assms(10)] obtain act where act:
      "H3 = H2" "m_callStack (cs_coro cs3) = (if ce_moved C then map (\<lambda>c. fst (move_cell c)) calls else calls) @ [act]"
      "m_IP (cs_coro cs3) = cl_ip c1" "cs_segments cs3 = cs_segments cs2"
      "m_returnIP act = m_returnIP frame2" "m_returnSegment act = m_returnSegment frame2"
      "m_receiver act = m_receiver frame2" "unat (m_numLexicals act) = length (cl_lexicals c1)"
      "\<And>k. k < length (cl_lexicals c1) \<Longrightarrow> getLexical (int k) act = cl_lexicals c1 ! k"
      "\<And>i. i < unat (m_numArguments act) \<Longrightarrow> getArgument (int i) act = getArgument (int i) frame2"
      "\<And>i. i < unat (m_numRest act) \<Longrightarrow> getRestArgument (int i) act = getRestArgument (int i) frame2"
    by metis
  show ?thesis
    using c1 act assms(7) list_all2_lengthD [OF c1(8)] list_all2_nthD [OF c1(8)]
    by (intro exI [of _ c1] exI [of _ segment] exI [of _ info] exI [of _ ls] exI [of _ act]) simp
qed

text \<open>A module whose call has one lexical, the first argument of call 3.\<close>

definition closure_sample_object :: lyric_object where
  "closure_sample_object = call_sample_object\<lparr>od_bytecode := [0, 0, 0, 20, 0, 0, 0, 0, 0, 1, 0, 0, 0, 0, 0, 0, 0, 3, 0, 0, 0, 0, 1, 1]\<rparr>"

definition closure_sample_env :: call_env where
  "closure_sample_env = call_sample_env\<lparr>ce_descriptor := (\<lambda>_. DescriptorRef 0 LinkageCall 0)\<rparr>"

definition closure_sample :: "call_cell list \<Rightarrow> call_state" where
  "closure_sample calls =
    \<lparr>cs_coro = (new_coroutine 16)\<lparr>m_callStack := calls, m_SP := Some 0\<rparr>,
     cs_segments = \<lparr>sd_segments = [new_segment 0 False ''a'' closure_sample_object], sd_cache = [''a'' \<mapsto> 0]\<rparr>\<rparr>"

definition closure_sample_frame :: "operand list \<Rightarrow> call_cell" where
  "closure_sample_frame args = (make_cell 1 0 0 0 (make_iterator [9]) True 0 (word_of_nat (length args)) 0 0 0 args)
    \<lparr>m_receiver := fromRef little_endian_lib (replicate 8 0) 8\<rparr>"


lemma closure_sample_operands:
  "getRef (bl_endian machine_bytes) (fromRef little_endian_lib (replicate 8 0) 8) = Some 8"
  "getDescriptor (bl_endian machine_bytes) (fromDescriptor little_endian_lib (replicate 8 0) 16) = Some 16"
  "isValid_operand (fromRef little_endian_lib (replicate 8 0) 8)"
  by (simp_all add: machine_bytes_def) code_simp+

lemma closure_sample_proc:
  "parse_proc_info machine_bytes (od_bytecode closure_sample_object) 0 = Inr \<lparr>pi_arguments = 0, pi_locals = 0, pi_lexicals = 1,
     pi_lexicals_span = [0, 0, 0, 3, 0, 0, 0, 0, 1], pi_code = [1], pi_trailer = []\<rparr>"
  "parse_proc_activation machine_bytes (od_bytecode closure_sample_object) 0 = Inr \<lparr>ai_arguments = 0, ai_locals = 0, ai_lexicals = 1\<rparr>"
  "parse_lexicals_table machine_bytes \<lparr>pi_arguments = 0, pi_locals = 0, pi_lexicals = 1,
     pi_lexicals_span = [0, 0, 0, 3, 0, 0, 0, 0, 1], pi_code = [1], pi_trailer = []\<rparr> =
     Inr [\<lparr>activation_call = 3, target_offset = 0, lexical_target = 1\<rparr>]"
  by code_simp+


abbreviation closure_sample_value :: operand where
  "closure_sample_value \<equiv> fromU8 (replicate 8 0) 7"

definition closure_sample_calls :: "call_cell list" where
  "closure_sample_calls = [make_cell 3 0 0 0 empty_iterator True 0 1 0 0 0 [closure_sample_value],
    closure_sample_frame [fromDescriptor little_endian_lib (replicate 8 0) 16]]"

lemma closure_sample_constructs:
  "closure_ctor closure_sample_env (closure_sample closure_sample_calls, [8 \<mapsto> new_closure False]) =
    Inr (closure_sample closure_sample_calls, [8 \<mapsto> \<lparr>cl_segment = 0, cl_call = 0, cl_procOffset = 0, cl_returnsValue = True,
      cl_ip = make_iterator [1], cl_lexicals = [closure_sample_value]\<rparr>])"
proof -
  have calls: "currentCallOrThrow (cs_coro (closure_sample closure_sample_calls)) =
      Inr (closure_sample_frame [fromDescriptor little_endian_lib (replicate 8 0) 16])"
    by (simp add: currentCallOrThrow_def closure_sample_def closure_sample_calls_def)
  have object: "m_object (segment_at (cs_segments (closure_sample calls)) 0) = closure_sample_object"
      "m_segmentIndex (segment_at (cs_segments (closure_sample calls)) 0) = 0"
      "getSegment 0 (cs_segments (closure_sample calls)) = Some 0" for calls
    by (simp_all add: closure_sample_def segment_at_def getSegment_def)
  have env: "ce_bytes closure_sample_env = machine_bytes" "ce_descriptor closure_sample_env = (\<lambda>_. DescriptorRef 0 LinkageCall 0)"
    by (simp_all add: closure_sample_env_def call_sample_env_def)
  let ?f = "closure_sample_frame [fromDescriptor little_endian_lib (replicate 8 0) 16]"
  have frame: "m_receiver ?f = fromRef little_endian_lib (replicate 8 0) 8" "assert_arguments 1 ?f = Inr ()"
      "getArgument 0 ?f = fromDescriptor little_endian_lib (replicate 8 0) 16" "m_callSegment ?f = 0" "m_callIndex ?f = 1"
    by (simp_all add: closure_sample_frame_def make_cell_def getArgument_def resize_def assert_arguments_def)
  have call: "object_getCall closure_sample_object 0 =
      Some \<lparr>cd_bound = False, cd_noReturn = False, cd_ctor = False, cd_inline = False, cd_bytecode_offset = 0\<rparr>"
    by (simp add: closure_sample_object_def call_sample_object_def object_getCall_def)
  have "capture_lexicals (rev closure_sample_calls) 0 [\<lparr>activation_call = 3, target_offset = 0, lexical_target = 1\<rparr>] c =
      Inr (c\<lparr>cl_lexicals := cl_lexicals c @ [closure_sample_value]\<rparr>)" for c :: closure
    by (simp add: capture_lexicals_Cons lexical_in_def closure_sample_calls_def frame lexical_value_def LEXICAL_ARGUMENT_def
        lexicalAppend_def) (simp add: make_cell_def getArgument_def resize_def)
  moreover have "m_callStack (cs_coro (closure_sample closure_sample_calls)) = closure_sample_calls" by (simp add: closure_sample_def)
  ultimately show ?thesis
    by (simp add: closure_ctor_def calls closure_receiver_def frame env closure_sample_operands call_argument_def object call
        call_offset_def call_returns_def closure_sample_proc new_closure_def)
qed

theorem applied_closure_sees_captured_values_witness:
  "\<exists>H cs. closure_ctor closure_sample_env (closure_sample closure_sample_calls, [8 \<mapsto> new_closure False]) =
      Inr (closure_sample closure_sample_calls, H) \<and>
    closure_apply closure_sample_env (closure_sample [closure_sample_frame []], H) = Inr (cs, H) \<and>
    getLexical 0 (last (m_callStack (cs_coro cs))) = closure_sample_value"
proof -
  let ?f = "closure_sample_frame [fromDescriptor little_endian_lib (replicate 8 0) 16]" and ?g = "closure_sample_frame []"
  let ?c = "\<lparr>cl_segment = 0, cl_call = 0, cl_procOffset = 0, cl_returnsValue = True, cl_ip = make_iterator [1],
    cl_lexicals = [closure_sample_value]\<rparr>"
  have env: "ce_bytes closure_sample_env = machine_bytes" by (simp add: closure_sample_env_def call_sample_env_def)
  have frames: "currentCallOrThrow (cs_coro (closure_sample closure_sample_calls)) = Inr ?f"
      "m_receiver ?f = fromRef little_endian_lib (replicate 8 0) 8" "m_receiver ?g = fromRef little_endian_lib (replicate 8 0) 8"
      "call_cell_wf ?g" "m_callStack (cs_coro (closure_sample [?g])) = [] @ [?g]"
    by (simp_all add: closure_sample_frame_def currentCallOrThrow_def closure_sample_def closure_sample_calls_def)
      (simp_all add: make_cell_def call_cell_wf_def)
  have segment: "getSegment 0 (cs_segments (closure_sample calls)) = Some 0"
      "m_object (segment_at (cs_segments (closure_sample calls)) 0) = closure_sample_object" for calls
    by (simp_all add: closure_sample_def segment_at_def getSegment_def)
  have "\<exists>cs. closure_apply closure_sample_env (closure_sample [?g], [8 \<mapsto> ?c]) = Inr (cs, [8 \<mapsto> ?c])"
    by (simp add: closure_apply_def popCall_current [OF frames(5)] closure_receiver_def frames env closure_sample_operands
        segment closure_sample_proc make_cell_receiver_def Let_def)
      (simp add: closure_sample_object_def closure_sample_frame_def make_cell_def)
  then obtain cs where applied: "closure_apply closure_sample_env (closure_sample [?g], [8 \<mapsto> ?c]) = Inr (cs, [8 \<mapsto> ?c])" ..
  moreover have "sd_segments (cs_segments (closure_sample closure_sample_calls)) = [new_segment 0 False ''a'' closure_sample_object]"
    by (simp add: closure_sample_def)
  moreover have "m_segmentIndex (segment_at (cs_segments (closure_sample closure_sample_calls)) 0) = 0"
    by (simp add: closure_sample_def segment_at_def)
  moreover have "lexical_in (rev (m_callStack (cs_coro (closure_sample closure_sample_calls)))) 0
      \<lparr>activation_call = 3, target_offset = 0, lexical_target = 1\<rparr> = Inr closure_sample_value"
    by (simp add: closure_sample_def closure_sample_calls_def lexical_in_def closure_sample_frame_def lexical_value_def LEXICAL_ARGUMENT_def)
      (simp add: make_cell_def getArgument_def resize_def)
  ultimately have "getLexical 0 (last (m_callStack (cs_coro cs))) = closure_sample_value"
    using applied_closure_sees_captured_values [OF closure_sample_constructs frames(1) _ _ _ _ frames(5) _ _ frames(4),
        of 8 "new_closure False" "[8 \<mapsto> ?c]" cs "[8 \<mapsto> ?c]"]
    by (auto simp: frames env closure_sample_operands new_closure_def segment closure_sample_proc)
  then show ?thesis using closure_sample_constructs applied by blast
qed

end
