(* ===== verification/Collector.thy ===== *)
theory Collector
  imports Promise Native
begin

text \<open>
  References on the heap and their collection (\<open>gc_heap.cpp\<close>, \<open>HeapManager::collectGarbage\<close>, \<open>get_ref\<close> and the
  marking of operands in \<open>operand.cpp\<close>, \<open>setMembersReachable\<close> of the reference classes).

  A reference here is its mark and what its class marks along with it. Classes without members mark only
  themselves: bytes, rest arguments (also when they hold references), namespaces, protocols, boxed
  numbers. The nodes of a sequence or a map (\<open>seq_ref.cpp\<close>, \<open>map_ref.cpp\<close>; the stores of nodes are in
  \<open>Sequences\<close> and \<open>Maps\<close>) are the tree that they unfold to.

  The references that the operations of a promise mark are a parameter. A pointer operand is never null.
\<close>

datatype seq_tree = LeafSeq "operand list" | ConcatSeq seq_tree seq_tree

datatype map_tree = ValueMap operand operand | IndexMap "map_tree option list"

datatype ref_kind =
    PlainRef
  | StringRef bool
  | StatusRef "u64 option" "operand list"
  | FieldsRef "operand list"
  | PairRef operand operand
  | ClosureRef "operand list"
  | RestIteratorRef "u64 option"
  | SeqRef "seq_tree option"
  | SeqIteratorRef "u64 option"
  | MapRef "map_tree option"
  | MapIteratorRef "u64 option"

record gc_ref =
  gc_kind :: ref_kind
  gc_reachable :: bool

record gc_handle =
  gh_instance :: u64
  gh_refcount :: int
  gh_prev :: "nat option"
  gh_next :: "nat option"

type_synonym gc_store = "u64 \<rightharpoonup> gc_ref"

record gc_heap =
  gc_refs :: gc_store
  gc_instances :: "u64 option list"
  gc_handles :: "nat \<rightharpoonup> gc_handle"
  gc_nextHandle :: nat
  gc_firstHandle :: "nat option"

record gc_env = native_env +
  ge_ops :: "ops_id \<Rightarrow> u64 list"

definition permanent :: "ref_kind \<Rightarrow> bool" where
  "permanent k \<longleftrightarrow> k = StringRef True"

definition ref_isReachable :: "gc_ref \<Rightarrow> bool" where
  "ref_isReachable ob \<longleftrightarrow> permanent (gc_kind ob) \<or> gc_reachable ob"

subsection \<open>Marking\<close>

text \<open>A call of \<open>setReachable\<close> or \<open>clearReachable\<close> on a reference. \<open>get_ref\<close> marks an operand of type \<open>Ref\<close>
  whatever its caller wants.\<close>

datatype mark = SetMark (target: u64) | ClearMark (target: u64)

fun sets :: "mark \<Rightarrow> bool" where
  "sets (SetMark r) = True" | "sets (ClearMark r) = False"

definition op_ref :: "gc_env \<Rightarrow> operand \<Rightarrow> u64 option" where
  "op_ref E op =
    (case getType op of
       TyBytes \<Rightarrow> getBytesRef (ne_lib E) op
     | TyString \<Rightarrow> getString (ne_lib E) op
     | TyStatus \<Rightarrow> getStatus (ne_lib E) op
     | TyNamespace \<Rightarrow> getNamespace (ne_lib E) op
     | TyProtocol \<Rightarrow> getProtocol (ne_lib E) op
     | TyRest \<Rightarrow> getRest (ne_lib E) op
     | TyRef \<Rightarrow> getRef (ne_lib E) op
     | _ \<Rightarrow> None)"

definition operand_marks :: "gc_env \<Rightarrow> (u64 \<Rightarrow> mark) \<Rightarrow> operand \<Rightarrow> mark list" where
  "operand_marks E m op =
    (case op_ref E op of
       None \<Rightarrow> []
     | Some r \<Rightarrow> if getType op = TyRef then [SetMark r, m r] else [m r])"

text \<open>\<open>set_reachable\<close> and \<open>clear_reachable\<close> on the nodes of a sequence: also \<open>clear_reachable\<close> calls \<open>set_reachable\<close> on the
  halves of a concatenation.\<close>

fun seq_marks :: "gc_env \<Rightarrow> (u64 \<Rightarrow> mark) \<Rightarrow> seq_tree \<Rightarrow> mark list" where
  "seq_marks E m (LeafSeq values) = concat (map (operand_marks E m) values)"
| "seq_marks E m (ConcatSeq left right) = seq_marks E SetMark left @ seq_marks E SetMark right"

fun map_marks :: "gc_env \<Rightarrow> (u64 \<Rightarrow> mark) \<Rightarrow> map_tree \<Rightarrow> mark list" where
  "map_marks E m (ValueMap key value) = operand_marks E m key @ operand_marks E m value"
| "map_marks E m (IndexMap table) =
    concat (map (\<lambda>child. case child of None \<Rightarrow> [] | Some node \<Rightarrow> map_marks E m node) table)"

text \<open>An iterator that iterates over nothing dereferences its null pointer.\<close>

fun member_marks :: "gc_env \<Rightarrow> (u64 \<Rightarrow> mark) \<Rightarrow> ref_kind \<Rightarrow> failure + mark list" where
  "member_marks E m PlainRef = Inr []"
| "member_marks E m (StringRef p) = Inr []"
| "member_marks E m (StatusRef message cells) =
    Inr ((case message of None \<Rightarrow> [] | Some r \<Rightarrow> [m r]) @ concat (map (operand_marks E m) cells))"
| "member_marks E m (FieldsRef cells) = Inr (concat (map (operand_marks E m) cells))"
| "member_marks E m (PairRef first second) = Inr (operand_marks E m first @ operand_marks E m second)"
| "member_marks E m (ClosureRef lexicals) = Inr (concat (map (operand_marks E m) lexicals))"
| "member_marks E m (RestIteratorRef rest) =
    (case rest of None \<Rightarrow> Inl UndefinedBehaviour | Some r \<Rightarrow> Inr [m r])"
| "member_marks E m (SeqRef node) = Inr (case node of None \<Rightarrow> [] | Some t \<Rightarrow> seq_marks E m t)"
| "member_marks E m (SeqIteratorRef seq) =
    (case seq of None \<Rightarrow> Inl UndefinedBehaviour | Some r \<Rightarrow> Inr [m r])"
| "member_marks E m (MapRef node) = Inr (case node of None \<Rightarrow> [] | Some t \<Rightarrow> map_marks E m t)"
| "member_marks E m (MapIteratorRef m_map) =
    (case m_map of None \<Rightarrow> Inl UndefinedBehaviour | Some r \<Rightarrow> Inr [m r])"

partial_function (option) run_marks :: "gc_env \<Rightarrow> mark list \<Rightarrow> gc_store \<Rightarrow> (failure + gc_store) option" where
  "run_marks E ms h =
    (case ms of
       [] \<Rightarrow> Some (Inr h)
     | m # rest \<Rightarrow>
         run_bind (Some (deref h (target m))) (\<lambda>ob.
         run_bind (Some (member_marks E (if sets m then SetMark else ClearMark) (gc_kind ob))) (\<lambda>ns.
         run_bind (run_marks E ns (h(target m \<mapsto> ob\<lparr>gc_reachable := sets m\<rparr>))) (run_marks E rest))))"

subsection \<open>The heap\<close>

definition heap_insertInstance :: "u64 \<Rightarrow> gc_heap \<Rightarrow> u32 \<times> gc_heap" where
  "heap_insertInstance r g = (word_of_nat (length (gc_instances g)), g\<lparr>gc_instances := gc_instances g @ [Some r]\<rparr>)"

fun live_instances :: "u64 option list \<Rightarrow> u64 list" where
  "live_instances [] = []"
| "live_instances (None # is) = live_instances is"
| "live_instances (Some r # is) = r # live_instances is"

definition with_refs :: "(failure + gc_store) option \<Rightarrow> gc_heap \<Rightarrow> (failure + gc_heap) option" where
  "with_refs r g = run_bind r (\<lambda>h. Some (Inr (g\<lparr>gc_refs := h\<rparr>)))"

definition heap_clearReachable :: "gc_env \<Rightarrow> gc_heap \<Rightarrow> (failure + gc_heap) option" where
  "heap_clearReachable E g = with_refs (run_marks E (map ClearMark (live_instances (gc_instances g))) (gc_refs g)) g"

partial_function (option) mark_handles :: "gc_env \<Rightarrow> nat option \<Rightarrow> gc_heap \<Rightarrow> (failure + gc_heap) option" where
  "mark_handles E handle g =
    (case handle of
       None \<Rightarrow> Some (Inr g)
     | Some p \<Rightarrow>
         run_bind (Some (deref (gc_handles g) p)) (\<lambda>n.
         run_bind (with_refs (run_marks E [SetMark (gh_instance n)] (gc_refs g)) g) (mark_handles E (gh_next n))))"

text \<open>Deleting a reference that two instances share twice is undefined.\<close>

fun sweep :: "u64 option list \<Rightarrow> gc_store \<Rightarrow> failure + u64 option list \<times> gc_store" where
  "sweep [] h = Inr ([], h)"
| "sweep (None # is) h = then_do (sweep is h) (\<lambda>(js, h'). Inr (None # js, h'))"
| "sweep (Some r # is) h =
    then_do (deref h r) (\<lambda>ob.
      if ref_isReachable ob then then_do (sweep is h) (\<lambda>(js, h'). Inr (Some r # js, h'))
      else then_do (sweep is (h(r := None))) (\<lambda>(js, h'). Inr (None # js, h')))"

definition heap_deleteUnreachable :: "gc_env \<Rightarrow> gc_heap \<Rightarrow> (failure + gc_heap) option" where
  "heap_deleteUnreachable E g =
    run_bind (mark_handles E (gc_firstHandle g) g) (\<lambda>g.
      Some (then_do (sweep (gc_instances g) (gc_refs g)) (\<lambda>(is, h). Inr (g\<lparr>gc_instances := is, gc_refs := h\<rparr>))))"

definition heap_createHandle :: "u64 \<Rightarrow> gc_heap \<Rightarrow> failure + nat \<times> gc_heap" where
  "heap_createHandle r g =
    (let p = gc_nextHandle g; g' = g\<lparr>gc_nextHandle := p + 1\<rparr>
     in case gc_firstHandle g of
       None \<Rightarrow> Inr (p, g'\<lparr>gc_handles := (gc_handles g)(p \<mapsto> \<lparr>gh_instance = r, gh_refcount = 1, gh_prev = None, gh_next = None\<rparr>),
         gc_firstHandle := Some p\<rparr>)
     | Some first \<Rightarrow>
         then_do (deref (gc_handles g) first) (\<lambda>n.
         then_do (or_else_fail UndefinedBehaviour (gh_prev n)) (\<lambda>prev.
         then_do (deref (gc_handles g) prev) (\<lambda>q.
         let hs = (gc_handles g)(p \<mapsto> \<lparr>gh_instance = r, gh_refcount = 1, gh_prev = Some prev, gh_next = Some first\<rparr>,
               prev \<mapsto> q\<lparr>gh_next := Some p\<rparr>)
         in then_do (deref hs first) (\<lambda>n. Inr (p, g'\<lparr>gc_handles := hs(first \<mapsto> n\<lparr>gh_prev := Some p\<rparr>)\<rparr>))))))"

definition live_handle :: "nat \<Rightarrow> gc_heap \<Rightarrow> failure + gc_handle" where
  "live_handle p g = then_do (deref (gc_handles g) p) (\<lambda>n. then_do (tu_assert (gh_refcount n > 0)) (\<lambda>_. Inr n))"

definition heap_incrementHandle :: "nat \<Rightarrow> gc_heap \<Rightarrow> failure + gc_heap" where
  "heap_incrementHandle p g =
    then_do (live_handle p g) (\<lambda>n. Inr (g\<lparr>gc_handles := (gc_handles g)(p \<mapsto> n\<lparr>gh_refcount := gh_refcount n + 1\<rparr>)\<rparr>))"

definition unlink_handle :: "gc_handle \<Rightarrow> gc_heap \<Rightarrow> failure + gc_heap" where
  "unlink_handle n g =
    (case gh_prev n of
       None \<Rightarrow> then_do (tu_assert (gh_next n = None)) (\<lambda>_. Inr (g\<lparr>gc_firstHandle := None\<rparr>))
     | Some prev \<Rightarrow>
         then_do (deref (gc_handles g) prev) (\<lambda>q.
         let hs = (gc_handles g)(prev \<mapsto> q\<lparr>gh_next := gh_next n\<rparr>)
         in then_do (or_else_fail UndefinedBehaviour (gh_next n)) (\<lambda>next_p.
            then_do (deref hs next_p) (\<lambda>m. Inr (g\<lparr>gc_handles := hs(next_p \<mapsto> m\<lparr>gh_prev := Some prev\<rparr>)\<rparr>)))))"

definition heap_decrementHandle :: "nat \<Rightarrow> gc_heap \<Rightarrow> failure + gc_heap" where
  "heap_decrementHandle p g =
    then_do (live_handle p g) (\<lambda>n.
      let n' = n\<lparr>gh_refcount := gh_refcount n - 1\<rparr>; g' = g\<lparr>gc_handles := (gc_handles g)(p \<mapsto> n')\<rparr>
      in if gh_refcount n' \<noteq> 0 then Inr g'
         else then_do (unlink_handle n' g') (\<lambda>g1.
           let g2 = (if gc_firstHandle g1 = Some p then g1\<lparr>gc_firstHandle := gh_next n'\<rparr> else g1)
           in Inr (g2\<lparr>gc_handles := (gc_handles g2)(p := None)\<rparr>)))"

definition heap_derefHandle :: "nat \<Rightarrow> gc_heap \<Rightarrow> failure + u64" where
  "heap_derefHandle p g = then_do (live_handle p g) (\<lambda>n. Inr (gh_instance n))"

subsection \<open>Collection\<close>

partial_function (option) mark_data ::
  "gc_env \<Rightarrow> operand_stack_iterator \<Rightarrow> gc_store \<Rightarrow> (failure + gc_store) option" where
  "mark_data E it h =
    (case fst (stack_getNext (ne_garbage E) it) of
       None \<Rightarrow> Some (Inr h)
     | Some v \<Rightarrow> run_bind (run_marks E (operand_marks E SetMark v) h)
         (mark_data E (snd (stack_getNext (ne_garbage E) it))))"

definition set_reachable_for_task ::
  "gc_env \<Rightarrow> system_scheduler \<Rightarrow> task_ptr option \<Rightarrow> gc_store \<Rightarrow> (failure + gc_store) option" where
  "set_reachable_for_task E s t h =
    (case t of None \<Rightarrow> Some (Inr h) | Some p \<Rightarrow> mark_data E (iterateData (t_coro (m_tasks s p))) h)"

partial_function (option) mark_tasks ::
  "gc_env \<Rightarrow> system_scheduler \<Rightarrow> task_ptr option \<Rightarrow> gc_store \<Rightarrow> (failure + gc_store) option" where
  "mark_tasks E s t h =
    (case t of
       None \<Rightarrow> Some (Inr h)
     | Some p \<Rightarrow> run_bind (set_reachable_for_task E s (Some p) h) (mark_tasks E s (t_next (m_tasks s p))))"

definition waiter_setReachable ::
  "gc_env \<Rightarrow> runtime \<Rightarrow> waiter_ptr \<Rightarrow> gc_store \<Rightarrow> (failure + gc_store) option" where
  "waiter_setReachable E s w h =
    (case w_promise (m_waiterStore (r_sched s) w) of
       None \<Rightarrow> Some (Inr h)
     | Some p \<Rightarrow> Option.bind (setReachable p s) (\<lambda>ps.
         run_marks E (map SetMark (concat (map (\<lambda>q. ge_ops E (p_ops (r_promises s q))) ps))) h))"

partial_function (option) mark_waiters ::
  "gc_env \<Rightarrow> runtime \<Rightarrow> waiter_ptr \<Rightarrow> waiter_ptr \<Rightarrow> waiter_ptr option \<Rightarrow> gc_store \<Rightarrow> (failure + gc_store) option" where
  "mark_waiters E s waiterHead waiter next_w h =
    run_bind (waiter_setReachable E s waiter h) (\<lambda>h1.
      case next_w of
        None \<Rightarrow> Some (Inl UndefinedBehaviour)
      | Some w \<Rightarrow>
          let n = w_next (m_waiterStore (r_sched s) w)
          in if n \<noteq> None \<and> n \<noteq> Some waiterHead then mark_waiters E s waiterHead w n h1 else Some (Inr h1))"

definition mark_roots :: "gc_env \<Rightarrow> runtime \<Rightarrow> gc_store \<Rightarrow> (failure + gc_store) option" where
  "mark_roots E s h =
    (let q = r_sched s
     in run_bind (set_reachable_for_task E q (m_currentTask q) h) (\<lambda>h1.
        run_bind (mark_tasks E q (m_waitQueue q) h1) (\<lambda>h2.
        run_bind (mark_tasks E q (m_readyQueue q) h2) (\<lambda>h3.
          case firstWaiter q of
            None \<Rightarrow> Some (Inr h3)
          | Some w \<Rightarrow> mark_waiters E s w w (w_next (m_waiterStore q w)) h3))))"

definition collectGarbage :: "gc_env \<Rightarrow> runtime \<Rightarrow> gc_heap \<Rightarrow> (failure + gc_heap) option" where
  "collectGarbage E s g =
    run_bind (heap_clearReachable E g) (\<lambda>g1.
    run_bind (with_refs (mark_roots E s (gc_refs g1)) g1) (heap_deleteUnreachable E))"

end
