(* ===== verification/CollectorLaws.thy ===== *)
theory CollectorLaws
  imports Collector
begin

text \<open>
  What a sequence of marks leaves: each reference has the value of the last mark that reaches it, when the marks set or
  no sequence of the heap is a concatenation, whose members a clearing sets. The roots of a collection.
\<close>

subsection \<open>Reachability\<close>

definition member_targets :: "gc_env \<Rightarrow> ref_kind \<Rightarrow> u64 list" where
  "member_targets E k = (case member_marks E SetMark k of Inl e \<Rightarrow> [] | Inr ns \<Rightarrow> map target ns)"

definition points :: "gc_env \<Rightarrow> gc_store \<Rightarrow> (u64 \<times> u64) set" where
  "points E h = {(r, q). \<exists>ob. h r = Some ob \<and> q \<in> set (member_targets E (gc_kind ob))}"

definition reached :: "gc_env \<Rightarrow> gc_store \<Rightarrow> u64 \<Rightarrow> u64 set" where
  "reached E h r = (points E h)\<^sup>* `` {r}"

lemma reached_refl [simp]: "r \<in> reached E h r"
  by (simp add: reached_def)

lemma reached_step:
  assumes "h r = Some ob"
  shows "x \<in> reached E h r \<longleftrightarrow> x = r \<or> (\<exists>q \<in> set (member_targets E (gc_kind ob)). x \<in> reached E h q)"
  using assms by (auto simp: reached_def points_def elim: converse_rtranclE intro: converse_rtrancl_into_rtrancl)

definition same_kinds :: "gc_store \<Rightarrow> gc_store \<Rightarrow> bool" where
  "same_kinds h h' \<longleftrightarrow> (\<forall>r. map_option gc_kind (h r) = map_option gc_kind (h' r))"

lemma points_same: "same_kinds h h' \<Longrightarrow> points E h' = points E h"
  by (auto simp: points_def same_kinds_def) (metis (mono_tags, lifting) map_option_eq_Some option.map(2))+

lemma reached_same: "same_kinds h h' \<Longrightarrow> reached E h' = reached E h"
  by (simp add: reached_def points_same fun_eq_iff)

subsection \<open>The effect of marks\<close>

definition effect :: "(u64 \<Rightarrow> u64 set) \<Rightarrow> mark list \<Rightarrow> u64 \<Rightarrow> bool \<Rightarrow> bool" where
  "effect R ms x f = foldl (\<lambda>f m. if x \<in> R (target m) then sets m else f) f ms"

lemma effect_simps [simp]:
  "effect R [] x f = f" "effect R (m # ms) x f = effect R ms x (if x \<in> R (target m) then sets m else f)"
  "effect R (ms @ ns) x f = effect R ns x (effect R ms x f)"
  by (simp_all add: effect_def)

definition marks_to :: "bool \<Rightarrow> mark list \<Rightarrow> bool" where
  "marks_to b ms \<longleftrightarrow> (\<forall>R x f. effect R ms x f = (if \<exists>m \<in> set ms. x \<in> R (target m) then b else f))"

lemma marks_to_Nil [simp]: "marks_to b []"
  by (simp add: marks_to_def)

lemma marks_to_append: "marks_to b ms \<Longrightarrow> marks_to b ns \<Longrightarrow> marks_to b (ms @ ns)"
  by (auto simp: marks_to_def)

lemma marks_to_concat: "\<forall>ms \<in> set mss. marks_to b ms \<Longrightarrow> marks_to b (concat mss)"
  by (induction mss) (auto intro: marks_to_append)

lemma marks_to_one: "marks_to (sets m) [m]"
  by (simp add: marks_to_def)

lemma marks_to_sets: "\<forall>m \<in> set ms. sets m = b \<Longrightarrow> marks_to b ms"
proof (induction ms)
  case (Cons m ms)
  then have "marks_to b ([m] @ ms)" using marks_to_one [of m] by (intro marks_to_append) auto
  then show ?case by simp
qed simp

definition marker :: "bool \<Rightarrow> u64 \<Rightarrow> mark" where
  "marker b = (if b then SetMark else ClearMark)"

lemma marker_simps [simp]: "target (marker b r) = r" "sets (marker b r) = b"
  by (simp_all add: marker_def)

lemma operand_marks_to: "marks_to b (operand_marks E (marker b) op)"
  by (auto simp: operand_marks_def marks_to_def split: option.splits)

lemma operands_marks_to: "marks_to b (concat (map (operand_marks E (marker b)) vs))"
  by (auto intro!: marks_to_concat operand_marks_to)

text \<open>Clearing reaches the members of all kinds but concatenations.\<close>

definition clears_members :: "ref_kind \<Rightarrow> bool" where
  "clears_members k \<longleftrightarrow> (\<forall>l r. k \<noteq> SeqRef (Some (ConcatSeq l r)))"

definition no_concatenation :: "gc_store \<Rightarrow> bool" where
  "no_concatenation h \<longleftrightarrow> (\<forall>r ob. h r = Some ob \<longrightarrow> clears_members (gc_kind ob))"

lemma marker_True: "marker True = SetMark"
  by (simp add: marker_def fun_eq_iff)

lemma operands_set: "n \<in> set (concat (map (operand_marks E SetMark) vs)) \<Longrightarrow> sets n"
  by (auto simp: operand_marks_def split: option.splits if_splits)

lemma operand_set: "n \<in> set (operand_marks E SetMark v) \<Longrightarrow> sets n"
  using operands_set [of n E "[v]"] by simp

lemma seq_set: "n \<in> set (seq_marks E SetMark t) \<Longrightarrow> sets n"
  using operands_set by (induction t) (force simp del: set_concat)+

lemma map_set: "n \<in> set (map_marks E SetMark t) \<Longrightarrow> sets n"
  using operand_set by (induction t) (force split: option.splits)+

lemma member_set: "member_marks E SetMark k = Inr ns \<Longrightarrow> n \<in> set ns \<Longrightarrow> sets n"
  using operands_set operand_set seq_set map_set
  by (cases k) (fastforce split: option.splits simp del: set_concat)+

lemma map_marks_to: "marks_to b (map_marks E (marker b) t)"
proof (induction t)
  case (ValueMap key v)
  then show ?case by (simp add: marks_to_append operand_marks_to)
next
  case (IndexMap table)
  show ?case
    unfolding map_marks.simps by (intro marks_to_concat) (auto split: option.splits intro: IndexMap)
qed

lemma member_marks_to:
  assumes ns: "member_marks E (marker b) k = Inr ns" and k: "b \<or> clears_members k"
  shows "marks_to b ns"
proof (cases b)
  case True
  then show ?thesis using ns member_set by (auto simp: marker_True intro!: marks_to_sets)
next
  case False
  show ?thesis
  proof (cases k)
    case (StatusRef message cells)
    then have "ns = map (marker b) (case message of None \<Rightarrow> [] | Some r \<Rightarrow> [r]) @ concat (map (operand_marks E (marker b)) cells)"
      using ns by (auto split: option.splits)
    then show ?thesis by (auto intro!: marks_to_append [OF _ operands_marks_to] simp: marks_to_sets)
  next
    case (PairRef first second)
    then show ?thesis using ns marks_to_append [OF operand_marks_to operand_marks_to] by auto
  next
    case (SeqRef root)
    show ?thesis
    proof (cases root)
      case (Some t)
      then show ?thesis using ns k False SeqRef operands_marks_to by (cases t) (auto simp: clears_members_def)
    qed (use ns SeqRef in simp)
  next
    case (MapRef root)
    then show ?thesis using ns map_marks_to by (auto split: option.splits)
  qed (use ns in \<open>auto intro!: operands_marks_to marks_to_sets split: option.splits\<close>)
qed

lemma operand_marks_targets: "map target (operand_marks E (marker b) op) = map target (operand_marks E SetMark op)"
  by (cases "op_ref E op") (simp_all add: operand_marks_def)

lemma operands_marks_targets:
  "map target (concat (map (operand_marks E (marker b)) vs)) = map target (concat (map (operand_marks E SetMark) vs))"
  by (induction vs) (simp_all add: operand_marks_targets)

lemma seq_marks_targets: "map target (seq_marks E (marker b) t) = map target (seq_marks E SetMark t)"
  by (cases t) (simp_all only: seq_marks.simps operands_marks_targets)

lemma map_marks_targets: "map target (map_marks E (marker b) t) = map target (map_marks E SetMark t)"
proof (induction t)
  case (ValueMap key v)
  then show ?case by (simp add: operand_marks_targets)
next
  case (IndexMap table)
  have "map target (case c of None \<Rightarrow> [] | Some t \<Rightarrow> map_marks E (marker b) t) =
      map target (case c of None \<Rightarrow> [] | Some t \<Rightarrow> map_marks E SetMark t)" if "c \<in> set table" for c
  proof (cases c)
    case (Some t)
    then show ?thesis using IndexMap [of c t] that by simp
  qed simp
  then show ?case by (simp add: map_concat comp_def cong: map_cong)
qed

lemma member_marks_targets: "member_marks E (marker b) k = Inr ns \<Longrightarrow> map target ns = member_targets E k"
  using operands_marks_targets [of E b] seq_marks_targets [of E b] map_marks_targets [of E b]
  by (cases k) (auto simp: member_targets_def operand_marks_targets split: option.splits)

lemma run_marks_Nil [simp]: "run_marks E [] h = Some (Inr h)"
  by (simp add: run_marks.simps)

lemma run_marks_Cons:
  "run_marks E (m # ms) h = Some (Inr h') \<longleftrightarrow>
    (\<exists>ob ns h1. h (target m) = Some ob \<and> member_marks E (marker (sets m)) (gc_kind ob) = Inr ns \<and>
      run_marks E ns (h(target m \<mapsto> ob\<lparr>gc_reachable := sets m\<rparr>)) = Some (Inr h1) \<and> run_marks E ms h1 = Some (Inr h'))"
proof -
  have "(if sets m then SetMark else ClearMark) = marker (sets m)" by (simp add: marker_def fun_eq_iff)
  then show ?thesis
    by (subst run_marks.simps) (auto simp: run_bind_Inr deref_Inr)
qed

definition flag :: "gc_store \<Rightarrow> u64 \<Rightarrow> bool" where
  "flag h x = (case h x of None \<Rightarrow> False | Some ob \<Rightarrow> gc_reachable ob)"


lemma effect_keeps_sets:
  assumes "marks_to (sets m) ns" "x = target m \<or> (\<exists>q \<in> set (map target ns). x \<in> R q) \<longleftrightarrow> x \<in> R (target m)"
  shows "effect R ns x (if x = target m then sets m else f) = (if x \<in> R (target m) then sets m else f)"
  using assms by (auto simp: marks_to_def)

lemma same_kinds_refl [simp]: "same_kinds h h"
  by (simp add: same_kinds_def)

lemma same_kinds_trans: "same_kinds h h1 \<Longrightarrow> same_kinds h1 h2 \<Longrightarrow> same_kinds h h2"
  by (simp add: same_kinds_def)

lemma same_kinds_mark: "h r = Some ob \<Longrightarrow> same_kinds h (h(r \<mapsto> ob\<lparr>gc_reachable := b\<rparr>))"
  by (simp add: same_kinds_def)

lemma no_concatenation_same: "same_kinds h h' \<Longrightarrow> no_concatenation h \<Longrightarrow> no_concatenation h'"
  unfolding no_concatenation_def same_kinds_def by (metis (mono_tags, lifting) map_option_eq_Some option.map(2))

lemma run_marks_effect:
  assumes "run_marks E ms h = Some y"
  shows "\<forall>h'. y = Inr h' \<longrightarrow> same_kinds h h' \<and> (Ball (set ms) sets \<or> no_concatenation h \<longrightarrow>
        (\<forall>x. h x \<noteq> None \<longrightarrow> flag h' x = effect (reached E h) ms x (flag h x)))"
proof (rule run_marks.raw_induct [OF _ assms])
  fix f E ms h y
  assume 1: "\<And>E ms h y. f E ms h = Some y \<Longrightarrow>
      \<forall>h'. y = Inr h' \<longrightarrow> same_kinds h h' \<and> (Ball (set ms) sets \<or> no_concatenation h \<longrightarrow>
        (\<forall>x. h x \<noteq> None \<longrightarrow> flag h' x = effect (reached E h) ms x (flag h x)))"
    and body: "(case ms of [] \<Rightarrow> Some (Inr h)
      | m # rest \<Rightarrow> run_bind (Some (deref h (target m))) (\<lambda>ob.
          run_bind (Some (member_marks E (if sets m then SetMark else ClearMark) (gc_kind ob))) (\<lambda>ns.
          run_bind (f E ns (h(target m \<mapsto> ob\<lparr>gc_reachable := sets m\<rparr>))) (f E rest)))) = Some y"
  show "\<forall>h'. y = Inr h' \<longrightarrow> same_kinds h h' \<and> (Ball (set ms) sets \<or> no_concatenation h \<longrightarrow>
        (\<forall>x. h x \<noteq> None \<longrightarrow> flag h' x = effect (reached E h) ms x (flag h x)))"
  proof (intro allI impI)
    fix h' assume y: "y = Inr h'"
    show "same_kinds h h' \<and> (Ball (set ms) sets \<or> no_concatenation h \<longrightarrow>
        (\<forall>x. h x \<noteq> None \<longrightarrow> flag h' x = effect (reached E h) ms x (flag h x)))"
    proof (cases ms)
      case Nil
      then show ?thesis using body y by simp
    next
      case (Cons m rest)
      have mk: "(if sets m then SetMark else ClearMark) = marker (sets m)" by (simp add: marker_def fun_eq_iff)
      obtain ob ns h1 where ob: "h (target m) = Some ob" and ns: "member_marks E (marker (sets m)) (gc_kind ob) = Inr ns"
        and r1: "f E ns (h(target m \<mapsto> ob\<lparr>gc_reachable := sets m\<rparr>)) = Some (Inr h1)" and r2: "f E rest h1 = Some (Inr h')"
        using body y Cons mk by (auto simp: run_bind_Inr deref_Inr)
      let ?h = "h(target m \<mapsto> ob\<lparr>gc_reachable := sets m\<rparr>)"
      have k: "same_kinds h ?h" using ob by (rule same_kinds_mark)
      have e1: "flag h1 x = effect (reached E ?h) ns x (flag ?h x)"
        if "Ball (set ns) sets \<or> no_concatenation ?h" "?h x \<noteq> None" for x using 1 [OF r1] that by blast
      have k1: "same_kinds h h1" using k same_kinds_trans 1 [OF r1] by blast
      have k2: "same_kinds h1 h'" using 1 [OF r2] by blast
      have e2: "flag h' x = effect (reached E h1) rest x (flag h1 x)"
        if "Ball (set rest) sets \<or> no_concatenation h1" "h1 x \<noteq> None" for x using 1 [OF r2] that by blast
      have "flag h' x = effect (reached E h) ms x (flag h x)"
        if good: "Ball (set ms) sets \<or> no_concatenation h" and x: "h x \<noteq> None" for x
      proof -
        have "sets m \<Longrightarrow> Ball (set ns) sets" using member_set [of E "gc_kind ob" ns] ns by (simp add: marker_True)
        then have sub: "Ball (set ns) sets \<or> no_concatenation ?h" using good Cons no_concatenation_same [OF k] by auto
        have rest_ok: "Ball (set rest) sets \<or> no_concatenation h1" using good Cons no_concatenation_same [OF k1] by auto
        have kind: "sets m \<or> clears_members (gc_kind ob)" using good Cons ob by (auto simp: no_concatenation_def)
        have "map_option gc_kind (h1 x) = map_option gc_kind (h x)" using k1 by (simp add: same_kinds_def)
        then have "h1 x \<noteq> None" using x by (cases "h1 x") auto
        then have "flag h' x = effect (reached E h) rest x (flag h1 x)" using e2 rest_ok by (simp add: reached_same [OF k1])
        moreover have "flag h1 x = effect (reached E h) ns x (flag ?h x)" using e1 [of x] sub x by (simp add: reached_same [OF k])
        moreover have "flag ?h x = (if x = target m then sets m else flag h x)" by (simp add: flag_def)
        moreover have "x = target m \<or> (\<exists>q \<in> set (map target ns). x \<in> reached E h q) \<longleftrightarrow> x \<in> reached E h (target m)"
          using reached_step [of h, OF ob] member_marks_targets [OF ns] by simp
        ultimately show ?thesis
          using effect_keeps_sets [OF member_marks_to [OF ns kind], of x "reached E h" "flag h x"] by (simp add: Cons)
      qed
      then show ?thesis using k1 k2 same_kinds_trans by blast
    qed
  qed
qed

lemma run_marks_sets:
  assumes "run_marks E (map SetMark rs) h = Some (Inr h')" "h x \<noteq> None"
  shows "flag h' x \<longleftrightarrow> flag h x \<or> (\<exists>r \<in> set rs. x \<in> reached E h r)"
proof -
  have "marks_to True (map SetMark rs)" by (intro marks_to_sets) auto
  then show ?thesis using run_marks_effect [OF assms(1)] assms(2) by (auto simp: marks_to_def)
qed

lemma run_marks_clears:
  assumes "run_marks E (map ClearMark rs) h = Some (Inr h')" "h x \<noteq> None" "no_concatenation h"
  shows "flag h' x \<longleftrightarrow> flag h x \<and> (\<forall>r \<in> set rs. x \<notin> reached E h r)"
proof -
  have "marks_to False (map ClearMark rs)" by (intro marks_to_sets) auto
  then show ?thesis using run_marks_effect [OF assms(1)] assms(2,3) by (auto simp: marks_to_def)
qed

lemma run_marks_same: "run_marks E ms h = Some (Inr h') \<Longrightarrow> same_kinds h h'"
  using run_marks_effect by blast

text \<open>Clearing a concatenation marks all that its members reach.\<close>

lemma clearing_sets_members:
  assumes "h r = Some ob" "gc_kind ob = SeqRef (Some (ConcatSeq left right))" "run_marks E [ClearMark r] h = Some (Inr h')"
    and "q \<in> set (member_targets E (gc_kind ob))" "x \<in> reached E h q" "h x \<noteq> None"
  shows "flag h' x"
proof -
  let ?h = "h(r \<mapsto> ob\<lparr>gc_reachable := False\<rparr>)" and ?ns = "seq_marks E SetMark left @ seq_marks E SetMark right"
  have run: "run_marks E ?ns ?h = Some (Inr h')" using assms(1-3) by (auto simp: run_marks_Cons)
  have k: "same_kinds h ?h" using assms(1) by (rule same_kinds_mark)
  have ns: "Ball (set ?ns) sets" using seq_set by auto
  then have "marks_to True ?ns" by (intro marks_to_sets) auto
  moreover have "\<exists>m \<in> set ?ns. target m = q" using assms(2,4) by (auto simp: member_targets_def)
  moreover have "flag h' x = effect (reached E ?h) ?ns x (flag ?h x)"
    using run_marks_effect [OF run] ns assms(6) by auto
  ultimately show ?thesis using assms(5) by (auto simp: marks_to_def reached_same [OF k])
qed

subsection \<open>Roots\<close>

definition marks_from :: "gc_env \<Rightarrow> u64 set \<Rightarrow> gc_store \<Rightarrow> gc_store \<Rightarrow> bool" where
  "marks_from E R h h' \<longleftrightarrow> same_kinds h h' \<and>
    (\<forall>x. h x \<noteq> None \<longrightarrow> (flag h' x \<longleftrightarrow> flag h x \<or> (\<exists>r \<in> R. x \<in> reached E h r)))"

lemma marks_from_empty [simp]: "marks_from E {} h h"
  by (simp add: marks_from_def)

lemma marks_from_Un:
  assumes "marks_from E R h h1" "marks_from E S h1 h2"
  shows "marks_from E (R \<union> S) h h2"
proof -
  have k: "same_kinds h h1" "same_kinds h1 h2" using assms by (auto simp: marks_from_def)
  have "h1 x \<noteq> None" if "h x \<noteq> None" for x
    using k(1) that unfolding same_kinds_def by (metis map_option_is_None)
  then show ?thesis using assms k same_kinds_trans [OF k] by (auto simp: marks_from_def reached_same [OF k(1)])
qed

lemma marks_from_run: "run_marks E (map SetMark rs) h = Some (Inr h') \<Longrightarrow> marks_from E (set rs) h h'"
  using run_marks_sets run_marks_same by (auto simp: marks_from_def)

definition operand_roots :: "gc_env \<Rightarrow> operand_stack_iterator \<Rightarrow> u64 set" where
  "operand_roots E it = {r. \<exists>fuel. \<exists>v \<in> set (iterate_all (ne_garbage E) fuel it). op_ref E v = Some r}"

lemma operand_marks_set: "\<exists>rs. operand_marks E SetMark v = map SetMark rs \<and> set rs = set_option (op_ref E v)"
proof (cases "op_ref E v")
  case None
  then show ?thesis by (auto simp: operand_marks_def intro: exI [of _ "[]"])
next
  case (Some r)
  then have "operand_marks E SetMark v = map SetMark (if getType v = TyRef then [r, r] else [r])" by (simp add: operand_marks_def)
  moreover have "set (if getType v = TyRef then [r, r] else [r]) = set_option (op_ref E v)" using Some by simp
  ultimately show ?thesis by blast
qed

lemma operand_roots_end: "stack_getNext (ne_garbage E) it = (None, it') \<Longrightarrow> operand_roots E it = {}"
proof -
  assume "stack_getNext (ne_garbage E) it = (None, it')"
  then have "iterate_all (ne_garbage E) fuel it = []" for fuel by (cases fuel) simp_all
  then show ?thesis by (simp add: operand_roots_def)
qed

lemma operand_roots_step:
  assumes "stack_getNext (ne_garbage E) it = (Some v, it')"
  shows "operand_roots E it = set_option (op_ref E v) \<union> operand_roots E it'"
proof -
  have "(\<exists>fuel. u \<in> set (iterate_all (ne_garbage E) fuel it)) \<longleftrightarrow>
      u = v \<or> (\<exists>fuel. u \<in> set (iterate_all (ne_garbage E) fuel it'))" for u
  proof (intro iffI; elim exE disjE)
    fix fuel
    assume "u \<in> set (iterate_all (ne_garbage E) fuel it)"
    then show "u = v \<or> (\<exists>fuel. u \<in> set (iterate_all (ne_garbage E) fuel it'))" using assms by (cases fuel) auto
  next
    assume "u = v"
    then have "u \<in> set (iterate_all (ne_garbage E) (Suc 0) it)" using assms by simp
    then show "\<exists>fuel. u \<in> set (iterate_all (ne_garbage E) fuel it)" ..
  next
    fix fuel
    assume "u \<in> set (iterate_all (ne_garbage E) fuel it')"
    then have "u \<in> set (iterate_all (ne_garbage E) (Suc fuel) it)" using assms by simp
    then show "\<exists>fuel. u \<in> set (iterate_all (ne_garbage E) fuel it)" ..
  qed
  then show ?thesis unfolding operand_roots_def by fastforce
qed

lemma mark_data_marks:
  assumes "mark_data E it h = Some y"
  shows "\<forall>h'. y = Inr h' \<longrightarrow> marks_from E (operand_roots E it) h h'"
proof (rule mark_data.raw_induct [OF _ assms])
  fix f E it h y
  assume IH: "\<And>E it h y. f E it h = Some y \<Longrightarrow> \<forall>h'. y = Inr h' \<longrightarrow> marks_from E (operand_roots E it) h h'"
    and body: "(case fst (stack_getNext (ne_garbage E) it) of None \<Rightarrow> Some (Inr h)
      | Some v \<Rightarrow> run_bind (run_marks E (operand_marks E SetMark v) h) (f E (snd (stack_getNext (ne_garbage E) it)))) = Some y"
  show "\<forall>h'. y = Inr h' \<longrightarrow> marks_from E (operand_roots E it) h h'"
  proof (cases "stack_getNext (ne_garbage E) it")
    case (Pair v it')
    show ?thesis
    proof (cases v)
      case None
      then show ?thesis using Pair body by (auto simp: operand_roots_end)
    next
      case (Some v)
      show ?thesis
      proof (intro allI impI)
        fix h' assume "y = Inr h'"
        then obtain h1 where h1: "run_marks E (operand_marks E SetMark v) h = Some (Inr h1)" "f E it' h1 = Some (Inr h')"
          using body Pair Some by (auto simp: run_bind_Inr)
        have "marks_from E (set_option (op_ref E v)) h h1"
          using marks_from_run operand_marks_set [of E v] h1(1) by metis
        then show "marks_from E (operand_roots E it) h h'"
          using marks_from_Un IH h1(2) by (auto simp: operand_roots_step [OF Pair [unfolded Some]])
      qed
    qed
  qed
qed


definition task_link :: "system_scheduler \<Rightarrow> (task_ptr \<times> task_ptr) set" where
  "task_link s = {(p, q). t_next (m_tasks s p) = Some q}"

definition chain_tasks :: "system_scheduler \<Rightarrow> task_ptr option \<Rightarrow> task_ptr set" where
  "chain_tasks s t = (case t of None \<Rightarrow> {} | Some p \<Rightarrow> (task_link s)\<^sup>* `` {p})"

lemma chain_tasks_step: "chain_tasks s (Some p) = insert p (chain_tasks s (t_next (m_tasks s p)))"
  by (auto simp: chain_tasks_def task_link_def elim: converse_rtranclE intro: converse_rtrancl_into_rtrancl split: option.split)

definition task_roots :: "gc_env \<Rightarrow> system_scheduler \<Rightarrow> task_ptr \<Rightarrow> u64 set" where
  "task_roots E s p = operand_roots E (iterateData (t_coro (m_tasks s p)))"

lemma mark_tasks_marks:
  assumes "mark_tasks E s t h = Some y"
  shows "\<forall>h'. y = Inr h' \<longrightarrow> marks_from E (\<Union> (task_roots E s ` chain_tasks s t)) h h'"
proof (rule mark_tasks.raw_induct [OF _ assms])
  fix f E s t h y
  assume IH: "\<And>E s t h y. f E s t h = Some y \<Longrightarrow>
      \<forall>h'. y = Inr h' \<longrightarrow> marks_from E (\<Union> (task_roots E s ` chain_tasks s t)) h h'"
    and body: "(case t of None \<Rightarrow> Some (Inr h)
      | Some p \<Rightarrow> run_bind (set_reachable_for_task E s (Some p) h) (f E s (t_next (m_tasks s p)))) = Some y"
  show "\<forall>h'. y = Inr h' \<longrightarrow> marks_from E (\<Union> (task_roots E s ` chain_tasks s t)) h h'"
  proof (cases t)
    case None
    then show ?thesis using body by (auto simp: chain_tasks_def)
  next
    case (Some p)
    show ?thesis
    proof (intro allI impI)
      fix h' assume "y = Inr h'"
      then obtain h1 where h1: "mark_data E (iterateData (t_coro (m_tasks s p))) h = Some (Inr h1)"
          "f E s (t_next (m_tasks s p)) h1 = Some (Inr h')"
        using body Some by (auto simp: run_bind_Inr set_reachable_for_task_def)
      have "marks_from E (task_roots E s p) h h1" using mark_data_marks [OF h1(1)] by (simp add: task_roots_def)
      moreover have "marks_from E (\<Union> (task_roots E s ` chain_tasks s (t_next (m_tasks s p)))) h1 h'" using IH [OF h1(2)] by blast
      ultimately show "marks_from E (\<Union> (task_roots E s ` chain_tasks s t)) h h'"
        using marks_from_Un by (simp add: Some chain_tasks_step)
    qed
  qed
qed

definition waiter_roots :: "gc_env \<Rightarrow> runtime \<Rightarrow> waiter_ptr \<Rightarrow> u64 set" where
  "waiter_roots E s w = (case w_promise (m_waiterStore (r_sched s) w) of None \<Rightarrow> {}
    | Some p \<Rightarrow> (case setReachable p s of None \<Rightarrow> {} | Some ps \<Rightarrow> (\<Union>q \<in> set ps. set (ge_ops E (p_ops (r_promises s q))))))"

lemma waiter_marks: "waiter_setReachable E s w h = Some (Inr h') \<Longrightarrow> marks_from E (waiter_roots E s w) h h'"
  using marks_from_run by (fastforce simp: waiter_setReachable_def waiter_roots_def bind_eq_Some_conv split: option.splits)


text \<open>The loop goes on to a waiter only when that is not the last one.\<close>

definition waiter_link :: "runtime \<Rightarrow> waiter_ptr \<Rightarrow> (waiter_ptr \<times> waiter_ptr) set" where
  "waiter_link s head = {(w, v). w_next (m_waiterStore (r_sched s) w) = Some v \<and>
    (\<exists>u. w_next (m_waiterStore (r_sched s) v) = Some u \<and> u \<noteq> head)}"

definition marked_waiters :: "runtime \<Rightarrow> waiter_ptr \<Rightarrow> waiter_ptr \<Rightarrow> waiter_ptr set" where
  "marked_waiters s head w = (waiter_link s head)\<^sup>* `` {w}"

lemma marked_waiters_step:
  assumes "w_next (m_waiterStore (r_sched s) w) = Some v"
  shows "marked_waiters s head w = insert w (case w_next (m_waiterStore (r_sched s) v) of None \<Rightarrow> {}
    | Some u \<Rightarrow> if u = head then {} else marked_waiters s head v)"
  using assms
  by (auto simp: marked_waiters_def waiter_link_def elim: converse_rtranclE intro: converse_rtrancl_into_rtrancl split: option.split)

lemma mark_waiters_marks:
  assumes "mark_waiters E s head w next_w h = Some y"
  shows "\<forall>h'. next_w = w_next (m_waiterStore (r_sched s) w) \<longrightarrow> y = Inr h' \<longrightarrow>
    marks_from E (\<Union> (waiter_roots E s ` marked_waiters s head w)) h h'"
proof (rule mark_waiters.raw_induct [OF _ assms])
  fix f E s head w next_w h y
  assume IH: "\<And>E s head w next_w h y. f E s head w next_w h = Some y \<Longrightarrow>
      \<forall>h'. next_w = w_next (m_waiterStore (r_sched s) w) \<longrightarrow> y = Inr h' \<longrightarrow>
        marks_from E (\<Union> (waiter_roots E s ` marked_waiters s head w)) h h'"
    and body: "run_bind (waiter_setReachable E s w h) (\<lambda>h1.
      case next_w of None \<Rightarrow> Some (Inl UndefinedBehaviour)
      | Some v \<Rightarrow> let n = w_next (m_waiterStore (r_sched s) v)
          in if n \<noteq> None \<and> n \<noteq> Some head then f E s head v n h1 else Some (Inr h1)) = Some y"
  show "\<forall>h'. next_w = w_next (m_waiterStore (r_sched s) w) \<longrightarrow> y = Inr h' \<longrightarrow>
      marks_from E (\<Union> (waiter_roots E s ` marked_waiters s head w)) h h'"
  proof (intro allI impI)
    fix h' assume n: "next_w = w_next (m_waiterStore (r_sched s) w)" and y: "y = Inr h'"
    obtain h1 where h1: "waiter_setReachable E s w h = Some (Inr h1)" using body y by (auto simp: run_bind_Inr)
    obtain v where v: "next_w = Some v" using body y by (cases next_w) (auto simp: run_bind_Inr)
    let ?n = "w_next (m_waiterStore (r_sched s) v)"
    have m: "marks_from E (waiter_roots E s w) h h1" by (rule waiter_marks [OF h1])
    show "marks_from E (\<Union> (waiter_roots E s ` marked_waiters s head w)) h h'"
    proof (cases "?n \<noteq> None \<and> ?n \<noteq> Some head")
      case True
      then have "f E s head v ?n h1 = Some (Inr h')" using body y h1 v by (simp add: Let_def)
      then have "marks_from E (\<Union> (waiter_roots E s ` marked_waiters s head v)) h1 h'" using IH by blast
      moreover have "marked_waiters s head w = insert w (marked_waiters s head v)"
        using True n v by (auto simp: marked_waiters_step [of s w v])
      ultimately show ?thesis using marks_from_Un [OF m] by simp
    next
      case False
      then have "h' = h1" using body y h1 v by (auto simp: Let_def)
      moreover have "marked_waiters s head w = {w}" using False n v by (auto simp: marked_waiters_step [of s w v] split: option.split)
      ultimately show ?thesis using m by simp
    qed
  qed
qed

definition scheduler_roots :: "gc_env \<Rightarrow> runtime \<Rightarrow> u64 set" where
  "scheduler_roots E s =
    \<Union> (task_roots E (r_sched s) ` (set_option (m_currentTask (r_sched s)) \<union>
      chain_tasks (r_sched s) (m_waitQueue (r_sched s)) \<union> chain_tasks (r_sched s) (m_readyQueue (r_sched s)))) \<union>
    (case firstWaiter (r_sched s) of None \<Rightarrow> {} | Some w \<Rightarrow> \<Union> (waiter_roots E s ` marked_waiters s w w))"

lemma set_reachable_marks:
  "set_reachable_for_task E s t h = Some (Inr h') \<Longrightarrow> marks_from E (\<Union> (task_roots E s ` set_option t)) h h'"
  using mark_data_marks by (cases t) (auto simp: set_reachable_for_task_def task_roots_def)

lemma mark_roots_marks:
  assumes "mark_roots E s h = Some (Inr h')"
  shows "marks_from E (scheduler_roots E s) h h'"
proof -
  let ?q = "r_sched s"
  obtain h1 h2 h3 where 1: "set_reachable_for_task E ?q (m_currentTask ?q) h = Some (Inr h1)"
      and 2: "mark_tasks E ?q (m_waitQueue ?q) h1 = Some (Inr h2)" and 3: "mark_tasks E ?q (m_readyQueue ?q) h2 = Some (Inr h3)"
      and 4: "(case firstWaiter ?q of None \<Rightarrow> Some (Inr h3)
        | Some w \<Rightarrow> mark_waiters E s w w (w_next (m_waiterStore ?q w)) h3) = Some (Inr h')"
    using assms by (auto simp: mark_roots_def run_bind_Inr Let_def)
  have "marks_from E (case firstWaiter ?q of None \<Rightarrow> {} | Some w \<Rightarrow> \<Union> (waiter_roots E s ` marked_waiters s w w)) h3 h'"
    using 4 mark_waiters_marks by (auto split: option.splits)
  then show ?thesis
    using marks_from_Un [OF marks_from_Un [OF marks_from_Un [OF set_reachable_marks [OF 1] ]]] mark_tasks_marks [OF 2] mark_tasks_marks [OF 3]
    by (simp add: scheduler_roots_def image_Un)
qed

type_synonym handle_store = "nat \<rightharpoonup> gc_handle"

definition handle_link :: "handle_store \<Rightarrow> (nat \<times> nat) set" where
  "handle_link hs = {(p, q). \<exists>n. hs p = Some n \<and> gh_next n = Some q}"

definition handle_chain :: "handle_store \<Rightarrow> nat option \<Rightarrow> nat set" where
  "handle_chain hs t = (case t of None \<Rightarrow> {} | Some p \<Rightarrow> (handle_link hs)\<^sup>* `` {p})"

definition handle_roots :: "handle_store \<Rightarrow> nat option \<Rightarrow> u64 set" where
  "handle_roots hs t = {gh_instance n | n. \<exists>q \<in> handle_chain hs t. hs q = Some n}"

lemma handle_chain_step:
  assumes "hs p = Some n"
  shows "handle_chain hs (Some p) = insert p (handle_chain hs (gh_next n))"
  using assms by (auto simp: handle_chain_def handle_link_def elim: converse_rtranclE intro: converse_rtrancl_into_rtrancl split: option.split)

lemma handle_roots_step:
  assumes "hs p = Some n"
  shows "handle_roots hs (Some p) = insert (gh_instance n) (handle_roots hs (gh_next n))"
  using assms by (auto simp: handle_roots_def handle_chain_step [of hs p n, OF assms])

lemma mark_handles_marks:
  assumes "mark_handles E t g = Some y"
  shows "\<forall>g'. y = Inr g' \<longrightarrow> g' = g\<lparr>gc_refs := gc_refs g'\<rparr> \<and> marks_from E (handle_roots (gc_handles g) t) (gc_refs g) (gc_refs g')"
proof (rule mark_handles.raw_induct [OF _ assms])
  fix f E t g y
  assume IH: "\<And>E t g y. f E t g = Some y \<Longrightarrow>
      \<forall>g'. y = Inr g' \<longrightarrow> g' = g\<lparr>gc_refs := gc_refs g'\<rparr> \<and> marks_from E (handle_roots (gc_handles g) t) (gc_refs g) (gc_refs g')"
    and body: "(case t of None \<Rightarrow> Some (Inr g)
      | Some p \<Rightarrow> run_bind (Some (deref (gc_handles g) p)) (\<lambda>n.
          run_bind (with_refs (run_marks E [SetMark (gh_instance n)] (gc_refs g)) g) (f E (gh_next n)))) = Some y"
  show "\<forall>g'. y = Inr g' \<longrightarrow> g' = g\<lparr>gc_refs := gc_refs g'\<rparr> \<and> marks_from E (handle_roots (gc_handles g) t) (gc_refs g) (gc_refs g')"
  proof (cases t)
    case None
    then show ?thesis using body by (auto simp: handle_roots_def handle_chain_def)
  next
    case (Some p)
    show ?thesis
    proof (intro allI impI)
      fix g' assume "y = Inr g'"
      then obtain n h1 where n: "gc_handles g p = Some n" and h1: "run_marks E [SetMark (gh_instance n)] (gc_refs g) = Some (Inr h1)"
          and r: "f E (gh_next n) (g\<lparr>gc_refs := h1\<rparr>) = Some (Inr g')"
        using body Some by (auto simp: run_bind_Inr deref_Inr with_refs_def)
      have "marks_from E {gh_instance n} (gc_refs g) h1" using marks_from_run [of E "[gh_instance n]"] h1 by simp
      moreover have "g' = g\<lparr>gc_refs := h1\<rparr>\<lparr>gc_refs := gc_refs g'\<rparr>"
          "marks_from E (handle_roots (gc_handles g) (gh_next n)) h1 (gc_refs g')"
        using IH [OF r] by auto
      ultimately show "g' = g\<lparr>gc_refs := gc_refs g'\<rparr> \<and> marks_from E (handle_roots (gc_handles g) t) (gc_refs g) (gc_refs g')"
        using marks_from_Un by (fastforce simp: Some handle_roots_step [of "gc_handles g" p n, OF n])
    qed
  qed
qed

end
