(* ===== verification/Collections.thy ===== *)
theory Collections
  imports CollectorLaws SchedulerRefinement
begin

text \<open>
  A collection that returns deletes only managed references that its marking does not reach, and all of them when no
  sequence is a concatenation; marking returns unless a reference reaches itself.
\<close>

subsection \<open>Deletion\<close>

lemma live_instances_set: "set (live_instances is) = {r. Some r \<in> set is}"
  by (induction "is" rule: live_instances.induct) auto

definition kept :: "gc_store \<Rightarrow> u64 \<Rightarrow> bool" where
  "kept h r \<longleftrightarrow> (\<exists>ob. h r = Some ob \<and> ref_isReachable ob)"

lemma sweep_deletes:
  assumes "sweep is h = Inr (js, h')"
  shows "(\<forall>r \<in> set (live_instances is). h r \<noteq> None) \<and> live_instances js = filter (kept h) (live_instances is) \<and>
    (\<forall>r. h' r = (if r \<in> set (live_instances is) \<and> \<not> kept h r then None else h r))"
  using assms
proof (induction "is" h arbitrary: js h' rule: sweep.induct)
  case (3 r "is" h)
  obtain ob where ob: "h r = Some ob" using 3(3) by (auto simp: then_do_Inr deref_Inr)
  show ?case
  proof (cases "ref_isReachable ob")
    case True
    then obtain js1 where js1: "sweep is h = Inr (js1, h')" "js = Some r # js1" using 3(3) ob by (auto simp: then_do_Inr deref_Inr)
    moreover have "kept h r" using ob True by (simp add: kept_def)
    ultimately show ?thesis using 3(1) [of ob js1 h'] ob True by auto
  next
    case False
    then obtain js1 where js1: "sweep is (h(r := None)) = Inr (js1, h')" "js = None # js1"
      using 3(3) ob by (auto simp: then_do_Inr deref_Inr)
    have all: "(\<forall>q \<in> set (live_instances is). (h(r := None)) q \<noteq> None) \<and>
        live_instances js1 = filter (kept (h(r := None))) (live_instances is) \<and>
        (\<forall>q. h' q = (if q \<in> set (live_instances is) \<and> \<not> kept (h(r := None)) q then None else (h(r := None)) q))"
      by (rule 3(2) [OF False js1(1)])
    have IH: "\<forall>q \<in> set (live_instances is). (h(r := None)) q \<noteq> None"
        "live_instances js1 = filter (kept (h(r := None))) (live_instances is)"
        "\<And>q. h' q = (if q \<in> set (live_instances is) \<and> \<not> kept (h(r := None)) q then None else (h(r := None)) q)"
      using all by blast+
    have r: "r \<notin> set (live_instances is)" "\<not> kept h r" using IH(1) ob False by (auto simp: kept_def)
    then have k: "kept (h(r := None)) q = kept h q" if "q \<in> set (live_instances is)" for q using that by (auto simp: kept_def)
    then have "filter (kept (h(r := None))) (live_instances is) = filter (kept h) (live_instances is)" by (intro filter_cong) auto
    then show ?thesis using IH k r js1(2) ob by (auto split: if_splits)
  qed
qed (auto simp: then_do_Inr)


subsection \<open>Collection\<close>

definition garbage_roots :: "gc_env \<Rightarrow> runtime \<Rightarrow> gc_heap \<Rightarrow> u64 set" where
  "garbage_roots E s g = scheduler_roots E s \<union> handle_roots (gc_handles g) (gc_firstHandle g)"

lemma kept_flag: "h r \<noteq> None \<Longrightarrow> kept h r \<longleftrightarrow> map_option gc_kind (h r) = Some (StringRef True) \<or> flag h r"
  by (auto simp: kept_def flag_def ref_isReachable_def permanent_def)

lemma same_kinds_None: "same_kinds h h' \<Longrightarrow> h' r = None \<longleftrightarrow> h r = None"
  unfolding same_kinds_def by (metis map_option_is_None)

lemma with_refs_Inr: "with_refs r g = Some (Inr g') \<longleftrightarrow> (\<exists>h. r = Some (Inr h) \<and> g' = g\<lparr>gc_refs := h\<rparr>)"
  by (auto simp: with_refs_def run_bind_Inr)

lemma collection_steps:
  assumes "collectGarbage E s g = Some (Inr g')"
  obtains h1 h2 h3 js h4 where
    "run_marks E (map ClearMark (live_instances (gc_instances g))) (gc_refs g) = Some (Inr h1)"
    "marks_from E (scheduler_roots E s) h1 h2" "marks_from E (handle_roots (gc_handles g) (gc_firstHandle g)) h2 h3"
    "sweep (gc_instances g) h3 = Inr (js, h4)" "g' = g\<lparr>gc_instances := js, gc_refs := h4\<rparr>"
proof -
  obtain h1 h2 g3 js h4 where 1: "run_marks E (map ClearMark (live_instances (gc_instances g))) (gc_refs g) = Some (Inr h1)"
      and 2: "mark_roots E s h1 = Some (Inr h2)"
      and 3: "mark_handles E (gc_firstHandle g) (g\<lparr>gc_refs := h2\<rparr>) = Some (Inr g3)"
      and 4: "sweep (gc_instances g3) (gc_refs g3) = Inr (js, h4)" "g' = g3\<lparr>gc_instances := js, gc_refs := h4\<rparr>"
    using assms
    by (auto simp: collectGarbage_def heap_clearReachable_def heap_deleteUnreachable_def run_bind_Inr with_refs_Inr then_do_Inr)
  have "g3 = g\<lparr>gc_refs := h2\<rparr>\<lparr>gc_refs := gc_refs g3\<rparr>"
      and m: "marks_from E (handle_roots (gc_handles g) (gc_firstHandle g)) h2 (gc_refs g3)"
    using mark_handles_marks [OF 3] by auto
  then have g3: "g3 = g\<lparr>gc_refs := gc_refs g3\<rparr>" by simp
  have "gc_instances g3 = gc_instances g" by (subst g3) simp
  moreover have "g' = g\<lparr>gc_instances := js, gc_refs := h4\<rparr>" unfolding 4(2) by (subst g3) simp
  ultimately show thesis using that [OF 1 mark_roots_marks [OF 2] m] 4 by simp
qed

text \<open>C6. What the marking reaches is what the members of the classes lead to from an operand on the data stack of a
  scheduled task, from the promise of a waiter other than the last, or from a handle; the members of rest
  arguments and the boxed numbers that operands point to do not count. A collection that returns deletes only
  references that were managed, are not literal strings, and are not reached; and it deletes all of these when no
  sequence of the heap is a concatenation, whose members keep a mark when the marks are cleared. The other
  references stay managed, in order.\<close>

theorem collection_deletes_unreached:
  assumes "collectGarbage E s g = Some (Inr g')"
  shows "(\<forall>r. gc_refs g' r = None \<longrightarrow> gc_refs g r = None \<or> r \<in> set (live_instances (gc_instances g)) \<and>
      map_option gc_kind (gc_refs g r) \<noteq> Some (StringRef True) \<and> (\<forall>q \<in> garbage_roots E s g. r \<notin> reached E (gc_refs g) q)) \<and>
    (no_concatenation (gc_refs g) \<longrightarrow> (\<forall>r \<in> set (live_instances (gc_instances g)).
      map_option gc_kind (gc_refs g r) \<noteq> Some (StringRef True) \<longrightarrow> (\<forall>q \<in> garbage_roots E s g. r \<notin> reached E (gc_refs g) q) \<longrightarrow>
      gc_refs g' r = None)) \<and>
    live_instances (gc_instances g') = filter (\<lambda>r. gc_refs g' r \<noteq> None) (live_instances (gc_instances g))"
proof -
  obtain h1 h2 h3 js h4 where c: "run_marks E (map ClearMark (live_instances (gc_instances g))) (gc_refs g) = Some (Inr h1)"
    and m2: "marks_from E (scheduler_roots E s) h1 h2" and m3: "marks_from E (handle_roots (gc_handles g) (gc_firstHandle g)) h2 h3"
    and sw: "sweep (gc_instances g) h3 = Inr (js, h4)" and g': "g' = g\<lparr>gc_instances := js, gc_refs := h4\<rparr>"
    using assms by (rule collection_steps)
  have m: "marks_from E (garbage_roots E s g) h1 h3" using marks_from_Un [OF m2 m3] by (simp add: garbage_roots_def)
  have k1: "same_kinds (gc_refs g) h1" using c by (rule run_marks_same)
  have k3: "same_kinds (gc_refs g) h3" using same_kinds_trans [OF k1] m by (simp add: marks_from_def)
  let ?live = "live_instances (gc_instances g)"
  let ?reached = "\<lambda>r. map_option gc_kind (gc_refs g r) = Some (StringRef True) \<or> (\<exists>q \<in> garbage_roots E s g. r \<in> reached E (gc_refs g) q)"
  have kept: "(?reached r \<longrightarrow> kept h3 r) \<and> (no_concatenation (gc_refs g) \<longrightarrow> kept h3 r \<longrightarrow> ?reached r)"
    if "r \<in> set ?live" "gc_refs g r \<noteq> None" for r
  proof -
    have ok: "h1 r \<noteq> None" "h3 r \<noteq> None" using that k1 k3 by (simp_all add: same_kinds_None)
    have "flag h3 r \<longleftrightarrow> flag h1 r \<or> (\<exists>q \<in> garbage_roots E s g. r \<in> reached E (gc_refs g) q)"
      using m ok(1) by (simp add: marks_from_def reached_same [OF k1])
    moreover have "no_concatenation (gc_refs g) \<Longrightarrow> \<not> flag h1 r" using run_marks_clears [OF c that(2)] that(1) reached_refl by blast
    moreover have "map_option gc_kind (h3 r) = map_option gc_kind (gc_refs g r)" using k3 by (simp add: same_kinds_def)
    ultimately show ?thesis by (auto simp: kept_flag [of h3 r, OF ok(2)])
  qed
  have h4: "h4 r = (if r \<in> set ?live \<and> \<not> kept h3 r then None else h3 r)" for r using sweep_deletes [OF sw] by blast
  have live: "\<forall>r \<in> set ?live. h3 r \<noteq> None" "live_instances js = filter (kept h3) ?live" using sweep_deletes [OF sw] by auto
  have gone: "gc_refs g' r = None \<longleftrightarrow> gc_refs g r = None \<or> r \<in> set ?live \<and> \<not> kept h3 r" for r
    using h4 [of r] same_kinds_None [OF k3] g' by auto
  have "gc_refs g' r = None \<longrightarrow> gc_refs g r = None \<or> r \<in> set ?live \<and> \<not> ?reached r" for r using gone [of r] kept [of r] by blast
  moreover have "gc_refs g' r = None" if "no_concatenation (gc_refs g)" "r \<in> set ?live" "\<not> ?reached r" for r
    using that gone [of r] kept [of r] by blast
  moreover have "h4 r \<noteq> None \<longleftrightarrow> kept h3 r" if "r \<in> set ?live" for r using h4 [of r] live(1) that by auto
  then have "live_instances js = filter (\<lambda>r. gc_refs g' r \<noteq> None) ?live"
    using g' unfolding live(2) by (intro filter_cong) auto
  ultimately show ?thesis using g' by simp
qed

subsection \<open>Termination of marking\<close>

text \<open>Every pointer that marking follows leads to a reference.\<close>

definition null_iterator :: "ref_kind \<Rightarrow> bool" where
  "null_iterator k \<longleftrightarrow> k \<in> {RestIteratorRef None, SeqIteratorRef None, MapIteratorRef None}"

definition heap_closed :: "gc_env \<Rightarrow> gc_store \<Rightarrow> bool" where
  "heap_closed E h \<longleftrightarrow> (\<forall>r ob. h r = Some ob \<longrightarrow> \<not> null_iterator (gc_kind ob) \<and>
    (\<forall>q \<in> set (member_targets E (gc_kind ob)). h q \<noteq> None))"

lemma acc_no_cycle: "x \<in> Wellfounded.acc ((points E h)\<inverse>) \<Longrightarrow> (x, x) \<notin> (points E h)\<^sup>+"
proof (induction rule: acc.induct)
  case (accI x)
  show ?case
  proof
    assume "(x, x) \<in> (points E h)\<^sup>+"
    then obtain y where y: "(x, y) \<in> points E h" "(y, x) \<in> (points E h)\<^sup>*" by (metis tranclD)
    then have "(y, y) \<in> (points E h)\<^sup>+" by (meson rtrancl_into_trancl1)
    then show False using accI y(1) by auto
  qed
qed

lemma acc_reached: "r \<in> Wellfounded.acc ((points E h)\<inverse>) \<Longrightarrow> x \<in> reached E h r \<Longrightarrow> x \<in> Wellfounded.acc ((points E h)\<inverse>)"
  unfolding reached_def by (auto simp: rtrancl_converse intro: acc_downwards)

lemma no_cycle_acc:
  assumes "\<forall>x \<in> reached E h r. (x, x) \<notin> (points E h)\<^sup>+"
  shows "r \<in> Wellfounded.acc ((points E h)\<inverse>)"
proof -
  define P where "P = {(a, b). (a, b) \<in> points E h \<and> a \<in> reached E h r}"
  have reached: "x \<in> reached E h r" if "(x, y) \<in> P\<^sup>+" for x y using tranclD [OF that] by (auto simp: P_def)
  have "P\<^sup>+ \<subseteq> (points E h)\<^sup>+" by (auto simp: P_def elim!: trancl_mono)
  then have "acyclic P" unfolding acyclic_def using assms reached by blast
  moreover have "finite P" by (rule finite)
  ultimately have wf: "wf (P\<inverse>)" by (rule finite_acyclic_wf_converse [rotated])
  have "x \<in> reached E h r \<longrightarrow> x \<in> Wellfounded.acc ((points E h)\<inverse>)" for x
  proof (rule wf_induct [OF wf])
    fix x
    assume IH: "\<forall>y. (y, x) \<in> P\<inverse> \<longrightarrow> y \<in> reached E h r \<longrightarrow> y \<in> Wellfounded.acc ((points E h)\<inverse>)"
    show "x \<in> reached E h r \<longrightarrow> x \<in> Wellfounded.acc ((points E h)\<inverse>)"
    proof (rule impI, rule acc.accI)
      fix y assume "x \<in> reached E h r" "(y, x) \<in> (points E h)\<inverse>"
      then have "(y, x) \<in> P\<inverse>" "y \<in> reached E h r" by (auto simp: P_def reached_def intro: rtrancl_into_rtrancl)
      then show "y \<in> Wellfounded.acc ((points E h)\<inverse>)" using IH by blast
    qed
  qed
  then show ?thesis by simp
qed

lemma run_marks_list:
  assumes one: "\<And>m h. m \<in> set ms \<Longrightarrow> same_kinds h0 h \<Longrightarrow> \<exists>h'. run_marks E [m] h = Some (Inr h')"
    and "same_kinds h0 h"
  shows "\<exists>h'. run_marks E ms h = Some (Inr h')"
  using assms
proof (induction ms arbitrary: h)
  case (Cons m ms)
  obtain h1 where h1: "run_marks E [m] h = Some (Inr h1)" using Cons.prems by force
  then have "same_kinds h0 h1" using run_marks_same same_kinds_trans Cons.prems(2) by blast
  then obtain h2 where "run_marks E ms h1 = Some (Inr h2)" using Cons by (meson list.set_intros(2))
  then show ?case using h1 by (auto simp: run_marks_Cons)
qed simp

lemma member_marks_ok:
  assumes "\<not> null_iterator k"
  shows "\<exists>ns. member_marks E (marker b) k = Inr ns"
  using assms by (cases k) (auto simp: null_iterator_def split: option.splits)

lemma run_marks_acc:
  assumes "r \<in> Wellfounded.acc ((points E h0)\<inverse>)" "heap_closed E h0"
    and "h0 r \<noteq> None" "same_kinds h0 h" "target m = r"
  shows "\<exists>h'. run_marks E [m] h = Some (Inr h')"
  using assms
proof (induction r arbitrary: h m rule: acc.induct)
  case (accI r)
  obtain ob0 where ob0: "h0 r = Some ob0" using accI.prems(2) by auto
  obtain ob where ob: "h r = Some ob" using accI.prems(2,3) same_kinds_None by (cases "h r") auto
  have kind: "gc_kind ob = gc_kind ob0" using accI.prems(3) ob ob0 unfolding same_kinds_def by (metis option.map(2) option.inject)
  obtain ns where ns: "member_marks E (marker (sets m)) (gc_kind ob) = Inr ns"
    using member_marks_ok accI.prems(1) ob0 kind by (metis heap_closed_def)
  let ?h = "h(r \<mapsto> ob\<lparr>gc_reachable := sets m\<rparr>)"
  have "\<exists>h'. run_marks E ns ?h = Some (Inr h')"
  proof (rule run_marks_list)
    fix n h1 assume n: "n \<in> set ns" and h1: "same_kinds h0 h1"
    have t: "target n \<in> set (member_targets E (gc_kind ob0))" using member_marks_targets [OF ns] n kind by (metis image_eqI list.set_map)
    have "(target n, r) \<in> (points E h0)\<inverse>" using t ob0 by (auto simp: points_def)
    moreover have "h0 (target n) \<noteq> None" using accI.prems(1) ob0 t by (auto simp: heap_closed_def)
    ultimately show "\<exists>h'. run_marks E [n] h1 = Some (Inr h')" using accI.IH accI.prems(1) h1 by blast
  next
    show "same_kinds h0 ?h" using accI.prems(3) same_kinds_mark [of h r ob, OF ob] by (rule same_kinds_trans)
  qed
  then show ?case using ob ns accI.prems(4) by (auto simp: run_marks_Cons)
qed

lemma run_marks_in_acc:
  assumes "run_marks E ms h = Some y"
  shows "\<forall>h' m. y = Inr h' \<longrightarrow> m \<in> set ms \<longrightarrow> target m \<in> Wellfounded.acc ((points E h)\<inverse>)"
proof -
  have "\<forall>h'. y = Inr h' \<longrightarrow> same_kinds h h' \<and> (\<forall>m \<in> set ms. target m \<in> Wellfounded.acc ((points E h)\<inverse>))"
  proof (rule run_marks.raw_induct [OF _ assms])
    fix f E ms h y
    assume IH: "\<And>E ms h y. f E ms h = Some y \<Longrightarrow>
        \<forall>h'. y = Inr h' \<longrightarrow> same_kinds h h' \<and> (\<forall>m \<in> set ms. target m \<in> Wellfounded.acc ((points E h)\<inverse>))"
      and body: "(case ms of [] \<Rightarrow> Some (Inr h)
        | m # rest \<Rightarrow> run_bind (Some (deref h (target m))) (\<lambda>ob.
            run_bind (Some (member_marks E (if sets m then SetMark else ClearMark) (gc_kind ob))) (\<lambda>ns.
            run_bind (f E ns (h(target m \<mapsto> ob\<lparr>gc_reachable := sets m\<rparr>))) (f E rest)))) = Some y"
    show "\<forall>h'. y = Inr h' \<longrightarrow> same_kinds h h' \<and> (\<forall>m \<in> set ms. target m \<in> Wellfounded.acc ((points E h)\<inverse>))"
    proof (cases ms)
      case Nil
      then show ?thesis using body by auto
    next
      case (Cons m rest)
      show ?thesis
      proof (intro allI impI)
        fix h' assume y: "y = Inr h'"
        have mk: "(if sets m then SetMark else ClearMark) = marker (sets m)" by (simp add: marker_def fun_eq_iff)
        obtain ob ns h1 where ob: "h (target m) = Some ob" and ns: "member_marks E (marker (sets m)) (gc_kind ob) = Inr ns"
          and r1: "f E ns (h(target m \<mapsto> ob\<lparr>gc_reachable := sets m\<rparr>)) = Some (Inr h1)" and r2: "f E rest h1 = Some (Inr h')"
          using body y Cons mk by (auto simp: run_bind_Inr deref_Inr)
        have k: "same_kinds h (h(target m \<mapsto> ob\<lparr>gc_reachable := sets m\<rparr>))" using ob by (rule same_kinds_mark)
        have k1: "same_kinds h h1" using k IH [OF r1] same_kinds_trans by blast
        have k2: "same_kinds h h'" using k1 IH [OF r2] same_kinds_trans by blast
        have "\<forall>n \<in> set ns. target n \<in> Wellfounded.acc ((points E h)\<inverse>)" using IH [OF r1] points_same [OF k] by simp
        then have members: "q \<in> Wellfounded.acc ((points E h)\<inverse>)" if "q \<in> set (member_targets E (gc_kind ob))" for q
          using that member_marks_targets [OF ns] by (metis imageE list.set_map)
        have "target m \<in> Wellfounded.acc ((points E h)\<inverse>)"
        proof (rule acc.accI)
          fix q assume "(q, target m) \<in> (points E h)\<inverse>"
          then show "q \<in> Wellfounded.acc ((points E h)\<inverse>)" using members ob by (auto simp: points_def)
        qed
        moreover have "\<forall>n \<in> set rest. target n \<in> Wellfounded.acc ((points E h)\<inverse>)" using IH [OF r2] points_same [OF k1] by simp
        ultimately show "same_kinds h h' \<and> (\<forall>m \<in> set ms. target m \<in> Wellfounded.acc ((points E h)\<inverse>))" using k2 Cons by simp
      qed
    qed
  qed
  then show ?thesis by blast
qed

text \<open>C23. In a heap without dangling references, marking returns exactly when no reference that it reaches
  reaches itself: the recursion of \<open>setReachable\<close> does not look at the mark.\<close>

theorem marking_returns_iff_acyclic:
  assumes "heap_closed E h" "\<forall>m \<in> set ms. h (target m) \<noteq> None"
  shows "(\<exists>h'. run_marks E ms h = Some (Inr h')) \<longleftrightarrow>
    (\<forall>m \<in> set ms. \<forall>x \<in> reached E h (target m). (x, x) \<notin> (points E h)\<^sup>+)"
proof
  assume "\<exists>h'. run_marks E ms h = Some (Inr h')"
  then show "\<forall>m \<in> set ms. \<forall>x \<in> reached E h (target m). (x, x) \<notin> (points E h)\<^sup>+"
    using run_marks_in_acc acc_reached acc_no_cycle by blast
next
  assume "\<forall>m \<in> set ms. \<forall>x \<in> reached E h (target m). (x, x) \<notin> (points E h)\<^sup>+"
  then have acc: "target m \<in> Wellfounded.acc ((points E h)\<inverse>)" if "m \<in> set ms" for m using that no_cycle_acc by blast
  show "\<exists>h'. run_marks E ms h = Some (Inr h')"
    using run_marks_list [where h = h and ?h0.0 = h] run_marks_acc [OF acc assms(1)] assms(2) same_kinds_refl by blast
qed

subsection \<open>A collection\<close>

definition gc_sample_env :: gc_env where
  "gc_sample_env = \<lparr>ne_lib = little_endian_lib, ne_objects = no_objects, ne_garbage = replicate 8 0,
    ne_resolve_class = (\<lambda>_. Inr ()), ge_ops = (\<lambda>_. [])\<rparr>"

definition gc_sample_operand :: "u64 \<Rightarrow> operand" where
  "gc_sample_operand r = fromRef little_endian_lib (replicate 8 0) r"

definition gc_sample_coro :: stackful_coroutine where
  "gc_sample_coro = snd (pushData (gc_sample_operand 8) (new_coroutine 16))"

definition gc_sample_runtime :: runtime where
  "gc_sample_runtime = new_runtime (empty_scheduler\<lparr>m_waitQueue := Some 0,
    m_tasks := (\<lambda>_. (new_task False)\<lparr>t_coro := gc_sample_coro\<rparr>)\<rparr>)"

definition gc_sample_refs :: "bool \<Rightarrow> bool \<Rightarrow> bool \<Rightarrow> bool \<Rightarrow> gc_store" where
  "gc_sample_refs a b c d = [8 \<mapsto> \<lparr>gc_kind = FieldsRef [gc_sample_operand 16], gc_reachable = a\<rparr>,
    16 \<mapsto> \<lparr>gc_kind = PlainRef, gc_reachable = b\<rparr>, 24 \<mapsto> \<lparr>gc_kind = PlainRef, gc_reachable = c\<rparr>,
    32 \<mapsto> \<lparr>gc_kind = FieldsRef [gc_sample_operand 16], gc_reachable = d\<rparr>]"

definition gc_sample_heap :: "u64 option list \<Rightarrow> gc_store \<Rightarrow> gc_heap" where
  "gc_sample_heap is h = \<lparr>gc_refs = h, gc_instances = is,
    gc_handles = [0 \<mapsto> \<lparr>gh_instance = 24, gh_refcount = 1, gh_prev = None, gh_next = None\<rparr>], gc_nextHandle = 1,
    gc_firstHandle = Some 0\<rparr>"

definition gc_sample_instances :: "u64 option list" where
  "gc_sample_instances = [Some 8, Some 16, None, Some 24, Some 32]"

lemma gc_sample_get_ref:
  "op_ref gc_sample_env (gc_sample_operand 8) = Some 8" "op_ref gc_sample_env (gc_sample_operand 16) = Some 16"
  "getType (gc_sample_operand 8) = TyRef" "getType (gc_sample_operand 16) = TyRef"
  by code_simp+

lemma gc_sample_data:
  "\<exists>it. stack_getNext (replicate 8 0) (iterateData gc_sample_coro) = (Some (gc_sample_operand 8), it) \<and> it_curr it = 0"
  by (rule exI [of _ "snd (stack_getNext (replicate 8 0) (iterateData gc_sample_coro))"]) code_simp

lemma stack_getNext_end: "it_curr it = 0 \<Longrightarrow> stack_getNext g it = (None, it)"
  by (simp add: stack_getNext_def split: option.split)

lemma gc_sample_marks: "operand_marks gc_sample_env m (gc_sample_operand 8) = [SetMark 8, m 8]"
  "operand_marks gc_sample_env m (gc_sample_operand 16) = [SetMark 16, m 16]"
  by (simp_all add: operand_marks_def gc_sample_get_ref)

lemma run_marks_step: "run_marks E (m # ms) h =
    run_bind (Some (deref h (target m))) (\<lambda>ob.
    run_bind (Some (member_marks E (if sets m then SetMark else ClearMark) (gc_kind ob))) (\<lambda>ns.
    run_bind (run_marks E ns (h(target m \<mapsto> ob\<lparr>gc_reachable := sets m\<rparr>))) (run_marks E ms)))"
  by (subst run_marks.simps) simp

lemma gc_sample_clear: "run_marks gc_sample_env [ClearMark 8, ClearMark 16, ClearMark 24, ClearMark 32] (gc_sample_refs False True False True) =
    Some (Inr (gc_sample_refs False False False False))"
  by (simp add: run_marks_step gc_sample_refs_def deref_def gc_sample_marks fun_eq_iff)

lemma gc_sample_mark: "run_marks gc_sample_env [SetMark 8, SetMark 8] (gc_sample_refs False False False False) =
    Some (Inr (gc_sample_refs True True False False))"
  by (simp add: run_marks_step gc_sample_refs_def deref_def gc_sample_marks fun_eq_iff)

lemma gc_sample_handle: "run_marks gc_sample_env [SetMark 24] (gc_sample_refs True True False False) =
    Some (Inr (gc_sample_refs True True True False))"
  by (simp add: run_marks_step gc_sample_refs_def deref_def fun_eq_iff)

lemma gc_sample_roots: "mark_roots gc_sample_env gc_sample_runtime (gc_sample_refs False False False False) =
    Some (Inr (gc_sample_refs True True False False))"
proof -
  obtain it where it: "stack_getNext (replicate 8 0) (iterateData gc_sample_coro) = (Some (gc_sample_operand 8), it)" "it_curr it = 0"
    using gc_sample_data by blast
  have "mark_data gc_sample_env it h = Some (Inr h)" for h
    by (subst mark_data.simps) (simp add: stack_getNext_end it(2))
  moreover have "ne_garbage gc_sample_env = replicate 8 0" by (simp add: gc_sample_env_def)
  ultimately have "mark_data gc_sample_env (iterateData gc_sample_coro) (gc_sample_refs False False False False) =
      Some (Inr (gc_sample_refs True True False False))"
    by (subst mark_data.simps) (simp del: replicate.simps add: it(1) gc_sample_marks gc_sample_mark)
  moreover have "mark_tasks E s None h = Some (Inr h)" for E s h by (subst mark_tasks.simps) simp
  ultimately show ?thesis
    by (simp add: mark_roots_def gc_sample_runtime_def new_runtime_def empty_scheduler_def set_reachable_for_task_def
        mark_tasks.simps [of _ _ "Some 0"] firstWaiter_def new_task_def)
qed

lemma gc_sample_collection:
  "collectGarbage gc_sample_env gc_sample_runtime (gc_sample_heap gc_sample_instances (gc_sample_refs False True False True)) =
    Some (Inr (gc_sample_heap [Some 8, Some 16, None, Some 24, None] ((gc_sample_refs True True True False)(32 := None))))"
proof -
  have "mark_handles E None g = Some (Inr g)" for E g by (subst mark_handles.simps) simp
  then have "mark_handles gc_sample_env (Some 0) (gc_sample_heap is (gc_sample_refs True True False False)) =
      Some (Inr (gc_sample_heap is (gc_sample_refs True True True False)))" for "is"
    by (subst mark_handles.simps) (simp add: gc_sample_heap_def deref_def with_refs_def gc_sample_handle)
  moreover have "sweep gc_sample_instances (gc_sample_refs True True True False) =
      Inr ([Some 8, Some 16, None, Some 24, None], (gc_sample_refs True True True False)(32 := None))"
    by (simp add: gc_sample_instances_def gc_sample_refs_def deref_def ref_isReachable_def permanent_def)
  moreover have "live_instances gc_sample_instances = [8, 16, 24, 32]" by (simp add: gc_sample_instances_def)
  ultimately show ?thesis
    by (simp add: collectGarbage_def heap_clearReachable_def heap_deleteUnreachable_def with_refs_def gc_sample_heap_def
        gc_sample_clear gc_sample_roots)
qed

theorem collection_deletes_unreached_witness:
  "\<exists>g'. collectGarbage gc_sample_env gc_sample_runtime (gc_sample_heap gc_sample_instances (gc_sample_refs False True False True)) =
      Some (Inr g') \<and> gc_refs g' 32 = None \<and> live_instances (gc_instances g') = [8, 16, 24] \<and>
    no_concatenation (gc_sample_refs False True False True) \<and>
    (\<forall>q \<in> garbage_roots gc_sample_env gc_sample_runtime
      (gc_sample_heap gc_sample_instances (gc_sample_refs False True False True)). 
      32 \<notin> reached gc_sample_env (gc_sample_refs False True False True) q)"
proof -
  let ?g = "gc_sample_heap gc_sample_instances (gc_sample_refs False True False True)"
    and ?g' = "gc_sample_heap [Some 8, Some 16, None, Some 24, None] ((gc_sample_refs True True True False)(32 := None))"
  have after: "gc_refs ?g' 32 = None" "live_instances (gc_instances ?g') = [8, 16, 24]" by (simp_all add: gc_sample_heap_def)
  have "gc_refs ?g 32 \<noteq> None" "gc_refs ?g = gc_sample_refs False True False True" by (simp_all add: gc_sample_heap_def gc_sample_refs_def)
  then have "\<forall>q \<in> garbage_roots gc_sample_env gc_sample_runtime ?g. 32 \<notin> reached gc_sample_env (gc_sample_refs False True False True) q"
    using collection_deletes_unreached [OF gc_sample_collection] after(1) by metis
  moreover have "no_concatenation (gc_sample_refs False True False True)"
    by (simp add: no_concatenation_def gc_sample_refs_def clears_members_def)
  ultimately show ?thesis using gc_sample_collection after by blast
qed

theorem marking_returns_iff_acyclic_witness:
  "heap_closed gc_sample_env [8 \<mapsto> \<lparr>gc_kind = ClosureRef [gc_sample_operand 16], gc_reachable = False\<rparr>,
      16 \<mapsto> \<lparr>gc_kind = PairRef (gc_sample_operand 16) (gc_sample_operand 16), gc_reachable = False\<rparr>] \<and>
    (\<nexists>h'. run_marks gc_sample_env [SetMark 8] [8 \<mapsto> \<lparr>gc_kind = ClosureRef [gc_sample_operand 16], gc_reachable = False\<rparr>,
      16 \<mapsto> \<lparr>gc_kind = PairRef (gc_sample_operand 16) (gc_sample_operand 16), gc_reachable = False\<rparr>] = Some (Inr h'))"
proof -
  let ?h = "[8 \<mapsto> \<lparr>gc_kind = ClosureRef [gc_sample_operand 16], gc_reachable = False\<rparr>,
    16 \<mapsto> \<lparr>gc_kind = PairRef (gc_sample_operand 16) (gc_sample_operand 16), gc_reachable = False\<rparr>] :: gc_store"
  have targets: "set (member_targets gc_sample_env (PairRef (gc_sample_operand 16) (gc_sample_operand 16))) = {16}"
      "set (member_targets gc_sample_env (ClosureRef [gc_sample_operand 16])) = {16}"
    by (simp_all add: member_targets_def gc_sample_marks)
  then have closed: "heap_closed gc_sample_env ?h" by (auto simp: heap_closed_def null_iterator_def split: if_splits)
  have "(8, 16) \<in> points gc_sample_env ?h" "(16, 16) \<in> points gc_sample_env ?h" using targets by (auto simp: points_def)
  then have "16 \<in> reached gc_sample_env ?h 8" "(16, 16) \<in> (points gc_sample_env ?h)\<^sup>+" by (auto simp: reached_def)
  then show ?thesis using closed marking_returns_iff_acyclic [OF closed, of "[SetMark 8]"] by auto
qed

subsection \<open>Handles\<close>

text \<open>The handles form no ring: the first one has no predecessor, which a second one needs.\<close>

lemma second_handle_is_undefined:
  assumes "heap_createHandle r g = Inr (p, g1)" "gc_firstHandle g = None"
  shows "heap_createHandle q g1 = Inl UndefinedBehaviour"
  using assms by (auto simp: heap_createHandle_def deref_def Let_def)

lemma handle_is_dereferenced:
  assumes "heap_createHandle r g = Inr (p, g1)" "gc_firstHandle g = None"
  shows "heap_derefHandle p g1 = Inr r" and "\<exists>g2. heap_decrementHandle p g1 = Inr g2 \<and> gc_firstHandle g2 = None"
  using assms
  by (auto simp: heap_createHandle_def heap_derefHandle_def heap_decrementHandle_def live_handle_def unlink_handle_def
      deref_def tu_assert_def Let_def)

subsection \<open>Queues of tasks\<close>

lemma mark_tasks_ring:
  assumes "mark_tasks E s t h = Some y"
  shows "\<forall>X p h'. (\<forall>q \<in> X. \<exists>r \<in> X. t_next (m_tasks s q) = Some r) \<longrightarrow> p \<in> X \<longrightarrow> t = Some p \<longrightarrow> y \<noteq> Inr h'"
proof (rule mark_tasks.raw_induct [OF _ assms])
  fix f E s t h y
  assume IH: "\<And>E s t h y. f E s t h = Some y \<Longrightarrow>
      \<forall>X p h'. (\<forall>q \<in> X. \<exists>r \<in> X. t_next (m_tasks s q) = Some r) \<longrightarrow> p \<in> X \<longrightarrow> t = Some p \<longrightarrow> y \<noteq> Inr h'"
    and body: "(case t of None \<Rightarrow> Some (Inr h)
      | Some p \<Rightarrow> run_bind (set_reachable_for_task E s (Some p) h) (f E s (t_next (m_tasks s p)))) = Some y"
  show "\<forall>X p h'. (\<forall>q \<in> X. \<exists>r \<in> X. t_next (m_tasks s q) = Some r) \<longrightarrow> p \<in> X \<longrightarrow> t = Some p \<longrightarrow> y \<noteq> Inr h'"
  proof (intro allI impI notI)
    fix X p h'
    assume X: "\<forall>q \<in> X. \<exists>r \<in> X. t_next (m_tasks s q) = Some r" and p: "p \<in> X" "t = Some p" and y: "y = Inr h'"
    obtain h1 where h1: "f E s (t_next (m_tasks s p)) h1 = Some (Inr h')" using body p(2) y by (auto simp: run_bind_Inr)
    obtain r where "r \<in> X" "t_next (m_tasks s p) = Some r" using X p(1) by blast
    then show False using IH [OF h1, rule_format, of X r h'] X by blast
  qed
qed

lemma mark_queue_of_two:
  assumes "tasks.ring (m_tasks s) head ts" "2 \<le> length ts"
  shows "mark_tasks E s head h \<noteq> Some (Inr h')"
proof
  assume ends: "mark_tasks E s head h = Some (Inr h')"
  have "\<exists>r \<in> set ts. t_next (m_tasks s q) = Some r" if q: "q \<in> set ts" for q
  proof -
    obtain i where i: "i < length ts" "q = ts ! i" using q by (auto simp: in_set_conv_nth)
    then show ?thesis using tasks.ring_nxt [OF assms i(1)] by (auto intro!: nth_mem mod_less_divisor)
  qed
  moreover have "head = Some (hd ts)" "hd ts \<in> set ts" using tasks.ring_head [OF assms(1)] assms(2) by (cases ts; auto)+
  ultimately show False using mark_tasks_ring [OF ends] by blast
qed

lemma mark_only_waiter:
  assumes "waiters.ring (m_waiterStore (r_sched s)) (m_waiters (r_sched s)) [w]"
  shows "mark_waiters E s w w (w_next (m_waiterStore (r_sched s) w)) h \<noteq> Some (Inr h')"
  using assms by (subst mark_waiters.simps) (auto simp: waiters.ring_single run_bind_Inr)

text \<open>C37. With two tasks in the ready or in the waiting queue, or with a single waiter, a collection never
  returns normally: the loops over the queues expect them to end, but the queues are rings, and the
  loop over the waiters takes the successor of the only one.\<close>

theorem collection_needs_short_queues:
  assumes "sched_repr (r_sched s) a"
    and "2 \<le> length (q_waiting a) \<or> 2 \<le> length (q_ready a) \<or> length (q_waiters a) = 1"
  shows "collectGarbage E s g \<noteq> Some (Inr g')"
proof
  assume "collectGarbage E s g = Some (Inr g')"
  then obtain h0 h where ends: "mark_roots E s h0 = Some (Inr h)"
    by (auto simp: collectGarbage_def run_bind_Inr with_refs_Inr)
  have rings: "tasks.ring (m_tasks (r_sched s)) (m_waitQueue (r_sched s)) (q_waiting a)"
      "tasks.ring (m_tasks (r_sched s)) (m_readyQueue (r_sched s)) (q_ready a)"
      "waiters.ring (m_waiterStore (r_sched s)) (m_waiters (r_sched s)) (q_waiters a)"
    using assms(1) by (simp_all add: sched_repr_def tasks_repr_def waiters_repr_def)
  consider "2 \<le> length (q_waiting a)" | "2 \<le> length (q_ready a)" | w where "q_waiters a = [w]"
    using assms(2) by (auto simp: length_Suc_conv)
  then show False
  proof cases
    case 1
    then show False using ends mark_queue_of_two [OF rings(1)] by (auto simp: mark_roots_def Let_def run_bind_Inr)
  next
    case 2
    then show False using ends mark_queue_of_two [OF rings(2)] by (auto simp: mark_roots_def Let_def run_bind_Inr)
  next
    case 3
    then have "firstWaiter (r_sched s) = Some w" using rings(3) by (simp add: waiters.ring_single firstWaiter_def)
    then show False using ends mark_only_waiter rings(3) 3 by (auto simp: mark_roots_def Let_def run_bind_Inr)
  qed
qed

theorem collection_needs_short_queues_witness:
  "\<exists>s a. sched_repr s a \<and> length (q_waiting a) = 2 \<and> (\<forall>g g'. collectGarbage gc_sample_env (new_runtime s) g \<noteq> Some (Inr g'))"
proof -
  have "valid_run live_op queues_step [CreateTask] initial_queues"
    "length (q_waiting (snd (run_ops queues_step [CreateTask] initial_queues))) = 2"
    by (simp_all add: initial_queues_def all_tasks_def spec_create_def Let_def)
  then obtain s a where "sched_repr s a" "length (q_waiting a) = 2"
    using new_scheduler_repr sched.run [of _ _ "[CreateTask]"] by blast
  moreover have "r_sched (new_runtime s) = s" by (simp add: new_runtime_def)
  ultimately show ?thesis using collection_needs_short_queues [of "new_runtime s" a] by (metis order_refl)
qed

end
