(* ===== verification/Texts.thy ===== *)
theory Texts
  imports Native
begin

text \<open>
  Bytes and strings: the references of the runtime (\<open>bytes_ref.cpp\<close>, \<open>string_ref.cpp\<close>), how the heap
  manager makes them (\<open>heap_manager.cpp\<close>) and the operations of the prelude on them (\<open>bytes_traps.cpp\<close>,
  \<open>string_traps.cpp\<close> of the bootstrap plugin).

  Both hold a \<open>tempo_utils::Rope\<close>, a library from outside of the repository: here the list of its
  chunks, which is all that is read of it; the operations that make ropes from others are the fields of
  \<open>rope_lib\<close>. \<open>te_next\<close> is \<open>utf8::next\<close> of the utf8 library: the character at the position or what it
  throws, and the position that it leaves.

  \<open>utf8Value\<close> of bytes also tells whether they are well-formed; its only caller here ignores it, so the
  check is left out. The address of a new object is an argument.
\<close>

type_synonym rope = "u8 list list"

record rope_lib =
  rl_rope :: "u8 list \<Rightarrow> rope"
  rl_append :: "rope \<Rightarrow> rope \<Rightarrow> failure + rope"
  rl_prepend :: "rope \<Rightarrow> rope \<Rightarrow> failure + rope"
  rl_insert :: "rope \<Rightarrow> int \<Rightarrow> rope \<Rightarrow> failure + rope"
  rl_remove :: "rope \<Rightarrow> int \<Rightarrow> int \<Rightarrow> failure + rope"
  rl_subspan :: "rope \<Rightarrow> int \<Rightarrow> int \<Rightarrow> failure + rope"

datatype utf8_error = NotEnoughRoom | InvalidUtf8 | InvalidCodePoint

type_synonym utf8_next = "u8 list \<Rightarrow> (utf8_error + u32) \<times> u8 list"

record text_env = native_env +
  te_ropes :: rope_lib
  te_next :: utf8_next

record text_ref =
  tx_rope :: rope
  tx_size :: int

record text_heap =
  th_bytes :: "u64 \<rightharpoonup> text_ref"
  th_strings :: "u64 \<rightharpoonup> text_ref"

type_synonym text_state = "stackful_coroutine \<times> text_heap"

subsection \<open>Construction\<close>

definition text_of_rope :: "rope \<Rightarrow> text_ref" where
  "text_of_rope rope = \<lparr>tx_rope = rope, tx_size = narrow_int (int (length (concat rope)))\<rparr>"

definition text_of_literal :: "rope_lib \<Rightarrow> u8 list \<Rightarrow> text_ref" where
  "text_of_literal L literal = text_of_rope (if literal = [] then [] else rl_rope L literal)"

text \<open>From a pointer and a size, which the callers pass as \<open>size_t\<close>.\<close>

definition text_of_span :: "rope_lib \<Rightarrow> u8 list \<Rightarrow> text_ref" where
  "text_of_span L src = (let size = narrow_int (int (length src))
    in text_of_rope (if size > 0 then rl_rope L (take (nat size) src) else []))"

definition load_bytes :: "text_env \<Rightarrow> u64 \<Rightarrow> text_ref \<Rightarrow> text_state \<Rightarrow> failure + text_state" where
  "load_bytes E fresh t s = push_result (fromBytes (ne_lib E) (ne_garbage E) fresh)
    (fst s, (snd s)\<lparr>th_bytes := (th_bytes (snd s))(fresh \<mapsto> t)\<rparr>)"

definition load_string :: "text_env \<Rightarrow> u64 \<Rightarrow> text_ref \<Rightarrow> text_state \<Rightarrow> failure + text_state" where
  "load_string E fresh t s = push_result (fromString (ne_lib E) (ne_garbage E) fresh)
    (fst s, (snd s)\<lparr>th_strings := (th_strings (snd s))(fresh \<mapsto> t)\<rparr>)"

subsection \<open>Bytes\<close>

text \<open>The position in the chunks of a rope: whether there is a chunk, what is left of it and the chunks after it.\<close>

type_synonym cursor = "bool \<times> u8 list \<times> rope"

fun next_chunk :: "rope \<Rightarrow> cursor" where
  "next_chunk [] = (False, [], [])"
| "next_chunk (chunk # chunks) = (True, chunk, chunks)"

definition refill :: "u8 list \<Rightarrow> rope \<Rightarrow> cursor" where
  "refill it chunks = (if it = [] then next_chunk chunks else (True, it, chunks))"

fun compare_run :: "u8 list \<Rightarrow> u8 list \<Rightarrow> int + u8 list \<times> u8 list" where
  "compare_run (a # as) (b # bs) = (if a < b then Inl (-1) else if a > b then Inl 1 else compare_run as bs)"
| "compare_run as bs = Inr (as, bs)"

definition compare_end :: "bool \<Rightarrow> bool \<Rightarrow> int" where
  "compare_end thisactive otheractive = (if \<not> thisactive then if otheractive then 1 else 0 else -1)"

definition cursor_chunks :: "cursor \<Rightarrow> nat" where
  "cursor_chunks = (\<lambda>(active, it, chunks). if active then Suc (length chunks) else 0)"

lemma cursor_chunks_simps [simp]:
  "cursor_chunks (True, it, chunks) = Suc (length chunks)" "cursor_chunks (False, it, chunks) = 0"
  by (simp_all add: cursor_chunks_def)

lemma compare_run_Inr: "compare_run as bs = Inr (as', bs') \<Longrightarrow> as' = [] \<or> bs' = []"
  by (induction as bs rule: compare_run.induct) (auto split: if_splits)

lemma cursor_chunks_refill: "cursor_chunks (refill it chunks) \<le> Suc (length chunks)"
    "cursor_chunks (refill [] chunks) \<le> length chunks"
  by (cases chunks; simp add: refill_def cursor_chunks_def)+

lemma refill_decreases:
  assumes "compare_run as bs = Inr (as', bs')"
  shows "cursor_chunks (refill as' this) + cursor_chunks (refill bs' other) < Suc (length this) + Suc (length other)"
  using compare_run_Inr [OF assms] cursor_chunks_refill(1) [of as' this] cursor_chunks_refill(1) [of bs' other]
    cursor_chunks_refill(2) [of this] cursor_chunks_refill(2) [of other] by auto

function compare_cursors :: "cursor \<Rightarrow> cursor \<Rightarrow> int" where
  "compare_cursors (thisactive, thisit, thischunks) (otheractive, otherit, otherchunks) =
    (if thisactive \<and> otheractive then
       (case compare_run thisit otherit of
          Inl r \<Rightarrow> r
        | Inr (thisit', otherit') \<Rightarrow> compare_cursors (refill thisit' thischunks) (refill otherit' otherchunks))
     else compare_end thisactive otheractive)"
  by pat_completeness auto

termination
  by (relation "measure (\<lambda>(this, other). cursor_chunks this + cursor_chunks other)")
    (auto dest!: refill_decreases)

declare compare_cursors.simps [simp del]

definition bytes_compare_refs :: "text_ref \<Rightarrow> text_ref \<Rightarrow> int" where
  "bytes_compare_refs this other = compare_cursors (next_chunk (tx_rope this)) (next_chunk (tx_rope other))"

definition bytes_equals :: "text_ref \<Rightarrow> text_ref \<Rightarrow> bool" where
  "bytes_equals this other \<longleftrightarrow> bytes_compare_refs this other = 0"

text \<open>\<open>int curr\<close> is compared and added to as a \<open>size_t\<close>.\<close>

fun byte_at_chunks :: "int \<Rightarrow> int \<Rightarrow> rope \<Rightarrow> failure + u8 option" where
  "byte_at_chunks index cur [] = Inr None"
| "byte_at_chunks index cur (chunk # chunks) =
    (if (word_of_int index :: u64) < word_of_int (cur + int (length chunk))
     then if cur \<le> index \<and> index - cur < int (length chunk) then Inr (Some (chunk ! nat (index - cur)))
       else Inl UndefinedBehaviour
     else byte_at_chunks index (narrow_int (cur + int (length chunk))) chunks)"

definition byteAt :: "text_env \<Rightarrow> int \<Rightarrow> text_ref \<Rightarrow> failure + operand" where
  "byteAt E index t =
    (if concat (tx_rope t) = [] then Inr (undef (ne_garbage E))
     else then_do (byte_at_chunks index 0 (tx_rope t)) (\<lambda>b.
       Inr (case b of None \<Rightarrow> undef (ne_garbage E) | Some b \<Rightarrow> fromI64 (ne_lib E) (ne_garbage E) (ucast b))))"

definition bytesLength :: "text_env \<Rightarrow> text_ref \<Rightarrow> operand" where
  "bytesLength E t = fromI64 (ne_lib E) (ne_garbage E) (word_of_int (tx_size t))"

subsection \<open>Strings\<close>

partial_function (option) compare_characters ::
  "utf8_next \<Rightarrow> u8 list \<Rightarrow> u8 list \<Rightarrow> (failure + int + u8 list \<times> u8 list) option" where
  "compare_characters N this other =
    (if this = [] \<or> other = [] then Some (Inr (Inr (this, other)))
     else case N this of
       (Inl e, this') \<Rightarrow> compare_characters N this' other
     | (Inr thisch, this') \<Rightarrow>
         (case N other of
            (Inl e, other') \<Rightarrow> compare_characters N this' other'
          | (Inr otherch, other') \<Rightarrow>
              if thisch < otherch then Some (Inr (Inl (-1)))
              else if otherch < thisch then Some (Inr (Inl 1))
              else compare_characters N this' other'))"

partial_function (option) compare_string_cursors :: "utf8_next \<Rightarrow> cursor \<Rightarrow> cursor \<Rightarrow> (failure + int) option" where
  "compare_string_cursors N this other =
    (case (this, other) of
       ((thisactive, thisit, thischunks), (otheractive, otherit, otherchunks)) \<Rightarrow>
         if thisactive \<and> otheractive then
           run_bind (compare_characters N thisit otherit) (\<lambda>r. case r of
             Inl r \<Rightarrow> Some (Inr r)
           | Inr (thisit', otherit') \<Rightarrow> compare_string_cursors N (refill thisit' thischunks) (refill otherit' otherchunks))
         else Some (Inr (compare_end thisactive otheractive)))"

definition string_compare_refs :: "utf8_next \<Rightarrow> text_ref \<Rightarrow> text_ref \<Rightarrow> (failure + int) option" where
  "string_compare_refs N this other = compare_string_cursors N (next_chunk (tx_rope this)) (next_chunk (tx_rope other))"

definition string_equals :: "utf8_next \<Rightarrow> text_ref \<Rightarrow> text_ref \<Rightarrow> (failure + bool) option" where
  "string_equals N this other = run_bind (string_compare_refs N this other) (\<lambda>r. Some (Inr (r = 0)))"

text \<open>What a walk over characters finds: the character it looks for, an exception, or the number of characters.\<close>

datatype scan = Found u32 | Threw utf8_error | Scanned int

partial_function (option) string_at_chunk :: "utf8_next \<Rightarrow> int \<Rightarrow> u8 list \<Rightarrow> int \<Rightarrow> (failure + scan) option" where
  "string_at_chunk N index it cur =
    (case N it of
       (Inl e, it') \<Rightarrow> Some (Inr (Threw e))
     | (Inr chr, it') \<Rightarrow>
         run_bind (Some (checked_int (cur + 1))) (\<lambda>cur'.
           if cur = index then Some (Inr (Found chr))
           else if it' \<noteq> [] then string_at_chunk N index it' cur'
           else Some (Inr (Scanned cur'))))"

fun string_at_chunks :: "utf8_next \<Rightarrow> int \<Rightarrow> rope \<Rightarrow> int \<Rightarrow> (failure + scan) option" where
  "string_at_chunks N index [] cur = Some (Inr (Scanned cur))"
| "string_at_chunks N index (chunk # chunks) cur =
    run_bind (string_at_chunk N index chunk cur) (\<lambda>r. case r of
      Scanned cur' \<Rightarrow> string_at_chunks N index chunks cur'
    | r \<Rightarrow> Some (Inr r))"

text \<open>The errors of \<open>utf8\<close> that \<open>stringAt\<close> and \<open>stringLength\<close> catch; \<open>invalid_utf8\<close> leaves them.\<close>

definition scan_result :: "text_env \<Rightarrow> (u32 \<Rightarrow> operand) \<Rightarrow> (int \<Rightarrow> operand) \<Rightarrow> scan \<Rightarrow> failure + operand" where
  "scan_result E found scanned r =
    (case r of Found c \<Rightarrow> Inr (found c)
     | Scanned n \<Rightarrow> Inr (scanned n)
     | Threw e \<Rightarrow> if e = InvalidUtf8 then Inl ThrownUtf8 else Inr (undef (ne_garbage E)))"

definition stringAt :: "text_env \<Rightarrow> int \<Rightarrow> text_ref \<Rightarrow> (failure + operand) option" where
  "stringAt E index t =
    (if concat (tx_rope t) = [] then Some (Inr (undef (ne_garbage E)))
     else run_bind (string_at_chunks (te_next E) index (tx_rope t) 0) (\<lambda>r.
       Some (scan_result E (fromC32 (ne_lib E) (ne_garbage E)) (\<lambda>_. undef (ne_garbage E)) r)))"

partial_function (option) string_length_chunk :: "utf8_next \<Rightarrow> u8 list \<Rightarrow> int \<Rightarrow> (failure + scan) option" where
  "string_length_chunk N it len =
    (case N it of
       (Inl e, it') \<Rightarrow> Some (Inr (Threw e))
     | (Inr chr, it') \<Rightarrow> if it' \<noteq> [] then string_length_chunk N it' (len + 1) else Some (Inr (Scanned (len + 1))))"

fun string_length_chunks :: "utf8_next \<Rightarrow> rope \<Rightarrow> int \<Rightarrow> (failure + scan) option" where
  "string_length_chunks N [] len = Some (Inr (Scanned len))"
| "string_length_chunks N (chunk # chunks) len =
    run_bind (string_length_chunk N chunk len) (\<lambda>r. case r of
      Scanned len' \<Rightarrow> string_length_chunks N chunks len'
    | r \<Rightarrow> Some (Inr r))"

definition stringLength :: "text_env \<Rightarrow> text_ref \<Rightarrow> (failure + operand) option" where
  "stringLength E t =
    (if concat (tx_rope t) = [] then Some (Inr (fromI64 (ne_lib E) (ne_garbage E) 0))
     else run_bind (string_length_chunks (te_next E) (tx_rope t) 0) (\<lambda>r.
       Some (scan_result E (\<lambda>_. undef (ne_garbage E)) (\<lambda>n. fromI64 (ne_lib E) (ne_garbage E) (word_of_int n)) r)))"

subsection \<open>The operations of the prelude\<close>

definition bytes_operand :: "text_env \<Rightarrow> operand \<Rightarrow> failure + u64" where
  "bytes_operand E op = or_else_fail AssertionFailed (getBytesRef (ne_lib E) op)"

definition string_operand :: "text_env \<Rightarrow> operand \<Rightarrow> failure + u64" where
  "string_operand E op = or_else_fail AssertionFailed (getString (ne_lib E) op)"

definition i64_operand :: "text_env \<Rightarrow> operand \<Rightarrow> failure + int" where
  "i64_operand E op = then_do (or_else_fail AssertionFailed (getI64 (ne_lib E) (ne_objects E) op)) (\<lambda>w. Inr (sint w))"

definition bytes_receiver :: "text_env \<Rightarrow> text_state \<Rightarrow> failure + call_cell \<times> u64" where
  "bytes_receiver E s = then_do (currentCallOrThrow (fst s)) (\<lambda>frame.
    then_do (bytes_operand E (m_receiver frame)) (\<lambda>p. Inr (frame, p)))"

definition string_receiver :: "text_env \<Rightarrow> text_state \<Rightarrow> failure + call_cell \<times> u64" where
  "string_receiver E s = then_do (currentCallOrThrow (fst s)) (\<lambda>frame.
    then_do (string_operand E (m_receiver frame)) (\<lambda>p. Inr (frame, p)))"

definition bytes_at :: "text_env \<Rightarrow> text_state \<Rightarrow> failure + text_state" where
  "bytes_at E s = then_do (bytes_receiver E s) (\<lambda>(frame, p).
    then_do (assert_arguments 1 frame) (\<lambda>_.
    then_do (i64_operand E (getArgument 0 frame)) (\<lambda>index.
    then_do (deref (th_bytes (snd s)) p) (\<lambda>t.
    then_do (byteAt E (narrow_int index) t) (\<lambda>v. push_result v s)))))"

definition bytes_compare :: "text_env \<Rightarrow> text_state \<Rightarrow> failure + text_state" where
  "bytes_compare E s = then_do (currentCallOrThrow (fst s)) (\<lambda>frame.
    then_do (assert_arguments 2 frame) (\<lambda>_.
    then_do (bytes_operand E (getArgument 0 frame)) (\<lambda>lhs.
    then_do (bytes_operand E (getArgument 1 frame)) (\<lambda>rhs.
    then_do (deref (th_bytes (snd s)) lhs) (\<lambda>t. then_do (deref (th_bytes (snd s)) rhs) (\<lambda>u.
    push_result (fromI64 (ne_lib E) (ne_garbage E) (word_of_int (bytes_compare_refs t u))) s))))))"

definition bytes_length :: "text_env \<Rightarrow> text_state \<Rightarrow> failure + text_state" where
  "bytes_length E s = then_do (bytes_receiver E s) (\<lambda>(frame, p).
    then_do (deref (th_bytes (snd s)) p) (\<lambda>t. push_result (bytesLength E t) s))"

definition bytes_to_string :: "text_env \<Rightarrow> u64 \<Rightarrow> text_state \<Rightarrow> failure + text_state" where
  "bytes_to_string E fresh s = then_do (bytes_receiver E s) (\<lambda>(frame, p).
    then_do (deref (th_bytes (snd s)) p) (\<lambda>t.
    load_string E fresh (text_of_span (te_ropes E) (concat (tx_rope t))) s))"

text \<open>The operations that make a rope from the one of the receiver and the one of an argument.\<close>

definition bytes_combine ::
  "(rope \<Rightarrow> rope \<Rightarrow> failure + rope) \<Rightarrow> nat \<Rightarrow> call_cell \<Rightarrow> text_env \<Rightarrow> u64 \<Rightarrow> u64 \<Rightarrow> text_state \<Rightarrow> failure + text_state" where
  "bytes_combine f i frame E fresh p s =
    then_do (bytes_operand E (getArgument (int i) frame)) (\<lambda>other.
    then_do (deref (th_bytes (snd s)) p) (\<lambda>t. then_do (deref (th_bytes (snd s)) other) (\<lambda>u.
    then_do (f (tx_rope t) (tx_rope u)) (\<lambda>rope. load_bytes E fresh (text_of_rope rope) s))))"

definition bytes_append :: "text_env \<Rightarrow> u64 \<Rightarrow> text_state \<Rightarrow> failure + text_state" where
  "bytes_append E fresh s = then_do (bytes_receiver E s) (\<lambda>(frame, p).
    then_do (assert_arguments 1 frame) (\<lambda>_. bytes_combine (rl_append (te_ropes E)) 0 frame E fresh p s))"

definition bytes_prepend :: "text_env \<Rightarrow> u64 \<Rightarrow> text_state \<Rightarrow> failure + text_state" where
  "bytes_prepend E fresh s = then_do (bytes_receiver E s) (\<lambda>(frame, p).
    then_do (assert_arguments 1 frame) (\<lambda>_. bytes_combine (rl_prepend (te_ropes E)) 0 frame E fresh p s))"

definition bytes_insert :: "text_env \<Rightarrow> u64 \<Rightarrow> text_state \<Rightarrow> failure + text_state" where
  "bytes_insert E fresh s = then_do (bytes_receiver E s) (\<lambda>(frame, p).
    then_do (assert_arguments 2 frame) (\<lambda>_.
    then_do (i64_operand E (getArgument 0 frame)) (\<lambda>offset.
    bytes_combine (\<lambda>t u. rl_insert (te_ropes E) t offset u) 1 frame E fresh p s)))"

text \<open>The operations on a range of the receiver.\<close>

definition range_arguments :: "text_env \<Rightarrow> call_cell \<Rightarrow> failure + int \<times> int" where
  "range_arguments E frame = then_do (assert_arguments 2 frame) (\<lambda>_.
    then_do (i64_operand E (getArgument 0 frame)) (\<lambda>offset.
    then_do (i64_operand E (getArgument 1 frame)) (\<lambda>count. Inr (offset, count))))"

definition bytes_remove :: "text_env \<Rightarrow> u64 \<Rightarrow> text_state \<Rightarrow> failure + text_state" where
  "bytes_remove E fresh s = then_do (bytes_receiver E s) (\<lambda>(frame, p).
    then_do (range_arguments E frame) (\<lambda>(offset, count).
    then_do (deref (th_bytes (snd s)) p) (\<lambda>t.
    then_do (rl_remove (te_ropes E) (tx_rope t) offset count) (\<lambda>rope. load_bytes E fresh (text_of_rope rope) s))))"

definition bytes_subspan :: "text_env \<Rightarrow> u64 \<Rightarrow> text_state \<Rightarrow> failure + text_state" where
  "bytes_subspan E fresh s = then_do (bytes_receiver E s) (\<lambda>(frame, p).
    then_do (range_arguments E frame) (\<lambda>(offset, count).
    then_do (deref (th_bytes (snd s)) p) (\<lambda>t.
    then_do (rl_subspan (te_ropes E) (tx_rope t) offset count) (\<lambda>rope. load_bytes E fresh (text_of_rope rope) s))))"

definition string_at :: "text_env \<Rightarrow> text_state \<Rightarrow> (failure + text_state) option" where
  "string_at E s = run_bind (Some (string_receiver E s)) (\<lambda>(frame, p).
    run_bind (Some (assert_arguments 1 frame)) (\<lambda>_.
    run_bind (Some (i64_operand E (getArgument 0 frame))) (\<lambda>index.
    run_bind (Some (deref (th_strings (snd s)) p)) (\<lambda>t.
    run_bind (stringAt E (narrow_int index) t) (\<lambda>v. Some (push_result v s))))))"

definition string_compare :: "text_env \<Rightarrow> text_state \<Rightarrow> (failure + text_state) option" where
  "string_compare E s = run_bind (Some (currentCallOrThrow (fst s))) (\<lambda>frame.
    run_bind (Some (assert_arguments 2 frame)) (\<lambda>_.
    run_bind (Some (string_operand E (getArgument 0 frame))) (\<lambda>lhs.
    run_bind (Some (string_operand E (getArgument 1 frame))) (\<lambda>rhs.
    run_bind (Some (deref (th_strings (snd s)) lhs)) (\<lambda>t. run_bind (Some (deref (th_strings (snd s)) rhs)) (\<lambda>u.
    run_bind (string_compare_refs (te_next E) t u) (\<lambda>r.
      Some (push_result (fromI64 (ne_lib E) (ne_garbage E) (word_of_int r)) s))))))))"

definition string_length :: "text_env \<Rightarrow> text_state \<Rightarrow> (failure + text_state) option" where
  "string_length E s = run_bind (Some (string_receiver E s)) (\<lambda>(frame, p).
    run_bind (Some (deref (th_strings (snd s)) p)) (\<lambda>t.
    run_bind (stringLength E t) (\<lambda>v. Some (push_result v s))))"

definition string_to_bytes :: "text_env \<Rightarrow> u64 \<Rightarrow> text_state \<Rightarrow> failure + text_state" where
  "string_to_bytes E fresh s = then_do (string_receiver E s) (\<lambda>(frame, p).
    then_do (deref (th_strings (snd s)) p) (\<lambda>t.
    load_bytes E fresh (text_of_span (te_ropes E) (concat (tx_rope t))) s))"

definition string_combine ::
  "(rope \<Rightarrow> rope \<Rightarrow> failure + rope) \<Rightarrow> nat \<Rightarrow> call_cell \<Rightarrow> text_env \<Rightarrow> u64 \<Rightarrow> u64 \<Rightarrow> text_state \<Rightarrow> failure + text_state" where
  "string_combine f i frame E fresh p s =
    then_do (string_operand E (getArgument (int i) frame)) (\<lambda>other.
    then_do (deref (th_strings (snd s)) p) (\<lambda>t. then_do (deref (th_strings (snd s)) other) (\<lambda>u.
    then_do (f (tx_rope t) (tx_rope u)) (\<lambda>rope. load_string E fresh (text_of_rope rope) s))))"

definition string_append :: "text_env \<Rightarrow> u64 \<Rightarrow> text_state \<Rightarrow> failure + text_state" where
  "string_append E fresh s = then_do (string_receiver E s) (\<lambda>(frame, p).
    then_do (assert_arguments 1 frame) (\<lambda>_. string_combine (rl_append (te_ropes E)) 0 frame E fresh p s))"

definition string_prepend :: "text_env \<Rightarrow> u64 \<Rightarrow> text_state \<Rightarrow> failure + text_state" where
  "string_prepend E fresh s = then_do (string_receiver E s) (\<lambda>(frame, p).
    then_do (assert_arguments 1 frame) (\<lambda>_. string_combine (rl_prepend (te_ropes E)) 0 frame E fresh p s))"

definition string_insert :: "text_env \<Rightarrow> u64 \<Rightarrow> text_state \<Rightarrow> failure + text_state" where
  "string_insert E fresh s = then_do (string_receiver E s) (\<lambda>(frame, p).
    then_do (assert_arguments 2 frame) (\<lambda>_.
    then_do (i64_operand E (getArgument 0 frame)) (\<lambda>offset.
    string_combine (\<lambda>t u. rl_insert (te_ropes E) t offset u) 1 frame E fresh p s)))"

definition string_remove :: "text_env \<Rightarrow> u64 \<Rightarrow> text_state \<Rightarrow> failure + text_state" where
  "string_remove E fresh s = then_do (string_receiver E s) (\<lambda>(frame, p).
    then_do (range_arguments E frame) (\<lambda>(offset, count).
    then_do (deref (th_strings (snd s)) p) (\<lambda>t.
    then_do (rl_remove (te_ropes E) (tx_rope t) offset count) (\<lambda>rope. load_string E fresh (text_of_rope rope) s))))"

definition string_substring :: "text_env \<Rightarrow> u64 \<Rightarrow> text_state \<Rightarrow> failure + text_state" where
  "string_substring E fresh s = then_do (string_receiver E s) (\<lambda>(frame, p).
    then_do (range_arguments E frame) (\<lambda>(offset, count).
    then_do (deref (th_strings (snd s)) p) (\<lambda>t.
    then_do (rl_subspan (te_ropes E) (tx_rope t) offset count) (\<lambda>rope. load_string E fresh (text_of_rope rope) s))))"

end
