(* ===== verification/TextsLaws.thy ===== *)
theory TextsLaws
  imports Texts
begin

text \<open>
  Bytes and strings do not depend on how their rope is cut into chunks, as long as no chunk is empty and no
  chunk ends inside of a character. \<open>content_order\<close> is the order that \<open>compare\<close> implements; it is the
  lexicographic order, but with a proper prefix after what it is a prefix of.
\<close>

subsection \<open>Comparisons\<close>

locale total_comparison =
  fixes cmp :: "'a \<Rightarrow> 'a \<Rightarrow> int"
  assumes zero: "cmp x y = 0 \<longleftrightarrow> x = y"
    and opposite: "cmp y x = - cmp x y"
    and less_trans: "cmp x y < 0 \<Longrightarrow> cmp y z < 0 \<Longrightarrow> cmp x z < 0"
begin

lemma same [simp]: "cmp x x = 0"
  by (simp add: zero)

lemma le_trans: "cmp x y \<le> 0 \<Longrightarrow> cmp y z \<le> 0 \<Longrightarrow> cmp x z \<le> 0"
  using less_trans [of x y z] zero [of x y] zero [of y z] by fastforce

lemma total: "cmp x y \<le> 0 \<or> cmp y x \<le> 0"
  using opposite [of x y] by linarith

lemma le_antisym: "cmp x y \<le> 0 \<Longrightarrow> cmp y x \<le> 0 \<Longrightarrow> x = y"
  using opposite [of x y] zero [of x y] by linarith

end

fun content_order :: "'a::linorder list \<Rightarrow> 'a list \<Rightarrow> int" where
  "content_order [] [] = 0"
| "content_order [] (y # ys) = 1"
| "content_order (x # xs) [] = -1"
| "content_order (x # xs) (y # ys) = (if x < y then -1 else if y < x then 1 else content_order xs ys)"

interpretation contents: total_comparison "content_order :: 'a::linorder list \<Rightarrow> 'a list \<Rightarrow> int"
proof
  fix xs ys zs :: "'a list"
  show "content_order xs ys = 0 \<longleftrightarrow> xs = ys" by (induction xs ys rule: content_order.induct) auto
  show "content_order ys xs = - content_order xs ys" by (induction xs ys rule: content_order.induct) auto
  show "content_order xs ys < 0 \<Longrightarrow> content_order ys zs < 0 \<Longrightarrow> content_order xs zs < 0"
  proof (induction xs ys arbitrary: zs rule: content_order.induct)
    case (4 x xs y ys)
    then show ?case by (cases zs) (auto split: if_splits)
  next
    case (3 x xs)
    then show ?case by (cases zs) auto
  qed auto
qed

lemma content_order_prefix: "ys \<noteq> [] \<Longrightarrow> content_order xs (xs @ ys) = 1"
  by (induction xs) (auto simp: neq_Nil_conv)

lemma content_order_Nil: "content_order xs [] = (if xs = [] then 0 else -1)" "content_order [] ys = (if ys = [] then 0 else 1)"
  by (cases xs; simp) (cases ys; simp)

subsection \<open>Bytes\<close>

lemma compare_run_order:
  "content_order (as @ us) (bs @ vs) = (case compare_run as bs of Inl r \<Rightarrow> r
    | Inr (as', bs') \<Rightarrow> content_order (as' @ us) (bs' @ vs))"
  by (induction as bs rule: compare_run.induct) auto

definition cursor_ok :: "cursor \<Rightarrow> bool" where
  "cursor_ok = (\<lambda>(active, it, chunks). active \<longrightarrow> it \<noteq> [] \<and> [] \<notin> set chunks)"

definition cursor_content :: "cursor \<Rightarrow> u8 list" where
  "cursor_content = (\<lambda>(active, it, chunks). if active then it @ concat chunks else [])"

lemma cursor_content_simps [simp]:
  "cursor_content (True, it, chunks) = it @ concat chunks" "cursor_content (False, it, chunks) = []"
  by (simp_all add: cursor_content_def)

lemma next_chunk_content:
  assumes "[] \<notin> set chunks"
  shows "cursor_ok (next_chunk chunks)" "cursor_content (next_chunk chunks) = concat chunks"
  using assms by (cases chunks; auto simp: cursor_ok_def cursor_content_def)+

lemma refill_content:
  assumes "[] \<notin> set chunks"
  shows "cursor_ok (refill it chunks)" "cursor_content (refill it chunks) = it @ concat chunks"
  using assms next_chunk_content [of chunks] by (auto simp: refill_def cursor_ok_def cursor_content_def)

lemma compare_cursors_order:
  "cursor_ok this \<Longrightarrow> cursor_ok other \<Longrightarrow>
    compare_cursors this other = content_order (cursor_content this) (cursor_content other)"
proof (induction this other rule: compare_cursors.induct)
  case (1 thisactive thisit thischunks otheractive otherit otherchunks)
  show ?case
  proof (cases "thisactive \<and> otheractive")
    case True
    then have ne: "[] \<notin> set thischunks" "[] \<notin> set otherchunks" using 1(2,3) by (auto simp: cursor_ok_def)
    show ?thesis
    proof (cases "compare_run thisit otherit")
      case (Inl r)
      then show ?thesis
        using True compare_run_order [of thisit "concat thischunks" otherit "concat otherchunks"]
        by (subst compare_cursors.simps) (simp add: cursor_content_def)
    next
      case (Inr p)
      then show ?thesis
        using True compare_run_order [of thisit "concat thischunks" otherit "concat otherchunks"]
          1(1) [OF True Inr, of "fst p" "snd p"] refill_content [OF ne(1)] refill_content [OF ne(2)]
        by (subst compare_cursors.simps) (simp add: split: prod.splits)
    qed
  next
    case False
    then show ?thesis using 1(2,3)
      by (subst compare_cursors.simps) (auto simp: cursor_content_def cursor_ok_def compare_end_def content_order_Nil)
  qed
qed

definition rope_ok :: "rope \<Rightarrow> bool" where
  "rope_ok rope \<longleftrightarrow> [] \<notin> set rope"

lemma bytes_compare_order:
  "rope_ok (tx_rope t) \<Longrightarrow> rope_ok (tx_rope u) \<Longrightarrow>
    bytes_compare_refs t u = content_order (concat (tx_rope t)) (concat (tx_rope u))"
  by (simp add: bytes_compare_refs_def rope_ok_def compare_cursors_order next_chunk_content)

text \<open>C33. Comparing bytes depends on their contents only, however the ropes are cut: the result is zero exactly
  on equal contents, changes its sign with the order of the operands, and is transitive. But of two bytes one
  of which is a proper prefix of the other, the prefix is the greater.\<close>

theorem bytes_are_ordered_by_content:
  assumes "rope_ok (tx_rope t)" "rope_ok (tx_rope u)" "rope_ok (tx_rope v)"
  shows "bytes_compare_refs t u = content_order (concat (tx_rope t)) (concat (tx_rope u)) \<and>
    (bytes_equals t u \<longleftrightarrow> concat (tx_rope t) = concat (tx_rope u)) \<and>
    bytes_compare_refs u t = - bytes_compare_refs t u \<and>
    (bytes_compare_refs t u \<le> 0 \<and> bytes_compare_refs u v \<le> 0 \<longrightarrow> bytes_compare_refs t v \<le> 0) \<and>
    (\<forall>bs. bs \<noteq> [] \<and> concat (tx_rope u) = concat (tx_rope t) @ bs \<longrightarrow> bytes_compare_refs t u = 1)"
  using assms contents.le_trans contents.opposite
  by (auto simp: bytes_compare_order bytes_equals_def contents.zero content_order_prefix)

theorem bytes_are_ordered_by_content_witness:
  "let text = (\<lambda>rope. \<lparr>tx_rope = rope, tx_size = 0\<rparr>) in
    bytes_compare_refs (text [[1], [2, 3]]) (text [[1, 2], [3, 4]]) = 1 \<and>
    bytes_equals (text [[1], [2, 3]]) (text [[1, 2], [3]]) \<and>
    bytes_compare_refs (text [[1, 2], [3, 4]]) (text [[2]]) \<le> 0"
proof -
  let ?t = "\<lparr>tx_rope = [[1], [2, 3]], tx_size = 0\<rparr> :: text_ref" and ?u = "\<lparr>tx_rope = [[1, 2], [3, 4]], tx_size = 0\<rparr> :: text_ref"
    and ?v = "\<lparr>tx_rope = [[1, 2], [3]], tx_size = 0\<rparr> :: text_ref" and ?w = "\<lparr>tx_rope = [[2]], tx_size = 0\<rparr> :: text_ref"
  show ?thesis
    using bytes_are_ordered_by_content [of ?t ?u ?w] bytes_are_ordered_by_content [of ?t ?v ?w]
      bytes_are_ordered_by_content [of ?u ?w ?w] by (simp add: rope_ok_def)
qed

subsection \<open>Strings\<close>

text \<open>The characters of a chunk, if it is cut between characters.\<close>

inductive decodes :: "utf8_next \<Rightarrow> u8 list \<Rightarrow> u32 list \<Rightarrow> bool" for N where
  decodes_end: "decodes N [] []"
| decodes_char: "bs \<noteq> [] \<Longrightarrow> N bs = (Inr c, bs') \<Longrightarrow> decodes N bs' cs \<Longrightarrow> decodes N bs (c # cs)"

inductive_cases decodes_ConsE: "decodes N bs (c # cs)"

inductive_simps decodes_Nil_simps [simp]: "decodes N [] cs" "decodes N bs []"

lemma compare_characters_Nil [simp]: "as = [] \<or> bs = [] \<Longrightarrow> compare_characters N as bs = Some (Inr (Inr (as, bs)))"
  by (subst compare_characters.simps) simp

lemma compare_characters_order:
  assumes "decodes N as xs" "decodes N bs ys"
  shows "\<exists>r. compare_characters N as bs = Some (Inr r) \<and> (case r of
      Inl k \<Rightarrow> \<forall>us vs. content_order (xs @ us) (ys @ vs) = k
    | Inr (as', bs') \<Rightarrow> \<exists>xs' ys'. decodes N as' xs' \<and> decodes N bs' ys' \<and> (as' = [] \<or> bs' = []) \<and>
        (\<forall>us vs. content_order (xs @ us) (ys @ vs) = content_order (xs' @ us) (ys' @ vs)))"
  using assms
proof (induction arbitrary: bs ys rule: decodes.induct)
  case decodes_end
  then show ?case by auto
next
  case (decodes_char as x as' xs)
  show ?case
  proof (cases ys)
    case Nil
    then have "bs = []" using decodes_char.prems by simp
    moreover have "decodes N as (x # xs)" using decodes_char.hyps by (rule decodes.decodes_char)
    ultimately show ?thesis using Nil by auto
  next
    case (Cons y zs)
    then obtain bs' where bs: "bs \<noteq> []" "N bs = (Inr y, bs')" "decodes N bs' zs"
      using decodes_char.prems by (auto elim: decodes_ConsE)
    have step: "compare_characters N as bs = (if x < y then Some (Inr (Inl (-1))) else if y < x then Some (Inr (Inl 1))
        else compare_characters N as' bs')"
      using decodes_char.hyps(1,2) bs by (subst compare_characters.simps) simp
    consider "x < y" | "y < x" | "x = y" by (rule linorder_cases)
    then show ?thesis
    proof cases
      case 3
      obtain r where r: "compare_characters N as' bs' = Some (Inr r)" "case r of
            Inl k \<Rightarrow> \<forall>us vs. content_order (xs @ us) (zs @ vs) = k
          | Inr (as', bs') \<Rightarrow> \<exists>xs' ys'. decodes N as' xs' \<and> decodes N bs' ys' \<and> (as' = [] \<or> bs' = []) \<and>
              (\<forall>us vs. content_order (xs @ us) (zs @ vs) = content_order (xs' @ us) (ys' @ vs))"
        using decodes_char.IH [OF bs(3)] by blast
      then show ?thesis using step 3 Cons by (cases r) auto
    qed (use step Cons in \<open>auto simp: not_less_iff_gr_or_eq\<close>)
  qed
qed

definition cursor_characters :: "utf8_next \<Rightarrow> cursor \<Rightarrow> u32 list \<Rightarrow> bool" where
  "cursor_characters N = (\<lambda>(active, it, chunks) ws. if active
    then it \<noteq> [] \<and> (\<exists>xs css. decodes N it xs \<and> list_all2 (decodes N) chunks css \<and> rope_ok chunks \<and> ws = xs @ concat css)
    else ws = [])"

lemma next_chunk_characters:
  assumes "list_all2 (decodes N) chunks css" "rope_ok chunks"
  shows "cursor_characters N (next_chunk chunks) (concat css)"
proof (cases chunks)
  case (Cons chunk rest)
  then obtain cs css' where "css = cs # css'" "decodes N chunk cs" "list_all2 (decodes N) rest css'"
    using assms(1) by (auto simp: list_all2_Cons1)
  then show ?thesis using assms(2) Cons by (auto simp: cursor_characters_def rope_ok_def)
qed (use assms in \<open>simp add: cursor_characters_def\<close>)

lemma refill_characters:
  assumes "decodes N it xs" "list_all2 (decodes N) chunks css" "rope_ok chunks"
  shows "cursor_characters N (refill it chunks) (xs @ concat css)"
proof (cases "it = []")
  case True
  then show ?thesis using assms next_chunk_characters by (simp add: refill_def)
next
  case False
  then show ?thesis using assms by (auto simp: refill_def cursor_characters_def)
qed

lemma compare_string_cursors_order:
  assumes "cursor_characters N this ws" "cursor_characters N other zs"
  shows "compare_string_cursors N this other = Some (Inr (content_order ws zs))"
  using assms
proof (induction "cursor_chunks this + cursor_chunks other" arbitrary: this other ws zs rule: less_induct)
  case less
  obtain thisactive thisit thischunks otheractive otherit otherchunks
    where cursors: "this = (thisactive, thisit, thischunks)" "other = (otheractive, otherit, otherchunks)"
    by (metis prod_cases3)
  show ?case
  proof (cases "thisactive \<and> otheractive")
    case True
    then obtain xs css ys dss where th: "decodes N thisit xs" "list_all2 (decodes N) thischunks css" "rope_ok thischunks"
        "ws = xs @ concat css"
      and ot: "decodes N otherit ys" "list_all2 (decodes N) otherchunks dss" "rope_ok otherchunks" "zs = ys @ concat dss"
      using less.prems cursors by (auto simp: cursor_characters_def)
    obtain r where r: "compare_characters N thisit otherit = Some (Inr r)" "case r of
          Inl k \<Rightarrow> \<forall>us vs. content_order (xs @ us) (ys @ vs) = k
        | Inr (as', bs') \<Rightarrow> \<exists>xs' ys'. decodes N as' xs' \<and> decodes N bs' ys' \<and> (as' = [] \<or> bs' = []) \<and>
            (\<forall>us vs. content_order (xs @ us) (ys @ vs) = content_order (xs' @ us) (ys' @ vs))"
      using compare_characters_order [OF th(1) ot(1)] by blast
    show ?thesis
    proof (cases r)
      case (Inl k)
      then show ?thesis using True r th(4) ot(4) cursors by (subst compare_string_cursors.simps) simp
    next
      case (Inr p)
      obtain as' bs' where p: "p = (as', bs')" by (cases p)
      obtain xs' ys' where rest: "decodes N as' xs'" "decodes N bs' ys'" "as' = [] \<or> bs' = []"
          "\<And>us vs. content_order (xs @ us) (ys @ vs) = content_order (xs' @ us) (ys' @ vs)"
        using r(2) Inr p by auto
      have "cursor_chunks (refill as' thischunks) + cursor_chunks (refill bs' otherchunks) < cursor_chunks this + cursor_chunks other"
        using rest(3) cursors True cursor_chunks_refill(1) [of as' thischunks] cursor_chunks_refill(1) [of bs' otherchunks]
          cursor_chunks_refill(2) [of thischunks] cursor_chunks_refill(2) [of otherchunks] by auto
      then have "compare_string_cursors N (refill as' thischunks) (refill bs' otherchunks) =
          Some (Inr (content_order (xs' @ concat css) (ys' @ concat dss)))"
        using less.hyps refill_characters th(2,3) ot(2,3) rest(1,2) by blast
      then show ?thesis using True r(1) Inr p rest(4) th(4) ot(4) cursors by (subst compare_string_cursors.simps) simp
    qed
  next
    case False
    then show ?thesis using less.prems cursors
      by (subst compare_string_cursors.simps)
        (auto simp: cursor_characters_def compare_end_def content_order_Nil split: if_splits)
  qed
qed

lemma string_at_chunk_finds:
  assumes "decodes N it xs" "it \<noteq> []" "0 \<le> cur" "cur + int (length xs) < 2 ^ 31"
  shows "string_at_chunk N index it cur = Some (Inr (if cur \<le> index \<and> index < cur + int (length xs)
    then Found (xs ! nat (index - cur)) else Scanned (cur + int (length xs))))"
  using assms
proof (induction arbitrary: cur rule: decodes.induct)
  case (decodes_char bs c bs' cs)
  have cur: "checked_int (cur + 1) = Inr (cur + 1)" using decodes_char.prems by (intro checked_int_simp) auto
  show ?case
  proof (cases "bs' = []")
    case True
    then have "cs = []" using decodes_char.hyps(3) by simp
    then show ?thesis using decodes_char.hyps(2) cur True by (subst string_at_chunk.simps) auto
  next
    case False
    then have "string_at_chunk N index bs' (cur + 1) = Some (Inr (if cur + 1 \<le> index \<and> index < cur + 1 + int (length cs)
        then Found (cs ! nat (index - (cur + 1))) else Scanned (cur + 1 + int (length cs))))"
      using decodes_char.IH [of "cur + 1"] decodes_char.prems by simp
    moreover have "nat (index - cur) = Suc (nat (index - (cur + 1)))" if "cur + 1 \<le> index" using that by simp
    ultimately show ?thesis using decodes_char.hyps(2) cur False by (subst string_at_chunk.simps) auto
  qed
qed simp

lemma string_at_chunks_finds:
  assumes "list_all2 (decodes N) chunks css" "rope_ok chunks" "0 \<le> cur" "cur + int (length (concat css)) < 2 ^ 31"
  shows "string_at_chunks N index chunks cur = Some (Inr (if cur \<le> index \<and> index < cur + int (length (concat css))
    then Found (concat css ! nat (index - cur)) else Scanned (cur + int (length (concat css)))))"
  using assms
proof (induction arbitrary: cur rule: list_all2_induct)
  case (Cons chunk chunks cs css)
  have ok: "chunk \<noteq> []" "rope_ok chunks" using Cons.prems(1) by (auto simp: rope_ok_def)
  have "string_at_chunks N index chunks (cur + int (length cs)) = Some (Inr (if cur + int (length cs) \<le> index \<and>
      index < cur + int (length cs) + int (length (concat css)) then Found (concat css ! nat (index - (cur + int (length cs))))
      else Scanned (cur + int (length cs) + int (length (concat css)))))"
    using Cons.IH [of "cur + int (length cs)"] Cons.prems ok by simp
  moreover have "nat (index - cur) < length cs" if "cur \<le> index" "index < cur + int (length cs)" using that by simp
  moreover have "nat (index - cur) - length cs = nat (index - (cur + int (length cs)))" by simp
  ultimately show ?case using string_at_chunk_finds [OF Cons.hyps(1) ok(1), of cur] Cons.prems by (auto simp: nth_append)
qed simp

lemma string_length_chunk_counts:
  "decodes N it xs \<Longrightarrow> it \<noteq> [] \<Longrightarrow> string_length_chunk N it n = Some (Inr (Scanned (n + int (length xs))))"
proof (induction arbitrary: n rule: decodes.induct)
  case (decodes_char bs c bs' cs)
  then show ?case by (subst string_length_chunk.simps) auto
qed simp

lemma string_length_chunks_counts:
  "list_all2 (decodes N) chunks css \<Longrightarrow> rope_ok chunks \<Longrightarrow>
    string_length_chunks N chunks n = Some (Inr (Scanned (n + int (length (concat css)))))"
  by (induction arbitrary: n rule: list_all2_induct) (auto simp: rope_ok_def string_length_chunk_counts)

text \<open>A string whose chunks are not empty and are cut between characters, and which has fewer than \<open>2 ^ 31\<close>.\<close>

definition characters :: "utf8_next \<Rightarrow> text_ref \<Rightarrow> u32 list \<Rightarrow> bool" where
  "characters N t cs \<longleftrightarrow> (\<exists>css. list_all2 (decodes N) (tx_rope t) css \<and> cs = concat css) \<and> rope_ok (tx_rope t) \<and> length cs < 2 ^ 31"

text \<open>C22. Strings of less than \<open>2 ^ 31\<close> well-formed characters, in ropes whose chunks are not empty and are cut between
  characters (\<open>characters\<close>), are read character by character, wherever between them the ropes are cut: comparison is
  \<open>content_order\<close> of the characters, the order of the first that differ, where a string comes after every longer one
  that starts with it, and not before as in the usual order; strings are equal that have the same characters; the
  length is their number; and \<open>stringAt\<close> gives the character at an index and an undefined value outside of the string.
  A chunk that ends inside of a character is not covered.\<close>

theorem strings_are_read_by_characters:
  assumes "characters (te_next E) t cs" "characters (te_next E) u ds"
  shows "string_compare_refs (te_next E) t u = Some (Inr (content_order cs ds)) \<and>
    (\<forall>ws. ds = cs @ ws \<longrightarrow> ws \<noteq> [] \<longrightarrow> string_compare_refs (te_next E) t u = Some (Inr 1)) \<and>
    string_equals (te_next E) t u = Some (Inr (cs = ds)) \<and>
    stringLength E t = Some (Inr (fromI64 (ne_lib E) (ne_garbage E) (word_of_nat (length cs)))) \<and>
    stringAt E index t = Some (Inr (if 0 \<le> index \<and> index < int (length cs)
      then fromC32 (ne_lib E) (ne_garbage E) (cs ! nat index) else undef (ne_garbage E)))"
proof -
  obtain css dss where t: "list_all2 (decodes (te_next E)) (tx_rope t) css" "cs = concat css" "rope_ok (tx_rope t)" "length cs < 2 ^ 31"
    and u: "list_all2 (decodes (te_next E)) (tx_rope u) dss" "ds = concat dss" "rope_ok (tx_rope u)"
    using assms by (auto simp: characters_def)
  have order: "string_compare_refs (te_next E) t u = Some (Inr (content_order cs ds))"
    using compare_string_cursors_order next_chunk_characters t(1-3) u by (auto simp: string_compare_refs_def)
  have empty: "concat (tx_rope t) = [] \<longleftrightarrow> cs = []" using t(1,2,3)
    by (induction arbitrary: cs rule: list_all2_induct) (auto simp: rope_ok_def elim: decodes.cases)
  have "string_length_chunks (te_next E) (tx_rope t) 0 = Some (Inr (Scanned (int (length cs))))"
    using string_length_chunks_counts [OF t(1,3)] t(2) by simp
  moreover have "string_at_chunks (te_next E) index (tx_rope t) 0 = Some (Inr (if 0 \<le> index \<and> index < int (length cs)
      then Found (cs ! nat index) else Scanned (int (length cs))))"
    using string_at_chunks_finds [OF t(1,3), of 0] t(2,4) by simp
  ultimately show ?thesis
    using order empty
    by (auto simp: string_equals_def contents.zero content_order_prefix stringLength_def stringAt_def scan_result_def)
qed

definition ascii_next :: utf8_next where
  "ascii_next bs = (case bs of [] \<Rightarrow> (Inl NotEnoughRoom, []) | b # cs \<Rightarrow> if b < 128 then (Inr (ucast b), cs) else (Inl InvalidUtf8, bs))"

definition text_sample_env :: text_env where
  "text_sample_env = \<lparr>ne_lib = little_endian_lib, ne_objects = no_objects, ne_garbage = replicate 8 0,
    ne_resolve_class = (\<lambda>_. Inr ()), te_ropes = \<lparr>rl_rope = (\<lambda>bs. [bs]), rl_append = (\<lambda>r q. Inr (r @ q)),
      rl_prepend = (\<lambda>r q. Inr (q @ r)), rl_insert = (\<lambda>_ _ _. Inl ThrownOutOfRange), rl_remove = (\<lambda>_ _ _. Inl ThrownOutOfRange),
      rl_subspan = (\<lambda>_ _ _. Inl ThrownOutOfRange)\<rparr>, te_next = ascii_next\<rparr>"

lemma ascii_decodes: "\<forall>b \<in> set bs. b < 128 \<Longrightarrow> decodes ascii_next bs (map ucast bs)"
  by (induction bs) (auto simp: ascii_next_def intro!: decodes_char)

theorem strings_are_read_by_characters_witness:
  "let text = (\<lambda>rope. \<lparr>tx_rope = rope, tx_size = 3\<rparr>) in
    string_compare_refs ascii_next (text [[97], [98, 99]]) (text [[97, 98], [100]]) = Some (Inr (-1)) \<and>
    stringLength text_sample_env (text [[97], [98, 99]]) = Some (Inr (fromI64 little_endian_lib (replicate 8 0) 3)) \<and>
    stringAt text_sample_env 2 (text [[97], [98, 99]]) = Some (Inr (fromC32 little_endian_lib (replicate 8 0) 99))"
proof -
  let ?t = "\<lparr>tx_rope = [[97], [98, 99]], tx_size = 3\<rparr> :: text_ref" and ?u = "\<lparr>tx_rope = [[97, 98], [100]], tx_size = 3\<rparr> :: text_ref"
  have env: "te_next text_sample_env = ascii_next" "ne_lib text_sample_env = little_endian_lib" "ne_garbage text_sample_env = replicate 8 0"
    by (simp_all add: text_sample_env_def)
  have d: "decodes ascii_next [97] [97]" "decodes ascii_next [98, 99] [98, 99]" "decodes ascii_next [97, 98] [97, 98]"
      "decodes ascii_next [100] [100]"
    using ascii_decodes [of "[97]"] ascii_decodes [of "[98, 99]"] ascii_decodes [of "[97, 98]"] ascii_decodes [of "[100]"] by simp_all
  have "characters ascii_next ?t [97, 98, 99]"
    unfolding characters_def by (rule conjI, rule exI [of _ "[[97], [98, 99]]"]) (simp_all add: d rope_ok_def)
  moreover have "characters ascii_next ?u [97, 98, 100]"
    unfolding characters_def by (rule conjI, rule exI [of _ "[[97, 98], [100]]"]) (simp_all add: d rope_ok_def)
  ultimately show ?thesis
    using strings_are_read_by_characters [of text_sample_env ?t "[97, 98, 99]" ?u "[97, 98, 100]" 2]
    by (simp del: replicate.simps add: env Let_def)
qed

text \<open>The utf8 library leaves the position where it was when it finds a malformed sequence. \<open>compare\<close> catches the
  exception and tries again.\<close>

lemma compare_characters_stuck:
  assumes "compare_characters N as bs = Some y"
  shows "as \<noteq> [] \<longrightarrow> bs \<noteq> [] \<longrightarrow> N as = (Inl e, as) \<longrightarrow> False"
proof (rule compare_characters.raw_induct [OF _ assms])
  fix f N as bs y
  assume IH: "\<And>N as bs y. f N as bs = Some y \<Longrightarrow> as \<noteq> [] \<longrightarrow> bs \<noteq> [] \<longrightarrow> N as = (Inl e, as) \<longrightarrow> False"
    and body: "(if as = [] \<or> bs = [] then Some (Inr (Inr (as, bs)))
      else case N as of
        (Inl e, this') \<Rightarrow> f N this' bs
      | (Inr thisch, this') \<Rightarrow>
          (case N bs of
             (Inl e, other') \<Rightarrow> f N this' other'
           | (Inr otherch, other') \<Rightarrow>
               if thisch < otherch then Some (Inr (Inl (-1)))
               else if otherch < thisch then Some (Inr (Inl 1))
               else f N this' other')) = Some y"
  show "as \<noteq> [] \<longrightarrow> bs \<noteq> [] \<longrightarrow> N as = (Inl e, as) \<longrightarrow> False"
    using IH [of N as bs y] body by auto
qed

text \<open>C35. When the utf8 library does not move over a malformed sequence, comparing a string that starts with one to a
  string that is not empty does not return, and neither does the test for equality. The length of such a string and
  the character at any index are undefined values or, for a sequence that is not UTF-8 at all, an exception that
  leaves the operation.\<close>

theorem malformed_string_comparison_never_returns:
  assumes "tx_rope t = (b # bs) # chunks" "te_next E (b # bs) = (Inl e, b # bs)" "tx_rope u = (c # cs) # chunks'"
  shows "string_compare_refs (te_next E) t u = None \<and> string_equals (te_next E) t u = None \<and>
    stringLength E t = Some (if e = InvalidUtf8 then Inl ThrownUtf8 else Inr (undef (ne_garbage E))) \<and>
    stringAt E index t = Some (if e = InvalidUtf8 then Inl ThrownUtf8 else Inr (undef (ne_garbage E)))"
proof -
  have "compare_characters (te_next E) (b # bs) (c # cs) = None"
    using compare_characters_stuck [of "te_next E" "b # bs" "c # cs" _ e] assms(2) by (metis list.distinct(1) option.exhaust)
  then have "string_compare_refs (te_next E) t u = None"
    by (simp add: string_compare_refs_def assms compare_string_cursors.simps [of _ "(True, b # bs, chunks)"])
  moreover have "string_length_chunks (te_next E) (tx_rope t) 0 = Some (Inr (Threw e))"
    by (simp add: assms string_length_chunk.simps [of _ "b # bs"])
  moreover have "string_at_chunks (te_next E) index (tx_rope t) 0 = Some (Inr (Threw e))"
    by (simp add: assms string_at_chunk.simps [of _ _ "b # bs"])
  ultimately show ?thesis by (simp add: string_equals_def stringLength_def stringAt_def scan_result_def assms(1))
qed

theorem malformed_string_comparison_never_returns_witness:
  "string_compare_refs ascii_next \<lparr>tx_rope = [[200, 97]], tx_size = 2\<rparr> \<lparr>tx_rope = [[97]], tx_size = 1\<rparr> = None \<and>
    stringLength text_sample_env \<lparr>tx_rope = [[200, 97]], tx_size = 2\<rparr> = Some (Inl ThrownUtf8)"
proof -
  let ?t = "\<lparr>tx_rope = [[200, 97]], tx_size = 2\<rparr> :: text_ref" and ?u = "\<lparr>tx_rope = [[97]], tx_size = 1\<rparr> :: text_ref"
  have env: "te_next text_sample_env = ascii_next" by (simp add: text_sample_env_def)
  have "ascii_next [200, 97] = (Inl InvalidUtf8, [200, 97])" by (simp add: ascii_next_def)
  then show ?thesis using malformed_string_comparison_never_returns [of ?t 200 "[97]" "[]" text_sample_env InvalidUtf8 ?u 97 "[]" "[]"]
    by (simp add: env)
qed

subsection \<open>Operations\<close>

text \<open>Bytes made from a string hold the bytes of the string, and the other way round.\<close>

lemma text_of_span_content:
  assumes "\<And>bs. concat (rl_rope L bs) = bs" "length bs < 2 ^ 31"
  shows "concat (tx_rope (text_of_span L bs)) = bs" "tx_size (text_of_span L bs) = int (length bs)"
  using assms by (auto simp: text_of_span_def text_of_rope_def Let_def)

text \<open>\<open>bytes_at\<close> and \<open>string_at\<close> narrow their index: one above \<open>2 ^ 32\<close> is taken for a small one.\<close>

lemma size_less:
  assumes "0 \<le> n" "n < 2 ^ 31" "- (2 ^ 31) \<le> i" "i < 2 ^ 31"
  shows "(word_of_int i :: u64) < word_of_int n \<longleftrightarrow> 0 \<le> i \<and> i < n"
proof (cases "0 \<le> i")
  case True
  then show ?thesis using assms by (simp add: word_less_def uint_word_of_int)
next
  case False
  have "i mod 2 ^ 64 = (i + 2 ^ 64) mod 2 ^ 64" by simp
  also have "\<dots> = i + 2 ^ 64" using False assms by (intro mod_pos_pos_trivial) auto
  finally show ?thesis using False assms by (simp add: word_less_def uint_word_of_int)
qed

lemma byteAt_content:
  assumes "rope_ok (tx_rope t)" "length (concat (tx_rope t)) < 2 ^ 31" "- (2 ^ 31) \<le> index" "index < 2 ^ 31"
  shows "byteAt E index t = Inr (if 0 \<le> index \<and> index < int (length (concat (tx_rope t)))
    then fromI64 (ne_lib E) (ne_garbage E) (ucast (concat (tx_rope t) ! nat index)) else undef (ne_garbage E))"
proof -
  have "byte_at_chunks index cur chunks = Inr (if cur \<le> index \<and> index < cur + int (length (concat chunks))
      then Some (concat chunks ! nat (index - cur)) else None)"
    if "0 \<le> cur" "cur + int (length (concat chunks)) < 2 ^ 31" "index < 0 \<or> cur \<le> index" for cur chunks
    using that
  proof (induction chunks arbitrary: cur)
    case (Cons chunk chunks)
    have le: "(word_of_int index :: u64) < word_of_int (cur + int (length chunk)) \<longleftrightarrow> 0 \<le> index \<and> index < cur + int (length chunk)"
      using Cons.prems assms(3,4) by (intro size_less) auto
    show ?case
    proof (cases "0 \<le> index \<and> index < cur + int (length chunk)")
      case True
      then show ?thesis using Cons.prems le by (auto simp: nth_append nat_less_iff)
    next
      case False
      have "nat (index - cur) - length chunk = nat (index - (cur + int (length chunk)))" by simp
      then show ?thesis using False Cons.prems le Cons.IH [of "cur + int (length chunk)"] by (auto simp: nth_append)
    qed
  qed simp
  from this [of 0 "tx_rope t"] show ?thesis using assms by (auto simp: byteAt_def simp del: concat_eq_Nil_conv)
qed

end
