(* ===== verification/Spec2Isabelle.thy ===== *)
theory Spec2Isabelle
  imports Prelude Opcodes Endian BytecodeIterator BytecodeBuilder Bits Operand OperandLaws
    InterpreterResult OperandStack CallCell Coroutine Ring Scheduler SchedulerLaws SchedulerRefinement
    Promise PromiseLaws Arithmetic ArithmeticLaws Procs ProcsLaws Segments SegmentsLaws Subroutines
    SubroutinesLaws TypeManager TypeManagerLaws Exceptions ExceptionsLaws Interpreter InterpreterLoop InterpreterLaws
    InterpreterRuns StraightLine VirtualTables VirtualTablesLaws CodeFragments CodeFragmentsLaws
    Native Sequences SequencesLaws SequencesRefinement Maps MapsLaws MapsTries MapsRefinement MapsIteration MapsLimits
    Closures ClosuresLaws Collector CollectorLaws Collections Texts TextsLaws
begin

text \<open>
  A model of the Lyric runtime, of the bytecode that it runs, and of the parts of the assembler that
  write this bytecode. All paths are below \<open>src/lib\<close>; each theory opens with the files that it models.

  The program. The compiler turns modules into object files; an object file has tables of descriptors
  and one span of bytecode, in which each call has a proc. The runtime loads objects as segments and
  links them while it runs. Tasks run on coroutines; the scheduler resumes them when promises are
  completed by the event loop. The interpreter executes the instructions of the current task: operands
  move between the data stack and the frames of the call stack, calls push frames, exceptions leave
  them. Objects live behind the pointers of operands; the prelude brings native operations on them.

  Bytecode (\<open>lyric_object\<close>, \<open>lyric_assembler\<close>):
  \<^item> \<open>Opcodes\<close>, \<open>Endian\<close>, \<open>Bits\<close>: the vocabulary of the format and of its words.
  \<^item> \<open>BytecodeBuilder\<close> encodes and \<open>BytecodeIterator\<close> decodes instructions. Decoding inverts encoding, the
    cursor stays in the span, a jump patched below offset 65536 lands on its label.
  \<^item> \<open>CodeFragments\<close>: the instructions of the assembler, labels, jump targets, the fragments of a proc
    and its code; \<open>CodeFragmentsLaws\<close>: code of less than 65536 bytes reads back as its instructions and its jumps
    land on their labels; labels and targets are unique over fragments that are put together.
  \<^item> \<open>Procs\<close>, \<open>ProcsLaws\<close>: what \<open>ProcHandle::build\<close> writes is what the runtime reads.

  State of the runtime (\<open>lyric_runtime\<close>):
  \<^item> \<open>Operand\<close>, \<open>OperandLaws\<close>: tagged values of eight bytes; constructors and getters are inverse on
    the values that fit, which the limits of the signed integers do not.
  \<^item> \<open>OperandStack\<close>: the stack of bytes refines a stack of values.
  \<^item> \<open>CallCell\<close>, \<open>Coroutine\<close>: frames, the call stack and the guards of nested runs.
  \<^item> \<open>Ring\<close>, \<open>Scheduler\<close>, \<open>SchedulerLaws\<close>, \<open>SchedulerRefinement\<close>: tasks and waiters in linked queues; the
    scheduler refines queues that are lists.
  \<^item> \<open>Promise\<close>, \<open>PromiseLaws\<close>: the states of promises, and how they suspend and resume tasks.
  \<^item> \<open>Segments\<close>, \<open>SegmentsLaws\<close>: loading and linking; links are sound and stable.

  Execution (\<open>lyric_runtime\<close>):
  \<^item> \<open>Arithmetic\<close>, \<open>ArithmeticLaws\<close>: results are exact or errors.
  \<^item> \<open>Subroutines\<close>, \<open>SubroutinesLaws\<close>: calls push one frame or none, returns undo calls.
  \<^item> \<open>TypeManager\<close>, \<open>TypeManagerLaws\<close>: the comparison of types decides subtyping.
  \<^item> \<open>Exceptions\<close>, \<open>ExceptionsLaws\<close>: raising finds the first handler.
  \<^item> \<open>VirtualTables\<close>, \<open>VirtualTablesLaws\<close>: the layout of objects by the tables of their classes,
    over modules that are loaded and linked on the way.
  \<^item> \<open>Interpreter\<close>, \<open>InterpreterLoop\<close>, \<open>InterpreterLaws\<close>, \<open>InterpreterRuns\<close>: all instructions, the loop
    with its nested runs, what an instruction may change, and the bound on the nesting.
  \<^item> \<open>StraightLine\<close>: encoder and interpreter together; emitted expressions compute their values,
    for the types without values that operands lose (8 and 16 bits, U32).

  Objects (\<open>lyric_runtime\<close>, \<open>lyric_bootstrap/plugin\<close>):
  \<^item> \<open>Native\<close>: what the native operations share.
  \<^item> \<open>Sequences\<close>, \<open>SequencesLaws\<close>, \<open>SequencesRefinement\<close>: counted ropes refine lists.
  \<^item> \<open>Maps\<close>, \<open>MapsLaws\<close>, \<open>MapsTries\<close>, \<open>MapsRefinement\<close>, \<open>MapsIteration\<close>, \<open>MapsLimits\<close>: counted hash tries
    are persistent maps, as long as three digits of the hashes tell the keys apart; beyond that they are not.
  \<^item> \<open>Closures\<close>, \<open>ClosuresLaws\<close>: an applied closure sees the values that it captured.
  \<^item> \<open>Texts\<close>, \<open>TextsLaws\<close>: bytes and strings; what they hold, not where their ropes are cut (for
    strings: between characters), decides how they compare; a malformed string makes the comparison loop.
  \<^item> \<open>Collector\<close>, \<open>CollectorLaws\<close>, \<open>Collections\<close>: the collector, when it returns, deletes only what its
    marking does not reach, and all of that when no sequence is a concatenation; marking returns exactly on
    acyclic references, and the loops over the queues of the scheduler only on short ones.

  Conventions. A function of the code that changes a state takes it and returns it; a pointer is an
  address in a store or an index, a null pointer \<open>None\<close>. \<open>InterpreterResult\<close> lists how an operation may end
  without succeeding: a status that it returns, an exception, a failed assertion, undefined behaviour.
  Where the code may not return the result is an option whose \<open>None\<close> says so (\<open>partial_function\<close>), and that it
  does return is a property of its own. Fuel is used where code is read instruction by instruction
  (\<open>read_ops\<close>, \<open>skip_argument_loads\<close>): one more than the bytes of the code is enough, because every
  instruction takes a byte (\<open>decoding_terminates\<close>), and \<open>callInline\<close> starts with that. \<open>iterate_all\<close>,
  \<open>seq_collect\<close> and \<open>map_collect\<close>, which only state properties, read an iterator a given number of times.
  Integers have their width where the code can exceed it.

  What comes from outside of the repository is a parameter, collected in the environment records
  (\<open>arith_env\<close>, \<open>call_env\<close>, \<open>interp_env\<close>, \<open>segment_env\<close>, \<open>native_env\<close> and others): the accessors of
  FlatBuffers objects, the checked arithmetic of boost, absl hashing, libuv, the readers and writers of bytes
  of the tempo library, uninitialised memory and fresh addresses. What is assumed of it is a locale
  (\<open>endian\<close>, \<open>bytes_codec\<close>, \<open>arith\<close>) or a hypothesis, and each is interpreted by a concrete instance.

  Not modelled. The compiler, the analyzer, the symbolizer, the importer and the typing of expressions work
  on the symbol caches of the assembler and on the tree of the parser, whose grammar is compiled by ANTLR;
  the walkers of object files read tables whose accessors are generated. The build system is threads, files
  and plugins; the optimizer is unfinished and not called. Of the runtime, ports, connections, loaders
  and the inspector are input and output, and the remaining classes of references are left out.
\<close>

end
